(* ===== verification/Radar_Prelude.thy ===== *)
theory Radar_Prelude
  imports Main "HOL-Library.AList" "HOL-Library.Multiset" "HOL-Library.Sublist"
begin

text \<open>
  What every component shares: the JavaScript values and library operations the sources use
  (optional values and truthiness, insertion-ordered sets and maps, the stable
  \<open>Array.prototype.sort\<close>, the string operations, decimal printing of whole numbers), with the
  lemmas the component proofs rest on.

  Conventions. \<open>undefined\<close> and \<open>null\<close> are \<open>None\<close>; where the code tells them apart the model has
  \<open>'a option option\<close> (\<open>None\<close> is \<open>undefined\<close>, \<open>Some None\<close> is \<open>null\<close>). Strings are lists of UTF-8
  bytes. A \<open>Set\<close> is a distinct list in insertion order, a \<open>Map\<close> an association list in insertion
  order. Whole numbers (counts, epoch milliseconds) are \<open>nat\<close> or \<open>int\<close>.
\<close>

named_theorems js_simps \<open>unfolding rules for the JavaScript operations\<close>
named_theorems js_set_simps \<open>membership and distinctness of insertion-ordered sets\<close>

section \<open>Optional values and truthiness\<close>

definition coalesce :: "'a option \<Rightarrow> 'a \<Rightarrow> 'a" where
  \<comment> \<open>\<open>x ?? d\<close>\<close>
  "coalesce x d = (case x of None \<Rightarrow> d | Some v \<Rightarrow> v)"

definition coalesce_opt :: "'a option \<Rightarrow> 'a option \<Rightarrow> 'a option" where
  \<comment> \<open>\<open>x ?? y\<close> where the default may be absent too\<close>
  "coalesce_opt x y = (case x of None \<Rightarrow> y | Some v \<Rightarrow> Some v)"

definition truthy_str :: "string option \<Rightarrow> bool" where
  \<comment> \<open>a string is truthy when it is present and not empty\<close>
  "truthy_str x = (case x of None \<Rightarrow> False | Some s \<Rightarrow> s \<noteq> [])"

definition truthy_bool :: "bool option \<Rightarrow> bool" where
  "truthy_bool x = (x = Some True)"

definition truthy_num :: "int option \<Rightarrow> bool" where
  "truthy_num x = (case x of None \<Rightarrow> False | Some n \<Rightarrow> n \<noteq> 0)"

definition or_str :: "string option \<Rightarrow> string option \<Rightarrow> string option" where
  \<comment> \<open>\<open>x || y\<close> on optional strings\<close>
  "or_str x y = (if truthy_str x then x else y)"

definition or_else :: "string option \<Rightarrow> string \<Rightarrow> string" where
  \<comment> \<open>\<open>x || 'literal'\<close>\<close>
  "or_else x d = (case x of None \<Rightarrow> d | Some s \<Rightarrow> if s = [] then d else s)"

lemma coalesce_simps [simp]: "coalesce None d = d" "coalesce (Some v) d = v"
  by (simp_all add: coalesce_def)

lemma coalesce_opt_simps [simp]: "coalesce_opt None y = y" "coalesce_opt (Some v) y = Some v"
  by (simp_all add: coalesce_opt_def)

lemma coalesce_opt_None_iff [simp]: "coalesce_opt x y = None \<longleftrightarrow> x = None \<and> y = None"
  by (cases x) auto

lemma truthy_str_simps [simp]: "\<not> truthy_str None" "truthy_str (Some s) \<longleftrightarrow> s \<noteq> []"
  by (simp_all add: truthy_str_def)

lemma truthy_bool_simps [simp]: "\<not> truthy_bool None" "truthy_bool (Some b) \<longleftrightarrow> b"
  by (simp_all add: truthy_bool_def)

lemma truthy_num_simps [simp]: "\<not> truthy_num None" "truthy_num (Some n) \<longleftrightarrow> n \<noteq> 0"
  by (simp_all add: truthy_num_def)

lemma or_else_simps [simp]: "or_else None d = d" "or_else (Some s) d = (if s = [] then d else s)"
  by (simp_all add: or_else_def)

lemma truthy_str_or_str [simp]: "truthy_str (or_str x y) \<longleftrightarrow> truthy_str x \<or> truthy_str y"
  by (simp add: or_str_def)

section \<open>Insertion-ordered sets\<close>

definition set_add :: "'a \<Rightarrow> 'a list \<Rightarrow> 'a list" where
  \<comment> \<open>\<open>Set.prototype.add\<close>\<close>
  "set_add x s = (if x \<in> set s then s else s @ [x])"

definition set_from :: "'a list \<Rightarrow> 'a list" where
  \<comment> \<open>\<open>new Set(xs)\<close>\<close>
  "set_from xs = fold set_add xs []"

lemma set_set_add [simp, js_set_simps]: "set (set_add x s) = insert x (set s)"
  by (auto simp: set_add_def)

lemma distinct_set_add [simp, js_set_simps]: "distinct (set_add x s) \<longleftrightarrow> distinct s"
  by (auto simp: set_add_def)

lemma set_fold_set_add [simp]: "set (fold set_add xs s) = set xs \<union> set s"
  by (induction xs arbitrary: s) auto

lemma distinct_fold_set_add [simp]: "distinct (fold set_add xs s) \<longleftrightarrow> distinct s"
  by (induction xs arbitrary: s) auto

lemma set_set_from [simp, js_set_simps]: "set (set_from xs) = set xs"
  by (simp add: set_from_def)

lemma distinct_set_from [simp, js_set_simps]: "distinct (set_from xs)"
  by (simp add: set_from_def)

lemma set_add_prefix: "prefix s (set_add x s)"
  by (simp add: set_add_def)

section \<open>Insertion-ordered maps\<close>

definition map_from :: "('k \<times> 'v) list \<Rightarrow> ('k \<times> 'v) list" where
  \<comment> \<open>\<open>new Map(entries)\<close>: a later entry replaces the value of an earlier one in its place\<close>
  "map_from kvs = fold (\<lambda>(k, v) m. AList.update k v m) kvs []"

lemma map_of_fold_update:
  "map_of (fold (\<lambda>(k, v) m. AList.update k v m) kvs m) k
     = (case map_of (rev kvs) k of None \<Rightarrow> map_of m k | Some v \<Rightarrow> Some v)"
  by (induction kvs arbitrary: m)
     (auto simp: AList.update_conv' map_add_def split: option.splits)

lemma map_of_map_from: "map_of (map_from kvs) k = map_of (rev kvs) k"
  by (simp add: map_from_def map_of_fold_update split: option.splits)

lemma map_of_rev_distinct:
  assumes "distinct (map fst kvs)"
  shows "map_of (rev kvs) k = map_of kvs k"
proof (cases "map_of kvs k")
  case None
  then have "map_of (rev kvs) k = None" by (simp add: map_of_eq_None_iff)
  with None show ?thesis by simp
next
  case (Some v)
  then have "(k, v) \<in> set (rev kvs)" using map_of_SomeD [of kvs k v] by simp
  moreover have "distinct (map fst (rev kvs))" using assms by (simp add: rev_map [symmetric])
  ultimately have "map_of (rev kvs) k = Some v" by (rule map_of_is_SomeI [rotated])
  with Some show ?thesis by simp
qed

section \<open>Searching and sorting arrays\<close>

text \<open>
  \<open>Array.prototype.find\<close> is the library's \<open>List.find\<close>. \<open>Array.prototype.sort\<close> is stable; a
  comparator gives a number whose sign decides. For a comparator that is a total preorder every
  stable sort gives the same list, so insertion sort stands for the engine's.
\<close>

fun sort_insert :: "('a \<Rightarrow> 'a \<Rightarrow> int) \<Rightarrow> 'a \<Rightarrow> 'a list \<Rightarrow> 'a list" where
  "sort_insert cmp x [] = [x]"
| "sort_insert cmp x (y # ys) = (if cmp x y \<le> 0 then x # y # ys else y # sort_insert cmp x ys)"

definition js_sort :: "('a \<Rightarrow> 'a \<Rightarrow> int) \<Rightarrow> 'a list \<Rightarrow> 'a list" where
  "js_sort cmp xs = foldr (sort_insert cmp) xs []"

lemma js_sort_simps [simp]:
  "js_sort cmp [] = []"
  "js_sort cmp (x # xs) = sort_insert cmp x (js_sort cmp xs)"
  by (simp_all add: js_sort_def)

lemma mset_sort_insert [simp]: "mset (sort_insert cmp x xs) = add_mset x (mset xs)"
  by (induction xs) auto

lemma mset_js_sort [simp]: "mset (js_sort cmp xs) = mset xs"
  by (induction xs) auto

lemma set_js_sort [simp]: "set (js_sort cmp xs) = set xs"
  using mset_eq_setD [OF mset_js_sort] .

lemma length_js_sort [simp]: "length (js_sort cmp xs) = length xs"
  using mset_eq_length [OF mset_js_sort] .

lemma distinct_js_sort [simp]: "distinct (js_sort cmp xs) = distinct xs"
  using mset_js_sort mset_eq_imp_distinct_iff by blast

lemma filter_sort_insert_other:
  "\<not> P x \<Longrightarrow> filter P (sort_insert cmp x xs) = filter P xs"
  by (induction xs) auto

lemma find_some_in: "List.find P xs = Some x \<Longrightarrow> x \<in> set xs \<and> P x"
  by (induction xs) (auto split: if_splits)

lemma find_none_iff: "List.find P xs = None \<longleftrightarrow> (\<forall>x \<in> set xs. \<not> P x)"
  by (induction xs) auto

text \<open>
  A consistent comparator: what the ECMAScript specification asks of the argument of \<open>sort\<close>.
\<close>

locale js_comparator =
  fixes cmp :: "'a \<Rightarrow> 'a \<Rightarrow> int"
  assumes cmp_total: "cmp x y \<le> 0 \<or> cmp y x \<le> 0"
    and cmp_trans: "cmp x y \<le> 0 \<Longrightarrow> cmp y z \<le> 0 \<Longrightarrow> cmp x z \<le> 0"
begin

lemma cmp_refl: "cmp x x \<le> 0"
  using cmp_total [of x x] by simp

lemma sorted_sort_insert:
  "sorted_wrt (\<lambda>a b. cmp a b \<le> 0) xs \<Longrightarrow> sorted_wrt (\<lambda>a b. cmp a b \<le> 0) (sort_insert cmp x xs)"
proof (induction xs)
  case Nil
  then show ?case by simp
next
  case (Cons y ys)
  show ?case
  proof (cases "cmp x y \<le> 0")
    case True
    with Cons.prems show ?thesis by (auto intro: cmp_trans)
  next
    case False
    then have yx: "cmp y x \<le> 0" using cmp_total by blast
    have "set (sort_insert cmp x ys) = insert x (set ys)"
      using mset_eq_setD [of "sort_insert cmp x ys" "x # ys"] by simp
    with Cons False yx show ?thesis by auto
  qed
qed

lemma sorted_js_sort: "sorted_wrt (\<lambda>a b. cmp a b \<le> 0) (js_sort cmp xs)"
  by (induction xs) (auto intro: sorted_sort_insert)

lemma js_sort_hd_least:
  assumes "js_sort cmp xs = y # ys" and "x \<in> set xs"
  shows "cmp y x \<le> 0"
proof -
  have "x \<in> set (y # ys)" using assms by (metis set_js_sort)
  then show ?thesis
    using sorted_js_sort [of xs] assms(1) cmp_refl by auto
qed

lemma sort_insert_stable:
  assumes "sorted_wrt (\<lambda>a b. cmp a b \<le> 0) xs"
    and "\<And>a b. P a \<Longrightarrow> P b \<Longrightarrow> cmp a b \<le> 0" and "P x"
  shows "filter P (sort_insert cmp x xs) = x # filter P xs"
  using assms(1)
proof (induction xs)
  case Nil
  then show ?case using assms(3) by simp
next
  case (Cons y ys)
  then show ?case using assms(2,3) by auto
qed

text \<open>Stability: elements that compare equal keep their order.\<close>

lemma js_sort_stable:
  assumes "\<And>a b. P a \<Longrightarrow> P b \<Longrightarrow> cmp a b \<le> 0"
  shows "filter P (js_sort cmp xs) = filter P xs"
proof (induction xs)
  case Nil
  then show ?case by simp
next
  case (Cons x xs)
  then show ?case
    using assms sort_insert_stable [OF sorted_js_sort, of P x xs]
    by (cases "P x") (auto simp: filter_sort_insert_other)
qed

end

text \<open>
  A comparator that tells unequal elements apart: the sorted list depends on the elements alone.
\<close>

locale js_linear_comparator = js_comparator +
  assumes cmp_antisym: "cmp x y \<le> 0 \<Longrightarrow> cmp y x \<le> 0 \<Longrightarrow> x = y"
begin

lemma sorted_unique:
  assumes "sorted_wrt (\<lambda>a b. cmp a b \<le> 0) xs" and "sorted_wrt (\<lambda>a b. cmp a b \<le> 0) ys" and "mset xs = mset ys"
  shows "xs = ys"
  using assms
proof (induction xs arbitrary: ys)
  case Nil
  then show ?case by simp
next
  case (Cons x xs)
  then obtain y ys' where ys: "ys = y # ys'" by (cases ys) auto
  have x: "x \<in> set ys" and y: "y \<in> set (x # xs)"
    using Cons.prems(3) ys by (metis list.set_intros(1) mset_eq_setD)+
  have "cmp x y \<le> 0" using y Cons.prems(1) cmp_refl by auto
  moreover have "cmp y x \<le> 0" using x Cons.prems(2) cmp_refl by (auto simp: ys)
  ultimately have "x = y" by (rule cmp_antisym)
  then show ?case using Cons ys by simp
qed

lemma js_sort_mset_cong: "mset xs = mset ys \<Longrightarrow> js_sort cmp xs = js_sort cmp ys"
  by (rule sorted_unique) (simp_all add: sorted_js_sort)

lemma js_sort_set_cong: "distinct xs \<Longrightarrow> distinct ys \<Longrightarrow> set xs = set ys \<Longrightarrow> js_sort cmp xs = js_sort cmp ys"
  by (rule js_sort_mset_cong) (simp add: set_eq_iff_mset_eq_distinct)

end

text \<open>Comparators by the difference of a whole-number key, ascending and descending.\<close>

interpretation by_key: js_comparator "\<lambda>x y. f x - (f y :: int)" for f :: "'a \<Rightarrow> int"
  by unfold_locales auto

interpretation by_key_desc: js_comparator "\<lambda>x y. f y - (f x :: int)" for f :: "'a \<Rightarrow> int"
  by unfold_locales auto

text \<open>Two keys, both descending: the second breaks the ties of the first.\<close>

interpretation by_keys_desc: js_comparator "\<lambda>x y. if f y - f x \<noteq> (0::int) then f y - f x else g y - (g x :: int)"
  for f g :: "'a \<Rightarrow> int"
  by unfold_locales (auto split: if_splits)

lemma sort_insert_cong:
  assumes "\<And>y. y \<in> set ys \<Longrightarrow> c x y = c' x y"
  shows "sort_insert c x ys = sort_insert c' x ys"
  using assms by (induction ys) auto

text \<open>Only the comparator's values on the elements matter.\<close>

lemma js_sort_cong:
  assumes "\<And>x y. x \<in> set xs \<Longrightarrow> y \<in> set xs \<Longrightarrow> c x y = c' x y"
  shows "js_sort c xs = js_sort c' xs"
  using assms
proof (induction xs)
  case Nil
  then show ?case by simp
next
  case (Cons x xs)
  then have "js_sort c xs = js_sort c' xs" by simp
  moreover have "sort_insert c x (js_sort c' xs) = sort_insert c' x (js_sort c' xs)"
    using Cons.prems by (intro sort_insert_cong) simp
  ultimately show ?case by simp
qed

section \<open>Strings\<close>

definition bytes_middot :: string where
  \<comment> \<open>U+00B7, the middle dot, in UTF-8\<close>
  "bytes_middot = [CHR 0xC2, CHR 0xB7]"

definition rsq :: string where
  \<comment> \<open>U+2019, the apostrophe, in UTF-8\<close>
  "rsq = [CHR 0xE2, CHR 0x80, CHR 0x99]"

definition starts_with :: "string \<Rightarrow> string \<Rightarrow> bool" where
  "starts_with s p = prefix p s"

definition ends_with :: "string \<Rightarrow> string \<Rightarrow> bool" where
  "ends_with s t = suffix t s"

definition after_last :: "char \<Rightarrow> string \<Rightarrow> string" where
  \<comment> \<open>\<open>s.slice(s.lastIndexOf(c) + 1)\<close>\<close>
  "after_last c s = rev (takeWhile (\<lambda>x. x \<noteq> c) (rev s))"

definition includes_str :: "string \<Rightarrow> string \<Rightarrow> bool" where
  "includes_str s t = sublist t s"

definition is_space :: "char \<Rightarrow> bool" where
  "is_space c = (c \<in> {CHR '' '', CHR 0x09, CHR 0x0A, CHR 0x0B, CHR 0x0C, CHR 0x0D})"

text \<open>
  White space beyond ASCII, in UTF-8: U+00A0, and in three bytes U+1680, U+2000 to U+200A, U+2028,
  U+2029, U+202F, U+205F, U+3000 and U+FEFF. No first byte of these occurs inside a character.
\<close>

definition is_space2 :: "char \<Rightarrow> char \<Rightarrow> bool" where
  "is_space2 c d = (c = CHR 0xC2 \<and> d = CHR 0xA0)"

definition is_space3 :: "char \<Rightarrow> char \<Rightarrow> char \<Rightarrow> bool" where
  "is_space3 c d e =
     (c = CHR 0xE2 \<and> (d = CHR 0x80 \<and> e \<in> {CHR 0x80, CHR 0x81, CHR 0x82, CHR 0x83, CHR 0x84, CHR 0x85, CHR 0x86,
          CHR 0x87, CHR 0x88, CHR 0x89, CHR 0x8A, CHR 0xA8, CHR 0xA9, CHR 0xAF} \<or> d = CHR 0x81 \<and> e = CHR 0x9F)
      \<or> c = CHR 0xE1 \<and> d = CHR 0x9A \<and> e = CHR 0x80
      \<or> c = CHR 0xE3 \<and> d = CHR 0x80 \<and> e = CHR 0x80
      \<or> c = CHR 0xEF \<and> d = CHR 0xBB \<and> e = CHR 0xBF)"

fun starts_space :: "string \<Rightarrow> bool" where
  \<comment> \<open>\<open>/^\s/\<close>\<close>
  "starts_space (c # d # e # s) = (is_space c \<or> is_space2 c d \<or> is_space3 c d e)"
| "starts_space [c, d] = (is_space c \<or> is_space2 c d)"
| "starts_space [c] = is_space c"
| "starts_space [] = False"

fun drop_spaces ::
  "(char \<Rightarrow> char \<Rightarrow> bool) \<Rightarrow> (char \<Rightarrow> char \<Rightarrow> char \<Rightarrow> bool) \<Rightarrow> string \<Rightarrow> string" where
  \<comment> \<open>with the white space of two and of three bytes, in the direction of reading\<close>
  "drop_spaces two three [] = []"
| "drop_spaces two three [c] = (if is_space c then [] else [c])"
| "drop_spaces two three [c, d] =
     (if is_space c then drop_spaces two three [d] else if two c d then [] else [c, d])"
| "drop_spaces two three (c # d # e # s) =
     (if is_space c then drop_spaces two three (d # e # s)
      else if two c d then drop_spaces two three (e # s)
      else if three c d e then drop_spaces two three s
      else c # d # e # s)"

definition trim_start :: "string \<Rightarrow> string" where
  "trim_start s = drop_spaces is_space2 is_space3 s"

definition trim :: "string \<Rightarrow> string" where
  "trim s = rev (drop_spaces (\<lambda>d c. is_space2 c d) (\<lambda>e d c. is_space3 c d e) (rev (trim_start s)))"

lemma trim_example: "trim [CHR 0xC2, CHR 0xA0, CHR ''a'', CHR '' '', CHR 0xE2, CHR 0x80, CHR 0x89] = ''a''"
  by code_simp

fun take_word :: "string \<Rightarrow> string" where
  \<comment> \<open>\<open>/^\S*/\<close>\<close>
  "take_word [] = []"
| "take_word (c # s) = (if starts_space (c # s) then [] else c # take_word s)"

lemma length_drop_spaces: "length (drop_spaces two three s) \<le> length s"
  by (induction two three s rule: drop_spaces.induct) auto

lemma length_trim_start:
  assumes "starts_space s"
  shows "length (trim_start s) < length s"
proof -
  note le = length_drop_spaces [of is_space2 is_space3]
  show ?thesis
    using assms unfolding trim_start_def
    by (cases s rule: starts_space.cases) (auto simp: less_Suc_eq_le intro: le order_trans [OF le])
qed

definition lower_char :: "char \<Rightarrow> char" where
  "lower_char c = (let n = of_char c :: nat in
     if 65 \<le> n \<and> n \<le> 90 then char_of (n + 32) else c)"

definition upper_char :: "char \<Rightarrow> char" where
  "upper_char c = (let n = of_char c :: nat in
     if 97 \<le> n \<and> n \<le> 122 then char_of (n - 32) else c)"

text \<open>The same on the bits of a character, which is what evaluation uses.\<close>

lemma lower_char_bits [code]:
  "lower_char (Char b0 b1 b2 b3 b4 b5 b6 b7) =
     (if \<not> b7 \<and> b6 \<and> \<not> b5 \<and> (b0 \<or> b1 \<or> b2 \<or> b3 \<or> b4) \<and> \<not> (b4 \<and> b3 \<and> (b2 \<or> b1 \<and> b0))
      then Char b0 b1 b2 b3 b4 True b6 b7 else Char b0 b1 b2 b3 b4 b5 b6 b7)"
  by (cases b0; cases b1; cases b2; cases b3; cases b4; cases b5; cases b6; cases b7)
     (simp_all add: lower_char_def char_of_def bit_0)

lemma upper_char_bits [code]:
  "upper_char (Char b0 b1 b2 b3 b4 b5 b6 b7) =
     (if \<not> b7 \<and> b6 \<and> b5 \<and> (b0 \<or> b1 \<or> b2 \<or> b3 \<or> b4) \<and> \<not> (b4 \<and> b3 \<and> (b2 \<or> b1 \<and> b0))
      then Char b0 b1 b2 b3 b4 False b6 b7 else Char b0 b1 b2 b3 b4 b5 b6 b7)"
  by (cases b0; cases b1; cases b2; cases b3; cases b4; cases b5; cases b6; cases b7)
     (simp_all add: upper_char_def char_of_def bit_0)

definition to_lower :: "string \<Rightarrow> string" where
  \<comment> \<open>\<open>toLowerCase\<close> on ASCII; other bytes are left alone\<close>
  "to_lower s = map lower_char s"

definition to_upper :: "string \<Rightarrow> string" where
  "to_upper s = map upper_char s"

fun join :: "string \<Rightarrow> string list \<Rightarrow> string" where
  "join sep [] = []"
| "join sep [x] = x"
| "join sep (x # y # zs) = x @ sep @ join sep (y # zs)"

definition digit_char :: "nat \<Rightarrow> char" where
  "digit_char d = char_of (48 + d)"

function show_nat :: "nat \<Rightarrow> string" where
  "show_nat n = (if n < 10 then [digit_char n] else show_nat (n div 10) @ [digit_char (n mod 10)])"
  by pat_completeness auto
termination
  by (relation "measure id") auto

declare show_nat.simps [simp del]

definition show_int :: "int \<Rightarrow> string" where
  "show_int z = (if z < 0 then ''-'' @ show_nat (nat (- z)) else show_nat (nat z))"

lemma show_nat_small [simp]: "n < 10 \<Longrightarrow> show_nat n = [digit_char n]"
  by (subst show_nat.simps) simp

lemma show_nat_nonempty [simp]: "show_nat n \<noteq> []"
  by (subst show_nat.simps) simp

lemma show_int_nonempty [simp]: "show_int z \<noteq> []"
  by (simp add: show_int_def)

text \<open>Printing a whole number and reading its digits.\<close>

definition read_nat :: "string \<Rightarrow> nat" where
  "read_nat s = foldl (\<lambda>n c. n * 10 + (of_char c - 48)) 0 s"

lemma of_digit_char [simp]: "d < 10 \<Longrightarrow> of_char (digit_char d) = (48 + d :: nat)"
  by (simp add: digit_char_def)

lemma read_show_nat [simp]: "read_nat (show_nat n) = n"
proof (induction n rule: show_nat.induct)
  case (1 n)
  show ?case
  proof (cases "n < 10")
    case True
    then show ?thesis by (simp add: read_nat_def)
  next
    case False
    then have "show_nat n = show_nat (n div 10) @ [digit_char (n mod 10)]"
      by (subst show_nat.simps) simp
    with 1 [OF False] show ?thesis by (simp add: read_nat_def)
  qed
qed

lemma show_nat_inject [simp]: "show_nat m = show_nat n \<longleftrightarrow> m = n"
  by (metis read_show_nat)

lemma show_nat_digits: "c \<in> set (show_nat n) \<Longrightarrow> 48 \<le> (of_char c :: nat) \<and> (of_char c :: nat) \<le> 57"
proof (induction n rule: show_nat.induct)
  case (1 n)
  then show ?case
    by (subst (asm) (2) show_nat.simps) (auto split: if_splits)
qed

lemma show_int_chars: "c \<in> set (show_int z) \<Longrightarrow> c = CHR ''-'' \<or> (48 \<le> (of_char c :: nat) \<and> (of_char c :: nat) \<le> 57)"
  by (auto simp: show_int_def split: if_splits dest: show_nat_digits)

lemma minus_not_digit: "CHR ''-'' \<notin> set (show_nat n)"
  by (auto dest: show_nat_digits)

lemma show_int_inject [simp]: "show_int y = show_int z \<longleftrightarrow> y = z"
proof
  assume eq: "show_int y = show_int z"
  have "(y < 0) = (CHR ''-'' \<in> set (show_int y))" for y
    using minus_not_digit by (auto simp: show_int_def)
  then have "(y < 0) = (z < 0)" using eq by metis
  with eq show "y = z" by (auto simp: show_int_def eq_nat_nat_iff split: if_splits)
qed simp

text \<open>The code point at which a separator first splits a string: \<open>indexOf\<close> and \<open>split\<close>.\<close>

definition before_char :: "char \<Rightarrow> string \<Rightarrow> string" where
  \<comment> \<open>\<open>s.split(c)[0]\<close>\<close>
  "before_char c s = takeWhile (\<lambda>x. x \<noteq> c) s"

fun split_char :: "char \<Rightarrow> string \<Rightarrow> string list" where
  \<comment> \<open>\<open>s.split(c)\<close>\<close>
  "split_char c [] = [[]]"
| "split_char c (x # xs) =
     (if x = c then [] # split_char c xs
      else (case split_char c xs of [] \<Rightarrow> [[x]] | w # ws \<Rightarrow> (x # w) # ws))"

lemma split_char_nonempty [simp]: "split_char c s \<noteq> []"
  by (induction s) (auto split: list.splits)

lemma append_sep_inject:
  assumes "c \<notin> set xs" and "c \<notin> set ys" and "xs @ c # as = ys @ c # bs"
  shows "xs = ys \<and> as = bs"
  using assms by (induction xs arbitrary: ys) (auto simp: Cons_eq_append_conv)

text \<open>The order of strings by code, which \<open>sort()\<close> uses without a comparator.\<close>

fun str_cmp :: "string \<Rightarrow> string \<Rightarrow> int" where
  "str_cmp [] [] = 0"
| "str_cmp [] (y # ys) = -1"
| "str_cmp (x # xs) [] = 1"
| "str_cmp (x # xs) (y # ys) = (if x = y then str_cmp xs ys else of_char x - of_char y)"

lemma str_cmp_refl [simp]: "str_cmp xs xs = 0"
  by (induction xs) auto

lemma str_cmp_trans: "str_cmp xs ys \<le> 0 \<Longrightarrow> str_cmp ys zs \<le> 0 \<Longrightarrow> str_cmp xs zs \<le> 0"
proof (induction xs ys arbitrary: zs rule: str_cmp.induct)
  case (4 x xs y ys)
  then show ?case by (cases zs) (auto split: if_splits)
next
  case (2 y ys)
  then show ?case by (cases zs) auto
qed auto

interpretation by_code: js_linear_comparator str_cmp
proof
  show "str_cmp x y \<le> 0 \<or> str_cmp y x \<le> 0" for x y
    by (induction x y rule: str_cmp.induct) auto
  show "str_cmp x y \<le> 0 \<Longrightarrow> str_cmp y z \<le> 0 \<Longrightarrow> str_cmp x z \<le> 0" for x y z
    by (rule str_cmp_trans)
  show "str_cmp x y \<le> 0 \<Longrightarrow> str_cmp y x \<le> 0 \<Longrightarrow> x = y" for x y
    by (induction x y rule: str_cmp.induct) (auto split: if_splits)
qed

section \<open>Values of unknown shape\<close>

text \<open>
  \<open>unknown\<close> and \<open>any\<close> payloads are JSON values; an object is an association list in insertion
  order, so \<open>{...o, [k]: v}\<close> is \<open>AList.update\<close>. Numbers in these payloads are whole.
\<close>

datatype json = JNull | JBool bool | JNum int | JStr string | JArr "json list" | JObj "(string \<times> json) list"

type_synonym json_record = "(string \<times> json) list"

definition json_truthy :: "json option \<Rightarrow> bool" where
  \<comment> \<open>\<open>!!v\<close>\<close>
  "json_truthy v = (case v of None \<Rightarrow> False | Some JNull \<Rightarrow> False | Some (JBool b) \<Rightarrow> b
     | Some (JNum n) \<Rightarrow> n \<noteq> 0 | Some (JStr s) \<Rightarrow> s \<noteq> [] | Some (JArr xs) \<Rightarrow> True | Some (JObj kvs) \<Rightarrow> True)"

definition json_str :: "json option \<Rightarrow> string option" where
  \<comment> \<open>\<open>typeof v === 'string' ? v : undefined\<close>\<close>
  "json_str v = (case v of Some (JStr s) \<Rightarrow> Some s | _ \<Rightarrow> None)"

lemma json_str_simps [simp]: "json_str None = None" "json_str (Some (JStr s)) = Some s"
  by (simp_all add: json_str_def)

definition json_strings :: "json list \<Rightarrow> string list" where
  \<comment> \<open>an array whose elements are strings\<close>
  "json_strings xs = List.map_filter (\<lambda>x. json_str (Some x)) xs"

definition json_string_array :: "json option \<Rightarrow> string list" where
  \<comment> \<open>\<open>(v as string[] | undefined) ?? []\<close>\<close>
  "json_string_array v = (case v of Some (JArr xs) \<Rightarrow> json_strings xs | _ \<Rightarrow> [])"

definition json_get :: "json option \<Rightarrow> string \<Rightarrow> json option" where
  \<comment> \<open>\<open>v?.k\<close>\<close>
  "json_get v k = (case v of Some (JObj kvs) \<Rightarrow> map_of kvs k | _ \<Rightarrow> None)"

definition json_coalesce :: "json option \<Rightarrow> json \<Rightarrow> json" where
  \<comment> \<open>\<open>v ?? d\<close>\<close>
  "json_coalesce v d = (case v of None \<Rightarrow> d | Some JNull \<Rightarrow> d | Some x \<Rightarrow> x)"

fun js_string :: "json \<Rightarrow> string" where
  \<comment> \<open>\<open>String(v)\<close>\<close>
  "js_string JNull = ''null''"
| "js_string (JBool b) = (if b then ''true'' else ''false'')"
| "js_string (JNum n) = show_int n"
| "js_string (JStr s) = s"
| "js_string (JArr xs) = join '','' (map (\<lambda>x. if x = JNull then [] else js_string x) xs)"
| "js_string (JObj kvs) = ''[object Object]''"

definition json_path :: "json option \<Rightarrow> string list \<Rightarrow> json option" where
  \<comment> \<open>\<open>v?.a?.b\<close>\<close>
  "json_path v ks = fold (\<lambda>k v. json_get v k) ks v"

definition json_int :: "json option \<Rightarrow> int \<Rightarrow> int" where
  \<comment> \<open>\<open>v ?? d\<close> of a count\<close>
  "json_int v d = (case v of Some (JNum n) \<Rightarrow> n | _ \<Rightarrow> d)"

definition json_or :: "json option \<Rightarrow> json option \<Rightarrow> json option" where
  "json_or v w = (if json_truthy v then v else w)"

definition json_list :: "json option \<Rightarrow> json list" where
  \<comment> \<open>\<open>v || []\<close> of an array\<close>
  "json_list v = (case v of Some (JArr xs) \<Rightarrow> xs | _ \<Rightarrow> [])"

definition json_text :: "json option \<Rightarrow> string" where
  \<comment> \<open>a value in a template or as an argument of \<open>String\<close>\<close>
  "json_text v = (case v of None \<Rightarrow> ''undefined'' | Some j \<Rightarrow> js_string j)"

definition text_or :: "json option \<Rightarrow> string \<Rightarrow> string" where
  \<comment> \<open>\<open>v || 'literal'\<close>\<close>
  "text_or v d = (if json_truthy v then json_text v else d)"

definition truthy_texts :: "json option list \<Rightarrow> string list" where
  \<comment> \<open>\<open>.filter(Boolean)\<close>, as text for \<open>join\<close>\<close>
  "truthy_texts vs = map json_text (filter json_truthy vs)"

definition str_if :: "bool \<Rightarrow> string \<Rightarrow> string" where
  \<comment> \<open>\<open>c ? s : ''\<close> in a template\<close>
  "str_if c s = (if c then s else [])"

section \<open>References to resources\<close>

text \<open>\<open>ResourceRef\<close> of \<open>types/core.ts\<close>, which several components exchange.\<close>

record resource_ref =
  rr_kind :: string
  rr_namespace :: string
  rr_name :: string
  rr_group :: "string option"

datatype health_status = StHealthy | StDegraded | StUnhealthy | StNeutral | StUnknown

end
