(* ===== verification/Gitops_Write_Guard.thy ===== *)
theory Gitops_Write_Guard
  imports Radar_Prelude
begin

text \<open>
  The GitOps write guard (\<open>packages/k8s-ui/src/utils/gitops-write-guard.ts\<close>) and the owner
  mapping it takes its owner from (\<open>gitops-owner.ts\<close>): before a direct write to a live object, it
  says whether the GitOps tool or Helm release that manages the object will put the old value back.
  The records follow the interfaces field by field, the classifiers are one definition per
  function, and \<open>evaluate_git_ops_write_guard\<close> composes them as the code does.
\<close>

section \<open>Owners\<close>

datatype git_ops_owner_tool = Argocd | Fluxcd

datatype git_ops_owner_kind = Applications | Kustomizations | Helmreleases

datatype flux_owner_kind = FluxKustomizations | FluxHelmreleases

datatype git_ops_owner_ref =
    ArgoOwner (owner_namespace: string) (owner_name: string)
  | FluxOwner flux_owner_kind (owner_namespace: string) (owner_name: string)

fun owner_tool :: "git_ops_owner_ref \<Rightarrow> git_ops_owner_tool" where
  "owner_tool (ArgoOwner ns n) = Argocd"
| "owner_tool (FluxOwner k ns n) = Fluxcd"

fun owner_kind :: "git_ops_owner_ref \<Rightarrow> git_ops_owner_kind" where
  "owner_kind (ArgoOwner ns n) = Applications"
| "owner_kind (FluxOwner FluxKustomizations ns n) = Kustomizations"
| "owner_kind (FluxOwner FluxHelmreleases ns n) = Helmreleases"

definition git_ops_owner_from_ref :: "resource_ref \<Rightarrow> git_ops_owner_ref option" where
  "git_ops_owner_from_ref ref =
     (if rr_kind ref = ''Application'' \<and> rr_group ref = Some ''argoproj.io''
      then Some (ArgoOwner (rr_namespace ref) (rr_name ref))
      else if rr_kind ref = ''Kustomization'' \<and> rr_group ref = Some ''kustomize.toolkit.fluxcd.io''
      then Some (FluxOwner FluxKustomizations (rr_namespace ref) (rr_name ref))
      else if rr_kind ref = ''HelmRelease'' \<and> rr_group ref = Some ''helm.toolkit.fluxcd.io''
      then Some (FluxOwner FluxHelmreleases (rr_namespace ref) (rr_name ref))
      else None)"

definition git_ops_owner_from_relationships :: "resource_ref list option option \<Rightarrow> git_ops_owner_ref option" where
  \<comment> \<open>the argument is \<open>rel?.managedBy\<close>: an absent \<open>Relationships\<close>, or one without \<open>managedBy\<close>\<close>
  "git_ops_owner_from_relationships rel =
     (case rel of
        Some (Some (ref # _)) \<Rightarrow> git_ops_owner_from_ref ref
      | _ \<Rightarrow> None)"

section \<open>Writes, evidence and guards\<close>

datatype git_ops_write_scope = ScopeStatus | ScopeMetadata | ScopeSpec | ScopeCreateChild | ScopeDelete

record git_ops_write =
  w_scope :: git_ops_write_scope
  w_paths :: "string list option"
  w_description :: "string option"

record git_ops_write_target =
  t_kind :: string
  t_group :: string
  t_namespace :: string
  t_name :: string

datatype git_ops_write_level = LNone | LInfo | LMayRevert | LWillRevert

record git_ops_sync_policy =
  sp_tool :: git_ops_owner_tool
  sp_auto :: "bool option"
  sp_self_heal :: "bool option"
  sp_prune :: "bool option"
  sp_suspended :: "bool option"
  sp_interval :: "string option"

record git_ops_write_helm_release =
  hr_namespace :: string
  hr_name :: string

record git_ops_write_operator_owner =
  oo_kind :: string
  oo_name :: string

datatype field_owner_tool = FoArgocd | FoFluxcd | FoHelm

record git_ops_field_owner_evidence =
  fo_manager :: string
  fo_operation :: string
  fo_subresource :: "string option"
  fo_tool :: "field_owner_tool option"
  fo_approximate :: "bool option"

datatype last_applied = AppliedPresent | AppliedAbsent | NoAnnotation

datatype ignored_mode = IgnoredEffective | IgnoredComparisonOnly | IgnoredUnevaluated

record git_ops_path_evidence =
  pe_path :: string
  pe_error :: "string option"
  pe_last_applied :: last_applied
  pe_owned_by :: "git_ops_field_owner_evidence list"
  pe_owned_by_git_ops :: bool
  pe_approximate :: "bool option"
  pe_partial :: "bool option"
  pe_empty :: "bool option"
  pe_ignored :: "ignored_mode option"
  pe_ignored_by :: "string option"

datatype object_reconcile = ReconcileIgnore | ReconcileIfNotPresent

record git_ops_write_policy_evidence =
  po_tool :: git_ops_owner_tool
  po_auto :: "bool option"
  po_self_heal :: "bool option"
  po_prune :: "bool option"
  po_suspended :: "bool option"
  po_interval :: "string option"
  po_respect_ignore_differences :: "bool option"
  po_server_side_apply :: "bool option"
  po_replace :: "bool option"
  po_drift_detection :: "string option"
  po_object_reconcile :: "object_reconcile option"

record evidence_owner =
  eo_kind :: string
  eo_group :: "string option"
  eo_namespace :: string
  eo_name :: string

record controller_owner =
  co_api_version :: string
  co_kind :: string
  co_name :: string

record git_ops_write_evidence =
  ev_uid :: string
  ev_resource_version :: string
  ev_owner :: "evidence_owner option"
  ev_policy :: "git_ops_write_policy_evidence option"
  ev_policy_error :: "string option"
  ev_controller_owner :: "controller_owner option"
  ev_owner_tracks_target :: "bool option"
  ev_paths :: "git_ops_path_evidence list"

text \<open>
  \<open>operatorOwner\<close> is the one field whose \<open>undefined\<close> and \<open>null\<close> differ: \<open>undefined\<close> falls back to
  the evidence's controller owner, \<open>null\<close> does not.
\<close>

record git_ops_write_guard_input =
  in_target :: git_ops_write_target
  in_owner :: "git_ops_owner_ref option"
  in_helm_release :: "git_ops_write_helm_release option"
  in_operator_owner :: "git_ops_write_operator_owner option option"
  in_owner_pending :: "bool option"
  in_ownership_error :: "string option"
  in_owner_matched_by_name :: "bool option"
  in_evidence :: "git_ops_write_evidence option"
  in_evidence_error :: "string option"
  in_writes :: "git_ops_write list"

record git_ops_write_assessment =
  as_write :: git_ops_write
  as_level :: git_ops_write_level
  as_reason :: string

record git_ops_write_guard =
  g_owner :: "git_ops_owner_ref option"
  g_helm_release :: "git_ops_write_helm_release option"
  g_pending :: bool
  g_level :: git_ops_write_level
  g_per_write :: "git_ops_write_assessment list"
  g_summary :: string
  g_sync_policy :: "git_ops_sync_policy option"
  g_requires_ack :: bool
  g_ownership_error :: "string option"

section \<open>Levels\<close>

fun level_rank :: "git_ops_write_level \<Rightarrow> nat" where
  "level_rank LNone = 0"
| "level_rank LInfo = 1"
| "level_rank LMayRevert = 2"
| "level_rank LWillRevert = 3"

definition max_level :: "git_ops_write_level \<Rightarrow> git_ops_write_level \<Rightarrow> git_ops_write_level" where
  "max_level a b = (if level_rank b > level_rank a then b else a)"

lemma level_rank_inject: "level_rank a = level_rank b \<Longrightarrow> a = b"
  by (cases a; cases b) simp_all

text \<open>The ranks order the levels; \<open>max_level\<close> is the maximum of that order.\<close>

instantiation git_ops_write_level :: linorder
begin

definition less_eq_git_ops_write_level :: "git_ops_write_level \<Rightarrow> git_ops_write_level \<Rightarrow> bool" where
  "a \<le> b \<longleftrightarrow> level_rank a \<le> level_rank b"

definition less_git_ops_write_level :: "git_ops_write_level \<Rightarrow> git_ops_write_level \<Rightarrow> bool" where
  "a < b \<longleftrightarrow> level_rank a < level_rank b"

instance
proof
  fix a b c :: git_ops_write_level
  show "a < b \<longleftrightarrow> a \<le> b \<and> \<not> b \<le> a"
    by (auto simp: less_eq_git_ops_write_level_def less_git_ops_write_level_def)
  show "a \<le> a" by (simp add: less_eq_git_ops_write_level_def)
  show "a \<le> b \<Longrightarrow> b \<le> c \<Longrightarrow> a \<le> c"
    by (simp add: less_eq_git_ops_write_level_def)
  show "a \<le> b \<Longrightarrow> b \<le> a \<Longrightarrow> a = b"
    by (simp add: less_eq_git_ops_write_level_def level_rank_inject)
  show "a \<le> b \<or> b \<le> a"
    by (auto simp: less_eq_git_ops_write_level_def)
qed

end

lemmas level_order_defs = less_eq_git_ops_write_level_def less_git_ops_write_level_def

lemma level_least [simp]: "LNone \<le> l"
  by (cases l) (simp_all add: level_order_defs)

lemma level_ranks [simp]:
  "LInfo \<le> LNone \<longleftrightarrow> False" "LMayRevert \<le> LNone \<longleftrightarrow> False" "LWillRevert \<le> LNone \<longleftrightarrow> False"
  "LMayRevert \<le> LInfo \<longleftrightarrow> False" "LWillRevert \<le> LInfo \<longleftrightarrow> False" "LWillRevert \<le> LMayRevert \<longleftrightarrow> False"
  "LInfo \<le> LMayRevert" "LInfo \<le> LWillRevert" "LMayRevert \<le> LWillRevert"
  by (simp_all add: level_order_defs)

lemma le_info_iff: "l \<le> LInfo \<longleftrightarrow> l = LNone \<or> l = LInfo"
  by (cases l) simp_all

lemma le_none_iff [simp]: "l \<le> LNone \<longleftrightarrow> l = LNone"
  by (cases l) simp_all

lemma max_level_eq: "max_level a b = max a b"
  by (auto simp: max_level_def max_def level_order_defs level_rank_inject)

section \<open>Names and labels\<close>

datatype tool_label_arg = ToolArgocd | ToolFluxcd | ToolHelm

fun git_ops_tool_label :: "tool_label_arg \<Rightarrow> string" where
  "git_ops_tool_label ToolArgocd = ''Argo CD''"
| "git_ops_tool_label ToolFluxcd = ''Flux''"
| "git_ops_tool_label ToolHelm = ''Helm''"

fun tool_arg :: "git_ops_owner_tool \<Rightarrow> tool_label_arg" where
  "tool_arg Argocd = ToolArgocd"
| "tool_arg Fluxcd = ToolFluxcd"

abbreviation tool_label :: "git_ops_owner_ref \<Rightarrow> string" where
  "tool_label owner \<equiv> git_ops_tool_label (tool_arg (owner_tool owner))"

fun owner_kind_label :: "git_ops_owner_kind \<Rightarrow> string" where
  "owner_kind_label Applications = ''Application''"
| "owner_kind_label Kustomizations = ''Kustomization''"
| "owner_kind_label Helmreleases = ''HelmRelease''"

definition describe_git_ops_owner :: "git_ops_owner_ref \<Rightarrow> string" where
  "describe_git_ops_owner owner =
     (let ref = (if owner_namespace owner \<noteq> [] then owner_namespace owner @ ''/'' @ owner_name owner
                 else owner_name owner)
      in tool_label owner @ '' '' @ owner_kind_label (owner_kind owner) @ '' '' @ ref)"

definition owner_kind_ref :: "git_ops_owner_ref \<Rightarrow> string" where
  "owner_kind_ref owner = ''the '' @ owner_kind_label (owner_kind owner)"

definition capitalize :: "string \<Rightarrow> string" where
  "capitalize s = to_upper (take 1 s) @ drop 1 s"

definition guard_tool_label :: "git_ops_write_guard \<Rightarrow> string" where
  "guard_tool_label g =
     (case g_owner g of
        Some owner \<Rightarrow> tool_label owner
      | None \<Rightarrow> (case g_helm_release g of Some _ \<Rightarrow> ''Helm'' | None \<Rightarrow> ''a GitOps tool''))"

fun scope_name :: "git_ops_write_scope \<Rightarrow> string" where
  "scope_name ScopeStatus = ''status''"
| "scope_name ScopeMetadata = ''metadata''"
| "scope_name ScopeSpec = ''spec''"
| "scope_name ScopeCreateChild = ''create-child''"
| "scope_name ScopeDelete = ''delete''"

fun level_name :: "git_ops_write_level \<Rightarrow> string" where
  "level_name LNone = ''none''"
| "level_name LInfo = ''info''"
| "level_name LMayRevert = ''may-revert''"
| "level_name LWillRevert = ''will-revert''"

fun owner_kind_name :: "git_ops_owner_kind \<Rightarrow> string" where
  "owner_kind_name Applications = ''applications''"
| "owner_kind_name Kustomizations = ''kustomizations''"
| "owner_kind_name Helmreleases = ''helmreleases''"

definition git_ops_write_guard_key :: "git_ops_write_guard option \<Rightarrow> string" where
  "git_ops_write_guard_key guard =
     (case guard of
        None \<Rightarrow> []
      | Some g \<Rightarrow>
          if g_pending g then []
          else let owner =
                 (case g_owner g of
                    Some o' \<Rightarrow> owner_kind_name (owner_kind o') @ ''/'' @ owner_namespace o' @ ''/'' @ owner_name o'
                  | None \<Rightarrow> (case g_helm_release g of
                      Some h \<Rightarrow> ''helm/'' @ hr_namespace h @ ''/'' @ hr_name h
                    | None \<Rightarrow> []))
               in join ''|'' ([level_name (g_level g), owner, coalesce (g_ownership_error g) []] @
                    map (\<lambda>w. scope_name (w_scope (as_write w)) @ '':''
                           @ join '','' (coalesce (w_paths (as_write w)) []) @ '':''
                           @ level_name (as_level w) @ '':'' @ as_reason w) (g_per_write g)))"

definition can_confirm_git_ops_write :: "git_ops_write_guard option \<Rightarrow> bool \<Rightarrow> bool" where
  "can_confirm_git_ops_write guard acked =
     (case guard of
        None \<Rightarrow> False
      | Some g \<Rightarrow> if g_pending g then False else \<not> g_requires_ack g \<or> acked)"

definition git_ops_sync_policy_of :: "git_ops_write_policy_evidence option \<Rightarrow> git_ops_sync_policy option" where
  "git_ops_sync_policy_of policy =
     (case policy of
        None \<Rightarrow> None
      | Some p \<Rightarrow> Some \<lparr>sp_tool = po_tool p, sp_auto = po_auto p, sp_self_heal = po_self_heal p,
          sp_prune = po_prune p, sp_suspended = po_suspended p,
          sp_interval = (if truthy_str (po_interval p) then po_interval p else None)\<rparr>)"

definition git_ops_write_evidence_paths :: "git_ops_write list \<Rightarrow> string list" where
  "git_ops_write_evidence_paths writes =
     fold (\<lambda>write paths.
        if w_scope write = ScopeMetadata \<or> w_scope write = ScopeSpec
        then fold set_add (coalesce (w_paths write) []) paths
        else paths) writes []"

section \<open>Classification\<close>

record verdict =
  v_level :: git_ops_write_level
  v_reason :: string

record guard_context =
  c_input :: git_ops_write_guard_input
  c_owner :: git_ops_owner_ref
  c_policy :: "git_ops_write_policy_evidence option"
  c_policy_unknown :: string

abbreviation verdict :: "git_ops_write_level \<Rightarrow> string \<Rightarrow> verdict" where
  "verdict l r \<equiv> \<lparr>v_level = l, v_reason = r\<rparr>"

definition apostrophe_s :: string where
  "apostrophe_s = [CHR 0x27, CHR ''s'']"

definition next_sync :: "guard_context \<Rightarrow> string" where
  "next_sync ctx =
     (if owner_tool (c_owner ctx) = Argocd then ''the next sync''
      else ''the next reconcile'' @
        (case c_policy ctx of
           None \<Rightarrow> []
         | Some p \<Rightarrow> if truthy_str (po_interval p) then '' (every '' @ coalesce (po_interval p) [] @ '')'' else []))"

definition declared_outcome :: "guard_context \<Rightarrow> verdict" where
  "declared_outcome ctx =
     (let owner = c_owner ctx in
      case c_policy ctx of
        None \<Rightarrow> verdict LMayRevert
          (''Radar couldn't read '' @ owner_kind_ref owner @ apostrophe_s @ '' sync policy ('' @ c_policy_unknown ctx
            @ ''); the next sync will overwrite it.'')
      | Some policy \<Rightarrow>
          if truthy_bool (po_suspended policy)
          then verdict LMayRevert
            (capitalize (owner_kind_ref owner) @ '' is suspended; resuming it will overwrite this change.'')
          else if truthy_bool (po_self_heal policy)
          then verdict LWillRevert (''It will be overwritten at '' @ next_sync ctx @ ''.'')
          else if owner_kind owner = Helmreleases
          then verdict LMayRevert
            (''Drift detection is '' @ or_else (po_drift_detection policy) ''disabled''
              @ '', so it stays until the next Helm upgrade by Flux overwrites it.'')
          else if owner_tool owner = Argocd \<and> truthy_bool (po_auto policy)
          then verdict LMayRevert ''Self-heal is off; the next sync will overwrite it.''
          else verdict LMayRevert ''Auto-sync is off; the next sync will overwrite it.'')"


definition evidence_note :: "git_ops_path_evidence \<Rightarrow> git_ops_owner_ref \<Rightarrow> string" where
  "evidence_note ev owner =
     (let same_tool = (\<lambda>o'. fo_tool o' = Some (case owner_tool owner of Argocd \<Rightarrow> FoArgocd | Fluxcd \<Rightarrow> FoFluxcd)
                              \<and> \<not> truthy_str (fo_subresource o'));
          manager = map_option fo_manager (List.find same_tool (pe_owned_by ev))
      in if pe_owned_by_git_ops ev \<and> truthy_str manager
         then coalesce manager [] @ '' '' @ (if truthy_bool (pe_approximate ev) then ''manages'' else ''owns'')
              @ '' this field''
         else ''the last applied configuration sets this field'')"

definition find_path_evidence :: "git_ops_write_evidence option \<Rightarrow> string \<Rightarrow> git_ops_path_evidence option" where
  \<comment> \<open>\<open>evidence?.paths.find((p) => p.path === path)\<close>\<close>
  "find_path_evidence evidence path =
     (case evidence of None \<Rightarrow> None | Some e \<Rightarrow> List.find (\<lambda>p. pe_path p = path) (ev_paths e))"

definition path_evidence :: "guard_context \<Rightarrow> string option \<Rightarrow> git_ops_path_evidence option" where
  \<comment> \<open>\<open>path ? find : undefined\<close>\<close>
  "path_evidence ctx path =
     (case path of
        None \<Rightarrow> None
      | Some q \<Rightarrow> if q = [] then None else find_path_evidence (in_evidence (c_input ctx)) q)"

definition policy_reconcile :: "guard_context \<Rightarrow> object_reconcile option" where
  "policy_reconcile ctx = Option.bind (c_policy ctx) po_object_reconcile"

definition policy_replaces :: "guard_context \<Rightarrow> bool" where
  "policy_replaces ctx = truthy_bool (Option.bind (c_policy ctx) po_replace)"

definition ev_ignored_mode :: "git_ops_path_evidence option \<Rightarrow> ignored_mode option" where
  "ev_ignored_mode ev = Option.bind ev pe_ignored"

definition ev_ignored_by_or :: "git_ops_path_evidence option \<Rightarrow> string \<Rightarrow> string" where
  "ev_ignored_by_or ev d = coalesce (Option.bind ev pe_ignored_by) d"

definition ev_declared :: "git_ops_path_evidence option \<Rightarrow> bool" where
  "ev_declared ev =
     (case ev of
        None \<Rightarrow> False
      | Some e \<Rightarrow> \<not> truthy_str (pe_error e) \<and> (pe_last_applied e = AppliedPresent \<or> pe_owned_by_git_ops e))"

definition ev_empty :: "git_ops_path_evidence option \<Rightarrow> bool" where
  "ev_empty ev = truthy_bool (Option.bind ev pe_empty)"

definition helm_exemption :: "guard_context \<Rightarrow> git_ops_path_evidence option \<Rightarrow> string option" where
  "helm_exemption ctx ev =
     (if owner_kind (c_owner ctx) = Helmreleases
      then if policy_reconcile ctx = Some ReconcileIgnore then Some ''the object opts out of drift detection''
           else if ev_ignored_mode ev = Some IgnoredEffective
           then Some (''drift detection ignores this field ('' @ ev_ignored_by_or ev ''ignore rule'' @ '')'')
           else None
      else None)"

text \<open>The branch of \<open>classifyPath\<close> for a field the source declares or a \<open>Replace=true\<close> sync.\<close>

definition classify_declared :: "guard_context \<Rightarrow> git_ops_path_evidence option \<Rightarrow> verdict" where
  "classify_declared ctx ev =
     (let owner = c_owner ctx in
      if ev_ignored_mode ev = Some IgnoredUnevaluated
      then verdict LMayRevert
        (''Radar can't confirm '' @ owner_kind_ref owner @ apostrophe_s @ '' ignore rule (''
          @ ev_ignored_by_or ev ''spec.ignoreDifferences'' @ '') covers this field, so the next sync may overwrite it.'')
      else if ev_ignored_mode ev = Some IgnoredComparisonOnly
      then verdict LMayRevert
        (capitalize (owner_kind_ref owner) @ '' excludes this field from comparison (''
          @ ev_ignored_by_or ev ''ignoreDifferences''
          @ '') without RespectIgnoreDifferences, so self-heal won't react, but the next sync will overwrite it.'')
      else let outcome =
             (case helm_exemption ctx ev of
                Some why \<Rightarrow> verdict LMayRevert (''Flux won't correct it as drift because '' @ why
                    @ '', but the next Helm upgrade overwrites it.'')
              | None \<Rightarrow> declared_outcome ctx)
           in if truthy_bool (Option.bind ev pe_partial) \<and> \<not> policy_replaces ctx \<and> v_level outcome = LWillRevert
              then verdict LMayRevert
                (''The GitOps source sets this for some containers but not others; the ones it sets will be overwritten at ''
                  @ next_sync ctx @ ''.'')
              else let why =
                     (case (if ev_declared ev then ev else None) of
                        Some e \<Rightarrow> ''The GitOps source sets this field ('' @ evidence_note e owner @ '').''
                      | None \<Rightarrow> capitalize (owner_kind_ref owner)
                          @ '' syncs with Replace=true, which replaces the whole object.'')
                   in verdict (v_level outcome) (why @ '' '' @ v_reason outcome))"

definition unknown_note :: string where
  "unknown_note = ''It may be overwritten on sync if the GitOps source declares this field.''"

definition classify_unknown :: "guard_context \<Rightarrow> string option \<Rightarrow> git_ops_path_evidence option \<Rightarrow> verdict" where
  "classify_unknown ctx path ev =
     (if \<not> truthy_str path
      then verdict LMayRevert (''Radar doesn't know which fields this change touches. '' @ unknown_note)
      else if (case ev of None \<Rightarrow> True | Some e \<Rightarrow> truthy_str (pe_error e))
      then let cause = or_str (Option.bind ev pe_error) (in_evidence_error (c_input ctx))
           in verdict LMayRevert
             (''Radar can't see which fields the GitOps source declares''
               @ (if truthy_str cause then '' ('' @ coalesce cause [] @ '')'' else []) @ ''. '' @ unknown_note)
      else verdict LMayRevert
        (''Radar found no record of the GitOps source setting this field, but that doesn't rule it out. ''
          @ unknown_note))"

definition classify_path :: "guard_context \<Rightarrow> string option \<Rightarrow> verdict" where
  "classify_path ctx path =
     (let owner = c_owner ctx; tool = tool_label owner; ev = path_evidence ctx path;
          helm = (owner_kind owner = Helmreleases)
      in if ev_empty ev then verdict LNone []
         else if \<not> helm \<and> truthy_str path \<and> policy_reconcile ctx = Some ReconcileIgnore
         then verdict LInfo (''This object opts out of '' @ tool
                @ '' reconciliation, so a sync is not expected to overwrite it.'')
         else if policy_reconcile ctx = Some ReconcileIfNotPresent
         then verdict LMayRevert (''This object carries '' @ tool @ apostrophe_s
                @ '' IfNotPresent annotation, but Radar can't confirm the GitOps source declares it; if it doesn't, the next reconcile overwrites this change.'')
         else if \<not> helm \<and> ev_ignored_mode ev = Some IgnoredEffective
         then verdict LInfo (capitalize (owner_kind_ref owner) @ '' ignores this field (''
                @ ev_ignored_by_or ev ''ignore rule'' @ ''), so a sync is not expected to overwrite it.'')
         else if ev_declared ev \<or> policy_replaces ctx then classify_declared ctx ev
         else classify_unknown ctx path ev)"

definition worst_verdict :: "verdict \<Rightarrow> verdict \<Rightarrow> verdict" where
  \<comment> \<open>one turn of the loop of \<open>classifyFieldWrite\<close>: the new verdict wins only when it ranks higher\<close>
  "worst_verdict worst v = (if level_rank (v_level v) > level_rank (v_level worst) then v else worst)"

fun field_paths :: "string list option \<Rightarrow> string option list" where
  \<comment> \<open>\<open>write.paths?.length ? write.paths : [null]\<close>\<close>
  "field_paths (Some (p # ps)) = map Some (p # ps)"
| "field_paths _ = [None]"

definition classify_field_write :: "guard_context \<Rightarrow> git_ops_write \<Rightarrow> verdict" where
  "classify_field_write ctx write =
     (case field_paths (w_paths write) of
        [] \<Rightarrow> verdict LNone []
      | p # ps \<Rightarrow> foldl (\<lambda>worst q. worst_verdict worst (classify_path ctx q)) (classify_path ctx p) ps)"

definition classify_delete :: "guard_context \<Rightarrow> verdict" where
  "classify_delete ctx =
     (let owner = c_owner ctx; tool = tool_label owner in
      case c_policy ctx of
        None \<Rightarrow> verdict LMayRevert
          (''Radar couldn't read '' @ owner_kind_ref owner @ apostrophe_s @ '' sync policy ('' @ c_policy_unknown ctx
            @ ''); the next sync will recreate it.'')
      | Some policy \<Rightarrow>
          if po_object_reconcile policy = Some ReconcileIgnore
          then if owner_kind owner = Helmreleases
               then verdict LMayRevert ''Flux drift detection skips this object, but the next Helm upgrade recreates it.''
               else verdict LInfo (''This object opts out of '' @ tool
                      @ '' reconciliation, so it is not expected to be recreated.'')
          else if truthy_bool (po_suspended policy)
          then verdict LMayRevert (capitalize (owner_kind_ref owner) @ '' is suspended; resuming it will recreate it.'')
          else if truthy_bool (po_self_heal policy)
          then verdict LWillRevert (tool @ '' will recreate it at '' @ next_sync ctx @ ''.'')
          else verdict LMayRevert ''The next sync will recreate it.'')"

definition operator_owner_of :: "git_ops_write_guard_input \<Rightarrow> git_ops_write_operator_owner option" where
  "operator_owner_of input =
     (case in_operator_owner input of
        Some x \<Rightarrow> x
      | None \<Rightarrow> (case Option.bind (in_evidence input) ev_controller_owner of
          Some controller \<Rightarrow> Some \<lparr>oo_kind = co_kind controller, oo_name = co_name controller\<rparr>
        | None \<Rightarrow> None))"

definition context_of :: "git_ops_write_guard_input \<Rightarrow> git_ops_owner_ref \<Rightarrow> guard_context" where
  "context_of input owner = \<lparr>c_input = input, c_owner = owner,
     c_policy = Option.bind (in_evidence input) ev_policy,
     c_policy_unknown = or_else (or_str (Option.bind (in_evidence input) ev_policy_error) (in_evidence_error input))
       ''unavailable''\<rparr>"

definition classify_owned :: "git_ops_write_guard_input \<Rightarrow> git_ops_owner_ref \<Rightarrow> git_ops_write \<Rightarrow> verdict" where
  \<comment> \<open>the branch of \<open>classifyWrite\<close> under a GitOps owner\<close>
  "classify_owned input own write =
     (if w_scope write = ScopeCreateChild
      then verdict LInfo (''A new object isn't in the GitOps source, so '' @ tool_label own
             @ '' is not expected to revert it.'')
      else if w_scope write = ScopeDelete then classify_delete (context_of input own)
      else classify_field_write (context_of input own) write)"

definition helm_owned :: "git_ops_write_evidence option \<Rightarrow> git_ops_write \<Rightarrow> bool" where
  "helm_owned evidence write =
     list_ex (\<lambda>path. case find_path_evidence evidence path of
         None \<Rightarrow> False
       | Some p \<Rightarrow> list_ex (\<lambda>o'. fo_tool o' = Some FoHelm) (pe_owned_by p))
       (coalesce (w_paths write) [])"

definition classify_helm_release :: "git_ops_write_evidence option \<Rightarrow> git_ops_write \<Rightarrow> verdict" where
  \<comment> \<open>the branch of \<open>classifyWrite\<close> under a native Helm release\<close>
  "classify_helm_release evidence write =
     (if w_scope write = ScopeCreateChild
      then verdict LInfo ''A new object isn't part of the release, so a Helm upgrade is not expected to revert it.''
      else if w_scope write = ScopeDelete
      then verdict LMayRevert ''The next Helm upgrade or rollback will recreate it.''
      else verdict LMayRevert
        (if helm_owned evidence write
         then ''Helm set this field; the next Helm upgrade or rollback will overwrite it.''
         else ''If the chart sets this field, the next Helm upgrade or rollback will overwrite it.''))"

definition classify_write ::
  "git_ops_write_guard_input \<Rightarrow> git_ops_owner_ref option \<Rightarrow> git_ops_write \<Rightarrow> verdict" where
  "classify_write input owner write =
     (if w_scope write = ScopeStatus
      then verdict LNone ''This writes controller status; ordinary GitOps sync does not manage these fields.''
      else case (if w_scope write = ScopeDelete then operator_owner_of input else None) of
        Some operator \<Rightarrow> verdict LInfo (oo_kind operator @ '' '' @ oo_name operator
            @ '' will recreate this '' @ t_kind (in_target input) @ ''.'')
      | None \<Rightarrow>
        (case owner of
           Some own \<Rightarrow> classify_owned input own write
         | None \<Rightarrow>
           (case in_helm_release input of
              Some _ \<Rightarrow> classify_helm_release (in_evidence input) write
            | None \<Rightarrow>
                if truthy_str (in_ownership_error input) \<and> w_scope write \<noteq> ScopeCreateChild
                then verdict LMayRevert (coalesce (in_ownership_error input) [])
                else verdict LNone [])))"

section \<open>The guard\<close>

definition headline ::
  "git_ops_owner_ref option \<Rightarrow> git_ops_write_helm_release option \<Rightarrow> git_ops_write_level \<Rightarrow> string" where
  "headline owner helm_release level =
     (let who = (case owner of
            Some o' \<Rightarrow> describe_git_ops_owner o'
          | None \<Rightarrow> (case helm_release of
              Some h \<Rightarrow> ''Helm release '' @ hr_namespace h @ ''/'' @ hr_name h
            | None \<Rightarrow> ''A GitOps tool''))
      in case level of
           LWillRevert \<Rightarrow> who @ '' will revert this change.''
         | LMayRevert \<Rightarrow> who @ '' may revert this change.''
         | LInfo \<Rightarrow> if owner \<noteq> None \<or> helm_release \<noteq> None then ''Managed by '' @ who @ ''.'' else []
         | LNone \<Rightarrow> [])"

definition git_ops_write_headline :: "git_ops_write_guard \<Rightarrow> string" where
  "git_ops_write_headline g = headline (g_owner g) (g_helm_release g) (g_level g)"

definition assess_write ::
  "git_ops_write_guard_input \<Rightarrow> git_ops_owner_ref option \<Rightarrow> git_ops_write \<Rightarrow> git_ops_write_assessment" where
  \<comment> \<open>the callback of \<open>input.writes.map\<close>; \<open>input\<close> is the normalized input, whose
      \<open>ownerMatchedByName\<close> is the caller's\<close>
  "assess_write input owner write =
     (let v = classify_write input owner write in
      case owner of
        Some own \<Rightarrow>
          if truthy_bool (in_owner_matched_by_name input) \<and> v_level v = LInfo \<and> w_scope write \<noteq> ScopeCreateChild
          then \<lparr>as_write = write, as_level = LMayRevert,
                as_reason = v_reason v @ '' Radar matched '' @ owner_kind_ref own
                  @ '' by name only, so it can't confirm this.''\<rparr>
          else \<lparr>as_write = write, as_level = v_level v, as_reason = v_reason v\<rparr>
      | None \<Rightarrow> \<lparr>as_write = write, as_level = v_level v, as_reason = v_reason v\<rparr>)"

definition normalize_input :: "git_ops_write_guard_input \<Rightarrow> git_ops_write_guard_input" where
  "normalize_input input =
     (let owner = in_owner input;
          helm_release = (if owner \<noteq> None then None else in_helm_release input);
          ownership_error = (if owner \<noteq> None \<or> helm_release \<noteq> None then None else in_ownership_error input)
      in input\<lparr>in_owner := owner, in_helm_release := helm_release, in_ownership_error := ownership_error\<rparr>)"

definition overall_level :: "git_ops_write_assessment list \<Rightarrow> git_ops_write_level" where
  "overall_level per_write = foldl (\<lambda>m entry. max_level m (as_level entry)) LNone per_write"

definition evaluate_git_ops_write_guard :: "git_ops_write_guard_input \<Rightarrow> git_ops_write_guard" where
  "evaluate_git_ops_write_guard input =
     (let normalized = normalize_input input;
          owner = in_owner normalized;
          helm_release = in_helm_release normalized;
          per_write = map (assess_write normalized owner) (in_writes input);
          level = overall_level per_write;
          top = List.find (\<lambda>entry. as_level entry = level) per_write;
          summary = (if level = LNone then []
            else join '' '' (filter (\<lambda>s. s \<noteq> [])
              [headline owner helm_release level, (case top of None \<Rightarrow> [] | Some t \<Rightarrow> as_reason t)]))
      in \<lparr>g_owner = owner, g_helm_release = helm_release, g_pending = truthy_bool (in_owner_pending input),
          g_level = level, g_per_write = per_write, g_summary = summary,
          g_sync_policy = (if owner \<noteq> None
            then git_ops_sync_policy_of (Option.bind (in_evidence input) ev_policy) else None),
          g_requires_ack = (level = LWillRevert \<or> level = LMayRevert),
          g_ownership_error = in_ownership_error normalized\<rparr>)"


section \<open>Lemmas\<close>

subsection \<open>Folding levels\<close>

lemma level_worst_verdict: "v_level (worst_verdict a b) = max (v_level a) (v_level b)"
  by (auto simp: worst_verdict_def max_def level_order_defs level_rank_inject)

lemma level_fold_worst_le:
  "v_level (foldl (\<lambda>worst q. worst_verdict worst (f q)) v qs) \<le> l
     \<longleftrightarrow> v_level v \<le> l \<and> (\<forall>q \<in> set qs. v_level (f q) \<le> l)"
  by (induction qs arbitrary: v) (auto simp: level_worst_verdict)

lemma fold_worst_in:
  "foldl (\<lambda>worst q. worst_verdict worst (f q)) v qs \<in> insert v (f ` set qs)"
proof (induction qs arbitrary: v)
  case Nil
  then show ?case by simp
next
  case (Cons q qs)
  have "worst_verdict v (f q) \<in> {v, f q}" by (simp add: worst_verdict_def)
  with Cons.IH [of "worst_verdict v (f q)"] show ?case by auto
qed

lemma overall_level_le: "overall_level as \<le> l \<longleftrightarrow> (\<forall>a \<in> set as. as_level a \<le> l)"
proof -
  have "foldl (\<lambda>m entry. max_level m (as_level entry)) m as \<le> l
          \<longleftrightarrow> m \<le> l \<and> (\<forall>a \<in> set as. as_level a \<le> l)" for m
    by (induction as arbitrary: m) (auto simp: max_level_eq)
  then show ?thesis by (simp add: overall_level_def)
qed

lemma field_paths_nonempty [simp]: "field_paths ps \<noteq> []"
  by (cases ps rule: field_paths.cases) auto

lemma classify_field_write_le:
  "v_level (classify_field_write ctx w) \<le> l
     \<longleftrightarrow> (\<forall>q \<in> set (field_paths (w_paths w)). v_level (classify_path ctx q) \<le> l)"
  by (cases "field_paths (w_paths w)")
     (simp_all add: classify_field_write_def level_fold_worst_le)

lemma classify_field_write_from_path:
  obtains q where "q \<in> set (field_paths (w_paths w))"
    and "classify_field_write ctx w = classify_path ctx q"
proof -
  obtain p ps where ps: "field_paths (w_paths w) = p # ps"
    by (cases "field_paths (w_paths w)") auto
  have "classify_field_write ctx w \<in> insert (classify_path ctx p) (classify_path ctx ` set ps)"
    using fold_worst_in [of "classify_path ctx" "classify_path ctx p" ps]
    by (simp add: classify_field_write_def ps)
  then show thesis using that ps by auto
qed

subsection \<open>Levels of the classifiers\<close>

lemma level_declared_outcome:
  "v_level (declared_outcome ctx) =
     (case c_policy ctx of None \<Rightarrow> LMayRevert
      | Some p \<Rightarrow> if \<not> truthy_bool (po_suspended p) \<and> truthy_bool (po_self_heal p) then LWillRevert
                else LMayRevert)"
  by (simp add: declared_outcome_def Let_def split: option.splits)

lemma declared_outcome_ge: "LMayRevert \<le> v_level (declared_outcome ctx)"
  by (simp add: level_declared_outcome split: option.splits)

lemma classify_declared_ge: "LMayRevert \<le> v_level (classify_declared ctx ev)"
  by (simp add: classify_declared_def Let_def declared_outcome_ge split: option.splits)

lemma classify_declared_will_revert:
  assumes "v_level (classify_declared ctx ev) = LWillRevert"
  shows "v_level (declared_outcome ctx) = LWillRevert"
  using assms by (simp add: classify_declared_def Let_def split: option.splits if_splits)

lemma level_classify_unknown [simp]: "v_level (classify_unknown ctx path ev) = LMayRevert"
  by (simp add: classify_unknown_def Let_def)

definition path_waived :: "guard_context \<Rightarrow> string option \<Rightarrow> bool" where
  \<comment> \<open>a policy excludes the field: the object opts out, or an effective ignore rule covers it\<close>
  "path_waived ctx path \<longleftrightarrow>
     owner_kind (c_owner ctx) \<noteq> Helmreleases
     \<and> (truthy_str path \<and> policy_reconcile ctx = Some ReconcileIgnore
        \<or> policy_reconcile ctx \<noteq> Some ReconcileIfNotPresent
          \<and> ev_ignored_mode (path_evidence ctx path) = Some IgnoredEffective)"

lemma not_ge_may: "LMayRevert \<le> l \<Longrightarrow> \<not> l \<le> LInfo"
  by (cases l) simp_all

lemma classify_path_none_iff:
  "v_level (classify_path ctx path) = LNone \<longleftrightarrow> ev_empty (path_evidence ctx path)"
  using classify_declared_ge [of ctx "path_evidence ctx path"]
  by (auto simp: classify_path_def Let_def)

lemma classify_path_waived_iff:
  "v_level (classify_path ctx path) \<le> LInfo
     \<longleftrightarrow> ev_empty (path_evidence ctx path) \<or> path_waived ctx path"
  using not_ge_may [OF classify_declared_ge [of ctx "path_evidence ctx path"]]
  by (auto simp: classify_path_def path_waived_def Let_def)

lemma classify_path_will_revert:
  assumes "v_level (classify_path ctx path) = LWillRevert"
  shows "v_level (declared_outcome ctx) = LWillRevert"
    and "ev_declared (path_evidence ctx path) \<or> policy_replaces ctx"
  using assms classify_declared_will_revert [of ctx "path_evidence ctx path"]
  by (auto simp: classify_path_def Let_def split: if_splits)

lemma classify_delete_will_revert:
  assumes "v_level (classify_delete ctx) = LWillRevert"
  shows "\<exists>p. c_policy ctx = Some p \<and> truthy_bool (po_self_heal p) \<and> \<not> truthy_bool (po_suspended p)"
  using assms by (simp add: classify_delete_def Let_def split: option.splits if_splits)

lemma declared_outcome_will_revert_iff:
  "v_level (declared_outcome ctx) = LWillRevert
     \<longleftrightarrow> (\<exists>p. c_policy ctx = Some p \<and> truthy_bool (po_self_heal p) \<and> \<not> truthy_bool (po_suspended p))"
  by (auto simp: level_declared_outcome split: option.splits)

subsection \<open>The guard's fields\<close>

lemma guard_fields [simp]:
  "g_owner (evaluate_git_ops_write_guard i) = in_owner i"
  "g_pending (evaluate_git_ops_write_guard i) = truthy_bool (in_owner_pending i)"
  "g_per_write (evaluate_git_ops_write_guard i) =
     map (assess_write (normalize_input i) (in_owner i)) (in_writes i)"
  "g_level (evaluate_git_ops_write_guard i) =
     overall_level (map (assess_write (normalize_input i) (in_owner i)) (in_writes i))"
  "g_requires_ack (evaluate_git_ops_write_guard i) \<longleftrightarrow>
     \<not> overall_level (map (assess_write (normalize_input i) (in_owner i)) (in_writes i)) \<le> LInfo"
proof -
  have "(l = LWillRevert \<or> l = LMayRevert) = (\<not> l \<le> LInfo)" for l by (cases l) simp_all
  then show "g_requires_ack (evaluate_git_ops_write_guard i) \<longleftrightarrow>
     \<not> overall_level (map (assess_write (normalize_input i) (in_owner i)) (in_writes i)) \<le> LInfo"
    by (simp add: evaluate_git_ops_write_guard_def Let_def normalize_input_def)
qed (simp_all add: evaluate_git_ops_write_guard_def Let_def normalize_input_def)

lemma normalize_input_fields [simp]:
  "in_evidence (normalize_input i) = in_evidence i"
  "in_owner_matched_by_name (normalize_input i) = in_owner_matched_by_name i"
  "in_owner (normalize_input i) = in_owner i"
  "in_evidence_error (normalize_input i) = in_evidence_error i"
  by (simp_all add: normalize_input_def Let_def)

lemma context_of_fields [simp]:
  "c_owner (context_of i own) = own"
  "c_input (context_of i own) = i"
  "c_policy (context_of i own) = Option.bind (in_evidence i) ev_policy"
  by (simp_all add: context_of_def)


subsection \<open>What the classifiers read\<close>

definition same_policy_view :: "guard_context \<Rightarrow> guard_context \<Rightarrow> bool" where
  "same_policy_view c d \<longleftrightarrow> c_owner c = c_owner d \<and> c_policy c = c_policy d
     \<and> c_policy_unknown c = c_policy_unknown d
     \<and> in_evidence_error (c_input c) = in_evidence_error (c_input d)"

lemma same_policy_viewD:
  assumes "same_policy_view c d"
  shows "c_owner c = c_owner d" and "c_policy c = c_policy d" and "c_policy_unknown c = c_policy_unknown d"
    and "in_evidence_error (c_input c) = in_evidence_error (c_input d)"
  using assms by (simp_all add: same_policy_view_def)

text \<open>The long message strings stay folded: these congruences are proved by rewriting alone.\<close>

lemma next_sync_cong:
  assumes "same_policy_view c d" shows "next_sync c = next_sync d"
  unfolding next_sync_def same_policy_viewD [OF assms] ..

lemma policy_cong:
  assumes "same_policy_view c d"
  shows "policy_reconcile c = policy_reconcile d" and "policy_replaces c = policy_replaces d"
  unfolding policy_reconcile_def policy_replaces_def same_policy_viewD [OF assms] by (rule refl)+

lemma declared_outcome_cong:
  assumes "same_policy_view c d" shows "declared_outcome c = declared_outcome d"
  unfolding declared_outcome_def same_policy_viewD [OF assms] next_sync_cong [OF assms] ..

lemma helm_exemption_cong:
  assumes "same_policy_view c d" shows "helm_exemption c ev = helm_exemption d ev"
  unfolding helm_exemption_def same_policy_viewD [OF assms] policy_cong [OF assms] ..

lemma classify_declared_cong:
  assumes "same_policy_view c d" shows "classify_declared c ev = classify_declared d ev"
  unfolding classify_declared_def same_policy_viewD [OF assms] policy_cong [OF assms]
    next_sync_cong [OF assms] declared_outcome_cong [OF assms] helm_exemption_cong [OF assms] ..

lemma classify_unknown_cong:
  assumes "same_policy_view c d" shows "classify_unknown c path ev = classify_unknown d path ev"
  unfolding classify_unknown_def same_policy_viewD [OF assms] ..

lemma classify_path_cong:
  assumes "same_policy_view c d" and "path_evidence c q = path_evidence d q"
  shows "classify_path c q = classify_path d q"
  unfolding classify_path_def assms(2) same_policy_viewD [OF assms(1)] policy_cong [OF assms(1)]
    classify_declared_cong [OF assms(1)] classify_unknown_cong [OF assms(1)] ..

lemma classify_delete_cong:
  assumes "same_policy_view c d" shows "classify_delete c = classify_delete d"
  unfolding classify_delete_def same_policy_viewD [OF assms] next_sync_cong [OF assms] ..

lemma classify_field_write_cong:
  assumes "\<And>q. q \<in> set (field_paths (w_paths w)) \<Longrightarrow> classify_path c q = classify_path d q"
  shows "classify_field_write c w = classify_field_write d w"
proof -
  obtain p ps where ps: "field_paths (w_paths w) = p # ps"
    by (cases "field_paths (w_paths w)") auto
  have "foldl (\<lambda>worst q. worst_verdict worst (classify_path c q)) v qs
      = foldl (\<lambda>worst q. worst_verdict worst (classify_path d q)) v qs"
    if "set qs \<subseteq> set (p # ps)" for v qs
    using that assms by (induction qs arbitrary: v) (auto simp: ps)
  from this [of ps "classify_path d p"] assms [of p] show ?thesis
    by (simp add: classify_field_write_def ps subset_insertI)
qed

lemma set_evidence_paths:
  "set (git_ops_write_evidence_paths ws) =
     (\<Union>w \<in> {w \<in> set ws. w_scope w = ScopeMetadata \<or> w_scope w = ScopeSpec}. set (coalesce (w_paths w) []))"
proof -
  have "set (fold (\<lambda>write paths.
        if w_scope write = ScopeMetadata \<or> w_scope write = ScopeSpec
        then fold set_add (coalesce (w_paths write) []) paths else paths) ws acc)
      = set acc \<union> (\<Union>w \<in> {w \<in> set ws. w_scope w = ScopeMetadata \<or> w_scope w = ScopeSpec}.
          set (coalesce (w_paths w) []))" for acc
    by (induction ws arbitrary: acc) auto
  then show ?thesis by (simp add: git_ops_write_evidence_paths_def)
qed

lemma field_paths_Some: "Some q \<in> set (field_paths ps) \<Longrightarrow> q \<in> set (coalesce ps [])"
  by (cases ps rule: field_paths.cases) auto

lemma list_ex_cong_on: "(\<And>x. x \<in> set xs \<Longrightarrow> P x = Q x) \<Longrightarrow> list_ex P xs = list_ex Q xs"
  by (induction xs) auto

lemma classify_write_evidence_cong:
  assumes ev: "in_evidence i = Some e"
    and same: "\<And>q. q \<in> set (coalesce (w_paths w) []) \<Longrightarrow> w_scope w = ScopeMetadata \<or> w_scope w = ScopeSpec
      \<Longrightarrow> find_path_evidence (Some (e\<lparr>ev_paths := ps\<rparr>)) q = find_path_evidence (Some e) q"
  shows "classify_write (i\<lparr>in_evidence := Some (e\<lparr>ev_paths := ps\<rparr>)\<rparr>) own w = classify_write i own w"
proof -
  let ?i = "i\<lparr>in_evidence := Some (e\<lparr>ev_paths := ps\<rparr>)\<rparr>"
  have view: "same_policy_view (context_of ?i o') (context_of i o')" for o'
    by (simp add: same_policy_view_def context_of_def ev)
  have op: "operator_owner_of ?i = operator_owner_of i"
    by (simp add: operator_owner_of_def ev split: option.split)
  have field: "classify_field_write (context_of ?i o') w = classify_field_write (context_of i o') w"
    and helm: "helm_owned (in_evidence ?i) w = helm_owned (in_evidence i) w"
    if scope: "w_scope w = ScopeMetadata \<or> w_scope w = ScopeSpec" for o'
  proof -
    have path: "path_evidence (context_of ?i o') q = path_evidence (context_of i o') q"
      if "q \<in> set (field_paths (w_paths w))" for q
    proof (cases q)
      case None
      then show ?thesis by (simp add: path_evidence_def)
    next
      case (Some p)
      with that have "p \<in> set (coalesce (w_paths w) [])" by (simp add: field_paths_Some)
      from same [OF this scope] Some show ?thesis by (simp add: path_evidence_def ev)
    qed
    show "classify_field_write (context_of ?i o') w = classify_field_write (context_of i o') w"
      by (intro classify_field_write_cong classify_path_cong view path)
    show "helm_owned (in_evidence ?i) w = helm_owned (in_evidence i) w"
      using same [OF _ scope] unfolding helm_owned_def by (intro list_ex_cong_on) (simp add: ev)
  qed
  have owned: "classify_owned ?i o' w = classify_owned i o' w" if "w_scope w \<noteq> ScopeStatus" for o'
    using that field [of o']
    by (cases "w_scope w") (simp_all add: classify_owned_def classify_delete_cong [OF view])
  have release: "classify_helm_release (in_evidence ?i) w = classify_helm_release (in_evidence i) w"
    if "w_scope w \<noteq> ScopeStatus"
    using that helm by (cases "w_scope w") (simp_all add: classify_helm_release_def)
  have fields: "in_helm_release ?i = in_helm_release i" "in_ownership_error ?i = in_ownership_error i"
    "in_target ?i = in_target i" by simp_all
  show ?thesis
  proof (cases "w_scope w = ScopeStatus")
    case True
    then show ?thesis by (simp add: classify_write_def)
  next
    case False
    show ?thesis
      unfolding classify_write_def op owned [OF False] release [OF False]
      unfolding fields ..
  qed
qed

section \<open>Properties\<close>

text \<open>
  A concrete input for the witnesses: an Argo CD Application with self-heal on, and one field the
  source declares.
\<close>

definition sample_policy :: git_ops_write_policy_evidence where
  "sample_policy = \<lparr>po_tool = Argocd, po_auto = Some True, po_self_heal = Some True, po_prune = Some False,
     po_suspended = None, po_interval = None, po_respect_ignore_differences = None,
     po_server_side_apply = None, po_replace = None, po_drift_detection = None, po_object_reconcile = None\<rparr>"

definition sample_path_evidence :: git_ops_path_evidence where
  "sample_path_evidence = \<lparr>pe_path = ''a'', pe_error = None, pe_last_applied = AppliedPresent, pe_owned_by = [],
     pe_owned_by_git_ops = False, pe_approximate = None, pe_partial = None, pe_empty = None,
     pe_ignored = None, pe_ignored_by = None\<rparr>"

definition sample_evidence :: "git_ops_path_evidence list \<Rightarrow> git_ops_write_evidence" where
  "sample_evidence ps = \<lparr>ev_uid = ''u'', ev_resource_version = ''1'', ev_owner = None,
     ev_policy = Some sample_policy, ev_policy_error = None, ev_controller_owner = None,
     ev_owner_tracks_target = None, ev_paths = ps\<rparr>"

definition sample_write :: git_ops_write where
  "sample_write = \<lparr>w_scope = ScopeSpec, w_paths = Some [''a''], w_description = None\<rparr>"

definition sample_input :: "git_ops_path_evidence list \<Rightarrow> git_ops_write_guard_input" where
  "sample_input ps = \<lparr>in_target = \<lparr>t_kind = ''K'', t_group = [], t_namespace = ''n'', t_name = ''x''\<rparr>,
     in_owner = Some (ArgoOwner ''n'' ''x''), in_helm_release = None, in_operator_owner = None,
     in_owner_pending = None, in_ownership_error = None, in_owner_matched_by_name = None,
     in_evidence = Some (sample_evidence ps), in_evidence_error = None, in_writes = [sample_write]\<rparr>"

lemmas guard_sample_defs = sample_policy_def sample_path_evidence_def sample_evidence_def sample_write_def
  sample_input_def

lemmas lookup_defs = path_evidence_def find_path_evidence_def ev_empty_def ev_declared_def
  ev_ignored_mode_def policy_reconcile_def policy_replaces_def path_waived_def

text \<open>
  The guard lets a write through without an acknowledgment exactly when it is no longer
  pending and no write was assessed above \<open>info\<close>: one write that may be reverted is enough to
  ask, whatever the other writes are.
\<close>

theorem guard_confirm_without_ack_iff:
  "can_confirm_git_ops_write (Some (evaluate_git_ops_write_guard i)) False \<longleftrightarrow>
     \<not> truthy_bool (in_owner_pending i)
     \<and> list_all (\<lambda>a. as_level a \<le> LInfo) (g_per_write (evaluate_git_ops_write_guard i))"
  by (simp add: can_confirm_git_ops_write_def overall_level_le list_all_iff)

text \<open>
  C1. Absence of evidence never waives the warning. A metadata or spec write to an owned object is
  assessed \<open>info\<close> or lower exactly when each of its fields either cannot be touched (its wildcard
  matches nothing) or is excluded by a policy of the owner that was not matched by name only: the
  object opts out of a non-Helm reconciliation, or an effective ignore rule covers the field and
  no \<open>IfNotPresent\<close> annotation stands.
\<close>

theorem field_write_waived_iff:
  assumes "w_scope w = ScopeMetadata \<or> w_scope w = ScopeSpec"
  shows "as_level (assess_write i (Some own) w) \<le> LInfo \<longleftrightarrow>
     (\<forall>q \<in> set (field_paths (w_paths w)).
        ev_empty (path_evidence (context_of i own) q)
        \<or> \<not> truthy_bool (in_owner_matched_by_name i) \<and> path_waived (context_of i own) q)"
proof -
  let ?ctx = "context_of i own"
  let ?Q = "set (field_paths (w_paths w))"
  let ?v = "classify_field_write ?ctx w"
  have cw: "classify_write i (Some own) w = ?v" and nc: "w_scope w \<noteq> ScopeCreateChild"
    using assms by (auto simp: classify_write_def classify_owned_def)
  have none: "v_level ?v \<le> LNone \<longleftrightarrow> (\<forall>q \<in> ?Q. ev_empty (path_evidence ?ctx q))"
    unfolding classify_field_write_le by (simp add: classify_path_none_iff)
  have info: "v_level ?v \<le> LInfo
      \<longleftrightarrow> (\<forall>q \<in> ?Q. ev_empty (path_evidence ?ctx q) \<or> path_waived ?ctx q)"
    by (simp add: classify_field_write_le classify_path_waived_iff)
  show ?thesis
  proof (cases "truthy_bool (in_owner_matched_by_name i)")
    case True
    then have "as_level (assess_write i (Some own) w) \<le> LInfo \<longleftrightarrow> v_level ?v \<le> LNone"
      by (cases "v_level ?v") (simp_all add: assess_write_def cw nc)
    with True none show ?thesis by simp
  next
    case False
    then show ?thesis by (simp add: assess_write_def cw info Let_def)
  qed
qed

theorem field_write_waived_iff_witness:
  "\<not> as_level (assess_write (sample_input []) (Some (ArgoOwner ''n'' ''x'')) sample_write) \<le> LInfo"
proof -
  have "w_scope sample_write = ScopeMetadata \<or> w_scope sample_write = ScopeSpec"
    by (simp add: sample_write_def)
  from field_write_waived_iff [OF this, of "sample_input []" "ArgoOwner ''n'' ''x''"]
  show ?thesis by (simp add: guard_sample_defs lookup_defs)
qed

text \<open>
  A guard only ever claims that a write \<open>will\<close> be reverted when the evidence names the owner
  and its policy, that policy self-heals and is not suspended, and (for a field write) the source
  declares one of the fields or the sync replaces the whole object.
\<close>

theorem will_revert_needs_self_heal:
  assumes "a \<in> set (g_per_write (evaluate_git_ops_write_guard i))" and "as_level a = LWillRevert"
  shows "\<exists>own p. in_owner i = Some own \<and> Option.bind (in_evidence i) ev_policy = Some p
    \<and> truthy_bool (po_self_heal p) \<and> \<not> truthy_bool (po_suspended p)
    \<and> (w_scope (as_write a) = ScopeDelete
       \<or> truthy_bool (po_replace p)
       \<or> (\<exists>q \<in> set (field_paths (w_paths (as_write a))).
            ev_declared (path_evidence (context_of (normalize_input i) own) q)))"
proof -
  let ?n = "normalize_input i"
  from assms(1) obtain w where a: "a = assess_write ?n (in_owner i) w" by auto
  have w: "as_write a = w" by (simp add: a assess_write_def Let_def split: option.splits)
  have lvl: "v_level (classify_write ?n (in_owner i) w) = LWillRevert"
    using assms(2) by (simp add: a assess_write_def Let_def split: option.splits if_splits)
  then obtain own where own: "in_owner i = Some own"
    by (cases "in_owner i")
       (simp_all add: classify_write_def classify_helm_release_def split: if_splits option.splits)
  let ?ctx = "context_of ?n own"
  from lvl own have cases: "w_scope w = ScopeDelete \<and> v_level (classify_delete ?ctx) = LWillRevert
      \<or> v_level (classify_field_write ?ctx w) = LWillRevert"
    by (simp add: classify_write_def classify_owned_def split: if_splits option.splits)
  then show ?thesis
  proof
    assume "w_scope w = ScopeDelete \<and> v_level (classify_delete ?ctx) = LWillRevert"
    with classify_delete_will_revert [of ?ctx] own w show ?thesis by auto
  next
    assume f: "v_level (classify_field_write ?ctx w) = LWillRevert"
    obtain q where q: "q \<in> set (field_paths (w_paths w))"
      and "classify_field_write ?ctx w = classify_path ?ctx q"
      by (rule classify_field_write_from_path)
    with f have "v_level (classify_path ?ctx q) = LWillRevert" by simp
    note path = classify_path_will_revert [OF this]
    with own w q show ?thesis
      by (cases "in_evidence i") (auto simp: declared_outcome_will_revert_iff policy_replaces_def)
  qed
qed

theorem will_revert_needs_self_heal_witness:
  "truthy_bool (po_self_heal sample_policy)
   \<and> as_level (assess_write (normalize_input (sample_input [sample_path_evidence]))
        (in_owner (sample_input [sample_path_evidence])) sample_write) = LWillRevert"
proof -
  let ?i = "sample_input [sample_path_evidence]"
  let ?a = "assess_write (normalize_input ?i) (in_owner ?i) sample_write"
  have a: "?a \<in> set (g_per_write (evaluate_git_ops_write_guard ?i))"
    by (simp add: sample_input_def)
  have l: "as_level ?a = LWillRevert"
    by (simp add: guard_sample_defs assess_write_def normalize_input_def classify_write_def classify_owned_def
        classify_field_write_def classify_path_def lookup_defs classify_declared_def helm_exemption_def
        level_declared_outcome context_of_def Let_def)
  from will_revert_needs_self_heal [OF a l] l show ?thesis
    by (auto simp: sample_input_def sample_evidence_def)
qed

text \<open>
  An owner matched by name only never waives an acknowledgment: under such an owner no write
  other than the creation of a child object is left at \<open>info\<close>.
\<close>

theorem name_matched_owner_never_info:
  assumes "in_owner i = Some own" and "in_owner_matched_by_name i = Some True"
    and "a \<in> set (g_per_write (evaluate_git_ops_write_guard i))"
  shows "as_level a = LInfo \<longleftrightarrow> w_scope (as_write a) = ScopeCreateChild"
proof -
  from assms obtain w where a: "a = assess_write (normalize_input i) (Some own) w" by auto
  show ?thesis
  proof (cases "w_scope w = ScopeCreateChild")
    case True
    then show ?thesis by (simp add: a assess_write_def classify_write_def classify_owned_def)
  next
    case False
    with assms(2) show ?thesis by (simp add: a assess_write_def Let_def)
  qed
qed

theorem name_matched_owner_never_info_witness:
  "as_level (assess_write (normalize_input (sample_input []\<lparr>in_owner_matched_by_name := Some True\<rparr>))
       (Some (ArgoOwner ''n'' ''x'')) sample_write) \<noteq> LInfo"
proof -
  let ?i = "sample_input []\<lparr>in_owner_matched_by_name := Some True\<rparr>"
  let ?a = "assess_write (normalize_input ?i) (Some (ArgoOwner ''n'' ''x'')) sample_write"
  have o: "in_owner ?i = Some (ArgoOwner ''n'' ''x'')" and m: "in_owner_matched_by_name ?i = Some True"
    and a: "?a \<in> set (g_per_write (evaluate_git_ops_write_guard ?i))"
    by (simp_all add: sample_input_def)
  have "as_write ?a = sample_write" by (simp add: assess_write_def Let_def)
  with name_matched_owner_never_info [OF o m a] show ?thesis by (simp add: sample_write_def)
qed


text \<open>
  The evidence request is complete: the guard depends on the per-field evidence only through
  the paths \<open>gitOpsWriteEvidencePaths\<close> asks for. Replacing the evidence list by any other that
  answers those paths the same way gives the same guard, word for word.
\<close>

theorem evidence_request_complete:
  assumes "in_evidence i = Some e"
    and "\<forall>q \<in> set (git_ops_write_evidence_paths (in_writes i)).
      find_path_evidence (Some (e\<lparr>ev_paths := ps\<rparr>)) q = find_path_evidence (Some e) q"
  shows "evaluate_git_ops_write_guard (i\<lparr>in_evidence := Some (e\<lparr>ev_paths := ps\<rparr>)\<rparr>)
    = evaluate_git_ops_write_guard i"
proof -
  let ?i = "i\<lparr>in_evidence := Some (e\<lparr>ev_paths := ps\<rparr>)\<rparr>"
  have norm: "normalize_input ?i = (normalize_input i)\<lparr>in_evidence := Some (e\<lparr>ev_paths := ps\<rparr>)\<rparr>"
    by (rule git_ops_write_guard_input.equality) (auto simp: normalize_input_def Let_def)
  have classify: "classify_write (normalize_input ?i) (in_owner i) w = classify_write (normalize_input i) (in_owner i) w"
    if "w \<in> set (in_writes i)" for w
    unfolding norm
  proof (rule classify_write_evidence_cong)
    show "in_evidence (normalize_input i) = Some e" by (simp add: assms(1))
    fix q
    assume "q \<in> set (coalesce (w_paths w) [])" "w_scope w = ScopeMetadata \<or> w_scope w = ScopeSpec"
    with that have "q \<in> set (git_ops_write_evidence_paths (in_writes i))"
      by (auto simp: set_evidence_paths)
    with assms(2) show "find_path_evidence (Some (e\<lparr>ev_paths := ps\<rparr>)) q = find_path_evidence (Some e) q"
      by blast
  qed
  have by_name: "in_owner_matched_by_name (normalize_input ?i) = in_owner_matched_by_name (normalize_input i)"
    by simp
  have assess: "assess_write (normalize_input ?i) (in_owner i) w = assess_write (normalize_input i) (in_owner i) w"
    if "w \<in> set (in_writes i)" for w
    unfolding assess_write_def classify [OF that] by_name ..
  have per_write: "map (assess_write (normalize_input ?i) (in_owner (normalize_input ?i))) (in_writes ?i)
      = map (assess_write (normalize_input i) (in_owner (normalize_input i))) (in_writes i)"
    by (simp add: assess cong: map_cong)
  have fields: "in_owner (normalize_input ?i) = in_owner (normalize_input i)"
    "in_helm_release (normalize_input ?i) = in_helm_release (normalize_input i)"
    "in_ownership_error (normalize_input ?i) = in_ownership_error (normalize_input i)"
    "in_owner_pending ?i = in_owner_pending i"
    "Option.bind (in_evidence ?i) ev_policy = Option.bind (in_evidence i) ev_policy"
    by (simp_all add: norm assms(1))
  show ?thesis
    unfolding evaluate_git_ops_write_guard_def Let_def
    unfolding per_write
    unfolding fields ..
qed

theorem evidence_request_complete_witness:
  "evaluate_git_ops_write_guard (sample_input [sample_path_evidence]\<lparr>in_evidence :=
      Some (sample_evidence [sample_path_evidence]\<lparr>ev_paths :=
        [sample_path_evidence, sample_path_evidence\<lparr>pe_path := ''b''\<rparr>]\<rparr>)\<rparr>)
    = evaluate_git_ops_write_guard (sample_input [sample_path_evidence])"
  by (rule evidence_request_complete)
     (simp_all add: sample_input_def sample_write_def sample_evidence_def sample_path_evidence_def
        git_ops_write_evidence_paths_def set_add_def find_path_evidence_def)

end
