(* ===== verification/Gitops_Tree.thy ===== *)
theory Gitops_Tree
  imports Radar_Prelude
begin

text \<open>
  The GitOps resource tree of \<open>packages/k8s-ui/src/components/gitops/tree\<close>: its data
  (\<open>types/gitops-tree.ts\<close>), the merge of a controller cluster's tree with the destination
  cluster's (\<open>merge.ts\<close>), the ranks its layout is drawn by (\<open>layout.ts\<close>) and the node filters
  (\<open>tree-helpers.ts\<close>). JavaScript compares the edges of \<open>shortcutEdges\<close> by object identity; the
  model names an edge by its position in the list, since a parsed tree holds each edge once.
\<close>

section \<open>Data\<close>

datatype git_ops_tree_tool = TreeArgocd | TreeFluxcd

datatype git_ops_tree_node_role = RoleRoot | RoleDeclared | RoleGenerated | RoleGroup

datatype sync_status = Synced | OutOfSync | Reconciling | SyncUnknown

datatype git_ops_health_status = HHealthy | HProgressing | HDegraded | HSuspended | HMissing | HUnknown

record git_ops_tree_ref =
  ref_group :: "string option"
  ref_kind :: string
  ref_namespace :: string
  ref_name :: string
  ref_uid :: "string option"

record git_ops_tree_info_item =
  info_name :: string
  info_value :: string

record git_ops_tree_node =
  n_id :: string
  n_ref :: git_ops_tree_ref
  n_role :: git_ops_tree_node_role
  n_tool :: git_ops_tree_tool
  n_sync :: "sync_status option"
  n_health :: "git_ops_health_status option"
  n_missing :: "bool option"
  n_health_source :: "string option"
  n_health_reason :: "string option"
  n_health_message :: "string option"
  n_health_severity :: "string option"
  n_topology_status :: "health_status option"
  n_info :: "git_ops_tree_info_item list option"
  n_resource :: "json option"
  n_grouped_node_ids :: "string list option"
  n_count :: "int option"
  n_data :: "json_record option"
  n_remote :: "bool option"
  n_dependency :: "bool option"

datatype git_ops_tree_edge_type = Owns | Source | DependsOn

record git_ops_tree_edge =
  e_source :: string
  e_target :: string
  e_type :: git_ops_tree_edge_type

record git_ops_tree_summary =
  sum_declared :: int
  sum_generated :: int
  sum_grouped :: int
  sum_degraded :: int
  sum_out_of_sync :: int
  sum_dependencies :: "int option"

record git_ops_resource_tree =
  t_root :: git_ops_tree_node
  t_nodes :: "git_ops_tree_node list"
  t_edges :: "git_ops_tree_edge list"
  t_warnings :: "string list option"
  t_summary :: "git_ops_tree_summary option"
  t_health_mode :: "string option"
  t_health_from_api :: "bool option"
  t_health_api_error :: "string option"
  t_health_api_pending :: "bool option"
  t_health_api_retrying :: "bool option"
  t_remote_destination :: "bool option"

section \<open>Merging two trees (\<open>merge.ts\<close>)\<close>

datatype merged_node_source = SrcController | SrcDestination

fun source_tag :: "merged_node_source \<Rightarrow> string" where
  "source_tag SrcController = ''controller''"
| "source_tag SrcDestination = ''destination''"

definition merged_node_source_key :: string where
  "merged_node_source_key = ''_source''"

definition ref_key :: "git_ops_tree_ref \<Rightarrow> string" where
  "ref_key ref = coalesce (ref_group ref) [] @ ''/'' @ ref_kind ref @ ''/'' @ ref_namespace ref @ ''/'' @ ref_name ref"

definition with_source :: "git_ops_tree_node \<Rightarrow> merged_node_source \<Rightarrow> git_ops_tree_node" where
  "with_source node src =
     node\<lparr>n_data := Some (AList.update merged_node_source_key (JStr (source_tag src)) (coalesce (n_data node) []))\<rparr>"

definition dest_by_key :: "git_ops_resource_tree \<Rightarrow> (string \<times> git_ops_tree_node) list" where
  "dest_by_key destination =
     fold (\<lambda>n m. if n_role n = RoleRoot then m else AList.update (ref_key (n_ref n)) n m) (t_nodes destination) []"

definition overlay :: "git_ops_tree_node \<Rightarrow> git_ops_tree_node \<Rightarrow> git_ops_tree_node" where
  \<comment> \<open>the controller's node under the destination's live fields\<close>
  "overlay dest n =
     (let health_from = (if n_health dest \<noteq> None then dest else n)
      in n\<lparr>n_health := coalesce_opt (n_health dest) (n_health n),
           n_health_source := n_health_source health_from,
           n_health_reason := n_health_reason health_from,
           n_health_message := n_health_message health_from,
           n_health_severity := n_health_severity health_from,
           n_info := coalesce_opt (n_info dest) (n_info n),
           n_topology_status := coalesce_opt (n_topology_status dest) (n_topology_status n)\<rparr>)"

definition merge_controller_node :: "(string \<times> git_ops_tree_node) list \<Rightarrow> git_ops_tree_node \<Rightarrow> git_ops_tree_node" where
  "merge_controller_node dest_by n =
     with_source (case map_of dest_by (ref_key (n_ref n)) of None \<Rightarrow> n | Some dest \<Rightarrow> overlay dest n) SrcController"

text \<open>Pass 2: destination nodes without a controller match, and the renaming of their ids.\<close>

definition remap_step ::
  "string list \<Rightarrow> git_ops_tree_node list \<Rightarrow> git_ops_tree_node
    \<Rightarrow> git_ops_tree_node list \<times> (string \<times> string) list \<Rightarrow> git_ops_tree_node list \<times> (string \<times> string) list" where
  "remap_step controller_keys nodes n st =
     (let (dest_only, remap) = st in
      if n_role n = RoleRoot then st
      else let k = ref_key (n_ref n) in
        if k \<in> set controller_keys
        then (case List.find (\<lambda>c. ref_key (n_ref c) = k) nodes of
                Some ctrl \<Rightarrow> (dest_only, AList.update (n_id n) (n_id ctrl) remap)
              | None \<Rightarrow> st)
        else let new_id = ''dest:'' @ n_id n
             in (dest_only @ [with_source (n\<lparr>n_id := new_id\<rparr>) SrcDestination], AList.update (n_id n) new_id remap))"

fun edge_type_name :: "git_ops_tree_edge_type \<Rightarrow> string" where
  "edge_type_name Owns = ''owns''"
| "edge_type_name Source = ''source''"
| "edge_type_name DependsOn = ''dependsOn''"

definition edge_key :: "git_ops_tree_edge \<Rightarrow> string" where
  "edge_key e = e_source e @ ''->'' @ e_target e @ '':'' @ edge_type_name (e_type e)"

text \<open>Pass 3: destination edges, renamed; an edge at the dropped root or already seen is skipped.\<close>

definition merge_edge_step ::
  "(string \<times> string) list \<Rightarrow> git_ops_tree_edge \<Rightarrow> string list \<times> git_ops_tree_edge list
    \<Rightarrow> string list \<times> git_ops_tree_edge list" where
  "merge_edge_step remap e st =
     (let (seen, edges) = st; src = map_of remap (e_source e); tgt = map_of remap (e_target e) in
      if \<not> truthy_str src \<or> \<not> truthy_str tgt then st
      else let merged = \<lparr>e_source = coalesce src [], e_target = coalesce tgt [], e_type = e_type e\<rparr>;
               k = edge_key merged
           in if k \<in> set seen then st else (set_add k seen, edges @ [merged]))"

definition merge_git_ops_trees ::
  "git_ops_resource_tree \<Rightarrow> git_ops_resource_tree option \<Rightarrow> git_ops_resource_tree" where
  "merge_git_ops_trees controller dest =
     (case dest of
        None \<Rightarrow> controller
      | Some destination \<Rightarrow>
          let by_key = dest_by_key destination;
              nodes = map (merge_controller_node by_key) (t_nodes controller);
              controller_keys = set_from (map (\<lambda>n. ref_key (n_ref n)) (t_nodes controller));
              (dest_only, remap) = fold (remap_step controller_keys nodes) (t_nodes destination) ([], []);
              (seen, edges) = fold (merge_edge_step remap) (t_edges destination)
                (set_from (map edge_key (t_edges controller)), t_edges controller);
              warnings = coalesce (t_warnings controller) [] @ coalesce (t_warnings destination) []
          in \<lparr>t_root = with_source (t_root controller) SrcController,
              t_nodes = nodes @ dest_only,
              t_edges = edges,
              t_warnings = (if warnings \<noteq> [] then Some warnings else None),
              t_summary = None, t_health_mode = None, t_health_from_api = None, t_health_api_error = None,
              t_health_api_pending = None, t_health_api_retrying = None, t_remote_destination = None\<rparr>)"

section \<open>Ranks and dependency edges (\<open>layout.ts\<close>)\<close>

definition is_upstream_edge_type :: "git_ops_tree_edge_type \<Rightarrow> bool" where
  "is_upstream_edge_type t = (t = Source \<or> t = DependsOn)"

definition upstream_edges :: "git_ops_tree_edge list \<Rightarrow> git_ops_tree_edge list" where
  "upstream_edges edges =
     (let owned = set_from (map e_target (filter (\<lambda>e. e_type e = Owns) edges))
      in filter (\<lambda>e. is_upstream_edge_type (e_type e) \<and> e_target e \<notin> set owned) edges)"

definition tree_ids :: "git_ops_resource_tree \<Rightarrow> string list" where
  "tree_ids tree = set_add (n_id (t_root tree)) (set_from (map n_id (t_nodes tree)))"

definition relax_edge ::
  "nat \<Rightarrow> git_ops_tree_edge \<Rightarrow> (string \<times> nat) list \<times> bool \<Rightarrow> (string \<times> nat) list \<times> bool" where
  \<comment> \<open>one edge of a pass over the dependency edges\<close>
  "relax_edge limit e st =
     (let (depth, changed) = st in
      case map_of depth (e_source e) of
        None \<Rightarrow> st
      | Some from_depth \<Rightarrow>
          let nxt = min (from_depth + 1) limit
          in if coalesce (map_of depth (e_target e)) 0 < nxt
             then (AList.update (e_target e) nxt depth, True) else st)"

fun relax_passes :: "nat \<Rightarrow> nat \<Rightarrow> git_ops_tree_edge list \<Rightarrow> (string \<times> nat) list \<Rightarrow> (string \<times> nat) list" where
  \<comment> \<open>\<open>for (pass = 0; pass < limit; pass++)\<close>, leaving when a pass changes nothing\<close>
  "relax_passes limit 0 edges depth = depth"
| "relax_passes limit (Suc n) edges depth =
     (let (depth', changed) = fold (relax_edge limit) edges (depth, False)
      in if changed then relax_passes limit n edges depth' else depth')"

definition rank_upstream :: "git_ops_resource_tree \<Rightarrow> git_ops_tree_edge list" where
  "rank_upstream tree =
     filter (\<lambda>e. e_source e \<in> set (tree_ids tree) \<and> e_target e \<in> set (tree_ids tree)
               \<and> e_target e \<noteq> n_id (t_root tree)) (upstream_edges (t_edges tree))"

definition upstream_depths :: "git_ops_resource_tree \<Rightarrow> (string \<times> nat) list" where
  "upstream_depths tree =
     (let limit = length (tree_ids tree)
      in relax_passes limit limit (rank_upstream tree) [(n_id (t_root tree), 0)])"

definition negative_ranks :: "git_ops_resource_tree \<Rightarrow> (string \<times> int) list" where
  "negative_ranks tree =
     fold (\<lambda>(i, d) rank. if i \<noteq> n_id (t_root tree) then AList.update i (- int d) rank else rank)
       (upstream_depths tree) [(n_id (t_root tree), 0)]"

definition negative_at :: "(string \<times> int) list \<Rightarrow> string \<Rightarrow> bool" where
  \<comment> \<open>\<open>rank.has(i) && rank.get(i)! < 0\<close>\<close>
  "negative_at rank i \<longleftrightarrow> (case map_of rank i of None \<Rightarrow> False | Some r \<Rightarrow> r < 0)"

definition child_lists ::
  "string list \<Rightarrow> (string \<times> int) list \<Rightarrow> git_ops_tree_edge list \<Rightarrow> (string \<times> string list) list" where
  "child_lists ids rank edges =
     fold (\<lambda>e children.
        if e_source e \<notin> set ids \<or> e_target e \<notin> set ids then children
        else if negative_at rank (e_target e) then children
        else if negative_at rank (e_source e) then children
        else AList.update (e_source e) (coalesce (map_of children (e_source e)) [] @ [e_target e]) children)
       edges []"

fun downstream_loop ::
  "nat \<Rightarrow> (string \<times> string list) list \<Rightarrow> (string \<times> int) list \<Rightarrow> (string \<times> int) list \<Rightarrow> (string \<times> int) list" where
  \<comment> \<open>the queue holds (id, rank); the first argument counts down \<open>maxIterations\<close>\<close>
  "downstream_loop 0 children queue downstream = downstream"
| "downstream_loop (Suc n) children [] downstream = downstream"
| "downstream_loop (Suc n) children ((i, r) # queue) downstream =
     (case map_of downstream i of
        Some previous \<Rightarrow>
          if previous \<ge> r then downstream_loop n children queue downstream
          else downstream_loop n children (queue @ map (\<lambda>c. (c, r + 1)) (coalesce (map_of children i) []))
                 (AList.update i r downstream)
      | None \<Rightarrow> downstream_loop n children (queue @ map (\<lambda>c. (c, r + 1)) (coalesce (map_of children i) []))
                 (AList.update i r downstream))"

definition downstream_ranks :: "git_ops_resource_tree \<Rightarrow> (string \<times> int) list" where
  "downstream_ranks tree =
     (let limit = length (tree_ids tree)
      in downstream_loop (limit * 8 + 64)
           (child_lists (tree_ids tree) (negative_ranks tree) (t_edges tree)) [(n_id (t_root tree), 0)] [])"

definition rank_tree :: "git_ops_resource_tree \<Rightarrow> (string \<times> int) list" where
  "rank_tree tree =
     (let rank = fold (\<lambda>(i, r) rank. if i \<noteq> n_id (t_root tree) then AList.update i r rank else rank)
            (downstream_ranks tree) (negative_ranks tree);
          incoming = set_from (map e_target (t_edges tree))
      in fold (\<lambda>i rank. if map_of rank i \<noteq> None then rank
               else AList.update i (if i \<in> set incoming then 1 else 0) rank) (tree_ids tree) rank)"

definition rendered_edge :: "git_ops_tree_edge \<Rightarrow> string list \<Rightarrow> string \<times> string" where
  "rendered_edge edge upstream_targets =
     (if is_upstream_edge_type (e_type edge) \<and> e_target edge \<in> set upstream_targets
      then (e_target edge, e_source edge) else (e_source edge, e_target edge))"

definition closure_edge ::
  "string \<Rightarrow> string \<Rightarrow> git_ops_tree_edge \<Rightarrow> string list \<times> string list \<Rightarrow> string list \<times> string list" where
  \<comment> \<open>the inner loop of \<open>upstreamClosure\<close> at node \<open>i\<close>; the state is (\<open>out\<close>, \<open>queue\<close>)\<close>
  "closure_edge root i e st =
     (let (out, queue) = st in
      if e_source e \<noteq> i \<or> e_target e \<in> set out \<or> e_target e = root then st
      else (out @ [e_target e], queue @ [e_target e]))"

lemma closure_edge_measure:
  assumes "fold (closure_edge root i) es (out, queue) = (out', queue')" and "set es \<subseteq> set edges"
  shows "length queue' + card (e_target ` set edges - set out')
     \<le> length queue + card (e_target ` set edges - set out)"
  using assms
proof (induction es arbitrary: out queue)
  case Nil
  then show ?case by simp
next
  case (Cons e es)
  show ?case
  proof (cases "e_source e \<noteq> i \<or> e_target e \<in> set out \<or> e_target e = root")
    case True
    with Cons show ?thesis by (simp add: closure_edge_def)
  next
    case False
    let ?U = "e_target ` set edges"
    have "e_target e \<in> ?U - set out" using False Cons.prems(2) by auto
    then have "card (?U - set (out @ [e_target e])) < card (?U - set out)"
      by (intro psubset_card_mono) auto
    moreover have "closure_edge root i e (out, queue) = (out @ [e_target e], queue @ [e_target e])"
      using False by (simp add: closure_edge_def)
    with Cons.prems(1) have "fold (closure_edge root i) es (out @ [e_target e], queue @ [e_target e]) = (out', queue')"
      by simp
    then have "length queue' + card (?U - set out')
        \<le> length (queue @ [e_target e]) + card (?U - set (out @ [e_target e]))"
      using Cons.prems(2) by (intro Cons.IH) auto
    ultimately show ?thesis by simp
  qed
qed

function closure_loop :: "string \<Rightarrow> git_ops_tree_edge list \<Rightarrow> string list \<Rightarrow> string list \<Rightarrow> string list" where
  "closure_loop root edges out [] = out"
| "closure_loop root edges out (i # queue) =
     (case fold (closure_edge root i) edges (out, queue) of
        (out', queue') \<Rightarrow> closure_loop root edges out' queue')"
  by pat_completeness auto
termination
proof (relation "measure (\<lambda>(root, edges, out, queue). length queue + card (e_target ` set edges - set out))",
    goal_cases)
  case (2 root edges out i queue out' queue')
  then have "fold (closure_edge root i) edges (out, queue) = (out', queue')" by simp
  from closure_edge_measure [OF this, of edges] show ?case by simp
qed simp

definition upstream_closure :: "git_ops_resource_tree \<Rightarrow> string list" where
  "upstream_closure tree =
     closure_loop (n_id (t_root tree)) (upstream_edges (t_edges tree)) [] [n_id (t_root tree)]"

text \<open>The search of \<open>shortcutEdges\<close>: is there another path to the edge's target?\<close>

function longer_path :: "git_ops_tree_edge list \<Rightarrow> string \<Rightarrow> string list \<Rightarrow> string list \<Rightarrow> bool" where
  "longer_path edges target seen [] = False"
| "longer_path edges target seen (i # queue) =
     (if i = target then True
      else if i \<in> set seen then longer_path edges target seen queue
      else longer_path edges target (seen @ [i]) (queue @ map e_target (filter (\<lambda>e. e_source e = i) edges)))"
  by pat_completeness auto
termination
proof (relation "measures [\<lambda>(edges, target, seen, queue). card (e_source ` set edges - set seen),
    \<lambda>(edges, target, seen, queue). length queue]", goal_cases)
  case (3 edges target seen i queue)
  show ?case
  proof (cases "i \<in> e_source ` set edges")
    case True
    with 3 have "card (e_source ` set edges - set (seen @ [i])) < card (e_source ` set edges - set seen)"
      by (intro psubset_card_mono) auto
    then show ?thesis by simp
  next
    case False
    then have "filter (\<lambda>e. e_source e = i) edges = []" by (auto simp: filter_empty_conv)
    moreover from False have "e_source ` set edges - set (seen @ [i]) = e_source ` set edges - set seen"
      by auto
    ultimately show ?thesis by simp
  qed
qed simp_all

definition shortcut_edges :: "git_ops_tree_edge list \<Rightarrow> nat list" where
  \<comment> \<open>positions, in \<open>upstream_edges\<close>, of the edges a longer path covers\<close>
  "shortcut_edges all_edges =
     (let edges = upstream_edges all_edges in
      filter (\<lambda>k. let edge = edges ! k in
          longer_path edges (e_target edge) [e_source edge]
            (map (\<lambda>j. e_target (edges ! j))
              (filter (\<lambda>j. j \<noteq> k \<and> e_source (edges ! j) = e_source edge) [0..<length edges])))
        [0..<length edges])"

section \<open>Filters (\<open>tree-helpers.ts\<close>)\<close>

record git_ops_tree_filters =
  f_kinds :: "string list option"
  f_namespaces :: "string list option"
  f_sync :: "string list option"
  f_health :: "string list option"
  f_roles :: "string list option"

definition git_ops_filter_set :: "string list option \<Rightarrow> string list option" where
  "git_ops_filter_set values' =
     (case values' of None \<Rightarrow> None
      | Some vs \<Rightarrow> let s = set_from vs in if length s > 0 then Some s else None)"

fun role_name :: "git_ops_tree_node_role \<Rightarrow> string" where
  "role_name RoleRoot = ''root''"
| "role_name RoleDeclared = ''declared''"
| "role_name RoleGenerated = ''generated''"
| "role_name RoleGroup = ''group''"

fun sync_name :: "sync_status \<Rightarrow> string" where
  "sync_name Synced = ''Synced''"
| "sync_name OutOfSync = ''OutOfSync''"
| "sync_name Reconciling = ''Reconciling''"
| "sync_name SyncUnknown = ''Unknown''"

fun health_name :: "git_ops_health_status \<Rightarrow> string" where
  "health_name HHealthy = ''Healthy''"
| "health_name HProgressing = ''Progressing''"
| "health_name HDegraded = ''Degraded''"
| "health_name HSuspended = ''Suspended''"
| "health_name HMissing = ''Missing''"
| "health_name HUnknown = ''Unknown''"

definition tree_node_filter_role :: "git_ops_tree_node \<Rightarrow> string" where
  "tree_node_filter_role node =
     (if truthy_bool (n_dependency node) then ''dependency'' else role_name (n_role node))"

definition tree_node_health :: "git_ops_tree_node \<Rightarrow> string" where
  "tree_node_health node =
     (if truthy_bool (n_missing node) then ''Missing''
      else case n_health node of None \<Rightarrow> ''Unknown'' | Some h \<Rightarrow> health_name h)"

definition passes_filter :: "string list option \<Rightarrow> string \<Rightarrow> bool" where
  \<comment> \<open>\<open>!(set && !set.has(v))\<close>\<close>
  "passes_filter fs v = (case git_ops_filter_set fs of None \<Rightarrow> True | Some s \<Rightarrow> v \<in> set s)"

definition matches_git_ops_tree_filters :: "git_ops_tree_node \<Rightarrow> git_ops_tree_filters option \<Rightarrow> bool" where
  "matches_git_ops_tree_filters node filters =
     (case filters of
        None \<Rightarrow> True
      | Some f \<Rightarrow> passes_filter (f_kinds f) (ref_kind (n_ref node))
          \<and> passes_filter (f_namespaces f)
              (if ref_namespace (n_ref node) = [] then ''(cluster)'' else ref_namespace (n_ref node))
          \<and> passes_filter (f_sync f) (case n_sync node of None \<Rightarrow> ''Unknown'' | Some s \<Rightarrow> sync_name s)
          \<and> passes_filter (f_health f) (tree_node_health node)
          \<and> passes_filter (f_roles f) (tree_node_filter_role node))"

definition has_git_ops_tree_filters :: "git_ops_tree_filters option \<Rightarrow> bool" where
  "has_git_ops_tree_filters filters =
     (case filters of
        None \<Rightarrow> False
      | Some f \<Rightarrow> git_ops_filter_set (f_kinds f) \<noteq> None \<or> git_ops_filter_set (f_namespaces f) \<noteq> None
          \<or> git_ops_filter_set (f_sync f) \<noteq> None \<or> git_ops_filter_set (f_health f) \<noteq> None
          \<or> git_ops_filter_set (f_roles f) \<noteq> None)"

section \<open>Lemmas on the merge\<close>

definition rename_node :: "git_ops_tree_node list \<Rightarrow> git_ops_tree_node \<Rightarrow> string" where
  \<comment> \<open>the id a destination node has in the merged tree\<close>
  "rename_node nodes n =
     (case List.find (\<lambda>c. ref_key (n_ref c) = ref_key (n_ref n)) nodes of
        Some c \<Rightarrow> n_id c | None \<Rightarrow> ''dest:'' @ n_id n)"

definition dest_only_nodes :: "string list \<Rightarrow> git_ops_tree_node list \<Rightarrow> git_ops_tree_node list" where
  "dest_only_nodes keys ns = filter (\<lambda>n. n_role n \<noteq> RoleRoot \<and> ref_key (n_ref n) \<notin> set keys) ns"

definition renamed_edge :: "(string \<times> string) list \<Rightarrow> git_ops_tree_edge \<Rightarrow> git_ops_tree_edge option" where
  "renamed_edge remap e =
     (case (map_of remap (e_source e), map_of remap (e_target e)) of
        (Some s, Some t) \<Rightarrow> if s \<noteq> [] \<and> t \<noteq> [] then Some \<lparr>e_source = s, e_target = t, e_type = e_type e\<rparr> else None
      | _ \<Rightarrow> None)"

lemma with_source_fields [simp]:
  "n_id (with_source n s) = n_id n" "n_ref (with_source n s) = n_ref n" "n_role (with_source n s) = n_role n"
  by (simp_all add: with_source_def)

lemma with_source_tag [simp]:
  "map_of (coalesce (n_data (with_source n s)) []) merged_node_source_key = Some (JStr (source_tag s))"
  by (simp add: with_source_def AList.update_conv')

lemma merge_controller_node_fields [simp]:
  "n_id (merge_controller_node m n) = n_id n" "n_ref (merge_controller_node m n) = n_ref n"
  by (simp_all add: merge_controller_node_def overlay_def Let_def split: option.split)

lemma remap_step_dest_only:
  "fst (fold (remap_step keys nodes) ns (acc, rm)) =
     acc @ map (\<lambda>n. with_source (n\<lparr>n_id := ''dest:'' @ n_id n\<rparr>) SrcDestination) (dest_only_nodes keys ns)"
proof (induction ns arbitrary: acc rm)
  case Nil
  then show ?case by (simp add: dest_only_nodes_def)
next
  case (Cons n ns)
  then show ?case
    by (simp add: dest_only_nodes_def remap_step_def Let_def split: option.split)
qed

lemma find_append:
  "List.find P (xs @ ys) = (case List.find P xs of None \<Rightarrow> List.find P ys | Some x \<Rightarrow> Some x)"
  by (induction xs) auto

lemma remap_step_lookup:
  assumes "set keys = (\<lambda>c. ref_key (n_ref c)) ` set nodes"
  shows "map_of (snd (fold (remap_step keys nodes) ns (acc, rm))) i =
    (case List.find (\<lambda>n. n_role n \<noteq> RoleRoot \<and> n_id n = i) (rev ns) of
       None \<Rightarrow> map_of rm i | Some n \<Rightarrow> Some (rename_node nodes n))"
proof (induction ns arbitrary: acc rm)
  case Nil
  then show ?case by simp
next
  case (Cons n ns)
  obtain acc' rm' where st: "remap_step keys nodes n (acc, rm) = (acc', rm')" by fastforce
  have key: "ref_key (n_ref n) \<in> set keys \<longleftrightarrow> List.find (\<lambda>c. ref_key (n_ref c) = ref_key (n_ref n)) nodes \<noteq> None"
    unfolding assms using find_none_iff [of "\<lambda>c. ref_key (n_ref c) = ref_key (n_ref n)" nodes]
    by (auto intro: rev_image_eqI)
  have "map_of rm' i = (if n_role n \<noteq> RoleRoot \<and> n_id n = i then Some (rename_node nodes n) else map_of rm i)"
    using st key
    by (auto simp: remap_step_def rename_node_def AList.update_conv' Let_def split: if_splits option.splits)
  with Cons.IH [of acc' rm'] show ?case
    by (simp add: st find_append split: option.split)
qed

lemma merge_edge_step_eq:
  "merge_edge_step remap e (seen, edges) =
     (case renamed_edge remap e of
        None \<Rightarrow> (seen, edges)
      | Some m \<Rightarrow> if edge_key m \<in> set seen then (seen, edges) else (set_add (edge_key m) seen, edges @ [m]))"
  by (simp add: merge_edge_step_def renamed_edge_def Let_def split: option.split)

lemma merge_edges_fold:
  assumes "fold (merge_edge_step remap) es (seen, edges) = (seen', edges')"
    and "set seen = edge_key ` set edges"
  shows "set seen' = edge_key ` set edges'"
    and "set edges \<subseteq> set edges'"
    and "set edges' \<subseteq> set edges \<union> {m. \<exists>e \<in> set es. renamed_edge remap e = Some m}"
    and "e \<in> set es \<Longrightarrow> renamed_edge remap e = Some m \<Longrightarrow> edge_key m \<in> edge_key ` set edges'"
    and "distinct (map edge_key edges) \<Longrightarrow> distinct (map edge_key edges')"
proof -
  have "set seen' = edge_key ` set edges' \<and> set edges \<subseteq> set edges'
    \<and> set edges' \<subseteq> set edges \<union> {m. \<exists>e \<in> set es. renamed_edge remap e = Some m}
    \<and> (\<forall>e \<in> set es. \<forall>m. renamed_edge remap e = Some m \<longrightarrow> edge_key m \<in> edge_key ` set edges')
    \<and> (distinct (map edge_key edges) \<longrightarrow> distinct (map edge_key edges'))"
    using assms
  proof (induction es arbitrary: seen edges)
    case Nil
    then show ?case by simp
  next
    case (Cons e es)
    obtain s1 d1 where st: "merge_edge_step remap e (seen, edges) = (s1, d1)" by fastforce
    have rest: "fold (merge_edge_step remap) es (s1, d1) = (seen', edges')"
      using Cons.prems(1) st by simp
    have s1: "set s1 = edge_key ` set d1" and sub: "set edges \<subseteq> set d1"
      and new: "set d1 \<subseteq> set edges \<union> {m. renamed_edge remap e = Some m}"
      and has: "\<And>m. renamed_edge remap e = Some m \<Longrightarrow> edge_key m \<in> set s1"
      and dist: "distinct (map edge_key edges) \<Longrightarrow> distinct (map edge_key d1)"
      using st Cons.prems(2) by (auto simp: merge_edge_step_eq split: option.splits if_splits)
    note ih = Cons.IH [OF rest s1]
    have here: "edge_key m \<in> edge_key ` set edges'" if "renamed_edge remap e = Some m" for m
    proof -
      from has [OF that] s1 have "edge_key m \<in> edge_key ` set d1" by simp
      with ih show ?thesis by (blast intro: imageI)
    qed
    show ?case
    proof (intro conjI)
      show "set seen' = edge_key ` set edges'" using ih by blast
      show "set edges \<subseteq> set edges'" using ih sub by blast
      show "set edges' \<subseteq> set edges \<union> {m. \<exists>e \<in> set (e # es). renamed_edge remap e = Some m}"
        using ih new by fastforce
      show "\<forall>e \<in> set (e # es). \<forall>m. renamed_edge remap e = Some m \<longrightarrow> edge_key m \<in> edge_key ` set edges'"
        using ih here by simp
      show "distinct (map edge_key edges) \<longrightarrow> distinct (map edge_key edges')" using ih dist by blast
    qed
  qed
  then show "set seen' = edge_key ` set edges'" and "set edges \<subseteq> set edges'"
    and "set edges' \<subseteq> set edges \<union> {m. \<exists>e \<in> set es. renamed_edge remap e = Some m}"
    and "e \<in> set es \<Longrightarrow> renamed_edge remap e = Some m \<Longrightarrow> edge_key m \<in> edge_key ` set edges'"
    and "distinct (map edge_key edges) \<Longrightarrow> distinct (map edge_key edges')"
    by blast+
qed

text \<open>The merged tree in terms of the lookups above.\<close>

definition controller_keys_of :: "git_ops_resource_tree \<Rightarrow> string list" where
  "controller_keys_of c = set_from (map (\<lambda>n. ref_key (n_ref n)) (t_nodes c))"

definition merged_controller_nodes :: "git_ops_resource_tree \<Rightarrow> git_ops_resource_tree \<Rightarrow> git_ops_tree_node list" where
  "merged_controller_nodes c d = map (merge_controller_node (dest_by_key d)) (t_nodes c)"

definition id_remap :: "git_ops_resource_tree \<Rightarrow> git_ops_resource_tree \<Rightarrow> (string \<times> string) list" where
  "id_remap c d = snd (fold (remap_step (controller_keys_of c) (merged_controller_nodes c d)) (t_nodes d) ([], []))"

lemma merged_nodes:
  "t_nodes (merge_git_ops_trees c (Some d)) = merged_controller_nodes c d
     @ map (\<lambda>n. with_source (n\<lparr>n_id := ''dest:'' @ n_id n\<rparr>) SrcDestination)
         (dest_only_nodes (controller_keys_of c) (t_nodes d))"
  using remap_step_dest_only [of "controller_keys_of c" "merged_controller_nodes c d" "t_nodes d" "[]" "[]"]
  by (simp add: merge_git_ops_trees_def controller_keys_of_def merged_controller_nodes_def Let_def split_def)

lemma merged_ids:
  "map n_id (t_nodes (merge_git_ops_trees c (Some d))) =
     map n_id (t_nodes c) @ map (\<lambda>n. ''dest:'' @ n_id n) (dest_only_nodes (controller_keys_of c) (t_nodes d))"
  by (simp add: merged_nodes merged_controller_nodes_def)

lemma merged_id_set:
  "n_id ` set (t_nodes (merge_git_ops_trees c (Some d))) =
     n_id ` set (t_nodes c) \<union> (\<lambda>n. ''dest:'' @ n_id n) ` set (dest_only_nodes (controller_keys_of c) (t_nodes d))"
  using arg_cong [OF merged_ids [of c d], of set] by simp

lemma merged_edges:
  "\<exists>seen. fold (merge_edge_step (id_remap c d)) (t_edges d)
     (set_from (map edge_key (t_edges c)), t_edges c) = (seen, t_edges (merge_git_ops_trees c (Some d)))"
  by (simp add: merge_git_ops_trees_def id_remap_def controller_keys_of_def merged_controller_nodes_def
      Let_def split_def) (metis prod.collapse)

lemma find_rename_controller:
  "rename_node (merged_controller_nodes c d) n = rename_node (t_nodes c) n"
proof -
  have "List.find (\<lambda>c. ref_key (n_ref c) = k) (map (merge_controller_node m) ns)
      = map_option (merge_controller_node m) (List.find (\<lambda>c. ref_key (n_ref c) = k) ns)" for k m ns
    by (induction ns) auto
  then show ?thesis
    by (simp add: rename_node_def merged_controller_nodes_def option.case_eq_if option.map_sel)
qed

lemma id_remap_lookup:
  "map_of (id_remap c d) i = map_option (rename_node (t_nodes c))
     (List.find (\<lambda>n. n_role n \<noteq> RoleRoot \<and> n_id n = i) (rev (t_nodes d)))"
proof -
  have "set (controller_keys_of c) = (\<lambda>n. ref_key (n_ref n)) ` set (merged_controller_nodes c d)"
    by (simp add: controller_keys_of_def merged_controller_nodes_def image_image)
  from remap_step_lookup [OF this, of "t_nodes d" "[]" "[]" i] show ?thesis
    by (simp add: id_remap_def find_rename_controller split: option.split)
qed

lemma id_remap_in_merged:
  assumes "map_of (id_remap c d) i = Some v"
  shows "v \<in> n_id ` set (t_nodes (merge_git_ops_trees c (Some d)))"
proof -
  from assms obtain n where n: "List.find (\<lambda>n. n_role n \<noteq> RoleRoot \<and> n_id n = i) (rev (t_nodes d)) = Some n"
    and v: "v = rename_node (t_nodes c) n"
    by (auto simp: id_remap_lookup)
  from find_some_in [OF n] have nd: "n \<in> set (t_nodes d)" "n_role n \<noteq> RoleRoot" by auto
  show ?thesis
  proof (cases "List.find (\<lambda>c. ref_key (n_ref c) = ref_key (n_ref n)) (t_nodes c)")
    case None
    then have "ref_key (n_ref n) \<notin> set (controller_keys_of c)"
      by (auto simp: find_none_iff controller_keys_of_def)
    with nd have "n \<in> set (dest_only_nodes (controller_keys_of c) (t_nodes d))"
      by (simp add: dest_only_nodes_def)
    with None v show ?thesis unfolding merged_id_set rename_node_def by auto
  next
    case (Some k)
    from find_some_in [OF Some] have "k \<in> set (t_nodes c)" by simp
    with Some v show ?thesis unfolding merged_id_set rename_node_def by auto
  qed
qed


section \<open>Lemmas on the ranks\<close>

definition upstream_rel :: "git_ops_tree_edge list \<Rightarrow> (string \<times> string) set" where
  "upstream_rel es = (\<lambda>e. (e_source e, e_target e)) ` set es"

definition reach_from :: "git_ops_tree_edge list \<Rightarrow> string \<Rightarrow> string set" where
  "reach_from es root = (upstream_rel es)\<^sup>* `` {root}"

lemma reach_from_step: "x \<in> reach_from es root \<Longrightarrow> e \<in> set es \<Longrightarrow> e_source e = x \<Longrightarrow> e_target e \<in> reach_from es root"
  by (auto simp: reach_from_def upstream_rel_def intro: rtrancl_into_rtrancl)

lemma reach_from_least:
  assumes "root \<in> S" and "\<And>e. e \<in> set es \<Longrightarrow> e_source e \<in> S \<Longrightarrow> e_target e \<in> S"
  shows "reach_from es root \<subseteq> S"
proof
  fix x
  assume "x \<in> reach_from es root"
  then have "(root, x) \<in> (upstream_rel es)\<^sup>*" by (simp add: reach_from_def)
  then show "x \<in> S"
    by (induction rule: rtrancl_induct) (use assms in \<open>auto simp: upstream_rel_def\<close>)
qed

abbreviation keys :: "('k \<times> 'v) list \<Rightarrow> 'k set" where
  "keys m \<equiv> dom (map_of m)"

lemma keys_update [simp]: "keys (AList.update k v m) = insert k (keys m)"
  by (simp add: AList.update_conv')

lemma map_of_update: "map_of (AList.update k v m) j = (if j = k then Some v else map_of m j)"
  by (simp add: AList.update_conv')

text \<open>One edge: what it may write, and when it writes nothing.\<close>

lemma relax_edge_cases:
  obtains (skip) "relax_edge limit e (depth, changed) = (depth, changed)"
      "0 < limit \<Longrightarrow> e_source e \<in> keys depth \<Longrightarrow> e_target e \<in> keys depth"
  | (update) nxt where "relax_edge limit e (depth, changed) = (AList.update (e_target e) nxt depth, True)"
      "e_source e \<in> keys depth" "0 < nxt" "nxt \<le> limit"
proof (cases "map_of depth (e_source e)")
  case None
  show thesis
  proof (rule skip)
    show "relax_edge limit e (depth, changed) = (depth, changed)" using None by (simp add: relax_edge_def)
    assume "e_source e \<in> keys depth"
    with None show "e_target e \<in> keys depth" by auto
  qed
next
  case (Some k)
  let ?nxt = "min (k + 1) limit"
  show thesis
  proof (cases "coalesce (map_of depth (e_target e)) 0 < ?nxt")
    case True
    with Some show thesis by (intro update [of ?nxt]) (auto simp: relax_edge_def)
  next
    case False
    with Some show thesis
      by (intro skip) (auto simp: relax_edge_def coalesce_def split: option.splits)
  qed
qed

definition depth_ok :: "nat \<Rightarrow> string \<Rightarrow> string set \<Rightarrow> (string \<times> nat) list \<Rightarrow> bool" where
  \<comment> \<open>the root is at depth 0 and known; every other known node is allowed and at a depth in 1..limit\<close>
  "depth_ok limit root A depth \<longleftrightarrow>
     map_of depth root = Some 0 \<and> keys depth \<subseteq> insert root A
     \<and> (\<forall>k v. map_of depth k = Some v \<longrightarrow> k \<noteq> root \<longrightarrow> 0 < v \<and> v \<le> limit)"

lemma relax_edge_ok:
  assumes "depth_ok limit root A depth" and "relax_edge limit e (depth, changed) = (depth', changed')"
    and "e_source e \<in> insert root A \<Longrightarrow> e_target e \<in> A" and "e_target e \<noteq> root"
  shows "depth_ok limit root A depth'" and "keys depth \<subseteq> keys depth'" and "changed \<Longrightarrow> changed'"
    and "\<not> changed' \<Longrightarrow> depth' = depth"
    and "0 < limit \<Longrightarrow> e_source e \<in> keys depth \<Longrightarrow> e_target e \<in> keys depth'"
  using assms
  by (cases rule: relax_edge_cases [of limit e depth changed];
      auto simp: depth_ok_def map_of_update split: if_splits)+

lemma relax_pass_ok:
  assumes "depth_ok limit root A depth" and "fold (relax_edge limit) es (depth, changed) = (depth', changed')"
    and "\<And>e. e \<in> set es \<Longrightarrow> e_source e \<in> insert root A \<Longrightarrow> e_target e \<in> A"
    and "\<And>e. e \<in> set es \<Longrightarrow> e_target e \<noteq> root"
  shows "depth_ok limit root A depth' \<and> keys depth \<subseteq> keys depth' \<and> (changed \<longrightarrow> changed')
    \<and> (\<not> changed' \<longrightarrow> depth' = depth)
    \<and> (0 < limit \<longrightarrow> (\<forall>e \<in> set es. e_source e \<in> keys depth \<longrightarrow> e_target e \<in> keys depth'))"
  using assms
proof (induction es arbitrary: depth changed)
  case Nil
  then show ?case by simp
next
  case (Cons e es)
  obtain d1 c1 where st: "relax_edge limit e (depth, changed) = (d1, c1)" by fastforce
  note here = relax_edge_ok [OF Cons.prems(1) st Cons.prems(3) Cons.prems(4)]
  have ok: "depth_ok limit root A d1" using here(1) by simp
  have rest: "fold (relax_edge limit) es (d1, c1) = (depth', changed')" using Cons.prems(2) st by simp
  have ih: "depth_ok limit root A depth' \<and> keys d1 \<subseteq> keys depth' \<and> (c1 \<longrightarrow> changed')
    \<and> (\<not> changed' \<longrightarrow> depth' = d1)
    \<and> (0 < limit \<longrightarrow> (\<forall>e \<in> set es. e_source e \<in> keys d1 \<longrightarrow> e_target e \<in> keys depth'))"
    using Cons.prems(3,4) by (intro Cons.IH [OF ok rest]) auto
  have sub: "keys depth \<subseteq> keys d1" using here(2) by simp
  have edge: "0 < limit \<Longrightarrow> e_source e \<in> keys depth \<Longrightarrow> e_target e \<in> keys depth'"
    using here(5) ih by (meson list.set_intros(1) subsetD)
  have quiet: "\<not> changed' \<Longrightarrow> depth' = depth" using here(4) ih by fastforce
  have raised: "changed \<Longrightarrow> changed'" using here(3) ih by fastforce
  show ?case
    unfolding list.set(2) ball_simps
    using ih edge quiet raised subset_trans [OF sub] subsetD [OF sub] by blast
qed


text \<open>
  All passes. The known nodes grow in every pass until they are closed under the edges; there are
  at most \<open>limit\<close> of them, so \<open>limit\<close> passes are enough to know every node reachable from the root.
\<close>

lemma relax_passes_ok:
  assumes "depth_ok limit root A depth"
    and "\<And>e. e \<in> set es \<Longrightarrow> e_source e \<in> insert root A \<Longrightarrow> e_target e \<in> A"
    and "\<And>e. e \<in> set es \<Longrightarrow> e_target e \<noteq> root"
  shows "depth_ok limit root A (relax_passes limit n es depth)
    \<and> keys depth \<subseteq> keys (relax_passes limit n es depth)"
  using assms(1)
proof (induction n arbitrary: depth)
  case 0
  then show ?case by simp
next
  case (Suc n)
  obtain d c where pass: "fold (relax_edge limit) es (depth, False) = (d, c)" by fastforce
  note p = relax_pass_ok [OF Suc.prems pass assms(2,3)]
  then have "depth_ok limit root A d" by blast
  from Suc.IH [OF this] have "depth_ok limit root A (relax_passes limit (Suc n) es depth)
      \<and> keys d \<subseteq> keys (relax_passes limit (Suc n) es depth)"
    using pass p by (cases c) auto
  with p show ?case by blast
qed

lemma relax_passes_closed:
  assumes "depth_ok limit root A depth" and "0 < limit"
    and "\<And>e. e \<in> set es \<Longrightarrow> e_source e \<in> insert root A \<Longrightarrow> e_target e \<in> A"
    and "\<And>e. e \<in> set es \<Longrightarrow> e_target e \<noteq> root"
    and "finite A" and "card (insert root A) < card (keys depth) + n"
  shows "\<forall>e \<in> set es. e_source e \<in> keys (relax_passes limit n es depth)
           \<longrightarrow> e_target e \<in> keys (relax_passes limit n es depth)"
  using assms(1,6)
proof (induction n arbitrary: depth)
  case 0
  then have "card (keys depth) \<le> card (insert root A)"
    using assms(5) by (intro card_mono) (auto simp: depth_ok_def)
  with 0 show ?case by simp
next
  case (Suc n)
  obtain d c where pass: "fold (relax_edge limit) es (depth, False) = (d, c)" by fastforce
  note p = relax_pass_ok [OF Suc.prems(1) pass assms(3,4)]
  show ?case
  proof (cases c)
    case False
    with p have "d = depth" by blast
    with p assms(2) False pass show ?thesis by simp
  next
    case True
    have ok: "depth_ok limit root A d" using p by blast
    show ?thesis
    proof (cases "keys d = keys depth")
      case closed: True
      have base: "depth_ok limit root (keys depth) d"
        using ok p closed by (auto simp: depth_ok_def)
      have step: "e_source e \<in> insert root (keys depth) \<Longrightarrow> e_target e \<in> keys depth" if "e \<in> set es" for e
        using p assms(2) that closed Suc.prems(1) by (auto simp: depth_ok_def)
      have root: "insert root (keys depth) = keys depth"
        using Suc.prems(1) by (auto simp: depth_ok_def)
      have "depth_ok limit root (keys depth) (relax_passes limit n es d)
          \<and> keys d \<subseteq> keys (relax_passes limit n es d)"
        by (rule relax_passes_ok [OF base step assms(4)])
      then have "keys (relax_passes limit n es d) = keys d"
        unfolding depth_ok_def root closed by blast
      with p assms(2) closed True pass show ?thesis by simp
    next
      case False
      then have "keys depth \<subset> keys d" using p by blast
      moreover have "finite (keys d)" by (simp add: finite_dom_map_of)
      ultimately have "card (keys depth) < card (keys d)" by (rule psubset_card_mono [rotated])
      with Suc.IH [OF ok] Suc.prems(2) True pass show ?thesis by simp
    qed
  qed
qed


lemma upstream_depths_ok:
  fixes tree
  defines "es \<equiv> rank_upstream tree" and "root \<equiv> n_id (t_root tree)"
  shows "depth_ok (length (tree_ids tree)) root (set (tree_ids tree) - {root}) (upstream_depths tree)"
    and "keys (upstream_depths tree) = reach_from es root"
proof -
  let ?L = "length (tree_ids tree)" and ?A = "set (tree_ids tree) - {root}"
  have dist: "distinct (tree_ids tree)" and root: "root \<in> set (tree_ids tree)"
    by (simp_all add: tree_ids_def root_def)
  then have pos: "0 < ?L" by (cases "tree_ids tree") auto
  have start: "depth_ok ?L root ?A [(root, 0)]" by (auto simp: depth_ok_def split: if_splits)
  have step: "e_source e \<in> insert root ?A \<Longrightarrow> e_target e \<in> ?A" and nroot: "e_target e \<noteq> root"
    if "e \<in> set es" for e
    using that by (auto simp: es_def rank_upstream_def root_def)
  have card: "card (insert root ?A) < card (keys [(root, 0::nat)]) + ?L"
    using dist root by (simp add: insert_absorb distinct_card)
  have fin: "finite ?A" by simp
  have def: "upstream_depths tree = relax_passes ?L ?L es [(root, 0)]"
    by (simp add: upstream_depths_def es_def root_def Let_def)
  show ok: "depth_ok ?L root ?A (upstream_depths tree)"
    using relax_passes_ok [OF start step nroot] unfolding def by blast
  have closed: "\<forall>e \<in> set es. e_source e \<in> keys (upstream_depths tree) \<longrightarrow> e_target e \<in> keys (upstream_depths tree)"
    unfolding def by (rule relax_passes_closed [OF start pos step nroot fin card])
  have "root \<in> keys (upstream_depths tree)" using ok by (auto simp: depth_ok_def)
  then have ge: "reach_from es root \<subseteq> keys (upstream_depths tree)"
    by (rule reach_from_least) (use closed in blast)
  have reach_start: "depth_ok ?L root (reach_from es root) [(root, 0)]"
    by (auto simp: depth_ok_def split: if_splits)
  have in_reach: "root \<in> reach_from es root" by (simp add: reach_from_def)
  then have "e_source e \<in> insert root (reach_from es root) \<Longrightarrow> e_target e \<in> reach_from es root" if "e \<in> set es" for e
    using reach_from_step that by blast
  from relax_passes_ok [OF reach_start this nroot]
  have "keys (upstream_depths tree) \<subseteq> insert root (reach_from es root)"
    unfolding def depth_ok_def by blast
  with ge in_reach show "keys (upstream_depths tree) = reach_from es root" by blast
qed

subsection \<open>From depths to ranks\<close>

lemma fold_update_unless:
  assumes "distinct (map fst kvs)"
  shows "map_of (fold (\<lambda>(i, d) m. if i \<noteq> r then AList.update i (f d) m else m) kvs m) j
    = (if j \<noteq> r \<and> map_of kvs j \<noteq> None then map_option f (map_of kvs j) else map_of m j)"
  using assms
  by (induction kvs arbitrary: m)
     (auto simp: map_of_update map_of_eq_None_iff image_iff split: if_splits)

lemma distinct_relax_passes:
  "distinct (map fst depth) \<Longrightarrow> distinct (map fst (relax_passes limit n es depth))"
proof (induction n arbitrary: depth)
  case 0
  then show ?case by simp
next
  case (Suc n)
  have one: "distinct (map fst (fst st)) \<Longrightarrow> distinct (map fst (fst (relax_edge limit e st)))" for e st
    by (cases st) (simp add: relax_edge_def Let_def distinct_update split: option.split)
  have "distinct (map fst (fst st)) \<Longrightarrow> distinct (map fst (fst (fold (relax_edge limit) es st)))" for st
    by (induction es arbitrary: st) (simp_all add: one)
  from this [of "(depth, False)"] Suc show ?case by (simp add: split_def Let_def)
qed

lemma negative_ranks_lookup:
  "map_of (negative_ranks tree) j =
     (if j = n_id (t_root tree) then Some 0
      else map_option (\<lambda>d. - int d) (map_of (upstream_depths tree) j))"
proof -
  have "distinct (map fst (upstream_depths tree))"
    by (simp add: upstream_depths_def Let_def distinct_relax_passes)
  from fold_update_unless [OF this, of "n_id (t_root tree)" "\<lambda>d. - int d"] show ?thesis
    by (auto simp: negative_ranks_def)
qed


subsection \<open>The closure loop\<close>

lemma closure_edge_fold:
  assumes "fold (closure_edge root i) es (out, queue) = (out', queue')"
  shows "set out' = set out \<union> {t. t \<noteq> root \<and> (\<exists>e \<in> set es. e_source e = i \<and> e_target e = t)}
    \<and> set queue' = set queue \<union> (set out' - set out)"
  using assms
proof (induction es arbitrary: out queue)
  case Nil
  then show ?case by simp
next
  case (Cons e es)
  show ?case
  proof (cases "e_source e \<noteq> i \<or> e_target e \<in> set out \<or> e_target e = root")
    case True
    then have "closure_edge root i e (out, queue) = (out, queue)" by (auto simp: closure_edge_def)
    with Cons.prems have "fold (closure_edge root i) es (out, queue) = (out', queue')" by simp
    from Cons.IH [OF this] True show ?thesis by auto
  next
    case False
    then have "closure_edge root i e (out, queue) = (out @ [e_target e], queue @ [e_target e])"
      by (simp add: closure_edge_def)
    with Cons.prems have "fold (closure_edge root i) es (out @ [e_target e], queue @ [e_target e]) = (out', queue')"
      by simp
    from Cons.IH [OF this] False show ?thesis by auto
  qed
qed

lemma closure_loop_reach:
  assumes "set queue \<subseteq> insert root (set out)"
    and "\<And>e. e \<in> set edges \<Longrightarrow> e_source e \<in> insert root (set out) - set queue
      \<Longrightarrow> e_target e \<in> insert root (set out)"
    and "insert root (set out) \<subseteq> reach_from edges root" and "root \<notin> set out"
  shows "insert root (set (closure_loop root edges out queue)) = reach_from edges root
    \<and> root \<notin> set (closure_loop root edges out queue)"
  using assms
proof (induction root edges out queue rule: closure_loop.induct)
  case (1 root edges out)
  then have "reach_from edges root \<subseteq> insert root (set out)" by (intro reach_from_least) auto
  with 1 show ?case by auto
next
  case (2 root edges out i queue)
  obtain out' queue' where step: "fold (closure_edge root i) edges (out, queue) = (out', queue')" by fastforce
  note new = closure_edge_fold [OF step]
  have "set queue' \<subseteq> insert root (set out')" using new 2(2) by auto
  moreover have "e_target e \<in> insert root (set out')"
    if e: "e \<in> set edges" and src: "e_source e \<in> insert root (set out') - set queue'" for e
  proof (cases "e_source e = i")
    case True
    with e new show ?thesis by blast
  next
    case False
    with src new have "e_source e \<in> insert root (set out) - set (i # queue)" by auto
    with 2(3) [OF e] new show ?thesis by blast
  qed
  moreover have "i \<in> reach_from edges root" using 2(2,4) by auto
  then have "insert root (set out') \<subseteq> reach_from edges root"
    using new 2(4) reach_from_step [of i edges root] by auto
  moreover have "root \<notin> set out'" using new 2(5) by auto
  ultimately have "insert root (set (closure_loop root edges out' queue')) = reach_from edges root
      \<and> root \<notin> set (closure_loop root edges out' queue')"
    by (intro 2(1) [OF step [symmetric]])
  then show ?case by (simp add: step)
qed

lemma upstream_closure_reach:
  "set (upstream_closure tree) = reach_from (upstream_edges (t_edges tree)) (n_id (t_root tree)) - {n_id (t_root tree)}"
proof -
  let ?r = "n_id (t_root tree)" and ?es = "upstream_edges (t_edges tree)"
  have "insert ?r (set (closure_loop ?r ?es [] [?r])) = reach_from ?es ?r
      \<and> ?r \<notin> set (closure_loop ?r ?es [] [?r])"
    by (rule closure_loop_reach) (auto simp: reach_from_def)
  then show ?thesis by (auto simp: upstream_closure_def)
qed

text \<open>
  The rank's edges are the closure's without those into the root, and within the tree's ids; in a
  well-formed tree that changes nothing about what is reachable.
\<close>

definition tree_closed :: "git_ops_resource_tree \<Rightarrow> bool" where
  "tree_closed tree \<longleftrightarrow>
     list_all (\<lambda>e. e_source e \<in> set (tree_ids tree) \<and> e_target e \<in> set (tree_ids tree)) (t_edges tree)"

lemma reach_rank_upstream:
  assumes "tree_closed tree"
  shows "reach_from (rank_upstream tree) (n_id (t_root tree))
    = reach_from (upstream_edges (t_edges tree)) (n_id (t_root tree))"
proof
  let ?r = "n_id (t_root tree)"
  have sub: "set (upstream_edges (t_edges tree)) \<subseteq> set (t_edges tree)"
    by (auto simp: upstream_edges_def Let_def)
  show "reach_from (rank_upstream tree) ?r \<subseteq> reach_from (upstream_edges (t_edges tree)) ?r"
  proof (rule reach_from_least)
    show "?r \<in> reach_from (upstream_edges (t_edges tree)) ?r" by (simp add: reach_from_def)
    fix e
    assume "e \<in> set (rank_upstream tree)" and src: "e_source e \<in> reach_from (upstream_edges (t_edges tree)) ?r"
    then have "e \<in> set (upstream_edges (t_edges tree))" by (simp add: rank_upstream_def)
    with src show "e_target e \<in> reach_from (upstream_edges (t_edges tree)) ?r" by (simp add: reach_from_step)
  qed
  show "reach_from (upstream_edges (t_edges tree)) ?r \<subseteq> reach_from (rank_upstream tree) ?r"
  proof (rule reach_from_least)
    show root: "?r \<in> reach_from (rank_upstream tree) ?r" by (simp add: reach_from_def)
    fix e
    assume e: "e \<in> set (upstream_edges (t_edges tree))" and src: "e_source e \<in> reach_from (rank_upstream tree) ?r"
    show "e_target e \<in> reach_from (rank_upstream tree) ?r"
    proof (cases "e_target e = ?r")
      case True
      with root show ?thesis by simp
    next
      case False
      with e sub assms have "e \<in> set (rank_upstream tree)"
        by (auto simp: rank_upstream_def tree_closed_def list_all_iff)
      with src show ?thesis by (simp add: reach_from_step)
    qed
  qed
qed


subsection \<open>Managed resources: the downstream ranks\<close>

definition child_step ::
  "string list \<Rightarrow> (string \<times> int) list \<Rightarrow> git_ops_tree_edge \<Rightarrow> (string \<times> string list) list \<Rightarrow> (string \<times> string list) list" where
  "child_step ids rank e children =
     (if e_source e \<notin> set ids \<or> e_target e \<notin> set ids then children
      else if negative_at rank (e_target e) then children
      else if negative_at rank (e_source e) then children
      else AList.update (e_source e) (coalesce (map_of children (e_source e)) [] @ [e_target e]) children)"

lemma child_lists_fold: "child_lists ids rank edges = fold (child_step ids rank) edges []"
  unfolding child_lists_def child_step_def ..

lemma child_step_lookup:
  "coalesce (map_of (child_step ids rank e m) j) [] =
     coalesce (map_of m j) [] @
       (if j = e_source e \<and> e_source e \<in> set ids \<and> e_target e \<in> set ids
          \<and> \<not> negative_at rank (e_target e) \<and> \<not> negative_at rank (e_source e) then [e_target e] else [])"
  by (auto simp: child_step_def map_of_update)

lemma child_lists_not_negative:
  assumes "c \<in> set (coalesce (map_of (child_lists ids rank edges) i) [])"
  shows "\<not> negative_at rank c"
proof -
  have "c \<in> set (coalesce (map_of (fold (child_step ids rank) edges m) i) []) \<Longrightarrow>
      c \<in> set (coalesce (map_of m i) []) \<or> \<not> negative_at rank c" for m
    by (induction edges arbitrary: m) (fastforce simp: child_step_lookup split: if_splits)+
  from this [of "[]"] assms show ?thesis by (simp add: child_lists_fold)
qed

lemma downstream_loop_inv:
  assumes "\<forall>i. \<forall>c \<in> set (coalesce (map_of children i) []). good c"
    and "\<forall>(i, r) \<in> set queue. good i \<and> 0 \<le> r \<and> r \<le> k"
    and "\<forall>i r. map_of downstream i = Some r \<longrightarrow> good i \<and> 0 \<le> r \<and> r \<le> k"
    and "map_of (downstream_loop n children queue downstream) j = Some s"
  shows "good j \<and> 0 \<le> s \<and> s \<le> k + int n"
  using assms
proof (induction n children queue downstream arbitrary: k rule: downstream_loop.induct)
  case (1 children queue downstream)
  then show ?case by auto
next
  case (2 n children downstream)
  then show ?case by fastforce
next
  case (3 n children i r queue downstream)
  let ?q = "queue @ map (\<lambda>c. (c, r + 1)) (coalesce (map_of children i) [])"
  let ?d = "AList.update i r downstream"
  have here: "good i" "0 \<le> r" "r \<le> k" using 3(5) by auto
  have queue: "\<forall>(x, y) \<in> set queue. good x \<and> 0 \<le> y \<and> y \<le> k + 1"
    and down: "\<forall>x y. map_of downstream x = Some y \<longrightarrow> good x \<and> 0 \<le> y \<and> y \<le> k + 1"
    using 3(5,6) by fastforce+
  have q: "\<forall>(x, y) \<in> set ?q. good x \<and> 0 \<le> y \<and> y \<le> k + 1"
    using queue here 3(4) by auto
  have d: "\<forall>x y. map_of ?d x = Some y \<longrightarrow> good x \<and> 0 \<le> y \<and> y \<le> k + 1"
    using down here by (simp add: map_of_update)
  consider (skip) previous where "map_of downstream i = Some previous" "previous \<ge> r"
    | (none) "map_of downstream i = None"
    | (raise) previous where "map_of downstream i = Some previous" "\<not> previous \<ge> r"
    by (cases "map_of downstream i") auto
  then show ?case
  proof cases
    case skip
    from 3(2) [OF skip 3(4) queue down] 3(7) skip show ?thesis by simp
  next
    case none
    from 3(1) [OF none 3(4) q d] 3(7) none show ?thesis by simp
  next
    case raise
    from 3(3) [OF raise 3(4) q d] 3(7) raise show ?thesis by simp
  qed
qed

lemma distinct_downstream_loop:
  "distinct (map fst downstream) \<Longrightarrow> distinct (map fst (downstream_loop n children queue downstream))"
  by (induction n children queue downstream rule: downstream_loop.induct)
     (auto simp: distinct_update split: option.splits)

lemma downstream_ranks_ok:
  assumes "map_of (downstream_ranks tree) j = Some s"
  shows "\<not> negative_at (negative_ranks tree) j" and "0 \<le> s" and "s \<le> int (length (tree_ids tree)) * 8 + 64"
proof -
  let ?n = "length (tree_ids tree) * 8 + 64"
  have "\<not> negative_at (negative_ranks tree) j \<and> 0 \<le> s \<and> s \<le> 0 + int ?n"
  proof (rule downstream_loop_inv)
    show "map_of (downstream_loop ?n (child_lists (tree_ids tree) (negative_ranks tree) (t_edges tree))
        [(n_id (t_root tree), 0)] []) j = Some s"
      using assms by (simp add: downstream_ranks_def Let_def)
    show "\<forall>(i, r) \<in> set [(n_id (t_root tree), 0)]. \<not> negative_at (negative_ranks tree) i \<and> 0 \<le> r \<and> r \<le> (0::int)"
      by (simp add: negative_at_def negative_ranks_lookup)
  qed (auto dest: child_lists_not_negative)
  then show "\<not> negative_at (negative_ranks tree) j" and "0 \<le> s"
    and "s \<le> int (length (tree_ids tree)) * 8 + 64" by auto
qed

subsection \<open>The rank map\<close>

lemma fill_ranks:
  assumes "distinct ids"
  shows "map_of (fold (\<lambda>i rank. if map_of rank i \<noteq> None then rank else AList.update i (f i) rank) ids m) j
    = (case map_of m j of Some r \<Rightarrow> Some r | None \<Rightarrow> if j \<in> set ids then Some (f j) else None)"
  using assms by (induction ids arbitrary: m) (auto simp: map_of_update split: option.splits)

lemma rank_tree_lookup:
  fixes tree
  defines "root \<equiv> n_id (t_root tree)"
  shows "map_of (rank_tree tree) j =
    (if j = root then Some 0
     else case map_of (downstream_ranks tree) j of
        Some r \<Rightarrow> Some r
      | None \<Rightarrow> (case map_of (upstream_depths tree) j of
          Some d \<Rightarrow> Some (- int d)
        | None \<Rightarrow> if j \<in> set (tree_ids tree) then Some (if j \<in> e_target ` set (t_edges tree) then 1 else 0)
                 else None))"
proof -
  let ?m = "fold (\<lambda>(i, r) rank. if i \<noteq> root then AList.update i r rank else rank)
      (downstream_ranks tree) (negative_ranks tree)"
  have dist: "distinct (map fst (downstream_ranks tree))"
    by (simp add: downstream_ranks_def Let_def distinct_downstream_loop)
  have m: "map_of ?m j = (if j \<noteq> root \<and> map_of (downstream_ranks tree) j \<noteq> None
      then map_of (downstream_ranks tree) j else map_of (negative_ranks tree) j)"
    using fold_update_unless [OF dist, of root "\<lambda>r. r" "negative_ranks tree" j] by (simp add: option.map_ident)
  have ids: "distinct (tree_ids tree)" by (simp add: tree_ids_def)
  show ?thesis
    unfolding rank_tree_def Let_def root_def [symmetric] fill_ranks [OF ids] m
    by (auto simp: negative_ranks_lookup root_def [symmetric] split: option.split)
qed


section \<open>Properties\<close>

definition sample_ref :: "string \<Rightarrow> git_ops_tree_ref" where
  "sample_ref nm = \<lparr>ref_group = None, ref_kind = ''K'', ref_namespace = ''ns'', ref_name = nm, ref_uid = None\<rparr>"

definition sample_node :: "string \<Rightarrow> string \<Rightarrow> git_ops_tree_node_role \<Rightarrow> git_ops_tree_node" where
  "sample_node i nm role = \<lparr>n_id = i, n_ref = sample_ref nm, n_role = role, n_tool = TreeArgocd, n_sync = None,
     n_health = None, n_missing = None, n_health_source = None, n_health_reason = None,
     n_health_message = None, n_health_severity = None, n_topology_status = None, n_info = None,
     n_resource = None, n_grouped_node_ids = None, n_count = None, n_data = None, n_remote = None,
     n_dependency = None\<rparr>"

definition sample_edge :: "string \<Rightarrow> string \<Rightarrow> git_ops_tree_edge_type \<Rightarrow> git_ops_tree_edge" where
  "sample_edge a b t = \<lparr>e_source = a, e_target = b, e_type = t\<rparr>"

definition sample_tree :: "git_ops_tree_node list \<Rightarrow> git_ops_tree_edge list \<Rightarrow> git_ops_resource_tree" where
  "sample_tree ns es = \<lparr>t_root = sample_node ''r'' ''r'' RoleRoot, t_nodes = ns, t_edges = es, t_warnings = None,
     t_summary = None, t_health_mode = None, t_health_from_api = None, t_health_api_error = None,
     t_health_api_pending = None, t_health_api_retrying = None, t_remote_destination = None\<rparr>"

lemmas tree_sample_defs = sample_ref_def sample_node_def sample_edge_def sample_tree_def

text \<open>
  C2. Merging keeps every node apart and routes each to its cluster: when the ids are distinct on
  each side and no controller id begins with the reserved prefix, the merged ids are distinct, the
  controller's nodes keep their ids and order, and every node carries the tag of the cluster it
  came from.
\<close>

theorem merge_keeps_nodes_apart:
  assumes "distinct (map n_id (t_nodes c))" and "distinct (map n_id (t_nodes d))"
    and "list_all (\<lambda>n. \<not> starts_with (n_id n) ''dest:'') (t_nodes c)"
  shows "distinct (map n_id (t_nodes (merge_git_ops_trees c (Some d))))
    \<and> take (length (t_nodes c)) (map n_id (t_nodes (merge_git_ops_trees c (Some d)))) = map n_id (t_nodes c)
    \<and> (\<forall>n \<in> set (t_nodes (merge_git_ops_trees c (Some d))).
         map_of (coalesce (n_data n) []) merged_node_source_key =
           Some (JStr (if n_id n \<in> n_id ` set (t_nodes c) then ''controller'' else ''destination'')))"
proof (intro conjI ballI)
  have prefix: "n_id x \<noteq> ''dest:'' @ y" if "x \<in> set (t_nodes c)" for x y
    using assms(3) that by (auto simp: list_all_iff starts_with_def)
  have "distinct (map n_id (dest_only_nodes (controller_keys_of c) (t_nodes d)))"
    using assms(2) by (simp add: dest_only_nodes_def distinct_map_filter)
  then have "distinct (map (\<lambda>n. ''dest:'' @ n_id n) (dest_only_nodes (controller_keys_of c) (t_nodes d)))"
    by (simp add: distinct_map inj_on_def)
  then show "distinct (map n_id (t_nodes (merge_git_ops_trees c (Some d))))"
    unfolding merged_ids distinct_append using assms(1) prefix by auto
  show "take (length (t_nodes c)) (map n_id (t_nodes (merge_git_ops_trees c (Some d)))) = map n_id (t_nodes c)"
    unfolding merged_ids by simp
  fix n
  assume "n \<in> set (t_nodes (merge_git_ops_trees c (Some d)))"
  then consider (ctrl) m where "m \<in> set (t_nodes c)" "n = merge_controller_node (dest_by_key d) m"
    | (dest) m where "n = with_source (m\<lparr>n_id := ''dest:'' @ n_id m\<rparr>) SrcDestination"
    unfolding merged_nodes merged_controller_nodes_def by auto
  then show "map_of (coalesce (n_data n) []) merged_node_source_key =
      Some (JStr (if n_id n \<in> n_id ` set (t_nodes c) then ''controller'' else ''destination''))"
  proof cases
    case ctrl
    then have "n_id n \<in> n_id ` set (t_nodes c)" by simp
    with ctrl show ?thesis by (simp add: merge_controller_node_def)
  next
    case dest
    then have "n_id n = ''dest:'' @ n_id m" by simp
    then have "n_id n \<notin> n_id ` set (t_nodes c)" using prefix [of _ "n_id m"] by (metis imageE)
    with dest show ?thesis by simp
  qed
qed

theorem merge_keeps_nodes_apart_witness:
  "distinct (map n_id (t_nodes (merge_git_ops_trees
     (sample_tree [sample_node ''x'' ''a'' RoleDeclared] [])
     (Some (sample_tree [sample_node ''x'' ''b'' RoleGenerated] [])))))"
  by (rule merge_keeps_nodes_apart [THEN conjunct1]) (simp_all add: tree_sample_defs starts_with_def)

lemma merged_edges_some:
  fixes c d :: git_ops_resource_tree
  defines "merged \<equiv> merge_git_ops_trees c (Some d)"
  shows "set (t_edges c) \<subseteq> set (t_edges merged)"
    and "distinct (map edge_key (t_edges c)) \<Longrightarrow> distinct (map edge_key (t_edges merged))"
    and "list_all (\<lambda>e. e_source e \<in> n_id ` set (t_nodes c) \<and> e_target e \<in> n_id ` set (t_nodes c)) (t_edges c) \<Longrightarrow>
         list_all (\<lambda>e. e_source e \<in> n_id ` set (t_nodes merged) \<and> e_target e \<in> n_id ` set (t_nodes merged)) (t_edges merged)"
    and "e \<in> set (t_edges d) \<Longrightarrow> renamed_edge (id_remap c d) e = Some m \<Longrightarrow> edge_key m \<in> edge_key ` set (t_edges merged)"
proof -
  let ?ids = "n_id ` set (t_nodes merged)"
  obtain seen where "fold (merge_edge_step (id_remap c d)) (t_edges d)
     (set_from (map edge_key (t_edges c)), t_edges c) = (seen, t_edges merged)"
    using merged_edges [of c d] unfolding merged_def by blast
  note F = merge_edges_fold [OF this]
  show "set (t_edges c) \<subseteq> set (t_edges merged)" using F(2) by simp
  show "distinct (map edge_key (t_edges c)) \<Longrightarrow> distinct (map edge_key (t_edges merged))" using F(5) by simp
  show "e \<in> set (t_edges d) \<Longrightarrow> renamed_edge (id_remap c d) e = Some m \<Longrightarrow> edge_key m \<in> edge_key ` set (t_edges merged)"
    using F(4) by simp
  have new: "e_source m \<in> ?ids \<and> e_target m \<in> ?ids" if "renamed_edge (id_remap c d) x = Some m" for x m
    using that id_remap_in_merged [of c d] by (auto simp: renamed_edge_def merged_def split: option.splits if_splits)
  have "set (t_edges merged) \<subseteq> set (t_edges c) \<union> {m. \<exists>x \<in> set (t_edges d). renamed_edge (id_remap c d) x = Some m}"
    using F(3) by simp
  then show "list_all (\<lambda>e. e_source e \<in> ?ids \<and> e_target e \<in> ?ids) (t_edges merged)"
    if closed: "list_all (\<lambda>e. e_source e \<in> n_id ` set (t_nodes c) \<and> e_target e \<in> n_id ` set (t_nodes c)) (t_edges c)"
    using closed new unfolding merged_def merged_id_set list_all_iff by blast
qed

lemma renamed_edge_joins:
  assumes dist_ids: "distinct (map n_id (t_nodes d))"
    and ids: "list_all (\<lambda>n. n_id n \<noteq> []) (t_nodes c)"
    and a: "a \<in> set (t_nodes d)" "n_role a \<noteq> RoleRoot" "n_id a = e_source e"
    and b: "b \<in> set (t_nodes d)" "n_role b \<noteq> RoleRoot" "n_id b = e_target e"
  shows "renamed_edge (id_remap c d) e = Some \<lparr>e_source = rename_node (t_nodes c) a,
      e_target = rename_node (t_nodes c) b, e_type = e_type e\<rparr>"
proof -
  have lookup: "map_of (id_remap c d) (n_id n) = Some (rename_node (t_nodes c) n)"
    if "n \<in> set (t_nodes d)" "n_role n \<noteq> RoleRoot" for n
  proof -
    have "List.find (\<lambda>k. n_role k \<noteq> RoleRoot \<and> n_id k = n_id n) (rev (t_nodes d)) \<noteq> None"
      using that by (auto simp: find_None_iff)
    then obtain m where m: "List.find (\<lambda>k. n_role k \<noteq> RoleRoot \<and> n_id k = n_id n) (rev (t_nodes d)) = Some m"
      by blast
    from find_some_in [OF m] that dist_ids have "m = n" by (auto simp: distinct_map inj_on_def)
    with m show ?thesis by (simp add: id_remap_lookup)
  qed
  have nonempty: "rename_node (t_nodes c) n \<noteq> []" for n
  proof (cases "List.find (\<lambda>x. ref_key (n_ref x) = ref_key (n_ref n)) (t_nodes c)")
    case None
    then show ?thesis by (simp add: rename_node_def)
  next
    case (Some m)
    with find_some_in [OF Some] ids show ?thesis by (simp add: rename_node_def list_all_iff)
  qed
  show ?thesis
    using lookup [OF a(1,2)] lookup [OF b(1,2)] nonempty a(3) b(3) by (simp add: renamed_edge_def)
qed

text \<open>
  C3. The merged edges, for every destination (none, an empty one, one of roots only): the controller's
  edges all stay; when the controller's edges join its nodes, every merged edge joins two nodes of the
  merged tree; no two edges have the same key when the controller's had none twice; and where the ids of
  the destination's nodes are distinct and no id of the controller's is empty, a destination edge between
  two non-root nodes is never lost: it is there between the nodes its ends were merged into.
\<close>

theorem merge_edges_sound_and_complete:
  assumes "merged = merge_git_ops_trees c dest"
  shows "set (t_edges c) \<subseteq> set (t_edges merged)
    \<and> (list_all (\<lambda>e. e_source e \<in> n_id ` set (t_nodes c) \<and> e_target e \<in> n_id ` set (t_nodes c)) (t_edges c) \<longrightarrow>
         list_all (\<lambda>e. e_source e \<in> n_id ` set (t_nodes merged) \<and> e_target e \<in> n_id ` set (t_nodes merged)) (t_edges merged))
    \<and> (distinct (map edge_key (t_edges c)) \<longrightarrow> distinct (map edge_key (t_edges merged)))
    \<and> (\<forall>d. dest = Some d \<and> distinct (map n_id (t_nodes d)) \<and> list_all (\<lambda>n. n_id n \<noteq> []) (t_nodes c) \<longrightarrow>
         (\<forall>e \<in> set (t_edges d). \<forall>a \<in> set (t_nodes d). \<forall>b \<in> set (t_nodes d).
            n_role a \<noteq> RoleRoot \<and> n_id a = e_source e \<and> n_role b \<noteq> RoleRoot \<and> n_id b = e_target e \<longrightarrow>
            edge_key \<lparr>e_source = rename_node (t_nodes c) a, e_target = rename_node (t_nodes c) b, e_type = e_type e\<rparr>
              \<in> edge_key ` set (t_edges merged)))"
proof (cases dest)
  case None
  then show ?thesis using assms by (simp add: merge_git_ops_trees_def)
next
  case (Some d)
  note E = merged_edges_some [where c = c and d = d, folded assms [unfolded Some]]
  have "edge_key \<lparr>e_source = rename_node (t_nodes c) a, e_target = rename_node (t_nodes c) b, e_type = e_type e\<rparr>
      \<in> edge_key ` set (t_edges merged)"
    if "distinct (map n_id (t_nodes d))" "list_all (\<lambda>n. n_id n \<noteq> []) (t_nodes c)" "e \<in> set (t_edges d)"
      "a \<in> set (t_nodes d)" "n_role a \<noteq> RoleRoot" "n_id a = e_source e"
      "b \<in> set (t_nodes d)" "n_role b \<noteq> RoleRoot" "n_id b = e_target e" for e a b
    by (rule E(4) [OF that(3) renamed_edge_joins [OF that(1,2,4-9)]])
  then show ?thesis unfolding Some option.inject using E(1,2,3) by blast
qed

theorem merge_edges_sound_and_complete_witness:
  "edge_key (sample_edge ''x'' ''dest:p'' Owns) \<in> edge_key ` set (t_edges (merge_git_ops_trees
     (sample_tree [sample_node ''x'' ''a'' RoleDeclared] [])
     (Some (sample_tree [sample_node ''d'' ''a'' RoleDeclared, sample_node ''p'' ''b'' RoleGenerated]
        [sample_edge ''d'' ''p'' Owns]))))"
proof -
  let ?c = "sample_tree [sample_node ''x'' ''a'' RoleDeclared] []"
  let ?a = "sample_node ''d'' ''a'' RoleDeclared" and ?b = "sample_node ''p'' ''b'' RoleGenerated"
  let ?e = "sample_edge ''d'' ''p'' Owns"
  have "edge_key \<lparr>e_source = rename_node (t_nodes ?c) ?a, e_target = rename_node (t_nodes ?c) ?b, e_type = e_type ?e\<rparr>
      \<in> edge_key ` set (t_edges (merge_git_ops_trees ?c (Some (sample_tree [?a, ?b] [?e]))))"
    using merge_edges_sound_and_complete [OF refl, of ?c "Some (sample_tree [?a, ?b] [?e])",
        THEN conjunct2, THEN conjunct2, THEN conjunct2, rule_format, of "sample_tree [?a, ?b] [?e]" ?e ?a ?b]
    by (simp add: tree_sample_defs)
  moreover have "rename_node (t_nodes ?c) ?a = ''x''" and "rename_node (t_nodes ?c) ?b = ''dest:p''"
    by (simp_all add: rename_node_def tree_sample_defs ref_key_def)
  ultimately show ?thesis by (simp add: sample_edge_def)
qed

text \<open>
  C4. The layout agrees with the closure: in a tree whose edges stay within its ids, the nodes that
  \<open>rankTree\<close> places left of the root (a negative rank) are exactly the dependencies that
  \<open>upstreamClosure\<close> reports, although one relaxes depths for at most as many passes as there are
  nodes and the other walks a queue.
\<close>

theorem negative_rank_iff_upstream_closure:
  assumes "tree_closed tree"
  shows "(case map_of (rank_tree tree) i of None \<Rightarrow> False | Some r \<Rightarrow> r < 0) \<longleftrightarrow> i \<in> set (upstream_closure tree)"
proof -
  let ?root = "n_id (t_root tree)"
  have depth: "map_of (upstream_depths tree) i \<noteq> None \<longleftrightarrow> i \<in> reach_from (upstream_edges (t_edges tree)) ?root"
    using upstream_depths_ok(2) [of tree] reach_rank_upstream [OF assms] by auto
  have pos: "0 < v" if "map_of (upstream_depths tree) i = Some v" "i \<noteq> ?root" for v
    using upstream_depths_ok(1) [of tree] that by (auto simp: depth_ok_def)
  have down: "map_of (upstream_depths tree) i = None \<and> 0 \<le> s"
    if "map_of (downstream_ranks tree) i = Some s" "i \<noteq> ?root" for s
    using downstream_ranks_ok [OF that(1)] that(2) pos
    by (cases "map_of (upstream_depths tree) i") (auto simp: negative_at_def negative_ranks_lookup)
  show ?thesis
    using depth pos down
    by (auto simp: rank_tree_lookup upstream_closure_reach split: option.split)
qed

theorem negative_rank_iff_upstream_closure_witness:
  "''g'' \<in> set (upstream_closure (sample_tree [sample_node ''g'' ''g'' RoleDeclared] [sample_edge ''r'' ''g'' Source]))"
proof -
  let ?t = "sample_tree [sample_node ''g'' ''g'' RoleDeclared] [sample_edge ''r'' ''g'' Source]"
  have closed: "tree_closed ?t"
    by (simp add: tree_closed_def tree_ids_def tree_sample_defs)
  have "map_of (rank_tree ?t) ''g'' = Some (- 1)" by code_simp
  with negative_rank_iff_upstream_closure [OF closed, of "''g''"] show ?thesis by simp
qed

text \<open>
  C5. Every node is placed, the root at 0, and no rank leaves the bounds of the loops: at most the
  node count to the left, at most \<open>maxIterations\<close> to the right.
\<close>

theorem rank_tree_total_and_bounded:
  "map_of (rank_tree tree) (n_id (t_root tree)) = Some 0
   \<and> set (tree_ids tree) \<subseteq> dom (map_of (rank_tree tree))
   \<and> (\<forall>i r. map_of (rank_tree tree) i = Some r \<longrightarrow>
        - int (length (tree_ids tree)) \<le> r \<and> r \<le> int (length (tree_ids tree)) * 8 + 64)"
proof (intro conjI allI impI)
  show "map_of (rank_tree tree) (n_id (t_root tree)) = Some 0" by (simp add: rank_tree_lookup)
  show "set (tree_ids tree) \<subseteq> dom (map_of (rank_tree tree))"
    by (auto simp: rank_tree_lookup split: option.split)
  fix i r
  assume r: "map_of (rank_tree tree) i = Some r"
  have ok: "depth_ok (length (tree_ids tree)) (n_id (t_root tree)) (set (tree_ids tree) - {n_id (t_root tree)})
      (upstream_depths tree)"
    by (rule upstream_depths_ok)
  then have d: "int v \<le> int (length (tree_ids tree))" if "map_of (upstream_depths tree) i = Some v" for v
    using that by (cases "i = n_id (t_root tree)") (auto simp: depth_ok_def)
  show "- int (length (tree_ids tree)) \<le> r"
    using r d downstream_ranks_ok(2) [of tree i] by (fastforce simp: rank_tree_lookup split: if_splits option.splits)
  show "r \<le> int (length (tree_ids tree)) * 8 + 64"
    using r downstream_ranks_ok(3) [of tree i] by (fastforce simp: rank_tree_lookup split: if_splits option.splits)
qed

theorem rank_tree_total_and_bounded_witness:
  "map_of (rank_tree (sample_tree [] [])) ''r'' = Some 0"
  using rank_tree_total_and_bounded [of "sample_tree [] []"] by (simp add: tree_sample_defs)

definition owning_cycle :: git_ops_resource_tree where
  "owning_cycle = sample_tree [sample_node ''r'' ''r'' RoleRoot, sample_node ''a'' ''a'' RoleDeclared]
     [sample_edge ''r'' ''a'' Owns, sample_edge ''a'' ''r'' Owns]"

text \<open>
  The right bound cannot be the node count, whatever the comment of \<open>rankTree\<close> says: on two
  nodes that own each other the walk climbs once per iteration until \<open>maxIterations\<close> stops it, and
  leaves the second node at rank 79.
\<close>

theorem rank_of_owning_cycle:
  "length (tree_ids owning_cycle) = 2 \<and> map_of (rank_tree owning_cycle) ''a'' = Some 79"
  by code_simp

end
