(* ===== verification/Api_Resources.thy ===== *)
theory Api_Resources
  imports Radar_Prelude
begin

text \<open>
  The table of built-in API resources, the names and categories of the sidebar
  (\<open>packages/k8s-ui/src/utils/api-resources.ts\<close>) and the English plurals they and the navigation
  maps fall back on (\<open>utils/pluralize.ts\<close>).

  \<open>localeCompare\<close>, the collation of the host, is the parameter \<open>locale_compare\<close>. A lookup in an
  object literal is \<open>map_of\<close>; the names an object inherits (\<open>constructor\<close>, \<open>toString\<close>, ...) are
  outside the domain of the lookups here.
\<close>

section \<open>English plurals (\<open>pluralize.ts\<close>)\<close>

definition drop_last :: "nat \<Rightarrow> string \<Rightarrow> string" where
  \<comment> \<open>\<open>s.slice(0, -n)\<close>\<close>
  "drop_last n s = take (length s - n) s"

definition consonant_y :: "string \<Rightarrow> bool" where
  \<comment> \<open>\<open>/[^aeiou]y$/i\<close>\<close>
  "consonant_y noun =
     (case rev (to_lower noun) of
        y # c # rest \<Rightarrow> y = CHR ''y'' \<and> c \<notin> set ''aeiou''
      | _ \<Rightarrow> False)"

definition english_plural :: "string \<Rightarrow> string" where
  "english_plural noun =
     (let l = to_lower noun in
      if ends_with l ''s'' \<or> ends_with l ''x'' \<or> ends_with l ''ch'' \<or> ends_with l ''sh'' then noun @ ''es''
      else if consonant_y noun then drop_last 1 noun @ ''ies''
      else noun @ ''s'')"

definition english_singular :: "string \<Rightarrow> string" where
  "english_singular noun =
     (let l = to_lower noun in
      if ends_with l ''ies'' then drop_last 3 noun @ ''y''
      else if ends_with l ''ses'' \<or> ends_with l ''xes'' \<or> ends_with l ''ches'' \<or> ends_with l ''shes''
      then drop_last 2 noun
      else if ends_with l ''s'' then drop_last 1 noun
      else noun)"

definition is_english_plural :: "string \<Rightarrow> bool" where
  "is_english_plural noun = (english_plural (english_singular noun) = noun)"

definition plural_noun :: "int \<Rightarrow> string \<Rightarrow> string option \<Rightarrow> string" where
  "plural_noun n singular plural = (if n = 1 then singular else coalesce plural (english_plural singular))"

definition pluralize :: "int \<Rightarrow> string \<Rightarrow> string option \<Rightarrow> string" where
  "pluralize n singular plural = show_int n @ '' '' @ plural_noun n singular plural"

section \<open>Built-in resources\<close>

record api_resource =
  ar_group :: string
  ar_version :: string
  ar_kind :: string
  ar_name :: string
  ar_namespaced :: bool
  ar_is_crd :: bool
  ar_definition_name :: "string option"
  ar_featured :: "bool option"
  ar_verbs :: "string list option"
  ar_observation :: "json option"

definition workload_kinds :: "string list" where
  "workload_kinds = [''Pod'', ''Deployment'', ''Rollout'', ''DaemonSet'', ''StatefulSet'', ''ReplicaSet'',
     ''Job'', ''CronJob'']"

definition networking_kinds :: "string list" where
  "networking_kinds = [''Service'', ''Ingress'', ''IngressClass'', ''NetworkPolicy'', ''Endpoints'',
     ''EndpointSlice'']"

definition config_kinds :: "string list" where
  "config_kinds = [''ConfigMap'', ''Secret'', ''HorizontalPodAutoscaler'', ''PodDisruptionBudget'',
     ''LimitRange'', ''ResourceQuota'', ''PriorityClass'', ''RuntimeClass'', ''Lease'',
     ''MutatingWebhookConfiguration'', ''ValidatingWebhookConfiguration'']"

definition storage_kinds :: "string list" where
  "storage_kinds = [''PersistentVolumeClaim'', ''PersistentVolume'', ''StorageClass'', ''VolumeAttachment'']"

definition access_control_kinds :: "string list" where
  "access_control_kinds = [''ServiceAccount'', ''Role'', ''ClusterRole'', ''RoleBinding'',
     ''ClusterRoleBinding'']"

definition cluster_kinds :: "string list" where
  "cluster_kinds = [''Node'', ''Namespace'', ''Event'']"

definition core_category_names :: "string list" where
  "core_category_names = [''Workloads'', ''Networking'', ''Configuration'', ''Storage'',
     ''Access Control'', ''Cluster'']"

definition builtin_resource :: "string \<Rightarrow> string \<Rightarrow> string \<Rightarrow> string \<Rightarrow> bool \<Rightarrow> api_resource" where
  "builtin_resource g v k n ns = \<lparr>ar_group = g, ar_version = v, ar_kind = k, ar_name = n, ar_namespaced = ns,
     ar_is_crd = False, ar_definition_name = None, ar_featured = None,
     ar_verbs = Some [''list'', ''get'', ''watch''], ar_observation = None\<rparr>"

definition core_resources :: "api_resource list" where
  "core_resources =
    [builtin_resource [] ''v1'' ''Pod'' ''pods'' True,
     builtin_resource [] ''v1'' ''Service'' ''services'' True,
     builtin_resource [] ''v1'' ''ConfigMap'' ''configmaps'' True,
     builtin_resource [] ''v1'' ''Secret'' ''secrets'' True,
     builtin_resource [] ''v1'' ''Node'' ''nodes'' False,
     builtin_resource [] ''v1'' ''Namespace'' ''namespaces'' False,
     builtin_resource [] ''v1'' ''ServiceAccount'' ''serviceaccounts'' True,
     builtin_resource [] ''v1'' ''PersistentVolumeClaim'' ''persistentvolumeclaims'' True,
     builtin_resource [] ''v1'' ''PersistentVolume'' ''persistentvolumes'' False,
     builtin_resource ''apps'' ''v1'' ''Deployment'' ''deployments'' True,
     builtin_resource ''apps'' ''v1'' ''DaemonSet'' ''daemonsets'' True,
     builtin_resource ''apps'' ''v1'' ''StatefulSet'' ''statefulsets'' True,
     builtin_resource ''apps'' ''v1'' ''ReplicaSet'' ''replicasets'' True,
     builtin_resource ''batch'' ''v1'' ''Job'' ''jobs'' True,
     builtin_resource ''batch'' ''v1'' ''CronJob'' ''cronjobs'' True,
     builtin_resource ''networking.k8s.io'' ''v1'' ''Ingress'' ''ingresses'' True,
     builtin_resource ''networking.k8s.io'' ''v1'' ''NetworkPolicy'' ''networkpolicies'' True,
     builtin_resource ''discovery.k8s.io'' ''v1'' ''EndpointSlice'' ''endpointslices'' True,
     builtin_resource ''autoscaling'' ''v2'' ''HorizontalPodAutoscaler'' ''horizontalpodautoscalers'' True,
     builtin_resource ''policy'' ''v1'' ''PodDisruptionBudget'' ''poddisruptionbudgets'' True,
     builtin_resource [] ''v1'' ''LimitRange'' ''limitranges'' True,
     builtin_resource [] ''v1'' ''ResourceQuota'' ''resourcequotas'' True,
     builtin_resource [] ''v1'' ''Event'' ''events'' True,
     builtin_resource ''rbac.authorization.k8s.io'' ''v1'' ''Role'' ''roles'' True,
     builtin_resource ''rbac.authorization.k8s.io'' ''v1'' ''ClusterRole'' ''clusterroles'' False,
     builtin_resource ''rbac.authorization.k8s.io'' ''v1'' ''RoleBinding'' ''rolebindings'' True,
     builtin_resource ''rbac.authorization.k8s.io'' ''v1'' ''ClusterRoleBinding'' ''clusterrolebindings'' False,
     builtin_resource ''networking.k8s.io'' ''v1'' ''IngressClass'' ''ingressclasses'' False,
     builtin_resource ''admissionregistration.k8s.io'' ''v1'' ''MutatingWebhookConfiguration'' ''mutatingwebhookconfigurations'' False,
     builtin_resource ''admissionregistration.k8s.io'' ''v1'' ''ValidatingWebhookConfiguration'' ''validatingwebhookconfigurations'' False,
     builtin_resource ''scheduling.k8s.io'' ''v1'' ''PriorityClass'' ''priorityclasses'' False,
     builtin_resource ''node.k8s.io'' ''v1'' ''RuntimeClass'' ''runtimeclasses'' False,
     builtin_resource ''coordination.k8s.io'' ''v1'' ''Lease'' ''leases'' True,
     builtin_resource ''storage.k8s.io'' ''v1'' ''StorageClass'' ''storageclasses'' False,
     builtin_resource ''storage.k8s.io'' ''v1'' ''VolumeAttachment'' ''volumeattachments'' False]"

definition additional_builtin_identities :: "(string \<times> string) list" where
  "additional_builtin_identities =
    [(''endpoints'', []),
     (''controllerrevision'', ''apps''),
     (''controllerrevisions'', ''apps''),
     (''resourceclaim'', ''resource.k8s.io''),
     (''resourceclaims'', ''resource.k8s.io''),
     (''resourceclaimtemplate'', ''resource.k8s.io''),
     (''resourceclaimtemplates'', ''resource.k8s.io''),
     (''resourceslice'', ''resource.k8s.io''),
     (''resourceslices'', ''resource.k8s.io''),
     (''deviceclass'', ''resource.k8s.io''),
     (''deviceclasses'', ''resource.k8s.io'')]"

definition additional_core_kinds :: "string list" where
  "additional_core_kinds = [''Endpoints'']"

definition is_builtin_core_kind :: "string \<Rightarrow> bool" where
  "is_builtin_core_kind kind \<longleftrightarrow>
     kind \<in> set additional_core_kinds \<or> list_ex (\<lambda>r. ar_group r = [] \<and> ar_kind r = kind) core_resources"

definition builtin_group_for_kind :: "string \<Rightarrow> string option" where
  "builtin_group_for_kind kind_or_resource =
     (let value = to_lower kind_or_resource in
      case List.find (\<lambda>r. to_lower (ar_kind r) = value \<or> to_lower (ar_name r) = value) core_resources of
        Some r \<Rightarrow> Some (ar_group r)
      | None \<Rightarrow> map_of additional_builtin_identities value)"

definition canonical_resource_group :: "string \<Rightarrow> string option \<Rightarrow> string option" where
  "canonical_resource_group kind_or_resource grp =
     (if \<not> truthy_str grp then builtin_group_for_kind kind_or_resource else grp)"

definition find_api_resource_for_route ::
  "api_resource list option \<Rightarrow> string \<Rightarrow> string \<Rightarrow> api_resource option" where
  "find_api_resource_for_route resources slug grp =
     (let matches = (\<lambda>r. ar_name r = slug \<or> ar_kind r = slug);
          discovered = coalesce resources []
      in if grp \<noteq> []
         then coalesce_opt (List.find (\<lambda>r. matches r \<and> ar_group r = grp) discovered)
                (List.find (\<lambda>r. matches r \<and> ar_group r = grp) core_resources)
         else coalesce_opt (List.find matches core_resources) (List.find matches discovered))"

definition is_core_batch_job :: "string \<Rightarrow> string option \<Rightarrow> bool" where
  "is_core_batch_job kind grp \<longleftrightarrow>
     (to_lower kind = ''job'' \<or> to_lower kind = ''jobs'') \<and> (\<not> truthy_str grp \<or> grp = Some ''batch'')"

section \<open>Group names\<close>

definition known_groups :: "(string \<times> string) list" where
  "known_groups =
    [(''argoproj.io'', ''Argo''),
     (''apiregistration.k8s.io'', ''API Registration''),
     (''cert-manager.io'', ''Cert Manager''),
     (''acme.cert-manager.io'', ''Cert Manager''),
     (''istio.io'', ''Istio''),
     (''networking.istio.io'', ''Istio''),
     (''security.istio.io'', ''Istio''),
     (''telemetry.istio.io'', ''Istio''),
     (''monitoring.coreos.com'', ''Prometheus''),
     (''monitoring.googleapis.com'', ''Google Cloud Monitoring''),
     (''velero.io'', ''Velero''),
     (''external-secrets.io'', ''External Secrets''),
     (''keda.sh'', ''KEDA''),
     (''gateway.networking.k8s.io'', ''Gateway API''),
     (''gateway.envoyproxy.io'', ''Envoy Gateway''),
     (''traefik.io'', ''Traefik''),
     (''traefik.containo.us'', ''Traefik''),
     (''crossplane.io'', ''Crossplane''),
     (''pkg.crossplane.io'', ''Crossplane''),
     (''apiextensions.crossplane.io'', ''Crossplane''),
     (''helm.crossplane.io'', ''Crossplane''),
     (''kubernetes.crossplane.io'', ''Crossplane''),
     (''source.toolkit.fluxcd.io'', ''Flux''),
     (''helm.toolkit.fluxcd.io'', ''Flux''),
     (''kustomize.toolkit.fluxcd.io'', ''Flux''),
     (''notification.toolkit.fluxcd.io'', ''Flux''),
     (''image.toolkit.fluxcd.io'', ''Flux''),
     (''serving.knative.dev'', ''Knative''),
     (''eventing.knative.dev'', ''Knative''),
     (''messaging.knative.dev'', ''Knative''),
     (''sources.knative.dev'', ''Knative''),
     (''networking.internal.knative.dev'', ''Knative''),
     (''flows.knative.dev'', ''Knative''),
     (''kafka.strimzi.io'', ''Strimzi''),
     (''tekton.dev'', ''Tekton''),
     (''linkerd.io'', ''Linkerd''),
     (''policy.linkerd.io'', ''Linkerd''),
     (''cilium.io'', ''Cilium''),
     (''aquasecurity.github.io'', ''Trivy''),
     (''bitnami.com'', ''Bitnami''),
     (''elasticsearch.k8s.elastic.co'', ''Elastic''),
     (''kibana.k8s.elastic.co'', ''Elastic''),
     (''apm.k8s.elastic.co'', ''Elastic''),
     (''beat.k8s.elastic.co'', ''Elastic''),
     (''agent.k8s.elastic.co'', ''Elastic''),
     (''maps.k8s.elastic.co'', ''Elastic''),
     (''logstash.k8s.elastic.co'', ''Elastic''),
     (''jaegertracing.io'', ''Jaeger''),
     (''opentelemetry.io'', ''OpenTelemetry''),
     (''projectcalico.org'', ''Calico''),
     (''crd.projectcalico.org'', ''Calico''),
     (''projectcontour.io'', ''Contour''),
     (''cluster.x-k8s.io'', ''Cluster API''),
     (''controlplane.cluster.x-k8s.io'', ''Cluster API''),
     (''bootstrap.cluster.x-k8s.io'', ''Cluster API''),
     (''infrastructure.cluster.x-k8s.io'', ''Cluster API''),
     (''ceph.rook.io'', ''Rook''),
     (''kyverno.io'', ''Kyverno''),
     (''policies.kyverno.io'', ''Kyverno''),
     (''k8s.nginx.org'', ''NGINX''),
     (''networking.gke.io'', ''GKE Networking''),
     (''warden.gke.io'', ''GKE Warden''),
     (''cloud.google.com'', ''Google Cloud''),
     (''sparkoperator.k8s.io'', ''Spark''),
     (''kubeflow.org'', ''Kubeflow''),
     (''snapshot.storage.k8s.io'', ''Snapshots''),
     (''karpenter.sh'', ''Karpenter''),
     (''karpenter.k8s.aws'', ''Karpenter''),
     (''karpenter.azure.com'', ''Karpenter''),
     (''karpenter.k8s.gcp'', ''Karpenter''),
     (''resource.k8s.io'', ''Dynamic Resource Allocation''),
     (''kueue.x-k8s.io'', ''Kueue''),
     (''autoscaling.x-k8s.io'', ''Cluster Autoscaler''),
     (''crd.k8s.amazonaws.com'', ''AWS VPC CNI''),
     (''vpcresources.k8s.aws'', ''AWS VPC CNI''),
     (''elbv2.k8s.aws'', ''AWS Load Balancer''),
     (''eks.amazonaws.com'', ''EKS''),
     (''networking.k8s.aws'', ''AWS Networking''),
     (''acid.zalan.do'', ''Zalando Postgres''),
     (''postgresql.cnpg.io'', ''CloudNativePG''),
     (''barmancloud.cnpg.io'', ''CloudNativePG''),
     (''serving.kserve.io'', ''KServe''),
     (''ray.io'', ''KubeRay''),
     (''leaderworkerset.x-k8s.io'', ''LeaderWorkerSet''),
     (''jobset.x-k8s.io'', ''JobSet''),
     (''inference.networking.k8s.io'', ''Inference Gateway''),
     (''inference.networking.x-k8s.io'', ''Inference Gateway''),
     (''llm-d.ai'', ''llm-d''),
     (''nvidia.com'', ''NVIDIA GPU Operator''),
     (''apps.nvidia.com'', ''NVIDIA NIM''),
     (''amd.com'', ''AMD GPU Operator''),
     (''trainer.kubeflow.org'', ''Kubeflow''),
     (''scheduling.run.ai'', ''KAI Scheduler''),
     (''kai.scheduler'', ''KAI Scheduler''),
     (''kaito.sh'', ''KAITO''),
     (''batch.volcano.sh'', ''Volcano''),
     (''scheduling.volcano.sh'', ''Volcano''),
     (''flow.volcano.sh'', ''Volcano''),
     (''bus.volcano.sh'', ''Volcano'')]"

definition group_suffix_labels :: "string list" where
  "group_suffix_labels = [''io'', ''com'', ''org'', ''dev'', ''sh'', ''net'', ''do'', ''ai'', ''cloud'',
     ''co'', ''app'', ''k8s'', ''x-k8s'', ''k8s-sigs'', ''sigs'']"

definition group_acronyms :: "(string \<times> string) list" where
  "group_acronyms =
    [(''api'', ''API''),
     (''aws'', ''AWS''),
     (''amazonaws'', ''AWS''),
     (''cnrm'', ''CNRM''),
     (''crd'', ''CRD''),
     (''csi'', ''CSI''),
     (''dns'', ''DNS''),
     (''gcp'', ''GCP''),
     (''gke'', ''GKE''),
     (''gpu'', ''GPU''),
     (''hpa'', ''HPA''),
     (''ipam'', ''IPAM''),
     (''k8s'', ''K8s''),
     (''nfd'', ''NFD''),
     (''tcp'', ''TCP''),
     (''tls'', ''TLS''),
     (''udp'', ''UDP'')]"

definition avoid_core_category_collision :: "string \<Rightarrow> string" where
  "avoid_core_category_collision label =
     (if label \<in> set core_category_names then label @ '' APIs'' else label)"

definition capitalize_first :: "string \<Rightarrow> string" where
  \<comment> \<open>\<open>part.charAt(0).toUpperCase() + part.slice(1)\<close>\<close>
  "capitalize_first part = to_upper (take 1 part) @ drop 1 part"

definition token_parts :: "string \<Rightarrow> string list" where
  \<comment> \<open>\<open>token.split(/[-_]/).filter(Boolean)\<close>\<close>
  "token_parts token =
     filter (\<lambda>p. p \<noteq> []) (split_char CHR ''-'' (map (\<lambda>c. if c = CHR ''_'' then CHR ''-'' else c) token))"

definition format_group_token :: "string \<Rightarrow> string" where
  "format_group_token token =
     join '' '' (map (\<lambda>p. coalesce (map_of group_acronyms p) (capitalize_first p)) (token_parts token))"

definition group_labels :: "string \<Rightarrow> string list" where
  "group_labels grp =
     filter (\<lambda>l. l \<noteq> [] \<and> l \<notin> set group_suffix_labels)
       (map (\<lambda>l. to_lower (trim l)) (split_char CHR ''.'' grp))"

definition format_unmapped_group_name :: "string \<Rightarrow> string" where
  "format_unmapped_group_name grp =
     (case group_labels grp of
        [] \<Rightarrow> grp
      | [l] \<Rightarrow> avoid_core_category_collision (format_group_token l)
      | l # ls \<Rightarrow> avoid_core_category_collision
          (join '' '' (map format_group_token (last (l # ls) # butlast (l # ls)))))"

definition format_group_name :: "string \<Rightarrow> string" where
  "format_group_name grp =
     (case map_of known_groups grp of
        Some label \<Rightarrow> label
      | None \<Rightarrow>
          if ends_with grp ''.upbound.io'' then ''Crossplane''
          else if ends_with grp ''.crossplane.io'' then ''Crossplane''
          else if grp = ''cluster.x-k8s.io'' \<or> ends_with grp ''.cluster.x-k8s.io'' then ''Cluster API''
          else if ends_with grp ''.cnrm.cloud.google.com'' then ''Config Connector''
          else if ends_with grp ''.openshift.io'' then ''OpenShift''
          else format_unmapped_group_name grp)"

definition strip_suffixes :: "string list \<Rightarrow> string \<Rightarrow> string" where
  \<comment> \<open>the replacement of a \<open>$\<close>-anchored alternation by the empty string\<close>
  "strip_suffixes ts s = (case List.find (ends_with s) ts of None \<Rightarrow> s | Some t \<Rightarrow> drop_last (length t) s)"

definition shorten_group_name :: "string \<Rightarrow> string" where
  "shorten_group_name grp =
     strip_suffixes [''.k8s''] (strip_suffixes [''.io'', ''.com'', ''.org'', ''.dev'', ''.sh''] grp)"

section \<open>Sidebar categories\<close>

record resource_category =
  rc_name :: string
  rc_resources :: "api_resource list"

definition hidden_kinds :: "string list" where
  "hidden_kinds = [''PodMetrics'', ''NodeMetrics'']"

definition listable :: "api_resource \<Rightarrow> bool" where
  "listable r \<longleftrightarrow> ''list'' \<in> set (coalesce (ar_verbs r) []) \<and> ar_kind r \<notin> set hidden_kinds
     \<and> \<not> (ar_kind r = ''Event'' \<and> ar_group r = ''events.k8s.io'')"

definition dedup_key :: "api_resource \<Rightarrow> string" where
  "dedup_key r = (if ar_is_crd r then ar_group r @ ''/'' @ ar_kind r else ar_kind r)"

definition unique_resources :: "api_resource list \<Rightarrow> api_resource list" where
  "unique_resources resources =
     map snd (fold (\<lambda>r m. AList.update (dedup_key r) r m) (filter listable resources)
       (fold (\<lambda>r m. AList.update (dedup_key r) r m) core_resources []))"

definition add_to_category ::
  "string \<Rightarrow> api_resource list \<Rightarrow> (string \<times> api_resource list) list \<Rightarrow> (string \<times> api_resource list) list" where
  "add_to_category name items categories =
     (if items = [] then categories
      else AList.update name (coalesce (map_of categories name) [] @ items) categories)"

definition crd_group :: "api_resource \<Rightarrow> string" where
  \<comment> \<open>\<open>crd.group || 'custom'\<close>\<close>
  "crd_group r = (if ar_group r = [] then ''custom'' else ar_group r)"

definition crd_groups :: "api_resource list \<Rightarrow> (string \<times> api_resource list) list" where
  "crd_groups crds =
     fold (\<lambda>r m. AList.update (crd_group r) (coalesce (map_of m (crd_group r)) [] @ [r]) m) crds []"

definition sort_resources :: "(string \<Rightarrow> string \<Rightarrow> int) \<Rightarrow> api_resource list \<Rightarrow> api_resource list" where
  "sort_resources locale_compare resources = js_sort (\<lambda>a b. locale_compare (ar_kind a) (ar_kind b)) resources"

definition core_categories :: "api_resource list \<Rightarrow> (string \<times> api_resource list) list" where
  "core_categories uniq =
     (let core = filter (\<lambda>r. \<not> ar_is_crd r) uniq;
          of_kinds = (\<lambda>ks. filter (\<lambda>r. ar_kind r \<in> set ks) core)
      in fold (\<lambda>(name, items). add_to_category name items)
           [(''Workloads'', of_kinds workload_kinds), (''Networking'', of_kinds networking_kinds),
            (''Configuration'', of_kinds config_kinds), (''Storage'', of_kinds storage_kinds),
            (''Access Control'', of_kinds access_control_kinds), (''Cluster'', of_kinds cluster_kinds),
            (''Other Kubernetes APIs'', filter (\<lambda>r. truthy_bool (ar_featured r)) core)] [])"

definition categorize_resources ::
  "(string \<Rightarrow> string \<Rightarrow> int) \<Rightarrow> api_resource list \<Rightarrow> resource_category list" where
  "categorize_resources locale_compare resources =
     (let uniq = unique_resources resources;
          categories = fold (\<lambda>(grp, items). add_to_category (format_group_name grp) items)
            (crd_groups (filter ar_is_crd uniq)) (core_categories uniq)
      in map (\<lambda>(name, items). \<lparr>rc_name = name, rc_resources = sort_resources locale_compare items\<rparr>) categories)"

definition get_kind_label :: "string \<Rightarrow> string" where
  "get_kind_label kind =
     trim (concat (map (\<lambda>c. if c \<in> set ''ABCDEFGHIJKLMNOPQRSTUVWXYZ'' then [CHR '' '', c] else [c]) kind))"

definition get_kind_plural :: "api_resource \<Rightarrow> string" where
  "get_kind_plural resource = ar_name resource"


section \<open>Lemmas on plurals\<close>

lemma of_char_char_of: "n < 256 \<Longrightarrow> of_char (char_of n :: char) = (n :: nat)"
  by (simp add: take_bit_eq_mod)

lemma lower_char_idem [simp]: "lower_char (lower_char c) = lower_char c"
  by (auto simp: lower_char_def Let_def of_char_char_of)

lemma to_lower_simps [simp]: "to_lower [] = []" "to_lower (c # s) = lower_char c # to_lower s"
  by (simp_all add: to_lower_def)

lemma to_lower_idem [simp]: "to_lower (to_lower s) = to_lower s"
  by (simp add: to_lower_def)

lemma to_lower_append [simp]: "to_lower (s @ t) = to_lower s @ to_lower t"
  by (simp add: to_lower_def)

lemma to_lower_take: "to_lower (take n s) = take n (to_lower s)"
  by (simp add: to_lower_def take_map)

lemma length_to_lower [simp]: "length (to_lower s) = length s"
  by (simp add: to_lower_def)

lemma to_lower_rev: "to_lower (rev s) = rev (to_lower s)"
  by (simp add: to_lower_def rev_map)

lemma ends_with_rev: "ends_with s t \<longleftrightarrow> prefix (rev t) (rev s)"
  by (simp add: ends_with_def suffix_to_prefix)

lemma drop_last_append [simp]: "length t = n \<Longrightarrow> drop_last n (s @ t) = s"
  by (simp add: drop_last_def)

text \<open>The kinds whose plural English rules do not recognise again: a vowel before \<open>ie\<close>.\<close>

definition vowel_ie :: "string \<Rightarrow> bool" where
  "vowel_ie s = (case rev s of
       e # i # c # rest \<Rightarrow> e = CHR ''e'' \<and> i = CHR ''i'' \<and> c \<in> set ''aeiou''
     | [e, i] \<Rightarrow> e = CHR ''e'' \<and> i = CHR ''i''
     | _ \<Rightarrow> False)"


lemma to_lower_snoc: "to_lower (s @ [c]) = s @ [c] \<longleftrightarrow> to_lower s = s \<and> lower_char c = c"
  by (simp add: to_lower_def)

lemma lower_letters [simp]:
  "lower_char CHR ''e'' = CHR ''e''" "lower_char CHR ''i'' = CHR ''i''"
  "lower_char CHR ''s'' = CHR ''s''" "lower_char CHR ''y'' = CHR ''y''"
  by (simp_all add: lower_char_def)

lemma to_lower_map: "to_lower s = map lower_char s"
  by (simp add: to_lower_def)

lemma english_plural_rev:
  assumes "to_lower (rev r) = rev r"
  shows "english_plural (rev r) =
    (if prefix ''s'' r \<or> prefix ''x'' r \<or> prefix ''hc'' r \<or> prefix ''hs'' r then rev r @ ''es''
     else case r of
       y # c # rest \<Rightarrow> if y = CHR ''y'' \<and> c \<notin> set ''aeiou'' then rev (c # rest) @ ''ies'' else rev r @ ''s''
     | _ \<Rightarrow> rev r @ ''s'')"
  using assms
  by (cases r rule: remdups_adj.cases)
     (auto simp: english_plural_def Let_def ends_with_rev consonant_y_def drop_last_def)

lemma english_singular_rev:
  assumes "to_lower (rev r) = rev r"
  shows "english_singular (rev r) =
    (if prefix ''sei'' r then rev (drop 3 r) @ ''y''
     else if prefix ''ses'' r \<or> prefix ''sex'' r \<or> prefix ''sehc'' r \<or> prefix ''sehs'' r then rev (drop 2 r)
     else if prefix ''s'' r then rev (drop 1 r) else rev r)"
  using assms
  by (auto simp: english_singular_def Let_def ends_with_rev drop_last_def rev_drop length_drop take_append
      simp flip: rev_take)


lemma recognised_rev:
  assumes low: "to_lower (rev r) = rev r" and ie: "\<not> vowel_ie (rev r)"
  shows "is_english_plural (english_plural (rev r))"
proof -
  have chars: "lower_char c = c" if "c \<in> set r" for c
    using low that by (metis in_set_conv_nth length_rev nth_map set_rev to_lower_map)
  have sing: "english_singular (rev (CHR ''s'' # q)) =
    (if prefix ''ei'' q then rev (drop 2 q) @ ''y''
     else if prefix ''es'' q \<or> prefix ''ex'' q \<or> prefix ''ehc'' q \<or> prefix ''ehs'' q then rev (drop 1 q)
     else rev q)" if "to_lower (rev q) = rev q" for q
    using that english_singular_rev [of "CHR ''s'' # q"] by (simp add: to_lower_snoc)
  consider (es) "prefix ''s'' r \<or> prefix ''x'' r \<or> prefix ''hc'' r \<or> prefix ''hs'' r"
    | (y) c rest where "r = CHR ''y'' # c # rest" "c \<notin> set ''aeiou''"
    | (s) "\<not> (prefix ''s'' r \<or> prefix ''x'' r \<or> prefix ''hc'' r \<or> prefix ''hs'' r)"
        "\<And>c rest. r = CHR ''y'' # c # rest \<Longrightarrow> c \<in> set ''aeiou''"
    by blast
  then show ?thesis
  proof cases
    case es
    then have pl: "english_plural (rev r) = rev (CHR ''s'' # CHR ''e'' # r)"
      by (simp add: english_plural_rev [OF low])
    have "english_singular (rev (CHR ''s'' # CHR ''e'' # r)) = rev r"
      using es low by (subst sing) (cases r; auto simp: to_lower_snoc)+
    then show ?thesis unfolding is_english_plural_def pl by (simp add: pl)
  next
    case y
    then have pl: "english_plural (rev r) = rev (CHR ''s'' # CHR ''e'' # CHR ''i'' # c # rest)"
      using english_plural_rev [OF low] by simp
    have "english_singular (rev (CHR ''s'' # CHR ''e'' # CHR ''i'' # c # rest)) = rev r"
      using y low by (subst sing) (auto simp: to_lower_snoc)
    then show ?thesis unfolding is_english_plural_def pl by (simp add: pl)
  next
    case s
    then have pl: "english_plural (rev r) = rev (CHR ''s'' # r)"
      by (auto simp: english_plural_rev [OF low] split: list.split)
    consider (ie) rest where "r = CHR ''e'' # CHR ''i'' # rest" | (e) rest where "r = CHR ''e'' # rest"
        "prefix ''s'' rest \<or> prefix ''x'' rest \<or> prefix ''hc'' rest \<or> prefix ''hs'' rest"
      | (plain) "\<not> prefix ''ei'' r" "\<not> (prefix ''es'' r \<or> prefix ''ex'' r \<or> prefix ''ehc'' r \<or> prefix ''ehs'' r)"
      by (cases r; cases "tl r") auto
    then show ?thesis
    proof cases
      case ie
      with \<open>\<not> vowel_ie (rev r)\<close> obtain c q where q: "rest = c # q" "c \<notin> set ''aeiou''"
        by (cases rest) (auto simp: vowel_ie_def)
      have "english_singular (rev (CHR ''s'' # r)) = rev (CHR ''y'' # rest)"
        using low ie by (subst sing) auto
      moreover have "to_lower (rev (CHR ''y'' # rest)) = rev (CHR ''y'' # rest)"
        using low ie by (auto simp: to_lower_snoc)
      then have "english_plural (rev (CHR ''y'' # rest)) = rev (CHR ''s'' # r)"
        using q ie by (subst english_plural_rev) auto
      ultimately show ?thesis unfolding is_english_plural_def pl by simp
    next
      case e
      then have "english_singular (rev (CHR ''s'' # r)) = rev rest"
        using low by (subst sing) (cases rest; auto)+
      moreover have "to_lower (rev rest) = rev rest"
        using low e by (auto simp: to_lower_snoc)
      then have "english_plural (rev rest) = rev (CHR ''s'' # r)"
        using e by (subst english_plural_rev) auto
      ultimately show ?thesis unfolding is_english_plural_def pl by simp
    next
      case plain
      then have "english_singular (rev (CHR ''s'' # r)) = rev r"
        using low by (subst sing) auto
      then show ?thesis unfolding is_english_plural_def pl by (simp only: pl)
    qed
  qed
qed

lemma english_plural_recognised:
  "to_lower n = n \<Longrightarrow> \<not> vowel_ie n \<Longrightarrow> is_english_plural (english_plural n)"
  using recognised_rev [of "rev n"] by simp


section \<open>Lemmas on categories\<close>

lemma core_category_names_distinct: "distinct core_category_names"
  by (simp add: core_category_names_def)

lemma avoid_not_core: "avoid_core_category_collision l \<notin> set core_category_names"
  by (auto simp: avoid_core_category_collision_def core_category_names_def)

lemma known_group_labels_not_core: "list_all (\<lambda>(g, l). l \<notin> set core_category_names) known_groups"
  by code_simp

lemma core_names_have_labels: "list_all (\<lambda>n. group_labels n \<noteq> []) core_category_names"
  by code_simp

lemma suffix_labels_not_core:
  "list_all (\<lambda>l. l \<notin> set core_category_names)
     [''Crossplane'', ''Cluster API'', ''Config Connector'', ''OpenShift'']"
  by code_simp

lemma format_group_name_not_core: "format_group_name g \<notin> set core_category_names"
proof -
  have known: "l \<notin> set core_category_names" if "map_of known_groups g = Some l" for l
    using known_group_labels_not_core map_of_SomeD [OF that] by (auto simp: list_all_iff)
  have unmapped: "format_unmapped_group_name g \<notin> set core_category_names"
  proof (cases "group_labels g" rule: remdups_adj.cases)
    case 1
    then have "g \<notin> set core_category_names" using core_names_have_labels by (auto simp: list_all_iff)
    with 1 show ?thesis by (simp add: format_unmapped_group_name_def)
  qed (simp_all add: format_unmapped_group_name_def avoid_not_core)
  show ?thesis
    unfolding format_group_name_def
    using known unmapped suffix_labels_not_core by (simp split: option.split)
qed

definition items_of :: "(string \<times> api_resource list) list \<Rightarrow> string \<Rightarrow> api_resource set" where
  "items_of cats n = set (coalesce (map_of cats n) [])"

lemma items_of_add [simp]:
  "items_of (add_to_category n items cats) m = items_of cats m \<union> (if m = n then set items else {})"
  by (auto simp: items_of_def add_to_category_def update_conv' coalesce_def)

lemma items_of_Nil [simp]: "items_of [] m = {}"
  by (simp add: items_of_def)

lemma items_of_fold_add:
  "items_of (fold (\<lambda>(g, items). add_to_category (f g) items) gs cats) m
     = items_of cats m \<union> (\<Union>(g, items) \<in> set gs. if m = f g then set items else {})"
  by (induction gs arbitrary: cats) (auto split: if_splits)

lemma distinct_add_to_category:
  "distinct (map fst cats) \<Longrightarrow> distinct (map fst (add_to_category n items cats))"
  by (simp add: add_to_category_def distinct_update)

lemma distinct_fold_add:
  "distinct (map fst cats) \<Longrightarrow>
     distinct (map fst (fold (\<lambda>(g, items). add_to_category (f g) items) gs cats))"
  by (induction gs arbitrary: cats) (auto simp: distinct_add_to_category)

lemma crd_groups_lookup:
  "coalesce (map_of (crd_groups crds) g) [] = filter (\<lambda>r. crd_group r = g) crds"
proof -
  have "coalesce (map_of (fold (\<lambda>r m. AList.update (crd_group r) (coalesce (map_of m (crd_group r)) [] @ [r]) m) crds m) g) []
      = coalesce (map_of m g) [] @ filter (\<lambda>r. crd_group r = g) crds" for m
    by (induction crds arbitrary: m) (auto simp: update_conv')
  from this [of "[]"] show ?thesis by (simp add: crd_groups_def)
qed

lemma distinct_crd_groups: "distinct (map fst (crd_groups crds))"
proof -
  have "distinct (map fst m) \<Longrightarrow> distinct (map fst (fold (\<lambda>r m. AList.update (crd_group r)
      (coalesce (map_of m (crd_group r)) [] @ [r]) m) crds m))" for m
    by (induction crds arbitrary: m) (auto simp: distinct_update)
  then show ?thesis by (simp add: crd_groups_def)
qed

lemma in_crd_groups: "(g, items) \<in> set (crd_groups crds) \<Longrightarrow> items = filter (\<lambda>r. crd_group r = g) crds"
  using crd_groups_lookup [of crds g] distinct_crd_groups [of crds] by simp

lemma crd_groups_covers:
  assumes "r \<in> set crds"
  shows "(crd_group r, filter (\<lambda>x. crd_group x = crd_group r) crds) \<in> set (crd_groups crds)"
proof -
  have "coalesce (map_of (crd_groups crds) (crd_group r)) [] \<noteq> []"
    using assms by (auto simp: crd_groups_lookup filter_empty_conv)
  then obtain items where "map_of (crd_groups crds) (crd_group r) = Some items"
    by (cases "map_of (crd_groups crds) (crd_group r)") auto
  then have "(crd_group r, items) \<in> set (crd_groups crds)" by (rule map_of_SomeD)
  with in_crd_groups show ?thesis by blast
qed

definition all_categories :: "api_resource list \<Rightarrow> (string \<times> api_resource list) list" where
  "all_categories uniq =
     fold (\<lambda>(g, items). add_to_category (format_group_name g) items)
       (crd_groups (filter ar_is_crd uniq)) (core_categories uniq)"

lemma categorize_resources_alt:
  "categorize_resources lc rs = map (\<lambda>(name, items). \<lparr>rc_name = name, rc_resources = sort_resources lc items\<rparr>)
     (all_categories (unique_resources rs))"
  by (simp add: categorize_resources_def all_categories_def Let_def)

lemma core_categories_alt:
  "core_categories uniq = fold (\<lambda>(g, items). add_to_category (id g) items)
     (let core = filter (\<lambda>r. \<not> ar_is_crd r) uniq;
          of_kinds = (\<lambda>ks. filter (\<lambda>r. ar_kind r \<in> set ks) core)
      in [(''Workloads'', of_kinds workload_kinds), (''Networking'', of_kinds networking_kinds),
            (''Configuration'', of_kinds config_kinds), (''Storage'', of_kinds storage_kinds),
            (''Access Control'', of_kinds access_control_kinds), (''Cluster'', of_kinds cluster_kinds),
            (''Other Kubernetes APIs'', filter (\<lambda>r. truthy_bool (ar_featured r)) core)]) []"
  by (simp only: core_categories_def Let_def id_apply)

lemma core_items_not_crd: "r \<in> items_of (core_categories uniq) n \<Longrightarrow> \<not> ar_is_crd r"
  unfolding core_categories_alt items_of_fold_add Let_def by (auto split: if_splits)

lemma distinct_all_categories: "distinct (map fst (all_categories uniq))"
  unfolding all_categories_def core_categories_alt by (intro distinct_fold_add) simp

lemma in_category:
  assumes "c \<in> set (categorize_resources lc rs)"
  shows "set (rc_resources c) = items_of (all_categories (unique_resources rs)) (rc_name c)"
proof -
  from assms obtain n items where c: "(n, items) \<in> set (all_categories (unique_resources rs))"
    "c = \<lparr>rc_name = n, rc_resources = sort_resources lc items\<rparr>"
    by (auto simp: categorize_resources_alt)
  then have "map_of (all_categories (unique_resources rs)) n = Some items"
    by (simp add: distinct_all_categories)
  with c show ?thesis by (simp add: items_of_def sort_resources_def)
qed

lemma category_of_item:
  assumes "r \<in> items_of (all_categories (unique_resources rs)) n"
  shows "\<exists>c \<in> set (categorize_resources lc rs). rc_name c = n \<and> r \<in> set (rc_resources c)"
proof -
  from assms obtain items where "map_of (all_categories (unique_resources rs)) n = Some items" "r \<in> set items"
    by (cases "map_of (all_categories (unique_resources rs)) n") (auto simp: items_of_def)
  then show ?thesis
    using map_of_SomeD [of "all_categories (unique_resources rs)" n items]
    by (force simp: categorize_resources_alt sort_resources_def)
qed


lemma map_of_fold_key:
  "map_of (fold (\<lambda>r m. AList.update (key r) r m) xs m) k
     = (case List.find (\<lambda>r. key r = k) (rev xs) of Some r \<Rightarrow> Some r | None \<Rightarrow> map_of m k)"
proof (induction xs arbitrary: m)
  case (Cons x xs)
  have "List.find P (ys @ [x]) = (case List.find P ys of Some r \<Rightarrow> Some r | None \<Rightarrow> if P x then Some x else None)"
    for P ys by (induction ys) auto
  with Cons show ?case by (simp add: update_conv' split: option.split)
qed simp

lemma unique_resources_has:
  assumes "r \<in> set rs" and "listable r"
  shows "\<exists>u \<in> set (unique_resources rs). u \<in> set rs \<and> listable u \<and> dedup_key u = dedup_key r"
proof -
  let ?m = "fold (\<lambda>r m. AList.update (dedup_key r) r m) (filter listable rs)
       (fold (\<lambda>r m. AList.update (dedup_key r) r m) core_resources [])"
  have "List.find (\<lambda>u. dedup_key u = dedup_key r) (rev (filter listable rs)) \<noteq> None"
    using assms by (auto simp: find_none_iff)
  then obtain u where u: "List.find (\<lambda>u. dedup_key u = dedup_key r) (rev (filter listable rs)) = Some u"
    by blast
  then have "map_of ?m (dedup_key r) = Some u" by (simp add: map_of_fold_key)
  then have "u \<in> set (unique_resources rs)"
    unfolding unique_resources_def by (auto dest!: map_of_SomeD intro: rev_image_eqI)
  with find_some_in [OF u] show ?thesis by auto
qed

lemma dedup_key_crd:
  assumes "ar_is_crd r" and "dedup_key u = dedup_key r"
    and "CHR ''/'' \<notin> set (ar_kind u)" "CHR ''/'' \<notin> set (ar_group u)" "CHR ''/'' \<notin> set (ar_group r)"
  shows "ar_is_crd u \<and> ar_group u = ar_group r \<and> ar_kind u = ar_kind r"
proof -
  have "ar_is_crd u"
  proof (rule ccontr)
    assume "\<not> ar_is_crd u"
    with assms(1,2) have "ar_kind u = ar_group r @ ''/'' @ ar_kind r" by (simp add: dedup_key_def)
    then have "CHR ''/'' \<in> set (ar_kind u)" by simp
    with assms(3) show False by simp
  qed
  with assms show ?thesis
    using append_sep_inject [of "CHR ''/''" "ar_group u" "ar_group r"] by (auto simp: dedup_key_def)
qed

lemma crd_in_category:
  assumes "u \<in> set uniq" and "ar_is_crd u"
  shows "u \<in> items_of (all_categories uniq) (format_group_name (crd_group u))"
proof -
  have "u \<in> set (filter ar_is_crd uniq)" using assms by simp
  from crd_groups_covers [OF this] assms show ?thesis
    unfolding all_categories_def items_of_fold_add by force
qed

section \<open>Properties\<close>

text \<open>
  No discovered custom resource is lost from the sidebar or filed among Kubernetes' own: a
  listable CRD kind has a row, under the display name of its group, and a category with a core
  name holds no custom resource, whatever the group is called.
\<close>

theorem sidebar_places_crds:
  assumes "list_all (\<lambda>x. CHR ''/'' \<notin> set (ar_kind x) \<and> CHR ''/'' \<notin> set (ar_group x)) rs"
    and "r \<in> set rs" and "listable r" and "ar_is_crd r"
  shows "(\<exists>c \<in> set (categorize_resources locale_compare rs).
        rc_name c = format_group_name (crd_group r)
        \<and> (\<exists>u \<in> set (rc_resources c). ar_is_crd u \<and> ar_group u = ar_group r \<and> ar_kind u = ar_kind r))
    \<and> (\<forall>c \<in> set (categorize_resources locale_compare rs).
        rc_name c \<in> set core_category_names \<longrightarrow> (\<forall>x \<in> set (rc_resources c). \<not> ar_is_crd x))"
proof
  from unique_resources_has [OF assms(2,3)] obtain u where
    u: "u \<in> set (unique_resources rs)" "u \<in> set rs" "dedup_key u = dedup_key r" by blast
  have id: "ar_is_crd u \<and> ar_group u = ar_group r \<and> ar_kind u = ar_kind r"
    by (rule dedup_key_crd) (use assms u in \<open>auto simp: list_all_iff\<close>)
  then have "crd_group u = crd_group r" by (simp add: crd_group_def)
  then have "u \<in> items_of (all_categories (unique_resources rs)) (format_group_name (crd_group r))"
    using crd_in_category [OF u(1)] id by simp
  from category_of_item [OF this, of locale_compare] id
  show "\<exists>c \<in> set (categorize_resources locale_compare rs).
        rc_name c = format_group_name (crd_group r)
        \<and> (\<exists>u \<in> set (rc_resources c). ar_is_crd u \<and> ar_group u = ar_group r \<and> ar_kind u = ar_kind r)"
    by blast
  show "\<forall>c \<in> set (categorize_resources locale_compare rs).
        rc_name c \<in> set core_category_names \<longrightarrow> (\<forall>x \<in> set (rc_resources c). \<not> ar_is_crd x)"
  proof (intro ballI impI)
    fix c x
    assume c: "c \<in> set (categorize_resources locale_compare rs)" and core: "rc_name c \<in> set core_category_names"
      and x: "x \<in> set (rc_resources c)"
    have "rc_name c \<noteq> format_group_name g" for g using core format_group_name_not_core by auto
    then have "x \<in> items_of (core_categories (unique_resources rs)) (rc_name c)"
      using x in_category [OF c] unfolding all_categories_def items_of_fold_add by auto
    then show "\<not> ar_is_crd x" by (rule core_items_not_crd)
  qed
qed

definition sample_crd :: "string \<Rightarrow> string \<Rightarrow> string \<Rightarrow> api_resource" where
  "sample_crd g k n = (builtin_resource g ''v1'' k n True)\<lparr>ar_is_crd := True\<rparr>"

theorem sidebar_places_crds_witness:
  "\<exists>c \<in> set (categorize_resources (\<lambda>a b. 0) [sample_crd ''workloads.io'' ''Job'' ''jobs'']).
     rc_name c = ''Workloads APIs''"
proof -
  let ?r = "sample_crd ''workloads.io'' ''Job'' ''jobs''"
  have "\<exists>c \<in> set (categorize_resources (\<lambda>a b. 0) [?r]). rc_name c = format_group_name (crd_group ?r)"
    using sidebar_places_crds [of "[?r]" ?r "\<lambda>a b. 0"]
    by (auto simp: sample_crd_def builtin_resource_def listable_def hidden_kinds_def)
  moreover have "format_group_name (crd_group ?r) = ''Workloads APIs''" by code_simp
  ultimately show ?thesis by simp
qed

end
