(* ===== verification/Navigation.thy ===== *)
theory Navigation
  imports Api_Resources
begin

text \<open>
  How the client names resources (\<open>packages/k8s-ui/src/utils/navigation.ts\<close>): the maps between
  kinds and plural resource names, built in or read from API discovery, references between
  objects, and the ids of timeline lanes.

  The module's variables are the record \<open>nav_state\<close>; its functions take it and return it. An
  object used as a table is an association list; the operator \<open>in\<close> also finds what every object
  inherits, so it is \<open>js_in\<close>. A listener is a number and \<open>initNavigationMap\<close> and
  \<open>resetNavigationMap\<close> return, beside the state, the listeners they called.
\<close>

section \<open>Tables\<close>

definition object_prototype_names :: "string list" where
  "object_prototype_names = [''constructor'', ''__defineGetter__'', ''__defineSetter__'', ''hasOwnProperty'',
     ''__lookupGetter__'', ''__lookupSetter__'', ''isPrototypeOf'', ''propertyIsEnumerable'', ''toString'',
     ''valueOf'', ''__proto__'', ''toLocaleString'']"

definition js_in :: "string \<Rightarrow> (string \<times> 'v) list \<Rightarrow> bool" where
  "js_in k obj \<longleftrightarrow> map_of obj k \<noteq> None \<or> k \<in> set object_prototype_names"

definition builtin_plural_to_kind :: "(string \<times> string) list" where
  "builtin_plural_to_kind =
    [(''pods'', ''Pod''), (''services'', ''Service''), (''endpoints'', ''Endpoints''),
     (''endpointslices'', ''EndpointSlice''), (''deployments'', ''Deployment''),
     (''daemonsets'', ''DaemonSet''), (''statefulsets'', ''StatefulSet''),
     (''replicasets'', ''ReplicaSet''), (''ingresses'', ''Ingress''), (''configmaps'', ''ConfigMap''),
     (''secrets'', ''Secret''), (''namespaces'', ''Namespace''), (''events'', ''Event''),
     (''nodes'', ''Node''), (''jobs'', ''Job''), (''cronjobs'', ''CronJob''),
     (''workflows'', ''Workflow''), (''cronworkflows'', ''CronWorkflow''),
     (''workflowtemplates'', ''WorkflowTemplate''),
     (''clusterworkflowtemplates'', ''ClusterWorkflowTemplate''),
     (''horizontalpodautoscalers'', ''HorizontalPodAutoscaler''),
     (''persistentvolumeclaims'', ''PersistentVolumeClaim''),
     (''persistentvolumes'', ''PersistentVolume''), (''storageclasses'', ''StorageClass''),
     (''poddisruptionbudgets'', ''PodDisruptionBudget''), (''roles'', ''Role''),
     (''clusterroles'', ''ClusterRole''), (''rolebindings'', ''RoleBinding''),
     (''clusterrolebindings'', ''ClusterRoleBinding''), (''serviceaccounts'', ''ServiceAccount''),
     (''networkpolicies'', ''NetworkPolicy''), (''ingressclassparams'', ''IngressClassParams'')]"

definition builtin_group_kind_to_plural :: "(string \<times> string) list" where
  "builtin_group_kind_to_plural =
    [(''scheduling.k8s.io/podgroup'', ''podgroups''), (''metrics.k8s.io/podmetrics'', ''pods''),
     (''metrics.k8s.io/nodemetrics'', ''nodes'')]"

definition builtin_group_plural_to_kind :: "(string \<times> string) list" where
  "builtin_group_plural_to_kind =
     fold (\<lambda>(k, v) m. AList.update k v m)
       [(''metrics.k8s.io/pods'', ''PodMetrics''), (''metrics.k8s.io/nodes'', ''NodeMetrics''),
        (''scheduling.k8s.io/podgroups'', ''PodGroup''),
        (''elbv2.k8s.aws/ingressclassparams'', ''IngressClassParams'')]
       (map_from (map (\<lambda>r. (ar_group r @ ''/'' @ ar_name r, ar_kind r)) core_resources))"

section \<open>Discovery\<close>

record nav_state =
  discovered_plural_to_kind :: "(string \<times> string) list option"
  discovered_kind_to_plural :: "(string \<times> string) list option"
  discovered_group_kind_to_plural :: "(string \<times> string) list option"
  discovered_group_plural_to_kind :: "(string \<times> string) list option"
  discovered_group_kind_namespaced :: "(string \<times> bool) list option"
  discovered_crd_names :: "(string \<times> string) list option"
  crd_definition_listeners :: "nat list"

definition initial_nav_state :: nav_state where
  "initial_nav_state = \<lparr>discovered_plural_to_kind = None, discovered_kind_to_plural = None,
     discovered_group_kind_to_plural = None, discovered_group_plural_to_kind = None,
     discovered_group_kind_namespaced = None, discovered_crd_names = None, crd_definition_listeners = []\<rparr>"

definition subscribe_crd_definitions :: "nat \<Rightarrow> nav_state \<Rightarrow> nav_state" where
  "subscribe_crd_definitions l st = st\<lparr>crd_definition_listeners := set_add l (crd_definition_listeners st)\<rparr>"

definition unsubscribe_crd_definitions :: "nat \<Rightarrow> nav_state \<Rightarrow> nav_state" where
  \<comment> \<open>the function \<open>subscribeCRDDefinitions\<close> returns\<close>
  "unsubscribe_crd_definitions l st =
     st\<lparr>crd_definition_listeners := filter (\<lambda>x. x \<noteq> l) (crd_definition_listeners st)\<rparr>"

definition get_crd_definitions_snapshot :: "nav_state \<Rightarrow> (string \<times> string) list option" where
  "get_crd_definitions_snapshot st = discovered_crd_names st"

record nav_tables =
  tb_p2k :: "(string \<times> string) list"
  tb_k2p :: "(string \<times> string) list"
  tb_gk2p :: "(string \<times> string) list"
  tb_gp2k :: "(string \<times> string) list"
  tb_scopes :: "(string \<times> bool) list"
  tb_crd_names :: "(string \<times> string) list"
  tb_core_kinds :: "string list"

definition group_key :: "string \<Rightarrow> string \<Rightarrow> string" where
  "group_key g k = g @ ''/'' @ k"

definition nav_seed :: nav_tables where
  "nav_seed =
     (let k2p = map_from (map (\<lambda>r. (to_lower (ar_kind r), ar_name r)) (filter (\<lambda>r. ar_group r = []) core_resources))
      in \<lparr>tb_p2k = builtin_plural_to_kind, tb_k2p = k2p, tb_gk2p = [], tb_gp2k = builtin_group_plural_to_kind,
          tb_scopes = [], tb_crd_names = [], tb_core_kinds = set_from (map fst k2p)\<rparr>)"

definition nav_add_resource :: "api_resource \<Rightarrow> nav_tables \<Rightarrow> nav_tables" where
  \<comment> \<open>the body of the loop over the discovered resources\<close>
  "nav_add_resource r t =
     (let plural = to_lower (ar_name r);
          kind_lower = to_lower (ar_kind r);
          group_kind = group_key (ar_group r) kind_lower;
          group_plural = group_key (ar_group r) plural
      in t\<lparr>tb_crd_names := (if truthy_str (ar_definition_name r)
             then AList.update (group_key (ar_group r) (ar_kind r)) (coalesce (ar_definition_name r) []) (tb_crd_names t)
             else tb_crd_names t),
           tb_p2k := (if \<not> js_in plural (tb_p2k t) then AList.update plural (ar_kind r) (tb_p2k t) else tb_p2k t),
           tb_k2p := (if ar_group r = [] \<or> kind_lower \<notin> set (tb_core_kinds t)
             then AList.update kind_lower plural (tb_k2p t) else tb_k2p t),
           tb_core_kinds := (if ar_group r = [] then set_add kind_lower (tb_core_kinds t) else tb_core_kinds t),
           tb_gk2p := AList.update group_kind plural (tb_gk2p t),
           tb_scopes := AList.update group_kind (ar_namespaced r) (tb_scopes t),
           tb_gp2k := (if \<not> js_in group_plural (tb_gp2k t)
             then AList.update group_plural (ar_kind r) (tb_gp2k t) else tb_gp2k t)\<rparr>)"

definition init_navigation_map :: "api_resource list \<Rightarrow> nav_state \<Rightarrow> nav_state \<times> nat list" where
  "init_navigation_map resources st =
     (let t = fold nav_add_resource resources nav_seed
      in (st\<lparr>discovered_plural_to_kind := Some (tb_p2k t),
             discovered_kind_to_plural := Some (tb_k2p t),
             discovered_group_kind_to_plural := Some (tb_gk2p t),
             discovered_group_plural_to_kind := Some (tb_gp2k t),
             discovered_group_kind_namespaced := Some (tb_scopes t),
             discovered_crd_names := Some (tb_crd_names t)\<rparr>, crd_definition_listeners st))"

definition reset_navigation_map :: "nav_state \<Rightarrow> nav_state \<times> nat list" where
  "reset_navigation_map st =
     (st\<lparr>discovered_plural_to_kind := None, discovered_kind_to_plural := None,
         discovered_group_kind_to_plural := None, discovered_group_plural_to_kind := None,
         discovered_group_kind_namespaced := None, discovered_crd_names := None\<rparr>, crd_definition_listeners st)"

section \<open>Kinds and plurals\<close>

definition get_plural_to_kind :: "nav_state \<Rightarrow> (string \<times> string) list" where
  "get_plural_to_kind st = coalesce (discovered_plural_to_kind st) builtin_plural_to_kind"

definition kind_aliases :: "(string \<times> string) list" where
  "kind_aliases =
    [(''horizontalpodautoscaler'', ''horizontalpodautoscalers''), (''pvc'', ''persistentvolumeclaims''),
     (''caliconetworkpolicy'', ''networkpolicies''), (''calicoglobalnetworkpolicy'', ''globalnetworkpolicies''),
     (''calicostagednetworkpolicy'', ''stagednetworkpolicies''),
     (''calicostagedglobalnetworkpolicy'', ''stagedglobalnetworkpolicies''),
     (''calicostagedkubernetesnetworkpolicy'', ''stagedkubernetesnetworkpolicies'')]"

definition kind_to_plural :: "nav_state \<Rightarrow> string \<Rightarrow> string" where
  "kind_to_plural st kind =
     (let kind_lower = to_lower kind;
          core = (if kind \<noteq> kind_lower
                  then List.find (\<lambda>r. ar_group r = [] \<and> ar_kind r = kind) core_resources else None)
      in case core of
           Some r \<Rightarrow> ar_name r
         | None \<Rightarrow>
             if js_in kind_lower (get_plural_to_kind st) then kind_lower
             else if kind_lower = ''podgroup'' then ''pods''
             else case Option.bind (discovered_kind_to_plural st) (\<lambda>m. map_of m kind_lower) of
                    Some plural \<Rightarrow> plural
                  | None \<Rightarrow> (case map_of kind_aliases kind_lower of
                      Some a \<Rightarrow> a
                    | None \<Rightarrow> if kind = kind_lower \<and> is_english_plural kind_lower then kind_lower
                              else english_plural kind_lower))"

definition kind_to_plural_with_group :: "nav_state \<Rightarrow> string \<Rightarrow> string \<Rightarrow> string" where
  "kind_to_plural_with_group st kind grp =
     (if grp = [] then kind_to_plural st kind
      else let kind_lower = to_lower kind; key = group_key grp kind_lower in
        if kind = kind_lower \<and> truthy_str (Option.bind (discovered_group_plural_to_kind st) (\<lambda>m. map_of m key))
        then kind_lower
        else let exact = coalesce_opt (Option.bind (discovered_group_kind_to_plural st) (\<lambda>m. map_of m key))
                   (map_of builtin_group_kind_to_plural key)
             in if truthy_str exact then coalesce exact []
                else if js_in kind_lower (get_plural_to_kind st) then kind_lower
                else kind_to_plural st kind)"

definition plural_to_kind :: "nav_state \<Rightarrow> string \<Rightarrow> string" where
  "plural_to_kind st plural =
     (if plural = [] then plural
      else let lower = to_lower plural; known = map_of (get_plural_to_kind st) lower in
        if truthy_str known then coalesce known []
        else if hd plural = upper_char (hd plural) \<and> hd plural \<noteq> lower_char (hd plural) then plural
        else capitalize_first (english_singular lower))"

definition known_kind_for_plural_with_group :: "nav_state \<Rightarrow> string \<Rightarrow> string \<Rightarrow> string option" where
  "known_kind_for_plural_with_group st plural grp =
     (if plural = [] then None
      else if hd plural \<noteq> lower_char (hd plural) then Some plural
      else let key = group_key grp (to_lower plural)
           in coalesce_opt (Option.bind (discovered_group_plural_to_kind st) (\<lambda>m. map_of m key))
                (map_of builtin_group_plural_to_kind key))"

section \<open>References\<close>

definition api_version_to_group :: "string option \<Rightarrow> string" where
  "api_version_to_group api_version =
     (if \<not> truthy_str api_version then []
      else let v = coalesce api_version []
           in if CHR ''/'' \<in> set v then before_char CHR ''/'' v else [])"

definition custom_resource_definition_ref ::
  "nav_state \<Rightarrow> string option \<Rightarrow> string option \<Rightarrow> resource_ref option" where
  "custom_resource_definition_ref st api_version kind =
     (if \<not> truthy_str api_version \<or> \<not> truthy_str kind then None
      else let name = Option.bind (discovered_crd_names st)
                 (\<lambda>m. map_of m (group_key (api_version_to_group api_version) (coalesce kind [])))
           in if truthy_str name
              then Some \<lparr>rr_kind = ''CustomResourceDefinition'', rr_namespace = [], rr_name = coalesce name [],
                     rr_group = Some ''apiextensions.k8s.io''\<rparr>
              else None)"

record selected_resource =
  sr_kind :: string
  sr_namespace :: string
  sr_name :: string
  sr_group :: "string option"

definition ref_to_selected_resource :: "nav_state \<Rightarrow> string \<Rightarrow> string option \<Rightarrow> string \<Rightarrow> string option \<Rightarrow> selected_resource" where
  \<comment> \<open>the reference by its fields, as its namespace may be absent here\<close>
  "ref_to_selected_resource st kind ns name grp =
     \<lparr>sr_kind = kind_to_plural_with_group st kind (coalesce grp []), sr_namespace = coalesce ns [],
      sr_name = name, sr_group = grp\<rparr>"

record object_reference =
  or_api_version :: "string option"
  or_kind :: "string option"
  or_namespace :: "string option"
  or_name :: "string option"

definition reference_namespaced :: "nav_state \<Rightarrow> string \<Rightarrow> string \<Rightarrow> bool option" where
  \<comment> \<open>the scope of a group and kind, from discovery or the built-in table\<close>
  "reference_namespaced st grp kind_lower =
     coalesce_opt (Option.bind (discovered_group_kind_namespaced st) (\<lambda>m. map_of m (group_key grp kind_lower)))
       (map_option ar_namespaced
          (List.find (\<lambda>r. ar_group r = grp \<and> to_lower (ar_kind r) = kind_lower) core_resources))"

definition object_reference_to_resource_ref :: "nav_state \<Rightarrow> object_reference option \<Rightarrow> resource_ref option" where
  "object_reference_to_resource_ref st reference =
     (case reference of
        None \<Rightarrow> None
      | Some ref \<Rightarrow>
          if \<not> truthy_str (or_kind ref) \<or> \<not> truthy_str (or_name ref) then None
          else let kind = coalesce (or_kind ref) []; grp = api_version_to_group (or_api_version ref);
                   namespaced = reference_namespaced st grp (to_lower kind)
               in if \<not> truthy_str (or_api_version ref) \<and> \<not> is_builtin_core_kind kind then None
                  else if namespaced \<noteq> Some False \<and> \<not> truthy_str (or_namespace ref) then None
                  else Some \<lparr>rr_kind = kind,
                         rr_namespace = (if namespaced = Some False then [] else coalesce (or_namespace ref) []),
                         rr_name = coalesce (or_name ref) [], rr_group = Some grp\<rparr>)"

section \<open>Lane ids\<close>

definition builtin_api_groups :: "string list" where
  "builtin_api_groups =
    [[], ''apps'', ''batch'', ''autoscaling'', ''policy'', ''networking.k8s.io'', ''storage.k8s.io'',
     ''scheduling.k8s.io'', ''coordination.k8s.io'', ''node.k8s.io'', ''discovery.k8s.io'',
     ''rbac.authorization.k8s.io'', ''admissionregistration.k8s.io'', ''authentication.k8s.io'',
     ''authorization.k8s.io'', ''certificates.k8s.io'', ''apiextensions.k8s.io'',
     ''apiregistration.k8s.io'', ''events.k8s.io'', ''flowcontrol.apiserver.k8s.io'',
     ''resource.k8s.io'']"

definition group_qualifies_lane_id :: "string option \<Rightarrow> bool" where
  "group_qualifies_lane_id grp \<longleftrightarrow> truthy_str grp \<and> coalesce grp [] \<notin> set builtin_api_groups"

definition lane_id :: "string \<Rightarrow> string option \<Rightarrow> string \<Rightarrow> string \<Rightarrow> string" where
  "lane_id kind grp ns name =
     kind @ (if group_qualifies_lane_id grp then ''.'' @ coalesce grp [] else []) @ ''/'' @ ns @ ''/'' @ name"

definition lane_resource_key :: "string \<Rightarrow> string \<Rightarrow> string \<Rightarrow> string" where
  "lane_resource_key kind ns name = kind @ ''/'' @ ns @ ''/'' @ name"

definition after_char :: "char \<Rightarrow> string \<Rightarrow> string" where
  \<comment> \<open>\<open>s.slice(s.indexOf(c) + 1)\<close> for a \<open>c\<close> that occurs in \<open>s\<close>\<close>
  "after_char c s = drop 1 (dropWhile (\<lambda>x. x \<noteq> c) s)"

record lane_ref =
  ln_kind :: string
  ln_group :: string
  ln_namespace :: string
  ln_name :: string

definition parse_lane_id :: "string \<Rightarrow> lane_ref option" where
  "parse_lane_id i =
     (if CHR ''/'' \<notin> set i then None
      else let kind_seg = before_char CHR ''/'' i; rest = after_char CHR ''/'' i
           in if CHR ''/'' \<notin> set rest then None
              else let dotted = (CHR ''.'' \<in> set kind_seg)
                   in Some \<lparr>ln_kind = (if dotted then before_char CHR ''.'' kind_seg else kind_seg),
                        ln_group = (if dotted then after_char CHR ''.'' kind_seg else []),
                        ln_namespace = before_char CHR ''/'' rest, ln_name = after_char CHR ''/'' rest\<rparr>)"


section \<open>Lemmas on lane ids\<close>

lemma before_char_append [simp]: "c \<notin> set s \<Longrightarrow> before_char c (s @ c # t) = s"
  by (induction s) (auto simp: before_char_def)

lemma before_char_absent [simp]: "c \<notin> set s \<Longrightarrow> before_char c s = s"
  by (auto simp: before_char_def takeWhile_eq_all_conv)

lemma after_char_append [simp]: "c \<notin> set s \<Longrightarrow> after_char c (s @ c # t) = t"
  by (induction s) (auto simp: after_char_def)

lemma parse_lane_segments:
  assumes "CHR ''/'' \<notin> set seg" and "CHR ''/'' \<notin> set ns"
  shows "parse_lane_id (seg @ CHR ''/'' # ns @ CHR ''/'' # name) =
    Some \<lparr>ln_kind = before_char CHR ''.'' seg,
       ln_group = (if CHR ''.'' \<in> set seg then after_char CHR ''.'' seg else []),
       ln_namespace = ns, ln_name = name\<rparr>"
  using assms by (simp add: parse_lane_id_def Let_def)

section \<open>Lemmas on discovery\<close>

lemma fold_invariant:
  assumes "\<And>x t. x \<in> set xs \<Longrightarrow> P t \<Longrightarrow> P (f x t)" and "P t"
  shows "P (fold f xs t)"
  using assms by (induction xs arbitrary: t) auto

text \<open>The plural table never changes an entry it has.\<close>

lemma p2k_keeps:
  "map_of (tb_p2k t) k = Some v \<Longrightarrow> map_of (tb_p2k (fold nav_add_resource rs t)) k = Some v"
proof (induction rs arbitrary: t)
  case (Cons r rs)
  have "map_of (tb_p2k (nav_add_resource r t)) k = Some v"
    using Cons.prems by (auto simp: nav_add_resource_def Let_def js_in_def update_conv')
  then show ?case using Cons.IH by simp
qed simp

lemma gp2k_keeps:
  "map_of (tb_gp2k t) k = Some v \<Longrightarrow> map_of (tb_gp2k (fold nav_add_resource rs t)) k = Some v"
proof (induction rs arbitrary: t)
  case (Cons r rs)
  have "map_of (tb_gp2k (nav_add_resource r t)) k = Some v"
    using Cons.prems by (auto simp: nav_add_resource_def Let_def js_in_def update_conv')
  then show ?case using Cons.IH by simp
qed simp

text \<open>An entry of the group tables comes from the resources that have its key.\<close>

lemma gk2p_lookup:
  "map_of (tb_gk2p (fold nav_add_resource rs t)) k =
     (case List.find (\<lambda>r. group_key (ar_group r) (to_lower (ar_kind r)) = k) (rev rs) of
        Some r \<Rightarrow> Some (to_lower (ar_name r)) | None \<Rightarrow> map_of (tb_gk2p t) k)"
proof (induction rs arbitrary: t)
  case (Cons r rs)
  have "List.find P (ys @ [x]) = (case List.find P ys of Some r \<Rightarrow> Some r | None \<Rightarrow> if P x then Some x else None)"
    for P ys and x :: api_resource by (induction ys) auto
  with Cons show ?case
    by (simp add: nav_add_resource_def Let_def update_conv' split: option.split)
qed simp

lemma gp2k_lookup:
  assumes "k \<notin> set object_prototype_names" and "map_of (tb_gp2k t) k = None"
  shows "map_of (tb_gp2k (fold nav_add_resource rs t)) k =
     map_option ar_kind (List.find (\<lambda>r. group_key (ar_group r) (to_lower (ar_name r)) = k) rs)"
  using assms(2)
proof (induction rs arbitrary: t)
  case (Cons r rs)
  show ?case
  proof (cases "group_key (ar_group r) (to_lower (ar_name r)) = k")
    case True
    with Cons.prems assms(1) have "map_of (tb_gp2k (nav_add_resource r t)) k = Some (ar_kind r)"
      by (simp add: nav_add_resource_def Let_def js_in_def update_conv')
    from gp2k_keeps [OF this] True show ?thesis by simp
  next
    case False
    with Cons.prems have "map_of (tb_gp2k (nav_add_resource r t)) k = None"
      by (auto simp: nav_add_resource_def Let_def update_conv')
    from Cons.IH [OF this] False show ?thesis by simp
  qed
qed simp

lemma group_key_inject:
  assumes "CHR ''/'' \<notin> set g" and "CHR ''/'' \<notin> set h"
  shows "group_key g k = group_key h l \<longleftrightarrow> g = h \<and> k = l"
  using append_sep_inject [OF assms, of k l] by (auto simp: group_key_def)

lemma group_key_not_inherited: "group_key g k \<notin> set object_prototype_names"
proof -
  have "CHR ''/'' \<in> set (group_key g k)" by (simp add: group_key_def)
  moreover have "list_all (\<lambda>n. CHR ''/'' \<notin> set n) object_prototype_names" by code_simp
  ultimately show ?thesis by (auto simp: list_all_iff)
qed

lemma init_tables:
  defines "st' rs st \<equiv> fst (init_navigation_map rs st)"
  shows "discovered_group_kind_to_plural (st' rs st) = Some (tb_gk2p (fold nav_add_resource rs nav_seed))"
    and "discovered_group_plural_to_kind (st' rs st) = Some (tb_gp2k (fold nav_add_resource rs nav_seed))"
    and "get_plural_to_kind (st' rs st) = tb_p2k (fold nav_add_resource rs nav_seed)"
  by (simp_all add: st'_def init_navigation_map_def Let_def get_plural_to_kind_def)

lemma find_unique:
  assumes "r \<in> set rs" and "P r" and "\<And>x. x \<in> set rs \<Longrightarrow> P x \<Longrightarrow> f x = f r"
  shows "\<exists>x. List.find P rs = Some x \<and> f x = f r"
proof -
  have "List.find P rs \<noteq> None" using assms(1,2) by (auto simp: find_none_iff)
  then obtain x where "List.find P rs = Some x" by blast
  with find_some_in [OF this] assms(3) show ?thesis by blast
qed

section \<open>Properties\<close>

text \<open>
  Discovery round-trips: once the resources of the cluster are loaded, the plural of a custom
  kind within its group is its lower-case resource name, and that name within the group gives back
  the kind, provided no two discovered resources of a group share a kind or a name in lower case
  and the group's name is not one of the built-in entries. Kinds are in PascalCase.
\<close>

theorem discovery_round_trip:
  assumes r: "r \<in> set rs" and g: "ar_group r \<noteq> []"
    and names: "ar_name r \<noteq> []" "ar_kind r \<noteq> to_lower (ar_kind r)"
    and apart: "\<forall>x \<in> set rs. CHR ''/'' \<notin> set (ar_group x)
      \<and> (ar_group x = ar_group r \<longrightarrow>
           (to_lower (ar_kind x) = to_lower (ar_kind r) \<longleftrightarrow> to_lower (ar_name x) = to_lower (ar_name r))
           \<and> (to_lower (ar_name x) = to_lower (ar_name r) \<longrightarrow> ar_kind x = ar_kind r))"
    and fresh: "map_of builtin_group_plural_to_kind (group_key (ar_group r) (to_lower (ar_name r))) = None"
  shows "kind_to_plural_with_group (fst (init_navigation_map rs st)) (ar_kind r) (ar_group r) = to_lower (ar_name r)
    \<and> known_kind_for_plural_with_group (fst (init_navigation_map rs st)) (to_lower (ar_name r)) (ar_group r)
        = Some (ar_kind r)"
proof
  let ?st = "fst (init_navigation_map rs st)"
  let ?gk = "group_key (ar_group r) (to_lower (ar_kind r))"
  let ?gp = "group_key (ar_group r) (to_lower (ar_name r))"
  have slash: "CHR ''/'' \<notin> set (ar_group x)" if "x \<in> set rs" for x using apart that by blast
  have same_name: "to_lower (ar_name x) = to_lower (ar_name r)"
    if "x \<in> set (rev rs)" "group_key (ar_group x) (to_lower (ar_kind x)) = ?gk" for x
  proof -
    from that have "ar_group x = ar_group r \<and> to_lower (ar_kind x) = to_lower (ar_kind r)"
      using group_key_inject [OF slash slash [OF r], of x] by simp
    then show ?thesis using apart that(1) by (metis set_rev)
  qed
  have "\<exists>x. List.find (\<lambda>x. group_key (ar_group x) (to_lower (ar_kind x)) = ?gk) (rev rs) = Some x
      \<and> to_lower (ar_name x) = to_lower (ar_name r)"
    by (rule find_unique) (use r in simp, rule refl, rule same_name)
  then have "map_of (tb_gk2p (fold nav_add_resource rs nav_seed)) ?gk = Some (to_lower (ar_name r))"
    by (elim exE conjE) (simp add: gk2p_lookup)
  then show "kind_to_plural_with_group ?st (ar_kind r) (ar_group r) = to_lower (ar_name r)"
    using g names by (simp add: kind_to_plural_with_group_def init_tables Let_def to_lower_def)
  have same_kind: "ar_kind x = ar_kind r"
    if "x \<in> set rs" "group_key (ar_group x) (to_lower (ar_name x)) = ?gp" for x
  proof -
    from that have "ar_group x = ar_group r \<and> to_lower (ar_name x) = to_lower (ar_name r)"
      using group_key_inject [OF slash slash [OF r], of x] by simp
    then show ?thesis using apart that(1) by metis
  qed
  have "\<exists>x. List.find (\<lambda>x. group_key (ar_group x) (to_lower (ar_name x)) = ?gp) rs = Some x
      \<and> ar_kind x = ar_kind r"
    by (rule find_unique) (rule r, rule refl, rule same_kind)
  then have "map_of (tb_gp2k (fold nav_add_resource rs nav_seed)) ?gp = Some (ar_kind r)"
    using fresh by (elim exE conjE) (simp add: gp2k_lookup group_key_not_inherited nav_seed_def Let_def)
  moreover have "hd (to_lower (ar_name r)) = lower_char (hd (to_lower (ar_name r)))"
    using names(1) by (cases "ar_name r") simp_all
  moreover have "to_lower (ar_name r) \<noteq> []" using names(1) by (simp add: to_lower_def)
  ultimately show "known_kind_for_plural_with_group ?st (to_lower (ar_name r)) (ar_group r) = Some (ar_kind r)"
    by (simp add: known_kind_for_plural_with_group_def init_tables Let_def)
qed

theorem discovery_round_trip_witness:
  "known_kind_for_plural_with_group
     (fst (init_navigation_map [sample_crd ''example.com'' ''Widget'' ''widgets''] initial_nav_state))
     ''widgets'' ''example.com'' = Some ''Widget''"
proof -
  let ?r = "sample_crd ''example.com'' ''Widget'' ''widgets''"
  have f: "ar_group ?r = ''example.com''" "ar_kind ?r = ''Widget''" "ar_name ?r = ''widgets''"
    by (simp_all add: sample_crd_def builtin_resource_def)
  have low: "to_lower ''widgets'' = ''widgets''" "to_lower ''Widget'' = ''widget''" by code_simp+
  have fresh: "map_of builtin_group_plural_to_kind (group_key ''example.com'' ''widgets'') = None" by code_simp
  show ?thesis
    using discovery_round_trip [of ?r "[?r]" initial_nav_state] fresh by (simp add: f low del: to_lower_simps)
qed


lemma builtin_plurals_ok:
  "list_all (\<lambda>(p, k). map_of builtin_plural_to_kind p = Some k \<and> p \<noteq> [] \<and> k \<noteq> [] \<and> to_lower p = p)
     builtin_plural_to_kind"
  by code_simp

lemma core_kinds_apart:
  "distinct (map (\<lambda>r. to_lower (ar_kind r)) (filter (\<lambda>r. ar_group r = []) core_resources))"
  by code_simp

lemma core_kinds_pascal:
  "list_all (\<lambda>r. ar_kind r \<noteq> to_lower (ar_kind r)) (filter (\<lambda>r. ar_group r = []) core_resources)"
  by code_simp

lemma core_kinds_ok:
  assumes "c \<in> set core_resources" and "ar_group c = []"
  shows "ar_kind c \<noteq> to_lower (ar_kind c)"
    and "List.find (\<lambda>x. ar_group x = [] \<and> ar_kind x = ar_kind c) core_resources = Some c"
    and "map_of (tb_k2p nav_seed) (to_lower (ar_kind c)) = Some (ar_name c)"
    and "to_lower (ar_kind c) \<in> set (tb_core_kinds nav_seed)"
proof -
  let ?core = "filter (\<lambda>r. ar_group r = []) core_resources"
  let ?kvs = "map (\<lambda>r. (to_lower (ar_kind r), ar_name r)) ?core"
  have c: "c \<in> set ?core" using assms by simp
  then show "ar_kind c \<noteq> to_lower (ar_kind c)" using core_kinds_pascal unfolding list_all_iff by blast
  have inj: "inj_on (\<lambda>r. to_lower (ar_kind r)) (set ?core)"
    using core_kinds_apart unfolding distinct_map by (rule conjunct2)
  have "\<exists>x. List.find (\<lambda>x. ar_group x = [] \<and> ar_kind x = ar_kind c) core_resources = Some x \<and> x = c"
  proof (rule find_unique [where f = "\<lambda>x. x"])
    fix x
    assume "x \<in> set core_resources" "ar_group x = [] \<and> ar_kind x = ar_kind c"
    with c inj show "x = c" unfolding inj_on_def by auto
  qed (use assms in auto)
  then show "List.find (\<lambda>x. ar_group x = [] \<and> ar_kind x = ar_kind c) core_resources = Some c" by blast
  have dist: "distinct (map fst ?kvs)" using core_kinds_apart by (simp only: map_map comp_def fst_conv)
  have "(to_lower (ar_kind c), ar_name c) \<in> set ?kvs" using c unfolding set_map by (rule image_eqI [OF refl])
  with dist have "map_of ?kvs (to_lower (ar_kind c)) = Some (ar_name c)" by (rule map_of_is_SomeI)
  then have k2p: "map_of (map_from ?kvs) (to_lower (ar_kind c)) = Some (ar_name c)"
    by (simp only: map_of_map_from map_of_rev_distinct [OF dist])
  then show "map_of (tb_k2p nav_seed) (to_lower (ar_kind c)) = Some (ar_name c)"
    by (simp only: nav_seed_def Let_def nav_tables.select_convs)
  from imageI [OF map_of_SomeD [OF k2p], of fst]
  have "to_lower (ar_kind c) \<in> set (map fst (map_from ?kvs))" by (simp only: set_map fst_conv)
  then show "to_lower (ar_kind c) \<in> set (tb_core_kinds nav_seed)"
    by (simp only: nav_seed_def Let_def nav_tables.select_convs set_set_from)
qed

lemma k2p_core_kept:
  assumes "\<forall>r \<in> set rs. ar_group r = [] \<and> to_lower (ar_kind r) = k \<longrightarrow> to_lower (ar_name r) = v"
    and "map_of (tb_k2p t) k = Some v" and "k \<in> set (tb_core_kinds t)"
  shows "map_of (tb_k2p (fold nav_add_resource rs t)) k = Some v"
  using assms
proof (induction rs arbitrary: t)
  case (Cons r rs)
  have "map_of (tb_k2p (nav_add_resource r t)) k = Some v"
    using Cons.prems by (auto simp: nav_add_resource_def Let_def update_conv')
  moreover have "k \<in> set (tb_core_kinds (nav_add_resource r t))"
    using Cons.prems(3) by (simp add: nav_add_resource_def Let_def)
  ultimately show ?case using Cons by simp
qed simp

text \<open>
  No discovery result hijacks a core name: whatever resources the cluster reports, and in any
  order, each built-in plural still names its own kind, each core kind its own plural, and the
  kind-only lookup of a core kind in lower case keeps its plural unless the core group itself
  reports another.
\<close>

theorem core_names_survive_discovery:
  "(\<forall>(p, k) \<in> set builtin_plural_to_kind. plural_to_kind (fst (init_navigation_map rs st)) p = k)
   \<and> (\<forall>c \<in> set core_resources. ar_group c = [] \<longrightarrow>
        kind_to_plural (fst (init_navigation_map rs st)) (ar_kind c) = ar_name c
        \<and> ((\<forall>r \<in> set rs. ar_group r = [] \<and> to_lower (ar_kind r) = to_lower (ar_kind c)
              \<longrightarrow> to_lower (ar_name r) = ar_name c) \<longrightarrow>
           Option.bind (discovered_kind_to_plural (fst (init_navigation_map rs st)))
             (\<lambda>m. map_of m (to_lower (ar_kind c))) = Some (ar_name c)))"
proof (intro conjI ballI impI)
  fix x
  assume "x \<in> set builtin_plural_to_kind"
  moreover obtain p k where x: "x = (p, k)" by (cases x)
  ultimately have ok: "map_of builtin_plural_to_kind p = Some k" "p \<noteq> []" "k \<noteq> []" "to_lower p = p"
    using builtin_plurals_ok unfolding list_all_iff by blast+
  have "map_of (tb_p2k nav_seed) p = Some k" using ok by (simp add: nav_seed_def Let_def)
  from p2k_keeps [OF this] ok
  show "case x of (p, k) \<Rightarrow> plural_to_kind (fst (init_navigation_map rs st)) p = k"
    by (simp add: x plural_to_kind_def init_tables Let_def)
next
  fix c
  assume c: "c \<in> set core_resources" "ar_group c = []"
  note ok = core_kinds_ok [OF c]
  from ok(1,2) show "kind_to_plural (fst (init_navigation_map rs st)) (ar_kind c) = ar_name c"
    by (simp add: kind_to_plural_def Let_def)
  assume "\<forall>r \<in> set rs. ar_group r = [] \<and> to_lower (ar_kind r) = to_lower (ar_kind c) \<longrightarrow> to_lower (ar_name r) = ar_name c"
  from k2p_core_kept [OF this ok(3,4)]
  show "Option.bind (discovered_kind_to_plural (fst (init_navigation_map rs st)))
      (\<lambda>m. map_of m (to_lower (ar_kind c))) = Some (ar_name c)"
    by (simp add: init_navigation_map_def Let_def)
qed

theorem core_names_survive_discovery_witness:
  "plural_to_kind (fst (init_navigation_map [sample_crd ''metrics.k8s.io'' ''PodMetrics'' ''pods''] initial_nav_state))
     ''pods'' = ''Pod''"
proof -
  have "map_of builtin_plural_to_kind ''pods'' = Some ''Pod''" by code_simp
  then have "(''pods'', ''Pod'') \<in> set builtin_plural_to_kind" by (rule map_of_SomeD)
  from core_names_survive_discovery [THEN conjunct1, THEN bspec, OF this,
      of "[sample_crd ''metrics.k8s.io'' ''PodMetrics'' ''pods'']" initial_nav_state]
  show ?thesis by (simp only: prod.case)
qed

lemma english_plural_last: "english_plural n \<noteq> [] \<and> last (english_plural n) = CHR ''s''"
  by (simp add: english_plural_def Let_def)

lemma to_lower_drop_last: "to_lower (drop_last n s) = drop_last n (to_lower s)"
  by (simp add: drop_last_def to_lower_take)

lemma to_lower_english_plural: "to_lower n = n \<Longrightarrow> to_lower (english_plural n) = english_plural n"
  by (simp add: english_plural_def Let_def to_lower_drop_last)

definition settled_plural :: "string \<Rightarrow> bool" where
  \<comment> \<open>a name that the built-in maps and the English rules take for a plural\<close>
  "settled_plural p \<longleftrightarrow> to_lower p = p \<and> (js_in p builtin_plural_to_kind
     \<or> p \<noteq> ''podgroup'' \<and> map_of kind_aliases p = None \<and> is_english_plural p)"

lemma settled_plural_fixed:
  "discovered_plural_to_kind st = None \<Longrightarrow> discovered_kind_to_plural st = None \<Longrightarrow> settled_plural p
     \<Longrightarrow> kind_to_plural st p = p"
  by (auto simp: settled_plural_def kind_to_plural_def get_plural_to_kind_def Let_def)

lemma core_names_settled: "list_all (\<lambda>r. ar_group r = [] \<longrightarrow> settled_plural (ar_name r)) core_resources"
  by code_simp

lemma aliases_settled: "list_all (\<lambda>(k, p). settled_plural p \<and> last k \<noteq> CHR ''s'') kind_aliases"
  by code_simp

lemma settled_pods: "settled_plural ''pods''"
  by code_simp

lemma kind_to_plural_fresh:
  "kind_to_plural initial_nav_state kind =
     (case if kind \<noteq> to_lower kind
           then List.find (\<lambda>r. ar_group r = [] \<and> ar_kind r = kind) core_resources else None of
        Some r \<Rightarrow> ar_name r
      | None \<Rightarrow>
          if js_in (to_lower kind) builtin_plural_to_kind then to_lower kind
          else if to_lower kind = ''podgroup'' then ''pods''
          else case map_of kind_aliases (to_lower kind) of
                 Some a \<Rightarrow> a
               | None \<Rightarrow> if kind = to_lower kind \<and> is_english_plural (to_lower kind) then to_lower kind
                         else english_plural (to_lower kind))"
  by (simp only: kind_to_plural_def get_plural_to_kind_def Let_def initial_nav_state_def nav_state.select_convs
      coalesce_simps Option.bind.simps option.case)

lemma settled_cases:
  assumes "\<And>r. c = Some r \<Longrightarrow> P (f r)" and "A \<Longrightarrow> P k" and "P d" and "\<And>a. m = Some a \<Longrightarrow> P a"
    and "\<not> Q \<Longrightarrow> m = None \<Longrightarrow> B \<Longrightarrow> P k" and "P e"
  shows "P (case c of Some r \<Rightarrow> f r | None \<Rightarrow> if A then k else if Q then d
    else case m of Some a \<Rightarrow> a | None \<Rightarrow> if B then k else e)"
  using assms by (simp split: option.split)

text \<open>
  Before discovery, pluralising is idempotent, as its callers rely on: the plural of a kind is
  its own plural, for every kind that does not end in a vowel followed by \<open>ie\<close>.
\<close>

theorem kind_to_plural_idempotent:
  assumes "\<not> vowel_ie (to_lower kind)"
  shows "kind_to_plural initial_nav_state (kind_to_plural initial_nav_state kind)
    = kind_to_plural initial_nav_state kind"
proof (rule settled_plural_fixed)
  let ?k = "to_lower kind"
  have core: "settled_plural (ar_name r)"
    if "List.find (\<lambda>r. ar_group r = [] \<and> ar_kind r = kind) core_resources = Some r" for r
    using find_some_in [OF that] core_names_settled by (auto simp: list_all_iff)
  have alias_ok: "settled_plural p" if "map_of kind_aliases ?k = Some p" for p
    using map_of_SomeD [OF that] aliases_settled by (auto simp: list_all_iff)
  have no_alias: "map_of kind_aliases (english_plural ?k) = None"
  proof (rule ccontr)
    assume "map_of kind_aliases (english_plural ?k) \<noteq> None"
    then obtain p where "(english_plural ?k, p) \<in> set kind_aliases" by (auto dest: map_of_SomeD)
    with aliases_settled english_plural_last [of ?k] show False by (auto simp: list_all_iff)
  qed
  have "english_plural ?k \<noteq> ''podgroup''" using english_plural_last [of ?k] by auto
  then have plural: "settled_plural (english_plural ?k)"
    using english_plural_recognised [of ?k] assms no_alias by (simp add: settled_plural_def to_lower_english_plural)
  have known: "settled_plural ?k" if "js_in ?k builtin_plural_to_kind"
    using that by (simp only: settled_plural_def to_lower_idem) blast
  have recognised: "settled_plural ?k"
    if "?k \<noteq> ''podgroup''" "map_of kind_aliases ?k = None" "is_english_plural ?k"
    using that by (simp only: settled_plural_def to_lower_idem) blast
  show "settled_plural (kind_to_plural initial_nav_state kind)"
    unfolding kind_to_plural_fresh
  proof (rule settled_cases)
    fix r
    assume "(if kind \<noteq> ?k then List.find (\<lambda>r. ar_group r = [] \<and> ar_kind r = kind) core_resources else None) = Some r"
    then show "settled_plural (ar_name r)" by (intro core) (simp split: if_splits)
  next
    assume "kind = ?k \<and> is_english_plural ?k" "?k \<noteq> ''podgroup''" "map_of kind_aliases ?k = None"
    then show "settled_plural ?k" by (intro recognised) blast+
  qed (fact known settled_pods alias_ok plural)+
qed (simp_all add: initial_nav_state_def)

theorem kind_to_plural_idempotent_witness:
  "kind_to_plural initial_nav_state (kind_to_plural initial_nav_state ''NodeClass'') = ''nodeclasses''"
proof -
  have "\<not> vowel_ie (to_lower ''NodeClass'')" by code_simp
  moreover have "kind_to_plural initial_nav_state ''NodeClass'' = ''nodeclasses''" by code_simp
  ultimately show ?thesis using kind_to_plural_idempotent [of "''NodeClass''"] by simp
qed

text \<open>
  A lane id keeps the identity of its resource: parsing it gives back the kind, the namespace,
  the name and the API group when the group is one that needs telling apart (and no group when it
  is built in), for names that keep Kubernetes' alphabet.
\<close>

theorem lane_id_round_trip:
  assumes "CHR ''/'' \<notin> set kind" and "CHR ''.'' \<notin> set kind" and "CHR ''/'' \<notin> set ns"
    and "CHR ''/'' \<notin> set (coalesce grp [])"
  shows "parse_lane_id (lane_id kind grp ns name) = Some \<lparr>ln_kind = kind,
      ln_group = (if group_qualifies_lane_id grp then coalesce grp [] else []), ln_namespace = ns, ln_name = name\<rparr>"
proof (cases "group_qualifies_lane_id grp")
  case True
  let ?seg = "kind @ CHR ''.'' # coalesce grp []"
  have "CHR ''/'' \<notin> set ?seg" using assms by simp
  from parse_lane_segments [OF this assms(3), of name] True assms(2) show ?thesis
    by (simp add: lane_id_def)
next
  case False
  from parse_lane_segments [OF assms(1,3), of name] False assms(2) show ?thesis
    by (simp add: lane_id_def)
qed

theorem lane_id_round_trip_witness:
  "parse_lane_id (lane_id ''Cluster'' (Some ''postgresql.cnpg.io'') ''prod'' ''db'')
     = Some \<lparr>ln_kind = ''Cluster'', ln_group = ''postgresql.cnpg.io'', ln_namespace = ''prod'', ln_name = ''db''\<rparr>"
  by (subst lane_id_round_trip) (simp_all add: group_qualifies_lane_id_def builtin_api_groups_def)

text \<open>
  An object reference becomes a link only with an identity of its own: the link has the kind and
  name of the reference; it has no namespace only when the kind is known to be cluster-scoped, and
  otherwise the reference's own; and a reference without an API version is taken for a core object
  only when its kind is a built-in core kind.
\<close>

theorem object_reference_keeps_identity:
  assumes "object_reference_to_resource_ref st (Some ref) = Some r"
  shows "or_kind ref = Some (rr_kind r) \<and> or_name ref = Some (rr_name r)
    \<and> rr_group r = Some (api_version_to_group (or_api_version ref))
    \<and> (if rr_namespace r = []
       then reference_namespaced st (api_version_to_group (or_api_version ref)) (to_lower (rr_kind r)) = Some False
       else or_namespace ref = Some (rr_namespace r))
    \<and> (truthy_str (or_api_version ref) \<or> is_builtin_core_kind (rr_kind r))"
  using assms
  by (auto simp: object_reference_to_resource_ref_def Let_def truthy_str_def split: if_splits option.splits)

theorem object_reference_keeps_identity_witness:
  "\<exists>r. object_reference_to_resource_ref initial_nav_state (Some \<lparr>or_api_version = None, or_kind = Some ''Pod'',
       or_namespace = Some ''ns'', or_name = Some ''p''\<rparr>) = Some r \<and> rr_kind r = ''Pod'' \<and> rr_namespace r = ''ns''"
proof -
  let ?ref = "\<lparr>or_api_version = None, or_kind = Some ''Pod'', or_namespace = Some ''ns'', or_name = Some ''p''\<rparr>"
  have r: "object_reference_to_resource_ref initial_nav_state (Some ?ref)
      = Some \<lparr>rr_kind = ''Pod'', rr_namespace = ''ns'', rr_name = ''p'', rr_group = Some []\<rparr>" by code_simp
  from object_reference_keeps_identity [OF r] r show ?thesis by simp
qed

end
