(* ===== verification/Topology_Neighborhood.thy ===== *)
theory Topology_Neighborhood
  imports Navigation
begin

text \<open>
  The neighborhood query behind the topology views
  (\<open>packages/k8s-ui/src/utils/topology-neighborhood.ts\<close>) on the graph types of \<open>types/core.ts\<close>:
  the bounded walk from a set of seeds, with its leaf rule and its cap on batch runs, and the
  tagging of the nodes with the workload that owns them.

  The walk keeps the record \<open>nb_state\<close>; its worklist loop terminates because a node enters the
  queue only with its first entry into \<open>keep\<close>. \<open>Date.parse\<close> and \<open>localeCompare\<close> are the record
  \<open>js_host\<close> of parameters; \<open>None\<close> is \<open>NaN\<close>, and also the run time \<open>-Infinity\<close>. A count in a
  node's data is a number; a string in its place is read as unsigned decimal digits.
\<close>

section \<open>The graph\<close>

datatype edge_type = RoutesTo | Exposes | Manages | Uses | Configures | Protects

record topology_node =
  tn_id :: string
  tn_kind :: string
  tn_name :: string
  tn_status :: health_status
  tn_data :: json_record

record topology_edge =
  te_id :: string
  te_source :: string
  te_target :: string
  te_type :: edge_type
  te_label :: "string option"
  te_partial :: "bool option"
  te_label_title :: "string option"
  te_skip_if_kind_visible :: "string option"
  te_policy_effect :: "string option"
  te_reach_outcome :: "string option"

record topology =
  tp_nodes :: "topology_node list"
  tp_edges :: "topology_edge list"
  tp_warnings :: "string list option"
  tp_large_cluster :: "bool option"
  tp_hidden_kinds :: "string list option"
  tp_requires_namespace_filter :: "bool option"
  tp_estimated_nodes :: "nat option"
  tp_summary_mode :: "bool option"
  tp_crd_discovery_status :: "string option"

record neighborhood_seed =
  sd_kind :: string
  sd_group :: "string option"
  sd_namespace :: string
  sd_name :: string

record js_host =
  h_locale_compare :: "string \<Rightarrow> string \<Rightarrow> int"
  h_date_parse :: "string \<Rightarrow> int option"

definition batch_run_fanout_limit :: nat where
  "batch_run_fanout_limit = 8"

definition gitops_manager_kinds :: "string list" where
  "gitops_manager_kinds = [''Application'', ''Kustomization'', ''HelmRelease'', ''GitRepository'']"

definition secret_producer_kinds :: "string list" where
  "secret_producer_kinds = [''SealedSecret'', ''Certificate'']"

definition node_namespace :: "topology_node \<Rightarrow> string" where
  "node_namespace node = coalesce (json_str (map_of (tn_data node) ''namespace'')) []"

definition node_group :: "topology_node \<Rightarrow> string option" where
  "node_group node =
     (case json_str (map_of (tn_data node) ''apiVersion'') of
        None \<Rightarrow> None
      | Some v \<Rightarrow> if v = [] then None else if CHR ''/'' \<in> set v then Some (before_char CHR ''/'' v) else Some [])"

definition topology_node_resource_kind :: "topology_node \<Rightarrow> string" where
  "topology_node_resource_kind node = or_else (json_str (map_of (tn_data node) ''resourceKind'')) (tn_kind node)"

definition is_workflow_template_kind :: "string \<Rightarrow> bool" where
  "is_workflow_template_kind kind \<longleftrightarrow> kind = ''WorkflowTemplate'' \<or> kind = ''ClusterWorkflowTemplate''"

definition is_template_configured_run :: "string \<Rightarrow> bool" where
  "is_template_configured_run kind \<longleftrightarrow> kind = ''Workflow'' \<or> kind = ''CronWorkflow''"

type_synonym node_index = "(string \<times> topology_node) list"

definition nodes_by_id :: "topology_node list \<Rightarrow> node_index" where
  "nodes_by_id nodes = map_from (map (\<lambda>n. (tn_id n, n)) nodes)"

definition kind_at :: "node_index \<Rightarrow> string \<Rightarrow> string" where
  \<comment> \<open>\<open>nodeById.get(id)?.kind ?? ''\<close>\<close>
  "kind_at node_by_id i = (case map_of node_by_id i of None \<Rightarrow> [] | Some n \<Rightarrow> tn_kind n)"

definition is_template_to_run_edge :: "topology_edge \<Rightarrow> node_index \<Rightarrow> bool" where
  "is_template_to_run_edge e node_by_id \<longleftrightarrow>
     te_type e = Configures \<and> is_workflow_template_kind (kind_at node_by_id (te_source e))
     \<and> is_template_configured_run (kind_at node_by_id (te_target e))"

definition is_batch_run_fanout_edge :: "topology_edge \<Rightarrow> node_index \<Rightarrow> bool" where
  "is_batch_run_fanout_edge e node_by_id =
     (case (map_of node_by_id (te_source e), map_of node_by_id (te_target e)) of
        (Some source, Some target) \<Rightarrow>
          if te_type e = Manages
          then (tn_kind source = ''CronJob'' \<or> tn_kind source = ''ScaledJob'') \<and> tn_kind target = ''Job''
            \<or> tn_kind source = ''CronWorkflow'' \<and> tn_kind target = ''Workflow''
          else is_template_to_run_edge e node_by_id
      | _ \<Rightarrow> False)"

definition batch_run_parent_nodes :: "topology \<Rightarrow> topology_node \<Rightarrow> topology_node list" where
  "batch_run_parent_nodes t run =
     (let node_by_id = nodes_by_id (tp_nodes t);
          parent_edges = filter (\<lambda>e. te_target e = tn_id run \<and> is_batch_run_fanout_edge e node_by_id) (tp_edges t);
          manages = (\<lambda>e. if te_type e = Manages then 1 else 0 :: int)
      in List.map_filter (\<lambda>e. map_of node_by_id (te_source e)) (js_sort (\<lambda>l r. manages r - manages l) parent_edges))"

section \<open>Runs\<close>

fun first_parsed :: "(string \<Rightarrow> int option) \<Rightarrow> json_record \<Rightarrow> string list \<Rightarrow> int option" where
  "first_parsed date_parse data [] = None"
| "first_parsed date_parse data (key # keys) =
     (case json_str (map_of data key) of
        None \<Rightarrow> first_parsed date_parse data keys
      | Some v \<Rightarrow> if v = [] then first_parsed date_parse data keys
                  else (case date_parse v of Some t \<Rightarrow> Some t | None \<Rightarrow> first_parsed date_parse data keys))"

definition node_run_time :: "js_host \<Rightarrow> topology_node \<Rightarrow> int option" where
  "node_run_time h node = first_parsed (h_date_parse h) (tn_data node)
     [''startedAt'', ''finishedAt'', ''startTime'', ''completionTime'', ''creationTimestamp'']"

definition compare_runs_newest_first :: "js_host \<Rightarrow> topology_node \<Rightarrow> topology_node \<Rightarrow> int" where
  "compare_runs_newest_first h a b =
     (let at = node_run_time h a; bt = node_run_time h b in
      if bt \<noteq> at
      then (case (at, bt) of (None, _) \<Rightarrow> 1 | (Some x, None) \<Rightarrow> - 1 | (Some x, Some y) \<Rightarrow> y - x)
      else h_locale_compare h (tn_name b) (tn_name a))"

datatype run_disposition = RunActive | RunFailed | RunSucceeded | RunOther

definition json_positive :: "json option \<Rightarrow> bool" where
  \<comment> \<open>\<open>Number(v ?? 0) > 0\<close>\<close>
  "json_positive v = (case v of
       Some (JNum n) \<Rightarrow> n > 0
     | Some (JBool b) \<Rightarrow> b
     | Some (JStr s) \<Rightarrow> list_all (\<lambda>c. c \<in> set ''0123456789'') s \<and> list_ex (\<lambda>c. c \<in> set ''123456789'') s
     | _ \<Rightarrow> False)"

definition run_disposition_of :: "topology_node \<Rightarrow> run_disposition" where
  "run_disposition_of node =
     (let data = tn_data node; phase = coalesce (json_str (map_of data ''phase'')) [] in
      if phase = ''Running'' \<or> phase = ''Pending'' \<or> json_positive (map_of data ''active'') then RunActive
      else if phase = ''Failed'' \<or> phase = ''Error'' \<or> tn_status node = StUnhealthy then RunFailed
      else if phase = ''Succeeded'' \<or> tn_status node = StHealthy \<or> json_positive (map_of data ''succeeded'')
      then RunSucceeded
      else if tn_kind node = ''Job'' \<and> \<not> json_truthy (map_of data ''completionTime'') then RunActive
      else RunOther)"

definition add_latest :: "topology_node list \<Rightarrow> run_disposition \<Rightarrow> topology_node list \<Rightarrow> topology_node list" where
  "add_latest by_time disposition selected =
     (case List.find (\<lambda>n. run_disposition_of n = disposition) by_time of
        None \<Rightarrow> selected
      | Some n \<Rightarrow> if list_ex (\<lambda>c. tn_id c = tn_id n) selected then selected else selected @ [n])"

definition shown_active :: "topology_node list \<Rightarrow> topology_node list" where
  \<comment> \<open>the newest active runs and the oldest, when there are too many\<close>
  "shown_active active =
     (if length active > batch_run_fanout_limit
      then take (batch_run_fanout_limit - 1) active @ [last active] else active)"

definition representative_runs :: "js_host \<Rightarrow> topology_node list \<Rightarrow> topology_node list" where
  "representative_runs h targets =
     (let by_time = js_sort (compare_runs_newest_first h) targets;
          active = filter (\<lambda>n. run_disposition_of n = RunActive) by_time;
          selected = add_latest by_time RunSucceeded (add_latest by_time RunFailed (shown_active active))
      in if selected = [] then take 1 by_time else selected)"

definition batch_fanout_limit :: "topology_edge \<Rightarrow> node_index \<Rightarrow> nat option" where
  "batch_fanout_limit e node_by_id =
     (if is_batch_run_fanout_edge e node_by_id then Some batch_run_fanout_limit else None)"

section \<open>Seeds\<close>

definition workload_key :: "neighborhood_seed \<Rightarrow> string" where
  "workload_key ref = lane_id (sd_kind ref) (sd_group ref) (sd_namespace ref) (sd_name ref)"

definition put_new :: "'k \<Rightarrow> 'v \<Rightarrow> ('k \<times> 'v) list \<Rightarrow> ('k \<times> 'v) list" where
  \<comment> \<open>\<open>if (!m.has(k)) m.set(k, v)\<close>\<close>
  "put_new k v m = (if map_of m k = None then m @ [(k, v)] else m)"

definition resolve_seed ::
  "topology_node list \<Rightarrow> neighborhood_seed \<Rightarrow> (string \<times> neighborhood_seed) list \<Rightarrow> (string \<times> neighborhood_seed) list" where
  "resolve_seed nodes seed resolved =
     (let candidates = filter (\<lambda>n. topology_node_resource_kind n = sd_kind seed \<and> tn_name n = sd_name seed
            \<and> node_namespace n = sd_namespace seed) nodes;
          seed_group = canonical_resource_group (sd_kind seed) (sd_group seed)
      in if seed_group \<noteq> None
         then fold (\<lambda>c m. if canonical_resource_group (sd_kind seed) (node_group c) = seed_group
                then put_new (tn_id c) seed m else m) candidates resolved
         else if length candidates = 1 then put_new (tn_id (hd candidates)) seed resolved
         else resolved)"

definition resolve_seed_nodes ::
  "topology_node list \<Rightarrow> neighborhood_seed list \<Rightarrow> (string \<times> neighborhood_seed) list" where
  "resolve_seed_nodes nodes seeds = fold (resolve_seed nodes) seeds []"

definition seed_node_ids :: "topology \<Rightarrow> neighborhood_seed list \<Rightarrow> string list" where
  "seed_node_ids t seeds =
     (let resolved = resolve_seed_nodes (tp_nodes t) seeds
      in map tn_id (filter (\<lambda>n. map_of resolved (tn_id n) \<noteq> None) (tp_nodes t)))"

section \<open>The walk\<close>

definition push_to :: "'k \<Rightarrow> 'v \<Rightarrow> ('k \<times> 'v list) list \<Rightarrow> ('k \<times> 'v list) list" where
  \<comment> \<open>append to the list at a key, creating it first when it is absent\<close>
  "push_to k v m = AList.update k (coalesce (map_of m k) [] @ [v]) m"

definition adjacency_of :: "topology_edge list \<Rightarrow> (string \<times> topology_edge list) list" where
  "adjacency_of edges = fold (\<lambda>e m. push_to (te_target e) e (push_to (te_source e) e m)) edges []"

record limited_fanout =
  lf_allowed :: "string list"
  lf_total :: nat
  lf_kind :: string
  lf_active_total :: nat
  lf_active_shown :: nat

definition limit_fanout ::
  "js_host \<Rightarrow> node_index \<Rightarrow> string \<times> topology_edge list \<Rightarrow> (string \<times> limited_fanout) list
    \<Rightarrow> (string \<times> limited_fanout) list" where
  "limit_fanout h node_by_id entry m =
     (let (source_id, edges) = entry;
          run_edges = filter (\<lambda>e. te_source e = source_id \<and> batch_fanout_limit e node_by_id \<noteq> None) edges
      in if length run_edges \<le> batch_run_fanout_limit then m
         else let targets = js_sort (compare_runs_newest_first h)
                    (List.map_filter (\<lambda>e. map_of node_by_id (te_target e)) run_edges);
                  representatives = representative_runs h targets;
                  active = filter (\<lambda>n. run_disposition_of n = RunActive)
              in AList.update source_id
                   \<lparr>lf_allowed = set_from (map tn_id representatives), lf_total = length targets,
                    lf_kind = (case targets of n # _ \<Rightarrow> if tn_kind n = ''Job'' then ''Job'' else ''Workflow''
                               | [] \<Rightarrow> ''Workflow''),
                    lf_active_total = length (active targets),
                    lf_active_shown = length (active representatives)\<rparr> m)"

record nb_graph =
  g_nodes :: node_index
  g_adjacency :: "(string \<times> topology_edge list) list"
  g_limited :: "(string \<times> limited_fanout) list"

definition graph_of :: "js_host \<Rightarrow> topology \<Rightarrow> nb_graph" where
  "graph_of h t =
     (let node_by_id = nodes_by_id (tp_nodes t); adjacency = adjacency_of (tp_edges t)
      in \<lparr>g_nodes = node_by_id, g_adjacency = adjacency,
          g_limited = fold (limit_fanout h node_by_id) adjacency []\<rparr>)"

definition edges_at :: "nb_graph \<Rightarrow> string \<Rightarrow> topology_edge list" where
  "edges_at g i = coalesce (map_of (g_adjacency g) i) []"

record nb_state =
  st_keep :: "string list"
  st_leaf :: "string list"
  st_queue :: "string list"
  st_capped :: "string list"

definition next_id_of :: "string \<Rightarrow> topology_edge \<Rightarrow> string" where
  "next_id_of i e = (if te_source e = i then te_target e else te_source e)"

definition edge_as_leaf :: "nb_graph \<Rightarrow> string \<Rightarrow> topology_edge \<Rightarrow> topology_node \<Rightarrow> bool option" where
  \<comment> \<open>\<open>asLeaf\<close>; \<open>None\<close> where the walk does not follow the edge\<close>
  "edge_as_leaf g i e next_node =
     (if te_type e = Manages then Some (next_id_of i e = te_source e)
      else if te_type e = Exposes \<or> te_type e = RoutesTo
      then if te_type e = Exposes \<and> i = te_source e then None
           else Some (te_type e = RoutesTo \<or> tn_kind next_node \<noteq> ''Service'')
      else if map_of (g_nodes g) i \<noteq> None \<and> is_template_to_run_edge e (g_nodes g) \<and> te_source e = i
      then Some False
      else Some True)"

definition producer_of :: "nb_graph \<Rightarrow> string \<Rightarrow> topology_edge \<Rightarrow> topology_node option" where
  \<comment> \<open>the producer an edge at a Secret leads to\<close>
  "producer_of g secret e =
     (if te_type e \<noteq> Manages \<or> te_target e \<noteq> secret then None
      else case map_of (g_nodes g) (te_source e) of
             None \<Rightarrow> None
           | Some p \<Rightarrow> if tn_kind p \<in> set secret_producer_kinds then Some p else None)"

definition add_producer :: "nb_graph \<Rightarrow> string \<Rightarrow> topology_edge \<Rightarrow> nb_state \<Rightarrow> nb_state" where
  "add_producer g secret e st =
     (case producer_of g secret e of
        None \<Rightarrow> st
      | Some p \<Rightarrow> st\<lparr>st_keep := set_add (tn_id p) (st_keep st), st_leaf := set_add (tn_id p) (st_leaf st)\<rparr>)"

definition enter_node :: "string \<Rightarrow> bool \<Rightarrow> nb_state \<Rightarrow> nb_state" where
  "enter_node next_id as_leaf st =
     (if next_id \<in> set (st_keep st) then st
      else st\<lparr>st_keep := st_keep st @ [next_id],
              st_leaf := (if as_leaf then set_add next_id (st_leaf st) else st_leaf st),
              st_queue := st_queue st @ [next_id]\<rparr>)"

definition fanout_blocks :: "nb_graph \<Rightarrow> string \<Rightarrow> topology_edge \<Rightarrow> bool" where
  "fanout_blocks g i e \<longleftrightarrow>
     (case (if te_source e = i then map_of (g_limited g) i else None) of
        None \<Rightarrow> False | Some f \<Rightarrow> next_id_of i e \<notin> set (lf_allowed f))"

definition visit_edge :: "nb_graph \<Rightarrow> string \<Rightarrow> topology_edge \<Rightarrow> nb_state \<Rightarrow> nb_state" where
  \<comment> \<open>the body of the loop over the edges at a dequeued node\<close>
  "visit_edge g i e st =
     (case map_of (g_nodes g) (next_id_of i e) of
        None \<Rightarrow> st
      | Some next_node \<Rightarrow>
          if fanout_blocks g i e then st\<lparr>st_capped := set_add i (st_capped st)\<rparr>
          else (case edge_as_leaf g i e next_node of
                  None \<Rightarrow> st
                | Some as_leaf \<Rightarrow>
                    let st1 = enter_node (next_id_of i e) as_leaf st
                    in if as_leaf \<and> tn_kind next_node = ''Secret''
                       then fold (add_producer g (next_id_of i e)) (edges_at g (next_id_of i e)) st1
                       else st1))"


text \<open>
  Termination of the worklist: a node is queued only when it enters \<open>keep\<close>, and only ids of nodes
  do.
\<close>

definition walk_measure :: "nb_graph \<Rightarrow> nb_state \<Rightarrow> nat" where
  "walk_measure g st = length (st_queue st) + card (dom (map_of (g_nodes g)) - set (st_keep st))"

lemma card_diff_mono: "finite A \<Longrightarrow> set xs \<subseteq> set ys \<Longrightarrow> card (A - set ys) \<le> card (A - set xs)"
  by (intro card_mono) auto

lemma walk_measure_keep:
  assumes "set (st_keep st) \<subseteq> set (st_keep st')" and "st_queue st' = st_queue st"
  shows "walk_measure g st' \<le> walk_measure g st"
  using assms card_diff_mono [OF finite_dom_map_of, of "st_keep st" "st_keep st'" "g_nodes g"]
  by (simp add: walk_measure_def)

lemma add_producer_measure: "walk_measure g (add_producer g secret e st) \<le> walk_measure g st"
  by (rule walk_measure_keep) (auto simp: add_producer_def split: option.split)

lemma enter_node_measure:
  assumes "i \<in> dom (map_of (g_nodes g))"
  shows "walk_measure g (enter_node i as_leaf st) \<le> walk_measure g st"
proof (cases "i \<in> set (st_keep st)")
  case True
  then show ?thesis by (simp add: enter_node_def)
next
  case False
  let ?D = "dom (map_of (g_nodes g))"
  have "card (?D - set (st_keep st @ [i])) < card (?D - set (st_keep st))"
    using assms False by (intro psubset_card_mono) (auto simp: finite_dom_map_of)
  with False show ?thesis by (simp add: enter_node_def walk_measure_def)
qed

lemma fold_measure_le:
  assumes "\<And>x s. m (f x s) \<le> (m s :: nat)"
  shows "m (fold f xs s) \<le> m s"
  by (induction xs arbitrary: s) (auto intro: order_trans [OF _ assms])

lemma visit_edge_measure: "walk_measure g (visit_edge g i e st) \<le> walk_measure g st"
proof (cases "map_of (g_nodes g) (next_id_of i e)")
  case None
  then show ?thesis by (simp add: visit_edge_def)
next
  case (Some n)
  let ?n = "next_id_of i e"
  have "?n \<in> dom (map_of (g_nodes g))" using Some by auto
  then have enter: "walk_measure g (enter_node ?n l st) \<le> walk_measure g st" for l
    by (rule enter_node_measure)
  have prod: "walk_measure g (fold (add_producer g ?n) (edges_at g ?n) (enter_node ?n l st)) \<le> walk_measure g st" for l
    by (rule order_trans [OF _ enter]) (rule fold_measure_le, rule add_producer_measure)
  have cap: "walk_measure g (st\<lparr>st_capped := x\<rparr>) \<le> walk_measure g st" for x
    by (rule walk_measure_keep) simp_all
  show ?thesis
    unfolding visit_edge_def Some
    using enter prod cap by (simp add: Let_def split: option.split)
qed

function nb_loop :: "nb_graph \<Rightarrow> nb_state \<Rightarrow> nb_state" where
  "nb_loop g st =
     (case st_queue st of
        [] \<Rightarrow> st
      | i # rest \<Rightarrow>
          if i \<in> set (st_leaf st) then nb_loop g (st\<lparr>st_queue := rest\<rparr>)
          else nb_loop g (fold (visit_edge g i) (edges_at g i) (st\<lparr>st_queue := rest\<rparr>)))"
  by pat_completeness auto
termination
proof (relation "measure (\<lambda>(g, st). walk_measure g st)", goal_cases)
  case (2 g st i rest)
  then show ?case by (simp add: walk_measure_def)
next
  case (3 g st i rest)
  have "walk_measure g (fold (visit_edge g i) (edges_at g i) (st\<lparr>st_queue := rest\<rparr>))
      \<le> walk_measure g (st\<lparr>st_queue := rest\<rparr>)"
    by (rule fold_measure_le) (rule visit_edge_measure)
  also have "\<dots> < walk_measure g st" using 3 by (simp add: walk_measure_def)
  finally show ?case by simp
qed simp

declare nb_loop.simps [simp del]

definition walk_from :: "nb_graph \<Rightarrow> string list \<Rightarrow> nb_state" where
  "walk_from g seed_ids =
     nb_loop g \<lparr>st_keep = seed_ids, st_leaf = [], st_queue = seed_ids, st_capped = []\<rparr>"

definition capped_warning :: "nb_graph \<Rightarrow> string \<Rightarrow> string" where
  "capped_warning g source_id =
     (let source = map_of (g_nodes g) source_id; fanout = map_of (g_limited g) source_id;
          note = (case fanout of
              Some f \<Rightarrow> if lf_active_total f > lf_active_shown f
                then '' showing the '' @ show_int (int (lf_active_shown f) - 1) @ '' newest and oldest of ''
                  @ show_nat (lf_active_total f) @ '' active runs plus representative completed runs''
                else '' showing active and representative completed runs''
            | None \<Rightarrow> '' showing active and representative completed runs'')
      in ''Topology view:'' @ note @ '' from ''
         @ show_nat (case fanout of Some f \<Rightarrow> lf_total f | None \<Rightarrow> batch_run_fanout_limit) @ '' retained ''
         @ (case fanout of Some f \<Rightarrow> lf_kind f | None \<Rightarrow> ''batch'') @ '' runs for ''
         @ (case source of Some n \<Rightarrow> tn_kind n | None \<Rightarrow> ''workload'') @ ''/''
         @ (case source of Some n \<Rightarrow> tn_name n | None \<Rightarrow> source_id)
         @ ''. Use Run history for the full retained set.'')"

definition edge_kept :: "string list \<Rightarrow> string list \<Rightarrow> topology_edge \<Rightarrow> bool" where
  "edge_kept keep present_kinds e \<longleftrightarrow>
     te_source e \<in> set keep \<and> te_target e \<in> set keep
     \<and> \<not> (truthy_str (te_skip_if_kind_visible e) \<and> coalesce (te_skip_if_kind_visible e) [] \<in> set present_kinds)"

definition neighborhood_for :: "js_host \<Rightarrow> topology \<Rightarrow> neighborhood_seed list \<Rightarrow> topology" where
  "neighborhood_for h t seeds =
     (let seed_ids = map fst (resolve_seed_nodes (tp_nodes t) seeds) in
      if seed_ids = []
      then t\<lparr>tp_nodes := [], tp_edges := [],
             tp_warnings := Some (coalesce (tp_warnings t) [] @ [''No topology nodes matched this selection.''])\<rparr>
      else let g = graph_of h t; st = walk_from g seed_ids;
               kept = filter (\<lambda>n. tn_id n \<in> set (st_keep st)) (tp_nodes t);
               present_kinds = set_from (map tn_kind kept)
           in t\<lparr>tp_nodes := kept,
                tp_edges := filter (edge_kept (st_keep st) present_kinds) (tp_edges t),
                tp_warnings := Some (coalesce (tp_warnings t) [] @ map (capped_warning g) (st_capped st))\<rparr>)"

section \<open>Ownership\<close>

record ownership_stamp =
  os_owner_workload_id :: "string option"
  os_owner_color_index :: "int option"
  os_focus_workload_ids :: "string list"

definition ownership_of :: "json_record \<Rightarrow> ownership_stamp" where
  "ownership_of data =
     \<lparr>os_owner_workload_id = json_str (map_of data ''ownerWorkloadId''),
      os_owner_color_index = (case map_of data ''ownerColorIndex'' of Some (JNum n) \<Rightarrow> Some n | _ \<Rightarrow> None),
      os_focus_workload_ids = (case map_of data ''focusWorkloadIds'' of Some (JArr xs) \<Rightarrow> json_strings xs | _ \<Rightarrow> [])\<rparr>"

definition json_opt_str :: "string option \<Rightarrow> json" where
  "json_opt_str x = (case x of None \<Rightarrow> JNull | Some s \<Rightarrow> JStr s)"

definition stamp_node :: "ownership_stamp \<Rightarrow> topology_node \<Rightarrow> topology_node" where
  "stamp_node stamp n = n\<lparr>tn_data :=
     AList.update ''focusWorkloadIds'' (JArr (map JStr (os_focus_workload_ids stamp)))
       (AList.update ''ownerColorIndex'' (case os_owner_color_index stamp of None \<Rightarrow> JNull | Some c \<Rightarrow> JNum c)
         (AList.update ''ownerWorkloadId'' (json_opt_str (os_owner_workload_id stamp)) (tn_data n)))\<rparr>"

definition color_by_workload :: "neighborhood_seed list \<Rightarrow> (string \<times> nat) list" where
  "color_by_workload seeds = fold (\<lambda>s m. put_new (workload_key s) (length m) m) seeds []"

definition seed_key_by_id :: "topology_node list \<Rightarrow> neighborhood_seed list \<Rightarrow> (string \<times> string) list" where
  "seed_key_by_id nodes seeds =
     (let resolved = resolve_seed_nodes nodes seeds
      in fold (\<lambda>n m. case map_of resolved (tn_id n) of
             Some seed \<Rightarrow> AList.update (tn_id n) (workload_key seed) m | None \<Rightarrow> m) nodes [])"

definition managed_children_of :: "topology_edge list \<Rightarrow> (string \<times> string list) list" where
  "managed_children_of edges =
     fold (\<lambda>e m. if te_type e = Manages then push_to (te_source e) (te_target e) m else m) edges []"

definition template_run_children_of :: "node_index \<Rightarrow> topology_edge list \<Rightarrow> (string \<times> string list) list" where
  "template_run_children_of node_by_id edges =
     fold (\<lambda>e m. if te_type e \<noteq> Manages \<and> is_template_to_run_edge e node_by_id
       then push_to (te_source e) (te_target e) m else m) edges []"

definition neighbors_of :: "topology_edge list \<Rightarrow> (string \<times> string list) list" where
  "neighbors_of edges =
     (let add = (\<lambda>a b m. AList.update a (set_add b (coalesce (map_of m a) [])) m)
      in fold (\<lambda>e m. add (te_target e) (te_source e) (add (te_source e) (te_target e) m)) edges [])"

text \<open>The walk down the \<open>manages\<close> edges that claims nodes for one workload.\<close>

function claim_walk ::
  "(string \<times> string list) list \<Rightarrow> string \<Rightarrow> string list \<Rightarrow> (string \<times> string) list \<Rightarrow> (string \<times> string) list" where
  "claim_walk children key [] core_owner = core_owner"
| "claim_walk children key (i # queue) core_owner =
     (if map_of core_owner i \<noteq> None then claim_walk children key queue core_owner
      else let owned = AList.update i key core_owner
           in claim_walk children key
                (queue @ filter (\<lambda>c. map_of owned c = None) (coalesce (map_of children i) [])) owned)"
  by pat_completeness auto
termination
proof (relation "measures [\<lambda>(children, key, queue, owner). card (fst ` set children - dom (map_of owner)),
    \<lambda>(children, key, queue, owner). length queue]", goal_cases)
  case (3 children key i queue owner)
  show ?case
  proof (cases "i \<in> fst ` set children")
    case True
    with 3 have "card (fst ` set children - dom (map_of (AList.update i key owner)))
        < card (fst ` set children - dom (map_of owner))"
      by (intro psubset_card_mono) (auto simp: update_conv')
    then show ?thesis by (simp add: 3(2))
  next
    case False
    then have "map_of children i = None" by (simp add: map_of_eq_None_iff)
    moreover from False have "fst ` set children - dom (map_of (AList.update i key owner))
        = fst ` set children - dom (map_of owner)"
      by (auto simp: update_conv')
    ultimately show ?thesis by (simp add: 3(2))
  qed
qed simp_all

definition core_owners ::
  "node_index \<Rightarrow> topology_edge list \<Rightarrow> (string \<times> string) list \<Rightarrow> (string \<times> string) list" where
  "core_owners node_by_id edges seed_keys =
     (let managed = managed_children_of edges; runs = template_run_children_of node_by_id edges;
          claimed = fold (\<lambda>(seed_id, key) owner. claim_walk managed key [seed_id] owner) seed_keys []
      in fold (\<lambda>(seed_id, key) owner.
           if map_of node_by_id seed_id = None \<or> \<not> is_workflow_template_kind (kind_at node_by_id seed_id) then owner
           else claim_walk managed key (coalesce (map_of runs seed_id) []) owner) seed_keys claimed)"

definition owners_of :: "(string \<times> string) list \<Rightarrow> string list \<Rightarrow> string list" where
  \<comment> \<open>the owners of the given nodes, those that have one\<close>
  "owners_of core_owner ids =
     filter (\<lambda>k. k \<noteq> []) (List.map_filter (\<lambda>i. map_of core_owner i) ids)"

definition related_workloads ::
  "node_index \<Rightarrow> (string \<times> string list) list \<Rightarrow> (string \<times> string) list \<Rightarrow> topology_node \<Rightarrow> string list" where
  "related_workloads node_by_id neighbors core_owner n =
     (let around = (\<lambda>i. coalesce (map_of neighbors i) [])
      in set_from (concat (map (\<lambda>nb.
           owners_of core_owner [nb]
           @ (if map_of node_by_id nb \<noteq> None \<and> kind_at node_by_id nb = ''Service''
              then owners_of core_owner (around nb) else [])
           @ (if tn_kind n \<in> set secret_producer_kinds \<and> map_of node_by_id nb \<noteq> None
                \<and> kind_at node_by_id nb = ''Secret''
              then owners_of core_owner (around nb) else [])) (around (tn_id n)))))"

definition ownership_stamp_of ::
  "node_index \<Rightarrow> (string \<times> string list) list \<Rightarrow> (string \<times> string) list \<Rightarrow> (string \<times> nat) list
    \<Rightarrow> topology_node \<Rightarrow> ownership_stamp" where
  "ownership_stamp_of node_by_id neighbors core_owner colors n =
     (let core = map_of core_owner (tn_id n);
          related = related_workloads node_by_id neighbors core_owner n;
          focus = (if truthy_str core then [coalesce core []] else related);
          owner = (if truthy_str core then core
            else if length related = 1 \<and> tn_kind n \<notin> set gitops_manager_kinds then Some (hd related) else None)
      in \<lparr>os_owner_workload_id = owner,
          os_owner_color_index = (if truthy_str owner
            then map_option int (map_of colors (coalesce owner [])) else None),
          os_focus_workload_ids = focus\<rparr>)"

definition tag_workload_ownership ::
  "js_host \<Rightarrow> topology \<Rightarrow> neighborhood_seed list \<Rightarrow> topology \<times> (string \<times> nat) list" where
  "tag_workload_ownership h t seeds =
     (let sub = neighborhood_for h t seeds;
          colors = color_by_workload seeds;
          node_by_id = nodes_by_id (tp_nodes sub);
          neighbors = neighbors_of (tp_edges sub);
          core_owner = core_owners node_by_id (tp_edges sub) (seed_key_by_id (tp_nodes sub) seeds)
      in (sub\<lparr>tp_nodes := map (\<lambda>n. stamp_node (ownership_stamp_of node_by_id neighbors core_owner colors n) n)
             (tp_nodes sub)\<rparr>, colors))"

section \<open>The walk as a relation\<close>

text \<open>
  \<open>reached g seeds i b\<close>: the rules of the walk lead from the seeds to \<open>i\<close>, and with \<open>b\<close> the walk
  may go on from there; without it \<open>i\<close> is a leaf.
\<close>

inductive reached :: "nb_graph \<Rightarrow> string set \<Rightarrow> string \<Rightarrow> bool \<Rightarrow> bool" for g seeds where
  seed: "i \<in> seeds \<Longrightarrow> reached g seeds i True"
| step: "reached g seeds i True \<Longrightarrow> e \<in> set (edges_at g i) \<Longrightarrow> map_of (g_nodes g) (next_id_of i e) = Some n
    \<Longrightarrow> \<not> fanout_blocks g i e \<Longrightarrow> edge_as_leaf g i e n = Some l \<Longrightarrow> reached g seeds (next_id_of i e) (\<not> l)"
| producer: "reached g seeds i True \<Longrightarrow> e \<in> set (edges_at g i) \<Longrightarrow> map_of (g_nodes g) (next_id_of i e) = Some n
    \<Longrightarrow> \<not> fanout_blocks g i e \<Longrightarrow> edge_as_leaf g i e n = Some True
    \<Longrightarrow> p \<in> set (edges_at g (next_id_of i e)) \<Longrightarrow> producer_of g (next_id_of i e) p = Some m
    \<Longrightarrow> reached g seeds (tn_id m) False"

definition walk_ok :: "nb_graph \<Rightarrow> string set \<Rightarrow> nb_state \<Rightarrow> bool" where
  "walk_ok g seeds st \<longleftrightarrow>
     (\<forall>i \<in> set (st_keep st). \<exists>b. reached g seeds i b)
     \<and> (\<forall>i \<in> set (st_queue st). i \<in> set (st_leaf st) \<or> reached g seeds i True)"

lemma walk_okI:
  "(\<And>i. i \<in> set (st_keep st) \<Longrightarrow> \<exists>b. reached g seeds i b)
   \<Longrightarrow> (\<And>i. i \<in> set (st_queue st) \<Longrightarrow> i \<in> set (st_leaf st) \<or> reached g seeds i True) \<Longrightarrow> walk_ok g seeds st"
  by (simp add: walk_ok_def)

lemma walk_ok_enter:
  assumes "walk_ok g seeds st" and "reached g seeds i (\<not> l)"
  shows "walk_ok g seeds (enter_node i l st)"
  using assms by (cases l) (auto simp: walk_ok_def enter_node_def)

lemma walk_ok_producers:
  assumes "walk_ok g seeds st" and "\<And>e m. e \<in> set es \<Longrightarrow> producer_of g i e = Some m \<Longrightarrow> reached g seeds (tn_id m) False"
  shows "walk_ok g seeds (fold (add_producer g i) es st)"
  using assms
proof (induction es arbitrary: st)
  case (Cons e es)
  have "walk_ok g seeds (add_producer g i e st)"
    using Cons.prems by (auto simp: walk_ok_def add_producer_def split: option.split)
  then have "walk_ok g seeds (fold (add_producer g i) es (add_producer g i e st))"
    by (rule Cons.IH) (rule Cons.prems(2), simp_all)
  then show ?case by simp
qed simp

lemma walk_ok_visit:
  assumes ok: "walk_ok g seeds st" and i: "reached g seeds i True" and e: "e \<in> set (edges_at g i)"
  shows "walk_ok g seeds (visit_edge g i e st)"
proof (cases "map_of (g_nodes g) (next_id_of i e)")
  case None
  then show ?thesis using ok by (simp add: visit_edge_def)
next
  case (Some n)
  show ?thesis
  proof (cases "fanout_blocks g i e \<or> edge_as_leaf g i e n = None")
    case True
    then show ?thesis using ok Some by (auto simp: visit_edge_def walk_ok_def)
  next
    case False
    then obtain l where l: "edge_as_leaf g i e n = Some l" and b: "\<not> fanout_blocks g i e" by auto
    have enter: "walk_ok g seeds (enter_node (next_id_of i e) l st)"
      by (rule walk_ok_enter [OF ok reached.step [OF i e Some b l]])
    have "walk_ok g seeds (fold (add_producer g (next_id_of i e)) (edges_at g (next_id_of i e))
        (enter_node (next_id_of i e) l st))" if "l"
      by (rule walk_ok_producers [OF enter]) (rule reached.producer [OF i e Some b], use l that in auto)
    with enter Some l b show ?thesis by (simp add: visit_edge_def Let_def)
  qed
qed

lemma walk_ok_visits:
  assumes "walk_ok g seeds st" and "reached g seeds i True" and "set es \<subseteq> set (edges_at g i)"
  shows "walk_ok g seeds (fold (visit_edge g i) es st)"
  using assms
proof (induction es arbitrary: st)
  case (Cons e es)
  then have "walk_ok g seeds (visit_edge g i e st)" by (intro walk_ok_visit) auto
  with Cons show ?case by simp
qed simp

lemma walk_ok_loop: "walk_ok g seeds st \<Longrightarrow> walk_ok g seeds (nb_loop g st)"
proof (induction g st rule: nb_loop.induct)
  case (1 g st)
  show ?case
  proof (cases "st_queue st")
    case Nil
    then show ?thesis using 1(3) by (simp add: nb_loop.simps)
  next
    case (Cons i rest)
    then have i: "i \<in> set (st_leaf st) \<or> reached g seeds i True" using 1(3) by (simp add: walk_ok_def)
    have rest: "walk_ok g seeds (st\<lparr>st_queue := rest\<rparr>)" using 1(3) Cons by (simp add: walk_ok_def)
    show ?thesis
    proof (cases "i \<in> set (st_leaf st)")
      case True
      with 1(1) [OF Cons True rest] Cons show ?thesis by (simp add: nb_loop.simps [of g st])
    next
      case False
      with i have "walk_ok g seeds (fold (visit_edge g i) (edges_at g i) (st\<lparr>st_queue := rest\<rparr>))"
        by (intro walk_ok_visits [OF rest]) auto
      with 1(2) [OF Cons False] False Cons show ?thesis by (simp add: nb_loop.simps [of g st])
    qed
  qed
qed

lemma walk_from_reached:
  "i \<in> set (st_keep (walk_from g seed_ids)) \<Longrightarrow> \<exists>b. reached g (set seed_ids) i b"
  using walk_ok_loop [of g "set seed_ids" "\<lparr>st_keep = seed_ids, st_leaf = [], st_queue = seed_ids, st_capped = []\<rparr>"]
  by (auto simp: walk_ok_def walk_from_def intro: reached.seed)

section \<open>What the walk keeps\<close>

definition followed :: "nb_graph \<Rightarrow> string \<Rightarrow> topology_edge \<Rightarrow> bool" where
  "followed g i e \<longleftrightarrow> \<not> fanout_blocks g i e
     \<and> (case map_of (g_nodes g) (next_id_of i e) of None \<Rightarrow> False | Some n \<Rightarrow> edge_as_leaf g i e n \<noteq> None)"

definition grows :: "nb_state \<Rightarrow> nb_state \<Rightarrow> bool" where
  "grows st st' \<longleftrightarrow> set (st_keep st) \<subseteq> set (st_keep st') \<and> set (st_leaf st) \<subseteq> set (st_leaf st')
     \<and> set (st_queue st) \<subseteq> set (st_queue st')
     \<and> set (st_keep st') - set (st_keep st) \<subseteq> set (st_queue st') \<union> set (st_leaf st')"

lemma grows_refl [simp]: "grows st st"
  by (simp add: grows_def)

lemma grows_trans: "grows a b \<Longrightarrow> grows b c \<Longrightarrow> grows a c"
  by (auto simp: grows_def)

lemma grows_fold: "(\<And>x st. x \<in> set xs \<Longrightarrow> grows st (f x st)) \<Longrightarrow> grows st (fold f xs st)"
proof (induction xs arbitrary: st)
  case (Cons x xs)
  then show ?case by (auto intro: grows_trans)
qed simp

lemma grows_add_producer: "grows st (add_producer g i e st)"
  by (auto simp: grows_def add_producer_def split: option.split)

lemma grows_enter: "grows st (enter_node i l st)"
  by (auto simp: grows_def enter_node_def)

lemma grows_capped: "grows st (st\<lparr>st_capped := x\<rparr>)"
  by (simp add: grows_def)

lemma grows_producers: "grows st (fold (add_producer g i) es (enter_node j l st))"
  by (rule grows_trans [OF grows_enter grows_fold]) (rule grows_add_producer)

lemma grows_visit: "grows st (visit_edge g i e st)"
  unfolding visit_edge_def
  using grows_producers grows_enter grows_capped by (simp add: Let_def split: option.split)

lemma keep_enter: "i \<in> set (st_keep (enter_node i l st))"
  by (simp add: enter_node_def)

lemma visit_keeps_next:
  assumes "followed g i e"
  shows "next_id_of i e \<in> set (st_keep (visit_edge g i e st))"
proof -
  from assms obtain n l where n: "map_of (g_nodes g) (next_id_of i e) = Some n" "edge_as_leaf g i e n = Some l"
    "\<not> fanout_blocks g i e"
    by (auto simp: followed_def split: option.splits)
  have "grows (enter_node (next_id_of i e) l st)
      (fold (add_producer g (next_id_of i e)) (edges_at g (next_id_of i e)) (enter_node (next_id_of i e) l st))"
    by (rule grows_fold) (rule grows_add_producer)
  with n keep_enter [of "next_id_of i e" l st] show ?thesis by (auto simp: visit_edge_def Let_def grows_def)
qed

lemma visits_keep_next:
  "e \<in> set es \<Longrightarrow> followed g i e \<Longrightarrow> next_id_of i e \<in> set (st_keep (fold (visit_edge g i) es st))"
proof (induction es arbitrary: st)
  case (Cons x es)
  show ?case
  proof (cases "e = x")
    case True
    have "grows (visit_edge g i x st) (fold (visit_edge g i) es (visit_edge g i x st))"
      by (rule grows_fold) (rule grows_visit)
    with visit_keeps_next [OF Cons.prems(2), of st] True show ?thesis by (auto simp: grows_def)
  qed (use Cons in simp)
qed simp

definition walk_done :: "nb_graph \<Rightarrow> nb_state \<Rightarrow> bool" where
  "walk_done g st \<longleftrightarrow> (\<forall>i \<in> set (st_keep st). i \<in> set (st_leaf st) \<or> i \<in> set (st_queue st)
     \<or> (\<forall>e \<in> set (edges_at g i). followed g i e \<longrightarrow> next_id_of i e \<in> set (st_keep st)))"

lemma walk_done_loop:
  "walk_done g st \<Longrightarrow> walk_done g (nb_loop g st) \<and> st_queue (nb_loop g st) = []
     \<and> set (st_keep st) \<subseteq> set (st_keep (nb_loop g st))"
proof (induction g st rule: nb_loop.induct)
  case (1 g st)
  show ?case
  proof (cases "st_queue st")
    case Nil
    then show ?thesis using 1(3) by (simp add: nb_loop.simps)
  next
    case (Cons i rest)
    show ?thesis
    proof (cases "i \<in> set (st_leaf st)")
      case True
      have "walk_done g (st\<lparr>st_queue := rest\<rparr>)" using 1(3) Cons True by (auto simp: walk_done_def)
      from 1(1) [OF Cons True this] Cons True show ?thesis by (simp add: nb_loop.simps [of g st])
    next
      case False
      let ?st = "fold (visit_edge g i) (edges_at g i) (st\<lparr>st_queue := rest\<rparr>)"
      have gr: "grows (st\<lparr>st_queue := rest\<rparr>) ?st" by (rule grows_fold) (rule grows_visit)
      have new: "\<forall>e \<in> set (edges_at g i). followed g i e \<longrightarrow> next_id_of i e \<in> set (st_keep ?st)"
        by (auto intro: visits_keep_next)
      have "walk_done g ?st"
        unfolding walk_done_def
      proof
        fix j
        assume j: "j \<in> set (st_keep ?st)"
        show "j \<in> set (st_leaf ?st) \<or> j \<in> set (st_queue ?st)
            \<or> (\<forall>e \<in> set (edges_at g j). followed g j e \<longrightarrow> next_id_of j e \<in> set (st_keep ?st))"
        proof (cases "j \<in> set (st_keep st)")
          case True
          then have "j \<in> set (st_leaf st) \<or> j = i \<or> j \<in> set rest
              \<or> (\<forall>e \<in> set (edges_at g j). followed g j e \<longrightarrow> next_id_of j e \<in> set (st_keep st))"
            using 1(3) Cons by (auto simp: walk_done_def)
          then show ?thesis using gr new unfolding grows_def by auto
        next
          case False
          then show ?thesis using gr j unfolding grows_def by auto
        qed
      qed
      from 1(2) [OF Cons False this] Cons False gr show ?thesis
        by (auto simp: nb_loop.simps [of g st] grows_def)
    qed
  qed
qed


section \<open>Lemmas on the graph\<close>

lemma in_push_to: "x \<in> set (coalesce (map_of (push_to k v m) i) []) \<longleftrightarrow>
    x \<in> set (coalesce (map_of m i) []) \<or> i = k \<and> x = v"
  by (auto simp: push_to_def update_conv')

lemma in_adjacency:
  "e \<in> set (coalesce (map_of (adjacency_of edges) i) []) \<longleftrightarrow> e \<in> set edges \<and> (te_source e = i \<or> te_target e = i)"
proof -
  have "e \<in> set (coalesce (map_of (fold (\<lambda>e m. push_to (te_target e) e (push_to (te_source e) e m)) edges m) i) [])
      \<longleftrightarrow> e \<in> set (coalesce (map_of m i) []) \<or> e \<in> set edges \<and> (te_source e = i \<or> te_target e = i)" for m
    by (induction edges arbitrary: m) (auto simp: in_push_to)
  from this [of "[]"] show ?thesis by (simp add: adjacency_of_def)
qed

lemma in_edges_at_graph:
  "e \<in> set (edges_at (graph_of h t) i) \<longleftrightarrow> e \<in> set (tp_edges t) \<and> (te_source e = i \<or> te_target e = i)"
  by (simp add: edges_at_def graph_of_def Let_def in_adjacency)

lemma nodes_by_id_lookup:
  assumes "map_of (nodes_by_id nodes) i = Some n"
  shows "n \<in> set nodes \<and> tn_id n = i"
proof -
  have "map_of (rev (map (\<lambda>n. (tn_id n, n)) nodes)) i = Some n"
    using assms by (simp add: nodes_by_id_def map_of_map_from)
  from map_of_SomeD [OF this] show ?thesis by auto
qed

lemma graph_nodes [simp]: "g_nodes (graph_of h t) = nodes_by_id (tp_nodes t)"
  by (simp add: graph_of_def Let_def)

lemma in_neighborhood:
  "n \<in> set (tp_nodes (neighborhood_for h t seeds)) \<longleftrightarrow> n \<in> set (tp_nodes t)
     \<and> resolve_seed_nodes (tp_nodes t) seeds \<noteq> []
     \<and> tn_id n \<in> set (st_keep (walk_from (graph_of h t) (map fst (resolve_seed_nodes (tp_nodes t) seeds))))"
  by (auto simp: neighborhood_for_def Let_def)

lemma put_new_lookup: "map_of (put_new k v m) j = (case map_of m j of Some x \<Rightarrow> Some x | None \<Rightarrow> if j = k then Some v else None)"
  by (auto simp: put_new_def map_add_def split: option.splits)

lemma keys_put_new: "fst ` set (put_new k v m) \<subseteq> insert k (fst ` set m)"
  by (auto simp: put_new_def)

lemma resolved_keys: "fst ` set (resolve_seed_nodes nodes seeds) \<subseteq> tn_id ` set nodes"
proof -
  have fold_keys: "fst ` set (fold (\<lambda>c m. if P c then put_new (tn_id c) s m else m) cs m)
      \<subseteq> tn_id ` set cs \<union> fst ` set m" for P cs m and s :: neighborhood_seed
  proof (induction cs arbitrary: m)
    case (Cons c cs)
    have "fst ` set (if P c then put_new (tn_id c) s m else m) \<subseteq> insert (tn_id c) (fst ` set m)"
      using keys_put_new [of "tn_id c" s m] by auto
    moreover note Cons [of "if P c then put_new (tn_id c) s m else m"]
    ultimately show ?case unfolding fold.simps comp_apply list.set image_insert by blast
  qed simp
  have one: "fst ` set (resolve_seed nodes seed m) \<subseteq> tn_id ` set nodes \<union> fst ` set m" for seed m
  proof -
    let ?cs = "filter (\<lambda>n. topology_node_resource_kind n = sd_kind seed \<and> tn_name n = sd_name seed
            \<and> node_namespace n = sd_namespace seed) nodes"
    have single: "fst ` set (put_new (tn_id (hd ?cs)) seed m) \<subseteq> tn_id ` set nodes \<union> fst ` set m" if "length ?cs = 1"
    proof -
      have "?cs \<noteq> []" using that by auto
      then have "hd ?cs \<in> set ?cs" by (rule hd_in_set)
      then show ?thesis using keys_put_new [of "tn_id (hd ?cs)" seed m] by auto
    qed
    let ?sg = "canonical_resource_group (sd_kind seed) (sd_group seed)"
    have cs: "tn_id ` set ?cs \<subseteq> tn_id ` set nodes" by auto
    show ?thesis
    proof (cases "?sg = None")
      case True
      then have eq: "resolve_seed nodes seed m = (if length ?cs = 1 then put_new (tn_id (hd ?cs)) seed m else m)"
        by (simp only: resolve_seed_def Let_def simp_thms if_False)
      show ?thesis
      proof (cases "length ?cs = 1")
        case True
        from single [OF True] show ?thesis unfolding eq if_P [OF True] .
      next
        case False
        show ?thesis unfolding eq if_not_P [OF False] by (rule Un_upper2)
      qed
    next
      case False
      then have eq: "resolve_seed nodes seed m = fold (\<lambda>c m. if canonical_resource_group (sd_kind seed) (node_group c) = ?sg
          then put_new (tn_id c) seed m else m) ?cs m"
        by (simp only: resolve_seed_def Let_def simp_thms if_True)
      show ?thesis unfolding eq by (rule order_trans [OF fold_keys Un_mono [OF cs order_refl]])
    qed
  qed
  have "fst ` set (fold (resolve_seed nodes) seeds m) \<subseteq> tn_id ` set nodes \<union> fst ` set m" for m
  proof (induction seeds arbitrary: m)
    case (Cons x seeds)
    from Cons [of "resolve_seed nodes x m"] one [of x m] show ?case
      unfolding fold.simps comp_apply by blast
  qed simp
  from this [of "[]"] show ?thesis by (simp add: resolve_seed_nodes_def)
qed

lemma reached_is_node:
  assumes "reached (graph_of h t) seeds i b" and "seeds \<subseteq> tn_id ` set (tp_nodes t)"
  shows "i \<in> tn_id ` set (tp_nodes t)"
  using assms
proof (induction rule: reached.induct)
  case (step i e n l)
  then show ?case using nodes_by_id_lookup [of "tp_nodes t" "next_id_of i e" n] by force
next
  case (producer i e n p m)
  then show ?case
    by (auto simp: producer_of_def dest: nodes_by_id_lookup split: if_splits option.splits)
qed auto

lemma walk_starts_done: "walk_done g \<lparr>st_keep = ids, st_leaf = [], st_queue = ids, st_capped = []\<rparr>"
  by (simp add: walk_done_def)

lemma walk_from_closed:
  defines "st \<equiv> \<lambda>g ids. walk_from g ids"
  shows "set ids \<subseteq> set (st_keep (st g ids))"
    and "i \<in> set (st_keep (st g ids)) \<Longrightarrow> i \<notin> set (st_leaf (st g ids)) \<Longrightarrow> e \<in> set (edges_at g i)
      \<Longrightarrow> followed g i e \<Longrightarrow> next_id_of i e \<in> set (st_keep (st g ids))"
  using walk_done_loop [OF walk_starts_done, of g ids]
  by (auto simp: st_def walk_from_def walk_done_def)

lemma walk_keep_in_neighborhood:
  assumes "i \<in> set (st_keep (walk_from (graph_of h t) (map fst (resolve_seed_nodes (tp_nodes t) seeds))))"
    and "resolve_seed_nodes (tp_nodes t) seeds \<noteq> []"
  shows "i \<in> tn_id ` set (tp_nodes (neighborhood_for h t seeds))"
proof -
  from walk_from_reached [OF assms(1)] obtain b
    where "reached (graph_of h t) (set (map fst (resolve_seed_nodes (tp_nodes t) seeds))) i b" by blast
  from reached_is_node [OF this] resolved_keys have "i \<in> tn_id ` set (tp_nodes t)" by simp
  with assms show ?thesis by (auto simp: in_neighborhood)
qed

section \<open>Lemmas on runs\<close>

lemma compare_runs_comparator:
  assumes "js_comparator (h_locale_compare h)"
  shows "js_comparator (compare_runs_newest_first h)"
proof -
  let ?c = "compare_runs_newest_first h" and ?lc = "h_locale_compare h" and ?t = "node_run_time h"
  have le: "?c x y \<le> 0 \<longleftrightarrow> (case (?t x, ?t y) of
      (None, None) \<Rightarrow> ?lc (tn_name y) (tn_name x) \<le> 0 | (None, Some _) \<Rightarrow> False | (Some _, None) \<Rightarrow> True
    | (Some a, Some b) \<Rightarrow> b < a \<or> a = b \<and> ?lc (tn_name y) (tn_name x) \<le> 0)" for x y
    by (auto simp: compare_runs_newest_first_def Let_def split: option.splits)
  show ?thesis
  proof
    fix x y z
    show "?c x y \<le> 0 \<or> ?c y x \<le> 0"
      using js_comparator.cmp_total [OF assms, of "tn_name y" "tn_name x"]
      by (auto simp: le split: option.splits)
    assume "?c x y \<le> 0" "?c y z \<le> 0"
    then show "?c x z \<le> 0"
      using js_comparator.cmp_trans [OF assms, of "tn_name z" "tn_name y" "tn_name x"]
      by (auto simp: le split: option.splits)
  qed
qed

lemma add_latest_grows: "set sel \<subseteq> set (add_latest xs d sel)"
  by (auto simp: add_latest_def split: option.split)

lemma add_latest_within: "set sel \<subseteq> set xs \<Longrightarrow> set (add_latest xs d sel) \<subseteq> set xs"
  by (auto simp: add_latest_def dest: find_some_in split: option.splits if_splits)

lemma length_add_latest: "length (add_latest xs d sel) \<le> Suc (length sel)"
  by (simp add: add_latest_def split: option.split)

lemma add_latest_has:
  assumes "List.find (\<lambda>n. run_disposition_of n = d) xs = Some n" and "set sel \<subseteq> set xs"
    and "\<forall>x \<in> set xs. \<forall>y \<in> set xs. tn_id x = tn_id y \<longrightarrow> x = y"
  shows "n \<in> set (add_latest xs d sel)"
  using assms find_some_in [OF assms(1)] by (auto simp: add_latest_def list_ex_iff)

lemma find_first_sorted:
  assumes "List.find P xs = Some y" and "sorted_wrt R xs" and "x \<in> set xs" and "P x" and "R y y"
  shows "R y x"
  using assms by (induction xs) (auto split: if_splits)

lemma shown_active_facts:
  "set (shown_active xs) \<subseteq> set xs" "length (shown_active xs) \<le> 8"
  "length xs \<le> 8 \<Longrightarrow> shown_active xs = xs" "shown_active xs = [] \<longleftrightarrow> xs = []"
proof -
  have "last xs \<in> set xs" if "8 < length xs" using that by (intro last_in_set) auto
  then show "set (shown_active xs) \<subseteq> set xs"
    by (auto simp: shown_active_def batch_run_fanout_limit_def dest: in_set_takeD)
qed (auto simp: shown_active_def batch_run_fanout_limit_def)

section \<open>Lemmas on ownership\<close>

lemma claim_walk_values:
  "map_of (claim_walk children key queue owner) i = Some k \<Longrightarrow> map_of owner i = Some k \<or> k = key"
proof (induction children key queue owner rule: claim_walk.induct)
  case (2 children key j queue owner)
  show ?case
  proof (cases "map_of owner j = None")
    case True
    with 2(2) [OF _ refl] 2(3) show ?thesis by (auto simp: Let_def update_conv' split: if_splits)
  next
    case False
    with 2(1) 2(3) show ?thesis by simp
  qed
qed simp

lemma core_owner_values:
  assumes "map_of (core_owners ix edges seed_keys) i = Some k"
  shows "k \<in> snd ` set seed_keys"
proof -
  have claim: "map_of (fold (\<lambda>(s, key) owner. if P s then owner else claim_walk m key (q s) owner) ks owner) i = Some k
      \<Longrightarrow> map_of owner i = Some k \<or> k \<in> snd ` set ks" for P m q ks owner
  proof (induction ks arbitrary: owner)
    case (Cons x ks)
    obtain s key where x: "x = (s, key)" by (cases x)
    let ?o = "if P s then owner else claim_walk m key (q s) owner"
    have "map_of ?o i = Some k \<or> k \<in> snd ` set ks" using Cons.IH [of ?o] Cons.prems x by simp
    then show ?case using claim_walk_values [of m key "q s" owner i k] x by (auto split: if_splits)
  qed simp
  from assms show ?thesis
    unfolding core_owners_def Let_def
    using claim [of "\<lambda>s. False" "managed_children_of edges" "\<lambda>s. [s]" seed_keys "[]"]
      claim [of "\<lambda>s. map_of ix s = None \<or> \<not> is_workflow_template_kind (kind_at ix s)" "managed_children_of edges"
        "\<lambda>s. coalesce (map_of (template_run_children_of ix edges) s) []" seed_keys]
    by (simp only: if_False) fastforce
qed

lemma resolved_seeds: "snd ` set (resolve_seed_nodes nodes seeds) \<subseteq> set seeds"
proof -
  have put: "snd ` set (put_new k v m) \<subseteq> insert v (snd ` set m)" for k v and m :: "(string \<times> neighborhood_seed) list"
    by (auto simp: put_new_def)
  have fold_vals: "snd ` set (fold (\<lambda>c m. if P c then put_new (tn_id c) s m else m) cs m)
      \<subseteq> insert s (snd ` set m)" for P cs m and s :: neighborhood_seed
  proof (induction cs arbitrary: m)
    case (Cons c cs)
    have "snd ` set (if P c then put_new (tn_id c) s m else m) \<subseteq> insert s (snd ` set m)"
      using put [of "tn_id c" s m] by auto
    with Cons [of "if P c then put_new (tn_id c) s m else m"] show ?case unfolding fold.simps comp_apply by blast
  qed auto
  have if_case: "(c \<Longrightarrow> snd ` set A \<subseteq> I) \<Longrightarrow> (\<not> c \<Longrightarrow> snd ` set B \<subseteq> I) \<Longrightarrow> snd ` set (if c then A else B) \<subseteq> I"
    for c and A B :: "(string \<times> neighborhood_seed) list" and I
    by simp
  have one: "snd ` set (resolve_seed nodes seed m) \<subseteq> insert seed (snd ` set m)" for seed m
    unfolding resolve_seed_def Let_def
    by (intro if_case fold_vals put) auto
  have "snd ` set (fold (resolve_seed nodes) seeds m) \<subseteq> set seeds \<union> snd ` set m" for m
  proof (induction seeds arbitrary: m)
    case (Cons x seeds)
    from Cons [of "resolve_seed nodes x m"] one [of x m] show ?case
      unfolding fold.simps comp_apply by auto
  qed simp
  from this [of "[]"] show ?thesis by (simp add: resolve_seed_nodes_def)
qed

lemma seed_keys_are_workload_keys: "snd ` set (seed_key_by_id nodes seeds) \<subseteq> workload_key ` set seeds"
proof -
  have "snd ` set (fold (\<lambda>n m. case map_of (resolve_seed_nodes nodes seeds) (tn_id n) of
      Some seed \<Rightarrow> AList.update (tn_id n) (workload_key seed) m | None \<Rightarrow> m) ns m)
    \<subseteq> workload_key ` set seeds \<union> snd ` set m" for ns m
  proof (induction ns arbitrary: m)
    case (Cons n ns)
    let ?m = "case map_of (resolve_seed_nodes nodes seeds) (tn_id n) of
      Some seed \<Rightarrow> AList.update (tn_id n) (workload_key seed) m | None \<Rightarrow> m"
    have upd: "snd ` set (AList.update k v m) \<subseteq> insert v (snd ` set m)" for k v
      by (induction m) auto
    have "snd ` set ?m \<subseteq> workload_key ` set seeds \<union> snd ` set m"
    proof (cases "map_of (resolve_seed_nodes nodes seeds) (tn_id n)")
      case (Some sd)
      from map_of_SomeD [OF Some] have "sd \<in> snd ` set (resolve_seed_nodes nodes seeds)"
        by (rule rev_image_eqI) simp
      with resolved_seeds have "sd \<in> set seeds" by blast
      then have "workload_key sd \<in> workload_key ` set seeds" by (rule imageI)
      then have "insert (workload_key sd) (snd ` set m) \<subseteq> workload_key ` set seeds \<union> snd ` set m"
        by (intro insert_subsetI UnI1 Un_upper2)
      from order_trans [OF upd this] show ?thesis unfolding Some option.case .
    qed simp
    then have "workload_key ` set seeds \<union> snd ` set ?m \<subseteq> workload_key ` set seeds \<union> snd ` set m"
      by (rule Un_least [OF Un_upper1])
    from order_trans [OF Cons [of ?m] this] show ?case unfolding fold.simps comp_apply .
  qed simp
  from this [of nodes "[]"] show ?thesis
    unfolding seed_key_by_id_def Let_def list.set image_empty Un_empty_right .
qed

lemma color_by_workload_ok:
  "distinct (map fst (color_by_workload seeds)) \<and> map snd (color_by_workload seeds) = [0..<length (color_by_workload seeds)]
    \<and> fst ` set (color_by_workload seeds) = workload_key ` set seeds"
proof -
  have "distinct (map fst m) \<and> map snd m = [0..<length m] \<Longrightarrow>
      (let m' = fold (\<lambda>s m. put_new (workload_key s) (length m) m) seeds m
       in distinct (map fst m') \<and> map snd m' = [0..<length m'] \<and> fst ` set m' = fst ` set m \<union> workload_key ` set seeds)"
    for m
  proof (induction seeds arbitrary: m)
    case (Cons s seeds)
    let ?m = "put_new (workload_key s) (length m) m"
    have "distinct (map fst ?m) \<and> map snd ?m = [0..<length ?m]"
      using Cons.prems by (auto simp: put_new_def map_of_eq_None_iff)
    moreover have "fst ` set ?m = insert (workload_key s) (fst ` set m)"
      by (auto simp: put_new_def dest: map_of_SomeD intro: rev_image_eqI)
    ultimately show ?case using Cons.IH [of ?m] by (simp add: Let_def)
  qed simp
  from this [of "[]"] show ?thesis by (simp add: color_by_workload_def Let_def)
qed

lemma ownership_of_stamp:
  "ownership_of (tn_data (stamp_node stamp n)) = stamp"
proof -
  have "List.map_filter (\<lambda>x. json_str (Some x)) (map JStr xs) = xs" for xs
    by (induction xs) (simp_all add: List.map_filter_simps)
  then show ?thesis
    by (cases stamp) (auto simp: ownership_of_def stamp_node_def update_conv' json_opt_str_def json_strings_def
        json_str_def split: option.split)
qed

lemma related_are_owners:
  assumes "k \<in> set (related_workloads ix nb own n)"
  shows "k \<noteq> [] \<and> (\<exists>i. map_of own i = Some k)"
proof -
  have own: "k \<in> set (owners_of own ids) \<Longrightarrow> k \<noteq> [] \<and> (\<exists>i. map_of own i = Some k)" for ids
    by (induction ids) (auto simp: owners_of_def List.map_filter_simps split: option.splits if_splits)
  have no_empty: "[] \<notin> set (owners_of own ids)" for ids by (simp add: owners_of_def)
  from assms show ?thesis
    unfolding related_workloads_def Let_def set_set_from
    by (auto split: if_splits simp: no_empty dest: own)
qed

lemma ownership_stamp_owner:
  assumes "os_owner_workload_id (ownership_stamp_of ix nb own colors n) = Some k"
  shows "k \<noteq> [] \<and> (\<exists>i. map_of own i = Some k) \<and> os_focus_workload_ids (ownership_stamp_of ix nb own colors n) = [k]"
proof (cases "truthy_str (map_of own (tn_id n))")
  case True
  with assms show ?thesis by (auto simp: ownership_stamp_of_def Let_def truthy_str_def)
next
  case False
  with assms have one: "length (related_workloads ix nb own n) = 1" "k = hd (related_workloads ix nb own n)"
    by (auto simp: ownership_stamp_of_def Let_def split: if_splits)
  then have r: "related_workloads ix nb own n = [k]" by (cases "related_workloads ix nb own n") auto
  with False related_are_owners [of k ix nb own n] show ?thesis by (simp add: ownership_stamp_of_def Let_def)
qed

lemma ownership_stamp_color:
  "os_owner_color_index (ownership_stamp_of ix nb own colors n) =
    (let k = os_owner_workload_id (ownership_stamp_of ix nb own colors n)
     in if truthy_str k then map_option int (map_of colors (coalesce k [])) else None)"
  by (simp add: ownership_stamp_of_def Let_def)

section \<open>Properties\<close>



definition sample_topology_node :: "string \<Rightarrow> string \<Rightarrow> topology_node" where
  "sample_topology_node i k = \<lparr>tn_id = i, tn_kind = k, tn_name = i, tn_status = StHealthy, tn_data = []\<rparr>"

definition sample_topology_edge :: "string \<Rightarrow> string \<Rightarrow> edge_type \<Rightarrow> topology_edge" where
  "sample_topology_edge a b ty = \<lparr>te_id = a @ b, te_source = a, te_target = b, te_type = ty, te_label = None,
     te_partial = None, te_label_title = None, te_skip_if_kind_visible = None, te_policy_effect = None,
     te_reach_outcome = None\<rparr>"

definition sample_topology :: topology where
  \<comment> \<open>two Deployments that mount one ConfigMap\<close>
  "sample_topology = \<lparr>tp_nodes = [sample_topology_node ''a'' ''Deployment'', sample_topology_node ''b'' ''Deployment'',
       sample_topology_node ''c'' ''ConfigMap''],
     tp_edges = [sample_topology_edge ''c'' ''a'' Configures, sample_topology_edge ''c'' ''b'' Configures],
     tp_warnings = None, tp_large_cluster = None, tp_hidden_kinds = None, tp_requires_namespace_filter = None,
     tp_estimated_nodes = None, tp_summary_mode = None, tp_crd_discovery_status = None\<rparr>"

definition sample_seed :: neighborhood_seed where
  "sample_seed = \<lparr>sd_kind = ''Deployment'', sd_group = Some ''x'', sd_namespace = [], sd_name = ''a''\<rparr>"

definition sample_host :: js_host where
  "sample_host = \<lparr>h_locale_compare = (\<lambda>a b. 0), h_date_parse = (\<lambda>s. None)\<rparr>"

lemma sample_resolved:
  "map fst (resolve_seed_nodes (tp_nodes sample_topology) [sample_seed\<lparr>sd_group := Some ''apps''\<rparr>]) = [''a'']"
  by code_simp


text \<open>
  The neighborhood is complete and well formed: every seed the topology has is in it; from a
  node in it that is not a leaf, the node across each edge the rules follow is in it too; and its
  edges join nodes that are in it.
\<close>

theorem neighborhood_closed:
  assumes "resolve_seed_nodes (tp_nodes t) seeds \<noteq> []"
  shows "fst ` set (resolve_seed_nodes (tp_nodes t) seeds) \<subseteq> tn_id ` set (tp_nodes (neighborhood_for h t seeds))
    \<and> (\<forall>n \<in> set (tp_nodes (neighborhood_for h t seeds)). \<forall>e \<in> set (tp_edges t).
         tn_id n \<notin> set (st_leaf (walk_from (graph_of h t) (map fst (resolve_seed_nodes (tp_nodes t) seeds))))
         \<and> (te_source e = tn_id n \<or> te_target e = tn_id n) \<and> followed (graph_of h t) (tn_id n) e
         \<longrightarrow> next_id_of (tn_id n) e \<in> tn_id ` set (tp_nodes (neighborhood_for h t seeds)))
    \<and> (\<forall>e \<in> set (tp_edges (neighborhood_for h t seeds)). e \<in> set (tp_edges t)
         \<and> te_source e \<in> tn_id ` set (tp_nodes (neighborhood_for h t seeds))
         \<and> te_target e \<in> tn_id ` set (tp_nodes (neighborhood_for h t seeds)))"
proof (intro conjI ballI impI)
  let ?ids = "map fst (resolve_seed_nodes (tp_nodes t) seeds)" and ?N = "tp_nodes (neighborhood_for h t seeds)"
  let ?st = "walk_from (graph_of h t) ?ids"
  note kept = walk_keep_in_neighborhood [OF _ assms, of _ h]
  show "fst ` set (resolve_seed_nodes (tp_nodes t) seeds) \<subseteq> tn_id ` set ?N"
    using kept walk_from_closed(1) [of ?ids "graph_of h t"] by auto
  fix n e
  assume n: "n \<in> set ?N" and e: "e \<in> set (tp_edges t)"
    and f: "tn_id n \<notin> set (st_leaf ?st) \<and> (te_source e = tn_id n \<or> te_target e = tn_id n)
      \<and> followed (graph_of h t) (tn_id n) e"
  have "next_id_of (tn_id n) e \<in> set (st_keep ?st)"
    using n e f by (intro walk_from_closed(2)) (auto simp: in_neighborhood in_edges_at_graph)
  then show "next_id_of (tn_id n) e \<in> tn_id ` set ?N" by (rule kept)
next
  fix e
  assume e: "e \<in> set (tp_edges (neighborhood_for h t seeds))"
  then have k: "e \<in> set (tp_edges t)"
    "te_source e \<in> set (st_keep (walk_from (graph_of h t) (map fst (resolve_seed_nodes (tp_nodes t) seeds))))"
    "te_target e \<in> set (st_keep (walk_from (graph_of h t) (map fst (resolve_seed_nodes (tp_nodes t) seeds))))"
    using assms by (auto simp: neighborhood_for_def Let_def edge_kept_def)
  note kept = walk_keep_in_neighborhood [OF _ assms, of _ h]
  from k kept show "e \<in> set (tp_edges t)" "te_source e \<in> tn_id ` set (tp_nodes (neighborhood_for h t seeds))"
    "te_target e \<in> tn_id ` set (tp_nodes (neighborhood_for h t seeds))" by blast+
qed


theorem neighborhood_closed_witness:
  "''a'' \<in> tn_id ` set (tp_nodes (neighborhood_for sample_host sample_topology [sample_seed\<lparr>sd_group := Some ''apps''\<rparr>]))"
proof -
  have "resolve_seed_nodes (tp_nodes sample_topology) [sample_seed\<lparr>sd_group := Some ''apps''\<rparr>] \<noteq> []"
    using sample_resolved by force
  from neighborhood_closed [OF this, THEN conjunct1, of sample_host] sample_resolved show ?thesis
    by (simp flip: set_map)
qed

lemma add_latest_newest:
  assumes "sorted_wrt (\<lambda>a b. c a b \<le> 0) by_time" and "\<And>y. c y y \<le> (0::int)" and "set sel \<subseteq> set by_time"
    and "\<forall>x \<in> set by_time. \<forall>y \<in> set by_time. tn_id x = tn_id y \<longrightarrow> x = y"
    and "x \<in> set by_time" and "run_disposition_of x = d"
  shows "\<exists>y \<in> set (add_latest by_time d sel). run_disposition_of y = d \<and> c y x \<le> 0"
proof -
  have "List.find (\<lambda>n. run_disposition_of n = d) by_time \<noteq> None"
    using assms(5,6) by (auto simp: find_none_iff)
  then obtain y where y: "List.find (\<lambda>n. run_disposition_of n = d) by_time = Some y" by blast
  have "y \<in> set (add_latest by_time d sel)" by (rule add_latest_has [OF y assms(3,4)])
  moreover have "c y x \<le> 0"
    by (rule find_first_sorted [OF y, where R = "\<lambda>a b. c a b \<le> 0"]) (use assms in simp_all)
  ultimately show ?thesis using find_some_in [OF y] by blast
qed

text \<open>
  The runs that stand for a long history: at most ten, all of them real runs and at least one
  when there is any; every active run while there are at most eight; and, of the failed and of the
  succeeded runs, the newest.
\<close>

theorem representative_runs_bounds:
  assumes "js_comparator (h_locale_compare h)"
    and "\<forall>x \<in> set ts. \<forall>y \<in> set ts. tn_id x = tn_id y \<longrightarrow> x = y"
  shows "length (representative_runs h ts) \<le> 10 \<and> set (representative_runs h ts) \<subseteq> set ts
    \<and> (ts \<noteq> [] \<longrightarrow> representative_runs h ts \<noteq> [])
    \<and> (length (filter (\<lambda>n. run_disposition_of n = RunActive) ts) \<le> 8 \<longrightarrow>
         (\<forall>x \<in> set ts. run_disposition_of x = RunActive \<longrightarrow> x \<in> set (representative_runs h ts)))
    \<and> (\<forall>x \<in> set ts. run_disposition_of x \<in> {RunFailed, RunSucceeded} \<longrightarrow>
         (\<exists>y \<in> set (representative_runs h ts). run_disposition_of y = run_disposition_of x
            \<and> compare_runs_newest_first h y x \<le> 0))"
proof -
  let ?c = "compare_runs_newest_first h"
  have cmp: "js_comparator ?c" by (rule compare_runs_comparator [OF assms(1)])
  define by_time where "by_time = js_sort ?c ts"
  have sorted: "sorted_wrt (\<lambda>a b. ?c a b \<le> 0) by_time"
    unfolding by_time_def by (rule js_comparator.sorted_js_sort [OF cmp])
  define act where "act = filter (\<lambda>n. run_disposition_of n = RunActive) by_time"
  define one where "one = add_latest by_time RunFailed (shown_active act)"
  define sel where "sel = add_latest by_time RunSucceeded one"
  have sel: "representative_runs h ts = (if sel = [] then take 1 by_time else sel)"
    by (simp add: representative_runs_def Let_def by_time_def act_def one_def sel_def)
  have by_time_set: "set by_time = set ts" by (simp add: by_time_def)
  have act_len: "length act = length (filter (\<lambda>n. run_disposition_of n = RunActive) ts)"
    unfolding act_def by_time_def by (metis mset_filter mset_js_sort size_mset)
  have within1: "set one \<subseteq> set by_time"
    unfolding one_def using shown_active_facts(1) [of act] by (intro add_latest_within) (auto simp: act_def)
  then have within: "set sel \<subseteq> set by_time" unfolding sel_def by (rule add_latest_within)
  have len: "length sel \<le> 10"
    using length_add_latest [of by_time RunSucceeded one] length_add_latest [of by_time RunFailed "shown_active act"]
      shown_active_facts(2) [of act] by (simp add: sel_def one_def)
  have grow: "set (shown_active act) \<subseteq> set sel" "set one \<subseteq> set sel"
    unfolding sel_def one_def using add_latest_grows by blast+
  have active: "x \<in> set (representative_runs h ts)"
    if "length act \<le> 8" "x \<in> set ts" "run_disposition_of x = RunActive" for x
  proof -
    have "x \<in> set act" using that(2,3) by_time_set by (simp add: act_def)
    then have "x \<in> set sel" using grow(1) shown_active_facts(3) [OF that(1)] by auto
    then show ?thesis unfolding sel by auto
  qed
  have newest: "\<exists>y \<in> set sel. run_disposition_of y = d \<and> ?c y x \<le> 0"
    if x: "x \<in> set ts" "run_disposition_of x = d" and d: "d = RunFailed \<or> d = RunSucceeded" for x d
  proof -
    have uniq: "\<forall>x \<in> set by_time. \<forall>y \<in> set by_time. tn_id x = tn_id y \<longrightarrow> x = y"
      using assms(2) by_time_set by simp
    note added = add_latest_newest [OF sorted js_comparator.cmp_refl [OF cmp] _ uniq, where x = x and d = d]
    have "set (shown_active act) \<subseteq> set by_time" using shown_active_facts(1) [of act] by (auto simp: act_def)
    from d added [OF this] added [OF within1] x by_time_set grow(2) show ?thesis
      by (auto simp: sel_def one_def)
  qed
  have sub: "set sel \<subseteq> set (representative_runs h ts)" unfolding sel by auto
  show ?thesis
  proof (intro conjI)
    show "length (representative_runs h ts) \<le> 10" unfolding sel using len by (cases "sel = []") (auto simp: min_def)
    show "set (representative_runs h ts) \<subseteq> set ts"
      unfolding sel using within by_time_set by (auto dest: in_set_takeD)
    show "ts \<noteq> [] \<longrightarrow> representative_runs h ts \<noteq> []"
    proof
      assume "ts \<noteq> []"
      then have "by_time \<noteq> []" using by_time_set by (metis set_empty)
      then show "representative_runs h ts \<noteq> []" unfolding sel by (simp add: take_Suc)
    qed
    show "length (filter (\<lambda>n. run_disposition_of n = RunActive) ts) \<le> 8 \<longrightarrow>
         (\<forall>x \<in> set ts. run_disposition_of x = RunActive \<longrightarrow> x \<in> set (representative_runs h ts))"
      using active act_len by metis
    show "\<forall>x \<in> set ts. run_disposition_of x \<in> {RunFailed, RunSucceeded} \<longrightarrow>
         (\<exists>y \<in> set (representative_runs h ts). run_disposition_of y = run_disposition_of x \<and> ?c y x \<le> 0)"
      using newest sub by blast
  qed
qed

theorem representative_runs_bounds_witness:
  "length (representative_runs sample_host [sample_topology_node ''a'' ''Job'', sample_topology_node ''b'' ''Job'']) \<le> 10"
proof (rule representative_runs_bounds [THEN conjunct1])
  show "js_comparator (h_locale_compare sample_host)" by unfold_locales (simp_all add: sample_host_def)
qed (simp add: sample_topology_node_def)


text \<open>
  Colours claim only what is exclusive: in the tagged neighborhood a node that has an owner is
  focused by that workload alone and has its colour; a node without one has no colour; and the
  colours number the distinct workloads from zero, so that two workloads never share one.
\<close>

theorem ownership_is_exclusive:
  assumes "n \<in> set (tp_nodes (fst (tag_workload_ownership h t seeds)))"
  shows "(case os_owner_workload_id (ownership_of (tn_data n)) of
        Some k \<Rightarrow> k \<in> workload_key ` set seeds \<and> os_focus_workload_ids (ownership_of (tn_data n)) = [k]
          \<and> (\<exists>c. map_of (snd (tag_workload_ownership h t seeds)) k = Some c
               \<and> os_owner_color_index (ownership_of (tn_data n)) = Some (int c))
      | None \<Rightarrow> os_owner_color_index (ownership_of (tn_data n)) = None)
    \<and> distinct (map fst (snd (tag_workload_ownership h t seeds)))
    \<and> map snd (snd (tag_workload_ownership h t seeds)) = [0..<length (snd (tag_workload_ownership h t seeds))]"
proof -
  let ?sub = "neighborhood_for h t seeds"
  let ?ix = "nodes_by_id (tp_nodes ?sub)" and ?colors = "color_by_workload seeds"
  let ?own = "core_owners ?ix (tp_edges ?sub) (seed_key_by_id (tp_nodes ?sub) seeds)"
  let ?nb = "neighbors_of (tp_edges ?sub)"
  from assms obtain m where n: "n = stamp_node (ownership_stamp_of ?ix ?nb ?own ?colors m) m"
    by (auto simp: tag_workload_ownership_def Let_def)
  have colors: "snd (tag_workload_ownership h t seeds) = ?colors"
    by (simp add: tag_workload_ownership_def Let_def)
  have key: "k \<in> workload_key ` set seeds" if "map_of ?own i = Some k" for i k
    using core_owner_values [OF that] seed_keys_are_workload_keys by blast
  have coloured: "\<exists>c. map_of ?colors k = Some c" if "k \<in> workload_key ` set seeds" for k
    using that color_by_workload_ok [of seeds] by (metis map_of_eq_None_iff option.exhaust)
  have owner: "k \<in> workload_key ` set seeds \<and> k \<noteq> [] \<and> os_focus_workload_ids (ownership_stamp_of ?ix ?nb ?own ?colors m) = [k]"
    if "os_owner_workload_id (ownership_stamp_of ?ix ?nb ?own ?colors m) = Some k" for k
    using that ownership_stamp_owner key by blast
  show ?thesis
    unfolding colors n ownership_of_stamp
    using owner coloured color_by_workload_ok [of seeds]
    by (auto simp: ownership_stamp_color split: option.split)
qed

theorem ownership_is_exclusive_witness:
  "distinct (map fst (snd (tag_workload_ownership sample_host sample_topology [sample_seed\<lparr>sd_group := Some ''apps''\<rparr>])))
   \<and> tp_nodes (fst (tag_workload_ownership sample_host sample_topology [sample_seed\<lparr>sd_group := Some ''apps''\<rparr>])) \<noteq> []"
proof -
  let ?ns = "tp_nodes (fst (tag_workload_ownership sample_host sample_topology [sample_seed\<lparr>sd_group := Some ''apps''\<rparr>]))"
  have "map tn_id ?ns = [''a'', ''c'']" by code_simp
  then have "?ns \<noteq> []" by force
  then have "hd ?ns \<in> set ?ns" by (rule hd_in_set)
  from ownership_is_exclusive [OF this] \<open>?ns \<noteq> []\<close> show ?thesis by blast
qed

end
