(* ===== verification/Cnpg_Operations.thy ===== *)
theory Cnpg_Operations
  imports Radar_Prelude
begin

text \<open>
  Following a CloudNativePG action after the server accepted it
  (\<open>web/src/components/cnpg/operations/model.ts\<close>): the tracked operation, the observation it is
  judged against, the freshness rule, one observer per kind of action and the step that advances
  an operation. The types of the two API reads (\<open>web/src/api/cnpg.ts\<close>,
  \<open>components/cnpg/ha.ts\<close>) hold the fields the observers read; \<open>formatGrant\<close> is from
  \<open>utils/grant.ts\<close>.

  The registry of observers is an association list passed to the step. \<open>Date.parse\<close> is the
  parameter \<open>date_parse\<close>; times are epoch milliseconds.
\<close>

section \<open>Grants\<close>

record rbac_grant =
  gr_verb :: string
  gr_group :: "string option"
  gr_resource :: string
  gr_subresource :: "string option"
  gr_namespace :: "string option"

definition grant_resource :: "rbac_grant \<Rightarrow> string" where
  "grant_resource g = (if truthy_str (gr_subresource g)
     then gr_resource g @ ''/'' @ coalesce (gr_subresource g) [] else gr_resource g)"

definition grant_parts :: "rbac_grant \<Rightarrow> string \<times> string" where
  "grant_parts g =
     (if truthy_str (gr_namespace g)
      then (gr_verb g @ '' '' @ grant_resource g
              @ str_if (truthy_str (gr_group g)) ('' ('' @ coalesce (gr_group g) [] @ '')''),
            '' in namespace '' @ coalesce (gr_namespace g) [])
      else (gr_verb g @ '' '' @ gr_resource g @ str_if (truthy_str (gr_group g)) (''.'' @ coalesce (gr_group g) [])
              @ str_if (truthy_str (gr_subresource g)) (''/'' @ coalesce (gr_subresource g) []),
            '' cluster-wide''))"

definition format_grant :: "rbac_grant \<Rightarrow> string" where
  "format_grant g = fst (grant_parts g) @ snd (grant_parts g)"

section \<open>What an observer reads\<close>

datatype ha_source_state = HaOk | HaDenied | HaNotFound | HaNotInstalled | HaUnavailable | HaError

record cnpg_ha_instance =
  hi_pod :: string
  hi_pod_uid :: string
  hi_ready :: bool
  hi_pod_created_at :: "string option"
  hi_postgres_started_at :: "string option"

record cnpg_rw_endpoints =
  rw_state :: ha_source_state
  rw_reason :: "string option"
  rw_grant :: "rbac_grant option"
  rw_pods :: "string list"

record cnpg_cluster_ha =
  ha_instances :: "cnpg_ha_instance list"
  ha_pods_state :: ha_source_state
  ha_rw_endpoints :: cnpg_rw_endpoints
  ha_maintenance_in_progress :: bool

record cnpg_instance_fact =
  if_pod :: string
  if_pod_uid :: string
  if_ready :: bool
  if_pod_readable :: bool

record cnpg_cluster_facts =
  cf_current_primary :: "string option"
  cf_target_primary :: "string option"
  cf_phase :: "string option"
  cf_phase_reason :: "string option"
  cf_fenced_all :: bool
  cf_fenced_instances :: "string list"
  cf_instances :: "cnpg_instance_fact list"
  cf_maintenance_in_progress :: bool

datatype runtime_source_state = RsOk | RsDenied | RsUnreachable | RsError | RsPartial

datatype runtime_role = InstPrimary | InstReplica | InstUnknown

record cnpg_runtime_replication =
  rr_application_name :: string
  rr_state :: "string option"

record cnpg_runtime_instance =
  ri_pod :: string
  ri_role :: runtime_role
  ri_status_state :: runtime_source_state
  ri_role_detail :: "string option"
  ri_replication :: "cnpg_runtime_replication list option"
  ri_postmaster_start_time :: "int option"

record cnpg_runtime_response =
  rt_proxy_denied :: bool
  rt_instances :: "cnpg_runtime_instance list"

section \<open>Operations and observations\<close>

datatype cnpg_op_state =
  OpRequested | OpObserved | OpProgressing | OpCompleted | OpFailed | OpStalled | OpSuperseded | OpUnobservable

definition cnpg_op_terminal :: "cnpg_op_state \<Rightarrow> bool" where
  "cnpg_op_terminal s \<longleftrightarrow> s \<in> {OpCompleted, OpFailed, OpSuperseded}"

record cnpg_op_step =
  sp_label :: string
  sp_done :: "bool option"

record cnpg_op_target =
  tg_name :: string
  tg_uid :: "string option"

record cnpg_op_link =
  lk_kind :: string
  lk_group :: string
  lk_name :: string

record cnpg_tracked_operation =
  op_id :: string
  op_kind :: string
  op_label :: string
  op_api_base :: string
  op_context :: string
  op_namespace :: string
  op_cluster :: string
  op_cluster_uid :: "string option"
  op_target :: "cnpg_op_target option"
  op_started_at :: int
  op_baseline :: json_record
  op_state :: cnpg_op_state
  op_detail :: "string option"
  op_steps :: "cnpg_op_step list option"
  op_last_progress_at :: int
  op_last_checked_at :: "int option"
  op_progress_key :: "string option"
  op_link :: "cnpg_op_link option"
  op_finished_at :: "int option"

datatype cnpg_observed_source = SrcClusterUID | SrcFacts | SrcCluster | SrcHa | SrcRuntime | SrcBackups

record source_freshness =
  fr_updated_at :: int
  fr_failed :: bool
  fr_cluster_uid :: "string option"

record cnpg_observation =
  ob_now :: int
  ob_cluster_uid :: "string option"
  ob_identity_pending :: "bool option"
  ob_identity_read_failed :: "bool option"
  ob_facts :: "cnpg_cluster_facts option"
  ob_cluster :: "json option"
  ob_ha :: "cnpg_cluster_ha option"
  ob_runtime :: "cnpg_runtime_response option"
  ob_backups :: "json list option"
  ob_freshness :: "(cnpg_observed_source \<times> source_freshness) list option"

definition cnpg_observed_sources :: "cnpg_observed_source list" where
  "cnpg_observed_sources = [SrcClusterUID, SrcFacts, SrcCluster, SrcHa, SrcRuntime, SrcBackups]"

fun clear_source :: "cnpg_observed_source \<Rightarrow> cnpg_observation \<Rightarrow> cnpg_observation" where
  \<comment> \<open>\<open>out[source] = undefined\<close>\<close>
  "clear_source SrcClusterUID obs = obs\<lparr>ob_cluster_uid := None\<rparr>"
| "clear_source SrcFacts obs = obs\<lparr>ob_facts := None\<rparr>"
| "clear_source SrcCluster obs = obs\<lparr>ob_cluster := None\<rparr>"
| "clear_source SrcHa obs = obs\<lparr>ob_ha := None\<rparr>"
| "clear_source SrcRuntime obs = obs\<lparr>ob_runtime := None\<rparr>"
| "clear_source SrcBackups obs = obs\<lparr>ob_backups := None\<rparr>"

definition freshness_of :: "cnpg_observation \<Rightarrow> cnpg_observed_source \<Rightarrow> source_freshness option" where
  "freshness_of obs source = map_of (coalesce (ob_freshness obs) []) source"

definition source_stale :: "cnpg_tracked_operation \<Rightarrow> cnpg_observation \<Rightarrow> cnpg_observed_source \<Rightarrow> bool" where
  "source_stale op obs source =
     (case freshness_of obs source of
        None \<Rightarrow> True
      | Some f \<Rightarrow> fr_failed f \<or> fr_updated_at f < op_started_at op
          \<or> truthy_str (op_cluster_uid op) \<and> source \<noteq> SrcClusterUID \<and> source \<noteq> SrcBackups
            \<and> fr_cluster_uid f \<noteq> op_cluster_uid op)"

definition fresh_observation :: "cnpg_tracked_operation \<Rightarrow> cnpg_observation \<Rightarrow> cnpg_observation" where
  "fresh_observation op obs =
     fold (\<lambda>source out. if source_stale op obs source then clear_source source out else out)
       cnpg_observed_sources obs"

record cnpg_observer_result =
  or_state :: cnpg_op_state
  or_detail :: "string option"
  or_steps :: "cnpg_op_step list option"
  or_progress_key :: "string option"
  or_final :: bool

type_synonym cnpg_operation_observer = "cnpg_tracked_operation \<Rightarrow> cnpg_observation \<Rightarrow> cnpg_observer_result"

type_synonym observer_registry = "(string \<times> cnpg_operation_observer) list"

definition register_cnpg_operation_observer ::
  "string \<Rightarrow> cnpg_operation_observer \<Rightarrow> observer_registry \<Rightarrow> observer_registry" where
  "register_cnpg_operation_observer kind observer observers = AList.update kind observer observers"

definition cnpg_op_stall_ms :: int where "cnpg_op_stall_ms = 10 * 60000"

definition cnpg_op_unobservable_ms :: int where "cnpg_op_unobservable_ms = 15 * 60000"

definition cnpg_op_first_read_ms :: int where "cnpg_op_first_read_ms = 20000"

definition cnpg_operation_followed :: "cnpg_tracked_operation \<Rightarrow> bool" where
  "cnpg_operation_followed op \<longleftrightarrow> \<not> cnpg_op_terminal (op_state op) \<and> \<not> truthy_num (op_finished_at op)"

section \<open>The step\<close>

definition result_of :: "cnpg_op_state \<Rightarrow> string option \<Rightarrow> cnpg_observer_result" where
  \<comment> \<open>\<open>{ state, detail }\<close>\<close>
  "result_of s d = \<lparr>or_state = s, or_detail = d, or_steps = None, or_progress_key = None, or_final = False\<rparr>"

definition identity_step :: "cnpg_tracked_operation \<Rightarrow> cnpg_observation \<Rightarrow> cnpg_tracked_operation" where
  \<comment> \<open>the Cluster identity of the operation is known but was not read afresh\<close>
  "identity_step op obs =
     (let identity = freshness_of obs SrcClusterUID;
          expired = ob_now obs - op_started_at op > cnpg_op_unobservable_ms;
          unread = (case identity of None \<Rightarrow> True | Some f \<Rightarrow> fr_updated_at f < op_started_at op);
          failed = (case identity of None \<Rightarrow> False | Some f \<Rightarrow> fr_failed f)
            \<or> unread \<and> truthy_bool (ob_identity_read_failed obs)
      in if \<not> expired \<and> \<not> failed \<and> unread
         then op\<lparr>op_state := OpRequested, op_detail := Some ''Waiting for the first read since the request''\<rparr>
         else op\<lparr>op_state := OpUnobservable,
                 op_detail := Some ''The Cluster identity has not been verified since this operation was requested'',
                 op_finished_at := (if \<not> truthy_bool (ob_identity_pending obs) \<and> expired
                   then Some (ob_now obs) else None)\<rparr>)"

definition any_source_failed :: "cnpg_observation \<Rightarrow> bool" where
  "any_source_failed obs \<longleftrightarrow> list_ex (\<lambda>(s, f). fr_failed f) (coalesce (ob_freshness obs) [])"

definition stall_detail :: "int \<Rightarrow> string option \<Rightarrow> string" where
  "stall_detail idle detail = ''No progress for '' @ show_int ((idle + 30000) div 60000) @ '' min''
     @ str_if (truthy_str detail) ('' '' @ bytes_middot @ '' '' @ coalesce detail [])"

definition judge ::
  "cnpg_tracked_operation \<Rightarrow> cnpg_observation \<Rightarrow> cnpg_observer_result \<Rightarrow> cnpg_op_state \<times> string option \<times> int" where
  \<comment> \<open>the state, the detail and \<open>lastProgressAt\<close> from the observer's result\<close>
  "judge op obs res =
     (let moved = or_progress_key res \<noteq> None \<and> or_progress_key res \<noteq> op_progress_key op;
          last_progress_at = (if moved then ob_now obs else op_last_progress_at op);
          waiting = or_state res = OpUnobservable \<and> \<not> or_final res
            \<and> ob_now obs - op_started_at op < cnpg_op_first_read_ms \<and> \<not> any_source_failed obs;
          state1 = (if waiting then OpRequested else or_state res);
          detail1 = (if waiting then Some ''Waiting for the first read since the request'' else or_detail res);
          stalled = state1 \<in> {OpProgressing, OpObserved, OpRequested} \<and> or_progress_key res \<noteq> None
            \<and> ob_now obs - last_progress_at > cnpg_op_stall_ms
      in if stalled then (OpStalled, Some (stall_detail (ob_now obs - last_progress_at) (or_detail res)), last_progress_at)
         else (state1, detail1, last_progress_at))"

definition observe_step ::
  "cnpg_operation_observer \<Rightarrow> cnpg_tracked_operation \<Rightarrow> cnpg_observation \<Rightarrow> cnpg_tracked_operation" where
  "observe_step observer op obs =
     (let res = observer op (fresh_observation op obs);
          (state, detail, last_progress_at) = judge op obs res;
          given_up = state = OpUnobservable
            \<and> (or_final res \<or> ob_now obs - op_started_at op > cnpg_op_unobservable_ms)
      in op\<lparr>op_state := state, op_detail := detail,
            op_steps := coalesce_opt (or_steps res) (op_steps op),
            op_progress_key := coalesce_opt (or_progress_key res) (op_progress_key op),
            op_last_progress_at := last_progress_at,
            op_finished_at := (if cnpg_op_terminal state \<or> given_up then Some (ob_now obs) else None)\<rparr>)"

definition advance_cnpg_operation ::
  "observer_registry \<Rightarrow> cnpg_tracked_operation \<Rightarrow> cnpg_observation \<Rightarrow> cnpg_tracked_operation" where
  "advance_cnpg_operation observers op0 obs =
     (if cnpg_op_terminal (op_state op0) then op0
      else let op = op0\<lparr>op_last_checked_at := Some (ob_now obs)\<rparr>; current = fresh_observation op obs in
        if truthy_str (op_cluster_uid op) \<and> truthy_str (ob_cluster_uid current)
           \<and> ob_cluster_uid current \<noteq> op_cluster_uid op
        then op\<lparr>op_state := OpSuperseded,
                op_detail := Some ''The Cluster was deleted and recreated; this operation no longer applies to it'',
                op_finished_at := Some (ob_now obs)\<rparr>
        else if truthy_str (op_cluster_uid op) \<and> \<not> truthy_str (ob_cluster_uid current)
        then identity_step op obs
        else (case map_of observers (op_kind op) of
                None \<Rightarrow> op\<lparr>op_state := OpUnobservable, op_detail := Some ''Radar has no way to follow this operation''\<rparr>
              | Some observer \<Rightarrow> observe_step observer op obs))"

section \<open>Conflicting operations\<close>

definition conflicts :: "(string \<times> string list) list" where
  "conflicts =
    [(''switchover'', [''switchover'', ''hibernate'', ''rehydrate'']),
     (''restart'', [''restart'', ''hibernate'', ''fence'']),
     (''restartInstance'', [''hibernate'', ''restart'', ''fence'']),
     (''fence'', [''fence'', ''unfence'', ''hibernate'']),
     (''unfence'', [''fence'', ''unfence'', ''hibernate'']),
     (''hibernate'', [''hibernate'', ''rehydrate'']),
     (''rehydrate'', [''hibernate'', ''rehydrate'']),
     (''setMaintenance'', [''setMaintenance'', ''unsetMaintenance'']),
     (''unsetMaintenance'', [''setMaintenance'', ''unsetMaintenance''])]"

definition fenced_by :: "cnpg_tracked_operation \<Rightarrow> string option \<Rightarrow> bool" where
  "fenced_by fence pod \<longleftrightarrow>
     truthy_str pod \<and> coalesce pod [] \<in> set (json_string_array (map_of (op_baseline fence) ''instances''))"

definition supersede_for :: "cnpg_tracked_operation list \<Rightarrow> cnpg_tracked_operation \<Rightarrow> cnpg_tracked_operation list" where
  "supersede_for existing nxt = map (\<lambda>op.
     if cnpg_op_terminal (op_state op) then op
     else if op_api_base op \<noteq> op_api_base nxt \<or> op_context op \<noteq> op_context nxt
       \<or> op_namespace op \<noteq> op_namespace nxt \<or> op_cluster op \<noteq> op_cluster nxt then op
     else if op_kind nxt \<notin> set (coalesce (map_of conflicts (op_kind op)) []) then op
     else if op_kind op = ''restartInstance'' \<and> op_kind nxt = ''fence''
       \<and> \<not> fenced_by nxt (map_option tg_name (op_target op)) then op
     else op\<lparr>op_state := OpSuperseded, op_detail := Some (''Superseded by '' @ op_label nxt),
             op_finished_at := Some (op_started_at nxt)\<rparr>) existing"

section \<open>Evidence\<close>

definition ha_instance :: "cnpg_observation \<Rightarrow> string \<Rightarrow> cnpg_ha_instance option" where
  "ha_instance obs pod =
     (case ob_ha obs of
        None \<Rightarrow> None
      | Some ha \<Rightarrow> if ha_pods_state ha = HaOk then List.find (\<lambda>i. hi_pod i = pod) (ha_instances ha) else None)"

definition pods_readable :: "cnpg_observation \<Rightarrow> bool" where
  "pods_readable obs = (case ob_ha obs of None \<Rightarrow> False | Some ha \<Rightarrow> ha_pods_state ha = HaOk)"

definition runtime_instance :: "cnpg_observation \<Rightarrow> string \<Rightarrow> cnpg_runtime_instance option" where
  "runtime_instance obs pod =
     (case ob_runtime obs of None \<Rightarrow> None | Some rt \<Rightarrow> List.find (\<lambda>i. ri_pod i = pod) (rt_instances rt))"

definition parsed_after :: "(string \<Rightarrow> int option) \<Rightarrow> string option \<Rightarrow> int \<Rightarrow> bool" where
  \<comment> \<open>\<open>t && Date.parse(t) > since\<close>; a comparison with \<open>NaN\<close> is false\<close>
  "parsed_after date_parse t since \<longleftrightarrow>
     truthy_str t \<and> (case date_parse (coalesce t []) of None \<Rightarrow> False | Some ms \<Rightarrow> ms > since)"

definition restarted_since ::
  "(string \<Rightarrow> int option) \<Rightarrow> cnpg_observation \<Rightarrow> string \<Rightarrow> int \<Rightarrow> string option \<Rightarrow> bool option" where
  "restarted_since date_parse obs pod since baseline_uid =
     (let h = ha_instance obs pod;
          seen = (case h of
              None \<Rightarrow> False
            | Some i \<Rightarrow> truthy_str baseline_uid \<and> Some (hi_pod_uid i) \<noteq> baseline_uid
                \<or> parsed_after date_parse (hi_pod_created_at i) since
                \<or> parsed_after date_parse (hi_postgres_started_at i) since);
          known = (h \<noteq> None \<or> pods_readable obs);
          pm = Option.bind (runtime_instance obs pod) ri_postmaster_start_time
      in if seen then Some True
         else (case pm of
                 Some t \<Rightarrow> Some (t * 1000 > since)
               | None \<Rightarrow> if known then Some False else None))"

definition ready_now :: "cnpg_observation \<Rightarrow> string \<Rightarrow> bool option" where
  "ready_now obs pod =
     (case ha_instance obs pod of
        Some h \<Rightarrow> Some (hi_ready h)
      | None \<Rightarrow>
          (case Option.bind (ob_facts obs) (\<lambda>f. List.find (\<lambda>i. if_pod i = pod) (cf_instances f)) of
             Some f \<Rightarrow> if if_pod_readable f then Some (if_ready f) else None
           | None \<Rightarrow> None))"

definition status_read :: "cnpg_runtime_instance \<Rightarrow> bool" where
  "status_read i \<longleftrightarrow> ri_status_state i = RsOk \<or> ri_status_state i = RsPartial"

definition primary_instance :: "cnpg_observation \<Rightarrow> cnpg_runtime_response \<Rightarrow> cnpg_runtime_instance option" where
  "primary_instance obs rt =
     (let primary_name = Option.bind (ob_facts obs) cf_current_primary
      in List.find (\<lambda>i. if truthy_str primary_name then Some (ri_pod i) = primary_name else ri_role i = InstPrimary)
           (rt_instances rt))"

definition streaming_standby :: "cnpg_observation \<Rightarrow> string \<Rightarrow> bool option" where
  "streaming_standby obs pod =
     (case ob_runtime obs of
        None \<Rightarrow> None
      | Some rt \<Rightarrow>
          if rt_proxy_denied rt then None
          else let own = runtime_instance obs pod;
                   own_denied = (case own of None \<Rightarrow> False | Some i \<Rightarrow> ri_status_state i = RsDenied)
               in if (case own of None \<Rightarrow> False | Some i \<Rightarrow> status_read i \<and> truthy_str (ri_role_detail i))
                  then Some (Option.bind own ri_role_detail = Some ''streaming'')
                  else (case primary_instance obs rt of
                          Some p \<Rightarrow>
                            if status_read p
                            then map_option (list_ex (\<lambda>r. rr_application_name r = pod \<and> rr_state r = Some ''streaming''))
                                   (ri_replication p)
                            else if own_denied then None else Some False
                        | None \<Rightarrow> if own_denied then None else Some False))"

definition cluster_condition :: "json option \<Rightarrow> string \<Rightarrow> json option" where
  "cluster_condition cluster ty =
     (case json_get (json_get cluster ''status'') ''conditions'' of
        Some (JArr cs) \<Rightarrow> List.find (\<lambda>c. json_get (Some c) ''type'' = Some (JStr ty)) cs
      | _ \<Rightarrow> None)"

definition count_done :: "bool option \<Rightarrow> cnpg_op_step list \<Rightarrow> nat" where
  "count_done d steps = length (filter (\<lambda>s. sp_done s = d) steps)"

definition summarize_steps :: "cnpg_op_step list \<Rightarrow> cnpg_op_state" where
  "summarize_steps steps =
     (let completed = count_done (Some True) steps; pending = count_done (Some False) steps in
      if completed = length steps then OpCompleted
      else if pending > 0 then (if completed > 0 then OpProgressing else OpRequested)
      else OpUnobservable)"

definition steps_key :: "cnpg_op_step list \<Rightarrow> string \<Rightarrow> string" where
  "steps_key steps extra = concat (map (\<lambda>s. if sp_done s = Some True then ''1''
     else if sp_done s = Some False then ''0'' else ''?'') steps) @ extra"

section \<open>Observers\<close>

definition healthy_phase :: string where
  "healthy_phase = ''Cluster in healthy state''"

definition unreadable_cluster :: cnpg_observer_result where
  "unreadable_cluster = result_of OpUnobservable (Some ''The Cluster is not readable'')"

definition phase_detail :: "cnpg_cluster_facts \<Rightarrow> string option" where
  \<comment> \<open>the phase and its reason while the Cluster is not healthy\<close>
  "phase_detail f =
     (if truthy_str (cf_phase f) \<and> cf_phase f \<noteq> Some healthy_phase
      then Some (coalesce (cf_phase f) [] @ str_if (truthy_str (cf_phase_reason f)) ('': '' @ coalesce (cf_phase_reason f) []))
      else None)"

definition target_name :: "cnpg_tracked_operation \<Rightarrow> string" where
  "target_name op = coalesce (map_option tg_name (op_target op)) []"

definition old_primary_of :: "cnpg_tracked_operation \<Rightarrow> string" where
  "old_primary_of op = js_string (json_coalesce (map_of (op_baseline op) ''currentPrimary'') (JStr []))"

definition rw_points_at :: "cnpg_observation \<Rightarrow> string \<Rightarrow> string \<Rightarrow> bool option" where
  \<comment> \<open>the read-write Service selects the target and no longer the old primary; \<open>None\<close> unless readable\<close>
  "rw_points_at obs target old_primary =
     (case map_option ha_rw_endpoints (ob_ha obs) of
        None \<Rightarrow> None
      | Some rw \<Rightarrow> if rw_state rw = HaOk
                  then Some (target \<in> set (rw_pods rw) \<and> old_primary \<notin> set (rw_pods rw)) else None)"

definition switchover_steps ::
  "cnpg_tracked_operation \<Rightarrow> cnpg_observation \<Rightarrow> cnpg_cluster_facts \<Rightarrow> cnpg_op_step list" where
  "switchover_steps op obs f =
     (let target = target_name op; old_primary = old_primary_of op;
          promoted = (cf_current_primary f = Some target);
          requested = promoted \<or> cf_target_primary f = Some target;
          rejoined = (if promoted then streaming_standby obs old_primary else Some False);
          rw = rw_points_at obs target old_primary
      in [\<lparr>sp_label = ''Operator accepted '' @ target @ '' as target'', sp_done = Some requested\<rparr>,
          \<lparr>sp_label = target @ '' is the primary'', sp_done = Some promoted\<rparr>,
          \<lparr>sp_label = old_primary @ '' is back as a streaming standby'', sp_done = rejoined\<rparr>,
          \<lparr>sp_label = ''Read-write Service points at '' @ target @ str_if (rw = None) '' (endpoints not readable)'',
           sp_done = map_option (\<lambda>ok. promoted \<and> ok) rw\<rparr>,
          \<lparr>sp_label = ''Cluster reports a healthy state again'',
           sp_done = Some (promoted \<and> cf_phase f = Some healthy_phase)\<rparr>])"

definition rw_unverified :: "cnpg_observation \<Rightarrow> string" where
  "rw_unverified obs = ''the read-write Service is unverified'' @
     (case map_option ha_rw_endpoints (ob_ha obs) of
        None \<Rightarrow> []
      | Some rw \<Rightarrow> (case rw_grant rw of
          Some g \<Rightarrow> '' (needs '' @ format_grant g @ '')''
        | None \<Rightarrow> str_if (truthy_str (rw_reason rw)) ('' ('' @ coalesce (rw_reason rw) [] @ '')'')))"

definition switchover_detail ::
  "cnpg_tracked_operation \<Rightarrow> cnpg_observation \<Rightarrow> cnpg_cluster_facts \<Rightarrow> string option" where
  "switchover_detail op obs f =
     (let target = target_name op; old_primary = old_primary_of op;
          promoted = (cf_current_primary f = Some target);
          readable = (rw_points_at obs target old_primary \<noteq> None)
      in if promoted \<and> streaming_standby obs old_primary = None
         then Some (''Primary changed; whether '' @ old_primary @ '' rejoined needs runtime access (get pods/proxy)''
                @ str_if (\<not> readable) (''; '' @ rw_unverified obs))
         else case phase_detail f of
                Some d \<Rightarrow> Some d
              | None \<Rightarrow> if \<not> readable \<and> promoted then Some (''Primary changed; '' @ rw_unverified obs) else None)"

definition observe_switchover :: cnpg_operation_observer where
  "observe_switchover op obs =
     (case ob_facts obs of
        None \<Rightarrow> unreadable_cluster
      | Some f \<Rightarrow>
          let target = target_name op; old_primary = old_primary_of op;
              promoted = (cf_current_primary f = Some target);
              requested = promoted \<or> cf_target_primary f = Some target;
              steps = switchover_steps op obs f
          in if truthy_str (cf_current_primary f) \<and> cf_current_primary f \<noteq> Some target
               \<and> cf_current_primary f \<noteq> Some old_primary
             then result_of OpFailed
               (Some (coalesce (cf_current_primary f) [] @ '' became primary instead of '' @ target))
             else if \<not> requested \<and> cf_target_primary f = Some old_primary \<and> cf_phase f = Some healthy_phase
               \<and> ob_now obs - op_started_at op > 60000
             then result_of OpFailed (Some (''The operator kept '' @ old_primary @ '' as primary''
               @ str_if (truthy_str (cf_phase_reason f)) ('': '' @ coalesce (cf_phase_reason f) [])))
             else \<lparr>or_state = (if requested \<and> \<not> promoted then OpObserved else summarize_steps steps),
                   or_detail = switchover_detail op obs f, or_steps = Some steps,
                   or_progress_key = Some (steps_key steps (coalesce (cf_phase f) [])), or_final = False\<rparr>)"

definition pod_uid_in_baseline :: "cnpg_tracked_operation \<Rightarrow> string \<Rightarrow> string option" where
  "pod_uid_in_baseline op p = json_str (json_get (map_of (op_baseline op) ''podUIDs'') p)"

definition restart_step ::
  "(string \<Rightarrow> int option) \<Rightarrow> cnpg_tracked_operation \<Rightarrow> cnpg_observation \<Rightarrow> string \<Rightarrow> cnpg_op_step" where
  "restart_step date_parse op obs p =
     (let restarted = restarted_since date_parse obs p (op_started_at op) (pod_uid_in_baseline op p)
      in \<lparr>sp_label = p @ '' restarted and ready'',
          sp_done = (case restarted of None \<Rightarrow> None | Some r \<Rightarrow> if r then ready_now obs p else Some False)\<rparr>)"

definition restart_observer ::
  "(string \<Rightarrow> int option) \<Rightarrow> (cnpg_tracked_operation \<Rightarrow> string list) \<Rightarrow> cnpg_operation_observer" where
  "restart_observer date_parse pods_of op obs =
     (let pods = pods_of op; steps = map (restart_step date_parse op obs) pods; state = summarize_steps steps in
      if pods = [] then result_of OpUnobservable (Some ''No instances to follow'')
      else \<lparr>or_state = state,
            or_detail = Some (if state = OpUnobservable
              then ''Restart or readiness evidence is not readable with your access''
              else show_nat (count_done (Some True) steps) @ '' of '' @ show_nat (length pods) @ '' restarted''
                @ (case Option.bind (ob_facts obs) cf_phase of
                     Some ph \<Rightarrow> str_if (ph \<noteq> [] \<and> ph \<noteq> healthy_phase) ('' '' @ bytes_middot @ '' '' @ ph) | None \<Rightarrow> [])),
            or_steps = Some steps, or_progress_key = Some (steps_key steps []), or_final = False\<rparr>)"

definition baseline_instances :: "cnpg_tracked_operation \<Rightarrow> string list" where
  "baseline_instances op = json_string_array (map_of (op_baseline op) ''instances'')"

definition restart_pods :: "cnpg_tracked_operation \<Rightarrow> string list" where
  "restart_pods op =
     (let fenced = json_string_array (map_of (op_baseline op) ''fenced'')
      in filter (\<lambda>p. p \<notin> set fenced) (baseline_instances op))"

definition restart_instance_pods :: "cnpg_tracked_operation \<Rightarrow> string list" where
  "restart_instance_pods op = (case op_target op of None \<Rightarrow> [] | Some t \<Rightarrow> [tg_name t])"

definition observe_destroy_instance :: cnpg_operation_observer where
  "observe_destroy_instance op obs =
     (case ob_facts obs of
        None \<Rightarrow> unreadable_cluster
      | Some f \<Rightarrow>
          let destroyed = target_name op; before = baseline_instances op;
              uid = Option.bind (op_target op) tg_uid;
              gone = \<not> list_ex (\<lambda>i. if_pod i = destroyed \<and> (\<not> truthy_str uid \<or> Some (if_pod_uid i) = uid)) (cf_instances f);
              replacement = List.find (\<lambda>i. if_pod i \<notin> set before) (cf_instances f);
              ready = (case replacement of None \<Rightarrow> Some False | Some r \<Rightarrow> ready_now obs (if_pod r));
              steps = [\<lparr>sp_label = destroyed @ '' removed'', sp_done = Some gone\<rparr>,
                \<lparr>sp_label = (case replacement of Some r \<Rightarrow> ''Replacement '' @ if_pod r @ '' ready''
                   | None \<Rightarrow> ''Operator created a replacement instance''), sp_done = ready\<rparr>,
                \<lparr>sp_label = (case replacement of Some r \<Rightarrow> if_pod r @ '' streaming from the primary''
                   | None \<Rightarrow> ''Replacement streaming from the primary''),
                 sp_done = (case replacement of
                     None \<Rightarrow> Some False
                   | Some r \<Rightarrow> (case ready of None \<Rightarrow> None
                       | Some b \<Rightarrow> if b then streaming_standby obs (if_pod r) else Some False))\<rparr>,
                \<lparr>sp_label = ''Cluster reports a healthy state again'',
                 sp_done = Some (gone \<and> replacement \<noteq> None \<and> cf_phase f = Some healthy_phase)\<rparr>]
          in \<lparr>or_state = summarize_steps steps, or_detail = phase_detail f, or_steps = Some steps,
              or_progress_key = Some (steps_key steps
                ((case replacement of Some r \<Rightarrow> if_pod r | None \<Rightarrow> []) @ coalesce (cf_phase f) [])),
              or_final = False\<rparr>)"

definition observe_reload :: cnpg_operation_observer where
  "observe_reload op obs = (result_of OpUnobservable (Some (''Requested. Nothing in the cluster reports when a ''
     @ ''configuration reload completes; check the instance logs for \"received SIGHUP\".'')))\<lparr>or_final := True\<rparr>"

definition fence_recorded :: "cnpg_observation \<Rightarrow> string \<Rightarrow> bool option" where
  "fence_recorded obs p = map_option (\<lambda>f. cf_fenced_all f \<or> p \<in> set (cf_fenced_instances f)) (ob_facts obs)"

definition fence_steps :: "cnpg_observation \<Rightarrow> string list \<Rightarrow> cnpg_op_step list" where
  "fence_steps obs pods = concat (map (\<lambda>p.
     [\<lparr>sp_label = p @ '': fence recorded on the Cluster'', sp_done = fence_recorded obs p\<rparr>,
      \<lparr>sp_label = p @ '': PostgreSQL stopped (CloudNativePG reports no signal for this)'', sp_done = None\<rparr>]) pods)"

definition even_positions :: "'a list \<Rightarrow> 'a list" where
  \<comment> \<open>\<open>xs.filter((_, i) => i % 2 === 0)\<close>\<close>
  "even_positions xs = map snd (filter (\<lambda>(i, x). even i) (zip [0..<length xs] xs))"

definition observe_fence :: cnpg_operation_observer where
  "observe_fence op obs =
     (let pods = baseline_instances op; steps = fence_steps obs pods;
          all_recorded = (pods \<noteq> [] \<and> list_all (\<lambda>p. fence_recorded obs p = Some True) pods)
      in \<lparr>or_state = (if all_recorded then OpUnobservable else summarize_steps (even_positions steps)),
          or_detail = Some (if all_recorded
            then ''Fence recorded. The operator stops PostgreSQL on a fenced instance, but nothing in the ''
              @ ''cluster confirms the shutdown; the instance logs show it.''
            else ''Waiting for the fence to be recorded on the Cluster''),
          or_steps = Some steps, or_progress_key = Some (steps_key steps []), or_final = all_recorded\<rparr>)"

definition unfence_steps :: "cnpg_observation \<Rightarrow> string list \<Rightarrow> cnpg_op_step list" where
  "unfence_steps obs pods =
     (let primary = Option.bind (ob_facts obs) cf_current_primary
      in concat (map (\<lambda>p. let ready = ready_now obs p in
           \<lparr>sp_label = p @ '': ready again'', sp_done = ready\<rparr> #
           (if Some p \<noteq> primary
            then [\<lparr>sp_label = p @ '': streaming from the primary'',
                   sp_done = (case ready of None \<Rightarrow> None | Some b \<Rightarrow> if b then streaming_standby obs p else Some False)\<rparr>]
            else [])) pods))"

definition observe_unfence :: cnpg_operation_observer where
  "observe_unfence op obs =
     (let steps = unfence_steps obs (baseline_instances op)
      in \<lparr>or_state = summarize_steps steps, or_detail = None, or_steps = Some steps,
          or_progress_key = Some (steps_key steps []), or_final = False\<rparr>)"

definition hibernation_condition :: "cnpg_observation \<Rightarrow> json option" where
  "hibernation_condition obs = cluster_condition (ob_cluster obs) ''cnpg.io/hibernation''"

definition observe_hibernate :: cnpg_operation_observer where
  "observe_hibernate op obs =
     (if \<not> json_truthy (ob_cluster obs) then unreadable_cluster
      else let c = hibernation_condition obs;
               steps = [\<lparr>sp_label = ''Hibernation condition true'',
                         sp_done = Some (json_get c ''status'' = Some (JStr ''True''))\<rparr>,
                        \<lparr>sp_label = ''Instance Pods removed'',
                         sp_done = (if pods_readable obs then map_option (\<lambda>ha. ha_instances ha = []) (ob_ha obs) else None)\<rparr>]
           in \<lparr>or_state = summarize_steps steps, or_detail = json_str (json_get c ''message''), or_steps = Some steps,
               or_progress_key = Some (steps_key steps (js_string (json_coalesce (json_get c ''reason'') (JStr [])))),
               or_final = False\<rparr>)"

fun collapse_first_double_space :: "string \<Rightarrow> string" where
  \<comment> \<open>\<open>s.replace('  ', ' ')\<close>\<close>
  "collapse_first_double_space (a # b # s) =
     (if a = CHR '' '' \<and> b = CHR '' '' then CHR '' '' # s else a # collapse_first_double_space (b # s))"
| "collapse_first_double_space s = s"

definition json_at_least :: "json \<Rightarrow> int \<Rightarrow> bool" where
  \<comment> \<open>\<open>v >= n\<close> for a number \<open>v\<close>\<close>
  "json_at_least v n = (case v of JNum m \<Rightarrow> m \<ge> n | _ \<Rightarrow> False)"

definition observe_rehydrate :: cnpg_operation_observer where
  "observe_rehydrate op obs =
     (if \<not> json_truthy (ob_cluster obs) then unreadable_cluster
      else let c = hibernation_condition obs;
               desired = json_get (json_get (ob_cluster obs) ''spec'') ''instances'';
               ready = json_coalesce (json_get (json_get (ob_cluster obs) ''status'') ''readyInstances'') (JNum 0);
               steps = [\<lparr>sp_label = ''Hibernation condition cleared'',
                         sp_done = Some (c = None \<or> json_get c ''status'' \<noteq> Some (JStr ''True''))\<rparr>,
                        \<lparr>sp_label = collapse_first_double_space
                           (''All '' @ js_string (json_coalesce desired (JStr [])) @ '' instances ready''),
                         sp_done = (case desired of Some (JNum n) \<Rightarrow> Some (json_at_least ready n) | _ \<Rightarrow> None)\<rparr>]
           in \<lparr>or_state = summarize_steps steps,
               or_detail = Some (js_string ready @ ''/'' @ js_string (json_coalesce desired (JStr ''?'')) @ '' ready''),
               or_steps = Some steps, or_progress_key = Some (steps_key steps (js_string ready)), or_final = False\<rparr>)"

definition observe_backup :: cnpg_operation_observer where
  "observe_backup op obs =
     (if \<not> truthy_str (op_cluster_uid op)
      then result_of OpUnobservable (Some ''The source Cluster identity was not recorded for this backup'')
      else if target_name op = [] then result_of OpUnobservable (Some ''No Backup name recorded'')
      else case ob_backups obs of
        None \<Rightarrow> result_of OpUnobservable (Some ''Backups are not readable with your access'')
      | Some backups \<Rightarrow>
          let name = target_name op;
              meta = (\<lambda>x. json_get (Some x) ''metadata'')
          in (case List.find (\<lambda>x. json_get (meta x) ''name'' = Some (JStr name)
                   \<and> json_get (meta x) ''namespace'' = Some (JStr (op_namespace op))) backups of
                None \<Rightarrow>
                  (if ob_now obs - op_started_at op > 60000
                   then (result_of OpUnobservable (Some (''Backup '' @ name
                           @ '' is not visible (deleted, or outside the backups Radar keeps)'')))\<lparr>or_progress_key := Some ''absent''\<rparr>
                   else (result_of OpRequested (Some (''Waiting for Backup '' @ name @ '' to appear'')))
                          \<lparr>or_progress_key := Some ''absent''\<rparr>)
              | Some b \<Rightarrow>
                  let status = json_get (Some b) ''status''; phase = json_get status ''phase'';
                      err = json_get status ''error''
                  in if phase = Some (JStr ''completed'')
                     then result_of OpCompleted (Some (''Backup '' @ name @ '' completed''))
                     else if phase = Some (JStr ''failed'') \<or> phase = Some (JStr ''walArchivingFailing'')
                     then result_of OpFailed (Some (''Backup '' @ name @ '' '' @ js_string (coalesce phase JNull)
                            @ str_if (json_truthy err) ('': '' @ js_string (coalesce err JNull))))
                     else if phase = None \<or> phase = Some (JStr [])
                     then (result_of OpObserved (Some (''Backup '' @ name
                            @ '' created; the operator has not picked it up yet'')))\<lparr>or_progress_key := Some ''new''\<rparr>
                     else result_of OpProgressing (Some (''Backup '' @ name @ '': '' @ js_string (coalesce phase JNull)))))"

definition maintenance_observer :: "bool \<Rightarrow> cnpg_operation_observer" where
  "maintenance_observer want op obs =
     (case coalesce_opt (map_option cf_maintenance_in_progress (ob_facts obs))
             (map_option ha_maintenance_in_progress (ob_ha obs)) of
        None \<Rightarrow> unreadable_cluster
      | Some in_progress \<Rightarrow>
          if in_progress = want
          then result_of OpCompleted (Some (if want then ''Maintenance window is in progress'' else ''Maintenance window lifted''))
          else (result_of OpRequested (Some ''Waiting for the Cluster spec to reflect it''))
                 \<lparr>or_progress_key := Some (if in_progress then ''true'' else ''false'')\<rparr>)"

definition builtin_observers :: "(string \<Rightarrow> int option) \<Rightarrow> observer_registry" where
  "builtin_observers date_parse =
     fold (\<lambda>(kind, observer). register_cnpg_operation_observer kind observer)
       [(''switchover'', observe_switchover), (''restart'', restart_observer date_parse restart_pods),
        (''restartInstance'', restart_observer date_parse restart_instance_pods),
        (''destroyInstance'', observe_destroy_instance), (''reload'', observe_reload), (''fence'', observe_fence),
        (''unfence'', observe_unfence), (''hibernate'', observe_hibernate), (''rehydrate'', observe_rehydrate),
        (''backup'', observe_backup), (''run'', observe_backup), (''setMaintenance'', maintenance_observer True),
        (''unsetMaintenance'', maintenance_observer False)] []"

section \<open>Lemmas\<close>

lemma length_filter_all: "length (filter P xs) = length xs \<longleftrightarrow> (\<forall>x \<in> set xs. P x)"
  by (metis filter_id_conv length_filter_less less_irrefl)

lemma summarize_completed_iff: "summarize_steps steps = OpCompleted \<longleftrightarrow> (\<forall>s \<in> set steps. sp_done s = Some True)"
  by (simp add: summarize_steps_def Let_def count_done_def length_filter_all)

lemma stale_checked [simp]: "source_stale (op\<lparr>op_last_checked_at := t\<rparr>) obs s = source_stale op obs s"
  by (simp add: source_stale_def cong: option.case_cong)

lemma fresh_fields:
  "ob_now (fresh_observation op obs) = ob_now obs"
  "ob_cluster_uid (fresh_observation op obs) = (if source_stale op obs SrcClusterUID then None else ob_cluster_uid obs)"
  "ob_facts (fresh_observation op obs) = (if source_stale op obs SrcFacts then None else ob_facts obs)"
  "ob_cluster (fresh_observation op obs) = (if source_stale op obs SrcCluster then None else ob_cluster obs)"
  "ob_ha (fresh_observation op obs) = (if source_stale op obs SrcHa then None else ob_ha obs)"
  "ob_runtime (fresh_observation op obs) = (if source_stale op obs SrcRuntime then None else ob_runtime obs)"
  "ob_backups (fresh_observation op obs) = (if source_stale op obs SrcBackups then None else ob_backups obs)"
  "ob_identity_pending (fresh_observation op obs) = ob_identity_pending obs"
  "ob_identity_read_failed (fresh_observation op obs) = ob_identity_read_failed obs"
  "ob_freshness (fresh_observation op obs) = ob_freshness obs"
  by (simp_all add: fresh_observation_def cnpg_observed_sources_def)

lemma judge_cases:
  "fst (judge op obs res) = OpStalled \<Longrightarrow> or_state res \<noteq> OpStalled \<Longrightarrow>
     or_progress_key res \<noteq> None \<and> or_progress_key res = op_progress_key op
     \<and> ob_now obs - op_last_progress_at op > cnpg_op_stall_ms
     \<and> (or_state res \<in> {OpProgressing, OpObserved, OpRequested}
        \<or> ob_now obs - op_started_at op < cnpg_op_first_read_ms)"
  by (auto simp: judge_def Let_def cnpg_op_stall_ms_def split: if_splits)

lemma observe_step_fields:
  "op_state (observe_step observer op obs) = fst (judge op obs (observer op (fresh_observation op obs)))"
  "op_finished_at (observe_step observer op obs) =
     (let res = observer op (fresh_observation op obs); s = fst (judge op obs res)
      in if cnpg_op_terminal s \<or> s = OpUnobservable
           \<and> (or_final res \<or> ob_now obs - op_started_at op > cnpg_op_unobservable_ms)
         then Some (ob_now obs) else None)"
  by (simp_all add: observe_step_def Let_def split: prod.split)

text \<open>What became of an operation, by the branches of the step.\<close>

lemma advance_cases:
  fixes obs :: cnpg_observation
  assumes "\<not> cnpg_op_terminal (op_state op)"
  obtains (replaced) "op_state (advance_cnpg_operation reg op obs) = OpSuperseded"
    "op_finished_at (advance_cnpg_operation reg op obs) = Some (ob_now obs)"
  | (unverified) "advance_cnpg_operation reg op obs = identity_step (op\<lparr>op_last_checked_at := Some (ob_now obs)\<rparr>) obs"
    "truthy_str (op_cluster_uid op)" "\<not> truthy_str (ob_cluster_uid (fresh_observation (op\<lparr>op_last_checked_at := Some (ob_now obs)\<rparr>) obs))"
  | (unknown) "map_of reg (op_kind op) = None" "op_state (advance_cnpg_operation reg op obs) = OpUnobservable"
    "op_finished_at (advance_cnpg_operation reg op obs) = op_finished_at op"
  | (observed) observer where "map_of reg (op_kind op) = Some observer"
    "advance_cnpg_operation reg op obs = observe_step observer (op\<lparr>op_last_checked_at := Some (ob_now obs)\<rparr>) obs"
    "truthy_str (op_cluster_uid op) \<Longrightarrow> ob_cluster_uid (fresh_observation (op\<lparr>op_last_checked_at := Some (ob_now obs)\<rparr>) obs) = op_cluster_uid op"
proof -
  let ?op = "op\<lparr>op_last_checked_at := Some (ob_now obs)\<rparr>"
  let ?cur = "ob_cluster_uid (fresh_observation ?op obs)"
  consider "truthy_str (op_cluster_uid op) \<and> truthy_str ?cur \<and> ?cur \<noteq> op_cluster_uid op"
    | "truthy_str (op_cluster_uid op) \<and> \<not> truthy_str ?cur"
    | "truthy_str (op_cluster_uid op) \<longrightarrow> ?cur = op_cluster_uid op" by blast
  then show thesis
  proof cases
    case 1
    then show thesis using assms by (intro replaced) (simp_all add: advance_cnpg_operation_def Let_def)
  next
    case 2
    then show thesis using assms by (intro unverified) (simp_all add: advance_cnpg_operation_def Let_def)
  next
    case 3
    show thesis
    proof (cases "map_of reg (op_kind op)")
      case None
      with 3 assms show thesis by (intro unknown) (auto simp: advance_cnpg_operation_def Let_def)
    next
      case (Some observer)
      with 3 assms show thesis by (intro observed) (auto simp: advance_cnpg_operation_def Let_def)
    qed
  qed
qed

lemma identity_step_state: "op_state (identity_step op obs) \<in> {OpRequested, OpUnobservable}"
  by (simp add: identity_step_def Let_def)

lemma switchover_evidence:
  assumes "or_state (observe_switchover op obs) = OpCompleted"
  shows "\<exists>f. ob_facts obs = Some f \<and> cf_current_primary f = Some (target_name op) \<and> cf_phase f = Some healthy_phase
    \<and> streaming_standby obs (old_primary_of op) = Some True
    \<and> rw_points_at obs (target_name op) (old_primary_of op) = Some True"
proof -
  from assms obtain f where f: "ob_facts obs = Some f"
    by (cases "ob_facts obs") (simp_all add: observe_switchover_def unreadable_cluster_def result_of_def)
  from assms have "summarize_steps (switchover_steps op obs f) = OpCompleted"
    by (auto simp: observe_switchover_def f Let_def result_of_def split: if_splits)
  then have all_done: "\<forall>s \<in> set (switchover_steps op obs f). sp_done s = Some True"
    by (simp add: summarize_completed_iff)
  then have "cf_current_primary f = Some (target_name op) \<and> cf_phase f = Some healthy_phase
    \<and> streaming_standby obs (old_primary_of op) = Some True
    \<and> rw_points_at obs (target_name op) (old_primary_of op) = Some True"
    by (auto simp: switchover_steps_def Let_def split: if_splits)
  with f show ?thesis by blast
qed

lemma builtin_switchover: "map_of (builtin_observers dp) ''switchover'' = Some observe_switchover"
  by (simp add: builtin_observers_def register_cnpg_operation_observer_def update_conv')

section \<open>Properties\<close>

text \<open>
  C23. A switchover is reported completed only on evidence, and only on evidence read since it was
  requested: the Cluster is the one it was requested for, the target is the primary, the old primary
  streams from it again, the read-write Service selects the target and no longer the old primary,
  and the operator reports a healthy phase. Without access to the endpoints or to the runtime it can
  never be completed.
\<close>

theorem switchover_completed_on_evidence:
  assumes "op_kind op = ''switchover''" and "\<not> cnpg_op_terminal (op_state op)"
    and "op_state (advance_cnpg_operation (builtin_observers date_parse) op obs) = OpCompleted"
  shows "let current = fresh_observation op obs; target = target_name op; old_primary = old_primary_of op in
    (truthy_str (op_cluster_uid op) \<longrightarrow> ob_cluster_uid current = op_cluster_uid op)
    \<and> (\<exists>f. ob_facts current = Some f \<and> cf_current_primary f = Some target \<and> cf_phase f = Some healthy_phase)
    \<and> streaming_standby current old_primary = Some True
    \<and> rw_points_at current target old_primary = Some True"
proof -
  let ?op = "op\<lparr>op_last_checked_at := Some (ob_now obs)\<rparr>"
  have same: "fresh_observation ?op obs = fresh_observation op obs"
    "target_name ?op = target_name op" "old_primary_of ?op = old_primary_of op"
    by (simp_all add: fresh_observation_def target_name_def old_primary_of_def)
  show ?thesis
  proof (cases rule: advance_cases [OF assms(2), of "builtin_observers date_parse" obs, case_names replaced unverified unknown observed])
    case replaced
    with assms(3) show ?thesis by simp
  next
    case unverified
    with assms(3) identity_step_state [of ?op obs] show ?thesis by auto
  next
    case unknown
    with assms(3) show ?thesis by simp
  next
    case (observed observer)
    then have "observer = observe_switchover" using builtin_switchover assms(1) by simp
    with observed(2) assms(3) have "fst (judge ?op obs (observe_switchover ?op (fresh_observation op obs))) = OpCompleted"
      by (simp add: observe_step_fields same)
    then have "or_state (observe_switchover ?op (fresh_observation op obs)) = OpCompleted"
      by (auto simp: judge_def Let_def split: if_splits)
    from switchover_evidence [OF this] observed(3) show ?thesis by (auto simp: same Let_def)
  qed
qed


definition sample_op :: "string \<Rightarrow> json_record \<Rightarrow> cnpg_tracked_operation" where
  "sample_op kind base = \<lparr>op_id = ''1'', op_kind = kind, op_label = kind, op_api_base = [], op_context = ''c'',
     op_namespace = ''n'', op_cluster = ''db'', op_cluster_uid = None, op_target = Some \<lparr>tg_name = ''p2'', tg_uid = None\<rparr>,
     op_started_at = 1000, op_baseline = base, op_state = OpRequested, op_detail = None, op_steps = None,
     op_last_progress_at = 1000, op_last_checked_at = None, op_progress_key = None, op_link = None, op_finished_at = None\<rparr>"

definition sample_observation :: "int \<Rightarrow> cnpg_observation" where
  "sample_observation t =
     (let fresh = \<lparr>fr_updated_at = t, fr_failed = False, fr_cluster_uid = None\<rparr> in
      \<lparr>ob_now = t, ob_cluster_uid = None, ob_identity_pending = None, ob_identity_read_failed = None,
       ob_facts = Some \<lparr>cf_current_primary = Some ''p2'', cf_target_primary = Some ''p2'', cf_phase = Some healthy_phase,
         cf_phase_reason = None, cf_fenced_all = False, cf_fenced_instances = [], cf_instances = [],
         cf_maintenance_in_progress = False\<rparr>,
       ob_cluster = None,
       ob_ha = Some \<lparr>ha_instances = [], ha_pods_state = HaOk,
         ha_rw_endpoints = \<lparr>rw_state = HaOk, rw_reason = None, rw_grant = None, rw_pods = [''p2'']\<rparr>,
         ha_maintenance_in_progress = False\<rparr>,
       ob_runtime = Some \<lparr>rt_proxy_denied = False, rt_instances = [\<lparr>ri_pod = ''p1'', ri_role = InstReplica,
         ri_status_state = RsOk, ri_role_detail = Some ''streaming'', ri_replication = None,
         ri_postmaster_start_time = None\<rparr>]\<rparr>,
       ob_backups = None,
       ob_freshness = Some [(SrcFacts, fresh), (SrcHa, fresh), (SrcRuntime, fresh)]\<rparr>)"

theorem switchover_completed_on_evidence_witness:
  "rw_points_at (fresh_observation (sample_op ''switchover'' [(''currentPrimary'', JStr ''p1'')]) (sample_observation 5000))
     ''p2'' ''p1'' = Some True"
proof -
  let ?op = "sample_op ''switchover'' [(''currentPrimary'', JStr ''p1'')]" and ?obs = "sample_observation 5000"
  have "op_state (advance_cnpg_operation (builtin_observers (\<lambda>s. None)) ?op ?obs) = OpCompleted" by code_simp
  moreover have "op_kind ?op = ''switchover''" "\<not> cnpg_op_terminal (op_state ?op)"
    by (simp_all add: sample_op_def cnpg_op_terminal_def)
  ultimately have "let current = fresh_observation ?op ?obs; target = target_name ?op; old_primary = old_primary_of ?op in
    (truthy_str (op_cluster_uid ?op) \<longrightarrow> ob_cluster_uid current = op_cluster_uid ?op)
    \<and> (\<exists>f. ob_facts current = Some f \<and> cf_current_primary f = Some target \<and> cf_phase f = Some healthy_phase)
    \<and> streaming_standby current old_primary = Some True
    \<and> rw_points_at current target old_primary = Some True"
    by (intro switchover_completed_on_evidence)
  moreover have "target_name ?op = ''p2''" "old_primary_of ?op = ''p1''"
    by (simp_all add: sample_op_def target_name_def old_primary_of_def json_coalesce_def)
  ultimately show ?thesis by (simp add: Let_def)
qed

fun same_reading :: "cnpg_observed_source \<Rightarrow> cnpg_observation \<Rightarrow> cnpg_observation \<Rightarrow> bool" where
  "same_reading SrcClusterUID a b = (ob_cluster_uid a = ob_cluster_uid b)"
| "same_reading SrcFacts a b = (ob_facts a = ob_facts b)"
| "same_reading SrcCluster a b = (ob_cluster a = ob_cluster b)"
| "same_reading SrcHa a b = (ob_ha a = ob_ha b)"
| "same_reading SrcRuntime a b = (ob_runtime a = ob_runtime b)"
| "same_reading SrcBackups a b = (ob_backups a = ob_backups b)"

text \<open>
  C22. Stale reads never decide. Take two observations that agree on the clock, on the freshness of the
  sources and on the two flags of the identity read, and on the reading of each source that has a freshness
  entry, did not fail, and was read no earlier than the request; where the operation recorded the UID of its
  Cluster and the source is not the identity itself or the Backups, agreement is needed only if the entry's
  UID is that one (an entry without a UID is not). They lead to the same operation, whatever the readings of
  all other sources are. An operation that recorded no UID is followed without that check.
\<close>

theorem stale_sources_never_decide:
  assumes "ob_now obs' = ob_now obs" and "ob_freshness obs' = ob_freshness obs"
    and "ob_identity_pending obs' = ob_identity_pending obs"
    and "ob_identity_read_failed obs' = ob_identity_read_failed obs"
    and "\<And>source f. map_of (coalesce (ob_freshness obs) []) source = Some f \<Longrightarrow> \<not> fr_failed f
      \<Longrightarrow> op_started_at op \<le> fr_updated_at f
      \<Longrightarrow> op_cluster_uid op \<in> {None, Some []} \<or> source \<in> {SrcClusterUID, SrcBackups} \<or> fr_cluster_uid f = op_cluster_uid op
      \<Longrightarrow> same_reading source obs obs'"
  shows "advance_cnpg_operation observers op obs' = advance_cnpg_operation observers op obs"
proof -
  let ?op = "op\<lparr>op_last_checked_at := Some (ob_now obs)\<rparr>"
  have agree: "same_reading source obs obs'" if read: "\<not> source_stale op obs source" for source
  proof -
    obtain f where "map_of (coalesce (ob_freshness obs) []) source = Some f"
      using read by (auto simp: source_stale_def freshness_of_def split: option.splits)
    then show ?thesis
      using read assms(5) [of source f]
      by (auto simp: source_stale_def freshness_of_def truthy_str_def not_less split: option.splits)
  qed
  have stale: "source_stale o' obs' = source_stale o' obs" for o' :: cnpg_tracked_operation
    by (simp add: source_stale_def freshness_of_def assms(2) fun_eq_iff)
  have fresh: "fresh_observation ?op obs' = fresh_observation ?op obs"
    using agree [of SrcClusterUID] agree [of SrcFacts] agree [of SrcCluster] agree [of SrcHa] agree [of SrcRuntime]
      agree [of SrcBackups]
    by (intro cnpg_observation.equality) (simp_all add: fresh_fields stale assms(1-4))
  have identity: "identity_step ?op obs' = identity_step ?op obs"
    unfolding identity_step_def freshness_of_def assms(1,2,3,4) ..
  have observe: "observe_step observer ?op obs' = observe_step observer ?op obs" for observer
    unfolding observe_step_def fresh judge_def any_source_failed_def assms(1,2) ..
  show ?thesis
    unfolding advance_cnpg_operation_def assms(1) Let_def fresh identity observe ..
qed

theorem stale_sources_never_decide_witness:
  "advance_cnpg_operation (builtin_observers (\<lambda>s. None)) (sample_op ''hibernate'' [])
       ((sample_observation 5000)\<lparr>ob_cluster := Some (JObj [])\<rparr>)
     = advance_cnpg_operation (builtin_observers (\<lambda>s. None)) (sample_op ''hibernate'' []) (sample_observation 5000)"
proof (rule stale_sources_never_decide)
  fix source f
  assume "map_of (coalesce (ob_freshness (sample_observation 5000)) []) source = Some f"
  then show "same_reading source (sample_observation 5000) ((sample_observation 5000)\<lparr>ob_cluster := Some (JObj [])\<rparr>)"
    by (cases source) (simp_all add: sample_observation_def Let_def)
qed (simp_all add: sample_observation_def Let_def)

text \<open>
  Missing telemetry is never \<open>stalled\<close>: a step reports a stall only when the observer had
  evidence (it did not answer \<open>unobservable\<close>) with a progress key that is the one already recorded,
  and more than ten minutes have passed since that key last changed.
\<close>

theorem stalled_needs_evidence:
  assumes "op_state (advance_cnpg_operation observers op obs) = OpStalled"
    and "\<not> cnpg_op_terminal (op_state op)" and "op_started_at op \<le> op_last_progress_at op"
    and "\<And>observer o' c. map_of observers (op_kind op) = Some observer \<Longrightarrow> or_state (observer o' c) \<noteq> OpStalled"
  shows "\<exists>observer. map_of observers (op_kind op) = Some observer
    \<and> (let res = observer (op\<lparr>op_last_checked_at := Some (ob_now obs)\<rparr>) (fresh_observation op obs)
       in or_state res \<in> {OpProgressing, OpObserved, OpRequested} \<and> or_progress_key res \<noteq> None
          \<and> or_progress_key res = op_progress_key op)
    \<and> ob_now obs - op_last_progress_at op > 10 * 60000"
proof -
  let ?op = "op\<lparr>op_last_checked_at := Some (ob_now obs)\<rparr>"
  have same: "fresh_observation ?op obs = fresh_observation op obs" by (simp add: fresh_observation_def)
  show ?thesis
  proof (cases rule: advance_cases [OF assms(2), of observers obs, case_names replaced unverified unknown observed])
    case (observed observer)
    let ?res = "observer ?op (fresh_observation op obs)"
    have "fst (judge ?op obs ?res) = OpStalled" using assms(1) observed(2) by (simp add: observe_step_fields same)
    from judge_cases [OF this assms(4) [OF observed(1)]] assms(3) observed(1) show ?thesis
      by (auto simp: cnpg_op_stall_ms_def cnpg_op_first_read_ms_def Let_def)
  qed (use assms(1) identity_step_state [of ?op obs] in auto)
qed

theorem stalled_needs_evidence_witness:
  "\<exists>observer. map_of (builtin_observers (\<lambda>s. None)) ''setMaintenance'' = Some observer"
proof -
  let ?op = "(sample_op ''setMaintenance'' [])\<lparr>op_progress_key := Some ''false''\<rparr>"
  have m: "map_of (builtin_observers (\<lambda>s. None)) ''setMaintenance'' = Some (maintenance_observer True)"
    by (simp add: builtin_observers_def register_cnpg_operation_observer_def update_conv')
  have stalled: "op_state (advance_cnpg_operation (builtin_observers (\<lambda>s. None)) ?op (sample_observation 700000)) = OpStalled"
    by code_simp
  have "\<exists>observer. map_of (builtin_observers (\<lambda>s. None)) (op_kind ?op) = Some observer
    \<and> (let res = observer (?op\<lparr>op_last_checked_at := Some (ob_now (sample_observation 700000))\<rparr>)
          (fresh_observation ?op (sample_observation 700000))
       in or_state res \<in> {OpProgressing, OpObserved, OpRequested} \<and> or_progress_key res \<noteq> None
          \<and> or_progress_key res = op_progress_key ?op)
    \<and> ob_now (sample_observation 700000) - op_last_progress_at ?op > 10 * 60000"
  proof (rule stalled_needs_evidence [OF stalled])
    fix observer o' c
    assume "map_of (builtin_observers (\<lambda>s. None)) (op_kind ?op) = Some observer"
    then have "observer = maintenance_observer True" using m by (simp add: sample_op_def)
    then show "or_state (observer o' c) \<noteq> OpStalled"
      by (simp add: maintenance_observer_def unreadable_cluster_def result_of_def split: option.split)
  qed (simp_all add: sample_op_def cnpg_op_terminal_def)
  then show ?thesis by (auto simp: sample_op_def)
qed

text \<open>
  C37. An operation that cannot be observed is let go, unless the identity of its Cluster is still being
  checked: when a step leaves an unsettled operation of a known kind unobservable more than fifteen minutes after the
  request, it is followed on exactly where the operation recorded the UID of its Cluster, no fresh reading of
  that UID is at hand, and such a reading is in flight. In every other case it is no longer followed.
\<close>

theorem unobservable_is_given_up:
  assumes "op_state (advance_cnpg_operation observers op obs) = OpUnobservable"
    and "\<not> cnpg_op_terminal (op_state op)" and "map_of observers (op_kind op) \<noteq> None"
    and "ob_now obs - op_started_at op > 15 * 60000" and "ob_now obs > 0"
  shows "cnpg_operation_followed (advance_cnpg_operation observers op obs) \<longleftrightarrow>
    truthy_str (op_cluster_uid op) \<and> \<not> truthy_str (ob_cluster_uid (fresh_observation op obs))
    \<and> truthy_bool (ob_identity_pending obs)"
proof (cases rule: advance_cases [OF assms(2), of observers obs, case_names replaced unverified unknown observed])
  case unverified
  have "truthy_str (op_cluster_uid op) \<and> \<not> truthy_str (ob_cluster_uid (fresh_observation op obs))"
    using unverified(2,3) by (simp add: fresh_fields)
  with unverified(1) assms(1,4,5) show ?thesis
    by (auto simp: identity_step_def Let_def cnpg_operation_followed_def cnpg_op_unobservable_ms_def cnpg_op_terminal_def
        split: if_splits)
next
  case (observed observer)
  have "truthy_str (op_cluster_uid op) \<longrightarrow> truthy_str (ob_cluster_uid (fresh_observation op obs))"
    using observed(3) by (auto simp: fresh_fields split: if_splits)
  with observed(2) assms(1,4,5) show ?thesis
    by (simp add: cnpg_operation_followed_def observe_step_fields Let_def cnpg_op_unobservable_ms_def)
qed (use assms in \<open>auto simp: cnpg_operation_followed_def\<close>)

theorem unobservable_is_given_up_witness:
  "\<not> cnpg_operation_followed (advance_cnpg_operation (builtin_observers (\<lambda>s. None)) (sample_op ''backup'' [])
     (sample_observation 2000000))"
proof (subst unobservable_is_given_up)
  show "op_state (advance_cnpg_operation (builtin_observers (\<lambda>s. None)) (sample_op ''backup'' []) (sample_observation 2000000))
      = OpUnobservable" by code_simp
qed (simp_all add: sample_op_def sample_observation_def Let_def cnpg_op_terminal_def builtin_observers_def
    register_cnpg_operation_observer_def update_conv')

text \<open>
  The exception the comment of \<open>CNPG_OP_UNOBSERVABLE_MS\<close> does not mention: an operation of a kind
  no observer is registered for, on a Cluster whose identity was not recorded, is never let go. However
  late the step, it is still followed.
\<close>

theorem unknown_kind_followed_forever:
  assumes "cnpg_operation_followed op" and "map_of observers (op_kind op) = None" and "\<not> truthy_str (op_cluster_uid op)"
  shows "cnpg_operation_followed (advance_cnpg_operation observers op obs)
    \<and> op_state (advance_cnpg_operation observers op obs) = OpUnobservable"
  using assms by (simp add: cnpg_operation_followed_def advance_cnpg_operation_def Let_def cnpg_op_terminal_def)

theorem unknown_kind_followed_forever_witness:
  "cnpg_operation_followed (advance_cnpg_operation (builtin_observers (\<lambda>s. None)) (sample_op ''promote'' [])
     (sample_observation 999999999))"
  by (rule unknown_kind_followed_forever [THEN conjunct1])
     (simp_all add: sample_op_def cnpg_operation_followed_def cnpg_op_terminal_def builtin_observers_def
       register_cnpg_operation_observer_def update_conv')

text \<open>
  A fence or the lifting of one with no recorded instance is completed at once, on no evidence:
  \<open>summarizeSteps\<close> takes an empty list of steps as all done, although the detail of the fence says
  that it still waits.
\<close>

theorem fence_without_instances_completes:
  assumes "op_kind op \<in> {''fence'', ''unfence''}" and "\<not> cnpg_op_terminal (op_state op)"
    and "\<not> truthy_str (op_cluster_uid op)" and "map_of (op_baseline op) ''instances'' = Some (JArr [])"
  shows "op_state (advance_cnpg_operation (builtin_observers date_parse) op obs) = OpCompleted"
proof -
  have m: "map_of (builtin_observers date_parse) ''fence'' = Some observe_fence"
    "map_of (builtin_observers date_parse) ''unfence'' = Some observe_unfence"
    by (simp_all add: builtin_observers_def register_cnpg_operation_observer_def update_conv')
  have none: "baseline_instances (op\<lparr>op_last_checked_at := t\<rparr>) = []" for t
    by (simp add: baseline_instances_def json_string_array_def json_strings_def assms(4) List.map_filter_simps)
  have empty: "summarize_steps [] = OpCompleted" by (simp add: summarize_completed_iff)
  from assms(1) consider "op_kind op = ''fence''" | "op_kind op = ''unfence''" by blast
  then show ?thesis
  proof cases
    case 1
    with m(1) assms(2,3) show ?thesis
      by (simp add: advance_cnpg_operation_def Let_def observe_step_fields observe_fence_def none fence_steps_def
          even_positions_def empty judge_def)
  next
    case 2
    with m(2) assms(2,3) show ?thesis
      by (simp add: advance_cnpg_operation_def Let_def observe_step_fields observe_unfence_def none unfence_steps_def
          empty judge_def)
  qed
qed

theorem fence_without_instances_completes_witness:
  "op_state (advance_cnpg_operation (builtin_observers (\<lambda>s. None)) (sample_op ''fence'' [(''instances'', JArr [])])
     (sample_observation 5000)) = OpCompleted"
  by (rule fence_without_instances_completes) (simp_all add: sample_op_def cnpg_op_terminal_def)

end
