(* ===== verification/Cnpg_Store.thy ===== *)
theory Cnpg_Store
  imports Cnpg_Operations
begin

text \<open>
  The session's store of tracked CloudNativePG operations
  (\<open>web/src/components/cnpg/operations/store.ts\<close>) and the selections the views make from it
  (\<open>presentation.ts\<close>). The module's variables are the record \<open>op_store\<close>; the clock, the random id,
  the API base and whether session storage is available are arguments, since the browser gives
  them. Storage holds the list itself; a listener is a number, and \<open>emit\<close> appends the listeners it
  calls to the log of calls.
\<close>

record op_store =
  st_ops :: "cnpg_tracked_operation list"
  st_saved :: "cnpg_tracked_operation list option"
  st_listeners :: "nat list"
  st_calls :: "nat list"

definition max_ops :: nat where "max_ops = 50"

definition keep_finished_ms :: int where "keep_finished_ms = 30 * 60000"

definition load_store :: "cnpg_tracked_operation list option \<Rightarrow> op_store" where
  \<comment> \<open>the initial value of \<open>ops\<close>, from what storage holds (\<open>None\<close>: nothing readable)\<close>
  "load_store saved = \<lparr>st_ops = coalesce saved [], st_saved = saved, st_listeners = [], st_calls = []\<rparr>"

definition save_store :: "bool \<Rightarrow> op_store \<Rightarrow> op_store" where
  "save_store writable st = (if writable then st\<lparr>st_saved := Some (st_ops st)\<rparr> else st)"

definition take_last :: "nat \<Rightarrow> 'a list \<Rightarrow> 'a list" where
  \<comment> \<open>\<open>xs.slice(-n)\<close> for positive \<open>n\<close>\<close>
  "take_last n xs = drop (length xs - n) xs"

definition still_shown :: "int \<Rightarrow> cnpg_tracked_operation \<Rightarrow> bool" where
  "still_shown now op \<longleftrightarrow> \<not> truthy_num (op_finished_at op) \<or> now - coalesce (op_finished_at op) 0 < keep_finished_ms"

definition emit_ops :: "int \<Rightarrow> bool \<Rightarrow> cnpg_tracked_operation list \<Rightarrow> op_store \<Rightarrow> op_store" where
  "emit_ops now writable nxt st =
     (let st1 = save_store writable (st\<lparr>st_ops := take_last max_ops (filter (still_shown now) nxt)\<rparr>)
      in st1\<lparr>st_calls := st_calls st1 @ st_listeners st1\<rparr>)"

definition subscribe_ops :: "nat \<Rightarrow> op_store \<Rightarrow> op_store" where
  "subscribe_ops l st = st\<lparr>st_listeners := set_add l (st_listeners st)\<rparr>"

definition unsubscribe_ops :: "nat \<Rightarrow> op_store \<Rightarrow> op_store" where
  "unsubscribe_ops l st = st\<lparr>st_listeners := filter (\<lambda>x. x \<noteq> l) (st_listeners st)\<rparr>"

record track_input =
  ti_kind :: string
  ti_label :: string
  ti_context :: string
  ti_namespace :: string
  ti_cluster :: string
  ti_cluster_uid :: "string option"
  ti_target :: "cnpg_op_target option"
  ti_baseline :: "json_record option"
  ti_link :: "cnpg_op_link option"

definition tracked_op :: "int \<Rightarrow> string \<Rightarrow> string \<Rightarrow> track_input \<Rightarrow> cnpg_tracked_operation" where
  "tracked_op now new_id api_base i =
     \<lparr>op_id = new_id, op_kind = ti_kind i, op_label = ti_label i, op_api_base = api_base, op_context = ti_context i,
      op_namespace = ti_namespace i, op_cluster = ti_cluster i, op_cluster_uid = ti_cluster_uid i,
      op_target = ti_target i, op_started_at = now, op_baseline = coalesce (ti_baseline i) [],
      op_state = OpRequested, op_detail = None, op_steps = None, op_last_progress_at = now,
      op_last_checked_at = None, op_progress_key = None, op_link = ti_link i, op_finished_at = None\<rparr>"

definition track_cnpg_operation ::
  "int \<Rightarrow> bool \<Rightarrow> string \<Rightarrow> string \<Rightarrow> track_input \<Rightarrow> op_store \<Rightarrow> op_store \<times> string" where
  "track_cnpg_operation now writable new_id api_base i st =
     (let op = tracked_op now new_id api_base i
      in (emit_ops now writable (supersede_for (st_ops st) op @ [op]) st, op_id op))"

definition update_cnpg_operations ::
  "int \<Rightarrow> bool \<Rightarrow> (cnpg_tracked_operation list \<Rightarrow> cnpg_tracked_operation list option) \<Rightarrow> op_store \<Rightarrow> op_store" where
  \<comment> \<open>the update gives \<open>None\<close> where the code's returns the array it was given\<close>
  "update_cnpg_operations now writable upd st =
     (case upd (st_ops st) of None \<Rightarrow> st | Some nxt \<Rightarrow> emit_ops now writable nxt st)"

definition dismiss_cnpg_operation :: "int \<Rightarrow> bool \<Rightarrow> string \<Rightarrow> op_store \<Rightarrow> op_store" where
  "dismiss_cnpg_operation now writable i st = emit_ops now writable (filter (\<lambda>p. op_id p \<noteq> i) (st_ops st)) st"

section \<open>Selections\<close>

record operation_subject =
  su_api_base :: string
  su_context :: string
  su_namespace :: string
  su_name :: string
  su_uid :: "string option"

definition cnpg_operations_for_cluster ::
  "cnpg_tracked_operation list \<Rightarrow> operation_subject \<Rightarrow> cnpg_tracked_operation list" where
  "cnpg_operations_for_cluster all subject = filter (\<lambda>p.
     op_api_base p = su_api_base subject \<and> op_context p = su_context subject
     \<and> op_namespace p = su_namespace subject \<and> op_cluster p = su_name subject
     \<and> (su_uid subject = None \<or> \<not> truthy_str (op_cluster_uid p) \<or> op_cluster_uid p = su_uid subject)) all"

definition latest_cnpg_operation ::
  "cnpg_tracked_operation list \<Rightarrow> operation_subject \<Rightarrow> cnpg_tracked_operation option" where
  "latest_cnpg_operation all subject =
     fold (\<lambda>p latest. case latest of None \<Rightarrow> Some p
         | Some l \<Rightarrow> if op_started_at p > op_started_at l then Some p else Some l)
       (cnpg_operations_for_cluster all subject) None"

section \<open>The store as a state machine\<close>

text \<open>
  Each step is labelled with whether session storage can be used at the time. A reload of the page
  evaluates the module again, without listeners; what storage holds stays.
\<close>

definition reload_store :: "bool \<Rightarrow> op_store \<Rightarrow> op_store" where
  "reload_store available st =
     (if available then load_store (st_saved st) else (load_store None)\<lparr>st_saved := st_saved st\<rparr>)"

inductive store_step :: "bool \<Rightarrow> op_store \<Rightarrow> op_store \<Rightarrow> bool" where
  track: "store_step w st (fst (track_cnpg_operation now w i b inp st))"
| update: "store_step w st (update_cnpg_operations now w upd st)"
| dismiss: "store_step w st (dismiss_cnpg_operation now w i st)"
| subscribe: "store_step w st (subscribe_ops l st)"
| unsubscribe: "store_step w st (unsubscribe_ops l st)"
| reload: "store_step w st (reload_store w st)"

inductive_cases store_stepE: "store_step w st st'"

inductive reachable_store :: "bool list \<Rightarrow> op_store \<Rightarrow> bool" where
  initial: "reachable_store [] (load_store None)"
| step: "reachable_store ws st \<Longrightarrow> store_step w st st' \<Longrightarrow> reachable_store (w # ws) st'"

definition store_bounded :: "op_store \<Rightarrow> bool" where
  "store_bounded st \<longleftrightarrow> length (st_ops st) \<le> max_ops \<and> length (coalesce (st_saved st) []) \<le> max_ops"

definition storage_in_step :: "op_store \<Rightarrow> bool" where
  "storage_in_step st \<longleftrightarrow> coalesce (st_saved st) [] = st_ops st"

lemma take_last_length [simp]: "length (take_last n xs) \<le> n"
  by (simp add: take_last_def)

lemma in_take_last: "x \<in> set (take_last n xs) \<Longrightarrow> x \<in> set xs"
  by (auto simp: take_last_def dest: in_set_dropD)

lemma take_last_snoc: "0 < n \<Longrightarrow> last (take_last n (xs @ [x])) = x \<and> take_last n (xs @ [x]) \<noteq> []"
  by (cases n) (auto simp: take_last_def)

lemma emit_ops_ops: "st_ops (emit_ops now w nxt st) = take_last max_ops (filter (still_shown now) nxt)"
  by (simp add: emit_ops_def save_store_def Let_def)

lemma emit_ops_saved: "st_saved (emit_ops now w nxt st) = (if w then Some (st_ops (emit_ops now w nxt st)) else st_saved st)"
  by (simp add: emit_ops_def save_store_def Let_def)

lemma emit_ops_bounded: "store_bounded st \<Longrightarrow> store_bounded (emit_ops now w nxt st)"
  by (simp add: store_bounded_def emit_ops_saved emit_ops_ops)

lemma emit_ops_in_step: "storage_in_step (emit_ops now True nxt st)"
  by (simp add: storage_in_step_def emit_ops_saved)

lemma store_step_bounded: "store_step w st st' \<Longrightarrow> store_bounded st \<Longrightarrow> store_bounded st'"
  by (elim store_stepE)
     (auto simp: track_cnpg_operation_def update_cnpg_operations_def dismiss_cnpg_operation_def reload_store_def
        Let_def emit_ops_bounded split: option.split,
      auto simp: store_bounded_def load_store_def subscribe_ops_def unsubscribe_ops_def)

lemma store_step_in_step: "store_step True st st' \<Longrightarrow> storage_in_step st \<Longrightarrow> storage_in_step st'"
  by (elim store_stepE)
     (auto simp: track_cnpg_operation_def update_cnpg_operations_def dismiss_cnpg_operation_def reload_store_def
        Let_def emit_ops_in_step split: option.split,
      auto simp: storage_in_step_def load_store_def subscribe_ops_def unsubscribe_ops_def)

definition moot :: "cnpg_tracked_operation \<Rightarrow> cnpg_tracked_operation \<Rightarrow> bool" where
  \<comment> \<open>the newer operation, on the same cluster, makes the older one moot\<close>
  "moot op nxt \<longleftrightarrow> op_api_base op = op_api_base nxt \<and> op_context op = op_context nxt
     \<and> op_namespace op = op_namespace nxt \<and> op_cluster op = op_cluster nxt
     \<and> op_kind nxt \<in> set (coalesce (map_of conflicts (op_kind op)) [])
     \<and> (op_kind op = ''restartInstance'' \<and> op_kind nxt = ''fence'' \<longrightarrow>
          fenced_by nxt (map_option tg_name (op_target op)))"

lemma supersede_for_moot:
  "supersede_for existing nxt = map (\<lambda>op. if \<not> cnpg_op_terminal (op_state op) \<and> moot op nxt
     then op\<lparr>op_state := OpSuperseded, op_detail := Some (''Superseded by '' @ op_label nxt),
            op_finished_at := Some (op_started_at nxt)\<rparr> else op) existing"
  unfolding supersede_for_def moot_def by (rule map_cong) auto

section \<open>Properties\<close>

text \<open>
  C36. The store stays bounded and storage keeps up with it. In every state that tracking, updating,
  dismissing, (un)subscribing and reloading the page lead to from an empty session, with storage available
  or not at each step, the store holds at most fifty records. While storage has been available at every
  step, it holds what the store holds (nothing, while that is empty and was never written). And whatever
  came before, tracking, dismissing, and an update that changes the list leave in storage exactly the
  records of the store when it is available then, and what it held when it is not.
\<close>

theorem reachable_store_bounded:
  assumes "reachable_store ws st"
  shows "length (st_ops st) \<le> 50
    \<and> (list_all (\<lambda>w. w) ws \<longrightarrow> coalesce (st_saved st) [] = st_ops st)
    \<and> (\<forall>now w i b inp. let st' = fst (track_cnpg_operation now w i b inp st)
         in st_saved st' = (if w then Some (st_ops st') else st_saved st))
    \<and> (\<forall>now w i. let st' = dismiss_cnpg_operation now w i st
         in st_saved st' = (if w then Some (st_ops st') else st_saved st))
    \<and> (\<forall>now w upd. let st' = update_cnpg_operations now w upd st
         in st_saved st' = (if w \<and> upd (st_ops st) \<noteq> None then Some (st_ops st') else st_saved st))"
proof (intro conjI allI impI)
  have "store_bounded st"
    using assms
  proof (induction rule: reachable_store.induct)
    case initial
    then show ?case by (simp add: store_bounded_def load_store_def)
  qed (rule store_step_bounded)
  then show "length (st_ops st) \<le> 50" by (simp add: store_bounded_def max_ops_def)
  show "coalesce (st_saved st) [] = st_ops st" if "list_all (\<lambda>w. w) ws"
    using assms that
  proof (induction rule: reachable_store.induct)
    case initial
    then show ?case by (simp add: load_store_def)
  next
    case (step ws st w st')
    then show ?case using store_step_in_step [of st st'] by (simp add: storage_in_step_def)
  qed
qed (auto simp: track_cnpg_operation_def dismiss_cnpg_operation_def update_cnpg_operations_def Let_def emit_ops_saved
    split: option.split)

theorem reachable_store_bounded_witness:
  "coalesce (st_saved (dismiss_cnpg_operation 5 True ''x'' (load_store None))) []
     = st_ops (dismiss_cnpg_operation 5 True ''x'' (load_store None))"
proof -
  have "reachable_store [True] (dismiss_cnpg_operation 5 True ''x'' (load_store None))"
    by (intro reachable_store.step [OF reachable_store.initial] store_step.dismiss)
  from reachable_store_bounded [OF this] show ?thesis by simp
qed

text \<open>
  Tracking an operation keeps it and settles the older ones: the new operation is the last record,
  followed from the start; every unfinished record it makes moot (a conflicting kind on the same
  cluster of the same Radar) is superseded as of now; and no other record is changed.
\<close>

theorem tracking_supersedes_exactly_the_moot:
  fixes now i b inp
  defines "new \<equiv> tracked_op now i b inp"
  assumes "p \<in> set (st_ops (fst (track_cnpg_operation now w i b inp st)))"
  shows "last (st_ops (fst (track_cnpg_operation now w i b inp st))) = new \<and> cnpg_operation_followed new
    \<and> (p = new \<or> (\<exists>q \<in> set (st_ops st).
         if \<not> cnpg_op_terminal (op_state q) \<and> moot q new
         then op_state p = OpSuperseded \<and> op_finished_at p = Some now \<and> op_id p = op_id q
         else p = q))"
proof -
  have shown: "still_shown now new" by (simp add: still_shown_def new_def tracked_op_def)
  have ops: "st_ops (fst (track_cnpg_operation now w i b inp st))
      = take_last max_ops (filter (still_shown now) (supersede_for (st_ops st) new) @ [new])"
    using shown by (simp add: track_cnpg_operation_def Let_def emit_ops_ops new_def)
  have "p = new \<or> (\<exists>q \<in> set (st_ops st).
         if \<not> cnpg_op_terminal (op_state q) \<and> moot q new
         then op_state p = OpSuperseded \<and> op_finished_at p = Some now \<and> op_id p = op_id q
         else p = q)"
  proof -
    have "p = new \<or> p \<in> set (supersede_for (st_ops st) new)"
      using assms(2) unfolding ops by (auto dest: in_take_last)
    moreover have "op_started_at new = now" by (simp add: new_def tracked_op_def)
    ultimately show ?thesis by (auto simp: supersede_for_moot)
  qed
  then show ?thesis
    unfolding ops using take_last_snoc [of max_ops "filter (still_shown now) (supersede_for (st_ops st) new)" new]
    by (simp add: max_ops_def cnpg_operation_followed_def cnpg_op_terminal_def new_def tracked_op_def)
qed

definition sample_track_input :: "string \<Rightarrow> track_input" where
  "sample_track_input k = \<lparr>ti_kind = k, ti_label = k, ti_context = ''c'', ti_namespace = ''n'', ti_cluster = ''db'',
     ti_cluster_uid = None, ti_target = None, ti_baseline = None, ti_link = None\<rparr>"

theorem tracking_supersedes_exactly_the_moot_witness:
  "op_kind (last (st_ops (fst (track_cnpg_operation 9000 True ''2'' [] (sample_track_input ''hibernate'')
     (load_store (Some [sample_op ''restart'' []])))))) = ''hibernate''"
proof -
  let ?st = "load_store (Some [sample_op ''restart'' []])" and ?new = "tracked_op 9000 ''2'' [] (sample_track_input ''hibernate'')"
  let ?ops = "st_ops (fst (track_cnpg_operation 9000 True ''2'' [] (sample_track_input ''hibernate'') ?st))"
  have "map op_id ?ops = [''1'', ''2'']" by code_simp
  then have "?ops \<noteq> []" by force
  then have "hd ?ops \<in> set ?ops" by (rule hd_in_set)
  from tracking_supersedes_exactly_the_moot [OF this] have "last ?ops = ?new" by blast
  then show ?thesis by (simp add: tracked_op_def sample_track_input_def)
qed

end
