(* ===== verification/Text_Decoding.thy ===== *)
theory Text_Decoding
  imports Radar_Prelude
begin

text \<open>
  \<open>TextDecoder\<close> as the stream reader uses it (\<open>web/src/api/timelineSource.ts\<close>: \<open>new TextDecoder()\<close>,
  \<open>decode(value, {stream: true})\<close>, never without the flag): the UTF-8 decoder of the Encoding standard,
  byte by byte. What a call leaves unfinished is held for the next one. The decoder is not fatal: a byte
  that does not fit gives U+FFFD for what was held, and is then read as the first byte of a sequence.
  The byte order mark is taken off the front of the text. Nothing is flushed, so that what is held when
  the body ends is dropped.

  A string is the list of the bytes of its text in UTF-8, before and after decoding: the decoder passes
  the bytes of a whole sequence on. That a text comes out as it was encoded is stated with code points,
  which are encoded here by arithmetic, apart from the decoder.
\<close>

section \<open>The decoder\<close>

record utf8_state =
  u8_held :: string    \<comment> \<open>the bytes of the sequence so far, the code point of the standard\<close>
  u8_needed :: nat     \<comment> \<open>the bytes still missing, \<open>0\<close> between two sequences\<close>
  u8_lower :: nat
  u8_upper :: nat

definition utf8_clean :: utf8_state where
  "utf8_clean = \<lparr>u8_held = [], u8_needed = 0, u8_lower = 0x80, u8_upper = 0xBF\<rparr>"

definition replacement_char :: string where
  \<comment> \<open>U+FFFD\<close>
  "replacement_char = [CHR 0xEF, CHR 0xBF, CHR 0xBD]"

definition byte_order_mark :: string where
  \<comment> \<open>U+FEFF\<close>
  "byte_order_mark = [CHR 0xEF, CHR 0xBB, CHR 0xBF]"

definition utf8_lead :: "char \<Rightarrow> utf8_state \<times> string list" where
  \<comment> \<open>the first byte of a sequence; the items are the code points given out\<close>
  "utf8_lead c =
     (let n = of_char c :: nat in
      if n \<le> 0x7F then (utf8_clean, [[c]])
      else if 0xC2 \<le> n \<and> n \<le> 0xDF then (\<lparr>u8_held = [c], u8_needed = 1, u8_lower = 0x80, u8_upper = 0xBF\<rparr>, [])
      else if 0xE0 \<le> n \<and> n \<le> 0xEF
      then (\<lparr>u8_held = [c], u8_needed = 2, u8_lower = (if n = 0xE0 then 0xA0 else 0x80),
             u8_upper = (if n = 0xED then 0x9F else 0xBF)\<rparr>, [])
      else if 0xF0 \<le> n \<and> n \<le> 0xF4
      then (\<lparr>u8_held = [c], u8_needed = 3, u8_lower = (if n = 0xF0 then 0x90 else 0x80),
             u8_upper = (if n = 0xF4 then 0x8F else 0xBF)\<rparr>, [])
      else (utf8_clean, [replacement_char]))"

definition utf8_step :: "utf8_state \<Rightarrow> char \<Rightarrow> utf8_state \<times> string list" where
  "utf8_step st c =
     (if u8_needed st = 0 then utf8_lead c
      else if of_char c < u8_lower st \<or> u8_upper st < of_char c
      then (let (st', items) = utf8_lead c in (st', replacement_char # items))
      else if u8_needed st = 1 then (utf8_clean, [u8_held st @ [c]])
      else (\<lparr>u8_held = u8_held st @ [c], u8_needed = u8_needed st - 1, u8_lower = 0x80, u8_upper = 0xBF\<rparr>, []))"

fun utf8_run :: "utf8_state \<Rightarrow> string \<Rightarrow> utf8_state \<times> string list" where
  "utf8_run st [] = (st, [])"
| "utf8_run st (c # cs) =
     (let (st', items) = utf8_step st c; (st'', rest) = utf8_run st' cs in (st'', items @ rest))"

record text_decoder =
  td_utf8 :: utf8_state
  td_bom_seen :: bool

definition new_text_decoder :: text_decoder where
  "new_text_decoder = \<lparr>td_utf8 = utf8_clean, td_bom_seen = False\<rparr>"

definition strip_bom :: "bool \<Rightarrow> string list \<Rightarrow> bool \<times> string list" where
  \<comment> \<open>only the first code point of the text is looked at\<close>
  "strip_bom seen items =
     (if seen \<or> items = [] then (seen, items) else (True, if hd items = byte_order_mark then tl items else items))"

definition text_decode :: "text_decoder \<Rightarrow> string \<Rightarrow> text_decoder \<times> string" where
  \<comment> \<open>\<open>decode(value, {stream: true})\<close>\<close>
  "text_decode td bytes =
     (let (st, items) = utf8_run (td_utf8 td) bytes; (seen, text) = strip_bom (td_bom_seen td) items
      in (\<lparr>td_utf8 = st, td_bom_seen = seen\<rparr>, concat text))"

definition utf8_text :: "string \<Rightarrow> string" where
  \<comment> \<open>a whole body in one call\<close>
  "utf8_text bytes = snd (text_decode new_text_decoder bytes)"

section \<open>Decoding in pieces\<close>

lemma utf8_run_append:
  "utf8_run st (xs @ ys) =
     (let (st', items) = utf8_run st xs; (st'', rest) = utf8_run st' ys in (st'', items @ rest))"
  by (induction xs arbitrary: st) (simp_all add: case_prod_unfold Let_def)

lemma strip_bom_append:
  "strip_bom seen (xs @ ys) =
     (let (seen', xs') = strip_bom seen xs; (seen'', ys') = strip_bom seen' ys in (seen'', xs' @ ys'))"
  by (cases xs) (auto simp: strip_bom_def)

lemma text_decode_append:
  "text_decode td (xs @ ys) =
     (let (td', text) = text_decode td xs; (td'', rest) = text_decode td' ys in (td'', text @ rest))"
  by (simp add: text_decode_def utf8_run_append strip_bom_append case_prod_unfold Let_def)

lemma text_decode_Nil [simp]: "text_decode td [] = (td, [])"
  by (simp add: text_decode_def strip_bom_def)

section \<open>Encoded text comes out as it was\<close>

definition unicode_scalar :: "nat \<Rightarrow> bool" where
  "unicode_scalar cp \<longleftrightarrow> cp \<le> 0x10FFFF \<and> \<not> (0xD800 \<le> cp \<and> cp \<le> 0xDFFF)"

definition utf8_encode :: "nat \<Rightarrow> string" where
  "utf8_encode cp = map char_of
     (if cp < 0x80 then [cp]
      else if cp < 0x800 then [0xC0 + cp div 64, 0x80 + cp mod 64]
      else if cp < 0x10000 then [0xE0 + cp div 4096, 0x80 + cp div 64 mod 64, 0x80 + cp mod 64]
      else [0xF0 + cp div 262144, 0x80 + cp div 4096 mod 64, 0x80 + cp div 64 mod 64, 0x80 + cp mod 64])"

definition utf8_encode_all :: "nat list \<Rightarrow> string" where
  "utf8_encode_all cps = concat (map utf8_encode cps)"

definition without_bom :: "nat list \<Rightarrow> nat list" where
  "without_bom cps = (case cps of cp # rest \<Rightarrow> if cp = 0xFEFF then rest else cps | [] \<Rightarrow> [])"

lemma of_char_of_byte: "n < 256 \<Longrightarrow> of_char (char_of n :: char) = (n :: nat)"
  by simp

lemma utf8_lead_byte:
  fixes n :: nat
  assumes "n < 256"
  shows "utf8_lead (char_of n) =
    (if n \<le> 0x7F then (utf8_clean, [[char_of n]])
     else if 0xC2 \<le> n \<and> n \<le> 0xDF then (\<lparr>u8_held = [char_of n], u8_needed = 1, u8_lower = 0x80, u8_upper = 0xBF\<rparr>, [])
     else if 0xE0 \<le> n \<and> n \<le> 0xEF
     then (\<lparr>u8_held = [char_of n], u8_needed = 2, u8_lower = (if n = 0xE0 then 0xA0 else 0x80),
            u8_upper = (if n = 0xED then 0x9F else 0xBF)\<rparr>, [])
     else if 0xF0 \<le> n \<and> n \<le> 0xF4
     then (\<lparr>u8_held = [char_of n], u8_needed = 3, u8_lower = (if n = 0xF0 then 0x90 else 0x80),
            u8_upper = (if n = 0xF4 then 0x8F else 0xBF)\<rparr>, [])
     else (utf8_clean, [replacement_char]))"
  unfolding utf8_lead_def of_char_of_byte [OF assms] Let_def ..

lemma utf8_step_lead: "utf8_step utf8_clean c = utf8_lead c"
  by (simp add: utf8_step_def utf8_clean_def)

lemma utf8_step_within:
  fixes n :: nat
  assumes "n < 256" "k \<noteq> 0" "lo \<le> n" "n \<le> hi"
  shows "utf8_step \<lparr>u8_held = h, u8_needed = k, u8_lower = lo, u8_upper = hi\<rparr> (char_of n) =
    (if k = 1 then (utf8_clean, [h @ [char_of n]])
     else (\<lparr>u8_held = h @ [char_of n], u8_needed = k - 1, u8_lower = 0x80, u8_upper = 0xBF\<rparr>, []))"
proof -
  have "\<not> (of_char (char_of n :: char) < lo \<or> hi < (of_char (char_of n :: char) :: nat))"
    unfolding of_char_of_byte [OF assms(1)] using assms by linarith
  then show ?thesis using assms(2) by (simp add: utf8_step_def del: of_char_of)
qed

lemma utf8_run_one:
  fixes n :: nat
  assumes "n < 128"
  shows "utf8_run utf8_clean [char_of n] = (utf8_clean, [[char_of n]])"
  using assms by (simp add: utf8_step_lead utf8_lead_byte)

lemma utf8_run_two:
  fixes a b :: nat
  assumes "2 \<le> a" "a < 32" "b < 64"
  shows "utf8_run utf8_clean [char_of (0xC0 + a), char_of (0x80 + b)] =
    (utf8_clean, [[char_of (0xC0 + a), char_of (0x80 + b)]])"
  using assms by (simp add: utf8_step_lead utf8_lead_byte utf8_step_within)

lemma utf8_run_three:
  fixes a b c :: nat
  assumes "a < 16" "b < 64" "c < 64" "a = 0 \<Longrightarrow> 32 \<le> b" "a = 13 \<Longrightarrow> b < 32"
  shows "utf8_run utf8_clean [char_of (0xE0 + a), char_of (0x80 + b), char_of (0x80 + c)] =
    (utf8_clean, [[char_of (0xE0 + a), char_of (0x80 + b), char_of (0x80 + c)]])"
  using assms by (cases "a = 0"; cases "a = 13") (simp_all add: utf8_step_lead utf8_lead_byte utf8_step_within)

lemma utf8_run_four:
  fixes a b c d :: nat
  assumes "a < 5" "b < 64" "c < 64" "d < 64" "a = 0 \<Longrightarrow> 16 \<le> b" "a = 4 \<Longrightarrow> b < 16"
  shows "utf8_run utf8_clean [char_of (0xF0 + a), char_of (0x80 + b), char_of (0x80 + c), char_of (0x80 + d)] =
    (utf8_clean, [[char_of (0xF0 + a), char_of (0x80 + b), char_of (0x80 + c), char_of (0x80 + d)]])"
proof -
  let ?lo = "if a = 0 then 0x90 else 0x80" and ?hi = "if a = 4 then 0x8F else 0xBF"
  have "utf8_lead (char_of (0xF0 + a)) = (\<lparr>u8_held = [char_of (0xF0 + a)], u8_needed = 3, u8_lower = ?lo, u8_upper = ?hi\<rparr>, [])"
    using assms(1) by (subst utf8_lead_byte) auto
  moreover have "utf8_step \<lparr>u8_held = [char_of (0xF0 + a)], u8_needed = 3, u8_lower = ?lo, u8_upper = ?hi\<rparr> (char_of (0x80 + b))
      = (\<lparr>u8_held = [char_of (0xF0 + a)] @ [char_of (0x80 + b)], u8_needed = 3 - 1, u8_lower = 0x80, u8_upper = 0xBF\<rparr>, [])"
    using assms by (subst utf8_step_within) auto
  moreover have "utf8_step \<lparr>u8_held = h, u8_needed = 3 - 1, u8_lower = 0x80, u8_upper = 0xBF\<rparr> (char_of (0x80 + c))
      = (\<lparr>u8_held = h @ [char_of (0x80 + c)], u8_needed = 1, u8_lower = 0x80, u8_upper = 0xBF\<rparr>, [])" for h
    using assms by (subst utf8_step_within) auto
  moreover have "utf8_step \<lparr>u8_held = h, u8_needed = 1, u8_lower = 0x80, u8_upper = 0xBF\<rparr> (char_of (0x80 + d))
      = (utf8_clean, [h @ [char_of (0x80 + d)]])" for h
    using assms by (subst utf8_step_within) auto
  ultimately show ?thesis
    by (simp only: utf8_run.simps utf8_step_lead Let_def prod.case append_Nil append_Nil2 append_Cons)
qed

lemma utf8_run_encode:
  assumes "unicode_scalar cp"
  shows "utf8_run utf8_clean (utf8_encode cp) = (utf8_clean, [utf8_encode cp])"
proof -
  define a b c d where "a = cp div 262144" and "b = cp div 4096" and "c = cp div 64 mod 64" and "d = cp mod 64"
  have small: "c < 64" "d < 64" by (simp_all add: c_def d_def)
  have quot: "b = cp div 64 div 64" "a = b div 64" by (simp_all add: a_def b_def div_mult2_eq [symmetric])
  have split: "cp = 64 * (cp div 64) + d" "cp div 64 = 64 * b + c" unfolding c_def d_def quot by simp_all
  then have cp: "cp = 4096 * b + 64 * c + d" by linarith
  have b: "b = 64 * a + b mod 64" unfolding quot(2) by simp
  consider "cp < 0x80" | "0x80 \<le> cp" "cp < 0x800" | "0x800 \<le> cp" "cp < 0x10000" | "0x10000 \<le> cp" by linarith
  then show ?thesis
  proof cases
    case 1
    then show ?thesis using utf8_run_one [of cp] by (simp add: utf8_encode_def)
  next
    case 2
    then have "2 \<le> cp div 64" "cp div 64 < 32" using split(1) small by linarith+
    from utf8_run_two [OF this, of "cp mod 64"] show ?thesis using 2 by (simp add: utf8_encode_def)
  next
    case 3
    have "b < 16" using 3(2) cp by linarith
    moreover have "b = 0 \<Longrightarrow> 32 \<le> c" using 3(1) cp small by linarith
    moreover have "b = 13 \<Longrightarrow> c < 32" using assms cp small by (simp add: unicode_scalar_def)
    ultimately show ?thesis
      using utf8_run_three [of b c d] small 3 by (simp add: utf8_encode_def b_def c_def d_def)
  next
    case 4
    have bm: "b mod 64 < 64" by simp
    have a: "a < 5" using assms cp b unfolding unicode_scalar_def by linarith
    moreover have "a = 0 \<Longrightarrow> 16 \<le> b mod 64" using 4 cp b small by linarith
    moreover have "a = 4 \<Longrightarrow> b mod 64 < 16" using assms cp b small unfolding unicode_scalar_def by linarith
    ultimately show ?thesis
      using utf8_run_four [of a "b mod 64" c d] small bm 4 by (simp add: utf8_encode_def a_def b_def c_def d_def)
  qed
qed

lemma utf8_run_encode_all:
  assumes "list_all unicode_scalar cps"
  shows "utf8_run utf8_clean (utf8_encode_all cps) = (utf8_clean, map utf8_encode cps)"
  using assms by (induction cps) (simp_all add: utf8_encode_all_def utf8_run_append utf8_run_encode Let_def)

lemma utf8_encode_inject:
  assumes "unicode_scalar cp" and "utf8_encode cp = byte_order_mark"
  shows "cp = 0xFEFF"
proof -
  have three: "0x800 \<le> cp" "cp < 0x10000"
    using arg_cong [where f = length, OF assms(2)]
    by (auto simp: utf8_encode_def byte_order_mark_def split: if_splits)
  then have "map of_char [char_of (0xE0 + cp div 4096) :: char, char_of (0x80 + cp div 64 mod 64), char_of (0x80 + cp mod 64)]
      = [0xEF :: nat, 0xBB, 0xBF]"
    using assms(2) by (simp add: utf8_encode_def byte_order_mark_def)
  moreover have "cp div 4096 < 16" using three(2) by (simp add: less_mult_imp_div_less)
  ultimately have "cp div 4096 = 15" "cp div 64 mod 64 = 59" "cp mod 64 = 63" by simp_all
  moreover have "cp = 4096 * (cp div 4096) + 64 * (cp div 64 mod 64) + cp mod 64"
  proof -
    have "cp div 64 = 64 * (cp div 4096) + cp div 64 mod 64"
      using mult_div_mod_eq [of 64 "cp div 64"] by (simp add: div_mult2_eq [symmetric])
    then show ?thesis using mult_div_mod_eq [of 64 cp] by linarith
  qed
  ultimately show ?thesis by simp
qed

lemma utf8_encode_bom: "utf8_encode 0xFEFF = byte_order_mark"
  by (simp add: utf8_encode_def byte_order_mark_def char_of_eq_iff)

lemma utf8_text_encode_all:
  assumes "list_all unicode_scalar cps"
  shows "utf8_text (utf8_encode_all cps) = utf8_encode_all (without_bom cps)"
proof (cases cps)
  case Nil
  then show ?thesis by (simp add: utf8_encode_all_def without_bom_def utf8_text_def)
next
  case (Cons cp rest)
  then have "unicode_scalar cp" using assms by simp
  then have "utf8_encode cp = byte_order_mark \<longleftrightarrow> cp = 0xFEFF" using utf8_encode_inject utf8_encode_bom by blast
  then show ?thesis
    using utf8_run_encode_all [OF assms] Cons
    by (simp add: utf8_text_def text_decode_def new_text_decoder_def strip_bom_def without_bom_def utf8_encode_all_def)
qed

end
