(* ===== verification/Timeline_Sync.thy ===== *)
theory Timeline_Sync
  imports Text_Decoding
begin

text \<open>
  How the timeline is kept in step with the server: the delta sync of the changes feed
  (\<open>web/src/api/client.ts\<close>: \<open>maxEventSeq\<close>, \<open>mergeDeltaEvents\<close>, \<open>deltaFetchCursor\<close>,
  \<open>runDeltaSyncFetch\<close>) and the event ring of the timeline source
  (\<open>web/src/api/timelineSource.ts\<close>: the NDJSON stream reader, \<open>runRetainedRingFetch\<close>,
  \<open>needsWindowFetch\<close>, the client-side filters and the local overview).

  The server is a parameter: a function from the request to an error or a response (with the number
  of the page, so that it may answer the same request differently later). \<open>JSON.parse\<close> of a line
  and \<open>Date.parse\<close> are parameters too; an unparsable date is \<open>None\<close> (\<open>NaN\<close>). The body
  of a stream arrives as chunks of bytes, cut anywhere; \<open>TextDecoder\<close> is that of \<open>Text_Decoding\<close>, with its
  state carried from chunk to chunk.
\<close>

section \<open>Events\<close>

datatype event_source = SrcInformer | SrcK8sEvent | SrcHistorical

datatype event_type = EvAdd | EvUpdate | EvDelete | EvNormal | EvWarning

record owner_info =
  ow_kind :: string
  ow_name :: string

record timeline_event =
  ev_id :: string
  ev_timestamp :: string
  ev_source :: event_source
  ev_seq :: "nat option"
  ev_kind :: string
  ev_api_version :: "string option"
  ev_namespace :: string
  ev_name :: string
  ev_uid :: "string option"
  ev_created_at :: "string option"
  ev_type :: event_type
  ev_reason :: "string option"
  ev_message :: "string option"
  ev_diff :: "json option"
  ev_health_state :: "health_status option"
  ev_owner :: "owner_info option"
  ev_labels :: "(string \<times> string) list option"
  ev_count :: "nat option"
  ev_correlation_id :: "string option"

section \<open>Delta sync (\<open>client.ts\<close>)\<close>

definition full_resync_ms :: int where "full_resync_ms = 5 * 60000"

record changes_delta_meta =
  cm_epoch :: string
  cm_last_full_ms :: int
  cm_high_water_seq :: nat

definition max_event_seq :: "timeline_event list \<Rightarrow> nat" where
  "max_event_seq events = fold (\<lambda>e m. case ev_seq e of None \<Rightarrow> m | Some s \<Rightarrow> if s > m then s else m) events 0"

definition compare_newest_first :: "(string \<Rightarrow> int option) \<Rightarrow> timeline_event \<Rightarrow> timeline_event \<Rightarrow> int" where
  \<comment> \<open>a difference with an unparsable date is \<open>NaN\<close>, which \<open>sort\<close> takes for equal\<close>
  "compare_newest_first date_parse a b =
     (case (date_parse (ev_timestamp a), date_parse (ev_timestamp b)) of
        (Some ta, Some tb) \<Rightarrow>
          if tb - ta \<noteq> 0 then tb - ta else int (coalesce (ev_seq b) 0) - int (coalesce (ev_seq a) 0)
      | _ \<Rightarrow> 0)"

definition take_cap :: "nat option \<Rightarrow> 'a list \<Rightarrow> 'a list" where
  \<comment> \<open>\<open>None\<close> is an infinite cap\<close>
  "take_cap cap xs = (case cap of None \<Rightarrow> xs | Some n \<Rightarrow> if length xs > n then take n xs else xs)"

definition merge_delta_events ::
  "(string \<Rightarrow> int option) \<Rightarrow> timeline_event list \<Rightarrow> timeline_event list \<Rightarrow> nat option \<Rightarrow> timeline_event list" where
  "merge_delta_events date_parse prev delta cap =
     (if delta = [] then prev
      else let replaced = set_from (map ev_id delta);
               merged = js_sort (compare_newest_first date_parse)
                 (delta @ filter (\<lambda>e. ev_id e \<notin> set replaced) prev)
           in take_cap cap merged)"

definition delta_fetch_cursor :: "changes_delta_meta option \<Rightarrow> timeline_event list option \<Rightarrow> int \<Rightarrow> nat" where
  "delta_fetch_cursor meta cached now =
     (case (meta, cached) of
        (Some m, Some events) \<Rightarrow>
          if cm_epoch m = [] then 0
          else if now - cm_last_full_ms m > full_resync_ms then 0
          else max (cm_high_water_seq m) (max_event_seq events)
      | _ \<Rightarrow> 0)"

record changes_page =
  pg_events :: "timeline_event list"
  pg_epoch :: string
  pg_max_seq :: nat

record api_error =
  ae_status :: "nat option"
  ae_message :: string

type_synonym changes_server = "nat option \<Rightarrow> api_error + changes_page"

definition full_sync :: "changes_server \<Rightarrow> int \<Rightarrow> api_error + timeline_event list \<times> changes_delta_meta" where
  "full_sync server now =
     (case server None of
        Inl err \<Rightarrow> Inl err
      | Inr full \<Rightarrow> Inr (pg_events full, \<lparr>cm_epoch = pg_epoch full, cm_last_full_ms = now,
          cm_high_water_seq = max (pg_max_seq full) (max_event_seq (pg_events full))\<rparr>))"

definition run_delta_sync_fetch ::
  "(string \<Rightarrow> int option) \<Rightarrow> changes_server \<Rightarrow> nat \<Rightarrow> timeline_event list option \<Rightarrow> changes_delta_meta option
    \<Rightarrow> int \<Rightarrow> api_error + timeline_event list \<times> changes_delta_meta" where
  \<comment> \<open>the server takes \<open>since_seq\<close>; the result is the page with the meta record of the key\<close>
  "run_delta_sync_fetch date_parse server limit cached meta now =
     (let cursor = delta_fetch_cursor meta cached now in
      case (meta, cached) of
        (Some m, Some events) \<Rightarrow>
          if cursor > 0
          then (case server (Some cursor) of
              Inl err \<Rightarrow> Inl err
            | Inr delta \<Rightarrow>
                if pg_epoch delta \<noteq> [] \<and> pg_epoch delta = cm_epoch m
                then Inr (if pg_events delta \<noteq> []
                       then merge_delta_events date_parse events (pg_events delta) (Some limit) else events,
                     m\<lparr>cm_high_water_seq := max (cm_high_water_seq m) (max (pg_max_seq delta) (max_event_seq (pg_events delta)))\<rparr>)
                else full_sync server now)
          else full_sync server now
      | _ \<Rightarrow> full_sync server now)"

section \<open>The stream reader (\<open>timelineSource.ts\<close>)\<close>

datatype stream_record =
    RecEnd "string option" "bool option" "bool option"
  | RecError "string option"
  | RecCoverage json
  | RecEvent json

definition json_bool :: "json option \<Rightarrow> bool option" where
  "json_bool v = (case v of Some (JBool b) \<Rightarrow> Some b | _ \<Rightarrow> None)"

definition classify_record :: "json \<Rightarrow> stream_record" where
  \<comment> \<open>by the \<open>type\<close> of a line; whatever has none of the three is an event\<close>
  "classify_record rec =
     (let ty = json_get (Some rec) ''type'' in
      if ty = Some (JStr ''end'') then RecEnd (json_str (json_get (Some rec) ''cursor''))
        (json_bool (json_get (Some rec) ''more'')) (json_bool (json_get (Some rec) ''truncated''))
      else if ty = Some (JStr ''error'') then RecError (json_str (json_get (Some rec) ''message''))
      else if ty = Some (JStr ''coverage'') then RecCoverage rec
      else RecEvent rec)"

datatype terminal_record = TermEnd "string option" "bool option" "bool option" | TermError "string option"

record retained_window_result =
  rw_events :: "timeline_event list"
  rw_coverage :: "json list"
  rw_cursor :: "string option"
  rw_more :: bool
  rw_truncated :: bool

definition dedupe_by_id :: "timeline_event list \<Rightarrow> timeline_event list" where
  "dedupe_by_id events = map snd (map_from (map (\<lambda>e. (ev_id e, e)) events))"

record stream_state =
  ss_events :: "timeline_event list"
  ss_coverage :: "json list"
  ss_terminal :: "terminal_record option"

text \<open>
  What the reader takes from outside: \<open>JSON.parse\<close> (\<open>None\<close> where it throws) and the cast of a parsed
  value to a \<open>TimelineEvent\<close>.
\<close>

record record_parser =
  rp_parse :: "string \<Rightarrow> json option"
  rp_event :: "json \<Rightarrow> timeline_event"

definition handle_line :: "record_parser \<Rightarrow> string \<Rightarrow> stream_state option \<Rightarrow> stream_state option" where
  \<comment> \<open>\<open>None\<close>: it threw, at \<open>JSON.parse\<close> or at a field of \<open>null\<close>\<close>
  "handle_line rp line st =
     (case st of None \<Rightarrow> None | Some s \<Rightarrow>
      if trim line = [] then Some s
      else case rp_parse rp (trim line) of
             None \<Rightarrow> None
           | Some rec \<Rightarrow>
               if rec = JNull then None
               else case classify_record rec of
                   RecEnd c m t \<Rightarrow> Some (s\<lparr>ss_terminal := Some (TermEnd c m t)\<rparr>)
                 | RecError m \<Rightarrow> Some (s\<lparr>ss_terminal := Some (TermError m)\<rparr>)
                 | RecCoverage c \<Rightarrow> Some (s\<lparr>ss_coverage := ss_coverage s @ [c]\<rparr>)
                 | RecEvent e \<Rightarrow> Some (s\<lparr>ss_events := ss_events s @ [rp_event rp e]\<rparr>))"

fun drain_lines :: "record_parser \<Rightarrow> string \<Rightarrow> string \<Rightarrow> stream_state option \<Rightarrow> string \<times> stream_state option" where
  \<comment> \<open>\<open>while ((idx = buf.indexOf(newline)) >= 0)\<close>; \<open>acc\<close> holds the line read so far\<close>
  "drain_lines rp acc [] st = (acc, st)"
| "drain_lines rp acc (c # buf) st =
     (if c = CHR 0x0A then drain_lines rp [] buf (handle_line rp acc st)
      else drain_lines rp (acc @ [c]) buf st)"

definition read_chunk ::
  "record_parser \<Rightarrow> string \<Rightarrow> text_decoder \<times> string \<times> stream_state option \<Rightarrow> text_decoder \<times> string \<times> stream_state option" where
  \<comment> \<open>with the decoder's state, \<open>buf\<close> and what the records have set\<close>
  "read_chunk rp chunk reader =
     (let (td, buf, st) = reader; (td', text) = text_decode td chunk
      in (td', drain_lines rp [] (buf @ text) st))"

definition stream_start :: stream_state where
  "stream_start = \<lparr>ss_events = [], ss_coverage = [], ss_terminal = None\<rparr>"

datatype stream_error = StreamParse | StreamTruncated | StreamFailed string

definition finish_stream :: "stream_state \<Rightarrow> stream_error + retained_window_result" where
  "finish_stream s =
     (case ss_terminal s of
        None \<Rightarrow> Inl StreamTruncated
      | Some (TermError m) \<Rightarrow> Inl (StreamFailed (or_else m ''timeline stream error''))
      | Some (TermEnd c m t) \<Rightarrow> Inr \<lparr>rw_events = dedupe_by_id (ss_events s), rw_coverage = ss_coverage s,
          rw_cursor = c, rw_more = (m = Some True), rw_truncated = (t = Some True)\<rparr>)"

definition read_stream :: "record_parser \<Rightarrow> string list \<Rightarrow> stream_error + retained_window_result" where
  \<comment> \<open>over the chunks the body delivers\<close>
  "read_stream rp chunks =
     (let (td, buf, st) = fold (read_chunk rp) chunks (new_text_decoder, [], Some stream_start)
      in case handle_line rp buf st of None \<Rightarrow> Inl StreamParse | Some s \<Rightarrow> finish_stream s)"

section \<open>The ring\<close>

definition hour_ms :: int where "hour_ms = 60 * 60 * 1000"

definition day_ms :: int where "day_ms = 24 * hour_ms"

definition retained_delta_max_pages :: nat where "retained_delta_max_pages = 10"

definition clock_skew_slack_ms :: int where "clock_skew_slack_ms = 5 * 60 * 1000"

definition live_window_tick_slack_ms :: int where "live_window_tick_slack_ms = 2 * 30000"

datatype time_range = Range5m | Range30m | Range1h | Range6h | Range24h | Range7d | Range30d | RangeAll

fun range_span_ms :: "time_range option \<Rightarrow> int option \<Rightarrow> int option" where
  "range_span_ms (Some Range5m) cap = Some (5 * 60 * 1000)"
| "range_span_ms (Some Range30m) cap = Some (30 * 60 * 1000)"
| "range_span_ms (Some Range1h) cap = Some hour_ms"
| "range_span_ms (Some Range6h) cap = Some (6 * hour_ms)"
| "range_span_ms (Some Range24h) cap = Some (24 * hour_ms)"
| "range_span_ms (Some Range7d) cap = Some (7 * day_ms)"
| "range_span_ms (Some Range30d) cap = Some (30 * day_ms)"
| "range_span_ms _ cap = cap"

record retained_ring =
  rg_events :: "timeline_event list"
  rg_coverage :: "json list"
  rg_truncated :: bool
  rg_cursor :: "string option"
  rg_loaded_at_ms :: int

text \<open>
  The two endpoints: the delta since a cursor (by the number of the page) and the window from one
  time to another. An error carries the HTTP status when it is an \<open>ApiError\<close>.
\<close>

record ring_server =
  sv_delta :: "nat \<Rightarrow> string \<Rightarrow> api_error + retained_window_result"
  sv_window :: "int \<Rightarrow> int \<Rightarrow> nat \<Rightarrow> api_error + retained_window_result"

fun delta_pages ::
  "(string \<Rightarrow> int option) \<Rightarrow> ring_server \<Rightarrow> nat \<Rightarrow> string \<Rightarrow> timeline_event list \<Rightarrow> bool
    \<Rightarrow> api_error + string \<times> timeline_event list \<times> bool" where
  \<comment> \<open>\<open>for (page = 0; page < RETAINED_DELTA_MAX_PAGES; page++)\<close>, counting down the pages left\<close>
  "delta_pages date_parse server 0 cursor merged changed = Inr (cursor, merged, changed)"
| "delta_pages date_parse server (Suc n) cursor merged changed =
     (case sv_delta server (retained_delta_max_pages - Suc n) cursor of
        Inl err \<Rightarrow> Inl err
      | Inr delta \<Rightarrow>
          let cursor' = or_else (rw_cursor delta) cursor;
              merged' = (if rw_events delta \<noteq> [] then merge_delta_events date_parse merged (rw_events delta) None else merged);
              changed' = (changed \<or> rw_events delta \<noteq> [])
          in if \<not> rw_more delta then Inr (cursor', merged', changed')
             else delta_pages date_parse server n cursor' merged' changed')"

record ring_env =
  en_cap_ms :: "int option"
  en_now :: int
  en_ring_limit :: nat
  en_resync_ms :: int
  en_force_resync :: bool  \<comment> \<open>\<open>forceResync.has(ringKey)\<close>\<close>
  en_aborted :: bool       \<comment> \<open>\<open>signal.aborted\<close> when the load resolves\<close>

text \<open>The result of a fetch comes with the flag of the ring's key in \<open>forceResync\<close> afterwards.\<close>

definition full_ring_load :: "ring_server \<Rightarrow> ring_env \<Rightarrow> (api_error + retained_ring) \<times> bool" where
  "full_ring_load server env =
     (let to = en_now env + clock_skew_slack_ms in
      case sv_window server (case en_cap_ms env of Some cap \<Rightarrow> to - cap | None \<Rightarrow> 0) to (en_ring_limit env) of
        Inl err \<Rightarrow> (Inl err, en_force_resync env)
      | Inr full \<Rightarrow> (Inr \<lparr>rg_events = rw_events full, rg_coverage = rw_coverage full, rg_truncated = rw_truncated full,
          rg_cursor = rw_cursor full, rg_loaded_at_ms = en_now env\<rparr>, en_force_resync env \<and> en_aborted env))"

definition above_floor :: "(string \<Rightarrow> int option) \<Rightarrow> ring_env \<Rightarrow> timeline_event \<Rightarrow> bool" where
  \<comment> \<open>the retention floor; a comparison with \<open>NaN\<close> is false\<close>
  "above_floor date_parse env e =
     (case en_cap_ms env of
        None \<Rightarrow> True
      | Some cap \<Rightarrow> (case date_parse (ev_timestamp e) of
          None \<Rightarrow> False | Some t \<Rightarrow> t \<ge> en_now env - cap - clock_skew_slack_ms))"

definition grow_ring ::
  "(string \<Rightarrow> int option) \<Rightarrow> ring_env \<Rightarrow> retained_ring \<Rightarrow> string \<Rightarrow> timeline_event list \<Rightarrow> retained_ring" where
  "grow_ring date_parse env cached cursor merged =
     (let pruned = filter (above_floor date_parse env) merged;
          capped = length pruned > en_ring_limit env
      in \<lparr>rg_events = (if capped then take (en_ring_limit env) pruned else pruned),
          rg_coverage = rg_coverage cached, rg_truncated = rg_truncated cached \<or> capped,
          rg_cursor = Some cursor, rg_loaded_at_ms = rg_loaded_at_ms cached\<rparr>)"

definition resync_due :: "ring_env \<Rightarrow> retained_ring \<Rightarrow> bool" where
  "resync_due env cached \<longleftrightarrow>
     (let age = en_now env - rg_loaded_at_ms cached in en_force_resync env \<or> age < 0 \<or> age > en_resync_ms env)"

definition run_retained_ring_fetch ::
  "(string \<Rightarrow> int option) \<Rightarrow> ring_server \<Rightarrow> ring_env \<Rightarrow> retained_ring option
    \<Rightarrow> (api_error + retained_ring) \<times> bool" where
  "run_retained_ring_fetch date_parse server env cached =
     (case cached of
        None \<Rightarrow> full_ring_load server env
      | Some ring \<Rightarrow>
          if resync_due env ring then full_ring_load server env
          else if \<not> truthy_str (rg_cursor ring) then (Inr ring, en_force_resync env)
          else (case delta_pages date_parse server retained_delta_max_pages (coalesce (rg_cursor ring) [])
                       (rg_events ring) False of
                  Inl err \<Rightarrow> if ae_status err = Some 400 then full_ring_load server env else (Inl err, en_force_resync env)
                | Inr (cursor, merged, changed) \<Rightarrow>
                    if \<not> changed \<and> Some cursor = rg_cursor ring then (Inr ring, en_force_resync env)
                    else (Inr (grow_ring date_parse env ring cursor merged), en_force_resync env)))"

definition event_times :: "(string \<Rightarrow> int option) \<Rightarrow> timeline_event list \<Rightarrow> int list" where
  "event_times date_parse events = List.map_filter (\<lambda>e. date_parse (ev_timestamp e)) events"

definition needs_window_fetch :: "(string \<Rightarrow> int option) \<Rightarrow> retained_ring \<Rightarrow> int \<Rightarrow> int \<Rightarrow> int \<Rightarrow> bool" where
  \<comment> \<open>no finite time at all leaves \<open>oldest\<close> infinite, so the window is fetched\<close>
  "needs_window_fetch date_parse ring from_ms to_ms now =
     (if \<not> rg_truncated ring then False
      else case event_times date_parse (rg_events ring) of
             [] \<Rightarrow> True
           | t # ts \<Rightarrow>
               let oldest = fold min ts t; newest = fold max ts t in
               if to_ms \<ge> min newest now - live_window_tick_slack_ms then False else from_ms < oldest)"

section \<open>Client-side filters and the local overview\<close>

record timeline_query =
  tq_namespaces :: "string list option"
  tq_kinds :: "string list option"
  tq_include_k8s_events :: "bool option"
  tq_include_deleted :: "bool option"
  tq_include_managed :: "bool option"
  tq_from_ms :: "int option"
  tq_to_ms :: "int option"
  tq_limit :: "nat option"

definition is_managed_timeline_event :: "timeline_event \<Rightarrow> bool" where
  "is_managed_timeline_event e \<longleftrightarrow>
     ev_owner e \<noteq> None \<or> ev_kind e = ''ReplicaSet'' \<or> ev_kind e = ''Pod'' \<or> ev_kind e = ''Event''"

definition in_window :: "(string \<Rightarrow> int option) \<Rightarrow> timeline_query \<Rightarrow> timeline_event \<Rightarrow> bool" where
  "in_window date_parse q e =
     (case date_parse (ev_timestamp e) of
        None \<Rightarrow> True
      | Some t \<Rightarrow> (case tq_from_ms q of None \<Rightarrow> True | Some f \<Rightarrow> f \<le> t) \<and> (case tq_to_ms q of None \<Rightarrow> True | Some u \<Rightarrow> t \<le> u))"

definition list_filter_on :: "string list option \<Rightarrow> string \<Rightarrow> bool" where
  "list_filter_on xs v = (case xs of None \<Rightarrow> True | Some ys \<Rightarrow> ys = [] \<or> v \<in> set ys)"

definition client_match :: "(string \<Rightarrow> int option) \<Rightarrow> timeline_query \<Rightarrow> timeline_event \<Rightarrow> bool" where
  "client_match date_parse q e \<longleftrightarrow>
     list_filter_on (tq_namespaces q) (ev_namespace e) \<and> list_filter_on (tq_kinds q) (ev_kind e)
     \<and> (tq_include_k8s_events q = Some False \<longrightarrow> ev_source e \<noteq> SrcK8sEvent)
     \<and> (tq_include_deleted q = Some False \<longrightarrow> ev_type e \<noteq> EvDelete)
     \<and> (tq_include_managed q = Some False \<longrightarrow> \<not> is_managed_timeline_event e)
     \<and> (tq_from_ms q = None \<and> tq_to_ms q = None \<or> in_window date_parse q e)"

definition compare_time_desc :: "(string \<Rightarrow> int option) \<Rightarrow> timeline_event \<Rightarrow> timeline_event \<Rightarrow> int" where
  "compare_time_desc date_parse a b =
     (case (date_parse (ev_timestamp a), date_parse (ev_timestamp b)) of (Some ta, Some tb) \<Rightarrow> tb - ta | _ \<Rightarrow> 0)"

definition apply_client_filters :: "(string \<Rightarrow> int option) \<Rightarrow> timeline_event list \<Rightarrow> timeline_query \<Rightarrow> timeline_event list" where
  "apply_client_filters date_parse events q =
     (let out = js_sort (compare_time_desc date_parse) (filter (client_match date_parse q) events)
      in case tq_limit q of None \<Rightarrow> out | Some n \<Rightarrow> if n \<noteq> 0 \<and> length out > n then take n out else out)"

section \<open>The local overview\<close>

record hour_slot =
  hs_total :: nat
  hs_adds :: nat
  hs_updates :: nat
  hs_deletes :: nat
  hs_warnings :: nat
  hs_namespaces :: "string list"

record overview_bucket =
  ob_start_ms :: int
  ob_slot :: hour_slot
  ob_worst_health :: health_status

definition empty_slot :: hour_slot where
  "empty_slot = \<lparr>hs_total = 0, hs_adds = 0, hs_updates = 0, hs_deletes = 0, hs_warnings = 0, hs_namespaces = []\<rparr>"

definition count_event :: "timeline_event \<Rightarrow> hour_slot \<Rightarrow> hour_slot" where
  "count_event e s =
     \<lparr>hs_total = hs_total s + 1,
      hs_adds = hs_adds s + (if ev_type e = EvAdd then 1 else 0),
      hs_updates = hs_updates s + (if ev_type e = EvUpdate then 1 else 0),
      hs_deletes = hs_deletes s + (if ev_type e = EvDelete then 1 else 0),
      hs_warnings = hs_warnings s + (if ev_type e = EvWarning then 1 else 0),
      hs_namespaces = (if ev_namespace e \<noteq> [] then set_add (ev_namespace e) (hs_namespaces s) else hs_namespaces s)\<rparr>"

definition overview_step ::
  "(string \<Rightarrow> int option) \<Rightarrow> int \<Rightarrow> timeline_event \<Rightarrow> (int \<times> hour_slot) list \<Rightarrow> (int \<times> hour_slot) list" where
  "overview_step date_parse bucket_ms e slots =
     (case date_parse (ev_timestamp e) of
        None \<Rightarrow> slots
      | Some t \<Rightarrow> let hour = (t div bucket_ms) * bucket_ms
                  in AList.update hour (count_event e (coalesce (map_of slots hour) empty_slot)) slots)"

definition bucket_from :: "int \<times> hour_slot \<Rightarrow> overview_bucket" where
  "bucket_from slot = \<lparr>ob_start_ms = fst slot, ob_slot = snd slot,
     ob_worst_health = (if hs_warnings (snd slot) > 0 then StUnhealthy else StHealthy)\<rparr>"

definition overview_buckets ::
  "(string \<Rightarrow> int option) \<Rightarrow> int \<Rightarrow> timeline_event list \<Rightarrow> overview_bucket list" where
  "overview_buckets date_parse bucket_ms events =
     js_sort (\<lambda>a b. ob_start_ms a - ob_start_ms b)
       (map bucket_from (fold (overview_step date_parse bucket_ms) events []))"

definition available_from_ms :: "(string \<Rightarrow> int option) \<Rightarrow> timeline_event list \<Rightarrow> int option" where
  "available_from_ms date_parse events =
     (case event_times date_parse events of [] \<Rightarrow> None | t # ts \<Rightarrow> Some (fold min ts t))"

definition local_overview_from_events ::
  "(string \<Rightarrow> int option) \<Rightarrow> int \<Rightarrow> timeline_event list \<Rightarrow> overview_bucket list \<times> int option" where
  "local_overview_from_events date_parse bucket_ms events =
     (overview_buckets date_parse bucket_ms events, available_from_ms date_parse events)"

section \<open>The stream reader does not see the chunks\<close>

lemma drain_lines_append:
  "drain_lines rp acc (xs @ ys) st = drain_lines rp (fst (drain_lines rp acc xs st)) ys (snd (drain_lines rp acc xs st))"
  by (induction rp acc xs st rule: drain_lines.induct) simp_all

lemma drain_lines_no_newline:
  assumes "CHR 0x0A \<notin> set xs"
  shows "drain_lines rp acc xs st = (acc @ xs, st)"
  using assms by (induction rp acc xs st rule: drain_lines.induct) auto

lemma drain_lines_rest: "CHR 0x0A \<notin> set acc \<Longrightarrow> CHR 0x0A \<notin> set (fst (drain_lines rp acc xs st))"
  by (induction rp acc xs st rule: drain_lines.induct) auto

lemma read_chunks_concat:
  assumes "CHR 0x0A \<notin> set buf"
  shows "fold (read_chunk rp) chunks (td, buf, st) =
    (let (td', text) = text_decode td (concat chunks) in (td', drain_lines rp [] (buf @ text) st))"
  using assms
proof (induction chunks arbitrary: td buf st)
  case Nil
  then show ?case by (simp add: drain_lines_no_newline)
next
  case (Cons c chunks)
  obtain td' decoded where decode: "text_decode td c = (td', decoded)" by fastforce
  obtain buf' st' where step: "drain_lines rp [] (buf @ decoded) st = (buf', st')" by fastforce
  have no_newline: "CHR 0x0A \<notin> set buf'" using drain_lines_rest [of "[]" rp "buf @ decoded" st] step by simp
  have "drain_lines rp [] (buf @ decoded @ later) st = drain_lines rp buf' later st'" for later
    using drain_lines_append [of rp "[]" "buf @ decoded" later st] step by simp
  moreover have "drain_lines rp [] (buf' @ later) st' = drain_lines rp buf' later st'" for later
    using drain_lines_append [of rp "[]" buf' later st'] drain_lines_no_newline [OF no_newline] by simp
  ultimately show ?case
    using Cons.IH [OF no_newline, of td' st']
    by (simp add: read_chunk_def decode step text_decode_append case_prod_unfold Let_def)
qed

lemma drain_lines_split:
  assumes "CHR 0x0A \<notin> set acc"
  shows "(let (buf, st') = drain_lines rp acc xs st in handle_line rp buf st')
     = fold (handle_line rp) (split_char (CHR 0x0A) (acc @ xs)) st"
  using assms
proof (induction rp acc xs st rule: drain_lines.induct)
  case (1 rp acc st)
  have "split_char (CHR 0x0A) acc = [acc]" using 1 by (induction acc) auto
  then show ?case by simp
next
  case (2 rp acc c buf st)
  have split: "split_char (CHR 0x0A) (acc @ CHR 0x0A # buf) = acc # split_char (CHR 0x0A) buf"
    using 2(3) by (induction acc) auto
  show ?case
  proof (cases "c = CHR 0x0A")
    case True
    then show ?thesis using 2(1) [OF True] split by simp
  next
    case False
    then show ?thesis using 2(2) [OF False] 2(3) by simp
  qed
qed

lemma read_stream_lines:
  "read_stream rp chunks =
     (case fold (handle_line rp) (split_char (CHR 0x0A) (utf8_text (concat chunks))) (Some stream_start) of
        None \<Rightarrow> Inl StreamParse | Some s \<Rightarrow> finish_stream s)"
proof -
  have "(let (td, buf, st) = fold (read_chunk rp) chunks (new_text_decoder, [], Some stream_start) in handle_line rp buf st)
      = fold (handle_line rp) (split_char (CHR 0x0A) (utf8_text (concat chunks))) (Some stream_start)"
    using drain_lines_split [of "[]" rp "utf8_text (concat chunks)" "Some stream_start"]
    by (simp add: read_chunks_concat utf8_text_def case_prod_unfold Let_def)
  then show ?thesis
    unfolding read_stream_def by (simp add: case_prod_unfold Let_def)
qed

text \<open>
  C7. The stream reader decodes the body and splits it into lines as if it had arrived at once: however
  the bytes are cut into chunks, in the middle of a record, of a line or of a character, the result is
  that of decoding the whole body, handling its lines in order and then looking at the terminal record.
  And where the body is text in UTF-8, the lines are those of the very text that was encoded, less a
  byte order mark in front: no character is replaced or lost.
\<close>

theorem stream_reader_ignores_chunking:
  "read_stream rp chunks =
     (case fold (handle_line rp) (split_char (CHR 0x0A) (utf8_text (concat chunks))) (Some stream_start) of
        None \<Rightarrow> Inl StreamParse | Some s \<Rightarrow> finish_stream s)
   \<and> (concat chunks = utf8_encode_all body \<and> list_all unicode_scalar body \<longrightarrow>
        utf8_text (concat chunks) = utf8_encode_all (without_bom body))"
  using read_stream_lines [of rp chunks] utf8_text_encode_all [of body] by metis

section \<open>A stream is taken whole or not at all\<close>

text \<open>What one line of the stream carries, for the statements.\<close>

definition line_record :: "record_parser \<Rightarrow> string \<Rightarrow> stream_record option" where
  "line_record rp line =
     (if trim line = [] then None else Option.bind (rp_parse rp (trim line))
        (\<lambda>rec. if rec = JNull then None else Some (classify_record rec)))"

definition line_events :: "record_parser \<Rightarrow> string list \<Rightarrow> timeline_event list" where
  "line_events rp lines =
     List.map_filter (\<lambda>l. case line_record rp l of Some (RecEvent e) \<Rightarrow> Some (rp_event rp e) | _ \<Rightarrow> None) lines"

definition line_coverage :: "record_parser \<Rightarrow> string list \<Rightarrow> json list" where
  "line_coverage rp lines =
     List.map_filter (\<lambda>l. case line_record rp l of Some (RecCoverage c) \<Rightarrow> Some c | _ \<Rightarrow> None) lines"

definition line_terminals :: "record_parser \<Rightarrow> string list \<Rightarrow> terminal_record list" where
  "line_terminals rp lines =
     List.map_filter (\<lambda>l. case line_record rp l of Some (RecEnd c m t) \<Rightarrow> Some (TermEnd c m t)
       | Some (RecError m) \<Rightarrow> Some (TermError m) | _ \<Rightarrow> None) lines"

definition all_readable :: "record_parser \<Rightarrow> string list \<Rightarrow> bool" where
  "all_readable rp lines = list_all (\<lambda>l. trim l = [] \<or> line_record rp l \<noteq> None) lines"

definition by_id :: "timeline_event list \<Rightarrow> (string \<times> timeline_event) list" where
  "by_id events = map (\<lambda>e. (ev_id e, e)) events"

lemma handle_line_None [simp]: "handle_line rp line None = None"
  by (simp add: handle_line_def)

lemma fold_handle_line_None [simp]: "fold (handle_line rp) lines None = None"
  by (induction lines) simp_all

lemma handle_line_readable:
  "handle_line rp line (Some s) =
     (if all_readable rp [line]
      then Some (s\<lparr>ss_events := ss_events s @ line_events rp [line], ss_coverage := ss_coverage s @ line_coverage rp [line],
             ss_terminal := (if line_terminals rp [line] = [] then ss_terminal s else Some (last (line_terminals rp [line])))\<rparr>)
      else None)"
  by (auto simp: handle_line_def line_record_def all_readable_def line_events_def line_coverage_def line_terminals_def
      List.map_filter_def split: option.splits stream_record.splits)

lemma fold_handle_line:
  "fold (handle_line rp) lines (Some s) =
     (if all_readable rp lines
      then Some (s\<lparr>ss_events := ss_events s @ line_events rp lines, ss_coverage := ss_coverage s @ line_coverage rp lines,
             ss_terminal := (if line_terminals rp lines = [] then ss_terminal s else Some (last (line_terminals rp lines)))\<rparr>)
      else None)"
proof (induction lines arbitrary: s)
  case Nil
  then show ?case by (simp add: all_readable_def line_events_def line_coverage_def line_terminals_def List.map_filter_def)
next
  case (Cons l lines)
  have "all_readable rp (l # lines) \<longleftrightarrow> all_readable rp [l] \<and> all_readable rp lines"
    by (simp add: all_readable_def)
  moreover have "line_events rp (l # lines) = line_events rp [l] @ line_events rp lines"
    "line_coverage rp (l # lines) = line_coverage rp [l] @ line_coverage rp lines"
    "line_terminals rp (l # lines) = line_terminals rp [l] @ line_terminals rp lines"
    by (simp_all add: line_events_def line_coverage_def line_terminals_def List.map_filter_def split: option.splits)
  ultimately show ?case by (simp add: handle_line_readable Cons.IH last_append)
qed

lemma map_from_keys_distinct: "distinct (map fst (map_from kvs))"
proof -
  have "distinct (map fst m) \<Longrightarrow> distinct (map fst (fold (\<lambda>(k, v) m. AList.update k v m) kvs m))" for m :: "('a \<times> 'b) list"
    by (induction kvs arbitrary: m) (auto simp: distinct_update)
  then show ?thesis by (simp add: map_from_def)
qed

lemma update_set_subset: "set (AList.update k v m) \<subseteq> insert (k, v) (set m)"
  by (induction m) auto

lemma map_from_set: "set (map_from kvs) \<subseteq> set kvs"
proof -
  have "set (fold (\<lambda>(k, v) m. AList.update k v m) kvs m) \<subseteq> set m \<union> set kvs" for m :: "('a \<times> 'b) list"
  proof (induction kvs arbitrary: m)
    case Nil
    then show ?case by simp
  next
    case (Cons kv kvs)
    obtain k v where kv: "kv = (k, v)" by fastforce
    show ?case using Cons.IH [of "AList.update k v m"] update_set_subset [of k v m] by (auto simp: kv)
  qed
  from this [of "[]"] show ?thesis by (simp add: map_from_def)
qed

lemma by_id_dedupe: "by_id (dedupe_by_id events) = map_from (by_id events)"
proof -
  have "fst kv = ev_id (snd kv)" if "kv \<in> set (map_from (by_id events))" for kv
    using map_from_set [of "by_id events"] that by (auto simp: by_id_def)
  then have "map (\<lambda>kv. (ev_id (snd kv), snd kv)) (map_from (by_id events)) = map_from (by_id events)"
    by (intro map_idI) (metis prod.collapse)
  then show ?thesis by (simp add: dedupe_by_id_def by_id_def comp_def)
qed

lemma dedupe_by_id_distinct: "distinct (map ev_id (dedupe_by_id events))"
proof -
  have "map ev_id (dedupe_by_id events) = map fst (by_id (dedupe_by_id events))"
    by (simp add: by_id_def comp_def)
  then show ?thesis by (simp add: by_id_dedupe map_from_keys_distinct)
qed

lemma dedupe_by_id_last: "map_of (by_id (dedupe_by_id events)) i = map_of (rev (by_id events)) i"
  by (simp add: by_id_dedupe map_of_map_from)

text \<open>
  C6. A stream is taken whole or not at all. A result means that every line of the decoded body was
  blank or a record, that there was a terminal record and the last one was an \<open>end\<close>, whose cursor and
  flags the result carries, and that the events are those of all the lines, each id once with its last
  revision, and the coverage records those of all the lines. Otherwise there is an error, and it says
  which: a line that is no record, no terminal record at all (a body that breaks off, even at the end
  of a line), or an \<open>error\<close> record as the last terminal one, with its message. Where the \<open>end\<close> record stands
  is not looked at: events and coverage that follow it are taken, and a later terminal record decides.
\<close>

theorem stream_result_is_whole:
  assumes "lines = split_char (CHR 0x0A) (utf8_text (concat chunks))"
  shows "case read_stream rp chunks of
      Inr r \<Rightarrow> all_readable rp lines \<and> line_terminals rp lines \<noteq> []
        \<and> (\<exists>more trunc. last (line_terminals rp lines) = TermEnd (rw_cursor r) more trunc
             \<and> rw_more r = (more = Some True) \<and> rw_truncated r = (trunc = Some True))
        \<and> distinct (map ev_id (rw_events r))
        \<and> map_of (by_id (rw_events r)) = map_of (rev (by_id (line_events rp lines)))
        \<and> rw_coverage r = line_coverage rp lines
    | Inl StreamParse \<Rightarrow> \<not> all_readable rp lines
    | Inl StreamTruncated \<Rightarrow> all_readable rp lines \<and> line_terminals rp lines = []
    | Inl (StreamFailed text) \<Rightarrow> all_readable rp lines \<and> line_terminals rp lines \<noteq> []
        \<and> (\<exists>m. last (line_terminals rp lines) = TermError m \<and> text = or_else m ''timeline stream error'')"
proof (cases "all_readable rp lines \<and> line_terminals rp lines \<noteq> []")
  case False
  then show ?thesis
    by (auto simp: read_stream_lines assms [symmetric] fold_handle_line finish_stream_def stream_start_def)
next
  case True
  define s where "s = \<lparr>ss_events = line_events rp lines, ss_coverage = line_coverage rp lines,
    ss_terminal = Some (last (line_terminals rp lines))\<rparr>"
  have result: "read_stream rp chunks = finish_stream s"
    using True by (simp add: read_stream_lines assms [symmetric] fold_handle_line stream_start_def s_def)
  show ?thesis
  proof (cases "last (line_terminals rp lines)")
    case (TermEnd c m t)
    have "map_of (by_id (dedupe_by_id (line_events rp lines))) = map_of (rev (by_id (line_events rp lines)))"
      by (rule ext) (rule dedupe_by_id_last)
    then show ?thesis using True TermEnd by (simp add: result finish_stream_def s_def dedupe_by_id_distinct)
  next
    case (TermError m)
    then show ?thesis using True by (simp add: result finish_stream_def s_def)
  qed
qed

definition sample_event :: "string \<Rightarrow> string \<Rightarrow> nat option \<Rightarrow> timeline_event" where
  "sample_event i time sq = \<lparr>ev_id = i, ev_timestamp = time, ev_source = SrcInformer, ev_seq = sq, ev_kind = ''Pod'',
     ev_api_version = None, ev_namespace = ''ns'', ev_name = ''p'', ev_uid = None, ev_created_at = None, ev_type = EvUpdate,
     ev_reason = None, ev_message = None, ev_diff = None, ev_health_state = None, ev_owner = None, ev_labels = None,
     ev_count = None, ev_correlation_id = None\<rparr>"

definition sample_parser :: record_parser where
  "sample_parser = \<lparr>rp_parse = map_of [(''a'', JObj [(''id'', JStr ''a'')]), ([CHR 0xC3, CHR 0xA9], JObj [(''id'', JStr ''b'')]),
       (''end'', JObj [(''type'', JStr ''end''), (''cursor'', JStr ''c1'')])],
     rp_event = (\<lambda>j. sample_event (or_else (json_str (json_get (Some j) ''id'')) []) ''5'' None)\<rparr>"

definition sample_chunks :: "string list" where
  \<comment> \<open>a byte order mark in front, and the second id cut inside its one character\<close>
  "sample_chunks = [[CHR 0xEF], [CHR 0xBB, CHR 0xBF, CHR ''a''], [CHR 0x0A, CHR 0xC3], [CHR 0xA9, CHR 0x0A, CHR ''a'', CHR 0x0A, CHR ''e''], ''nd'']"

lemma stream_result_is_whole_witness:
  "\<exists>r. read_stream sample_parser sample_chunks = Inr r \<and> length (rw_events r) = 2 \<and> distinct (map ev_id (rw_events r))"
proof -
  have "case read_stream sample_parser sample_chunks of Inr r \<Rightarrow> length (rw_events r) = 2 | Inl err \<Rightarrow> False"
    by code_simp
  then obtain r where r: "read_stream sample_parser sample_chunks = Inr r" and n: "length (rw_events r) = 2"
    by (auto split: sum.splits)
  show ?thesis using stream_result_is_whole [OF refl, where rp = sample_parser and chunks = sample_chunks] r n by simp
qed

lemma stream_reader_ignores_chunking_witness:
  "utf8_text (concat sample_chunks) = utf8_encode_all [97, 10, 0xE9, 10, 97, 10, 101, 110, 100]"
proof -
  have "concat sample_chunks = utf8_encode_all [0xFEFF, 97, 10, 0xE9, 10, 97, 10, 101, 110, 100]"
    by (simp add: sample_chunks_def utf8_encode_all_def utf8_encode_def char_of_eq_iff eq_commute [of _ "char_of _"])
  moreover have "list_all unicode_scalar [0xFEFF, 97, 10, 0xE9, 10, 97, 10, 101, 110, 100]"
    by (simp add: unicode_scalar_def)
  ultimately have "utf8_text (concat sample_chunks) = utf8_encode_all (without_bom [0xFEFF, 97, 10, 0xE9, 10, 97, 10, 101, 110, 100])"
    using stream_reader_ignores_chunking [of sample_parser sample_chunks "[0xFEFF, 97, 10, 0xE9, 10, 97, 10, 101, 110, 100]"] by blast
  then show ?thesis by (simp add: without_bom_def)
qed

section \<open>Merging a delta page\<close>

lemma compare_newest_first_total:
  assumes "\<forall>e \<in> set xs. date_parse (ev_timestamp e) \<noteq> None"
  shows "sorted_wrt (\<lambda>a b. compare_newest_first date_parse a b \<le> 0) (js_sort (compare_newest_first date_parse) xs)"
proof -
  define time where "time e = the (date_parse (ev_timestamp e))" for e :: timeline_event
  define cmp where "cmp = (\<lambda>x (y :: timeline_event). if time y - time x \<noteq> 0 then time y - time x
      else int (coalesce (ev_seq y) 0) - int (coalesce (ev_seq x) 0))"
  have agree: "compare_newest_first date_parse a b = cmp a b" if "a \<in> set xs" "b \<in> set xs" for a b
    using assms that by (auto simp: compare_newest_first_def cmp_def time_def split: option.splits)
  have "js_sort (compare_newest_first date_parse) xs = js_sort cmp xs"
    by (intro js_sort_cong agree)
  moreover have "sorted_wrt (\<lambda>a b. cmp a b \<le> 0) (js_sort cmp xs)"
    unfolding cmp_def by (rule by_keys_desc.sorted_js_sort)
  then have "sorted_wrt (\<lambda>a b. compare_newest_first date_parse a b \<le> 0) (js_sort cmp xs)"
    by (rule sorted_wrt_mono_rel [rotated]) (simp add: agree)
  ultimately show ?thesis by simp
qed

text \<open>
  Merging a delta page gives the newest \<open>cap\<close> of the delta's rows and the cached rows it does not
  replace, newest first, arrival numbers breaking ties: what the cap drops comes after everything
  that is kept. A row that arrives again under its id replaces the cached copy, so ids stay distinct.
\<close>

theorem merge_delta_keeps_the_newest:
  assumes "\<forall>e \<in> set prev \<union> set delta. date_parse (ev_timestamp e) \<noteq> None" and "delta \<noteq> []"
    and "merged = merge_delta_events date_parse prev delta (Some cap)"
    and "rows = delta @ filter (\<lambda>e. ev_id e \<notin> ev_id ` set delta) prev"
  shows "(\<exists>dropped. mset (merged @ dropped) = mset rows
       \<and> sorted_wrt (\<lambda>a b. compare_newest_first date_parse a b \<le> 0) (merged @ dropped))
    \<and> length merged = min cap (length rows)
    \<and> (distinct (map ev_id prev) \<and> distinct (map ev_id delta) \<longrightarrow> distinct (map ev_id merged))"
proof -
  define all where "all = js_sort (compare_newest_first date_parse) rows"
  have merged: "merged = take cap all"
    using assms(2-4) by (simp add: merge_delta_events_def take_cap_def all_def Let_def)
  have "mset (merged @ drop cap all) = mset rows" by (simp add: merged all_def flip: mset_append)
  moreover have "sorted_wrt (\<lambda>a b. compare_newest_first date_parse a b \<le> 0) all"
    unfolding all_def by (rule compare_newest_first_total) (use assms(1,4) in auto)
  moreover have "length merged = min cap (length rows)" by (simp add: merged all_def)
  moreover have "distinct (map ev_id merged)" if "distinct (map ev_id prev)" "distinct (map ev_id delta)"
  proof -
    have "map ev_id rows = map ev_id delta @ filter (\<lambda>i. i \<notin> ev_id ` set delta) (map ev_id prev)"
      by (simp add: assms(4) filter_map comp_def)
    then have "distinct (map ev_id rows)"
      using that by (simp only: distinct_append distinct_filter set_filter set_map) blast
    moreover have "mset (map ev_id all) = mset (map ev_id rows)" by (simp add: all_def)
    ultimately have "distinct (map ev_id all)" by (metis mset_eq_imp_distinct_iff)
    then show ?thesis by (simp add: merged flip: take_map)
  qed
  ultimately show ?thesis by (metis append_take_drop_id merged)
qed

definition sample_date :: "string \<Rightarrow> int option" where
  "sample_date s = (case s of [c] \<Rightarrow> Some (of_char c) | _ \<Rightarrow> None)"

definition sample_cached :: "timeline_event list" where
  "sample_cached = [sample_event ''b'' ''5'' (Some 2), sample_event ''a'' ''3'' (Some 1)]"

definition sample_delta :: "timeline_event list" where
  "sample_delta = [sample_event ''a'' ''7'' (Some 3)]"

lemma merge_delta_keeps_the_newest_witness:
  "map ev_id (merge_delta_events sample_date sample_cached sample_delta (Some 1)) = [''a'']
   \<and> length (merge_delta_events sample_date sample_cached sample_delta (Some 1)) = 1"
proof -
  have dates: "\<forall>e \<in> set sample_cached \<union> set sample_delta. sample_date (ev_timestamp e) \<noteq> None" by code_simp
  have "sample_delta \<noteq> []" by code_simp
  from merge_delta_keeps_the_newest [OF dates this refl refl, of 1]
  have "length (merge_delta_events sample_date sample_cached sample_delta (Some 1))
      = min 1 (length (sample_delta @ filter (\<lambda>e. ev_id e \<notin> ev_id ` set sample_delta) sample_cached))" by (elim conjE)
  also have "\<dots> = 1" by code_simp
  finally show ?thesis by (intro conjI) code_simp
qed

section \<open>The delta cursor over the life of a query\<close>

text \<open>
  The cached page of a query and its meta record, over any sequence of refetches against any servers
  and clocks. The query cache may drop a page while the meta record stays, and a refetch whose result
  is discarded (cancelled after its response) has already moved the record.
\<close>

inductive delta_reachable ::
  "(string \<Rightarrow> int option) \<Rightarrow> nat \<Rightarrow> timeline_event list option \<Rightarrow> changes_delta_meta option \<Rightarrow> bool"
  for date_parse limit where
  delta_start: "delta_reachable date_parse limit None None"
| delta_fetch: "delta_reachable date_parse limit cached meta \<Longrightarrow>
    run_delta_sync_fetch date_parse server limit cached meta now = Inr (page, meta') \<Longrightarrow>
    delta_reachable date_parse limit (Some page) (Some meta')"
| delta_dropped: "delta_reachable date_parse limit cached meta \<Longrightarrow> delta_reachable date_parse limit None meta"

inductive_cases delta_reachableE: "delta_reachable date_parse limit cached meta"

lemma max_event_seq_Max: "max_event_seq events = Max (insert 0 ((\<lambda>e. coalesce (ev_seq e) 0) ` set events))"
proof -
  have "(\<lambda>(e :: timeline_event) m. case ev_seq e of None \<Rightarrow> m | Some s \<Rightarrow> if s > m then s else m) = max \<circ> (\<lambda>e. coalesce (ev_seq e) 0)"
    by (intro ext) (simp add: max_def split: option.splits)
  then have "max_event_seq events = fold max (map (\<lambda>e. coalesce (ev_seq e) 0) events) 0"
    by (simp add: max_event_seq_def fold_map)
  also have "\<dots> = Max (set (0 # map (\<lambda>e. coalesce (ev_seq e) 0) events))"
    by (rule Max.set_eq_fold [symmetric])
  finally show ?thesis by simp
qed

lemma max_event_seq_ge: "e \<in> set events \<Longrightarrow> coalesce (ev_seq e) 0 \<le> max_event_seq events"
  by (simp add: max_event_seq_Max)

lemma max_event_seq_mono: "set xs \<subseteq> set ys \<Longrightarrow> max_event_seq xs \<le> max_event_seq ys"
  unfolding max_event_seq_Max by (intro Max_mono) auto

lemma max_event_seq_le: "max_event_seq xs \<le> n \<longleftrightarrow> (\<forall>e \<in> set xs. coalesce (ev_seq e) 0 \<le> n)"
  by (auto simp: max_event_seq_Max)

lemma set_merge_delta_events:
  "set (merge_delta_events date_parse prev delta cap) \<subseteq> set prev \<union> set delta"
proof -
  have "set (take_cap cap (js_sort c (delta @ filter P prev))) \<subseteq> set prev \<union> set delta" for c P
    by (auto simp: take_cap_def dest: in_set_takeD split: option.splits)
  then show ?thesis by (simp add: merge_delta_events_def Let_def)
qed

lemma run_delta_sync_fetch_covers:
  assumes run: "run_delta_sync_fetch date_parse server limit cached meta now = Inr (page, meta')"
    and inv: "\<And>m events. meta = Some m \<Longrightarrow> cached = Some events \<Longrightarrow> max_event_seq events \<le> cm_high_water_seq m"
  shows "max_event_seq page \<le> cm_high_water_seq meta'"
proof -
  have full: "max_event_seq page \<le> cm_high_water_seq meta'" if "full_sync server now = Inr (page, meta')"
    using that by (auto simp: full_sync_def split: sum.splits)
  have delta: "max_event_seq page \<le> cm_high_water_seq meta'"
    if m: "meta = Some m" and c: "cached = Some events"
      and page: "page = (if pg_events delta \<noteq> [] then merge_delta_events date_parse events (pg_events delta) (Some limit) else events)"
      and m': "meta' = m\<lparr>cm_high_water_seq := max (cm_high_water_seq m) (max (pg_max_seq delta) (max_event_seq (pg_events delta)))\<rparr>"
    for m events delta
  proof -
    have "set page \<subseteq> set events \<union> set (pg_events delta)"
      using set_merge_delta_events [of date_parse events "pg_events delta" "Some limit"] by (auto simp: page)
    moreover have "max_event_seq events \<le> cm_high_water_seq m" by (rule inv [OF m c])
    ultimately have "\<forall>e \<in> set page. coalesce (ev_seq e) 0 \<le> max (cm_high_water_seq m) (max_event_seq (pg_events delta))"
      by (force simp: max_event_seq_le le_max_iff_disj dest: max_event_seq_ge)
    then have "max_event_seq page \<le> max (cm_high_water_seq m) (max_event_seq (pg_events delta))"
      by (simp only: max_event_seq_le)
    also have "\<dots> \<le> cm_high_water_seq meta'" by (simp add: m')
    finally show ?thesis .
  qed
  show ?thesis
  proof (cases "full_sync server now = Inr (page, meta')")
    case True
    then show ?thesis by (rule full)
  next
    case False
    then obtain m events where m: "meta = Some m" and c: "cached = Some events"
      using run by (cases meta; cases cached) (simp_all add: run_delta_sync_fetch_def)
    obtain page_of where "server (Some (delta_fetch_cursor meta cached now)) = Inr page_of"
      using run False by (auto simp: run_delta_sync_fetch_def m c Let_def split: if_splits sum.splits)
    with run False have
      "page = (if pg_events page_of \<noteq> [] then merge_delta_events date_parse events (pg_events page_of) (Some limit) else events)"
      "meta' = m\<lparr>cm_high_water_seq := max (cm_high_water_seq m) (max (pg_max_seq page_of) (max_event_seq (pg_events page_of)))\<rparr>"
      by (simp_all add: run_delta_sync_fetch_def m c Let_def split: if_splits)
    then show ?thesis by (rule delta [OF m c])
  qed
qed

lemma delta_reachable_covers:
  "delta_reachable date_parse limit cached meta \<Longrightarrow> cached = Some events \<Longrightarrow> meta = Some m \<Longrightarrow>
   max_event_seq events \<le> cm_high_water_seq m"
proof (induction arbitrary: events m rule: delta_reachable.induct)
  case delta_start
  then show ?case by simp
next
  case (delta_fetch cached meta server now page meta')
  have "max_event_seq page \<le> cm_high_water_seq meta'"
    by (rule run_delta_sync_fetch_covers [OF delta_fetch.hyps(2)]) (use delta_fetch.IH in blast)
  then show ?case using delta_fetch.prems by simp
next
  case (delta_dropped cached meta)
  then show ?case by simp
qed

text \<open>
  The delta cursor never falls behind what was received. When a refetch asks for the delta since
  a cursor and the store epoch still holds, every later delta request (until the next full resync)
  asks from at or above that cursor, the page's frontier and every arrival number of its rows, so no
  row is asked for twice. That holds as well when the page is then discarded and the old rows stay
  cached: the rows of a discarded delta are not asked for again before the full resync.
\<close>

theorem delta_cursor_covers_received:
  assumes "delta_reachable date_parse limit (Some cached) (Some m)"
    and "delta_fetch_cursor (Some m) (Some cached) now = k" and "k > 0"
    and "server (Some k) = Inr delta" and "pg_epoch delta = cm_epoch m"
  shows "\<exists>page m'. run_delta_sync_fetch date_parse server limit (Some cached) (Some m) now = Inr (page, m')
    \<and> (\<forall>kept \<in> {page, cached}. \<forall>later. later - cm_last_full_ms m \<le> full_resync_ms \<longrightarrow>
         (let nxt = delta_fetch_cursor (Some m') (Some kept) later in
          k \<le> nxt \<and> pg_max_seq delta \<le> nxt \<and> (\<forall>e \<in> set (pg_events delta). coalesce (ev_seq e) 0 \<le> nxt)))"
proof -
  define m' where "m' = m\<lparr>cm_high_water_seq := max (cm_high_water_seq m) (max (pg_max_seq delta) (max_event_seq (pg_events delta)))\<rparr>"
  define page where "page = (if pg_events delta \<noteq> [] then merge_delta_events date_parse cached (pg_events delta) (Some limit) else cached)"
  have epoch: "cm_epoch m \<noteq> []" and k: "k = max (cm_high_water_seq m) (max_event_seq cached)"
    using assms(2,3) by (auto simp: delta_fetch_cursor_def split: if_splits)
  then have k': "k = cm_high_water_seq m"
    using delta_reachable_covers [OF assms(1) refl refl] by simp
  have "run_delta_sync_fetch date_parse server limit (Some cached) (Some m) now = Inr (page, m')"
    using assms(2-5) epoch by (simp add: run_delta_sync_fetch_def page_def m'_def)
  moreover have "k \<le> nxt \<and> pg_max_seq delta \<le> nxt \<and> (\<forall>e \<in> set (pg_events delta). coalesce (ev_seq e) 0 \<le> nxt)"
    if "later - cm_last_full_ms m \<le> full_resync_ms" "nxt = delta_fetch_cursor (Some m') (Some kept) later" for kept later nxt
  proof -
    have "cm_high_water_seq m' \<le> nxt" using that epoch by (simp add: delta_fetch_cursor_def m'_def)
    moreover have "max_event_seq (pg_events delta) \<le> cm_high_water_seq m'" by (simp add: m'_def)
    ultimately show ?thesis using max_event_seq_ge [of _ "pg_events delta"] by (fastforce simp: k' m'_def)
  qed
  ultimately show ?thesis by (auto simp: Let_def)
qed

definition sample_changes_server :: changes_server where
  "sample_changes_server since =
     (case since of
        None \<Rightarrow> Inr \<lparr>pg_events = sample_cached, pg_epoch = ''e1'', pg_max_seq = 2\<rparr>
      | Some k \<Rightarrow> Inr \<lparr>pg_events = sample_delta, pg_epoch = ''e1'', pg_max_seq = 3\<rparr>)"

definition sample_meta :: changes_delta_meta where
  "sample_meta = \<lparr>cm_epoch = ''e1'', cm_last_full_ms = 0, cm_high_water_seq = 2\<rparr>"

lemma delta_cursor_covers_received_witness:
  "\<exists>page m'. run_delta_sync_fetch sample_date sample_changes_server 9 (Some sample_cached) (Some sample_meta) 1 = Inr (page, m')
     \<and> 3 \<le> delta_fetch_cursor (Some m') (Some sample_cached) 2"
proof -
  have "run_delta_sync_fetch sample_date sample_changes_server 9 None None 0 = Inr (sample_cached, sample_meta)" by code_simp
  from delta_fetch [OF delta_start this]
  have reach: "delta_reachable sample_date 9 (Some sample_cached) (Some sample_meta)" .
  have "delta_fetch_cursor (Some sample_meta) (Some sample_cached) 1 = 2" "(0::nat) < 2" by code_simp+
  from delta_cursor_covers_received [OF reach this, of sample_changes_server
      "\<lparr>pg_events = sample_delta, pg_epoch = ''e1'', pg_max_seq = 3\<rparr>"]
  show ?thesis
    by (fastforce simp: sample_changes_server_def sample_meta_def full_resync_ms_def Let_def)
qed

section \<open>The ring between full loads\<close>

lemma delta_pages_unchanged:
  "delta_pages date_parse server n cursor merged changed = Inr (cursor', merged', changed') \<Longrightarrow>
   (changed \<longrightarrow> changed') \<and> (\<not> changed' \<longrightarrow> merged' = merged)"
proof (induction n arbitrary: cursor merged changed)
  case 0
  then show ?case by simp
next
  case (Suc n)
  obtain delta where d: "sv_delta server (retained_delta_max_pages - Suc n) cursor = Inr delta"
    using Suc.prems by (auto split: sum.splits)
  show ?case
  proof (cases "rw_more delta")
    case True
    then show ?thesis using Suc.prems Suc.IH by (fastforce simp: d Let_def split: if_splits)
  next
    case False
    then show ?thesis using Suc.prems by (auto simp: d Let_def split: if_splits)
  qed
qed

text \<open>
  C30. Between full loads the ring is never cut silently. A fetch that goes through with delta pages
  keeps only rows of the merge, within the row cap; what it leaves out of the merge is either below
  the retention floor or the ring says that it is truncated, and once truncated it stays so. It moves
  the cursor with the rows, and leaves the clock of the next full load alone.
\<close>

theorem ring_never_cut_silently:
  assumes "\<not> resync_due env ring" and "truthy_str (rg_cursor ring)"
    and "delta_pages date_parse server retained_delta_max_pages (coalesce (rg_cursor ring) []) (rg_events ring) False
       = Inr (cursor, merged, changed)"
    and "length (rg_events ring) \<le> en_ring_limit env"
  shows "\<exists>r. run_retained_ring_fetch date_parse server env (Some ring) = (Inr r, en_force_resync env)
    \<and> set (rg_events r) \<subseteq> set merged \<and> length (rg_events r) \<le> en_ring_limit env
    \<and> (\<not> rg_truncated r \<longrightarrow> (\<forall>e \<in> set merged. above_floor date_parse env e \<longrightarrow> e \<in> set (rg_events r)))
    \<and> (rg_truncated ring \<longrightarrow> rg_truncated r)
    \<and> rg_cursor r = Some cursor \<and> rg_loaded_at_ms r = rg_loaded_at_ms ring"
proof (cases "\<not> changed \<and> Some cursor = rg_cursor ring")
  case True
  then have "merged = rg_events ring" using delta_pages_unchanged [OF assms(3)] by blast
  moreover have "run_retained_ring_fetch date_parse server env (Some ring) = (Inr ring, en_force_resync env)"
    using True assms(1-3) by (simp add: run_retained_ring_fetch_def)
  ultimately show ?thesis using True assms(4) by auto
next
  case False
  then have "run_retained_ring_fetch date_parse server env (Some ring)
      = (Inr (grow_ring date_parse env ring cursor merged), en_force_resync env)"
    using assms(1-3) by (auto simp: run_retained_ring_fetch_def)
  moreover have "set (rg_events (grow_ring date_parse env ring cursor merged)) \<subseteq> set merged"
    by (auto simp: grow_ring_def Let_def dest: in_set_takeD)
  ultimately show ?thesis by (auto simp: grow_ring_def Let_def)
qed

definition sample_page :: "timeline_event list \<Rightarrow> string option \<Rightarrow> bool \<Rightarrow> retained_window_result" where
  "sample_page events c again = \<lparr>rw_events = events, rw_coverage = [], rw_cursor = c, rw_more = again, rw_truncated = False\<rparr>"

definition sample_ring :: retained_ring where
  "sample_ring = \<lparr>rg_events = sample_cached, rg_coverage = [], rg_truncated = False, rg_cursor = Some ''c1'', rg_loaded_at_ms = 0\<rparr>"

definition sample_ring_server :: ring_server where
  "sample_ring_server = \<lparr>sv_delta = (\<lambda>page c. if page = 0 then Inr (sample_page sample_delta (Some ''c2'') True)
       else Inr (sample_page [sample_event ''z'' ''1'' (Some 4)] (Some ''c3'') False)),
     sv_window = (\<lambda>from to lim. Inr (sample_page sample_delta (Some ''c9'') False))\<rparr>"

definition sample_env :: "bool \<Rightarrow> ring_env" where
  "sample_env force = \<lparr>en_cap_ms = None, en_now = 1, en_ring_limit = 2, en_resync_ms = 10, en_force_resync = force, en_aborted = False\<rparr>"

lemma ring_never_cut_silently_witness:
  "\<exists>r. run_retained_ring_fetch sample_date sample_ring_server (sample_env False) (Some sample_ring) = (Inr r, False)
     \<and> rg_truncated r \<and> rg_cursor r = Some ''c3''"
proof -
  have due: "\<not> resync_due (sample_env False) sample_ring" and cur: "truthy_str (rg_cursor sample_ring)"
    and len: "length (rg_events sample_ring) \<le> en_ring_limit (sample_env False)" by code_simp+
  obtain merged where pages: "delta_pages sample_date sample_ring_server retained_delta_max_pages
      (coalesce (rg_cursor sample_ring) []) (rg_events sample_ring) False = Inr (''c3'', merged, True)"
    and z: "map ev_id merged = [''a'', ''b'', ''z'']"
  proof -
    have "case delta_pages sample_date sample_ring_server retained_delta_max_pages
        (coalesce (rg_cursor sample_ring) []) (rg_events sample_ring) False of
        Inl err \<Rightarrow> False | Inr (c, m, ch) \<Rightarrow> c = ''c3'' \<and> map ev_id m = [''a'', ''b'', ''z''] \<and> ch" by code_simp
    then show thesis using that by (auto split: sum.splits)
  qed
  obtain r where r: "run_retained_ring_fetch sample_date sample_ring_server (sample_env False) (Some sample_ring)
        = (Inr r, en_force_resync (sample_env False))"
    and len_r: "length (rg_events r) \<le> 2" and cut: "\<not> rg_truncated r \<longrightarrow> set merged \<subseteq> set (rg_events r)"
    and c3: "rg_cursor r = Some ''c3''"
    using ring_never_cut_silently [OF due cur pages len] by (auto simp: sample_env_def above_floor_def)
  have "rg_truncated r"
  proof (rule ccontr)
    assume "\<not> rg_truncated r"
    then have "ev_id ` set merged \<subseteq> ev_id ` set (rg_events r)" using cut by blast
    then have "{''a'', ''b'', ''z''} \<subseteq> ev_id ` set (rg_events r)" using z by (metis list.set_map list.simps(15) set_empty)
    then have "card {''a'', ''b'', ''z''} \<le> card (ev_id ` set (rg_events r))" by (intro card_mono) auto
    also have "\<dots> \<le> length (rg_events r)" by (meson card_image_le card_length le_trans List.finite_set)
    finally show False using len_r by simp
  qed
  then show ?thesis using r c3 by (simp add: sample_env_def)
qed

text \<open>
  A manual refresh is not lost. While the flag of the ring is armed, a fetch never answers from
  the cache: a result is the window load of that moment. And only such a load disarms the flag, one
  that succeeded and was not aborted in the meantime; after a failure the flag is still armed.
\<close>

theorem forced_resync_survives:
  assumes "en_force_resync env" and "run_retained_ring_fetch date_parse server env cached = (res, flag)"
  shows "case res of
      Inl err \<Rightarrow> flag
    | Inr r \<Rightarrow> (flag \<longleftrightarrow> en_aborted env) \<and> rg_loaded_at_ms r = en_now env
       \<and> (\<exists>full from. sv_window server from (en_now env + clock_skew_slack_ms) (en_ring_limit env) = Inr full
            \<and> rg_events r = rw_events full \<and> rg_truncated r = rw_truncated full \<and> rg_cursor r = rw_cursor full)"
proof -
  have "run_retained_ring_fetch date_parse server env cached = full_ring_load server env"
    using assms(1) by (simp add: run_retained_ring_fetch_def resync_due_def Let_def split: option.splits)
  then have "full_ring_load server env = (res, flag)" using assms(2) by simp
  then show ?thesis
    using assms(1) by (auto simp: full_ring_load_def Let_def split: sum.splits)
qed

lemma forced_resync_survives_witness:
  "\<exists>r. run_retained_ring_fetch sample_date sample_ring_server (sample_env True) (Some sample_ring) = (Inr r, False)
     \<and> rg_loaded_at_ms r = 1"
proof -
  have force: "en_force_resync (sample_env True)" by code_simp
  have "case fst (run_retained_ring_fetch sample_date sample_ring_server (sample_env True) (Some sample_ring)) of
      Inl err \<Rightarrow> False | Inr r \<Rightarrow> True" by code_simp
  then obtain r flag where run: "run_retained_ring_fetch sample_date sample_ring_server (sample_env True) (Some sample_ring)
      = (Inr r, flag)"
    by (metis sum.case_eq_if prod.collapse sum.collapse(2))
  from forced_resync_survives [OF force run] have "\<not> flag" "rg_loaded_at_ms r = 1" by (auto simp: sample_env_def)
  then show ?thesis using run by simp
qed

section \<open>When the ring answers a window\<close>

lemma fold_min_Min: "fold min ts (t :: int) = Min (set (t # ts))"
  by (rule Min.set_eq_fold [symmetric])

lemma fold_max_Max: "fold max ts (t :: int) = Max (set (t # ts))"
  by (rule Max.set_eq_fold [symmetric])

definition event_time :: "(string \<Rightarrow> int option) \<Rightarrow> timeline_event \<Rightarrow> int" where
  "event_time date_parse e = the (date_parse (ev_timestamp e))"

lemma event_times_total:
  "\<forall>e \<in> set events. date_parse (ev_timestamp e) \<noteq> None \<Longrightarrow> event_times date_parse events = map (event_time date_parse) events"
  by (induction events) (auto simp: event_times_def List.map_filter_def event_time_def)

text \<open>
  When the ring is trusted with a window. Let the ring hold the newest rows of the server's log,
  and all of them unless it is truncated. If \<open>needsWindowFetch\<close> declines the fetch, then a row of the
  log above the from-edge that the ring lacks means that the window reaches up to the newest row of
  the ring or the clock, within the tick slack, and that all of the ring is above the from-edge and
  at least as new: the ring spends its budget as the server would. If it asks for the fetch, the ring
  is truncated and some of it lies above the window while none lies at or below its from-edge.
\<close>

theorem window_fetch_when_ring_may_lack_rows:
  assumes "\<forall>e \<in> set log. date_parse (ev_timestamp e) \<noteq> None" and "set (rg_events ring) \<subseteq> set log"
    and "\<not> rg_truncated ring \<Longrightarrow> set (rg_events ring) = set log"
    and "\<forall>e \<in> set log - set (rg_events ring). \<forall>x \<in> set (rg_events ring). event_time date_parse e \<le> event_time date_parse x"
    and "rg_events ring \<noteq> []" and "newest = Max (event_time date_parse ` set (rg_events ring))"
  shows "if needs_window_fetch date_parse ring from_ms to_ms now
    then rg_truncated ring \<and> (\<forall>x \<in> set (rg_events ring). from_ms < event_time date_parse x) \<and> to_ms < newest
    else \<forall>e \<in> set log - set (rg_events ring). from_ms < event_time date_parse e \<longrightarrow>
           min newest now - live_window_tick_slack_ms \<le> to_ms
           \<and> (\<forall>x \<in> set (rg_events ring). from_ms < event_time date_parse x \<and> event_time date_parse e \<le> event_time date_parse x)"
proof -
  let ?t = "event_time date_parse"
  obtain x xs where ev: "rg_events ring = x # xs" using assms(5) by (cases "rg_events ring") auto
  have "\<forall>e \<in> set (rg_events ring). date_parse (ev_timestamp e) \<noteq> None" using assms(1,2) by blast
  then have times: "event_times date_parse (x # xs) = ?t x # map ?t xs"
    using event_times_total [of "rg_events ring" date_parse] by (simp add: ev)
  define oldest where "oldest = Min (?t ` set (rg_events ring))"
  have needs: "needs_window_fetch date_parse ring from_ms to_ms now \<longleftrightarrow>
      rg_truncated ring \<and> to_ms < min newest now - live_window_tick_slack_ms \<and> from_ms < oldest"
    by (auto simp: needs_window_fetch_def times fold_min_Min fold_max_Max assms(6) oldest_def ev Let_def)
  have above: "from_ms < oldest \<longleftrightarrow> (\<forall>x \<in> set (rg_events ring). from_ms < ?t x)"
    by (simp add: oldest_def ev)
  show ?thesis
  proof (cases "needs_window_fetch date_parse ring from_ms to_ms now")
    case True
    then have "to_ms < newest" by (auto simp: needs live_window_tick_slack_ms_def)
    then show ?thesis using True needs above by simp
  next
    case False
    have "min newest now - live_window_tick_slack_ms \<le> to_ms \<and> (\<forall>x \<in> set (rg_events ring). from_ms < ?t x \<and> ?t e \<le> ?t x)"
      if e: "e \<in> set log" "e \<notin> set (rg_events ring)" and from_ms: "from_ms < ?t e" for e
    proof -
      have newer: "\<forall>x \<in> set (rg_events ring). ?t e \<le> ?t x" using assms(4) e by blast
      then have "\<forall>x \<in> set (rg_events ring). from_ms < ?t x" using from_ms by fastforce
      moreover have "rg_truncated ring" using assms(3) e by blast
      ultimately show ?thesis using False newer by (auto simp: needs above not_less)
    qed
    then show ?thesis unfolding if_not_P [OF False] by blast
  qed
qed

lemma window_fetch_when_ring_may_lack_rows_witness:
  "needs_window_fetch sample_date (sample_ring\<lparr>rg_truncated := True, rg_events := [sample_event ''b'' ''z'' None]\<rparr>) 3 4 (10 ^ 6) = False
   \<and> min 122 (10 ^ 6) - live_window_tick_slack_ms \<le> 4"
proof -
  let ?ring = "sample_ring\<lparr>rg_truncated := True, rg_events := [sample_event ''b'' ''z'' None]\<rparr>"
  let ?log = "[sample_event ''b'' ''z'' None, sample_event ''a'' ''A'' None]"
  have 1: "\<forall>e \<in> set ?log. sample_date (ev_timestamp e) \<noteq> None" by code_simp
  have 2: "set (rg_events ?ring) \<subseteq> set ?log" by simp
  have 3: "\<not> rg_truncated ?ring \<Longrightarrow> set (rg_events ?ring) = set ?log" by simp
  have 4: "\<forall>e \<in> set ?log - set (rg_events ?ring). \<forall>x \<in> set (rg_events ?ring). event_time sample_date e \<le> event_time sample_date x"
    by code_simp
  have 5: "rg_events ?ring \<noteq> []" by simp
  have 6: "122 = Max (event_time sample_date ` set (rg_events ?ring))" by code_simp
  have n: "needs_window_fetch sample_date ?ring 3 4 (10 ^ 6) = False" by code_simp
  have a: "sample_event ''a'' ''A'' None \<in> set ?log - set (rg_events ?ring)" by code_simp
  from window_fetch_when_ring_may_lack_rows [OF 1 2 3 4 5 6, of 3 4 "10 ^ 6"] n a
  have "3 < event_time sample_date (sample_event ''a'' ''A'' None) \<longrightarrow> min 122 (10 ^ 6) - live_window_tick_slack_ms \<le> 4"
    by (simp only: if_False) blast
  moreover have "3 < event_time sample_date (sample_event ''a'' ''A'' None)" by code_simp
  ultimately show ?thesis using n by blast
qed

section \<open>The local overview counts every event once\<close>

definition bucket_of :: "(string \<Rightarrow> int option) \<Rightarrow> int \<Rightarrow> timeline_event \<Rightarrow> int option" where
  "bucket_of date_parse bucket_ms e = map_option (\<lambda>t. (t div bucket_ms) * bucket_ms) (date_parse (ev_timestamp e))"

definition in_bucket :: "(string \<Rightarrow> int option) \<Rightarrow> int \<Rightarrow> int \<Rightarrow> timeline_event \<Rightarrow> bool" where
  "in_bucket date_parse bucket_ms start e =
     (case date_parse (ev_timestamp e) of None \<Rightarrow> False | Some t \<Rightarrow> start \<le> t \<and> t < start + bucket_ms)"

lemma bucket_of_dvd: "bucket_of date_parse bucket_ms e = Some start \<Longrightarrow> bucket_ms dvd start"
  by (auto simp: bucket_of_def)

lemma bucket_of_iff:
  assumes "bucket_ms > 0" and "bucket_ms dvd start"
  shows "bucket_of date_parse bucket_ms e = Some start \<longleftrightarrow> in_bucket date_parse bucket_ms start e"
proof -
  obtain k where k: "start = bucket_ms * k" using assms(2) by blast
  have "(t div bucket_ms) * bucket_ms = start \<longleftrightarrow> start \<le> t \<and> t < start + bucket_ms" for t
  proof
    assume "(t div bucket_ms) * bucket_ms = start"
    then have "t = start + t mod bucket_ms" by (metis div_mult_mod_eq)
    moreover have "0 \<le> t mod bucket_ms \<and> t mod bucket_ms < bucket_ms" using assms(1) by simp
    ultimately show "start \<le> t \<and> t < start + bucket_ms" by linarith
  next
    assume "start \<le> t \<and> t < start + bucket_ms"
    then have "t div bucket_ms = k"
      by (intro int_div_pos_eq [where r = "t - start"]) (auto simp: k)
    then show "(t div bucket_ms) * bucket_ms = start" by (simp add: k)
  qed
  then show ?thesis by (auto simp: bucket_of_def in_bucket_def split: option.splits)
qed

lemma overview_slots:
  "map_of (fold (overview_step date_parse bucket_ms) events []) start =
     (let inside = filter (\<lambda>e. bucket_of date_parse bucket_ms e = Some start) events
      in if inside = [] then None else Some (fold count_event inside empty_slot))"
proof (induction events rule: rev_induct)
  case Nil
  then show ?case by simp
next
  case (snoc e events)
  show ?case
  proof (cases "date_parse (ev_timestamp e)")
    case None
    then show ?thesis using snoc by (simp add: overview_step_def bucket_of_def)
  next
    case (Some t)
    then show ?thesis using snoc
      by (auto simp: overview_step_def bucket_of_def Let_def AList.update_conv')
  qed
qed

lemma overview_slots_distinct: "distinct (map fst (fold (overview_step date_parse bucket_ms) events []))"
proof -
  have "distinct (map fst m) \<Longrightarrow> distinct (map fst (fold (overview_step date_parse bucket_ms) events m))" for m
    by (induction events arbitrary: m) (auto simp: overview_step_def Let_def distinct_update split: option.splits)
  then show ?thesis by simp
qed

lemma fold_count_event:
  "hs_total (fold count_event es s) = hs_total s + length es
   \<and> hs_adds (fold count_event es s) = hs_adds s + length (filter (\<lambda>e. ev_type e = EvAdd) es)
   \<and> hs_updates (fold count_event es s) = hs_updates s + length (filter (\<lambda>e. ev_type e = EvUpdate) es)
   \<and> hs_deletes (fold count_event es s) = hs_deletes s + length (filter (\<lambda>e. ev_type e = EvDelete) es)
   \<and> hs_warnings (fold count_event es s) = hs_warnings s + length (filter (\<lambda>e. ev_type e = EvWarning) es)
   \<and> set (hs_namespaces (fold count_event es s)) = set (hs_namespaces s) \<union> (ev_namespace ` set es - {[]})"
  by (induction es arbitrary: s) (auto simp: count_event_def)

lemma bucket_from_simps [simp]:
  "ob_start_ms (bucket_from p) = fst p" "ob_slot (bucket_from p) = snd p"
  by (simp_all add: bucket_from_def)

lemma overview_buckets_set:
  "b \<in> set (overview_buckets date_parse bucket_ms events) \<longleftrightarrow>
   (\<exists>start s. map_of (fold (overview_step date_parse bucket_ms) events []) start = Some s \<and> b = bucket_from (start, s))"
  by (auto simp: overview_buckets_def overview_slots_distinct image_iff)

lemma overview_buckets_starts:
  "sorted_wrt (<) (map ob_start_ms (overview_buckets date_parse bucket_ms events))"
proof -
  let ?raw = "map bucket_from (fold (overview_step date_parse bucket_ms) events [])"
  have "map ob_start_ms ?raw = map fst (fold (overview_step date_parse bucket_ms) events [])" by simp
  then have "distinct (map ob_start_ms ?raw)" by (simp only: overview_slots_distinct)
  moreover have "mset (map ob_start_ms (overview_buckets date_parse bucket_ms events)) = mset (map ob_start_ms ?raw)"
    unfolding overview_buckets_def mset_map mset_js_sort ..
  ultimately have "distinct (map ob_start_ms (overview_buckets date_parse bucket_ms events))"
    by (metis mset_eq_imp_distinct_iff)
  moreover have "sorted_wrt (\<lambda>a b. ob_start_ms a - ob_start_ms b \<le> 0) (overview_buckets date_parse bucket_ms events)"
    unfolding overview_buckets_def by (rule by_key.sorted_js_sort)
  then have "sorted (map ob_start_ms (overview_buckets date_parse bucket_ms events))"
    by (simp add: sorted_map)
  ultimately show ?thesis by (simp add: strict_sorted_iff)
qed

text \<open>
  The local overview counts every event once. Its buckets start at increasing multiples of the
  bucket size; each counts exactly the dated events that fall in it, by type and by namespace, and is
  unhealthy when one of them is a warning; and every dated event falls in a bucket.
\<close>

theorem overview_counts_every_event_once:
  assumes "bucket_ms > 0" and "buckets = overview_buckets date_parse bucket_ms events"
  shows "sorted_wrt (<) (map ob_start_ms buckets)
    \<and> (\<forall>b \<in> set buckets. let inside = filter (in_bucket date_parse bucket_ms (ob_start_ms b)) events; s = ob_slot b in
         bucket_ms dvd ob_start_ms b \<and> hs_total s = length inside
         \<and> hs_adds s = length (filter (\<lambda>e. ev_type e = EvAdd) inside)
         \<and> hs_updates s = length (filter (\<lambda>e. ev_type e = EvUpdate) inside)
         \<and> hs_deletes s = length (filter (\<lambda>e. ev_type e = EvDelete) inside)
         \<and> hs_warnings s = length (filter (\<lambda>e. ev_type e = EvWarning) inside)
         \<and> set (hs_namespaces s) = ev_namespace ` set inside - {[]}
         \<and> ob_worst_health b = (if \<exists>e \<in> set inside. ev_type e = EvWarning then StUnhealthy else StHealthy))
    \<and> (\<forall>e \<in> set events. date_parse (ev_timestamp e) \<noteq> None \<longrightarrow>
         (\<exists>b \<in> set buckets. in_bucket date_parse bucket_ms (ob_start_ms b) e))"
proof (intro conjI ballI impI)
  show "sorted_wrt (<) (map ob_start_ms buckets)" by (simp add: assms(2) overview_buckets_starts)
next
  fix b
  assume "b \<in> set buckets"
  then obtain s where slot: "map_of (fold (overview_step date_parse bucket_ms) events []) (ob_start_ms b) = Some s"
    and b: "ob_slot b = s" "ob_worst_health b = (if hs_warnings s > 0 then StUnhealthy else StHealthy)"
    by (auto simp: assms(2) overview_buckets_set bucket_from_def)
  define inside where "inside = filter (\<lambda>e. bucket_of date_parse bucket_ms e = Some (ob_start_ms b)) events"
  have s: "inside \<noteq> []" "s = fold count_event inside empty_slot"
    using slot by (auto simp: overview_slots inside_def Let_def split: if_splits)
  then have "hd inside \<in> set inside" by (intro hd_in_set)
  then have "bucket_of date_parse bucket_ms (hd inside) = Some (ob_start_ms b)" unfolding inside_def set_filter by blast
  then have dvd: "bucket_ms dvd ob_start_ms b" by (rule bucket_of_dvd)
  have inside: "inside = filter (in_bucket date_parse bucket_ms (ob_start_ms b)) events"
    by (simp add: inside_def bucket_of_iff [OF assms(1) dvd])
  have counts: "hs_total s = length inside" "hs_adds s = length (filter (\<lambda>e. ev_type e = EvAdd) inside)"
    "hs_updates s = length (filter (\<lambda>e. ev_type e = EvUpdate) inside)"
    "hs_deletes s = length (filter (\<lambda>e. ev_type e = EvDelete) inside)"
    "hs_warnings s = length (filter (\<lambda>e. ev_type e = EvWarning) inside)"
    "set (hs_namespaces s) = ev_namespace ` set inside - {[]}"
    using fold_count_event [of inside empty_slot] by (simp_all add: s(2) empty_slot_def)
  have warned: "(0 < hs_warnings s) = (\<exists>e \<in> set inside. ev_type e = EvWarning)"
    by (simp add: counts(5) filter_empty_conv)
  show "let inside = filter (in_bucket date_parse bucket_ms (ob_start_ms b)) events; s = ob_slot b in
         bucket_ms dvd ob_start_ms b \<and> hs_total s = length inside
         \<and> hs_adds s = length (filter (\<lambda>e. ev_type e = EvAdd) inside)
         \<and> hs_updates s = length (filter (\<lambda>e. ev_type e = EvUpdate) inside)
         \<and> hs_deletes s = length (filter (\<lambda>e. ev_type e = EvDelete) inside)
         \<and> hs_warnings s = length (filter (\<lambda>e. ev_type e = EvWarning) inside)
         \<and> set (hs_namespaces s) = ev_namespace ` set inside - {[]}
         \<and> ob_worst_health b = (if \<exists>e \<in> set inside. ev_type e = EvWarning then StUnhealthy else StHealthy)"
    using counts dvd unfolding Let_def inside [symmetric] b warned by simp
next
  fix e
  assume e: "e \<in> set events" and "date_parse (ev_timestamp e) \<noteq> None"
  then obtain start where start: "bucket_of date_parse bucket_ms e = Some start" by (auto simp: bucket_of_def)
  then have "bucket_ms dvd start" by (rule bucket_of_dvd)
  then have "in_bucket date_parse bucket_ms start e" using start bucket_of_iff [OF assms(1)] by blast
  moreover obtain s where "map_of (fold (overview_step date_parse bucket_ms) events []) start = Some s"
  proof -
    have "filter (\<lambda>e. bucket_of date_parse bucket_ms e = Some start) events \<noteq> []"
      using e start unfolding filter_empty_conv by blast
    then show thesis using that by (simp only: overview_slots Let_def if_False option.inject)
  qed
  then have "bucket_from (start, s) \<in> set buckets"
    by (auto simp: assms(2) overview_buckets_set)
  ultimately show "\<exists>b \<in> set buckets. in_bucket date_parse bucket_ms (ob_start_ms b) e" by force
qed

lemma overview_counts_every_event_once_witness:
  "\<exists>b \<in> set (overview_buckets sample_date 4 (sample_cached @ sample_delta)). in_bucket sample_date 4 (ob_start_ms b) (sample_event ''a'' ''7'' (Some 3))"
proof -
  have "(0::int) < 4" by simp
  from overview_counts_every_event_once [OF this refl, of sample_date "sample_cached @ sample_delta"]
  have "\<forall>e \<in> set (sample_cached @ sample_delta). sample_date (ev_timestamp e) \<noteq> None \<longrightarrow>
      (\<exists>b \<in> set (overview_buckets sample_date 4 (sample_cached @ sample_delta)). in_bucket sample_date 4 (ob_start_ms b) e)"
    by (elim conjE)
  moreover have "sample_event ''a'' ''7'' (Some 3) \<in> set (sample_cached @ sample_delta)"
    "sample_date (ev_timestamp (sample_event ''a'' ''7'' (Some 3))) \<noteq> None"
    by (simp_all add: sample_delta_def sample_event_def sample_date_def)
  ultimately show ?thesis by blast
qed

end
