(* ===== verification/History_Paging.thy ===== *)
theory History_Paging
  imports Timeline_Sync
begin

text \<open>
  The paging of a workload's history (\<open>web/src/components/workload/historyPaging.ts\<close>): the newest
  page keeps refreshing, older pages load on demand below it, and the two are kept contiguous or
  paging restarts. First the rules that fold pages together, then the hook as a transition system over
  its state: navigation, refresh, a request for older rows and its response, in any order.

  A page of the query cache is compared by object identity, so it comes with a number that stands for
  the object. A state update and the render it causes are one step.
\<close>

section \<open>The folding rules\<close>

record history_page =
  hp_events :: "timeline_event list"
  hp_truncated :: bool
  hp_next_before_seq :: "nat option"
  hp_incomplete :: "bool option"

type_synonym page_object = "nat \<times> history_page"

datatype paging_step = StepKeep | StepRestart | StepSet history_page

definition seq_of :: "timeline_event \<Rightarrow> nat" where
  "seq_of e = coalesce (ev_seq e) 0"

definition reaches :: "history_page \<Rightarrow> timeline_event list \<Rightarrow> bool" where
  "reaches page loaded =
     (if \<not> hp_truncated page then True
      else case (map seq_of loaded, map seq_of (hp_events page)) of
             (l # ls, p # ps) \<Rightarrow> fold min ps p \<le> fold max ls l
           | _ \<Rightarrow> False)"

definition merge_newer :: "timeline_event list \<Rightarrow> timeline_event list \<Rightarrow> timeline_event list" where
  "merge_newer newer older = (let ids = set_from (map ev_id newer) in newer @ filter (\<lambda>e. ev_id e \<notin> set ids) older)"

definition fold_refreshed_page :: "history_page \<Rightarrow> history_page \<Rightarrow> paging_step" where
  "fold_refreshed_page loaded page =
     (let seq_by_id = map_from (map (\<lambda>e. (ev_id e, seq_of e)) (hp_events loaded)) in
      if \<forall>e \<in> set (hp_events page). map_of seq_by_id (ev_id e) = Some (seq_of e) then StepKeep
      else if \<not> reaches page (hp_events loaded) then StepRestart
      else StepSet (loaded\<lparr>hp_events := merge_newer (hp_events page) (hp_events loaded)\<rparr>))"

definition page_with :: "timeline_event list \<Rightarrow> history_page \<Rightarrow> history_page" where
  \<comment> \<open>\<open>{ events, ...more }\<close>\<close>
  "page_with events page = \<lparr>hp_events = events, hp_truncated = hp_truncated page,
     hp_next_before_seq = hp_next_before_seq page, hp_incomplete = None\<rparr>"

definition page_rows :: "page_object option \<Rightarrow> timeline_event list" where
  "page_rows p = (case p of None \<Rightarrow> [] | Some (n, page) \<Rightarrow> hp_events page)"

definition add_older_page ::
  "history_page option \<Rightarrow> history_page \<Rightarrow> page_object option \<Rightarrow> page_object option \<Rightarrow> paging_step" where
  "add_older_page loaded page base_page latest =
     (case loaded of
        Some l \<Rightarrow> StepSet (page_with (merge_newer (hp_events l) (hp_events page)) page)
      | None \<Rightarrow>
          let newest = page_rows base_page in
          case latest of
            Some (n, lp) \<Rightarrow>
              if map_option fst base_page = Some n
              then StepSet (page_with (merge_newer newest (hp_events page)) page)
              else if \<not> reaches lp newest then StepRestart
              else StepSet (page_with (merge_newer (merge_newer (hp_events lp) newest) (hp_events page)) page)
          | None \<Rightarrow> StepSet (page_with (merge_newer newest (hp_events page)) page))"

section \<open>The hook\<close>

text \<open>
  A request in flight: the generation it was made in, the newest page it continues from, its cursor,
  and the workload it was sent for (which the closure \<open>fetchOlder\<close> knows and the response does not say).
\<close>

record older_request =
  rq_generation :: nat
  rq_base :: "page_object option"
  rq_cursor :: nat
  rq_identity :: string

record paging_state =
  ps_identity :: string
  ps_newest :: "page_object option"
  ps_older :: "(string \<times> history_page) option"
  ps_generation :: nat
  ps_loading :: bool
  ps_error :: "string option"
  ps_pending :: "older_request list"

definition older_of :: "paging_state \<Rightarrow> history_page option" where
  "older_of st = (case ps_older st of None \<Rightarrow> None | Some (i, h) \<Rightarrow> if i = ps_identity st then Some h else None)"

definition set_older :: "history_page \<Rightarrow> paging_state \<Rightarrow> paging_state" where
  "set_older h st = st\<lparr>ps_older := Some (ps_identity st, h)\<rparr>"

definition restart_paging :: "paging_state \<Rightarrow> paging_state" where
  "restart_paging st = st\<lparr>ps_generation := ps_generation st + 1, ps_older := None, ps_error := None, ps_loading := False\<rparr>"

definition apply_step :: "paging_step \<Rightarrow> paging_state \<Rightarrow> paging_state" where
  "apply_step step st =
     (case step of StepKeep \<Rightarrow> st | StepRestart \<Rightarrow> restart_paging st | StepSet h \<Rightarrow> set_older h st)"

definition mount_paging :: "string \<Rightarrow> page_object option \<Rightarrow> paging_state" where
  "mount_paging identity newest = restart_paging \<lparr>ps_identity = identity, ps_newest = newest, ps_older = None,
     ps_generation = 0, ps_loading = False, ps_error = None, ps_pending = []\<rparr>"

definition navigate_paging :: "string \<Rightarrow> page_object option \<Rightarrow> paging_state \<Rightarrow> paging_state" where
  \<comment> \<open>a render with another identity, and its effects\<close>
  "navigate_paging identity newest st = restart_paging (st\<lparr>ps_identity := identity, ps_newest := newest\<rparr>)"

definition refresh_paging :: "page_object option \<Rightarrow> paging_state \<Rightarrow> paging_state" where
  "refresh_paging newest st =
     (let st' = st\<lparr>ps_newest := newest\<rparr> in
      case (newest, older_of st') of
        (Some (n, page), Some h) \<Rightarrow> apply_step (fold_refreshed_page h page) st'
      | _ \<Rightarrow> st')"

definition add_if_new :: "timeline_event \<Rightarrow> (string \<times> timeline_event) list \<Rightarrow> (string \<times> timeline_event) list" where
  "add_if_new e m = (if map_of m (ev_id e) = None then m @ [(ev_id e, e)] else m)"

definition shown_events :: "paging_state \<Rightarrow> timeline_event list option" where
  "shown_events st =
     (case ps_newest st of
        None \<Rightarrow> None
      | Some (n, page) \<Rightarrow> (case older_of st of
          None \<Rightarrow> Some (hp_events page)
        | Some h \<Rightarrow> Some (map snd (fold add_if_new (hp_events h) (map_from (by_id (hp_events page)))))))"

definition shown_truncated :: "paging_state \<Rightarrow> bool" where
  "shown_truncated st =
     (case older_of st of Some h \<Rightarrow> hp_truncated h
      | None \<Rightarrow> (case ps_newest st of None \<Rightarrow> False | Some (n, page) \<Rightarrow> hp_truncated page))"

definition load_older :: "paging_state \<Rightarrow> paging_state" where
  "load_older st =
     (let base = (case older_of st of Some h \<Rightarrow> None | None \<Rightarrow> ps_newest st);
          cursor = (case older_of st of Some h \<Rightarrow> hp_next_before_seq h
             | None \<Rightarrow> Option.bind base (\<lambda>p. hp_next_before_seq (snd p)))
      in case cursor of
           None \<Rightarrow> st
         | Some c \<Rightarrow>
             if c = 0 then st
             else st\<lparr>ps_loading := True, ps_error := None,
               ps_pending := ps_pending st @ [\<lparr>rq_generation = ps_generation st, rq_base = base, rq_cursor = c,
                  rq_identity = ps_identity st\<rparr>]\<rparr>)"

definition older_response :: "older_request \<Rightarrow> string + history_page \<Rightarrow> paging_state \<Rightarrow> paging_state" where
  "older_response q res st =
     (let st' = st\<lparr>ps_pending := remove1 q (ps_pending st)\<rparr> in
      if ps_generation st \<noteq> rq_generation q then st'
      else let st'' = (case res of
                 Inr page \<Rightarrow> apply_step (add_older_page (older_of st') page (rq_base q) (ps_newest st')) st'
               | Inl err \<Rightarrow> st'\<lparr>ps_error := Some err\<rparr>)
           in if ps_generation st'' = rq_generation q then st''\<lparr>ps_loading := False\<rparr> else st'')"

inductive paging_step_rel :: "paging_state \<Rightarrow> paging_state \<Rightarrow> bool" where
  paging_navigate: "identity \<noteq> ps_identity st \<Longrightarrow> paging_step_rel st (navigate_paging identity newest st)"
| paging_refresh: "paging_step_rel st (refresh_paging newest st)"
| paging_load: "paging_step_rel st (load_older st)"
| paging_response: "q \<in> set (ps_pending st) \<Longrightarrow> paging_step_rel st (older_response q res st)"

inductive reachable_paging :: "paging_state \<Rightarrow> bool" where
  paging_mount: "reachable_paging (mount_paging identity newest)"
| paging_next: "reachable_paging st \<Longrightarrow> paging_step_rel st st' \<Longrightarrow> reachable_paging st'"

inductive_cases paging_step_relE: "paging_step_rel st st'"

section \<open>A refresh leaves no gap\<close>

text \<open>
  The server's log of a workload at one moment: rows with distinct ids. Between two moments rows may
  disappear and rows arrive above everything seen so far, possibly under the id of a row that thereby
  moves. A page is the top of the log, all of it unless truncated.
\<close>

definition top_of_log :: "history_page \<Rightarrow> timeline_event set \<Rightarrow> bool" where
  "top_of_log page log \<longleftrightarrow> set (hp_events page) \<subseteq> log
     \<and> (hp_truncated page \<longrightarrow> hp_events page \<noteq> [] \<and>
          (\<forall>r \<in> log - set (hp_events page). \<forall>x \<in> set (hp_events page). seq_of r \<le> seq_of x))
     \<and> (\<not> hp_truncated page \<longrightarrow> set (hp_events page) = log)"

definition covers_from :: "nat \<Rightarrow> timeline_event set \<Rightarrow> timeline_event set \<Rightarrow> bool" where
  "covers_from low rows log \<longleftrightarrow> (\<forall>r \<in> log. low \<le> seq_of r \<longrightarrow> r \<in> rows)"

definition arrived_above :: "timeline_event set \<Rightarrow> timeline_event list \<Rightarrow> timeline_event set \<Rightarrow> bool" where
  \<comment> \<open>what is new in the log came in above every row of \<open>seen\<close>\<close>
  "arrived_above old seen new \<longleftrightarrow> (\<forall>r \<in> new - old. \<forall>x \<in> set seen. seq_of x < seq_of r)"

lemma set_merge_newer:
  "set (merge_newer newer older) = set newer \<union> {e \<in> set older. ev_id e \<notin> ev_id ` set newer}"
  by (auto simp: merge_newer_def Let_def)

lemma fold_min_le: "x \<in> set (p # ps) \<Longrightarrow> fold min ps p \<le> (x :: nat)"
  unfolding Min.set_eq_fold [symmetric] by simp

lemma fold_max_in: "fold max ls l \<in> set (l # ls)" for l :: nat
  unfolding Max.set_eq_fold [symmetric] by (rule Max_in) simp_all

text \<open>The rows the page leaves out lie at or below a loaded row, so they are not new.\<close>

lemma reaches_below_loaded:
  assumes "reaches page loaded" and "top_of_log page new" and "arrived_above old loaded new"
    and "r \<in> new" and "r \<notin> set (hp_events page)"
  shows "r \<in> old"
proof -
  have trunc: "hp_truncated page" using assms(2,4,5) by (auto simp: top_of_log_def)
  then obtain l ls p ps where l: "map seq_of loaded = l # ls" and p: "map seq_of (hp_events page) = p # ps"
    and le: "fold min ps p \<le> fold max ls l"
    using assms(1) by (auto simp: reaches_def split: list.splits)
  have "fold max ls l \<in> set (map seq_of loaded)" using fold_max_in by (simp add: l)
  then obtain y where y: "y \<in> set loaded" "seq_of y = fold max ls l" by auto
  have "fold min ps p \<in> set (map seq_of (hp_events page))"
    unfolding p Min.set_eq_fold [symmetric] by (rule Min_in) simp_all
  then obtain x where x: "x \<in> set (hp_events page)" "seq_of x = fold min ps p" by auto
  have "seq_of r \<le> seq_of x" using assms(2,4,5) trunc x(1) by (auto simp: top_of_log_def)
  then have "\<not> seq_of y < seq_of r" using le x y by simp
  then show ?thesis using assms(3,4) y(1) unfolding arrived_above_def by blast
qed

lemma kept_page_reaches:
  assumes "\<forall>e \<in> set (hp_events page). \<exists>x \<in> set loaded. ev_id x = ev_id e \<and> seq_of x = seq_of e"
    and "top_of_log page log"
  shows "reaches page loaded"
proof (cases "hp_truncated page")
  case True
  then obtain e es where e: "hp_events page = e # es" using assms(2) by (cases "hp_events page") (auto simp: top_of_log_def)
  then obtain x where x: "x \<in> set loaded" "seq_of x = seq_of e" using assms(1) by auto
  then obtain l ls where l: "loaded = l # ls" by (cases loaded) auto
  have "fold min (map seq_of es) (seq_of e) \<le> seq_of e" by (rule fold_min_le) simp
  also have "\<dots> = seq_of x" using x by simp
  also have "\<dots> \<le> fold max (map seq_of ls) (seq_of l)"
    using x(1) unfolding l Max.set_eq_fold [symmetric] by (intro Max_ge) auto
  finally show ?thesis by (simp add: reaches_def e l)
next
  case False
  then show ?thesis by (simp add: reaches_def)
qed

text \<open>
  C29. A refresh leaves no gap. Let the loaded rows cover the old log from some arrival number on, and
  let a refreshed page be the top of a later log, whatever arrived or moved in between. Then what is
  loaded after the fold still covers the later log from that number on, unless paging restarts.
\<close>

theorem refresh_leaves_no_gap:
  assumes "covers_from low (set (hp_events loaded)) old"
    and "top_of_log page new" and "arrived_above old (hp_events loaded) new"
    and "inj_on ev_id new" and "inj_on (\<lambda>e. (ev_id e, seq_of e)) (new \<union> set (hp_events loaded))"
    and "fold_refreshed_page loaded page = step" and "step \<noteq> StepRestart"
  shows "covers_from low (case step of StepSet h \<Rightarrow> set (hp_events h) | _ \<Rightarrow> set (hp_events loaded)) new"
proof (cases "\<forall>e \<in> set (hp_events page). map_of (map_from (map (\<lambda>e. (ev_id e, seq_of e)) (hp_events loaded))) (ev_id e) = Some (seq_of e)")
  case True
  have held: "\<forall>e \<in> set (hp_events page). \<exists>x \<in> set (hp_events loaded). ev_id x = ev_id e \<and> seq_of x = seq_of e"
    using True by (fastforce simp: map_of_map_from dest: map_of_SomeD)
  have "e \<in> set (hp_events loaded)" if e: "e \<in> set (hp_events page)" for e
  proof -
    obtain x where x: "x \<in> set (hp_events loaded)" "ev_id x = ev_id e" "seq_of x = seq_of e" using held e by blast
    moreover have "e \<in> new" using assms(2) e by (auto simp: top_of_log_def)
    ultimately have "e = x" using inj_onD [OF assms(5), of e x] by simp
    then show ?thesis using x by simp
  qed
  moreover have "r \<in> old" if "r \<in> new" "r \<notin> set (hp_events page)" for r
    using reaches_below_loaded [OF kept_page_reaches [OF held assms(2)] assms(2,3) that] .
  moreover have "step = StepKeep" using True assms(6) by (simp add: fold_refreshed_page_def)
  ultimately show ?thesis using assms(1) by (auto simp: covers_from_def)
next
  case False
  then have r: "reaches page (hp_events loaded)"
    and step: "step = StepSet (loaded\<lparr>hp_events := merge_newer (hp_events page) (hp_events loaded)\<rparr>)"
    using assms(6,7) by (auto simp: fold_refreshed_page_def Let_def split: if_splits)
  have "r \<in> set (merge_newer (hp_events page) (hp_events loaded))" if "r \<in> new" "low \<le> seq_of r" for r
  proof (cases "r \<in> set (hp_events page)")
    case False
    then have "r \<in> old" using reaches_below_loaded [OF r assms(2,3)] that by blast
    then have "r \<in> set (hp_events loaded)" using assms(1) that by (auto simp: covers_from_def)
    moreover have "ev_id r \<notin> ev_id ` set (hp_events page)"
    proof
      assume "ev_id r \<in> ev_id ` set (hp_events page)"
      then obtain x where x: "x \<in> set (hp_events page)" "ev_id r = ev_id x" by blast
      then have "r = x" using assms(2,4) that(1) by (auto simp: top_of_log_def inj_on_def)
      then show False using False x by blast
    qed
    ultimately show ?thesis by (simp add: set_merge_newer)
  qed (simp add: set_merge_newer)
  then show ?thesis by (simp add: covers_from_def step)
qed

definition sample_row :: "string \<Rightarrow> nat \<Rightarrow> timeline_event" where
  "sample_row i n = sample_event i ''1'' (Some n)"

definition sample_page_of :: "timeline_event list \<Rightarrow> bool \<Rightarrow> nat option \<Rightarrow> history_page" where
  "sample_page_of events trunc before = \<lparr>hp_events = events, hp_truncated = trunc, hp_next_before_seq = before, hp_incomplete = None\<rparr>"

lemmas sample_row_defs = sample_row_def sample_event_def sample_page_of_def seq_of_def

lemma refresh_leaves_no_gap_witness:
  "\<exists>h. fold_refreshed_page (sample_page_of [sample_row ''b'' 2, sample_row ''a'' 1] True (Some 1))
          (sample_page_of [sample_row ''a'' 3, sample_row ''b'' 2] True (Some 2)) = StepSet h
     \<and> covers_from 1 (set (hp_events h)) {sample_row ''a'' 3, sample_row ''b'' 2}"
proof -
  let ?loaded = "sample_page_of [sample_row ''b'' 2, sample_row ''a'' 1] True (Some 1)"
  let ?page = "sample_page_of [sample_row ''a'' 3, sample_row ''b'' 2] True (Some 2)"
  let ?old = "{sample_row ''b'' 2, sample_row ''a'' 1}" and ?new = "{sample_row ''a'' 3, sample_row ''b'' 2}"
  obtain h where step: "fold_refreshed_page ?loaded ?page = StepSet h"
  proof -
    have "case fold_refreshed_page ?loaded ?page of StepSet h \<Rightarrow> True | _ \<Rightarrow> False" by code_simp
    then show thesis using that by (auto split: paging_step.splits)
  qed
  have "covers_from 1 (set (hp_events ?loaded)) ?old" "top_of_log ?page ?new" "arrived_above ?old (hp_events ?loaded) ?new"
    "inj_on ev_id ?new" "inj_on (\<lambda>e. (ev_id e, seq_of e)) (?new \<union> set (hp_events ?loaded))"
    by (auto simp: covers_from_def top_of_log_def arrived_above_def inj_on_def sample_row_defs)
  from refresh_leaves_no_gap [OF this step] have "covers_from 1 (set (hp_events h)) ?new" by simp
  then show ?thesis using step by blast
qed

section \<open>Older pages join without a gap\<close>

text \<open>
  The first older page joins without a gap. Let the newest page it was requested from cover the
  old log down to its cursor, let the older page cover the later log from some arrival number up to
  that cursor, and let the newest page have been refreshed in the meantime to the top of the later
  log. Then what is loaded covers the later log from that number on, unless paging restarts.
\<close>

theorem older_page_joins_without_gap:
  assumes "covers_from cursor (set (hp_events base)) old"
    and "\<forall>r \<in> new. low \<le> seq_of r \<and> seq_of r < cursor \<longrightarrow> r \<in> set (hp_events page)"
    and "top_of_log latest new" and "arrived_above old (hp_events base) new"
    and "set (hp_events base) \<subseteq> old" and "inj_on ev_id old" and "inj_on ev_id new"
    and "add_older_page None page (Some (i, base)) (Some (j, latest)) = step" and "i \<noteq> j" and "step \<noteq> StepRestart"
  shows "\<exists>h. step = StepSet h \<and> covers_from low (set (hp_events h)) new
    \<and> hp_truncated h = hp_truncated page \<and> hp_next_before_seq h = hp_next_before_seq page"
proof -
  have r: "reaches latest (hp_events base)"
    and step: "step = StepSet (page_with (merge_newer (merge_newer (hp_events latest) (hp_events base)) (hp_events page)) page)"
    using assms(8-10) by (auto simp: add_older_page_def page_rows_def Let_def split: if_splits)
  have "e \<in> set (merge_newer (merge_newer (hp_events latest) (hp_events base)) (hp_events page))"
    if e: "e \<in> new" "low \<le> seq_of e" for e
  proof (cases "e \<in> set (hp_events latest)")
    case True
    then show ?thesis by (simp add: set_merge_newer)
  next
    case False
    have old: "e \<in> old" using reaches_below_loaded [OF r assms(3,4) e(1) False] .
    have latest: "ev_id e \<notin> ev_id ` set (hp_events latest)"
      using assms(3,7) e(1) False by (auto simp: top_of_log_def inj_on_def)
    have base: "e = x" if "x \<in> set (hp_events base)" "ev_id e = ev_id x" for x
      using assms(5,6) old that by (auto simp: inj_on_def)
    show ?thesis
    proof (cases "cursor \<le> seq_of e")
      case True
      then have "e \<in> set (hp_events base)" using assms(1) old by (auto simp: covers_from_def)
      then show ?thesis using latest by (simp add: set_merge_newer)
    next
      case False
      then have "e \<in> set (hp_events page)" using assms(2) e by auto
      then show ?thesis using latest base by (auto simp: set_merge_newer)
    qed
  qed
  then show ?thesis by (simp add: step covers_from_def page_with_def)
qed

lemma older_page_joins_without_gap_witness:
  "\<exists>h. add_older_page None (sample_page_of [sample_row ''a'' 1] False None)
          (Some (0, sample_page_of [sample_row ''b'' 2] True (Some 2))) (Some (1, sample_page_of [sample_row ''c'' 3, sample_row ''b'' 2] True (Some 2)))
        = StepSet h \<and> covers_from 0 (set (hp_events h)) {sample_row ''c'' 3, sample_row ''b'' 2, sample_row ''a'' 1}"
proof -
  let ?base = "sample_page_of [sample_row ''b'' 2] True (Some 2)"
  let ?page = "sample_page_of [sample_row ''a'' 1] False None"
  let ?latest = "sample_page_of [sample_row ''c'' 3, sample_row ''b'' 2] True (Some 2)"
  let ?old = "{sample_row ''b'' 2, sample_row ''a'' 1}" and ?new = "{sample_row ''c'' 3, sample_row ''b'' 2, sample_row ''a'' 1}"
  have "covers_from 2 (set (hp_events ?base)) ?old"
    "\<forall>r \<in> ?new. 0 \<le> seq_of r \<and> seq_of r < 2 \<longrightarrow> r \<in> set (hp_events ?page)" "top_of_log ?latest ?new"
    "arrived_above ?old (hp_events ?base) ?new" "set (hp_events ?base) \<subseteq> ?old" "inj_on ev_id ?old" "inj_on ev_id ?new"
    by (auto simp: covers_from_def top_of_log_def arrived_above_def inj_on_def sample_row_defs)
  moreover have "(0::nat) \<noteq> 1" by simp
  moreover have "add_older_page None ?page (Some (0, ?base)) (Some (1, ?latest)) \<noteq> StepRestart" by code_simp
  ultimately show ?thesis using older_page_joins_without_gap [OF _ _ _ _ _ _ _ refl, of 2 ?base ?old ?new 0 ?page ?latest 0 1] by blast
qed

section \<open>The hook in any order of events\<close>

definition paging_ok :: "paging_state \<Rightarrow> bool" where
  "paging_ok st \<longleftrightarrow>
     (\<forall>q \<in> set (ps_pending st). rq_generation q \<le> ps_generation st)
     \<and> (\<forall>q \<in> set (ps_pending st). rq_generation q = ps_generation st \<longrightarrow> rq_identity q = ps_identity st)
     \<and> (\<forall>i h. ps_older st = Some (i, h) \<longrightarrow> i = ps_identity st)
     \<and> (ps_loading st \<longrightarrow> (\<exists>q \<in> set (ps_pending st). rq_generation q = ps_generation st))"

lemma paging_ok_restart:
  assumes "\<forall>q \<in> set (ps_pending st). rq_generation q \<le> ps_generation st"
  shows "paging_ok (restart_paging st)"
  using assms by (force simp: paging_ok_def restart_paging_def)

lemma paging_ok_apply_step:
  assumes "paging_ok (st\<lparr>ps_loading := False\<rparr>)" and "ps_loading st \<Longrightarrow> paging_ok st"
  shows "paging_ok (apply_step step st)"
proof (cases step)
  case StepKeep
  then show ?thesis using assms by (cases "ps_loading st") (simp_all add: apply_step_def paging_ok_def)
next
  case StepRestart
  then show ?thesis using assms(1) by (simp add: apply_step_def) (rule paging_ok_restart, simp add: paging_ok_def)
next
  case (StepSet h)
  then show ?thesis using assms by (cases "ps_loading st") (simp_all add: apply_step_def paging_ok_def set_older_def)
qed

lemma paging_ok_step:
  assumes ok: "paging_ok st" and step: "paging_step_rel st st'"
  shows "paging_ok st'"
  using step
proof cases
  case (paging_navigate identity newest)
  have "paging_ok (restart_paging (st\<lparr>ps_identity := identity, ps_newest := newest\<rparr>))"
    using ok by (intro paging_ok_restart) (simp add: paging_ok_def)
  then show ?thesis by (simp add: paging_navigate navigate_paging_def)
next
  case (paging_refresh newest)
  have ok': "paging_ok (st\<lparr>ps_newest := newest\<rparr>)" using ok by (simp add: paging_ok_def)
  moreover from ok' have "paging_ok (st\<lparr>ps_newest := newest, ps_loading := False\<rparr>)" by (simp add: paging_ok_def)
  ultimately have "paging_ok (apply_step s (st\<lparr>ps_newest := newest\<rparr>))" for s by (intro paging_ok_apply_step) simp_all
  then show ?thesis
    using ok' by (auto simp: paging_refresh refresh_paging_def Let_def split: option.splits prod.splits)
next
  case paging_load
  then show ?thesis
    using ok by (auto simp: load_older_def paging_ok_def Let_def split: option.splits)
next
  case (paging_response q res)
  define st1 where "st1 = st\<lparr>ps_pending := remove1 q (ps_pending st)\<rparr>"
  have sub: "set (ps_pending st1) \<subseteq> set (ps_pending st)" by (simp add: st1_def set_remove1_subset)
  show ?thesis
  proof (cases "ps_generation st = rq_generation q")
    case False
    have "\<exists>p \<in> set (remove1 q (ps_pending st)). rq_generation p = ps_generation st" if loading: "ps_loading st"
    proof -
      obtain p where "p \<in> set (ps_pending st)" "rq_generation p = ps_generation st" using ok loading by (auto simp: paging_ok_def)
      moreover from this False have "p \<noteq> q" by auto
      ultimately show ?thesis by (intro bexI [of _ p]) (simp_all add: in_set_remove1)
    qed
    then have "paging_ok st1" using ok sub by (auto simp: paging_ok_def st1_def dest: notin_set_remove1)
    then show ?thesis using False by (simp add: paging_response older_response_def st1_def)
  next
    case True
    have settled: "paging_ok (st1\<lparr>ps_error := err, ps_loading := False\<rparr>)" for err
      using ok sub by (auto simp: paging_ok_def st1_def)
    have "paging_ok (let st'' = apply_step s st1 in if ps_generation st'' = rq_generation q then st''\<lparr>ps_loading := False\<rparr> else st'')" for s
    proof (cases s)
      case StepRestart
      have "paging_ok (restart_paging st1)"
        using settled [of None] by (intro paging_ok_restart) (simp add: paging_ok_def)
      then show ?thesis using True by (simp add: StepRestart apply_step_def restart_paging_def st1_def)
    next
      case StepKeep
      then show ?thesis using True settled [of "ps_error st1"] by (simp add: apply_step_def st1_def)
    next
      case (StepSet h)
      then show ?thesis using True settled [of "ps_error st1"] by (simp add: apply_step_def set_older_def st1_def paging_ok_def)
    qed
    note answered = this
    show ?thesis
    proof (cases res)
      case (Inl err)
      then show ?thesis
        using True settled [of "Some err"] by (simp add: paging_response older_response_def st1_def Let_def)
    next
      case (Inr page)
      have "st' = (let st'' = apply_step (add_older_page (older_of st1) page (rq_base q) (ps_newest st1)) st1
          in if ps_generation st'' = rq_generation q then st''\<lparr>ps_loading := False\<rparr> else st'')"
        using True by (simp add: paging_response older_response_def st1_def Let_def Inr cong: if_cong)
      then show ?thesis by (simp only: answered)
    qed
  qed
qed

lemma paging_ok_reachable: "reachable_paging st \<Longrightarrow> paging_ok st"
proof (induction rule: reachable_paging.induct)
  case (paging_mount identity newest)
  show ?case unfolding mount_paging_def by (rule paging_ok_restart) simp
next
  case (paging_next st st')
  then show ?case by (blast intro: paging_ok_step)
qed

text \<open>
  Whatever the order of navigation, refreshes, requests and responses: the spinner never sticks,
  since loading means that a request of the current generation is still in flight; and a response is
  taken only if it was asked for the workload shown, so no other workload's rows are folded in or
  displayed.
\<close>

theorem paging_never_mixes_workloads:
  assumes "reachable_paging st"
  shows "(ps_loading st \<longrightarrow> (\<exists>q \<in> set (ps_pending st). rq_generation q = ps_generation st))
    \<and> (\<forall>q \<in> set (ps_pending st). \<forall>res. rq_identity q \<noteq> ps_identity st \<longrightarrow>
         older_response q res st = st\<lparr>ps_pending := remove1 q (ps_pending st)\<rparr>)
    \<and> (\<forall>i h. ps_older st = Some (i, h) \<longrightarrow> i = ps_identity st)"
proof -
  have ok: "paging_ok st" by (rule paging_ok_reachable [OF assms])
  have "ps_generation st \<noteq> rq_generation q" if "q \<in> set (ps_pending st)" "rq_identity q \<noteq> ps_identity st" for q
    using ok that by (auto simp: paging_ok_def)
  then show ?thesis using ok by (auto simp: paging_ok_def older_response_def Let_def)
qed

lemma paging_never_mixes_workloads_witness:
  "\<exists>st q. q \<in> set (ps_pending st) \<and> ps_identity st = ''b'' \<and> older_response q (Inl ''late'') st = st\<lparr>ps_pending := []\<rparr>"
proof -
  let ?m = "mount_paging ''a'' (Some (0, sample_page_of [sample_row ''b'' 2] True (Some 2)))"
  let ?st = "navigate_paging ''b'' None (load_older ?m)"
  let ?q = "\<lparr>rq_generation = 1, rq_base = Some (0, sample_page_of [sample_row ''b'' 2] True (Some 2)), rq_cursor = 2, rq_identity = ''a''\<rparr>"
  have pending: "ps_pending ?st = [?q]" "ps_identity ?st = ''b''"
    by (simp_all add: navigate_paging_def restart_paging_def load_older_def mount_paging_def older_of_def sample_page_of_def Let_def)
  have "reachable_paging (load_older ?m)" by (rule paging_next [OF paging_mount paging_load])
  moreover have "''b'' \<noteq> ps_identity (load_older ?m)"
    by (simp add: restart_paging_def load_older_def mount_paging_def older_of_def sample_page_of_def Let_def)
  ultimately have "reachable_paging ?st" by (blast intro: paging_next paging_navigate)
  from paging_never_mixes_workloads [OF this] have "older_response ?q (Inl ''late'') ?st = ?st\<lparr>ps_pending := []\<rparr>"
    by (simp add: pending)
  then show ?thesis using pending by (metis list.set_intros(1))
qed

end
