(* ===== verification/Filter_State.thy ===== *)
theory Filter_State
  imports Radar_Prelude
begin

text \<open>
  The filters of the list views as they stand in the URL
  (\<open>packages/k8s-ui/src/filter-state/filter-state-core.ts\<close>): a schema of typed fields, the decoding of
  the query parameters into values and the writing of one field back. \<open>URLSearchParams\<close> is a list of
  pairs; its \<open>get\<close> takes the first of a name, its \<open>set\<close> replaces the first and drops the others.
\<close>

section \<open>Query parameters\<close>

type_synonym url_params = "(string \<times> string) list"

definition params_get :: "url_params \<Rightarrow> string \<Rightarrow> string option" where
  "params_get ps name = map_of ps name"

definition params_delete :: "string \<Rightarrow> url_params \<Rightarrow> url_params" where
  "params_delete name ps = filter (\<lambda>p. fst p \<noteq> name) ps"

fun params_set :: "string \<Rightarrow> string \<Rightarrow> url_params \<Rightarrow> url_params" where
  "params_set name v [] = [(name, v)]"
| "params_set name v (p # ps) = (if fst p = name then (name, v) # params_delete name ps else p # params_set name v ps)"

lemma params_get_delete [simp]:
  "params_get (params_delete name ps) n = (if n = name then None else params_get ps n)"
  by (induction ps) (auto simp: params_get_def params_delete_def)

lemma params_get_set [simp]:
  "params_get (params_set name v ps) n = (if n = name then Some v else params_get ps n)"
proof (induction ps)
  case (Cons p ps)
  then show ?case
    using params_get_delete [of name ps n] by (cases p) (auto simp: params_get_def)
qed (simp add: params_get_def)

lemma params_delete_id: "params_get ps name = None \<Longrightarrow> params_delete name ps = ps"
  by (induction ps) (auto simp: params_get_def params_delete_def split: if_splits)

section \<open>Schema and values\<close>

datatype field_type = SetField | TextField | SingleField | BooleanField

record field_def =
  fd_param :: string
  fd_type :: field_type
  fd_default :: "string option"

type_synonym filter_schema = "(string \<times> field_def) list"

datatype filter_value = SetValue "string list" | TextValue string | BoolValue bool

definition define_filter_schema :: "filter_schema \<Rightarrow> string + filter_schema" where
  "define_filter_schema schema =
     (case fold (\<lambda>(key, def) acc. case acc of
          Inl err \<Rightarrow> Inl err
        | Inr seen \<Rightarrow>
            if fd_param def \<in> set seen
            then Inl (''defineFilterSchema: duplicate URL param '' @ [CHR 0x22] @ fd_param def @ [CHR 0x22])
            else Inr (set_add (fd_param def) seen)) schema (Inr []) of
        Inl err \<Rightarrow> Inl err
      | Inr seen \<Rightarrow> Inr schema)"

definition members :: "string option \<Rightarrow> string list" where
  \<comment> \<open>\<open>new Set((raw ?? '').split(',').filter(Boolean))\<close>\<close>
  "members raw = set_from (filter (\<lambda>s. s \<noteq> []) (split_char (CHR '','') (coalesce raw [])))"

definition decode_field :: "field_def \<Rightarrow> url_params \<Rightarrow> filter_value" where
  "decode_field def params =
     (let raw = params_get params (fd_param def) in
      case fd_type def of
        SetField \<Rightarrow> SetValue (members raw)
      | BooleanField \<Rightarrow> BoolValue (raw = Some ''1'')
      | _ \<Rightarrow> TextValue (if truthy_str raw then coalesce raw [] else coalesce (fd_default def) []))"

definition decode_filters :: "filter_schema \<Rightarrow> url_params \<Rightarrow> (string \<times> filter_value) list" where
  "decode_filters schema params = map (\<lambda>(key, def). (key, decode_field def params)) schema"

section \<open>Writing\<close>

text \<open>\<open>None\<close>: a value of another type than the field's, which the types of the callers rule out.\<close>

definition write_field :: "field_def \<Rightarrow> filter_value \<Rightarrow> url_params \<Rightarrow> url_params option" where
  "write_field def value params =
     (case (fd_type def, value) of
        (SetField, SetValue vs) \<Rightarrow>
          Some (if vs = [] then params_delete (fd_param def) params
                else params_set (fd_param def) (join '','' (js_sort str_cmp vs)) params)
      | (BooleanField, BoolValue b) \<Rightarrow>
          Some (if b then params_set (fd_param def) ''1'' params else params_delete (fd_param def) params)
      | (TextField, TextValue s) \<Rightarrow>
          Some (if s = [] \<or> s = coalesce (fd_default def) [] then params_delete (fd_param def) params
                else params_set (fd_param def) s params)
      | (SingleField, TextValue s) \<Rightarrow>
          Some (if s = [] \<or> s = coalesce (fd_default def) [] then params_delete (fd_param def) params
                else params_set (fd_param def) s params)
      | _ \<Rightarrow> None)"

definition with_field :: "filter_schema \<Rightarrow> url_params \<Rightarrow> string \<Rightarrow> filter_value \<Rightarrow> url_params option" where
  "with_field schema params key value =
     Option.bind (map_of schema key) (\<lambda>def. write_field def value params)"

definition with_toggle :: "filter_schema \<Rightarrow> url_params \<Rightarrow> string \<Rightarrow> string \<Rightarrow> url_params option" where
  "with_toggle schema params key value =
     Option.bind (map_of schema key) (\<lambda>def.
       let cur = members (params_get params (fd_param def));
           cur' = (if value \<in> set cur then removeAll value cur else set_add value cur)
       in write_field def (SetValue cur') params)"

definition empty_value :: "field_def \<Rightarrow> filter_value" where
  "empty_value def =
     (case fd_type def of
        SetField \<Rightarrow> SetValue []
      | BooleanField \<Rightarrow> BoolValue False
      | _ \<Rightarrow> TextValue (coalesce (fd_default def) []))"

definition with_cleared :: "filter_schema \<Rightarrow> url_params \<Rightarrow> string list option \<Rightarrow> url_params" where
  "with_cleared schema params keys =
     fold (\<lambda>key ps. case map_of schema key of None \<Rightarrow> ps | Some def \<Rightarrow> params_delete (fd_param def) ps)
       (coalesce keys (map fst schema)) params"

definition is_filter_active :: "filter_schema \<Rightarrow> (string \<times> filter_value) list \<Rightarrow> bool" where
  "is_filter_active schema vals =
     list_ex (\<lambda>(key, def).
       case map_of vals key of
         Some (SetValue vs) \<Rightarrow> fd_type def = SetField \<and> vs \<noteq> []
       | Some (BoolValue b) \<Rightarrow> fd_type def = BooleanField \<and> b
       | Some (TextValue s) \<Rightarrow> fd_type def \<in> {TextField, SingleField} \<and> s \<noteq> coalesce (fd_default def) []
       | None \<Rightarrow> False) schema"

section \<open>Reading and writing agree\<close>

lemma split_char_append:
  "c \<notin> set x \<Longrightarrow> split_char c (x @ c # ys) = x # split_char c ys"
  by (induction x) auto

lemma split_char_single: "c \<notin> set x \<Longrightarrow> split_char c x = [x]"
  by (induction x) auto

lemma split_join:
  "xs \<noteq> [] \<Longrightarrow> \<forall>x \<in> set xs. c \<notin> set x \<Longrightarrow> split_char c (join [c] xs) = xs"
  by (induction "[c]" xs rule: join.induct) (auto simp: split_char_append split_char_single)

lemma split_char_no_sep: "x \<in> set (split_char c s) \<Longrightarrow> c \<notin> set x"
  by (induction s arbitrary: x) (auto split: list.splits if_splits)

lemma fold_set_add_distinct: "distinct (s @ xs) \<Longrightarrow> fold set_add xs s = s @ xs"
  by (induction xs arbitrary: s) (auto simp: set_add_def)

lemma set_from_distinct: "distinct xs \<Longrightarrow> set_from xs = xs"
  by (simp add: set_from_def fold_set_add_distinct)

definition plain_members :: "string list \<Rightarrow> bool" where
  \<comment> \<open>what the comment of the schema asks of a set's values\<close>
  "plain_members vs \<longleftrightarrow> distinct vs \<and> (\<forall>v \<in> set vs. v \<noteq> [] \<and> CHR '','' \<notin> set v)"

lemma plain_members_members: "plain_members (members raw)"
  using split_char_no_sep by (fastforce simp: plain_members_def members_def)

lemma plain_members_sort [simp]: "plain_members (js_sort str_cmp vs) = plain_members vs"
  by (simp add: plain_members_def)

lemma members_join:
  assumes "plain_members vs" and "vs \<noteq> []"
  shows "members (Some (join '','' vs)) = vs"
proof -
  have "filter (\<lambda>v. v \<noteq> []) vs = vs" using assms(1) by (simp add: plain_members_def)
  then show ?thesis
    using assms split_join [of vs "CHR '',''"] by (simp add: members_def plain_members_def set_from_distinct)
qed

definition canonical_value :: "field_def \<Rightarrow> filter_value \<Rightarrow> filter_value" where
  "canonical_value def v =
     (case v of SetValue vs \<Rightarrow> SetValue (js_sort str_cmp vs) | BoolValue b \<Rightarrow> BoolValue b
      | TextValue s \<Rightarrow> TextValue (if s = [] then coalesce (fd_default def) [] else s))"

definition value_fits :: "field_def \<Rightarrow> filter_value \<Rightarrow> bool" where
  "value_fits def v =
     (case v of SetValue vs \<Rightarrow> fd_type def = SetField \<and> plain_members vs | BoolValue b \<Rightarrow> fd_type def = BooleanField
      | TextValue s \<Rightarrow> fd_type def \<in> {TextField, SingleField})"

lemma js_sort_nonempty [simp]: "js_sort c xs = [] \<longleftrightarrow> xs = []"
  using length_js_sort [of c xs] by (metis length_0_conv)

lemma decode_write_field:
  assumes "value_fits def v"
  shows "\<exists>ps'. write_field def v ps = Some ps' \<and> decode_field def ps' = canonical_value def v
    \<and> (\<forall>n. n \<noteq> fd_param def \<longrightarrow> params_get ps' n = params_get ps n)"
proof (cases v)
  case (SetValue vs)
  then have fits: "fd_type def = SetField" "plain_members vs" using assms by (simp_all add: value_fits_def)
  have "members (Some (join '','' (js_sort str_cmp vs))) = js_sort str_cmp vs" if "vs \<noteq> []"
    using members_join [of "js_sort str_cmp vs"] fits(2) that by simp
  moreover have "members None = []" by (simp add: members_def set_from_def)
  ultimately show ?thesis
    using fits by (simp add: SetValue write_field_def decode_field_def canonical_value_def)
next
  case (TextValue s)
  then show ?thesis
    using assms by (cases "fd_type def") (simp_all add: value_fits_def write_field_def decode_field_def canonical_value_def)
next
  case (BoolValue b)
  then show ?thesis
    using assms by (simp add: value_fits_def write_field_def decode_field_def canonical_value_def)
qed

lemma decode_field_cong: "params_get ps' (fd_param def) = params_get ps (fd_param def) \<Longrightarrow> decode_field def ps' = decode_field def ps"
  by (simp add: decode_field_def)

lemma define_filter_schema_ok:
  assumes "define_filter_schema schema = Inr schema'"
  shows "distinct (map (fd_param \<circ> snd) schema)"
proof -
  let ?step = "\<lambda>(key, def) acc. case acc of
          Inl err \<Rightarrow> Inl err
        | Inr seen \<Rightarrow>
            if fd_param def \<in> set seen
            then Inl (''defineFilterSchema: duplicate URL param '' @ [CHR 0x22] @ fd_param def @ [CHR 0x22])
            else Inr (set_add (fd_param def) seen)"
  have err: "fold ?step sch (Inl e) = Inl e" for sch :: filter_schema and e
    by (induction sch) auto
  have "distinct (map (fd_param \<circ> snd) sch) \<and> set seen \<inter> set (map (fd_param \<circ> snd) sch) = {}"
    if "fold ?step sch (Inr seen) = Inr seen'" for sch :: filter_schema and seen seen'
    using that
  proof (induction sch arbitrary: seen)
    case (Cons f sch)
    obtain key def where f: "f = (key, def)" by fastforce
    show ?case
    proof (cases "fd_param def \<in> set seen")
      case False
      then show ?thesis using Cons.prems Cons.IH [of "set_add (fd_param def) seen"] by (auto simp: f)
    next
      case True
      then show ?thesis using Cons.prems by (simp add: f err)
    qed
  qed simp
  then show ?thesis using assms by (fastforce simp: define_filter_schema_def split: sum.splits)
qed

text \<open>
  C38. What is written to the URL reads back: in a schema that passed its check, writing a value that
  fits its field makes the field decode to that value (a set sorted, an empty text to its default),
  leaves what every other field decodes to as it was, and leaves alone the parameters of others.
\<close>

theorem filter_round_trip:
  assumes "define_filter_schema schema = Inr checked" and "map_of schema key = Some def" and "value_fits def v"
  shows "\<exists>ps'. with_field schema ps key v = Some ps'
    \<and> decode_field def ps' = canonical_value def v
    \<and> (\<forall>(k, d) \<in> set schema. d \<noteq> def \<longrightarrow> decode_field d ps' = decode_field d ps)
    \<and> (\<forall>n. n \<notin> set (map (fd_param \<circ> snd) schema) \<longrightarrow> params_get ps' n = params_get ps n)"
proof -
  obtain ps' where w: "write_field def v ps = Some ps'" "decode_field def ps' = canonical_value def v"
    and other: "\<And>n. n \<noteq> fd_param def \<Longrightarrow> params_get ps' n = params_get ps n"
    using decode_write_field [OF assms(3)] by blast
  have def: "(key, def) \<in> set schema" using assms(2) by (rule map_of_SomeD)
  have "fd_param d \<noteq> fd_param def" if "(k, d) \<in> set schema" "d \<noteq> def" for k d
  proof
    assume "fd_param d = fd_param def"
    moreover have "inj_on (fd_param \<circ> snd) (set schema)"
      using define_filter_schema_ok [OF assms(1)] by (simp add: distinct_map)
    ultimately show False using inj_onD [of "fd_param \<circ> snd" "set schema" "(k, d)" "(key, def)"] def that by simp
  qed
  then have "\<forall>(k, d) \<in> set schema. d \<noteq> def \<longrightarrow> decode_field d ps' = decode_field d ps"
    by (auto intro!: decode_field_cong other)
  moreover have "\<forall>n. n \<notin> set (map (fd_param \<circ> snd) schema) \<longrightarrow> params_get ps' n = params_get ps n"
    using def by (force intro!: other)
  ultimately show ?thesis using w assms(2) by (simp add: with_field_def)
qed

definition sample_schema :: filter_schema where
  "sample_schema = [(''kinds'', \<lparr>fd_param = ''kind'', fd_type = SetField, fd_default = None\<rparr>),
     (''health'', \<lparr>fd_param = ''health'', fd_type = SingleField, fd_default = Some ''all''\<rparr>)]"

lemma filter_round_trip_witness:
  "\<exists>ps'. with_field sample_schema [(''tab'', ''x'')] ''kinds'' (SetValue [''Pod'', ''Job'']) = Some ps'
     \<and> decode_field \<lparr>fd_param = ''kind'', fd_type = SetField, fd_default = None\<rparr> ps' = SetValue [''Job'', ''Pod'']
     \<and> params_get ps' ''tab'' = Some ''x''"
proof -
  let ?def = "\<lparr>fd_param = ''kind'', fd_type = SetField, fd_default = None\<rparr>" and ?v = "SetValue [''Pod'', ''Job'']"
  have "define_filter_schema sample_schema = Inr sample_schema" "map_of sample_schema ''kinds'' = Some ?def"
    "value_fits ?def ?v" by code_simp+
  from filter_round_trip [OF this, of "[(''tab'', ''x'')]"]
  obtain ps' where "with_field sample_schema [(''tab'', ''x'')] ''kinds'' ?v = Some ps'"
    "decode_field ?def ps' = canonical_value ?def ?v"
    "\<forall>n. n \<notin> set (map (fd_param \<circ> snd) sample_schema) \<longrightarrow> params_get ps' n = params_get [(''tab'', ''x'')] n" by blast
  moreover have "''tab'' \<notin> set (map (fd_param \<circ> snd) sample_schema)" by code_simp
  moreover have "params_get [(''tab'', ''x'')] ''tab'' = Some ''x''" by code_simp
  moreover have "canonical_value ?def ?v = SetValue [''Job'', ''Pod'']" by code_simp
  ultimately show ?thesis by auto
qed

lemma members_of_written:
  assumes "write_field def (SetValue vs) ps = Some ps'" and "fd_type def = SetField" and "plain_members vs"
  shows "members (params_get ps' (fd_param def)) = js_sort str_cmp vs"
  using decode_write_field [of def "SetValue vs" ps] assms
  by (auto simp: value_fits_def decode_field_def canonical_value_def)

text \<open>
  A toggle changes one member and undoes itself: it adds the value to the field's members or takes
  it away, and toggling again restores the members and the canonical parameter, the one that writing
  the field as it was read gives, whatever the order in the URL before.
\<close>

theorem filter_toggle_undoes_itself:
  assumes "map_of schema key = Some def" and "fd_type def = SetField" and "v \<noteq> []" and "CHR '','' \<notin> set v"
    and "cur = members (params_get ps (fd_param def))"
  shows "\<exists>ps1 ps2 ps3. with_toggle schema ps key v = Some ps1 \<and> with_toggle schema ps1 key v = Some ps2
    \<and> set (members (params_get ps1 (fd_param def))) = (if v \<in> set cur then set cur - {v} else insert v (set cur))
    \<and> with_field schema ps key (decode_field def ps) = Some ps3 \<and> params_get ps2 = params_get ps3"
proof -
  define next_of where "next_of xs = (if v \<in> set xs then removeAll v xs else set_add v xs)" for xs
  have plain_next: "plain_members (next_of xs)" if "plain_members xs" for xs
    using that assms(3,4) by (auto simp: next_of_def plain_members_def distinct_removeAll)
  have toggle: "with_toggle schema qs key v = write_field def (SetValue (next_of (members (params_get qs (fd_param def))))) qs" for qs
    using assms(1) by (simp add: with_toggle_def next_of_def Let_def)
  obtain ps1 where ps1: "write_field def (SetValue (next_of cur)) ps = Some ps1"
    and other1: "\<And>n. n \<noteq> fd_param def \<Longrightarrow> params_get ps1 n = params_get ps n"
    using decode_write_field [of def "SetValue (next_of cur)" ps] plain_next [OF plain_members_members] assms(2,5)
    by (auto simp: value_fits_def)
  have plain1: "plain_members (next_of cur)" unfolding assms(5) by (rule plain_next [OF plain_members_members])
  have read1: "members (params_get ps1 (fd_param def)) = js_sort str_cmp (next_of cur)"
    by (rule members_of_written [OF ps1 assms(2) plain1])
  let ?restored = "next_of (js_sort str_cmp (next_of cur))"
  have plain2: "plain_members ?restored" by (rule plain_next) (simp add: plain1)
  have restored: "set ?restored = set cur" by (auto simp: next_of_def)
  obtain ps2 where ps2: "write_field def (SetValue ?restored) ps1 = Some ps2"
    and other2: "\<And>n. n \<noteq> fd_param def \<Longrightarrow> params_get ps2 n = params_get ps1 n"
    using decode_write_field [of def "SetValue ?restored" ps1] plain2 assms(2) by (auto simp: value_fits_def)
  obtain ps3 where ps3: "write_field def (SetValue cur) ps = Some ps3"
    and other3: "\<And>n. n \<noteq> fd_param def \<Longrightarrow> params_get ps3 n = params_get ps n"
    using decode_write_field [of def "SetValue cur" ps] plain_members_members assms(2,5) by (auto simp: value_fits_def)
  have "js_sort str_cmp ?restored = js_sort str_cmp cur"
    using plain2 plain_members_members restored unfolding assms(5) plain_members_def by (intro by_code.js_sort_set_cong) auto
  moreover have "?restored = [] \<longleftrightarrow> cur = []" using restored by (metis set_empty)
  ultimately have "params_get ps2 (fd_param def) = params_get ps3 (fd_param def)"
    using ps2 ps3 assms(2) by (auto simp: write_field_def split: if_splits)
  then have "params_get ps2 = params_get ps3" using other1 other2 other3 by (metis ext)
  moreover have "set (members (params_get ps1 (fd_param def))) = (if v \<in> set cur then set cur - {v} else insert v (set cur))"
    by (auto simp: read1 next_of_def)
  moreover have "with_field schema ps key (decode_field def ps) = Some ps3"
    using ps3 assms(1,2,5) by (simp add: with_field_def decode_field_def)
  ultimately show ?thesis using ps1 ps2 read1 assms(5) by (auto simp: toggle)
qed

lemma filter_toggle_undoes_itself_witness:
  "\<exists>ps1 ps2. with_toggle sample_schema [(''kind'', ''Pod,Job'')] ''kinds'' ''Node'' = Some ps1
     \<and> with_toggle sample_schema ps1 ''kinds'' ''Node'' = Some ps2 \<and> params_get ps2 ''kind'' = Some ''Job,Pod''"
proof -
  let ?def = "\<lparr>fd_param = ''kind'', fd_type = SetField, fd_default = None\<rparr>"
  have "map_of sample_schema ''kinds'' = Some ?def" "fd_type ?def = SetField" "''Node'' \<noteq> []" "CHR '','' \<notin> set ''Node''"
    by (simp_all add: sample_schema_def)
  from filter_toggle_undoes_itself [OF this refl, of "[(''kind'', ''Pod,Job'')]"]
  obtain ps1 ps2 ps3 where ps: "with_toggle sample_schema [(''kind'', ''Pod,Job'')] ''kinds'' ''Node'' = Some ps1"
    "with_toggle sample_schema ps1 ''kinds'' ''Node'' = Some ps2" "params_get ps2 = params_get ps3"
    and ps3: "with_field sample_schema [(''kind'', ''Pod,Job'')] ''kinds'' (decode_field ?def [(''kind'', ''Pod,Job'')]) = Some ps3"
    by blast
  have "map_option (\<lambda>ps. params_get ps ''kind'') (with_field sample_schema [(''kind'', ''Pod,Job'')] ''kinds''
      (decode_field ?def [(''kind'', ''Pod,Job'')])) = Some (Some ''Job,Pod'')" by code_simp
  then have "params_get ps3 ''kind'' = Some ''Job,Pod''" by (simp add: ps3)
  then show ?thesis using ps by metis
qed

section \<open>Clearing\<close>

lemma is_filter_active_iff:
  assumes "distinct (map fst schema)"
  shows "is_filter_active schema (decode_filters schema params) \<longleftrightarrow>
    (\<exists>(key, def) \<in> set schema. decode_field def params \<noteq> empty_value def)"
proof -
  have keys: "map fst (decode_filters schema params) = map fst schema"
    by (simp add: decode_filters_def comp_def case_prod_unfold)
  have decoded: "map_of (decode_filters schema params) key = Some (decode_field def params)" if "(key, def) \<in> set schema" for key def
    using assms that unfolding keys [symmetric] by (intro map_of_is_SomeI) (auto simp: decode_filters_def)
  have "(case map_of (decode_filters schema params) key of
         Some (SetValue vs) \<Rightarrow> fd_type def = SetField \<and> vs \<noteq> []
       | Some (BoolValue b) \<Rightarrow> fd_type def = BooleanField \<and> b
       | Some (TextValue s) \<Rightarrow> fd_type def \<in> {TextField, SingleField} \<and> s \<noteq> coalesce (fd_default def) []
       | None \<Rightarrow> False) \<longleftrightarrow> decode_field def params \<noteq> empty_value def" if "(key, def) \<in> set schema" for key def
    unfolding decoded [OF that] by (cases "fd_type def") (simp_all add: decode_field_def empty_value_def Let_def)
  then show ?thesis unfolding is_filter_active_def list_ex_iff by fast
qed

lemma cleared_filters_are_inactive:
  assumes "distinct (map fst schema)"
  shows "\<not> is_filter_active schema (decode_filters schema (with_cleared schema params None))"
proof -
  have cleared: "params_get (fold (\<lambda>key ps. case map_of schema key of None \<Rightarrow> ps | Some def \<Rightarrow> params_delete (fd_param def) ps) keys ps) n
      = (if \<exists>key \<in> set keys. \<exists>def. map_of schema key = Some def \<and> fd_param def = n then None else params_get ps n)" for keys ps n
    by (induction keys arbitrary: ps) (auto split: option.splits)
  have "params_get (with_cleared schema params None) (fd_param def) = None" if "(key, def) \<in> set schema" for key def
  proof -
    have "map_of schema key = Some def" by (rule map_of_is_SomeI [OF assms that])
    moreover have "key \<in> set (map fst schema)" using that by force
    ultimately show ?thesis unfolding with_cleared_def coalesce_simps cleared by auto
  qed
  then have "decode_field def (with_cleared schema params None) = empty_value def" if "(key, def) \<in> set schema" for key def
    using that by (cases "fd_type def") (auto simp: decode_field_def empty_value_def members_def set_from_def)
  then show ?thesis unfolding is_filter_active_iff [OF assms] by blast
qed

end
