(* ===== verification/Scrubber_Math.thy ===== *)
theory Scrubber_Math
  imports Radar_Prelude Complex_Main
begin

text \<open>
  The geometry of the timeline strip
  (\<open>packages/k8s-ui/src/components/timeline/scrubber-math.ts\<close>): clamping a selection to the domain,
  merging recording gaps, the width of the histogram's buckets, the lens. Times are rational, as the
  code halves and interpolates them, and are rounded where it rounds. The two drawing functions
  (\<open>barHeight\<close>, which takes square roots, and the date label) are not modelled.
\<close>

record scrubber_bucket =
  sb_start_ms :: rat
  sb_end_ms :: rat
  sb_total :: nat
  sb_warnings :: nat

record scrubber_range =
  sr_from :: rat
  sr_to :: rat

definition min_selection_ms :: rat where "min_selection_ms = 60000"

definition min_window_ms :: rat where "min_window_ms = 15 * 60000"

definition minute_ms :: rat where "minute_ms = 60000"

definition scrub_hour_ms :: rat where "scrub_hour_ms = 60 * 60 * 1000"

definition js_round :: "rat \<Rightarrow> rat" where
  \<comment> \<open>\<open>Math.round\<close>: halves go up\<close>
  "js_round x = of_int \<lfloor>x + 1 / 2\<rfloor>"

definition cmp_num :: "rat \<Rightarrow> rat \<Rightarrow> int" where
  \<comment> \<open>the sign of a difference\<close>
  "cmp_num a b = (if a < b then -1 else if a = b then 0 else 1)"

interpretation by_num: js_comparator "\<lambda>x y. cmp_num (f x) (f y)" for f :: "'a \<Rightarrow> rat"
  by unfold_locales (auto simp: cmp_num_def split: if_splits)

section \<open>Selections\<close>

datatype selection_anchor = AnchorStart | AnchorEnd | AnchorCenter

definition normalize_range :: "scrubber_range \<Rightarrow> scrubber_range" where
  "normalize_range sel = (if sr_from sel \<le> sr_to sel then sel else \<lparr>sr_from = sr_to sel, sr_to = sr_from sel\<rparr>)"

definition target_width :: "scrubber_range \<Rightarrow> scrubber_range \<Rightarrow> rat option \<Rightarrow> rat" where
  "target_width sel domain max_selection =
     (let domain_width = max 0 (sr_to domain - sr_from domain);
          width = sr_to (normalize_range sel) - sr_from (normalize_range sel);
          min_width = min min_selection_ms domain_width;
          max_width = (case max_selection of None \<Rightarrow> domain_width | Some m \<Rightarrow> min domain_width m)
      in max min_width (min width max_width))"

definition anchor_window :: "selection_anchor \<Rightarrow> rat \<Rightarrow> scrubber_range \<Rightarrow> scrubber_range" where
  "anchor_window anchor target n =
     (case anchor of
        AnchorEnd \<Rightarrow> n\<lparr>sr_from := sr_to n - target\<rparr>
      | AnchorStart \<Rightarrow> n\<lparr>sr_to := sr_from n + target\<rparr>
      | AnchorCenter \<Rightarrow> let center = (sr_from n + sr_to n) / 2
          in \<lparr>sr_from = center - target / 2, sr_to = center + target / 2\<rparr>)"

definition shift_inside :: "scrubber_range \<Rightarrow> scrubber_range \<Rightarrow> scrubber_range" where
  "shift_inside domain w =
     (let w1 = (if sr_from w < sr_from domain
            then let shift = sr_from domain - sr_from w in \<lparr>sr_from = sr_from w + shift, sr_to = sr_to w + shift\<rparr> else w);
          w2 = (if sr_to w1 > sr_to domain
            then let shift = sr_to w1 - sr_to domain in \<lparr>sr_from = sr_from w1 - shift, sr_to = sr_to w1 - shift\<rparr> else w1)
      in \<lparr>sr_from = max (sr_from domain) (sr_from w2), sr_to = min (sr_to domain) (sr_to w2)\<rparr>)"

definition round_range :: "scrubber_range \<Rightarrow> scrubber_range" where
  "round_range w = \<lparr>sr_from = js_round (sr_from w), sr_to = js_round (sr_to w)\<rparr>"

definition clamp_selection ::
  "scrubber_range \<Rightarrow> scrubber_range \<Rightarrow> rat option \<Rightarrow> selection_anchor \<Rightarrow> scrubber_range \<times> bool" where
  "clamp_selection sel domain max_selection anchor =
     (let n = normalize_range sel;
          width = sr_to n - sr_from n;
          target = target_width sel domain max_selection;
          clamped = (case max_selection of None \<Rightarrow> False | Some m \<Rightarrow> width > m \<and> target < width)
      in (round_range (shift_inside domain (anchor_window anchor target n)), clamped))"

definition preset_to_selection :: "rat \<Rightarrow> rat \<Rightarrow> scrubber_range \<Rightarrow> rat option \<Rightarrow> scrubber_range \<times> bool" where
  "preset_to_selection ms now domain max_selection =
     clamp_selection \<lparr>sr_from = now - ms, sr_to = now\<rparr> domain max_selection AnchorEnd"

definition clamp_lens_to_selection :: "scrubber_range \<Rightarrow> scrubber_range \<Rightarrow> scrubber_range" where
  "clamp_lens_to_selection lens selection =
     (let sel_width = max 0 (sr_to selection - sr_from selection);
          lens_width = sr_to lens - sr_from lens
      in if lens_width \<ge> sel_width then \<lparr>sr_from = sr_from selection, sr_to = sr_to selection\<rparr>
         else let w1 = (if sr_from lens < sr_from selection
                  then \<lparr>sr_from = sr_from selection, sr_to = sr_to lens + (sr_from selection - sr_from lens)\<rparr>
                  else \<lparr>sr_from = sr_from lens, sr_to = sr_to lens\<rparr>);
                  w2 = (if sr_to w1 > sr_to selection
                  then \<lparr>sr_from = sr_from w1 - (sr_to w1 - sr_to selection), sr_to = sr_to selection\<rparr> else w1)
              in round_range w2)"

section \<open>Gaps\<close>

definition order_range :: "scrubber_range \<Rightarrow> scrubber_range" where
  "order_range r = \<lparr>sr_from = min (sr_from r) (sr_to r), sr_to = max (sr_from r) (sr_to r)\<rparr>"

definition gap_step :: "scrubber_range \<Rightarrow> scrubber_range list \<Rightarrow> scrubber_range list" where
  \<comment> \<open>the bands so far, last one first\<close>
  "gap_step r acc =
     (case acc of
        [] \<Rightarrow> [r]
      | band # rest \<Rightarrow>
          if sr_from r \<le> sr_to band then band\<lparr>sr_to := max (sr_to band) (sr_to r)\<rparr> # rest else r # band # rest)"

definition clip_range :: "scrubber_range \<Rightarrow> scrubber_range \<Rightarrow> scrubber_range option" where
  "clip_range domain r =
     (let from = max (sr_from r) (sr_from domain); to = min (sr_to r) (sr_to domain)
      in if to > from then Some \<lparr>sr_from = from, sr_to = to\<rparr> else None)"

definition merge_gap_ranges :: "scrubber_range list \<Rightarrow> scrubber_range option \<Rightarrow> scrubber_range list" where
  "merge_gap_ranges ranges domain =
     (let valid = js_sort (\<lambda>a b. cmp_num (sr_from a) (sr_from b))
            (filter (\<lambda>r. sr_to r > sr_from r) (map order_range ranges));
          merged = rev (fold gap_step valid [])
      in case domain of None \<Rightarrow> merged | Some d \<Rightarrow> List.map_filter (clip_range d) merged)"

section \<open>Display buckets\<close>

definition display_bucket_rungs_ms :: "rat list" where
  "display_bucket_rungs_ms = [minute_ms, 5 * minute_ms, 10 * minute_ms, 30 * minute_ms]
     @ map (\<lambda>h. h * scrub_hour_ms) [1, 2, 3, 6, 12, 24]"

definition max_display_bars :: rat where "max_display_bars = 256"

definition pick_display_bucket_size_ms :: "rat \<Rightarrow> rat \<Rightarrow> rat" where
  "pick_display_bucket_size_ms domain_width min_bucket =
     (case List.find (\<lambda>rung. rung \<ge> min_bucket \<and> domain_width / rung \<le> max_display_bars) display_bucket_rungs_ms of
        Some rung \<Rightarrow> rung
      | None \<Rightarrow> last display_bucket_rungs_ms)"

definition count_events_after :: "scrubber_bucket list \<Rightarrow> rat \<Rightarrow> nat" where
  "count_events_after buckets to_ms =
     (let hour_start = of_int \<lfloor>to_ms / scrub_hour_ms\<rfloor> * scrub_hour_ms
      in sum_list (map sb_total (filter (\<lambda>b. sb_start_ms b \<ge> hour_start) buckets)))"

section \<open>A clamped selection\<close>

lemma js_round_mono: "x \<le> y \<Longrightarrow> js_round x \<le> js_round y"
  unfolding js_round_def by (intro of_int_le_iff [THEN iffD2] floor_mono) simp

lemma js_round_int [simp]: "js_round (of_int z) = of_int z"
proof -
  have "\<lfloor>of_int z + 1 / 2 :: rat\<rfloor> = z" by (rule floor_unique) simp_all
  then show ?thesis by (simp add: js_round_def)
qed

lemma js_round_near: "x - 1 / 2 < js_round x" "js_round x \<le> x + 1 / 2"
  unfolding js_round_def by linarith+

lemma anchor_window_width: "sr_to (anchor_window anchor t n) - sr_from (anchor_window anchor t n) = t"
  by (cases anchor) (simp_all add: anchor_window_def Let_def)

lemma shift_inside_fits:
  assumes "sr_to w - sr_from w = t" and "0 \<le> t" and "t \<le> sr_to d - sr_from d"
  shows "sr_from d \<le> sr_from (shift_inside d w) \<and> sr_to (shift_inside d w) \<le> sr_to d
    \<and> sr_to (shift_inside d w) - sr_from (shift_inside d w) = t"
  using assms by (auto simp: shift_inside_def Let_def)

lemma shift_inside_stays:
  "sr_from d \<le> sr_from w \<Longrightarrow> sr_to w \<le> sr_to d \<Longrightarrow> sr_from (shift_inside d w) = sr_from w \<and> sr_to (shift_inside d w) = sr_to w"
  by (simp add: shift_inside_def Let_def)

lemma target_width_bounds:
  assumes "sr_from d \<le> sr_to d"
  shows "0 \<le> target_width s d m" and "target_width s d m \<le> sr_to d - sr_from d"
    and "min min_selection_ms (sr_to d - sr_from d) \<le> target_width s d m"
    and "m = Some cap \<Longrightarrow> min_selection_ms \<le> cap \<Longrightarrow> target_width s d m \<le> cap"
  using assms by (auto simp: target_width_def Let_def min_selection_ms_def split: option.splits)

text \<open>
  A clamped selection is usable: on a domain of whole milliseconds it lies in the domain, is at
  least a minute wide (or the whole of a shorter domain) and no wider than the cap, up to the
  millisecond that rounding its edges costs; and the anchored edge stays where it was whenever the
  window around it fits in the domain.
\<close>

theorem clamp_selection_in_bounds:
  assumes "sr_from domain = of_int a" and "sr_to domain = of_int b" and "a \<le> b"
    and "s = fst (clamp_selection sel domain max_selection anchor)"
    and "n = normalize_range sel" and "t = target_width sel domain max_selection"
  shows "sr_from domain \<le> sr_from s \<and> sr_from s \<le> sr_to s \<and> sr_to s \<le> sr_to domain
    \<and> min min_selection_ms (sr_to domain - sr_from domain) - 1 < sr_to s - sr_from s
    \<and> (\<forall>cap. max_selection = Some cap \<and> min_selection_ms \<le> cap \<longrightarrow> sr_to s - sr_from s < cap + 1)
    \<and> (anchor = AnchorEnd \<and> sr_from domain \<le> sr_to n - t \<and> sr_to n \<le> sr_to domain \<longrightarrow> sr_to s = js_round (sr_to n))
    \<and> (anchor = AnchorStart \<and> sr_from n + t \<le> sr_to domain \<and> sr_from domain \<le> sr_from n \<longrightarrow> sr_from s = js_round (sr_from n))"
proof -
  define w where "w = shift_inside domain (anchor_window anchor t n)"
  have s: "sr_from s = js_round (sr_from w)" "sr_to s = js_round (sr_to w)"
    by (simp_all add: assms(4-6) clamp_selection_def Let_def round_range_def w_def)
  have ab: "sr_from domain \<le> sr_to domain" using assms(1-3) by simp
  note t = target_width_bounds [OF ab, where s = sel and m = max_selection, folded assms(6)]
  have w: "sr_from domain \<le> sr_from w" "sr_to w \<le> sr_to domain" "sr_to w - sr_from w = t"
    using shift_inside_fits [OF anchor_window_width t(1,2), of anchor n] by (simp_all add: w_def)
  have "sr_from domain \<le> sr_from s" using js_round_mono [OF w(1)] by (simp add: s assms(1))
  moreover have "sr_to s \<le> sr_to domain" using js_round_mono [OF w(2)] by (simp add: s assms(2))
  moreover have "sr_from s \<le> sr_to s" using w(3) t(1) by (simp add: s js_round_mono)
  moreover have near: "t - 1 < sr_to s - sr_from s" "sr_to s - sr_from s < t + 1"
    using js_round_near [of "sr_from w"] js_round_near [of "sr_to w"] w(3) by (simp_all add: s)
  then have "min min_selection_ms (sr_to domain - sr_from domain) - 1 < sr_to s - sr_from s" using t(3) by linarith
  moreover have "sr_to s - sr_from s < cap + 1" if "max_selection = Some cap" "min_selection_ms \<le> cap" for cap
    using near t(4) [OF that] by linarith
  moreover have "sr_to s = js_round (sr_to n)"
    if "anchor = AnchorEnd" "sr_from domain \<le> sr_to n - t" "sr_to n \<le> sr_to domain"
    using shift_inside_stays [of domain "anchor_window anchor t n"] that by (simp add: s w_def anchor_window_def)
  moreover have "sr_from s = js_round (sr_from n)"
    if "anchor = AnchorStart" "sr_from n + t \<le> sr_to domain" "sr_from domain \<le> sr_from n"
    using shift_inside_stays [of domain "anchor_window anchor t n"] that by (simp add: s w_def anchor_window_def)
  ultimately show ?thesis by blast
qed

lemma clamp_selection_in_bounds_witness:
  "sr_to (fst (clamp_selection \<lparr>sr_from = 100, sr_to = 200\<rparr> \<lparr>sr_from = 0, sr_to = 100000\<rparr> (Some 70000) AnchorEnd)) \<le> 100000"
  using clamp_selection_in_bounds [of "\<lparr>sr_from = 0, sr_to = 100000\<rparr>" 0 100000, OF _ _ _ refl refl refl] by simp

section \<open>Merged gaps\<close>

definition covered :: "scrubber_range list \<Rightarrow> rat \<Rightarrow> bool" where
  "covered rs t \<longleftrightarrow> (\<exists>r \<in> set rs. sr_from r \<le> t \<and> t < sr_to r)"

definition bands_ok :: "scrubber_range list \<Rightarrow> bool" where
  \<comment> \<open>the last band first: proper and apart\<close>
  "bands_ok acc \<longleftrightarrow> (\<forall>r \<in> set acc. sr_from r < sr_to r) \<and> sorted_wrt (\<lambda>later earlier. sr_to earlier < sr_from later) acc"

lemma covered_simps [simp]:
  "\<not> covered [] t" "covered (r # rs) t \<longleftrightarrow> sr_from r \<le> t \<and> t < sr_to r \<or> covered rs t"
  by (auto simp: covered_def)

lemma gap_step_ok:
  assumes "bands_ok acc" and "sr_from r < sr_to r" and "acc \<noteq> [] \<Longrightarrow> sr_from (hd acc) \<le> sr_from r"
  shows "bands_ok (gap_step r acc) \<and> sr_from (hd (gap_step r acc)) \<le> sr_from r
    \<and> (covered (gap_step r acc) t \<longleftrightarrow> covered acc t \<or> sr_from r \<le> t \<and> t < sr_to r)"
proof (cases acc)
  case Nil
  then show ?thesis using assms(2) by (simp add: gap_step_def bands_ok_def)
next
  case (Cons band rest)
  then show ?thesis using assms by (auto simp: gap_step_def bands_ok_def)
qed

lemma gap_step_nonempty [simp]: "gap_step r acc \<noteq> []"
  by (simp add: gap_step_def split: list.split)

lemma fold_gap_step_ok:
  assumes "sorted_wrt (\<lambda>a b. sr_from a \<le> sr_from b) rs" and "\<forall>r \<in> set rs. sr_from r < sr_to r" and "bands_ok acc"
    and "acc \<noteq> [] \<Longrightarrow> \<forall>r \<in> set rs. sr_from (hd acc) \<le> sr_from r"
  shows "bands_ok (fold gap_step rs acc) \<and> (covered (fold gap_step rs acc) t \<longleftrightarrow> covered acc t \<or> covered rs t)"
  using assms
proof (induction rs arbitrary: acc)
  case Nil
  then show ?case by simp
next
  case (Cons r rs)
  have step: "bands_ok (gap_step r acc)" "sr_from (hd (gap_step r acc)) \<le> sr_from r"
    "covered (gap_step r acc) t \<longleftrightarrow> covered acc t \<or> sr_from r \<le> t \<and> t < sr_to r"
    using gap_step_ok [of acc r t] Cons.prems by simp_all
  have "\<forall>x \<in> set rs. sr_from (hd (gap_step r acc)) \<le> sr_from x" using Cons.prems(1) step(2) by fastforce
  then have "bands_ok (fold gap_step rs (gap_step r acc))
      \<and> (covered (fold gap_step rs (gap_step r acc)) t \<longleftrightarrow> covered (gap_step r acc) t \<or> covered rs t)"
    using Cons.prems step(1) by (intro Cons.IH) simp_all
  then show ?case using step(3) by auto
qed

lemma covered_set_cong: "set xs = set ys \<Longrightarrow> covered xs t = covered ys t"
  by (simp add: covered_def)

lemma clip_range_ok:
  assumes "clip_range d r = Some c"
  shows "sr_from c < sr_to c \<and> sr_from r \<le> sr_from c \<and> sr_to c \<le> sr_to r"
  using assms by (auto simp: clip_range_def Let_def split: if_splits)

lemma covered_clip: "covered (List.map_filter (clip_range d) rs) t \<longleftrightarrow> covered rs t \<and> sr_from d \<le> t \<and> t < sr_to d"
proof (induction rs)
  case Nil
  then show ?case by simp
next
  case (Cons r rs)
  then show ?case by (auto simp: List.map_filter_simps clip_range_def Let_def)
qed

lemma clip_apart:
  assumes "sorted_wrt (\<lambda>a b. sr_to a < sr_from b) rs"
  shows "sorted_wrt (\<lambda>a b. sr_to a < sr_from b) (List.map_filter (clip_range d) rs)"
  using assms
proof (induction rs)
  case (Cons r rs)
  have later: "sr_to r < sr_from c" if c: "c \<in> set (List.map_filter (clip_range d) rs)" for c
  proof -
    obtain x where x: "x \<in> set rs" "clip_range d x = Some c" using c by (auto simp: List.map_filter_def)
    then show ?thesis using Cons.prems clip_range_ok [OF x(2)] by fastforce
  qed
  have rest: "sorted_wrt (\<lambda>a b. sr_to a < sr_from b) (List.map_filter (clip_range d) rs)" using Cons by simp
  show ?case
  proof (cases "clip_range d r")
    case None
    then show ?thesis using rest by (simp add: List.map_filter_simps)
  next
    case (Some c)
    then have "sr_to c \<le> sr_to r" using clip_range_ok by blast
    then show ?thesis using rest later by (fastforce simp: List.map_filter_simps Some)
  qed
qed simp

text \<open>
  Merging gaps keeps exactly the time they cover: whatever the order, direction and overlap of the
  recorded gaps, the bands come out in order, of positive width and apart from each other, and a moment
  lies in a band exactly when it lies in a gap and in the domain, if there is one.
\<close>

theorem merge_gap_ranges_covers_the_same:
  "sorted_wrt (\<lambda>a b. sr_to a < sr_from b) (merge_gap_ranges ranges domain)
   \<and> list_all (\<lambda>r. sr_from r < sr_to r) (merge_gap_ranges ranges domain)
   \<and> covered (merge_gap_ranges ranges domain) t
     = (covered (map order_range ranges) t \<and> (case domain of None \<Rightarrow> True | Some d \<Rightarrow> sr_from d \<le> t \<and> t < sr_to d))"
proof -
  define valid where "valid = js_sort (\<lambda>a b. cmp_num (sr_from a) (sr_from b)) (filter (\<lambda>r. sr_to r > sr_from r) (map order_range ranges))"
  define acc where "acc = fold gap_step valid []"
  have "sorted_wrt (\<lambda>a b. cmp_num (sr_from a) (sr_from b) \<le> 0) valid"
    unfolding valid_def by (rule by_num.sorted_js_sort)
  then have "sorted_wrt (\<lambda>a b. sr_from a \<le> sr_from b) valid"
    by (rule sorted_wrt_mono_rel [rotated]) (auto simp: cmp_num_def split: if_splits)
  moreover have proper: "\<forall>r \<in> set valid. sr_from r < sr_to r" by (simp add: valid_def)
  moreover have "bands_ok []" by (simp add: bands_ok_def)
  ultimately have acc: "bands_ok acc" "covered acc t \<longleftrightarrow> covered valid t"
    using fold_gap_step_ok [of valid "[]" t] by (simp_all add: acc_def)
  have "covered valid t \<longleftrightarrow> covered (map order_range ranges) t"
    by (force simp: valid_def covered_def)
  then have merged: "covered (rev acc) t \<longleftrightarrow> covered (map order_range ranges) t"
    using acc(2) covered_set_cong [of "rev acc" acc] by simp
  have apart: "sorted_wrt (\<lambda>a b. sr_to a < sr_from b) (rev acc)" using acc(1) by (simp add: bands_ok_def sorted_wrt_rev)
  have out: "merge_gap_ranges ranges domain = (case domain of None \<Rightarrow> rev acc | Some d \<Rightarrow> List.map_filter (clip_range d) (rev acc))"
    unfolding merge_gap_ranges_def acc_def valid_def Let_def ..
  show ?thesis
  proof (cases domain)
    case None
    then have "merge_gap_ranges ranges domain = rev acc" using out by simp
    then show ?thesis using None acc(1) merged apart by (simp add: bands_ok_def list_all_iff)
  next
    case (Some d)
    have "list_all (\<lambda>r. sr_from r < sr_to r) (List.map_filter (clip_range d) (rev acc))"
      using clip_range_ok by (force simp: list_all_iff List.map_filter_def)
    moreover have "merge_gap_ranges ranges domain = List.map_filter (clip_range d) (rev acc)" using out Some by simp
    ultimately show ?thesis using Some merged clip_apart [OF apart] by (simp add: covered_clip)
  qed
qed

section \<open>The display bucket\<close>

text \<open>The finest rung the caller allows that keeps the bars under the cap, else the coarsest.\<close>

lemma display_bucket_finest:
  assumes "pick_display_bucket_size_ms width min_bucket = picked"
  shows "picked \<in> set display_bucket_rungs_ms
    \<and> (min_bucket \<le> picked \<and> width / picked \<le> 256 \<or> picked = 24 * scrub_hour_ms
        \<and> (\<forall>rung \<in> set display_bucket_rungs_ms. min_bucket \<le> rung \<longrightarrow> 256 < width / rung))
    \<and> (\<forall>rung \<in> set display_bucket_rungs_ms. min_bucket \<le> rung \<and> rung < picked \<longrightarrow> 256 < width / rung)"
proof (cases "List.find (\<lambda>rung. rung \<ge> min_bucket \<and> width / rung \<le> max_display_bars) display_bucket_rungs_ms")
  case None
  have "last display_bucket_rungs_ms = 24 * scrub_hour_ms" by (simp add: display_bucket_rungs_ms_def)
  then have picked: "picked = 24 * scrub_hour_ms" using assms None by (simp add: pick_display_bucket_size_ms_def)
  have "\<forall>rung \<in> set display_bucket_rungs_ms. min_bucket \<le> rung \<longrightarrow> 256 < width / rung"
    using None unfolding find_none_iff max_display_bars_def by (meson not_le)
  moreover have "24 * scrub_hour_ms \<in> set display_bucket_rungs_ms" by (simp add: display_bucket_rungs_ms_def)
  ultimately show ?thesis unfolding picked by blast
next
  case (Some rung)
  then have size: "picked = rung" using assms by (simp add: pick_display_bucket_size_ms_def)
  obtain i where i: "i < length display_bucket_rungs_ms" "display_bucket_rungs_ms ! i = rung"
    "min_bucket \<le> rung \<and> width / rung \<le> max_display_bars"
    "\<forall>j < i. \<not> (min_bucket \<le> display_bucket_rungs_ms ! j \<and> width / display_bucket_rungs_ms ! j \<le> max_display_bars)"
    using Some by (auto simp: find_Some_iff)
  have rungs: "sorted display_bucket_rungs_ms" by (simp add: display_bucket_rungs_ms_def minute_ms_def scrub_hour_ms_def)
  have "j < i" if "j < length display_bucket_rungs_ms" "display_bucket_rungs_ms ! j < rung" for j
  proof (rule ccontr)
    assume "\<not> j < i"
    then have "rung \<le> display_bucket_rungs_ms ! j"
      using sorted_nth_mono [OF rungs, of i j] that(1) i(2) by simp
    then show False using that(2) by simp
  qed
  then have "\<forall>r \<in> set display_bucket_rungs_ms. min_bucket \<le> r \<and> r < rung \<longrightarrow> 256 < width / r"
    using i(4) by (auto simp: in_set_conv_nth max_display_bars_def) (meson not_le)
  then show ?thesis using i by (auto simp: size max_display_bars_def in_set_conv_nth)
qed

end
