(* ===== verification/Log_Buffer.thy ===== *)
theory Log_Buffer
  imports Radar_Prelude
begin

text \<open>
  The log viewer's lines: the bounded buffer behind a followed or frozen view
  (\<open>packages/k8s-ui/src/components/logs/useLogBuffer.ts\<close>).

  What a line says about its own level is left to a parameter, the record \<open>line_reader\<close>: the
  detection of levels (\<open>detectLevel\<close>) and of logfmt (\<open>isLogfmt\<close>) does not bear on the buffer, which is
  right for any of them.
\<close>

section \<open>Entries\<close>

datatype log_level = LvError | LvWarn | LvInfo | LvDebug | LvUnknown

datatype level_source = SrcStructured | SrcHeader | SrcKeyword | SrcNone

record raw_log_entry =
  lr_source_label :: "string option"
  lr_timestamp :: string
  lr_content :: string
  lr_container :: string
  lr_pod :: "string option"
  lr_pod_color_index :: "nat option"

record log_entry = raw_log_entry +
  lg_id :: nat
  lg_level :: log_level
  lg_level_source :: level_source
  lg_is_json :: bool
  lg_is_logfmt :: bool

record line_reader =
  ld_detect :: "string \<Rightarrow> log_level \<times> level_source"
  ld_logfmt :: "string \<Rightarrow> bool"

definition max_buffer_size :: nat where "max_buffer_size = 10000"

definition is_json_content :: "string \<Rightarrow> bool" where
  "is_json_content content =
     (let trimmed = trim_start content
      in trimmed \<noteq> [] \<and> hd trimmed = CHR 0x7B \<and> last trimmed = CHR 0x7D)"

section \<open>The buffer\<close>

text \<open>
  The state of the hook: \<open>buffer.latest\<close>; \<open>buffer.reading\<close>, \<open>None\<close> when following; whether the array
  held for reading is the very array of the latest lines (the code compares the references); the next
  id; the lines that wait for the animation frame, and whether one is requested.
\<close>

record log_buffer =
  lb_latest :: "log_entry list"
  lb_reading :: "log_entry list option"
  lb_same :: bool
  lb_next_id :: nat
  lb_pending :: "raw_log_entry list"
  lb_frame :: bool

definition enrich_entry :: "line_reader \<Rightarrow> nat \<Rightarrow> raw_log_entry \<Rightarrow> log_entry" where
  "enrich_entry reader i raw =
     raw_log_entry.extend raw
       (log_entry.fields i (fst (ld_detect reader (lr_content raw))) (snd (ld_detect reader (lr_content raw)))
          (is_json_content (lr_content raw)) (\<not> is_json_content (lr_content raw) \<and> ld_logfmt reader (lr_content raw)))"

fun enrich_all :: "line_reader \<Rightarrow> nat \<Rightarrow> raw_log_entry list \<Rightarrow> log_entry list" where
  "enrich_all reader i [] = []"
| "enrich_all reader i (raw # raws) = enrich_entry reader i raw # enrich_all reader (i + 1) raws"

definition take_newest :: "nat \<Rightarrow> 'a list \<Rightarrow> 'a list" where
  \<comment> \<open>\<open>xs.slice(-n)\<close>\<close>
  "take_newest n xs = drop (length xs - n) xs"

definition empty_buffer :: log_buffer where
  "empty_buffer = \<lparr>lb_latest = [], lb_reading = None, lb_same = False, lb_next_id = 0, lb_pending = [], lb_frame = False\<rparr>"

definition flush_pending :: "line_reader \<Rightarrow> log_buffer \<Rightarrow> log_buffer" where
  "flush_pending reader b =
     (if lb_pending b = [] then b\<lparr>lb_frame := False\<rparr>
      else let enriched = enrich_all reader (lb_next_id b) (lb_pending b);
               combined = lb_latest b @ enriched;
               latest = (if length combined > max_buffer_size then take_newest max_buffer_size combined else combined);
               keeps = (lb_reading b \<noteq> None \<and> lb_same b \<and> length combined \<le> max_buffer_size)
           in \<lparr>lb_latest = latest, lb_reading = (if keeps then Some latest else lb_reading b), lb_same = keeps,
               lb_next_id = lb_next_id b + length (lb_pending b), lb_pending = [], lb_frame = False\<rparr>)"

definition append_line :: "line_reader \<Rightarrow> raw_log_entry \<Rightarrow> log_buffer \<Rightarrow> log_buffer" where
  "append_line reader entry b =
     (let b' = b\<lparr>lb_pending := lb_pending b @ [entry]\<rparr> in
      if length (lb_pending b') \<ge> max_buffer_size then flush_pending reader b'
      else b'\<lparr>lb_frame := True\<rparr>)"

definition append_batch :: "line_reader \<Rightarrow> raw_log_entry list \<Rightarrow> log_buffer \<Rightarrow> log_buffer" where
  "append_batch reader batch b = fold (append_line reader) batch b"

definition animation_frame :: "line_reader \<Rightarrow> log_buffer \<Rightarrow> log_buffer" where
  "animation_frame reader b = (if lb_frame b then flush_pending reader b else b)"

definition set_lines :: "line_reader \<Rightarrow> raw_log_entry list \<Rightarrow> log_buffer \<Rightarrow> log_buffer" where
  "set_lines reader raws b =
     (let enriched = enrich_all reader (lb_next_id b) raws
      in \<lparr>lb_latest = (if length enriched > max_buffer_size then drop (length enriched - max_buffer_size) enriched else enriched),
          lb_reading = None, lb_same = False, lb_next_id = lb_next_id b + length raws, lb_pending = [], lb_frame = False\<rparr>)"

definition clear_lines :: "log_buffer \<Rightarrow> log_buffer" where
  "clear_lines b = b\<lparr>lb_latest := [], lb_reading := None, lb_same := False, lb_pending := [], lb_frame := False\<rparr>"

definition set_following :: "bool \<Rightarrow> log_buffer \<Rightarrow> log_buffer" where
  "set_following following b =
     (if following then (if lb_reading b = None then b else b\<lparr>lb_reading := None, lb_same := False\<rparr>)
      else (if lb_reading b = None then b\<lparr>lb_reading := Some (lb_latest b), lb_same := True\<rparr> else b))"

section \<open>What the view shows\<close>

definition last_id :: "log_entry list \<Rightarrow> int" where
  "last_id es = (if es = [] then -1 else int (lg_id (last es)))"

definition shown_entries :: "log_buffer \<Rightarrow> log_entry list" where
  "shown_entries b = coalesce (lb_reading b) (lb_latest b)"

definition pending_line_count :: "log_buffer \<Rightarrow> int" where
  "pending_line_count b = last_id (lb_latest b) - last_id (shown_entries b)"

definition latest_first_id :: "log_buffer \<Rightarrow> int" where
  "latest_first_id b = (if lb_latest b = [] then 0 else int (lg_id (hd (lb_latest b))))"

definition retained_line_count :: "log_buffer \<Rightarrow> int" where
  "retained_line_count b =
     (let overlap = max 0 (last_id (shown_entries b) - latest_first_id b + 1)
      in if lb_reading b = None then int (length (lb_latest b))
         else int (length (shown_entries b)) + int (length (lb_latest b)) - overlap)"

definition missing_line_count :: "log_buffer \<Rightarrow> int" where
  "missing_line_count b =
     (if lb_reading b = None then 0 else max 0 (latest_first_id b - last_id (shown_entries b) - 1))"

definition retained_entries :: "log_buffer \<Rightarrow> log_entry list" where
  "retained_entries b =
     (case lb_reading b of
        None \<Rightarrow> lb_latest b
      | Some reading \<Rightarrow>
          if lb_same b then lb_latest b
          else reading @ filter (\<lambda>e. int (lg_id e) > last_id reading) (lb_latest b))"

section \<open>The specification: a log and a window on it\<close>

text \<open>
  What the buffer stands for: all lines since the last reset, without bound, with the id of the first;
  the lines that wait for a frame; and, when the view is frozen, the segment of the log it shows. A
  frozen view grows with the log while it shows the tip and the whole of it fits, and then stands still.
\<close>

record log_spec =
  sp_base :: nat
  sp_lines :: "raw_log_entry list"
  sp_pending :: "raw_log_entry list"
  sp_window :: "(nat \<times> nat) option"

datatype log_op = OpAppend raw_log_entry | OpFrame | OpSet "raw_log_entry list" | OpClear | OpFollow bool

definition spec_empty :: log_spec where
  "spec_empty = \<lparr>sp_base = 0, sp_lines = [], sp_pending = [], sp_window = None\<rparr>"

definition spec_flush :: "log_spec \<Rightarrow> log_spec" where
  "spec_flush a =
     (let n = length (sp_lines a); n' = n + length (sp_pending a)
      in a\<lparr>sp_lines := sp_lines a @ sp_pending a, sp_pending := [],
           sp_window := map_option (\<lambda>(s, e). if e = n \<and> n' - s \<le> max_buffer_size then (s, n') else (s, e)) (sp_window a)\<rparr>)"

fun spec_op :: "log_op \<Rightarrow> log_spec \<Rightarrow> log_spec" where
  "spec_op (OpAppend x) a =
     (let a' = a\<lparr>sp_pending := sp_pending a @ [x]\<rparr>
      in if length (sp_pending a') \<ge> max_buffer_size then spec_flush a' else a')"
| "spec_op OpFrame a = spec_flush a"
| "spec_op (OpSet xs) a = \<lparr>sp_base = sp_base a + length (sp_lines a), sp_lines = xs, sp_pending = [], sp_window = None\<rparr>"
| "spec_op OpClear a = \<lparr>sp_base = sp_base a + length (sp_lines a), sp_lines = [], sp_pending = [], sp_window = None\<rparr>"
| "spec_op (OpFollow following) a =
     (if following then a\<lparr>sp_window := None\<rparr>
      else case sp_window a of
             Some w \<Rightarrow> a
           | None \<Rightarrow> a\<lparr>sp_window := Some (length (sp_lines a) - max_buffer_size, length (sp_lines a))\<rparr>)"

fun buffer_op :: "line_reader \<Rightarrow> log_op \<Rightarrow> log_buffer \<Rightarrow> log_buffer" where
  "buffer_op reader (OpAppend x) b = append_line reader x b"
| "buffer_op reader OpFrame b = animation_frame reader b"
| "buffer_op reader (OpSet xs) b = set_lines reader xs b"
| "buffer_op reader OpClear b = clear_lines b"
| "buffer_op reader (OpFollow following) b = set_following following b"

lemma append_batch_ops: "append_batch reader batch b = fold (buffer_op reader) (map OpAppend batch) b"
  unfolding append_batch_def by (induction batch arbitrary: b) simp_all

definition segment :: "nat \<Rightarrow> nat \<Rightarrow> 'a list \<Rightarrow> 'a list" where
  "segment s e xs = drop s (take e xs)"

definition window_ok :: "nat \<Rightarrow> nat \<times> nat \<Rightarrow> bool" where
  "window_ok n w \<longleftrightarrow> fst w \<le> snd w \<and> snd w \<le> n
     \<and> (snd w = n \<longrightarrow> fst w = n - max_buffer_size) \<and> (snd w < n \<longrightarrow> fst w < snd w)"

definition view_ok :: "log_buffer \<Rightarrow> log_entry list \<Rightarrow> (nat \<times> nat) option \<Rightarrow> bool" where
  \<comment> \<open>the two arrays, given the numbered lines of the log and the window\<close>
  "view_ok b es window \<longleftrightarrow>
     lb_latest b = take_newest max_buffer_size es
     \<and> (case window of
          None \<Rightarrow> lb_reading b = None \<and> \<not> lb_same b
        | Some (s, e) \<Rightarrow> lb_reading b = Some (segment s e es) \<and> (lb_same b \<longleftrightarrow> e = length es) \<and> window_ok (length es) (s, e))"

definition implements :: "line_reader \<Rightarrow> log_buffer \<Rightarrow> log_spec \<Rightarrow> bool" where
  "implements reader b a \<longleftrightarrow>
     view_ok b (enrich_all reader (sp_base a) (sp_lines a)) (sp_window a)
     \<and> lb_next_id b = sp_base a + length (sp_lines a)
     \<and> lb_pending b = sp_pending a \<and> length (sp_pending a) < max_buffer_size
     \<and> (lb_frame b \<longleftrightarrow> sp_pending a \<noteq> [])"

section \<open>The buffer implements it\<close>

lemma length_enrich_all [simp]: "length (enrich_all reader i xs) = length xs"
  by (induction reader i xs rule: enrich_all.induct) simp_all

lemma enrich_all_append: "enrich_all reader i (xs @ ys) = enrich_all reader i xs @ enrich_all reader (i + length xs) ys"
  by (induction reader i xs rule: enrich_all.induct) simp_all

lemma length_take_newest [simp]: "length (take_newest n xs) = min n (length xs)"
  by (auto simp: take_newest_def)

lemma take_newest_short: "length xs \<le> n \<Longrightarrow> take_newest n xs = xs"
  by (simp add: take_newest_def)

lemma take_newest_append: "take_newest n (take_newest n xs @ ys) = take_newest n (xs @ ys)"
proof (cases "length xs \<le> n")
  case True
  then show ?thesis by (simp add: take_newest_short)
next
  case False
  have "drop (n + length ys - n) (drop (length xs - n) xs @ ys) = drop (length xs + length ys - n) (xs @ ys)"
    using False by (cases "length ys \<le> n") (simp_all add: add.commute)
  then show ?thesis using False by (simp add: take_newest_def)
qed

lemma max_buffer_pos [simp]: "0 < max_buffer_size"
  by (simp add: max_buffer_size_def)

lemma segment_append [simp]: "e \<le> length xs \<Longrightarrow> segment s e (xs @ ys) = segment s e xs"
  by (simp add: segment_def)

text \<open>What one flush does to the two arrays.\<close>

lemma view_ok_flush:
  assumes view: "view_ok b es window" and new: "new \<noteq> []" "length new \<le> max_buffer_size"
    and combined: "combined = lb_latest b @ new"
    and latest: "lb_latest b' = (if length combined > max_buffer_size then take_newest max_buffer_size combined else combined)"
    and keeps: "keeps = (lb_reading b \<noteq> None \<and> lb_same b \<and> length combined \<le> max_buffer_size)"
    and reading: "lb_reading b' = (if keeps then Some (lb_latest b') else lb_reading b)" and same: "lb_same b' = keeps"
  shows "view_ok b' (es @ new) (map_option (\<lambda>(s, e). if e = length es \<and> length es + length new - s \<le> max_buffer_size
    then (s, length es + length new) else (s, e)) window)"
proof -
  have old: "lb_latest b = take_newest max_buffer_size es" using view by (simp add: view_ok_def)
  have new_latest: "lb_latest b' = take_newest max_buffer_size (es @ new)"
    using take_newest_append [of max_buffer_size es new] take_newest_short [of combined max_buffer_size]
    by (auto simp: latest combined old not_less)
  show ?thesis
  proof (cases window)
    case None
    then show ?thesis using view new_latest by (simp add: view_ok_def reading same keeps)
  next
    case (Some w)
    obtain s e where w: "w = (s, e)" by fastforce
    have v: "lb_reading b = Some (segment s e es)" "lb_same b \<longleftrightarrow> e = length es" and ok: "window_ok (length es) (s, e)"
      using view by (simp_all add: view_ok_def Some w)
    have start: "e = length es \<Longrightarrow> s = length es - max_buffer_size" using ok by (simp add: window_ok_def)
    have keeps': "keeps \<longleftrightarrow> e = length es \<and> length es + length new - s \<le> max_buffer_size"
      using start by (auto simp: keeps v combined old)
    show ?thesis
    proof (cases keeps)
      case True
      then have s: "s = length es + length new - max_buffer_size"
        using start keeps' new(1) by (cases "length es \<le> max_buffer_size") auto
      then have "lb_latest b' = segment s (length es + length new) (es @ new)"
        by (simp add: new_latest take_newest_def segment_def)
      then show ?thesis
        using True keeps' s new_latest by (simp add: view_ok_def Some w reading same window_ok_def)
    next
      case False
      have "s < e"
      proof (cases "e = length es")
        case True
        then have "length es + length new - s > max_buffer_size" using keeps' False by simp
        then show ?thesis using True new(2) by simp
      next
        case False
        then show ?thesis using ok by (simp add: window_ok_def)
      qed
      moreover have "e < length es + length new" using ok new(1) by (cases new) (auto simp: window_ok_def)
      ultimately show ?thesis
        using False keeps' new_latest ok v by (auto simp: view_ok_def Some w reading same window_ok_def)
    qed
  qed
qed

lemma view_ok_pending [simp]: "view_ok (b\<lparr>lb_pending := p\<rparr>) es w = view_ok b es w"
  by (cases w) (simp_all add: view_ok_def)

lemma view_ok_frame [simp]: "view_ok (b\<lparr>lb_frame := f\<rparr>) es w = view_ok b es w"
  by (cases w) (simp_all add: view_ok_def)

lemma implements_flush:
  assumes "view_ok b (enrich_all reader (sp_base a) (sp_lines a)) (sp_window a)"
    and "lb_next_id b = sp_base a + length (sp_lines a)" and "lb_pending b = sp_pending a"
    and "sp_pending a \<noteq> []" and "length (sp_pending a) \<le> max_buffer_size"
  shows "implements reader (flush_pending reader b) (spec_flush a)"
proof -
  let ?es = "enrich_all reader (sp_base a) (sp_lines a)" and ?new = "enrich_all reader (lb_next_id b) (sp_pending a)"
  let ?combined = "lb_latest b @ ?new"
  have flushed: "flush_pending reader b =
      (let latest = (if length ?combined > max_buffer_size then take_newest max_buffer_size ?combined else ?combined);
           keeps = (lb_reading b \<noteq> None \<and> lb_same b \<and> length ?combined \<le> max_buffer_size)
       in \<lparr>lb_latest = latest, lb_reading = (if keeps then Some latest else lb_reading b), lb_same = keeps,
           lb_next_id = lb_next_id b + length (sp_pending a), lb_pending = [], lb_frame = False\<rparr>)"
    using assms(3,4) by (simp add: flush_pending_def Let_def)
  have "?new \<noteq> []" "length ?new \<le> max_buffer_size"
    using assms(4,5) by (simp_all flip: length_greater_0_conv)
  note fits = this
  let ?keeps = "lb_reading b \<noteq> None \<and> lb_same b \<and> length ?combined \<le> max_buffer_size"
  have "lb_latest (flush_pending reader b) =
      (if length ?combined > max_buffer_size then take_newest max_buffer_size ?combined else ?combined)"
    "lb_reading (flush_pending reader b) = (if ?keeps then Some (lb_latest (flush_pending reader b)) else lb_reading b)"
    "lb_same (flush_pending reader b) = ?keeps"
    unfolding flushed Let_def by simp_all
  from view_ok_flush [OF assms(1) fits refl this(1) refl this(2,3)]
  have "view_ok (flush_pending reader b) (?es @ ?new) (sp_window (spec_flush a))"
    by (simp add: spec_flush_def Let_def cong: if_cong)
  then show ?thesis
    using assms(2-4) by (simp add: implements_def flush_pending_def spec_flush_def Let_def enrich_all_append)
qed

lemma implements_op: "implements reader b a \<Longrightarrow> implements reader (buffer_op reader op b) (spec_op op a)"
proof (cases op)
  case (OpAppend x)
  assume impl: "implements reader b a"
  let ?a = "a\<lparr>sp_pending := sp_pending a @ [x]\<rparr>" and ?b = "b\<lparr>lb_pending := lb_pending b @ [x]\<rparr>"
  have view: "view_ok ?b (enrich_all reader (sp_base ?a) (sp_lines ?a)) (sp_window ?a)"
    using impl by (simp add: implements_def)
  show ?thesis
  proof (cases "length (sp_pending ?a) \<ge> max_buffer_size")
    case True
    have "implements reader (flush_pending reader ?b) (spec_flush ?a)"
      using impl by (intro implements_flush view) (simp_all add: implements_def)
    then show ?thesis using True impl by (simp add: OpAppend append_line_def implements_def)
  next
    case False
    then show ?thesis using impl view by (simp add: OpAppend append_line_def implements_def)
  qed
next
  case OpFrame
  assume impl: "implements reader b a"
  show ?thesis
  proof (cases "sp_pending a = []")
    case True
    then have "spec_flush a = a" by (cases "sp_window a") (auto simp: spec_flush_def Let_def)
    then show ?thesis using impl True by (simp add: OpFrame animation_frame_def implements_def)
  next
    case False
    then have "implements reader (flush_pending reader b) (spec_flush a)"
      using impl by (intro implements_flush) (simp_all add: implements_def)
    then show ?thesis using impl False by (simp add: OpFrame animation_frame_def implements_def)
  qed
next
  case (OpSet xs)
  assume "implements reader b a"
  then show ?thesis
    by (auto simp: OpSet implements_def set_lines_def view_ok_def take_newest_def Let_def)
next
  case OpClear
  assume "implements reader b a"
  then show ?thesis by (simp add: OpClear implements_def clear_lines_def view_ok_def take_newest_def)
next
  case (OpFollow following)
  assume impl: "implements reader b a"
  show ?thesis
  proof (cases "sp_window a")
    case None
    then show ?thesis
      using impl by (cases following)
        (simp_all add: OpFollow implements_def set_following_def view_ok_def window_ok_def take_newest_def segment_def)
  next
    case (Some w)
    then show ?thesis
      using impl by (cases following; cases w) (simp_all add: OpFollow implements_def set_following_def view_ok_def)
  qed
qed

lemma implements_run: "implements reader (fold (buffer_op reader) ops empty_buffer) (fold spec_op ops spec_empty)"
proof -
  have "implements reader (fold (buffer_op reader) ops b) (fold spec_op ops a)" if "implements reader b a" for a b
    using that by (induction ops arbitrary: a b) (simp_all add: implements_op)
  moreover have "implements reader empty_buffer spec_empty"
    by (simp add: implements_def empty_buffer_def spec_empty_def view_ok_def take_newest_def)
  ultimately show ?thesis .
qed

text \<open>
  C39. The bounded buffer implements a log without bounds: whatever is appended, flushed, set, cleared,
  followed or frozen, in any order, the buffer holds the newest ten thousand lines of the log, each
  numbered by its place in it, and a frozen view shows the segment that was frozen, grown while all of
  it fits.
\<close>

theorem log_buffer_refines_log:
  "implements reader (fold (buffer_op reader) ops empty_buffer) (fold spec_op ops spec_empty)"
  by (rule implements_run)

section \<open>The counts of the view\<close>

lemma lg_id_enrich [simp]: "lg_id (enrich_entry reader i raw) = i"
  by (simp add: enrich_entry_def raw_log_entry.defs log_entry.defs)

lemma ids_enrich_all: "map lg_id (enrich_all reader i xs) = [i..<i + length xs]"
  by (induction reader i xs rule: enrich_all.induct) (simp_all add: upt_rec)

lemma lg_id_nth: "j < length xs \<Longrightarrow> lg_id (enrich_all reader i xs ! j) = i + j"
  using ids_enrich_all [of reader i xs] by (metis add_less_cancel_left length_enrich_all nth_map nth_upt)

lemma last_id_segment:
  assumes "s < e" and "e \<le> length xs"
  shows "last_id (segment s e (enrich_all reader i xs)) = int (i + e) - 1"
proof -
  have "segment s e (enrich_all reader i xs) \<noteq> []" using assms by (simp add: segment_def)
  moreover have "last (segment s e (enrich_all reader i xs)) = enrich_all reader i xs ! (e - 1)"
    using assms by (simp add: segment_def last_conv_nth)
  ultimately show ?thesis using assms by (simp add: last_id_def lg_id_nth)
qed

lemma filter_newer:
  assumes "n = length xs" and "e \<le> n" and "d \<le> n"
  shows "filter (\<lambda>x. int (lg_id x) > int (i + e) - 1) (drop d (enrich_all reader i xs)) = drop (max e d) (enrich_all reader i xs)"
proof -
  let ?es = "enrich_all reader i xs"
  have split: "drop d ?es = segment d (max e d) ?es @ drop (max e d) ?es"
    using assms by (simp add: segment_def max_def) (metis append_take_drop_id drop_drop drop_take le_add_diff_inverse2 nat_le_linear take_all length_enrich_all)
  have early: "lg_id x < i + e" if x: "x \<in> set (segment d (max e d) ?es)" for x
  proof -
    obtain j where j: "j < length (segment d (max e d) ?es)" "x = segment d (max e d) ?es ! j"
      using x by (auto simp: in_set_conv_nth)
    then have "x = ?es ! (d + j)" "d + j < e" using assms by (auto simp: segment_def)
    then show ?thesis using assms by (simp add: lg_id_nth)
  qed
  have late: "i + e \<le> lg_id x" if x: "x \<in> set (drop (max e d) ?es)" for x
  proof -
    obtain j where j: "j < length (drop (max e d) ?es)" "x = drop (max e d) ?es ! j"
      using x by (auto simp: in_set_conv_nth)
    moreover from this have bound: "max e d + j < length xs" by simp
    moreover have "max e d \<le> length ?es" using bound unfolding length_enrich_all by linarith
    ultimately have "x = ?es ! (max e d + j)" by (simp only: nth_drop)
    then show ?thesis using bound by (simp add: lg_id_nth)
  qed
  have "filter (\<lambda>x. int (lg_id x) > int (i + e) - 1) (segment d (max e d) ?es) = []"
    using early by (force simp: filter_empty_conv)
  moreover have "filter (\<lambda>x. int (lg_id x) > int (i + e) - 1) (drop (max e d) ?es) = drop (max e d) ?es"
    using late by (force simp: filter_id_conv)
  ultimately show ?thesis by (subst split) simp
qed

definition spec_window :: "log_spec \<Rightarrow> nat \<times> nat" where
  "spec_window a = (case sp_window a of None \<Rightarrow> (length (sp_lines a) - max_buffer_size, length (sp_lines a)) | Some w \<Rightarrow> w)"

lemma implements_view:
  assumes impl: "implements reader b a" and "spec_window a = (s, e)"
    and "es = enrich_all reader (sp_base a) (sp_lines a)" and "first = length es - max_buffer_size"
  shows "shown_entries b = segment s e es"
    and "pending_line_count b = int (length es - e)" and "missing_line_count b = int (first - e)"
    and "retained_entries b = segment s e es @ drop (max e first) es"
    and "retained_line_count b = int (length (retained_entries b))"
proof -
  have view: "view_ok b es (sp_window a)" using impl assms(3) by (simp add: implements_def)
  then have latest: "lb_latest b = drop first es" by (simp add: view_ok_def take_newest_def assms(4))
  have n: "length es = length (sp_lines a)" by (simp add: assms(3))
  have whole: "segment first (length es) es = drop first es" by (simp add: segment_def)
  have "shown_entries b = segment s e es \<and> pending_line_count b = int (length es - e) \<and> missing_line_count b = int (first - e)
    \<and> retained_entries b = segment s e es @ drop (max e first) es \<and> retained_line_count b = int (length (retained_entries b))"
  proof (cases "sp_window a")
    case None
    then have "lb_reading b = None" using view by (simp add: view_ok_def)
    moreover have "s = first" "e = length es" using assms(2,4) n by (auto simp: spec_window_def None)
    ultimately show ?thesis
      by (simp add: shown_entries_def pending_line_count_def missing_line_count_def retained_entries_def
          retained_line_count_def latest assms(4) segment_def)
  next
    case (Some w)
    then have w: "w = (s, e)" using assms(2) by (simp add: spec_window_def)
    have reading: "lb_reading b = Some (segment s e es)" and same: "lb_same b \<longleftrightarrow> e = length es" and ok: "window_ok (length es) (s, e)"
      using view by (simp_all add: view_ok_def Some w)
    show ?thesis
    proof (cases "s < e")
      case False
      then have "s = e" "e = length es" "length es - max_buffer_size = length es"
        using ok by (auto simp: window_ok_def)
      moreover from this have "es = []" using max_buffer_pos by (metis diff_less length_greater_0_conv nat_neq_iff)
      ultimately show ?thesis
        by (simp add: shown_entries_def pending_line_count_def missing_line_count_def retained_entries_def
            retained_line_count_def latest reading segment_def last_id_def latest_first_id_def assms(4))
    next
      case True
      have e: "e \<le> length es" using ok by (simp add: window_ok_def)
      then have first: "first < length es" using True assms(4) by (simp add: max_buffer_size_def)
      let ?i = "sp_base a"
      have shown_last: "last_id (segment s e es) = int (?i + e) - 1"
        using last_id_segment [OF True, of "sp_lines a" reader ?i] e by (simp add: assms(3))
      have latest_last: "last_id (lb_latest b) = int (?i + length es) - 1"
        using last_id_segment [OF first, of "sp_lines a" reader ?i] by (simp add: latest flip: whole) (simp add: assms(3))
      have "hd (drop first es) = es ! first" using first by (simp add: hd_drop_conv_nth)
      then have latest_first: "latest_first_id b = int (?i + first)"
        using first lg_id_nth [of first "sp_lines a" reader ?i] by (simp add: latest_first_id_def latest) (simp add: assms(3))
      have retained: "retained_entries b = segment s e es @ drop (max e first) es"
      proof (cases "lb_same b")
        case True
        then have "e = length es" "s = first" using same ok by (simp_all add: window_ok_def assms(4))
        then show ?thesis using True by (simp add: retained_entries_def reading latest whole)
      next
        case False
        have "filter (\<lambda>x. int (lg_id x) > int (?i + e) - 1) (drop first es) = drop (max e first) es"
          using filter_newer [of "length es" "sp_lines a" e first ?i reader] e first by (simp add: assms(3))
        then show ?thesis using False by (simp add: retained_entries_def reading latest shown_last)
      qed
      have "length (segment s e es) = e - s" using e by (simp add: segment_def)
      then have "retained_line_count b = int (length (retained_entries b))"
        using True e first by (auto simp: retained_line_count_def retained shown_entries_def reading shown_last latest_first latest)
      then show ?thesis
        using retained e first by (auto simp: shown_entries_def reading pending_line_count_def missing_line_count_def
            shown_last latest_last latest_first)
    qed
  qed
  then show "shown_entries b = segment s e es" "pending_line_count b = int (length es - e)"
    "missing_line_count b = int (first - e)" "retained_entries b = segment s e es @ drop (max e first) es"
    "retained_line_count b = int (length (retained_entries b))" by blast+
qed

text \<open>
  The view accounts for every line of the log. Let the window be what is shown, all of the retained
  tip when following. Then the entries shown are that segment of the log; the lines announced as pending
  are those after it, the lines announced as missing are those after it that are no longer retained, and
  what a download takes is the segment followed by all the later lines still retained, counted exactly.
\<close>

theorem log_view_accounts_for_every_line:
  "let b = fold (buffer_op reader) ops empty_buffer; a = fold spec_op ops spec_empty;
       es = enrich_all reader (sp_base a) (sp_lines a); first = length es - max_buffer_size; (s, e) = spec_window a
   in shown_entries b = segment s e es \<and> pending_line_count b = int (length es - e)
     \<and> missing_line_count b = int (first - e)
     \<and> retained_entries b = segment s e es @ drop (max e first) es
     \<and> retained_line_count b = int (length (retained_entries b))"
  using implements_view [OF implements_run] by (simp add: Let_def split: prod.split)

end
