(* ===== verification/Log_Records.thy ===== *)
theory Log_Records
  imports Log_Buffer
begin

text \<open>
  Which lines of a log belong together (\<open>packages/k8s-ui/src/utils/log-level.ts\<close>): the tests for a
  line that continues the one before, as regular expressions, the association of each continuation
  with the first line of its record, per pod and container, and the folding of the visible lines into
  records.
\<close>

section \<open>Regular expressions\<close>

text \<open>
  Expressions over classes of characters, matched by derivatives. \<open>test\<close> of an expression anchored at
  both ends is membership; one anchored at the start only is membership of a prefix.
\<close>

datatype rx = RxNone | RxEps | RxClass "char \<Rightarrow> bool" | RxSeq rx rx | RxAlt rx rx | RxStar rx

fun rx_nullable :: "rx \<Rightarrow> bool" where
  "rx_nullable RxNone = False"
| "rx_nullable RxEps = True"
| "rx_nullable (RxClass p) = False"
| "rx_nullable (RxSeq a b) = (rx_nullable a \<and> rx_nullable b)"
| "rx_nullable (RxAlt a b) = (rx_nullable a \<or> rx_nullable b)"
| "rx_nullable (RxStar a) = True"

fun rx_deriv :: "char \<Rightarrow> rx \<Rightarrow> rx" where
  "rx_deriv c RxNone = RxNone"
| "rx_deriv c RxEps = RxNone"
| "rx_deriv c (RxClass p) = (if p c then RxEps else RxNone)"
| "rx_deriv c (RxSeq a b) =
     (if rx_nullable a then RxAlt (RxSeq (rx_deriv c a) b) (rx_deriv c b) else RxSeq (rx_deriv c a) b)"
| "rx_deriv c (RxAlt a b) = RxAlt (rx_deriv c a) (rx_deriv c b)"
| "rx_deriv c (RxStar a) = RxSeq (rx_deriv c a) (RxStar a)"

fun rx_matches :: "rx \<Rightarrow> string \<Rightarrow> bool" where
  "rx_matches r [] = rx_nullable r"
| "rx_matches r (c # s) = rx_matches (rx_deriv c r) s"

definition rx_prefix :: "rx \<Rightarrow> string \<Rightarrow> bool" where
  \<comment> \<open>\<open>/^r/.test(s)\<close>\<close>
  "rx_prefix r s = rx_matches (RxSeq r (RxStar (RxClass (\<lambda>c. True)))) s"

inductive rx_in :: "string \<Rightarrow> rx \<Rightarrow> bool" where
  in_eps: "rx_in [] RxEps"
| in_class: "p c \<Longrightarrow> rx_in [c] (RxClass p)"
| in_seq: "rx_in s a \<Longrightarrow> rx_in t b \<Longrightarrow> rx_in (s @ t) (RxSeq a b)"
| in_alt1: "rx_in s a \<Longrightarrow> rx_in s (RxAlt a b)"
| in_alt2: "rx_in s b \<Longrightarrow> rx_in s (RxAlt a b)"
| in_star0: "rx_in [] (RxStar a)"
| in_star: "rx_in s a \<Longrightarrow> rx_in t (RxStar a) \<Longrightarrow> rx_in (s @ t) (RxStar a)"

inductive_simps rx_in_simps [simp]: "rx_in s RxNone" "rx_in s RxEps" "rx_in s (RxClass p)" "rx_in s (RxSeq a b)" "rx_in s (RxAlt a b)"

lemma rx_in_star_cons:
  "rx_in s (RxStar a) \<Longrightarrow> s = c # u \<Longrightarrow> \<exists>v w. u = v @ w \<and> rx_in (c # v) a \<and> rx_in w (RxStar a)"
proof (induction s "RxStar a" arbitrary: u rule: rx_in.induct)
  case in_star0
  then show ?case by simp
next
  case (in_star s t)
  show ?case
  proof (cases s)
    case Nil
    then show ?thesis using in_star.hyps(4) in_star.prems by simp
  next
    case (Cons x v)
    then have "u = v @ t" "rx_in (c # v) a" using in_star.hyps(1) in_star.prems by simp_all
    then show ?thesis using in_star.hyps(3) by blast
  qed
qed

lemma rx_nullable_in: "rx_nullable r = rx_in [] r"
  by (induction r) (auto intro: in_star0)

lemma rx_deriv_in: "rx_in s (rx_deriv c r) = rx_in (c # s) r"
proof (induction r arbitrary: s)
  case (RxSeq a b)
  have split: "(\<exists>u v. c # s = u @ v \<and> rx_in u a \<and> rx_in v b) \<longleftrightarrow>
      (rx_in [] a \<and> rx_in (c # s) b) \<or> (\<exists>u v. s = u @ v \<and> rx_in (c # u) a \<and> rx_in v b)"
    by (auto simp: Cons_eq_append_conv)
  then show ?case using RxSeq by (auto simp: rx_nullable_in)
next
  case (RxStar a)
  show ?case
  proof
    assume "rx_in s (rx_deriv c (RxStar a))"
    then obtain u v where "s = u @ v" "rx_in (c # u) a" "rx_in v (RxStar a)" using RxStar by auto
    then show "rx_in (c # s) (RxStar a)" using in_star [of "c # u" a v] by simp
  next
    assume "rx_in (c # s) (RxStar a)"
    then show "rx_in s (rx_deriv c (RxStar a))" using rx_in_star_cons RxStar by fastforce
  qed
qed auto

text \<open>The matcher decides the language.\<close>

lemma rx_matches_in: "rx_matches r s = rx_in s r"
  by (induction s arbitrary: r) (auto simp: rx_nullable_in rx_deriv_in)

fun rx_lit :: "string \<Rightarrow> rx" where
  "rx_lit [] = RxEps"
| "rx_lit (c # s) = RxSeq (RxClass (\<lambda>x. x = c)) (rx_lit s)"

definition rx_of :: "string \<Rightarrow> rx" where
  \<comment> \<open>a class of listed characters\<close>
  "rx_of cs = RxClass (\<lambda>x. x \<in> set cs)"

definition rx_not :: "string \<Rightarrow> rx" where
  "rx_not cs = RxClass (\<lambda>x. x \<notin> set cs)"

definition rx_plus :: "rx \<Rightarrow> rx" where
  "rx_plus r = RxSeq r (RxStar r)"

definition char_between :: "char \<Rightarrow> char \<Rightarrow> char \<Rightarrow> bool" where
  "char_between a b c \<longleftrightarrow> (of_char a :: nat) \<le> of_char c \<and> (of_char c :: nat) \<le> of_char b"

definition is_digit :: "char \<Rightarrow> bool" where
  "is_digit = char_between (CHR ''0'') (CHR ''9'')"

definition is_letter :: "char \<Rightarrow> bool" where
  "is_letter c \<longleftrightarrow> char_between (CHR ''a'') (CHR ''z'') c \<or> char_between (CHR ''A'') (CHR ''Z'') c"

definition is_word :: "char \<Rightarrow> bool" where
  \<comment> \<open>\<open>\w\<close>\<close>
  "is_word c \<longleftrightarrow> is_digit c \<or> is_letter c \<or> c = CHR ''_''"

section \<open>The shapes of continuation lines\<close>

definition go_panic_line_re :: rx where
  \<comment> \<open>the goroutine header, a \<open>created by\<close> line, or a function frame; the last alternative and the
    first run to the end of the line\<close>
  "go_panic_line_re =
     RxAlt (RxSeq (rx_lit ''goroutine '') (RxSeq (rx_plus (RxClass is_digit)) (RxSeq (rx_lit '' ['')
              (RxSeq (RxStar (rx_not '']'')) (rx_lit '']:'')))))
    (RxAlt (RxSeq (rx_lit ''created by '') (RxSeq (RxClass (\<lambda>c. \<not> is_space c)) (RxStar (RxClass (\<lambda>c. True)))))
           (RxSeq (RxStar (RxClass (\<lambda>c. is_word c \<or> c \<in> set ''./-'')))
             (RxSeq (RxClass (\<lambda>c. is_word c \<or> c \<in> set '')]'')) (RxSeq (rx_lit ''.'')
             (RxSeq (RxStar (RxClass (\<lambda>c. is_word c \<or> c \<in> set ''*().[]{}-''))) (RxSeq (rx_lit ''('')
             (RxSeq (RxStar (RxAlt (rx_not ''()'') (RxSeq (rx_lit ''('') (RxSeq (RxStar (rx_not ''()'')) (rx_lit '')'')))))
                    (rx_lit '')''))))))))"

fun strip_leading_ansi :: "nat \<Rightarrow> string \<Rightarrow> string" where
  \<comment> \<open>\<open>raw.replace(LEADING_ANSI_RE, '')\<close>: escape codes are taken off the front one by one\<close>
  "strip_leading_ansi 0 s = s"
| "strip_leading_ansi (Suc n) s =
     (case s of
        c # d # rest \<Rightarrow>
          if c = CHR 0x1B \<and> d = CHR ''[''
          then (let after = dropWhile (\<lambda>x. is_digit x \<or> x = CHR '';'') rest
                in case after of
                     x # tail \<Rightarrow> if x = CHR ''m'' then strip_leading_ansi n tail else s
                   | [] \<Rightarrow> s)
          else s
      | _ \<Rightarrow> s)"

definition is_indented :: "string \<Rightarrow> bool" where
  "is_indented raw = starts_space (strip_leading_ansi (length raw) raw)"

definition chain_marker :: "string \<Rightarrow> bool" where
  "chain_marker content \<longleftrightarrow>
     starts_with content ''Caused by:'' \<or> starts_with content ''Suppressed:''
     \<or> rx_prefix (RxSeq (rx_lit ''... '') (RxSeq (rx_plus (RxClass is_digit)) (rx_lit '' more''))) content"

definition closing_bracket_re :: rx where
  "closing_bracket_re = RxSeq (rx_plus (rx_of ''}])'')) (RxAlt RxEps (rx_of '';,''))"

definition last_space_before :: "nat \<Rightarrow> string \<Rightarrow> bool" where
  \<comment> \<open>\<open>content.lastIndexOf(' ', i) !== -1\<close>\<close>
  "last_space_before i content \<longleftrightarrow> CHR '' '' \<in> set (take (i + 1) content)"

definition looks_like_unindented_frame :: "string \<Rightarrow> bool" where
  "looks_like_unindented_frame content =
     (if chain_marker content then True
      else if rx_matches closing_bracket_re content then True
      else if starts_with content ''goroutine '' \<or> starts_with content ''created by ''
      then rx_matches go_panic_line_re content
      else let paren = length (takeWhile (\<lambda>c. c \<noteq> CHR ''('') content)
           in if paren = 0 \<or> paren = length content \<or> last content \<noteq> CHR '')'' \<or> last_space_before paren content then False
              else rx_matches go_panic_line_re content)"

definition is_continuation_line :: "string \<Rightarrow> bool" where
  "is_continuation_line raw \<longleftrightarrow> is_indented raw \<or> looks_like_unindented_frame raw"

definition python_traceback_head :: string where
  "python_traceback_head = ''Traceback (most recent call last):''"

definition python_exception_line :: "string \<Rightarrow> bool" where
  \<comment> \<open>a dotted name, then a colon or the end\<close>
  "python_exception_line content =
     (case content of
        [] \<Rightarrow> False
      | c # cs \<Rightarrow> (is_letter c \<or> c = CHR ''_'')
          \<and> (let rest = dropWhile (\<lambda>x. is_word x \<or> x = CHR ''.'') cs in rest = [] \<or> hd rest = CHR '':''))"

section \<open>Association\<close>

record associable_entry =
  ae_content :: string
  ae_level :: log_level
  ae_level_source :: "level_source option"
  ae_pod :: "string option"
  ae_container :: string

record continuation_association =
  ca_head_of :: "nat list"
  ca_effective_level :: "log_level list"

record association_state = continuation_association +
  as_last_head :: "(string \<times> nat) list"
  as_open :: "string list"

definition source_key :: "associable_entry \<Rightarrow> string" where
  "source_key e = coalesce (ae_pod e) [] @ CHR 0x00 # ae_container e"

definition continues_record :: "association_state \<Rightarrow> associable_entry \<Rightarrow> bool" where
  "continues_record st e \<longleftrightarrow>
     (let explicit = (ae_level_source e = Some SrcStructured \<or> ae_level_source e = Some SrcHeader);
          closes = (source_key e \<in> set (as_open st) \<and> python_exception_line (ae_content e))
      in is_indented (ae_content e) \<or> \<not> explicit \<and> (closes \<or> looks_like_unindented_frame (ae_content e)))"

definition associate_step :: "associable_entry \<Rightarrow> association_state \<Rightarrow> association_state" where
  \<comment> \<open>one round of the loop; \<open>i\<close> is the number of entries done\<close>
  "associate_step e st =
     (let i = length (ca_head_of st); source = source_key e;
          closes = (source \<in> set (as_open st) \<and> python_exception_line (ae_content e))
      in case map_of (as_last_head st) source of
           Some h \<Rightarrow>
             if continues_record st e
             then st\<lparr>ca_head_of := ca_head_of st @ [h],
                     ca_effective_level := ca_effective_level st @ [ca_effective_level st ! h],
                     as_open := (if closes then removeAll source (as_open st) else as_open st)\<rparr>
             else st\<lparr>ca_head_of := ca_head_of st @ [i], ca_effective_level := ca_effective_level st @ [ae_level e],
                     as_last_head := AList.update source i (as_last_head st),
                     as_open := (if starts_with (ae_content e) python_traceback_head then set_add source (as_open st)
                                 else removeAll source (as_open st))\<rparr>
         | None \<Rightarrow> st\<lparr>ca_head_of := ca_head_of st @ [i], ca_effective_level := ca_effective_level st @ [ae_level e],
                     as_last_head := AList.update source i (as_last_head st),
                     as_open := (if starts_with (ae_content e) python_traceback_head then set_add source (as_open st)
                                 else removeAll source (as_open st))\<rparr>)"

definition associate_all :: "associable_entry list \<Rightarrow> association_state" where
  "associate_all entries = fold associate_step entries
     \<lparr>ca_head_of = [], ca_effective_level = [], as_last_head = [], as_open = []\<rparr>"

definition associate_continuations :: "associable_entry list \<Rightarrow> nat list \<times> log_level list" where
  "associate_continuations entries =
     (ca_head_of (associate_all entries), ca_effective_level (associate_all entries))"

text \<open>
  Entry \<open>i\<close> is associated as it should be: its head is a head, no later, of the same source, whose level
  it takes; and no line of that source between the two belongs to another record. \<open>last_ok\<close>: \<open>h\<close> is the
  head of the last record of source \<open>k\<close>.
\<close>

definition entry_ok :: "nat list \<Rightarrow> log_level list \<Rightarrow> associable_entry list \<Rightarrow> nat \<Rightarrow> bool" where
  "entry_ok heads levels es i \<longleftrightarrow>
     heads ! i \<le> i \<and> heads ! (heads ! i) = heads ! i \<and> source_key (es ! (heads ! i)) = source_key (es ! i)
     \<and> levels ! i = ae_level (es ! (heads ! i))
     \<and> (\<forall>j. heads ! i \<le> j \<and> j \<le> i \<and> source_key (es ! j) = source_key (es ! i) \<longrightarrow> heads ! j = heads ! i)"

definition last_ok :: "nat list \<Rightarrow> associable_entry list \<Rightarrow> string \<Rightarrow> nat \<Rightarrow> bool" where
  "last_ok heads es k h \<longleftrightarrow>
     h < length es \<and> source_key (es ! h) = k \<and> heads ! h = h
     \<and> (\<forall>j. h \<le> j \<and> j < length es \<and> source_key (es ! j) = k \<longrightarrow> heads ! j = h)"

lemma entry_ok_append:
  assumes "entry_ok heads levels es i" and "i < length es" and "length heads = length es" and "length levels = length es"
  shows "entry_ok (heads @ [x]) (levels @ [y]) (es @ [e]) i"
proof -
  have "heads ! i \<le> i" using assms(1) unfolding entry_ok_def by blast
  then have h: "heads ! i < length es" using assms(2) by simp
  have same: "(heads @ [x]) ! j = heads ! j" "(levels @ [y]) ! j = levels ! j" "(es @ [e]) ! j = es ! j" if "j < length es" for j
    using that assms(3,4) by (simp_all add: nth_append)
  have "(heads @ [x]) ! j = heads ! i" if "heads ! i \<le> j" "j \<le> i" "source_key ((es @ [e]) ! j) = source_key (es ! i)" for j
  proof -
    have "j < length es" using that(2) assms(2) by simp
    then have "source_key (es ! j) = source_key (es ! i)" "(heads @ [x]) ! j = heads ! j" using that(3) same [of j] by simp_all
    then show ?thesis using assms(1) that(1,2) unfolding entry_ok_def by metis
  qed
  then show ?thesis using assms(1) unfolding entry_ok_def same [OF assms(2)] same [OF h] by blast
qed

lemma last_ok_append:
  assumes "last_ok heads es k h" and "length heads = length es" and "source_key e = k \<Longrightarrow> x = h"
  shows "last_ok (heads @ [x]) (es @ [e]) k h"
  unfolding last_ok_def
proof (intro conjI allI impI)
  fix j
  assume j: "h \<le> j \<and> j < length (es @ [e]) \<and> source_key ((es @ [e]) ! j) = k"
  show "(heads @ [x]) ! j = h"
  proof (cases "j < length es")
    case True
    then show ?thesis using assms j by (simp add: last_ok_def nth_append)
  next
    case False
    then have "j = length es" using j by simp
    then have "x = h" using assms(3) j by simp
    then show ?thesis unfolding \<open>j = length es\<close> assms(2) [symmetric] by simp
  qed
qed (use assms in \<open>simp_all add: last_ok_def nth_append\<close>)

lemma last_ok_head:
  assumes "length heads = length es"
  shows "last_ok (heads @ [length es]) (es @ [e]) (source_key e) (length es)"
proof -
  have "j = length es" if "length es \<le> j" "j < Suc (length es)" for j using that by simp
  then show ?thesis using assms by (auto simp: last_ok_def nth_append)
qed

lemma entry_ok_last:
  \<comment> \<open>the new entry, once its head is the last of its source\<close>
  assumes last: "last_ok (heads @ [h]) (es @ [e]) (source_key e) h" and len: "length heads = length es" "length levels = length es"
    and level: "y = ae_level ((es @ [e]) ! h)"
  shows "entry_ok (heads @ [h]) (levels @ [y]) (es @ [e]) (length es)"
proof -
  have "(heads @ [h]) ! length es = h" "(es @ [e]) ! length es = e" "(levels @ [y]) ! length es = y"
    using len by (metis nth_append_length)+
  then show ?thesis using last level by (simp add: entry_ok_def last_ok_def)
qed

definition association_ok :: "associable_entry list \<Rightarrow> association_state \<Rightarrow> bool" where
  "association_ok es st \<longleftrightarrow>
     length (ca_head_of st) = length es \<and> length (ca_effective_level st) = length es
     \<and> (\<forall>i < length es. entry_ok (ca_head_of st) (ca_effective_level st) es i)
     \<and> (\<forall>k h. map_of (as_last_head st) k = Some h \<longrightarrow> last_ok (ca_head_of st) es k h)"

lemma association_ok_snoc:
  assumes ok: "association_ok es st"
    and st': "ca_head_of st' = ca_head_of st @ [h]" "ca_effective_level st' = ca_effective_level st @ [y]"
    and last: "last_ok (ca_head_of st @ [h]) (es @ [e]) (source_key e) h" and level: "y = ae_level ((es @ [e]) ! h)"
    and lasts: "map_of (as_last_head st') = (map_of (as_last_head st))(source_key e \<mapsto> h)"
  shows "association_ok (es @ [e]) st'"
proof -
  have len: "length (ca_head_of st) = length es" "length (ca_effective_level st) = length es"
    using ok by (simp_all add: association_ok_def)
  have "entry_ok (ca_head_of st') (ca_effective_level st') (es @ [e]) i" if "i < length (es @ [e])" for i
  proof (cases "i < length es")
    case True
    then show ?thesis unfolding st' using ok len by (intro entry_ok_append) (simp_all add: association_ok_def)
  next
    case False
    then have "i = length es" using that by simp
    then show ?thesis using entry_ok_last [OF last len level] by (simp add: st')
  qed
  moreover have "last_ok (ca_head_of st') (es @ [e]) k g" if g: "map_of (as_last_head st') k = Some g" for k g
  proof (cases "k = source_key e")
    case True
    then show ?thesis using g last by (simp add: lasts st')
  next
    case False
    then have "last_ok (ca_head_of st) es k g" using g ok by (simp add: lasts association_ok_def)
    then show ?thesis unfolding st' using len False by (intro last_ok_append) simp_all
  qed
  ultimately show ?thesis using len by (simp add: association_ok_def st')
qed

lemma association_ok_step:
  assumes ok: "association_ok es st"
  shows "association_ok (es @ [e]) (associate_step e st)"
proof -
  have len: "length (ca_head_of st) = length es" "length (ca_effective_level st) = length es"
    using ok by (simp_all add: association_ok_def)
  show ?thesis
  proof (cases "\<exists>h. map_of (as_last_head st) (source_key e) = Some h \<and> continues_record st e")
    case True
    then obtain h where h: "map_of (as_last_head st) (source_key e) = Some h" "continues_record st e" by blast
    have last: "last_ok (ca_head_of st) es (source_key e) h" using ok h by (simp add: association_ok_def)
    then have "h < length es" "ca_head_of st ! h = h" by (simp_all add: last_ok_def)
    moreover from this have "entry_ok (ca_head_of st) (ca_effective_level st) es h" using ok by (simp add: association_ok_def)
    then have "ca_effective_level st ! h = ae_level (es ! h)"
      unfolding entry_ok_def \<open>ca_head_of st ! h = h\<close> by blast
    ultimately have "ca_effective_level st ! h = ae_level ((es @ [e]) ! h)" by (simp add: nth_append)
    moreover have "last_ok (ca_head_of st @ [h]) (es @ [e]) (source_key e) h"
      by (rule last_ok_append [OF last len(1)]) simp
    moreover have "map_of (as_last_head st) = (map_of (as_last_head st))(source_key e \<mapsto> h)" using h(1) by (simp add: fun_upd_idem)
    ultimately show ?thesis
      by (intro association_ok_snoc [OF ok, where h = h]) (simp_all add: associate_step_def h Let_def)
  next
    case False
    then have "associate_step e st = st\<lparr>ca_head_of := ca_head_of st @ [length es], ca_effective_level := ca_effective_level st @ [ae_level e],
        as_last_head := AList.update (source_key e) (length es) (as_last_head st),
        as_open := (if starts_with (ae_content e) python_traceback_head then set_add (source_key e) (as_open st)
                    else removeAll (source_key e) (as_open st))\<rparr>"
      by (auto simp: associate_step_def Let_def len split: option.splits)
    then show ?thesis
      by (intro association_ok_snoc [OF ok, where h = "length es" and y = "ae_level e"])
         (simp_all add: last_ok_head len update_conv')
  qed
qed

lemma association_ok_all: "association_ok entries (associate_all entries)"
proof (induction entries rule: rev_induct)
  case Nil
  show ?case by (simp add: association_ok_def associate_all_def)
next
  case (snoc e es)
  then show ?case using association_ok_step [of es "associate_all es" e] by (simp add: associate_all_def)
qed

text \<open>
  Every line of a log is filed with one record: its head is a line no later, of the same pod and
  container, that is a head itself; the line is filtered by its head's level; and no line of that
  source between the head and the line belongs to another record, however the sources interleave.
\<close>

theorem continuations_join_their_record:
  assumes "associate_continuations entries = (head_of, level_of)" and "i < length entries"
  shows "length head_of = length entries \<and> length level_of = length entries
    \<and> head_of ! i \<le> i \<and> head_of ! (head_of ! i) = head_of ! i
    \<and> source_key (entries ! (head_of ! i)) = source_key (entries ! i)
    \<and> level_of ! i = ae_level (entries ! (head_of ! i))
    \<and> (\<forall>j. head_of ! i \<le> j \<and> j \<le> i \<and> source_key (entries ! j) = source_key (entries ! i) \<longrightarrow> head_of ! j = head_of ! i)"
proof -
  have parts: "head_of = ca_head_of (associate_all entries)" "level_of = ca_effective_level (associate_all entries)"
    using assms(1) by (simp_all add: associate_continuations_def)
  have "entry_ok head_of level_of entries i" "length head_of = length entries" "length level_of = length entries"
    using association_ok_all [of entries] assms(2) by (simp_all add: association_ok_def parts)
  then show ?thesis unfolding entry_ok_def by blast
qed

definition sample_line :: "string \<Rightarrow> string \<Rightarrow> log_level \<Rightarrow> associable_entry" where
  "sample_line pod content level = \<lparr>ae_content = content, ae_level = level, ae_level_source = None, ae_pod = Some pod, ae_container = ''c''\<rparr>"

definition sample_log :: "associable_entry list" where
  "sample_log = [sample_line ''a'' ''boom'' LvError, sample_line ''b'' ''hello'' LvInfo,
     sample_line ''a'' ''  at f'' LvUnknown, sample_line ''a'' ''Caused by: x'' LvUnknown, sample_line ''b'' ''main.main()'' LvUnknown]"

lemma continuations_join_their_record_witness:
  "fst (associate_continuations sample_log) = [0, 1, 0, 0, 1] \<and> snd (associate_continuations sample_log) ! 3 = LvError"
proof -
  have "3 < length sample_log" by (simp add: sample_log_def)
  from continuations_join_their_record [OF prod.collapse [symmetric] this]
  have "snd (associate_continuations sample_log) ! 3 = ae_level (sample_log ! (fst (associate_continuations sample_log) ! 3))"
    by blast
  moreover have heads: "fst (associate_continuations sample_log) = [0, 1, 0, 0, 1]" by code_simp
  ultimately show ?thesis by (simp add: sample_log_def sample_line_def)
qed

section \<open>Records of the visible lines\<close>

record 'a log_group =
  gr_head :: 'a
  gr_continuations :: "'a list"

definition push_continuation :: "nat \<Rightarrow> 'a \<Rightarrow> 'a log_group list \<Rightarrow> 'a log_group list" where
  "push_continuation g e groups = groups[g := (groups ! g)\<lparr>gr_continuations := gr_continuations (groups ! g) @ [e]\<rparr>]"

definition group_step ::
  "('a \<Rightarrow> nat) \<Rightarrow> (nat \<times> nat) list \<Rightarrow> 'a \<Rightarrow> 'a log_group list \<times> (nat \<times> nat) list \<Rightarrow> 'a log_group list \<times> (nat \<times> nat) list" where
  \<comment> \<open>the groups and, by the id of its head, the place of each\<close>
  "group_step id_of head_id_by_id e st =
     (case st of (groups, places) \<Rightarrow>
        case Option.bind (map_of head_id_by_id (id_of e)) (map_of places) of
          Some g \<Rightarrow> (push_continuation g e groups, places)
        | None \<Rightarrow> (groups @ [\<lparr>gr_head = e, gr_continuations = []\<rparr>], AList.update (id_of e) (length groups) places))"

definition group_continuations :: "('a \<Rightarrow> nat) \<Rightarrow> 'a list \<Rightarrow> (nat \<times> nat) list \<Rightarrow> 'a log_group list" where
  "group_continuations id_of visible head_id_by_id = fst (fold (group_step id_of head_id_by_id) visible ([], []))"

definition group_lines :: "'a log_group \<Rightarrow> 'a list" where
  "group_lines g = gr_head g # gr_continuations g"

definition groups_ok :: "('a \<Rightarrow> nat) \<Rightarrow> (nat \<times> nat) list \<Rightarrow> 'a list \<Rightarrow> 'a log_group list \<times> (nat \<times> nat) list \<Rightarrow> bool" where
  "groups_ok id_of head_id_by_id visible st \<longleftrightarrow>
     mset (concat (map group_lines (fst st))) = mset visible
     \<and> (\<forall>g \<in> set (fst st). \<forall>c \<in> set (gr_continuations g). map_of head_id_by_id (id_of c) = Some (id_of (gr_head g)))
     \<and> (\<forall>i g. map_of (snd st) i = Some g \<longrightarrow> g < length (fst st) \<and> id_of (gr_head (fst st ! g)) = i)"

lemma mset_push_continuation:
  "g < length groups \<Longrightarrow> mset (concat (map group_lines (push_continuation g e groups))) = add_mset e (mset (concat (map group_lines groups)))"
proof (induction groups arbitrary: g)
  case (Cons x xs)
  then show ?case by (cases g) (auto simp: push_continuation_def group_lines_def)
qed simp

lemma groups_ok_step:
  assumes ok: "groups_ok id_of hs visible st"
  shows "groups_ok id_of hs (visible @ [e]) (group_step id_of hs e st)"
proof -
  obtain groups places where st: "st = (groups, places)" by fastforce
  show ?thesis
  proof (cases "Option.bind (map_of hs (id_of e)) (map_of places)")
    case None
    then show ?thesis
      using ok by (auto simp: st group_step_def groups_ok_def group_lines_def update_conv' nth_append less_Suc_eq)
  next
    case (Some g)
    then obtain h where h: "map_of hs (id_of e) = Some h" "map_of places h = Some g" by (auto simp: bind_eq_Some_conv)
    then have g: "g < length groups" "id_of (gr_head (groups ! g)) = h" using ok by (auto simp: groups_ok_def st)
    have "map_of hs (id_of c) = Some (id_of (gr_head x))"
      if x: "x \<in> set (push_continuation g e groups)" and c: "c \<in> set (gr_continuations x)" for x c
    proof -
      from x consider "x \<in> set groups" | "x = (groups ! g)\<lparr>gr_continuations := gr_continuations (groups ! g) @ [e]\<rparr>"
        unfolding push_continuation_def using set_update_subset_insert by fast
      then show ?thesis
      proof cases
        case 1
        then show ?thesis using ok c by (simp add: groups_ok_def st)
      next
        case 2
        then have "c = e \<or> c \<in> set (gr_continuations (groups ! g))" "gr_head x = gr_head (groups ! g)" using c by auto
        moreover have "groups ! g \<in> set groups" using g(1) by simp
        ultimately show ?thesis using ok h(1) g(2) by (auto simp: groups_ok_def st)
      qed
    qed
    moreover have "mset (concat (map group_lines (push_continuation g e groups))) = mset (visible @ [e])"
      using mset_push_continuation [OF g(1)] ok by (simp add: groups_ok_def st)
    moreover have "k < length groups \<and> id_of (gr_head (push_continuation g e groups ! k)) = i" if "map_of places i = Some k" for i k
    proof -
      have k: "k < length groups" "id_of (gr_head (groups ! k)) = i" using ok that by (simp_all add: groups_ok_def st)
      have "gr_head (push_continuation g e groups ! k) = gr_head (groups ! k)"
        using k(1) by (cases "k = g") (simp_all add: push_continuation_def)
      then show ?thesis using k by simp
    qed
    moreover have "length (push_continuation g e groups) = length groups" by (simp add: push_continuation_def)
    ultimately show ?thesis using Some by (simp add: groups_ok_def group_step_def st)
  qed
qed

text \<open>
  Every visible line is in exactly one group, and each continuation of a group names its head: a line
  whose head is not visible heads a row of its own.
\<close>

lemma groups_partition_visible:
  "mset (concat (map group_lines (group_continuations id_of visible hs))) = mset visible
   \<and> (\<forall>g \<in> set (group_continuations id_of visible hs). \<forall>c \<in> set (gr_continuations g).
        map_of hs (id_of c) = Some (id_of (gr_head g)))"
proof -
  have "groups_ok id_of hs visible (fold (group_step id_of hs) visible ([], []))"
    by (induction visible rule: rev_induct) (simp_all add: groups_ok_step, simp add: groups_ok_def)
  then show ?thesis by (simp add: groups_ok_def group_continuations_def)
qed

end
