(* ===== verification/Workload_Rollout.thy ===== *)
theory Workload_Rollout
  imports Radar_Prelude
begin

text \<open>
  What the client says about a rollout (\<open>packages/k8s-ui/src/utils/workload-rollout.ts\<close>): the activity
  of a Deployment, StatefulSet, DaemonSet or Argo Rollout from its spec and status, the failure of its
  updated Pods, and the labels of canary steps. Resources are JSON values; the counts in them are whole
  numbers, as the Kubernetes API types them. \<open>localeCompare\<close> is a parameter.
\<close>

section \<open>Reading a resource\<close>

definition dot_sep :: string where
  "dot_sep = '' '' @ bytes_middot @ '' ''"

section \<open>Canary steps\<close>

definition analysis_label :: "json option \<Rightarrow> string" where
  "analysis_label a =
     (let templates = truthy_texts (map (\<lambda>t. json_or (json_get (Some t) ''templateName'') (json_get (Some t) ''clusterTemplateName''))
            (json_list (json_get a ''templates'')))
      in if templates \<noteq> [] then ''Analysis: '' @ join '', '' templates else ''Analysis'')"

definition experiment_label :: "json option \<Rightarrow> string" where
  "experiment_label e =
     (let templates = truthy_texts (map (\<lambda>t. json_get (Some t) ''name'') (json_list (json_get e ''templates'')));
          duration = (if json_truthy (json_get e ''duration'') then '' for '' @ json_text (json_get e ''duration'') else [])
      in if templates \<noteq> [] then ''Experiment: '' @ join '', '' templates @ duration else ''Experiment'' @ duration)"

definition canary_scale_label :: "json option \<Rightarrow> string" where
  "canary_scale_label s =
     (if json_truthy (json_get s ''matchTrafficWeight'') then ''Set canary scale: match traffic weight''
      else if json_get s ''replicas'' \<noteq> None then ''Set canary scale: '' @ json_text (json_get s ''replicas'') @ '' replicas''
      else if json_get s ''weight'' \<noteq> None then ''Set canary scale: '' @ json_text (json_get s ''weight'') @ ''%''
      else ''Set canary scale'')"

definition no_match :: "json option \<Rightarrow> bool" where
  \<comment> \<open>\<open>!match || match.length === 0\<close>\<close>
  "no_match m \<longleftrightarrow> \<not> json_truthy m \<or> m = Some (JArr [])"

definition header_route_label :: "json option \<Rightarrow> string" where
  "header_route_label r =
     (let name = json_get r ''name''; match = json_get r ''match'' in
      if no_match match then ''Remove header route'' @ (if json_truthy name then '': '' @ json_text name else [])
      else let headers = truthy_texts (map (\<lambda>m. json_get (Some m) ''headerName'') (json_list match))
           in ''Header route'' @ (if json_truthy name then '' '' @ json_text name else [])
                @ (if headers \<noteq> [] then '': '' @ join '', '' headers else []))"

definition mirror_route_label :: "json option \<Rightarrow> string" where
  "mirror_route_label r =
     (let name = json_get r ''name''; match = json_get r ''match''; percentage = json_get r ''percentage'' in
      if no_match match then ''Remove mirror route'' @ (if json_truthy name then '': '' @ json_text name else [])
      else ''Mirror route'' @ (if json_truthy name then '' '' @ json_text name else [])
             @ (if percentage \<noteq> None then '' ('' @ json_text percentage @ ''%)'' else []))"

definition first_key :: "json option \<Rightarrow> string option" where
  \<comment> \<open>\<open>Object.keys(step)[0]\<close>\<close>
  "first_key v = (case v of Some (JObj ((k, x) # kvs)) \<Rightarrow> Some k | Some (JArr (x # xs)) \<Rightarrow> Some ''0'' | _ \<Rightarrow> None)"

definition is_object :: "json option \<Rightarrow> bool" where
  "is_object v = (case v of Some (JObj kvs) \<Rightarrow> True | Some (JArr xs) \<Rightarrow> True | _ \<Rightarrow> False)"

definition canary_step_label :: "json option \<Rightarrow> string" where
  "canary_step_label step =
     (if \<not> is_object step then ''Unknown step''
      else if json_get step ''setWeight'' \<noteq> None then ''Set weight: '' @ json_text (json_get step ''setWeight'') @ ''%''
      else if json_get step ''pause'' \<noteq> None
      then (if json_truthy (json_path step [''pause'', ''duration''])
            then ''Pause: '' @ json_text (json_path step [''pause'', ''duration'']) else ''Pause: until promoted'')
      else if json_truthy (json_get step ''analysis'') then analysis_label (json_get step ''analysis'')
      else if json_truthy (json_get step ''experiment'') then experiment_label (json_get step ''experiment'')
      else if json_truthy (json_get step ''setCanaryScale'') then canary_scale_label (json_get step ''setCanaryScale'')
      else if json_truthy (json_get step ''setHeaderRoute'') then header_route_label (json_get step ''setHeaderRoute'')
      else if json_truthy (json_get step ''setMirrorRoute'') then mirror_route_label (json_get step ''setMirrorRoute'')
      else if json_truthy (json_get step ''plugin'') then ''Plugin: '' @ text_or (json_path step [''plugin'', ''name'']) ''unnamed''
      else case first_key step of
             Some key \<Rightarrow> if key \<noteq> [] then ''Unrecognized step: '' @ key else ''Unknown step''
           | None \<Rightarrow> ''Unknown step'')"

section \<open>Activities\<close>

datatype rollout_phase =
  PhIdle | PhApplying | PhProgressing | PhWaiting | PhPaused | PhPartitionReached | PhStalled

record rollout_activity =
  ra_phase :: rollout_phase
  ra_active :: bool
  ra_manual :: bool
  ra_label :: string
  ra_detail :: string
  ra_desired :: int
  ra_updated :: int
  ra_ready :: int
  ra_available :: int

record workload_pod =
  wp_name :: string
  wp_phase :: "string option"
  wp_health_level :: "health_status option"
  wp_reason :: "string option"
  wp_last_termination_reason :: "string option"
  wp_updated_revision :: "bool option"

definition idle_activity :: "int \<Rightarrow> int \<Rightarrow> int \<Rightarrow> int \<Rightarrow> rollout_activity" where
  \<comment> \<open>\<open>activity('idle', false, false, 'Stable', '', ...)\<close>\<close>
  "idle_activity desired updated ready available = \<lparr>ra_phase = PhIdle, ra_active = False, ra_manual = False,
     ra_label = ''Stable'', ra_detail = [], ra_desired = desired, ra_updated = updated, ra_ready = ready, ra_available = available\<rparr>"

definition merge_activity :: "rollout_activity \<Rightarrow> rollout_phase \<Rightarrow> bool \<Rightarrow> string \<Rightarrow> string \<Rightarrow> rollout_activity" where
  "merge_activity base phase active label detail =
     base\<lparr>ra_phase := phase, ra_active := active, ra_manual := False, ra_label := label, ra_detail := detail\<rparr>"

definition merge_manual :: "rollout_activity \<Rightarrow> rollout_phase \<Rightarrow> bool \<Rightarrow> string \<Rightarrow> string \<Rightarrow> rollout_activity" where
  "merge_manual base phase active label detail =
     base\<lparr>ra_phase := phase, ra_active := active, ra_manual := True, ra_label := label, ra_detail := detail\<rparr>"

definition of_total :: "int \<Rightarrow> int \<Rightarrow> string" where
  "of_total n whole = show_int n @ ''/'' @ show_int whole"

definition replica_detail :: "int \<Rightarrow> int \<Rightarrow> int \<Rightarrow> string" where
  "replica_detail updated desired available = of_total updated desired @ '' updated'' @ dot_sep @ show_int available @ '' available''"

definition is_argo_rollout_resource :: "json option \<Rightarrow> bool" where
  "is_argo_rollout_resource resource = starts_with (text_or (json_get resource ''apiVersion'') []) ''argoproj.io/''"

definition rollout_may_advance_automatically :: "rollout_activity \<Rightarrow> bool" where
  "rollout_may_advance_automatically a \<longleftrightarrow>
     ra_phase a = PhApplying \<or> ra_phase a = PhProgressing \<or> ra_phase a = PhWaiting \<and> \<not> ra_manual a"

definition is_rollout_activity_visible :: "rollout_activity \<Rightarrow> bool" where
  "is_rollout_activity_visible a \<longleftrightarrow> ra_active a \<or> ra_phase a = PhStalled"

definition parse_digits :: "string \<Rightarrow> int" where
  "parse_digits s = fold (\<lambda>c n. n * 10 + (of_char c - 48)) s 0"

definition get_observed_generation :: "json option \<Rightarrow> int" where
  "get_observed_generation resource =
     (case json_path resource [''status'', ''observedGeneration''] of
        Some (JNum n) \<Rightarrow> n
      | Some (JStr s) \<Rightarrow> if s \<noteq> [] \<and> list_all (\<lambda>c. 48 \<le> (of_char c :: nat) \<and> (of_char c :: nat) \<le> 57) s then parse_digits s else 0
      | _ \<Rightarrow> 0)"

definition status_of :: "json option \<Rightarrow> string \<Rightarrow> json option" where
  "status_of resource k = json_path resource [''status'', k]"

definition spec_of :: "json option \<Rightarrow> string \<Rightarrow> json option" where
  "spec_of resource k = json_path resource [''spec'', k]"

definition generation_of :: "json option \<Rightarrow> int" where
  "generation_of resource = json_int (json_path resource [''metadata'', ''generation'']) 0"

definition field_is :: "json option \<Rightarrow> string \<Rightarrow> string \<Rightarrow> bool" where
  \<comment> \<open>\<open>v?.k === 'literal'\<close>\<close>
  "field_is v k s \<longleftrightarrow> json_get v k = Some (JStr s)"

section \<open>The kinds\<close>

definition progressing_condition :: "json option \<Rightarrow> json option" where
  "progressing_condition resource =
     List.find (\<lambda>c. field_is (Some c) ''type'' ''Progressing'') (json_list (status_of resource ''conditions''))"

definition deployment_activity :: "json option \<Rightarrow> rollout_activity" where
  "deployment_activity resource =
     (let desired = json_int (spec_of resource ''replicas'') 1;
          updated = json_int (status_of resource ''updatedReplicas'') 0;
          ready = json_int (status_of resource ''readyReplicas'') 0;
          available = json_int (status_of resource ''availableReplicas'') 0;
          replicas = json_int (status_of resource ''replicas'') 0;
          base = idle_activity desired updated ready available;
          progress = progressing_condition resource;
          old = max 0 (replicas - updated);
          pending = (updated < desired \<or> old > 0)
      in if json_int (status_of resource ''observedGeneration'') 0 < generation_of resource
         then merge_activity base PhApplying True ''Applying change'' ''Waiting for the Deployment controller to observe generation''
         else if field_is progress ''status'' ''False'' \<or> field_is progress ''reason'' ''ProgressDeadlineExceeded''
         then merge_activity base PhStalled False ''Rollout stalled'' (text_or (json_get progress ''message'') ''Progress deadline exceeded'')
         else if json_truthy (spec_of resource ''paused'')
         then merge_activity base PhPaused pending ''Rollout paused''
                (if pending then ''Paused at '' @ of_total updated desired @ '' updated'' else ''No rollout is pending'')
         else if desired = 0 then merge_activity base PhIdle False ''Scaled to zero'' ''No replicas requested''
         else if \<not> pending then merge_activity base PhIdle False ''Stable'' (of_total available desired @ '' available'')
         else if field_is (spec_of resource ''strategy'') ''type'' ''Recreate''
         then (if updated = 0 \<and> old > 0
               then merge_activity base PhWaiting True ''Replacing replicas''
                      (''Waiting for old replicas to stop'' @ dot_sep @ show_int available @ '' available'')
               else if updated = 0
               then merge_activity base PhWaiting True ''Waiting for new revision'' (replica_detail updated desired available)
               else merge_activity base PhProgressing True ''Replacing replicas'' (replica_detail updated desired available))
         else if updated = 0
         then merge_activity base PhWaiting True ''Waiting for new revision'' (replica_detail updated desired available)
         else if old = 0 \<and> updated = replicas
         then merge_activity base PhProgressing True ''Scaling'' (replica_detail updated desired available)
         else merge_activity base PhProgressing True ''Rolling out'' (replica_detail updated desired available))"

definition pending_revision :: "json option \<Rightarrow> bool" where
  "pending_revision resource \<longleftrightarrow> json_truthy (status_of resource ''currentRevision'')
     \<and> json_truthy (status_of resource ''updateRevision'') \<and> status_of resource ''currentRevision'' \<noteq> status_of resource ''updateRevision''"

definition stateful_set_activity :: "json option \<Rightarrow> rollout_activity" where
  "stateful_set_activity resource =
     (let desired = json_int (spec_of resource ''replicas'') 1;
          updated = json_int (status_of resource ''updatedReplicas'') 0;
          ready = json_int (status_of resource ''readyReplicas'') 0;
          base = idle_activity desired updated ready ready;
          partition = json_int (json_path resource [''spec'', ''updateStrategy'', ''rollingUpdate'', ''partition'']) 0;
          target = max 0 (desired - partition);
          detail = of_total updated target @ '' target Pods updated'' @ dot_sep @ of_total ready desired @ '' ready''
      in if json_int (status_of resource ''observedGeneration'') 0 < generation_of resource
         then merge_activity base PhApplying True ''Applying change'' ''Waiting for the StatefulSet controller to observe generation''
         else if desired = 0 then merge_activity base PhIdle False ''Scaled to zero'' ''No replicas requested''
         else if field_is (spec_of resource ''updateStrategy'') ''type'' ''OnDelete''
         then (if updated = desired \<and> ready = desired
               then merge_activity base PhIdle False ''Stable'' (of_total ready desired @ '' ready'')
               else merge_manual base PhWaiting True ''Waiting for Pod restart''
                      (''OnDelete strategy'' @ dot_sep @ of_total updated desired @ '' updated''))
         else if updated \<ge> target
         then (if partition > 0 \<and> pending_revision resource
               then merge_activity base PhPartitionReached False ''Partition reached''
                      (of_total partition desired @ '' Pods intentionally retained'')
               else merge_activity base PhIdle False ''Stable'' (of_total ready desired @ '' ready''))
         else if updated = 0 then merge_activity base PhWaiting True ''Waiting for new revision'' detail
         else merge_activity base PhProgressing True ''Rolling out'' detail)"

definition daemon_set_activity :: "json option \<Rightarrow> rollout_activity" where
  "daemon_set_activity resource =
     (let desired = json_int (status_of resource ''desiredNumberScheduled'') 0;
          updated = json_int (status_of resource ''updatedNumberScheduled'') 0;
          ready = json_int (status_of resource ''numberReady'') 0;
          available = json_int (status_of resource ''numberAvailable'') 0;
          base = idle_activity desired updated ready available
      in if json_int (status_of resource ''observedGeneration'') 0 < generation_of resource
         then merge_activity base PhApplying True ''Applying change'' ''Waiting for the DaemonSet controller to observe generation''
         else if desired = 0 then merge_activity base PhIdle False ''No targets'' ''Selector matches no nodes''
         else if field_is (spec_of resource ''updateStrategy'') ''type'' ''OnDelete''
         then (if updated = desired \<and> available = desired
               then merge_activity base PhIdle False ''Stable'' (of_total available desired @ '' available'')
               else merge_manual base PhWaiting True ''Waiting for Pod restart''
                      (''OnDelete strategy'' @ dot_sep @ of_total updated desired @ '' updated''))
         else if updated = desired then merge_activity base PhIdle False ''Stable'' (of_total available desired @ '' available'')
         else if updated = 0 then merge_activity base PhWaiting True ''Waiting for new revision'' (replica_detail updated desired available)
         else merge_activity base PhProgressing True ''Rolling out'' (replica_detail updated desired available))"

definition canary_steps :: "json option \<Rightarrow> json list" where
  "canary_steps resource = json_list (json_path resource [''spec'', ''strategy'', ''canary'', ''steps''])"

definition get_argo_rollout_step_number :: "json option \<Rightarrow> int option" where
  "get_argo_rollout_step_number resource =
     (let steps = canary_steps resource in
      case status_of resource ''currentStepIndex'' of
        Some (JNum i) \<Rightarrow> if steps = [] then None else Some (min (max (i + 1) 1) (int (length steps)))
      | _ \<Rightarrow> None)"

definition argo_detail :: "json option \<Rightarrow> int \<Rightarrow> int \<Rightarrow> int \<Rightarrow> string" where
  "argo_detail resource updated desired available =
     (let steps = canary_steps resource;
          prefix = (case get_argo_rollout_step_number resource of
              None \<Rightarrow> []
            | Some n \<Rightarrow> (let current = steps ! nat (n - 1) in
                ''Step '' @ show_int n
                @ (if json_truthy (Some current) then '' ('' @ canary_step_label (Some current) @ '')'' else []) @ dot_sep));
          weight_suffix = (case json_path resource [''status'', ''canary'', ''weights'', ''canary'', ''weight''] of
              Some (JNum w) \<Rightarrow> dot_sep @ show_int w @ ''% canary traffic''
            | _ \<Rightarrow> [])
      in prefix @ of_total updated desired @ '' updated'' @ dot_sep @ show_int available @ '' available'' @ weight_suffix)"

definition argo_failed :: "json \<Rightarrow> bool" where
  "argo_failed c \<longleftrightarrow> field_is (Some c) ''type'' ''InvalidSpec'' \<and> field_is (Some c) ''status'' ''True''
     \<or> field_is (Some c) ''type'' ''Progressing''
        \<and> (field_is (Some c) ''status'' ''False'' \<or> field_is (Some c) ''reason'' ''ProgressDeadlineExceeded'')"

definition argo_rollout_activity :: "json option \<Rightarrow> rollout_activity" where
  "argo_rollout_activity resource =
     (let replicas = json_int (status_of resource ''replicas'') 0;
          desired = json_int (spec_of resource ''replicas'') (if replicas \<noteq> 0 then replicas else 1);
          updated = json_int (status_of resource ''updatedReplicas'') 0;
          ready = json_int (status_of resource ''readyReplicas'') 0;
          available = json_int (status_of resource ''availableReplicas'') 0;
          base = idle_activity desired updated ready available;
          detail = argo_detail resource updated desired available;
          observed = get_observed_generation resource;
          failed = List.find argo_failed (json_list (status_of resource ''conditions''));
          message = status_of resource ''message'';
          aborted = json_truthy (status_of resource ''abort'');
          phase = to_lower (text_or (status_of resource ''phase'') [])
      in if observed > 0 \<and> observed < generation_of resource
         then merge_activity base PhApplying True ''Applying change'' ''Waiting for the Rollout controller to observe generation''
         else if failed \<noteq> None \<or> aborted
         then merge_activity base PhStalled False ''Rollout stalled''
                (text_or (json_or (json_get failed ''message'') (json_or (json_get failed ''reason'') message))
                   (if aborted then ''The Rollout was aborted'' else ''The Rollout controller reported a failed revision''))
         else if phase \<in> {''degraded'', ''error'', ''failed'', ''aborted''}
         then merge_activity base PhStalled False ''Rollout stalled''
                (text_or message ''The Rollout controller reported a failed revision'')
         else if phase = ''paused'' then merge_activity base PhPaused True ''Rollout paused'' detail
         else if phase = ''progressing''
         then (if updated = 0 then merge_activity base PhWaiting True ''Waiting for new revision'' detail
               else merge_activity base PhProgressing True ''Rolling out'' detail)
         else if phase = ''healthy'' then merge_activity base PhIdle False ''Stable'' (of_total available desired @ '' available'')
         else if desired > 0 \<and> (updated < desired \<or> available < desired)
         then merge_activity base PhApplying True ''Applying change'' detail
         else merge_activity base PhIdle False ''Stable'' (text_or message []))"

section \<open>Failure of the updated Pods\<close>

definition failed_updated :: "workload_pod \<Rightarrow> bool" where
  "failed_updated p \<longleftrightarrow> wp_updated_revision p = Some True \<and> wp_health_level p = Some StUnhealthy"

definition pod_failure_detail :: "workload_pod \<Rightarrow> string" where
  "pod_failure_detail p =
     or_else (or_str (wp_reason p) (or_str (wp_last_termination_reason p) (wp_phase p))) ''Pod failed''
       @ dot_sep @ ''Pod '' @ wp_name p"

definition with_updated_revision_failure ::
  "(string \<Rightarrow> string \<Rightarrow> int) \<Rightarrow> rollout_activity \<Rightarrow> workload_pod list option \<Rightarrow> rollout_activity" where
  "with_updated_revision_failure locale_compare rollout pods =
     (case pods of
        None \<Rightarrow> rollout
      | Some ps \<Rightarrow>
          if \<not> ra_active rollout \<and> ra_phase rollout \<noteq> PhStalled \<or> ra_phase rollout = PhApplying then rollout
          else case js_sort (\<lambda>a b. locale_compare (wp_name a) (wp_name b)) (filter failed_updated ps) of
                 [] \<Rightarrow> rollout
               | p # _ \<Rightarrow> merge_activity rollout PhStalled False ''New revision cannot start'' (pod_failure_detail p))"

section \<open>The activity of a workload\<close>

definition drop_final_s :: "string \<Rightarrow> string" where
  \<comment> \<open>\<open>.replace(/s$/, '')\<close>\<close>
  "drop_final_s s = (if s \<noteq> [] \<and> List.last s = CHR ''s'' then butlast s else s)"

definition normalized_kind :: "json option \<Rightarrow> string option \<Rightarrow> string" where
  "normalized_kind resource kind =
     drop_final_s (to_lower (if truthy_str kind then coalesce kind [] else text_or (json_get resource ''kind'') []))"

definition get_workload_rollout_activity ::
  "(string \<Rightarrow> string \<Rightarrow> int) \<Rightarrow> json option \<Rightarrow> string option \<Rightarrow> workload_pod list option \<Rightarrow> rollout_activity" where
  "get_workload_rollout_activity locale_compare resource kind pods =
     (let normalized = normalized_kind resource kind in
      if normalized = ''rollout'' \<and> \<not> is_argo_rollout_resource resource then idle_activity 0 0 0 0
      else with_updated_revision_failure locale_compare
             (if normalized = ''deployment'' then deployment_activity resource
              else if normalized = ''statefulset'' then stateful_set_activity resource
              else if normalized = ''daemonset'' then daemon_set_activity resource
              else if normalized = ''rollout'' then argo_rollout_activity resource
              else idle_activity 0 0 0 0) pods)"

datatype rollout_level = RlHealthy | RlNeutral | RlDegraded | RlUnhealthy

definition rollout_activity_level :: "rollout_activity \<Rightarrow> rollout_level" where
  "rollout_activity_level a =
     (case ra_phase a of
        PhStalled \<Rightarrow> RlUnhealthy
      | PhPaused \<Rightarrow> RlDegraded
      | PhWaiting \<Rightarrow> if ra_manual a then RlDegraded else RlNeutral
      | PhApplying \<Rightarrow> RlNeutral
      | PhProgressing \<Rightarrow> RlNeutral
      | PhPartitionReached \<Rightarrow> RlNeutral
      | PhIdle \<Rightarrow> if ra_label a = ''Stable'' then RlHealthy else RlNeutral)"

definition level_text :: "rollout_level \<Rightarrow> string" where
  "level_text l = (case l of RlHealthy \<Rightarrow> ''healthy'' | RlNeutral \<Rightarrow> ''neutral'' | RlDegraded \<Rightarrow> ''degraded'' | RlUnhealthy \<Rightarrow> ''unhealthy'')"

definition rollout_activity_badge :: "rollout_activity \<Rightarrow> string \<times> string \<times> rollout_level" where
  \<comment> \<open>text, color and level\<close>
  "rollout_activity_badge a =
     (let level = rollout_activity_level a in (ra_label a, ''status-'' @ level_text level, level))"

section \<open>What every activity promises\<close>

definition activity_ok :: "rollout_activity \<Rightarrow> bool" where
  "activity_ok a \<longleftrightarrow>
     (ra_manual a \<longrightarrow> ra_phase a = PhWaiting \<and> ra_active a)
     \<and> (ra_phase a \<in> {PhStalled, PhIdle, PhPartitionReached} \<longrightarrow> \<not> ra_active a)
     \<and> (ra_phase a \<in> {PhApplying, PhProgressing, PhWaiting} \<longrightarrow> ra_active a)"

lemma idle_activity_ok [simp]: "activity_ok (idle_activity d u r v)"
  by (simp add: activity_ok_def idle_activity_def)

lemma merge_activity_ok [simp]:
  "activity_ok (merge_activity b ph act l d) \<longleftrightarrow>
     (ph \<in> {PhStalled, PhIdle, PhPartitionReached} \<longrightarrow> \<not> act) \<and> (ph \<in> {PhApplying, PhProgressing, PhWaiting} \<longrightarrow> act)"
  by (simp add: activity_ok_def merge_activity_def)

lemma merge_manual_ok [simp]: "activity_ok (merge_manual b PhWaiting True l d)"
  by (simp add: activity_ok_def merge_manual_def)

lemma activity_ok_if: "(c \<Longrightarrow> activity_ok a) \<Longrightarrow> (\<not> c \<Longrightarrow> activity_ok b) \<Longrightarrow> activity_ok (if c then a else b)"
  by simp

lemma activity_ok_phases:
  "activity_ok (merge_activity b PhApplying True l d)" "activity_ok (merge_activity b PhProgressing True l d)"
  "activity_ok (merge_activity b PhWaiting True l d)" "activity_ok (merge_activity b PhStalled False l d)"
  "activity_ok (merge_activity b PhIdle False l d)" "activity_ok (merge_activity b PhPartitionReached False l d)"
  "activity_ok (merge_activity b PhPaused act l d)"
  by simp_all

lemmas activity_ok_intros = activity_ok_if activity_ok_phases merge_manual_ok

lemma deployment_activity_ok: "activity_ok (deployment_activity r)"
  unfolding deployment_activity_def Let_def by (intro activity_ok_intros)

lemma stateful_set_activity_ok: "activity_ok (stateful_set_activity r)"
  unfolding stateful_set_activity_def Let_def by (intro activity_ok_intros)

lemma daemon_set_activity_ok: "activity_ok (daemon_set_activity r)"
  unfolding daemon_set_activity_def Let_def by (intro activity_ok_intros)

lemma argo_rollout_activity_ok: "activity_ok (argo_rollout_activity r)"
  unfolding argo_rollout_activity_def Let_def by (intro activity_ok_intros)

lemma with_updated_revision_failure_ok:
  "activity_ok a \<Longrightarrow> activity_ok (with_updated_revision_failure lc a pods)"
  by (simp add: with_updated_revision_failure_def split: option.split list.split)

lemma get_activity_ok: "activity_ok (get_workload_rollout_activity lc resource kind pods)"
  unfolding get_workload_rollout_activity_def Let_def
  by (intro activity_ok_if with_updated_revision_failure_ok idle_activity_ok deployment_activity_ok
      stateful_set_activity_ok daemon_set_activity_ok argo_rollout_activity_ok)

lemma level_healthy_iff: "rollout_activity_level a = RlHealthy \<longleftrightarrow> ra_phase a = PhIdle \<and> ra_label a = ''Stable''"
  by (simp add: rollout_activity_level_def split: rollout_phase.split)

lemma merge_not_healthy:
  "ph \<noteq> PhIdle \<or> l \<noteq> ''Stable'' \<Longrightarrow> rollout_activity_level (merge_activity b ph act l d) = RlHealthy \<longleftrightarrow> False"
  by (simp add: level_healthy_iff merge_activity_def)

lemma healthy_simps:
  "rollout_activity_level (if c then a else b) = RlHealthy \<longleftrightarrow> (c \<longrightarrow> rollout_activity_level a = RlHealthy) \<and> (\<not> c \<longrightarrow> rollout_activity_level b = RlHealthy)"
  "rollout_activity_level (merge_activity b PhApplying act l d) = RlHealthy \<longleftrightarrow> False"
  "rollout_activity_level (merge_activity b PhProgressing act l d) = RlHealthy \<longleftrightarrow> False"
  "rollout_activity_level (merge_activity b PhWaiting act l d) = RlHealthy \<longleftrightarrow> False"
  "rollout_activity_level (merge_activity b PhStalled act l d) = RlHealthy \<longleftrightarrow> False"
  "rollout_activity_level (merge_activity b PhPaused act l d) = RlHealthy \<longleftrightarrow> False"
  "rollout_activity_level (merge_activity b PhPartitionReached act l d) = RlHealthy \<longleftrightarrow> False"
  "rollout_activity_level (merge_manual b PhWaiting act l d) = RlHealthy \<longleftrightarrow> False"
  "rollout_activity_level (merge_activity b PhIdle act ''Stable'' d) = RlHealthy \<longleftrightarrow> True"
  "rollout_activity_level (merge_activity b PhIdle act ''Scaled to zero'' d) = RlHealthy \<longleftrightarrow> False"
  "rollout_activity_level (merge_activity b PhIdle act ''No targets'' d) = RlHealthy \<longleftrightarrow> False"
  by (simp_all add: merge_not_healthy) (simp_all add: level_healthy_iff merge_activity_def merge_manual_def)

lemma with_failure_healthy_iff:
  "activity_ok a \<Longrightarrow> rollout_activity_level (with_updated_revision_failure lc a pods) = RlHealthy \<longleftrightarrow> rollout_activity_level a = RlHealthy"
  by (auto simp: with_updated_revision_failure_def level_healthy_iff activity_ok_def merge_activity_def
      split: option.split list.split)

lemma activity_ok_flags:
  assumes "activity_ok a"
  shows "(ra_manual a \<longrightarrow> ra_phase a = PhWaiting)
    \<and> (ra_active a \<longrightarrow> ra_phase a \<notin> {PhIdle, PhStalled, PhPartitionReached})
    \<and> (rollout_may_advance_automatically a \<longrightarrow> ra_active a \<and> \<not> ra_manual a)
    \<and> (rollout_activity_level a = RlUnhealthy \<longleftrightarrow> ra_phase a = PhStalled)
    \<and> (rollout_activity_level a = RlUnhealthy \<longrightarrow> is_rollout_activity_visible a)"
  using assms
  by (cases "ra_phase a")
    (simp_all add: activity_ok_def rollout_may_advance_automatically_def rollout_activity_level_def is_rollout_activity_visible_def)

definition sample_rollout :: "json option" where
  \<comment> \<open>a StatefulSet updated on delete, with one of three Pods replaced\<close>
  "sample_rollout = Some (JObj
     [(''kind'', JStr ''StatefulSet''), (''metadata'', JObj [(''generation'', JNum 4)]),
      (''spec'', JObj [(''replicas'', JNum 3), (''updateStrategy'', JObj [(''type'', JStr ''OnDelete'')])]),
      (''status'', JObj [(''observedGeneration'', JNum 4), (''updatedReplicas'', JNum 1), (''readyReplicas'', JNum 3)])])"

definition sample_pods :: "workload_pod list" where
  "sample_pods =
     [\<lparr>wp_name = ''db-2'', wp_phase = Some ''Running'', wp_health_level = Some StUnhealthy, wp_reason = Some ''CrashLoopBackOff'',
        wp_last_termination_reason = None, wp_updated_revision = Some True\<rparr>,
      \<lparr>wp_name = ''db-0'', wp_phase = Some ''Running'', wp_health_level = Some StUnhealthy, wp_reason = Some ''OOMKilled'',
        wp_last_termination_reason = None, wp_updated_revision = Some False\<rparr>,
      \<lparr>wp_name = ''db-1'', wp_phase = Some ''Pending'', wp_health_level = Some StUnhealthy, wp_reason = None,
        wp_last_termination_reason = Some ''Error'', wp_updated_revision = Some True\<rparr>]"

text \<open>
  The flags of an activity agree with its phase, whatever the resource, the kind and the Pods: only
  waiting phases are ever manual, idle, stalled and partition-reached rollouts are never active, a rollout
  that may advance by itself is active and not manual, the level is unhealthy exactly for stalled rollouts,
  and everything graded unhealthy is shown.
\<close>
theorem rollout_flags_agree:
  "let a = get_workload_rollout_activity locale_compare resource kind pods in
     (ra_manual a \<longrightarrow> ra_phase a = PhWaiting)
     \<and> (ra_active a \<longrightarrow> ra_phase a \<notin> {PhIdle, PhStalled, PhPartitionReached})
     \<and> (rollout_may_advance_automatically a \<longrightarrow> ra_active a \<and> \<not> ra_manual a)
     \<and> (rollout_activity_level a = RlUnhealthy \<longleftrightarrow> ra_phase a = PhStalled)
     \<and> (rollout_activity_level a = RlUnhealthy \<longrightarrow> is_rollout_activity_visible a)"
  unfolding Let_def by (rule activity_ok_flags [OF get_activity_ok])

lemma sample_rollout_runs:
  "ra_manual (get_workload_rollout_activity str_cmp sample_rollout None None)"
  "\<not> ra_manual (get_workload_rollout_activity str_cmp sample_rollout None (Some sample_pods))"
  "rollout_activity_level (get_workload_rollout_activity str_cmp sample_rollout None (Some sample_pods)) = RlUnhealthy"
  by code_simp+

theorem rollout_flags_agree_witness:
  "ra_phase (get_workload_rollout_activity str_cmp sample_rollout None None) = PhWaiting
   \<and> is_rollout_activity_visible (get_workload_rollout_activity str_cmp sample_rollout None (Some sample_pods))"
  using rollout_flags_agree [of str_cmp sample_rollout None None, unfolded Let_def]
    rollout_flags_agree [of str_cmp sample_rollout None "Some sample_pods", unfolded Let_def] sample_rollout_runs
  by blast

section \<open>What healthy means\<close>

definition deployment_failing :: "json option \<Rightarrow> bool" where
  "deployment_failing r \<longleftrightarrow>
     field_is (progressing_condition r) ''status'' ''False'' \<or> field_is (progressing_condition r) ''reason'' ''ProgressDeadlineExceeded''"

definition generation_observed :: "json option \<Rightarrow> bool" where
  "generation_observed r \<longleftrightarrow> generation_of r \<le> json_int (status_of r ''observedGeneration'') 0"

lemma get_kind_activity:
  "get_workload_rollout_activity lc r (Some ''deployment'') pods = with_updated_revision_failure lc (deployment_activity r) pods"
  "get_workload_rollout_activity lc r (Some ''statefulset'') pods = with_updated_revision_failure lc (stateful_set_activity r) pods"
  "get_workload_rollout_activity lc r (Some ''daemonset'') pods = with_updated_revision_failure lc (daemon_set_activity r) pods"
proof -
  have k: "normalized_kind r (Some ''deployment'') = ''deployment''" "normalized_kind r (Some ''statefulset'') = ''statefulset''"
    "normalized_kind r (Some ''daemonset'') = ''daemonset''"
    by (simp_all add: normalized_kind_def) code_simp+
  show "get_workload_rollout_activity lc r (Some ''deployment'') pods = with_updated_revision_failure lc (deployment_activity r) pods"
    "get_workload_rollout_activity lc r (Some ''statefulset'') pods = with_updated_revision_failure lc (stateful_set_activity r) pods"
    "get_workload_rollout_activity lc r (Some ''daemonset'') pods = with_updated_revision_failure lc (daemon_set_activity r) pods"
    by (simp_all add: get_workload_rollout_activity_def k)
qed

lemma deployment_healthy_iff:
  "rollout_activity_level (deployment_activity r) = RlHealthy \<longleftrightarrow>
     generation_observed r \<and> \<not> deployment_failing r \<and> \<not> json_truthy (spec_of r ''paused'')
     \<and> json_int (spec_of r ''replicas'') 1 \<noteq> 0
     \<and> json_int (spec_of r ''replicas'') 1 \<le> json_int (status_of r ''updatedReplicas'') 0
     \<and> json_int (status_of r ''replicas'') 0 \<le> json_int (status_of r ''updatedReplicas'') 0"
  unfolding deployment_activity_def Let_def deployment_failing_def generation_observed_def healthy_simps
  by (auto simp: not_less)

lemma stateful_set_healthy_iff:
  "rollout_activity_level (stateful_set_activity r) = RlHealthy \<longleftrightarrow>
     (let desired = json_int (spec_of r ''replicas'') 1; updated = json_int (status_of r ''updatedReplicas'') 0;
          partition = json_int (json_path r [''spec'', ''updateStrategy'', ''rollingUpdate'', ''partition'']) 0 in
      generation_observed r \<and> desired \<noteq> 0
      \<and> (if field_is (spec_of r ''updateStrategy'') ''type'' ''OnDelete''
         then updated = desired \<and> json_int (status_of r ''readyReplicas'') 0 = desired
         else max 0 (desired - partition) \<le> updated \<and> \<not> (partition > 0 \<and> pending_revision r)))"
  unfolding stateful_set_activity_def Let_def generation_observed_def healthy_simps
  by auto

lemma daemon_set_healthy_iff:
  "rollout_activity_level (daemon_set_activity r) = RlHealthy \<longleftrightarrow>
     (let desired = json_int (status_of r ''desiredNumberScheduled'') 0 in
      generation_observed r \<and> desired \<noteq> 0 \<and> json_int (status_of r ''updatedNumberScheduled'') 0 = desired
      \<and> (if field_is (spec_of r ''updateStrategy'') ''type'' ''OnDelete''
         then json_int (status_of r ''numberAvailable'') 0 = desired else True))"
  unfolding daemon_set_activity_def Let_def generation_observed_def healthy_simps
  by auto

text \<open>
  The level is healthy exactly when the rollout is complete: a Deployment has observed its generation, is
  not failing or paused, wants replicas, has updated all of them and keeps no old ones; a StatefulSet has
  updated every Pod above its partition and retains none of an older revision (with the OnDelete strategy,
  has updated and readied all); a DaemonSet has updated every scheduled Pod. Pods never turn an unhealthy
  rollout healthy, or the reverse.
\<close>
theorem rollout_healthy_iff_complete:
  "(rollout_activity_level (get_workload_rollout_activity lc r (Some ''deployment'') pods) = RlHealthy \<longleftrightarrow>
      generation_observed r \<and> \<not> deployment_failing r \<and> \<not> json_truthy (spec_of r ''paused'')
      \<and> json_int (spec_of r ''replicas'') 1 \<noteq> 0
      \<and> json_int (spec_of r ''replicas'') 1 \<le> json_int (status_of r ''updatedReplicas'') 0
      \<and> json_int (status_of r ''replicas'') 0 \<le> json_int (status_of r ''updatedReplicas'') 0)
   \<and> (rollout_activity_level (get_workload_rollout_activity lc r (Some ''statefulset'') pods) = RlHealthy \<longleftrightarrow>
      (let desired = json_int (spec_of r ''replicas'') 1; updated = json_int (status_of r ''updatedReplicas'') 0;
           partition = json_int (json_path r [''spec'', ''updateStrategy'', ''rollingUpdate'', ''partition'']) 0 in
       generation_observed r \<and> desired \<noteq> 0
       \<and> (if field_is (spec_of r ''updateStrategy'') ''type'' ''OnDelete''
          then updated = desired \<and> json_int (status_of r ''readyReplicas'') 0 = desired
          else max 0 (desired - partition) \<le> updated \<and> \<not> (partition > 0 \<and> pending_revision r))))
   \<and> (rollout_activity_level (get_workload_rollout_activity lc r (Some ''daemonset'') pods) = RlHealthy \<longleftrightarrow>
      (let desired = json_int (status_of r ''desiredNumberScheduled'') 0 in
       generation_observed r \<and> desired \<noteq> 0 \<and> json_int (status_of r ''updatedNumberScheduled'') 0 = desired
       \<and> (if field_is (spec_of r ''updateStrategy'') ''type'' ''OnDelete''
          then json_int (status_of r ''numberAvailable'') 0 = desired else True)))"
  unfolding get_kind_activity with_failure_healthy_iff [OF deployment_activity_ok]
    with_failure_healthy_iff [OF stateful_set_activity_ok] with_failure_healthy_iff [OF daemon_set_activity_ok]
  by (intro conjI deployment_healthy_iff stateful_set_healthy_iff daemon_set_healthy_iff)

section \<open>Failing Pods of the new revision\<close>

lemma get_activity_pods:
  "get_workload_rollout_activity lc resource kind pods =
     with_updated_revision_failure lc (get_workload_rollout_activity lc resource kind None) pods"
proof -
  have "with_updated_revision_failure lc (idle_activity 0 0 0 0) pods = idle_activity 0 0 0 0"
    by (simp add: with_updated_revision_failure_def idle_activity_def split: option.split)
  moreover have "with_updated_revision_failure lc a None = a" for a
    by (simp add: with_updated_revision_failure_def)
  ultimately show ?thesis
    unfolding get_workload_rollout_activity_def Let_def by (simp only: if_distrib cong: if_cong) simp
qed

lemma least_failing_pod:
  assumes "js_comparator lc" and "p \<in> set ps" "failed_updated p"
  obtains q qs where "js_sort (\<lambda>a b. lc (wp_name a) (wp_name b)) (filter failed_updated ps) = q # qs"
    and "q \<in> set ps" "failed_updated q" "\<And>x. x \<in> set ps \<Longrightarrow> failed_updated x \<Longrightarrow> lc (wp_name q) (wp_name x) \<le> 0"
proof -
  let ?c = "\<lambda>a b. lc (wp_name a) (wp_name b)" and ?f = "filter failed_updated ps"
  have c: "js_comparator ?c"
    using assms(1) by (auto simp: js_comparator_def)
  from assms(2,3) have "js_sort ?c ?f \<noteq> []"
    using set_js_sort [of ?c ?f] by fastforce
  then obtain q qs where q: "js_sort ?c ?f = q # qs" by (cases "js_sort ?c ?f") auto
  have "q \<in> set ?f" using set_js_sort [of ?c ?f] unfolding q by (metis list.set_intros(1))
  then show thesis
    using that [OF q] js_comparator.js_sort_hd_least [OF c q] by simp
qed

text \<open>
  C40. A failing Pod of the new revision is not hidden by a rollout that is under way or stalled, except in
  the phase \<open>applying\<close>: the activity becomes stalled, and its text names the first such Pod by name,
  whatever the order the Pods are listed in. While the change is still being applied, and where nothing is
  under way or stalled, the activity is what it is without the Pods.
\<close>
theorem failing_pod_stalls_rollout:
  assumes "js_comparator locale_compare" and "p \<in> set pods" and "failed_updated p"
    and "activity = get_workload_rollout_activity locale_compare resource kind None"
  shows "if (ra_active activity \<or> ra_phase activity = PhStalled) \<and> ra_phase activity \<noteq> PhApplying
     then \<exists>q \<in> set pods. failed_updated q
       \<and> (\<forall>x \<in> set pods. failed_updated x \<longrightarrow> locale_compare (wp_name q) (wp_name x) \<le> 0)
       \<and> get_workload_rollout_activity locale_compare resource kind (Some pods) =
           merge_activity activity PhStalled False ''New revision cannot start'' (pod_failure_detail q)
     else get_workload_rollout_activity locale_compare resource kind (Some pods) = activity"
proof -
  obtain q qs where q: "js_sort (\<lambda>a b. locale_compare (wp_name a) (wp_name b)) (filter failed_updated pods) = q # qs"
    and "q \<in> set pods" "failed_updated q" "\<And>x. x \<in> set pods \<Longrightarrow> failed_updated x \<Longrightarrow> locale_compare (wp_name q) (wp_name x) \<le> 0"
    using least_failing_pod [OF assms(1,2,3)] by metis
  moreover have "get_workload_rollout_activity locale_compare resource kind (Some pods) =
      (if (ra_active activity \<or> ra_phase activity = PhStalled) \<and> ra_phase activity \<noteq> PhApplying
       then merge_activity activity PhStalled False ''New revision cannot start'' (pod_failure_detail q) else activity)"
    unfolding get_activity_pods [of _ _ _ "Some pods"] assms(4) [symmetric]
    by (simp add: with_updated_revision_failure_def q)
  ultimately show ?thesis by auto
qed

lemma sample_failing:
  "ra_active (get_workload_rollout_activity str_cmp sample_rollout None None)"
  "ra_phase (get_workload_rollout_activity str_cmp sample_rollout None None) \<noteq> PhApplying"
  "ra_detail (get_workload_rollout_activity str_cmp sample_rollout None (Some sample_pods)) = ''Error'' @ dot_sep @ ''Pod db-1''"
  by code_simp+

theorem failing_pod_stalls_rollout_witness:
  "ra_phase (get_workload_rollout_activity str_cmp sample_rollout None (Some sample_pods)) = PhStalled
   \<and> ra_detail (get_workload_rollout_activity str_cmp sample_rollout None (Some sample_pods)) = ''Error'' @ dot_sep @ ''Pod db-1''"
proof -
  have "hd sample_pods \<in> set sample_pods" "failed_updated (hd sample_pods)"
    by (simp_all add: sample_pods_def failed_updated_def)
  from failing_pod_stalls_rollout [OF by_code.js_comparator_axioms this refl, of sample_rollout None]
  show ?thesis using sample_failing by (auto simp: merge_activity_def)
qed

end
