(* ===== verification/Parent_Forest.thy ===== *)
theory Parent_Forest
  imports Main
begin

text \<open>
  Forests given by parent links: finitely many nodes, each with at most one parent among them, and no
  cycle. The locale \<open>parent_forest\<close> is the contract of the code that nests records by a parent id; under
  it the descendants of the children of a node partition those of the node, and the trees under the
  roots partition the nodes.
\<close>

definition nest_rel :: "'a list \<Rightarrow> ('a \<Rightarrow> 'a option) \<Rightarrow> ('a \<times> 'a) set" where
  "nest_rel nodes up = {(c, p). c \<in> set nodes \<and> up c = Some p}"

definition below :: "'a list \<Rightarrow> ('a \<Rightarrow> 'a option) \<Rightarrow> 'a \<Rightarrow> 'a set" where
  \<comment> \<open>the node and its descendants\<close>
  "below nodes up i = insert i {d. (d, i) \<in> (nest_rel nodes up)\<^sup>+}"

lemma nest_rel_step [simp]: "(c, p) \<in> nest_rel nodes up \<longleftrightarrow> c \<in> set nodes \<and> up c = Some p"
  by (simp add: nest_rel_def)

lemma nest_rel_source: "(d, i) \<in> (nest_rel nodes up)\<^sup>+ \<Longrightarrow> d \<in> set nodes"
  by (induction rule: converse_trancl_induct) auto

lemma finite_below [simp]: "finite (below nodes up i)"
proof -
  have "below nodes up i \<subseteq> insert i (set nodes)" by (auto simp: below_def dest: nest_rel_source)
  then show ?thesis by (rule finite_subset) simp
qed

lemma below_rtrancl: "d \<in> below nodes up i \<longleftrightarrow> (d, i) \<in> (nest_rel nodes up)\<^sup>*"
  by (auto simp: below_def rtrancl_eq_or_trancl)

lemma nest_rel_linear:
  \<comment> \<open>parents are unique, so the ancestors of a node form a chain\<close>
  assumes "(d, a) \<in> (nest_rel nodes up)\<^sup>*" and "(d, b) \<in> (nest_rel nodes up)\<^sup>*"
  shows "(a, b) \<in> (nest_rel nodes up)\<^sup>* \<or> (b, a) \<in> (nest_rel nodes up)\<^sup>*"
  using assms by (rule single_valued_confluent [rotated]) (auto simp: single_valued_def)

locale parent_forest =
  fixes nodes :: "'a list" and up :: "'a \<Rightarrow> 'a option"
  assumes no_cycle: "acyclic (nest_rel nodes up)"
    and parent_is_node: "c \<in> set nodes \<Longrightarrow> up c = Some p \<Longrightarrow> p \<in> set nodes"
begin

definition kids :: "'a \<Rightarrow> 'a set" where
  "kids i = {c \<in> set nodes. up c = Some i}"

definition tops :: "'a set" where
  "tops = {i \<in> set nodes. up i = None}"

lemma finite_kids [simp]: "finite (kids i)" "finite tops"
  by (simp_all add: kids_def tops_def)

lemma not_below_kid:
  assumes "c \<in> kids i"
  shows "i \<notin> below nodes up c"
proof
  assume "i \<in> below nodes up c"
  then have "(i, c) \<in> (nest_rel nodes up)\<^sup>*" by (simp add: below_rtrancl)
  moreover have "(c, i) \<in> nest_rel nodes up" using assms by (simp add: kids_def)
  ultimately have "(i, i) \<in> (nest_rel nodes up)\<^sup>+" by (rule rtrancl_into_trancl1)
  with no_cycle show False by (simp add: acyclic_def)
qed

lemma above_kid: "(a, b) \<in> (nest_rel nodes up)\<^sup>* \<Longrightarrow> a \<noteq> b \<Longrightarrow> a \<in> kids i \<Longrightarrow> i \<in> below nodes up b"
  unfolding below_rtrancl by (erule converse_rtranclE) (simp_all add: kids_def)

lemma above_top: "(a, b) \<in> (nest_rel nodes up)\<^sup>* \<Longrightarrow> a \<in> tops \<Longrightarrow> a = b"
  by (erule converse_rtranclE) (simp_all add: tops_def)

lemma below_split: "below nodes up i = insert i (\<Union>c \<in> kids i. below nodes up c)"
proof -
  have "(d, i) \<in> (nest_rel nodes up)\<^sup>+ \<longleftrightarrow> (\<exists>c \<in> kids i. d \<in> below nodes up c)" for d
    unfolding below_rtrancl kids_def
    by (auto simp: rtrancl_into_trancl1 dest!: tranclD2)
  then show ?thesis by (auto simp: below_def)
qed

lemma below_kid_smaller: "c \<in> kids i \<Longrightarrow> card (below nodes up c) < card (below nodes up i)"
  using not_below_kid [of c i] by (intro psubset_card_mono) (auto simp: below_split [of i])

lemma kids_apart:
  assumes "a \<in> kids i" "b \<in> kids i" "a \<noteq> b"
  shows "below nodes up a \<inter> below nodes up b = {}"
proof (rule ccontr)
  assume "below nodes up a \<inter> below nodes up b \<noteq> {}"
  then obtain d where "(d, a) \<in> (nest_rel nodes up)\<^sup>*" "(d, b) \<in> (nest_rel nodes up)\<^sup>*"
    unfolding below_rtrancl [symmetric] by blast
  then have "(a, b) \<in> (nest_rel nodes up)\<^sup>* \<or> (b, a) \<in> (nest_rel nodes up)\<^sup>*" by (rule nest_rel_linear)
  then show False using above_kid not_below_kid assms by metis
qed

lemma tops_apart:
  assumes "a \<in> tops" "b \<in> tops" "a \<noteq> b"
  shows "below nodes up a \<inter> below nodes up b = {}"
proof (rule ccontr)
  assume "below nodes up a \<inter> below nodes up b \<noteq> {}"
  then obtain d where "(d, a) \<in> (nest_rel nodes up)\<^sup>*" "(d, b) \<in> (nest_rel nodes up)\<^sup>*"
    unfolding below_rtrancl [symmetric] by blast
  then have "(a, b) \<in> (nest_rel nodes up)\<^sup>* \<or> (b, a) \<in> (nest_rel nodes up)\<^sup>*" by (rule nest_rel_linear)
  then show False using above_top assms by metis
qed

lemma under_some_top:
  assumes "d \<in> set nodes"
  shows "\<exists>r \<in> tops. d \<in> below nodes up r"
proof -
  have "finite (nest_rel nodes up)"
  proof (rule finite_subset)
    show "nest_rel nodes up \<subseteq> (\<lambda>c. (c, the (up c))) ` set nodes" by (auto simp: nest_rel_def image_iff)
  qed simp
  then have "wf ((nest_rel nodes up)\<inverse>)" using no_cycle by (rule finite_acyclic_wf_converse)
  then show ?thesis using assms
  proof (induction d rule: wf_induct_rule)
    case (less d)
    show ?case
    proof (cases "up d")
      case None
      with less.prems show ?thesis by (auto simp: tops_def below_def)
    next
      case (Some p)
      then have "p \<in> set nodes" using less.prems parent_is_node by blast
      then obtain r where "r \<in> tops" "p \<in> below nodes up r" using less.IH [of p] Some less.prems by auto
      then show ?thesis using Some less.prems unfolding below_rtrancl
        by (auto intro!: bexI [of _ r] intro: converse_rtrancl_into_rtrancl)
    qed
  qed
qed

lemma below_in_nodes: "r \<in> set nodes \<Longrightarrow> below nodes up r \<subseteq> set nodes"
  by (auto simp: below_def dest: nest_rel_source)

lemma nodes_split: "set nodes = (\<Union>r \<in> tops. below nodes up r)"
  using under_some_top below_in_nodes by (fastforce simp: tops_def)

text \<open>Whatever is summed, over multisets of events or counts, each node is counted once.\<close>

lemma sum_below:
  "sum f (below nodes up i) = f i + (\<Sum>c \<in> kids i. sum f (below nodes up c))"
proof -
  have "i \<notin> (\<Union>c \<in> kids i. below nodes up c)" using not_below_kid by blast
  then have "sum f (below nodes up i) = f i + sum f (\<Union>c \<in> kids i. below nodes up c)"
    by (subst below_split) simp
  also have "sum f (\<Union>c \<in> kids i. below nodes up c) = (\<Sum>c \<in> kids i. sum f (below nodes up c))"
    using kids_apart by (intro sum.UNION_disjoint) auto
  finally show ?thesis .
qed

lemma sum_nodes: "sum f (set nodes) = (\<Sum>r \<in> tops. sum f (below nodes up r))"
  unfolding nodes_split using tops_apart by (intro sum.UNION_disjoint) auto

end

end
