(* ===== verification/Resource_Hierarchy.thy ===== *)
theory Resource_Hierarchy
  imports Topology_Neighborhood Timeline_Sync Parent_Forest
begin

text \<open>
  The resource hierarchy of the timeline (\<open>packages/k8s-ui/src/utils/resource-hierarchy.ts\<close>, up to
  \<open>buildResourceHierarchy\<close>): one lane per resource, made from the events and the topology, a parent for
  each lane from owners, edges, labels and naming contracts, and the tree that results.

  The code keeps the lanes in a \<open>Map\<close> whose values it mutates and links into one another; here the
  state \<open>hierarchy\<close> holds the lanes by id, and the links are followed only when the tree is read out.
  The parent links may form cycles. The lanes on a cycle stay at the top, and reading the tree ends:
  \<open>tree_at\<close> is a function with a termination proof. \<open>Date.parse\<close> is a parameter.
\<close>

section \<open>Lanes\<close>

datatype timeline_grouping = GroupApp | GroupOwner | GroupFlat

record app_membership =
  am_app_key :: string
  am_app_name :: string
  am_env :: "string option"
  am_evidence :: "string option"

record app_membership_index =
  ai_by_resource :: "(string \<times> app_membership) list"
  ai_by_unqualified :: "(string \<times> app_membership) list option"
  ai_by_evidence :: "(string \<times> app_membership) list"

record resource_lane =
  rl_id :: string
  rl_kind :: string
  rl_group :: "string option"
  rl_identity_resolved :: bool
  rl_identity_ambiguous :: bool
  rl_namespace :: string
  rl_name :: string
  rl_events :: "timeline_event list"
  rl_is_workload :: bool
  rl_child_event_count :: nat
  rl_all_events :: "timeline_event list option"
  rl_app :: "app_membership option" \<comment> \<open>of an app-group header: \<open>isAppGroup\<close>, \<open>appKey\<close>, \<open>title\<close>, \<open>env\<close>, \<open>evidence\<close>\<close>
  rl_absent_pinned_app :: bool
  rl_matched_by_name :: bool
  rl_structural_member :: bool
  rl_nested_by_contract :: bool

datatype lane_tree = LaneTree (tree_lane: resource_lane) (tree_children: "lane_tree list")

definition is_workload_kind :: "string \<Rightarrow> bool" where
  "is_workload_kind kind \<longleftrightarrow> kind \<in> {''Deployment'', ''Rollout'', ''DaemonSet'', ''StatefulSet'', ''Service'', ''Job'', ''CronJob'',
     ''Workflow'', ''CronWorkflow'', ''Application'', ''Kustomization'', ''HelmRelease'', ''GitRepository'', ''OCIRepository'',
     ''HelmRepository'', ''KnativeService''}"

definition new_lane :: "string \<Rightarrow> string \<Rightarrow> string option \<Rightarrow> bool \<Rightarrow> bool \<Rightarrow> string \<Rightarrow> string \<Rightarrow> timeline_event list \<Rightarrow> resource_lane" where
  "new_lane i kind grp resolved ambiguous ns name events =
     \<lparr>rl_id = i, rl_kind = kind, rl_group = grp, rl_identity_resolved = resolved, rl_identity_ambiguous = ambiguous,
      rl_namespace = ns, rl_name = name, rl_events = events, rl_is_workload = is_workload_kind kind, rl_child_event_count = 0,
      rl_all_events = None, rl_app = None, rl_absent_pinned_app = False, rl_matched_by_name = False,
      rl_structural_member = False, rl_nested_by_contract = False\<rparr>"

section \<open>Identities\<close>

definition problematic_reasons :: "string list" where
  "problematic_reasons =
     [''BackOff'', ''CrashLoopBackOff'', ''Failed'', ''Error'', ''OOMKilling'', ''OOMKilled'', ''CreateContainerConfigError'',
      ''CreateContainerError'', ''RunContainerError'', ''InvalidImageName'', ''ErrImagePull'', ''ImagePullBackOff'',
      ''ContainerStatusUnknown'', ''FailedScheduling'', ''FailedMount'', ''FailedAttachVolume'', ''FailedCreate'', ''FailedDelete'',
      ''Unhealthy'', ''Killing'', ''Evicted'', ''FailedSync'', ''FailedValidation'', ''FailedPreStopHook'', ''FailedPostStartHook'',
      ''HostPortConflict'', ''InsufficientMemory'', ''InsufficientCPU'', ''NodeNotReady'', ''NetworkNotReady'', ''KubeletNotReady'',
      ''MemoryPressure'', ''DiskPressure'', ''PIDPressure'', ''NodeStatusUnknown'', ''ProgressDeadlineExceeded'', ''ReplicaFailure'',
      ''MinimumReplicasUnavailable'', ''FailedGetScale'', ''FailedRescale'', ''FailedUpdateScale'', ''FailedGetResourceMetric'',
      ''FailedComputeMetricsReplicas'', ''ProvisioningFailed'', ''FailedBinding'', ''VolumeFailedDelete'', ''DeadlineExceeded'',
      ''BackoffLimitExceeded'']"

definition is_problematic_event :: "timeline_event \<Rightarrow> bool" where
  "is_problematic_event event \<longleftrightarrow> ev_type event = EvWarning
     \<or> truthy_str (ev_reason event) \<and> coalesce (ev_reason event) [] \<in> set problematic_reasons"

definition event_priority :: "timeline_event \<Rightarrow> int" where
  "event_priority e = (if is_problematic_event e then 3 else if ev_type e = EvDelete then 2 else if ev_type e = EvAdd then 1 else 0)"

definition sort_events_for_rendering :: "timeline_event list \<Rightarrow> timeline_event list" where
  "sort_events_for_rendering events = js_sort (\<lambda>a b. event_priority a - event_priority b) events"

definition node_api_version :: "topology_node \<Rightarrow> string" where
  "node_api_version node = coalesce (json_str (map_of (tn_data node) ''apiVersion'')) []"

definition topology_node_lane_id :: "topology_node \<Rightarrow> string" where
  "topology_node_lane_id node =
     lane_id (topology_node_resource_kind node) (Some (api_version_to_group (Some (node_api_version node)))) (node_namespace node) (tn_name node)"

definition parsed :: "string \<Rightarrow> lane_ref" where
  \<comment> \<open>\<open>parseLaneId(id)!\<close>\<close>
  "parsed i = coalesce (parse_lane_id i) \<lparr>ln_kind = [], ln_group = [], ln_namespace = [], ln_name = []\<rparr>"

definition key_of_lane_id :: "string \<Rightarrow> string" where
  "key_of_lane_id i = (let p = parsed i in lane_resource_key (ln_kind p) (ln_namespace p) (ln_name p))"

type_synonym identity_groups = "(string \<times> string list) list"

definition add_group :: "string \<Rightarrow> string \<Rightarrow> identity_groups \<Rightarrow> identity_groups" where
  "add_group rk grp m = AList.update rk (set_add grp (coalesce (map_of m rk) [])) m"

definition event_key :: "timeline_event \<Rightarrow> string" where
  "event_key e = lane_resource_key (ev_kind e) (ev_namespace e) (ev_name e)"

definition attaches_to_owner :: "timeline_event \<Rightarrow> bool" where
  "attaches_to_owner e \<longleftrightarrow> ev_kind e = ''Event'' \<and> ev_owner e \<noteq> None"

definition event_group :: "timeline_event \<Rightarrow> string" where
  "event_group e = api_version_to_group (ev_api_version e)"

definition add_event_group :: "timeline_event \<Rightarrow> identity_groups \<Rightarrow> identity_groups" where
  "add_event_group e m =
     (if attaches_to_owner e \<or> \<not> truthy_str (ev_api_version e) then m
      else add_group (event_key e) (if group_qualifies_lane_id (Some (event_group e)) then event_group e else []) m)"

record lane_identities =
  id_node_lanes :: "(string \<times> string) list" \<comment> \<open>\<open>topologyLaneIdByNodeId\<close>\<close>
  id_group_by_key :: "(string \<times> string) list"
  id_ambiguous :: "string list"

definition topology_nodes :: "topology option \<Rightarrow> topology_node list" where
  "topology_nodes t = (case t of None \<Rightarrow> [] | Some t \<Rightarrow> tp_nodes t)"

definition identity_groups_of :: "topology option \<Rightarrow> timeline_event list \<Rightarrow> identity_groups" where
  "identity_groups_of t events =
     fold add_event_group events
       (fold (\<lambda>n. add_group (key_of_lane_id (topology_node_lane_id n)) (ln_group (parsed (topology_node_lane_id n)))) (topology_nodes t) [])"

definition lane_identities_of :: "topology option \<Rightarrow> timeline_event list \<Rightarrow> lane_identities" where
  "lane_identities_of t events =
     (let groups = identity_groups_of t events in
      \<lparr>id_node_lanes = map_from (map (\<lambda>n. (tn_id n, topology_node_lane_id n)) (topology_nodes t)),
       id_group_by_key = List.map_filter (\<lambda>(rk, gs). case gs of [g] \<Rightarrow> Some (rk, g) | _ \<Rightarrow> None) groups,
       id_ambiguous = map fst (filter (\<lambda>(rk, gs). length gs \<noteq> 1) groups)\<rparr>)"

definition ambiguous_group :: string where
  "ambiguous_group = '' ambiguous''"

definition fallback_group :: "lane_identities \<Rightarrow> string \<Rightarrow> string" where
  "fallback_group ids rk = (if rk \<in> set (id_ambiguous ids) then ambiguous_group else coalesce (map_of (id_group_by_key ids) rk) [])"

definition resolved_key :: "lane_identities \<Rightarrow> string \<Rightarrow> bool" where
  \<comment> \<open>\<open>groupByKey.has(rk) && !ambiguousResourceKeys.has(rk)\<close>\<close>
  "resolved_key ids rk \<longleftrightarrow> map_of (id_group_by_key ids) rk \<noteq> None \<and> rk \<notin> set (id_ambiguous ids)"

section \<open>Making the lanes\<close>

record hierarchy =
  hi_lanes :: "(string \<times> resource_lane) list" \<comment> \<open>\<open>laneMap\<close>\<close>
  hi_id_by_key :: "(string \<times> string) list" \<comment> \<open>\<open>laneIdByKey\<close>\<close>
  hi_parent :: "(string \<times> string) list" \<comment> \<open>\<open>laneParent\<close>\<close>

definition empty_hierarchy :: hierarchy where
  "empty_hierarchy = \<lparr>hi_lanes = [], hi_id_by_key = [], hi_parent = []\<rparr>"

definition register_lane_key :: "string \<Rightarrow> string \<Rightarrow> (string \<times> string) list \<Rightarrow> (string \<times> string) list" where
  "register_lane_key rk i m = (if map_of m rk = None then AList.update rk i m else m)"

definition add_lane :: "string \<Rightarrow> resource_lane \<Rightarrow> hierarchy \<Rightarrow> hierarchy" where
  \<comment> \<open>\<open>laneMap.set(id, lane); registerLaneKey(rk, id)\<close>\<close>
  "add_lane rk lane h =
     h\<lparr>hi_lanes := AList.update (rl_id lane) lane (hi_lanes h), hi_id_by_key := register_lane_key rk (rl_id lane) (hi_id_by_key h)\<rparr>"

definition update_lane :: "string \<Rightarrow> (resource_lane \<Rightarrow> resource_lane) \<Rightarrow> hierarchy \<Rightarrow> hierarchy" where
  "update_lane i f h = h\<lparr>hi_lanes := map (\<lambda>(k, l). (k, if k = i then f l else l)) (hi_lanes h)\<rparr>"

definition push_event :: "timeline_event \<Rightarrow> resource_lane \<Rightarrow> resource_lane" where
  "push_event e l = l\<lparr>rl_events := rl_events l @ [e]\<rparr>"

definition ambiguous_lane_id :: "string \<Rightarrow> string" where
  "ambiguous_lane_id rk = (let p = parsed rk in lane_id (ln_kind p) (Some ambiguous_group) (ln_namespace p) (ln_name p))"

definition existing_ref_lane :: "lane_identities \<Rightarrow> hierarchy \<Rightarrow> string \<Rightarrow> string option" where
  "existing_ref_lane ids h rk =
     (if rk \<in> set (id_ambiguous ids)
      then (if map_of (hi_lanes h) (ambiguous_lane_id rk) \<noteq> None then Some (ambiguous_lane_id rk) else None)
      else map_of (hi_id_by_key h) rk)"

definition ref_lane_id :: "lane_identities \<Rightarrow> string \<Rightarrow> string" where
  "ref_lane_id ids rk = (let p = parsed rk in lane_id (ln_kind p) (Some (fallback_group ids rk)) (ln_namespace p) (ln_name p))"

definition resolve_id :: "lane_identities \<Rightarrow> hierarchy \<Rightarrow> string \<Rightarrow> string" where
  "resolve_id ids h rk = coalesce (existing_ref_lane ids h rk) (ref_lane_id ids rk)"

definition ensure_ref_lane :: "lane_identities \<Rightarrow> string \<Rightarrow> timeline_event option \<Rightarrow> hierarchy \<Rightarrow> hierarchy" where
  \<comment> \<open>the id it returns is \<open>resolve_id\<close>\<close>
  "ensure_ref_lane ids rk seed h =
     (case existing_ref_lane ids h rk of
        Some i \<Rightarrow> (case seed of None \<Rightarrow> h | Some e \<Rightarrow> update_lane i (push_event e) h)
      | None \<Rightarrow>
          let p = parsed rk; grp = fallback_group ids rk in
          add_lane rk (new_lane (ref_lane_id ids rk) (ln_kind p) (if grp = ambiguous_group then None else Some grp)
            (resolved_key ids rk) (rk \<in> set (id_ambiguous ids)) (ln_namespace p) (ln_name p)
            (case seed of None \<Rightarrow> [] | Some e \<Rightarrow> [e])) h)"

definition ensure_topology_lane :: "string \<Rightarrow> hierarchy \<Rightarrow> hierarchy" where
  "ensure_topology_lane i h =
     (if map_of (hi_lanes h) i \<noteq> None then h
      else let p = parsed i in
           add_lane (key_of_lane_id i)
             (new_lane i (ln_kind p) (Some (ln_group p)) True False (ln_namespace p) (ln_name p) []) h)"

definition event_lane_group :: "lane_identities \<Rightarrow> timeline_event \<Rightarrow> string" where
  "event_lane_group ids e = (if truthy_str (ev_api_version e) then event_group e else fallback_group ids (event_key e))"

definition event_lane_id :: "lane_identities \<Rightarrow> hierarchy \<Rightarrow> timeline_event \<Rightarrow> string" where
  "event_lane_id ids h e =
     (if truthy_str (ev_api_version e) \<or> group_qualifies_lane_id (Some (event_lane_group ids e))
      then lane_id (ev_kind e) (Some (event_lane_group ids e)) (ev_namespace e) (ev_name e)
      else coalesce (if event_key e \<notin> set (id_ambiguous ids) then map_of (hi_id_by_key h) (event_key e) else None) (event_key e))"

definition place_event :: "lane_identities \<Rightarrow> timeline_event \<Rightarrow> hierarchy \<Rightarrow> hierarchy" where
  "place_event ids e h =
     (let rk = event_key e; versioned = truthy_str (ev_api_version e); grp = event_lane_group ids e; i = event_lane_id ids h e
      in case map_of (hi_lanes h) i of
           None \<Rightarrow> add_lane rk (new_lane i (ev_kind e) (if grp = ambiguous_group then None else Some grp)
                     (versioned \<or> resolved_key ids rk) (\<not> versioned \<and> rk \<in> set (id_ambiguous ids))
                     (ev_namespace e) (ev_name e) [e]) h
         | Some l \<Rightarrow> update_lane i (\<lambda>l. push_event e
               (l\<lparr>rl_group := (if \<not> truthy_str (rl_group l) \<and> grp \<noteq> [] \<and> grp \<noteq> ambiguous_group then Some grp else rl_group l),
                  rl_identity_resolved := rl_identity_resolved l \<or> versioned \<or> resolved_key ids rk\<rparr>)) h)"

definition owner_key :: "string \<Rightarrow> owner_info \<Rightarrow> string" where
  "owner_key ns ow = lane_resource_key (ow_kind ow) ns (ow_name ow)"

definition attach_event :: "lane_identities \<Rightarrow> timeline_event \<Rightarrow> hierarchy \<Rightarrow> hierarchy" where
  "attach_event ids e h =
     (case ev_owner e of None \<Rightarrow> h | Some ow \<Rightarrow> ensure_ref_lane ids (owner_key (ev_namespace e) ow) (Some e) h)"

definition lanes_from_events :: "lane_identities \<Rightarrow> timeline_event list \<Rightarrow> hierarchy" where
  "lanes_from_events ids events =
     fold (attach_event ids) (filter attaches_to_owner events)
       (fold (place_event ids) (filter (\<lambda>e. \<not> attaches_to_owner e) events) empty_hierarchy)"

section \<open>Parents from owners\<close>

definition set_parent :: "string \<Rightarrow> string \<Rightarrow> hierarchy \<Rightarrow> hierarchy" where
  "set_parent i p h = h\<lparr>hi_parent := AList.update i p (hi_parent h)\<rparr>"

definition has_lane :: "hierarchy \<Rightarrow> string \<Rightarrow> bool" where
  "has_lane h i \<longleftrightarrow> map_of (hi_lanes h) i \<noteq> None"

definition has_parent :: "hierarchy \<Rightarrow> string \<Rightarrow> bool" where
  "has_parent h i \<longleftrightarrow> map_of (hi_parent h) i \<noteq> None"

definition first_owner :: "timeline_event list \<Rightarrow> owner_info option" where
  \<comment> \<open>\<open>events.find(e => e.owner)?.owner\<close>\<close>
  "first_owner events = Option.bind (List.find (\<lambda>e. ev_owner e \<noteq> None) events) ev_owner"

definition parent_from_owner :: "lane_identities \<Rightarrow> string \<times> resource_lane \<Rightarrow> hierarchy \<Rightarrow> hierarchy" where
  "parent_from_owner ids il h =
     (case il of (i, lane) \<Rightarrow>
        case first_owner (rl_events lane) of
          None \<Rightarrow> h
        | Some ow \<Rightarrow>
            let rk = owner_key (rl_namespace lane) ow in
            if rk \<in> set (id_ambiguous ids) then h
            else set_parent i (resolve_id ids h rk) (ensure_ref_lane ids rk None h))"

definition parents_from_owners :: "lane_identities \<Rightarrow> hierarchy \<Rightarrow> hierarchy" where
  \<comment> \<open>the lanes the loop itself adds have no events, so visiting them changes nothing\<close>
  "parents_from_owners ids h = fold (parent_from_owner ids) (hi_lanes h) h"

section \<open>Parents from topology edges\<close>

definition same_app_members :: "timeline_grouping \<Rightarrow> app_membership_index option \<Rightarrow> string \<Rightarrow> string \<Rightarrow> bool" where
  "same_app_members grouping index a b =
     (case index of
        None \<Rightarrow> False
      | Some ix \<Rightarrow> grouping = GroupApp
          \<and> (case (map_of (ai_by_resource ix) a, map_of (ai_by_resource ix) b) of
               (Some ma, Some mb) \<Rightarrow> am_app_key ma = am_app_key mb
             | _ \<Rightarrow> False))"

definition link_lanes :: "(string \<Rightarrow> string \<Rightarrow> bool) \<Rightarrow> string \<Rightarrow> string \<Rightarrow> bool \<Rightarrow> hierarchy \<Rightarrow> hierarchy" where
  "link_lanes same child parent child_exists h =
     (if \<not> child_exists \<or> same child parent \<or> has_parent h child then h
      else set_parent child parent (ensure_topology_lane parent h))"

definition route_kinds :: "string list" where
  "route_kinds = [''HTTPRoute'', ''GRPCRoute'', ''TCPRoute'', ''TLSRoute'', ''UDPRoute'']"

definition is_flux_source :: "topology_node option \<Rightarrow> bool" where
  "is_flux_source node =
     (case node of None \<Rightarrow> False
      | Some n \<Rightarrow> api_version_to_group (Some (node_api_version n)) = ''source.toolkit.fluxcd.io'')"

definition attached_uses_sources :: "string list" where
  "attached_uses_sources = [''autoscaling/HorizontalPodAutoscaler'', ''autoscaling.k8s.io/VerticalPodAutoscaler'',
     ''keda.sh/ScaledObject'', ''keda.sh/ScaledJob'', ''/PersistentVolumeClaim'']"

definition attaches_to_target :: "topology_node option \<Rightarrow> bool" where
  "attaches_to_target node =
     (case node of None \<Rightarrow> False
      | Some n \<Rightarrow>
          let kind = topology_node_resource_kind n;
              grp = coalesce (canonical_resource_group kind (Some (api_version_to_group (Some (node_api_version n))))) []
          in grp @ ''/'' @ kind \<in> set attached_uses_sources)"

definition manages_edge :: "(string \<Rightarrow> string \<Rightarrow> bool) \<Rightarrow> string \<Rightarrow> string \<Rightarrow> hierarchy \<Rightarrow> hierarchy" where
  "manages_edge same source target h =
     (case map_of (hi_lanes h) target of
        None \<Rightarrow> h
      | Some lane \<Rightarrow>
          case first_owner (rl_events lane) of
            None \<Rightarrow> h
          | Some ow \<Rightarrow>
              let s = parsed source in
              if ow_kind ow = ln_kind s \<and> ow_name ow = ln_name s \<and> rl_namespace lane = ln_namespace s \<and> \<not> same target source
              then set_parent target source (ensure_topology_lane source h) else h)"

definition routes_edge :: "(string \<Rightarrow> string \<Rightarrow> bool) \<Rightarrow> string \<Rightarrow> string \<Rightarrow> bool \<Rightarrow> bool \<Rightarrow> hierarchy \<Rightarrow> hierarchy" where
  "routes_edge same source target source_exists target_exists h =
     (let sk = ln_kind (parsed source); tk = ln_kind (parsed target) in
      if sk = ''Gateway'' \<and> tk \<in> set route_kinds then link_lanes same target source target_exists h
      else if sk \<in> set route_kinds \<and> tk = ''Service'' then link_lanes same source target source_exists h
      else if sk = ''Ingress'' \<and> tk = ''Service'' then link_lanes same source target source_exists h
      else if sk = ''Service'' then link_lanes same target source target_exists h
      else h)"

definition parent_from_edge ::
  "lane_identities \<Rightarrow> (string \<Rightarrow> string \<Rightarrow> bool) \<Rightarrow> node_index \<Rightarrow> topology_edge \<Rightarrow> hierarchy \<Rightarrow> hierarchy" where
  "parent_from_edge ids same nodes edge h =
     (case (map_of (id_node_lanes ids) (te_source edge), map_of (id_node_lanes ids) (te_target edge)) of
        (Some source, Some target) \<Rightarrow>
          let source_exists = has_lane h source; target_exists = has_lane h target; source_node = map_of nodes (te_source edge) in
          if \<not> source_exists \<and> \<not> target_exists then h
          else (case te_type edge of
             Manages \<Rightarrow> manages_edge same source target h
           | Exposes \<Rightarrow> link_lanes same target source target_exists h
           | RoutesTo \<Rightarrow> routes_edge same source target source_exists target_exists h
           | Configures \<Rightarrow> if \<not> is_flux_source source_node then link_lanes same source target source_exists h else h
           | Protects \<Rightarrow> link_lanes same source target source_exists h
           | Uses \<Rightarrow> if attaches_to_target source_node then link_lanes same source target source_exists h else h)
      | _ \<Rightarrow> h)"

definition parents_from_edges ::
  "lane_identities \<Rightarrow> timeline_grouping \<Rightarrow> app_membership_index option \<Rightarrow> topology option \<Rightarrow> hierarchy \<Rightarrow> hierarchy" where
  "parents_from_edges ids grouping index t h =
     (case t of None \<Rightarrow> h
      | Some t \<Rightarrow> fold (parent_from_edge ids (same_app_members grouping index) (nodes_by_id (tp_nodes t))) (tp_edges t) h)"

section \<open>Parents from labels, without an application index\<close>

definition app_label :: "topology_node \<Rightarrow> string option" where
  "app_label node =
     (let labels = map_of (tn_data node) ''labels'';
          v = json_or (json_get labels ''app.kubernetes.io/name'') (json_get labels ''app'')
      in if json_truthy v then Some (json_text v) else None)"

definition app_label_eligible_kinds :: "string list" where
  "app_label_eligible_kinds =
     [''Service'', ''Deployment'', ''Rollout'', ''StatefulSet'', ''DaemonSet'', ''Job'', ''CronJob'', ''Ingress'', ''Gateway'',
      ''HTTPRoute'', ''GRPCRoute'', ''TCPRoute'', ''TLSRoute'', ''UDPRoute'', ''ConfigMap'', ''Secret'', ''Application'',
      ''Kustomization'', ''HelmRelease'', ''GitRepository'', ''Workflow'', ''CronWorkflow'', ''KnativeService'',
      ''KnativeConfiguration'', ''KnativeRevision'', ''KnativeRoute'', ''Broker'', ''Trigger'', ''IngressRoute'',
      ''IngressRouteTCP'', ''IngressRouteUDP'', ''HTTPProxy'']"

definition label_kind_priority :: "(string \<times> int) list" where
  "label_kind_priority =
     [(''Service'', 1), (''Ingress'', 2), (''Gateway'', 2), (''HTTPRoute'', 2), (''GRPCRoute'', 2), (''TCPRoute'', 2),
      (''TLSRoute'', 2), (''UDPRoute'', 2), (''Deployment'', 3), (''Rollout'', 3), (''StatefulSet'', 3), (''DaemonSet'', 3),
      (''Job'', 4), (''CronJob'', 4), (''Workflow'', 4), (''CronWorkflow'', 4), (''ConfigMap'', 5), (''Secret'', 5),
      (''ReplicaSet'', 6), (''Pod'', 7), (''KnativeService'', 1), (''KnativeRoute'', 2), (''Broker'', 2), (''Channel'', 2),
      (''KnativeConfiguration'', 3), (''KnativeRevision'', 4), (''Trigger'', 3), (''PingSource'', 3), (''ApiServerSource'', 3),
      (''ContainerSource'', 3), (''SinkBinding'', 3), (''IngressRoute'', 2), (''IngressRouteTCP'', 2), (''IngressRouteUDP'', 2),
      (''TraefikService'', 3), (''Middleware'', 4), (''MiddlewareTCP'', 4), (''HTTPProxy'', 2)]"

definition priority_in :: "(string \<times> int) list \<Rightarrow> string \<Rightarrow> int" where
  \<comment> \<open>\<open>table[kind] || 10\<close>\<close>
  "priority_in table kind = coalesce (map_of table kind) 10"

definition lane_app_labels :: "lane_identities \<Rightarrow> topology_node list \<Rightarrow> (string \<times> string) list" where
  "lane_app_labels ids nodes =
     fold (\<lambda>n m. case (app_label n, map_of (id_node_lanes ids) (tn_id n)) of
                   (Some label, Some i) \<Rightarrow> AList.update i label m
                 | _ \<Rightarrow> m) nodes []"

definition label_groups :: "(string \<times> string) list \<Rightarrow> hierarchy \<Rightarrow> (string \<times> string list) list" where
  "label_groups labels h =
     fold (\<lambda>(i, lane) gs.
             if has_parent h i \<or> rl_kind lane \<notin> set app_label_eligible_kinds then gs
             else case map_of labels i of
                    None \<Rightarrow> gs
                  | Some label \<Rightarrow> push_to (rl_namespace lane @ ''/'' @ label) i gs) (hi_lanes h) []"

definition kind_of_lane :: "hierarchy \<Rightarrow> string \<Rightarrow> string" where
  "kind_of_lane h i = (case map_of (hi_lanes h) i of None \<Rightarrow> [] | Some l \<Rightarrow> rl_kind l)"

definition parent_label_group :: "string list \<Rightarrow> hierarchy \<Rightarrow> hierarchy" where
  "parent_label_group lane_ids h =
     (if length lane_ids < 2 then h
      else case js_sort (\<lambda>a b. priority_in label_kind_priority (kind_of_lane h a)
                                - priority_in label_kind_priority (kind_of_lane h b)) lane_ids of
             [] \<Rightarrow> h
           | p # cs \<Rightarrow> fold (\<lambda>c h. if has_parent h c then h else set_parent c p h) cs h)"

definition parents_from_labels ::
  "lane_identities \<Rightarrow> timeline_grouping \<Rightarrow> app_membership_index option \<Rightarrow> topology option \<Rightarrow> hierarchy \<Rightarrow> hierarchy" where
  "parents_from_labels ids grouping index t h =
     (case t of None \<Rightarrow> h
      | Some t \<Rightarrow>
          if grouping = GroupApp \<and> index = None
          then fold (\<lambda>(k, lane_ids). parent_label_group lane_ids) (label_groups (lane_app_labels ids (tp_nodes t)) h) h
          else h)"

section \<open>Parents from naming contracts\<close>

definition is_digit_char :: "char \<Rightarrow> bool" where
  "is_digit_char c \<longleftrightarrow> 48 \<le> (of_char c :: nat) \<and> (of_char c :: nat) \<le> 57"

definition is_lower_alnum :: "char \<Rightarrow> bool" where
  \<comment> \<open>\<open>[a-z0-9]\<close>\<close>
  "is_lower_alnum c \<longleftrightarrow> is_digit_char c \<or> 97 \<le> (of_char c :: nat) \<and> (of_char c :: nat) \<le> 122"

record kind_contract =
  kc_child_kind :: string
  kc_parent_kinds :: "string list"
  kc_suffix :: "string \<Rightarrow> bool"

definition kind_contracts :: "kind_contract list" where
  "kind_contracts =
     [\<lparr>kc_child_kind = ''Job'', kc_parent_kinds = [''CronJob''], kc_suffix = \<lambda>s. s \<noteq> [] \<and> list_all is_digit_char s\<rparr>,
      \<lparr>kc_child_kind = ''Pod'', kc_parent_kinds = [''Job'', ''ReplicaSet''],
       kc_suffix = \<lambda>s. length s = 5 \<and> list_all is_lower_alnum s\<rparr>,
      \<lparr>kc_child_kind = ''ReplicaSet'', kc_parent_kinds = [''Deployment''],
       kc_suffix = \<lambda>s. 8 \<le> length s \<and> length s \<le> 10 \<and> list_all is_lower_alnum s\<rparr>]"

function chain_reaches :: "(string \<times> string) list \<Rightarrow> string \<Rightarrow> string list \<Rightarrow> string \<Rightarrow> bool" where
  "chain_reaches parents target seen cur =
     (if cur = [] \<or> cur \<in> set seen then False
      else if cur = target then True
      else case map_of parents cur of None \<Rightarrow> False | Some p \<Rightarrow> chain_reaches parents target (cur # seen) p)"
  by pat_completeness auto

lemma unseen_shrinks:
  assumes "map_of m i = Some p" and "i \<notin> set seen"
  shows "card (fst ` set m - insert i (set seen)) < card (fst ` set m - set seen)"
proof (rule psubset_card_mono)
  have "i \<in> fst ` set m" using map_of_SomeD [OF assms(1)] by force
  with assms(2) show "fst ` set m - insert i (set seen) \<subset> fst ` set m - set seen" by blast
qed simp

termination chain_reaches
  by (relation "measure (\<lambda>(parents, target, seen, cur). card (fst ` set parents - set seen))") (simp_all add: unseen_shrinks)

definition split_last_dash :: "string \<Rightarrow> (string \<times> string) option" where
  \<comment> \<open>around \<open>lastIndexOf('-')\<close>, when both sides are non-empty\<close>
  "split_last_dash s =
     (let rest = rev (takeWhile (\<lambda>c. c \<noteq> CHR ''-'') (rev s)); stem = take (length s - Suc (length rest)) s
      in if CHR ''-'' \<in> set s \<and> stem \<noteq> [] \<and> rest \<noteq> [] then Some (stem, rest) else None)"

definition contract_parent_id :: "resource_lane \<Rightarrow> hierarchy \<Rightarrow> string option" where
  "contract_parent_id lane h =
     (case List.find (\<lambda>c. kc_child_kind c = rl_kind lane) kind_contracts of
        None \<Rightarrow> None
      | Some contract \<Rightarrow>
          case split_last_dash (rl_name lane) of
            None \<Rightarrow> None
          | Some (stem, rest) \<Rightarrow>
              if \<not> kc_suffix contract rest then None
              else List.find (\<lambda>p. p \<noteq> rl_id lane \<and> has_lane h p \<and> \<not> chain_reaches (hi_parent h) (rl_id lane) [] p)
                     (map (\<lambda>pk. lane_resource_key pk (rl_namespace lane) stem) (kc_parent_kinds contract)))"

definition parent_from_contract :: "string \<Rightarrow> hierarchy \<Rightarrow> hierarchy" where
  "parent_from_contract i h =
     (case map_of (hi_lanes h) i of
        None \<Rightarrow> h
      | Some lane \<Rightarrow>
          if has_parent h i then h
          else case contract_parent_id lane h of
                 None \<Rightarrow> h
               | Some p \<Rightarrow> update_lane i (\<lambda>l. l\<lparr>rl_nested_by_contract := True\<rparr>) (set_parent i p h))"

definition parents_from_contracts :: "hierarchy \<Rightarrow> hierarchy" where
  "parents_from_contracts h = fold parent_from_contract (map fst (hi_lanes h)) h"

section \<open>Reading out the tree\<close>

function find_root :: "hierarchy \<Rightarrow> string list \<Rightarrow> string \<Rightarrow> string" where
  "find_root h visited i =
     (if i \<in> set visited then i
      else case map_of (hi_parent h) i of
             None \<Rightarrow> i
           | Some p \<Rightarrow> if p \<noteq> [] \<and> has_lane h p then find_root h (i # visited) p else i)"
  by pat_completeness auto

termination find_root
  by (relation "measure (\<lambda>(h, visited, i). card (fst ` set (hi_parent h) - set visited))") (simp_all add: unseen_shrinks)

definition nested_in :: "hierarchy \<Rightarrow> string \<Rightarrow> string option" where
  \<comment> \<open>the lane that takes \<open>i\<close> as a child in the second pass\<close>
  "nested_in h i =
     (case map_of (hi_parent h) i of
        None \<Rightarrow> None
      | Some p \<Rightarrow>
          let root = find_root h [] i in
          if root = i \<or> \<not> has_lane h root \<or> \<not> has_lane h p then None else Some p)"

definition child_ids :: "hierarchy \<Rightarrow> string \<Rightarrow> string list" where
  "child_ids h p = filter (\<lambda>i. nested_in h i = Some p) (map fst (hi_lanes h))"

definition lane_events_of :: "hierarchy \<Rightarrow> string \<Rightarrow> timeline_event list" where
  "lane_events_of h i = (case map_of (hi_lanes h) i of None \<Rightarrow> [] | Some l \<Rightarrow> rl_events l)"

text \<open>
  The links that \<open>find_root\<close> follows may form cycles. A lane on one is its own root, so the links that
  the second pass keeps do not.
\<close>

definition up_link :: "hierarchy \<Rightarrow> string \<Rightarrow> string option" where
  "up_link h i = (case map_of (hi_parent h) i of None \<Rightarrow> None | Some p \<Rightarrow> if p \<noteq> [] \<and> has_lane h p then Some p else None)"

declare find_root.simps [simp del]

lemma find_root_step:
  "find_root h visited i = (if i \<in> set visited then i else case up_link h i of None \<Rightarrow> i | Some p \<Rightarrow> find_root h (i # visited) p)"
  by (subst find_root.simps) (simp add: up_link_def split: option.split)

lemma least_cycle:
  assumes "(i, i) \<in> P\<^sup>+"
  obtains f n where "0 < n" "f 0 = i" "f n = i" "\<And>k. k < n \<Longrightarrow> (f k, f (Suc k)) \<in> P"
    "\<And>j k. 0 < k \<Longrightarrow> j < k \<Longrightarrow> k < n \<Longrightarrow> f j \<noteq> f k"
proof -
  define n where "n = (LEAST n. 0 < n \<and> (i, i) \<in> P ^^ n)"
  have "\<exists>n. 0 < n \<and> (i, i) \<in> P ^^ n" using assms by (simp add: trancl_power)
  then have "0 < n \<and> (i, i) \<in> P ^^ n" unfolding n_def by (rule LeastI_ex)
  then have n: "0 < n" "(i, i) \<in> P ^^ n" by blast+
  have least: "\<not> (0 < m \<and> (i, i) \<in> P ^^ m)" if "m < n" for m
    using not_less_Least [OF that [unfolded n_def]] .
  obtain f where f: "f 0 = i" "f n = i" "\<And>k. k < n \<Longrightarrow> (f k, f (Suc k)) \<in> P"
    using n(2) by (auto simp: relpow_fun_conv)
  have path: "(f a, f b) \<in> P ^^ (b - a)" if "a \<le> b" "b \<le> n" for a b
    unfolding relpow_fun_conv using that f(3) by (intro exI [of _ "\<lambda>k. f (a + k)"]) auto
  have "f j \<noteq> f k" if "0 < k" "j < k" "k < n" for j k
  proof
    assume eq: "f j = f k"
    have "(i, f j) \<in> P ^^ j" "(f j, i) \<in> P ^^ (n - k)"
      using path [of 0 j] path [of k n] that f(1,2) eq by auto
    then have "(i, i) \<in> P ^^ (j + (n - k))" unfolding relpow_add by auto
    with least [of "j + (n - k)"] that show False by simp
  qed
  with n(1) f show thesis by (rule that)
qed

lemma find_root_on_cycle:
  assumes "(i, i) \<in> {(c, p). up_link h c = Some p}\<^sup>+"
  shows "find_root h [] i = i"
proof -
  obtain f n where c: "0 < n" "f 0 = i" "f n = i"
    and steps: "\<And>k. k < n \<Longrightarrow> (f k, f (Suc k)) \<in> {(c, p). up_link h c = Some p}"
    and apart: "\<And>j k. 0 < k \<Longrightarrow> j < k \<Longrightarrow> k < n \<Longrightarrow> f j \<noteq> f k"
    by (rule least_cycle [OF assms]) blast
  have up: "up_link h (f k) = Some (f (Suc k))" if "k < n" for k using steps [OF that] by simp
  have "0 < k \<longrightarrow> find_root h (rev (map f [0..<k])) (f k) = i" if "k \<le> n" for k
    using that
  proof (induction k rule: inc_induct)
    case base
    have "i \<in> f ` {0..<n}" using c(1,2) by (auto intro: image_eqI [of _ _ 0])
    then show ?case by (subst find_root_step) (simp add: c(3))
  next
    case (step k)
    show ?case
    proof
      assume "0 < k"
      then have "f k \<notin> f ` {0..<k}" using apart [of k] step.hyps by fastforce
      with step up [of k] show "find_root h (rev (map f [0..<k])) (f k) = i"
        by (subst find_root_step) simp
    qed
  qed
  from this [of 1] have "find_root h [i] (f 1) = i" using c(1,2) by simp
  moreover have "up_link h i = Some (f 1)" using up [of 0] c(1,2) by simp
  ultimately show ?thesis by (subst find_root_step) simp
qed

lemma nested_in_link: "nested_in h i = Some p \<Longrightarrow> up_link h i = Some p \<and> find_root h [] i \<noteq> i \<and> has_lane h p"
  unfolding nested_in_def Let_def
  by (subst (asm) find_root_step, subst find_root_step)
    (auto simp: up_link_def split: option.splits if_splits)

lemma nested_acyclic: "acyclic (nest_rel nodes (nested_in h))"
proof (rule acyclicI, intro allI notI)
  let ?P = "{(c, p). up_link h c = Some p}"
  fix x assume x: "(x, x) \<in> (nest_rel nodes (nested_in h))\<^sup>+"
  then obtain p where "nested_in h x = Some p" by (meson nest_rel_step tranclD)
  then have "find_root h [] x \<noteq> x" using nested_in_link by blast
  moreover have "(x, x) \<in> ?P\<^sup>+"
    using x by (rule trancl_mono) (auto simp: nest_rel_def dest: nested_in_link)
  ultimately show False using find_root_on_cycle by blast
qed

interpretation nest: parent_forest "map fst (hi_lanes h)" "nested_in h" for h
proof
  fix c p assume "nested_in h c = Some p"
  then have "has_lane h p" using nested_in_link by blast
  then show "p \<in> set (map fst (hi_lanes h))" by (auto simp: has_lane_def dest: map_of_SomeD intro: rev_image_eqI)
qed (rule nested_acyclic)

lemma in_child_ids: "c \<in> set (child_ids h i) \<longleftrightarrow> c \<in> nest.kids h i"
  by (auto simp: child_ids_def nest.kids_def)

definition lane_at :: "hierarchy \<Rightarrow> string \<Rightarrow> resource_lane" where
  \<comment> \<open>the lane, with the count its children add to it\<close>
  "lane_at h i =
     (case map_of (hi_lanes h) i of
        None \<Rightarrow> new_lane i [] None False False [] [] []
      | Some l \<Rightarrow> l\<lparr>rl_child_event_count := rl_child_event_count l + (\<Sum>c\<leftarrow>child_ids h i. length (lane_events_of h c))\<rparr>)"

function tree_at :: "hierarchy \<Rightarrow> string \<Rightarrow> lane_tree" where
  "tree_at h i = LaneTree (lane_at h i) (map (tree_at h) (child_ids h i))"
  by pat_completeness auto

termination
  by (relation "measure (\<lambda>(h, i). card (below (map fst (hi_lanes h)) (nested_in h) i))")
    (auto simp: in_child_ids intro: nest.below_kid_smaller)

declare tree_at.simps [simp del]

fun tree_events :: "lane_tree \<Rightarrow> timeline_event list" where
  \<comment> \<open>own events, then those of each child\<close>
  "tree_events (LaneTree l cs) = rl_events l @ concat (map tree_events cs)"

definition subtree_events :: "lane_tree \<Rightarrow> timeline_event list" where
  "subtree_events t = sort_events_for_rendering (dedupe_by_id (tree_events t))"

definition child_sort_kind_priority :: "(string \<times> int) list" where
  "child_sort_kind_priority =
     [(''Service'', 1), (''Gateway'', 1), (''HTTPRoute'', 2), (''GRPCRoute'', 2), (''TCPRoute'', 2), (''TLSRoute'', 2),
      (''UDPRoute'', 2), (''Deployment'', 2), (''Rollout'', 2), (''StatefulSet'', 2), (''DaemonSet'', 2), (''Job'', 3),
      (''CronJob'', 3), (''ReplicaSet'', 3), (''Pod'', 4), (''ConfigMap'', 5), (''Secret'', 5), (''KnativeService'', 1),
      (''KnativeRoute'', 2), (''Broker'', 1), (''Channel'', 1), (''KnativeConfiguration'', 2), (''KnativeRevision'', 3),
      (''Trigger'', 2), (''PingSource'', 3), (''ApiServerSource'', 3), (''ContainerSource'', 3), (''SinkBinding'', 3),
      (''IngressRoute'', 1), (''IngressRouteTCP'', 1), (''IngressRouteUDP'', 1), (''TraefikService'', 2), (''Middleware'', 3),
      (''MiddlewareTCP'', 3), (''HTTPProxy'', 1)]"

definition latest_event_ms :: "(string \<Rightarrow> int option) \<Rightarrow> timeline_event list \<Rightarrow> int" where
  "latest_event_ms date_parse events =
     fold (\<lambda>e latest. case date_parse (ev_timestamp e) of None \<Rightarrow> latest | Some t \<Rightarrow> if t > latest then t else latest) events 0"

definition compare_children :: "(string \<Rightarrow> int option) \<Rightarrow> lane_tree \<Rightarrow> lane_tree \<Rightarrow> int" where
  "compare_children date_parse a b =
     (let pa = priority_in child_sort_kind_priority (rl_kind (tree_lane a));
          pb = priority_in child_sort_kind_priority (rl_kind (tree_lane b))
      in if pa \<noteq> pb then pa - pb
         else latest_event_ms date_parse (rl_events (tree_lane b)) - latest_event_ms date_parse (rl_events (tree_lane a)))"

fun sort_lane_children_deep :: "(string \<Rightarrow> int option) \<Rightarrow> lane_tree \<Rightarrow> lane_tree" where
  "sort_lane_children_deep date_parse (LaneTree l cs) =
     LaneTree l (js_sort (compare_children date_parse) (map (sort_lane_children_deep date_parse) cs))"

definition map_root :: "(resource_lane \<Rightarrow> resource_lane) \<Rightarrow> lane_tree \<Rightarrow> lane_tree" where
  "map_root f t = LaneTree (f (tree_lane t)) (tree_children t)"

definition with_rolled_up_events :: "lane_tree \<Rightarrow> lane_tree" where
  "with_rolled_up_events t = map_root (\<lambda>l. l\<lparr>rl_all_events := Some (subtree_events t)\<rparr>) t"

definition top_level_lanes :: "(string \<Rightarrow> int option) \<Rightarrow> hierarchy \<Rightarrow> lane_tree list" where
  "top_level_lanes date_parse h =
     map (\<lambda>i. with_rolled_up_events (sort_lane_children_deep date_parse (tree_at h i)))
       (filter (\<lambda>i. nested_in h i = None) (map fst (hi_lanes h)))"

section \<open>Application groups\<close>

definition event_evidence_labels :: "(string \<times> string) list" where
  "event_evidence_labels =
     [(''helm'', ''helm.toolkit.fluxcd.io/name''), (''argo'', ''argocd.argoproj.io/instance''),
      (''instance'', ''app.kubernetes.io/instance''), (''part-of'', ''app.kubernetes.io/part-of''),
      (''name'', ''app.kubernetes.io/name''), (''app'', ''app'')]"

definition lane_event_list :: "resource_lane \<Rightarrow> timeline_event list" where
  \<comment> \<open>\<open>lane.allEventsSorted ?? lane.events\<close>\<close>
  "lane_event_list lane = coalesce (rl_all_events lane) (rl_events lane)"

definition evidence_keys_for_lane :: "resource_lane \<Rightarrow> string list" where
  "evidence_keys_for_lane lane =
     fold (\<lambda>(kind, label) out.
       fold (\<lambda>e out.
         let value = Option.bind (ev_labels e) (\<lambda>ls. map_of ls label) in
         if truthy_str value then set_add (kind @ '':'' @ ev_namespace e @ '':'' @ coalesce value []) out else out)
       (lane_event_list lane) out) event_evidence_labels []"

record root_group_assignment =
  ga_membership :: app_membership
  ga_matched_by_name :: bool
  ga_structural :: bool

definition name_prefix_member_kinds :: "string list" where
  "name_prefix_member_kinds = [''Deployment'', ''StatefulSet'', ''DaemonSet'', ''ReplicaSet'', ''Job'', ''CronJob'', ''Rollout'']"

definition generated_name_lane_kinds :: "string list" where
  "generated_name_lane_kinds = [''Pod'', ''ReplicaSet'', ''Job'']"

definition name_suffix_segment :: "string \<Rightarrow> bool" where
  "name_suffix_segment s \<longleftrightarrow> 4 \<le> length s \<and> length s \<le> 11 \<and> list_all is_lower_alnum s"

definition is_generated_name_child_of :: "string \<Rightarrow> string \<Rightarrow> bool" where
  "is_generated_name_child_of lane_name member_name \<longleftrightarrow>
     (let prefix_text = member_name @ ''-''; rest = drop (length prefix_text) lane_name; segs = split_char CHR ''-'' rest in
      starts_with lane_name prefix_text \<and> rest \<noteq> [] \<and> length segs \<le> 2 \<and> list_all name_suffix_segment segs
      \<and> list_ex is_digit_char rest)"

record name_match =
  nm_best :: "app_membership option"
  nm_len :: int
  nm_ambiguous :: bool

definition match_member :: "string \<Rightarrow> string \<Rightarrow> string \<times> app_membership \<Rightarrow> name_match \<Rightarrow> name_match" where
  "match_member ns lane_name entry st =
     (case entry of (key, membership) \<Rightarrow>
        case parse_lane_id key of
          None \<Rightarrow> st
        | Some member \<Rightarrow>
            let len = int (length (ln_name member)) in
            if ln_kind member \<notin> set name_prefix_member_kinds \<or> ln_namespace member \<noteq> ns
               \<or> \<not> is_generated_name_child_of lane_name (ln_name member) then st
            else if len > nm_len st then \<lparr>nm_best = Some membership, nm_len = len, nm_ambiguous = False\<rparr>
            else (case nm_best st of
                    Some best \<Rightarrow> if len = nm_len st \<and> am_app_key membership \<noteq> am_app_key best then st\<lparr>nm_ambiguous := True\<rparr> else st
                  | None \<Rightarrow> st))"

definition match_lane_by_member_name_prefix :: "resource_lane \<Rightarrow> app_membership_index \<Rightarrow> app_membership option" where
  "match_lane_by_member_name_prefix lane index =
     (if rl_kind lane \<notin> set generated_name_lane_kinds then None
      else let st = fold (match_member (rl_namespace lane) (rl_name lane)) (ai_by_resource index)
                      \<lparr>nm_best = None, nm_len = - 1, nm_ambiguous = False\<rparr>
           in if nm_ambiguous st then None else nm_best st)"

definition direct_membership :: "resource_lane \<Rightarrow> app_membership_index \<Rightarrow> app_membership option" where
  "direct_membership lane index =
     (if rl_identity_resolved lane then map_of (ai_by_resource index) (rl_id lane)
      else case ai_by_unqualified index of
             Some m \<Rightarrow> map_of m (lane_resource_key (rl_kind lane) (rl_namespace lane) (rl_name lane))
           | None \<Rightarrow> map_of (ai_by_resource index) (rl_id lane))"

definition cascade_root_membership :: "resource_lane \<Rightarrow> app_membership_index \<Rightarrow> root_group_assignment option" where
  "cascade_root_membership lane index =
     (if rl_identity_ambiguous lane then None
      else case direct_membership lane index of
             Some m \<Rightarrow> Some \<lparr>ga_membership = m, ga_matched_by_name = False, ga_structural = True\<rparr>
           | None \<Rightarrow>
               case List.map_filter (map_of (ai_by_evidence index)) (evidence_keys_for_lane lane) of
                 m # ms \<Rightarrow> Some \<lparr>ga_membership = m, ga_matched_by_name = False, ga_structural = False\<rparr>
               | [] \<Rightarrow> map_option (\<lambda>m. \<lparr>ga_membership = m, ga_matched_by_name = True, ga_structural = False\<rparr>)
                         (match_lane_by_member_name_prefix lane index))"

definition make_app_group_lane :: "app_membership \<Rightarrow> lane_tree list \<Rightarrow> lane_tree" where
  "make_app_group_lane m members =
     (let all = concat (map (lane_event_list \<circ> tree_lane) members);
          nss = set_from (filter (\<lambda>n. n \<noteq> []) (map (rl_namespace \<circ> tree_lane) members))
      in LaneTree ((new_lane (''app:'' @ am_app_key m) ''AppGroup'' None False False (case nss of [n] \<Rightarrow> n | _ \<Rightarrow> []) (am_app_name m) [])
           \<lparr>rl_is_workload := False, rl_app := Some m,
            rl_child_event_count := (\<Sum>t\<leftarrow>members. length (lane_event_list (tree_lane t))),
            rl_all_events := Some (sort_events_for_rendering (dedupe_by_id all))\<rparr>) members)"

definition mark_member :: "root_group_assignment option \<Rightarrow> lane_tree \<Rightarrow> lane_tree" where
  "mark_member g t =
     (case g of None \<Rightarrow> t
      | Some g \<Rightarrow> map_root (\<lambda>l. l\<lparr>rl_matched_by_name := rl_matched_by_name l \<or> ga_matched_by_name g,
                                rl_structural_member := rl_structural_member l \<or> ga_structural g\<rparr>) t)"

definition app_of :: "root_group_assignment option \<times> lane_tree \<Rightarrow> string option" where
  "app_of gt = map_option (am_app_key \<circ> ga_membership) (fst gt)"

fun emit_groups ::
  "(root_group_assignment option \<times> lane_tree) list \<Rightarrow> string list \<Rightarrow> (root_group_assignment option \<times> lane_tree) list \<Rightarrow> lane_tree list" where
  "emit_groups assigned emitted [] = []"
| "emit_groups assigned emitted ((g, t) # rest) =
     (case g of
        None \<Rightarrow> t # emit_groups assigned emitted rest
      | Some a \<Rightarrow>
          let key = am_app_key (ga_membership a); members = map snd (filter (\<lambda>gt. app_of gt = Some key) assigned) in
          if length members < 2 then t # emit_groups assigned emitted rest
          else if key \<in> set emitted then emit_groups assigned emitted rest
          else make_app_group_lane (ga_membership a) members # emit_groups assigned (key # emitted) rest)"

definition apply_app_grouping :: "lane_tree list \<Rightarrow> app_membership_index \<Rightarrow> lane_tree list" where
  "apply_app_grouping lanes index =
     (let assigned = map (\<lambda>t. let g = cascade_root_membership (tree_lane t) index in (g, mark_member g t)) lanes
      in emit_groups assigned [] assigned)"

section \<open>The hierarchy of one resource\<close>

record root_resource =
  rr_kind :: string
  rr_group :: "string option"
  rr_namespace :: string
  rr_name :: string

fun lane_contains :: "lane_tree \<Rightarrow> string \<Rightarrow> bool" where
  \<comment> \<open>lanes are compared by id\<close>
  "lane_contains (LaneTree l cs) i = list_ex (\<lambda>c. rl_id (tree_lane c) = i \<or> lane_contains c i) cs"

definition root_lane_id :: "lane_identities \<Rightarrow> hierarchy \<Rightarrow> root_resource \<Rightarrow> string" where
  "root_lane_id ids h root =
     (case canonical_resource_group (rr_kind root) (rr_group root) of
        Some grp \<Rightarrow> lane_id (rr_kind root) (Some grp) (rr_namespace root) (rr_name root)
      | None \<Rightarrow> resolve_id ids h (lane_resource_key (rr_kind root) (rr_namespace root) (rr_name root)))"

definition find_lane :: "string \<Rightarrow> lane_tree list \<Rightarrow> lane_tree option" where
  "find_lane i lanes = List.find (\<lambda>t. rl_id (tree_lane t) = i) lanes"

definition placeholder_lane :: "root_resource \<Rightarrow> string \<Rightarrow> lane_tree" where
  "placeholder_lane root i =
     LaneTree ((new_lane i (rr_kind root) (Some (case parse_lane_id i of None \<Rightarrow> [] | Some p \<Rightarrow> ln_group p))
       (canonical_resource_group (rr_kind root) (rr_group root) \<noteq> None) False (rr_namespace root) (rr_name root) [])
       \<lparr>rl_all_events := Some []\<rparr>) []"

definition pick_root_lane ::
  "(string \<Rightarrow> int option) \<Rightarrow> lane_identities \<Rightarrow> hierarchy \<Rightarrow> lane_tree list \<Rightarrow> root_resource \<Rightarrow> lane_tree" where
  "pick_root_lane date_parse ids h lanes root =
     (let i = root_lane_id ids h root;
          standalone = with_rolled_up_events (sort_lane_children_deep date_parse (tree_at h i))
      in case find_lane i lanes of
           Some t \<Rightarrow> t
         | None \<Rightarrow>
             case List.find (\<lambda>t. list_ex (\<lambda>c. rl_id (tree_lane c) = i) (tree_children t)) lanes of
               Some t \<Rightarrow> t
             | None \<Rightarrow>
                 if \<not> has_lane h i then placeholder_lane root i
                 else case map_of (hi_parent h) i of
                        None \<Rightarrow> standalone
                      | Some p \<Rightarrow> coalesce (coalesce_opt (find_lane p lanes) (find_lane (find_root h [] i) lanes)) standalone)"

definition adopt_lanes :: "(string \<Rightarrow> int option) \<Rightarrow> lane_tree list \<Rightarrow> lane_tree \<Rightarrow> lane_tree" where
  "adopt_lanes date_parse lanes root =
     (let i = rl_id (tree_lane root);
          adopted = filter (\<lambda>t. rl_id (tree_lane t) \<noteq> i \<and> \<not> lane_contains t i) lanes
      in if adopted = [] then root
         else with_rolled_up_events (sort_lane_children_deep date_parse
                (LaneTree ((tree_lane root)\<lparr>rl_child_event_count := rl_child_event_count (tree_lane root)
                     + (\<Sum>t\<leftarrow>adopted. length (rl_events (tree_lane t)))\<rparr>)
                   (tree_children root @ adopted))))"

section \<open>\<open>buildResourceHierarchy\<close>\<close>

record hierarchy_options =
  ho_events :: "timeline_event list"
  ho_topology :: "topology option"
  ho_root :: "root_resource option"
  ho_scoped_to_root :: bool
  ho_group_by_app :: "bool option"
  ho_grouping :: "timeline_grouping option"
  ho_app_index :: "app_membership_index option"

definition grouping_of :: "hierarchy_options \<Rightarrow> timeline_grouping" where
  "grouping_of opts = coalesce (ho_grouping opts) (if ho_group_by_app opts = Some False then GroupOwner else GroupApp)"

definition linked_hierarchy :: "hierarchy_options \<Rightarrow> hierarchy" where
  "linked_hierarchy opts =
     (let ids = lane_identities_of (ho_topology opts) (ho_events opts); grouping = grouping_of opts;
          h = lanes_from_events ids (ho_events opts)
      in if grouping = GroupFlat then h
         else parents_from_contracts
                (parents_from_labels ids grouping (ho_app_index opts) (ho_topology opts)
                  (parents_from_edges ids grouping (ho_app_index opts) (ho_topology opts)
                    (parents_from_owners ids h))))"

definition build_resource_hierarchy :: "(string \<Rightarrow> int option) \<Rightarrow> hierarchy_options \<Rightarrow> lane_tree list" where
  "build_resource_hierarchy date_parse opts =
     (let ids = lane_identities_of (ho_topology opts) (ho_events opts); h = linked_hierarchy opts;
          lanes = top_level_lanes date_parse h
      in case ho_root opts of
           None \<Rightarrow> (case ho_app_index opts of
               Some index \<Rightarrow> if grouping_of opts = GroupApp then apply_app_grouping lanes index else lanes
             | None \<Rightarrow> lanes)
         | Some root \<Rightarrow>
             let t = pick_root_lane date_parse ids h lanes root in
             [if ho_scoped_to_root opts then adopt_lanes date_parse lanes t else t])"

section \<open>Reading a hierarchy\<close>

definition lane_track_events :: "lane_tree \<Rightarrow> bool \<Rightarrow> timeline_event list" where
  "lane_track_events t expanded =
     (if tree_children t \<noteq> [] \<and> \<not> expanded then coalesce (rl_all_events (tree_lane t)) (subtree_events t)
      else rl_events (tree_lane t))"

definition event_in_range :: "(string \<Rightarrow> int option) \<Rightarrow> int \<Rightarrow> int \<Rightarrow> timeline_event \<Rightarrow> bool" where
  "event_in_range date_parse start_ms end_ms e =
     (case date_parse (ev_timestamp e) of None \<Rightarrow> False | Some t \<Rightarrow> start_ms \<le> t \<and> t \<le> end_ms)"

definition lane_has_event_in_window :: "(string \<Rightarrow> int option) \<Rightarrow> lane_tree \<Rightarrow> int \<Rightarrow> int \<Rightarrow> bool" where
  "lane_has_event_in_window date_parse t start_ms end_ms =
     list_ex (event_in_range date_parse start_ms end_ms) (coalesce (rl_all_events (tree_lane t)) (tree_events t))"

definition is_child_visible_in_window :: "(string \<Rightarrow> int option) \<Rightarrow> lane_tree \<Rightarrow> int \<Rightarrow> int \<Rightarrow> bool \<Rightarrow> bool \<Rightarrow> bool" where
  "is_child_visible_in_window date_parse t start_ms end_ms pinned user_expanded \<longleftrightarrow>
     pinned \<or> user_expanded \<or> rl_structural_member (tree_lane t) \<or> lane_has_event_in_window date_parse t start_ms end_ms"

definition get_all_events_from_hierarchy :: "(string \<Rightarrow> int option) \<Rightarrow> lane_tree list \<Rightarrow> timeline_event list" where
  "get_all_events_from_hierarchy date_parse lanes =
     js_sort (compare_time_desc date_parse) (dedupe_by_id (concat (map tree_events lanes)))"

definition count_events_in_hierarchy :: "lane_tree list \<Rightarrow> nat" where
  "count_events_in_hierarchy lanes = (\<Sum>t\<leftarrow>lanes. length (tree_events t))"

definition compare_app_events :: "(string \<Rightarrow> int option) \<Rightarrow> (string \<Rightarrow> string \<Rightarrow> int) \<Rightarrow> timeline_event \<Rightarrow> timeline_event \<Rightarrow> int" where
  "compare_app_events date_parse locale_compare a b =
     (let by_seq = int (coalesce (ev_seq b) 0) - int (coalesce (ev_seq a) 0);
          rest = (if by_seq \<noteq> 0 then by_seq else locale_compare (ev_id a) (ev_id b))
      in case (date_parse (ev_timestamp a), date_parse (ev_timestamp b)) of
           (Some ta, Some tb) \<Rightarrow> if tb - ta \<noteq> 0 then tb - ta else rest
         | _ \<Rightarrow> rest)"

definition events_for_application ::
  "(string \<Rightarrow> int option) \<Rightarrow> (string \<Rightarrow> string \<Rightarrow> int) \<Rightarrow> timeline_event list \<Rightarrow> topology option \<Rightarrow> app_membership_index \<Rightarrow> timeline_event list" where
  "events_for_application date_parse locale_compare events t index =
     (let roots = build_resource_hierarchy date_parse \<lparr>ho_events = events, ho_topology = t, ho_root = None, ho_scoped_to_root = False,
            ho_group_by_app = None, ho_grouping = Some GroupOwner, ho_app_index = None\<rparr>;
          matched = filter (\<lambda>l. cascade_root_membership (tree_lane l) index \<noteq> None) roots
      in js_sort (compare_app_events date_parse locale_compare) (dedupe_by_id (concat (map subtree_events matched))))"

end
