(* ===== verification/Grouped_Rows.thy ===== *)
theory Grouped_Rows
  imports Main "HOL-Library.Multiset"
begin

text \<open>
  The scheme by which two parts of the client fold a list into groups: an element whose key two elements
  share is shown in a group, at the place of the first of them; any other element is shown by itself.
  \<open>applyAppGrouping\<close> of the timeline and \<open>foldAppGroups\<close> of the application list both follow it.
\<close>

definition group_of :: "('e \<Rightarrow> 'k option) \<Rightarrow> 'e list \<Rightarrow> 'k \<Rightarrow> 'e list" where
  "group_of key all k = filter (\<lambda>e. key e = Some k) all"

definition is_group :: "('e \<Rightarrow> 'k option) \<Rightarrow> 'e list \<Rightarrow> 'k \<Rightarrow> bool" where
  "is_group key all k \<longleftrightarrow> \<not> length (group_of key all k) < 2"

definition shown_alone :: "('e \<Rightarrow> 'k option) \<Rightarrow> 'e list \<Rightarrow> 'e \<Rightarrow> bool" where
  "shown_alone key all e \<longleftrightarrow> (case key e of None \<Rightarrow> True | Some k \<Rightarrow> \<not> is_group key all k)"

fun grouped_rows :: "('e \<Rightarrow> 'k option) \<Rightarrow> 'e list \<Rightarrow> 'k list \<Rightarrow> 'e list \<Rightarrow> ('e + 'k) list" where
  "grouped_rows key all emitted [] = []"
| "grouped_rows key all emitted (e # rest) =
     (if shown_alone key all e then Inl e # grouped_rows key all emitted rest
      else if the (key e) \<in> set emitted then grouped_rows key all emitted rest
      else Inr (the (key e)) # grouped_rows key all (the (key e) # emitted) rest)"

definition row_members :: "('e \<Rightarrow> 'k option) \<Rightarrow> 'e list \<Rightarrow> 'e + 'k \<Rightarrow> 'e list" where
  "row_members key all r = (case r of Inl e \<Rightarrow> [e] | Inr k \<Rightarrow> group_of key all k)"

lemma row_members_simps [simp]: "row_members key all (Inl e) = [e]" "row_members key all (Inr k) = group_of key all k"
  by (simp_all add: row_members_def)

lemma in_group_of [simp]: "e \<in> set (group_of key all k) \<longleftrightarrow> e \<in> set all \<and> key e = Some k"
  by (auto simp: group_of_def)

lemma count_group_of: "count (mset (group_of key all k)) x = (if key x = Some k then count (mset all) x else 0)"
  by (simp add: group_of_def)

lemma not_alone: "\<not> shown_alone key all e \<longleftrightarrow> (\<exists>k. key e = Some k \<and> is_group key all k)"
  by (simp add: shown_alone_def split: option.split)

lemma count_grouped_rows:
  "count (mset (concat (map (row_members key all) (grouped_rows key all emitted rest)))) x
   = (if shown_alone key all x then count (mset rest) x
      else if the (key x) \<notin> set emitted \<and> key x \<in> key ` set rest then count (mset all) x else 0)"
proof (induction rest arbitrary: emitted)
  case (Cons e rest)
  show ?case
  proof (cases "shown_alone key all e")
    case True
    then have "key x \<noteq> key e" if "\<not> shown_alone key all x" using that by (auto simp: shown_alone_def)
    with True Cons.IH [of emitted] show ?thesis by auto
  next
    case False
    then obtain k where k: "key e = Some k" "is_group key all k" by (auto simp: not_alone)
    have same: "key x = Some k \<Longrightarrow> \<not> shown_alone key all x" using k(2) by (simp add: shown_alone_def)
    have alone: "shown_alone key all x \<Longrightarrow> x \<noteq> e" using False by auto
    have other: "\<not> shown_alone key all x \<Longrightarrow> key x \<noteq> Some k \<Longrightarrow> the (key x) \<noteq> k" by (auto simp: not_alone)
    show ?thesis
      using False k(1) same alone other Cons.IH [of emitted] Cons.IH [of "k # emitted"]
      by (cases "shown_alone key all x"; cases "key x = Some k") (auto simp: count_group_of)
  qed
qed simp

theorem grouped_rows_partition: "mset (concat (map (row_members key all) (grouped_rows key all [] all))) = mset all"
proof (rule multiset_eqI)
  fix x
  show "count (mset (concat (map (row_members key all) (grouped_rows key all [] all)))) x = count (mset all) x"
    unfolding count_grouped_rows by (auto simp: count_mset_0_iff)
qed

lemma grouped_rows_sound:
  assumes "r \<in> set (grouped_rows key all emitted rest)"
  shows "(\<exists>e \<in> set rest. r = Inl e \<and> shown_alone key all e)
    \<or> (\<exists>e \<in> set rest. \<exists>k. r = Inr k \<and> key e = Some k \<and> is_group key all k \<and> k \<notin> set emitted)"
  using assms
proof (induction rest arbitrary: emitted)
  case (Cons e rest)
  then show ?case by (cases "shown_alone key all e"; cases "the (key e) \<in> set emitted") (fastforce simp: not_alone)+
qed simp

lemma grouped_rows_distinct: "Inr k \<notin> set (grouped_rows key all (k # emitted) rest)"
  using grouped_rows_sound [of "Inr k" key all "k # emitted" rest] by auto

lemma grouped_rows_once: "count (mset (grouped_rows key all emitted rest)) (Inr k) \<le> 1"
proof (induction rest arbitrary: emitted)
  case (Cons e rest)
  have "count (mset (grouped_rows key all (k # emitted) rest)) (Inr k) = 0"
    using grouped_rows_distinct [of k key all emitted rest] by (simp add: count_mset_0_iff)
  with Cons.IH show ?case by auto
qed simp

text \<open>A function that follows the scheme, whatever it shows for an element or a group.\<close>

locale grouped_fold =
  fixes f :: "'k list \<Rightarrow> 'e list \<Rightarrow> 'r list" and key :: "'e \<Rightarrow> 'k option" and all :: "'e list"
    and single :: "'e \<Rightarrow> 'r" and header :: "'e \<Rightarrow> 'k \<Rightarrow> 'r list"
  assumes fold_nil: "f emitted [] = []"
    and fold_cons: "f emitted (e # rest) =
      (case key e of
         None \<Rightarrow> single e # f emitted rest
       | Some k \<Rightarrow>
           if length (group_of key all k) < 2 then single e # f emitted rest
           else if k \<in> set emitted then f emitted rest
           else header e k @ f (k # emitted) rest)"
begin

definition shown :: "('e + 'k) \<times> 'e \<Rightarrow> 'r list" where
  "shown re = (case re of (Inl x, e) \<Rightarrow> [single x] | (Inr k, e) \<Rightarrow> header e k)"

definition led_by :: "'e list \<Rightarrow> ('e + 'k) \<times> 'e \<Rightarrow> bool" where
  "led_by rest re \<longleftrightarrow> (case re of (Inl x, e) \<Rightarrow> True | (Inr k, e) \<Rightarrow> e \<in> set rest \<and> key e = Some k)"

lemma shown_simps [simp]: "shown (Inl x, e) = [single x]" "shown (Inr k, e) = header e k"
  by (simp_all add: shown_def)

lemma led_by_simps [simp]: "led_by rest (Inl x, e)" "led_by rest (Inr k, e) \<longleftrightarrow> e \<in> set rest \<and> key e = Some k"
  by (simp_all add: led_by_def)

lemma led_by_mono: "\<forall>re \<in> set rows. led_by rest re \<Longrightarrow> \<forall>re \<in> set rows. led_by (e # rest) re"
  by (auto simp: led_by_def split: prod.splits sum.splits)

lemma render:
  "\<exists>rows. f emitted rest = concat (map shown rows) \<and> map fst rows = grouped_rows key all emitted rest
     \<and> (\<forall>re \<in> set rows. led_by rest re)"
proof (induction rest arbitrary: emitted)
  case Nil
  then show ?case by (simp add: fold_nil)
next
  case (Cons e rest)
  show ?case
  proof (cases "shown_alone key all e")
    case True
    then have f: "f emitted (e # rest) = single e # f emitted rest"
      by (auto simp: fold_cons shown_alone_def is_group_def split: option.splits)
    obtain rows where rows: "f emitted rest = concat (map shown rows)" "map fst rows = grouped_rows key all emitted rest"
      "\<forall>re \<in> set rows. led_by rest re" using Cons.IH by blast
    with True f led_by_mono [OF rows(3)] show ?thesis
      by (intro exI [of _ "(Inl e, e) # rows"]) simp
  next
    case False
    then obtain k where k: "key e = Some k" "\<not> length (group_of key all k) < 2" by (auto simp: not_alone is_group_def)
    obtain rows where rows: "f (if k \<in> set emitted then emitted else k # emitted) rest = concat (map shown rows)"
        "map fst rows = grouped_rows key all (if k \<in> set emitted then emitted else k # emitted) rest"
        "\<forall>re \<in> set rows. led_by rest re" using Cons.IH by blast
    show ?thesis
    proof (cases "k \<in> set emitted")
      case True
      with False k rows led_by_mono [OF rows(3)] show ?thesis by (intro exI [of _ rows]) (simp add: fold_cons)
    next
      case notin: False
      with False k rows led_by_mono [OF rows(3)] show ?thesis
        by (intro exI [of _ "(Inr k, e) # rows"]) (simp add: fold_cons)
    qed
  qed
qed

lemma fold_total:
  fixes w :: "'r \<Rightarrow> 'b :: comm_monoid_add"
  assumes "\<And>e. w (single e) = v e"
    and "\<And>e k. key e = Some k \<Longrightarrow> (\<Sum>r\<leftarrow>header e k. w r) = (\<Sum>m\<leftarrow>group_of key all k. v m)"
  shows "(\<Sum>r\<leftarrow>f [] all. w r) = (\<Sum>e\<leftarrow>all. v e)"
proof -
  obtain rows where rows: "f [] all = concat (map shown rows)" "map fst rows = grouped_rows key all [] all"
    "\<forall>re \<in> set rows. led_by all re" using render by blast
  have total: "(\<Sum>r\<leftarrow>concat (map shown rows). w r) = (\<Sum>e\<leftarrow>concat (map (row_members key all) (map fst rows)). v e)"
    if "\<forall>re \<in> set rows. led_by all re" for rows
    using that
  proof (induction rows)
    case (Cons re rows)
    then show ?case by (cases re; cases "fst re") (auto simp: assms)
  qed simp
  have as_multiset: "(\<Sum>e\<leftarrow>es. v e) = sum_mset (image_mset v (mset es))" for es
    by (simp add: sum_mset_sum_list flip: mset_map)
  show ?thesis unfolding rows(1) total [OF rows(3)] rows(2) as_multiset grouped_rows_partition ..
qed

lemma fold_elem:
  assumes "r \<in> set (f emitted rest)"
  shows "(\<exists>e \<in> set rest. r = single e \<and> shown_alone key all e)
    \<or> (\<exists>e \<in> set rest. \<exists>k. key e = Some k \<and> is_group key all k \<and> r \<in> set (header e k))"
proof -
  obtain rows where rows: "f emitted rest = concat (map shown rows)" "map fst rows = grouped_rows key all emitted rest"
    "\<forall>re \<in> set rows. led_by rest re" using render by blast
  then obtain re where re: "re \<in> set rows" "r \<in> set (shown re)" using assms by auto
  then have "fst re \<in> set (grouped_rows key all emitted rest)" by (simp flip: rows(2))
  from grouped_rows_sound [OF this] show ?thesis using re rows(3) by (cases re; cases "fst re") auto
qed

lemma fold_keys_distinct:
  assumes "\<And>e. ks (single e) = []" and "\<And>e k. concat (map ks (header e k)) = [k]"
  shows "distinct (concat (map ks (f emitted rest)))"
proof -
  obtain rows where rows: "f emitted rest = concat (map shown rows)" "map fst rows = grouped_rows key all emitted rest"
    using render by blast
  have "concat (map ks (concat (map shown rows))) = concat (map (case_sum (\<lambda>e. []) (\<lambda>k. [k])) (map fst rows))"
  proof (induction rows)
    case (Cons re rows)
    then show ?case by (cases re; cases "fst re") (simp_all add: assms)
  qed simp
  moreover have "distinct (concat (map (case_sum (\<lambda>e. []) (\<lambda>k. [k])) (grouped_rows key all emitted rest)))"
  proof (induction rest arbitrary: emitted)
    case (Cons e rest)
    have "the (key e) \<notin> set (concat (map (case_sum (\<lambda>e. []) (\<lambda>k. [k])) (grouped_rows key all (the (key e) # emitted) rest)))"
      using grouped_rows_distinct [of "the (key e)" key all emitted rest] by (auto split: sum.splits)
    with Cons.IH show ?case by simp
  qed simp
  ultimately show ?thesis by (simp add: rows)
qed

end

end
