(* ===== verification/Hierarchy_Events.thy ===== *)
theory Hierarchy_Events
  imports Resource_Hierarchy Grouped_Rows
begin

text \<open>
  What the timeline's hierarchy keeps: every event finds a lane, every lane a place in the tree, the
  grouping by application and the view of one resource included, and the rows of the view show each event
  once. The summing over the tree is that of \<open>parent_forest\<close>, interpreted for the code's links in
  \<open>Resource_Hierarchy\<close>.
\<close>

section \<open>No event is lost on the way to its lane\<close>

definition hierarchy_events :: "hierarchy \<Rightarrow> timeline_event multiset" where
  "hierarchy_events h = mset (concat (map (rl_events \<circ> snd) (hi_lanes h)))"

definition plain_ref :: "string \<Rightarrow> string \<Rightarrow> bool" where
  \<comment> \<open>a kind and a namespace as Kubernetes names them\<close>
  "plain_ref kind ns \<longleftrightarrow> CHR ''/'' \<notin> set kind \<and> CHR ''.'' \<notin> set kind \<and> CHR ''/'' \<notin> set ns"

definition plain_event :: "timeline_event \<Rightarrow> bool" where
  "plain_event e \<longleftrightarrow> plain_ref (ev_kind e) (ev_namespace e)
     \<and> (case ev_owner e of None \<Rightarrow> True | Some ow \<Rightarrow> plain_ref (ow_kind ow) (ev_namespace e))"

definition lane_entry_ok :: "hierarchy \<Rightarrow> string \<Rightarrow> bool" where
  \<comment> \<open>the id is that of a plain resource whose key is registered\<close>
  "lane_entry_ok h i \<longleftrightarrow>
     (\<exists>kind grp ns name. plain_ref kind ns \<and> CHR ''/'' \<notin> set grp \<and> i = lane_id kind (Some grp) ns name
        \<and> map_of (hi_id_by_key h) (lane_resource_key kind ns name) \<noteq> None)"

definition lanes_ok :: "hierarchy \<Rightarrow> bool" where
  "lanes_ok h \<longleftrightarrow> distinct (map fst (hi_lanes h))
     \<and> (\<forall>(i, l) \<in> set (hi_lanes h). rl_id l = i \<and> CHR ''/'' \<notin> set (rl_namespace l) \<and> rl_all_events l = None)"

definition keys_ok :: "hierarchy \<Rightarrow> bool" where
  "keys_ok h \<longleftrightarrow> (\<forall>rk i. map_of (hi_id_by_key h) rk = Some i \<longrightarrow> has_lane h i) \<and> (\<forall>i. has_lane h i \<longrightarrow> lane_entry_ok h i)"

definition groups_plain :: "lane_identities \<Rightarrow> bool" where
  "groups_plain ids \<longleftrightarrow> (\<forall>rk g. map_of (id_group_by_key ids) rk = Some g \<longrightarrow> CHR ''/'' \<notin> set g)"

lemma has_lane_iff: "has_lane h i \<longleftrightarrow> i \<in> fst ` set (hi_lanes h)"
  by (simp add: has_lane_def map_of_eq_None_iff)

lemma update_absent: "map_of m k = None \<Longrightarrow> AList.update k v m = m @ [(k, v)]"
  by (induction m) (auto split: if_splits)

lemma add_lane_lanes:
  "\<not> has_lane h (rl_id lane) \<Longrightarrow> hi_lanes (add_lane rk lane h) = hi_lanes h @ [(rl_id lane, lane)]"
  by (simp add: add_lane_def has_lane_def update_absent)

lemma add_lane_fields [simp]:
  "hi_parent (add_lane rk lane h) = hi_parent h"
  "hi_id_by_key (add_lane rk lane h) = register_lane_key rk (rl_id lane) (hi_id_by_key h)"
  by (simp_all add: add_lane_def)

lemma register_lookup:
  "map_of (register_lane_key rk i m) k = (if k = rk \<and> map_of m rk = None then Some i else map_of m k)"
  by (simp add: register_lane_key_def update_conv')

lemma has_lane_add: "\<not> has_lane h (rl_id lane) \<Longrightarrow> has_lane (add_lane rk lane h) i \<longleftrightarrow> i = rl_id lane \<or> has_lane h i"
  by (auto simp: has_lane_iff add_lane_lanes)

lemma update_lane_fields [simp]:
  "hi_parent (update_lane i f h) = hi_parent h" "hi_id_by_key (update_lane i f h) = hi_id_by_key h"
  "map fst (hi_lanes (update_lane i f h)) = map fst (hi_lanes h)"
  by (simp_all add: update_lane_def comp_def case_prod_unfold)

lemma has_lane_update [simp]: "has_lane (update_lane i f h) j \<longleftrightarrow> has_lane h j"
  unfolding has_lane_iff using update_lane_fields(3) [of i f h] by (metis set_map)

lemma lanes_ok_add:
  "lanes_ok h \<Longrightarrow> \<not> has_lane h (rl_id lane) \<Longrightarrow> CHR ''/'' \<notin> set (rl_namespace lane)
   \<Longrightarrow> rl_all_events lane = None \<Longrightarrow> lanes_ok (add_lane rk lane h)"
  by (auto simp: lanes_ok_def add_lane_lanes has_lane_iff)

lemma lanes_ok_update:
  "lanes_ok h \<Longrightarrow> (\<And>l. rl_id (f l) = rl_id l) \<Longrightarrow> (\<And>l. rl_namespace (f l) = rl_namespace l)
   \<Longrightarrow> (\<And>l. rl_all_events (f l) = rl_all_events l) \<Longrightarrow> lanes_ok (update_lane i f h)"
  unfolding lanes_ok_def update_lane_fields(3) by (auto simp: update_lane_def split: if_splits)

lemma lane_entry_ok_mono:
  "lane_entry_ok h i \<Longrightarrow> (\<And>k. map_of (hi_id_by_key h) k \<noteq> None \<Longrightarrow> map_of (hi_id_by_key h') k \<noteq> None) \<Longrightarrow> lane_entry_ok h' i"
  unfolding lane_entry_ok_def by blast

lemma keys_ok_add:
  assumes "keys_ok h" "\<not> has_lane h (rl_id lane)" "plain_ref kind ns" "CHR ''/'' \<notin> set grp"
    "rl_id lane = lane_id kind (Some grp) ns name" "rk = lane_resource_key kind ns name"
  shows "keys_ok (add_lane rk lane h)"
proof -
  have "lane_entry_ok (add_lane rk lane h) (rl_id lane)"
    unfolding lane_entry_ok_def using assms(3-6) by (intro exI conjI) (auto simp: register_lookup)
  moreover have "lane_entry_ok (add_lane rk lane h) i" if "has_lane h i" for i
    using assms(1) that by (auto simp: keys_ok_def register_lookup intro: lane_entry_ok_mono)
  ultimately show ?thesis
    using assms(1,2) by (auto simp: keys_ok_def has_lane_add register_lookup split: if_splits)
qed

lemma keys_ok_update: "keys_ok h \<Longrightarrow> keys_ok (update_lane i f h)"
  unfolding keys_ok_def by (auto intro: lane_entry_ok_mono)

lemma events_add: "\<not> has_lane h (rl_id lane) \<Longrightarrow> hierarchy_events (add_lane rk lane h) = hierarchy_events h + mset (rl_events lane)"
  by (simp add: hierarchy_events_def add_lane_lanes)

lemma events_update:
  assumes "lanes_ok h" "has_lane h i" "\<And>l. mset (rl_events (f l)) = mset (rl_events l) + d"
  shows "hierarchy_events (update_lane i f h) = hierarchy_events h + d"
proof -
  have "mset (concat (map (rl_events \<circ> snd) (map (\<lambda>(k, l). (k, if k = i then f l else l)) xs)))
      = mset (concat (map (rl_events \<circ> snd) xs)) + (if i \<in> fst ` set xs then d else {#})"
    if "distinct (map fst xs)" for xs
    using that by (induction xs) (auto simp: assms(3), force)
  from this [of "hi_lanes h"] assms(1,2) show ?thesis
    by (simp add: hierarchy_events_def update_lane_def lanes_ok_def has_lane_iff)
qed

lemma events_same_events: "(\<And>l. rl_events (f l) = rl_events l) \<Longrightarrow> hierarchy_events (update_lane i f h) = hierarchy_events h"
  unfolding hierarchy_events_def update_lane_def by (simp add: comp_def case_prod_unfold if_distrib cong: if_cong)

lemma set_parent_fields [simp]:
  "hi_lanes (set_parent i p h) = hi_lanes h" "hi_id_by_key (set_parent i p h) = hi_id_by_key h"
  "hierarchy_events (set_parent i p h) = hierarchy_events h" "has_lane (set_parent i p h) j = has_lane h j"
  "lanes_ok (set_parent i p h) = lanes_ok h" "keys_ok (set_parent i p h) = keys_ok h"
  by (simp_all add: set_parent_def hierarchy_events_def has_lane_def lanes_ok_def keys_ok_def lane_entry_ok_def)

lemma parsed_lane_id:
  assumes "plain_ref kind ns" "CHR ''/'' \<notin> set grp"
  shows "parsed (lane_id kind (Some grp) ns name) =
    \<lparr>ln_kind = kind, ln_group = (if group_qualifies_lane_id (Some grp) then grp else []), ln_namespace = ns, ln_name = name\<rparr>"
proof (cases "group_qualifies_lane_id (Some grp)")
  case True
  have "CHR ''/'' \<notin> set (kind @ CHR ''.'' # grp)" using assms by (simp add: plain_ref_def)
  from parse_lane_segments [OF this, of ns name] assms True show ?thesis
    by (simp add: parsed_def lane_id_def plain_ref_def)
next
  case False
  with assms show ?thesis by (simp add: parsed_def lane_id_def plain_ref_def parse_lane_segments)
qed

lemma lane_id_plain: "lane_id kind (Some []) ns name = lane_resource_key kind ns name"
  by (simp add: lane_id_def lane_resource_key_def group_qualifies_lane_id_def)

lemma parsed_key: "plain_ref kind ns \<Longrightarrow> parsed (lane_resource_key kind ns name) = \<lparr>ln_kind = kind, ln_group = [], ln_namespace = ns, ln_name = name\<rparr>"
  using parsed_lane_id [of kind ns "[]" name] by (simp add: lane_id_plain group_qualifies_lane_id_def)

lemma ambiguous_slash_free: "CHR ''/'' \<notin> set ambiguous_group"
  by (simp add: ambiguous_group_def)

lemma before_char_free: "c \<notin> set (before_char c s)"
  by (auto simp: before_char_def dest: set_takeWhileD)

lemma parsed_group_slash_free: "CHR ''/'' \<notin> set (ln_group (parsed i))"
proof -
  have "CHR ''/'' \<notin> set (after_char c (before_char CHR ''/'' i))" for c
    using before_char_free [of "CHR ''/''" i] by (auto simp: after_char_def dest!: in_set_dropD set_dropWhileD)
  then show ?thesis by (simp add: parsed_def parse_lane_id_def Let_def)
qed

lemma parsed_namespace_slash_free: "CHR ''/'' \<notin> set (ln_namespace (parsed i))"
  by (simp add: parsed_def parse_lane_id_def Let_def before_char_free)

lemma event_group_slash_free: "CHR ''/'' \<notin> set (event_group e)"
  by (simp add: event_group_def api_version_to_group_def Let_def before_char_free)

definition slash_free_groups :: "identity_groups \<Rightarrow> bool" where
  "slash_free_groups m \<longleftrightarrow> (\<forall>(rk, gs) \<in> set m. \<forall>g \<in> set gs. CHR ''/'' \<notin> set g)"

lemma add_group_slash_free:
  assumes "slash_free_groups m" "CHR ''/'' \<notin> set grp"
  shows "slash_free_groups (add_group k grp m)"
proof -
  have "\<forall>g \<in> set (set_add grp (coalesce (map_of m k) [])). CHR ''/'' \<notin> set g"
    using assms by (cases "map_of m k") (auto simp: slash_free_groups_def dest!: map_of_SomeD)
  then show ?thesis
    unfolding add_group_def slash_free_groups_def using update_set_subset assms(1)[unfolded slash_free_groups_def] by fast
qed

lemma groups_plain_identities: "groups_plain (lane_identities_of t events)"
proof -
  have "slash_free_groups (identity_groups_of t events)"
    unfolding identity_groups_of_def
  proof (rule fold_invariant)
    show "slash_free_groups (add_event_group e m)" if "slash_free_groups m" for e m
      using that by (simp add: add_event_group_def add_group_slash_free event_group_slash_free)
    show "slash_free_groups (fold (\<lambda>n. add_group (key_of_lane_id (topology_node_lane_id n)) (ln_group (parsed (topology_node_lane_id n)))) (topology_nodes t) [])"
      by (rule fold_invariant) (simp_all add: add_group_slash_free parsed_group_slash_free slash_free_groups_def [of "[]"])
  qed
  then show ?thesis
    by (fastforce simp: groups_plain_def slash_free_groups_def lane_identities_of_def Let_def List.map_filter_def
        dest!: map_of_SomeD split: list.splits)
qed

lemma fallback_slash_free: "groups_plain ids \<Longrightarrow> CHR ''/'' \<notin> set (fallback_group ids rk)"
  by (cases "map_of (id_group_by_key ids) rk") (auto simp: fallback_group_def groups_plain_def ambiguous_slash_free)

definition hier_ok :: "hierarchy \<Rightarrow> bool" where
  "hier_ok h \<longleftrightarrow> lanes_ok h \<and> keys_ok h"

lemma place_event_ok:
  assumes "hier_ok h" "groups_plain ids" "plain_ref (ev_kind e) (ev_namespace e)"
  shows "hier_ok (place_event ids e h) \<and> hierarchy_events (place_event ids e h) = hierarchy_events h + {#e#}"
proof (cases "map_of (hi_lanes h) (event_lane_id ids h e)")
  case (Some l)
  then have "has_lane h (event_lane_id ids h e)" by (simp add: has_lane_def)
  then have "hierarchy_events (update_lane (event_lane_id ids h e) (\<lambda>l. push_event e (f l)) h) = hierarchy_events h + {#e#}"
    if "\<And>l. rl_events (f l) = rl_events l" for f
    using assms(1) that by (intro events_update) (simp_all add: hier_ok_def push_event_def)
  with Some assms(1) show ?thesis
    by (simp add: place_event_def Let_def hier_ok_def lanes_ok_update keys_ok_update) (simp add: lanes_ok_update push_event_def)
next
  case None
  then have new: "\<not> has_lane h (event_lane_id ids h e)" by (simp add: has_lane_def)
  have "\<exists>grp. CHR ''/'' \<notin> set grp \<and> event_lane_id ids h e = lane_id (ev_kind e) (Some grp) (ev_namespace e) (ev_name e)"
  proof (cases "truthy_str (ev_api_version e) \<or> group_qualifies_lane_id (Some (event_lane_group ids e))")
    case True
    then show ?thesis
      using event_group_slash_free fallback_slash_free [OF assms(2)]
      by (intro exI [of _ "event_lane_group ids e"]) (auto simp: event_lane_id_def event_lane_group_def)
  next
    case False
    have "map_of (hi_id_by_key h) (event_key e) \<noteq> Some (event_lane_id ids h e)"
      using new assms(1) by (auto simp: hier_ok_def keys_ok_def)
    with False have "event_lane_id ids h e = event_key e"
      by (cases "map_of (hi_id_by_key h) (event_key e)") (auto simp: event_lane_id_def split: if_splits)
    then show ?thesis by (intro exI [of _ "[]"]) (simp add: lane_id_plain event_key_def)
  qed
  then obtain grp where grp: "CHR ''/'' \<notin> set grp"
    "event_lane_id ids h e = lane_id (ev_kind e) (Some grp) (ev_namespace e) (ev_name e)" by blast
  have "keys_ok (add_lane (event_key e) l h)" if "rl_id l = event_lane_id ids h e" for l
    using assms(1) new that grp(2)
    by (intro keys_ok_add [OF _ _ assms(3) grp(1)]) (simp_all add: hier_ok_def event_key_def)
  with new None assms(1,3) show ?thesis
    by (simp add: place_event_def Let_def hier_ok_def new_lane_def events_add lanes_ok_add plain_ref_def)
qed

definition seed_events :: "timeline_event option \<Rightarrow> timeline_event multiset" where
  "seed_events seed = (case seed of None \<Rightarrow> {#} | Some e \<Rightarrow> {#e#})"

lemma ref_lane_new:
  assumes "hier_ok h" "groups_plain ids" "plain_ref kind ns" "rk = lane_resource_key kind ns name"
    and "existing_ref_lane ids h rk = None"
  shows "\<not> has_lane h (ref_lane_id ids rk)"
proof (cases "rk \<in> set (id_ambiguous ids)")
  case True
  with assms(5) show ?thesis
    by (simp add: existing_ref_lane_def ref_lane_id_def ambiguous_lane_id_def fallback_group_def has_lane_def split: if_splits)
next
  case False
  show ?thesis
  proof
    assume "has_lane h (ref_lane_id ids rk)"
    then obtain k g n' a where e: "plain_ref k n'" "CHR ''/'' \<notin> set g" "ref_lane_id ids rk = lane_id k (Some g) n' a"
      and reg: "map_of (hi_id_by_key h) (lane_resource_key k n' a) \<noteq> None"
      using assms(1) unfolding hier_ok_def keys_ok_def lane_entry_ok_def by blast
    have "ref_lane_id ids rk = lane_id kind (Some (fallback_group ids rk)) ns name"
      by (simp add: ref_lane_id_def assms(4) parsed_key [OF assms(3)])
    with e have "parsed (lane_id kind (Some (fallback_group ids rk)) ns name) = parsed (lane_id k (Some g) n' a)" by simp
    then have "kind = k \<and> ns = n' \<and> name = a"
      using parsed_lane_id [OF assms(3) fallback_slash_free [OF assms(2)]] parsed_lane_id [OF e(1,2)] by simp
    with reg assms(4,5) False show False by (simp add: existing_ref_lane_def)
  qed
qed

lemma existing_ref_has: "hier_ok h \<Longrightarrow> existing_ref_lane ids h rk = Some i \<Longrightarrow> has_lane h i"
  by (auto simp: existing_ref_lane_def hier_ok_def keys_ok_def has_lane_def split: if_splits)

lemma ensure_ref_lane_ok:
  assumes "hier_ok h" "groups_plain ids" "plain_ref kind ns" "rk = lane_resource_key kind ns name"
  shows "hier_ok (ensure_ref_lane ids rk seed h) \<and> hierarchy_events (ensure_ref_lane ids rk seed h) = hierarchy_events h + seed_events seed"
proof (cases "existing_ref_lane ids h rk")
  case (Some i)
  then have "has_lane h i" by (rule existing_ref_has [OF assms(1)])
  then have "hierarchy_events (update_lane i (push_event e) h) = hierarchy_events h + {#e#}" for e
    using assms(1) by (intro events_update) (simp_all add: hier_ok_def push_event_def)
  with Some assms(1) show ?thesis
    by (simp add: ensure_ref_lane_def seed_events_def hier_ok_def lanes_ok_update keys_ok_update push_event_def split: option.split)
next
  case None
  from ref_lane_new [OF assms None] have new: "\<not> has_lane h (ref_lane_id ids rk)" .
  have i: "ref_lane_id ids rk = lane_id kind (Some (fallback_group ids rk)) ns name"
    by (simp add: ref_lane_id_def assms(4) parsed_key [OF assms(3)])
  have "keys_ok (add_lane rk l h)" if "rl_id l = ref_lane_id ids rk" for l
    using assms(1) new that i by (intro keys_ok_add [OF _ _ assms(3) fallback_slash_free [OF assms(2)] _ assms(4)]) (simp_all add: hier_ok_def)
  with None new assms(1) show ?thesis
    by (simp add: ensure_ref_lane_def Let_def hier_ok_def lanes_ok_add events_add new_lane_def seed_events_def
        parsed_namespace_slash_free split: option.split)
qed

lemma attach_event_ok:
  assumes "hier_ok h" "groups_plain ids" "plain_event e" "ev_owner e \<noteq> None"
  shows "hier_ok (attach_event ids e h) \<and> hierarchy_events (attach_event ids e h) = hierarchy_events h + {#e#}"
  using assms ensure_ref_lane_ok [OF assms(1,2), where seed = "Some e"]
  by (auto simp: attach_event_def owner_key_def plain_event_def seed_events_def)

lemma fold_adds_events:
  assumes "\<And>x h. x \<in> set xs \<Longrightarrow> hier_ok h \<Longrightarrow> hier_ok (f x h) \<and> hierarchy_events (f x h) = hierarchy_events h + {#x#}" and "hier_ok h"
  shows "hier_ok (fold f xs h) \<and> hierarchy_events (fold f xs h) = hierarchy_events h + mset xs"
  using assms
proof (induction xs arbitrary: h)
  case (Cons x xs)
  from Cons.prems(1) [of x h] Cons.prems(2) Cons.IH [of "f x h"] Cons.prems(1) show ?case by auto
qed simp

lemma lanes_from_events_ok:
  assumes "\<forall>e \<in> set events. plain_event e" and "groups_plain ids"
  shows "hier_ok (lanes_from_events ids events) \<and> hierarchy_events (lanes_from_events ids events) = mset events"
proof -
  let ?placed = "fold (place_event ids) (filter (\<lambda>e. \<not> attaches_to_owner e) events) empty_hierarchy"
  have "hier_ok empty_hierarchy" "hierarchy_events empty_hierarchy = {#}"
    by (simp_all add: hier_ok_def lanes_ok_def keys_ok_def empty_hierarchy_def has_lane_def hierarchy_events_def)
  then have placed: "hier_ok ?placed \<and> hierarchy_events ?placed = mset (filter (\<lambda>e. \<not> attaches_to_owner e) events)"
    using assms fold_adds_events [of "filter (\<lambda>e. \<not> attaches_to_owner e) events" "place_event ids" empty_hierarchy] place_event_ok
    by (auto simp: plain_event_def)
  have attach: "hier_ok (attach_event ids e h) \<and> hierarchy_events (attach_event ids e h) = hierarchy_events h + {#e#}"
    if "e \<in> set (filter attaches_to_owner events)" "hier_ok h" for e h
    using that assms by (intro attach_event_ok) (auto simp: attaches_to_owner_def)
  have "hier_ok (lanes_from_events ids events) \<and> hierarchy_events (lanes_from_events ids events)
      = hierarchy_events ?placed + mset (filter attaches_to_owner events)"
    unfolding lanes_from_events_def using attach placed by (intro fold_adds_events) blast+
  moreover have "mset (filter (\<lambda>e. \<not> attaches_to_owner e) events) + mset (filter attaches_to_owner events) = mset events"
    by (metis add.commute mset_filter multiset_partition)
  ultimately show ?thesis using placed by simp
qed

text \<open>Adding parents moves no event and renames no lane.\<close>

definition keeps_events :: "(hierarchy \<Rightarrow> hierarchy) \<Rightarrow> bool" where
  "keeps_events f \<longleftrightarrow> (\<forall>h. lanes_ok h \<longrightarrow> lanes_ok (f h) \<and> hierarchy_events (f h) = hierarchy_events h)"

lemma keeps_comp: "keeps_events f \<Longrightarrow> keeps_events g \<Longrightarrow> keeps_events (\<lambda>h. f (g h))"
  by (simp add: keeps_events_def)

lemma keeps_set_parent: "keeps_events (set_parent i p)"
  by (simp add: keeps_events_def)

lemma keeps_topology_lane: "keeps_events (ensure_topology_lane i)"
  by (simp add: keeps_events_def ensure_topology_lane_def Let_def lanes_ok_add events_add new_lane_def has_lane_def
      parsed_namespace_slash_free)

lemma keepsD: "keeps_events f \<Longrightarrow> lanes_ok h \<Longrightarrow> lanes_ok (f h) \<and> hierarchy_events (f h) = hierarchy_events h"
  by (simp add: keeps_events_def)

lemma keeps_fold: "(\<And>x. x \<in> set xs \<Longrightarrow> keeps_events (f x)) \<Longrightarrow> keeps_events (fold f xs)"
  by (induction xs) (simp_all add: keeps_events_def)

lemma keeps_adopt: "keeps_events (\<lambda>h. set_parent c p (ensure_topology_lane q h))"
  by (rule keeps_comp [OF keeps_set_parent keeps_topology_lane])

lemma keeps_link: "keeps_events (link_lanes same child parent exists)"
  unfolding keeps_events_def link_lanes_def using keepsD [OF keeps_adopt] by simp

lemma keeps_manages: "keeps_events (manages_edge same source target)"
  unfolding keeps_events_def manages_edge_def Let_def using keepsD [OF keeps_adopt] by (simp split: option.split)

lemma keeps_edge: "keeps_events (parent_from_edge ids same nodes edge)"
  unfolding keeps_events_def parent_from_edge_def routes_edge_def Let_def
  using keepsD [OF keeps_link] keepsD [OF keeps_manages] by (simp split: option.split edge_type.split)

lemma keeps_edges: "keeps_events (parents_from_edges ids grouping index t)"
proof (cases t)
  case (Some g)
  have "parents_from_edges ids grouping index t =
      fold (parent_from_edge ids (same_app_members grouping index) (nodes_by_id (tp_nodes g))) (tp_edges g)"
    by (simp add: fun_eq_iff parents_from_edges_def Some)
  then show ?thesis by (simp add: keeps_fold keeps_edge)
qed (simp add: keeps_events_def parents_from_edges_def)

lemma keeps_label_group: "keeps_events (parent_label_group lane_ids)"
proof -
  have "keeps_events (fold (\<lambda>c h. if has_parent h c then h else set_parent c p h) cs)" for p cs
    by (rule keeps_fold) (simp add: keeps_events_def)
  then show ?thesis unfolding parent_label_group_def by (auto simp: keeps_events_def split: list.split)
qed

lemma keeps_labels: "keeps_events (parents_from_labels ids grouping index t)"
proof -
  have "keeps_events (fold (\<lambda>(k, lane_ids). parent_label_group lane_ids) gs)" for gs :: "(string \<times> string list) list"
    by (rule keeps_fold) (simp add: keeps_label_group case_prod_unfold)
  then show ?thesis by (simp add: keeps_events_def parents_from_labels_def split: option.split)
qed

lemma keeps_contract: "keeps_events (parent_from_contract i)"
  unfolding keeps_events_def parent_from_contract_def
  by (simp add: lanes_ok_update events_same_events split: option.split)

lemma keeps_contracts: "keeps_events parents_from_contracts"
proof -
  have "keeps_events (fold parent_from_contract is)" for "is" by (rule keeps_fold) (rule keeps_contract)
  then show ?thesis by (simp add: keeps_events_def parents_from_contracts_def)
qed

lemma first_owner_in: "first_owner events = Some ow \<Longrightarrow> \<exists>e \<in> set events. ev_owner e = Some ow"
  by (auto simp: first_owner_def bind_eq_Some_conv dest!: find_some_in)

lemma parent_from_owner_ok:
  assumes "hier_ok h" "groups_plain ids" "\<forall>e \<in> set (rl_events l). plain_event e" "CHR ''/'' \<notin> set (rl_namespace l)"
  shows "hier_ok (parent_from_owner ids (i, l) h) \<and> hierarchy_events (parent_from_owner ids (i, l) h) = hierarchy_events h"
proof (cases "first_owner (rl_events l)")
  case (Some ow)
  then obtain e where "e \<in> set (rl_events l)" "ev_owner e = Some ow" using first_owner_in by blast
  with assms(3,4) have "plain_ref (ow_kind ow) (rl_namespace l)" by (auto simp: plain_event_def plain_ref_def split: option.splits)
  from ensure_ref_lane_ok [OF assms(1,2) this, of "owner_key (rl_namespace l) ow" "ow_name ow" None] Some assms(1)
  show ?thesis by (simp add: parent_from_owner_def Let_def owner_key_def seed_events_def hier_ok_def)
qed (simp add: parent_from_owner_def assms(1))

lemma parents_from_owners_ok:
  assumes "hier_ok h" "groups_plain ids" "\<forall>e \<in># hierarchy_events h. plain_event e"
  shows "hier_ok (parents_from_owners ids h) \<and> hierarchy_events (parents_from_owners ids h) = hierarchy_events h"
proof -
  have "hier_ok (fold (parent_from_owner ids) xs h) \<and> hierarchy_events (fold (parent_from_owner ids) xs h) = hierarchy_events h"
    if "set xs \<subseteq> set (hi_lanes h)" for xs
    using that
  proof (induction xs rule: rev_induct)
    case (snoc x xs)
    obtain i l where x: "x = (i, l)" by (cases x)
    with snoc.prems have "(i, l) \<in> set (hi_lanes h)" by simp
    then have "\<forall>e \<in> set (rl_events l). plain_event e" "CHR ''/'' \<notin> set (rl_namespace l)"
      using assms(1,3) by (auto simp: hierarchy_events_def hier_ok_def lanes_ok_def)
    with snoc x assms(2) parent_from_owner_ok show ?case by simp
  qed (simp add: assms(1))
  then show ?thesis by (simp add: parents_from_owners_def)
qed

lemma linked_hierarchy_ok:
  assumes "\<forall>e \<in> set (ho_events opts). plain_event e"
  shows "lanes_ok (linked_hierarchy opts) \<and> hierarchy_events (linked_hierarchy opts) = mset (ho_events opts)"
proof -
  note groups = groups_plain_identities [of "ho_topology opts" "ho_events opts"]
  note made = lanes_from_events_ok [OF assms groups]
  note owned = parents_from_owners_ok [OF conjunct1 [OF made] groups]
  show ?thesis
    unfolding linked_hierarchy_def Let_def
    using made owned assms keepsD [OF keeps_edges] keepsD [OF keeps_labels] keepsD [OF keeps_contracts]
    by (simp add: hier_ok_def)
qed

section \<open>The tree holds every lane once\<close>

fun tree_lanes :: "lane_tree \<Rightarrow> resource_lane list" where
  "tree_lanes (LaneTree l cs) = l # concat (map tree_lanes cs)"

lemma tree_events_lanes: "tree_events t = concat (map rl_events (tree_lanes t))"
proof (induction t)
  case (LaneTree l cs)
  then have "concat (map tree_events cs) = concat (map rl_events (concat (map tree_lanes cs)))"
    by (induction cs) auto
  then show ?case by simp
qed

lemma lanes_of_sort: "mset (map f (tree_lanes (sort_lane_children_deep dp t))) = mset (map f (tree_lanes t))"
proof (induction t)
  case (LaneTree l cs)
  let ?g = "\<lambda>t. mset (map f (tree_lanes t))" and ?s = "sort_lane_children_deep dp"
  have flat: "mset (map f (concat (map tree_lanes ts))) = sum_mset (image_mset ?g (mset ts))" for ts
    by (induction ts) simp_all
  have "map ?g (map ?s cs) = map ?g cs" using LaneTree by simp
  then have "image_mset ?g (mset (map ?s cs)) = image_mset ?g (mset cs)" by (metis mset_map)
  then show ?case using flat [of cs] flat [of "js_sort (compare_children dp) (map ?s cs)"] by simp
qed

lemma lanes_of_rolled_up: "(\<And>l x. f (l\<lparr>rl_all_events := x\<rparr>) = f l) \<Longrightarrow> map f (tree_lanes (with_rolled_up_events t)) = map f (tree_lanes t)"
  by (cases t) (simp add: with_rolled_up_events_def map_root_def)

lemma events_of_lanes: "mset (tree_events t) = sum_mset (image_mset mset (mset (map rl_events (tree_lanes t))))"
proof -
  have "mset (concat (map rl_events ls)) = sum_mset (image_mset mset (mset (map rl_events ls)))" for ls
    by (induction ls) simp_all
  then show ?thesis by (simp only: tree_events_lanes)
qed

lemma lane_at_id: "lanes_ok h \<Longrightarrow> has_lane h i \<Longrightarrow> rl_id (lane_at h i) = i"
  by (auto simp: lane_at_def has_lane_def lanes_ok_def split: option.split dest!: map_of_SomeD)

lemma lane_at_events [simp]: "rl_events (lane_at h i) = lane_events_of h i"
  by (simp add: lane_at_def lane_events_of_def new_lane_def split: option.split)

lemma distinct_child_ids: "lanes_ok h \<Longrightarrow> distinct (child_ids h i)"
  by (simp add: child_ids_def lanes_ok_def)

lemma set_child_ids: "set (child_ids h i) = nest.kids h i"
  using in_child_ids by blast

lemma tree_at_sum:
  \<comment> \<open>whatever is collected from the lanes of a tree is collected once from each lane below its root\<close>
  "lanes_ok h \<Longrightarrow> mset (map f (tree_lanes (tree_at h i))) = (\<Sum>d \<in> below (map fst (hi_lanes h)) (nested_in h) i. {#f (lane_at h d)#})"
proof (induction h i rule: tree_at.induct)
  case (1 h i)
  let ?below = "below (map fst (hi_lanes h)) (nested_in h)"
  let ?f = "\<lambda>d. {#f (lane_at h d)#}"
  have flat: "mset (map f (concat (map tree_lanes (map (tree_at h) is)))) = (\<Sum>c\<leftarrow>is. mset (map f (tree_lanes (tree_at h c))))" for "is"
    by (induction "is") simp_all
  have "(\<Sum>c\<leftarrow>child_ids h i. mset (map f (tree_lanes (tree_at h c)))) = (\<Sum>c\<leftarrow>child_ids h i. sum ?f (?below c))"
    using 1 by (intro arg_cong [of _ _ sum_list] map_cong refl) simp
  also have "\<dots> = (\<Sum>c \<in> nest.kids h i. sum ?f (?below c))"
    by (simp add: sum_list_distinct_conv_sum_set distinct_child_ids [OF 1(2)] set_child_ids)
  finally have kids: "(\<Sum>c\<leftarrow>child_ids h i. mset (map f (tree_lanes (tree_at h c)))) = (\<Sum>c \<in> nest.kids h i. sum ?f (?below c))" .
  have "mset (map f (tree_lanes (tree_at h i)))
      = ?f i + mset (map f (concat (map tree_lanes (map (tree_at h) (child_ids h i)))))"
    by (subst tree_at.simps) simp
  also have "\<dots> = sum ?f (?below i)"
    unfolding flat kids by (rule nest.sum_below [symmetric])
  finally show ?case .
qed

lemma top_ids: "set (filter (\<lambda>i. nested_in h i = None) (map fst (hi_lanes h))) = nest.tops h"
  by (auto simp: nest.tops_def)

lemma lanes_of_hierarchy:
  assumes "lanes_ok h" and "\<And>l x. f (l\<lparr>rl_all_events := x\<rparr>) = f l"
  shows "mset (map f (concat (map tree_lanes (top_level_lanes dp h)))) = mset (map (f \<circ> lane_at h) (map fst (hi_lanes h)))"
proof -
  let ?tops = "filter (\<lambda>i. nested_in h i = None) (map fst (hi_lanes h))"
  let ?f = "\<lambda>d. {#f (lane_at h d)#}"
  have "mset (map f (tree_lanes (with_rolled_up_events (sort_lane_children_deep dp (tree_at h i)))))
      = sum ?f (below (map fst (hi_lanes h)) (nested_in h) i)" for i
    unfolding lanes_of_rolled_up [OF assms(2)] lanes_of_sort by (rule tree_at_sum [OF assms(1)])
  then have "mset (map f (concat (map tree_lanes (top_level_lanes dp h))))
      = (\<Sum>i\<leftarrow>?tops. sum ?f (below (map fst (hi_lanes h)) (nested_in h) i))"
    unfolding top_level_lanes_def by (induction ?tops) (simp_all add: mset_concat comp_def map_concat)
  also have "\<dots> = (\<Sum>i \<in> nest.tops h. sum ?f (below (map fst (hi_lanes h)) (nested_in h) i))"
    using assms(1) unfolding top_ids [symmetric] by (intro sum_list_distinct_conv_sum_set) (simp add: lanes_ok_def)
  also have "\<dots> = sum ?f (set (map fst (hi_lanes h)))" by (rule nest.sum_nodes [symmetric])
  also have "\<dots> = (\<Sum>i\<leftarrow>map fst (hi_lanes h). ?f i)"
    using assms(1) by (intro sum_list_distinct_conv_sum_set [symmetric]) (simp add: lanes_ok_def)
  also have "(\<Sum>i\<leftarrow>is. ?f i) = mset (map (f \<circ> lane_at h) is)" for "is" by (induction "is") simp_all
  finally show ?thesis .
qed

lemma events_of_hierarchy:
  assumes "lanes_ok h"
  shows "mset (concat (map tree_events (top_level_lanes dp h))) = hierarchy_events h"
proof -
  have flat: "concat (map tree_events ts) = concat (map rl_events (concat (map tree_lanes ts)))" for ts
    by (induction ts) (simp_all add: tree_events_lanes)
  have collect: "mset (concat xss) = sum_mset (image_mset mset (mset xss))" for xss :: "timeline_event list list"
    by (induction xss) simp_all
  have entry: "map_of (hi_lanes h) i = Some l" if "(i, l) \<in> set (hi_lanes h)" for i l
    using assms that by (simp add: lanes_ok_def)
  have "mset (concat (map tree_events (top_level_lanes dp h)))
      = sum_mset (image_mset mset (mset (map (rl_events \<circ> lane_at h) (map fst (hi_lanes h)))))"
    unfolding flat collect by (subst lanes_of_hierarchy [OF assms]) simp_all
  also have "map (rl_events \<circ> lane_at h) (map fst (hi_lanes h)) = map (rl_events \<circ> snd) (hi_lanes h)"
    using entry by (auto simp: lane_events_of_def)
  also have "sum_mset (image_mset mset (mset (map (rl_events \<circ> snd) (hi_lanes h)))) = hierarchy_events h"
    unfolding hierarchy_events_def collect ..
  finally show ?thesis .
qed

lemma ids_of_hierarchy:
  assumes "lanes_ok h"
  shows "mset (map rl_id (concat (map tree_lanes (top_level_lanes dp h)))) = mset (map fst (hi_lanes h))"
proof -
  have "map (rl_id \<circ> lane_at h) (map fst (hi_lanes h)) = map fst (hi_lanes h)"
    using lane_at_id [OF assms] by (auto simp: has_lane_iff intro: rev_image_eqI)
  moreover have "mset (map rl_id (concat (map tree_lanes (top_level_lanes dp h)))) = mset (map (rl_id \<circ> lane_at h) (map fst (hi_lanes h)))"
    by (rule lanes_of_hierarchy [OF assms]) simp
  ultimately show ?thesis by (simp only:)
qed

text \<open>Grouping by application puts headers over roots, each root once.\<close>

lemma events_of_header: "mset (tree_events (make_app_group_lane m members)) = (\<Sum>t\<leftarrow>members. mset (tree_events t))"
  by (simp add: make_app_group_lane_def Let_def new_lane_def mset_concat comp_def)

interpretation app_fold: grouped_fold "emit_groups assigned" app_of assigned snd
    "\<lambda>e k. [make_app_group_lane (ga_membership (the (fst e))) (map snd (group_of app_of assigned k))]" for assigned
proof
  fix emitted rest and e :: "root_group_assignment option \<times> lane_tree"
  obtain g t where e: "e = (g, t)" by (cases e)
  show "emit_groups assigned emitted (e # rest) =
      (case app_of e of
         None \<Rightarrow> snd e # emit_groups assigned emitted rest
       | Some k \<Rightarrow>
           if length (group_of app_of assigned k) < 2 then snd e # emit_groups assigned emitted rest
           else if k \<in> set emitted then emit_groups assigned emitted rest
           else [make_app_group_lane (ga_membership (the (fst e))) (map snd (group_of app_of assigned k))]
             @ emit_groups assigned (k # emitted) rest)"
    by (cases g) (simp_all add: e app_of_def group_of_def Let_def)
qed simp

lemma events_of_grouping:
  "(\<Sum>t\<leftarrow>apply_app_grouping lanes index. mset (tree_events t)) = (\<Sum>t\<leftarrow>lanes. mset (tree_events t))"
proof -
  define assigned where "assigned = map (\<lambda>t. let g = cascade_root_membership (tree_lane t) index in (g, mark_member g t)) lanes"
  have "(\<Sum>t\<leftarrow>emit_groups assigned [] assigned. mset (tree_events t)) = (\<Sum>gt\<leftarrow>assigned. mset (tree_events (snd gt)))"
    by (rule app_fold.fold_total) (simp_all add: events_of_header comp_def)
  also have "\<dots> = (\<Sum>t\<leftarrow>lanes. mset (tree_events t))"
  proof -
    have "tree_events (mark_member g t) = tree_events t" for g t
      by (cases t) (auto simp: mark_member_def map_root_def split: option.split)
    then show ?thesis unfolding assigned_def by (simp add: Let_def comp_def)
  qed
  finally show ?thesis unfolding apply_app_grouping_def Let_def [of _ "\<lambda>x. emit_groups x [] x"] assigned_def [symmetric] .
qed

section \<open>The lane of one resource\<close>

lemma find_root_ends:
  \<comment> \<open>the walk stops where no link leads on, or back on a cycle\<close>
  assumes "\<forall>v \<in> set visited. (v, i) \<in> {(c, p). up_link h c = Some p}\<^sup>+"
  shows "up_link h (find_root h visited i) = None
    \<or> (find_root h visited i, find_root h visited i) \<in> {(c, p). up_link h c = Some p}\<^sup>+"
  using assms
proof (induction h visited i rule: find_root.induct)
  case (1 h visited i)
  let ?P = "{(c, p). up_link h c = Some p}"
  show ?case
  proof (cases "i \<in> set visited")
    case True
    with 1(2) show ?thesis by (simp add: find_root_step)
  next
    case False
    show ?thesis
    proof (cases "up_link h i")
      case None
      with False show ?thesis by (simp add: find_root_step)
    next
      case (Some p)
      then have link: "map_of (hi_parent h) i = Some p" "p \<noteq> [] \<and> has_lane h p"
        by (auto simp: up_link_def split: option.splits if_splits)
      have "(i, p) \<in> ?P" using Some by simp
      then have "\<forall>v \<in> set (i # visited). (v, p) \<in> ?P\<^sup>+" using 1(2) by (auto intro: trancl_into_trancl)
      from 1(1) [OF False link this] show ?thesis
        using False Some by (simp add: find_root_step [of h visited i])
    qed
  qed
qed

lemma root_is_top: "nested_in h (find_root h [] i) = None"
proof (cases "nested_in h (find_root h [] i)")
  case (Some p)
  then have link: "up_link h (find_root h [] i) = Some p" "find_root h [] (find_root h [] i) \<noteq> find_root h [] i"
    using nested_in_link by blast+
  then show ?thesis using find_root_ends [of "[]" i h] find_root_on_cycle by force
qed

lemma find_root_has_lane: "has_lane h i \<Longrightarrow> has_lane h (find_root h visited i)"
proof (induction h visited i rule: find_root.induct)
  case (1 h visited i)
  then show ?case
    by (subst find_root.simps) (auto split: option.split)
qed

lemma lane_contains_iff: "lane_contains t i \<longleftrightarrow> i \<in> rl_id ` set (concat (map tree_lanes (tree_children t)))"
proof (induction t)
  case (LaneTree l cs)
  have "rl_id (tree_lane c) = i \<or> lane_contains c i \<longleftrightarrow> i \<in> rl_id ` set (tree_lanes c)" if "c \<in> set cs" for c
    using LaneTree [OF that] by (cases c) auto
  then show ?case by (auto simp: list_ex_iff)
qed

definition top_of :: "(string \<Rightarrow> int option) \<Rightarrow> hierarchy \<Rightarrow> string \<Rightarrow> lane_tree" where
  "top_of dp h i = with_rolled_up_events (sort_lane_children_deep dp (tree_at h i))"

lemma top_level_lanes_map: "top_level_lanes dp h = map (top_of dp h) (filter (\<lambda>i. nested_in h i = None) (map fst (hi_lanes h)))"
  by (simp add: top_level_lanes_def top_of_def)

lemma id_of_top:
  assumes "lanes_ok h" "has_lane h i"
  shows "rl_id (tree_lane (top_of dp h i)) = i"
proof -
  have "tree_lane (sort_lane_children_deep dp (tree_at h i)) = lane_at h i"
    by (subst tree_at.simps) simp
  then show ?thesis using lane_at_id [OF assms] by (simp add: top_of_def with_rolled_up_events_def map_root_def)
qed

lemma ids_of_tops:
  assumes "lanes_ok h"
  shows "map (rl_id \<circ> tree_lane) (top_level_lanes dp h) = filter (\<lambda>i. nested_in h i = None) (map fst (hi_lanes h))"
proof -
  have "map (rl_id \<circ> tree_lane \<circ> top_of dp h) is = is" if "set is \<subseteq> fst ` set (hi_lanes h)" for "is"
    using that id_of_top [OF assms] by (induction "is") (auto simp: has_lane_iff)
  then show ?thesis unfolding top_level_lanes_map map_map by (metis (no_types, lifting) filter_is_subset set_map)
qed

lemma tops_apart_ids:
  assumes ok: "lanes_ok h" and t: "t \<in> set (top_level_lanes dp h)" and r: "r \<in> set (top_level_lanes dp h)"
  shows "\<not> lane_contains t (rl_id (tree_lane r))"
proof
  let ?L = "\<lambda>t. map rl_id (tree_lanes t)" and ?tops = "top_level_lanes dp h"
  assume "lane_contains t (rl_id (tree_lane r))"
  then have in_t: "rl_id (tree_lane r) \<in> set (tl (?L t))"
    unfolding lane_contains_iff by (cases t) simp
  have "distinct (map rl_id (concat (map tree_lanes ?tops)))"
    using ids_of_hierarchy [OF ok, of dp] ok by (metis lanes_ok_def mset_eq_imp_distinct_iff)
  then have d: "distinct (concat (map ?L ?tops))" by (simp add: map_concat comp_def)
  have head: "?L r = rl_id (tree_lane r) # tl (?L r)" "?L t = rl_id (tree_lane t) # tl (?L t)" for r by (cases r; cases t; simp)+
  have "distinct (?L t)" using d t by (auto simp: distinct_concat_iff)
  then have "rl_id (tree_lane t) \<noteq> rl_id (tree_lane r)" using in_t head(2) by (metis distinct.simps(2))
  then have "?L t \<noteq> ?L r" using head by (metis list.inject)
  moreover have "ys = zs \<or> set ys \<inter> set zs = {}" if "ys \<in> ?L ` set ?tops" "zs \<in> ?L ` set ?tops" for ys zs
    using d that unfolding distinct_concat_iff set_map by blast
  ultimately have "set (?L t) \<inter> set (?L r) = {}" using t r by blast
  moreover have "rl_id (tree_lane r) \<in> set (?L r)" "rl_id (tree_lane r) \<in> set (?L t)"
    using head in_t by (metis list.set_intros(1), metis list.set_intros(2))
  ultimately show False by blast
qed

lemma events_of_adopt:
  "mset (tree_events (adopt_lanes dp lanes root)) = mset (tree_events root)
     + (\<Sum>t\<leftarrow>filter (\<lambda>t. rl_id (tree_lane t) \<noteq> rl_id (tree_lane root) \<and> \<not> lane_contains t (rl_id (tree_lane root))) lanes. mset (tree_events t))"
proof -
  have ev: "mset (tree_events (with_rolled_up_events (sort_lane_children_deep dp t))) = mset (tree_events t)" for t
  proof -
    have "map rl_events (tree_lanes (with_rolled_up_events u)) = map rl_events (tree_lanes u)" for u
      by (rule lanes_of_rolled_up) simp
    then show ?thesis unfolding events_of_lanes by (simp only: lanes_of_sort)
  qed
  obtain l cs where root: "root = LaneTree l cs" by (cases root)
  define ts where "ts = filter (\<lambda>t. rl_id (tree_lane t) \<noteq> rl_id l \<and> \<not> lane_contains t (rl_id l)) lanes"
  define l' where "l' = l\<lparr>rl_child_event_count := rl_child_event_count l + (\<Sum>t\<leftarrow>ts. length (rl_events (tree_lane t)))\<rparr>"
  have "mset (tree_events (LaneTree l' (cs @ ts))) = mset (tree_events root) + (\<Sum>t\<leftarrow>ts. mset (tree_events t))"
    by (simp add: root l'_def mset_concat comp_def)
  moreover have "adopt_lanes dp lanes root
      = (if ts = [] then root else with_rolled_up_events (sort_lane_children_deep dp (LaneTree l' (cs @ ts))))"
    by (simp add: adopt_lanes_def Let_def root ts_def l'_def del: sort_lane_children_deep.simps)
  ultimately have "mset (tree_events (adopt_lanes dp lanes root)) = mset (tree_events root) + (\<Sum>t\<leftarrow>ts. mset (tree_events t))"
    by (simp only: ev split: if_split) simp
  then show ?thesis by (simp add: root ts_def)
qed

lemma sum_pick:
  fixes f :: "'a \<Rightarrow> 'b :: comm_monoid_add"
  assumes "distinct (map key xs)" "t \<in> set xs"
  shows "(\<Sum>x\<leftarrow>xs. f x) = f t + (\<Sum>x\<leftarrow>filter (\<lambda>x. key x \<noteq> key t) xs. f x)"
  using assms
proof (induction xs)
  case (Cons x xs)
  show ?case
  proof (cases "x = t")
    case True
    with Cons.prems have "filter (\<lambda>x. key x \<noteq> key t) xs = xs" by (intro filter_True) (auto simp: image_iff)
    with True show ?thesis by simp
  next
    case False
    with Cons.prems have "key x \<noteq> key t" by (auto simp: image_iff)
    with False Cons show ?thesis by (simp add: add_ac)
  qed
qed simp

lemma pick_root_lane_cases:
  assumes ok: "lanes_ok h" and lanes: "lanes = top_level_lanes dp h"
  shows "pick_root_lane dp ids h lanes root \<in> set lanes
    \<or> \<not> has_lane h (root_lane_id ids h root)
      \<and> pick_root_lane dp ids h lanes root = placeholder_lane root (root_lane_id ids h root)"
proof -
  define i where "i = root_lane_id ids h root"
  have found: "find_lane j lanes \<noteq> None" if "has_lane h j" "nested_in h j = None" for j
  proof -
    have "j \<in> set (map (rl_id \<circ> tree_lane) lanes)"
      unfolding lanes ids_of_tops [OF ok] using that by (simp add: has_lane_iff)
    then show ?thesis by (auto simp: find_lane_def find_none_iff)
  qed
  have ancestor: "find_lane (find_root h [] i) lanes \<noteq> None" if "has_lane h i"
    using found find_root_has_lane [OF that, of "[]"] root_is_top by blast
  have unparented: "find_lane i lanes \<noteq> None" if "has_lane h i" "map_of (hi_parent h) i = None"
    using that by (intro found) (simp_all add: nested_in_def)
  have taken: "List.find Q lanes = Some x \<Longrightarrow> x \<in> set lanes" for Q x using find_some_in by metis
  then have taken': "find_lane j lanes = Some x \<Longrightarrow> x \<in> set lanes" for j x by (simp add: find_lane_def)
  show ?thesis
    unfolding pick_root_lane_def Let_def i_def [symmetric]
    using ancestor unparented taken taken'
    by (auto split: option.split simp: coalesce_def coalesce_opt_def)
qed

lemma events_of_root_lane:
  assumes ok: "lanes_ok h" and lanes: "lanes = top_level_lanes dp h"
  shows "mset (tree_events (adopt_lanes dp lanes (pick_root_lane dp ids h lanes root))) = hierarchy_events h"
proof -
  let ?ev = "\<lambda>t. mset (tree_events t)"
  have ids: "map (rl_id \<circ> tree_lane) lanes = filter (\<lambda>i. nested_in h i = None) (map fst (hi_lanes h))"
    unfolding lanes by (rule ids_of_tops [OF ok])
  have all: "(\<Sum>t\<leftarrow>lanes. ?ev t) = hierarchy_events h"
    using events_of_hierarchy [OF ok, of dp] by (simp add: lanes mset_concat comp_def)
  have from_top: "?ev (adopt_lanes dp lanes t) = hierarchy_events h" if t: "t \<in> set lanes" for t
  proof -
    have "distinct (map (rl_id \<circ> tree_lane) lanes)" using ok unfolding ids by (simp add: lanes_ok_def)
    note sum_pick [OF this t, of ?ev]
    moreover have "filter (\<lambda>x. rl_id (tree_lane x) \<noteq> rl_id (tree_lane t) \<and> \<not> lane_contains x (rl_id (tree_lane t))) lanes
        = filter (\<lambda>x. rl_id (tree_lane x) \<noteq> rl_id (tree_lane t)) lanes"
      using tops_apart_ids [OF ok] t unfolding lanes by (intro filter_cong refl) blast
    ultimately show ?thesis using all by (simp add: events_of_adopt)
  qed
  show ?thesis
  proof (cases "pick_root_lane dp ids h lanes root \<in> set lanes")
    case True
    then show ?thesis by (rule from_top)
  next
    case False
    define i where "i = root_lane_id ids h root"
    from False pick_root_lane_cases [OF ok lanes] have pick: "pick_root_lane dp ids h lanes root = placeholder_lane root i" "\<not> has_lane h i"
      unfolding i_def by blast+
    have "rl_id ` set (concat (map tree_lanes lanes)) = fst ` set (hi_lanes h)"
      using ids_of_hierarchy [OF ok, of dp] unfolding lanes by (metis mset_eq_setD set_map)
    then have out: "i \<notin> rl_id ` set (tree_lanes t)" if "t \<in> set lanes" for t
      using pick(2) that by (force simp: has_lane_iff)
    have apart: "rl_id (tree_lane t) \<noteq> i \<and> \<not> lane_contains t i" if "t \<in> set lanes" for t
      using out [OF that] unfolding lane_contains_iff by (cases t) auto
    have "rl_id (tree_lane (placeholder_lane root i)) = i" "tree_events (placeholder_lane root i) = []"
      by (simp_all add: placeholder_lane_def new_lane_def)
    with apart all show ?thesis by (simp add: events_of_adopt pick(1) cong: filter_cong)
  qed
qed

section \<open>Properties\<close>

definition sample_lane_event :: "string \<Rightarrow> string \<Rightarrow> string \<Rightarrow> owner_info option \<Rightarrow> timeline_event" where
  "sample_lane_event i kind name ow =
     \<lparr>ev_id = i, ev_timestamp = i, ev_source = SrcInformer, ev_seq = None, ev_kind = kind, ev_api_version = None,
      ev_namespace = ''shop'', ev_name = name, ev_uid = None, ev_created_at = None, ev_type = EvUpdate, ev_reason = None,
      ev_message = None, ev_diff = None, ev_health_state = None, ev_owner = ow, ev_labels = None, ev_count = None,
      ev_correlation_id = None\<rparr>"

definition sample_options :: hierarchy_options where
  \<comment> \<open>a run of a CronJob whose owner was lost, two lanes that own each other, and an Event about a Pod\<close>
  "sample_options =
     \<lparr>ho_events =
        [sample_lane_event ''1'' ''CronJob'' ''nightly'' None,
         sample_lane_event ''2'' ''Job'' ''nightly-2901'' None,
         sample_lane_event ''3'' ''Pod'' ''nightly-2901-x7k2p'' (Some \<lparr>ow_kind = ''Job'', ow_name = ''nightly-2901''\<rparr>),
         sample_lane_event ''4'' ''ReplicaSet'' ''a'' (Some \<lparr>ow_kind = ''ReplicaSet'', ow_name = ''b''\<rparr>),
         sample_lane_event ''5'' ''ReplicaSet'' ''b'' (Some \<lparr>ow_kind = ''ReplicaSet'', ow_name = ''a''\<rparr>),
         sample_lane_event ''6'' ''Event'' ''warned'' (Some \<lparr>ow_kind = ''Pod'', ow_name = ''nightly-2901-x7k2p''\<rparr>)],
      ho_topology = None, ho_root = None, ho_scoped_to_root = False, ho_group_by_app = None, ho_grouping = None, ho_app_index = None\<rparr>"

lemma sample_options_plain: "\<forall>e \<in> set (ho_events sample_options). plain_event e"
  by code_simp

text \<open>
  C33. The timeline loses no event and doubles none: whatever the owners, edges, labels and names that
  give the lanes their parents, cycles included, and however the roots are grouped by application, each
  event is in the tree exactly once. So it is when the tree is that of one resource, made from its own history.
\<close>

theorem hierarchy_keeps_every_event:
  assumes "\<forall>e \<in> set (ho_events opts). plain_event e"
    and "ho_root opts = None \<or> ho_scoped_to_root opts"
  shows "mset (concat (map tree_events (build_resource_hierarchy date_parse opts))) = mset (ho_events opts)
    \<and> count_events_in_hierarchy (build_resource_hierarchy date_parse opts) = length (ho_events opts)"
proof -
  let ?h = "linked_hierarchy opts" and ?built = "build_resource_hierarchy date_parse opts"
  have h: "lanes_ok ?h" "hierarchy_events ?h = mset (ho_events opts)" using linked_hierarchy_ok [OF assms(1)] by blast+
  note top = events_of_hierarchy [OF h(1), of date_parse]
  note one = events_of_root_lane [OF h(1) refl, of date_parse]
  have flat: "mset (concat (map tree_events ts)) = (\<Sum>t\<leftarrow>ts. mset (tree_events t))" for ts
    by (induction ts) simp_all
  have "mset (concat (map tree_events ?built)) = mset (ho_events opts)"
    using assms(2) top one h(2) events_of_grouping
    by (auto simp: build_resource_hierarchy_def Let_def flat split: option.split)
  moreover have "count_events_in_hierarchy ts = length (concat (map tree_events ts))" for ts
    by (simp add: count_events_in_hierarchy_def length_concat comp_def)
  ultimately show ?thesis by (metis size_mset)
qed

theorem hierarchy_keeps_every_event_witness:
  "mset (concat (map tree_events (build_resource_hierarchy sample_date sample_options))) = mset (ho_events sample_options)
   \<and> count_events_in_hierarchy (build_resource_hierarchy sample_date sample_options) = 6"
proof -
  have "ho_root sample_options = None \<or> ho_scoped_to_root sample_options" "length (ho_events sample_options) = 6"
    by (simp_all add: sample_options_def)
  with hierarchy_keeps_every_event [OF sample_options_plain] show ?thesis by metis
qed

section \<open>Rows\<close>


















section \<open>Membership by name\<close>

definition name_matches :: "resource_lane \<Rightarrow> string \<times> app_membership \<Rightarrow> string option" where
  \<comment> \<open>the name of the member, if the lane's name is generated from it\<close>
  "name_matches lane entry =
     (case parse_lane_id (fst entry) of
        None \<Rightarrow> None
      | Some m \<Rightarrow> if ln_kind m \<in> set name_prefix_member_kinds \<and> ln_namespace m = rl_namespace lane
                     \<and> is_generated_name_child_of (rl_name lane) (ln_name m) then Some (ln_name m) else None)"

definition named_matches :: "resource_lane \<Rightarrow> (string \<times> app_membership) list \<Rightarrow> (nat \<times> app_membership) list" where
  "named_matches lane entries = List.map_filter (\<lambda>en. map_option (\<lambda>n. (length n, snd en)) (name_matches lane en)) entries"

definition best_step :: "nat \<times> app_membership \<Rightarrow> name_match \<Rightarrow> name_match" where
  "best_step lm st =
     (case lm of (l, m) \<Rightarrow>
        if int l > nm_len st then \<lparr>nm_best = Some m, nm_len = int l, nm_ambiguous = False\<rparr>
        else (case nm_best st of
                Some best \<Rightarrow> if int l = nm_len st \<and> am_app_key m \<noteq> am_app_key best then st\<lparr>nm_ambiguous := True\<rparr> else st
              | None \<Rightarrow> st))"

lemma match_member_step:
  "match_member (rl_namespace lane) (rl_name lane) en st = fold best_step (named_matches lane [en]) st"
  by (cases en) (auto simp: named_matches_def List.map_filter_def name_matches_def match_member_def best_step_def Let_def
      split: option.splits if_splits)

lemma named_matches_Cons: "named_matches lane (en # entries) = named_matches lane [en] @ named_matches lane entries"
  by (simp add: named_matches_def List.map_filter_def)

lemma match_members_fold:
  "fold (match_member (rl_namespace lane) (rl_name lane)) entries st = fold best_step (named_matches lane entries) st"
proof (induction entries arbitrary: st)
  case (Cons en entries)
  have "fold (match_member (rl_namespace lane) (rl_name lane)) (en # entries) st
      = fold best_step (named_matches lane entries) (fold best_step (named_matches lane [en]) st)"
    by (simp only: fold_simps match_member_step Cons.IH)
  then show ?case by (subst named_matches_Cons) (simp only: fold_append comp_apply)
qed (simp add: named_matches_def List.map_filter_def)

definition match_ok :: "(nat \<times> app_membership) list \<Rightarrow> name_match \<Rightarrow> bool" where
  "match_ok ms st \<longleftrightarrow>
     (\<forall>(l, m) \<in> set ms. int l \<le> nm_len st)
     \<and> (case nm_best st of
          None \<Rightarrow> ms = [] \<and> nm_len st = - 1 \<and> \<not> nm_ambiguous st
        | Some best \<Rightarrow>
            (\<exists>l. (l, best) \<in> set ms \<and> int l = nm_len st)
            \<and> (nm_ambiguous st \<longleftrightarrow> (\<exists>(l, m) \<in> set ms. int l = nm_len st \<and> am_app_key m \<noteq> am_app_key best)))"

lemma best_step_ok:
  assumes "match_ok ms st"
  shows "match_ok (ms @ [(l, m)]) (best_step (l, m) st)"
proof (cases "int l > nm_len st")
  case True
  have "\<forall>(l', m') \<in> set ms. int l' < int l" using assms True by (auto simp: match_ok_def)
  with True show ?thesis by (auto simp: match_ok_def best_step_def)
next
  case False
  with assms obtain best where best: "nm_best st = Some best"
    by (cases "nm_best st") (auto simp: match_ok_def)
  show ?thesis
  proof (cases "int l = nm_len st \<and> am_app_key m \<noteq> am_app_key best")
    case True
    with assms best show ?thesis by (auto simp: match_ok_def best_step_def)
  next
    case no: False
    then have "best_step (l, m) st = st" using False best by (auto simp: best_step_def)
    with assms best no False show ?thesis by (auto simp: match_ok_def)
  qed
qed

lemma best_steps_ok: "match_ok ms (fold best_step ms \<lparr>nm_best = None, nm_len = - 1, nm_ambiguous = False\<rparr>)"
proof (induction ms rule: rev_induct)
  case Nil
  show ?case by (simp add: match_ok_def)
next
  case (snoc lm ms)
  obtain l m where "lm = (l, m)" by (cases lm)
  with best_step_ok [OF snoc] show ?case by simp
qed

text \<open>
  A generated name joins an application only when that is certain: the lane, of a kind with generated
  names, is given the application of the longest member name in its namespace that its own name extends,
  and none only when no member fits, or when members of that length belong to different applications.
\<close>

theorem name_match_is_longest_and_certain:
  "(match_lane_by_member_name_prefix lane index = Some m \<longrightarrow>
      rl_kind lane \<in> set generated_name_lane_kinds
      \<and> (\<exists>l. (l, m) \<in> set (named_matches lane (ai_by_resource index))
          \<and> (\<forall>(l', m') \<in> set (named_matches lane (ai_by_resource index)). l' \<le> l \<and> (l' = l \<longrightarrow> am_app_key m' = am_app_key m))))
   \<and> (match_lane_by_member_name_prefix lane index = None \<and> rl_kind lane \<in> set generated_name_lane_kinds \<longrightarrow>
      named_matches lane (ai_by_resource index) = []
      \<or> (\<exists>l a b. (l, a) \<in> set (named_matches lane (ai_by_resource index)) \<and> (l, b) \<in> set (named_matches lane (ai_by_resource index))
          \<and> am_app_key a \<noteq> am_app_key b \<and> (\<forall>(l', m') \<in> set (named_matches lane (ai_by_resource index)). l' \<le> l)))"
proof -
  define ms where "ms = named_matches lane (ai_by_resource index)"
  define st where "st = fold best_step ms \<lparr>nm_best = None, nm_len = - 1, nm_ambiguous = False\<rparr>"
  have result: "match_lane_by_member_name_prefix lane index =
      (if rl_kind lane \<notin> set generated_name_lane_kinds \<or> nm_ambiguous st then None else nm_best st)"
    by (simp add: match_lane_by_member_name_prefix_def match_members_fold Let_def flip: ms_def st_def)
  have ok: "match_ok ms st" unfolding st_def by (rule best_steps_ok)
  have sure: "\<exists>l. (l, m) \<in> set ms \<and> (\<forall>(l', m') \<in> set ms. l' \<le> l \<and> (l' = l \<longrightarrow> am_app_key m' = am_app_key m))"
    if "nm_best st = Some m" "\<not> nm_ambiguous st"
    using ok that by (auto simp: match_ok_def) fastforce
  have unsure: "ms = [] \<or> (\<exists>l a b. (l, a) \<in> set ms \<and> (l, b) \<in> set ms \<and> am_app_key a \<noteq> am_app_key b \<and> (\<forall>(l', m') \<in> set ms. l' \<le> l))"
    if "nm_best st = None \<or> nm_ambiguous st"
  proof (cases "nm_best st")
    case None
    with ok show ?thesis by (simp add: match_ok_def)
  next
    case (Some best)
    with ok that obtain l l' m' where ends: "(l, best) \<in> set ms" "int l = nm_len st" "(l', m') \<in> set ms" "int l' = nm_len st"
      "am_app_key m' \<noteq> am_app_key best" "\<forall>(l', m') \<in> set ms. int l' \<le> nm_len st"
      by (auto simp: match_ok_def)
    then have "l' = l" "\<forall>(l', m') \<in> set ms. l' \<le> l" by auto
    with ends show ?thesis by blast
  qed
  show ?thesis
    unfolding ms_def [symmetric] result using sure unsure by (simp split: if_split)
qed

definition sample_index :: app_membership_index where
  "sample_index =
     \<lparr>ai_by_resource =
        [(''Deployment/shop/web'', \<lparr>am_app_key = ''shop'', am_app_name = ''Shop'', am_env = None, am_evidence = None\<rparr>),
         (''Deployment/shop/web-admin'', \<lparr>am_app_key = ''admin'', am_app_name = ''Admin'', am_env = None, am_evidence = None\<rparr>)],
      ai_by_unqualified = None, ai_by_evidence = []\<rparr>"

definition sample_pod_lane :: resource_lane where
  "sample_pod_lane = new_lane ''Pod/shop/web-admin-6jm4n'' ''Pod'' None False False ''shop'' ''web-admin-6jm4n'' []"

lemma sample_match: "map_option am_app_key (match_lane_by_member_name_prefix sample_pod_lane sample_index) = Some ''admin''"
  by code_simp

theorem name_match_is_longest_and_certain_witness:
  "\<exists>l m. (l, m) \<in> set (named_matches sample_pod_lane (ai_by_resource sample_index)) \<and> am_app_key m = ''admin''
     \<and> list_all (\<lambda>(l', m'). l' \<le> l) (named_matches sample_pod_lane (ai_by_resource sample_index))"
proof -
  obtain m where m: "match_lane_by_member_name_prefix sample_pod_lane sample_index = Some m" "am_app_key m = ''admin''"
    using sample_match by (auto simp: map_option_case split: option.splits)
  with name_match_is_longest_and_certain [of sample_pod_lane sample_index m] show ?thesis
    by (fastforce simp: list_all_iff)
qed

end
