(* ===== verification/Hierarchy_Pins.thy ===== *)
theory Hierarchy_Pins
  imports Hierarchy_Events
begin

text \<open>
  Pins on the timeline (\<open>packages/k8s-ui/src/utils/resource-hierarchy.ts\<close>, from the collision chip on): pins
  are records in browser storage that name a lane or an application. A pin is meant to move its row to the
  pinned section. The functions here resolve the pins against the current lanes, extract their rows and
  remove them from the rest.
\<close>

section \<open>Collisions\<close>

definition lane_collision_key :: "resource_lane \<Rightarrow> string" where
  "lane_collision_key l = rl_kind l @ ''|'' @ rl_namespace l @ ''|'' @ rl_name l"

definition colliding_lane_keys :: "lane_tree list \<Rightarrow> string list" where
  "colliding_lane_keys lanes =
     (let keys = map lane_collision_key (filter (\<lambda>l. rl_app l = None) (concat (map tree_lanes lanes)))
      in filter (\<lambda>k. count_list keys k > 1) (set_from keys))"

section \<open>Pins\<close>

record pinned_resource_ref =
  pr_id :: string
  pr_kind :: string
  pr_group :: "string option"
  pr_namespace :: string
  pr_name :: string

record pinned_app_group_ref =
  pa_id :: string
  pa_app_key :: string
  pa_app_name :: string

datatype pinned_lane_ref = PinResource pinned_resource_ref | PinAppGroup pinned_app_group_ref

definition json_is_string :: "json option \<Rightarrow> bool" where
  "json_is_string v \<longleftrightarrow> json_str v \<noteq> None"

definition is_pinned_lane_ref :: "json option \<Rightarrow> bool" where
  "is_pinned_lane_ref v \<longleftrightarrow>
     (case v of
        Some (JObj kvs) \<Rightarrow>
          json_is_string (map_of kvs ''id'')
          \<and> (if map_of kvs ''type'' = Some (JStr ''appGroup'')
             then json_is_string (map_of kvs ''appKey'') \<and> json_is_string (map_of kvs ''appName'')
             else json_is_string (map_of kvs ''kind'')
                  \<and> (map_of kvs ''group'' = None \<or> json_is_string (map_of kvs ''group''))
                  \<and> json_is_string (map_of kvs ''namespace'') \<and> json_is_string (map_of kvs ''name''))
      | _ \<Rightarrow> False)"

record lane_identity_index =
  li_by_id :: "(string \<times> lane_tree) list"
  li_by_unqualified :: "(string \<times> lane_tree list) list"

fun subtrees :: "lane_tree \<Rightarrow> lane_tree list" where
  "subtrees (LaneTree l cs) = LaneTree l cs # concat (map subtrees cs)"

definition tree_id :: "lane_tree \<Rightarrow> string" where
  "tree_id t = rl_id (tree_lane t)"

definition index_lane :: "lane_tree \<Rightarrow> lane_identity_index \<Rightarrow> lane_identity_index" where
  "index_lane t ix =
     \<lparr>li_by_id = (if map_of (li_by_id ix) (tree_id t) = None then AList.update (tree_id t) t (li_by_id ix) else li_by_id ix),
      li_by_unqualified =
        (case parse_lane_id (tree_id t) of
           None \<Rightarrow> li_by_unqualified ix
         | Some p \<Rightarrow>
             if rl_app (tree_lane t) \<noteq> None then li_by_unqualified ix
             else let key = lane_resource_key (ln_kind p) (ln_namespace p) (ln_name p);
                      candidates = coalesce (map_of (li_by_unqualified ix) key) []
                  in AList.update key (if list_ex (\<lambda>c. tree_id c = tree_id t) candidates then candidates else candidates @ [t])
                       (li_by_unqualified ix))\<rparr>"

definition index_lanes_by_identity :: "lane_tree list \<Rightarrow> lane_identity_index" where
  "index_lanes_by_identity lanes = fold index_lane (concat (map subtrees lanes)) \<lparr>li_by_id = [], li_by_unqualified = []\<rparr>"

definition pin_key :: "pinned_resource_ref \<Rightarrow> string" where
  "pin_key ref = lane_resource_key (pr_kind ref) (pr_namespace ref) (pr_name ref)"

definition id_group :: "string \<Rightarrow> string option" where
  \<comment> \<open>\<open>parseLaneId(id)?.group || undefined\<close>\<close>
  "id_group i = (case parse_lane_id i of None \<Rightarrow> None | Some p \<Rightarrow> if ln_group p \<noteq> [] then Some (ln_group p) else None)"

definition pin_group :: "pinned_resource_ref \<Rightarrow> string option" where
  "pin_group ref = coalesce_opt (pr_group ref) (id_group (pr_id ref))"

definition pin_candidates :: "lane_identity_index \<Rightarrow> pinned_resource_ref \<Rightarrow> lane_tree list" where
  "pin_candidates ix ref = coalesce (map_of (li_by_unqualified ix) (pin_key ref)) []"

definition lane_group_is :: "string option \<Rightarrow> lane_tree \<Rightarrow> bool" where
  "lane_group_is grp t \<longleftrightarrow> canonical_resource_group (rl_kind (tree_lane t)) (rl_group (tree_lane t)) = grp"

definition only_candidate :: "lane_tree list \<Rightarrow> lane_tree option" where
  "only_candidate ts = (case ts of [t] \<Rightarrow> Some t | _ \<Rightarrow> None)"

definition resolve_pinned_resource_lane :: "pinned_resource_ref \<Rightarrow> lane_identity_index \<Rightarrow> lane_tree option" where
  "resolve_pinned_resource_lane ref ix =
     (case pin_group ref of
        None \<Rightarrow> only_candidate (pin_candidates ix ref)
      | Some grp \<Rightarrow>
          let ref_group = canonical_resource_group (pr_kind ref) (Some grp);
              exact = map_of (li_by_id ix) (lane_id (pr_kind ref) (Some grp) (pr_namespace ref) (pr_name ref))
          in if (case exact of None \<Rightarrow> False | Some t \<Rightarrow> lane_group_is ref_group t) then exact
             else only_candidate (filter (lane_group_is ref_group) (pin_candidates ix ref)))"

definition resolve_pinned_lane_id :: "lane_identity_index \<Rightarrow> pinned_lane_ref \<Rightarrow> string list \<Rightarrow> string list" where
  "resolve_pinned_lane_id ix ref out =
     (case ref of
        PinAppGroup r \<Rightarrow> set_add (pa_id r) out
      | PinResource r \<Rightarrow>
          case resolve_pinned_resource_lane r ix of
            Some t \<Rightarrow> set_add (tree_id t) out
          | None \<Rightarrow> if pr_group r \<noteq> None \<or> pin_candidates ix r = [] then set_add (pr_id r) out else out)"

definition resolve_pinned_lane_ids :: "lane_tree list \<Rightarrow> pinned_lane_ref list \<Rightarrow> string list" where
  "resolve_pinned_lane_ids lanes refs = fold (resolve_pinned_lane_id (index_lanes_by_identity lanes)) refs []"

definition pinned_lane_ref_matches :: "pinned_lane_ref \<Rightarrow> pinned_lane_ref \<Rightarrow> bool" where
  "pinned_lane_ref_matches stored incoming \<longleftrightarrow>
     (case (stored, incoming) of
        (PinAppGroup a, PinAppGroup b) \<Rightarrow> pa_app_key a = pa_app_key b
      | (PinResource a, PinResource b) \<Rightarrow>
          pr_kind a = pr_kind b \<and> pr_namespace a = pr_namespace b \<and> pr_name a = pr_name b
          \<and> (case pin_group a of
               None \<Rightarrow> True
             | Some g \<Rightarrow> canonical_resource_group (pr_kind a) (Some g) = canonical_resource_group (pr_kind b) (pr_group b))
      | _ \<Rightarrow> False)"

section \<open>Pinned rows\<close>

definition with_all_events_sorted :: "lane_tree \<Rightarrow> lane_tree" where
  "with_all_events_sorted t =
     (if rl_all_events (tree_lane t) \<noteq> None then t
      else map_root (\<lambda>l. l\<lparr>rl_all_events := Some (sort_events_for_rendering (dedupe_by_id
             (rl_events l @ concat (map (rl_events \<circ> tree_lane) (tree_children t)))))\<rparr>) t)"

definition synthesize_empty_pinned_lane :: "pinned_resource_ref \<Rightarrow> lane_tree" where
  "synthesize_empty_pinned_lane ref =
     LaneTree ((new_lane (pr_id ref) (pr_kind ref)
        (Some (coalesce (pr_group ref) (case parse_lane_id (pr_id ref) of None \<Rightarrow> [] | Some p \<Rightarrow> ln_group p)))
        (pin_group ref \<noteq> None) False (pr_namespace ref) (pr_name ref) [])\<lparr>rl_all_events := Some []\<rparr>) []"

definition synthesize_quiet_app_group_lane :: "pinned_app_group_ref \<Rightarrow> lane_tree" where
  "synthesize_quiet_app_group_lane ref =
     LaneTree ((new_lane (pa_id ref) ''AppGroup'' None False False [] (pa_app_name ref) [])
       \<lparr>rl_is_workload := False, rl_absent_pinned_app := True, rl_all_events := Some [],
        rl_app := Some \<lparr>am_app_key = pa_app_key ref, am_app_name = pa_app_name ref, am_env = None, am_evidence = None\<rparr>\<rparr>) []"

definition app_key_of :: "lane_tree \<Rightarrow> string option" where
  \<comment> \<open>\<open>lane.isAppGroup && lane.appKey\<close>\<close>
  "app_key_of t = (case rl_app (tree_lane t) of None \<Rightarrow> None | Some m \<Rightarrow> if am_app_key m \<noteq> [] then Some (am_app_key m) else None)"

fun prune_pinned :: "string list \<Rightarrow> string list \<Rightarrow> lane_tree \<Rightarrow> lane_tree option" where
  "prune_pinned ids keys (LaneTree l cs) =
     (if rl_id l \<in> set ids then None
      else if (case app_key_of (LaneTree l cs) of None \<Rightarrow> False | Some k \<Rightarrow> k \<in> set keys) then None
      else if cs = [] then Some (LaneTree l cs)
      else let children = List.map_filter id (map (prune_pinned ids keys) cs)
           in if length children = length cs then Some (LaneTree l cs)
              else if children = [] \<and> rl_events l = [] then None
              else Some (LaneTree (l\<lparr>rl_all_events := Some (subtree_events (LaneTree l children)),
                rl_child_event_count := (\<Sum>c\<leftarrow>children. length (lane_event_list (tree_lane c)))\<rparr>) children))"

definition remove_pinned_lanes :: "lane_tree list \<Rightarrow> string list \<Rightarrow> string list \<Rightarrow> lane_tree list" where
  "remove_pinned_lanes lanes ids keys =
     (if ids = [] \<and> keys = [] then lanes else List.map_filter (prune_pinned ids keys) lanes)"

definition groups_by_app_key :: "lane_tree list \<Rightarrow> (string \<times> lane_tree) list" where
  "groups_by_app_key lanes =
     fold (\<lambda>t m. case app_key_of t of
                   None \<Rightarrow> m
                 | Some k \<Rightarrow> if map_of m k = None then AList.update k t m else m) (concat (map subtrees lanes)) []"

definition covered_by_pinned_group :: "(string \<times> lane_tree) list \<Rightarrow> pinned_lane_ref list \<Rightarrow> string list" where
  "covered_by_pinned_group groups refs =
     set_from (concat (map (\<lambda>ref. case ref of
         PinResource r \<Rightarrow> []
       | PinAppGroup r \<Rightarrow>
           case map_of groups (pa_app_key r) of
             None \<Rightarrow> []
           | Some g \<Rightarrow> map rl_id (concat (map tree_lanes (tree_children g)))) refs))"

definition pinned_row :: "lane_identity_index \<Rightarrow> (string \<times> lane_tree) list \<Rightarrow> string list \<Rightarrow> pinned_lane_ref \<Rightarrow> lane_tree option" where
  "pinned_row ix groups covering ref =
     (case ref of
        PinAppGroup r \<Rightarrow> Some (case map_of groups (pa_app_key r) of
            Some g \<Rightarrow> with_all_events_sorted g | None \<Rightarrow> synthesize_quiet_app_group_lane r)
      | PinResource r \<Rightarrow>
          case resolve_pinned_resource_lane r ix of
            Some t \<Rightarrow> if tree_id t \<in> set covering then None else Some (with_all_events_sorted t)
          | None \<Rightarrow> if pr_group r = None \<and> length (pin_candidates ix r) > 1 then None
                     else Some (synthesize_empty_pinned_lane r))"

definition extract_pinned_lanes :: "lane_tree list \<Rightarrow> pinned_lane_ref list \<Rightarrow> lane_tree list" where
  "extract_pinned_lanes lanes refs =
     (let ix = index_lanes_by_identity lanes; groups = groups_by_app_key lanes
      in List.map_filter (pinned_row ix groups (covered_by_pinned_group groups refs)) refs)"

section \<open>A pin moves its row\<close>

definition pinned_by :: "string list \<Rightarrow> string list \<Rightarrow> lane_tree \<Rightarrow> bool" where
  "pinned_by ids keys t \<longleftrightarrow> tree_id t \<in> set ids \<or> (case app_key_of t of None \<Rightarrow> False | Some k \<Rightarrow> k \<in> set keys)"

definition moved_rows :: "string list \<Rightarrow> string list \<Rightarrow> lane_tree \<Rightarrow> lane_tree list" where
  \<comment> \<open>the pinned lanes at the top of a tree: its root, or children of its root\<close>
  "moved_rows ids keys t = (if pinned_by ids keys t then [t] else filter (pinned_by ids keys) (tree_children t))"

definition pins_are_shallow :: "string list \<Rightarrow> string list \<Rightarrow> lane_tree \<Rightarrow> bool" where
  \<comment> \<open>no lane below the children of the root is pinned\<close>
  "pins_are_shallow ids keys t \<longleftrightarrow>
     list_all (\<lambda>c. list_all (\<lambda>g. list_all (\<lambda>s. \<not> pinned_by ids keys s) (subtrees g)) (tree_children c)) (tree_children t)"

lemma prune_pinned_root: "pinned_by ids keys t \<Longrightarrow> prune_pinned ids keys t = None"
  by (cases t) (auto simp: pinned_by_def tree_id_def split: option.splits)

lemma prune_unpinned: "list_all (\<lambda>s. \<not> pinned_by ids keys s) (subtrees t) \<Longrightarrow> prune_pinned ids keys t = Some t"
proof (induction t)
  case (LaneTree l cs)
  then have "map (prune_pinned ids keys) cs = map Some cs" by (auto simp: list_all_iff)
  then show ?case
    using LaneTree.prems by (auto simp: List.map_filter_def pinned_by_def tree_id_def split: option.splits)
qed

lemma prune_shallow:
  assumes "pins_are_shallow ids keys t" "\<not> pinned_by ids keys t"
  shows "prune_pinned ids keys t =
    (let kept = filter (\<lambda>c. \<not> pinned_by ids keys c) (tree_children t); l = tree_lane t in
     if length kept = length (tree_children t) then Some t
     else if kept = [] \<and> rl_events l = [] then None
     else Some (LaneTree (l\<lparr>rl_all_events := Some (subtree_events (LaneTree l kept)),
       rl_child_event_count := (\<Sum>c\<leftarrow>kept. length (lane_event_list (tree_lane c)))\<rparr>) kept))"
proof -
  obtain l cs where t: "t = LaneTree l cs" by (cases t)
  have "prune_pinned ids keys c = (if pinned_by ids keys c then None else Some c)" if "c \<in> set cs" for c
    using assms(1) that prune_pinned_root [of ids keys c] prune_unpinned [of ids keys c]
    by (cases c) (auto simp: t pins_are_shallow_def list_all_iff)
  then have kept: "List.map_filter id (map (prune_pinned ids keys) cs) = filter (\<lambda>c. \<not> pinned_by ids keys c) cs"
    by (induction cs) (auto simp: List.map_filter_def)
  have "\<not> (rl_id l \<in> set ids \<or> (case app_key_of (LaneTree l cs) of None \<Rightarrow> False | Some k \<Rightarrow> k \<in> set keys))"
    using assms(2) by (simp add: t pinned_by_def tree_id_def)
  then show ?thesis by (simp add: t kept Let_def)
qed

lemma prune_events:
  assumes "pins_are_shallow ids keys t"
  shows "(case prune_pinned ids keys t of None \<Rightarrow> {#} | Some u \<Rightarrow> mset (tree_events u))
      + (\<Sum>s\<leftarrow>moved_rows ids keys t. mset (tree_events s)) = mset (tree_events t)"
proof (cases "pinned_by ids keys t")
  case True
  then show ?thesis by (simp add: prune_pinned_root moved_rows_def)
next
  case False
  obtain l cs where t: "t = LaneTree l cs" by (cases t)
  let ?kept = "filter (\<lambda>c. \<not> pinned_by ids keys c) cs" and ?ev = "\<lambda>ts. \<Sum>s\<leftarrow>ts. mset (tree_events s)"
  have flat: "mset (tree_events (LaneTree l' ts)) = mset (rl_events l') + ?ev ts" for l' ts
    by (simp add: mset_concat comp_def)
  have split: "?ev ?kept + ?ev (filter (pinned_by ids keys) cs) = ?ev cs"
    by (induction cs) (auto simp: add_ac)
  have same: "length ?kept = length cs \<longleftrightarrow> filter (pinned_by ids keys) cs = []"
    by (metis (no_types, lifting) filter_empty_conv filter_id_conv length_filter_less less_irrefl)
  show ?thesis
    unfolding prune_shallow [OF assms False] moved_rows_def using False split same
    by (auto simp: t Let_def flat add_ac simp del: tree_events.simps)
qed

lemma filter_all: "length (filter P xs) = length xs \<Longrightarrow> filter P xs = xs"
proof (induction xs)
  case (Cons x xs)
  then show ?case using length_filter_le [of P xs] by (cases "P x") auto
qed simp

lemma if_some_cases: "(if a then Some x else if b then None else Some y) = Some u \<Longrightarrow> a \<and> u = x \<or> u = y"
  by (auto split: if_splits)

lemma prune_none_pinned:
  assumes "pins_are_shallow ids keys t" "prune_pinned ids keys t = Some u"
  shows "list_all (\<lambda>s. \<not> pinned_by ids keys s) (subtrees u)"
proof -
  have no: "\<not> pinned_by ids keys t" using assms(2) prune_pinned_root by force
  obtain l cs where t: "t = LaneTree l cs" by (cases t)
  let ?kept = "filter (\<lambda>c. \<not> pinned_by ids keys c) cs"
  have clean: "list_all (\<lambda>s. \<not> pinned_by ids keys s) (subtrees c)" if "c \<in> set ?kept" for c
    using assms(1) that by (cases c) (auto simp: t pins_are_shallow_def list_all_iff)
  have kept: "length ?kept = length cs \<Longrightarrow> ?kept = cs" by (rule filter_all)
  from assms(2) [unfolded prune_shallow [OF assms(1) no], unfolded t Let_def lane_tree.sel]
  have "length ?kept = length cs \<and> u = LaneTree l cs \<or>
      u = LaneTree (l\<lparr>rl_all_events := Some (subtree_events (LaneTree l ?kept)),
        rl_child_event_count := (\<Sum>c\<leftarrow>?kept. length (lane_event_list (tree_lane c)))\<rparr>) ?kept"
    by (rule if_some_cases)
  then have "\<exists>l'. u = LaneTree l' ?kept \<and> rl_id l' = rl_id l \<and> rl_app l' = rl_app l"
  proof
    assume "length ?kept = length cs \<and> u = LaneTree l cs"
    then show ?thesis using kept by (intro exI [of _ l]) simp
  next
    assume "u = LaneTree (l\<lparr>rl_all_events := Some (subtree_events (LaneTree l ?kept)),
        rl_child_event_count := (\<Sum>c\<leftarrow>?kept. length (lane_event_list (tree_lane c)))\<rparr>) ?kept"
    then show ?thesis by simp
  qed
  then obtain l' where "u = LaneTree l' ?kept" "rl_id l' = rl_id l" "rl_app l' = rl_app l" by blast
  moreover from this have "pinned_by ids keys u = pinned_by ids keys t"
    by (simp only: t pinned_by_def tree_id_def app_key_of_def lane_tree.sel)
  ultimately have "pinned_by ids keys u = False" "subtrees u = u # concat (map subtrees ?kept)" using no by simp_all
  moreover have "list_all (\<lambda>s. \<not> pinned_by ids keys s) (concat (map subtrees ?kept))"
    using clean unfolding list_all_iff set_concat set_map by blast
  ultimately show ?thesis unfolding list_all_iff by (metis set_ConsD)
qed

text \<open>
  A pin moves its row: when the pinned lanes are roots or children of roots, none of them is left in the
  regular list, and the events of the regular list and of the pinned lanes together are those there were.
\<close>

theorem pin_moves_its_row:
  assumes "\<forall>t \<in> set lanes. pins_are_shallow ids keys t"
  shows "list_all (\<lambda>s. \<not> pinned_by ids keys s) (concat (map subtrees (remove_pinned_lanes lanes ids keys)))
    \<and> mset (concat (map tree_events (remove_pinned_lanes lanes ids keys)))
        + mset (concat (map tree_events (concat (map (moved_rows ids keys) lanes))))
      = mset (concat (map tree_events lanes))"
proof -
  have "\<not> pinned_by [] [] s" for s by (simp add: pinned_by_def split: option.split)
  then have "prune_pinned [] [] t = Some t" for t by (intro prune_unpinned) (simp add: list_all_iff)
  then have "List.map_filter (prune_pinned [] []) lanes = lanes"
    by (induction lanes) (simp_all add: List.map_filter_simps)
  then have removed: "remove_pinned_lanes lanes ids keys = List.map_filter (prune_pinned ids keys) lanes"
    by (simp add: remove_pinned_lanes_def)
  have "list_all (\<lambda>s. \<not> pinned_by ids keys s) (concat (map subtrees (List.map_filter (prune_pinned ids keys) lanes)))"
    using assms prune_none_pinned by (fastforce simp: List.map_filter_def list_all_iff)
  moreover have "mset (concat (map tree_events (List.map_filter (prune_pinned ids keys) lanes)))
      + mset (concat (map tree_events (concat (map (moved_rows ids keys) lanes)))) = mset (concat (map tree_events lanes))"
    using assms
  proof (induction lanes)
    case (Cons t lanes)
    then have "mset (tree_events t) = (case prune_pinned ids keys t of None \<Rightarrow> {#} | Some u \<Rightarrow> mset (tree_events u))
        + (\<Sum>s\<leftarrow>moved_rows ids keys t. mset (tree_events s))"
      by (metis prune_events list.set_intros(1))
    moreover have "mset (concat (map tree_events ss)) = (\<Sum>s\<leftarrow>ss. mset (tree_events s))" for ss
      by (simp add: mset_concat comp_def)
    ultimately show ?case
      using Cons by (cases "prune_pinned ids keys t") (simp_all add: List.map_filter_simps add_ac flip: Cons.IH)
  qed (simp add: List.map_filter_simps)
  ultimately show ?thesis by (simp add: removed)
qed

definition sample_chain :: lane_tree where
  \<comment> \<open>CronJob, Job and Pod, one event each\<close>
  "sample_chain =
     (let lane = \<lambda>i kind name. new_lane (kind @ ''/shop/'' @ name) kind None False False ''shop'' name [sample_lane_event i kind name None]
      in LaneTree (lane ''1'' ''CronJob'' ''nightly'') [LaneTree (lane ''2'' ''Job'' ''nightly-29'') [LaneTree (lane ''3'' ''Pod'' ''nightly-29-x7'') []]])"

lemma sample_chain_shallow: "pins_are_shallow [''Job/shop/nightly-29''] [] sample_chain" by code_simp

lemma pin_moves_its_row_witness:
  "list_all (\<lambda>s. \<not> pinned_by [''Job/shop/nightly-29''] [] s)
     (concat (map subtrees (remove_pinned_lanes [sample_chain] [''Job/shop/nightly-29''] [])))
   \<and> map rl_id (concat (map tree_lanes (remove_pinned_lanes [sample_chain] [''Job/shop/nightly-29''] []))) = [''CronJob/shop/nightly'']"
proof
  show "list_all (\<lambda>s. \<not> pinned_by [''Job/shop/nightly-29''] [] s)
     (concat (map subtrees (remove_pinned_lanes [sample_chain] [''Job/shop/nightly-29''] [])))"
    using pin_moves_its_row [of "[sample_chain]" "[''Job/shop/nightly-29'']" "[]"] sample_chain_shallow by simp
  show "map rl_id (concat (map tree_lanes (remove_pinned_lanes [sample_chain] [''Job/shop/nightly-29''] []))) = [''CronJob/shop/nightly'']"
    by code_simp
qed

text \<open>
  Deeper pins stay where they are: with the Pod of the chain pinned, the CronJob keeps as many children as it
  had, and the unpruned lane is kept. The pinned Pod is then in the pinned section and in the regular list.
\<close>

lemma pinned_grandchild_is_painted_twice:
  "remove_pinned_lanes [sample_chain] [''Pod/shop/nightly-29-x7''] [] = [sample_chain]
   \<and> map tree_id (extract_pinned_lanes [sample_chain]
        [PinResource \<lparr>pr_id = ''Pod/shop/nightly-29-x7'', pr_kind = ''Pod'', pr_group = Some [],
                      pr_namespace = ''shop'', pr_name = ''nightly-29-x7''\<rparr>]) = [''Pod/shop/nightly-29-x7'']
   \<and> ''Pod/shop/nightly-29-x7'' \<in> set (map rl_id (tree_lanes sample_chain))"
  by code_simp

text \<open>
  The collapsed track of a pinned row that is no root: \<open>withAllEventsSorted\<close> merges the events of its children,
  not of their children, where \<open>subtreeEvents\<close> has them all.
\<close>

lemma pinned_row_drops_grandchildren:
  "map ev_id (coalesce (rl_all_events (tree_lane (with_all_events_sorted sample_chain))) []) = [''1'', ''2'']
   \<and> map ev_id (subtree_events sample_chain) = [''1'', ''2'', ''3'']"
  by code_simp

end
