(* ===== verification/Applications.thy ===== *)
theory Applications
  imports Resource_Hierarchy Workload_Rollout Complex_Main
begin

text \<open>
  The Applications surface (\<open>packages/k8s-ui/src/utils/applications.ts\<close>): environments, versions,
  provenance, the membership index the timeline joins on, the folding of rows into application groups,
  health and batch activity, and the entries of the list. Rows arrive from the server; fields no function
  reads are left out. Counts are whole numbers. \<open>localeCompare\<close> and \<open>Date.parse\<close> are parameters. A lookup
  in an object literal finds the listed keys only.
\<close>

section \<open>Rows of the wire\<close>

datatype app_workload_class = ClsService | ClsWorker | ClsJob | ClsMixed | ClsUnknown

record app_batch_summary =
  bs_schedule :: "string option"
  bs_suspended :: "bool option"
  bs_active_runs :: "int option"
  bs_retained_runs :: "int option"
  bs_failed_runs :: "int option"
  bs_succeeded_runs :: "int option"
  bs_latest_run_name :: "string option"
  bs_latest_run_phase :: "string option"
  bs_latest_started_at :: "string option"
  bs_latest_finished_at :: "string option"
  bs_last_scheduled_at :: "string option"
  bs_last_successful_at :: "string option"
  bs_message :: "string option"

record app_workload =
  aw_kind :: string
  aw_group :: "string option"
  aw_namespace :: string
  aw_name :: string
  aw_workload_class :: "string option"
  aw_version :: "string option"
  aw_health :: string
  aw_ready :: "int option"
  aw_desired :: "int option"
  aw_rollout :: "rollout_activity option"
  aw_batch :: "app_batch_summary option"

record app_relationships =
  al_services :: "string list"
  al_ingresses :: "string list"
  al_routes :: "string list"
  al_service_refs :: "resource_ref list"
  al_ingress_refs :: "resource_ref list"
  al_route_refs :: "resource_ref list"
  al_config_refs :: "resource_ref list"
  al_scaler_refs :: "resource_ref list"
  al_storage_refs :: "resource_ref list"
  al_pdb_refs :: "resource_ref list"
  al_network_policy_refs :: "resource_ref list"

record app_source_status =
  st_sync :: "string option"
  st_health :: "string option"

record app_identity =
  id_key :: string
  id_env :: string
  id_confidence :: string
  id_evidence :: string
  id_portable :: "bool option"
  id_source :: "string option"
  id_path_key :: "string option"

record app_row =
  row_key :: string
  row_name :: string
  row_namespace :: "string option"
  row_namespaces :: "string list"
  row_identity :: "app_identity option"
  row_tier :: "int option"
  row_category :: "string option"
  row_workload_class :: "string option"
  row_health :: string
  row_versions :: "string list"
  row_app_version :: "string option"
  row_source_ref :: "resource_ref option"
  row_source_status :: "app_source_status option"
  row_workloads :: "app_workload list"
  row_relationships :: "app_relationships option"
  row_match_keys :: "string list"

definition workload_class_of :: "string option \<Rightarrow> app_workload_class" where
  "workload_class_of v =
     (if v = Some ''service'' then ClsService
      else if v = Some ''worker'' then ClsWorker
      else if v = Some ''job'' then ClsJob
      else if v = Some ''mixed'' then ClsMixed
      else ClsUnknown)"

section \<open>Health\<close>

definition named_health :: "string \<Rightarrow> health_status option" where
  "named_health s =
     map_of [(''unhealthy'', StUnhealthy), (''degraded'', StDegraded), (''unknown'', StUnknown),
             (''healthy'', StHealthy), (''neutral'', StNeutral)] s"

fun health_rank :: "health_status \<Rightarrow> nat" where
  "health_rank StUnhealthy = 4"
| "health_rank StDegraded = 3"
| "health_rank StUnknown = 2"
| "health_rank StHealthy = 1"
| "health_rank StNeutral = 0"

definition health_of :: "string \<Rightarrow> health_status" where
  "health_of v = coalesce (named_health v) StUnknown"

definition worse :: "health_status \<Rightarrow> health_status \<Rightarrow> health_status" where
  "worse h w = (if health_rank h > health_rank w then h else w)"

definition worst_of :: "health_status list \<Rightarrow> health_status" where
  \<comment> \<open>\<open>worstHealth\<close> of health values\<close>
  "worst_of hs = fold worse hs StNeutral"

definition worst_health :: "string list \<Rightarrow> health_status" where
  \<comment> \<open>of strings of the wire: a string that names no health ranks 0, so it never wins\<close>
  "worst_health hs = worst_of (List.map_filter named_health hs)"

section \<open>Rollouts of several applications\<close>

definition level_health :: "rollout_level \<Rightarrow> health_status" where
  "level_health l = (case l of RlHealthy \<Rightarrow> StHealthy | RlNeutral \<Rightarrow> StNeutral | RlDegraded \<Rightarrow> StDegraded | RlUnhealthy \<Rightarrow> StUnhealthy)"

definition rollout_display_health :: "rollout_activity \<Rightarrow> string \<Rightarrow> health_status" where
  "rollout_display_health a workload_health =
     (let rollout = level_health (rollout_activity_level a); serving = health_of workload_health
      in if serving = StHealthy \<or> serving = StNeutral then rollout else worst_of [rollout, serving])"

definition rollout_entries :: "app_row list \<Rightarrow> (app_row \<times> app_workload \<times> rollout_activity) list" where
  "rollout_entries apps =
     concat (map (\<lambda>app. List.map_filter (\<lambda>w. case aw_rollout w of
         None \<Rightarrow> None
       | Some r \<Rightarrow> if ra_active r \<or> ra_phase r = PhStalled then Some (app, w, r) else None) (row_workloads app)) apps)"

definition rollout_rank :: "rollout_phase \<Rightarrow> nat" where
  "rollout_rank ph = (if ph = PhStalled then 3 else if ph = PhPaused then 2 else 1)"

definition worst_rollout :: "(app_row \<times> app_workload \<times> rollout_activity) \<Rightarrow> (app_row \<times> app_workload \<times> rollout_activity) list
    \<Rightarrow> app_row \<times> app_workload \<times> rollout_activity" where
  "worst_rollout e es =
     fold (\<lambda>entry current. if rollout_rank (ra_phase (snd (snd entry))) > rollout_rank (ra_phase (snd (snd current)))
                           then entry else current) es e"

record app_rollout_summary =
  as_count :: nat
  as_label :: string
  as_detail :: string
  as_details :: "string list"
  as_health :: health_status

definition em_dash :: string where
  "em_dash = '' '' @ [CHR 0xE2, CHR 0x80, CHR 0x94] @ '' ''"

definition rollout_detail_line :: "bool \<Rightarrow> app_row \<times> app_workload \<times> rollout_activity \<Rightarrow> string" where
  "rollout_detail_line several entry =
     (case entry of (app, w, r) \<Rightarrow>
        str_if several (row_name app @ '' / '') @ aw_name w @ '': '' @ ra_label r
        @ str_if (ra_detail r \<noteq> []) (em_dash @ ra_detail r))"

definition rollout_count_label :: "nat \<Rightarrow> nat \<Rightarrow> string \<Rightarrow> string" where
  "rollout_count_label n stalled sole =
     (if n = 1 then sole
      else if stalled > 0
      then (if stalled = n then show_nat stalled @ '' stalled''
            else show_nat stalled @ '' stalled'' @ dot_sep @ show_nat (n - stalled) @ '' waiting'')
      else show_nat n @ '' updating'')"

definition rollout_summary_for_apps :: "app_row list \<Rightarrow> app_rollout_summary option" where
  "rollout_summary_for_apps apps =
     (case rollout_entries apps of
        [] \<Rightarrow> None
      | e # es \<Rightarrow>
          let entries = e # es;
              health = worst_of (map (\<lambda>(app, w, r). rollout_display_health r (aw_health w)) entries);
              stalled = length (filter (\<lambda>(app, w, r). ra_phase r = PhStalled) entries);
              label = rollout_count_label (length entries) stalled (ra_label (snd (snd (worst_rollout e es))));
              details = map (rollout_detail_line (length apps > 1)) entries;
              shown = take 8 details;
              detail = join dot_sep shown
                @ str_if (length details > length shown) (dot_sep @ ''+'' @ show_nat (length details - length shown) @ '' more'')
          in Some \<lparr>as_count = length entries, as_label = label, as_detail = detail, as_details = details, as_health = health\<rparr>)"

section \<open>How an application was grouped\<close>

definition app_identity_annotation :: string where
  "app_identity_annotation = ''app.skyhook.io/app''"

definition is_declared_app_source :: "string option \<Rightarrow> bool" where
  "is_declared_app_source src \<longleftrightarrow> src \<in> {Some ''explicit'', Some ''argo-path'', Some ''argo-appset'', Some ''flux-source''}"

definition app_source_label :: "string option \<Rightarrow> string" where
  "app_source_label src =
     coalesce (map_of
       [(''explicit'', ''the '' @ app_identity_annotation @ '' annotation''),
        (''argo-path'', ''its Argo CD source path''),
        (''argo-appset'', ''its ApplicationSet (env fan-out)''),
        (''flux-source'', ''its Flux source''),
        (''addon'', ''a shared add-on name + chart/image''),
        (''label'', ''the app.kubernetes.io/name label''),
        (''name-stem'', ''a shared name + image''),
        (''namespace'', ''a shared namespace + image'')] (coalesce src [])) ''its workload grouping''"

record grouping_explainer =
  ge_folds :: bool
  ge_how :: string
  ge_fix :: "string option"

definition app_grouping_explainer :: "app_identity option \<Rightarrow> grouping_explainer" where
  "app_grouping_explainer identity =
     (let src = Option.bind identity id_source; folds = is_declared_app_source src
      in \<lparr>ge_folds = folds, ge_how = ''Grouped by '' @ app_source_label src @ ''.'',
          ge_fix = (if folds then None
             else Some (''This app only has a per-cluster name, which can'' @ [CHR 0x27] @ ''t prove two clusters run the same app. To fold it across clusters, set ''
               @ app_identity_annotation
               @ '' on its workloads in each cluster (same value), or deploy it via Argo CD / Flux with the environment in the source path.''))\<rparr>)"

section \<open>Environments\<close>

definition env_rank :: "string option \<Rightarrow> nat option" where
  "env_rank env =
     (if \<not> truthy_str env then None
      else map_of [(''dev'', 0), (''staging'', 1), (''prod'', 2)] (to_lower (coalesce env [])))"

definition env_ns_tokens :: "(string \<times> string) list" where
  "env_ns_tokens =
     [(''dev'', ''dev''), (''devel'', ''dev''), (''develop'', ''dev''), (''development'', ''dev''),
      (''stg'', ''staging''), (''stage'', ''staging''), (''staging'', ''staging''),
      (''prd'', ''prod''), (''prod'', ''prod''), (''production'', ''prod''), (''live'', ''prod'')]"

definition env_token :: "string list \<Rightarrow> string \<Rightarrow> string option" where
  "env_token extra tok = coalesce_opt (map_of env_ns_tokens tok) (if tok \<in> set extra then Some tok else None)"

definition dash_segments :: "string \<Rightarrow> string list" where
  \<comment> \<open>\<open>split(/[-_]/).filter(Boolean)\<close>\<close>
  "dash_segments s = filter (\<lambda>w. w \<noteq> []) (split_char CHR ''-'' (map (\<lambda>c. if c = CHR ''_'' then CHR ''-'' else c) s))"

definition env_from_namespace :: "string option \<Rightarrow> string list \<Rightarrow> string option" where
  "env_from_namespace ns extra =
     (if \<not> truthy_str ns then None
      else let lower = to_lower (coalesce ns [])
           in case env_token extra lower of
                Some e \<Rightarrow> Some e
              | None \<Rightarrow> (case List.map_filter (env_token extra) (dash_segments lower) of [] \<Rightarrow> None | e # es \<Rightarrow> Some e))"

record resolved_app_env =
  re_env :: string
  re_inferred :: bool

definition resolve_env :: "string option \<Rightarrow> string option \<Rightarrow> string list \<Rightarrow> resolved_app_env" where
  "resolve_env explicit_env ns extra =
     (let explicit = trim (or_else explicit_env [])
      in if explicit \<noteq> [] then \<lparr>re_env = to_lower explicit, re_inferred = False\<rparr>
         else case env_from_namespace ns extra of
                Some e \<Rightarrow> \<lparr>re_env = e, re_inferred = True\<rparr>
              | None \<Rightarrow> \<lparr>re_env = [], re_inferred = False\<rparr>)"

definition identity_env_inferred :: "app_identity option \<Rightarrow> bool" where
  "identity_env_inferred identity =
     (case identity of None \<Rightarrow> False | Some i \<Rightarrow> starts_with (id_evidence i) ''namespace stem '')"

definition system_namespaces :: "string list" where
  "system_namespaces = [''kube-system'', ''kube-public'', ''kube-node-lease'', ''kube-flannel'', ''local-path-storage'']"

definition is_system_namespace :: "string option \<Rightarrow> bool" where
  "is_system_namespace ns \<longleftrightarrow>
     truthy_str ns
     \<and> (let lower = to_lower (coalesce ns [])
        in lower \<in> set system_namespaces \<or> ends_with lower ''-system'' \<or> starts_with lower ''gke-managed-'')"

datatype app_category = CatApp | CatAddon | CatMixed

definition category_label :: "app_category \<Rightarrow> string" where
  "category_label c = (case c of CatApp \<Rightarrow> ''App'' | CatAddon \<Rightarrow> ''Add-on'' | CatMixed \<Rightarrow> ''Mixed'')"

definition category_tooltip :: "app_category \<Rightarrow> string" where
  "category_tooltip c =
     (case c of
        CatApp \<Rightarrow> ''Software you deploy and run'' @ em_dash @ ''services, workers, jobs.''
      | CatAddon \<Rightarrow> ''Platform machinery (controllers, operators, system charts), classified by chart/label evidence. Shown for completeness.''
      | CatMixed \<Rightarrow> ''Has both app and add-on evidence. Kept visible'' @ em_dash @ ''classification is informational, not identity.'')"

definition category_of_app :: "string option \<Rightarrow> app_category" where
  "category_of_app c = (if c = Some ''addon'' then CatAddon else if c = Some ''mixed'' then CatMixed else CatApp)"

section \<open>Versions\<close>

definition digits_value :: "string \<Rightarrow> int" where
  \<comment> \<open>\<open>parseInt(s, 10)\<close> of a string of digits\<close>
  "digits_value s = foldl (\<lambda>n c. 10 * n + (of_char c - 48)) 0 s"

definition all_digits :: "string \<Rightarrow> bool" where
  \<comment> \<open>\<open>/^\d+$/\<close>\<close>
  "all_digits s \<longleftrightarrow> s \<noteq> [] \<and> list_all is_digit_char s"

definition strip_v :: "string \<Rightarrow> string" where
  \<comment> \<open>\<open>replace(/^v/i, "")\<close>\<close>
  "strip_v s = (case s of [] \<Rightarrow> [] | c # cs \<Rightarrow> if c = CHR ''v'' \<or> c = CHR ''V'' then cs else s)"

definition parse_version :: "string option \<Rightarrow> int list option" where
  "parse_version v =
     (if \<not> truthy_str v then None
      else let parts = split_char CHR ''.'' (strip_v (trim (coalesce v [])))
           in if list_all all_digits parts then Some (map digits_value parts) else None)"

definition date_sep :: "char \<Rightarrow> bool" where
  "date_sep c \<longleftrightarrow> c = CHR ''-'' \<or> c = CHR ''_'' \<or> c = CHR ''.''"

definition date_tail :: "string \<Rightarrow> int option" where
  \<comment> \<open>\<open>[-_](\d{4})[-_.](\d{2})[-_.](\d{2})(?:[-_.](\d+))?$\<close> and its order\<close>
  "date_tail s =
     (let y = take 4 (drop 1 s); mo = take 2 (drop 6 s); d = take 2 (drop 9 s); rest = drop 11 s
      in if length s \<ge> 11 \<and> (s ! 0 = CHR ''-'' \<or> s ! 0 = CHR ''_'') \<and> date_sep (s ! 5) \<and> date_sep (s ! 8)
            \<and> all_digits y \<and> all_digits mo \<and> all_digits d
            \<and> (rest = [] \<or> date_sep (hd rest) \<and> all_digits (tl rest))
         then Some (digits_value y * 10 ^ 8 + digits_value mo * 10 ^ 6 + digits_value d * 10 ^ 4 + digits_value (tl rest))
         else None)"

definition is_line_end :: "char \<Rightarrow> bool" where
  \<comment> \<open>what \<open>.\<close> does not match\<close>
  "is_line_end c \<longleftrightarrow> c = CHR 0x0A \<or> c = CHR 0x0D"

fun find_date_tag :: "string \<Rightarrow> string \<Rightarrow> (string \<times> int) option" where
  \<comment> \<open>\<open>(.*?)\<close> grows until the rest is a date\<close>
  "find_date_tag pre [] = None"
| "find_date_tag pre (c # cs) =
     (case date_tail (c # cs) of
        Some ord \<Rightarrow> Some (pre, ord)
      | None \<Rightarrow> if is_line_end c then None else find_date_tag (pre @ [c]) cs)"

definition parse_date_tag :: "string \<Rightarrow> (string \<times> int) option" where
  "parse_date_tag v = find_date_tag [] v"

definition cmp_int :: "int \<Rightarrow> int \<Rightarrow> int" where
  "cmp_int x y = (if x = y then 0 else if x < y then - 1 else 1)"

fun compare_parts :: "int list \<Rightarrow> int list \<Rightarrow> int" where
  \<comment> \<open>the loop over the parts, the shorter list padded with zeros\<close>
  "compare_parts [] [] = 0"
| "compare_parts (x # xs) [] = (if x \<noteq> 0 then cmp_int x 0 else compare_parts xs [])"
| "compare_parts [] (y # ys) = (if 0 \<noteq> y then cmp_int 0 y else compare_parts [] ys)"
| "compare_parts (x # xs) (y # ys) = (if x \<noteq> y then cmp_int x y else compare_parts xs ys)"

definition compare_semver :: "string option \<Rightarrow> string option \<Rightarrow> int option" where
  "compare_semver a b =
     (case (parse_version a, parse_version b) of (Some pa, Some pb) \<Rightarrow> Some (compare_parts pa pb) | _ \<Rightarrow> None)"

definition date_of :: "string option \<Rightarrow> (string \<times> int) option" where
  "date_of v = (if truthy_str v then parse_date_tag (coalesce v []) else None)"

definition compare_versions :: "string option \<Rightarrow> string option \<Rightarrow> int option" where
  "compare_versions a b =
     (if truthy_str a \<and> truthy_str b
      then (case (date_of a, date_of b) of
              (Some (p, x), Some (q, y)) \<Rightarrow> if p \<noteq> q then None else Some (cmp_int x y)
            | (None, None) \<Rightarrow> compare_semver a b
            | _ \<Rightarrow> None)
      else compare_semver a b)"

definition newer :: "string \<Rightarrow> string \<Rightarrow> bool" where
  "newer v best \<longleftrightarrow> compare_versions (Some v) (Some best) = Some 1"

definition newest_step :: "string \<Rightarrow> string option \<Rightarrow> string option" where
  "newest_step v best =
     (let t = trim v in
      if t = [] then best else case best of None \<Rightarrow> Some t | Some b \<Rightarrow> if newer t b then Some t else Some b)"

definition newest_tag :: "string list \<Rightarrow> string option" where
  "newest_tag versions = fold newest_step versions None"

section \<open>Provenance\<close>

datatype app_source = SrcArgocd | SrcFlux | SrcHelm | SrcLabel | SrcUngrouped

definition app_source_meta :: "app_source \<Rightarrow> string" where
  "app_source_meta src =
     (case src of SrcArgocd \<Rightarrow> ''Argo CD'' | SrcFlux \<Rightarrow> ''Flux'' | SrcHelm \<Rightarrow> ''Helm'' | SrcLabel \<Rightarrow> ''Label'' | SrcUngrouped \<Rightarrow> ''Ungrouped'')"

record tier_meta =
  tm_source :: app_source
  tm_lead :: string
  tm_code :: "string option" \<comment> \<open>None for the name of the application\<close>
  tm_trail :: "string option"

definition tier_meta_of :: "int \<Rightarrow> tier_meta option" where
  "tier_meta_of tier =
     map_of
       [(1, \<lparr>tm_source = SrcFlux, tm_lead = ''its Flux HelmRelease'', tm_code = None, tm_trail = None\<rparr>),
        (2, \<lparr>tm_source = SrcFlux, tm_lead = ''its Flux Kustomization'', tm_code = None, tm_trail = None\<rparr>),
        (3, \<lparr>tm_source = SrcArgocd, tm_lead = ''its Argo CD Application'', tm_code = None, tm_trail = None\<rparr>),
        (4, \<lparr>tm_source = SrcArgocd, tm_lead = ''its Argo CD Application'', tm_code = None, tm_trail = None\<rparr>),
        (5, \<lparr>tm_source = SrcHelm, tm_lead = ''its Helm release'', tm_code = None, tm_trail = None\<rparr>),
        (6, \<lparr>tm_source = SrcLabel, tm_lead = ''the'', tm_code = Some ''app.kubernetes.io/instance'', tm_trail = Some ''label''\<rparr>),
        (7, \<lparr>tm_source = SrcLabel, tm_lead = ''the'', tm_code = Some ''app.kubernetes.io/part-of'', tm_trail = Some ''label''\<rparr>),
        (8, \<lparr>tm_source = SrcLabel, tm_lead = ''the'', tm_code = Some ''app.kubernetes.io/name'', tm_trail = Some ''label''\<rparr>),
        (9, \<lparr>tm_source = SrcLabel, tm_lead = ''the'', tm_code = Some ''app'', tm_trail = Some ''label''\<rparr>)] tier"

definition source_of :: "int option \<Rightarrow> app_source" where
  "source_of tier =
     (if \<not> truthy_num tier then SrcUngrouped
      else case tier_meta_of (coalesce tier 0) of Some m \<Rightarrow> tm_source m | None \<Rightarrow> SrcLabel)"

definition overlay_provenance :: "int option \<Rightarrow> string" where
  "overlay_provenance tier = app_source_meta (source_of tier)"

definition before_last :: "char \<Rightarrow> string \<Rightarrow> string" where
  \<comment> \<open>\<open>s.slice(0, s.lastIndexOf(c))\<close> for a \<open>c\<close> in \<open>s\<close>\<close>
  "before_last c s = rev (drop 1 (dropWhile (\<lambda>x. x \<noteq> c) (rev s)))"

definition app_name_from_key :: "string \<Rightarrow> string" where
  "app_name_from_key key = (if CHR ''/'' \<in> set key \<and> after_last CHR ''/'' key \<noteq> [] then after_last CHR ''/'' key else key)"

record provenance_source =
  ps_lead :: string
  ps_code :: string
  ps_trail :: "string option"

definition provenance_source_of :: "int option \<Rightarrow> string \<Rightarrow> provenance_source" where
  "provenance_source_of tier key =
     (case (if truthy_num tier then tier_meta_of (coalesce tier 0) else None) of
        None \<Rightarrow> \<lparr>ps_lead = ''cluster-native evidence'', ps_code = [], ps_trail = None\<rparr>
      | Some m \<Rightarrow> \<lparr>ps_lead = tm_lead m, ps_code = coalesce (tm_code m) (app_name_from_key key), ps_trail = tm_trail m\<rparr>)"

definition namespaces_of :: "app_row \<Rightarrow> string list" where
  "namespaces_of app =
     (if row_namespaces app \<noteq> [] then row_namespaces app
      else let nss = js_sort str_cmp (set_from (filter (\<lambda>n. n \<noteq> []) (map aw_namespace (row_workloads app))))
           in if nss \<noteq> [] then nss
              else if truthy_str (row_namespace app) then [coalesce (row_namespace app) []] else [])"

definition namespace_of :: "app_row \<Rightarrow> string" where
  "namespace_of app = (case namespaces_of app of [n] \<Rightarrow> n | _ \<Rightarrow> [])"

section \<open>The membership index\<close>

definition set_first :: "'v \<Rightarrow> string \<Rightarrow> (string \<times> 'v) list \<Rightarrow> (string \<times> 'v) list" where
  "set_first v key m = (if map_of m key = None then m @ [(key, v)] else m)"

definition membership_of :: "app_row \<Rightarrow> app_membership" where
  "membership_of row =
     \<lparr>am_app_key = row_key row, am_app_name = row_name row,
      am_env = (case row_identity row of Some i \<Rightarrow> if id_env i \<noteq> [] then Some (id_env i) else None | None \<Rightarrow> None),
      am_evidence = (case row_identity row of Some i \<Rightarrow> if id_evidence i \<noteq> [] then Some (id_evidence i) else None | None \<Rightarrow> None)\<rparr>"

definition workload_keys :: "app_row \<Rightarrow> string list" where
  "workload_keys row =
     map (\<lambda>w. lane_id (aw_kind w) (aw_group w) (aw_namespace w) (aw_name w))
       (filter (\<lambda>w. aw_kind w \<noteq> [] \<and> aw_name w \<noteq> []) (row_workloads row))"

definition route_key :: "string \<Rightarrow> string \<Rightarrow> string" where
  "route_key ns r =
     (let slashed = (CHR ''/'' \<in> set r \<and> hd r \<noteq> CHR ''/'');
          kind = (if slashed then before_char CHR ''/'' r else ''Route'');
          name = (if slashed then after_char CHR ''/'' r else r)
      in lane_resource_key kind ns name)"

definition satellite_keys :: "string \<Rightarrow> app_relationships \<Rightarrow> string list" where
  \<comment> \<open>satellites by name, where the row has no references of their kind\<close>
  "satellite_keys ns rel =
     (if al_service_refs rel = [] then map (lane_resource_key ''Service'' ns) (al_services rel) else [])
     @ (if al_ingress_refs rel = [] then map (lane_resource_key ''Ingress'' ns) (al_ingresses rel) else [])
     @ (if al_route_refs rel = [] then map (route_key ns) (al_routes rel) else [])"

definition app_ref_key :: "resource_ref \<Rightarrow> string" where
  "app_ref_key r = lane_id (resource_ref.rr_kind r) (resource_ref.rr_group r) (resource_ref.rr_namespace r) (resource_ref.rr_name r)"

definition named_ref :: "resource_ref \<Rightarrow> bool" where
  "named_ref r \<longleftrightarrow> resource_ref.rr_kind r \<noteq> [] \<and> resource_ref.rr_name r \<noteq> []"

definition explicit_ref_keys :: "app_relationships \<Rightarrow> string list" where
  "explicit_ref_keys rel =
     map app_ref_key (filter named_ref
       (concat [al_service_refs rel, al_ingress_refs rel, al_route_refs rel, al_config_refs rel,
                al_scaler_refs rel, al_storage_refs rel, al_pdb_refs rel, al_network_policy_refs rel]))"

definition claimed_keys :: "app_row \<Rightarrow> string list" where
  \<comment> \<open>the keys a row puts its membership under, in the order of the code\<close>
  "claimed_keys row =
     workload_keys row
     @ (case row_relationships row of
          None \<Rightarrow> []
        | Some rel \<Rightarrow> (if namespace_of row \<noteq> [] then satellite_keys (namespace_of row) rel else []) @ explicit_ref_keys rel)
     @ (case row_source_ref row of None \<Rightarrow> [] | Some r \<Rightarrow> if named_ref r then [app_ref_key r] else [])"

definition evidence_keys :: "app_row \<Rightarrow> string list" where
  "evidence_keys row = filter (\<lambda>k. \<not> starts_with k ''name-stem:'') (row_match_keys row)"

record alias_state =
  al_by_unqualified :: "(string \<times> app_membership) list"
  al_canonical :: "(string \<times> string) list"
  al_ambiguous :: "string list"

definition unqualified_key :: "string \<Rightarrow> string option" where
  "unqualified_key canonical =
     map_option (\<lambda>p. lane_resource_key (ln_kind p) (ln_namespace p) (ln_name p)) (parse_lane_id canonical)"

definition alias_step :: "string \<times> app_membership \<Rightarrow> alias_state \<Rightarrow> alias_state" where
  "alias_step entry st =
     (case entry of (canonical, membership) \<Rightarrow>
        case unqualified_key canonical of
          None \<Rightarrow> st
        | Some k \<Rightarrow>
            let previous = map_of (al_canonical st) k
            in if truthy_str previous \<and> previous \<noteq> Some canonical
               then st\<lparr>al_ambiguous := set_add k (al_ambiguous st), al_by_unqualified := AList.delete k (al_by_unqualified st)\<rparr>
               else st\<lparr>al_canonical := AList.update k canonical (al_canonical st),
                       al_by_unqualified := (if k \<in> set (al_ambiguous st) then al_by_unqualified st
                         else AList.update k membership (al_by_unqualified st))\<rparr>)"

definition unqualified_aliases :: "(string \<times> app_membership) list \<Rightarrow> (string \<times> app_membership) list" where
  "unqualified_aliases by_resource =
     al_by_unqualified (fold alias_step by_resource \<lparr>al_by_unqualified = [], al_canonical = [], al_ambiguous = []\<rparr>)"

definition index_rows :: "(app_row \<Rightarrow> string list) \<Rightarrow> app_row list \<Rightarrow> (string \<times> app_membership) list" where
  "index_rows keys rows = fold (\<lambda>row m. fold (set_first (membership_of row)) (keys row) m) rows []"

definition build_app_membership_index :: "app_row list \<Rightarrow> app_membership_index" where
  "build_app_membership_index rows =
     (let by_resource = index_rows claimed_keys rows
      in \<lparr>ai_by_resource = by_resource, ai_by_unqualified = Some (unqualified_aliases by_resource),
          ai_by_evidence = index_rows evidence_keys rows\<rparr>)"

section \<open>The same workload in another environment\<close>

definition name_env_tokens :: "string list" where
  "name_env_tokens = [''dev'', ''development'', ''staging'', ''stage'', ''stg'', ''prod'', ''production'', ''prd'',
     ''qa'', ''uat'', ''preprod'', ''preview'', ''canary'']"

definition is_env_affix :: "string list \<Rightarrow> string \<Rightarrow> bool" where
  "is_env_affix extra tok \<longleftrightarrow> to_lower tok \<in> set name_env_tokens \<or> to_lower tok \<in> set extra"

definition strip_env_affix :: "string \<Rightarrow> string list \<Rightarrow> string" where
  "strip_env_affix name extra =
     (let dashed = CHR ''-'' \<in> set name in
      if dashed \<and> before_last CHR ''-'' name \<noteq> [] \<and> is_env_affix extra (after_last CHR ''-'' name)
      then before_last CHR ''-'' name
      else if dashed \<and> before_char CHR ''-'' name \<noteq> [] \<and> is_env_affix extra (before_char CHR ''-'' name)
      then after_char CHR ''-'' name
      else name)"

definition unique_match :: "'a list \<Rightarrow> ('a \<Rightarrow> bool) \<Rightarrow> 'a option" where
  "unique_match items p = (case filter p items of [x] \<Rightarrow> Some x | _ \<Rightarrow> None)"

definition same_kind_group :: "lane_ref \<Rightarrow> app_workload \<Rightarrow> bool" where
  "same_kind_group r w \<longleftrightarrow>
     aw_kind w = ln_kind r \<and> (if group_qualifies_lane_id (aw_group w) then coalesce (aw_group w) [] else []) = ln_group r"

definition match_workload_across_instances :: "string \<Rightarrow> app_workload list \<Rightarrow> string list \<Rightarrow> app_workload option" where
  "match_workload_across_instances key ws extra =
     (case parse_lane_id key of
        None \<Rightarrow> None
      | Some r \<Rightarrow>
          coalesce_opt (List.find (\<lambda>w. same_kind_group r w \<and> aw_namespace w = ln_namespace r \<and> aw_name w = ln_name r) ws)
            (coalesce_opt (unique_match ws (\<lambda>w. same_kind_group r w \<and> aw_name w = ln_name r))
              (unique_match ws (\<lambda>w. same_kind_group r w
                 \<and> strip_env_affix (aw_name w) extra = strip_env_affix (ln_name r) extra))))"

section \<open>The promotion ladder\<close>

definition compare_envs :: "(string \<Rightarrow> string \<Rightarrow> int) \<Rightarrow> string \<Rightarrow> string \<Rightarrow> int" where
  "compare_envs locale_compare a b =
     (case (env_rank (Some a), env_rank (Some b)) of
        (Some ra, Some rb) \<Rightarrow> int ra - int rb
      | (Some _, None) \<Rightarrow> - 1
      | (None, Some _) \<Rightarrow> 1
      | (None, None) \<Rightarrow> locale_compare a b)"

definition order_envs :: "(string \<Rightarrow> string \<Rightarrow> int) \<Rightarrow> string list \<Rightarrow> string list" where
  "order_envs locale_compare envs = js_sort (compare_envs locale_compare) envs"

record env_cell =
  ec_env :: string
  ec_health :: health_status
  ec_version :: "string option"
  ec_count :: nat
  ec_first_key :: string

definition cell_rank :: "env_cell \<Rightarrow> nat option" where
  "cell_rank c = env_rank (Some (ec_env c))"

definition ranked_cells :: "env_cell list \<Rightarrow> env_cell list" where
  "ranked_cells cells =
     js_sort (\<lambda>a b. int (coalesce (cell_rank a) 0) - int (coalesce (cell_rank b) 0))
       (filter (\<lambda>c. cell_rank c \<noteq> None \<and> truthy_str (ec_version c)) cells)"

definition lags_behind :: "env_cell \<Rightarrow> env_cell \<Rightarrow> bool" where
  \<comment> \<open>the second cell is promoted further and runs an older version\<close>
  "lags_behind c d \<longleftrightarrow> coalesce (cell_rank c) 0 < coalesce (cell_rank d) 0
     \<and> compare_versions (ec_version c) (ec_version d) = Some 1"

fun first_lag :: "env_cell list \<Rightarrow> string option" where
  "first_lag [] = None"
| "first_lag (c # rest) =
     (case List.find (lags_behind c) rest of
        Some d \<Rightarrow> Some (ec_env d @ '' is behind '' @ ec_env c)
      | None \<Rightarrow> first_lag rest)"

definition app_group_lag_message :: "env_cell list \<Rightarrow> string option" where
  "app_group_lag_message cells = first_lag (ranked_cells cells)"

section \<open>Folding rows into application groups\<close>

record class_count =
  cc_cls :: app_workload_class
  cc_count :: int

record app_entry =
  ae_row :: app_row
  ae_health :: health_status
  ae_versions :: "string list"
  ae_kinds :: "(string \<times> int) list"
  ae_workload_class :: app_workload_class
  ae_class_set :: "app_workload_class list"
  ae_class_composition :: "class_count list"
  ae_category :: app_category
  ae_ready :: int
  ae_desired :: int
  ae_ready_ratio :: rat
  ae_source :: app_source

record 'e folded_group =
  fg_key :: string
  fg_label :: string
  fg_members :: "'e list"
  fg_expanded :: bool
  fg_cells :: "env_cell list"
  fg_lag :: "string option"
  fg_health :: health_status
  fg_ready :: int
  fg_desired :: int
  fg_kinds :: "(string \<times> int) list"
  fg_class_composition :: "class_count list"
  fg_workload_class :: app_workload_class
  fg_confidence :: string

datatype 'e folded_row = GroupRow "'e folded_group" | InstanceRow 'e bool

record 'e fold_options =
  fo_local_scope :: "'e \<Rightarrow> string option"
  fo_envs_of :: "'e \<Rightarrow> (string \<times> health_status) list option"

definition class_order :: "app_workload_class list" where
  "class_order = [ClsService, ClsWorker, ClsJob, ClsUnknown]"

definition newest_version :: "'a app_entry_scheme \<Rightarrow> string option" where
  "newest_version e =
     coalesce_opt
       (fold (\<lambda>v best. if \<not> truthy_str best \<or> compare_versions (Some v) best = Some 1 then Some v else best) (ae_versions e) None)
       (row_app_version (ae_row e))"

definition app_group_key :: "'a app_entry_scheme fold_options \<Rightarrow> 'a app_entry_scheme \<Rightarrow> string option" where
  "app_group_key opts e =
     (case row_identity (ae_row e) of
        None \<Rightarrow> None
      | Some i \<Rightarrow>
          let scope = fo_local_scope opts e in
          if \<not> truthy_str scope then Some (id_key i)
          else if truthy_bool (id_portable i)
          then Some (''portable:'' @ id_key i @ (if truthy_str (id_path_key i) then '':'' @ coalesce (id_path_key i) [] else []))
          else Some (''local:'' @ coalesce scope [] @ '':'' @ id_key i))"

definition grouped_under :: "'a app_entry_scheme fold_options \<Rightarrow> 'a app_entry_scheme \<Rightarrow> string option" where
  \<comment> \<open>a key that is not empty: \<open>if (k)\<close>\<close>
  "grouped_under opts e = (if truthy_str (app_group_key opts e) then app_group_key opts e else None)"

definition members_of :: "'a app_entry_scheme fold_options \<Rightarrow> 'a app_entry_scheme list \<Rightarrow> string \<Rightarrow> 'a app_entry_scheme list" where
  \<comment> \<open>\<open>byGroup.get(k)\<close>\<close>
  "members_of opts entries k = filter (\<lambda>e. grouped_under opts e = Some k) entries"

definition add_slice :: "string option \<Rightarrow> string \<Rightarrow> string \<times> health_status \<Rightarrow> (string \<times> env_cell) list \<Rightarrow> (string \<times> env_cell) list" where
  "add_slice v key slice cells =
     (case slice of (env, health) \<Rightarrow>
        case map_of cells env of
          None \<Rightarrow> cells @ [(env, \<lparr>ec_env = env, ec_health = health, ec_version = v, ec_count = 1, ec_first_key = key\<rparr>)]
        | Some c \<Rightarrow> AList.update env
            (c\<lparr>ec_count := ec_count c + 1, ec_health := worse health (ec_health c),
               ec_version := (if truthy_str v \<and> (\<not> truthy_str (ec_version c) \<or> compare_versions v (ec_version c) = Some 1)
                  then v else ec_version c)\<rparr>) cells)"

definition env_slices :: "'a app_entry_scheme fold_options \<Rightarrow> 'a app_entry_scheme \<Rightarrow> (string \<times> health_status) list" where
  "env_slices opts m =
     coalesce (fo_envs_of opts m) [((case row_identity (ae_row m) of Some i \<Rightarrow> id_env i | None \<Rightarrow> []), ae_health m)]"

definition group_cell_map :: "'a app_entry_scheme fold_options \<Rightarrow> 'a app_entry_scheme list \<Rightarrow> (string \<times> env_cell) list" where
  "group_cell_map opts members =
     fold (\<lambda>m cells. fold (add_slice (newest_version m) (row_key (ae_row m))) (env_slices opts m) cells) members []"

definition group_cells ::
  "(string \<Rightarrow> string \<Rightarrow> int) \<Rightarrow> 'a app_entry_scheme fold_options \<Rightarrow> 'a app_entry_scheme list \<Rightarrow> env_cell list" where
  "group_cells locale_compare opts members =
     (let cells = group_cell_map opts members
      in map (\<lambda>env. the (map_of cells env)) (order_envs locale_compare (map fst cells)))"

definition add_count :: "'k \<times> int \<Rightarrow> ('k \<times> int) list \<Rightarrow> ('k \<times> int) list" where
  \<comment> \<open>\<open>m[k] = (m[k] ?? 0) + n\<close>\<close>
  "add_count kn m = (case kn of (k, n) \<Rightarrow> AList.update k (coalesce (map_of m k) 0 + n) m)"

definition composition_of :: "(app_workload_class \<times> int) list \<Rightarrow> class_count list" where
  "composition_of counts =
     map (\<lambda>c. \<lparr>cc_cls = c, cc_count = coalesce (map_of counts c) 0\<rparr>) (filter (\<lambda>c. map_of counts c \<noteq> None) class_order)"

definition group_composition :: "'a app_entry_scheme list \<Rightarrow> class_count list" where
  "group_composition members =
     composition_of (fold (\<lambda>m classes. fold (\<lambda>c. add_count (cc_cls c, cc_count c)) (ae_class_composition m) classes) members [])"

definition group_workload_class :: "class_count list \<Rightarrow> app_workload_class" where
  "group_workload_class classes =
     (let known = filter (\<lambda>c. c \<noteq> ClsUnknown) (map cc_cls classes)
      in if known = [] then ClsUnknown
         else if ClsService \<in> set known \<and> ClsJob \<notin> set known then ClsService
         else case known of [c] \<Rightarrow> c | _ \<Rightarrow> ClsMixed)"

definition high_confidence :: "'a app_entry_scheme \<Rightarrow> bool" where
  "high_confidence m \<longleftrightarrow> (case row_identity (ae_row m) of Some i \<Rightarrow> id_confidence i = ''high'' | None \<Rightarrow> False)"

definition make_group ::
  "(string \<Rightarrow> string \<Rightarrow> int) \<Rightarrow> 'a app_entry_scheme fold_options \<Rightarrow> string \<Rightarrow> string \<Rightarrow> bool
    \<Rightarrow> 'a app_entry_scheme list \<Rightarrow> 'a app_entry_scheme folded_group" where
  "make_group locale_compare opts k label expanded members =
     (let cells = group_cells locale_compare opts members; classes = group_composition members
      in \<lparr>fg_key = k, fg_label = label, fg_members = members, fg_expanded = expanded, fg_cells = cells,
          fg_lag = app_group_lag_message cells, fg_health = worst_of (map ae_health members),
          fg_ready = (\<Sum>m\<leftarrow>members. ae_ready m), fg_desired = (\<Sum>m\<leftarrow>members. ae_desired m),
          fg_kinds = fold (\<lambda>m kinds. fold add_count (ae_kinds m) kinds) members [],
          fg_class_composition = classes, fg_workload_class = group_workload_class classes,
          fg_confidence = (if list_ex high_confidence members then ''high'' else ''medium'')\<rparr>)"

definition group_label :: "'a app_entry_scheme \<Rightarrow> string" where
  "group_label e = (case row_identity (ae_row e) of Some i \<Rightarrow> id_key i | None \<Rightarrow> [])"

fun fold_rows ::
  "(string \<Rightarrow> string \<Rightarrow> int) \<Rightarrow> 'a app_entry_scheme fold_options \<Rightarrow> (string \<Rightarrow> bool) \<Rightarrow> 'a app_entry_scheme list
    \<Rightarrow> string list \<Rightarrow> 'a app_entry_scheme list \<Rightarrow> 'a app_entry_scheme folded_row list" where
  "fold_rows locale_compare opts expands entries emitted [] = []"
| "fold_rows locale_compare opts expands entries emitted (e # rest) =
     (case grouped_under opts e of
        None \<Rightarrow> InstanceRow e False # fold_rows locale_compare opts expands entries emitted rest
      | Some k \<Rightarrow>
          let members = members_of opts entries k in
          if length members < 2 then InstanceRow e False # fold_rows locale_compare opts expands entries emitted rest
          else if k \<in> set emitted then fold_rows locale_compare opts expands entries emitted rest
          else GroupRow (make_group locale_compare opts k (group_label e) (expands k) members)
               # (if expands k then map (\<lambda>m. InstanceRow m True) members else [])
               @ fold_rows locale_compare opts expands entries (k # emitted) rest)"

definition fold_app_groups ::
  "(string \<Rightarrow> string \<Rightarrow> int) \<Rightarrow> 'a app_entry_scheme list \<Rightarrow> string list \<Rightarrow> bool \<Rightarrow> 'a app_entry_scheme fold_options
    \<Rightarrow> 'a app_entry_scheme folded_row list" where
  "fold_app_groups locale_compare entries expanded_keys auto_expand opts =
     fold_rows locale_compare opts (\<lambda>k. auto_expand \<or> k \<in> set expanded_keys) entries [] entries"

section \<open>Composition of one application\<close>

definition class_label :: "app_workload_class \<Rightarrow> string" where
  "class_label c = (case c of ClsService \<Rightarrow> ''Service'' | ClsWorker \<Rightarrow> ''Worker'' | ClsJob \<Rightarrow> ''Job'' | ClsMixed \<Rightarrow> ''Mixed'' | ClsUnknown \<Rightarrow> ''Unknown'')"

definition class_tooltip :: "app_workload_class \<Rightarrow> string" where
  "class_tooltip c =
     (case c of
        ClsService \<Rightarrow> ''Long-running, request-serving (a Deployment/StatefulSet behind a Service/Ingress/route). Inferred from the workload shape + routing.''
      | ClsWorker \<Rightarrow> ''Long-running background processor (no serving edge). Inferred from the workload shape.''
      | ClsJob \<Rightarrow> ''Finite or scheduled work (Job/CronJob/Workflow/CronWorkflow/WorkflowTemplate/ClusterWorkflowTemplate/ScaledJob).''
      | ClsMixed \<Rightarrow> ''Contains workloads of more than one class (e.g. a service plus its scheduled jobs).''
      | ClsUnknown \<Rightarrow> ''Couldn'' @ [CHR 0x27] @ ''t infer a runtime class from the workload.'')"

definition class_composition_of :: "app_row \<Rightarrow> class_count list" where
  "class_composition_of app =
     composition_of (fold (\<lambda>w. add_count (workload_class_of (aw_workload_class w), 1)) (row_workloads app) [])"

definition class_set_of :: "app_row \<Rightarrow> app_workload_class list" where
  "class_set_of app =
     (let known = filter (\<lambda>c. c = ClsService \<or> c = ClsWorker \<or> c = ClsJob) (map cc_cls (class_composition_of app))
      in if known \<noteq> [] then known else [workload_class_of (row_workload_class app)])"

section \<open>Batch work\<close>

datatype batch_tone = ToneRose | ToneAmber | ToneSky | ToneEmerald | ToneMuted

record batch_signal =
  sg_tone :: batch_tone
  sg_label :: string
  sg_detail :: string
  sg_workload :: app_workload

record batch_activity =
  ba_workload :: app_workload
  ba_tone :: batch_tone
  ba_rank :: int
  ba_label :: string
  ba_detail :: string
  ba_latest_run_name :: "string option"
  ba_latest_run_phase :: string
  ba_latest_started_at :: "string option"
  ba_latest_finished_at :: "string option"
  ba_schedule :: "string option"
  ba_active_runs :: int
  ba_retained_runs :: int
  ba_failed_runs :: int
  ba_last_scheduled_at :: "string option"
  ba_last_successful_at :: "string option"

definition phase_failed :: "string \<Rightarrow> bool" where
  "phase_failed ph \<longleftrightarrow> ph = ''Failed'' \<or> ph = ''Error''"

definition workload_title :: "app_workload \<Rightarrow> string" where
  "workload_title w = aw_kind w @ ''/'' @ aw_name w"

definition run_word :: "int \<Rightarrow> string" where
  "run_word n = (if n = 1 then ''run'' else ''runs'')"

definition failed_run_detail :: "app_workload \<Rightarrow> app_batch_summary \<Rightarrow> string \<Rightarrow> string" where
  "failed_run_detail w b phase =
     or_else (bs_message b) (workload_title w @ '' latest run '' @ or_else (bs_latest_run_name b) [] @ '' ended '' @ phase @ ''.'')"

definition batch_signal_for_workload :: "app_workload \<Rightarrow> batch_signal option" where
  "batch_signal_for_workload w =
     (case aw_batch w of
        None \<Rightarrow> None
      | Some b \<Rightarrow>
          let phase = or_else (bs_latest_run_phase b) []; active = coalesce (bs_active_runs b) 0 in
          if phase_failed phase
          then Some \<lparr>sg_tone = ToneRose, sg_label = ''batch failed'', sg_detail = failed_run_detail w b phase, sg_workload = w\<rparr>
          else if truthy_bool (bs_suspended b)
          then Some \<lparr>sg_tone = ToneSky, sg_label = ''schedule suspended'',
                     sg_detail = workload_title w @ '' will not create new runs until resumed.'', sg_workload = w\<rparr>
          else if active > 0
          then Some \<lparr>sg_tone = ToneSky, sg_label = show_int active @ '' running'',
                     sg_detail = workload_title w @ '' currently has '' @ show_int active @ '' active '' @ run_word active @ ''.'', sg_workload = w\<rparr>
          else None)"

definition batch_signal_rank :: "batch_signal \<Rightarrow> nat" where
  "batch_signal_rank s = (case sg_tone s of ToneRose \<Rightarrow> 5 | ToneAmber \<Rightarrow> 4 | ToneSky \<Rightarrow> 3 | ToneEmerald \<Rightarrow> 2 | ToneMuted \<Rightarrow> 1)"

definition batch_signal_for_app :: "app_row \<Rightarrow> batch_signal option" where
  "batch_signal_for_app app =
     fold (\<lambda>w best. case batch_signal_for_workload w of
         None \<Rightarrow> best
       | Some s \<Rightarrow> (case best of
             None \<Rightarrow> Some s
           | Some b \<Rightarrow> if batch_signal_rank s > batch_signal_rank b then Some s else Some b)) (row_workloads app) None"

definition activity_of :: "app_workload \<Rightarrow> app_batch_summary \<Rightarrow> batch_tone \<Rightarrow> int \<Rightarrow> string \<Rightarrow> string \<Rightarrow> batch_activity" where
  \<comment> \<open>the fields every branch copies from the summary\<close>
  "activity_of w b tone rank label detail =
     \<lparr>ba_workload = w, ba_tone = tone, ba_rank = rank, ba_label = label, ba_detail = detail,
      ba_latest_run_name = bs_latest_run_name b, ba_latest_run_phase = or_else (bs_latest_run_phase b) [],
      ba_latest_started_at = bs_latest_started_at b, ba_latest_finished_at = bs_latest_finished_at b, ba_schedule = bs_schedule b,
      ba_active_runs = coalesce (bs_active_runs b) 0, ba_retained_runs = coalesce (bs_retained_runs b) 0,
      ba_failed_runs = coalesce (bs_failed_runs b) 0, ba_last_scheduled_at = bs_last_scheduled_at b,
      ba_last_successful_at = bs_last_successful_at b\<rparr>"

definition batch_activity_for_workload :: "app_workload \<Rightarrow> batch_activity option" where
  "batch_activity_for_workload w =
     (case aw_batch w of
        None \<Rightarrow> None
      | Some b \<Rightarrow>
          let phase = or_else (bs_latest_run_phase b) []; title = workload_title w; active = coalesce (bs_active_runs b) 0;
              retained = coalesce (bs_retained_runs b) 0; failed = coalesce (bs_failed_runs b) 0 in
          if phase_failed phase then Some (activity_of w b ToneRose 50 ''Latest run failed'' (failed_run_detail w b phase))
          else if failed > 0
          then Some (activity_of w b ToneAmber 40 (show_int failed @ '' retained failed '' @ run_word failed)
                 (title @ '' has retained failed executions in Kubernetes.''))
          else if active > 0
          then Some (activity_of w b ToneSky 35 (show_int active @ '' active '' @ run_word active) (title @ '' is executing now.''))
          else if truthy_bool (bs_suspended b)
          then Some (activity_of w b ToneSky 30 ''Schedule suspended'' (title @ '' will not create new runs until resumed.''))
          else Some (activity_of w b ToneMuted (if phase = ''Succeeded'' then 20 else 10)
                 (if phase = ''Succeeded'' then ''Latest run succeeded'' else ''No active runs'')
                 (title @ '' has '' @ show_int retained @ '' retained '' @ run_word retained @ ''.'')))"

definition compare_activities :: "(string \<Rightarrow> string \<Rightarrow> int) \<Rightarrow> batch_activity \<Rightarrow> batch_activity \<Rightarrow> int" where
  "compare_activities locale_compare a b =
     (if ba_rank b - ba_rank a \<noteq> 0 then ba_rank b - ba_rank a
      else locale_compare (aw_name (ba_workload a)) (aw_name (ba_workload b)))"

definition batch_activity_for_app :: "(string \<Rightarrow> string \<Rightarrow> int) \<Rightarrow> app_row \<Rightarrow> batch_activity list" where
  "batch_activity_for_app locale_compare app =
     js_sort (compare_activities locale_compare) (List.map_filter batch_activity_for_workload (row_workloads app))"

record batch_runtime =
  br_label :: string
  br_health :: health_status
  br_detail :: string

definition batch_activity_timestamp :: "(string \<Rightarrow> int option) \<Rightarrow> batch_activity \<Rightarrow> int" where
  "batch_activity_timestamp date_parse item =
     (let raw = or_str (ba_latest_started_at item) (or_str (ba_latest_finished_at item)
            (or_str (ba_last_scheduled_at item) (ba_last_successful_at item)))
      in if \<not> truthy_str raw then 0 else coalesce (date_parse (coalesce raw [])) 0)"

definition latest_activity :: "(string \<Rightarrow> int option) \<Rightarrow> batch_activity list \<Rightarrow> batch_activity option" where
  "latest_activity date_parse activity =
     (case js_sort (\<lambda>a b. batch_activity_timestamp date_parse b - batch_activity_timestamp date_parse a) activity of
        [] \<Rightarrow> None | a # _ \<Rightarrow> Some a)"

definition failed_runtime :: "batch_activity list \<Rightarrow> batch_runtime" where
  "failed_runtime failed =
     \<lparr>br_label = ''Failed'', br_health = StUnhealthy,
      br_detail = (case failed of
          [item] \<Rightarrow> workload_title (ba_workload item) @ '' latest retained run''
            @ (if truthy_str (ba_latest_run_name item) then '' '' @ coalesce (ba_latest_run_name item) [] else []) @ '' failed.''
        | _ \<Rightarrow> show_nat (length failed) @ '' batch workloads have failed latest runs.'')\<rparr>"

definition batch_runtime_of :: "(string \<Rightarrow> int option) \<Rightarrow> batch_activity list \<Rightarrow> batch_runtime" where
  "batch_runtime_of date_parse activity =
     (let failed = filter (\<lambda>a. phase_failed (ba_latest_run_phase a)) activity;
          latest = latest_activity date_parse activity;
          latest_phase = (case latest of Some a \<Rightarrow> ba_latest_run_phase a | None \<Rightarrow> []);
          active = (\<Sum>a\<leftarrow>activity. ba_active_runs a) in
      if list_ex (\<lambda>a. ba_active_runs a > 0 \<or> ba_latest_run_phase a = ''Running'') activity
      then \<lparr>br_label = (if active > 0 then show_int active @ '' running'' else ''Running''), br_health = StNeutral,
            br_detail = ''Batch work is executing now.''\<rparr>
      else if failed \<noteq> [] then failed_runtime failed
      else if latest_phase = ''Succeeded''
      then \<lparr>br_label = ''Succeeded'', br_health = StHealthy,
            br_detail = (case Option.bind latest ba_latest_run_name of
                Some n \<Rightarrow> if n \<noteq> [] then ''Latest retained run: '' @ n else ''The latest retained run succeeded.''
              | None \<Rightarrow> ''The latest retained run succeeded.'')\<rparr>
      else if activity \<noteq> [] \<and> list_all (\<lambda>a. truthy_bool (Option.bind (aw_batch (ba_workload a)) bs_suspended)) activity
      then \<lparr>br_label = ''Suspended'', br_health = StNeutral, br_detail = ''All batch launchers are suspended.''\<rparr>
      else if list_ex (\<lambda>a. ba_retained_runs a > 0) activity
      then \<lparr>br_label = (if latest_phase \<noteq> [] then latest_phase else ''Idle''), br_health = StNeutral,
            br_detail = ''No batch work is currently active.''\<rparr>
      else \<lparr>br_label = ''Idle'', br_health = StNeutral, br_detail = ''No retained runs are present in Kubernetes.''\<rparr>)"

record app_host =
  \<comment> \<open>what the host environment provides\<close>
  hs_locale_compare :: "string \<Rightarrow> string \<Rightarrow> int"
  hs_date_parse :: "string \<Rightarrow> int option"

definition batch_runtime_for_app :: "app_host \<Rightarrow> app_row \<Rightarrow> batch_runtime" where
  "batch_runtime_for_app h app = batch_runtime_of (hs_date_parse h) (batch_activity_for_app (hs_locale_compare h) app)"

section \<open>Displayed health\<close>

definition application_runtime_health :: "app_host \<Rightarrow> app_row \<Rightarrow> health_status" where
  "application_runtime_health h app =
     (if workload_class_of (row_workload_class app) = ClsJob then br_health (batch_runtime_for_app h app)
      else let serving = filter (\<lambda>w. aw_batch w = None) (row_workloads app)
           in if serving \<noteq> [] then worst_health (map aw_health serving) else health_of (row_health app))"

definition source_sync_health :: "string \<Rightarrow> health_status" where
  "source_sync_health status =
     (let n = to_lower status
      in if n = ''synced'' then StHealthy else if n = ''outofsync'' then StDegraded else StUnknown)"

definition source_reported_health :: "string \<Rightarrow> health_status" where
  "source_reported_health status =
     (let n = to_lower status
      in if n = ''healthy'' then StHealthy
         else if n = ''progressing'' then StNeutral
         else if n = ''degraded'' then StDegraded
         else if n = ''missing'' then StUnhealthy
         else if n = ''suspended'' then StNeutral
         else StUnknown)"

definition delivery_signals :: "app_source_status \<Rightarrow> health_status list" where
  "delivery_signals s =
     filter (\<lambda>x. x \<noteq> StUnknown)
       ((if truthy_str (st_sync s) then [source_sync_health (coalesce (st_sync s) [])] else [])
        @ (if truthy_str (st_health s) then [source_reported_health (coalesce (st_health s) [])] else []))"

definition application_delivery_health :: "app_source_status option \<Rightarrow> health_status" where
  "application_delivery_health status =
     (case status of
        None \<Rightarrow> StNeutral
      | Some s \<Rightarrow> if delivery_signals s \<noteq> [] then worst_of (delivery_signals s) else StNeutral)"

definition application_display_health :: "app_host \<Rightarrow> app_row \<Rightarrow> health_status" where
  "application_display_health h app =
     worst_of [application_runtime_health h app, application_delivery_health (row_source_status app)]"

section \<open>The selected workload\<close>

record workload_selection =
  ws_selected :: "string option"
  ws_host_key_is_stale :: bool

definition exact_selection :: "string list \<Rightarrow> string option \<Rightarrow> string option" where
  "exact_selection keys host = (if truthy_str host \<and> coalesce host [] \<in> set keys then host else None)"

definition legacy_selection :: "string list \<Rightarrow> string option \<Rightarrow> string option" where
  \<comment> \<open>a key without a group, of a kind that is not built in, may stand for one qualified key\<close>
  "legacy_selection keys host =
     (case (if truthy_str host then parse_lane_id (coalesce host []) else None) of
        None \<Rightarrow> None
      | Some r \<Rightarrow>
          if ln_group r \<noteq> [] \<or> builtin_group_for_kind (ln_kind r) \<noteq> None then None
          else case filter (\<lambda>key. unqualified_key key = host) keys of [m] \<Rightarrow> Some m | _ \<Rightarrow> None)"

definition resolve_app_workload_selection :: "string list \<Rightarrow> string option \<Rightarrow> workload_selection" where
  "resolve_app_workload_selection keys host =
     (let matched = (case exact_selection keys host of Some m \<Rightarrow> Some m | None \<Rightarrow> legacy_selection keys host);
          sole = (case keys of [k] \<Rightarrow> Some k | _ \<Rightarrow> None)
      in \<lparr>ws_selected = coalesce_opt matched sole, ws_host_key_is_stale = (host \<noteq> None \<and> \<not> truthy_str matched)\<rparr>)"

section \<open>Entries of the list\<close>

definition serving_workload :: "app_workload \<Rightarrow> bool" where
  "serving_workload w \<longleftrightarrow> workload_class_of (aw_workload_class w) \<noteq> ClsJob \<and> aw_batch w = None"

definition serving_readiness :: "app_workload list \<Rightarrow> int \<times> int" where
  "serving_readiness ws =
     fold (\<lambda>w (ready, desired).
         if serving_workload w then (ready + coalesce (aw_ready w) 0, desired + coalesce (aw_desired w) 0) else (ready, desired))
       ws (0, 0)"

record single_app_entry = app_entry +
  se_namespace :: string
  se_namespaces :: "string list"
  se_env :: string
  se_env_inferred :: bool

record env_slice =
  sl_env :: string
  sl_health :: health_status
  sl_inferred :: bool

record app_cluster_ref =
  cr_id :: string
  cr_name :: string
  cr_health :: health_status

record fleet_app_entry = app_entry +
  fe_envs :: "env_slice list"
  fe_clusters :: "app_cluster_ref list"
  fe_version_skew :: bool

definition build_single_app_entry :: "app_host \<Rightarrow> app_row \<Rightarrow> string list \<Rightarrow> single_app_entry" where
  "build_single_app_entry h row discovered =
     (let ns = namespace_of row;
          resolved = resolve_env None (Some ns) discovered;
          readiness = serving_readiness (row_workloads row)
      in \<lparr>ae_row = row, ae_health = application_display_health h row,
          ae_versions = set_from (filter (\<lambda>v. v \<noteq> []) (row_versions row)),
          ae_kinds = fold (\<lambda>w. add_count (aw_kind w, 1)) (row_workloads row) [],
          ae_workload_class = workload_class_of (row_workload_class row), ae_class_set = class_set_of row,
          ae_class_composition = class_composition_of row, ae_category = category_of_app (row_category row),
          ae_ready = fst readiness, ae_desired = snd readiness,
          ae_ready_ratio = (if snd readiness > 0 then of_int (fst readiness) / of_int (snd readiness) else - 1),
          ae_source = source_of (row_tier row),
          se_namespace = ns, se_namespaces = namespaces_of row,
          se_env = (case row_identity row of Some i \<Rightarrow> id_env i | None \<Rightarrow> re_env resolved),
          se_env_inferred = (case row_identity row of Some i \<Rightarrow> identity_env_inferred (Some i) | None \<Rightarrow> re_inferred resolved)\<rparr>)"

definition env_text :: "string \<Rightarrow> string" where
  "env_text e = (if e \<noteq> [] then e else ''unlabeled'')"

definition search_text :: "string list \<Rightarrow> string list \<Rightarrow> 'a app_entry_scheme \<Rightarrow> string" where
  "search_text ns_parts env_parts e =
     (let parts = [row_name (ae_row e), row_key (ae_row e)] @ ns_parts @ [app_source_meta (ae_source e), class_label (ae_workload_class e)]
            @ map class_label (ae_class_set e) @ [category_label (ae_category e)] @ ae_versions e @ env_parts @ map fst (ae_kinds e)
            @ concat (map (\<lambda>w. [aw_kind w, aw_namespace w, aw_name w, or_else (aw_version w) []]) (row_workloads (ae_row e)))
      in to_lower (join '' '' (filter (\<lambda>p. p \<noteq> []) parts)))"

definition search_text_for_single :: "single_app_entry \<Rightarrow> string" where
  "search_text_for_single e = search_text [se_namespace e] [env_text (se_env e)] e"

definition search_text_for_fleet :: "fleet_app_entry \<Rightarrow> string" where
  "search_text_for_fleet e = search_text (map cr_name (fe_clusters e)) (map (env_text \<circ> sl_env) (fe_envs e)) e"

end
