(* ===== verification/Application_List.thy ===== *)
theory Application_List
  imports Applications Grouped_Rows
begin

text \<open>
  What the list of applications promises: folding rows into groups keeps every row, the lag message names a
  real lag, versions are ordered, the membership index is exact, the displayed health is the worst of its
  signals, and a selection names a workload that is there.
\<close>

section \<open>Folding keeps every entry\<close>

fun top_entries :: "'e folded_row \<Rightarrow> 'e list" where
  \<comment> \<open>the entries a row stands for; a child stands for none, its group does\<close>
  "top_entries (GroupRow g) = fg_members g"
| "top_entries (InstanceRow e child) = (if child then [] else [e])"

fun row_group_keys :: "'e folded_row \<Rightarrow> string list" where
  "row_group_keys (GroupRow g) = [fg_key g]"
| "row_group_keys (InstanceRow e child) = []"

fun opened :: "'e folded_row \<Rightarrow> 'e folded_row list" where
  \<comment> \<open>a row and, below an expanded group, its members\<close>
  "opened (GroupRow g) = GroupRow g # (if fg_expanded g then map (\<lambda>m. InstanceRow m True) (fg_members g) else [])"
| "opened (InstanceRow e child) = (if child then [] else [InstanceRow e False])"

definition row_sound :: "'a app_entry_scheme fold_options \<Rightarrow> 'a app_entry_scheme list \<Rightarrow> 'a app_entry_scheme folded_row \<Rightarrow> bool" where
  "row_sound opts entries r \<longleftrightarrow>
     (case r of
        GroupRow g \<Rightarrow> 2 \<le> length (fg_members g) \<and> fg_members g = members_of opts entries (fg_key g)
          \<and> fg_health g = worst_of (map ae_health (fg_members g)) \<and> fg_ready g = (\<Sum>m\<leftarrow>fg_members g. ae_ready m)
      | InstanceRow e child \<Rightarrow> child \<or> shown_alone (grouped_under opts) entries e)"

definition group_rows :: "(string \<Rightarrow> string \<Rightarrow> int) \<Rightarrow> 'a app_entry_scheme fold_options \<Rightarrow> (string \<Rightarrow> bool)
    \<Rightarrow> 'a app_entry_scheme list \<Rightarrow> 'a app_entry_scheme \<Rightarrow> string \<Rightarrow> 'a app_entry_scheme folded_row list" where
  "group_rows lc opts expands entries e k =
     opened (GroupRow (make_group lc opts k (group_label e) (expands k) (members_of opts entries k)))"

lemma members_of_group: "members_of opts entries = group_of (grouped_under opts) entries"
  by (rule ext) (simp add: members_of_def group_of_def)

lemma make_group_simps [simp]:
  "fg_key (make_group lc opts k l ex ms) = k" "fg_members (make_group lc opts k l ex ms) = ms"
  "fg_expanded (make_group lc opts k l ex ms) = ex" "fg_ready (make_group lc opts k l ex ms) = (\<Sum>m\<leftarrow>ms. ae_ready m)"
  "fg_health (make_group lc opts k l ex ms) = worst_of (map ae_health ms)"
  by (simp_all add: make_group_def Let_def)

interpretation entry_fold: grouped_fold "fold_rows lc opts expands entries" "grouped_under opts" entries
    "\<lambda>e. InstanceRow e False" "group_rows lc opts expands entries" for lc opts expands entries
  by unfold_locales (simp_all add: group_rows_def members_of_group Let_def split: option.split)

lemma no_child_entries [simp]: "(\<Sum>m\<leftarrow>ms. mset (top_entries (InstanceRow m True))) = {#}"
  by (induction ms) auto

lemma mset_singles [simp]: "(\<Sum>x\<leftarrow>xs. {#x#}) = mset xs"
  by (induction xs) auto

lemma mset_concat_map: "mset (concat (map g xs)) = (\<Sum>x\<leftarrow>xs. mset (g x))"
  by (induction xs) auto

lemma opened_rows: "concat (map opened (fold_rows lc opts expands entries emitted rest)) = fold_rows lc opts expands entries emitted rest"
  by (induction lc opts expands entries emitted rest rule: fold_rows.induct) (auto simp: Let_def split: option.split)

text \<open>
  C35. Folding the list into application groups keeps every entry: the groups and the entries shown by
  themselves partition the entries, whatever the scopes and keys; a group has at least two members, all
  those of its key in the order of the list, it appears once, and its health is the worst of theirs; an
  entry shown by itself shares its key with no other; and below a group come its members exactly when it
  is expanded.
\<close>

theorem folding_keeps_every_entry:
  "let rows = fold_app_groups lc entries expanded_keys auto_expand opts
   in mset (concat (map top_entries rows)) = mset entries
      \<and> list_all (row_sound opts entries) rows
      \<and> distinct (concat (map row_group_keys rows))
      \<and> concat (map opened rows) = rows"
proof -
  define expands where "expands = (\<lambda>k. auto_expand \<or> k \<in> set expanded_keys)"
  define rows where "rows = fold_rows lc opts expands entries [] entries"
  have "(\<Sum>r\<leftarrow>rows. mset (top_entries r)) = (\<Sum>e\<leftarrow>entries. {#e#})"
    unfolding rows_def
  proof (rule entry_fold.fold_total)
    show "(\<Sum>r\<leftarrow>group_rows lc opts expands entries e k. mset (top_entries r)) = (\<Sum>m\<leftarrow>group_of (grouped_under opts) entries k. {#m#})" for e k
      by (simp add: group_rows_def members_of_group comp_def del: top_entries.simps(2))
  qed simp
  then have "mset (concat (map top_entries rows)) = mset entries" unfolding mset_concat_map by simp
  moreover have "list_all (row_sound opts entries) rows"
    unfolding list_all_iff
  proof
    fix r assume "r \<in> set rows"
    from entry_fold.fold_elem [OF this [unfolded rows_def]] show "row_sound opts entries r"
      by (auto simp: row_sound_def group_rows_def members_of_group is_group_def split: if_splits)
  qed
  moreover have "distinct (concat (map row_group_keys rows))"
    unfolding rows_def by (rule entry_fold.fold_keys_distinct) (auto simp: group_rows_def)
  moreover have "concat (map opened rows) = rows" unfolding rows_def by (rule opened_rows)
  ultimately show ?thesis by (simp add: fold_app_groups_def rows_def expands_def Let_def)
qed

section \<open>Versions are ordered\<close>

lemma cmp_int_simps [simp]: "cmp_int x y \<ge> 0 \<longleftrightarrow> y \<le> x" "cmp_int x y = 0 \<longleftrightarrow> x = y" "cmp_int x x = 0"
    "- cmp_int x y = cmp_int y x" "cmp_int x y \<in> {- 1, 0, 1}" "cmp_int x y = 1 \<longleftrightarrow> y < x"
  by (auto simp: cmp_int_def)

lemma compare_parts_refl [simp]: "compare_parts xs xs = 0"
  by (induction xs) auto

lemma compare_parts_antisym: "compare_parts ys xs = - compare_parts xs ys"
  by (induction xs ys rule: compare_parts.induct) auto

lemma compare_parts_range: "compare_parts xs ys \<in> {- 1, 0, 1}"
proof (induction xs ys rule: compare_parts.induct)
  case (2 x xs)
  then show ?case by (auto simp: cmp_int_def)
next
  case (3 y ys)
  then show ?case by (auto simp: cmp_int_def)
next
  case (4 x xs y ys)
  then show ?case by (auto simp: cmp_int_def)
qed simp

text \<open>The loop compares the lists as if zeros followed: part by part.\<close>

definition part :: "int list \<Rightarrow> nat \<Rightarrow> int" where
  "part xs i = (if i < length xs then xs ! i else 0)"

lemma part_simps [simp]: "part [] i = 0" "part (x # xs) 0 = x" "part (x # xs) (Suc i) = part xs i"
  by (simp_all add: part_def)

definition parts_less :: "int list \<Rightarrow> int list \<Rightarrow> bool" where
  "parts_less xs ys \<longleftrightarrow> (\<exists>i. part xs i < part ys i \<and> (\<forall>j < i. part xs j = part ys j))"

lemma parts_less_Cons: "parts_less xs ys \<longleftrightarrow> part xs 0 < part ys 0 \<or> part xs 0 = part ys 0 \<and> parts_less (tl xs) (tl ys)"
proof -
  have tl: "part (tl xs) i = part xs (Suc i)" for xs i by (cases xs) auto
  show ?thesis
  proof
    assume "parts_less xs ys"
    then obtain i where i: "part xs i < part ys i" "\<forall>j < i. part xs j = part ys j" by (auto simp: parts_less_def)
    then show "part xs 0 < part ys 0 \<or> part xs 0 = part ys 0 \<and> parts_less (tl xs) (tl ys)"
      by (cases i) (auto simp: parts_less_def tl)
  next
    assume "part xs 0 < part ys 0 \<or> part xs 0 = part ys 0 \<and> parts_less (tl xs) (tl ys)"
    then show "parts_less xs ys"
    proof (elim disjE conjE)
      assume "part xs 0 = part ys 0" "parts_less (tl xs) (tl ys)"
      then obtain i where "part xs (Suc i) < part ys (Suc i)" "\<forall>j < i. part xs (Suc j) = part ys (Suc j)"
        by (auto simp: parts_less_def tl)
      with \<open>part xs 0 = part ys 0\<close> show ?thesis
        unfolding parts_less_def by (intro exI [of _ "Suc i"]) (auto simp: less_Suc_eq_0_disj)
    qed (auto simp: parts_less_def intro: exI [of _ 0])
  qed
qed

lemma compare_parts_less: "compare_parts xs ys = - 1 \<longleftrightarrow> parts_less xs ys"
proof (induction xs ys rule: compare_parts.induct)
  case 1
  then show ?case by (simp add: parts_less_def)
next
  case (2 x xs)
  then show ?case using parts_less_Cons [of "x # xs" "[]"] by (auto simp: cmp_int_def)
next
  case (3 y ys)
  then show ?case using parts_less_Cons [of "[]" "y # ys"] by (auto simp: cmp_int_def)
next
  case (4 x xs y ys)
  then show ?case using parts_less_Cons [of "x # xs" "y # ys"] by (auto simp: cmp_int_def)
qed

lemma compare_parts_less_flip: "compare_parts xs ys = 1 \<longleftrightarrow> parts_less ys xs"
  using compare_parts_antisym [of xs ys] compare_parts_less [of ys xs] by simp

lemma parts_less_trans:
  assumes "parts_less xs ys" "parts_less ys zs"
  shows "parts_less xs zs"
proof -
  obtain i j where i: "part xs i < part ys i" "\<forall>k < i. part xs k = part ys k"
    and j: "part ys j < part zs j" "\<forall>k < j. part ys k = part zs k" using assms by (auto simp: parts_less_def)
  have "part xs (min i j) < part zs (min i j)"
    using i j by (cases i j rule: linorder_cases) auto
  moreover have "\<forall>k < min i j. part xs k = part zs k" using i(2) j(2) by simp
  ultimately show ?thesis unfolding parts_less_def by blast
qed

lemma first_difference:
  fixes f g :: "nat \<Rightarrow> int"
  assumes "f \<noteq> g"
  obtains m where "f m \<noteq> g m" "\<forall>j < m. f j = g j"
proof -
  from assms obtain i where "f i \<noteq> g i" by auto
  then show ?thesis using that exists_least_iff [of "\<lambda>i. f i \<noteq> g i"] by blast
qed

lemma parts_equal: "compare_parts xs ys = 0 \<longleftrightarrow> part xs = part ys"
proof
  assume "compare_parts xs ys = 0"
  then have no: "\<not> parts_less xs ys" "\<not> parts_less ys xs" using compare_parts_less [of xs ys] compare_parts_less_flip [of xs ys] by auto
  show "part xs = part ys"
  proof (rule ccontr)
    assume "part xs \<noteq> part ys"
    then obtain m where "part xs m \<noteq> part ys m" "\<forall>j < m. part xs j = part ys j" by (rule first_difference)
    then have "parts_less xs ys \<or> parts_less ys xs"
      unfolding parts_less_def using less_linear [of "part xs m" "part ys m"] by metis
    with no show False by blast
  qed
next
  assume "part xs = part ys"
  then have "\<not> parts_less xs ys" "\<not> parts_less ys xs" by (auto simp: parts_less_def)
  with compare_parts_range [of xs ys] compare_parts_less [of xs ys] compare_parts_less_flip [of xs ys]
  show "compare_parts xs ys = 0" by auto
qed

lemma compare_parts_trans:
  assumes "compare_parts xs ys \<ge> 0" "compare_parts ys zs \<ge> 0"
  shows "compare_parts xs zs \<ge> 0 \<and> (compare_parts xs zs = 0 \<longleftrightarrow> compare_parts xs ys = 0 \<and> compare_parts ys zs = 0)"
proof -
  have split: "compare_parts a b = 0 \<and> part a = part b \<or> compare_parts a b = 1 \<and> parts_less b a"
    if "compare_parts a b \<ge> 0" for a b
    using that compare_parts_range [of a b] compare_parts_less_flip [of a b] parts_equal [of a b] by auto
  have "part xs = part ys \<and> part ys = part zs \<or> parts_less zs xs \<and> (compare_parts xs ys = 1 \<or> compare_parts ys zs = 1)"
    using split [OF assms(1)] split [OF assms(2)] parts_less_trans [of zs ys xs] by (auto simp: parts_less_def)
  then show ?thesis
  proof
    assume "part xs = part ys \<and> part ys = part zs"
    then have "compare_parts xs ys = 0" "compare_parts ys zs = 0" "compare_parts xs zs = 0" by (simp_all only: parts_equal)
    then show ?thesis by simp
  next
    assume "parts_less zs xs \<and> (compare_parts xs ys = 1 \<or> compare_parts ys zs = 1)"
    then show ?thesis using compare_parts_less_flip [of xs zs] by auto
  qed
qed

text \<open>Two versions compare alike in both directions, and comparison is transitive where it is defined.\<close>

lemma compare_versions_cases:
  "compare_versions a b =
     (case (date_of a, date_of b) of
        (Some (p, x), Some (q, y)) \<Rightarrow> if p \<noteq> q then None else Some (cmp_int x y)
      | (None, None) \<Rightarrow> compare_semver a b
      | _ \<Rightarrow> None)"
proof (cases "truthy_str a \<and> truthy_str b")
  case False
  then have "parse_version a = None \<or> parse_version b = None" by (auto simp: parse_version_def)
  then have "compare_semver a b = None" by (auto simp: compare_semver_def split: option.split)
  with False show ?thesis by (auto simp: compare_versions_def date_of_def split: option.splits prod.splits)
qed (simp add: compare_versions_def)

lemma compare_versions_antisym: "compare_versions b a = map_option uminus (compare_versions a b)"
proof -
  have "compare_semver b a = map_option uminus (compare_semver a b)"
  proof (cases "parse_version a = None \<or> parse_version b = None")
    case False
    then obtain pa pb where "parse_version a = Some pa" "parse_version b = Some pb" by auto
    then show ?thesis using compare_parts_antisym [of pb pa] by (simp add: compare_semver_def)
  qed (auto simp: compare_semver_def split: option.splits)
  then show ?thesis unfolding compare_versions_cases by (auto split: option.splits)
qed

lemma compare_versions_range: "compare_versions a b = Some x \<Longrightarrow> x \<in> {- 1, 0, 1}"
  using compare_parts_range unfolding compare_versions_cases compare_semver_def
  by (auto simp: cmp_int_def split: option.splits prod.splits if_splits)

lemma compare_versions_trans:
  assumes "compare_versions a b = Some x" "compare_versions b c = Some y" "x \<ge> 0" "y \<ge> 0"
  shows "\<exists>z. compare_versions a c = Some z \<and> z \<ge> 0 \<and> (z = 0 \<longleftrightarrow> x = 0 \<and> y = 0)"
proof (cases "date_of a")
  case None
  then have "date_of b = None" "compare_semver a b = Some x"
    using assms(1) unfolding compare_versions_cases by (auto split: option.splits)
  moreover from this have "date_of c = None" "compare_semver b c = Some y"
    using assms(2) unfolding compare_versions_cases by (auto split: option.splits)
  moreover from calculation obtain pa pb pc where
    "parse_version a = Some pa" "parse_version b = Some pb" "parse_version c = Some pc" "x = compare_parts pa pb" "y = compare_parts pb pc"
    by (auto simp: compare_semver_def split: option.splits)
  ultimately show ?thesis
    using None assms(3,4) compare_parts_trans [of pa pb pc] by (simp add: compare_versions_cases compare_semver_def)
next
  case (Some px)
  then obtain p i j k where "date_of a = Some (p, i)" "date_of b = Some (p, j)" "date_of c = Some (p, k)" "x = cmp_int i j" "y = cmp_int j k"
    using assms(1,2) unfolding compare_versions_cases by (cases px) (auto split: option.splits if_splits)
  with assms(3,4) show ?thesis by (auto simp: compare_versions_cases)
qed

definition at_least :: "string \<Rightarrow> string \<Rightarrow> bool" where
  \<comment> \<open>the versions compare, and the first is not the older one\<close>
  "at_least t v \<longleftrightarrow> (case compare_versions (Some t) (Some v) of None \<Rightarrow> False | Some x \<Rightarrow> 0 \<le> x)"

definition comparable :: "string \<Rightarrow> string \<Rightarrow> bool" where
  "comparable t v \<longleftrightarrow> compare_versions (Some t) (Some v) \<noteq> None"

lemma at_least_trans: "at_least a b \<Longrightarrow> at_least b c \<Longrightarrow> at_least a c"
  using compare_versions_trans [of "Some a" "Some b" _ "Some c"] by (fastforce simp: at_least_def split: option.splits)

lemma newer_or_not:
  assumes "comparable t b"
  shows "if newer t b then at_least t b else at_least b t"
  using assms compare_versions_range [of "Some t" "Some b"] compare_versions_antisym [of "Some b" "Some t"]
  by (auto simp: comparable_def newer_def at_least_def)

lemma newest_fold:
  assumes "\<forall>v \<in> S. \<forall>w \<in> S. comparable v w" "\<forall>v \<in> set vs. trim v \<noteq> [] \<longrightarrow> trim v \<in> S"
    and "case best of None \<Rightarrow> True | Some b \<Rightarrow> b \<in> S"
  shows "case fold newest_step vs best of
      None \<Rightarrow> best = None \<and> list_all (\<lambda>v. trim v = []) vs
    | Some t \<Rightarrow> t \<in> S \<and> (best = Some t \<or> t \<in> trim ` set vs) \<and> (case best of None \<Rightarrow> True | Some b \<Rightarrow> at_least t b)
        \<and> list_all (\<lambda>v. trim v = [] \<or> at_least t (trim v)) vs"
  using assms(2,3)
proof (induction vs arbitrary: best)
  case Nil
  show ?case
  proof (cases best)
    case (Some b)
    with Nil assms(1) have "comparable b b" by simp
    from newer_or_not [OF this] Some Nil show ?thesis by (auto split: if_splits)
  qed simp
next
  case (Cons v vs)
  show ?case
  proof (cases "trim v = []")
    case True
    with Cons.IH [of best] Cons.prems show ?thesis by (auto simp: newest_step_def split: option.splits)
  next
    case False
    define b' where "b' = (case best of None \<Rightarrow> trim v | Some b \<Rightarrow> if newer (trim v) b then trim v else b)"
    have step: "newest_step v best = Some b'" using False by (auto simp: newest_step_def b'_def split: option.split)
    have in_S: "trim v \<in> S" "b' \<in> S" using Cons.prems False by (auto simp: b'_def split: option.splits)
    have "at_least b' (trim v)" "case best of None \<Rightarrow> True | Some b \<Rightarrow> at_least b' b"
      using newer_or_not [of "trim v" "trim v"] newer_or_not [of "trim v"] newer_or_not [of "the best" "the best"] assms(1) in_S Cons.prems(2)
      by (auto simp: b'_def split: option.splits if_splits)
    with Cons.IH [of "Some b'"] Cons.prems in_S step show ?thesis
      by (auto simp: b'_def split: option.splits if_splits intro: at_least_trans)
  qed
qed

text \<open>
  The newest tag is newest: among versions that compare pairwise it is one of them, with the spaces
  around it removed, and none of them is newer. It is missing only when no version has a character.
\<close>

theorem newest_tag_is_newest:
  assumes "\<forall>v \<in> trim ` set vs - {[]}. \<forall>w \<in> trim ` set vs - {[]}. comparable v w"
  shows "case newest_tag vs of
      None \<Rightarrow> list_all (\<lambda>v. trim v = []) vs
    | Some t \<Rightarrow> t \<in> trim ` set vs \<and> list_all (\<lambda>v. trim v = [] \<or> at_least t (trim v)) vs"
  using newest_fold [OF assms, of vs None] by (auto simp: newest_tag_def split: option.splits)

lemma newest_tag_is_newest_witness: "at_least ''v1.10.0'' ''1.9'' \<and> newest_tag [''1.9'', ''v1.10.0''] = Some ''v1.10.0''"
proof -
  have newest: "newest_tag [''1.9'', ''v1.10.0''] = Some ''v1.10.0''" by code_simp
  have trims: "trim ` set [''1.9'', ''v1.10.0''] - {[]} = {''1.9'', ''v1.10.0''}" by code_simp
  have "\<forall>v \<in> {''1.9'', ''v1.10.0''}. \<forall>w \<in> {''1.9'', ''v1.10.0''}. comparable v w" by code_simp
  from newest_tag_is_newest [of "[''1.9'', ''v1.10.0'']", unfolded trims, OF this]
  have "list_all (\<lambda>v. trim v = [] \<or> at_least ''v1.10.0'' (trim v)) [''1.9'', ''v1.10.0'']" unfolding newest by simp
  moreover have "trim ''1.9'' = ''1.9''" by code_simp
  ultimately show ?thesis using newest by simp
qed

text \<open>The weight of the day in a date tag is ten thousand, so a larger sequence number runs over into the next day.\<close>

lemma date_sequence_overflow:
  "compare_versions (Some ''main_2026-03-26_20000'') (Some ''main_2026-03-27_01'') = Some 1"
  by code_simp

section \<open>Promotion lag\<close>

definition runs_behind :: "env_cell \<Rightarrow> env_cell \<Rightarrow> bool" where
  \<comment> \<open>\<open>d\<close> comes after \<open>c\<close> on the ladder and runs an older version\<close>
  "runs_behind d c \<longleftrightarrow>
     (case (cell_rank c, cell_rank d) of (Some rc, Some rd) \<Rightarrow> rc < rd | _ \<Rightarrow> False)
     \<and> truthy_str (ec_version c) \<and> truthy_str (ec_version d)
     \<and> compare_versions (ec_version c) (ec_version d) = Some 1"

lemma first_lag_none: "first_lag cs = None \<longleftrightarrow> sorted_wrt (\<lambda>c d. \<not> lags_behind c d) cs"
  by (induction cs) (auto simp: find_none_iff dest: find_some_in split: option.split)

lemma first_lag_some: "first_lag cs = Some m \<Longrightarrow> \<exists>c \<in> set cs. \<exists>d \<in> set cs. lags_behind c d \<and> m = ec_env d @ '' is behind '' @ ec_env c"
proof (induction cs)
  case (Cons c cs)
  then show ?case by (auto dest: find_some_in split: option.splits)
qed simp

text \<open>
  The lag message is sound and complete: there is one exactly when some environment of the ladder runs
  an older version than an environment before it, and it names two such environments, the later one first.
\<close>

theorem lag_message_iff:
  "(app_group_lag_message cells = None \<longleftrightarrow> \<not> list_ex (\<lambda>c. list_ex (\<lambda>d. runs_behind d c) cells) cells)
   \<and> (case app_group_lag_message cells of
        None \<Rightarrow> True
      | Some m \<Rightarrow> list_ex (\<lambda>c. list_ex (\<lambda>d. runs_behind d c \<and> m = ec_env d @ '' is behind '' @ ec_env c) cells) cells)"
proof -
  let ?rank = "\<lambda>c. coalesce (cell_rank c) 0" and ?cs = "ranked_cells cells"
  have set: "set ?cs = {c \<in> set cells. cell_rank c \<noteq> None \<and> truthy_str (ec_version c)}" by (simp add: ranked_cells_def)
  then have sub: "set ?cs \<subseteq> set cells" by blast
  have behind: "lags_behind c d \<longleftrightarrow> runs_behind d c" if "c \<in> set ?cs" "d \<in> set ?cs" for c d
    using that by (auto simp: set lags_behind_def runs_behind_def)
  have pair: "c \<in> set ?cs \<and> d \<in> set ?cs" if "c \<in> set cells" "d \<in> set cells" "runs_behind d c" for c d
    using that by (auto simp: set runs_behind_def split: option.splits)
  have "sorted_wrt (\<lambda>a b. int (?rank a) - int (?rank b) \<le> 0) ?cs"
    unfolding ranked_cells_def by (rule by_key.sorted_js_sort)
  then have "sorted_wrt (\<lambda>c d. \<not> lags_behind c d) cs \<longleftrightarrow> (\<forall>c \<in> set cs. \<forall>d \<in> set cs. \<not> lags_behind c d)"
    if "cs = ?cs" for cs
    unfolding that [symmetric] by (induction cs) (auto simp: lags_behind_def)
  then have "first_lag ?cs = None \<longleftrightarrow> (\<forall>c \<in> set ?cs. \<forall>d \<in> set ?cs. \<not> lags_behind c d)" by (simp add: first_lag_none)
  then have "app_group_lag_message cells = None \<longleftrightarrow> \<not> list_ex (\<lambda>c. list_ex (\<lambda>d. runs_behind d c) cells) cells"
    unfolding app_group_lag_message_def list_ex_iff using behind pair sub by blast
  moreover have "case app_group_lag_message cells of None \<Rightarrow> True
      | Some m \<Rightarrow> list_ex (\<lambda>c. list_ex (\<lambda>d. runs_behind d c \<and> m = ec_env d @ '' is behind '' @ ec_env c) cells) cells"
  proof (cases "app_group_lag_message cells")
    case (Some m)
    from first_lag_some [OF this [unfolded app_group_lag_message_def]] obtain c d where
      "c \<in> set ?cs" "d \<in> set ?cs" "lags_behind c d" "m = ec_env d @ '' is behind '' @ ec_env c" by blast
    moreover from this have "runs_behind d c" "c \<in> set cells" "d \<in> set cells" using behind by (auto simp: set)
    ultimately show ?thesis unfolding Some option.case list_ex_iff by blast
  qed simp
  ultimately show ?thesis by blast
qed

section \<open>The membership index\<close>

lemma set_first_lookup: "map_of (set_first v key m) k = (case map_of m k of Some x \<Rightarrow> Some x | None \<Rightarrow> if k = key then Some v else None)"
  by (auto simp: set_first_def map_add_def split: option.splits)

lemma set_first_keys: "map fst (set_first v key m) = (if key \<in> set (map fst m) then map fst m else map fst m @ [key])"
  by (auto simp: set_first_def map_of_eq_None_iff)

lemma set_firsts_lookup:
  "map_of (fold (set_first v) ks m) k = (case map_of m k of Some x \<Rightarrow> Some x | None \<Rightarrow> if k \<in> set ks then Some v else None)"
  by (induction ks arbitrary: m) (auto simp: set_first_lookup split: option.splits)

lemma set_firsts_distinct: "distinct (map fst m) \<Longrightarrow> distinct (map fst (fold (set_first v) ks m))"
  by (induction ks arbitrary: m) (simp_all add: set_first_keys)

lemma index_rows_lookup:
  "map_of (index_rows keys rows) k = map_option membership_of (List.find (\<lambda>row. k \<in> set (keys row)) rows)"
proof -
  have "map_of (fold (\<lambda>row m. fold (set_first (membership_of row)) (keys row) m) rows m) k
      = (case map_of m k of Some x \<Rightarrow> Some x | None \<Rightarrow> map_option membership_of (List.find (\<lambda>row. k \<in> set (keys row)) rows))" for m
    by (induction rows arbitrary: m) (auto simp: set_firsts_lookup split: option.splits)
  then show ?thesis by (simp add: index_rows_def)
qed

lemma index_rows_distinct: "distinct (map fst (index_rows keys rows))"
proof -
  have "distinct (map fst m) \<Longrightarrow> distinct (map fst (fold (\<lambda>row m. fold (set_first (membership_of row)) (keys row) m) rows m))" for m
    by (induction rows arbitrary: m) (simp_all add: set_firsts_distinct)
  then show ?thesis by (simp add: index_rows_def)
qed

definition alias_of :: "(string \<times> app_membership) list \<Rightarrow> string \<Rightarrow> (string \<times> app_membership) list" where
  \<comment> \<open>the entries that share a key without group\<close>
  "alias_of entries k = filter (\<lambda>e. unqualified_key (fst e) = Some k) entries"

definition aliases_ok :: "(string \<times> app_membership) list \<Rightarrow> alias_state \<Rightarrow> bool" where
  "aliases_ok seen st \<longleftrightarrow>
     (\<forall>k. map_of (al_canonical st) k = (case alias_of seen k of [] \<Rightarrow> None | e # es \<Rightarrow> Some (fst e))
        \<and> (k \<in> set (al_ambiguous st) \<longleftrightarrow> 2 \<le> length (alias_of seen k))
        \<and> map_of (al_by_unqualified st) k = (case alias_of seen k of [e] \<Rightarrow> Some (snd e) | _ \<Rightarrow> None))"

lemma unqualified_key_nonempty: "unqualified_key [] = None"
  by (simp add: unqualified_key_def parse_lane_id_def)

lemma alias_step_ok:
  assumes ok: "aliases_ok seen st" and fresh: "c \<notin> fst ` set seen"
  shows "aliases_ok (seen @ [(c, m)]) (alias_step (c, m) st)"
proof (cases "unqualified_key c")
  case None
  then show ?thesis using ok by (simp add: aliases_ok_def alias_of_def alias_step_def)
next
  case (Some k)
  have grown: "alias_of (seen @ [(c, m)]) k' = alias_of seen k' @ (if k' = k then [(c, m)] else [])" for k'
    by (auto simp: alias_of_def Some)
  have inv: "map_of (al_canonical st) k' = (case alias_of seen k' of [] \<Rightarrow> None | e # es \<Rightarrow> Some (fst e))"
      "k' \<in> set (al_ambiguous st) \<longleftrightarrow> 2 \<le> length (alias_of seen k')"
      "map_of (al_by_unqualified st) k' = (case alias_of seen k' of [e] \<Rightarrow> Some (snd e) | _ \<Rightarrow> None)" for k'
    using ok by (simp_all add: aliases_ok_def)
  show ?thesis
  proof (cases "alias_of seen k")
    case Nil
    then have "map_of (al_canonical st) k = None" "k \<notin> set (al_ambiguous st)" by (simp_all add: inv)
    then have "alias_step (c, m) st = st\<lparr>al_canonical := AList.update k c (al_canonical st),
        al_by_unqualified := AList.update k m (al_by_unqualified st)\<rparr>" by (simp add: alias_step_def Some)
    then show ?thesis unfolding aliases_ok_def grown by (auto simp: inv update_conv' Nil)
  next
    case (Cons e es)
    then have e: "e \<in> set seen" "unqualified_key (fst e) = Some k"
      using Cons by (auto simp: alias_of_def dest!: filter_eq_ConsD)
    then have "fst e \<noteq> []" "fst e \<noteq> c" using fresh unqualified_key_nonempty by force+
    then have "alias_step (c, m) st = st\<lparr>al_ambiguous := set_add k (al_ambiguous st),
        al_by_unqualified := AList.delete k (al_by_unqualified st)\<rparr>" by (simp add: alias_step_def Some inv Cons)
    then show ?thesis unfolding aliases_ok_def grown
      by (auto simp: inv delete_conv' Cons split: list.splits)
  qed
qed

lemma aliases_of_fold:
  assumes "distinct (map fst (seen @ rest))" "aliases_ok seen st"
  shows "aliases_ok (seen @ rest) (fold alias_step rest st)"
  using assms
proof (induction rest arbitrary: seen st)
  case (Cons e rest)
  then have "aliases_ok (seen @ [e]) (alias_step e st)" using alias_step_ok [of seen st "fst e" "snd e"] by auto
  with Cons.IH [of "seen @ [e]"] Cons.prems(1) show ?case by simp
qed simp

text \<open>
  The membership index is exact. Under a resource id, or a piece of evidence, it has the application of
  the first row that claims it, and of no other; under a key without group it has an application exactly
  when one indexed resource alone answers to that key, and then that resource's.
\<close>

theorem membership_index_exact:
  "let index = build_app_membership_index rows;
       claimant = (\<lambda>keys k. map_option membership_of (List.find (\<lambda>row. k \<in> set (keys row)) rows))
   in map_of (ai_by_resource index) k = claimant claimed_keys k
      \<and> map_of (ai_by_evidence index) k = claimant evidence_keys k
      \<and> map_of (coalesce (ai_by_unqualified index) []) u
          = (case alias_of (ai_by_resource index) u of [e] \<Rightarrow> Some (snd e) | _ \<Rightarrow> None)"
proof -
  have "aliases_ok [] \<lparr>al_by_unqualified = [], al_canonical = [], al_ambiguous = []\<rparr>" by (simp add: aliases_ok_def alias_of_def)
  from aliases_of_fold [OF _ this, of "index_rows claimed_keys rows"]
  have "map_of (unqualified_aliases (index_rows claimed_keys rows)) u
      = (case alias_of (index_rows claimed_keys rows) u of [e] \<Rightarrow> Some (snd e) | _ \<Rightarrow> None)"
    by (simp add: index_rows_distinct aliases_ok_def unqualified_aliases_def)
  then show ?thesis by (simp add: build_app_membership_index_def Let_def index_rows_lookup)
qed

section \<open>Displayed health\<close>

definition health_signals :: "app_host \<Rightarrow> app_row \<Rightarrow> health_status list" where
  "health_signals h app =
     (let serving = filter (\<lambda>w. aw_batch w = None) (row_workloads app) in
      if workload_class_of (row_workload_class app) = ClsJob then [br_health (batch_runtime_for_app h app)]
      else if serving \<noteq> [] then List.map_filter named_health (map aw_health serving)
      else [health_of (row_health app)])
     @ (case row_source_status app of None \<Rightarrow> [] | Some s \<Rightarrow> delivery_signals s)"

lemma health_rank_inject: "health_rank x = health_rank y \<longleftrightarrow> x = y"
  by (cases x; cases y) simp_all

lemma worst_of_Cons: "worst_of (h # hs) = fold worse hs h"
  by (cases h) (simp_all add: worst_of_def worse_def)

lemma worse_rank [simp]: "health_rank (worse x w) = max (health_rank x) (health_rank w)"
  by (simp add: worse_def)

lemma worst_of_rank: "health_rank (worst_of hs) = foldr (\<lambda>x. max (health_rank x)) hs 0"
proof -
  have "health_rank (fold worse hs w) = max (foldr (\<lambda>x. max (health_rank x)) hs 0) (health_rank w)" for w
    by (induction hs arbitrary: w) auto
  from this [of StNeutral] show ?thesis by (simp add: worst_of_def)
qed

lemma worst_of_append: "worst_of (xs @ ys) = worst_of [worst_of xs, worst_of ys]"
proof -
  have "foldr (\<lambda>x. max (health_rank x)) (xs @ ys) 0 = max (foldr (\<lambda>x. max (health_rank x)) xs 0) (foldr (\<lambda>x. max (health_rank x)) ys 0)"
    by (induction xs) auto
  then have "health_rank (worst_of (xs @ ys)) = health_rank (worst_of [worst_of xs, worst_of ys])"
    by (simp add: worst_of_rank)
  then show ?thesis by (simp only: health_rank_inject)
qed

lemma worst_of_simps [simp]: "worst_of [] = StNeutral" "worst_of [x] = x"
  by (simp add: worst_of_def) (simp add: worst_of_Cons)

lemma worst_of_in: "worst_of hs \<in> insert StNeutral (set hs)"
proof -
  have "fold worse hs w \<in> insert w (set hs)" for w
    by (induction hs arbitrary: w) (auto simp: worse_def)
  then show ?thesis unfolding worst_of_def .
qed

lemma worst_of_upper: "h \<in> set hs \<Longrightarrow> health_rank h \<le> health_rank (worst_of hs)"
  unfolding worst_of_rank by (induction hs) auto

text \<open>
  The displayed health of an application is the worst of its signals: of the health of its serving
  workloads, of its batch work, or of the server's word where it has neither, and of what its source
  reports. So it is shown healthy or idle only when no signal is worse, and a signal is never made up.
\<close>

theorem displayed_health_is_worst:
  "application_display_health h app \<in> set (StNeutral # health_signals h app)
   \<and> list_all (\<lambda>x. health_rank x \<le> health_rank (application_display_health h app)) (health_signals h app)"
proof -
  have "application_display_health h app = worst_of (health_signals h app)"
    unfolding health_signals_def worst_of_append application_display_health_def
    by (auto simp: application_runtime_health_def application_delivery_health_def worst_health_def Let_def split: option.split)
  then show ?thesis using worst_of_in [of "health_signals h app"] by (auto simp: list_all_iff worst_of_upper)
qed

text \<open>
  A health the client does not know is dropped by \<open>worstHealth\<close>, where \<open>healthOf\<close> and the server rank it with
  \<open>unknown\<close>.
\<close>

lemma unrecognised_health_reads_idle: "worst_health [''alert''] = StNeutral \<and> health_of ''alert'' = StUnknown"
  by code_simp

section \<open>The selected workload\<close>

text \<open>A selection is a workload of the application, and the only one is always selected.\<close>

lemma selection_is_a_workload:
  "case ws_selected (resolve_app_workload_selection keys host) of None \<Rightarrow> length keys \<noteq> 1 | Some k \<Rightarrow> k \<in> set keys"
proof -
  have "k \<in> set keys" if "exact_selection keys host = Some k" for k
    using that by (auto simp: exact_selection_def split: if_splits option.splits)
  moreover have "k \<in> set keys" if "legacy_selection keys host = Some k" for k
  proof -
    have "filter P keys = [k] \<Longrightarrow> k \<in> set keys" for P by (drule arg_cong [of _ _ set]) auto
    with that show ?thesis by (auto simp: legacy_selection_def split: if_splits option.splits list.splits)
  qed
  ultimately show ?thesis
    by (auto simp: resolve_app_workload_selection_def Let_def coalesce_opt_def split: option.split list.split)
qed

end
