(* ===== verification/Investigation.thy ===== *)
theory Investigation
  imports Radar_Prelude Complex_Main
begin

text \<open>
  What an investigation view decides (\<open>web/src/components/diagnose/investigationState.ts\<close> and the parts of
  \<open>InvestigationView.tsx\<close> that use it): which turn is the current assessment, when its fix may be applied and
  when it must be verified first, when a healthy verdict is contradicted by evidence, and what a failure or
  a lost run is shown as. Diagnoses carry the fields these rules read. An object is compared by reference in
  the code; a timeline item carries its reference.
\<close>

section \<open>Kinds of evidence\<close>

record evidence_kind_traits =
  \<comment> \<open>the icon is left out\<close>
  kt_adverse :: bool
  kt_focused :: bool
  kt_full_row :: bool
  kt_caveat :: "string option"

definition evidence_kind_table :: "(string \<times> evidence_kind_traits) list" where
  "evidence_kind_table =
     (let t = \<lambda>a f r c. \<lparr>kt_adverse = a, kt_focused = f, kt_full_row = r, kt_caveat = c\<rparr>;
          direct = Some ''This shows direct relationships Radar found, not an inferred blast radius.''
      in [(''issue'', t True False False None), (''startup'', t True False False None), (''crash'', t True True False None),
          (''resource'', t True True False None), (''logs'', t True True True None),
          (''events'', t True False True (Some ''Events support the timeline; proximity alone does not establish cause.'')),
          (''changes'', t False False False None), (''dns'', t True False False None), (''network'', t True False False None),
          (''relationships'', t False False False direct), (''topology'', t False False False direct),
          (''inventory'', t False False False None),
          (''ranking'', t False False True (Some ''Ranked by live metrics at the moment of the read; a position is not a cause.'')),
          (''posture'', t False False True (Some ''Posture findings are configuration checks, not evidence of an active failure.'')),
          (''receipt'', t False False False None),
          (''alerts'', t True True True (Some ''Instances are matched to this investigation by their Prometheus labels; a firing rule alone does not establish the cause.'')),
          (''helm'', t True True False None),
          (''permissions'', t False True False (Some ''This is what RBAC grants the subject, not what the workload has exercised.'')),
          (''metrics'', t False True True None)])"


definition evidence_kind_is_focused :: "string \<Rightarrow> bool" where
  "evidence_kind_is_focused kind = (case map_of evidence_kind_table kind of None \<Rightarrow> False | Some t \<Rightarrow> kt_focused t)"

definition is_diagnosable_workload_kind :: "string \<Rightarrow> bool" where
  "is_diagnosable_workload_kind kind \<longleftrightarrow>
     to_lower kind \<in> {''pod'', ''deployment'', ''statefulset'', ''daemonset'', ''rollout''}"

section \<open>Runs and turns\<close>

datatype run_status = RunRunning | RunStopping | RunDone | RunError | RunStopped | RunStale

datatype run_trigger = TriggerInteractive | TriggerBackground

record run_summary =
  rs_issue_id :: "string option"
  rs_status :: run_status
  rs_can_continue :: "bool option"
  rs_continue_blocked_reason :: "string option"
  rs_trigger :: "run_trigger option"

datatype turn_status = TurnRunning | TurnDone | TurnError

datatype apply_outcome = OutcomeConfirmed | OutcomeFailed | OutcomeUnknown

record diagnosis =
  dx_healthy :: "bool option"
  dx_inconclusive :: "bool option"
  dx_root_cause :: string
  dx_summary :: "string option"
  dx_revises_assessment :: "bool option"
  dx_remediation :: "string list"

datatype timeline_item = ItemThinking nat string | ItemTool nat string string

record turn =
  tu_explain_assessment :: "int option"
  tu_question :: "string option"
  tu_timeline :: "timeline_item list"
  tu_diagnosis :: "diagnosis option"
  tu_error :: "string option"
  tu_status :: turn_status
  tu_apply :: "bool option"
  tu_apply_outcome :: "apply_outcome option"
  tu_verify :: "bool option"
  tu_animate_result :: "bool option"

section \<open>Panes and interactions\<close>

datatype pane = PaneActivity | PaneEvidence

definition initial_investigation_pane :: "run_status \<Rightarrow> pane" where
  "initial_investigation_pane s = (if s = RunDone \<or> s = RunStale then PaneEvidence else PaneActivity)"

definition investigation_evidence_should_mark_unread :: "bool \<Rightarrow> pane \<Rightarrow> bool \<Rightarrow> bool" where
  "investigation_evidence_should_mark_unread has_new_live_source selected evidence_visible \<longleftrightarrow>
     has_new_live_source \<and> selected = PaneActivity \<and> \<not> evidence_visible"

definition investigation_evidence_announcement :: "bool \<Rightarrow> bool \<Rightarrow> string" where
  "investigation_evidence_announcement unread update_available =
     (if unread then ''New evidence available''
      else if update_available then ''New evidence available in Findings.''
      else [])"

definition investigation_is_read_only :: "run_status \<Rightarrow> bool \<Rightarrow> bool" where
  "investigation_is_read_only s gone \<longleftrightarrow> s = RunStale \<or> gone"

record interaction_input =
  ii_stream_ready :: bool
  ii_busy :: bool
  ii_request_pending :: bool
  ii_read_only :: bool
  ii_verification_pending :: bool

definition investigation_interactions_blocked :: "interaction_input \<Rightarrow> bool" where
  "investigation_interactions_blocked i \<longleftrightarrow>
     \<not> ii_stream_ready i \<or> ii_busy i \<or> ii_request_pending i \<or> ii_read_only i \<or> ii_verification_pending i"

section \<open>Applying a fix\<close>

record apply_indexes =
  \<comment> \<open>indexes of turns, or -1\<close>
  ix_assessment :: int
  ix_remediation :: int
  ix_apply_attempt :: int
  ix_local_attempt :: int

definition can_offer_investigation_apply :: "apply_indexes \<Rightarrow> bool \<Rightarrow> bool \<Rightarrow> bool \<Rightarrow> bool" where
  "can_offer_investigation_apply ix blocked can_apply has_newer_evidence \<longleftrightarrow>
     ix_assessment ix = ix_remediation ix
     \<and> ix_assessment ix > max (ix_apply_attempt ix) (ix_local_attempt ix)
     \<and> \<not> blocked \<and> can_apply \<and> \<not> has_newer_evidence"

definition investigation_apply_attempt_verified :: "apply_indexes \<Rightarrow> bool \<Rightarrow> bool" where
  "investigation_apply_attempt_verified ix assessment_is_verification \<longleftrightarrow>
     ix_local_attempt ix \<ge> 0 \<and> ix_assessment ix > ix_local_attempt ix \<and> assessment_is_verification"

definition needs_current_state_verification :: "apply_indexes \<Rightarrow> apply_outcome option \<Rightarrow> bool" where
  "needs_current_state_verification ix last_outcome \<longleftrightarrow>
     (if ix_assessment ix < 0 then False
      else if ix_apply_attempt ix > ix_assessment ix then last_outcome \<noteq> Some OutcomeFailed
      else ix_local_attempt ix \<ge> ix_assessment ix)"

record refusal =
  rf_status :: int
  rf_message :: string
  rf_code :: "string option"
  rf_reason :: "string option"
  rf_action :: "string option"

record failure_input =
  fi_action_error :: "string option"
  fi_action_refusal :: "refusal option"
  fi_verification_error :: "string option"
  fi_verification_refusal :: "refusal option"
  fi_saved_verification_error :: "string option"
  fi_apply_outcome_uncertain :: "string option"

record failure_shown =
  fs_verification_error :: "string option"
  fs_status_check_error :: "string option"
  fs_message :: "string option"
  fs_refusal :: "refusal option"
  fs_follow_up :: "(string \<times> refusal option) option"

definition investigation_failure_shown :: "failure_input \<Rightarrow> failure_shown" where
  "investigation_failure_shown i =
     (let verification_error = or_str (fi_verification_error i) (fi_saved_verification_error i);
          status_check_error = or_str verification_error (fi_apply_outcome_uncertain i)
      in if truthy_str status_check_error
         then \<lparr>fs_verification_error = verification_error, fs_status_check_error = status_check_error,
               fs_message = status_check_error,
               fs_refusal = (if truthy_str (fi_verification_error i) then fi_verification_refusal i else None),
               fs_follow_up = (if truthy_str (fi_action_error i)
                  then Some (coalesce (fi_action_error i) [], fi_action_refusal i) else None)\<rparr>
         else \<lparr>fs_verification_error = None, fs_status_check_error = None, fs_message = fi_action_error i,
               fs_refusal = (if truthy_str (fi_action_error i) then fi_action_refusal i else None),
               fs_follow_up = None\<rparr>)"

datatype request_error = DiagnoseError int string | OtherError

definition investigation_apply_rejection_is_definitive :: "request_error \<Rightarrow> bool" where
  "investigation_apply_rejection_is_definitive e = (case e of DiagnoseError status msg \<Rightarrow> status < 500 | OtherError \<Rightarrow> False)"

definition investigation_apply_completion_effects :: "bool \<Rightarrow> bool \<Rightarrow> bool \<Rightarrow> bool \<times> bool" where
  \<comment> \<open>whether to refresh the cluster state, and whether a verification is pending\<close>
  "investigation_apply_completion_effects live started_live stale =
     (let mine = live \<or> started_live in (mine, mine \<and> \<not> stale))"

datatype terminal_event = EventDone "diagnosis option" "apply_outcome option" | EventError "string option" "apply_outcome option"

definition investigation_turn_with_terminal_event :: "turn \<Rightarrow> terminal_event \<Rightarrow> bool \<Rightarrow> turn" where
  "investigation_turn_with_terminal_event t ev animate =
     (case ev of
        EventDone dx outcome \<Rightarrow>
          t\<lparr>tu_diagnosis := dx, tu_error := None, tu_status := TurnDone, tu_apply_outcome := outcome, tu_animate_result := Some animate\<rparr>
      | EventError e outcome \<Rightarrow>
          if tu_status t = TurnRunning
          then t\<lparr>tu_error := Some (or_else e ''The investigation failed.''), tu_status := TurnError,
                 tu_apply_outcome := outcome, tu_animate_result := Some animate\<rparr>
          else t)"

definition apply_terminal_needs_cluster_refresh :: "bool \<Rightarrow> bool \<Rightarrow> bool \<Rightarrow> bool \<Rightarrow> bool" where
  "apply_terminal_needs_cluster_refresh local_pending streamed_pending started_live terminal_live \<longleftrightarrow>
     local_pending \<or> streamed_pending \<and> (started_live \<or> terminal_live)"

datatype close_reason = RunClosed | CloseUnavailable

definition investigation_closed_event_is_live :: "close_reason \<Rightarrow> run_status \<Rightarrow> bool \<Rightarrow> bool" where
  "investigation_closed_event_is_live reason subscribed replay_complete =
     (if reason = RunClosed then subscribed \<noteq> RunStale else replay_complete)"

definition investigation_closed_run_is_unavailable :: "close_reason \<Rightarrow> run_status \<Rightarrow> bool" where
  "investigation_closed_run_is_unavailable reason subscribed \<longleftrightarrow>
     reason = CloseUnavailable \<or> subscribed \<notin> {RunRunning, RunStale}"

section \<open>Evidence inputs\<close>

definition item_ref :: "timeline_item \<Rightarrow> nat" where
  "item_ref i = (case i of ItemThinking r text \<Rightarrow> r | ItemTool r name status \<Rightarrow> r)"

definition is_completed_evidence_tool :: "timeline_item \<Rightarrow> bool" where
  "is_completed_evidence_tool i \<longleftrightarrow> (case i of ItemThinking r text \<Rightarrow> False | ItemTool r name status \<Rightarrow> status = ''done'')"

fun skip_to_completed :: "timeline_item list \<Rightarrow> nat \<Rightarrow> nat" where
  \<comment> \<open>how far the index moves: the inner loops\<close>
  "skip_to_completed [] i = i"
| "skip_to_completed (x # xs) i = (if is_completed_evidence_tool x then i else skip_to_completed xs (Suc i))"

definition next_completed :: "timeline_item list \<Rightarrow> nat \<Rightarrow> nat" where
  "next_completed xs i = skip_to_completed (drop i xs) i"

lemma skip_to_completed_ge: "i \<le> skip_to_completed xs i"
proof (induction xs arbitrary: i)
  case (Cons x xs)
  then show ?case using Suc_leD [OF Cons.IH] by simp
qed simp

function same_completed :: "timeline_item list \<Rightarrow> timeline_item list \<Rightarrow> nat \<Rightarrow> nat \<Rightarrow> bool" where
  \<comment> \<open>the loop over the completed tools of two timelines\<close>
  "same_completed as bs i j =
     (let a = next_completed as i; b = next_completed bs j in
      if length as \<le> a \<or> length bs \<le> b then (length as \<le> a) = (length bs \<le> b)
      else if a \<noteq> b \<or> item_ref (as ! a) \<noteq> item_ref (bs ! b) then False
      else same_completed as bs (Suc a) (Suc b))"
  by pat_completeness auto
termination
proof (relation "measure (\<lambda>(as, bs, i, j). length as - i)")
  fix as bs :: "timeline_item list" and i j a b :: nat
  assume a: "a = next_completed as i" and in_range: "\<not> (length as \<le> a \<or> length bs \<le> b)"
  have "i \<le> a" unfolding a next_completed_def by (rule skip_to_completed_ge)
  with in_range show "((as, bs, Suc a, Suc b), as, bs, i, j) \<in> measure (\<lambda>(as, bs, i, j). length as - i)" by auto
qed simp

declare same_completed.simps [simp del]

definition same_evidence_turn :: "turn \<Rightarrow> turn \<Rightarrow> bool" where
  "same_evidence_turn a b \<longleftrightarrow>
     tu_question a = tu_question b \<and> tu_apply a = tu_apply b \<and> tu_verify a = tu_verify b \<and> tu_status a = tu_status b
     \<and> same_completed (tu_timeline a) (tu_timeline b) 0 0"

definition investigation_evidence_inputs_equal :: "turn list \<Rightarrow> turn list \<Rightarrow> bool" where
  "investigation_evidence_inputs_equal previous later \<longleftrightarrow>
     length previous = length later \<and> list_all2 same_evidence_turn previous later"

section \<open>Assessments\<close>

definition structured_diagnosis :: "diagnosis \<Rightarrow> bool" where
  "structured_diagnosis dx \<longleftrightarrow>
     dx_root_cause dx \<noteq> [] \<or> dx_remediation dx \<noteq> [] \<or> truthy_bool (dx_healthy dx) \<or> truthy_bool (dx_inconclusive dx)"

definition complete_revision :: "diagnosis \<Rightarrow> bool" where
  "complete_revision dx \<longleftrightarrow>
     dx_revises_assessment dx = Some True \<and> truthy_str (dx_summary dx)
     \<and> (dx_root_cause dx \<noteq> [] \<or> truthy_bool (dx_healthy dx) \<or> truthy_bool (dx_inconclusive dx))"

definition investigation_is_assessment_turn :: "turn \<Rightarrow> bool" where
  "investigation_is_assessment_turn t \<longleftrightarrow>
     (case tu_diagnosis t of
        None \<Rightarrow> False
      | Some dx \<Rightarrow>
          if tu_status t \<noteq> TurnDone \<or> truthy_bool (tu_apply t) \<or> truthy_num (tu_explain_assessment t) then False
          else if \<not> structured_diagnosis dx then False
          else if \<not> truthy_str (tu_question t) \<or> truthy_bool (tu_verify t) then True
          else complete_revision dx)"

definition turn_at :: "turn list \<Rightarrow> int \<Rightarrow> turn option" where
  \<comment> \<open>\<open>turns[i]\<close>, undefined out of range\<close>
  "turn_at ts i = (if 0 \<le> i \<and> nat i < length ts then Some (ts ! nat i) else None)"

definition is_settled_answer :: "turn \<Rightarrow> bool" where
  "is_settled_answer t \<longleftrightarrow>
     tu_status t = TurnDone \<and> \<not> truthy_bool (tu_apply t) \<and> \<not> truthy_bool (tu_verify t)
     \<and> \<not> truthy_num (tu_explain_assessment t)
     \<and> (case tu_diagnosis t of None \<Rightarrow> False | Some dx \<Rightarrow> dx_revises_assessment dx \<noteq> Some True)"

definition investigation_settled_answer_turn_indexes :: "turn list \<Rightarrow> int \<Rightarrow> int list" where
  "investigation_settled_answer_turn_indexes ts current =
     (case Option.bind (turn_at ts current) tu_diagnosis of
        None \<Rightarrow> []
      | Some dx \<Rightarrow>
          if \<not> truthy_str (dx_summary dx) then []
          else map (int \<circ> fst) (filter (\<lambda>(i, t). int i > current \<and> is_settled_answer t) (enumerate 0 ts)))"

definition turn_indexes :: "(turn \<Rightarrow> bool) \<Rightarrow> turn list \<Rightarrow> int list" where
  "turn_indexes p ts = map (int \<circ> fst) (filter (\<lambda>(i, t). p t) (enumerate 0 ts))"

definition investigation_assessment_turn_indexes :: "turn list \<Rightarrow> int list" where
  "investigation_assessment_turn_indexes ts = turn_indexes investigation_is_assessment_turn ts"

section \<open>Coverage\<close>

datatype relevance = RelTarget | RelProducer | RelBroader

datatype evidence_tier = TierKey | TierSupporting | TierContext | TierChecked

record health_event =
  he_reason :: string
  he_message :: string
  he_type :: "string option"

record observation =
  ob_relevance :: relevance
  ob_tier :: evidence_tier
  ob_tone :: string
  ob_title :: "string option"
  ob_events :: "health_event list option option" \<comment> \<open>of data of type \<open>events\<close>; None for other data\<close>
  ob_source_turn :: "int option"
  ob_source_id :: "string option"

record evidence_group =
  gr_id :: "string option"
  gr_identity :: "string option"
  gr_historical :: bool
  gr_kind :: string
  gr_latest :: observation

record evidence_source =
  so_id :: string
  so_tool :: string
  so_confirmed_success :: bool

record evidence_projection =
  pj_groups :: "evidence_group list"
  pj_sources :: "evidence_source list"
  pj_projected :: nat
  pj_limitations :: nat

definition has_target_diagnosis :: "evidence_projection \<Rightarrow> bool" where
  "has_target_diagnosis p \<longleftrightarrow>
     (let ids = map so_id (filter (\<lambda>s. so_tool s = ''diagnose'' \<and> so_confirmed_success s) (pj_sources p))
      in list_ex (\<lambda>g. ob_relevance (gr_latest g) \<noteq> RelBroader
           \<and> (case ob_source_id (gr_latest g) of None \<Rightarrow> False | Some i \<Rightarrow> i \<in> set ids)) (pj_groups p))"

definition investigation_evidence_coverage_gaps :: "evidence_projection \<Rightarrow> string option \<Rightarrow> bool \<times> bool" where
  \<comment> \<open>no evidence, and no diagnosis of the target\<close>
  "investigation_evidence_coverage_gaps p target_kind =
     (if (case target_kind of None \<Rightarrow> False | Some k \<Rightarrow> \<not> is_diagnosable_workload_kind k)
      then (pj_projected p = 0, False)
      else (pj_projected p = 0, \<not> has_target_diagnosis p))"

definition investigation_evidence_coverage_limited :: "evidence_projection \<Rightarrow> string option \<Rightarrow> bool" where
  "investigation_evidence_coverage_limited p target_kind \<longleftrightarrow>
     (let gaps = investigation_evidence_coverage_gaps p target_kind in pj_limitations p > 0 \<or> fst gaps \<or> snd gaps)"

section \<open>Evidence against a healthy verdict\<close>







datatype placement = PlacedCard | PlacedRevision | PlacedSource
















section \<open>Ends of a run\<close>

definition investigation_ended_before_conclusion :: "run_status \<Rightarrow> turn option \<Rightarrow> bool" where
  "investigation_ended_before_conclusion s last_turn \<longleftrightarrow>
     (s = RunError \<or> s = RunStopped)
     \<and> (case last_turn of
          None \<Rightarrow> True
        | Some t \<Rightarrow> tu_status t = TurnError \<and> tu_apply t \<noteq> Some True \<and> \<not> truthy_num (tu_explain_assessment t))"

record history_unavailable_state =
  hu_error :: string
  hu_retryable :: bool

definition history_unavailable_presentation :: "history_unavailable_state \<Rightarrow> string \<times> string \<times> bool" where
  \<comment> \<open>title, detail and whether it is loading\<close>
  "history_unavailable_presentation st =
     (if hu_retryable st
      then let e = trim (hu_error st); retrying = ''Radar is retrying without discarding this run.''
           in (''Saved history is temporarily unavailable'',
               (if e \<noteq> [] then e @ (if last e \<in> {CHR ''.'', CHR ''!'', CHR ''?''} then '' '' else ''. '') @ retrying else retrying), True)
      else (''Saved history is unavailable'',
            (if hu_error st \<noteq> [] then hu_error st else ''Radar could not restore this run from its saved history.''), False))"

definition pane_centered_scroll_top :: "rat \<Rightarrow> rat \<Rightarrow> rat \<Rightarrow> rat \<Rightarrow> rat \<Rightarrow> rat" where
  "pane_centered_scroll_top scroll_top viewport content target_top target_height =
     (let centered = scroll_top + target_top - max 0 ((viewport - target_height) / 2)
      in max 0 (min centered (content - viewport)))"

definition transcript_terminal :: "turn_status option \<Rightarrow> bool" where
  "transcript_terminal s \<longleftrightarrow> s = Some TurnDone \<or> s = Some TurnError"

definition can_stop_investigation :: "run_summary \<Rightarrow> bool \<Rightarrow> bool \<Rightarrow> turn_status option \<Rightarrow> bool" where
  "can_stop_investigation run busy gone latest \<longleftrightarrow>
     rs_trigger run \<noteq> Some TriggerBackground \<and> rs_status run \<noteq> RunStale \<and> rs_status run \<noteq> RunStopping
     \<and> \<not> gone \<and> \<not> transcript_terminal latest \<and> (busy \<or> rs_status run = RunRunning)"

definition can_continue_investigation :: "run_summary \<Rightarrow> turn_status option \<Rightarrow> bool \<Rightarrow> bool" where
  "can_continue_investigation run latest gone \<longleftrightarrow>
     (let lagging = (rs_status run = RunRunning \<and> rs_trigger run \<noteq> Some TriggerBackground \<and> transcript_terminal latest)
      in \<not> gone \<and> rs_status run \<noteq> RunStale \<and> rs_status run \<noteq> RunStopping \<and> (rs_can_continue run \<noteq> Some False \<or> lagging))"

definition read_only_notice :: "run_summary \<Rightarrow> string" where
  "read_only_notice run = or_else (map_option trim (rs_continue_blocked_reason run)) ''This investigation is read-only.''"

definition can_investigate_further :: "run_summary \<Rightarrow> bool \<Rightarrow> bool" where
  "can_investigate_further run gone \<longleftrightarrow>
     \<not> gone \<and> rs_trigger run = Some TriggerBackground \<and> rs_status run = RunDone \<and> truthy_str (rs_issue_id run)"

section \<open>Evidence inputs: the loop against its meaning\<close>

definition completed_tools :: "timeline_item list \<Rightarrow> nat \<Rightarrow> (nat \<times> nat) list" where
  \<comment> \<open>place and reference of the completed tools from an index on\<close>
  "completed_tools xs i =
     map (\<lambda>(n, x). (n, item_ref x)) (filter (\<lambda>(n, x). is_completed_evidence_tool x) (enumerate i (drop i xs)))"

lemma skip_finds:
  "(skip_to_completed xs i < i + length xs \<and> is_completed_evidence_tool (xs ! (skip_to_completed xs i - i))
      \<and> filter (\<lambda>(n, x). is_completed_evidence_tool x) (enumerate i xs)
        = (skip_to_completed xs i, xs ! (skip_to_completed xs i - i))
          # filter (\<lambda>(n, x). is_completed_evidence_tool x)
              (enumerate (Suc (skip_to_completed xs i)) (drop (Suc (skip_to_completed xs i - i)) xs)))
   \<or> (skip_to_completed xs i = i + length xs \<and> filter (\<lambda>(n, x). is_completed_evidence_tool x) (enumerate i xs) = [])"
proof (induction xs arbitrary: i)
  case (Cons x xs)
  have "Suc i \<le> skip_to_completed xs (Suc i)" by (rule skip_to_completed_ge)
  then obtain d where d: "skip_to_completed xs (Suc i) = Suc i + d" by (metis le_Suc_ex)
  show ?case using Cons.IH [of "Suc i"] by (auto simp: d Suc_diff_le)
qed simp

lemma completed_tools_step:
  assumes "i \<le> length xs"
  shows "completed_tools xs i =
    (if next_completed xs i < length xs
     then (next_completed xs i, item_ref (xs ! next_completed xs i)) # completed_tools xs (Suc (next_completed xs i)) else [])"
proof -
  have "i \<le> next_completed xs i" unfolding next_completed_def by (rule skip_to_completed_ge)
  then obtain d where d: "next_completed xs i = i + d" by (metis le_Suc_ex)
  show ?thesis
    using skip_finds [of "drop i xs" i] assms
    by (auto simp: completed_tools_def d [unfolded next_completed_def] next_completed_def [symmetric] d add.commute split: if_splits)
qed

lemma completed_tools_end: "length xs \<le> i \<Longrightarrow> completed_tools xs i = []"
  by (simp add: completed_tools_def)

lemma next_completed_le: "i \<le> length xs \<Longrightarrow> next_completed xs i \<le> length xs"
  using skip_finds [of "drop i xs" i] by (auto simp: next_completed_def)

lemma same_completed_iff:
  assumes "i \<le> length as" "j \<le> length bs"
  shows "same_completed as bs i j \<longleftrightarrow> completed_tools as i = completed_tools bs j"
  using assms
proof (induction as bs i j rule: same_completed.induct)
  case (1 as bs i j)
  let ?a = "next_completed as i" and ?b = "next_completed bs j"
  show ?case
  proof (cases "length as \<le> ?a \<or> length bs \<le> ?b")
    case True
    then show ?thesis
      by (subst same_completed.simps) (auto simp: completed_tools_step [OF 1(2)] completed_tools_step [OF 1(3)] Let_def)
  next
    case False
    with 1 show ?thesis
      by (subst same_completed.simps) (auto simp: completed_tools_step [OF 1(2)] completed_tools_step [OF 1(3)] Let_def)
  qed
qed

definition evidence_input :: "turn \<Rightarrow> string option \<times> bool option \<times> bool option \<times> turn_status \<times> (nat \<times> nat) list" where
  \<comment> \<open>what the evidence projection reads of a turn\<close>
  "evidence_input t = (tu_question t, tu_apply t, tu_verify t, tu_status t, completed_tools (tu_timeline t) 0)"

text \<open>
  Turns count as unchanged for the evidence exactly when nothing the evidence is projected from has
  changed: the same turns in question, flags and status, with the same completed tools at the same places.
  Revealed reasoning and running tools between them make no difference.
\<close>

theorem evidence_inputs_equal_iff:
  "investigation_evidence_inputs_equal previous later \<longleftrightarrow> map evidence_input previous = map evidence_input later"
proof -
  have "same_evidence_turn a b \<longleftrightarrow> evidence_input a = evidence_input b" for a b
    by (simp add: same_evidence_turn_def evidence_input_def same_completed_iff)
  then show ?thesis
    unfolding investigation_evidence_inputs_equal_def
    by (auto simp: list_all2_conv_all_nth list_eq_iff_nth_eq)
qed

section \<open>Explained conflicts\<close>








end
