(* ===== verification/Apply_Protocol.thy ===== *)
theory Apply_Protocol
  imports Investigation
begin

text \<open>
  Applying a fix from an investigation, as a state machine (\<open>web/src/components/diagnose/InvestigationView.tsx\<close>):
  the view's own state, the operator's actions, the answers to its requests, the turns the stream brings,
  and the effect that runs after a render. Two fields record what the code does not keep: the assessments
  whose apply request is unanswered, and those whose request may have been carried out.
\<close>

section \<open>The view\<close>

record apply_view =
  av_turns :: "turn list"
  av_local_attempt :: int
  av_dialog :: bool
  av_pending_fix :: string
  av_stream_ready :: bool
  av_read_only :: bool
  av_busy :: bool
  av_request_pending :: bool
  av_verification_pending :: bool
  av_local_request :: bool
  av_pending_apply :: bool
  av_started_live :: bool
  av_action_error :: "string option"
  av_verification_error :: "string option"
  av_uncertain :: "string option"
  av_in_flight :: "int list"
  av_attempts :: "int list"

definition open_view :: "turn list \<Rightarrow> apply_view" where
  "open_view ts =
     \<lparr>av_turns = ts, av_local_attempt = - 1, av_dialog = False, av_pending_fix = [], av_stream_ready = True,
      av_read_only = False, av_busy = False, av_request_pending = False, av_verification_pending = False,
      av_local_request = False, av_pending_apply = False, av_started_live = False, av_action_error = None,
      av_verification_error = None, av_uncertain = None, av_in_flight = [], av_attempts = []\<rparr>"

definition last_index :: "(turn \<Rightarrow> bool) \<Rightarrow> turn list \<Rightarrow> int" where
  \<comment> \<open>\<open>indexes.at(-1) ?? -1\<close>\<close>
  "last_index p ts = (case turn_indexes p ts of [] \<Rightarrow> - 1 | is \<Rightarrow> last is)"

definition has_remediation :: "turn \<Rightarrow> bool" where
  "has_remediation t \<longleftrightarrow> (case tu_diagnosis t of None \<Rightarrow> False | Some dx \<Rightarrow> dx_remediation dx \<noteq> [])"

definition current_assessment :: "apply_view \<Rightarrow> int" where
  "current_assessment v = last_index investigation_is_assessment_turn (av_turns v)"

definition view_indexes :: "apply_view \<Rightarrow> apply_indexes" where
  "view_indexes v =
     \<lparr>ix_assessment = current_assessment v,
      ix_remediation = last_index (\<lambda>t. investigation_is_assessment_turn t \<and> has_remediation t) (av_turns v),
      ix_apply_attempt = last_index (\<lambda>t. truthy_bool (tu_apply t)) (av_turns v),
      ix_local_attempt = av_local_attempt v\<rparr>"

definition view_blocked :: "apply_view \<Rightarrow> bool" where
  "view_blocked v \<longleftrightarrow> investigation_interactions_blocked
     \<lparr>ii_stream_ready = av_stream_ready v, ii_busy = av_busy v, ii_request_pending = av_request_pending v,
      ii_read_only = av_read_only v, ii_verification_pending = av_verification_pending v\<rparr>"

section \<open>Steps\<close>

datatype apply_event =
    AskApply string bool bool \<comment> \<open>the fix; whether the host can apply; whether there is newer evidence\<close>
  | CancelApply
  | ConfirmApply
  | ApplyAnswered nat
  | ApplyRefused nat request_error
  | AskStatus
  | StatusRefused request_error
  | TurnStarted "string option" "bool option" "bool option" "int option" bool \<comment> \<open>question, apply, verify, explanation; live\<close>
  | TurnEnded terminal_event bool bool bool bool \<comment> \<open>live, verification scheduled, stale run, backend verifies\<close>
  | Rendered

definition new_turn :: "string option \<Rightarrow> bool option \<Rightarrow> bool option \<Rightarrow> int option \<Rightarrow> turn" where
  "new_turn question apply_turn verify explain =
     \<lparr>tu_explain_assessment = explain, tu_question = question, tu_timeline = [], tu_diagnosis = None, tu_error = None,
      tu_status = TurnRunning, tu_apply = apply_turn, tu_apply_outcome = None, tu_verify = verify, tu_animate_result = None\<rparr>"

definition update_last :: "(turn \<Rightarrow> turn) \<Rightarrow> turn list \<Rightarrow> turn list" where
  "update_last f ts = (if ts = [] then [] else butlast ts @ [f (last ts)])"

definition drop_nth :: "nat \<Rightarrow> 'a list \<Rightarrow> 'a list" where
  "drop_nth n xs = take n xs @ drop (Suc n) xs"

definition confirm_apply :: "apply_view \<Rightarrow> apply_view" where
  \<comment> \<open>\<open>runApply\<close> up to its request\<close>
  "confirm_apply v =
     (let closed = v\<lparr>av_dialog := False\<rparr> in
      if view_blocked v then closed
      else closed\<lparr>av_action_error := None, av_verification_error := None, av_uncertain := None,
             av_local_attempt := max (av_local_attempt v) (current_assessment v), av_local_request := True,
             av_request_pending := True, av_in_flight := av_in_flight v @ [current_assessment v],
             av_attempts := av_attempts v @ [current_assessment v]\<rparr>)"

definition uncertain_message :: "request_error \<Rightarrow> string" where
  "uncertain_message e =
     (case e of
        DiagnoseError status msg \<Rightarrow>
          if trim msg \<noteq> [] then trim msg @ '' Radar has not verified the current state; check it before applying again.''
          else ''Radar couldn'' @ [CHR 0x27] @ ''t confirm whether the apply request completed. Cluster state was refreshed; check current status before applying again.''
      | OtherError \<Rightarrow> ''Radar couldn'' @ [CHR 0x27] @ ''t confirm whether the apply request completed. Cluster state was refreshed; check current status before applying again.'')"

definition refused_message :: "request_error \<Rightarrow> string" where
  "refused_message e = (case e of DiagnoseError status msg \<Rightarrow> or_else (Some (trim msg)) (''Couldn'' @ [CHR 0x27] @ ''t apply.'')
     | OtherError \<Rightarrow> ''Couldn'' @ [CHR 0x27] @ ''t apply.'')"

definition apply_refused :: "nat \<Rightarrow> request_error \<Rightarrow> apply_view \<Rightarrow> apply_view" where
  \<comment> \<open>the \<open>catch\<close> of \<open>runApply\<close>\<close>
  "apply_refused n e v =
     (if n \<ge> length (av_in_flight v) then v
      else let a = av_in_flight v ! n; answered = v\<lparr>av_request_pending := False, av_in_flight := drop_nth n (av_in_flight v)\<rparr> in
        if investigation_apply_rejection_is_definitive e
        then answered\<lparr>av_local_request := False, av_local_attempt := - 1, av_uncertain := None,
               av_action_error := Some (refused_message e), av_attempts := remove1 a (av_attempts v)\<rparr>
        else answered\<lparr>av_uncertain := Some (uncertain_message e)\<rparr>)"

definition turn_started :: "string option \<Rightarrow> bool option \<Rightarrow> bool option \<Rightarrow> int option \<Rightarrow> bool \<Rightarrow> apply_view \<Rightarrow> apply_view" where
  "turn_started question apply_turn verify explain live v =
     (let v1 = v\<lparr>av_request_pending := False\<rparr>;
          v2 = (if truthy_bool apply_turn
            then v1\<lparr>av_started_live := av_started_live v \<or> live \<or> av_local_request v, av_pending_apply := True,
                    av_local_request := False, av_uncertain := None\<rparr>
            else v1);
          v3 = (if truthy_bool verify then v2\<lparr>av_verification_pending := False, av_verification_error := None\<rparr> else v2);
          v4 = (if live then v3\<lparr>av_busy := True\<rparr> else v3)
      in v4\<lparr>av_turns := av_turns v @ [new_turn question apply_turn verify explain]\<rparr>)"

definition turn_done :: "terminal_event \<Rightarrow> bool \<Rightarrow> bool \<Rightarrow> bool \<Rightarrow> apply_view \<Rightarrow> apply_view" where
  "turn_done ev live stale verifies v =
     (let v1 = v\<lparr>av_turns := update_last (\<lambda>t. investigation_turn_with_terminal_event t ev live) (av_turns v)\<rparr>;
          v2 = (if live then v1\<lparr>av_busy := False\<rparr> else v1)
      in if \<not> av_pending_apply v then v2
         else let effects = investigation_apply_completion_effects live (av_started_live v) stale
              in v2\<lparr>av_pending_apply := False, av_started_live := False,
                    av_verification_pending := av_verification_pending v \<or> snd effects \<and> verifies\<rparr>)"

definition turn_failed :: "terminal_event \<Rightarrow> bool \<Rightarrow> bool \<Rightarrow> apply_view \<Rightarrow> apply_view" where
  "turn_failed ev live verification_scheduled v =
     (let scheduled = (live \<and> verification_scheduled);
          verifying = (live \<and> av_turns v \<noteq> [] \<and> truthy_bool (tu_verify (last (av_turns v))));
          message = (case ev of EventError e outcome \<Rightarrow> or_else e ''The verification could not be completed.'' | _ \<Rightarrow> [])
      in v\<lparr>av_verification_error := (if verifying then Some message else av_verification_error v),
           av_turns := update_last (\<lambda>t. investigation_turn_with_terminal_event t ev live) (av_turns v),
           av_busy := (if live \<and> \<not> scheduled then False else av_busy v),
           av_request_pending := False, av_pending_apply := False, av_started_live := False, av_local_request := False,
           av_verification_pending := scheduled\<rparr>)"

definition current_is_verification :: "apply_view \<Rightarrow> bool" where
  "current_is_verification v \<longleftrightarrow>
     (case turn_at (av_turns v) (current_assessment v) of None \<Rightarrow> False | Some t \<Rightarrow> tu_verify t = Some True)"

definition after_render :: "apply_view \<Rightarrow> apply_view" where
  \<comment> \<open>the effect on \<open>laterVerificationRecorded\<close>\<close>
  "after_render v =
     (if investigation_apply_attempt_verified (view_indexes v) (current_is_verification v)
      then v\<lparr>av_local_attempt := - 1, av_uncertain := None, av_local_request := False\<rparr> else v)"

definition offered :: "bool \<Rightarrow> bool \<Rightarrow> apply_view \<Rightarrow> bool" where
  "offered can_apply newer_evidence v \<longleftrightarrow>
     can_offer_investigation_apply (view_indexes v) (view_blocked v) can_apply newer_evidence"

definition status_message :: "request_error \<Rightarrow> string" where
  "status_message e = (case e of DiagnoseError status msg \<Rightarrow> msg | OtherError \<Rightarrow> ''Couldn'' @ [CHR 0x27] @ ''t check status.'')"

fun view_step :: "apply_event \<Rightarrow> apply_view \<Rightarrow> apply_view" where
  "view_step (AskApply fix_text can newer) v =
     (if offered can newer v \<and> \<not> view_blocked v then v\<lparr>av_pending_fix := fix_text, av_dialog := True\<rparr> else v)"
| "view_step CancelApply v = v\<lparr>av_dialog := False\<rparr>"
| "view_step ConfirmApply v = (if av_dialog v then confirm_apply v else v)"
| "view_step (ApplyAnswered n) v = v\<lparr>av_in_flight := drop_nth n (av_in_flight v)\<rparr>"
| "view_step (ApplyRefused n e) v = apply_refused n e v"
| "view_step AskStatus v =
     (if view_blocked v then v else v\<lparr>av_action_error := None, av_verification_error := None, av_request_pending := True\<rparr>)"
| "view_step (StatusRefused e) v = v\<lparr>av_request_pending := False, av_verification_error := Some (status_message e)\<rparr>"
| "view_step (TurnStarted q a vf ex live) v = turn_started q a vf ex live v"
| "view_step (TurnEnded ev live scheduled stale verifies) v =
     (case ev of EventDone dx outcome \<Rightarrow> turn_done ev live stale verifies v | EventError e outcome \<Rightarrow> turn_failed ev live scheduled v)"
| "view_step Rendered v = after_render v"

definition view_run :: "apply_event list \<Rightarrow> apply_view \<Rightarrow> apply_view" where
  "view_run evs v = fold view_step evs v"

section \<open>What the server and the operator keep to\<close>

definition event_in_order :: "apply_event \<Rightarrow> apply_view \<Rightarrow> bool" where
  \<comment> \<open>a turn ends once, and the operator awaits the answer to an apply request before the next\<close>
  "event_in_order ev v \<longleftrightarrow>
     (case ev of
        TurnEnded e live scheduled stale verifies \<Rightarrow> av_turns v \<noteq> [] \<and> tu_status (last (av_turns v)) = TurnRunning
      | ConfirmApply \<Rightarrow> av_in_flight v = []
      | _ \<Rightarrow> True)"

fun in_order :: "apply_event list \<Rightarrow> apply_view \<Rightarrow> bool" where
  "in_order [] v \<longleftrightarrow> True"
| "in_order (ev # evs) v \<longleftrightarrow> event_in_order ev v \<and> in_order evs (view_step ev v)"

section \<open>Indexes of turns\<close>

lemma turn_indexes_snoc [simp]: "turn_indexes p (ts @ [t]) = turn_indexes p ts @ (if p t then [int (length ts)] else [])"
  by (simp add: turn_indexes_def enumerate_append_eq)

lemma turn_indexes_nil [simp]: "turn_indexes p [] = []"
  by (simp add: turn_indexes_def)

lemma last_index_alt: "last_index p ts = (if turn_indexes p ts = [] then - 1 else last (turn_indexes p ts))"
  by (simp add: last_index_def split: list.split)

lemma last_index_snoc [simp]: "last_index p (ts @ [t]) = (if p t then int (length ts) else last_index p ts)"
  by (simp add: last_index_alt)

lemma last_index_nil [simp]: "last_index p [] = - 1"
  by (simp add: last_index_def)

lemma last_index_less: "last_index p ts < int (length ts)"
  by (induction ts rule: rev_induct) auto

lemma last_index_upper: "i < length ts \<Longrightarrow> p (ts ! i) \<Longrightarrow> int i \<le> last_index p ts"
  by (induction ts rule: rev_induct) (auto simp: nth_append less_Suc_eq)

lemma last_index_holds: "last_index p ts \<ge> 0 \<Longrightarrow> \<exists>t. turn_at ts (last_index p ts) = Some t \<and> p t"
proof (induction ts rule: rev_induct)
  case (snoc t ts)
  show ?case
  proof (cases "p t")
    case False
    with snoc obtain u where "turn_at ts (last_index p ts) = Some u" "p u" by auto
    with False show ?thesis by (auto simp: turn_at_def nth_append split: if_splits)
  qed (simp add: turn_at_def)
qed simp

lemma running_is_no_assessment: "tu_status t = TurnRunning \<Longrightarrow> \<not> investigation_is_assessment_turn t"
  by (simp add: investigation_is_assessment_turn_def split: option.split)

lemma assessment_grows_on_update:
  assumes "ts \<noteq> []" "tu_status (last ts) = TurnRunning"
  shows "last_index investigation_is_assessment_turn ts \<le> last_index investigation_is_assessment_turn (update_last f ts)"
proof -
  obtain us t where ts: "ts = us @ [t]" using assms(1) by (cases ts rule: rev_cases) auto
  then have "\<not> investigation_is_assessment_turn t" using assms(2) running_is_no_assessment by simp
  then show ?thesis using last_index_less [of investigation_is_assessment_turn us] by (simp add: ts update_last_def)
qed

section \<open>The invariant\<close>

definition apply_inv :: "apply_view \<Rightarrow> bool" where
  "apply_inv v \<longleftrightarrow>
     (\<forall>a \<in> set (av_attempts v). a < current_assessment v \<or> a \<le> av_local_attempt v)
     \<and> (av_dialog v \<longrightarrow> (\<forall>a \<in> set (av_attempts v). a < current_assessment v))
     \<and> (av_in_flight v = [] \<or> (\<exists>a. av_in_flight v = [a] \<and> (\<forall>b \<in> set (remove1 a (av_attempts v)). b < current_assessment v)))"

lemma apply_inv_grows:
  \<comment> \<open>a step that leaves the operator's side alone, and no assessment behind\<close>
  assumes "apply_inv v" "current_assessment v \<le> current_assessment w" "av_attempts w = av_attempts v"
    "av_local_attempt w = av_local_attempt v" "av_dialog w \<longrightarrow> av_dialog v"
    "av_in_flight w = av_in_flight v \<or> av_in_flight w = []"
  shows "apply_inv w"
proof -
  have "a < current_assessment v \<Longrightarrow> a < current_assessment w" for a using assms(2) by simp
  with assms(1,3-6) show ?thesis unfolding apply_inv_def by auto
qed

lemma offered_after_attempts:
  assumes "apply_inv v" "offered can newer v" "a \<in> set (av_attempts v)"
  shows "a < current_assessment v"
  using assms by (fastforce simp: apply_inv_def offered_def can_offer_investigation_apply_def view_indexes_def)

lemma current_of_turns: "av_turns w = av_turns v \<Longrightarrow> current_assessment w = current_assessment v"
  by (simp add: current_assessment_def)

lemma confirm_inv:
  assumes inv: "apply_inv v" and dialog: "av_dialog v" and free: "av_in_flight v = []"
  shows "apply_inv (confirm_apply v)"
proof (cases "view_blocked v")
  case True
  then show ?thesis using inv by (simp add: confirm_apply_def apply_inv_def current_assessment_def)
next
  case False
  have older: "\<forall>a \<in> set (av_attempts v). a < current_assessment v" using inv dialog by (simp add: apply_inv_def)
  then have "remove1 (current_assessment v) (av_attempts v @ [current_assessment v]) = av_attempts v"
    by (auto simp: remove1_append)
  with False older free show ?thesis
    by (auto simp: confirm_apply_def apply_inv_def Let_def current_assessment_def)
qed

lemma refused_inv:
  assumes inv: "apply_inv v"
  shows "apply_inv (apply_refused n e v)"
proof (cases "n < length (av_in_flight v)")
  case True
  then obtain a where a: "av_in_flight v = [a]" "n = 0" "\<forall>b \<in> set (remove1 a (av_attempts v)). b < current_assessment v"
    using inv by (auto simp: apply_inv_def)
  then show ?thesis
    using inv by (auto simp: apply_refused_def apply_inv_def Let_def drop_nth_def current_assessment_def)
qed (simp add: apply_refused_def inv)

lemma apply_step_inv:
  assumes inv: "apply_inv v" and ok: "event_in_order ev v"
  shows "apply_inv (view_step ev v)"
proof (cases ev)
  case (AskApply fix_text can newer)
  show ?thesis
  proof (cases "offered can newer v \<and> \<not> view_blocked v")
    case True
    then have "\<forall>a \<in> set (av_attempts v). a < current_assessment v" using offered_after_attempts [OF inv] by blast
    with True inv show ?thesis by (simp add: AskApply apply_inv_def current_assessment_def)
  qed (auto simp: AskApply inv)
next
  case ConfirmApply
  then show ?thesis using confirm_inv [OF inv] ok by (simp add: event_in_order_def inv)
next
  case (ApplyAnswered n)
  have "drop_nth n (av_in_flight v) = av_in_flight v \<or> drop_nth n (av_in_flight v) = []"
    using inv by (cases n) (auto simp: apply_inv_def drop_nth_def)
  then show ?thesis by (intro apply_inv_grows [OF inv]) (auto simp: ApplyAnswered current_assessment_def)
next
  case (TurnStarted q a vf ex live)
  have "current_assessment (turn_started q a vf ex live v) = current_assessment v"
    by (simp add: turn_started_def Let_def current_assessment_def running_is_no_assessment new_turn_def)
  then show ?thesis by (intro apply_inv_grows [OF inv]) (auto simp: TurnStarted turn_started_def Let_def)
next
  case (TurnEnded e live scheduled stale verifies)
  then have "av_turns v \<noteq> []" "tu_status (last (av_turns v)) = TurnRunning" using ok by (simp_all add: event_in_order_def)
  from assessment_grows_on_update [OF this, of "\<lambda>t. investigation_turn_with_terminal_event t e live"]
  have "current_assessment v \<le> current_assessment (view_step ev v)"
    by (cases e; cases live) (simp_all add: TurnEnded turn_done_def turn_failed_def Let_def current_assessment_def)
  then show ?thesis
    by (intro apply_inv_grows [OF inv]) (auto simp: TurnEnded turn_done_def turn_failed_def Let_def split: terminal_event.split)
next
  case Rendered
  show ?thesis
  proof (cases "investigation_apply_attempt_verified (view_indexes v) (current_is_verification v)")
    case True
    then have "av_local_attempt v < current_assessment v"
      by (simp add: investigation_apply_attempt_verified_def view_indexes_def)
    with inv have "\<forall>a \<in> set (av_attempts v). a < current_assessment v" by (fastforce simp: apply_inv_def)
    with True inv show ?thesis by (auto simp: Rendered after_render_def apply_inv_def current_assessment_def)
  qed (simp add: Rendered after_render_def inv)
next
  case (ApplyRefused n e)
  then show ?thesis using refused_inv [OF inv] by simp
qed (use inv in \<open>auto simp: apply_inv_def current_assessment_def\<close>)

lemma apply_run_inv: "apply_inv v \<Longrightarrow> in_order evs v \<Longrightarrow> apply_inv (view_run evs v)"
  by (induction evs arbitrary: v) (simp_all add: view_run_def apply_step_inv)

text \<open>
  C8. Apply is offered only for a new assessment. Whatever the operator does, the requests answer and the
  stream brings, as long as a turn ends once and the operator awaits the answer to an apply request before
  the next, an offered fix belongs to the current assessment, which has one; no apply turn follows that
  assessment; and it is later than every assessment from which a write of this view may have been carried
  out, an unanswered or lost request included.
\<close>

theorem apply_offered_only_for_a_new_assessment:
  assumes "in_order evs (open_view ts)" and "v = view_run evs (open_view ts)" and "offered can_apply newer v"
  shows "(\<exists>t. turn_at (av_turns v) (current_assessment v) = Some t \<and> investigation_is_assessment_turn t \<and> has_remediation t)
    \<and> (\<forall>i < length (av_turns v). truthy_bool (tu_apply (av_turns v ! i)) \<longrightarrow> int i < current_assessment v)
    \<and> (\<forall>a \<in> set (av_attempts v). a < current_assessment v)"
proof -
  let ?fix = "\<lambda>t. investigation_is_assessment_turn t \<and> has_remediation t"
  have "apply_inv (open_view ts)" by (simp add: apply_inv_def open_view_def)
  then have inv: "apply_inv v" unfolding assms(2) using assms(1) by (rule apply_run_inv)
  have same: "current_assessment v = last_index ?fix (av_turns v)"
    and later: "last_index (\<lambda>t. truthy_bool (tu_apply t)) (av_turns v) < current_assessment v"
    using assms(3) by (simp_all add: offered_def can_offer_investigation_apply_def view_indexes_def)
  have "- 1 \<le> last_index p us" for p us by (induction us rule: rev_induct) auto
  from this [of "\<lambda>t. truthy_bool (tu_apply t)" "av_turns v"] later have "0 \<le> current_assessment v" by linarith
  then have "0 \<le> last_index ?fix (av_turns v)" by (simp only: same)
  from last_index_holds [OF this] have "\<exists>t. turn_at (av_turns v) (current_assessment v) = Some t \<and> ?fix t" unfolding same .
  moreover have "int i < current_assessment v" if "i < length (av_turns v)" "truthy_bool (tu_apply (av_turns v ! i))" for i
    using last_index_upper [of i "av_turns v" "\<lambda>t. truthy_bool (tu_apply t)"] that later by simp
  moreover have "\<forall>a \<in> set (av_attempts v). a < current_assessment v" using offered_after_attempts [OF inv assms(3)] by blast
  ultimately show ?thesis by blast
qed

definition sample_diagnosis :: "bool option \<Rightarrow> diagnosis" where
  "sample_diagnosis revises =
     \<lparr>dx_healthy = None, dx_inconclusive = None, dx_root_cause = ''the image does not exist'', dx_summary = Some ''Image missing'',
      dx_revises_assessment = revises, dx_remediation = [''roll back'']\<rparr>"

definition sample_turns :: "turn list" where
  \<comment> \<open>an investigation with its first assessment\<close>
  "sample_turns =
     [(new_turn None None None None)\<lparr>tu_status := TurnDone, tu_diagnosis := Some (sample_diagnosis None)\<rparr>]"

definition lost_apply :: "apply_event list" where
  \<comment> \<open>the operator applies the fix; the answer is lost\<close>
  "lost_apply = [AskApply ''roll back'' True False, ConfirmApply, ApplyRefused 0 OtherError]"

definition verified_after :: "apply_event list" where
  "verified_after = [TurnStarted (Some ''How is it now?'') None (Some True) None True,
     TurnEnded (EventDone (Some (sample_diagnosis None)) None) True False False True, Rendered]"

lemma lost_apply_is_not_offered_again: "\<not> offered True False (view_run lost_apply (open_view sample_turns))"
  by code_simp

lemma apply_offered_only_for_a_new_assessment_witness:
  "av_attempts (view_run (lost_apply @ verified_after) (open_view sample_turns)) = [0]
   \<and> 0 < current_assessment (view_run (lost_apply @ verified_after) (open_view sample_turns))"
proof -
  have "in_order (lost_apply @ verified_after) (open_view sample_turns)" by code_simp
  moreover have "offered True False (view_run (lost_apply @ verified_after) (open_view sample_turns))" by code_simp
  ultimately have "\<forall>a \<in> set (av_attempts (view_run (lost_apply @ verified_after) (open_view sample_turns))).
      a < current_assessment (view_run (lost_apply @ verified_after) (open_view sample_turns))"
    using apply_offered_only_for_a_new_assessment [OF _ refl] by blast
  moreover have "av_attempts (view_run (lost_apply @ verified_after) (open_view sample_turns)) = [0]" by code_simp
  ultimately show ?thesis by simp
qed

text \<open>
  What the comments of the code promise and the code does not: that after a lost apply only a verification
  brings Apply back. An answer that revises the assessment brings it back as well.
\<close>

lemma apply_returns_without_verification:
  "let v = view_run (lost_apply @ [TurnStarted (Some ''Could it be the tag?'') None None None True,
        TurnEnded (EventDone (Some (sample_diagnosis (Some True))) None) True False False True, Rendered]) (open_view sample_turns)
   in offered True False v \<and> \<not> current_is_verification v \<and> av_attempts v = [0]"
  by code_simp

text \<open>
  The dialog outlives the offer: with the dialog open, the fix is applied from another window; the operator
  confirms, and the same fix is requested again for an assessment that is retired already.
\<close>

lemma confirmed_fix_may_be_applied_already:
  "let v = view_run [AskApply ''roll back'' True False, TurnStarted None (Some True) None None True,
        TurnEnded (EventDone None (Some OutcomeConfirmed)) True False False False] (open_view sample_turns)
   in \<not> offered True False v \<and> av_dialog v
      \<and> av_attempts (view_step ConfirmApply v) = [0] \<and> last_index (\<lambda>t. truthy_bool (tu_apply t)) (av_turns v) = 1"
  by code_simp

end
