(* ===== verification/Keyed_Maps.thy ===== *)
theory Keyed_Maps
  imports Radar_Prelude
begin

text \<open>
  A loop that files its elements into a \<open>Map\<close> under a key: the first of a key makes the entry, each later
  one is folded into it. The contract of such a loop body is the locale \<open>keyed_accumulation\<close>; what the
  map holds in the end is stated without the loop. The traffic map's merged edges, its endpoints and its
  namespaces are such maps.
\<close>

locale keyed_accumulation =
  fixes key :: "'x \<Rightarrow> 'k" and entry :: "'x \<Rightarrow> 'v" and join_in :: "'x \<Rightarrow> 'v \<Rightarrow> 'v"
    and enter :: "'x \<Rightarrow> ('k \<times> 'v) list \<Rightarrow> ('k \<times> 'v) list"
  assumes enter_eq: "enter x m =
    AList.update (key x) (case map_of m (key x) of None \<Rightarrow> entry x | Some v \<Rightarrow> join_in x v) m"
begin

lemma map_of_enter:
  "map_of (enter x m) k = (if key x = k then Some (case map_of m k of None \<Rightarrow> entry x | Some v \<Rightarrow> join_in x v)
     else map_of m k)"
  by (auto simp: enter_eq update_conv')

lemma filed_entry_gen:
  "map_of (fold enter xs m) k =
     (case map_of m k of
        Some v \<Rightarrow> Some (fold join_in (filter (\<lambda>x. key x = k) xs) v)
      | None \<Rightarrow> (case filter (\<lambda>x. key x = k) xs of
            [] \<Rightarrow> None | x # rest \<Rightarrow> Some (fold join_in rest (entry x))))"
proof (induction xs arbitrary: m)
  case Nil
  then show ?case by (simp split: option.splits)
next
  case (Cons x xs)
  show ?case
    by (cases "key x = k") (simp_all add: Cons.IH map_of_enter split: option.splits)
qed

text \<open>The entry of a key: its elements folded in the order of the list into the entry of the first.\<close>

lemma filed_entry:
  "map_of (fold enter xs []) k =
     (case filter (\<lambda>x. key x = k) xs of [] \<Rightarrow> None | x # rest \<Rightarrow> Some (fold join_in rest (entry x)))"
  by (simp add: filed_entry_gen)

lemma filed_keys_distinct: "distinct (map fst m) \<Longrightarrow> distinct (map fst (fold enter xs m))"
  by (induction xs arbitrary: m) (simp_all add: enter_eq distinct_update)

lemma filed_keys_gen: "map fst (fold enter xs m) = fold (\<lambda>x ks. set_add (key x) ks) xs (map fst m)"
  by (induction xs arbitrary: m) (simp_all add: enter_eq update_keys set_add_def)

lemma filed_keys: "map fst (fold enter xs []) = set_from (map key xs)"
  by (simp add: filed_keys_gen set_from_def fold_map comp_def)

lemma filed_key_set: "fst ` set (fold enter xs []) = key ` set xs"
  using arg_cong [OF filed_keys, of set] by simp

lemma filed_mem_iff:
  "(k, v) \<in> set (fold enter xs []) \<longleftrightarrow> map_of (fold enter xs []) k = Some v"
  using filed_keys_distinct [of "[]" xs] by (simp add: map_of_eq_Some_iff)

text \<open>A member of the map is the fold of the elements of its key, of which there is at least one.\<close>

lemma filed_memE:
  assumes "(k, v) \<in> set (fold enter xs [])"
  obtains x rest where "filter (\<lambda>x. key x = k) xs = x # rest" and "v = fold join_in rest (entry x)"
  using assms by (auto simp: filed_mem_iff filed_entry split: list.splits)

lemma set_update_subset: "set (AList.update k w m) \<subseteq> insert (k, w) (set m)"
  by (induction m) auto

text \<open>A measure that joining adds up is kept: its sum over the entries is its sum over the elements.\<close>

lemma sum_update:
  assumes "map_of m k = Some v" and "distinct (map fst m)"
  shows "sum_list (map (\<lambda>(k, v). f v) (AList.update k w m)) + f v
       = sum_list (map (\<lambda>(k, v). f v) m) + (f w :: 'b::comm_monoid_add)"
  using assms
proof (induction m)
  case Nil
  then show ?case by simp
next
  case (Cons kv m)
  then show ?case by (cases kv) (auto simp: ac_simps split: if_splits)
qed

lemma sum_update_new:
  "map_of m k = None \<Longrightarrow>
   sum_list (map (\<lambda>(k, v). f v) (AList.update k w m)) = sum_list (map (\<lambda>(k, v). f v) m) + (f w :: 'b::comm_monoid_add)"
  by (induction m) (auto simp: ac_simps split: if_splits)

lemma filed_sum_gen:
  fixes f :: "'v \<Rightarrow> 'b::cancel_comm_monoid_add" and g :: "'x \<Rightarrow> 'b"
  assumes "\<And>x. x \<in> set xs \<Longrightarrow> ok_el x" and "\<And>k v. (k, v) \<in> set m \<Longrightarrow> ok v"
    and "\<And>x. ok_el x \<Longrightarrow> ok (entry x) \<and> f (entry x) = g x"
    and "\<And>x v. ok_el x \<Longrightarrow> ok v \<Longrightarrow> ok (join_in x v) \<and> f (join_in x v) = f v + g x"
    and "distinct (map fst m)"
  shows "sum_list (map (\<lambda>(k, v). f v) (fold enter xs m)) = sum_list (map (\<lambda>(k, v). f v) m) + sum_list (map g xs)"
  using assms(1,2,5)
proof (induction xs arbitrary: m)
  case Nil
  then show ?case by simp
next
  case (Cons x xs)
  have x: "ok_el x" using Cons.prems(1) by simp
  have ok: "ok v" if "(k, v) \<in> set (enter x m)" for k v
  proof (cases "map_of m (key x)")
    case None
    then have "(k, v) \<in> set m \<or> v = entry x" using that set_update_subset [of "key x" "entry x" m] by (auto simp: enter_eq)
    then show ?thesis using Cons.prems(2) assms(3) [OF x] by blast
  next
    case (Some w)
    then have "(k, v) \<in> set m \<or> v = join_in x w" using that set_update_subset [of "key x" "join_in x w" m] by (auto simp: enter_eq)
    then show ?thesis using Cons.prems(2) assms(4) [OF x] map_of_SomeD [OF Some] by blast
  qed
  have "sum_list (map (\<lambda>(k, v). f v) (enter x m)) = sum_list (map (\<lambda>(k, v). f v) m) + g x"
  proof (cases "map_of m (key x)")
    case None
    then show ?thesis using assms(3) [OF x] by (simp add: enter_eq sum_update_new)
  next
    case (Some w)
    have "f (join_in x w) = f w + g x" using assms(4) [OF x] Cons.prems(2) map_of_SomeD [OF Some] by blast
    then have "sum_list (map (\<lambda>(k, v). f v) (enter x m)) + f w = sum_list (map (\<lambda>(k, v). f v) m) + g x + f w"
      using sum_update [OF Some Cons.prems(3), of f "join_in x w"] by (simp add: enter_eq Some ac_simps)
    then show ?thesis by simp
  qed
  moreover have "distinct (map fst (enter x m))" using Cons.prems(3) by (simp add: enter_eq distinct_update)
  ultimately show ?case using Cons.IH [of "enter x m"] Cons.prems(1) ok by (simp add: ac_simps)
qed

lemma filed_sum:
  fixes f :: "'v \<Rightarrow> 'b::cancel_comm_monoid_add"
  assumes "\<And>x. f (entry x) = g x" and "\<And>x v. f (join_in x v) = f v + g x"
  shows "sum_list (map f (map snd (fold enter xs []))) = sum_list (map g xs)"
proof -
  have "sum_list (map f (map snd m)) = sum_list (map (\<lambda>(k, v). f v) m)" for m :: "('k \<times> 'v) list"
    by (induction m) auto
  then show ?thesis
    using filed_sum_gen [of xs "\<lambda>_. True" "[]" "\<lambda>_. True" f g] assms by simp
qed

end

text \<open>Sorting the entries of a map by their keys: the result depends on the map alone.\<close>

lemma map_sort_insert: "map f (sort_insert (\<lambda>a b. c (f a) (f b)) x xs) = sort_insert c (f x) (map f xs)"
  by (induction xs) auto

lemma map_js_sort: "map f (js_sort (\<lambda>a b. c (f a) (f b)) xs) = js_sort c (map f xs)"
  by (induction xs) (simp_all add: map_sort_insert)

lemma sort_entries_unique:
  assumes "set m = set m'" and "distinct (map fst m)" and "distinct (map fst m')"
  shows "js_sort (\<lambda>a b. str_cmp (fst a) (fst b)) m = js_sort (\<lambda>a b. str_cmp (fst a) (fst b)) m'"
proof (rule map_inj_on)
  have "mset (map fst m) = mset (map fst m')"
    using assms by (metis set_eq_iff_mset_eq_distinct list.set_map)
  then show "map fst (js_sort (\<lambda>a b. str_cmp (fst a) (fst b)) m) = map fst (js_sort (\<lambda>a b. str_cmp (fst a) (fst b)) m')"
    unfolding map_js_sort by (rule by_code.js_sort_mset_cong)
  show "inj_on fst (set (js_sort (\<lambda>a b. str_cmp (fst a) (fst b)) m) \<union> set (js_sort (\<lambda>a b. str_cmp (fst a) (fst b)) m'))"
    using assms(1,2) by (simp add: distinct_map)
qed

lemma distinct_map_from: "distinct (map fst (map_from kvs))"
  unfolding map_from_def
  by (rule fold_invariant [where Q = "\<lambda>_. True"]) (auto simp: distinct_update split: prod.splits)

lemma set_map_from_functional:
  assumes "\<And>k v w. (k, v) \<in> set kvs \<Longrightarrow> (k, w) \<in> set kvs \<Longrightarrow> v = w"
  shows "set (map_from kvs) = set kvs"
proof -
  note distinct = distinct_map_from [of kvs]
  have "(k, v) \<in> set (map_from kvs) \<longleftrightarrow> (k, v) \<in> set kvs" for k v
  proof -
    have "(k, v) \<in> set (map_from kvs) \<longleftrightarrow> map_of (rev kvs) k = Some v"
      using distinct by (simp add: map_of_map_from flip: map_of_eq_Some_iff)
    also have "\<dots> \<longleftrightarrow> (k, v) \<in> set kvs"
      using assms by (metis map_of_SomeD map_of_eq_None_iff not_None_eq set_rev weak_map_of_SomeI)
    finally show ?thesis .
  qed
  then show ?thesis by auto
qed

end
