(* ===== verification/Traffic_Flows.thy ===== *)
theory Traffic_Flows
  imports Scrubber_Math
begin

text \<open>
  The traffic map's flows (\<open>web/src/components/traffic/trafficFilters.ts\<close> and the wire types of
  \<open>types/core.ts\<close>): what a flow reports, how edges that are drawn as one are merged, which HTTP
  records stand for a call. Figures are rational, since rates and latencies are fractional; a namespace
  that is absent is the empty string, which the code never tells apart from it.

  The lemmas show that the merge of edges does not depend on the order they arrive in, that the port of
  a merged edge does not either, and which requests are dropped from the list of records.
\<close>

section \<open>Endpoints and flows\<close>

record traffic_endpoint =
  te_name :: string
  te_namespace :: string
  te_kind :: string
  te_workload :: "string option"
  te_workload_kind :: "string option"

record traffic_ref =
  tr_namespace :: "string option"
  tr_name :: string
  tr_kind :: "string option"
  tr_workload_kind :: "string option"

record traffic_pair =
  tp_source :: traffic_ref
  tp_destination :: traffic_ref
  tp_port :: int
  tp_direction_unknown :: bool

record traffic_flow =
  tf_source :: traffic_endpoint
  tf_destination :: traffic_endpoint
  tf_port :: int
  tf_l7_protocol :: "string option"
  tf_http_method :: "string option"
  tf_http_path :: "string option"
  tf_http_status :: "int option"
  tf_l7_type :: "string option"
  tf_dns_query :: "string option"
  tf_direction_unknown :: bool
  tf_error_rate :: "rat option"
  tf_verdict :: string

type_synonym counts = "(string \<times> rat) list"

text \<open>
  An aggregated flow with the two optional fields the client adds: \<open>latencyWeight\<close>
  (\<open>LatencyWeighted\<close>) and \<open>rawPairs\<close> (\<open>GraphFlow\<close>).
\<close>

record graph_flow =
  af_source :: traffic_endpoint
  af_destination :: traffic_endpoint
  af_port :: int
  af_flow_count :: rat
  af_bytes_sent :: rat
  af_bytes_recv :: rat
  af_connections :: rat
  af_direction_unknown :: bool
  af_l7_protocol :: "string option"
  af_request_count :: "rat option"
  af_error_count :: "rat option"
  af_request_rate :: "rat option"
  af_error_rate :: "rat option"
  af_avg_latency :: "rat option"
  af_latency_samples :: "rat option"
  af_p50 :: "rat option"
  af_p95 :: "rat option"
  af_p99 :: "rat option"
  af_status_counts :: "counts option"
  af_http_methods :: "string list option"
  af_dns_queries :: "string list option"
  af_verdict_counts :: "counts option"
  af_drop_reasons :: "counts option"
  af_latency_weight :: "rat option"
  af_raw_pairs :: "traffic_pair list option"

definition truthy_rat :: "rat option \<Rightarrow> bool" where
  "truthy_rat x = (case x of None \<Rightarrow> False | Some r \<Rightarrow> r \<noteq> 0)"

definition rat_or :: "rat option \<Rightarrow> rat option \<Rightarrow> rat option" where
  \<comment> \<open>\<open>x || y\<close>\<close>
  "rat_or x y = (if truthy_rat x then x else y)"

lemma truthy_rat_simps [simp]: "\<not> truthy_rat None" "truthy_rat (Some r) \<longleftrightarrow> r \<noteq> 0"
  by (simp_all add: truthy_rat_def)

section \<open>Status ranges\<close>

definition matches_status_ranges :: "string list \<Rightarrow> string list \<Rightarrow> bool \<Rightarrow> bool" where
  "matches_status_ranges ranges buckets has_errors =
     (ranges = [] \<or> (''5xx'' \<in> set ranges \<and> has_errors) \<or> (\<exists>b \<in> set buckets. b \<in> set ranges))"

definition buckets_from_counts :: "counts option \<Rightarrow> string list" where
  "buckets_from_counts cs =
     (case cs of None \<Rightarrow> [] | Some m \<Rightarrow> filter (\<lambda>k. coalesce (map_of m k) 0 > 0) (map fst m))"

definition buckets_from_status :: "int option \<Rightarrow> string list" where
  "buckets_from_status st = (if truthy_num st then [show_int (the st div 100) @ ''xx''] else [])"

section \<open>Rates\<close>

definition is_rate_based_source :: "string option \<Rightarrow> bool" where
  "is_rate_based_source s = (s = Some ''istio'' \<or> s = Some ''beyla'')"

definition request_rate_of :: "graph_flow \<Rightarrow> rat" where
  "request_rate_of f = coalesce (coalesce_opt (af_request_rate f) (af_request_count f)) 0"

definition error_rate_of :: "graph_flow \<Rightarrow> rat" where
  "error_rate_of f = coalesce (coalesce_opt (af_error_rate f) (af_error_count f)) 0"

definition display_volume :: "graph_flow \<Rightarrow> bool \<Rightarrow> rat" where
  "display_volume f is_rate_based =
     (if is_rate_based \<and> truthy_rat (af_request_rate f) then the (af_request_rate f) else af_connections f)"

section \<open>Merging edges\<close>

definition latency_weight_of :: "graph_flow \<Rightarrow> rat" where
  "latency_weight_of f =
     (case af_latency_weight f of
        Some w \<Rightarrow> w
      | None \<Rightarrow> if truthy_rat (af_avg_latency f)
                then the (rat_or (af_request_rate f) (rat_or (af_latency_samples f) (Some 1)))
                else 0)"

definition sum_counts :: "counts option \<Rightarrow> counts option \<Rightarrow> counts option" where
  "sum_counts a b =
     (case b of None \<Rightarrow> a
      | Some kvs \<Rightarrow> (case a of None \<Rightarrow> Some kvs
          | Some m \<Rightarrow> Some (fold (\<lambda>(k, v) sum. AList.update k (coalesce (map_of sum k) 0 + v) sum) kvs m)))"

definition add_figure :: "rat option \<Rightarrow> rat option \<Rightarrow> rat option" where
  \<comment> \<open>\<open>if (flow.x) into.x = (into.x || 0) + flow.x\<close>\<close>
  "add_figure into x = (if truthy_rat x then Some (coalesce into 0 + the x) else into)"

definition merge_latency :: "graph_flow \<Rightarrow> graph_flow \<Rightarrow> graph_flow" where
  "merge_latency into flow =
     (let w_into = latency_weight_of into; w_flow = latency_weight_of flow
      in (if w_flow > 0 then
            if w_into > 0 then
              into\<lparr>af_avg_latency := Some ((coalesce (af_avg_latency into) 0 * w_into
                                          + coalesce (af_avg_latency flow) 0 * w_flow) / (w_into + w_flow)),
                   af_p50 := None, af_p95 := None, af_p99 := None\<rparr>
            else into\<lparr>af_avg_latency := af_avg_latency flow, af_p50 := af_p50 flow,
                      af_p95 := af_p95 flow, af_p99 := af_p99 flow\<rparr>
          else into)\<lparr>af_latency_weight := Some (w_into + w_flow)\<rparr>)"

definition merge_flow_volume :: "graph_flow \<Rightarrow> graph_flow \<Rightarrow> graph_flow" where
  "merge_flow_volume into flow =
     (let into = merge_latency into flow
      in into\<lparr>af_connections := af_connections into + af_connections flow,
              af_bytes_sent := af_bytes_sent into + af_bytes_sent flow,
              af_bytes_recv := af_bytes_recv into + af_bytes_recv flow,
              af_flow_count := af_flow_count into + af_flow_count flow,
              af_request_count := add_figure (af_request_count into) (af_request_count flow),
              af_error_count := add_figure (af_error_count into) (af_error_count flow),
              af_request_rate := add_figure (af_request_rate into) (af_request_rate flow),
              af_error_rate := add_figure (af_error_rate into) (af_error_rate flow),
              af_status_counts := sum_counts (af_status_counts into) (af_status_counts flow),
              af_verdict_counts := sum_counts (af_verdict_counts into) (af_verdict_counts flow),
              af_drop_reasons := sum_counts (af_drop_reasons into) (af_drop_reasons flow)\<rparr>)"

section \<open>Labels\<close>

definition coverage_label :: "(string \<Rightarrow> int option) \<Rightarrow> string option \<Rightarrow> string option \<Rightarrow> string option" where
  \<comment> \<open>\<open>parse\<close> is \<open>Date.parse\<close> in milliseconds, \<open>None\<close> where it is \<open>NaN\<close>\<close>
  "coverage_label parse covered_since collected_at =
     (if \<not> truthy_str covered_since \<or> \<not> truthy_str collected_at then None
      else case (parse (the collected_at), parse (the covered_since)) of
             (Some c, Some s) \<Rightarrow>
               let seconds = max 0 ((c - s + 500) div 1000); m = seconds div 60; s = seconds mod 60
               in Some (''last '' @ (if m > 0 then show_int m @ ''m '' @ show_int s @ ''s'' else show_int s @ ''s''))
           | _ \<Rightarrow> None)"

definition pad_zeros :: "nat \<Rightarrow> string \<Rightarrow> string" where
  "pad_zeros n s = replicate (n - length s) (CHR ''0'') @ s"

definition to_fixed :: "nat \<Rightarrow> rat \<Rightarrow> string" where
  \<comment> \<open>\<open>toFixed\<close> of a number that is not negative: the nearest, the larger of two as near\<close>
  "to_fixed d x =
     (let n = nat \<lfloor>x * 10 ^ d + 1 / 2\<rfloor>
      in if d = 0 then show_nat n
         else show_nat (n div 10 ^ d) @ ''.'' @ pad_zeros d (show_nat (n mod 10 ^ d)))"

definition format_rate :: "rat \<Rightarrow> string" where
  "format_rate rate =
     (if rate \<ge> 1000 then to_fixed 1 (rate / 1000) @ ''K''
      else if rate \<ge> 10 then to_fixed 0 rate
      else if rate \<ge> 1 then to_fixed 1 rate
      else if rate \<ge> 1 / 100 then to_fixed 2 rate
      else if rate > 0 then ''<0.01''
      else ''0'')"

section \<open>Choices that outlive their controls\<close>

definition keep_available :: "string list \<Rightarrow> string list \<Rightarrow> string list" where
  "keep_available selected available =
     (if selected = [] then selected
      else let offered = set_from available
           in fold (\<lambda>v kept. if v \<in> set offered then set_add v kept else kept) selected [])"

record volume_step =
  vs_value :: int
  vs_label :: string

definition connection_thresholds :: "volume_step list" where
  "connection_thresholds =
    [\<lparr>vs_value = 0, vs_label = ''All traffic''\<rparr>,
     \<lparr>vs_value = 100, vs_label = ''100+ connections''\<rparr>,
     \<lparr>vs_value = 1000, vs_label = ''1K+ connections''\<rparr>,
     \<lparr>vs_value = 10000, vs_label = ''10K+ connections''\<rparr>,
     \<lparr>vs_value = 100000, vs_label = ''100K+ connections''\<rparr>]"

definition rate_thresholds :: "volume_step list" where
  "rate_thresholds =
    [\<lparr>vs_value = 0, vs_label = ''All traffic''\<rparr>,
     \<lparr>vs_value = 1, vs_label = ''1+ req/s''\<rparr>,
     \<lparr>vs_value = 10, vs_label = ''10+ req/s''\<rparr>,
     \<lparr>vs_value = 100, vs_label = ''100+ req/s''\<rparr>,
     \<lparr>vs_value = 1000, vs_label = ''1K+ req/s''\<rparr>]"

definition volume_thresholds :: "bool option \<Rightarrow> volume_step list" where
  "volume_thresholds is_rate_based =
     (if truthy_bool is_rate_based then rate_thresholds else connection_thresholds)"

datatype volume_unit = UnitConnections | UnitRate

definition volume_unit_of :: "bool option \<Rightarrow> volume_unit" where
  "volume_unit_of is_rate_based = (if truthy_bool is_rate_based then UnitRate else UnitConnections)"

definition effective_threshold :: "rat \<Rightarrow> volume_unit \<Rightarrow> volume_unit \<Rightarrow> rat" where
  "effective_threshold v chosen current = (if chosen = current then v else 0)"

definition is_external_kind :: "string \<Rightarrow> bool" where
  "is_external_kind kind = (to_lower kind \<in> {''external'', ''host'', ''unknown''})"

definition is_policy_drop_reason :: "string option \<Rightarrow> int \<Rightarrow> bool" where
  "is_policy_drop_reason reason denied_by_count =
     (denied_by_count > 0 \<or> to_upper (coalesce reason []) \<in> {''POLICY_DENIED'', ''POLICY_DENY''})"

section \<open>Requests and their responses\<close>

definition is_http :: "string \<Rightarrow> traffic_flow \<Rightarrow> bool" where
  "is_http type f = (tf_l7_protocol f = Some ''HTTP'' \<and> tf_l7_type f = Some type)"

definition opt_text :: "string option \<Rightarrow> string" where
  \<comment> \<open>an optional string in a template\<close>
  "opt_text x = coalesce x ''undefined''"

definition call_key :: "bool \<Rightarrow> string \<Rightarrow> string \<Rightarrow> traffic_flow \<Rightarrow> string" where
  "call_key caller_oriented from to f =
     (if caller_oriented
      then from @ ''|'' @ to @ ''|'' @ opt_text (tf_http_method f) @ ''|'' @ opt_text (tf_http_path f)
             @ ''|'' @ show_int (tf_port f)
      else from @ ''|'' @ to @ ''|'' @ opt_text (tf_http_method f) @ ''|'' @ opt_text (tf_http_path f))"

definition request_key :: "bool \<Rightarrow> traffic_flow \<Rightarrow> string" where
  "request_key caller_oriented f =
     call_key caller_oriented (te_name (tf_source f)) (te_name (tf_destination f)) f"

definition response_key :: "bool \<Rightarrow> traffic_flow \<Rightarrow> string" where
  "response_key caller_oriented f =
     (if caller_oriented then call_key caller_oriented (te_name (tf_source f)) (te_name (tf_destination f)) f
      else call_key caller_oriented (te_name (tf_destination f)) (te_name (tf_source f)) f)"

definition answered_calls :: "bool \<Rightarrow> traffic_flow list \<Rightarrow> string list" where
  "answered_calls caller_oriented flows =
     fold (\<lambda>f answered. if is_http ''RESPONSE'' f then set_add (response_key caller_oriented f) answered else answered)
       flows []"

definition dedupe_http_pairs :: "traffic_flow list \<Rightarrow> bool \<Rightarrow> traffic_flow list" where
  "dedupe_http_pairs flows caller_oriented =
     (let answered = answered_calls caller_oriented flows
      in filter (\<lambda>f. \<not> (is_http ''REQUEST'' f \<and> request_key caller_oriented f \<in> set answered)) flows)"

section \<open>Ports of merged edges\<close>

definition merged_edge_port :: "int \<Rightarrow> int \<Rightarrow> int" where
  "merged_edge_port a b = (if a = 0 then b else if b = 0 then a else min a b)"

definition edge_carries_port :: "graph_flow \<Rightarrow> int option \<Rightarrow> bool" where
  "edge_carries_port f port =
     (case port of None \<Rightarrow> True
      | Some p \<Rightarrow> af_port f = p \<or> (\<exists>r \<in> set (coalesce (af_raw_pairs f) []). tp_port r = p))"

definition edges_on_port :: "'c list \<Rightarrow> ('c \<Rightarrow> graph_flow option) \<Rightarrow> int option \<Rightarrow> 'c list" where
  "edges_on_port candidates flow_of port =
     (case port of None \<Rightarrow> candidates
      | Some p \<Rightarrow>
          let exact = filter (\<lambda>c. map_option af_port (flow_of c) = Some p) candidates
          in if exact \<noteq> [] then exact
             else filter (\<lambda>c. case flow_of c of None \<Rightarrow> False | Some f \<Rightarrow> edge_carries_port f port) candidates)"

definition some_if :: "string \<Rightarrow> string option" where
  \<comment> \<open>\<open>s || undefined\<close>\<close>
  "some_if s = (if s = [] then None else Some s)"

definition endpoint_ref :: "traffic_endpoint \<Rightarrow> traffic_ref" where
  "endpoint_ref e = \<lparr>tr_namespace = some_if (te_namespace e), tr_name = te_name e, tr_kind = Some (te_kind e),
     tr_workload_kind = (if truthy_str (te_workload_kind e) then te_workload_kind e else None)\<rparr>"

definition endpoint_pair :: "graph_flow \<Rightarrow> traffic_pair" where
  "endpoint_pair f = \<lparr>tp_source = endpoint_ref (af_source f), tp_destination = endpoint_ref (af_destination f),
     tp_port = af_port f, tp_direction_unknown = af_direction_unknown f\<rparr>"

definition merge_raw_pairs :: "graph_flow \<Rightarrow> graph_flow \<Rightarrow> graph_flow" where
  "merge_raw_pairs into from =
     into\<lparr>af_raw_pairs := Some (coalesce (af_raw_pairs into) [] @ coalesce (af_raw_pairs from) [])\<rparr>"

section \<open>The figures of a merged edge are sums\<close>

definition merge_flows :: "graph_flow \<Rightarrow> graph_flow list \<Rightarrow> graph_flow" where
  \<comment> \<open>the edges \<open>fs\<close> folded into \<open>a\<close>, one by one\<close>
  "merge_flows a fs = fold (\<lambda>f into. merge_flow_volume into f) fs a"

definition latency_ok :: "graph_flow \<Rightarrow> bool" where
  "latency_ok f = (0 \<le> latency_weight_of f \<and> (0 < latency_weight_of f \<longrightarrow> af_avg_latency f \<noteq> None))"

definition count_in :: "string \<Rightarrow> counts option \<Rightarrow> rat" where
  "count_in k cs = (case cs of None \<Rightarrow> 0 | Some m \<Rightarrow> coalesce (map_of m k) 0)"

definition counts_ok :: "graph_flow \<Rightarrow> bool" where
  \<comment> \<open>the keys of an object are distinct\<close>
  "counts_ok f = (\<forall>m. (af_status_counts f = Some m \<or> af_verdict_counts f = Some m \<or> af_drop_reasons f = Some m)
     \<longrightarrow> distinct (map fst m))"

definition latency_total :: "graph_flow \<Rightarrow> rat" where
  "latency_total f = (if latency_weight_of f = 0 then 0 else coalesce (af_avg_latency f) 0 * latency_weight_of f)"

lemma merge_flows_simps [simp]:
  "merge_flows a [] = a" "merge_flows a (f # fs) = merge_flows (merge_flow_volume a f) fs"
  by (simp_all add: merge_flows_def)

lemma merge_flow_volume_simps [simp]:
  "af_source (merge_flow_volume a b) = af_source a"
  "af_destination (merge_flow_volume a b) = af_destination a"
  "af_port (merge_flow_volume a b) = af_port a"
  "af_direction_unknown (merge_flow_volume a b) = af_direction_unknown a"
  "af_raw_pairs (merge_flow_volume a b) = af_raw_pairs a"
  "af_l7_protocol (merge_flow_volume a b) = af_l7_protocol a"
  "af_latency_samples (merge_flow_volume a b) = af_latency_samples a"
  "af_http_methods (merge_flow_volume a b) = af_http_methods a"
  "af_dns_queries (merge_flow_volume a b) = af_dns_queries a"
  "af_connections (merge_flow_volume a b) = af_connections a + af_connections b"
  "af_bytes_sent (merge_flow_volume a b) = af_bytes_sent a + af_bytes_sent b"
  "af_bytes_recv (merge_flow_volume a b) = af_bytes_recv a + af_bytes_recv b"
  "af_flow_count (merge_flow_volume a b) = af_flow_count a + af_flow_count b"
  "af_request_count (merge_flow_volume a b) = add_figure (af_request_count a) (af_request_count b)"
  "af_error_count (merge_flow_volume a b) = add_figure (af_error_count a) (af_error_count b)"
  "af_request_rate (merge_flow_volume a b) = add_figure (af_request_rate a) (af_request_rate b)"
  "af_error_rate (merge_flow_volume a b) = add_figure (af_error_rate a) (af_error_rate b)"
  "af_status_counts (merge_flow_volume a b) = sum_counts (af_status_counts a) (af_status_counts b)"
  "af_verdict_counts (merge_flow_volume a b) = sum_counts (af_verdict_counts a) (af_verdict_counts b)"
  "af_drop_reasons (merge_flow_volume a b) = sum_counts (af_drop_reasons a) (af_drop_reasons b)"
  "af_latency_weight (merge_flow_volume a b) = Some (latency_weight_of a + latency_weight_of b)"
  by (simp_all add: merge_flow_volume_def merge_latency_def Let_def)

lemma latency_weight_of_merge [simp]:
  "latency_weight_of (merge_flow_volume a b) = latency_weight_of a + latency_weight_of b"
  by (subst latency_weight_of_def) simp

lemma avg_latency_merge:
  "af_avg_latency (merge_flow_volume a b) =
     (if latency_weight_of b > 0 then
        if latency_weight_of a > 0 then
          Some ((coalesce (af_avg_latency a) 0 * latency_weight_of a + coalesce (af_avg_latency b) 0 * latency_weight_of b)
            / (latency_weight_of a + latency_weight_of b))
        else af_avg_latency b
      else af_avg_latency a)"
  by (simp add: merge_flow_volume_def merge_latency_def Let_def)

lemma percentile_merge:
  assumes "p \<in> {af_p50, af_p95, af_p99}"
  shows "p (merge_flow_volume a b) =
     (if latency_weight_of b > 0 then if latency_weight_of a > 0 then None else p b else p a)"
  using assms by (auto simp: merge_flow_volume_def merge_latency_def Let_def)

lemma latency_ok_merge:
  "latency_ok a \<Longrightarrow> latency_ok b \<Longrightarrow> latency_ok (merge_flow_volume a b)"
  by (auto simp: latency_ok_def avg_latency_merge)

lemma latency_total_merge:
  assumes "latency_ok a" and "latency_ok b"
  shows "latency_total (merge_flow_volume a b) = latency_total a + latency_total b"
  using assms by (auto simp: latency_total_def latency_ok_def avg_latency_merge)

lemma coalesce_add_figure [simp]: "coalesce (add_figure a b) 0 = coalesce a 0 + coalesce b 0"
  by (cases b) (auto simp: add_figure_def)

lemma map_of_fold_counts:
  "distinct (map fst kvs) \<Longrightarrow>
   coalesce (map_of (fold (\<lambda>(k, v) sum. AList.update k (coalesce (map_of sum k) 0 + v) sum) kvs m) k) (0::rat)
     = coalesce (map_of m k) 0 + coalesce (map_of kvs k) 0"
proof (induction kvs arbitrary: m)
  case Nil
  then show ?case by simp
next
  case (Cons kv kvs)
  obtain k' v where kv: "kv = (k', v)" by (cases kv)
  have "map_of kvs k' = None" using Cons.prems by (simp add: kv map_of_eq_None_iff)
  with Cons show ?case by (auto simp: kv update_conv')
qed

lemma count_in_sum:
  assumes "\<And>m. b = Some m \<Longrightarrow> distinct (map fst m)"
  shows "count_in k (sum_counts a b) = count_in k a + count_in k b"
  using assms map_of_fold_counts by (cases a; cases b) (simp_all add: count_in_def sum_counts_def)

lemma sum_counts_None_iff: "sum_counts a b = None \<longleftrightarrow> a = None \<and> b = None"
  by (cases a; cases b) (simp_all add: sum_counts_def)

lemma distinct_fold_counts:
  "distinct (map fst m) \<Longrightarrow>
   distinct (map fst (fold (\<lambda>(k, v) sum. AList.update k (coalesce (map_of sum k) (0::rat) + v) sum) kvs m))"
  by (induction kvs arbitrary: m) (auto simp: distinct_update)

lemma sum_counts_distinct:
  assumes "\<And>m. a = Some m \<Longrightarrow> distinct (map fst m)" and "\<And>m. b = Some m \<Longrightarrow> distinct (map fst m)"
    and "sum_counts a b = Some m"
  shows "distinct (map fst m)"
  using assms by (cases a; cases b) (auto simp: sum_counts_def intro: distinct_fold_counts)

lemma counts_ok_merge:
  assumes "counts_ok a" and "counts_ok b"
  shows "counts_ok (merge_flow_volume a b)"
  using assms unfolding counts_ok_def
  by (auto dest: sum_counts_distinct [rotated 2])

definition flow_ok :: "graph_flow \<Rightarrow> bool" where
  "flow_ok f = (latency_ok f \<and> counts_ok f)"

lemma flow_ok_merge: "flow_ok a \<Longrightarrow> flow_ok b \<Longrightarrow> flow_ok (merge_flow_volume a b)"
  by (simp add: flow_ok_def latency_ok_merge counts_ok_merge)

text \<open>A figure that merging two edges adds up, and so any number of them in any order.\<close>

locale additive_figure =
  fixes figure :: "graph_flow \<Rightarrow> rat"
  assumes figure_merge: "flow_ok a \<Longrightarrow> flow_ok b \<Longrightarrow> figure (merge_flow_volume a b) = figure a + figure b"
begin

lemma figure_merge_flows:
  "flow_ok a \<Longrightarrow> list_all flow_ok fs \<Longrightarrow> figure (merge_flows a fs) = figure a + sum_list (map figure fs)"
  by (induction fs arbitrary: a) (simp_all add: figure_merge flow_ok_merge)

lemma figure_order:
  assumes "list_all flow_ok (a # fs)" and "mset (a # fs) = mset (b # gs)"
  shows "figure (merge_flows a fs) = figure (merge_flows b gs)"
proof -
  have ok: "list_all flow_ok (b # gs)"
    using assms by (metis list.pred_set mset_eq_setD)
  have "figure (merge_flows a fs) = sum_list (map figure (a # fs))"
    using assms(1) by (simp add: figure_merge_flows)
  also have "\<dots> = sum_mset (image_mset figure (mset (a # fs)))"
    by (metis mset_map sum_mset_sum_list)
  also have "\<dots> = sum_list (map figure (b # gs))"
    unfolding assms(2) by (metis mset_map sum_mset_sum_list)
  also have "\<dots> = figure (merge_flows b gs)"
    using ok by (simp add: figure_merge_flows)
  finally show ?thesis .
qed

end

interpretation connections: additive_figure af_connections by unfold_locales simp
interpretation bytes_sent: additive_figure af_bytes_sent by unfold_locales simp
interpretation bytes_recv: additive_figure af_bytes_recv by unfold_locales simp
interpretation flow_count: additive_figure af_flow_count by unfold_locales simp
interpretation request_count: additive_figure "\<lambda>f. coalesce (af_request_count f) 0" by unfold_locales simp
interpretation error_count: additive_figure "\<lambda>f. coalesce (af_error_count f) 0" by unfold_locales simp
interpretation request_rate: additive_figure "\<lambda>f. coalesce (af_request_rate f) 0" by unfold_locales simp
interpretation error_rate: additive_figure "\<lambda>f. coalesce (af_error_rate f) 0" by unfold_locales simp
interpretation latency_weight: additive_figure latency_weight_of by unfold_locales simp
interpretation latency_total: additive_figure latency_total
  by unfold_locales (simp add: flow_ok_def latency_total_merge)
interpretation status_count: additive_figure "\<lambda>f. count_in k (af_status_counts f)" for k
  by unfold_locales (simp add: flow_ok_def counts_ok_def count_in_sum)
interpretation verdict_count: additive_figure "\<lambda>f. count_in k (af_verdict_counts f)" for k
  by unfold_locales (simp add: flow_ok_def counts_ok_def count_in_sum)
interpretation drop_count: additive_figure "\<lambda>f. count_in k (af_drop_reasons f)" for k
  by unfold_locales (simp add: flow_ok_def counts_ok_def count_in_sum)

text \<open>
  A flow as a source reports it: nothing merged yet, and a figure that is zero left out, as the
  server's encoding does.
\<close>

definition reported :: "rat option \<Rightarrow> bool" where
  "reported x = (case x of None \<Rightarrow> True | Some r \<Rightarrow> r > 0)"

definition wire_flow :: "graph_flow \<Rightarrow> bool" where
  "wire_flow f = (af_latency_weight f = None \<and> counts_ok f
     \<and> list_all reported [af_request_count f, af_error_count f, af_request_rate f, af_error_rate f,
                          af_avg_latency f, af_latency_samples f]
     \<and> (af_avg_latency f = None \<longrightarrow> af_p50 f = None \<and> af_p95 f = None \<and> af_p99 f = None))"

lemma reported_simps [simp]: "reported None" "reported (Some r) \<longleftrightarrow> r > 0"
  by (simp_all add: reported_def)

lemma wire_weight_pos_iff: "wire_flow f \<Longrightarrow> latency_weight_of f > 0 \<longleftrightarrow> af_avg_latency f \<noteq> None"
  by (cases "af_avg_latency f"; cases "af_request_rate f"; cases "af_latency_samples f")
     (auto simp: wire_flow_def latency_weight_of_def rat_or_def)

lemma wire_weight_nonneg: "wire_flow f \<Longrightarrow> 0 \<le> latency_weight_of f"
  by (cases "af_avg_latency f"; cases "af_request_rate f"; cases "af_latency_samples f")
     (auto simp: wire_flow_def latency_weight_of_def rat_or_def)

lemma wire_flow_ok: "wire_flow f \<Longrightarrow> flow_ok f"
  using wire_weight_pos_iff wire_weight_nonneg by (auto simp: flow_ok_def latency_ok_def wire_flow_def)

lemma list_all_wire_ok: "list_all wire_flow fs \<Longrightarrow> list_all flow_ok fs"
  by (auto simp: list_all_iff intro: wire_flow_ok)

text \<open>An optional figure is absent from a merged edge exactly when every part lacks it.\<close>

lemma add_figure_None_iff: "reported b \<Longrightarrow> add_figure a b = None \<longleftrightarrow> a = None \<and> b = None"
  by (cases b) (auto simp: add_figure_def)

lemma optional_figure_absent:
  assumes "\<And>a b. sel (merge_flow_volume a b) = None \<longleftrightarrow> sel a = None \<and> (sel b = None \<or> \<not> P b)"
    and "list_all P fs"
  shows "sel (merge_flows a fs) = None \<longleftrightarrow> (\<forall>f \<in> set (a # fs). sel f = None)"
  using assms(2)
proof (induction fs arbitrary: a)
  case Nil
  then show ?case by simp
next
  case (Cons f fs)
  then have "P f" and "list_all P fs" by simp_all
  then show ?case using Cons.IH [of "merge_flow_volume a f"] assms(1) [of a f] by auto
qed

lemma optional_figure_order:
  assumes same: "coalesce (sel x) (0::rat) = coalesce (sel y) 0" and none: "sel x = None \<longleftrightarrow> sel y = None"
  shows "sel x = sel y"
  using assms by (cases "sel x"; cases "sel y") auto

lemma absent_order:
  assumes "\<And>a b. sel (merge_flow_volume a b) = None \<longleftrightarrow> sel a = None \<and> (sel b = None \<or> \<not> P b)"
    and "list_all P (a # fs)" and "mset (a # fs) = mset (b # gs)"
  shows "sel (merge_flows a fs) = None \<longleftrightarrow> sel (merge_flows b gs) = None"
proof -
  have s: "set (a # fs) = set (b # gs)" using assms(3) by (rule mset_eq_setD)
  then have "list_all P (b # gs)" using assms(2) by (simp only: list_all_iff)
  then have "list_all P fs" and "list_all P gs" using assms(2) by simp_all
  then show ?thesis
    using optional_figure_absent [of sel P fs a] optional_figure_absent [of sel P gs b] assms(1) s by blast
qed

text \<open>The average latency of a merged edge is the weighted one; its percentiles are those of its only
  measured part.\<close>

definition only_one :: "'a list \<Rightarrow> 'a option" where
  "only_one xs = (case xs of [x] \<Rightarrow> Some x | _ \<Rightarrow> None)"

lemma only_one_snoc [simp]: "only_one (xs @ [x]) = (if xs = [] then Some x else None)"
  by (cases xs) (auto simp: only_one_def split: list.splits)

lemma only_one_simps [simp]: "only_one [] = None" "only_one [x] = Some x"
  by (simp_all add: only_one_def)

lemma only_one_mset: "mset xs = mset ys \<Longrightarrow> only_one xs = only_one ys"
proof -
  assume m: "mset xs = mset ys"
  then have len: "length xs = length ys" by (rule mset_eq_length)
  show ?thesis
  proof (cases "\<exists>x. xs = [x]")
    case True
    then show ?thesis using m by (auto simp: only_one_def)
  next
    case False
    then have "\<nexists>y. ys = [y]" using m len by (metis mset_single_iff_right)
    with False show ?thesis by (auto simp: only_one_def split: list.splits)
  qed
qed

lemma percentile_merge_flows_gen:
  assumes "p \<in> {af_p50, af_p95, af_p99}" and "list_all flow_ok fs" and "flow_ok a"
    and "p a = (if latency_weight_of a > 0 then Option.bind (only_one l) p else None)"
    and "latency_weight_of a > 0 \<longleftrightarrow> l \<noteq> []"
    and "list_all (\<lambda>f. latency_weight_of f = 0 \<longrightarrow> p f = None) fs"
  shows "p (merge_flows a fs) = Option.bind (only_one (l @ filter (\<lambda>f. latency_weight_of f > 0) fs)) p"
  using assms(2-6)
proof (induction fs arbitrary: a l)
  case Nil
  then show ?case by (cases l) (auto simp: only_one_def)
next
  case (Cons f fs)
  let ?m = "merge_flow_volume a f" and ?l = "if latency_weight_of f > 0 then l @ [f] else l"
  have nn: "0 \<le> latency_weight_of f" "0 \<le> latency_weight_of a"
    using Cons.prems by (simp_all add: flow_ok_def latency_ok_def)
  have "p ?m = (if latency_weight_of ?m > 0 then Option.bind (only_one ?l) p else None)"
    using nn Cons.prems(3,4,5) by (auto simp: percentile_merge [OF assms(1)])
  moreover have "latency_weight_of ?m > 0 \<longleftrightarrow> ?l \<noteq> []"
    using nn Cons.prems(4) by auto
  moreover have "flow_ok ?m" using Cons.prems by (simp add: flow_ok_merge)
  moreover have "list_all flow_ok fs" and "list_all (\<lambda>f. latency_weight_of f = 0 \<longrightarrow> p f = None) fs"
    using Cons.prems by simp_all
  ultimately have "p (merge_flows ?m fs) = Option.bind (only_one (?l @ filter (\<lambda>f. latency_weight_of f > 0) fs)) p"
    using Cons.IH [of ?m ?l] by blast
  then show ?case by simp
qed

lemma percentile_merge_flows:
  assumes "p \<in> {af_p50, af_p95, af_p99}" and "list_all wire_flow (a # fs)"
  shows "p (merge_flows a fs) = Option.bind (only_one (filter (\<lambda>f. latency_weight_of f > 0) (a # fs))) p"
proof -
  have none: "wire_flow f \<Longrightarrow> latency_weight_of f = 0 \<Longrightarrow> p f = None" for f
    using assms(1) wire_weight_pos_iff [of f] by (auto simp: wire_flow_def)
  have "0 \<le> latency_weight_of a" using assms(2) by (simp add: wire_weight_nonneg)
  moreover have "list_all (\<lambda>f. latency_weight_of f = 0 \<longrightarrow> p f = None) fs"
    using assms(2) none by (auto simp: list_all_iff)
  ultimately show ?thesis
    using percentile_merge_flows_gen [of p fs a "if latency_weight_of a > 0 then [a] else []"] assms none [of a]
      list_all_wire_ok [of "a # fs"]
    by (auto simp: only_one_def)
qed

lemma avg_latency_total:
  "flow_ok f \<Longrightarrow> latency_weight_of f > 0 \<Longrightarrow> af_avg_latency f = Some (latency_total f / latency_weight_of f)"
  by (cases "af_avg_latency f") (auto simp: flow_ok_def latency_ok_def latency_total_def)

lemma avg_latency_none:
  "list_all wire_flow (a # fs) \<Longrightarrow> latency_weight_of (merge_flows a fs) = 0 \<Longrightarrow> af_avg_latency (merge_flows a fs) = None"
proof -
  assume wire: "list_all wire_flow (a # fs)" and w: "latency_weight_of (merge_flows a fs) = 0"
  have "latency_weight_of a + sum_list (map latency_weight_of fs) = 0"
    using w wire by (simp add: latency_weight.figure_merge_flows wire_flow_ok list_all_wire_ok)
  then have "sum_list (map latency_weight_of (a # fs)) = 0" by simp
  moreover have "0 \<le> w" if "w \<in> set (map latency_weight_of (a # fs))" for w
    using wire that by (auto simp: list_all_iff intro: wire_weight_nonneg)
  ultimately have "\<forall>w \<in> set (map latency_weight_of (a # fs)). w = 0"
    using sum_list_nonneg_eq_0_iff by blast
  then have zero: "latency_weight_of a = 0 \<and> (\<forall>f \<in> set fs. latency_weight_of f = 0)" by simp
  then have "af_avg_latency (merge_flows a fs) = af_avg_latency a"
    by (induction fs arbitrary: a) (auto simp: avg_latency_merge)
  then show ?thesis
    using zero wire wire_weight_pos_iff [of a] by simp
qed

section \<open>The order of a merge\<close>

definition same_figures :: "graph_flow \<Rightarrow> graph_flow \<Rightarrow> bool" where
  \<comment> \<open>every figure the graph, the table or the details read of an edge is the same\<close>
  "same_figures a b =
     (af_connections a = af_connections b \<and> af_bytes_sent a = af_bytes_sent b
    \<and> af_bytes_recv a = af_bytes_recv b \<and> af_flow_count a = af_flow_count b
    \<and> af_request_count a = af_request_count b \<and> af_error_count a = af_error_count b
    \<and> af_request_rate a = af_request_rate b \<and> af_error_rate a = af_error_rate b
    \<and> latency_weight_of a = latency_weight_of b \<and> af_avg_latency a = af_avg_latency b
    \<and> af_p50 a = af_p50 b \<and> af_p95 a = af_p95 b \<and> af_p99 a = af_p99 b
    \<and> (\<forall>k. count_in k (af_status_counts a) = count_in k (af_status_counts b)
         \<and> count_in k (af_verdict_counts a) = count_in k (af_verdict_counts b)
         \<and> count_in k (af_drop_reasons a) = count_in k (af_drop_reasons b)))"

lemma merge_order_additive:
  assumes ok: "list_all flow_ok (a # fs)" and perm: "mset (a # fs) = mset (b # gs)"
  shows "af_connections (merge_flows a fs) = af_connections (merge_flows b gs)"
    and "af_bytes_sent (merge_flows a fs) = af_bytes_sent (merge_flows b gs)"
    and "af_bytes_recv (merge_flows a fs) = af_bytes_recv (merge_flows b gs)"
    and "af_flow_count (merge_flows a fs) = af_flow_count (merge_flows b gs)"
    and "latency_weight_of (merge_flows a fs) = latency_weight_of (merge_flows b gs)"
    and "latency_total (merge_flows a fs) = latency_total (merge_flows b gs)"
    and "count_in k (af_status_counts (merge_flows a fs)) = count_in k (af_status_counts (merge_flows b gs))"
    and "count_in k (af_verdict_counts (merge_flows a fs)) = count_in k (af_verdict_counts (merge_flows b gs))"
    and "count_in k (af_drop_reasons (merge_flows a fs)) = count_in k (af_drop_reasons (merge_flows b gs))"
  using connections.figure_order [OF ok perm] bytes_sent.figure_order [OF ok perm]
    bytes_recv.figure_order [OF ok perm] flow_count.figure_order [OF ok perm]
    latency_weight.figure_order [OF ok perm] latency_total.figure_order [OF ok perm]
    status_count.figure_order [OF ok perm] verdict_count.figure_order [OF ok perm]
    drop_count.figure_order [OF ok perm]
  by simp_all

lemma merge_order_optional:
  assumes wire: "list_all wire_flow (a # fs)" and perm: "mset (a # fs) = mset (b # gs)"
  shows "af_request_count (merge_flows a fs) = af_request_count (merge_flows b gs)"
    and "af_error_count (merge_flows a fs) = af_error_count (merge_flows b gs)"
    and "af_request_rate (merge_flows a fs) = af_request_rate (merge_flows b gs)"
    and "af_error_rate (merge_flows a fs) = af_error_rate (merge_flows b gs)"
proof -
  have ok: "list_all flow_ok (a # fs)" using wire by (rule list_all_wire_ok)
  have step: "\<And>x y. add_figure x y = None \<longleftrightarrow> x = None \<and> (y = None \<or> \<not> truthy_rat y)"
    by (auto simp: add_figure_def)
  have truthy: "list_all (\<lambda>f. truthy_rat (sel f) \<or> sel f = None) (a # fs)"
    if "\<And>f. wire_flow f \<Longrightarrow> reported (sel f)" for sel
    using wire that unfolding list_all_iff by (metis less_irrefl not_None_eq reported_simps(2) truthy_rat_simps(2))
  have absent: "sel (merge_flows a fs) = None \<longleftrightarrow> sel (merge_flows b gs) = None"
    if "\<And>x y. sel (merge_flow_volume x y) = add_figure (sel x) (sel y)" and "\<And>f. wire_flow f \<Longrightarrow> reported (sel f)" for sel
    by (rule absent_order [where P = "\<lambda>f. truthy_rat (sel f) \<or> sel f = None", OF _ truthy [OF that(2)] perm])
       (auto simp: that(1) step)
  show "af_request_count (merge_flows a fs) = af_request_count (merge_flows b gs)"
    by (rule optional_figure_order [where sel = af_request_count, OF request_count.figure_order [OF ok perm] absent]) (simp_all add: wire_flow_def)
  show "af_error_count (merge_flows a fs) = af_error_count (merge_flows b gs)"
    by (rule optional_figure_order [where sel = af_error_count, OF error_count.figure_order [OF ok perm] absent]) (simp_all add: wire_flow_def)
  show "af_request_rate (merge_flows a fs) = af_request_rate (merge_flows b gs)"
    by (rule optional_figure_order [where sel = af_request_rate, OF request_rate.figure_order [OF ok perm] absent]) (simp_all add: wire_flow_def)
  show "af_error_rate (merge_flows a fs) = af_error_rate (merge_flows b gs)"
    by (rule optional_figure_order [where sel = af_error_rate, OF error_rate.figure_order [OF ok perm] absent]) (simp_all add: wire_flow_def)
qed

lemma flow_ok_merge_flows: "flow_ok a \<Longrightarrow> list_all flow_ok fs \<Longrightarrow> flow_ok (merge_flows a fs)"
  by (induction fs arbitrary: a) (simp_all add: flow_ok_merge)

lemma merge_order_latency:
  assumes wire: "list_all wire_flow (a # fs)" and perm: "mset (a # fs) = mset (b # gs)"
  shows "af_avg_latency (merge_flows a fs) = af_avg_latency (merge_flows b gs)"
    and "p \<in> {af_p50, af_p95, af_p99} \<Longrightarrow> p (merge_flows a fs) = p (merge_flows b gs)"
proof -
  have wire': "list_all wire_flow (b # gs)" using wire mset_eq_setD [OF perm] by (simp only: list_all_iff)
  note ok = list_all_wire_ok [OF wire] and ok' = list_all_wire_ok [OF wire']
  have flow: "flow_ok (merge_flows a fs)" "flow_ok (merge_flows b gs)"
    using ok ok' by (simp_all add: flow_ok_merge_flows)
  note w = merge_order_additive(5,6) [OF ok perm]
  show "af_avg_latency (merge_flows a fs) = af_avg_latency (merge_flows b gs)"
  proof (cases "latency_weight_of (merge_flows a fs) = 0")
    case True
    then show ?thesis using avg_latency_none [OF wire] avg_latency_none [OF wire'] w(1) by simp
  next
    case False
    then have "latency_weight_of (merge_flows a fs) > 0" using flow(1) by (simp add: flow_ok_def latency_ok_def)
    then show ?thesis using avg_latency_total [OF flow(1)] avg_latency_total [OF flow(2)] w by simp
  qed
  show "p (merge_flows a fs) = p (merge_flows b gs)" if "p \<in> {af_p50, af_p95, af_p99}"
  proof -
    have "mset (filter (\<lambda>f. latency_weight_of f > 0) (a # fs)) = mset (filter (\<lambda>f. latency_weight_of f > 0) (b # gs))"
      using perm by (metis mset_filter)
    then show ?thesis
      using percentile_merge_flows [OF that wire] percentile_merge_flows [OF that wire'] only_one_mset by metis
  qed
qed

lemma merge_order_figures:
  assumes "list_all wire_flow (a # fs)" and "mset (a # fs) = mset (b # gs)"
  shows "same_figures (merge_flows a fs) (merge_flows b gs)"
  unfolding same_figures_def
  using merge_order_additive [OF list_all_wire_ok [OF assms(1)] assms(2)] merge_order_optional [OF assms]
    merge_order_latency(1) [OF assms] merge_order_latency(2) [OF assms]
  by (intro conjI allI) simp_all

text \<open>
  Merging edges does not depend on the order in which they arrive: of the same flows, as a source
  reports them, folded one by one in any order and starting from any of them, every figure of the merged
  edge is the same - volumes, optional counts and rates with their absence, the average latency with the
  weight behind it, the percentiles, and each count by status, verdict and drop reason.
\<close>
theorem merge_is_order_independent:
  assumes "list_all wire_flow (a # fs)" and "mset (a # fs) = mset (b # gs)"
  shows "same_figures (merge_flows a fs) (merge_flows b gs)"
  using assms by (rule merge_order_figures)

definition sample_flow :: "rat option \<Rightarrow> rat option \<Rightarrow> graph_flow" where
  \<comment> \<open>one connection of a Pod to a Service, with a request rate and an average latency\<close>
  "sample_flow rate latency =
     \<lparr>af_source = \<lparr>te_name = ''web-1'', te_namespace = ''shop'', te_kind = ''Pod'',
                   te_workload = Some ''web'', te_workload_kind = Some ''Deployment''\<rparr>,
      af_destination = \<lparr>te_name = ''cart'', te_namespace = ''shop'', te_kind = ''Service'',
                        te_workload = None, te_workload_kind = None\<rparr>,
      af_port = 80, af_flow_count = 1, af_bytes_sent = 10, af_bytes_recv = 20, af_connections = 1,
      af_direction_unknown = False, af_l7_protocol = Some ''HTTP'', af_request_count = None,
      af_error_count = None, af_request_rate = rate, af_error_rate = None, af_avg_latency = latency,
      af_latency_samples = None, af_p50 = None, af_p95 = None, af_p99 = None,
      af_status_counts = Some [(''2xx'', 3)], af_http_methods = None, af_dns_queries = None,
      af_verdict_counts = None, af_drop_reasons = None, af_latency_weight = None, af_raw_pairs = None\<rparr>"

lemma wire_sample_flow: "reported rate \<Longrightarrow> reported latency \<Longrightarrow> wire_flow (sample_flow rate latency)"
  by (simp add: wire_flow_def sample_flow_def counts_ok_def)

theorem merge_is_order_independent_witness:
  "same_figures (merge_flows (sample_flow (Some 9) (Some 10)) [sample_flow (Some 1) (Some 110), sample_flow None None])
                (merge_flows (sample_flow None None) [sample_flow (Some 9) (Some 10), sample_flow (Some 1) (Some 110)])
   \<and> af_avg_latency (merge_flows (sample_flow (Some 9) (Some 10)) [sample_flow (Some 1) (Some 110), sample_flow None None]) = Some 20"
proof
  show "same_figures (merge_flows (sample_flow (Some 9) (Some 10)) [sample_flow (Some 1) (Some 110), sample_flow None None])
                (merge_flows (sample_flow None None) [sample_flow (Some 9) (Some 10), sample_flow (Some 1) (Some 110)])"
    by (rule merge_is_order_independent) (simp_all add: wire_sample_flow add_mset_commute)
  show "af_avg_latency (merge_flows (sample_flow (Some 9) (Some 10)) [sample_flow (Some 1) (Some 110), sample_flow None None]) = Some 20"
    by (simp add: sample_flow_def avg_latency_merge latency_weight_of_def merge_flow_volume_def merge_latency_def rat_or_def)
qed

text \<open>
  What the zeros left out are for: a rate of zero that is written out is taken for a rate in one order and
  replaced by the request count in the other.
\<close>

lemma explicit_zero_depends_on_order:
  "request_rate_of (merge_flows ((sample_flow (Some 0) None)\<lparr>af_request_count := Some 5\<rparr>) [sample_flow None None]) = 0
   \<and> request_rate_of (merge_flows (sample_flow None None) [(sample_flow (Some 0) None)\<lparr>af_request_count := Some 5\<rparr>]) = 5"
  by (simp add: request_rate_of_def sample_flow_def add_figure_def)

section \<open>Ports and figures of a group of edges\<close>

lemma merged_edge_port_zero [simp]: "merged_edge_port 0 b = b" "merged_edge_port a 0 = a"
  by (simp_all add: merged_edge_port_def)

lemma merged_edge_port_commute: "merged_edge_port a b = merged_edge_port b a"
  by (simp add: merged_edge_port_def min.commute)

lemma merged_edge_port_assoc:
  "0 \<le> a \<Longrightarrow> 0 \<le> b \<Longrightarrow> 0 \<le> c \<Longrightarrow>
   merged_edge_port (merged_edge_port a b) c = merged_edge_port a (merged_edge_port b c)"
  by (auto simp: merged_edge_port_def min_def)

text \<open>The port of a merged edge is the lowest real one among its parts, and 0 when none has one.\<close>

lemma fold_merged_edge_port:
  assumes "0 \<le> p" and "list_all ((\<le>) 0) ps"
  shows "fold (\<lambda>q r. merged_edge_port r q) ps p
    = (if \<forall>q \<in> set (p # ps). q = 0 then 0 else Min ({q \<in> set (p # ps). q \<noteq> 0}))"
  using assms
proof (induction ps arbitrary: p)
  case Nil
  have "{q. q = p \<and> q \<noteq> 0} = (if p = 0 then {} else {p})" by auto
  then show ?case by simp
next
  case (Cons q qs)
  have nn: "0 \<le> merged_edge_port p q" using Cons.prems by (auto simp: merged_edge_port_def)
  let ?S = "\<lambda>ps. {q \<in> set ps. q \<noteq> (0::int)}"
  consider "p = 0" | "q = 0" | "p \<noteq> 0" "q \<noteq> 0" by blast
  then show ?case
  proof cases
    case 1
    then show ?thesis using Cons by (auto intro!: arg_cong [of _ _ Min])
  next
    case 2
    then show ?thesis using Cons by (auto intro!: arg_cong [of _ _ Min])
  next
    case 3
    then have m: "merged_edge_port p q = min p q" and mn: "min p q \<noteq> 0" by (simp_all add: merged_edge_port_def min_def)
    have S: "?S (min p q # qs) = insert (min p q) (?S qs)" "?S (p # q # qs) = insert p (insert q (?S qs))"
      using 3 mn by auto
    have "Min (insert p (insert q A)) = Min (insert (min p q) A)" if "finite A" for A
      using that by (cases "A = {}") (simp_all add: min.assoc)
    then have "Min (insert p (insert q (?S qs))) = Min (insert (min p q) (?S qs))" by simp
    moreover have "\<not> (\<forall>r \<in> set (min p q # qs). r = 0)" and "\<not> (\<forall>r \<in> set (p # q # qs). r = 0)"
      using 3 mn by simp_all
    ultimately show ?thesis using Cons.IH [OF nn] Cons.prems by (simp only: m S fold_simps list.pred_inject if_False)
  qed
qed

section \<open>Which requests are dropped\<close>

lemma set_answered_gen:
  "set (fold (\<lambda>f answered. if is_http ''RESPONSE'' f then set_add (response_key co f) answered else answered) fs s)
     = set s \<union> response_key co ` {f \<in> set fs. is_http ''RESPONSE'' f}"
  by (induction fs arbitrary: s) auto

lemma set_answered_calls [simp]:
  "set (answered_calls co fs) = response_key co ` {f \<in> set fs. is_http ''RESPONSE'' f}"
  by (simp add: answered_calls_def set_answered_gen)

definition plain_part :: "string \<Rightarrow> bool" where
  \<comment> \<open>no separator in it, as in every name and method\<close>
  "plain_part s = (CHR ''|'' \<notin> set s)"

definition plain_call :: "traffic_flow \<Rightarrow> bool" where
  "plain_call f = (plain_part (te_name (tf_source f)) \<and> plain_part (te_name (tf_destination f))
     \<and> plain_part (opt_text (tf_http_method f))
     \<and> tf_http_method f \<noteq> Some ''undefined'' \<and> tf_http_path f \<noteq> Some ''undefined'')"

definition answers :: "bool \<Rightarrow> traffic_flow \<Rightarrow> traffic_flow \<Rightarrow> bool" where
  \<comment> \<open>the response \<open>r\<close> is to a call like \<open>f\<close>\<close>
  "answers caller_oriented r f =
     (tf_http_method r = tf_http_method f \<and> tf_http_path r = tf_http_path f
      \<and> (if caller_oriented
         then te_name (tf_source r) = te_name (tf_source f)
            \<and> te_name (tf_destination r) = te_name (tf_destination f) \<and> tf_port r = tf_port f
         else te_name (tf_destination r) = te_name (tf_source f)
            \<and> te_name (tf_source r) = te_name (tf_destination f)))"

lemma opt_text_inject:
  "x \<noteq> Some ''undefined'' \<Longrightarrow> y \<noteq> Some ''undefined'' \<Longrightarrow> opt_text x = opt_text y \<longleftrightarrow> x = y"
  by (cases x; cases y) (auto simp: opt_text_def)

lemma port_suffix_inject:
  "x @ ''|'' @ show_int p = y @ ''|'' @ show_int q \<longleftrightarrow> x = y \<and> p = q"
proof
  assume eq: "x @ ''|'' @ show_int p = y @ ''|'' @ show_int q"
  have bar: "CHR ''|'' \<notin> set (show_int z)" for z
    by (auto dest!: show_int_chars)
  have "rev (show_int p) @ CHR ''|'' # rev x = rev (show_int q) @ CHR ''|'' # rev y"
    using arg_cong [OF eq, of rev] by simp
  then have "rev (show_int p) = rev (show_int q) \<and> rev x = rev y"
    by (rule append_sep_inject [rotated 2]) (simp_all add: bar)
  then show "x = y \<and> p = q" by simp
qed simp

lemma call_key_inject:
  assumes "plain_part a" "plain_part b" "plain_part c" "plain_part d" "plain_call f" "plain_call g"
  shows "call_key co a b f = call_key co c d g \<longleftrightarrow>
    a = c \<and> b = d \<and> tf_http_method f = tf_http_method g \<and> tf_http_path f = tf_http_path g
    \<and> (co \<longrightarrow> tf_port f = tf_port g)"
proof -
  have parts: "a @ ''|'' @ b @ ''|'' @ opt_text (tf_http_method f) @ ''|'' @ opt_text (tf_http_path f)
      = c @ ''|'' @ d @ ''|'' @ opt_text (tf_http_method g) @ ''|'' @ opt_text (tf_http_path g)
    \<longleftrightarrow> a = c \<and> b = d \<and> tf_http_method f = tf_http_method g \<and> tf_http_path f = tf_http_path g" (is "?l \<longleftrightarrow> ?r")
  proof
    assume eq: ?l
    have 1: "a = c \<and> b @ ''|'' @ opt_text (tf_http_method f) @ ''|'' @ opt_text (tf_http_path f)
      = d @ ''|'' @ opt_text (tf_http_method g) @ ''|'' @ opt_text (tf_http_path g)"
      using assms(1,3) eq by (intro append_sep_inject [of "CHR ''|''"]) (simp_all add: plain_part_def)
    then have 2: "b = d \<and> opt_text (tf_http_method f) @ ''|'' @ opt_text (tf_http_path f)
      = opt_text (tf_http_method g) @ ''|'' @ opt_text (tf_http_path g)"
      using assms(2,4) by (intro append_sep_inject [of "CHR ''|''"]) (simp_all add: plain_part_def)
    then have "opt_text (tf_http_method f) = opt_text (tf_http_method g) \<and> opt_text (tf_http_path f) = opt_text (tf_http_path g)"
      using assms(5,6) by (intro append_sep_inject [of "CHR ''|''"]) (simp_all add: plain_part_def plain_call_def)
    then show ?r using 1 2 assms(5,6) by (simp add: plain_call_def opt_text_inject)
  qed simp
  show ?thesis
  proof (cases co)
    case True
    have k: "call_key True x y h = (x @ ''|'' @ y @ ''|'' @ opt_text (tf_http_method h) @ ''|'' @ opt_text (tf_http_path h))
        @ ''|'' @ show_int (tf_port h)" for x y h
      by (simp add: call_key_def)
    show ?thesis using True by (simp only: k port_suffix_inject parts) blast
  next
    case False
    then show ?thesis using parts by (simp add: call_key_def)
  qed
qed

lemma response_answers:
  assumes "plain_call r" and "plain_call f"
  shows "response_key co r = request_key co f \<longleftrightarrow> answers co r f"
  using assms call_key_inject [of _ _ _ _ r f co]
  by (auto simp: response_key_def request_key_def answers_def plain_call_def)

text \<open>
  A record is left out of the list exactly when it is an HTTP request to which the records hold a
  response: same method and path, and the same endpoints and port where the server says its responses
  run from caller to callee, the endpoints reversed where it does not. In particular no response and no
  unanswered request is left out.
\<close>
theorem dropped_iff_answered:
  assumes "\<forall>f \<in> set flows. plain_call f"
  shows "f \<in> set flows \<Longrightarrow>
    f \<notin> set (dedupe_http_pairs flows co) \<longleftrightarrow>
      is_http ''REQUEST'' f \<and> (\<exists>r \<in> set flows. is_http ''RESPONSE'' r \<and> answers co r f)"
proof -
  assume f: "f \<in> set flows"
  have "request_key co f \<in> response_key co ` {r \<in> set flows. is_http ''RESPONSE'' r}
     \<longleftrightarrow> (\<exists>r \<in> set flows. is_http ''RESPONSE'' r \<and> response_key co r = request_key co f)"
    by (auto simp: image_iff)
  also have "\<dots> \<longleftrightarrow> (\<exists>r \<in> set flows. is_http ''RESPONSE'' r \<and> answers co r f)"
    using assms f by (auto simp: response_answers)
  finally show ?thesis using f by (auto simp: dedupe_http_pairs_def Let_def)
qed

definition sample_record :: "string \<Rightarrow> string \<Rightarrow> traffic_flow" where
  \<comment> \<open>\<open>GET /\<close> of \<open>web\<close> to \<open>api\<close> in a namespace: a request or a response, by its type\<close>
  "sample_record ns type =
     \<lparr>tf_source = \<lparr>te_name = ''web'', te_namespace = ns, te_kind = ''Pod'', te_workload = None, te_workload_kind = None\<rparr>,
      tf_destination = \<lparr>te_name = ''api'', te_namespace = ns, te_kind = ''Pod'', te_workload = None, te_workload_kind = None\<rparr>,
      tf_port = 80, tf_l7_protocol = Some ''HTTP'', tf_http_method = Some ''GET'', tf_http_path = Some ''/'',
      tf_http_status = None, tf_l7_type = Some type, tf_dns_query = None, tf_direction_unknown = False,
      tf_error_rate = None, tf_verdict = ''forwarded''\<rparr>"

theorem dropped_iff_answered_witness:
  "sample_record ''shop'' ''REQUEST'' \<notin>
     set (dedupe_http_pairs [sample_record ''shop'' ''REQUEST'', sample_record ''shop'' ''RESPONSE''] True)"
proof -
  have "\<forall>f \<in> set [sample_record ''shop'' ''REQUEST'', sample_record ''shop'' ''RESPONSE'']. plain_call f"
    by (simp add: plain_call_def plain_part_def sample_record_def opt_text_def)
  from dropped_iff_answered [OF this, of "sample_record ''shop'' ''REQUEST''" True]
  show ?thesis by (simp add: is_http_def answers_def sample_record_def)
qed

text \<open>
  The endpoints are compared by name alone, so an unanswered request is left out when the same call was
  answered in another namespace.
\<close>

lemma unanswered_request_hidden_by_other_namespace:
  "dedupe_http_pairs [sample_record ''staging'' ''REQUEST'', sample_record ''prod'' ''RESPONSE''] True
     = [sample_record ''prod'' ''RESPONSE'']"
  by (simp add: dedupe_http_pairs_def answered_calls_def request_key_def response_key_def is_http_def sample_record_def
      call_key_def)

end
