(* ===== verification/Traffic_Selection.thy ===== *)
theory Traffic_Selection
  imports Traffic_Flows Keyed_Maps
begin

text \<open>
  Selecting, focusing and summarising the traffic map (the second half of
  \<open>web/src/components/traffic/trafficFilters.ts\<close>): the server edges behind a selection and the records
  that belong to it, the focus as the URL carries it, the size of a graph, the endpoints and namespaces a
  view can be narrowed to. \<open>localeCompare\<close> is a parameter.
\<close>

section \<open>Names of endpoints in the graph\<close>

definition graph_endpoint_id :: "string \<Rightarrow> string \<Rightarrow> string" where
  "graph_endpoint_id ns name = (if ns \<noteq> [] then ns @ ''/'' @ name else name)"

definition endpoint_id :: "traffic_endpoint \<Rightarrow> string" where
  "endpoint_id e = graph_endpoint_id (te_namespace e) (te_name e)"

definition ref_id :: "traffic_ref \<Rightarrow> string" where
  "ref_id r = graph_endpoint_id (coalesce (tr_namespace r) []) (tr_name r)"

definition selectable_id :: "traffic_endpoint \<Rightarrow> string" where
  "selectable_id e =
     (if te_kind e = ''AddonGroupTarget'' \<or> te_kind e = ''AddonGroupSource'' then ''addon-group'' else endpoint_id e)"

definition graph_endpoint :: "traffic_endpoint \<Rightarrow> traffic_endpoint" where
  \<comment> \<open>only namespace and name are read of the result\<close>
  "graph_endpoint e =
     (if te_kind e = ''Pod'' \<and> truthy_str (te_workload e) \<and> te_namespace e \<noteq> [] \<and> te_workload e \<noteq> Some (te_name e)
      then e\<lparr>te_name := the (te_workload e)\<rparr> else e)"

definition pair_key :: "string \<Rightarrow> string \<Rightarrow> int \<Rightarrow> bool \<Rightarrow> string" where
  "pair_key source_id dest_id port direction_unknown =
     source_id @ ''->'' @ dest_id @ '':'' @ show_int port @ str_if direction_unknown '':u''"

definition key_of_pair :: "traffic_pair \<Rightarrow> string" where
  "key_of_pair p = pair_key (ref_id (tp_source p)) (ref_id (tp_destination p)) (tp_port p) (tp_direction_unknown p)"

section \<open>Records of a selection\<close>

definition arrow_ids :: "string \<Rightarrow> string \<Rightarrow> string" where
  "arrow_ids a b = a @ ''->'' @ b"

definition selected_edge_matcher ::
    "traffic_pair list option \<Rightarrow> bool \<Rightarrow> (traffic_endpoint \<Rightarrow> traffic_endpoint) \<Rightarrow> traffic_flow \<Rightarrow> bool" where
  "selected_edge_matcher pairs responses_caller_oriented drawn f =
     (case pairs of None \<Rightarrow> True
      | Some ps \<Rightarrow>
          let keys = set_from (map key_of_pair ps);
              callers = (if responses_caller_oriented then None
                         else Some (set_from (map (\<lambda>p. arrow_ids (ref_id (tp_source p)) (ref_id (tp_destination p))) ps)));
              src = endpoint_id (drawn (tf_source f)); dst = endpoint_id (drawn (tf_destination f))
          in pair_key src dst (tf_port f) (tf_direction_unknown f) \<in> set keys
             \<or> (case callers of None \<Rightarrow> False
                 | Some cs \<Rightarrow> is_http ''RESPONSE'' f \<and> arrow_ids dst src \<in> set cs))"

datatype selection_type = SelectNode | SelectEdge

record traffic_selection =
  ts_type :: selection_type
  ts_node_id :: "string option"
  ts_source_id :: "string option"
  ts_dest_id :: "string option"
  ts_port :: "int option"
  ts_direction_unknown :: bool

definition selection_group_id ::
    "traffic_selection \<Rightarrow> (traffic_endpoint \<Rightarrow> bool) option \<Rightarrow> traffic_endpoint \<Rightarrow> string" where
  "selection_group_id sel in_addon_group e =
     (case in_addon_group of
        Some inside \<Rightarrow> if ts_node_id sel = Some ''addon-group'' \<and> inside e then ''addon-group'' else selectable_id e
      | None \<Rightarrow> selectable_id e)"

definition touches_selection ::
    "traffic_selection \<Rightarrow> (traffic_endpoint \<Rightarrow> bool) option \<Rightarrow> graph_flow \<Rightarrow> bool" where
  "touches_selection sel in_addon_group f =
     (let source_id = selection_group_id sel in_addon_group (af_source f);
          dest_id = selection_group_id sel in_addon_group (af_destination f)
      in case ts_type sel of
           SelectNode \<Rightarrow> Some source_id = ts_node_id sel \<or> Some dest_id = ts_node_id sel
         | SelectEdge \<Rightarrow> Some source_id = ts_source_id sel \<and> Some dest_id = ts_dest_id sel
                         \<and> af_direction_unknown f = ts_direction_unknown sel)"

definition selected_flows ::
    "graph_flow list \<Rightarrow> traffic_selection \<Rightarrow> (traffic_endpoint \<Rightarrow> bool) option \<Rightarrow> graph_flow list" where
  "selected_flows flows sel in_addon_group =
     (let touching = filter (touches_selection sel in_addon_group) flows
      in case ts_type sel of SelectNode \<Rightarrow> touching | SelectEdge \<Rightarrow> edges_on_port touching Some (ts_port sel))"

definition pairs_by_key :: "traffic_pair list \<Rightarrow> (string \<times> traffic_pair) list" where
  "pairs_by_key ps = map_from (map (\<lambda>p. (key_of_pair p, p)) ps)"

definition selection_raw_pairs ::
    "graph_flow list \<Rightarrow> traffic_selection option \<Rightarrow> (traffic_endpoint \<Rightarrow> bool) option \<Rightarrow> traffic_pair list option" where
  "selection_raw_pairs flows selection in_addon_group =
     (case selection of None \<Rightarrow> None
      | Some sel \<Rightarrow>
          let pairs = pairs_by_key (concat (map (\<lambda>f. coalesce (af_raw_pairs f) []) (selected_flows flows sel in_addon_group)))
          in if pairs = [] then None
             else Some (map snd (js_sort (\<lambda>a b. str_cmp (fst a) (fst b)) pairs)))"

datatype traffic_match = MatchPairs "traffic_pair list" | MatchEndpoints "traffic_ref list"

definition match_ref_key :: "traffic_ref \<Rightarrow> string" where
  "match_ref_key r = ref_id r @ ''|'' @ coalesce (tr_kind r) []"

definition nameable :: "traffic_ref \<Rightarrow> bool" where
  "nameable r = (tr_kind r = Some ''Pod'' \<or> tr_kind r = Some ''Workload'')"

definition pair_side :: "string option \<Rightarrow> traffic_pair \<Rightarrow> traffic_ref option" where
  "pair_side node_id p =
     (if Some (ref_id (tp_source p)) = node_id then Some (tp_source p)
      else if Some (ref_id (tp_destination p)) = node_id then Some (tp_destination p)
      else None)"

fun only_side :: "string option \<Rightarrow> traffic_pair list \<Rightarrow> traffic_ref option \<Rightarrow> traffic_ref option option" where
  \<comment> \<open>the loop over the pairs; \<open>None\<close> is its early return\<close>
  "only_side node_id [] only = Some only"
| "only_side node_id (p # ps) only =
     (case pair_side node_id p of None \<Rightarrow> None
      | Some side \<Rightarrow>
          if \<not> nameable side \<or> (case only of None \<Rightarrow> False | Some r \<Rightarrow> match_ref_key side \<noteq> match_ref_key r) then None
          else only_side node_id ps (Some side))"

definition selection_match :: "traffic_pair list option \<Rightarrow> traffic_selection option \<Rightarrow> traffic_match option" where
  "selection_match pairs selection =
     (case pairs of None \<Rightarrow> None
      | Some ps \<Rightarrow>
          if map_option ts_type selection \<noteq> Some SelectNode then Some (MatchPairs ps)
          else case only_side (ts_node_id (the selection)) ps None of
                 Some (Some r) \<Rightarrow> Some (MatchEndpoints [r])
               | _ \<Rightarrow> Some (MatchPairs ps))"

section \<open>The size of a graph and the troubles of an edge\<close>

record graph_size_rec =
  gs_nodes :: nat
  gs_edges :: nat
  gs_score :: nat

definition graph_size :: "graph_flow list \<Rightarrow> graph_size_rec" where
  "graph_size flows =
     (let nodes = fold (\<lambda>f ns. set_add (endpoint_id (af_destination f)) (set_add (endpoint_id (af_source f)) ns)) flows []
      in \<lparr>gs_nodes = length nodes, gs_edges = length flows, gs_score = length nodes + 2 * length flows\<rparr>)"

definition graph_draw_budget :: nat where "graph_draw_budget = 600"

definition graph_draw_ceiling :: nat where "graph_draw_ceiling = 1500"

definition flow_errors :: "graph_flow \<Rightarrow> rat" where
  "flow_errors f =
     (let fives = Option.bind (af_status_counts f) (\<lambda>m. map_of m ''5xx'')
      in if truthy_rat fives then the fives else error_rate_of f)"

definition flow_drops :: "graph_flow \<Rightarrow> rat" where
  "flow_drops f = coalesce (Option.bind (af_verdict_counts f) (\<lambda>m. map_of m ''dropped'')) 0"

definition has_status_data :: "graph_flow \<Rightarrow> bool" where
  "has_status_data f =
     ((case af_status_counts f of None \<Rightarrow> False | Some m \<Rightarrow> m \<noteq> [])
      \<or> truthy_rat (af_request_rate f) \<or> truthy_rat (af_request_count f)
      \<or> truthy_rat (af_error_rate f) \<or> truthy_rat (af_error_count f)
      \<or> af_l7_protocol f = Some ''HTTP'' \<or> af_l7_protocol f = Some ''gRPC'')"

section \<open>Focus\<close>

record traffic_focus =
  tfo_namespace :: "string option"
  tfo_name :: string

definition focus_param :: "traffic_focus \<Rightarrow> string" where
  "focus_param f = coalesce (tfo_namespace f) [] @ ''/'' @ tfo_name f"

definition parse_focus :: "string option \<Rightarrow> traffic_focus option" where
  "parse_focus v =
     (case v of None \<Rightarrow> None
      | Some s \<Rightarrow>
          if CHR ''/'' \<notin> set s then None
          else let ns = takeWhile (\<lambda>c. c \<noteq> CHR ''/'') s; name = drop (length ns + 1) s
               in if name = [] then None else Some \<lparr>tfo_namespace = some_if ns, tfo_name = name\<rparr>)"

definition focus_id :: "traffic_focus \<Rightarrow> string" where
  "focus_id f = graph_endpoint_id (coalesce (tfo_namespace f) []) (tfo_name f)"

definition touches_focus :: "traffic_endpoint \<Rightarrow> traffic_focus \<Rightarrow> bool" where
  "touches_focus e f =
     (if some_if (te_namespace e) \<noteq> tfo_namespace f then False
      else te_name e = tfo_name f \<or> (te_kind e = ''Pod'' \<and> te_workload e = Some (tfo_name f)))"

definition focus_neighborhood :: "graph_flow list \<Rightarrow> traffic_focus \<Rightarrow> graph_flow list" where
  "focus_neighborhood flows f =
     filter (\<lambda>e. touches_focus (af_source e) f \<or> touches_focus (af_destination e) f) flows"

section \<open>Endpoints to focus on\<close>

record endpoint_summary =
  es_id :: string
  es_name :: string
  es_namespace :: "string option"
  es_kind :: string
  es_workload_kind :: "string option"
  es_volume :: rat
  es_errors :: rat
  es_drops :: rat

definition new_summary :: "traffic_endpoint \<Rightarrow> endpoint_summary" where
  "new_summary e = \<lparr>es_id = endpoint_id e, es_name = te_name e, es_namespace = some_if (te_namespace e),
     es_kind = te_kind e, es_workload_kind = te_workload_kind e, es_volume = 0, es_errors = 0, es_drops = 0\<rparr>"

definition count_flow :: "graph_flow \<Rightarrow> endpoint_summary \<Rightarrow> endpoint_summary" where
  "count_flow f s = s\<lparr>es_volume := es_volume s + af_connections f,
     es_errors := es_errors s + flow_errors f, es_drops := es_drops s + flow_drops f\<rparr>"

definition add_endpoint ::
    "graph_flow \<Rightarrow> traffic_endpoint \<Rightarrow> (string \<times> endpoint_summary) list \<times> string list
     \<Rightarrow> (string \<times> endpoint_summary) list \<times> string list" where
  "add_endpoint f e st =
     (let (by_id, seen) = st; i = endpoint_id e
      in if i \<in> set seen then st
         else (AList.update i (count_flow f (coalesce (map_of by_id i) (new_summary e))) by_id, set_add i seen))"

definition workload_endpoint :: "traffic_endpoint \<Rightarrow> traffic_endpoint option" where
  \<comment> \<open>the workload a Pod drawn by itself also stands for\<close>
  "workload_endpoint e =
     (if te_kind e = ''Pod'' \<and> te_namespace e \<noteq> [] \<and> truthy_str (te_workload e) \<and> te_workload e \<noteq> Some (te_name e)
      then Some \<lparr>te_name = the (te_workload e), te_namespace = te_namespace e, te_kind = ''Workload'',
                 te_workload = None, te_workload_kind = te_workload_kind e\<rparr>
      else None)"

definition flow_endpoints :: "graph_flow \<Rightarrow> traffic_endpoint list" where
  \<comment> \<open>what \<open>add\<close> is called on for a flow, in order\<close>
  "flow_endpoints f = concat (map (\<lambda>e. e # (case workload_endpoint e of None \<Rightarrow> [] | Some w \<Rightarrow> [w]))
     [af_source f, af_destination f])"

definition endpoint_map :: "graph_flow list \<Rightarrow> (string \<times> endpoint_summary) list" where
  "endpoint_map flows = fold (\<lambda>f by_id. fst (fold (add_endpoint f) (flow_endpoints f) (by_id, []))) flows []"

definition endpoint_summaries :: "graph_flow list \<Rightarrow> endpoint_summary list" where
  "endpoint_summaries flows = map snd (endpoint_map flows)"

definition problems_cmp :: "rat \<times> rat \<times> rat \<Rightarrow> rat \<times> rat \<times> rat \<Rightarrow> int" where
  \<comment> \<open>on errors, drops and volume; the sign of the number the code returns\<close>
  "problems_cmp a b =
     (let (ea, da, va) = a; (eb, db, vb) = b;
          pa = (if ea > 0 \<or> da > 0 then 1 else 0 :: int); pb = (if eb > 0 \<or> db > 0 then 1 else 0)
      in if pa \<noteq> pb then pb - pa
         else if da + ea \<noteq> db + eb then cmp_num (db + eb) (da + ea)
         else cmp_num vb va)"

definition summary_figures :: "endpoint_summary \<Rightarrow> rat \<times> rat \<times> rat" where
  "summary_figures s = (es_errors s, es_drops s, es_volume s)"

definition search_rank :: "string \<Rightarrow> endpoint_summary \<Rightarrow> int" where
  "search_rank q s =
     (if q = [] then 1
      else let name = to_lower (es_name s)
           in if name = q then 0
              else if starts_with name q then 1
              else if includes_str name q then 2
              else if includes_str (to_lower (es_id s)) q then 3
              else -1)"

definition search_cmp :: "endpoint_summary \<times> int \<Rightarrow> endpoint_summary \<times> int \<Rightarrow> int" where
  "search_cmp a b = (if snd a - snd b \<noteq> 0 then snd a - snd b
     else problems_cmp (summary_figures (fst a)) (summary_figures (fst b)))"

definition search_endpoints :: "endpoint_summary list \<Rightarrow> string \<Rightarrow> nat \<Rightarrow> endpoint_summary list" where
  "search_endpoints summaries query limit =
     (let q = to_lower (trim query)
      in map fst (take limit (js_sort search_cmp
           (filter (\<lambda>x. snd x \<ge> 0) (map (\<lambda>s. (s, search_rank q s)) summaries)))))"

section \<open>Namespaces to narrow to\<close>

record namespace_summary =
  nsu_name :: string
  nsu_endpoints :: nat
  nsu_connections :: nat
  nsu_volume :: rat
  nsu_errors :: rat
  nsu_drops :: rat

definition namespace_over_budget :: "namespace_summary \<Rightarrow> bool" where
  "namespace_over_budget ns = (nsu_endpoints ns + 2 * nsu_connections ns > graph_draw_budget)"

record namespace_acc =
  na_endpoints :: "string list"
  na_connections :: nat
  na_volume :: rat
  na_errors :: rat
  na_drops :: rat

definition new_namespace :: namespace_acc where
  "new_namespace = \<lparr>na_endpoints = [], na_connections = 0, na_volume = 0, na_errors = 0, na_drops = 0\<rparr>"

definition count_namespace :: "graph_flow \<Rightarrow> namespace_acc \<Rightarrow> namespace_acc" where
  "count_namespace f s =
     s\<lparr>na_endpoints := set_add (endpoint_id (af_destination f)) (set_add (endpoint_id (af_source f)) (na_endpoints s)),
       na_connections := na_connections s + 1, na_volume := na_volume s + af_connections f,
       na_errors := na_errors s + flow_errors f, na_drops := na_drops s + flow_drops f\<rparr>"

definition flow_namespaces :: "graph_flow \<Rightarrow> string list" where
  "flow_namespaces f = set_from (filter (\<lambda>ns. ns \<noteq> []) [te_namespace (af_source f), te_namespace (af_destination f)])"

definition add_to_namespace :: "string \<times> graph_flow \<Rightarrow> (string \<times> namespace_acc) list \<Rightarrow> (string \<times> namespace_acc) list" where
  "add_to_namespace x by_ns =
     (let (ns, f) = x in AList.update ns (count_namespace f (coalesce (map_of by_ns ns) new_namespace)) by_ns)"

definition namespace_map :: "graph_flow list \<Rightarrow> (string \<times> namespace_acc) list" where
  "namespace_map flows = fold (\<lambda>f by_ns. fold (\<lambda>ns. add_to_namespace (ns, f)) (flow_namespaces f) by_ns) flows []"

definition namespace_figures :: "namespace_summary \<Rightarrow> rat \<times> rat \<times> rat" where
  "namespace_figures s = (nsu_errors s, nsu_drops s, nsu_volume s)"

definition namespace_cmp :: "(string \<Rightarrow> string \<Rightarrow> int) \<Rightarrow> namespace_summary \<Rightarrow> namespace_summary \<Rightarrow> int" where
  "namespace_cmp locale_compare a b =
     (let c = problems_cmp (namespace_figures a) (namespace_figures b)
      in if c \<noteq> 0 then c else locale_compare (nsu_name a) (nsu_name b))"

definition namespace_summaries :: "(string \<Rightarrow> string \<Rightarrow> int) \<Rightarrow> graph_flow list \<Rightarrow> namespace_summary list" where
  "namespace_summaries locale_compare flows =
     js_sort (namespace_cmp locale_compare)
       (map (\<lambda>(name, s). \<lparr>nsu_name = name, nsu_endpoints = length (na_endpoints s), nsu_connections = na_connections s,
               nsu_volume = na_volume s, nsu_errors = na_errors s, nsu_drops = na_drops s\<rparr>) (namespace_map flows))"

section \<open>Rows and choices\<close>

definition flow_figures :: "graph_flow \<Rightarrow> rat \<times> rat \<times> rat" where
  "flow_figures f = (flow_errors f, flow_drops f, af_connections f)"

definition connection_rows :: "graph_flow list \<Rightarrow> graph_flow list" where
  "connection_rows flows =
     map fst (js_sort (\<lambda>a b. problems_cmp (snd a) (snd b)) (map (\<lambda>f. (f, flow_figures f)) flows))"

definition verdict_choices :: "string list \<Rightarrow> string list" where
  "verdict_choices seen =
     (let present = set_from seen
      in if length present = 1 \<and> ''forwarded'' \<in> set present then []
         else filter (\<lambda>v. v \<in> set present) [''forwarded'', ''dropped'', ''error''])"

section \<open>The focus in the URL\<close>

definition focus_ok :: "traffic_focus \<Rightarrow> bool" where
  \<comment> \<open>as a node of the graph is: a name, and a namespace without a slash or none\<close>
  "focus_ok f = (tfo_name f \<noteq> [] \<and> tfo_namespace f \<noteq> Some [] \<and> CHR ''/'' \<notin> set (coalesce (tfo_namespace f) []))"

lemma takeWhile_before: "c \<notin> set xs \<Longrightarrow> takeWhile (\<lambda>x. x \<noteq> c) (xs @ c # ys) = xs"
  by (induction xs) auto

text \<open>
  A focus written into the URL reads back as itself, also when its name holds slashes (a CIDR) or it
  has no namespace, and what is read back touches the same endpoints.
\<close>
theorem focus_round_trip:
  assumes "focus_ok f"
  shows "parse_focus (Some (focus_param f)) = Some f"
proof -
  obtain ns name where f: "f = \<lparr>tfo_namespace = ns, tfo_name = name\<rparr>" by (cases f)
  have slash: "CHR ''/'' \<notin> set (coalesce ns [])" and "name \<noteq> []" "ns \<noteq> Some []"
    using assms by (simp_all add: f focus_ok_def)
  moreover have "takeWhile (\<lambda>c. c \<noteq> CHR ''/'') (coalesce ns [] @ CHR ''/'' # name) = coalesce ns []"
    using slash by (rule takeWhile_before)
  moreover have "some_if (coalesce ns []) = ns"
    using \<open>ns \<noteq> Some []\<close> by (cases ns) (simp_all add: some_if_def)
  ultimately show ?thesis by (simp add: f focus_param_def parse_focus_def Let_def)
qed

theorem focus_round_trip_witness:
  "parse_focus (Some (focus_param \<lparr>tfo_namespace = None, tfo_name = ''10.0.0.0/8''\<rparr>))
     = Some \<lparr>tfo_namespace = None, tfo_name = ''10.0.0.0/8''\<rparr>"
  by (rule focus_round_trip) (simp add: focus_ok_def)

section \<open>Namespaces and their views\<close>

definition in_namespace :: "string \<Rightarrow> graph_flow \<Rightarrow> bool" where
  \<comment> \<open>either end is in it: what narrowing to the namespace keeps\<close>
  "in_namespace ns f = (te_namespace (af_source f) = ns \<or> te_namespace (af_destination f) = ns)"

lemma set_flow_namespaces: "set (flow_namespaces f) = {ns. ns \<noteq> [] \<and> in_namespace ns f}"
  by (auto simp: flow_namespaces_def in_namespace_def)

lemma distinct_flow_namespaces: "distinct (flow_namespaces f)"
  by (simp add: flow_namespaces_def)

interpretation namespaces: keyed_accumulation fst "\<lambda>x. count_namespace (snd x) new_namespace" "\<lambda>x. count_namespace (snd x)"
    add_to_namespace
  by unfold_locales (auto simp: add_to_namespace_def split: option.splits)

lemma namespace_map_eq:
  "namespace_map flows = fold add_to_namespace (concat (map (\<lambda>f. map (\<lambda>ns. (ns, f)) (flow_namespaces f)) flows)) []"
proof -
  have "fold (\<lambda>f by_ns. fold (\<lambda>ns. add_to_namespace (ns, f)) (flow_namespaces f) by_ns) flows m
    = fold add_to_namespace (concat (map (\<lambda>f. map (\<lambda>ns. (ns, f)) (flow_namespaces f)) flows)) m" for m
    by (induction flows arbitrary: m) (simp_all add: fold_map comp_def)
  then show ?thesis by (simp add: namespace_map_def)
qed

lemma filter_key_distinct:
  "distinct ks \<Longrightarrow> filter (\<lambda>x. fst x = k) (map (\<lambda>k. (k, f)) ks) = (if k \<in> set ks then [(k, f)] else [])"
  by (induction ks) auto

lemma namespace_entries:
  assumes "ns \<noteq> []"
  shows "filter (\<lambda>x. fst x = ns) (concat (map (\<lambda>f. map (\<lambda>ns. (ns, f)) (flow_namespaces f)) flows))
    = map (\<lambda>f. (ns, f)) (filter (in_namespace ns) flows)"
  using assms
  by (induction flows) (simp_all add: filter_key_distinct distinct_flow_namespaces set_flow_namespaces)

lemma fold_count_namespace:
  "na_connections (fold (\<lambda>x. count_namespace (snd x)) (map (\<lambda>f. (ns, f)) fs) s) = na_connections s + length fs"
  "na_volume (fold (\<lambda>x. count_namespace (snd x)) (map (\<lambda>f. (ns, f)) fs) s) = na_volume s + sum_list (map af_connections fs)"
  "na_errors (fold (\<lambda>x. count_namespace (snd x)) (map (\<lambda>f. (ns, f)) fs) s) = na_errors s + sum_list (map flow_errors fs)"
  "na_drops (fold (\<lambda>x. count_namespace (snd x)) (map (\<lambda>f. (ns, f)) fs) s) = na_drops s + sum_list (map flow_drops fs)"
  "na_endpoints (fold (\<lambda>x. count_namespace (snd x)) (map (\<lambda>f. (ns, f)) fs) s)
     = fold (\<lambda>f ns. set_add (endpoint_id (af_destination f)) (set_add (endpoint_id (af_source f)) ns)) fs (na_endpoints s)"
  by (induction fs arbitrary: s) (simp_all add: count_namespace_def)

definition view_summary :: "string \<Rightarrow> graph_flow list \<Rightarrow> namespace_summary" where
  \<comment> \<open>a namespace's own view, measured on its edges\<close>
  "view_summary ns fs =
     \<lparr>nsu_name = ns, nsu_endpoints = gs_nodes (graph_size fs), nsu_connections = gs_edges (graph_size fs),
      nsu_volume = sum_list (map af_connections fs), nsu_errors = sum_list (map flow_errors fs),
      nsu_drops = sum_list (map flow_drops fs)\<rparr>"

definition acc_summary :: "string \<times> namespace_acc \<Rightarrow> namespace_summary" where
  "acc_summary = (\<lambda>(name, s).
     \<lparr>nsu_name = name, nsu_endpoints = length (na_endpoints s), nsu_connections = na_connections s,
      nsu_volume = na_volume s, nsu_errors = na_errors s, nsu_drops = na_drops s\<rparr>)"

lemma namespace_summaries_acc:
  "namespace_summaries lc flows = js_sort (namespace_cmp lc) (map acc_summary (namespace_map flows))"
  by (simp add: namespace_summaries_def acc_summary_def)

lemma namespace_map_names:
  "ns \<in> fst ` set (namespace_map flows) \<longleftrightarrow> ns \<noteq> [] \<and> (\<exists>f \<in> set flows. in_namespace ns f)"
  by (auto simp: namespace_map_eq namespaces.filed_key_set set_flow_namespaces image_iff)

lemma namespace_map_entry:
  assumes "(ns, s) \<in> set (namespace_map flows)"
  shows "acc_summary (ns, s) = view_summary ns (filter (in_namespace ns) flows)"
proof -
  have "ns \<in> fst ` set (namespace_map flows)" using assms by force
  then have "ns \<noteq> []" unfolding namespace_map_names by blast
  from assms obtain x rest where split:
      "filter (\<lambda>x. fst x = ns) (concat (map (\<lambda>f. map (\<lambda>ns. (ns, f)) (flow_namespaces f)) flows)) = x # rest"
    and s: "s = fold (\<lambda>x. count_namespace (snd x)) rest (count_namespace (snd x) new_namespace)"
    by (auto simp: namespace_map_eq elim: namespaces.filed_memE)
  then have "x # rest = map (\<lambda>f. (ns, f)) (filter (in_namespace ns) flows)"
    using namespace_entries [OF \<open>ns \<noteq> []\<close>] by simp
  then have "s = fold (\<lambda>x. count_namespace (snd x)) (map (\<lambda>f. (ns, f)) (filter (in_namespace ns) flows)) new_namespace"
    by (metis s fold_simps(2))
  then show ?thesis
    by (simp add: acc_summary_def view_summary_def graph_size_def fold_count_namespace new_namespace_def Let_def)
qed

text \<open>
  The namespaces offered are exactly those of an endpoint of the flows, each once, and each with the
  size and the traffic of the view that narrowing to it shows: its edges (either end in it, so an edge
  across two counts for both), their endpoints, volume, errors and drops.
\<close>
theorem namespace_summaries_measure_their_views:
  "distinct (map nsu_name (namespace_summaries lc flows))
   \<and> set (namespace_summaries lc flows)
       = {view_summary ns (filter (in_namespace ns) flows) | ns. ns \<noteq> [] \<and> (\<exists>f \<in> set flows. in_namespace ns f)}"
proof
  have names: "map nsu_name (map acc_summary m) = map fst m" for m
    by (induction m) (auto simp: acc_summary_def)
  have "mset (map nsu_name (js_sort c xs)) = mset (map nsu_name xs)" for c :: "namespace_summary \<Rightarrow> namespace_summary \<Rightarrow> int" and xs by simp
  then have "mset (map nsu_name (namespace_summaries lc flows)) = mset (map fst (namespace_map flows))"
    unfolding namespace_summaries_acc names [symmetric] .
  moreover have "distinct (map fst (namespace_map flows))"
    by (simp add: namespace_map_eq namespaces.filed_keys_distinct)
  ultimately show "distinct (map nsu_name (namespace_summaries lc flows))"
    using mset_eq_imp_distinct_iff by blast
  have "set (namespace_summaries lc flows) = acc_summary ` set (namespace_map flows)"
    by (simp add: namespace_summaries_acc)
  also have "\<dots> = ((\<lambda>ns. view_summary ns (filter (in_namespace ns) flows)) \<circ> fst) ` set (namespace_map flows)"
  proof (rule image_cong [OF refl])
    fix x assume "x \<in> set (namespace_map flows)"
    then show "acc_summary x = ((\<lambda>ns. view_summary ns (filter (in_namespace ns) flows)) \<circ> fst) x"
      using namespace_map_entry [of "fst x" "snd x" flows] by simp
  qed
  also have "\<dots> = (\<lambda>ns. view_summary ns (filter (in_namespace ns) flows)) ` {ns. ns \<noteq> [] \<and> (\<exists>f \<in> set flows. in_namespace ns f)}"
    unfolding image_comp [symmetric] by (rule arg_cong [of _ _ "image _"]) (rule set_eqI, simp only: namespace_map_names mem_Collect_eq)
  also have "\<dots> = {view_summary ns (filter (in_namespace ns) flows) | ns. ns \<noteq> [] \<and> (\<exists>f \<in> set flows. in_namespace ns f)}"
    by blast
  finally show "set (namespace_summaries lc flows)
       = {view_summary ns (filter (in_namespace ns) flows) | ns. ns \<noteq> [] \<and> (\<exists>f \<in> set flows. in_namespace ns f)}" .
qed

text \<open>So a namespace is over the budget exactly when the graph of its own edges is.\<close>

lemma over_budget_iff_view_is:
  "s \<in> set (namespace_summaries lc flows) \<Longrightarrow>
   namespace_over_budget s \<longleftrightarrow> gs_score (graph_size (filter (in_namespace (nsu_name s)) flows)) > graph_draw_budget"
proof -
  assume "s \<in> set (namespace_summaries lc flows)"
  then have "s \<in> acc_summary ` set (namespace_map flows)" by (simp add: namespace_summaries_acc)
  then obtain ns a where a: "(ns, a) \<in> set (namespace_map flows)" and s: "s = acc_summary (ns, a)" by auto
  then show ?thesis
    using namespace_map_entry [OF a]
    by (simp add: namespace_over_budget_def view_summary_def graph_size_def Let_def)
qed

section \<open>Endpoints and their traffic\<close>

fun fresh_endpoints :: "string list \<Rightarrow> traffic_endpoint list \<Rightarrow> traffic_endpoint list" where
  \<comment> \<open>the first endpoint of each id not seen before\<close>
  "fresh_endpoints seen [] = []"
| "fresh_endpoints seen (e # es) =
     (if endpoint_id e \<in> set seen then fresh_endpoints seen es
      else e # fresh_endpoints (set_add (endpoint_id e) seen) es)"

definition enter_endpoint ::
    "traffic_endpoint \<times> graph_flow \<Rightarrow> (string \<times> endpoint_summary) list \<Rightarrow> (string \<times> endpoint_summary) list" where
  "enter_endpoint x m = (let (e, f) = x in
     AList.update (endpoint_id e) (count_flow f (coalesce (map_of m (endpoint_id e)) (new_summary e))) m)"

interpretation endpoints: keyed_accumulation "\<lambda>x. endpoint_id (fst x)" "\<lambda>x. count_flow (snd x) (new_summary (fst x))"
    "\<lambda>x. count_flow (snd x)" enter_endpoint
  by unfold_locales (auto simp: enter_endpoint_def split: option.splits)

lemma fold_add_endpoint:
  "fst (fold (add_endpoint f) es (m, seen)) = fold enter_endpoint (map (\<lambda>e. (e, f)) (fresh_endpoints seen es)) m"
  by (induction es arbitrary: m seen) (simp_all add: add_endpoint_def enter_endpoint_def Let_def)

lemma fresh_endpoints_ids:
  "filter (\<lambda>e. endpoint_id e = i) (fresh_endpoints seen es)
     = (if i \<in> set seen then [] else take 1 (filter (\<lambda>e. endpoint_id e = i) es))"
  by (induction es arbitrary: seen) auto

definition flow_ids :: "graph_flow \<Rightarrow> string list" where
  \<comment> \<open>the endpoints a flow counts toward\<close>
  "flow_ids f = map endpoint_id (flow_endpoints f)"

lemma endpoint_map_eq:
  "endpoint_map flows
     = fold enter_endpoint (concat (map (\<lambda>f. map (\<lambda>e. (e, f)) (fresh_endpoints [] (flow_endpoints f))) flows)) []"
proof -
  have "fold (\<lambda>f by_id. fst (fold (add_endpoint f) (flow_endpoints f) (by_id, []))) flows m
    = fold enter_endpoint (concat (map (\<lambda>f. map (\<lambda>e. (e, f)) (fresh_endpoints [] (flow_endpoints f))) flows)) m" for m
    by (induction flows arbitrary: m) (simp_all add: fold_add_endpoint)
  then show ?thesis by (simp add: endpoint_map_def)
qed

lemma filter_pair_left: "filter (\<lambda>x. P (fst x)) (map (\<lambda>e. (e, f)) es) = map (\<lambda>e. (e, f)) (filter P es)"
  by (induction es) auto

lemma endpoint_entries:
  "map snd (filter (\<lambda>x. endpoint_id (fst x) = i)
      (concat (map (\<lambda>f. map (\<lambda>e. (e, f)) (fresh_endpoints [] (flow_endpoints f))) flows)))
    = filter (\<lambda>f. i \<in> set (flow_ids f)) flows"
proof (induction flows)
  case Nil
  then show ?case by simp
next
  case (Cons f flows)
  have "map snd (filter (\<lambda>x. endpoint_id (fst x) = i) (map (\<lambda>e. (e, f)) (fresh_endpoints [] (flow_endpoints f))))
    = (if i \<in> set (flow_ids f) then [f] else [])"
  proof (cases "filter (\<lambda>e. endpoint_id e = i) (flow_endpoints f)")
    case Nil
    then have "i \<notin> set (flow_ids f)" by (auto simp: flow_ids_def filter_empty_conv)
    then show ?thesis by (simp add: filter_pair_left [of "\<lambda>e. endpoint_id e = i"] fresh_endpoints_ids Nil)
  next
    case (Cons e es)
    then have "i \<in> set (flow_ids f)"
      by (metis (mono_tags) filter_eq_Cons_iff flow_ids_def in_set_conv_decomp image_eqI list.set_map)
    then show ?thesis by (simp add: filter_pair_left [of "\<lambda>e. endpoint_id e = i"] fresh_endpoints_ids Cons)
  qed
  with Cons show ?case by simp
qed

lemma fold_count_flow:
  "es_id (fold (\<lambda>x. count_flow (snd x)) xs s) = es_id s"
  "es_volume (fold (\<lambda>x. count_flow (snd x)) xs s) = es_volume s + sum_list (map af_connections (map snd xs))"
  "es_errors (fold (\<lambda>x. count_flow (snd x)) xs s) = es_errors s + sum_list (map flow_errors (map snd xs))"
  "es_drops (fold (\<lambda>x. count_flow (snd x)) xs s) = es_drops s + sum_list (map flow_drops (map snd xs))"
  by (induction xs arbitrary: s) (simp_all add: count_flow_def)

lemma endpoint_map_entry:
  assumes "(i, s) \<in> set (endpoint_map flows)"
  shows "es_id s = i" and "i \<in> (\<Union>f \<in> set flows. set (flow_ids f))"
    and "summary_figures s = (let fs = filter (\<lambda>f. i \<in> set (flow_ids f)) flows
           in (sum_list (map flow_errors fs), sum_list (map flow_drops fs), sum_list (map af_connections fs)))"
proof -
  let ?xs = "concat (map (\<lambda>f. map (\<lambda>e. (e, f)) (fresh_endpoints [] (flow_endpoints f))) flows)"
  from assms obtain x rest where split: "filter (\<lambda>x. endpoint_id (fst x) = i) ?xs = x # rest"
    and s: "s = fold (\<lambda>x. count_flow (snd x)) rest (count_flow (snd x) (new_summary (fst x)))"
    by (auto simp: endpoint_map_eq elim: endpoints.filed_memE)
  have x: "endpoint_id (fst x) = i" using split by (auto simp: filter_eq_Cons_iff)
  have fs: "filter (\<lambda>f. i \<in> set (flow_ids f)) flows = snd x # map snd rest"
    using endpoint_entries [of i flows] split by simp
  show "es_id s = i" by (simp add: s fold_count_flow count_flow_def new_summary_def x)
  have "snd x \<in> set (filter (\<lambda>f. i \<in> set (flow_ids f)) flows)" unfolding fs by simp
  then show "i \<in> (\<Union>f \<in> set flows. set (flow_ids f))" by auto
  show "summary_figures s = (let fs = filter (\<lambda>f. i \<in> set (flow_ids f)) flows
           in (sum_list (map flow_errors fs), sum_list (map flow_drops fs), sum_list (map af_connections fs)))"
    unfolding Let_def fs by (simp add: s summary_figures_def fold_count_flow count_flow_def new_summary_def)
qed

text \<open>
  Every endpoint offered appears once and carries the traffic of its edges, each edge counted once even
  where both of its ends, or a Pod and its workload, are the same endpoint.
\<close>

lemma endpoint_summaries_count_once:
  "distinct (map es_id (endpoint_summaries flows))"
  "s \<in> set (endpoint_summaries flows) \<Longrightarrow>
     summary_figures s = (let fs = filter (\<lambda>f. es_id s \<in> set (flow_ids f)) flows
           in (sum_list (map flow_errors fs), sum_list (map flow_drops fs), sum_list (map af_connections fs)))"
proof -
  have "map es_id (map snd m) = map fst m" if "\<And>i s. (i, s) \<in> set m \<Longrightarrow> es_id s = i" for m :: "(string \<times> endpoint_summary) list"
    using that by (auto simp: split_paired_all)
  then have "map es_id (endpoint_summaries flows) = map fst (endpoint_map flows)"
    unfolding endpoint_summaries_def using endpoint_map_entry(1) by blast
  then show "distinct (map es_id (endpoint_summaries flows))"
    by (simp add: endpoint_map_eq endpoints.filed_keys_distinct)
  assume "s \<in> set (endpoint_summaries flows)"
  then obtain i where "(i, s) \<in> set (endpoint_map flows)" by (auto simp: endpoint_summaries_def)
  from endpoint_map_entry(1,3) [OF this]
  show "summary_figures s = (let fs = filter (\<lambda>f. es_id s \<in> set (flow_ids f)) flows
           in (sum_list (map flow_errors fs), sum_list (map flow_drops fs), sum_list (map af_connections fs)))"
    by simp
qed

section \<open>The orders of lists\<close>

interpretation by_problems: js_comparator "\<lambda>x y. problems_cmp (fig x) (fig y)" for fig :: "'a \<Rightarrow> rat \<times> rat \<times> rat"
  by unfold_locales (auto simp: problems_cmp_def Let_def cmp_num_def split: prod.splits if_splits)

interpretation by_search: js_comparator search_cmp
  by unfold_locales
     (auto simp: search_cmp_def problems_cmp_def Let_def cmp_num_def split: prod.splits if_splits)

text \<open>Rows with a problem come before rows with none.\<close>

definition has_problem :: "graph_flow \<Rightarrow> bool" where
  "has_problem f = (flow_errors f > 0 \<or> flow_drops f > 0)"

lemma problems_first:
  "sorted_wrt (\<lambda>a b. has_problem b \<longrightarrow> has_problem a) (connection_rows flows)"
proof -
  let ?xs = "map (\<lambda>f. (f, flow_figures f)) flows"
  let ?ys = "js_sort (\<lambda>a b. problems_cmp (snd a) (snd b)) ?xs"
  have sorted: "sorted_wrt (\<lambda>a b. problems_cmp (snd a) (snd b) \<le> 0) ?ys"
    by (rule by_problems.sorted_js_sort)
  have "snd x = flow_figures (fst x)" if "x \<in> set ?ys" for x
    using that by auto
  then have "sorted_wrt (\<lambda>a b. has_problem (fst b) \<longrightarrow> has_problem (fst a)) ?ys"
    by (intro sorted_wrt_mono_rel [OF _ sorted])
       (auto simp: problems_cmp_def flow_figures_def has_problem_def Let_def split: if_splits)
  then show ?thesis by (simp add: connection_rows_def sorted_wrt_map)
qed

text \<open>Search returns endpoints that match, better matches first, and no more than asked for.\<close>

lemma search_results:
  "length (search_endpoints summaries q limit) \<le> limit"
  "s \<in> set (search_endpoints summaries q limit) \<Longrightarrow>
     s \<in> set summaries \<and> search_rank (to_lower (trim q)) s \<ge> 0"
  "sorted_wrt (\<lambda>a b. search_rank (to_lower (trim q)) a \<le> search_rank (to_lower (trim q)) b)
     (search_endpoints summaries q limit)"
proof -
  let ?r = "search_rank (to_lower (trim q))"
  let ?xs = "filter (\<lambda>x. snd x \<ge> 0) (map (\<lambda>s. (s, ?r s)) summaries)"
  have def: "search_endpoints summaries q limit = map fst (take limit (js_sort search_cmp ?xs))"
    by (simp add: search_endpoints_def Let_def)
  have mem: "x \<in> set (js_sort search_cmp ?xs) \<Longrightarrow> fst x \<in> set summaries \<and> snd x = ?r (fst x) \<and> 0 \<le> snd x" for x
    by auto
  show "length (search_endpoints summaries q limit) \<le> limit" by (simp add: def)
  have taken: "fst x \<in> set summaries \<and> snd x = ?r (fst x) \<and> 0 \<le> snd x"
    if "x \<in> set (take limit (js_sort search_cmp ?xs))" for x
    using mem [OF in_set_takeD [OF that]] .
  show "s \<in> set summaries \<and> ?r s \<ge> 0" if "s \<in> set (search_endpoints summaries q limit)"
  proof -
    from that obtain x where "x \<in> set (take limit (js_sort search_cmp ?xs))" and "s = fst x"
      unfolding def set_map by (rule imageE)
    then show ?thesis using taken [of x] by simp
  qed
  have le: "snd a \<le> snd b" if "search_cmp a b \<le> 0" for a b
    using that by (auto simp: search_cmp_def split: if_splits)
  have "sorted_wrt (\<lambda>a b. search_cmp a b \<le> 0) (take limit (js_sort search_cmp ?xs))"
    by (rule sorted_wrt_take [OF by_search.sorted_js_sort])
  then have "sorted_wrt (\<lambda>a b. ?r (fst a) \<le> ?r (fst b)) (take limit (js_sort search_cmp ?xs))"
  proof (rule sorted_wrt_mono_rel [rotated])
    fix a b
    assume ab: "a \<in> set (take limit (js_sort search_cmp ?xs))" "b \<in> set (take limit (js_sort search_cmp ?xs))"
      and "search_cmp a b \<le> 0"
    then show "?r (fst a) \<le> ?r (fst b)" using taken [OF ab(1)] taken [OF ab(2)] le by metis
  qed
  then show "sorted_wrt (\<lambda>a b. ?r a \<le> ?r b) (search_endpoints summaries q limit)"
    unfolding def sorted_wrt_map .
qed

section \<open>The edges behind a selection\<close>

lemma mset_edges_on_port:
  assumes "mset cs = mset ds"
  shows "mset (edges_on_port cs flow_of port) = mset (edges_on_port ds flow_of port)"
proof -
  have f: "mset (filter P cs) = mset (filter P ds)" for P
    using assms by (simp add: mset_filter)
  have "filter P cs = [] \<longleftrightarrow> filter P ds = []" for P
    using f [of P] by (metis mset_zero_iff)
  then show ?thesis using f assms by (auto simp: edges_on_port_def Let_def split: option.splits)
qed

lemma mset_selected_flows:
  "mset flows = mset flows' \<Longrightarrow> mset (selected_flows flows sel g) = mset (selected_flows flows' sel g)"
  by (simp add: selected_flows_def Let_def mset_edges_on_port mset_filter split: selection_type.splits)

definition raw_pairs_of :: "graph_flow list \<Rightarrow> traffic_pair list" where
  "raw_pairs_of fs = concat (map (\<lambda>f. coalesce (af_raw_pairs f) []) fs)"

definition keys_identify :: "graph_flow list \<Rightarrow> bool" where
  \<comment> \<open>two server edges of one key are the same edge: an endpoint has one kind\<close>
  "keys_identify flows = (\<forall>p \<in> set (raw_pairs_of flows). \<forall>q \<in> set (raw_pairs_of flows).
     key_of_pair p = key_of_pair q \<longrightarrow> p = q)"

lemma selected_flows_subset: "set (selected_flows flows sel g) \<subseteq> set flows"
  by (auto simp: selected_flows_def edges_on_port_def Let_def split: selection_type.splits option.splits if_splits)

lemma set_raw_pairs_of: "set (raw_pairs_of fs) = (\<Union>f \<in> set fs. set (coalesce (af_raw_pairs f) []))"
  by (simp add: raw_pairs_of_def)

lemma pairs_by_key_set:
  assumes "keys_identify flows"
  shows "set (pairs_by_key (raw_pairs_of (selected_flows flows sel g)))
    = (\<lambda>p. (key_of_pair p, p)) ` set (raw_pairs_of (selected_flows flows sel g))"
proof -
  let ?ps = "raw_pairs_of (selected_flows flows sel g)"
  have sub: "set ?ps \<subseteq> set (raw_pairs_of flows)"
    using selected_flows_subset [of flows sel g] by (auto simp: set_raw_pairs_of)
  have "set (pairs_by_key ?ps) = set (map (\<lambda>p. (key_of_pair p, p)) ?ps)"
    unfolding pairs_by_key_def
    using assms sub by (intro set_map_from_functional) (auto simp: keys_identify_def)
  then show ?thesis by simp
qed

lemma selection_raw_pairs_eq:
  "selection_raw_pairs flows (Some sel) g =
     (let pairs = pairs_by_key (raw_pairs_of (selected_flows flows sel g))
      in if pairs = [] then None else Some (map snd (js_sort (\<lambda>a b. str_cmp (fst a) (fst b)) pairs)))"
  by (simp add: selection_raw_pairs_def raw_pairs_of_def)

text \<open>
  The server edges of a selection do not depend on the order in which the server returned its
  aggregation, so the query they key is not repeated on every refresh; they are exactly the edges merged
  into the selected ones, each once, and absent only where there are none.
\<close>
theorem selection_pairs_stable:
  assumes "keys_identify flows" and "mset flows = mset flows'"
  shows "selection_raw_pairs flows (Some sel) g = selection_raw_pairs flows' (Some sel) g
    \<and> distinct (map key_of_pair (coalesce (selection_raw_pairs flows (Some sel) g) []))
    \<and> set (coalesce (selection_raw_pairs flows (Some sel) g) []) = set (raw_pairs_of (selected_flows flows sel g))"
proof -
  let ?m = "pairs_by_key (raw_pairs_of (selected_flows flows sel g))"
  let ?m' = "pairs_by_key (raw_pairs_of (selected_flows flows' sel g))"
  let ?s = "js_sort (\<lambda>a b. str_cmp (fst a) (fst b)) ?m"
  have "set (raw_pairs_of flows) = set (raw_pairs_of flows')"
    unfolding set_raw_pairs_of using mset_eq_setD [OF assms(2)] by simp
  then have ident': "keys_identify flows'"
    using assms(1) unfolding keys_identify_def by simp
  have "set (raw_pairs_of (selected_flows flows sel g)) = set (raw_pairs_of (selected_flows flows' sel g))"
    unfolding set_raw_pairs_of using mset_eq_setD [OF mset_selected_flows [OF assms(2)]] by simp
  then have same: "set ?m = set ?m'"
    unfolding pairs_by_key_set [OF assms(1)] pairs_by_key_set [OF ident'] by simp
  have dist: "distinct (map fst (pairs_by_key ps))" for ps
    unfolding pairs_by_key_def by (rule distinct_map_from)
  have "selection_raw_pairs flows (Some sel) g = selection_raw_pairs flows' (Some sel) g"
    using sort_entries_unique [OF same dist dist] same
    by (simp add: selection_raw_pairs_eq Let_def) (metis empty_set set_empty)
  moreover have res: "coalesce (selection_raw_pairs flows (Some sel) g) [] = map snd ?s"
    by (simp add: selection_raw_pairs_eq Let_def)
  moreover have keys: "map key_of_pair (map snd ?s) = map fst ?s"
    using pairs_by_key_set [OF assms(1), of sel g] by auto
  moreover have "distinct (map key_of_pair (map snd ?s))"
    unfolding keys using dist by (metis mset_js_sort mset_map mset_eq_imp_distinct_iff)
  moreover have "set (map snd ?s) = set (raw_pairs_of (selected_flows flows sel g))"
    by (simp add: pairs_by_key_set [OF assms(1)] image_image)
  ultimately show ?thesis unfolding res by blast
qed

definition sample_traffic_edge :: "string \<Rightarrow> int \<Rightarrow> graph_flow" where
  \<comment> \<open>an edge of a client to the service \<open>cart\<close>, with the server edge behind it\<close>
  "sample_traffic_edge client port =
     (let f = (sample_flow None None)\<lparr>af_source := \<lparr>te_name = client, te_namespace = ''shop'', te_kind = ''Pod'',
                 te_workload = None, te_workload_kind = None\<rparr>, af_port := port\<rparr>
      in f\<lparr>af_raw_pairs := Some [endpoint_pair f]\<rparr>)"

definition cart_selection :: traffic_selection where
  "cart_selection = \<lparr>ts_type = SelectNode, ts_node_id = Some ''shop/cart'', ts_source_id = None, ts_dest_id = None,
     ts_port = None, ts_direction_unknown = False\<rparr>"

theorem selection_pairs_stable_witness:
  "selection_raw_pairs [sample_traffic_edge ''b'' 80, sample_traffic_edge ''a'' 80] (Some cart_selection) None
     = Some [endpoint_pair (sample_traffic_edge ''a'' 80), endpoint_pair (sample_traffic_edge ''b'' 80)]"
proof -
  have "selection_raw_pairs [sample_traffic_edge ''b'' 80, sample_traffic_edge ''a'' 80] (Some cart_selection) None
      = selection_raw_pairs [sample_traffic_edge ''a'' 80, sample_traffic_edge ''b'' 80] (Some cart_selection) None"
    by (rule conjunct1 [OF selection_pairs_stable])
       (simp_all add: keys_identify_def raw_pairs_of_def sample_traffic_edge_def sample_flow_def endpoint_pair_def endpoint_ref_def
          key_of_pair_def pair_key_def ref_id_def graph_endpoint_id_def some_if_def add_mset_commute)
  also have "\<dots> = Some [endpoint_pair (sample_traffic_edge ''a'' 80), endpoint_pair (sample_traffic_edge ''b'' 80)]"
    by code_simp
  finally show ?thesis .
qed

section \<open>What the records of a selection are asked for by\<close>

lemma only_side_sound:
  assumes "only_side node_id ps only = Some (Some r)" and "\<And>s. only = Some s \<Longrightarrow> nameable s"
  shows "nameable r \<and> (\<forall>p \<in> set ps. \<exists>s. pair_side node_id p = Some s \<and> nameable s \<and> match_ref_key s = match_ref_key r)
    \<and> (\<forall>s. only = Some s \<longrightarrow> match_ref_key s = match_ref_key r)"
  using assms
proof (induction node_id ps only rule: only_side.induct)
  case (1 node_id only)
  then show ?case by simp
next
  case (2 node_id p ps only)
  then obtain side where side: "pair_side node_id p = Some side" by (cases "pair_side node_id p") auto
  with 2(2) have new: "\<not> (\<not> nameable side \<or> (case only of None \<Rightarrow> False | Some r \<Rightarrow> match_ref_key side \<noteq> match_ref_key r))"
    and ok: "nameable side" "\<And>s. only = Some s \<Longrightarrow> match_ref_key side = match_ref_key s"
    and rest: "only_side node_id ps (Some side) = Some (Some r)"
    by (auto split: if_splits option.splits)
  have "nameable r \<and> (\<forall>p \<in> set ps. \<exists>s. pair_side node_id p = Some s \<and> nameable s \<and> match_ref_key s = match_ref_key r)
      \<and> (\<forall>s. Some side = Some s \<longrightarrow> match_ref_key s = match_ref_key r)"
    by (rule 2(1) [OF side new rest]) (use ok in auto)
  with side ok show ?case by auto
qed

text \<open>
  A selection is sent as one endpoint only where that loses nothing: the endpoint is one the source can
  name, and it is an end of every edge behind the selection.
\<close>
theorem endpoint_match_covers_pairs:
  assumes "selection_match pairs selection = Some (MatchEndpoints rs)"
  shows "\<exists>r ps. rs = [r] \<and> pairs = Some ps \<and> nameable r
    \<and> (\<forall>p \<in> set ps. match_ref_key (tp_source p) = match_ref_key r \<or> match_ref_key (tp_destination p) = match_ref_key r)"
proof -
  obtain ps where ps: "pairs = Some ps" using assms by (cases pairs) (auto simp: selection_match_def)
  with assms obtain r where r: "only_side (ts_node_id (the selection)) ps None = Some (Some r)" and rs: "rs = [r]"
    by (auto simp: selection_match_def split: if_splits option.splits)
  from only_side_sound [OF r] have ok: "nameable r"
    and sides: "\<forall>p \<in> set ps. \<exists>s. pair_side (ts_node_id (the selection)) p = Some s \<and> nameable s \<and> match_ref_key s = match_ref_key r"
    by auto
  have "match_ref_key (tp_source p) = match_ref_key r \<or> match_ref_key (tp_destination p) = match_ref_key r" if "p \<in> set ps" for p
    using sides that by (auto simp: pair_side_def split: if_splits)
  then show ?thesis using ps rs ok by blast
qed

theorem endpoint_match_covers_pairs_witness:
  "\<exists>r. nameable r
    \<and> match_ref_key r = match_ref_key (tp_source (endpoint_pair (sample_traffic_edge ''a'' 80)))"
proof -
  have "selection_match (Some [endpoint_pair (sample_traffic_edge ''a'' 80)]) (Some (cart_selection\<lparr>ts_node_id := Some ''shop/a''\<rparr>))
      = Some (MatchEndpoints [tp_source (endpoint_pair (sample_traffic_edge ''a'' 80))])"
    by code_simp
  from endpoint_match_covers_pairs [OF this] show ?thesis by auto
qed

text \<open>The records a selection is narrowed to are those of its edges.\<close>

definition plain_id :: "string \<Rightarrow> bool" where
  \<comment> \<open>no arrow head in it, as in every name\<close>
  "plain_id s = (CHR ''>'' \<notin> set s)"

lemma port_colon_inject:
  "x @ '':'' @ show_int p = y @ '':'' @ show_int q \<longleftrightarrow> x = y \<and> p = q"
proof
  assume eq: "x @ '':'' @ show_int p = y @ '':'' @ show_int q"
  have colon: "CHR '':'' \<notin> set (show_int z)" for z
    by (auto dest!: show_int_chars)
  have "rev (show_int p) @ CHR '':'' # rev x = rev (show_int q) @ CHR '':'' # rev y"
    using arg_cong [OF eq, of rev] by simp
  then have "rev (show_int p) = rev (show_int q) \<and> rev x = rev y"
    by (rule append_sep_inject [rotated 2]) (simp_all add: colon)
  then show "x = y \<and> p = q" by simp
qed simp

lemma last_show_int: "last (show_int z) \<noteq> CHR ''u''"
proof
  assume "last (show_int z) = CHR ''u''"
  moreover have "last (show_int z) \<in> set (show_int z)" by (simp add: last_in_set)
  ultimately show False by (auto dest!: show_int_chars)
qed

lemma pair_key_inject:
  assumes "plain_id a" and "plain_id c"
  shows "pair_key a b p u = pair_key c d q v \<longleftrightarrow> a = c \<and> b = d \<and> p = q \<and> u = v"
proof
  assume eq: "pair_key a b p u = pair_key c d q v"
  have "(a @ ''-'') @ CHR ''>'' # (b @ '':'' @ show_int p @ str_if u '':u'')
      = (c @ ''-'') @ CHR ''>'' # (d @ '':'' @ show_int q @ str_if v '':u'')"
    using eq by (simp add: pair_key_def)
  then have "a @ ''-'' = c @ ''-'' \<and> b @ '':'' @ show_int p @ str_if u '':u'' = d @ '':'' @ show_int q @ str_if v '':u''"
    by (rule append_sep_inject [rotated 2]) (use assms in \<open>simp_all add: plain_id_def\<close>)
  then have ac: "a = c" and rest: "b @ '':'' @ show_int p @ str_if u '':u'' = d @ '':'' @ show_int q @ str_if v '':u''"
    by simp_all
  have l: "last (b @ '':'' @ show_int p @ str_if u '':u'') = CHR ''u'' \<longleftrightarrow> u" for b p u
    using last_show_int [of p] by (cases u) (simp_all add: str_if_def last_append)
  have uv: "u = v" using l [of b p u] l [of d q v] unfolding rest by blast
  have "b @ '':'' @ show_int p = d @ '':'' @ show_int q"
    using rest by (cases v) (simp_all add: uv str_if_def flip: append_assoc)
  then show "a = c \<and> b = d \<and> p = q \<and> u = v"
    using ac uv by (simp only: port_colon_inject)
qed simp

lemma matcher_is_exact:
  assumes "\<forall>p \<in> set ps. plain_id (ref_id (tp_source p))" and "plain_id (endpoint_id (drawn (tf_source f)))"
  shows "selected_edge_matcher (Some ps) True drawn f \<longleftrightarrow>
    (\<exists>p \<in> set ps. ref_id (tp_source p) = endpoint_id (drawn (tf_source f))
       \<and> ref_id (tp_destination p) = endpoint_id (drawn (tf_destination f))
       \<and> tp_port p = tf_port f \<and> tp_direction_unknown p = tf_direction_unknown f)"
proof -
  have "selected_edge_matcher (Some ps) True drawn f \<longleftrightarrow>
    (\<exists>p \<in> set ps. key_of_pair p = pair_key (endpoint_id (drawn (tf_source f))) (endpoint_id (drawn (tf_destination f)))
       (tf_port f) (tf_direction_unknown f))"
    by (simp add: selected_edge_matcher_def image_iff eq_commute)
  then show ?thesis using assms by (simp add: key_of_pair_def pair_key_inject cong: bex_cong)
qed

end
