(* ===== verification/Traffic_View.thy ===== *)
theory Traffic_View
  imports Traffic_Selection
begin

text \<open>
  From the server's flows to the edges that are drawn
  (\<open>web/src/components/traffic/TrafficView.tsx\<close>, what its memos compute): which endpoints are system
  components, addons or known external services; the filters of the graph and of the list of records;
  the merge of external services, the collapse of inbound internet traffic, the group of addons; the
  figures shown beside the map. The hooks around them, the wizard and the requests are not modelled.

  The lemmas show that merging loses no traffic and does not depend on the order the flows arrive in, and
  that a filter is active only while some flow answers to it.
\<close>

section \<open>Which endpoints are what\<close>

definition cluster_addon_namespaces :: "string list" where
  "cluster_addon_namespaces =
    [''cert-manager'', ''external-secrets'', ''sealed-secrets'', ''vault'', ''velero'', ''gmp-system'',
     ''gmp-public'', ''datadog'', ''monitoring'', ''observability'', ''opencost'', ''prometheus'',
     ''grafana'', ''kube-state-metrics'', ''loki'', ''logging'', ''fluentd'', ''fluentbit'',
     ''external-dns'', ''cluster-autoscaler'', ''karpenter'', ''keda'', ''argocd'', ''argo-rollouts'',
     ''argo-workflows'', ''flux-system'', ''gatekeeper-system'', ''reloader'', ''cloud-native-pg'',
     ''cnpg-system'', ''postgres-operator'', ''mysql-operator'', ''redis-operator'']"

definition cluster_addon_names :: "string list" where
  "cluster_addon_names =
    [''coredns'', ''metrics-server'', ''cluster-autoscaler'', ''kube-dns'', ''kube-state-metrics'',
     ''reloader'']"

definition traffic_flow_namespaces :: "string list" where
  "traffic_flow_namespaces =
    [''ingress-nginx'', ''nginx-ingress'', ''traefik'', ''contour'', ''kong'', ''ambassador'',
     ''emissary'', ''haproxy-ingress'', ''istio-system'', ''istio-ingress'', ''linkerd'', ''consul'',
     ''envoy-gateway-system'', ''gateway-system'']"

definition traffic_flow_names :: "string list" where
  "traffic_flow_names =
    [''ingress-nginx-controller'', ''nginx-ingress-controller'', ''traefik'', ''contour'', ''envoy'',
     ''kong'', ''ambassador'', ''istio-ingressgateway'', ''istio-proxy'', ''linkerd-proxy'']"

definition traffic_system_namespaces :: "string list" where
  "traffic_system_namespaces =
    [''kube-system'', ''kube-public'', ''kube-node-lease'', ''cert-manager'', ''caretta'', ''cilium'',
     ''calico-system'', ''tigera-operator'', ''gatekeeper-system'', ''argo-rollouts'', ''argocd'',
     ''flux-system'', ''monitoring'', ''observability'', ''istio-system'', ''linkerd'', ''node'',
     ''gmp-system'', ''gmp-public'', ''datadog'', ''opencost'', ''external-dns'', ''ingress-nginx'',
     ''traefik'', ''velero'', ''vault'', ''external-secrets'']"

definition cilium_reserved_identities :: "string list" where
  "cilium_reserved_identities =
    [''host'', ''health'', ''init'', ''unmanaged'']"


definition is_cluster_addon :: "string \<Rightarrow> string \<Rightarrow> bool" where
  "is_cluster_addon name ns =
     (if ns \<noteq> [] \<and> ns \<in> set traffic_flow_namespaces then False
      else if name \<in> set traffic_flow_names then False
      else if ns \<noteq> [] \<and> ns \<in> set cluster_addon_namespaces then True
      else if name \<in> set cluster_addon_names then True
      else includes_str name ''prometheus'' \<or> includes_str name ''grafana'' \<or> includes_str name ''datadog''
         \<or> includes_str name ''fluentd'' \<or> includes_str name ''metrics-server'' \<or> includes_str name ''coredns'')"

definition digit_byte :: "char \<Rightarrow> bool" where
  "digit_byte c = (c \<in> set ''0123456789'')"

definition digits_upto :: "nat option \<Rightarrow> string \<Rightarrow> bool" where
  \<comment> \<open>\<open>\d+\<close>, or \<open>\d{1,n}\<close>\<close>
  "digits_upto limit run = (run \<noteq> [] \<and> (case limit of None \<Rightarrow> True | Some n \<Rightarrow> length run \<le> n))"

fun after_runs :: "nat option \<Rightarrow> string \<Rightarrow> string \<Rightarrow> string option" where
  \<comment> \<open>what follows runs of digits, each ended by the next separator; a run can only end before one\<close>
  "after_runs limit [] s = Some s"
| "after_runs limit (sep # seps) s =
     (case dropWhile digit_byte s of
        [] \<Rightarrow> None
      | c # rest \<Rightarrow> if digits_upto limit (takeWhile digit_byte s) \<and> c = sep then after_runs limit seps rest else None)"

definition last_run :: "string option \<Rightarrow> bool" where
  \<comment> \<open>the rest is \<open>\d{1,3}$\<close>\<close>
  "last_run s = (case s of None \<Rightarrow> False | Some r \<Rightarrow> digits_upto (Some 3) r \<and> list_all digit_byte r)"

definition is_internal_load_balancer :: "string \<Rightarrow> bool" where
  "is_internal_load_balancer name =
     (if starts_with name ''10.'' \<and> last_run (after_runs (Some 3) ''..'' (drop 3 name)) then True
      else if starts_with name ''172.'' \<and> take 2 (drop 4 name) \<in> set (map show_nat [16..<32])
           \<and> starts_with (drop 6 name) ''.'' \<and> last_run (after_runs (Some 3) ''.'' (drop 7 name)) then True
      else if starts_with name ''192.168.'' \<and> last_run (after_runs (Some 3) ''.'' (drop 8 name)) then True
      else False)"

datatype host_pattern =
    HostSuffix string \<comment> \<open>\<open>/.*suffix\.?$/\<close>\<close>
  | HostSuffixAnyCase string \<comment> \<open>\<open>/.*suffix\.?$/i\<close>\<close>
  | VmSuffix string \<comment> \<open>\<open>/[\d.-]+suffix\.?$/i\<close>\<close>

definition host_ends_with :: "string \<Rightarrow> string \<Rightarrow> bool" where
  "host_ends_with s t = suffix t s"

definition vm_before :: "string \<Rightarrow> string \<Rightarrow> bool" where
  \<comment> \<open>the string ends in the suffix, with a character of an address before it\<close>
  "vm_before s t = (host_ends_with s t \<and> length t < length s
     \<and> (let c = s ! (length s - length t - 1) in digit_byte c \<or> c = CHR ''.'' \<or> c = CHR ''-''))"

fun host_matches :: "host_pattern \<Rightarrow> string \<Rightarrow> bool" where
  "host_matches (HostSuffix t) s = (host_ends_with s t \<or> host_ends_with s (t @ ''.''))"
| "host_matches (HostSuffixAnyCase t) s = (host_ends_with (to_lower s) t \<or> host_ends_with (to_lower s) (t @ ''.''))"
| "host_matches (VmSuffix t) s = (vm_before (to_lower s) t \<or> vm_before (to_lower s) (t @ ''.''))"

definition port_service_map :: "(int \<times> string \<times> string) list" where
  "port_service_map =
    [(27017, ''MongoDB'', ''database''),
     (27018, ''MongoDB'', ''database''),
     (5432, ''PostgreSQL'', ''database''),
     (3306, ''MySQL'', ''database''),
     (6379, ''Redis'', ''database''),
     (9042, ''Cassandra'', ''database''),
     (9200, ''Elasticsearch'', ''database''),
     (9300, ''Elasticsearch'', ''database''),
     (443, ''HTTPS'', ''web''),
     (80, ''HTTP'', ''web''),
     (8080, ''HTTP'', ''web''),
     (8443, ''HTTPS'', ''web''),
     (5672, ''RabbitMQ'', ''messaging''),
     (9092, ''Kafka'', ''messaging''),
     (4222, ''NATS'', ''messaging''),
     (11211, ''Memcached'', ''cache''),
     (25, ''SMTP'', ''email''),
     (587, ''SMTP'', ''email''),
     (53, ''DNS'', ''infra''),
     (22, ''SSH'', ''infra'')]"

definition external_service_patterns :: "(host_pattern \<times> string \<times> string) list" where
  "external_service_patterns =
    [(HostSuffix ''.mongodb.net'', ''MongoDB Atlas'', ''database''),
     (HostSuffix ''.mongodb.com'', ''MongoDB Atlas'', ''database''),
     (HostSuffix ''.redis.cloud'', ''Redis Cloud'', ''database''),
     (HostSuffix ''.rds.amazonaws.com'', ''AWS RDS'', ''database''),
     (HostSuffix ''.amazonaws.com'', ''AWS Services'', ''cloud''),
     (HostSuffix ''.googleapis.com'', ''Google APIs'', ''cloud''),
     (VmSuffix ''.bc.googleusercontent.com'', ''GCE VMs'', ''cloud''),
     (HostSuffixAnyCase ''.googleusercontent.com'', ''Google Cloud'', ''cloud''),
     (HostSuffix ''.azure.com'', ''Azure Services'', ''cloud''),
     (HostSuffix ''.blob.core.windows.net'', ''Azure Blob'', ''cloud''),
     (HostSuffix ''.sentry.io'', ''Sentry'', ''monitoring''),
     (HostSuffix ''.datadoghq.com'', ''Datadog'', ''monitoring''),
     (HostSuffix ''.stripe.com'', ''Stripe'', ''payment''),
     (HostSuffix ''.auth0.com'', ''Auth0'', ''auth''),
     (HostSuffix ''.okta.com'', ''Okta'', ''auth''),
     (HostSuffix ''.sendgrid.net'', ''SendGrid'', ''email''),
     (HostSuffix ''.mailgun.org'', ''Mailgun'', ''email''),
     (HostSuffix ''.slack.com'', ''Slack'', ''messaging''),
     (HostSuffix ''.twilio.com'', ''Twilio'', ''messaging'')]"

record service_info =
  si_name :: string
  si_aggregated :: bool
  si_category :: "string option"

definition get_external_service_name :: "string \<Rightarrow> int option \<Rightarrow> service_info" where
  "get_external_service_name name port =
     (let port_service = (if truthy_num port then map_of port_service_map (the port) else None)
      in case List.find (\<lambda>p. host_matches (fst p) name) external_service_patterns of
           Some (_, display, category) \<Rightarrow>
             (case port_service of
                Some (service, port_category) \<Rightarrow>
                  if display \<noteq> service
                  then \<lparr>si_name = service @ '' ('' @ display @ '')'', si_aggregated = True, si_category = Some port_category\<rparr>
                  else \<lparr>si_name = display, si_aggregated = True, si_category = Some category\<rparr>
              | None \<Rightarrow> \<lparr>si_name = display, si_aggregated = True, si_category = Some category\<rparr>)
         | None \<Rightarrow>
             (case port_service of
                Some (service, port_category) \<Rightarrow>
                  \<lparr>si_name = service, si_aggregated = True, si_category = Some port_category\<rparr>
              | None \<Rightarrow> \<lparr>si_name = name, si_aggregated = False, si_category = None\<rparr>))"

definition is_ipv6_infrastructure :: "string \<Rightarrow> bool" where
  "is_ipv6_infrastructure name = (starts_with (to_lower name) ''fe80:'' \<or> starts_with (to_lower name) ''ff0'')"

definition is_system_endpoint :: "string \<Rightarrow> string \<Rightarrow> string \<Rightarrow> bool" where
  "is_system_endpoint name ns kind =
     (if ns \<noteq> [] \<and> ns \<in> set traffic_system_namespaces then True
      else if kind = ''Host'' then True
      else if (kind = ''External'' \<or> kind = ''Unknown'') \<and> name \<in> set cilium_reserved_identities then True
      else if is_ipv6_infrastructure name then True
      else if kind = ''node'' \<or> kind = ''Node'' then True
      else if starts_with name ''169.254.'' \<or> name = ''instance-data.ec2.internal'' then True
      else if name = ''metadata.google.internal'' \<or> name = ''metadata.google.internal.'' then True
      else if name = ''metadata.azure.com'' \<or> host_ends_with name ''.metadata.azure.com'' then True
      else if name = ''127.0.0.1'' \<or> name = ''localhost'' \<or> starts_with name ''127.'' then True
      else if name = ''0.0.0.0'' then True
      else if ns = ''default'' \<and> name = ''kubernetes'' then True
      else if after_runs (Some 3) ''---.'' name \<noteq> None then True
      else if (starts_with name ''ec2-'' \<and> after_runs None ''---.'' (drop 4 name) \<noteq> None)
            \<or> (starts_with name ''ip-'' \<and> after_runs None ''---.'' (drop 3 name) \<noteq> None) then True
      else if kind = ''External'' \<and> is_internal_load_balancer name then True
      else False)"

section \<open>Filters\<close>

datatype addon_mode = AddonShow | AddonGroup | AddonHide

text \<open>The choices that filter: the active ones, not those that have outlived their control.\<close>

record traffic_options =
  to_hide_system :: bool
  to_hide_external :: bool
  to_min_connections :: rat
  to_hidden_namespaces :: "string list"
  to_addon_mode :: addon_mode
  to_l7_protocol :: string
  to_methods :: "string list"
  to_status_ranges :: "string list"
  to_verdicts :: "string list"
  to_dns_pattern :: string

definition always_filtered :: "string \<Rightarrow> bool" where
  "always_filtered name =
     (name = ''metadata.google.internal'' \<or> name = ''metadata.google.internal.'' \<or> starts_with name ''169.254.''
      \<or> name = ''instance-data.ec2.internal'' \<or> name = ''localhost'' \<or> name = ''127.0.0.1''
      \<or> starts_with name ''127.'' \<or> name = ''0.0.0.0'')"

definition protocol_hidden :: "string \<Rightarrow> string option \<Rightarrow> bool" where
  \<comment> \<open>the three lines of the protocol filter\<close>
  "protocol_hidden l7 protocol =
     ((l7 = ''HTTP'' \<and> protocol \<noteq> Some ''HTTP'') \<or> (l7 = ''DNS'' \<and> protocol \<noteq> Some ''DNS'')
      \<or> (l7 = ''TCP'' \<and> truthy_str protocol))"

definition verdict_count_pos :: "graph_flow \<Rightarrow> string \<Rightarrow> bool" where
  "verdict_count_pos f v = (coalesce (Option.bind (af_verdict_counts f) (\<lambda>m. map_of m v)) 0 > 0)"

definition flow_passes :: "traffic_options \<Rightarrow> graph_flow \<Rightarrow> bool" where
  "flow_passes opts f =
     (let src = af_source f; dst = af_destination f;
          source_is_system = is_system_endpoint (te_name src) (te_namespace src) (te_kind src);
          dest_is_system = is_system_endpoint (te_name dst) (te_namespace dst) (te_kind dst)
      in if to_hide_system opts \<and> (source_is_system \<or> dest_is_system) then False
         else if always_filtered (te_name src) \<or> always_filtered (te_name dst) then False
         else if to_hide_external opts \<and> (is_external_kind (te_kind src) \<or> is_external_kind (te_kind dst)) then False
         else if to_addon_mode opts = AddonHide
               \<and> (is_cluster_addon (te_name src) (te_namespace src) \<or> is_cluster_addon (te_name dst) (te_namespace dst)) then False
         else if af_connections f < to_min_connections opts then False
         else if to_hidden_namespaces opts \<noteq> []
               \<and> (te_namespace src \<noteq> [] \<and> te_namespace src \<in> set (to_hidden_namespaces opts)
                \<or> te_namespace dst \<noteq> [] \<and> te_namespace dst \<in> set (to_hidden_namespaces opts)) then False
         else if protocol_hidden (to_l7_protocol opts) (af_l7_protocol f) then False
         else if to_methods opts \<noteq> []
               \<and> \<not> (\<exists>m \<in> set (coalesce (af_http_methods f) []). m \<in> set (to_methods opts)) then False
         else if \<not> matches_status_ranges (to_status_ranges opts) (buckets_from_counts (af_status_counts f))
                     (coalesce (af_error_count f) 0 > 0) then False
         else if to_verdicts opts \<noteq> []
               \<and> (af_verdict_counts f = None \<or> \<not> (\<exists>v \<in> set (to_verdicts opts). verdict_count_pos f v)) then False
         else if to_dns_pattern opts \<noteq> []
               \<and> \<not> (\<exists>q \<in> set (coalesce (af_dns_queries f) []). includes_str (to_lower q) (to_lower (to_dns_pattern opts))) then False
         else True)"

definition filtered_flows :: "traffic_options \<Rightarrow> graph_flow list option \<Rightarrow> graph_flow list" where
  "filtered_flows opts aggregated = (case aggregated of None \<Rightarrow> [] | Some fs \<Rightarrow> filter (flow_passes opts) fs)"

definition raw_flow_passes :: "(traffic_endpoint \<Rightarrow> traffic_endpoint) \<Rightarrow> traffic_options \<Rightarrow> traffic_flow \<Rightarrow> bool" where
  "raw_flow_passes drawn opts f =
     (let src = tf_source f; dst = tf_destination f;
          source_name = te_name (drawn src); dest_name = te_name (drawn dst);
          source_is_system = is_system_endpoint source_name (te_namespace src) (te_kind src);
          dest_is_system = is_system_endpoint dest_name (te_namespace dst) (te_kind dst)
      in if to_hide_system opts \<and> (source_is_system \<or> dest_is_system) then False
         else if always_filtered (te_name src) \<or> always_filtered (te_name dst) then False
         else if to_hide_external opts \<and> (is_external_kind (te_kind src) \<or> is_external_kind (te_kind dst)) then False
         else if to_addon_mode opts = AddonHide
               \<and> (is_cluster_addon source_name (te_namespace src) \<or> is_cluster_addon dest_name (te_namespace dst)) then False
         else if to_hidden_namespaces opts \<noteq> []
               \<and> (te_namespace src \<noteq> [] \<and> te_namespace src \<in> set (to_hidden_namespaces opts)
                \<or> te_namespace dst \<noteq> [] \<and> te_namespace dst \<in> set (to_hidden_namespaces opts)) then False
         else if protocol_hidden (to_l7_protocol opts) (tf_l7_protocol f) then False
         else if to_methods opts \<noteq> []
               \<and> (\<not> truthy_str (tf_http_method f) \<or> the (tf_http_method f) \<notin> set (to_methods opts)) then False
         else if \<not> matches_status_ranges (to_status_ranges opts) (buckets_from_status (tf_http_status f))
                     (coalesce (tf_error_rate f) 0 > 0) then False
         else if to_verdicts opts \<noteq> [] \<and> (tf_verdict f = [] \<or> tf_verdict f \<notin> set (to_verdicts opts)) then False
         else if to_dns_pattern opts \<noteq> []
               \<and> (\<not> truthy_str (tf_dns_query f)
                  \<or> \<not> includes_str (to_lower (the (tf_dns_query f))) (to_lower (to_dns_pattern opts))) then False
         else True)"

record l7_capabilities =
  lc_status_ranges :: "string list"
  lc_verdicts :: "string list"
  lc_dns :: bool
  lc_methods :: "string list"

definition positive_keys :: "counts option \<Rightarrow> string list" where
  \<comment> \<open>\<open>for (const [k, n] of Object.entries(counts ?? {})) if (n > 0)\<close>\<close>
  "positive_keys cs = map fst (filter (\<lambda>kv. snd kv > 0) (coalesce cs []))"

definition l7_capabilities_of :: "graph_flow list option \<Rightarrow> l7_capabilities" where
  "l7_capabilities_of aggregated =
     (let fs = coalesce aggregated [];
          statuses = fold (\<lambda>f s. (let s = fold set_add (positive_keys (af_status_counts f)) s
                                  in if coalesce (af_error_count f) 0 > 0 then set_add ''5xx'' s else s)) fs [];
          seen = fold (\<lambda>f s. fold set_add (positive_keys (af_verdict_counts f)) s) fs [];
          methods = fold (\<lambda>f s. fold (\<lambda>m s. if m \<noteq> [] then set_add m s else s) (coalesce (af_http_methods f) []) s) fs []
      in \<lparr>lc_status_ranges = filter (\<lambda>b. b \<in> set statuses) [''2xx'', ''3xx'', ''4xx'', ''5xx''],
          lc_verdicts = verdict_choices seen,
          lc_dns = (\<exists>f \<in> set fs. coalesce (af_dns_queries f) [] \<noteq> []),
          lc_methods = filter (\<lambda>m. m \<in> set methods) [''GET'', ''POST'', ''PUT'', ''DELETE'', ''PATCH'']\<rparr>)"

text \<open>The choices as the user made them, and the ones of them that filter.\<close>

definition active_options :: "l7_capabilities \<Rightarrow> bool \<Rightarrow> volume_unit \<Rightarrow> traffic_options \<Rightarrow> traffic_options" where
  "active_options caps is_rate_based min_connections_unit chosen =
     chosen\<lparr>to_status_ranges := keep_available (to_status_ranges chosen) (lc_status_ranges caps),
            to_methods := keep_available (to_methods chosen) (lc_methods caps),
            to_verdicts := keep_available (to_verdicts chosen) (lc_verdicts caps),
            to_dns_pattern := (if lc_dns caps then to_dns_pattern chosen else []),
            to_min_connections :=
              effective_threshold (to_min_connections chosen) min_connections_unit (volume_unit_of (Some is_rate_based))\<rparr>"

section \<open>Edges merged into one\<close>

definition graph_input_flows :: "graph_flow list \<Rightarrow> graph_flow list" where
  "graph_input_flows fs = map (\<lambda>f. f\<lparr>af_raw_pairs := Some [endpoint_pair f]\<rparr>) fs"

definition service_of :: "bool \<Rightarrow> string \<Rightarrow> int \<Rightarrow> service_info" where
  "service_of detect_services name port = get_external_service_name name (if detect_services then Some port else None)"

definition own_name :: "string \<Rightarrow> service_info" where
  "own_name name = \<lparr>si_name = name, si_aggregated = False, si_category = None\<rparr>"

definition source_service :: "graph_flow \<Rightarrow> service_info" where
  "source_service f =
     (if is_external_kind (te_kind (af_source f)) then get_external_service_name (te_name (af_source f)) None
      else own_name (te_name (af_source f)))"

definition dest_service :: "bool \<Rightarrow> graph_flow \<Rightarrow> service_info" where
  "dest_service detect_services f =
     (if is_external_kind (te_kind (af_destination f))
      then service_of detect_services (te_name (af_destination f)) (af_port f)
      else own_name (te_name (af_destination f)))"

definition service_key :: "bool \<Rightarrow> graph_flow \<Rightarrow> string" where
  "service_key detect_services f =
     (let source_key = graph_endpoint_id (te_namespace (af_source f)) (si_name (source_service f));
          dest_key = graph_endpoint_id (te_namespace (af_destination f)) (si_name (dest_service detect_services f))
      in source_key @ ''->'' @ dest_key @ ''|'' @ (if af_direction_unknown f then ''u'' else ''o''))"

definition service_edge :: "bool \<Rightarrow> graph_flow \<Rightarrow> graph_flow" where
  \<comment> \<open>the first edge of a key, under the services' names\<close>
  "service_edge detect_services f =
     f\<lparr>af_raw_pairs := Some (coalesce (af_raw_pairs f) []),
       af_source := (if si_aggregated (source_service f) then (af_source f)\<lparr>te_name := si_name (source_service f)\<rparr>
                     else af_source f),
       af_destination := (if si_aggregated (dest_service detect_services f)
                     then (af_destination f)\<lparr>te_name := si_name (dest_service detect_services f)\<rparr>
                     else af_destination f)\<rparr>"

definition merge_service_edge :: "graph_flow \<Rightarrow> graph_flow \<Rightarrow> graph_flow" where
  "merge_service_edge f existing =
     (let e = merge_raw_pairs (merge_flow_volume existing f) f
      in e\<lparr>af_port := merged_edge_port (af_port e) (af_port f)\<rparr>)"

definition aggregate_step :: "bool \<Rightarrow> graph_flow \<Rightarrow> (string \<times> graph_flow) list \<Rightarrow> (string \<times> graph_flow) list" where
  "aggregate_step detect_services f m =
     (let k = service_key detect_services f
      in case map_of m k of
           Some existing \<Rightarrow> AList.update k (merge_service_edge f existing) m
         | None \<Rightarrow> AList.update k (service_edge detect_services f) m)"

definition aggregate_services :: "bool \<Rightarrow> graph_flow list \<Rightarrow> (string \<times> graph_flow) list" where
  "aggregate_services detect_services fs = fold (aggregate_step detect_services) fs []"

definition category_step :: "bool \<Rightarrow> bool \<Rightarrow> graph_flow \<Rightarrow> (string \<times> string) list \<Rightarrow> (string \<times> string) list" where
  "category_step aggregate_external detect_services f categories =
     (if aggregate_external then
        (case si_category (dest_service detect_services f) of
           Some c \<Rightarrow> if c \<noteq> [] then AList.update (si_name (dest_service detect_services f)) c categories else categories
         | None \<Rightarrow> categories)
      else if is_external_kind (te_kind (af_destination f)) then
        (case si_category (service_of detect_services (te_name (af_destination f)) (af_port f)) of
           Some c \<Rightarrow> if c \<noteq> [] then AList.update (te_name (af_destination f)) c categories else categories
         | None \<Rightarrow> categories)
      else categories)"

definition processed_flows :: "bool \<Rightarrow> bool \<Rightarrow> graph_flow list \<Rightarrow> graph_flow list \<times> (string \<times> string) list" where
  "processed_flows aggregate_external detect_services fs =
     (let categories = fold (category_step aggregate_external detect_services) fs []
      in if \<not> aggregate_external then (fs, categories)
         else (map snd (aggregate_services detect_services fs), categories))"

definition is_inbound :: "graph_flow \<Rightarrow> bool" where
  "is_inbound f = (is_external_kind (te_kind (af_source f)) \<and> \<not> is_external_kind (te_kind (af_destination f)))"

definition internet_key :: "graph_flow \<Rightarrow> string" where
  "internet_key f =
     (let orientation = (if af_direction_unknown f then ''|u'' else ''|o'')
      in graph_endpoint_id (te_namespace (af_destination f)) (te_name (af_destination f))
           @ '':'' @ show_int (af_port f) @ orientation)"

definition internet_edge :: "graph_flow \<Rightarrow> graph_flow" where
  "internet_edge f =
     f\<lparr>af_raw_pairs := Some (coalesce (af_raw_pairs f) []),
       af_source := \<lparr>te_name = ''Internet'', te_namespace = [], te_kind = ''Internet'',
                     te_workload = None, te_workload_kind = None\<rparr>\<rparr>"

definition merge_internet_edge :: "graph_flow \<Rightarrow> graph_flow \<Rightarrow> graph_flow" where
  "merge_internet_edge f existing = merge_raw_pairs (merge_flow_volume existing f) f"

definition collapse_step :: "graph_flow \<Rightarrow> (string \<times> graph_flow) list \<Rightarrow> (string \<times> graph_flow) list" where
  "collapse_step f m =
     (let k = internet_key f
      in case map_of m k of
           Some existing \<Rightarrow> AList.update k (merge_internet_edge f existing) m
         | None \<Rightarrow> AList.update k (internet_edge f) m)"

definition internet_collapsed_flows :: "bool \<Rightarrow> graph_flow list \<Rightarrow> graph_flow list" where
  "internet_collapsed_flows collapse_internet fs =
     (if \<not> collapse_internet then fs
      else (let (m, others) = fold (\<lambda>f (m, others). if is_inbound f then (collapse_step f m, others) else (m, others @ [f]))
              fs ([], [])
            in others @ map snd m))"

section \<open>The group of addons\<close>

record addon_totals =
  at_internet_total :: rat
  at_k8s_total :: rat
  at_internet_rate :: rat
  at_k8s_rate :: rat
  at_internet_pairs :: "traffic_pair list"
  at_k8s_pairs :: "traffic_pair list"
  at_flows :: "graph_flow list"

definition is_kubernetes_api :: "string \<Rightarrow> string \<Rightarrow> bool" where
  "is_kubernetes_api name ns = (name = ''kubernetes'' \<and> (ns = [] \<or> ns = ''default''))"

definition endpoint_of :: "string \<Rightarrow> string \<Rightarrow> string \<Rightarrow> traffic_endpoint" where
  "endpoint_of name ns kind = \<lparr>te_name = name, te_namespace = ns, te_kind = kind, te_workload = None, te_workload_kind = None\<rparr>"

definition addon_step :: "graph_flow \<Rightarrow> addon_totals \<Rightarrow> addon_totals" where
  "addon_step f t =
     (let source_is_addon = is_cluster_addon (te_name (af_source f)) (te_namespace (af_source f));
          dest_is_addon = is_cluster_addon (te_name (af_destination f)) (te_namespace (af_destination f));
          source_is_internet = te_kind (af_source f) = ''Internet'';
          dest_is_k8s_api = is_kubernetes_api (te_name (af_destination f)) (te_namespace (af_destination f));
          pairs = coalesce (af_raw_pairs f) []
      in if source_is_internet \<and> dest_is_addon then
           t\<lparr>at_internet_total := at_internet_total t + af_connections f,
             at_internet_rate := at_internet_rate t + coalesce (af_request_rate f) 0,
             at_internet_pairs := at_internet_pairs t @ pairs,
             at_flows := at_flows t @ [f\<lparr>af_source := endpoint_of ''addon-internet'' [] ''SkipEdge''\<rparr>]\<rparr>
         else if source_is_addon \<and> dest_is_k8s_api then
           t\<lparr>at_k8s_total := at_k8s_total t + af_connections f,
             at_k8s_rate := at_k8s_rate t + coalesce (af_request_rate f) 0,
             at_k8s_pairs := at_k8s_pairs t @ pairs,
             at_flows := at_flows t @ [f\<lparr>af_destination := (af_destination f)\<lparr>te_kind := ''SkipEdge''\<rparr>\<rparr>]\<rparr>
         else t\<lparr>at_flows := at_flows t @ [f]\<rparr>)"

definition virtual_edge ::
    "traffic_endpoint \<Rightarrow> traffic_endpoint \<Rightarrow> int \<Rightarrow> rat \<Rightarrow> rat \<Rightarrow> traffic_pair list \<Rightarrow> graph_flow" where
  "virtual_edge src dst port volume rate pairs =
     \<lparr>af_source = src, af_destination = dst, af_port = port, af_flow_count = 1, af_bytes_sent = 0, af_bytes_recv = 0,
      af_connections = volume, af_direction_unknown = False, af_l7_protocol = None, af_request_count = None,
      af_error_count = None, af_request_rate = (if rate > 0 then Some rate else None), af_error_rate = None,
      af_avg_latency = None, af_latency_samples = None, af_p50 = None, af_p95 = None, af_p99 = None,
      af_status_counts = None, af_http_methods = None, af_dns_queries = None, af_verdict_counts = None,
      af_drop_reasons = None, af_latency_weight = None, af_raw_pairs = Some pairs\<rparr>"

definition final_flows :: "bool \<Rightarrow> graph_flow list \<Rightarrow> graph_flow list" where
  "final_flows group_addons focused =
     (if \<not> group_addons then focused
      else let t = fold addon_step focused
                 \<lparr>at_internet_total = 0, at_k8s_total = 0, at_internet_rate = 0, at_k8s_rate = 0,
                  at_internet_pairs = [], at_k8s_pairs = [], at_flows = []\<rparr>
           in at_flows t
              @ (if at_internet_total t > 0
                 then [virtual_edge (endpoint_of ''addon-internet'' [] ''AddonInternet'')
                         (endpoint_of ''addon-group-target'' [] ''AddonGroupTarget'') 0
                         (at_internet_total t) (at_internet_rate t) (at_internet_pairs t)] else [])
              @ (if at_k8s_total t > 0
                 then [virtual_edge (endpoint_of ''addon-group-source'' [] ''AddonGroupSource'')
                         (endpoint_of ''kubernetes'' ''default'' ''Service'') 443
                         (at_k8s_total t) (at_k8s_rate t) (at_k8s_pairs t)] else []))"

section \<open>Beside the map\<close>

definition too_large_to_draw :: "nat \<Rightarrow> string option \<Rightarrow> string \<Rightarrow> bool" where
  "too_large_to_draw score drawn_view_key view_key =
     (score > graph_draw_ceiling \<or> (\<not> score \<le> graph_draw_budget \<and> drawn_view_key \<noteq> Some view_key))"

definition remember_drawn :: "nat \<Rightarrow> nat \<Rightarrow> string \<Rightarrow> string option \<Rightarrow> string option" where
  \<comment> \<open>the effect after a render\<close>
  "remember_drawn edges score view_key drawn_view_key =
     (if edges > 0 \<and> score \<le> graph_draw_budget then Some view_key else drawn_view_key)"

record flow_stats =
  fs_total :: int
  fs_filtered :: int
  fs_shown :: int
  fs_hidden :: int
  fs_outside_focus :: int
  fs_aggregated :: int

definition flow_stats_of ::
    "graph_flow list option \<Rightarrow> graph_flow list \<Rightarrow> graph_flow list \<Rightarrow> graph_flow list \<Rightarrow> graph_flow list \<Rightarrow> flow_stats" where
  "flow_stats_of aggregated filtered collapsed focused final =
     (let all = int (length (coalesce aggregated [])); n = int (length filtered); shown = int (length final);
          outside = int (length collapsed) - int (length focused)
      in \<lparr>fs_total = all, fs_filtered = n, fs_shown = shown, fs_hidden = all - n, fs_outside_focus = outside,
          fs_aggregated = n - shown - outside\<rparr>)"

definition hot_path_threshold :: "graph_flow list \<Rightarrow> rat" where
  "hot_path_threshold final =
     (if final = [] then 0
      else let counts = js_sort (\<lambda>a b. cmp_num b a) (map af_connections final);
               i = max 0 (int (length counts) div 10 - 1);
               pick = (if nat i < length counts then Some (counts ! nat i) else None)
           in if truthy_rat pick then the pick
              else coalesce (rat_or (Some (counts ! 0)) (Some 0)) 0)"

definition count_node :: "traffic_endpoint \<Rightarrow> (string \<times> string list) list \<Rightarrow> (string \<times> string list) list" where
  "count_node e m =
     (if te_namespace e \<noteq> [] \<and> \<not> is_external_kind (te_kind e)
      then AList.update (te_namespace e) (set_add (te_name e) (coalesce (map_of m (te_namespace e)) [])) m
      else m)"

definition namespaces_with_counts :: "traffic_options \<Rightarrow> graph_flow list option \<Rightarrow> (string \<times> nat) list" where
  "namespaces_with_counts opts aggregated =
     (let system = (\<lambda>e. is_system_endpoint (te_name e) (te_namespace e) (te_kind e));
          fs = filter (\<lambda>f.
             if to_hide_system opts \<and> (system (af_source f) \<or> system (af_destination f)) then False
             else if to_hide_external opts
                \<and> (is_external_kind (te_kind (af_source f)) \<or> is_external_kind (te_kind (af_destination f))) then False
             else if af_connections f < to_min_connections opts then False
             else True) (coalesce aggregated [])
      in map (\<lambda>(name, nodes). (name, length nodes))
           (fold (\<lambda>f m. count_node (af_destination f) (count_node (af_source f) m)) fs []))"

section \<open>The records of the list\<close>

definition list_selection :: "traffic_selection option \<Rightarrow> bool \<Rightarrow> string option \<Rightarrow> traffic_selection option" where
  "list_selection graph_selection focus_found focus_key =
     (case graph_selection of
        Some s \<Rightarrow> Some s
      | None \<Rightarrow>
          if focus_found \<and> truthy_str focus_key
          then Some \<lparr>ts_type = SelectNode, ts_node_id = focus_key, ts_source_id = None, ts_dest_id = None,
                     ts_port = None, ts_direction_unknown = False\<rparr>
          else None)"

definition records_match ::
    "traffic_match option \<Rightarrow> bool \<Rightarrow> traffic_focus option \<Rightarrow> graph_flow list \<Rightarrow> traffic_match option" where
  "records_match selection focus_selected focus focused =
     (case selection of
        Some m \<Rightarrow> Some m
      | None \<Rightarrow>
          (case focus of
             Some fo \<Rightarrow>
               if \<not> focus_selected \<or> \<not> truthy_str (tfo_namespace fo) then None
               else let pod = List.find (\<lambda>e. Some (te_namespace e) = tfo_namespace fo \<and> te_workload e = Some (tfo_name fo)
                                  \<and> truthy_str (te_workload_kind e))
                                (concat (map (\<lambda>f. [af_source f, af_destination f]) focused))
                    in Some (MatchEndpoints [\<lparr>tr_namespace = tfo_namespace fo, tr_name = tfo_name fo, tr_kind = Some ''Workload'',
                         tr_workload_kind = Option.bind pod te_workload_kind\<rparr>])
           | None \<Rightarrow> None))"

definition sample_selection ::
    "(traffic_endpoint \<Rightarrow> traffic_endpoint) \<Rightarrow> traffic_flow list \<Rightarrow> traffic_selection option \<Rightarrow> traffic_pair list option
     \<Rightarrow> bool \<Rightarrow> bool \<Rightarrow> traffic_focus option \<Rightarrow> traffic_match option \<Rightarrow> traffic_flow list" where
  "sample_selection drawn raw selection pairs caller_oriented focus_selected focus match =
     (case selection of None \<Rightarrow> raw
      | Some sel \<Rightarrow>
          if focus_selected \<and> focus \<noteq> None \<and> match = None
          then filter (\<lambda>f. touches_focus (tf_source f) (the focus) \<or> touches_focus (tf_destination f) (the focus)) raw
          else if pairs \<noteq> None then filter (selected_edge_matcher pairs caller_oriented drawn) raw
          else let src = (\<lambda>f. Some (endpoint_id (drawn (tf_source f)))); dst = (\<lambda>f. Some (endpoint_id (drawn (tf_destination f))))
               in if ts_type sel = SelectNode \<and> truthy_str (ts_node_id sel)
                  then filter (\<lambda>f. src f = ts_node_id sel \<or> dst f = ts_node_id sel) raw
                  else if ts_type sel = SelectEdge \<and> truthy_str (ts_source_id sel) \<and> truthy_str (ts_dest_id sel)
                  then filter (\<lambda>f. (src f = ts_source_id sel \<and> dst f = ts_dest_id sel)
                                 \<or> (src f = ts_dest_id sel \<and> dst f = ts_source_id sel)) raw
                  else raw)"

section \<open>Merging loses nothing\<close>

interpretation services: keyed_accumulation "service_key d" "service_edge d" merge_service_edge "aggregate_step d" for d
  by unfold_locales (simp add: aggregate_step_def Let_def split: option.splits)

interpretation internet: keyed_accumulation internet_key internet_edge merge_internet_edge collapse_step
  by unfold_locales (simp add: collapse_step_def Let_def split: option.splits)

lemma collapse_split:
  "fold (\<lambda>f (m, others). if is_inbound f then (collapse_step f m, others) else (m, others @ [f])) fs (m, others)
     = (fold collapse_step (filter is_inbound fs) m, others @ filter (\<lambda>f. \<not> is_inbound f) fs)"
  by (induction fs arbitrary: m others) auto

lemma internet_collapsed_eq:
  "internet_collapsed_flows True fs =
     filter (\<lambda>f. \<not> is_inbound f) fs @ map snd (fold collapse_step (filter is_inbound fs) [])"
  using collapse_split [of fs "[]" "[]"] by (simp add: internet_collapsed_flows_def)

text \<open>A figure that both merges add up is the same in total before and after.\<close>

definition merges_add :: "(graph_flow \<Rightarrow> 'b::cancel_comm_monoid_add) \<Rightarrow> bool" where
  "merges_add m = ((\<forall>d f. m (service_edge d f) = m f) \<and> (\<forall>f e. m (merge_service_edge f e) = m e + m f)
     \<and> (\<forall>f. m (internet_edge f) = m f) \<and> (\<forall>f e. m (merge_internet_edge f e) = m e + m f))"

lemma sum_split: "sum_list (map m xs) = sum_list (map m (filter P xs)) + sum_list (map m (filter (\<lambda>x. \<not> P x) xs))"
  for m :: "'a \<Rightarrow> 'b::comm_monoid_add"
  by (induction xs) (auto simp: ac_simps)

lemma merged_total:
  assumes "merges_add m"
  shows "sum_list (map m (internet_collapsed_flows c (fst (processed_flows a d fs)))) = sum_list (map m fs)"
proof -
  have processed: "sum_list (map m (fst (processed_flows a d fs))) = sum_list (map m fs)"
  proof (cases a)
    case True
    have "sum_list (map m (map snd (fold (aggregate_step d) fs []))) = sum_list (map m fs)"
      by (rule services.filed_sum) (use assms in \<open>simp_all add: merges_add_def\<close>)
    then show ?thesis using True by (simp add: processed_flows_def aggregate_services_def Let_def)
  next
    case False
    then show ?thesis by (simp add: processed_flows_def Let_def)
  qed
  have collapsed: "sum_list (map m (internet_collapsed_flows c gs)) = sum_list (map m gs)" for gs
  proof (cases c)
    case True
    have "sum_list (map m (map snd (fold collapse_step (filter is_inbound gs) []))) = sum_list (map m (filter is_inbound gs))"
      by (rule internet.filed_sum) (use assms in \<open>simp_all add: merges_add_def\<close>)
    moreover have "internet_collapsed_flows c gs =
        filter (\<lambda>f. \<not> is_inbound f) gs @ map snd (fold collapse_step (filter is_inbound gs) [])"
      using True internet_collapsed_eq [of gs] by simp
    ultimately show ?thesis
      by (simp add: sum_split [of m gs is_inbound] ac_simps del: map_map)
  next
    case False
    then show ?thesis by (simp add: internet_collapsed_flows_def)
  qed
  show ?thesis using processed collapsed by simp
qed

lemma merges_add_figures:
  "merges_add af_connections" "merges_add af_bytes_sent" "merges_add af_bytes_recv" "merges_add af_flow_count"
  by (simp_all add: merges_add_def service_edge_def merge_service_edge_def internet_edge_def merge_internet_edge_def
      merge_raw_pairs_def Let_def)

lemma merges_add_pairs: "merges_add (\<lambda>f. mset (coalesce (af_raw_pairs f) []))"
  by (simp add: merges_add_def service_edge_def merge_service_edge_def internet_edge_def merge_internet_edge_def
      merge_raw_pairs_def Let_def)

lemma mset_raw_pairs: "mset (raw_pairs_of fs) = sum_list (map (\<lambda>f. mset (coalesce (af_raw_pairs f) [])) fs)"
  by (induction fs) (simp_all add: raw_pairs_of_def)

lemma input_figures:
  "map af_connections (graph_input_flows fs) = map af_connections fs"
  "map af_bytes_sent (graph_input_flows fs) = map af_bytes_sent fs"
  "map af_bytes_recv (graph_input_flows fs) = map af_bytes_recv fs"
  "map af_flow_count (graph_input_flows fs) = map af_flow_count fs"
  by (simp_all add: graph_input_flows_def)

lemma mset_input_pairs: "mset (raw_pairs_of (graph_input_flows fs)) = mset (map endpoint_pair fs)"
  by (induction fs) (simp_all add: raw_pairs_of_def graph_input_flows_def)

text \<open>
  C20. The edges drawn stand for all the traffic that passed the filters, whatever is merged: their
  connections, bytes and flow counts add up to those of the server's edges, and the server edges recorded
  behind them are exactly those, each once.
\<close>
theorem drawn_edges_account_for_all_traffic:
  "let drawn = internet_collapsed_flows c (fst (processed_flows a d (graph_input_flows fs)))
   in sum_list (map af_connections drawn) = sum_list (map af_connections fs)
    \<and> sum_list (map af_bytes_sent drawn) = sum_list (map af_bytes_sent fs)
    \<and> sum_list (map af_bytes_recv drawn) = sum_list (map af_bytes_recv fs)
    \<and> sum_list (map af_flow_count drawn) = sum_list (map af_flow_count fs)
    \<and> mset (raw_pairs_of drawn) = mset (map endpoint_pair fs)"
  unfolding Let_def mset_raw_pairs merged_total [OF merges_add_figures(1)] merged_total [OF merges_add_figures(2)]
    merged_total [OF merges_add_figures(3)] merged_total [OF merges_add_figures(4)] merged_total [OF merges_add_pairs]
    input_figures
  by (simp flip: mset_raw_pairs add: mset_input_pairs del: mset_map)

section \<open>The order the flows arrive in\<close>

definition with_ends :: "graph_flow \<Rightarrow> graph_flow \<Rightarrow> graph_flow" where
  \<comment> \<open>the figures of the second on the ends, port and pairs of the first\<close>
  "with_ends e f = f\<lparr>af_source := af_source e, af_destination := af_destination e, af_port := af_port e,
     af_raw_pairs := af_raw_pairs e\<rparr>"

lemma with_ends_simps [simp]:
  "af_source (with_ends e f) = af_source e"
  "af_destination (with_ends e f) = af_destination e"
  "af_port (with_ends e f) = af_port e"
  "af_raw_pairs (with_ends e f) = af_raw_pairs e"
  "af_flow_count (with_ends e f) = af_flow_count f"
  "af_bytes_sent (with_ends e f) = af_bytes_sent f"
  "af_bytes_recv (with_ends e f) = af_bytes_recv f"
  "af_connections (with_ends e f) = af_connections f"
  "af_direction_unknown (with_ends e f) = af_direction_unknown f"
  "af_l7_protocol (with_ends e f) = af_l7_protocol f"
  "af_request_count (with_ends e f) = af_request_count f"
  "af_error_count (with_ends e f) = af_error_count f"
  "af_request_rate (with_ends e f) = af_request_rate f"
  "af_error_rate (with_ends e f) = af_error_rate f"
  "af_avg_latency (with_ends e f) = af_avg_latency f"
  "af_latency_samples (with_ends e f) = af_latency_samples f"
  "af_p50 (with_ends e f) = af_p50 f"
  "af_p95 (with_ends e f) = af_p95 f"
  "af_p99 (with_ends e f) = af_p99 f"
  "af_status_counts (with_ends e f) = af_status_counts f"
  "af_http_methods (with_ends e f) = af_http_methods f"
  "af_dns_queries (with_ends e f) = af_dns_queries f"
  "af_verdict_counts (with_ends e f) = af_verdict_counts f"
  "af_drop_reasons (with_ends e f) = af_drop_reasons f"
  "af_latency_weight (with_ends e f) = af_latency_weight f"
  by (simp_all add: with_ends_def)

lemma latency_weight_of_with_ends [simp]: "latency_weight_of (with_ends e f) = latency_weight_of f"
  by (simp add: latency_weight_of_def split: option.split)

lemma merge_with_ends: "merge_flow_volume (with_ends e g) f = with_ends e (merge_flow_volume g f)"
  by (rule graph_flow.equality)
     (simp_all add: avg_latency_merge percentile_merge [of af_p50] percentile_merge [of af_p95] percentile_merge [of af_p99])

lemma service_merge_figures:
  "\<exists>ends. fold merge_service_edge fs (with_ends e g) = with_ends ends (merge_flows g fs)
     \<and> af_port ends = fold (\<lambda>f p. merged_edge_port p (af_port f)) fs (af_port e)"
proof (induction fs arbitrary: e g)
  case Nil
  then show ?case by auto
next
  case (Cons f fs)
  obtain e' where e': "merge_service_edge f (with_ends e g) = with_ends e' (merge_flow_volume g f)"
    and port: "af_port e' = merged_edge_port (af_port e) (af_port f)"
  proof
    let ?e' = "e\<lparr>af_port := merged_edge_port (af_port e) (af_port f),
                 af_raw_pairs := Some (coalesce (af_raw_pairs e) [] @ coalesce (af_raw_pairs f) [])\<rparr>"
    show "merge_service_edge f (with_ends e g) = with_ends ?e' (merge_flow_volume g f)"
      by (simp add: merge_service_edge_def merge_raw_pairs_def merge_with_ends Let_def)
    show "af_port ?e' = merged_edge_port (af_port e) (af_port f)" by simp
  qed
  show ?case using Cons.IH [of e' "merge_flow_volume g f"] by (simp add: e' port)
qed

lemma service_edge_with_ends: "\<exists>e. service_edge d f = with_ends e f \<and> af_port e = af_port f"
  by (rule exI [of _ "service_edge d f"]) (simp add: with_ends_def service_edge_def)

lemma same_figures_with_ends: "same_figures (with_ends a f) (with_ends b g) = same_figures f g"
  unfolding same_figures_def by simp

definition lowest_port :: "int list \<Rightarrow> int" where
  "lowest_port ps = (if \<forall>q \<in> set ps. q = 0 then 0 else Min {q \<in> set ps. q \<noteq> 0})"

lemma service_edge_of_group:
  assumes "list_all (\<lambda>f. 0 \<le> af_port f) (f # fs)"
  obtains ends where "fold merge_service_edge fs (service_edge d f) = with_ends ends (merge_flows f fs)"
    and "af_port ends = lowest_port (map af_port (f # fs))"
proof -
  obtain e where e: "service_edge d f = with_ends e f" "af_port e = af_port f" using service_edge_with_ends by blast
  obtain ends where ends: "fold merge_service_edge fs (with_ends e f) = with_ends ends (merge_flows f fs)"
    and port: "af_port ends = fold (\<lambda>f p. merged_edge_port p (af_port f)) fs (af_port e)"
    using service_merge_figures by blast
  have "fold (\<lambda>f p. merged_edge_port p (af_port f)) fs (af_port f)
      = fold (\<lambda>q r. merged_edge_port r q) (map af_port fs) (af_port f)"
    by (simp add: fold_map comp_def)
  also have "\<dots> = lowest_port (map af_port (f # fs))"
    using assms by (subst fold_merged_edge_port) (simp_all add: lowest_port_def list_all_iff)
  finally show ?thesis using that ends port e by simp
qed

lemma list_all_filter: "list_all P xs \<Longrightarrow> list_all P (filter Q xs)"
  by (simp add: list_all_iff)

text \<open>
  Which edge stands for a group of external services, its figures and the port it shows do not depend
  on the order the server lists its aggregation in: after a refresh that returns the same flows in another
  order, an edge is found under the same key with the same figures and port.
\<close>
theorem merged_edges_survive_a_refresh:
  assumes "list_all wire_flow fs" and "list_all (\<lambda>f. 0 \<le> af_port f) fs" and "mset fs = mset gs"
  shows "case (map_of (aggregate_services d fs) k, map_of (aggregate_services d gs) k) of
      (Some a, Some b) \<Rightarrow> same_figures a b \<and> af_port a = af_port b
    | (None, None) \<Rightarrow> True
    | _ \<Rightarrow> False"
proof -
  let ?F = "filter (\<lambda>f. service_key d f = k)"
  have perm: "mset (?F fs) = mset (?F gs)" using assms(3) by (simp add: mset_filter)
  show ?thesis
  proof (cases "?F fs")
    case Nil
    moreover from this have "?F gs = []" using perm by (metis mset_zero_iff)
    ultimately show ?thesis by (simp add: aggregate_services_def services.filed_entry)
  next
    case (Cons x xs)
    moreover from this obtain y ys where gs: "?F gs = y # ys" using perm by (cases "?F gs") auto
    have wire: "list_all wire_flow (x # xs)" and px: "list_all (\<lambda>f. 0 \<le> af_port f) (x # xs)"
      using list_all_filter [OF assms(1), of "\<lambda>f. service_key d f = k"]
        list_all_filter [OF assms(2), of "\<lambda>f. service_key d f = k"] unfolding Cons by blast+
    have xy: "mset (x # xs) = mset (y # ys)" using perm unfolding Cons gs .
    have py: "list_all (\<lambda>f. 0 \<le> af_port f) (y # ys)"
      using px mset_eq_setD [OF xy] by (simp only: list_all_iff)
    obtain a where a: "fold merge_service_edge xs (service_edge d x) = with_ends a (merge_flows x xs)"
      and pa: "af_port a = lowest_port (map af_port (x # xs))" using service_edge_of_group [OF px] .
    obtain b where b: "fold merge_service_edge ys (service_edge d y) = with_ends b (merge_flows y ys)"
      and pb: "af_port b = lowest_port (map af_port (y # ys))" using service_edge_of_group [OF py] .
    have "same_figures (merge_flows x xs) (merge_flows y ys)"
      using wire xy by (rule merge_order_figures)
    moreover have "lowest_port (map af_port (x # xs)) = lowest_port (map af_port (y # ys))"
      unfolding lowest_port_def set_map mset_eq_setD [OF xy] ..
    ultimately show ?thesis
      using Cons gs a b pa pb
      by (simp add: aggregate_services_def services.filed_entry same_figures_with_ends)
  qed
qed

theorem merged_edges_survive_a_refresh_witness:
  "case (map_of (aggregate_services True [sample_traffic_edge ''a'' 80, sample_traffic_edge ''b'' 8080]) (service_key True (sample_traffic_edge ''a'' 80)),
         map_of (aggregate_services True [sample_traffic_edge ''b'' 8080, sample_traffic_edge ''a'' 80]) (service_key True (sample_traffic_edge ''a'' 80))) of
      (Some a, Some b) \<Rightarrow> same_figures a b \<and> af_port a = af_port b
    | (None, None) \<Rightarrow> True
    | _ \<Rightarrow> False"
  by (rule merged_edges_survive_a_refresh)
     (simp_all add: sample_traffic_edge_def sample_flow_def wire_flow_def counts_ok_def endpoint_pair_def add_mset_commute)

section \<open>Filters and their controls\<close>

lemma keep_available_subset: "v \<in> set (keep_available selected available) \<Longrightarrow> v \<in> set selected \<and> v \<in> set available"
proof -
  have "set (fold (\<lambda>v kept. if v \<in> set offered then set_add v kept else kept) xs s) = set s \<union> (set xs \<inter> set offered)" for xs s and offered :: "string list"
    by (induction xs arbitrary: s) auto
  then show "v \<in> set (keep_available selected available) \<Longrightarrow> v \<in> set selected \<and> v \<in> set available"
    by (auto simp: keep_available_def Let_def split: if_splits)
qed

lemma set_capabilities_fold:
  "set (fold (\<lambda>f s. (let s = fold set_add (g f) s in if P f then set_add x s else s)) fs s)
     = set s \<union> (\<Union>f \<in> set fs. set (g f)) \<union> (if \<exists>f \<in> set fs. P f then {x} else {})"
  by (induction fs arbitrary: s) (auto simp: Let_def)

lemma set_fold_fold_add: "set (fold (\<lambda>f s. fold set_add (g f) s) fs s) = set s \<union> (\<Union>f \<in> set fs. set (g f))"
  by (induction fs arbitrary: s) auto

lemma set_fold_add_nonempty:
  "set (fold (\<lambda>m s. if m \<noteq> [] then set_add m s else s) ms s) = set s \<union> {m \<in> set ms. m \<noteq> []}"
  by (induction ms arbitrary: s) auto

lemma set_fold_nonempty:
  "set (fold (\<lambda>f s. fold (\<lambda>m s. if m \<noteq> [] then set_add m s else s) (g f) s) fs s)
     = set s \<union> (\<Union>f \<in> set fs. {m \<in> set (g f). m \<noteq> []})"
  by (induction fs arbitrary: s) (simp_all add: set_fold_add_nonempty Un_assoc)

lemma positive_keys_iff:
  assumes "distinct (map fst m)"
  shows "k \<in> set (positive_keys (Some m)) \<longleftrightarrow> coalesce (map_of m k) 0 > 0"
proof
  assume "k \<in> set (positive_keys (Some m))"
  then obtain v where "(k, v) \<in> set m" and "v > 0" by (auto simp: positive_keys_def)
  then show "coalesce (map_of m k) 0 > 0" using assms by simp
next
  assume pos: "coalesce (map_of m k) 0 > 0"
  then obtain v where v: "map_of m k = Some v" by (cases "map_of m k") auto
  then have "(k, v) \<in> set m" and "v > 0" using pos by (auto dest: map_of_SomeD)
  then show "k \<in> set (positive_keys (Some m))" by (force simp: positive_keys_def)
qed

lemma positive_key_bucket:
  assumes "\<And>m. cs = Some m \<Longrightarrow> distinct (map fst m)" and "k \<in> set (positive_keys cs)"
  shows "k \<in> set (buckets_from_counts cs)" and "coalesce (Option.bind cs (\<lambda>m. map_of m k)) 0 > 0"
proof -
  obtain m where m: "cs = Some m" using assms(2) by (cases cs) (auto simp: positive_keys_def)
  have pos: "coalesce (map_of m k) 0 > 0"
    using assms positive_keys_iff [of m k] by (simp add: m)
  then obtain v where "map_of m k = Some v" by (cases "map_of m k") auto
  then have "k \<in> fst ` set m" by (force dest: map_of_SomeD)
  then show "k \<in> set (buckets_from_counts cs)" using pos by (simp add: m buckets_from_counts_def)
  show "coalesce (Option.bind cs (\<lambda>m. map_of m k)) 0 > 0" using pos by (simp add: m)
qed

text \<open>
  A choice of statuses, methods or verdicts filters only while some flow of the data answers to it: a
  selection whose control has gone with its traffic does not go on hiding the map.
\<close>
theorem active_filter_matches_some_flow:
  fixes flows :: "graph_flow list"
  assumes "list_all counts_ok flows"
    and opts_def: "opts = active_options (l7_capabilities_of (Some flows)) is_rate_based unit chosen"
  shows "(to_status_ranges opts \<noteq> [] \<longrightarrow> (\<exists>f \<in> set flows. matches_status_ranges (to_status_ranges opts)
            (buckets_from_counts (af_status_counts f)) (coalesce (af_error_count f) 0 > 0)))
    \<and> (to_methods opts \<noteq> [] \<longrightarrow>
         (\<exists>f \<in> set flows. \<exists>m \<in> set (coalesce (af_http_methods f) []). m \<in> set (to_methods opts)))
    \<and> (to_verdicts opts \<noteq> [] \<longrightarrow> (\<exists>f \<in> set flows. \<exists>v \<in> set (to_verdicts opts). verdict_count_pos f v))"
proof (intro conjI impI)
  let ?caps = "l7_capabilities_of (Some flows)"
  have ok: "counts_ok f" if "f \<in> set flows" for f using assms(1) that by (simp add: list_all_iff)
  show "\<exists>f \<in> set flows. matches_status_ranges (to_status_ranges opts)
            (buckets_from_counts (af_status_counts f)) (coalesce (af_error_count f) 0 > 0)"
    if "to_status_ranges opts \<noteq> []"
  proof -
    from that obtain r where r: "r \<in> set (to_status_ranges opts)" by (meson list.set_sel(1))
    then have "r \<in> set (lc_status_ranges ?caps)"
      by (auto simp: opts_def active_options_def dest: keep_available_subset)
    then have "(\<exists>f \<in> set flows. r \<in> set (positive_keys (af_status_counts f)))
        \<or> r = ''5xx'' \<and> (\<exists>f \<in> set flows. coalesce (af_error_count f) 0 > 0)"
      by (simp only: l7_capabilities_of_def Let_def l7_capabilities.simps coalesce_simps set_filter mem_Collect_eq
            set_capabilities_fold [unfolded Let_def]) (auto split: if_splits)
    then show ?thesis
    proof
      assume "\<exists>f \<in> set flows. r \<in> set (positive_keys (af_status_counts f))"
      then obtain f where f: "f \<in> set flows" and "r \<in> set (positive_keys (af_status_counts f))" ..
      then have "r \<in> set (buckets_from_counts (af_status_counts f))"
        using ok [OF f] by (intro positive_key_bucket(1)) (auto simp: counts_ok_def)
      then show ?thesis using f r by (auto simp: matches_status_ranges_def)
    next
      assume "r = ''5xx'' \<and> (\<exists>f \<in> set flows. coalesce (af_error_count f) 0 > 0)"
      then show ?thesis using r by (auto simp: matches_status_ranges_def)
    qed
  qed
  show "\<exists>f \<in> set flows. \<exists>m \<in> set (coalesce (af_http_methods f) []). m \<in> set (to_methods opts)"
    if "to_methods opts \<noteq> []"
  proof -
    from that obtain m where m: "m \<in> set (to_methods opts)" by (meson list.set_sel(1))
    then have "m \<in> set (lc_methods ?caps)"
      by (auto simp: opts_def active_options_def dest: keep_available_subset)
    then have "\<exists>f \<in> set flows. m \<in> set (coalesce (af_http_methods f) [])"
      by (simp only: l7_capabilities_of_def Let_def l7_capabilities.simps coalesce_simps set_filter mem_Collect_eq
            set_fold_nonempty) auto
    then show ?thesis using m by blast
  qed
  show "\<exists>f \<in> set flows. \<exists>v \<in> set (to_verdicts opts). verdict_count_pos f v" if "to_verdicts opts \<noteq> []"
  proof -
    from that obtain v where v: "v \<in> set (to_verdicts opts)" by (meson list.set_sel(1))
    then have "v \<in> set (lc_verdicts ?caps)"
      by (auto simp: opts_def active_options_def dest: keep_available_subset)
    then have "v \<in> set (fold (\<lambda>f s. fold set_add (positive_keys (af_verdict_counts f)) s) flows [])"
      by (simp add: l7_capabilities_of_def Let_def verdict_choices_def split: if_splits) auto
    then obtain f where f: "f \<in> set flows" and "v \<in> set (positive_keys (af_verdict_counts f))"
      by (auto simp: set_fold_fold_add)
    then have "verdict_count_pos f v"
      unfolding verdict_count_pos_def using ok [OF f] by (intro positive_key_bucket(2)) (auto simp: counts_ok_def)
    then show ?thesis using f v by blast
  qed
qed

definition no_choices :: traffic_options where
  "no_choices = \<lparr>to_hide_system = False, to_hide_external = False, to_min_connections = 0, to_hidden_namespaces = [],
     to_addon_mode = AddonShow, to_l7_protocol = ''all'', to_methods = [], to_status_ranges = [], to_verdicts = [],
     to_dns_pattern = []\<rparr>"

theorem active_filter_matches_some_flow_witness:
  "\<exists>f \<in> set [sample_flow None None]. matches_status_ranges [''2xx''] (buckets_from_counts (af_status_counts f))
      (coalesce (af_error_count f) 0 > 0)"
proof -
  have "to_status_ranges (active_options (l7_capabilities_of (Some [sample_flow None None])) False UnitConnections
      (no_choices\<lparr>to_status_ranges := [''2xx'', ''5xx'']\<rparr>)) = [''2xx'']"
    by code_simp
  moreover have "list_all counts_ok [sample_flow None None]"
    by (simp add: counts_ok_def sample_flow_def)
  ultimately show ?thesis
    using active_filter_matches_some_flow [OF _ refl, of "[sample_flow None None]" False UnitConnections
      "no_choices\<lparr>to_status_ranges := [''2xx'', ''5xx'']\<rparr>"] by simp
qed

text \<open>
  Two things modelling showed. A workload whose name starts like a multicast address is taken for
  infrastructure and hidden with system traffic; and with addons grouped, the edges of the group are counted
  beside those they stand for, so more connections can be shown than there are.
\<close>

lemma workload_taken_for_multicast: "is_system_endpoint ''ff0-gateway'' ''shop'' ''Pod''"
  by code_simp

lemma more_shown_than_there_are:
  "let f = (sample_flow None None)\<lparr>af_source := endpoint_of ''Internet'' [] ''Internet'',
                                  af_destination := endpoint_of ''coredns'' ''dns'' ''Service''\<rparr>;
       stats = flow_stats_of (Some [f]) [f] [f] [f] (final_flows True [f])
   in fs_shown stats = 2 \<and> fs_total stats = 1"
  by code_simp

text \<open>A view that was drawn goes on being drawn as its size drifts, up to the ceiling.\<close>

lemma drawn_view_stays_drawn:
  assumes "edges > 0" and "score \<le> graph_draw_budget" and "score' \<le> graph_draw_ceiling"
  shows "\<not> too_large_to_draw score' (remember_drawn edges score view drawn) view"
  using assms by (simp add: too_large_to_draw_def remember_drawn_def)

end
