(* ===== verification/Reach_Trace.thy ===== *)
theory Reach_Trace
  imports Radar_Prelude
begin

text \<open>
  The trace of a resource's network path (\<open>packages/k8s-ui/src/components/trace/types.ts\<close>), with the
  fields that the client's rules read: hops with their findings, configuration and probes, the outcome of
  each route, and the verdict the server drew. A list that may be absent is an option where the code tells
  it apart from an empty one.
\<close>

datatype trace_verdict = VerdictHealthy | VerdictDegraded | VerdictBroken | VerdictUnknown

datatype finding_severity = SevCritical | SevWarning | SevInfo

record trace_ref =
  trf_kind :: string
  trf_namespace :: "string option"
  trf_name :: string

record trace_finding =
  fi_code :: string
  fi_severity :: finding_severity
  fi_message :: string
  fi_cause :: "string option"
  fi_resource :: "trace_ref option"

datatype probe_layer = LayerDns | LayerTcp | LayerTls | LayerHttp

datatype probe_vantage = VantageInCluster | VantageLocal

datatype probe_path = PathData | PathApiserver

datatype probe_tone = ProbeHealthy | ProbeReached | ProbeDegraded | ProbeUnhealthy

datatype probe_source = SourceRadar | SourceProbeJob

datatype address_scope = ScopePublic | ScopePrivate | ScopeMixed

record probe_result =
  pr_layer :: probe_layer
  pr_target :: string
  pr_vantage :: probe_vantage
  pr_path :: "probe_path option"
  pr_ok :: bool
  pr_tone :: "probe_tone option"
  pr_skipped :: bool
  pr_skip_class :: "string option"
  pr_reason :: "string option"
  pr_port :: "int option"
  pr_detail :: "string option"
  pr_error :: "string option"
  pr_address_scope :: "address_scope option"
  pr_source :: "probe_source option"
  pr_command :: "string option"

record port_map =
  pm_name :: "string option"
  pm_port :: int
  pm_target_port :: "string option"
  pm_protocol :: "string option"
  pm_app_protocol :: "string option"

record backend_ref =
  br_kind :: string
  br_name :: string
  br_namespace :: "string option"
  br_port :: "string option"

record route_rule =
  ru_hosts :: "string list"
  ru_paths :: "string list"
  ru_backends :: "backend_ref list"

record gateway_listener =
  gl_name :: "string option"
  gl_port :: int
  gl_protocol :: "string option"
  gl_hostname :: "string option"

record hop_config =
  hc_ports :: "port_map list"
  hc_service_type :: "string option"
  hc_cluster_ip :: "string option"
  hc_selector :: "(string \<times> string) list"
  hc_hostnames :: "string list"
  hc_rules :: "route_rule list"
  hc_tls_hosts :: "string list"
  hc_listeners :: "gateway_listener list"
  hc_addresses :: "string list"
  hc_pod_names :: "string list option"

text \<open>The keys of \<open>meta\<close> the client reads are fields of the hop.\<close>

record trace_hop =
  ho_resource :: trace_ref
  ho_edge :: string
  ho_findings :: "trace_finding list"
  ho_ready :: "int option"
  ho_selected :: "int option"
  ho_endpoint_source :: "string option"
  ho_selectorless :: bool
  ho_config :: "hop_config option"
  ho_probes :: "probe_result list"

datatype route_outcome = OutcomeVerified | OutcomeReached | OutcomeServerError | OutcomeUnreachable | OutcomeNotTested

datatype route_confidence = ConfReal | ConfIndirect | ConfNone

datatype failed_layer = FailedTcp | FailedTls | FailedHttp | FailedUpstream

record vantage_result =
  va_vantage :: probe_vantage
  va_path :: probe_path
  va_source :: "probe_source option"
  va_outcome :: route_outcome
  va_confidence :: "route_confidence option"

record route_result =
  ro_route :: string
  ro_target :: "string option"
  ro_outcome :: route_outcome
  ro_failed_layer :: "failed_layer option"
  ro_confidence :: "route_confidence option"
  ro_benign :: bool
  ro_by_vantage :: "vantage_result list"

datatype unknown_class = ByDesign | Investigate

record trace =
  tc_subject :: trace_ref
  tc_upstreams :: "trace_hop list"
  tc_downstream :: "trace_hop list"
  tc_verdict :: trace_verdict
  tc_reason :: "string option"
  tc_run_vantage :: "probe_vantage option"
  tc_unknown_class :: "unknown_class option"
  tc_skipped :: int
  tc_routes :: "route_result list"
  tc_not_tested :: nat
  tc_headline :: "string option"
  tc_diagnosis :: "string option"

end
