(* ===== verification/Reach_Verdict.thy ===== *)
theory Reach_Verdict
  imports Reach_Trace
begin

text \<open>
  The verdict line over a trace (\<open>packages/k8s-ui/src/components/trace/reachVerdict.ts\<close>): the state of the
  front door, the backend that is down, the verdict of the routes, and the floor under it. The rule of the
  file is honesty: a green mark needs positive proof, a red one a confirmed failure, and a static fault is
  never painted over.
\<close>

section \<open>Views\<close>

datatype verdict_icon = IconCheck | IconWarn | IconCross | IconNone

datatype status_tone = RtHealthy | RtNeutral | RtUnknown | RtDegraded | RtAlert | RtUnhealthy

record verdict_view =
  vv_icon :: verdict_icon
  vv_tone :: status_tone
  vv_text :: string
  vv_caveat :: "string option"
  vv_detail :: "string option"

definition verdict_line :: "verdict_icon \<Rightarrow> status_tone \<Rightarrow> string \<Rightarrow> verdict_view" where
  "verdict_line icon tone text = \<lparr>vv_icon = icon, vv_tone = tone, vv_text = text, vv_caveat = None, vv_detail = None\<rparr>"

definition via_api_server :: string where "via_api_server = ''via API server''"

definition template_if :: "string option \<Rightarrow> (string \<Rightarrow> string) \<Rightarrow> string" where
  \<comment> \<open>\<open>${x ? `...${x}...` : ''}\<close>\<close>
  "template_if x f = (if truthy_str x then f (the x) else [])"

section \<open>The front door\<close>

definition external_name_host :: "trace \<Rightarrow> string option" where
  "external_name_host t =
     map_option (\<lambda>h. trf_name (ho_resource h))
       (List.find (\<lambda>h. trf_kind (ho_resource h) = ''ExternalName'') (tc_downstream t))"

fun after_scheme :: "string \<Rightarrow> string option" where
  \<comment> \<open>what follows the first \<open>://\<close>\<close>
  "after_scheme [] = None"
| "after_scheme (c # cs) = (if prefix ''://'' (c # cs) then Some (drop 2 cs) else after_scheme cs)"

definition target_digit :: "char \<Rightarrow> bool" where
  "target_digit c = (c \<in> set ''0123456789'')"

definition strip_port :: "string \<Rightarrow> string" where
  \<comment> \<open>cut at the last colon where only digits follow it\<close>
  "strip_port s =
     (let tail = takeWhile (\<lambda>c. c \<noteq> CHR '':'') (rev s)
      in if CHR '':'' \<in> set s \<and> tail \<noteq> [] \<and> list_all target_digit tail
         then take (length s - length tail - 1) s else s)"

definition host_from_target :: "string \<Rightarrow> string" where
  "host_from_target target =
     (let s = (case after_scheme target of None \<Rightarrow> target | Some r \<Rightarrow> r)
      in strip_port (takeWhile (\<lambda>c. c \<noteq> CHR ''/'') s))"

datatype front_door_state =
    FdReached | FdPartial | FdPartialUntested | FdPartialReached | FdHttpReached | FdTransport | FdServerError
  | FdSkipped | FdFailed | FdNone

record front_door =
  fd_state :: front_door_state
  fd_host :: "string option"
  fd_detail :: "string option"
  fd_dns_skip :: bool

definition front_door_at :: "front_door_state \<Rightarrow> string option \<Rightarrow> string option \<Rightarrow> front_door" where
  "front_door_at st host detail = \<lparr>fd_state = st, fd_host = host, fd_detail = detail, fd_dns_skip = False\<rparr>"

definition host_of_probe :: "probe_result \<Rightarrow> string" where
  "host_of_probe p = host_from_target (pr_target p)"

definition is_front_door_kind :: "string \<Rightarrow> bool" where
  "is_front_door_kind k = (k = ''Ingress'' \<or> k = ''Gateway'')"

definition front_door_hop :: "trace \<Rightarrow> trace_hop option" where
  "front_door_hop t =
     coalesce_opt (List.find (\<lambda>h. trf_kind (ho_resource h) = trf_kind (tc_subject t)
                              \<and> trf_name (ho_resource h) = trf_name (tc_subject t)) (tc_downstream t))
       (case tc_downstream t of [] \<Rightarrow> None | h # _ \<Rightarrow> Some h)"

definition front_door_probes :: "trace \<Rightarrow> probe_result list" where
  "front_door_probes t = (case front_door_hop t of None \<Rightarrow> [] | Some h \<Rightarrow> ho_probes h)"

definition live_probes :: "probe_result list \<Rightarrow> probe_result list" where
  "live_probes ps = filter (\<lambda>p. \<not> pr_skipped p) ps"

definition http_answer :: "probe_tone \<Rightarrow> probe_result \<Rightarrow> bool" where
  "http_answer tone p = (pr_layer p = LayerHttp \<and> pr_ok p \<and> pr_tone p = Some tone)"

definition confirmed_front_door :: "probe_result list \<Rightarrow> probe_result \<Rightarrow> string option \<Rightarrow> front_door" where
  \<comment> \<open>a host answered 2xx: what its siblings did\<close>
  "confirmed_front_door probes ok host =
     (let live = live_probes probes
      in case List.find (\<lambda>p. \<not> pr_ok p \<and> host_of_probe p \<noteq> host_of_probe ok) live of
           Some failed \<Rightarrow> front_door_at FdPartial host (or_str (pr_detail failed) (pr_error failed))
         | None \<Rightarrow>
             (case List.find (http_answer ProbeDegraded) live of
                Some sibling \<Rightarrow> front_door_at FdPartial host (or_str (pr_detail sibling) (pr_error sibling))
              | None \<Rightarrow>
                  (let ok_host = host_of_probe ok
                   in case List.find (\<lambda>p. http_answer ProbeReached p \<and> host_of_probe p \<noteq> [] \<and> host_of_probe p \<noteq> ok_host) live of
                        Some sibling \<Rightarrow> front_door_at FdPartialReached (Some ok_host) (or_str (pr_detail sibling) (pr_error sibling))
                      | None \<Rightarrow>
                          (case List.find (\<lambda>p. pr_skipped p \<and> host_of_probe p \<noteq> [] \<and> host_of_probe p \<noteq> ok_host) probes of
                             Some other \<Rightarrow> front_door_at FdPartialUntested (Some ok_host) (pr_reason other)
                           | None \<Rightarrow> front_door_at FdReached host (pr_detail ok)))))"

definition unconfirmed_front_door :: "probe_result list \<Rightarrow> string option \<Rightarrow> front_door" where
  "unconfirmed_front_door probes host =
     (let live = live_probes probes
      in case List.find (http_answer ProbeDegraded) live of
           Some p \<Rightarrow> front_door_at FdServerError host (pr_detail p)
         | None \<Rightarrow>
             (case List.find (\<lambda>p. \<not> pr_ok p) live of
                Some failed \<Rightarrow> front_door_at FdFailed host (or_str (pr_detail failed) (pr_error failed))
              | None \<Rightarrow>
                  (case List.find (http_answer ProbeReached) live of
                     Some p \<Rightarrow> front_door_at FdHttpReached host (pr_detail p)
                   | None \<Rightarrow>
                       (case List.find (\<lambda>p. pr_ok p \<and> (pr_layer p = LayerTcp \<or> pr_layer p = LayerTls)) live of
                          Some p \<Rightarrow> front_door_at FdTransport host (pr_detail p)
                        | None \<Rightarrow>
                            (let dns_skip = List.find (\<lambda>p. pr_skipped p \<and> pr_layer p = LayerDns) probes;
                                 shown = coalesce_opt dns_skip (case probes of [] \<Rightarrow> None | p # _ \<Rightarrow> Some p)
                             in \<lparr>fd_state = FdSkipped, fd_host = host, fd_detail = Option.bind shown pr_reason,
                                 fd_dns_skip = (dns_skip \<noteq> None)\<rparr>)))))"

definition front_door_status :: "trace \<Rightarrow> front_door" where
  "front_door_status t =
     (if \<not> is_front_door_kind (trf_kind (tc_subject t)) then front_door_at FdNone None None
      else let probes = front_door_probes t
           in if probes = [] then front_door_at FdNone None None
              else let host = List.find (\<lambda>h. h \<noteq> []) (map host_of_probe probes)
                   in case List.find (http_answer ProbeHealthy) (live_probes probes) of
                        Some ok \<Rightarrow> confirmed_front_door probes ok host
                      | None \<Rightarrow> unconfirmed_front_door probes host)"

section \<open>Findings\<close>

definition is_pod_state_finding :: "trace_finding \<Rightarrow> bool" where
  "is_pod_state_finding f =
     (starts_with (fi_code f) ''problem:'' \<or> starts_with (fi_code f) ''pods:'' \<or> starts_with (fi_code f) ''svc:no-ready''
      \<or> (case fi_resource f of None \<Rightarrow> False | Some r \<Rightarrow> trf_kind r = ''Pod''))"

text \<open>
  A finding with the hop it hangs on: the code looks the hop up again by the identity of the finding.
\<close>

definition owned_findings :: "trace_hop list \<Rightarrow> (trace_hop \<times> trace_finding) list" where
  "owned_findings hops = concat (map (\<lambda>h. map (\<lambda>f. (h, f)) (ho_findings h)) hops)"

definition worst_finding :: "trace \<Rightarrow> (trace_hop \<times> trace_finding) option" where
  "worst_finding t =
     (let downstream = owned_findings (tc_downstream t);
          upstream = filter (\<lambda>x. \<not> starts_with (fi_code (snd x)) ''missing_ref:'') (owned_findings (tc_upstreams t));
          all = downstream @ upstream
      in coalesce_opt (List.find (\<lambda>x. fi_severity (snd x) = SevCritical) all)
           (List.find (\<lambda>x. fi_severity (snd x) = SevWarning) all))"

definition finding_line :: "trace_finding \<Rightarrow> string" where
  "finding_line f = (if is_pod_state_finding f \<and> truthy_str (fi_cause f) then the (fi_cause f) else fi_message f)"

definition worst_finding_message :: "trace \<Rightarrow> string option" where
  "worst_finding_message t = map_option (\<lambda>x. finding_line (snd x)) (worst_finding t)"

definition entry_controller_problem :: "trace \<Rightarrow> string option" where
  "entry_controller_problem t =
     (case tc_downstream t of [] \<Rightarrow> None
      | entry # _ \<Rightarrow>
          map_option fi_message
            (List.find (\<lambda>f. fi_code f = ''ingress:no-controller'' \<or> fi_code f = ''ingress:controller-unready'') (ho_findings entry)))"

section \<open>A backend that is down\<close>

record backend_down_rec =
  bd_reason :: string
  bd_raw :: "string option"
  bd_cause :: "string option"
  bd_ready :: int
  bd_selected :: int
  bd_transitional :: bool

definition unverifiable_backend :: "trace_hop \<Rightarrow> bool" where
  "unverifiable_backend h =
     (ho_endpoint_source h = Some ''unknown'' \<or> ho_selectorless h \<or> trf_kind (ho_resource h) = ''ExternalName''
      \<or> list_ex (\<lambda>f. starts_with (fi_code f) ''rbac:'' \<or> fi_code f = ''pods:lister-error''
                     \<or> fi_code f = ''svc:selectorless'' \<or> fi_code f = ''svc:external-name'') (ho_findings h))"

definition is_backend_hop :: "trace_hop \<Rightarrow> bool" where
  "is_backend_hop h = (case ho_selected h of None \<Rightarrow> False | Some n \<Rightarrow> n > 0)"

definition has_ready :: "trace_hop \<Rightarrow> bool" where
  "has_ready h = (case ho_ready h of None \<Rightarrow> False | Some n \<Rightarrow> n > 0)"

definition is_symptom :: "string \<Rightarrow> bool" where
  \<comment> \<open>\<open>svc:no-ready-endpoints\<close>, or \<open>/^problem:0\/[1-9]\d* selected pods ready$/\<close>\<close>
  "is_symptom code =
     (code = ''svc:no-ready-endpoints''
      \<or> (starts_with code ''problem:0/''
         \<and> (let rest = drop 10 code; digits = takeWhile target_digit rest
            in digits \<noteq> [] \<and> hd digits \<noteq> CHR ''0'' \<and> dropWhile target_digit rest = '' selected pods ready'')))"

definition is_pod_finding :: "trace_finding \<Rightarrow> bool" where
  "is_pod_finding f = (case fi_resource f of None \<Rightarrow> False | Some r \<Rightarrow> trf_kind r = ''Pod'')"

definition backend_problems :: "trace_hop list \<Rightarrow> (trace_hop \<times> trace_finding) list" where
  "backend_problems hops =
     filter (\<lambda>x. starts_with (fi_code (snd x)) ''problem:'' \<or> fi_code (snd x) = ''svc:no-ready-endpoints'') (owned_findings hops)"

definition real_cause :: "trace_hop list \<Rightarrow> (trace_hop \<times> trace_finding) option" where
  "real_cause hops =
     (let causes = filter (\<lambda>x. \<not> is_symptom (fi_code (snd x))) (backend_problems hops)
      in coalesce_opt (List.find (\<lambda>x. is_pod_finding (snd x) \<and> fi_severity (snd x) = SevCritical) causes)
           (List.find (\<lambda>x. fi_severity (snd x) = SevCritical) causes))"

definition plain_pod_reason :: "string option \<Rightarrow> string" where
  "plain_pod_reason raw =
     (if raw = Some ''CrashLoopBackOff'' then ''a backend container keeps crashing''
      else if raw = Some ''ImagePullBackOff'' \<or> raw = Some ''ErrImagePull'' \<or> raw = Some ''InvalidImageName''
      then ''the backend pod can'' @ [CHR 0x27] @ ''t pull its image''
      else if raw = Some ''OOMKilled'' then ''a backend container ran out of memory''
      else ''the backend pods aren'' @ [CHR 0x27] @ ''t ready'')"

definition without_problem :: "string \<Rightarrow> string" where
  \<comment> \<open>\<open>code.replace(/^problem:/, '')\<close>\<close>
  "without_problem code = (if starts_with code ''problem:'' then drop 8 code else code)"

definition backend_down :: "trace \<Rightarrow> backend_down_rec option" where
  "backend_down t =
     (let hops = tc_downstream t; backend_hops = filter is_backend_hop hops
      in if list_ex unverifiable_backend hops then None
         else if backend_hops = [] then None
         else if list_ex has_ready backend_hops then None
         else let cause = real_cause hops;
                  culprit = coalesce_opt cause
                    (List.find (\<lambda>x. fi_severity (snd x) = SevCritical) (backend_problems hops));
                  culprit_hop = (case culprit of
                      Some (h, f) \<Rightarrow> if is_backend_hop h then h else hd backend_hops
                    | None \<Rightarrow> hd backend_hops);
                  raw = map_option (\<lambda>x. without_problem (fi_code (snd x))) culprit
              in Some \<lparr>bd_reason = plain_pod_reason raw, bd_raw = raw, bd_cause = Option.bind culprit (\<lambda>x. fi_cause (snd x)),
                       bd_ready = coalesce (ho_ready culprit_hop) 0, bd_selected = coalesce (ho_selected culprit_hop) 0,
                       bd_transitional = (cause = None)\<rparr>)"

definition backend_down_view :: "backend_down_rec \<Rightarrow> verdict_view" where
  "backend_down_view bd =
     (let noun = (if bd_selected bd = 1 then ''pod'' else ''pods'')
      in if bd_transitional bd then
           (verdict_line IconWarn RtDegraded
              (''No ready backend yet - '' @ show_int (bd_ready bd) @ ''/'' @ show_int (bd_selected bd) @ '' '' @ noun @ '' ready''))
             \<lparr>vv_caveat := Some (''No failure detected on the pods - they may still be starting ''
                 @ ''(a fresh rollout or pending pods). Re-run once they settle.'')\<rparr>
         else let tag = template_if (bd_raw bd) (\<lambda>raw. if includes_str raw ''ready'' then [] else '' ('' @ raw @ '')'');
                  lead = or_else (bd_cause bd) (bd_reason bd @ tag)
              in (verdict_line IconCross RtUnhealthy (''No healthy backend - '' @ lead))
                   \<lparr>vv_caveat := Some (''The Service is wired to its workload (selector matches), so the break is in the pods, ''
                       @ ''not the network. '' @ show_int (bd_ready bd) @ ''/'' @ show_int (bd_selected bd) @ '' '' @ noun @ '' ready.''),
                    vv_detail := (if Some lead = bd_cause bd then None else bd_cause bd)\<rparr>)"

section \<open>Routes\<close>

definition ok_route :: "route_result \<Rightarrow> bool" where
  "ok_route r = (ro_outcome r = OutcomeVerified \<or> ro_outcome r = OutcomeReached)"

definition ok_count :: "trace \<Rightarrow> nat" where
  "ok_count t = length (filter ok_route (tc_routes t))"

definition unreachable_routes :: "trace \<Rightarrow> route_result list" where
  "unreachable_routes t = filter (\<lambda>r. ro_outcome r = OutcomeUnreachable \<and> \<not> ro_benign r) (tc_routes t)"

definition real_unreachable :: "trace \<Rightarrow> route_result list" where
  "real_unreachable t = filter (\<lambda>r. ro_confidence r \<noteq> Some ConfIndirect) (unreachable_routes t)"

definition any_indirect_unreachable :: "trace \<Rightarrow> bool" where
  "any_indirect_unreachable t = list_ex (\<lambda>r. ro_confidence r = Some ConfIndirect) (unreachable_routes t)"

definition any_server_error :: "trace \<Rightarrow> bool" where
  "any_server_error t = list_ex (\<lambda>r. ro_outcome r = OutcomeServerError) (tc_routes t)"

definition all_real :: "trace \<Rightarrow> bool" where
  "all_real t = (ok_count t > 0 \<and> list_all (\<lambda>r. \<not> ok_route r \<or> ro_confidence r = Some ConfReal) (tc_routes t))"

definition real_verified :: "trace \<Rightarrow> bool" where
  "real_verified t = list_ex (\<lambda>r. ro_confidence r = Some ConfReal \<and> ro_outcome r = OutcomeVerified) (tc_routes t)"

definition backend_reachable :: "trace \<Rightarrow> bool" where
  "backend_reachable t = (ok_count t > 0 \<and> real_unreachable t = [] \<and> \<not> any_server_error t)"

definition backend_untested :: "trace \<Rightarrow> bool" where
  "backend_untested t = (ok_count t = 0 \<and> real_unreachable t = [] \<and> \<not> any_server_error t)"

definition coverage_gap :: "trace \<Rightarrow> bool" where
  "coverage_gap t = (tc_skipped t > 0 \<or> tc_not_tested t > 0 \<or> any_indirect_unreachable t)"

definition backend_caveat :: "trace \<Rightarrow> string option" where
  "backend_caveat t =
     (if backend_reachable t
      then (if coverage_gap t then Some (''some backend routes weren'' @ rsq @ ''t confirmed - see the path below'') else None)
      else if backend_untested t then Some ''backend not separately tested - see the path below''
      else Some ''backend has issues - see the path below'')"

section \<open>The view of the front door\<close>

definition dash_host :: "string option \<Rightarrow> string" where
  "dash_host h = template_if h (\<lambda>s. '' - '' @ s)"

definition skipped_view :: "trace \<Rightarrow> front_door \<Rightarrow> verdict_view" where
  "skipped_view t fd =
     (let host = or_else (fd_host fd) ''the host'';
          how = (if real_verified t then ''confirmed by real in-cluster traffic''
                 else if all_real t then ''reached over real in-cluster traffic but not verified end-to-end''
                 else ''reached through the API server, not the real ingress path'');
          gap = (if fd_dns_skip fd then host @ '' didn'' @ rsq @ ''t resolve from where Radar ran''
                 else ''the entry path to '' @ host @ '' couldn'' @ rsq @ ''t be reached from where Radar ran'');
          fix = (if fd_dns_skip fd
                 then ''request '' @ host @ '' from a client that can resolve it (inside the cluster if it'' @ rsq @ ''s internal)''
                 else ''request '' @ host @ '' from a client on a network that can reach the ingress ''
                    @ ''(inside the cluster if it'' @ rsq @ ''s internal)'')
      in (verdict_line IconNone RtNeutral
            (if all_real t then ''Backend reachable - but the Ingress entry point wasn'' @ rsq @ ''t tested''
             else ''Backend answered '' @ via_api_server @ '' - but the Ingress entry point wasn'' @ rsq @ ''t tested''))
           \<lparr>vv_caveat := Some (gap @ '' - only the backend was checked.''),
            vv_detail := Some (gap @ '' (it may be internal to the cluster), so requests coming in through the Ingress weren''
               @ rsq @ ''t checked - only the backend, '' @ how @ ''. To confirm the entry works, '' @ fix @ ''.'')\<rparr>)"

definition front_door_view :: "trace \<Rightarrow> verdict_view option" where
  \<comment> \<open>the returns that depend on the front door; \<open>None\<close> falls through to the routes\<close>
  "front_door_view t =
     (let fd = front_door_status t; caveat = backend_caveat t;
          detail = (if backend_untested t then None else caveat)
      in case fd_state fd of
           FdReached \<Rightarrow>
             (let failed = (\<not> backend_reachable t \<and> \<not> backend_untested t)
              in Some ((verdict_line (if failed then IconWarn else IconCheck) (if failed then RtDegraded else RtHealthy)
                     (''Front door confirmed from outside'' @ dash_host (fd_detail fd)))\<lparr>vv_caveat := caveat\<rparr>))
         | FdPartial \<Rightarrow>
             Some ((verdict_line IconWarn RtDegraded
                (''Front door partially reachable - one host confirmed, another failed''
                   @ template_if (fd_detail fd) (\<lambda>d. '' ('' @ d @ '')'')))\<lparr>vv_caveat := caveat\<rparr>)
         | FdPartialUntested \<Rightarrow>
             Some ((verdict_line IconNone RtNeutral
                (''Front door: one host confirmed, another not tested from here'' @ dash_host (fd_host fd)))
                \<lparr>vv_caveat := Some (if truthy_str (fd_detail fd)
                     then ''another declared host wasn'' @ rsq @ ''t tested: '' @ the (fd_detail fd)
                     else ''another declared host wasn'' @ rsq @ ''t tested from this vantage''),
                 vv_detail := detail\<rparr>)
         | FdPartialReached \<Rightarrow>
             Some ((verdict_line IconNone RtNeutral
                (''Front door: one host confirmed, another reached but not verified'' @ dash_host (fd_host fd)))
                \<lparr>vv_caveat := Some (if truthy_str (fd_detail fd)
                     then ''another declared host returned '' @ the (fd_detail fd)
                        @ '' (3xx/4xx) - reachable, but not verified end-to-end''
                     else ''another declared host returned an HTTP 3xx/4xx - reachable, but not verified end-to-end''),
                 vv_detail := detail\<rparr>)
         | FdServerError \<Rightarrow>
             Some (verdict_line IconWarn RtDegraded
                (''Front door reached but couldn'' @ [CHR 0x27] @ ''t reach the backend'' @ template_if (fd_host fd) (\<lambda>h. '', '' @ h)
                   @ template_if (fd_detail fd) (\<lambda>d. '' ('' @ d @ '')'')))
         | FdHttpReached \<Rightarrow>
             Some ((verdict_line IconNone RtNeutral
                (''Front door reached - HTTP responded, route not verified'' @ dash_host (fd_host fd)))
                \<lparr>vv_caveat := Some (if truthy_str (fd_detail fd)
                     then ''the front door returned '' @ the (fd_detail fd) @ '' (3xx/4xx) - reachable, but the route wasn''
                        @ rsq @ ''t verified end-to-end''
                     else ''the front door returned an HTTP 3xx/4xx - reachable, but the route wasn'' @ rsq @ ''t verified end-to-end''),
                 vv_detail := detail\<rparr>)
         | FdTransport \<Rightarrow>
             Some ((verdict_line IconNone RtNeutral
                (''Front door reachable (transport only) - not verified'' @ dash_host (fd_host fd)))
                \<lparr>vv_caveat := Some (''a TCP/TLS connect succeeded but the HTTP response wasn'' @ rsq @ ''t checked''),
                 vv_detail := detail\<rparr>)
         | FdFailed \<Rightarrow>
             Some (verdict_line IconCross RtUnhealthy
                (''Front door unreachable'' @ dash_host (fd_host fd) @ template_if (fd_detail fd) (\<lambda>d. '' ('' @ d @ '')'')))
         | FdSkipped \<Rightarrow> if backend_reachable t then Some (skipped_view t fd) else None
         | FdNone \<Rightarrow> None)"

section \<open>The verdict of the routes\<close>

definition is_benign_only :: "trace \<Rightarrow> bool" where
  "is_benign_only t = (tc_routes t \<noteq> [] \<and> ok_count t = 0 \<and> unreachable_routes t = [] \<and> \<not> any_server_error t
     \<and> list_ex ro_benign (tc_routes t))"

definition is_broken :: "trace \<Rightarrow> bool" where
  "is_broken t = (\<not> any_server_error t
     \<and> (tc_verdict t = VerdictBroken \<or> (unreachable_routes t \<noteq> [] \<and> ok_count t = 0)))"

definition only_indirect_unreachable :: "trace \<Rightarrow> bool" where
  "only_indirect_unreachable t = (unreachable_routes t \<noteq> []
     \<and> list_all (\<lambda>r. ro_confidence r = Some ConfIndirect) (unreachable_routes t))"

definition broken_view :: "trace \<Rightarrow> verdict_view" where
  "broken_view t =
     (if only_indirect_unreachable t \<and> tc_verdict t \<noteq> VerdictBroken
      then verdict_line IconNone RtUnknown
             (or_else (tc_headline t) ''Unreachable via API server - real path not confirmed'')
      else verdict_line IconCross RtUnhealthy
             (or_else (or_str (tc_reason t) (tc_headline t))
                (''Unreachable - traffic can'' @ rsq @ ''t reach the backend'')))"

definition degraded_fallback :: "trace \<Rightarrow> string" where
  "degraded_fallback t =
     (let degraded = filter (\<lambda>r. ro_outcome r = OutcomeServerError) (tc_routes t);
          tls = list_ex (\<lambda>r. ro_failed_layer r = Some FailedTls) degraded;
          upstream = list_ex (\<lambda>r. ro_failed_layer r = Some FailedUpstream) degraded
      in if tls \<and> \<not> upstream
         then ''Reached, but the TLS handshake failed (certificate problem) - check the certificate.''
         else if upstream \<and> \<not> tls
         then ''Reached the front door, but it couldn'' @ [CHR 0x27]
                @ ''t reach its backend (502/504) - the upstream is unavailable.''
         else ''Reached, but a route is degraded (a TLS certificate or a front-door 502/504) - see the detail.'')"

definition reachable_view :: "trace \<Rightarrow> verdict_view" where
  "reachable_view t =
     (let ext = external_name_host t
      in if \<not> all_real t then
           (if truthy_str ext
            then (verdict_line IconNone RtNeutral (''Reached '' @ the ext @ '' directly from Radar''))
                   \<lparr>vv_caveat := Some ''in-cluster clients may resolve or route it differently - not confirmed from inside the cluster''\<rparr>
            else (verdict_line IconNone RtNeutral
                    (''Backend answered '' @ via_api_server @ '' - the real network path isn'' @ rsq @ ''t confirmed''))
                   \<lparr>vv_caveat := Some (''control-plane path: bypasses kube-proxy + NetworkPolicy - ''
                       @ ''run the in-cluster test to confirm the real data path'')\<rparr>)
         else if \<not> real_verified t then
           (verdict_line IconNone RtNeutral (or_else (tc_headline t) ''Reached - route not verified''))
             \<lparr>vv_caveat := Some (''the route responded but wasn'' @ rsq @ ''t verified end-to-end - see the path below'')\<rparr>
         else if coverage_gap t then
           (verdict_line IconNone RtNeutral (or_else (tc_headline t) ''Reachable - some routes not yet tested''))
             \<lparr>vv_caveat := Some (''some routes weren'' @ rsq @ ''t tested - see the path below'')\<rparr>
         else verdict_line IconCheck RtHealthy (or_else (tc_headline t) ''Reachable - confirmed from inside the cluster''))"

definition unprobed_view :: "trace \<Rightarrow> bool \<Rightarrow> verdict_view" where
  "unprobed_view t probed =
     (if tc_verdict t = VerdictDegraded then
        verdict_line IconWarn RtDegraded
          (or_else (or_str (or_str (worst_finding_message t) (tc_diagnosis t)) (tc_headline t))
             ''Configuration issue - see the path below'')
      else if probed then
        (verdict_line IconNone RtNeutral ''Tested - no route could be actively probed from here'')
          \<lparr>vv_caveat := Some ''the config looks valid; nothing was reachable to test from this vantage''\<rparr>
      else (verdict_line IconNone RtNeutral ''Config valid - not yet tested'')
             \<lparr>vv_caveat := Some ''run the test to check live reachability''\<rparr>)"

definition routes_view :: "trace \<Rightarrow> bool \<Rightarrow> verdict_view" where
  "routes_view t probed =
     (if is_benign_only t then
        (verdict_line IconWarn RtDegraded (or_else (tc_headline t) ''No running backends (scaled to 0)''))
          \<lparr>vv_caveat := Some ''the backing workload is intentionally scaled to 0 - nothing to reach''\<rparr>
      else if is_broken t then broken_view t
      else if real_unreachable t \<noteq> [] \<and> ok_count t > 0 then
        verdict_line IconWarn RtDegraded
          (or_else (tc_headline t)
             (show_nat (ok_count t) @ '' of '' @ show_nat (length (tc_routes t)) @ '' routes reachable '' @ bytes_middot @ '' ''
                @ show_nat (length (real_unreachable t)) @ '' unreachable''))
      else if any_server_error t then
        verdict_line IconWarn RtDegraded (or_else (tc_headline t) (degraded_fallback t))
      else if ok_count t > 0 then reachable_view t
      else if tc_verdict t = VerdictUnknown then
        verdict_line IconNone RtUnknown
          (or_else (or_str (tc_reason t) (tc_headline t)) (''Couldn'' @ rsq @ ''t determine reachability''))
      else if tc_routes t = [] then unprobed_view t probed
      else verdict_line IconNone RtNeutral ''Config looks healthy - not confirmed from this vantage'')"

definition reach_verdict_base :: "trace \<Rightarrow> bool \<Rightarrow> verdict_view" where
  "reach_verdict_base t probed =
     (let ext = external_name_host t
      in if truthy_str ext \<and> \<not> probed \<and> tc_routes t = []
         then (verdict_line IconNone RtNeutral (''Resolves to '' @ the ext @ '' - external DNS alias''))
                \<lparr>vv_caveat := Some ''run the test to check its reachability''\<rparr>
         else if truthy_str (entry_controller_problem t)
         then verdict_line IconWarn RtDegraded (the (entry_controller_problem t))
         else case backend_down t of
                Some bd \<Rightarrow> backend_down_view bd
              | None \<Rightarrow>
                  (case front_door_view t of
                     Some v \<Rightarrow> v
                   | None \<Rightarrow> routes_view t probed))"

section \<open>The floor\<close>

fun tone_rank :: "status_tone \<Rightarrow> nat" where
  "tone_rank RtHealthy = 0"
| "tone_rank RtNeutral = 1"
| "tone_rank RtUnknown = 1"
| "tone_rank RtDegraded = 2"
| "tone_rank RtAlert = 3"
| "tone_rank RtUnhealthy = 4"

definition verdict_floor :: "trace \<Rightarrow> status_tone option" where
  "verdict_floor t =
     (let floor = (case tc_verdict t of VerdictBroken \<Rightarrow> Some RtUnhealthy | VerdictDegraded \<Rightarrow> Some RtDegraded | _ \<Rightarrow> None)
      in if floor = Some RtUnhealthy \<and> (case backend_down t of None \<Rightarrow> False | Some bd \<Rightarrow> bd_transitional bd)
         then Some RtDegraded else floor)"

definition raise_to_floor :: "trace \<Rightarrow> verdict_view \<Rightarrow> verdict_view" where
  "raise_to_floor t view =
     (case verdict_floor t of
        None \<Rightarrow> view
      | Some floor \<Rightarrow>
          if tone_rank (vv_tone view) < tone_rank floor
          then let why = worst_finding_message t; icon = (if floor = RtUnhealthy then IconCross else IconWarn)
               in if truthy_str why \<and> the why \<noteq> vv_text view
                  then view\<lparr>vv_tone := floor, vv_icon := icon, vv_text := the why, vv_caveat := Some (vv_text view),
                            vv_detail := coalesce_opt (vv_caveat view) (vv_detail view)\<rparr>
                  else view\<lparr>vv_tone := floor, vv_icon := icon, vv_caveat := coalesce_opt why (vv_caveat view)\<rparr>
          else view)"

definition word_char :: "char \<Rightarrow> bool" where
  \<comment> \<open>\<open>\w\<close>\<close>
  "word_char c = (let n = of_char c :: nat in (48 \<le> n \<and> n \<le> 57) \<or> (65 \<le> n \<and> n \<le> 90) \<or> (97 \<le> n \<and> n \<le> 122) \<or> n = 95)"

definition count_here :: "string \<Rightarrow> bool" where
  \<comment> \<open>\<open>\d+\s*(?:of|\/)\s*\d+\b\<close> at the start of a string; a run of digits ends where no digit follows\<close>
  "count_here s =
     (let rest = trim_start (dropWhile target_digit s);
          after = (if prefix ''of'' rest then Some (drop 2 rest) else if prefix ''/'' rest then Some (drop 1 rest) else None)
      in takeWhile target_digit s \<noteq> []
         \<and> (case after of None \<Rightarrow> False
             | Some r \<Rightarrow>
                 let m = trim_start r
                 in takeWhile target_digit m \<noteq> []
                    \<and> (case dropWhile target_digit m of [] \<Rightarrow> True | c # _ \<Rightarrow> \<not> word_char c)))"

fun count_in_text :: "bool \<Rightarrow> string \<Rightarrow> bool" where
  \<comment> \<open>the same anywhere after a word boundary; the flag says whether a word character stands before\<close>
  "count_in_text inside [] = False"
| "count_in_text inside (c # cs) = ((\<not> inside \<and> count_here (c # cs)) \<or> count_in_text (word_char c) cs)"

definition already_counted :: "string \<Rightarrow> bool" where
  "already_counted text =
     (includes_str (to_lower text) ''pod ready'' \<or> includes_str (to_lower text) ''pods ready'' \<or> count_in_text False text)"

definition selected_of :: "trace_hop \<Rightarrow> int option" where
  "selected_of h =
     (case ho_selected h of
        Some n \<Rightarrow> Some n
      | None \<Rightarrow> map_option (\<lambda>ps. int (length ps)) (Option.bind (ho_config h) hc_pod_names))"

definition with_pod_count :: "trace \<Rightarrow> verdict_view \<Rightarrow> verdict_view" where
  "with_pod_count t view =
     (case worst_finding t of
        None \<Rightarrow> view
      | Some (h, f) \<Rightarrow>
          let pod_led = (is_pod_state_finding f \<and> Some (vv_text view) = worst_finding_message t)
          in case (ho_ready h, selected_of h) of
               (Some ready, Some selected) \<Rightarrow>
                 if pod_led \<and> ready > 0 \<and> ready < selected \<and> \<not> already_counted (vv_text view)
                 then view\<lparr>vv_text := show_int ready @ '' of '' @ show_int selected @ '' pods ready - '' @ vv_text view\<rparr>
                 else view
             | _ \<Rightarrow> view)"

definition reach_verdict :: "trace \<Rightarrow> bool \<Rightarrow> verdict_view" where
  "reach_verdict t probed = with_pod_count t (raise_to_floor t (reach_verdict_base t probed))"

section \<open>Marks\<close>

text \<open>The icon and tone of a view, apart from its words: what the honesty rules are about.\<close>

definition mark :: "verdict_view \<Rightarrow> verdict_icon \<times> status_tone" where
  "mark v = (vv_icon v, vv_tone v)"

abbreviation "green \<equiv> (IconCheck, RtHealthy)"
abbreviation "amber \<equiv> (IconWarn, RtDegraded)"
abbreviation "red \<equiv> (IconCross, RtUnhealthy)"
abbreviation "grey \<equiv> (IconNone, RtNeutral)"
abbreviation "unclear \<equiv> (IconNone, RtUnknown)"

lemma mark_line: "mark (verdict_line i tn x) = (i, tn)"
  by (simp add: mark_def verdict_line_def)

lemma mark_update:
  "mark (v\<lparr>vv_caveat := c\<rparr>) = mark v"
  "mark (v\<lparr>vv_detail := d\<rparr>) = mark v"
  "mark (v\<lparr>vv_text := x\<rparr>) = mark v"
  by (simp_all add: mark_def)

lemma mark_if: "mark (if b then v else w) = (if b then mark v else mark w)"
  by simp

lemmas marks = mark_line mark_update mark_if Let_def if_cancel

lemma mark_backend_down: "mark (backend_down_view bd) = (if bd_transitional bd then amber else red)"
  by (simp only: backend_down_view_def marks)

lemma mark_skipped: "mark (skipped_view t fd) = grey"
  by (simp only: skipped_view_def marks)

lemma mark_broken:
  "mark (broken_view t) = (if only_indirect_unreachable t \<and> tc_verdict t \<noteq> VerdictBroken then unclear else red)"
  by (simp only: broken_view_def marks)

lemma mark_reachable:
  "mark (reachable_view t) = (if all_real t \<and> real_verified t \<and> \<not> coverage_gap t then green else grey)"
  by (cases "all_real t"; cases "real_verified t"; cases "coverage_gap t")
     (simp_all only: reachable_view_def marks if_True if_False simp_thms)

lemma mark_unprobed: "mark (unprobed_view t probed) = (if tc_verdict t = VerdictDegraded then amber else grey)"
  by (simp only: unprobed_view_def marks)

lemma mark_routes:
  "mark (routes_view t probed) =
     (if is_benign_only t then amber
      else if is_broken t then mark (broken_view t)
      else if real_unreachable t \<noteq> [] \<and> ok_count t > 0 then amber
      else if any_server_error t then amber
      else if ok_count t > 0 then mark (reachable_view t)
      else if tc_verdict t = VerdictUnknown then unclear
      else if tc_routes t = [] then mark (unprobed_view t probed)
      else grey)"
  by (simp only: routes_view_def marks)

lemma mark_front_door:
  "map_option mark (front_door_view t) =
     (case fd_state (front_door_status t) of
        FdReached \<Rightarrow> Some (if \<not> backend_reachable t \<and> \<not> backend_untested t then amber else green)
      | FdPartial \<Rightarrow> Some amber
      | FdPartialUntested \<Rightarrow> Some grey
      | FdPartialReached \<Rightarrow> Some grey
      | FdServerError \<Rightarrow> Some amber
      | FdHttpReached \<Rightarrow> Some grey
      | FdTransport \<Rightarrow> Some grey
      | FdFailed \<Rightarrow> Some red
      | FdSkipped \<Rightarrow> if backend_reachable t then Some grey else None
      | FdNone \<Rightarrow> None)"
  by (cases "fd_state (front_door_status t)"; cases "\<not> backend_reachable t \<and> \<not> backend_untested t"; cases "backend_reachable t")
     (simp_all only: front_door_view_def front_door_state.simps option.map marks mark_skipped simp_thms if_True if_False)

lemma mark_base:
  "mark (reach_verdict_base t probed) =
     (if truthy_str (external_name_host t) \<and> \<not> probed \<and> tc_routes t = [] then grey
      else if truthy_str (entry_controller_problem t) then amber
      else case backend_down t of
             Some bd \<Rightarrow> mark (backend_down_view bd)
           | None \<Rightarrow> (case map_option mark (front_door_view t) of Some m \<Rightarrow> m | None \<Rightarrow> mark (routes_view t probed)))"
  by (cases "backend_down t"; cases "front_door_view t")
     (simp_all only: reach_verdict_base_def marks option.simps)

lemma mark_with_count: "mark (with_pod_count t v) = mark v"
  by (auto simp: with_pod_count_def mark_update Let_def split: option.splits)

lemma mark_floor:
  "mark (raise_to_floor t v) =
     (case verdict_floor t of
        None \<Rightarrow> mark v
      | Some floor \<Rightarrow> if tone_rank (vv_tone v) < tone_rank floor
                     then (if floor = RtUnhealthy then IconCross else IconWarn, floor) else mark v)"
  by (simp add: raise_to_floor_def mark_def Let_def split: option.splits)

lemma verdict_floor_cases:
  "verdict_floor t = None \<and> tc_verdict t \<notin> {VerdictBroken, VerdictDegraded}
   \<or> verdict_floor t = Some RtDegraded \<and> tc_verdict t \<in> {VerdictBroken, VerdictDegraded}
   \<or> verdict_floor t = Some RtUnhealthy \<and> tc_verdict t = VerdictBroken
     \<and> (\<forall>bd. backend_down t = Some bd \<longrightarrow> \<not> bd_transitional bd)"
  by (cases "tc_verdict t"; cases "backend_down t") (auto simp: verdict_floor_def)

lemma mark_parts: "fst (mark v) = vv_icon v" "snd (mark v) = vv_tone v"
  by (simp_all add: mark_def)

lemma mark_verdict:
  "mark (reach_verdict t probed) =
     (case verdict_floor t of
        None \<Rightarrow> mark (reach_verdict_base t probed)
      | Some floor \<Rightarrow> if tone_rank (snd (mark (reach_verdict_base t probed))) < tone_rank floor
                     then (if floor = RtUnhealthy then IconCross else IconWarn, floor)
                     else mark (reach_verdict_base t probed))"
  by (simp only: reach_verdict_def mark_with_count mark_floor mark_parts)

definition base_marks :: "(verdict_icon \<times> status_tone) set" where
  "base_marks = {green, amber, red, grey, unclear}"

lemma base_marks_mem: "green \<in> base_marks" "amber \<in> base_marks" "red \<in> base_marks" "grey \<in> base_marks" "unclear \<in> base_marks"
  by (simp_all add: base_marks_def)

lemma base_marks_if: "(if b then m else m') \<in> base_marks \<longleftrightarrow> (if b then m \<in> base_marks else m' \<in> base_marks)"
  by simp

lemma routes_mark_cases: "mark (routes_view t probed) \<in> base_marks"
  by (simp only: mark_routes mark_broken mark_reachable mark_unprobed base_marks_if base_marks_mem if_cancel simp_thms)

lemma backend_down_mark_cases: "mark (backend_down_view bd) \<in> base_marks"
  by (simp only: mark_backend_down base_marks_if base_marks_mem if_cancel)

lemma front_door_mark_cases: "map_option mark (front_door_view t) = Some m \<Longrightarrow> m \<in> base_marks"
  unfolding mark_front_door
  by (cases "fd_state (front_door_status t)") (auto simp: base_marks_mem split: if_splits)

lemma base_mark_cases: "mark (reach_verdict_base t probed) \<in> base_marks"
proof (cases "backend_down t")
  case (Some bd)
  then show ?thesis
    by (simp only: mark_base option.case base_marks_if base_marks_mem backend_down_mark_cases if_cancel simp_thms)
next
  case None
  show ?thesis
  proof (cases "map_option mark (front_door_view t)")
    case (Some m)
    then show ?thesis using front_door_mark_cases [OF Some]
      by (simp only: mark_base None option.case base_marks_if base_marks_mem if_cancel simp_thms)
  next
    case no_view: None
    show ?thesis
      by (simp only: mark_base None no_view option.case base_marks_if base_marks_mem routes_mark_cases if_cancel simp_thms)
  qed
qed

fun icon_of :: "status_tone \<Rightarrow> verdict_icon" where
  "icon_of RtHealthy = IconCheck"
| "icon_of RtNeutral = IconNone"
| "icon_of RtUnknown = IconNone"
| "icon_of RtDegraded = IconWarn"
| "icon_of RtAlert = IconWarn"
| "icon_of RtUnhealthy = IconCross"

text \<open>
  C15. The icon of the banner is the one of its tone, on every path through the rules: no view shows a check
  in an alarming tone or an alarm in a calm one.
\<close>
theorem verdict_icon_fits_tone:
  "vv_icon (reach_verdict t probed) = icon_of (vv_tone (reach_verdict t probed))"
proof -
  have "fst (mark (reach_verdict t probed)) = icon_of (snd (mark (reach_verdict t probed)))"
    using base_mark_cases [of t probed] verdict_floor_cases [of t]
    by (auto simp: mark_verdict base_marks_def)
  then show ?thesis by (simp add: mark_def)
qed

text \<open>
  A static fault is never painted over: the tone is at least as severe as the static verdict asks for,
  and the probes can only make it worse. What a broken verdict asks for is lowered only where the backend
  may be starting.
\<close>
theorem verdict_not_below_its_floor:
  "(case verdict_floor t of None \<Rightarrow> 0 | Some floor \<Rightarrow> tone_rank floor) \<le> tone_rank (vv_tone (reach_verdict t probed))
   \<and> tone_rank (vv_tone (reach_verdict_base t probed)) \<le> tone_rank (vv_tone (reach_verdict t probed))"
proof -
  have "tone_rank (vv_tone v) = tone_rank (snd (mark v))" for v by (simp add: mark_def)
  then show ?thesis by (auto simp: mark_verdict split: option.splits)
qed

section \<open>What a mark stands for\<close>

lemma find_some_live: "List.find P (live_probes ps) = Some p \<Longrightarrow> p \<in> set ps \<and> \<not> pr_skipped p \<and> P p"
  by (auto simp: live_probes_def dest: find_some_in)

lemma find_none_live: "List.find P (live_probes ps) = None \<Longrightarrow> p \<in> set ps \<Longrightarrow> \<not> pr_skipped p \<Longrightarrow> \<not> P p"
  by (auto simp: live_probes_def find_none_iff)




lemma confirmed_states:
  "fd_state (confirmed_front_door ps ok host) \<in> {FdPartial, FdPartialReached, FdPartialUntested, FdReached}"
  by (auto simp: confirmed_front_door_def front_door_at_def Let_def split: option.splits)

text \<open>Which of the two functions decided, read off the state they leave.\<close>

lemma front_door_status_cases:
  obtains (absent) "fd_state (front_door_status t) = FdNone"
  | (confirmed) ok host where "is_front_door_kind (trf_kind (tc_subject t))"
      "List.find (http_answer ProbeHealthy) (live_probes (front_door_probes t)) = Some ok"
      "front_door_status t = confirmed_front_door (front_door_probes t) ok host"
  | (unconfirmed) host where "is_front_door_kind (trf_kind (tc_subject t))"
      "List.find (http_answer ProbeHealthy) (live_probes (front_door_probes t)) = None"
      "front_door_status t = unconfirmed_front_door (front_door_probes t) host"
proof (cases "is_front_door_kind (trf_kind (tc_subject t)) \<and> front_door_probes t \<noteq> []")
  case False
  then show thesis using absent by (auto simp: front_door_status_def front_door_at_def Let_def)
next
  case True
  then show thesis
    using confirmed unconfirmed
    by (cases "List.find (http_answer ProbeHealthy) (live_probes (front_door_probes t))")
       (auto simp: front_door_status_def Let_def)
qed


lemma unconfirmed_failed:
  assumes "fd_state (unconfirmed_front_door ps host) = FdFailed"
  shows "\<exists>p \<in> set ps. \<not> pr_skipped p \<and> \<not> pr_ok p"
proof (cases "List.find (\<lambda>p. \<not> pr_ok p) (live_probes ps)")
  case (Some p)
  then show ?thesis using find_some_live by blast
next
  case None
  then show ?thesis
    using assms by (simp add: unconfirmed_front_door_def front_door_at_def Let_def split: option.splits)
qed

lemma front_door_failed:
  assumes "fd_state (front_door_status t) = FdFailed"
  shows "is_front_door_kind (trf_kind (tc_subject t))
    \<and> (\<exists>p \<in> set (front_door_probes t). \<not> pr_skipped p \<and> \<not> pr_ok p)
    \<and> (\<forall>p \<in> set (front_door_probes t). \<not> pr_skipped p \<longrightarrow> \<not> http_answer ProbeHealthy p)"
proof (cases t rule: front_door_status_cases)
  case absent
  then show ?thesis using assms by simp
next
  case (confirmed ok host)
  then show ?thesis using confirmed_states [of "front_door_probes t" ok host] assms by simp
next
  case (unconfirmed host)
  then show ?thesis
    using unconfirmed_failed [of "front_door_probes t" host] find_none_live [OF unconfirmed(2)] assms by auto
qed



text \<open>
  A trace for the examples: a subject of a kind, its hops, its verdict and its routes.
\<close>

definition example_hop :: "string \<Rightarrow> trace_finding list \<Rightarrow> probe_result list \<Rightarrow> int option \<Rightarrow> int option \<Rightarrow> trace_hop" where
  "example_hop kind findings probes ready selected =
     \<lparr>ho_resource = \<lparr>trf_kind = kind, trf_namespace = None, trf_name = ''a''\<rparr>, ho_edge = [], ho_findings = findings,
      ho_ready = ready, ho_selected = selected, ho_endpoint_source = None, ho_selectorless = False, ho_config = None,
      ho_probes = probes\<rparr>"

definition example_trace :: "string \<Rightarrow> trace_hop list \<Rightarrow> trace_verdict \<Rightarrow> route_result list \<Rightarrow> trace" where
  "example_trace kind hops verdict routes =
     \<lparr>tc_subject = \<lparr>trf_kind = kind, trf_namespace = None, trf_name = ''a''\<rparr>, tc_upstreams = [], tc_downstream = hops,
      tc_verdict = verdict, tc_reason = None, tc_run_vantage = None, tc_unknown_class = None, tc_skipped = 0,
      tc_routes = routes, tc_not_tested = 0, tc_headline = None, tc_diagnosis = None\<rparr>"

definition example_route :: "route_outcome \<Rightarrow> route_confidence \<Rightarrow> route_result" where
  "example_route outcome confidence =
     \<lparr>ro_route = ''80'', ro_target = None, ro_outcome = outcome, ro_failed_layer = None, ro_confidence = Some confidence,
      ro_benign = False, ro_by_vantage = []\<rparr>"



lemma backend_down_cause:
  assumes "backend_down t = Some bd" and "\<not> bd_transitional bd"
  shows "\<exists>x \<in> set (backend_problems (tc_downstream t)). fi_severity (snd x) = SevCritical \<and> \<not> is_symptom (fi_code (snd x))"
proof -
  have "real_cause (tc_downstream t) \<noteq> None"
    using assms by (auto simp: backend_down_def Let_def split: if_splits)
  then show ?thesis
    by (auto simp: real_cause_def Let_def coalesce_opt_def split: option.splits dest!: find_some_in)
qed

lemma red_front_door: "map_option mark (front_door_view t) = Some red \<Longrightarrow> fd_state (front_door_status t) = FdFailed"
  unfolding mark_front_door by (cases "fd_state (front_door_status t)") (auto split: if_splits)

definition route_failure :: "trace \<Rightarrow> bool" where
  \<comment> \<open>nothing was reached, and a route that is not scaled to zero failed over a path that is not the API server's\<close>
  "route_failure t =
     (ok_count t = 0 \<and> (\<exists>r \<in> set (tc_routes t). ro_outcome r = OutcomeUnreachable \<and> \<not> ro_benign r
        \<and> ro_confidence r \<noteq> Some ConfIndirect))"

lemma red_routes:
  assumes "mark (routes_view t probed) = red"
  shows "tc_verdict t = VerdictBroken \<or> route_failure t"
proof -
  have "is_broken t" "\<not> only_indirect_unreachable t \<or> tc_verdict t = VerdictBroken"
    using assms by (auto simp: mark_routes mark_broken mark_reachable mark_unprobed split: if_splits)
  then show ?thesis
    by (auto simp: is_broken_def only_indirect_unreachable_def route_failure_def unreachable_routes_def list_ex_iff list_all_iff)
qed

lemma red_base:
  assumes "mark (reach_verdict_base t probed) = red"
  shows "(case backend_down t of
            Some bd \<Rightarrow> \<not> bd_transitional bd
          | None \<Rightarrow> fd_state (front_door_status t) = FdFailed \<or> tc_verdict t = VerdictBroken \<or> route_failure t)"
proof (cases "backend_down t")
  case (Some bd)
  then show ?thesis using assms by (simp add: mark_base mark_backend_down split: if_splits)
next
  case None
  then have view: "(case map_option mark (front_door_view t) of Some m \<Rightarrow> m | None \<Rightarrow> mark (routes_view t probed)) = red"
    using assms by (simp add: mark_base split: if_splits)
  show ?thesis
  proof (cases "map_option mark (front_door_view t)")
    case no_view: None
    then show ?thesis using view red_routes None by simp
  next
    case (Some m)
    then have "map_option mark (front_door_view t) = Some red" using view by (simp only: option.case)
    then have "fd_state (front_door_status t) = FdFailed" by (rule red_front_door)
    then show ?thesis by (simp only: None option.case simp_thms)
  qed
qed

text \<open>
  C14. A red cross needs a confirmed failure: the static verdict is broken; or no backend is ready and a
  critical finding on it says why; or the front door was dialled, failed, and no host answered 2xx; or
  nothing was reached and a route that is not scaled to zero failed over a path that is not the API
  server's. A backend that may only be starting is never condemned, whatever the static verdict.
\<close>
theorem red_needs_confirmed_failure:
  assumes "vv_icon (reach_verdict t probed) = IconCross"
  shows "(tc_verdict t = VerdictBroken
      \<or> (backend_down t \<noteq> None
           \<and> (\<exists>x \<in> set (backend_problems (tc_downstream t)). fi_severity (snd x) = SevCritical \<and> \<not> is_symptom (fi_code (snd x))))
      \<or> (is_front_door_kind (trf_kind (tc_subject t))
           \<and> (\<exists>p \<in> set (front_door_probes t). \<not> pr_skipped p \<and> \<not> pr_ok p)
           \<and> (\<forall>p \<in> set (front_door_probes t). \<not> pr_skipped p \<longrightarrow> \<not> http_answer ProbeHealthy p))
      \<or> route_failure t)
    \<and> (\<forall>bd. backend_down t = Some bd \<longrightarrow> \<not> bd_transitional bd)"
proof -
  have icon: "fst (mark (reach_verdict t probed)) = IconCross" using assms by (simp add: mark_def)
  consider (floor) "tc_verdict t = VerdictBroken" "\<forall>bd. backend_down t = Some bd \<longrightarrow> \<not> bd_transitional bd"
    | (base) "mark (reach_verdict_base t probed) = red"
    using icon base_mark_cases [of t probed] verdict_floor_cases [of t]
    by (auto simp: mark_verdict base_marks_def split: if_splits)
  then show ?thesis
  proof cases
    case floor
    then show ?thesis by blast
  next
    case base
    then have cases: "(case backend_down t of
            Some bd \<Rightarrow> \<not> bd_transitional bd
          | None \<Rightarrow> fd_state (front_door_status t) = FdFailed \<or> tc_verdict t = VerdictBroken \<or> route_failure t)"
      by (rule red_base)
    show ?thesis
    proof (cases "backend_down t")
      case (Some bd)
      then show ?thesis using cases backend_down_cause by simp
    next
      case None
      then show ?thesis using cases front_door_failed [of t] by auto
    qed
  qed
qed

lemma red_needs_confirmed_failure_witness:
  "route_failure (example_trace ''Service'' [example_hop ''Service'' [] [] None None] VerdictUnknown
      [example_route OutcomeUnreachable ConfReal])"
proof -
  let ?t = "example_trace ''Service'' [example_hop ''Service'' [] [] None None] VerdictUnknown
      [example_route OutcomeUnreachable ConfReal]"
  have "vv_icon (reach_verdict ?t True) = IconCross" by code_simp
  moreover have "tc_verdict ?t \<noteq> VerdictBroken" "backend_down ?t = None" "\<not> is_front_door_kind (trf_kind (tc_subject ?t))"
    by code_simp+
  ultimately show ?thesis using red_needs_confirmed_failure [of ?t True] by blast
qed

text \<open>
  The rules at work. A Service that answered only through the API server is not green; a Service whose pods
  are not ready and show no failure is amber even where the server called the path broken, and red once a
  container keeps crashing; a front door that answered a redirect is not confirmed.
\<close>

lemma verdict_examples:
  "mark (reach_verdict (example_trace ''Service'' [example_hop ''Service'' [] [] None None] VerdictHealthy
      [example_route OutcomeVerified ConfIndirect]) True) = grey"
  "mark (reach_verdict (example_trace ''Service'' [example_hop ''Service'' [] [] (Some 0) (Some 2)] VerdictBroken []) True) = amber"
  "mark (reach_verdict (example_trace ''Service''
      [example_hop ''Service'' [\<lparr>fi_code = ''problem:CrashLoopBackOff'', fi_severity = SevCritical, fi_message = ''m'',
         fi_cause = None, fi_resource = None\<rparr>] [] (Some 0) (Some 2)] VerdictDegraded []) True) = red"
  by code_simp+

end
