(* ===== verification/Workflow_Graph.thy ===== *)
theory Workflow_Graph
  imports Keyed_Maps
begin

text \<open>
  An Argo workflow as a graph (\<open>packages/k8s-ui/src/utils/workflow-execution.ts\<close>, first half): the nodes of
  its status, the edges between them, and the presentation graph, from which step groups of one step are
  left out and across which the edges are drawn through. \<open>Date.parse\<close> and \<open>localeCompare\<close>, which order the
  nodes, are arguments.
\<close>

section \<open>Reading values of unknown shape\<close>

definition as_record :: "json option \<Rightarrow> json_record" where
  "as_record v = (case v of Some (JObj kvs) \<Rightarrow> kvs | _ \<Rightarrow> [])"

definition as_array :: "json option \<Rightarrow> json list" where
  "as_array v = (case v of Some (JArr xs) \<Rightarrow> xs | _ \<Rightarrow> [])"

definition as_string :: "json option \<Rightarrow> string" where
  "as_string v = (case v of Some (JStr s) \<Rightarrow> s | _ \<Rightarrow> [])"

definition as_string_array :: "json option \<Rightarrow> string list" where
  "as_string_array v = (case v of Some (JArr xs) \<Rightarrow> json_strings xs | _ \<Rightarrow> [])"

definition as_number_record :: "json option \<Rightarrow> (string \<times> int) list option" where
  "as_number_record v =
     (let out = fold (\<lambda>(k, x) m. case x of JNum n \<Rightarrow> AList.update k n m | _ \<Rightarrow> m) (as_record v) []
      in if out = [] then None else Some out)"

definition first_text :: "string \<Rightarrow> string \<Rightarrow> string" where
  \<comment> \<open>\<open>a || b\<close> on strings\<close>
  "first_text a b = (if a = [] then b else a)"

section \<open>Nodes\<close>

datatype template_source = FromWorkflow | FromTask

record template_reference =
  tr_name :: string
  tr_kind :: string
  tr_resource_kind :: string
  tr_namespace :: string
  tr_cluster_scope :: bool
  tr_source :: template_source
  tr_template :: "string option"
  tr_task_name :: "string option"

record wf_node =
  wn_id :: string
  wn_name :: string
  wn_display_name :: string
  wn_display_label :: string
  wn_display_type :: string
  wn_type :: string
  wn_phase :: string
  wn_template_name :: string
  wn_template_scope :: string
  wn_boundary_id :: string
  wn_pod_name :: string
  wn_template_ref :: "template_reference option"
  wn_message :: string
  wn_started_at :: string
  wn_finished_at :: string
  wn_parent_ids :: "string list"
  wn_child_ids :: "string list"
  wn_hierarchy_child_ids :: "string list"

type_synonym node_map = "(string \<times> wf_node) list"

definition template_reference_from_object ::
    "json option \<Rightarrow> string \<Rightarrow> template_source \<Rightarrow> string option \<Rightarrow> string option \<Rightarrow> template_reference option" where
  "template_reference_from_object raw namespace source template task =
     (let ref = as_record raw; name = as_string (map_of ref ''name''); cluster = (map_of ref ''clusterScope'' = Some (JBool True))
      in if name = [] then None
         else Some \<lparr>tr_name = name,
            tr_kind = (if cluster then ''ClusterWorkflowTemplate'' else ''WorkflowTemplate''),
            tr_resource_kind = (if cluster then ''clusterworkflowtemplates'' else ''workflowtemplates''),
            tr_namespace = (if cluster then [] else namespace), tr_cluster_scope = cluster, tr_source = source,
            tr_template = or_str (Some (as_string (map_of ref ''template''))) template, tr_task_name = task\<rparr>)"

definition workflow_node_type_label :: "string \<Rightarrow> string" where
  "workflow_node_type_label t =
     (if t = ''Steps'' then ''Steps template'' else if t = ''StepGroup'' then ''Step group''
      else if t = ''TaskGroup'' then ''Fan-out'' else if t = ''Retry'' then ''Retry strategy''
      else if t = ''Skipped'' then ''Skipped step'' else t)"

definition node_of_entry :: "string \<Rightarrow> string \<Rightarrow> json \<Rightarrow> wf_node" where
  \<comment> \<open>the body of the first loop: an entry of \<open>status.nodes\<close>\<close>
  "node_of_entry namespace ident raw =
     (let node = as_record (Some raw); field = (\<lambda>k. as_string (map_of node k));
          display = first_text (first_text (field ''displayName'') (field ''name'')) ident;
          tp = first_text (field ''type'') ''Unknown''
      in \<lparr>wn_id = ident, wn_name = first_text (field ''name'') display, wn_display_name = display, wn_display_label = display,
          wn_display_type = workflow_node_type_label tp, wn_type = tp,
          wn_phase = first_text (field ''phase'') (if field ''type'' = ''Skipped'' then ''Skipped'' else ''Pending''),
          wn_template_name = field ''templateName'', wn_template_scope = field ''templateScope'',
          wn_boundary_id = field ''boundaryID'', wn_pod_name = field ''podName'',
          wn_template_ref = template_reference_from_object (map_of node ''templateRef'') namespace FromTask
             (Some (field ''templateName'')) (Some display),
          wn_message = field ''message'', wn_started_at = field ''startedAt'', wn_finished_at = field ''finishedAt'',
          wn_parent_ids = [], wn_child_ids = [], wn_hierarchy_child_ids = []\<rparr>)"

definition change_node :: "string \<Rightarrow> (wf_node \<Rightarrow> wf_node) \<Rightarrow> node_map \<Rightarrow> node_map" where
  \<comment> \<open>an assignment to fields of the node that a \<open>Map\<close> holds under an id\<close>
  "change_node i f m = map (\<lambda>(k, n). (k, if k = i then f n else n)) m"

section \<open>Edges between the nodes of the status\<close>

definition workflow_edge_key :: "string \<Rightarrow> string \<Rightarrow> string" where
  "workflow_edge_key s t = s @ [CHR 0x00] @ t"

definition link_nodes :: "string \<Rightarrow> string \<Rightarrow> node_map \<Rightarrow> node_map" where
  \<comment> \<open>the two assignments that record an edge\<close>
  "link_nodes s t m =
     change_node t (\<lambda>c. c\<lparr>wn_parent_ids := wn_parent_ids c @ [s]\<rparr>)
       (change_node s (\<lambda>p. p\<lparr>wn_child_ids := wn_child_ids p @ [t]\<rparr>) m)"

definition add_workflow_edge :: "string \<Rightarrow> string \<Rightarrow> node_map \<times> string list \<Rightarrow> node_map \<times> string list" where
  "add_workflow_edge s t st =
     (case st of (m, keys) \<Rightarrow>
        if workflow_edge_key s t \<in> set keys then (m, keys)
        else if map_of m s = None \<or> map_of m t = None then (m, keys)
        else (link_nodes s t m, keys @ [workflow_edge_key s t]))"

definition declared_children :: "json \<Rightarrow> string list" where
  "declared_children raw =
     as_string_array (map_of (as_record (Some raw)) ''children'') @ as_string_array (map_of (as_record (Some raw)) ''outboundNodes'')"

definition hierarchy_children :: "json \<Rightarrow> string list" where
  "hierarchy_children raw =
     (let children = as_string_array (map_of (as_record (Some raw)) ''children'')
      in if children \<noteq> [] then children else as_string_array (map_of (as_record (Some raw)) ''outboundNodes''))"

definition link_entry :: "string \<times> json \<Rightarrow> node_map \<times> string list \<Rightarrow> node_map \<times> string list" where
  \<comment> \<open>the body of the second loop\<close>
  "link_entry entry st =
     (case entry of (i, raw) \<Rightarrow> case st of (m, keys) \<Rightarrow>
        if map_of m i = None then st
        else fold (\<lambda>c st. if map_of (fst st) c = None then st else add_workflow_edge i c st) (declared_children raw)
               (change_node i (\<lambda>n. n\<lparr>wn_hierarchy_child_ids := filter (\<lambda>c. map_of m c \<noteq> None) (hierarchy_children raw)\<rparr>) m, keys))"

definition adopt_by_boundary :: "string \<Rightarrow> node_map \<times> string list \<Rightarrow> node_map \<times> string list" where
  \<comment> \<open>the body of the third loop: a node without a parent hangs below its boundary\<close>
  "adopt_by_boundary i st =
     (case map_of (fst st) i of None \<Rightarrow> st
      | Some node \<Rightarrow>
          let b = wn_boundary_id node
          in if wn_parent_ids node \<noteq> [] \<or> b = [] \<or> b = wn_id node \<or> map_of (fst st) b = None then st
             else case add_workflow_edge b (wn_id node) st of
                    (m, keys) \<Rightarrow>
                      (change_node b (\<lambda>p. if wn_id node \<in> set (wn_hierarchy_child_ids p) then p
                           else p\<lparr>wn_hierarchy_child_ids := wn_hierarchy_child_ids p @ [wn_id node]\<rparr>) m, keys))"

definition status_nodes :: "json option \<Rightarrow> json_record" where
  "status_nodes workflow = as_record (json_path workflow [''status'', ''nodes''])"

definition entry_map :: "json option \<Rightarrow> node_map" where
  "entry_map workflow =
     map_from (map (\<lambda>(i, raw). (i, node_of_entry (as_string (json_path workflow [''metadata'', ''namespace''])) i raw))
       (status_nodes workflow))"

definition linked_map :: "json option \<Rightarrow> node_map \<times> string list" where
  "linked_map workflow =
     (let st = fold link_entry (status_nodes workflow) (entry_map workflow, [])
      in fold adopt_by_boundary (map fst (fst st)) st)"

section \<open>The order of nodes\<close>

datatype node_time = NodeAt int | NodeNever | NodeNaN

definition node_time_of :: "(string \<Rightarrow> int option) \<Rightarrow> wf_node \<Rightarrow> node_time" where
  \<comment> \<open>a node that has not started is at infinity; a date that does not parse is \<open>NaN\<close>\<close>
  "node_time_of parse n =
     (if wn_started_at n = [] then NodeNever
      else case parse (wn_started_at n) of None \<Rightarrow> NodeNaN | Some t \<Rightarrow> NodeAt t)"

fun time_gap :: "node_time \<Rightarrow> node_time \<Rightarrow> int option" where
  \<comment> \<open>the sign of a difference of times; \<open>None\<close> where the times are equal\<close>
  "time_gap (NodeAt s) (NodeAt t) = (if s = t then None else Some (s - t))"
| "time_gap NodeNever NodeNever = None"
| "time_gap NodeNever (NodeAt t) = Some 1"
| "time_gap (NodeAt s) NodeNever = Some (- 1)"
| "time_gap NodeNaN y = Some 0"
| "time_gap x NodeNaN = Some 0"

definition compare_execution_nodes ::
    "(string \<Rightarrow> int option) \<Rightarrow> (string \<Rightarrow> string \<Rightarrow> int) \<Rightarrow> wf_node option \<Rightarrow> wf_node option \<Rightarrow> int" where
  "compare_execution_nodes parse lc a b =
     (case a of None \<Rightarrow> (case b of None \<Rightarrow> 0 | Some _ \<Rightarrow> 1)
      | Some x \<Rightarrow> (case b of None \<Rightarrow> - 1
          | Some y \<Rightarrow>
              (case time_gap (node_time_of parse x) (node_time_of parse y) of
                 Some d \<Rightarrow> d
               | None \<Rightarrow> if lc (wn_display_name x) (wn_display_name y) \<noteq> 0 then lc (wn_display_name x) (wn_display_name y)
                         else lc (wn_id x) (wn_id y))))"

definition sort_nodes :: "(string \<Rightarrow> int option) \<Rightarrow> (string \<Rightarrow> string \<Rightarrow> int) \<Rightarrow> wf_node list \<Rightarrow> wf_node list" where
  "sort_nodes parse lc ns = js_sort (\<lambda>a b. compare_execution_nodes parse lc (Some a) (Some b)) ns"

definition is_workflow_problem_phase :: "string \<Rightarrow> bool" where
  "is_workflow_problem_phase p = (p = ''Failed'' \<or> p = ''Error'')"

section \<open>Names of groups and iterations\<close>

definition line_break_free :: "string \<Rightarrow> bool" where
  \<comment> \<open>every character is matched by \<open>.\<close>\<close>
  "line_break_free s =
     (CHR 0x0A \<notin> set s \<and> CHR 0x0D \<notin> set s \<and> \<not> includes_str s [CHR 0xE2, CHR 0x80, CHR 0xA8]
      \<and> \<not> includes_str s [CHR 0xE2, CHR 0x80, CHR 0xA9])"

definition decimal_digit :: "char \<Rightarrow> bool" where
  "decimal_digit c = (c \<in> set ''0123456789'')"

definition iteration_tail :: "string \<Rightarrow> (nat \<times> string option) option" where
  \<comment> \<open>\<open>\((\d+)(?::(.+))?\)$\<close> on the whole of a string\<close>
  "iteration_tail s =
     (case s of [] \<Rightarrow> None
      | c # r \<Rightarrow>
          let digits = takeWhile decimal_digit r; rest = dropWhile decimal_digit r
          in if c \<noteq> CHR ''('' \<or> digits = [] then None
             else if rest = '')'' then Some (read_nat digits, None)
             else let v = butlast (drop 1 rest)
                  in if rest \<noteq> [] \<and> hd rest = CHR '':'' \<and> length rest > 2 \<and> last rest = CHR '')'' \<and> line_break_free v
                     then Some (read_nat digits, Some v) else None)"

record iteration =
  it_base :: string
  it_index :: nat
  it_value :: "string option"

definition iteration_at :: "string \<Rightarrow> nat \<Rightarrow> iteration option" where
  "iteration_at s i =
     (if line_break_free (take i s)
      then map_option (\<lambda>(n, v). \<lparr>it_base = take i s, it_index = n, it_value = v\<rparr>) (iteration_tail (drop i s)) else None)"

definition parse_iteration_name :: "string \<Rightarrow> iteration option" where
  \<comment> \<open>\<open>/^(.+)\((\d+)(?::(.+))?\)$/\<close>: the longest base first\<close>
  "parse_iteration_name s =
     (case List.map_filter (iteration_at s) (rev [1..<length s]) of [] \<Rightarrow> None | x # _ \<Rightarrow> Some x)"

definition step_group_number :: "wf_node \<Rightarrow> nat option" where
  \<comment> \<open>\<open>/\[(\d+)\]$/\<close> on the name, plus one\<close>
  "step_group_number node =
     (let r = rev (wn_name node); digits = takeWhile decimal_digit (drop 1 r); rest = dropWhile decimal_digit (drop 1 r)
      in if r \<noteq> [] \<and> hd r = CHR '']'' \<and> digits \<noteq> [] \<and> rest \<noteq> [] \<and> hd rest = CHR ''[''
         then Some (read_nat (rev digits) + 1) else None)"

definition is_exit_handler_node :: "wf_node \<Rightarrow> string \<Rightarrow> bool" where
  "is_exit_handler_node node workflow =
     (workflow \<noteq> [] \<and> (wn_name node = workflow @ ''.onExit'' \<or> wn_display_name node = workflow @ ''.onExit''))"

definition presentation_label :: "wf_node \<Rightarrow> string \<Rightarrow> string" where
  "presentation_label node workflow =
     (if is_exit_handler_node node workflow then ''Exit handler''
      else if wn_parent_ids node = [] \<and> wn_display_name node = workflow \<and> wn_template_name node \<noteq> [] then wn_template_name node
      else if wn_type node \<noteq> ''StepGroup'' then wn_display_name node
      else (case step_group_number node of
              Some n \<Rightarrow> ''Step '' @ show_nat n
            | None \<Rightarrow> if length (wn_child_ids node) > 1 then ''Parallel steps'' else ''Workflow step''))"

definition dotted :: "string \<Rightarrow> string \<Rightarrow> string" where
  "dotted a b = a @ '' '' @ bytes_middot @ '' '' @ b"

definition presentation_type :: "wf_node \<Rightarrow> string" where
  "presentation_type node =
     (if wn_type node = ''StepGroup'' then
        (if length (wn_child_ids node) > 1 then dotted ''Parallel'' (show_nat (length (wn_child_ids node)) @ '' steps'') else ''Step group'')
      else if wn_type node = ''TaskGroup'' then dotted ''Fan-out'' (show_nat (length (wn_child_ids node)) @ '' runs'')
      else workflow_node_type_label (wn_type node))"

section \<open>The presentation graph\<close>

definition is_elided :: "wf_node \<Rightarrow> bool" where
  "is_elided node =
     (wn_type node = ''StepGroup''
      \<and> (length (wn_child_ids node) = 1 \<or> (wn_child_ids node = [] \<and> \<not> is_workflow_problem_phase (wn_phase node))))"

definition elided_ids :: "wf_node list \<Rightarrow> string list" where
  "elided_ids raws = set_from (map wn_id (filter is_elided raws))"

definition presented :: "string \<Rightarrow> wf_node \<Rightarrow> wf_node" where
  "presented workflow node =
     node\<lparr>wn_parent_ids := [], wn_child_ids := [], wn_display_label := presentation_label node workflow,
          wn_display_type := presentation_type node\<rparr>"

definition presentation_start :: "wf_node list \<Rightarrow> string \<Rightarrow> node_map" where
  "presentation_start raws workflow =
     map_from (map (\<lambda>n. (wn_id n, presented workflow n)) (filter (\<lambda>n. wn_id n \<notin> set (elided_ids raws)) raws))"

function nearest_visible_descendants ::
    "(string \<Rightarrow> wf_node option) \<Rightarrow> string list \<Rightarrow> string list \<Rightarrow> string list \<Rightarrow> string \<Rightarrow> string list" where
  "nearest_visible_descendants raw elided visible path i =
     (if i \<in> set path then []
      else if i \<notin> set elided then (if i \<in> set visible then [i] else [])
      else case raw i of
             None \<Rightarrow> []
           | Some node \<Rightarrow>
               set_from (concat (map (\<lambda>c. nearest_visible_descendants raw elided visible (i # path) c)
                 (wn_hierarchy_child_ids node))))"
  by pat_completeness auto
termination
proof (relation "measure (\<lambda>(raw, elided, visible, path, i). card (set elided - set path))", goal_cases)
  case (2 raw elided visible path i node c)
  then have "set elided - set (i # path) \<subset> set elided - set path" by auto
  then show ?case by (simp add: psubset_card_mono)
qed simp

declare nearest_visible_descendants.simps [simp del]

definition add_presentation_edge :: "string \<Rightarrow> string \<Rightarrow> node_map \<Rightarrow> node_map" where
  "add_presentation_edge s t m =
     (if s = t then m
      else case map_of m s of None \<Rightarrow> m
           | Some p \<Rightarrow> if map_of m t = None \<or> t \<in> set (wn_child_ids p) then m else link_nodes s t m)"

definition raw_hierarchy :: "(string \<Rightarrow> wf_node option) \<Rightarrow> string \<Rightarrow> string list" where
  "raw_hierarchy raw i = (case raw i of None \<Rightarrow> [] | Some n \<Rightarrow> wn_hierarchy_child_ids n)"

definition connect_node ::
    "(string \<Rightarrow> wf_node option) \<Rightarrow> string list \<Rightarrow> string list \<Rightarrow> string \<Rightarrow> node_map \<Rightarrow> node_map" where
  \<comment> \<open>the body of the loop over the presented nodes\<close>
  "connect_node raw elided visible i m =
     fold (\<lambda>c. fold (\<lambda>v. add_presentation_edge i v) (nearest_visible_descendants raw elided visible [] c))
       (set_from (raw_hierarchy raw i)) m"

definition number_steps ::
    "(string \<Rightarrow> wf_node option) \<Rightarrow> string list \<Rightarrow> string list \<Rightarrow> string \<Rightarrow> node_map \<Rightarrow> node_map" where
  \<comment> \<open>the body of the loop over the elided groups: what stands for a group of one step carries its number\<close>
  "number_steps raw elided visible hidden m =
     (case raw hidden of None \<Rightarrow> m
      | Some h \<Rightarrow>
          (case wn_hierarchy_child_ids h of
             [c] \<Rightarrow>
               (case step_group_number h of None \<Rightarrow> m
                | Some n \<Rightarrow>
                    fold (\<lambda>v. change_node v (\<lambda>x. x\<lparr>wn_display_type := dotted (''Step '' @ show_nat n) (wn_display_type x)\<rparr>))
                      (nearest_visible_descendants raw elided visible [] c) m)
           | _ \<Rightarrow> m))"

definition iteration_group_info :: "wf_node \<Rightarrow> node_map \<Rightarrow> string option" where
  "iteration_group_info parent m =
     (let its = map (\<lambda>c. Option.bind (map_of m c) (\<lambda>n. parse_iteration_name (wn_display_name n))) (wn_child_ids parent)
      in if length (wn_child_ids parent) < 2 then None
         else if None \<in> set its then None
         else let base = it_base (the (hd its))
              in if list_all (\<lambda>x. it_base (the x) = base) its then Some base else None)"

definition name_attempt :: "wf_node \<Rightarrow> wf_node \<Rightarrow> wf_node" where
  "name_attempt parent child =
     (case parse_iteration_name (wn_display_name child) of
        None \<Rightarrow> child
      | Some it \<Rightarrow>
          if it_base it \<noteq> wn_display_name parent \<or> it_value it \<noteq> None then child
          else child\<lparr>wn_display_label := ''Attempt '' @ show_nat (it_index it + 1)\<rparr>)"

definition name_run :: "wf_node \<Rightarrow> wf_node" where
  "name_run child =
     (case parse_iteration_name (wn_display_name child) of
        None \<Rightarrow> child
      | Some it \<Rightarrow>
          child\<lparr>wn_display_label := or_else (it_value it) (''Run '' @ show_nat (it_index it + 1)),
                wn_display_type := dotted (''Run '' @ show_nat (it_index it + 1)) (workflow_node_type_label (wn_type child))\<rparr>)"

definition normalize_grouped_children :: "string \<Rightarrow> node_map \<Rightarrow> node_map" where
  "normalize_grouped_children i m =
     (case map_of m i of None \<Rightarrow> m
      | Some parent \<Rightarrow>
          if wn_type parent = ''Retry'' then fold (\<lambda>c. change_node c (name_attempt parent)) (wn_child_ids parent) m
          else if wn_type parent \<noteq> ''TaskGroup'' \<and> wn_type parent \<noteq> ''StepGroup'' then m
          else case iteration_group_info parent m of
                 None \<Rightarrow> m
               | Some base \<Rightarrow>
                   let step = (if wn_type parent = ''StepGroup'' then step_group_number parent else None);
                       lead = (case step of None \<Rightarrow> [] | Some n \<Rightarrow> dotted (''Step '' @ show_nat n) [])
                   in fold (\<lambda>c. change_node c name_run) (wn_child_ids parent)
                        (change_node i (\<lambda>p. p\<lparr>wn_display_label := base,
                           wn_display_type := lead @ dotted ''Fan-out'' (show_nat (length (wn_child_ids parent)) @ '' runs'')\<rparr>) m))"

definition connected_map :: "wf_node list \<Rightarrow> string \<Rightarrow> node_map" where
  \<comment> \<open>the presented nodes with their edges\<close>
  "connected_map raws workflow =
     (let raw = map_of (map_from (map (\<lambda>n. (wn_id n, n)) raws)); m = presentation_start raws workflow; visible = map fst m
      in fold (connect_node raw (elided_ids raws) visible) visible m)"

definition presentation_map :: "wf_node list \<Rightarrow> string \<Rightarrow> node_map" where
  "presentation_map raws workflow =
     (let raw = map_of (map_from (map (\<lambda>n. (wn_id n, n)) raws)); visible = map fst (presentation_start raws workflow);
          m = fold (number_steps raw (elided_ids raws) visible) (elided_ids raws) (connected_map raws workflow)
      in fold normalize_grouped_children visible m)"

definition is_root :: "wf_node \<Rightarrow> bool" where
  "is_root n = (wn_parent_ids n = [])"

definition build_presentation_graph ::
    "(string \<Rightarrow> int option) \<Rightarrow> (string \<Rightarrow> string \<Rightarrow> int) \<Rightarrow> wf_node list \<Rightarrow> string \<Rightarrow> wf_node list \<times> wf_node list" where
  "build_presentation_graph parse lc raws workflow =
     (let nodes = sort_nodes parse lc (map snd (presentation_map raws workflow)) in (nodes, filter is_root nodes))"
section \<open>Maps of nodes\<close>

definition children_of :: "node_map \<Rightarrow> string \<Rightarrow> string list" where
  "children_of m i = (case map_of m i of None \<Rightarrow> [] | Some n \<Rightarrow> wn_child_ids n)"

definition parents_of :: "node_map \<Rightarrow> string \<Rightarrow> string list" where
  "parents_of m i = (case map_of m i of None \<Rightarrow> [] | Some n \<Rightarrow> wn_parent_ids n)"

definition keyed :: "node_map \<Rightarrow> bool" where
  "keyed m = (distinct (map fst m) \<and> (\<forall>(k, n) \<in> set m. wn_id n = k))"

definition links_sound :: "node_map \<Rightarrow> bool" where
  \<comment> \<open>a child names its parent and a parent its child, each once\<close>
  "links_sound m = (\<forall>s t. (t \<in> set (children_of m s) \<longleftrightarrow> s \<in> set (parents_of m t))
     \<and> distinct (children_of m s) \<and> distinct (parents_of m t))"

lemma keys_change_node [simp]: "map fst (change_node i f m) = map fst m"
  by (induction m) (auto simp: change_node_def)

lemma map_of_change_node:
  "map_of (change_node i f m) k = (if k = i then map_option f (map_of m k) else map_of m k)"
  by (induction m) (auto simp: change_node_def)

lemma map_of_none_change [simp]: "map_of (change_node i f m) k = None \<longleftrightarrow> map_of m k = None"
  by (simp add: map_of_change_node)

lemma keyed_change_node: "keyed m \<Longrightarrow> (\<And>n. wn_id (f n) = wn_id n) \<Longrightarrow> keyed (change_node i f m)"
  unfolding keyed_def keys_change_node by (auto simp: change_node_def)

lemma links_change_node:
  assumes "\<And>n. wn_child_ids (f n) = wn_child_ids n" and "\<And>n. wn_parent_ids (f n) = wn_parent_ids n"
  shows "children_of (change_node i f m) = children_of m" and "parents_of (change_node i f m) = parents_of m"
  using assms by (auto simp: children_of_def parents_of_def map_of_change_node split: option.splits)

lemma keys_link_nodes [simp]: "map fst (link_nodes s t m) = map fst m"
  by (simp add: link_nodes_def)

lemma map_of_none_link [simp]: "map_of (link_nodes s t m) k = None \<longleftrightarrow> map_of m k = None"
  by (simp add: link_nodes_def)

lemma keyed_link_nodes: "keyed m \<Longrightarrow> keyed (link_nodes s t m)"
  by (simp add: link_nodes_def keyed_change_node)

lemma children_link_nodes:
  "map_of m s \<noteq> None \<Longrightarrow> children_of (link_nodes s t m) x = (if x = s then children_of m s @ [t] else children_of m x)"
  by (auto simp: link_nodes_def children_of_def map_of_change_node split: option.splits)

lemma parents_link_nodes:
  "map_of m t \<noteq> None \<Longrightarrow> parents_of (link_nodes s t m) x = (if x = t then parents_of m t @ [s] else parents_of m x)"
  by (auto simp: link_nodes_def parents_of_def map_of_change_node split: option.splits)

lemma links_sound_link_nodes:
  assumes "links_sound m" and "map_of m s \<noteq> None" and "map_of m t \<noteq> None" and "t \<notin> set (children_of m s)"
  shows "links_sound (link_nodes s t m)"
proof -
  have "s \<notin> set (parents_of m t)" using assms(1,4) by (auto simp: links_sound_def)
  then show ?thesis using assms by (auto simp: links_sound_def children_link_nodes parents_link_nodes)
qed

text \<open>What a rewriting of the map keeps, folded over a list.\<close>

lemma fold_invariant_set:
  assumes "P m" and "\<And>x m. x \<in> set xs \<Longrightarrow> P m \<Longrightarrow> P (f x m)"
  shows "P (fold f xs m)"
  using assms by (induction xs arbitrary: m) auto

lemma fold_same:
  assumes "\<And>x m. x \<in> set xs \<Longrightarrow> g (f x m) = g m"
  shows "g (fold f xs m) = g m"
  using assms by (induction xs arbitrary: m) auto

lemma keyed_map_of: "keyed m \<Longrightarrow> map_of m k = Some n \<Longrightarrow> wn_id n = k"
  by (auto simp: keyed_def dest: map_of_SomeD)

lemma keyed_mem_iff: "keyed m \<Longrightarrow> n \<in> snd ` set m \<longleftrightarrow> map_of m (wn_id n) = Some n"
  by (force simp: keyed_def map_of_eq_Some_iff)

lemma keyed_ids: "keyed m \<Longrightarrow> map (wn_id \<circ> snd) m = map fst m"
  by (auto simp: keyed_def)

section \<open>Across what is left out\<close>

definition hidden_step :: "(string \<Rightarrow> wf_node option) \<Rightarrow> string set \<Rightarrow> (string \<times> string) set" where
  \<comment> \<open>from a node that is left out to a node below it\<close>
  "hidden_step raw hidden = {(a, b). a \<in> hidden \<and> b \<in> set (raw_hierarchy raw a)}"

lemma hidden_step_stuck: "(a, b) \<in> (hidden_step raw hidden)\<^sup>* \<Longrightarrow> a \<notin> hidden \<Longrightarrow> b = a"
  by (erule converse_rtranclE) (auto simp: hidden_step_def)

lemma hidden_step_mono: "hidden \<subseteq> hidden' \<Longrightarrow> (a, b) \<in> (hidden_step raw hidden)\<^sup>* \<Longrightarrow> (a, b) \<in> (hidden_step raw hidden')\<^sup>*"
  by (erule rtrancl_mono [THEN subsetD, rotated]) (auto simp: hidden_step_def)

text \<open>A walk that leaves a node for the last time goes on without it.\<close>

lemma hidden_walk_leaves:
  assumes "(i, v) \<in> (hidden_step raw hidden)\<^sup>*"
  shows "v = i \<or> (\<exists>b. (i, b) \<in> hidden_step raw hidden \<and> (b, v) \<in> (hidden_step raw (hidden - {i}))\<^sup>*)"
  using assms
proof (induction rule: rtrancl_induct)
  case base
  then show ?case by simp
next
  case (step y z)
  show ?case
  proof (cases "y = i")
    case True
    then show ?thesis using step.hyps by blast
  next
    case False
    then have "(y, z) \<in> hidden_step raw (hidden - {i})" using step.hyps by (auto simp: hidden_step_def)
    then show ?thesis using step.IH False by (meson rtrancl.rtrancl_into_rtrancl)
  qed
qed

lemma raw_hierarchy_mem: "c \<in> set (raw_hierarchy raw i) \<longleftrightarrow> (\<exists>n. raw i = Some n \<and> c \<in> set (wn_hierarchy_child_ids n))"
  by (cases "raw i") (simp_all add: raw_hierarchy_def)

lemma nearest_visible_mem:
  "v \<in> set (nearest_visible_descendants raw elided visible path i) \<longleftrightarrow> i \<notin> set path
     \<and> (if i \<in> set elided
        then \<exists>c \<in> set (raw_hierarchy raw i). v \<in> set (nearest_visible_descendants raw elided visible (i # path) c)
        else v = i \<and> i \<in> set visible)"
  unfolding nearest_visible_descendants.simps [of raw elided visible path i]
  by (cases "raw i") (simp_all add: raw_hierarchy_def)

lemma nearest_visible_sound:
  assumes "v \<in> set (nearest_visible_descendants raw elided visible path i)"
  shows "v \<in> set visible \<and> v \<notin> set elided \<and> (i, v) \<in> (hidden_step raw (set elided))\<^sup>*"
  using assms
proof (induction raw elided visible path i rule: nearest_visible_descendants.induct)
  case (1 raw elided visible path i)
  consider (visible) "i \<notin> set elided" "v = i" "i \<in> set visible"
    | (below) node c where "i \<notin> set path" "i \<in> set elided" "raw i = Some node" "c \<in> set (wn_hierarchy_child_ids node)"
        "v \<in> set (nearest_visible_descendants raw elided visible (i # path) c)"
    using "1.prems" unfolding nearest_visible_mem [of v raw elided visible path i] Bex_def raw_hierarchy_mem
    by (metis (full_types))
  then show ?case
  proof cases
    case visible
    then show ?thesis by simp
  next
    case below
    then have "(i, c) \<in> hidden_step raw (set elided)" by (simp add: hidden_step_def raw_hierarchy_mem)
    then show ?thesis using "1.IH" [of node c] below by (auto intro: converse_rtrancl_into_rtrancl)
  qed
qed

lemma nearest_visible_complete:
  assumes "v \<in> set visible" and "v \<notin> set elided" and "v \<notin> set path"
    and "(i, v) \<in> (hidden_step raw (set elided - set path))\<^sup>*"
  shows "v \<in> set (nearest_visible_descendants raw elided visible path i)"
  using assms
proof (induction raw elided visible path i rule: nearest_visible_descendants.induct)
  case (1 raw elided visible path i)
  let ?h = "set elided - set path"
  have i: "i \<notin> set path" using "1.prems"(3,4) hidden_step_stuck [of i v raw ?h] by auto
  show ?case
  proof (cases "i \<in> set elided")
    case False
    then have "v = i" using "1.prems"(4) hidden_step_stuck [of i v raw ?h] by auto
    then show ?thesis using "1.prems"(1) i False by (simp add: nearest_visible_mem [of _ _ _ _ _ i])
  next
    case True
    then have "v \<noteq> i" using "1.prems"(2) by blast
    then obtain b where step: "(i, b) \<in> hidden_step raw ?h" and rest: "(b, v) \<in> (hidden_step raw (?h - {i}))\<^sup>*"
      using hidden_walk_leaves [OF "1.prems"(4)] by blast
    then have b: "b \<in> set (raw_hierarchy raw i)" by (simp add: hidden_step_def)
    then obtain node where node: "raw i = Some node" "b \<in> set (wn_hierarchy_child_ids node)"
      unfolding raw_hierarchy_mem by blast
    have "?h - {i} = set elided - set (i # path)" by auto
    with rest have rest': "(b, v) \<in> (hidden_step raw (set elided - set (i # path)))\<^sup>*" by simp
    have not_in: "\<not> i \<notin> set elided" "v \<notin> set (i # path)" using True \<open>v \<noteq> i\<close> "1.prems"(3) by auto
    have "v \<in> set (nearest_visible_descendants raw elided visible (i # path) b)"
      by (rule "1.IH" [OF i not_in(1) node "1.prems"(1,2) not_in(2) rest'])
    then show ?thesis unfolding nearest_visible_mem [of v raw elided visible path i] using i True b by auto
  qed
qed

lemma nearest_visible_iff:
  "v \<in> set (nearest_visible_descendants raw elided visible [] i)
     \<longleftrightarrow> v \<in> set visible \<and> v \<notin> set elided \<and> (i, v) \<in> (hidden_step raw (set elided))\<^sup>*"
proof
  assume "v \<in> set (nearest_visible_descendants raw elided visible [] i)"
  then show "v \<in> set visible \<and> v \<notin> set elided \<and> (i, v) \<in> (hidden_step raw (set elided))\<^sup>*"
    by (rule nearest_visible_sound)
next
  assume "v \<in> set visible \<and> v \<notin> set elided \<and> (i, v) \<in> (hidden_step raw (set elided))\<^sup>*"
  then show "v \<in> set (nearest_visible_descendants raw elided visible [] i)"
    by (intro nearest_visible_complete) simp_all
qed
section \<open>What the presentation graph connects\<close>

definition node_ids :: "node_map \<Rightarrow> string set" where
  "node_ids m = fst ` set m"

lemma node_ids_eq: "map fst m = map fst m' \<Longrightarrow> node_ids m = node_ids m'"
  unfolding node_ids_def by (metis list.set_map)

lemma map_of_not_none: "map_of m k \<noteq> None \<longleftrightarrow> k \<in> node_ids m"
  by (metis map_of_eq_None_iff node_ids_def)

lemma map_of_none_iff: "map_of m k = None \<longleftrightarrow> k \<notin> node_ids m"
  by (metis map_of_eq_None_iff node_ids_def)

lemma map_from_subset: "set (map_from kvs) \<subseteq> set kvs"
proof
  fix x assume "x \<in> set (map_from kvs)"
  then have "map_of (map_from kvs) (fst x) = Some (snd x)" using distinct_map_from [of kvs] by (simp add: map_of_eq_Some_iff)
  then show "x \<in> set kvs" by (auto simp: map_of_map_from dest: map_of_SomeD)
qed

lemma map_from_keys: "fst ` set (map_from kvs) = fst ` set kvs"
proof -
  have "k \<in> fst ` set (map_from kvs) \<longleftrightarrow> k \<in> fst ` set kvs" for k
    using map_of_eq_None_iff [of "map_from kvs" k] map_of_eq_None_iff [of "rev kvs" k] by (simp add: map_of_map_from)
  then show ?thesis by blast
qed

lemma keyed_map_from: "(\<And>k n. (k, n) \<in> set kvs \<Longrightarrow> wn_id n = k) \<Longrightarrow> keyed (map_from kvs)"
  using map_from_subset [of kvs] distinct_map_from [of kvs] by (auto simp: keyed_def)

lemma node_ids_change [simp]: "node_ids (change_node i f m) = node_ids m"
  by (rule node_ids_eq) simp

lemma node_ids_link [simp]: "node_ids (link_nodes s t m) = node_ids m"
  by (rule node_ids_eq) simp

lemma node_ids_add_presentation_edge [simp]: "node_ids (add_presentation_edge s t m) = node_ids m"
  by (auto simp: add_presentation_edge_def split: option.split)

lemma keyed_add_presentation_edge: "keyed m \<Longrightarrow> keyed (add_presentation_edge s t m)"
  by (auto simp: add_presentation_edge_def keyed_link_nodes split: option.split)

lemma children_add_presentation_edge:
  "set (children_of (add_presentation_edge s t m) x) =
     set (children_of m x) \<union> (if x = s \<and> s \<noteq> t \<and> s \<in> node_ids m \<and> t \<in> node_ids m then {t} else {})"
proof (cases "map_of m s")
  case (Some p)
  then have "s \<in> node_ids m" by (metis map_of_not_none option.distinct(1))
  with Some show ?thesis
    by (auto simp: add_presentation_edge_def children_link_nodes map_of_none_iff) (auto simp: children_of_def)
next
  case None
  then have "s \<notin> node_ids m" by (simp add: map_of_none_iff)
  with None show ?thesis by (simp add: add_presentation_edge_def)
qed

lemma links_sound_add_presentation_edge: "links_sound m \<Longrightarrow> links_sound (add_presentation_edge s t m)"
proof (cases "map_of m s")
  case (Some p)
  moreover assume "links_sound m"
  moreover have "t \<notin> set (wn_child_ids p) \<Longrightarrow> t \<notin> set (children_of m s)" using Some by (simp add: children_of_def)
  ultimately show ?thesis by (auto simp: add_presentation_edge_def links_sound_link_nodes)
qed (simp add: add_presentation_edge_def)

definition no_self_link :: "node_map \<Rightarrow> bool" where
  "no_self_link m = (\<forall>x. x \<notin> set (children_of m x))"

text \<open>The loops, as one list of edges from a node.\<close>

definition edges_from :: "(string \<Rightarrow> wf_node option) \<Rightarrow> string list \<Rightarrow> string list \<Rightarrow> string \<Rightarrow> string list" where
  "edges_from raw elided visible i =
     concat (map (nearest_visible_descendants raw elided visible []) (set_from (raw_hierarchy raw i)))"

lemma fold_nested: "fold (\<lambda>c. fold f (g c)) cs m = fold f (concat (map g cs)) m"
  by (induction cs arbitrary: m) auto

lemma connect_node_eq: "connect_node raw elided visible i m = fold (add_presentation_edge i) (edges_from raw elided visible i) m"
  by (simp add: connect_node_def edges_from_def fold_nested)

lemma edges_from_iff:
  "v \<in> set (edges_from raw elided visible i) \<longleftrightarrow>
     v \<in> set visible \<and> v \<notin> set elided \<and> (\<exists>c \<in> set (raw_hierarchy raw i). (c, v) \<in> (hidden_step raw (set elided))\<^sup>*)"
  by (auto simp: edges_from_def nearest_visible_iff)

lemma children_edges:
  "set (children_of (fold (add_presentation_edge s) vs m) x) =
     set (children_of m x) \<union> (if x = s \<and> s \<in> node_ids m then {v \<in> set vs. v \<noteq> s \<and> v \<in> node_ids m} else {})"
  by (induction vs arbitrary: m) (auto simp: children_add_presentation_edge)

lemma node_ids_connect_node [simp]: "node_ids (connect_node raw elided visible i m) = node_ids m"
  by (simp add: connect_node_eq fold_same [where g = node_ids])

lemma children_connect_node:
  "set (children_of (connect_node raw elided visible i m) x) =
     set (children_of m x) \<union> (if x = i \<and> i \<in> node_ids m
        then {v \<in> set (edges_from raw elided visible i). v \<noteq> i \<and> v \<in> node_ids m} else {})"
  by (simp only: connect_node_eq children_edges)

lemma children_connect:
  "set (children_of (fold (connect_node raw elided visible) is m) x) =
     set (children_of m x) \<union> (if x \<in> set is \<and> x \<in> node_ids m
        then {v \<in> set (edges_from raw elided visible x). v \<noteq> x \<and> v \<in> node_ids m} else {})"
proof (induction "is" arbitrary: m)
  case (Cons i "is")
  show ?case by (auto simp: Cons.IH children_connect_node)
qed simp

lemma connect_node_invariants:
  assumes "keyed m" and "links_sound m"
  shows "keyed (connect_node raw elided visible i m)" and "links_sound (connect_node raw elided visible i m)"
  using assms unfolding connect_node_eq
  by (auto intro: fold_invariant_set keyed_add_presentation_edge links_sound_add_presentation_edge)

subsection \<open>The presented nodes\<close>

definition raw_of :: "wf_node list \<Rightarrow> string \<Rightarrow> wf_node option" where
  "raw_of raws = map_of (map_from (map (\<lambda>n. (wn_id n, n)) raws))"

definition shown_ids :: "wf_node list \<Rightarrow> string set" where
  "shown_ids raws = wn_id ` set raws - set (elided_ids raws)"

lemma presentation_start_mem: "(k, n) \<in> set (presentation_start raws w) \<Longrightarrow> \<exists>r \<in> set raws. n = presented w r \<and> k = wn_id r"
  using map_from_subset by (fastforce simp: presentation_start_def)

lemma presentation_start_keys [simp]: "node_ids (presentation_start raws w) = shown_ids raws"
  by (auto simp: node_ids_def presentation_start_def map_from_keys shown_ids_def image_image)

lemma presentation_start_unlinked: "children_of (presentation_start raws w) = (\<lambda>_. [])" "parents_of (presentation_start raws w) = (\<lambda>_. [])"
  using presentation_start_mem
  by (fastforce simp: children_of_def parents_of_def presented_def fun_eq_iff split: option.split dest!: map_of_SomeD)+

lemma keyed_presentation_start: "keyed (presentation_start raws w)"
  unfolding presentation_start_def by (rule keyed_map_from) (auto simp: presented_def)

lemma connected_map_invariants: "keyed (connected_map raws w)" "links_sound (connected_map raws w)"
proof -
  let ?m = "presentation_start raws w"
  have "links_sound ?m" by (simp add: links_sound_def presentation_start_unlinked)
  then have "keyed (connected_map raws w) \<and> links_sound (connected_map raws w)"
    unfolding connected_map_def Let_def
    using keyed_presentation_start connect_node_invariants by (intro fold_invariant_set [where P = "\<lambda>m. keyed m \<and> links_sound m"]) auto
  then show "keyed (connected_map raws w)" "links_sound (connected_map raws w)" by auto
qed

lemma connected_map_children:
  "t \<in> set (children_of (connected_map raws w) s) \<longleftrightarrow>
     s \<in> shown_ids raws \<and> t \<in> shown_ids raws \<and> t \<noteq> s
     \<and> (\<exists>c \<in> set (raw_hierarchy (raw_of raws) s). (c, t) \<in> (hidden_step (raw_of raws) (set (elided_ids raws)))\<^sup>*)"
proof -
  have visible: "set (map fst (presentation_start raws w)) = shown_ids raws"
    using presentation_start_keys [of raws w] by (simp add: node_ids_def)
  have not_elided: "t \<notin> set (elided_ids raws)" if "t \<in> shown_ids raws" using that by (simp add: shown_ids_def)
  show ?thesis
    unfolding connected_map_def Let_def children_connect raw_of_def [symmetric] presentation_start_unlinked presentation_start_keys
      visible
    using not_elided by (auto simp: edges_from_iff visible simp del: set_map)
qed
subsection \<open>Naming the shown nodes leaves the graph alone\<close>

definition same_graph :: "node_map \<Rightarrow> node_map \<Rightarrow> bool" where
  "same_graph m m' = (map fst m' = map fst m \<and> (keyed m \<longrightarrow> keyed m') \<and> children_of m' = children_of m \<and> parents_of m' = parents_of m)"

lemma same_graph_refl [simp]: "same_graph m m"
  by (simp add: same_graph_def)

lemma same_graph_trans: "same_graph m m' \<Longrightarrow> same_graph m' m'' \<Longrightarrow> same_graph m m''"
  by (simp add: same_graph_def)

lemma same_graph_change:
  assumes "\<And>n. wn_id (f n) = wn_id n" and "\<And>n. wn_child_ids (f n) = wn_child_ids n" and "\<And>n. wn_parent_ids (f n) = wn_parent_ids n"
  shows "same_graph m (change_node i f m)"
  using assms by (simp add: same_graph_def keyed_change_node links_change_node)

lemma same_graph_fold: "(\<And>x m. same_graph m (f x m)) \<Longrightarrow> same_graph m (fold f xs m)"
  by (induction xs arbitrary: m) (auto intro: same_graph_trans)

lemma same_graph_number_steps: "same_graph m (number_steps raw elided visible h m)"
  by (auto simp: number_steps_def split: option.split list.split intro!: same_graph_fold same_graph_change)

lemma same_graph_normalize: "same_graph m (normalize_grouped_children i m)"
proof -
  have attempt: "same_graph m (change_node c (name_attempt p) m)" for c p m
    by (rule same_graph_change) (simp_all add: name_attempt_def split: option.split)
  have run: "same_graph m (change_node c name_run m)" for c m
    by (rule same_graph_change) (simp_all add: name_run_def split: option.split)
  show ?thesis
    unfolding normalize_grouped_children_def
    by (auto simp: Let_def split: option.split
        intro!: same_graph_fold [OF attempt] same_graph_trans [OF same_graph_change same_graph_fold [OF run]])
qed

lemma presentation_same_graph: "same_graph (connected_map raws w) (presentation_map raws w)"
  unfolding presentation_map_def Let_def
  by (intro same_graph_trans [OF same_graph_fold same_graph_fold] same_graph_number_steps same_graph_normalize)

lemma node_ids_presentation: "node_ids (presentation_map raws w) = shown_ids raws"
proof -
  have "node_ids (connected_map raws w) = shown_ids raws"
    by (simp add: connected_map_def Let_def fold_same [where g = node_ids])
  then show ?thesis using presentation_same_graph [of raws w] node_ids_eq by (metis same_graph_def)
qed

definition visible_below :: "wf_node list \<Rightarrow> string \<Rightarrow> string set" where
  \<comment> \<open>the shown nodes that a shown node leads to through nodes that are left out\<close>
  "visible_below raws s =
     {t \<in> shown_ids raws. t \<noteq> s
        \<and> (\<exists>c \<in> set (raw_hierarchy (raw_of raws) s). (c, t) \<in> (hidden_step (raw_of raws) (set (elided_ids raws)))\<^sup>*)}"

lemma keyed_links:
  assumes "keyed m" and "n \<in> set (map snd m)"
  shows "children_of m (wn_id n) = wn_child_ids n" and "parents_of m (wn_id n) = wn_parent_ids n" and "wn_id n \<in> node_ids m"
proof -
  have "map_of m (wn_id n) = Some n" using assms keyed_mem_iff [OF assms(1)] by simp
  then show "children_of m (wn_id n) = wn_child_ids n" and "parents_of m (wn_id n) = wn_parent_ids n" and "wn_id n \<in> node_ids m"
    using map_of_not_none [of m "wn_id n"] by (auto simp: children_of_def parents_of_def)
qed

lemma keyed_distinct: "keyed m \<Longrightarrow> distinct (map wn_id (map snd m))"
proof -
  assume keyed: "keyed m"
  then have "map wn_id (map snd m) = map fst m" using keyed_ids by simp
  then show ?thesis using keyed by (simp only: keyed_def)
qed

lemma keyed_node_ids: "keyed m \<Longrightarrow> wn_id ` set (map snd m) = node_ids m"
  by (force simp: keyed_def node_ids_def)

lemma set_sort_nodes [simp]: "set (sort_nodes parse lc ns) = set ns"
  by (simp add: sort_nodes_def)

lemma distinct_ids_sort_nodes: "distinct (map wn_id (sort_nodes parse lc ns)) \<longleftrightarrow> distinct (map wn_id ns)"
  unfolding sort_nodes_def by (metis mset_js_sort mset_eq_imp_distinct_iff mset_map)

lemma built_nodes:
  assumes "build_presentation_graph parse lc raws w = (ns, roots)"
  shows "set ns = set (map snd (presentation_map raws w))" and "roots = filter is_root ns" and "distinct (map wn_id ns)"
proof -
  have "keyed (presentation_map raws w)"
    using presentation_same_graph [of raws w] connected_map_invariants [of raws w] by (simp add: same_graph_def)
  then have distinct: "distinct (map wn_id (map snd (presentation_map raws w)))" by (rule keyed_distinct)
  have ns: "ns = sort_nodes parse lc (map snd (presentation_map raws w))" and roots: "roots = filter is_root ns"
    using assms by (auto simp: build_presentation_graph_def Let_def)
  show "set ns = set (map snd (presentation_map raws w))" unfolding ns by (rule set_sort_nodes)
  show "roots = filter is_root ns" by (rule roots)
  show "distinct (map wn_id ns)" unfolding ns distinct_ids_sort_nodes by (rule distinct)
qed

text \<open>
  C16. The tree that is shown is the part of the workflow that is not left out: its nodes are those, each
  once; a node's children are exactly the shown nodes that its hierarchy leads to through nodes left out,
  whatever cycles these form; its parents are exactly the nodes it is a child of; a root has none.
\<close>
theorem shown_graph_is_the_visible_part:
  assumes "build_presentation_graph parse lc raws w = (ns, roots)"
  shows "distinct (map wn_id ns) \<and> wn_id ` set ns = shown_ids raws
    \<and> (\<forall>n \<in> set ns. set (wn_child_ids n) = visible_below raws (wn_id n) \<and> distinct (wn_child_ids n)
         \<and> set (wn_parent_ids n) = {wn_id p | p. p \<in> set ns \<and> wn_id n \<in> set (wn_child_ids p)} \<and> distinct (wn_parent_ids n))
    \<and> set roots = {n \<in> set ns. \<forall>p \<in> set ns. wn_id n \<notin> set (wn_child_ids p)}"
proof -
  let ?m = "presentation_map raws w"
  have same: "children_of ?m = children_of (connected_map raws w)" "parents_of ?m = parents_of (connected_map raws w)"
    using presentation_same_graph [of raws w] by (auto simp: same_graph_def)
  have keyed: "keyed ?m" and links: "links_sound ?m"
    using presentation_same_graph [of raws w] connected_map_invariants [of raws w] by (auto simp: same_graph_def links_sound_def)
  note ns = built_nodes [OF assms]
  have ids: "wn_id ` set ns = shown_ids raws"
    using keyed_node_ids [OF keyed] node_ids_presentation [of raws w] by (simp add: ns(1))
  have node: "children_of ?m (wn_id n) = wn_child_ids n \<and> parents_of ?m (wn_id n) = wn_parent_ids n" if "n \<in> set ns" for n
    using keyed_links [OF keyed] that by (simp add: ns(1))
  have children: "set (wn_child_ids n) = visible_below raws (wn_id n)" if "n \<in> set ns" for n
  proof -
    have "wn_id n \<in> shown_ids raws" using ids that by blast
    then have "set (children_of ?m (wn_id n)) = visible_below raws (wn_id n)"
      unfolding same visible_below_def by (auto simp: connected_map_children)
    then show ?thesis using node [OF that] by simp
  qed
  have parents: "set (wn_parent_ids n) = {wn_id p | p. p \<in> set ns \<and> wn_id n \<in> set (wn_child_ids p)}" if "n \<in> set ns" for n
  proof -
    have "s \<in> set (wn_parent_ids n) \<longleftrightarrow> (\<exists>p \<in> set ns. s = wn_id p \<and> wn_id n \<in> set (wn_child_ids p))" for s
    proof -
      have "s \<in> set (wn_parent_ids n) \<longleftrightarrow> wn_id n \<in> set (children_of ?m s)"
        using links node [OF that] by (simp add: links_sound_def)
      moreover have "s \<in> shown_ids raws" if "wn_id n \<in> set (children_of ?m s)"
        using that by (simp add: same connected_map_children)
      moreover have "(\<exists>p \<in> set ns. s = wn_id p) \<longleftrightarrow> s \<in> shown_ids raws" using ids by blast
      moreover have "children_of ?m (wn_id p) = wn_child_ids p" if "p \<in> set ns" for p using node [OF that] by simp
      ultimately show ?thesis by metis
    qed
    then show ?thesis by blast
  qed
  have distinct: "distinct (wn_child_ids n) \<and> distinct (wn_parent_ids n)" if "n \<in> set ns" for n
  proof -
    have "distinct (children_of ?m (wn_id n)) \<and> distinct (parents_of ?m (wn_id n))" using links by (simp add: links_sound_def)
    then show ?thesis using node [OF that] by simp
  qed
  have "wn_parent_ids n = [] \<longleftrightarrow> (\<forall>p \<in> set ns. wn_id n \<notin> set (wn_child_ids p))" if "n \<in> set ns" for n
  proof -
    have "set (wn_parent_ids n) = {} \<longleftrightarrow> (\<forall>p \<in> set ns. wn_id n \<notin> set (wn_child_ids p))"
      unfolding parents [OF that] by blast
    then show ?thesis by simp
  qed
  then have "set roots = {n \<in> set ns. \<forall>p \<in> set ns. wn_id n \<notin> set (wn_child_ids p)}"
    by (auto simp: ns(2) is_root_def)
  then show ?thesis using ns(3) ids children parents distinct by blast
qed
text \<open>A step group of one step between a template and its Pod, as nodes of a status.\<close>

definition example_wf_node :: "string \<Rightarrow> string \<Rightarrow> string list \<Rightarrow> wf_node" where
  "example_wf_node i tp children =
     (node_of_entry [] i (JObj [(''type'', JStr tp), (''phase'', JStr ''Succeeded'')]))
       \<lparr>wn_child_ids := children, wn_hierarchy_child_ids := children\<rparr>"

definition example_steps :: "wf_node list" where
  "example_steps = [example_wf_node ''a'' ''Steps'' [''g''], example_wf_node ''g'' ''StepGroup'' [''p''], example_wf_node ''p'' ''Pod'' []]"

lemma shown_graph_is_the_visible_part_witness: "visible_below example_steps ''a'' = {''p''}"
proof -
  let ?b = "build_presentation_graph (\<lambda>_. None) str_cmp example_steps []"
  have "\<exists>n \<in> set (fst ?b). wn_id n = ''a'' \<and> wn_child_ids n = [''p'']" by code_simp
  then show ?thesis using shown_graph_is_the_visible_part [of "\<lambda>_. None" str_cmp example_steps "[]" "fst ?b" "snd ?b"] by fastforce
qed

section \<open>What the status says\<close>

definition plain_ids :: "string set \<Rightarrow> bool" where
  \<comment> \<open>no id holds the character that separates the parts of an edge's key\<close>
  "plain_ids ids = (\<forall>i \<in> ids. CHR 0x00 \<notin> set i)"

definition linking :: "node_map \<times> string list \<Rightarrow> bool" where
  \<comment> \<open>what the loops keep: the keys are those of the links\<close>
  "linking st = (case st of (m, keys) \<Rightarrow>
     plain_ids (node_ids m) \<and> keyed m \<and> links_sound m \<and> distinct keys
     \<and> set keys = {workflow_edge_key s t | s t. t \<in> set (children_of m s)}
     \<and> (\<forall>s t. t \<in> set (children_of m s) \<longrightarrow> s \<in> node_ids m \<and> t \<in> node_ids m))"

lemma workflow_edge_key_inject:
  assumes "plain_ids ids" and "s \<in> ids" and "s' \<in> ids"
  shows "workflow_edge_key s t = workflow_edge_key s' t' \<longleftrightarrow> s = s' \<and> t = t'"
  using append_sep_inject [of "CHR 0x00" s s' t t'] assms by (auto simp: workflow_edge_key_def plain_ids_def)

lemma linking_key_iff:
  assumes "linking (m, keys)" and "s \<in> node_ids m"
  shows "workflow_edge_key s t \<in> set keys \<longleftrightarrow> t \<in> set (children_of m s)"
proof
  assume "workflow_edge_key s t \<in> set keys"
  then obtain s' t' where "workflow_edge_key s t = workflow_edge_key s' t'" "t' \<in> set (children_of m s')" using assms(1) by (auto simp: linking_def)
  moreover from this have "s' \<in> node_ids m" using assms(1) by (auto simp: linking_def)
  ultimately show "t \<in> set (children_of m s)"
    using workflow_edge_key_inject [of "node_ids m" s s'] assms by (auto simp: linking_def)
next
  assume "t \<in> set (children_of m s)"
  then show "workflow_edge_key s t \<in> set keys" using assms(1) by (auto simp: linking_def)
qed

lemma add_workflow_edge_linking:
  assumes "linking (m, keys)"
  shows "linking (add_workflow_edge s t (m, keys))"
    and "node_ids (fst (add_workflow_edge s t (m, keys))) = node_ids m"
    and "set (children_of (fst (add_workflow_edge s t (m, keys))) x) =
      set (children_of m x) \<union> (if x = s \<and> s \<in> node_ids m \<and> t \<in> node_ids m then {t} else {})"
proof -
  have "linking (add_workflow_edge s t (m, keys)) \<and> node_ids (fst (add_workflow_edge s t (m, keys))) = node_ids m
    \<and> set (children_of (fst (add_workflow_edge s t (m, keys))) x) =
      set (children_of m x) \<union> (if x = s \<and> s \<in> node_ids m \<and> t \<in> node_ids m then {t} else {})"
  proof (cases "s \<in> node_ids m \<and> t \<in> node_ids m \<and> t \<notin> set (children_of m s)")
    case True
    then have key: "workflow_edge_key s t \<notin> set keys" using linking_key_iff [OF assms] by simp
    then have eq: "add_workflow_edge s t (m, keys) = (link_nodes s t m, keys @ [workflow_edge_key s t])"
      using True by (simp add: add_workflow_edge_def map_of_none_iff)
    have in_map: "map_of m s \<noteq> None" "map_of m t \<noteq> None" using True by (simp_all add: map_of_none_iff)
    have "links_sound (link_nodes s t m)" using assms True in_map by (auto simp: linking_def intro: links_sound_link_nodes)
    moreover have "{workflow_edge_key a b | a b. b \<in> set (children_of (link_nodes s t m) a)}
        = insert (workflow_edge_key s t) {workflow_edge_key a b | a b. b \<in> set (children_of m a)}"
      by (auto simp: children_link_nodes [OF in_map(1)] split: if_splits)
    ultimately show ?thesis
      using assms key True by (auto simp: eq linking_def keyed_link_nodes children_link_nodes [OF in_map(1)] split: if_splits)
  next
    case False
    then have "add_workflow_edge s t (m, keys) = (m, keys)"
      using linking_key_iff [OF assms, of s t] by (auto simp: add_workflow_edge_def map_of_none_iff)
    then show ?thesis using False assms by auto
  qed
  then show "linking (add_workflow_edge s t (m, keys))"
    and "node_ids (fst (add_workflow_edge s t (m, keys))) = node_ids m"
    and "set (children_of (fst (add_workflow_edge s t (m, keys))) x) =
      set (children_of m x) \<union> (if x = s \<and> s \<in> node_ids m \<and> t \<in> node_ids m then {t} else {})" by auto
qed

lemma linking_change:
  assumes "linking (m, keys)" and "\<And>n. wn_id (f n) = wn_id n" and "\<And>n. wn_child_ids (f n) = wn_child_ids n"
    and "\<And>n. wn_parent_ids (f n) = wn_parent_ids n"
  shows "linking (change_node i f m, keys)"
  using assms by (simp add: linking_def keyed_change_node links_change_node links_sound_def)

lemma add_edges_linking:
  assumes "linking st"
  shows "linking (fold (\<lambda>c st. if map_of (fst st) c = None then st else add_workflow_edge i c st) cs st)
    \<and> node_ids (fst (fold (\<lambda>c st. if map_of (fst st) c = None then st else add_workflow_edge i c st) cs st)) = node_ids (fst st)
    \<and> set (children_of (fst (fold (\<lambda>c st. if map_of (fst st) c = None then st else add_workflow_edge i c st) cs st)) x) =
        set (children_of (fst st) x) \<union> (if x = i \<and> i \<in> node_ids (fst st) then {c \<in> set cs. c \<in> node_ids (fst st)} else {})"
  using assms
proof (induction cs arbitrary: st)
  case Nil
  then show ?case by simp
next
  case (Cons c cs)
  obtain m keys where st: "st = (m, keys)" by (cases st)
  show ?case
  proof (cases "c \<in> node_ids m")
    case True
    note add = add_workflow_edge_linking [OF Cons.prems [unfolded st], of i c]
    show ?thesis using Cons.IH [OF add(1)] add True by (auto simp: st map_of_none_iff split: if_splits)
  next
    case False
    then show ?thesis using Cons.IH [OF Cons.prems] by (auto simp: st map_of_none_iff split: if_splits)
  qed
qed

lemma link_entry_linking:
  assumes "linking st"
  shows "linking (link_entry (i, raw) st) \<and> node_ids (fst (link_entry (i, raw) st)) = node_ids (fst st)
    \<and> set (children_of (fst (link_entry (i, raw) st)) x) =
        set (children_of (fst st) x) \<union> (if x = i \<and> i \<in> node_ids (fst st) then {c \<in> set (declared_children raw). c \<in> node_ids (fst st)} else {})"
proof -
  obtain m keys where st: "st = (m, keys)" by (cases st)
  let ?f = "\<lambda>n. n\<lparr>wn_hierarchy_child_ids := filter (\<lambda>c. map_of m c \<noteq> None) (hierarchy_children raw)\<rparr>"
  have "linking (change_node i ?f m, keys)" using assms by (simp add: st linking_change)
  moreover have "children_of (change_node i ?f m) = children_of m" by (rule links_change_node) simp_all
  ultimately show ?thesis
    using add_edges_linking [of "(change_node i ?f m, keys)" i "declared_children raw" x] assms
    by (cases "i \<in> node_ids m") (auto simp: st link_entry_def map_of_none_iff)
qed

lemma link_entries_linking:
  assumes "linking st"
  shows "linking (fold link_entry es st) \<and> node_ids (fst (fold link_entry es st)) = node_ids (fst st)
    \<and> set (children_of (fst (fold link_entry es st)) x) = set (children_of (fst st) x)
        \<union> {c \<in> node_ids (fst st). x \<in> node_ids (fst st) \<and> (\<exists>raw. (x, raw) \<in> set es \<and> c \<in> set (declared_children raw))}"
  using assms
proof (induction es arbitrary: st)
  case Nil
  then show ?case by simp
next
  case (Cons e es)
  obtain i raw where e: "e = (i, raw)" by (cases e)
  note one = link_entry_linking [OF Cons.prems, of i raw]
  show ?case using Cons.IH [of "link_entry e st"] one by (auto simp: e split: if_splits)
qed
subsection \<open>Boundaries\<close>

lemma linking_keyed: "linking st \<Longrightarrow> keyed (fst st)"
  by (cases st) (simp add: linking_def)

definition boundary_of :: "node_map \<Rightarrow> string \<Rightarrow> string" where
  "boundary_of m i = (case map_of m i of None \<Rightarrow> [] | Some n \<Rightarrow> wn_boundary_id n)"

lemma boundary_of_change: "(\<And>n. wn_boundary_id (f n) = wn_boundary_id n) \<Longrightarrow> boundary_of (change_node i f m) = boundary_of m"
  by (auto simp: boundary_of_def map_of_change_node split: option.splits)

lemma boundary_of_add [simp]: "boundary_of (fst (add_workflow_edge s t st)) = boundary_of (fst st)"
  by (cases st) (auto simp: add_workflow_edge_def link_nodes_def boundary_of_change)

lemma boundary_of_link_entry [simp]: "boundary_of (fst (link_entry e st)) = boundary_of (fst st)"
proof -
  obtain m keys i raw where st: "st = (m, keys)" "e = (i, raw)" by (cases st, cases e)
  have "boundary_of (fst (fold (\<lambda>c st. if map_of (fst st) c = None then st else add_workflow_edge i c st) cs st')) = boundary_of (fst st')"
    for cs st' by (rule fold_same [where g = "\<lambda>st. boundary_of (fst st)"]) simp
  then show ?thesis by (simp add: st link_entry_def boundary_of_change)
qed

definition adopted :: "node_map \<Rightarrow> string \<Rightarrow> string \<Rightarrow> bool" where
  \<comment> \<open>a node without a parent has this boundary\<close>
  "adopted m b i = (i \<in> node_ids m \<and> (\<forall>s. i \<notin> set (children_of m s)) \<and> boundary_of m i = b \<and> b \<noteq> [] \<and> b \<noteq> i \<and> b \<in> node_ids m)"

lemma adopt_by_boundary_linking:
  assumes "linking st"
  shows "linking (adopt_by_boundary i st)"
    and "node_ids (fst (adopt_by_boundary i st)) = node_ids (fst st)"
    and "boundary_of (fst (adopt_by_boundary i st)) = boundary_of (fst st)"
    and "set (children_of (fst (adopt_by_boundary i st)) x) = set (children_of (fst st) x) \<union> {c. c = i \<and> adopted (fst st) x i}"
proof -
  obtain m keys where st: "st = (m, keys)" by (cases st)
  have "linking (adopt_by_boundary i st) \<and> node_ids (fst (adopt_by_boundary i st)) = node_ids m
    \<and> boundary_of (fst (adopt_by_boundary i st)) = boundary_of m
    \<and> set (children_of (fst (adopt_by_boundary i st)) x) = set (children_of m x) \<union> {c. c = i \<and> adopted m x i}"
  proof (cases "map_of m i")
    case None
    then have "i \<notin> node_ids m" using map_of_none_iff [of m i] by (rule iffD1 [rotated])
    then show ?thesis using None assms by (simp add: st adopt_by_boundary_def adopted_def)
  next
    case (Some node)
    have keyed: "keyed m" and links: "links_sound m" using assms by (simp_all add: st linking_def)
    have id: "wn_id node = i" by (rule keyed_map_of [OF keyed Some])
    have b: "boundary_of m i = wn_boundary_id node" and i: "i \<in> node_ids m"
      using Some map_of_not_none [of m i] by (simp_all add: boundary_of_def)
    have "wn_parent_ids node = [] \<longleftrightarrow> (\<forall>s. i \<notin> set (children_of m s))"
      using links Some by (auto simp: links_sound_def parents_of_def split: option.splits)
    then have cond: "(wn_parent_ids node \<noteq> [] \<or> wn_boundary_id node = [] \<or> wn_boundary_id node = wn_id node
        \<or> map_of m (wn_boundary_id node) = None) \<longleftrightarrow> \<not> adopted m (boundary_of m i) i"
      using i by (auto simp: adopted_def b id map_of_none_iff)
    show ?thesis
    proof (cases "adopted m (boundary_of m i) i")
      case False
      then have "adopt_by_boundary i st = st" using cond Some by (auto simp: adopt_by_boundary_def st Let_def)
      moreover have "\<not> adopted m x i" using False by (auto simp: adopted_def)
      ultimately show ?thesis using assms by (simp add: st)
    next
      case True
      let ?b = "boundary_of m i"
      let ?f = "\<lambda>p. if i \<in> set (wn_hierarchy_child_ids p) then p else p\<lparr>wn_hierarchy_child_ids := wn_hierarchy_child_ids p @ [i]\<rparr>"
      obtain m' keys' where add: "add_workflow_edge ?b i (m, keys) = (m', keys')" by fastforce
      have eq: "adopt_by_boundary i st = (change_node ?b ?f m', keys')"
      proof -
        have fresh: "\<not> (wn_parent_ids node \<noteq> [] \<or> wn_boundary_id node = [] \<or> wn_boundary_id node = wn_id node
            \<or> map_of m (wn_boundary_id node) = None)" using cond True by blast
        have "add_workflow_edge (wn_boundary_id node) (wn_id node) (m, keys) = (m', keys')" using add by (simp only: b id)
        then show ?thesis using fresh by (simp only: adopt_by_boundary_def st fst_conv Some option.case Let_def if_False prod.case id b)
      qed
      note facts = add_workflow_edge_linking [OF assms [unfolded st], of ?b i, unfolded add fst_conv]
      have "linking (change_node ?b ?f m', keys')" by (rule linking_change [OF facts(1)]) simp_all
      moreover have "children_of (change_node ?b ?f m') = children_of m'" by (rule links_change_node) simp_all
      moreover have "boundary_of (change_node ?b ?f m') = boundary_of m"
        using boundary_of_add [of ?b i "(m, keys)"] by (simp add: add boundary_of_change)
      moreover have "adopted m x i \<longleftrightarrow> x = ?b" using True by (auto simp: adopted_def)
      ultimately show ?thesis using facts True by (auto simp: eq adopted_def)
    qed
  qed
  then show "linking (adopt_by_boundary i st)"
    and "node_ids (fst (adopt_by_boundary i st)) = node_ids (fst st)"
    and "boundary_of (fst (adopt_by_boundary i st)) = boundary_of (fst st)"
    and "set (children_of (fst (adopt_by_boundary i st)) x) = set (children_of (fst st) x) \<union> {c. c = i \<and> adopted (fst st) x i}"
    by (simp_all add: st)
qed

lemma adopt_all_linking:
  assumes "linking st" and "distinct is"
  shows "linking (fold adopt_by_boundary is st) \<and> node_ids (fst (fold adopt_by_boundary is st)) = node_ids (fst st)
    \<and> set (children_of (fst (fold adopt_by_boundary is st)) x) = set (children_of (fst st) x) \<union> {i \<in> set is. adopted (fst st) x i}"
  using assms
proof (induction "is" arbitrary: st)
  case Nil
  then show ?case by simp
next
  case (Cons i "is")
  note one = adopt_by_boundary_linking [OF Cons.prems(1), of i]
  have "adopted (fst (adopt_by_boundary i st)) x j \<longleftrightarrow> adopted (fst st) x j" if "j \<in> set is" for j
  proof -
    have "j \<noteq> i" using that Cons.prems(2) by auto
    then show ?thesis using one(2,3) one(4) by (simp add: adopted_def)
  qed
  then show ?case using Cons.IH [OF one(1)] Cons.prems(2) one by auto
qed

definition declares :: "json option \<Rightarrow> string \<Rightarrow> string \<Rightarrow> bool" where
  \<comment> \<open>the status names the second node among the children or outbound nodes of the first\<close>
  "declares workflow s t =
     (\<exists>raw. map_of (status_nodes workflow) s = Some raw \<and> t \<in> set (declared_children raw)
        \<and> t \<in> fst ` set (status_nodes workflow))"

definition bounded_by :: "json option \<Rightarrow> string \<Rightarrow> string \<Rightarrow> bool" where
  \<comment> \<open>the second node, which the status hangs nowhere, has the first for its boundary\<close>
  "bounded_by workflow b t =
     (\<exists>raw. map_of (status_nodes workflow) t = Some raw \<and> as_string (map_of (as_record (Some raw)) ''boundaryID'') = b
        \<and> b \<noteq> [] \<and> b \<noteq> t \<and> b \<in> fst ` set (status_nodes workflow) \<and> \<not> (\<exists>s. declares workflow s t))"

lemma map_of_entries: "map_of (map (\<lambda>(i, x). (i, f i x)) kvs) k = map_option (f k) (map_of kvs k)"
  by (induction kvs) auto

lemma node_of_entry_fields [simp]:
  "wn_id (node_of_entry ns i raw) = i" "wn_child_ids (node_of_entry ns i raw) = []" "wn_parent_ids (node_of_entry ns i raw) = []"
  "wn_boundary_id (node_of_entry ns i raw) = as_string (map_of (as_record (Some raw)) ''boundaryID'')"
  by (simp_all add: node_of_entry_def Let_def)

lemma entry_map_facts:
  assumes "distinct (map fst (status_nodes workflow))"
  shows "node_ids (entry_map workflow) = fst ` set (status_nodes workflow)" and "children_of (entry_map workflow) = (\<lambda>_. [])"
    and "boundary_of (entry_map workflow) t =
      (case map_of (status_nodes workflow) t of None \<Rightarrow> [] | Some raw \<Rightarrow> as_string (map_of (as_record (Some raw)) ''boundaryID''))"
    and "plain_ids (fst ` set (status_nodes workflow)) \<Longrightarrow> linking (entry_map workflow, [])"
proof -
  let ?ns = "as_string (json_path workflow [''metadata'', ''namespace''])"
  let ?kvs = "map (\<lambda>(i, raw). (i, node_of_entry ?ns i raw)) (status_nodes workflow)"
  have keys: "map fst ?kvs = map fst (status_nodes workflow)" by auto
  have map: "map_of (entry_map workflow) t = map_option (node_of_entry ?ns t) (map_of (status_nodes workflow) t)" for t
  proof -
    have "map_of (entry_map workflow) t = map_of ?kvs t"
      using assms unfolding entry_map_def map_of_map_from by (intro map_of_rev_distinct) (simp only: keys)
    also have "\<dots> = map_option (node_of_entry ?ns t) (map_of (status_nodes workflow) t)"
      by (rule map_of_entries)
    finally show ?thesis .
  qed
  show ids: "node_ids (entry_map workflow) = fst ` set (status_nodes workflow)"
    unfolding node_ids_def entry_map_def map_from_keys by force
  have keyed: "keyed (entry_map workflow)"
    unfolding entry_map_def by (rule keyed_map_from) auto
  show children: "children_of (entry_map workflow) = (\<lambda>_. [])"
    by (rule ext) (simp add: children_of_def map split: option.split)
  have "parents_of (entry_map workflow) = (\<lambda>_. [])"
    by (rule ext) (simp add: parents_of_def map split: option.split)
  then show "plain_ids (fst ` set (status_nodes workflow)) \<Longrightarrow> linking (entry_map workflow, [])"
    using keyed children ids by (simp add: linking_def links_sound_def)
  show "boundary_of (entry_map workflow) t =
      (case map_of (status_nodes workflow) t of None \<Rightarrow> [] | Some raw \<Rightarrow> as_string (map_of (as_record (Some raw)) ''boundaryID''))"
    by (simp add: boundary_of_def map split: option.split)
qed

lemma linked_map_facts:
  assumes "distinct (map fst (status_nodes workflow))" and "plain_ids (fst ` set (status_nodes workflow))"
  shows "linking (linked_map workflow)" and "node_ids (fst (linked_map workflow)) = fst ` set (status_nodes workflow)"
    and "t \<in> set (children_of (fst (linked_map workflow)) s) \<longleftrightarrow> declares workflow s t \<or> bounded_by workflow s t"
proof -
  note entry = entry_map_facts [OF assms(1)]
  let ?ids = "fst ` set (status_nodes workflow)"
  let ?st = "fold link_entry (status_nodes workflow) (entry_map workflow, [])"
  note linked = link_entries_linking [OF entry(4) [OF assms(2)], of "status_nodes workflow"]
  have children: "c \<in> set (children_of (fst ?st) x) \<longleftrightarrow> declares workflow x c" for c x
  proof -
    have "(x, raw) \<in> set (status_nodes workflow) \<longleftrightarrow> map_of (status_nodes workflow) x = Some raw" for raw
      using assms(1) by (simp add: map_of_eq_Some_iff)
    then show ?thesis using linked [of x] by (auto simp: entry(1,2) declares_def) (metis map_of_SomeD fst_conv image_eqI)
  qed
  have ids: "node_ids (fst ?st) = ?ids" using linked by (simp add: entry(1))
  have boundary: "boundary_of (fst ?st) = boundary_of (entry_map workflow)"
    using fold_same [of "status_nodes workflow" "\<lambda>st. boundary_of (fst st)" link_entry "(entry_map workflow, [])"] by simp
  have adopted: "adopted (fst ?st) s t \<longleftrightarrow> bounded_by workflow s t"
    using map_of_eq_None_iff [of "status_nodes workflow" t]
    by (cases "map_of (status_nodes workflow) t") (auto simp: adopted_def bounded_by_def ids boundary children entry(3))
  have "keyed (fst ?st)" using linked linking_keyed by blast
  then have distinct: "distinct (map fst (fst ?st))" by (simp add: keyed_def)
  have eq: "linked_map workflow = fold adopt_by_boundary (map fst (fst ?st)) ?st" by (simp add: linked_map_def Let_def)
  have linking: "linking ?st" using linked by blast
  note all = adopt_all_linking [OF linking distinct, of s]
  show "linking (linked_map workflow)" and "node_ids (fst (linked_map workflow)) = ?ids"
    using all by (simp_all add: eq ids)
  have "t \<in> set (map fst (fst ?st))" if "adopted (fst ?st) s t" using that by (simp add: adopted_def node_ids_def)
  then show "t \<in> set (children_of (fst (linked_map workflow)) s) \<longleftrightarrow> declares workflow s t \<or> bounded_by workflow s t"
    using all by (auto simp: eq children adopted simp del: set_map)
qed

end
