(* ===== verification/Workflow_Execution.thy ===== *)
theory Workflow_Execution
  imports Workflow_Graph
begin

text \<open>
  What the views show of a workflow (\<open>packages/k8s-ui/src/utils/workflow-execution.ts\<close>, second half): the
  rows of the tree, the counts, the paths to what failed or runs, the activity, the templates it refers
  to, and the model that holds them all.
\<close>

section \<open>Rows\<close>

record wf_row =
  row_node :: wf_node
  row_depth :: nat

definition node_range :: "node_map \<Rightarrow> string set" where
  "node_range m = wn_id ` snd ` set m"

lemma finite_node_range [simp]: "finite (node_range m)"
  by (simp add: node_range_def)

lemma map_of_node_range: "map_of m i = Some n \<Longrightarrow> wn_id n \<in> node_range m"
  by (force simp: node_range_def dest: map_of_SomeD)

lemma map_filter_range: "x \<in> set (List.map_filter (map_of m) is) \<Longrightarrow> wn_id x \<in> node_range m"
  by (auto simp: List.map_filter_def dest: map_of_node_range)

text \<open>
  The nested visits as a loop over what is still to be visited: a visited node puts its children in front of
  what follows it.
\<close>

function visit_nodes :: "node_map \<Rightarrow> wf_row list \<Rightarrow> string list \<Rightarrow> wf_row list \<Rightarrow> wf_row list" where
  "visit_nodes m [] seen rows = rows"
| "visit_nodes m (r # todo) seen rows =
     (if wn_id (row_node r) \<in> set seen then visit_nodes m todo seen rows
      else visit_nodes m
             (map (\<lambda>c. \<lparr>row_node = c, row_depth = Suc (row_depth r)\<rparr>) (List.map_filter (map_of m) (wn_child_ids (row_node r))) @ todo)
             (wn_id (row_node r) # seen) (rows @ [r]))"
  by pat_completeness auto

termination
proof (relation "measures [\<lambda>(m, todo, seen, rows). card (node_range m \<union> (wn_id \<circ> row_node) ` set todo - set seen),
                           \<lambda>(m, todo, seen, rows). length todo]", goal_cases)
  case (2 m r todo seen rows)
  have "card (node_range m \<union> (wn_id \<circ> row_node) ` set todo - set seen)
      \<le> card (node_range m \<union> (wn_id \<circ> row_node) ` set (r # todo) - set seen)"
    by (rule card_mono) auto
  then show ?case by auto
next
  case (3 m r todo seen rows)
  let ?kids = "map (\<lambda>c. \<lparr>row_node = c, row_depth = Suc (row_depth r)\<rparr>) (List.map_filter (map_of m) (wn_child_ids (row_node r)))"
  have "(wn_id \<circ> row_node) ` set ?kids \<subseteq> node_range m" by (auto dest: map_filter_range)
  then have "node_range m \<union> (wn_id \<circ> row_node) ` set (?kids @ todo) - set (wn_id (row_node r) # seen)
      \<subset> node_range m \<union> (wn_id \<circ> row_node) ` set (r # todo) - set seen"
    using 3 by (auto simp: image_Un)
  then have "card (node_range m \<union> (wn_id \<circ> row_node) ` set (?kids @ todo) - set (wn_id (row_node r) # seen))
      < card (node_range m \<union> (wn_id \<circ> row_node) ` set (r # todo) - set seen)"
    by (intro psubset_card_mono) auto
  then show ?case by simp
qed simp

definition execution_nodes_by_id :: "wf_node list \<Rightarrow> node_map" where
  "execution_nodes_by_id ns = map_from (map (\<lambda>n. (wn_id n, n)) ns)"

section \<open>Counts and focus\<close>

datatype wf_tone = WtSuccess | WtDanger | WtWarning | WtInfo | WtMuted

definition phase_tone :: "string \<Rightarrow> wf_tone" where
  "phase_tone p =
     (if p = ''Succeeded'' then WtSuccess else if p = ''Failed'' \<or> p = ''Error'' then WtDanger
      else if p = ''Running'' \<or> p = ''Pending'' then WtWarning
      else if p = ''Skipped'' \<or> p = ''Omitted'' then WtMuted else WtInfo)"

record wf_counts =
  ct_pod_total :: nat
  ct_pod_succeeded :: nat
  ct_pod_failed :: nat
  ct_pod_running :: nat
  ct_pod_pending :: nat
  ct_node_total :: nat
  ct_node_succeeded :: nat
  ct_node_failed :: nat
  ct_node_running :: nat
  ct_node_skipped :: nat

definition no_counts :: wf_counts where
  "no_counts = \<lparr>ct_pod_total = 0, ct_pod_succeeded = 0, ct_pod_failed = 0, ct_pod_running = 0, ct_pod_pending = 0,
     ct_node_total = 0, ct_node_succeeded = 0, ct_node_failed = 0, ct_node_running = 0, ct_node_skipped = 0\<rparr>"

definition count_pod :: "string \<Rightarrow> wf_counts \<Rightarrow> wf_counts" where
  "count_pod p c0 =
     (let c = c0\<lparr>ct_pod_total := ct_pod_total c0 + 1\<rparr>
      in if p = ''Succeeded'' then c\<lparr>ct_pod_succeeded := ct_pod_succeeded c + 1\<rparr>
         else if is_workflow_problem_phase p then c\<lparr>ct_pod_failed := ct_pod_failed c + 1\<rparr>
         else if p = ''Running'' then c\<lparr>ct_pod_running := ct_pod_running c + 1\<rparr>
         else if p = ''Pending'' then c\<lparr>ct_pod_pending := ct_pod_pending c + 1\<rparr> else c)"

definition count_any :: "string \<Rightarrow> wf_counts \<Rightarrow> wf_counts" where
  "count_any p c0 =
     (let c = c0\<lparr>ct_node_total := ct_node_total c0 + 1\<rparr>
      in if p = ''Succeeded'' then c\<lparr>ct_node_succeeded := ct_node_succeeded c + 1\<rparr>
         else if is_workflow_problem_phase p then c\<lparr>ct_node_failed := ct_node_failed c + 1\<rparr>
         else if p = ''Running'' then c\<lparr>ct_node_running := ct_node_running c + 1\<rparr>
         else if p = ''Skipped'' \<or> p = ''Omitted'' then c\<lparr>ct_node_skipped := ct_node_skipped c + 1\<rparr> else c)"

definition count_execution_node :: "wf_node \<Rightarrow> wf_counts \<Rightarrow> wf_counts" where
  "count_execution_node n c = count_any (wn_phase n) (if wn_type n = ''Pod'' then count_pod (wn_phase n) c else c)"

definition count_workflow_execution :: "wf_node list \<Rightarrow> wf_counts" where
  "count_workflow_execution ns = fold count_execution_node ns no_counts"

definition is_leaf_type :: "string \<Rightarrow> bool" where
  "is_leaf_type t = (t = ''Pod'' \<or> t = ''Suspend'' \<or> t = ''Skipped'')"

definition is_activity_type :: "string \<Rightarrow> bool" where
  "is_activity_type t = (t = ''Pod'' \<or> t = ''HTTP'' \<or> t = ''Plugin'' \<or> t = ''Suspend'' \<or> t = ''Skipped'')"

definition failed_focus :: "wf_node \<Rightarrow> bool" where
  "failed_focus n = (is_workflow_problem_phase (wn_phase n)
     \<and> (is_leaf_type (wn_type n) \<or> wn_type n = ''Container'' \<or> wn_message n \<noteq> []))"

definition pick_focus_nodes :: "wf_node list \<Rightarrow> wf_node list" where
  "pick_focus_nodes ns =
     (let failed = filter failed_focus ns
      in if failed \<noteq> [] then take 12 failed
         else take 12 (filter (\<lambda>n. wn_phase n = ''Running'' \<or> wn_phase n = ''Pending'') ns))"

section \<open>The path to a node\<close>

definition first_parent ::
    "(string \<Rightarrow> int option) \<Rightarrow> (string \<Rightarrow> string \<Rightarrow> int) \<Rightarrow> node_map \<Rightarrow> wf_node \<Rightarrow> wf_node option" where
  \<comment> \<open>the least of the parents in the order of nodes, where it is a node of the map\<close>
  "first_parent parse lc m n =
     (case js_sort (\<lambda>a b. compare_execution_nodes parse lc (map_of m a) (map_of m b)) (wn_parent_ids n) of
        [] \<Rightarrow> None | p # _ \<Rightarrow> if p = [] then None else map_of m p)"

lemma first_parent_range: "first_parent parse lc m n = Some p \<Longrightarrow> wn_id p \<in> node_range m"
  by (auto simp: first_parent_def map_of_node_range split: list.splits if_splits)

function walk_up ::
    "(string \<Rightarrow> int option) \<Rightarrow> (string \<Rightarrow> string \<Rightarrow> int) \<Rightarrow> node_map \<Rightarrow> wf_node \<Rightarrow> string list \<Rightarrow> wf_node list \<Rightarrow> wf_node list" where
  "walk_up parse lc m n seen path =
     (if wn_id n \<in> set seen then path
      else case first_parent parse lc m n of
             None \<Rightarrow> n # path
           | Some p \<Rightarrow> walk_up parse lc m p (wn_id n # seen) (n # path))"
  by pat_completeness auto

termination
proof (relation "measure (\<lambda>(parse, lc, m, n, seen, path). card (insert (wn_id n) (node_range m) - set seen))", goal_cases)
  case (2 parse lc m n seen path p)
  have "insert (wn_id p) (node_range m) = node_range m"
    using first_parent_range [OF 2(2)] by auto
  then have "insert (wn_id p) (node_range m) - set (wn_id n # seen) \<subset> insert (wn_id n) (node_range m) - set seen"
    using 2(1) by auto
  then show ?case by (auto intro: psubset_card_mono)
qed simp

declare walk_up.simps [simp del]

definition lineage_path ::
    "(string \<Rightarrow> int option) \<Rightarrow> (string \<Rightarrow> string \<Rightarrow> int) \<Rightarrow> node_map \<Rightarrow> wf_node \<Rightarrow> wf_node list" where
  "lineage_path parse lc m terminal = walk_up parse lc m terminal [] []"

section \<open>Activity\<close>

function failed_below :: "node_map \<Rightarrow> string list \<Rightarrow> string list \<Rightarrow> bool" where
  \<comment> \<open>the queue of \<open>failedExecutableDescendant\<close>\<close>
  "failed_below m [] seen = False"
| "failed_below m (i # q) seen =
     (if i \<in> set seen then failed_below m q seen
      else case map_of m i of
             None \<Rightarrow> failed_below m q (i # seen)
           | Some c \<Rightarrow>
               if is_activity_type (wn_type c) \<and> is_workflow_problem_phase (wn_phase c) then True
               else failed_below m (q @ wn_child_ids c) (i # seen))"
  by pat_completeness auto
termination
proof (relation "measures [\<lambda>(m, q, seen). card (fst ` set m - set seen), \<lambda>(m, q, seen). length q]", goal_cases)
  case (3 m i q seen)
  have "card (fst ` set m - set (i # seen)) \<le> card (fst ` set m - set seen)"
    by (rule card_mono) auto
  then show ?case by auto
next
  case (4 m i q seen c)
  then have "i \<in> fst ` set m" by (force dest: map_of_SomeD)
  then have "fst ` set m - set (i # seen) \<subset> fst ` set m - set seen" using 4 by auto
  then show ?case by (simp add: psubset_card_mono)
qed simp_all

definition executable_messages :: "wf_node list \<Rightarrow> string list" where
  "executable_messages ns =
     set_from (filter (\<lambda>s. s \<noteq> [])
       (map wn_message (filter (\<lambda>n. is_activity_type (wn_type n) \<and> is_workflow_problem_phase (wn_phase n)) ns)))"

definition is_activity_node :: "wf_node list \<Rightarrow> wf_node \<Rightarrow> bool" where
  "is_activity_node ns n =
     (if is_activity_type (wn_type n) then True
      else if wn_type n = ''Container''
      then is_workflow_problem_phase (wn_phase n) \<and> wn_message n \<noteq> [] \<and> wn_message n \<notin> set (executable_messages ns)
      else is_workflow_problem_phase (wn_phase n) \<and> wn_message n \<noteq> [] \<and> \<not> failed_below (execution_nodes_by_id ns) (wn_child_ids n) [])"

definition activity_nodes :: "wf_node list \<Rightarrow> wf_node list" where
  "activity_nodes ns = filter (is_activity_node ns) ns"

definition activity_verb :: "string \<Rightarrow> string" where
  "activity_verb p =
     (if p = ''Succeeded'' then ''succeeded'' else if p = ''Failed'' then ''failed'' else if p = ''Error'' then ''errored''
      else if p = ''Skipped'' \<or> p = ''Omitted'' then ''skipped'' else ''finished'')"

record wf_activity =
  ac_id :: string
  ac_at :: string
  ac_label :: string
  ac_detail :: "string option"
  ac_tone :: wf_tone
  ac_node :: "string option"

definition workflow_event :: "string \<Rightarrow> string \<Rightarrow> string \<Rightarrow> wf_tone \<Rightarrow> wf_activity list" where
  \<comment> \<open>an item of the workflow itself, where its time is given\<close>
  "workflow_event i at label tone =
     (if at = [] then [] else [\<lparr>ac_id = i, ac_at = at, ac_label = label, ac_detail = None, ac_tone = tone, ac_node = None\<rparr>])"

definition node_activity :: "wf_node \<Rightarrow> wf_activity list" where
  "node_activity n =
     (if wn_started_at n = [] then []
      else [\<lparr>ac_id = wn_id n @ ''-started'', ac_at = wn_started_at n, ac_label = wn_display_label n @ '' started'',
             ac_detail = Some (wn_display_type n), ac_tone = phase_tone (wn_phase n), ac_node = Some (wn_id n)\<rparr>])
     @ (if wn_finished_at n = [] then []
        else [\<lparr>ac_id = wn_id n @ ''-finished'', ac_at = wn_finished_at n,
               ac_label = wn_display_label n @ '' '' @ activity_verb (wn_phase n),
               ac_detail = Some (first_text (wn_message n) (wn_display_type n)), ac_tone = phase_tone (wn_phase n),
               ac_node = Some (wn_id n)\<rparr>])"

definition compare_activity :: "(string \<Rightarrow> int option) \<Rightarrow> wf_activity \<Rightarrow> wf_activity \<Rightarrow> int" where
  "compare_activity parse a b =
     (case (parse (ac_at a), parse (ac_at b)) of (Some s, Some t) \<Rightarrow> s - t | _ \<Rightarrow> 0)"

definition workflow_activity :: "(string \<Rightarrow> int option) \<Rightarrow> json option \<Rightarrow> wf_node list \<Rightarrow> wf_activity list" where
  "workflow_activity parse workflow ns =
     (let field = (\<lambda>ks. as_string (json_path workflow ks)); phase = field [''status'', ''phase'']
      in js_sort (compare_activity parse)
           (workflow_event ''workflow-scheduled''
              (field [''metadata'', ''annotations'', ''workflows.argoproj.io/scheduled-time'']) ''Scheduled'' WtInfo
            @ workflow_event ''workflow-started'' (field [''status'', ''startedAt'']) ''Workflow started'' WtInfo
            @ concat (map node_activity (activity_nodes ns))
            @ workflow_event ''workflow-finished'' (field [''status'', ''finishedAt''])
                (''Workflow '' @ activity_verb (first_text phase ''finished'')) (phase_tone phase)))"

section \<open>Templates referred to\<close>

definition effective_workflow_spec :: "json option \<Rightarrow> json_record" where
  "effective_workflow_spec workflow =
     (let stored = as_record (json_path workflow [''status'', ''storedWorkflowTemplateSpec''])
      in if stored \<noteq> [] then stored else as_record (json_path workflow [''spec'']))"

definition task_like_objects :: "json_record \<Rightarrow> json list" where
  "task_like_objects template =
     as_array (json_get (map_of template ''dag'') ''tasks'')
     @ concat (map (\<lambda>g. as_array (Some g)) (as_array (map_of template ''steps'')))"

definition template_key :: "template_reference \<Rightarrow> string" where
  "template_key r =
     join [CHR 0x00] [tr_resource_kind r, tr_namespace r, tr_name r,
       (case tr_source r of FromWorkflow \<Rightarrow> ''workflow'' | FromTask \<Rightarrow> ''task''),
       or_else (tr_template r) [], or_else (tr_task_name r) []]"

definition dedupe_template_refs :: "template_reference list \<Rightarrow> template_reference list" where
  "dedupe_template_refs refs =
     snd (fold (\<lambda>r (seen, out). if template_key r \<in> set seen then (seen, out) else (template_key r # seen, out @ [r])) refs ([], []))"

definition spec_template_refs :: "json option \<Rightarrow> string \<Rightarrow> template_reference list" where
  "spec_template_refs workflow namespace =
     concat (map (\<lambda>t. let template = as_record (Some t)
                      in List.map_filter (\<lambda>task. let tm = as_record (Some task)
                             in template_reference_from_object (map_of tm ''templateRef'') namespace FromTask
                                  (Some (as_string (map_of template ''name''))) (Some (as_string (map_of tm ''name''))))
                           (task_like_objects template))
       (as_array (map_of (effective_workflow_spec workflow) ''templates'')))"

definition node_template_refs :: "json option \<Rightarrow> string \<Rightarrow> template_reference list" where
  "node_template_refs workflow namespace =
     List.map_filter (\<lambda>(i, raw). let node = as_record (Some raw)
         in template_reference_from_object (map_of node ''templateRef'') namespace FromTask
              (Some (as_string (map_of node ''templateName'')))
              (Some (first_text (as_string (map_of node ''displayName'')) (as_string (map_of node ''name'')))))
       (status_nodes workflow)"

definition collect_workflow_template_refs :: "json option \<Rightarrow> template_reference list" where
  "collect_workflow_template_refs workflow =
     (let namespace = as_string (json_path workflow [''metadata'', ''namespace''])
      in dedupe_template_refs
           ((case template_reference_from_object (json_path workflow [''spec'', ''workflowTemplateRef'']) namespace FromWorkflow None None of
               None \<Rightarrow> [] | Some r \<Rightarrow> [r])
            @ spec_template_refs workflow namespace @ node_template_refs workflow namespace))"

section \<open>The model\<close>

record wf_focus =
  fp_terminal :: wf_node
  fp_nodes :: "wf_node list"
  fp_tone :: wf_tone

record wf_model =
  wm_nodes :: "wf_node list"
  wm_edges :: "(string \<times> string option) list"
  wm_roots :: "wf_node list"
  wm_execution_nodes :: "wf_node list"
  wm_execution_roots :: "wf_node list"
  wm_visible_steps :: "wf_node list"
  wm_focus_paths :: "wf_focus list"
  wm_activity :: "wf_activity list"
  wm_counts :: wf_counts
  wm_template_refs :: "template_reference list"
  wm_resources_duration :: "(string \<times> int) list option"
  wm_is_large :: bool

definition edge_of_key :: "string \<Rightarrow> string \<times> string option" where
  \<comment> \<open>the first two parts of a key split at its separator\<close>
  "edge_of_key k = (let parts = split_char (CHR 0x00) k
     in (hd parts, case tl parts of [] \<Rightarrow> None | t # _ \<Rightarrow> Some t))"

definition build_workflow_execution_model ::
    "(string \<Rightarrow> int option) \<Rightarrow> (string \<Rightarrow> string \<Rightarrow> int) \<Rightarrow> json option \<Rightarrow> wf_model" where
  "build_workflow_execution_model parse lc workflow =
     (let (linked, edge_keys) = linked_map workflow;
          nodes = sort_nodes parse lc (map snd linked);
          (shown, shown_roots) = build_presentation_graph parse lc nodes (as_string (json_path workflow [''metadata'', ''name'']))
      in \<lparr>wm_nodes = nodes, wm_edges = map edge_of_key edge_keys, wm_roots = filter is_root nodes,
          wm_execution_nodes = shown, wm_execution_roots = shown_roots, wm_visible_steps = shown,
          wm_focus_paths = map (\<lambda>n. \<lparr>fp_terminal = n, fp_nodes = lineage_path parse lc (execution_nodes_by_id shown) n,
             fp_tone = phase_tone (wn_phase n)\<rparr>) (pick_focus_nodes shown),
          wm_activity = workflow_activity parse workflow shown, wm_counts = count_workflow_execution shown,
          wm_template_refs = collect_workflow_template_refs workflow,
          wm_resources_duration = as_number_record (json_path workflow [''status'', ''resourcesDuration'']),
          wm_is_large = (length shown > 80)\<rparr>)"

definition flatten_workflow_execution :: "wf_model \<Rightarrow> wf_row list" where
  "flatten_workflow_execution model =
     visit_nodes (execution_nodes_by_id (wm_execution_nodes model))
       (map (\<lambda>n. \<lparr>row_node = n, row_depth = 0\<rparr>) (wm_execution_roots model @ wm_execution_nodes model)) [] []"
section \<open>The nodes by their ids\<close>

lemma execution_nodes_by_id_iff:
  assumes "distinct (map wn_id ns)"
  shows "map_of (execution_nodes_by_id ns) i = Some n \<longleftrightarrow> n \<in> set ns \<and> wn_id n = i"
proof -
  let ?kvs = "map (\<lambda>n. (wn_id n, n)) ns"
  have distinct: "distinct (map fst ?kvs)" using assms by (simp add: comp_def)
  have "map_of (execution_nodes_by_id ns) i = map_of ?kvs i"
    unfolding execution_nodes_by_id_def map_of_map_from by (rule map_of_rev_distinct [OF distinct])
  also have "map_of ?kvs i = Some n \<longleftrightarrow> (i, n) \<in> set ?kvs" by (rule map_of_eq_Some_iff [OF distinct])
  finally show ?thesis by auto
qed

lemma built_execution_nodes:
  "distinct (map wn_id (wm_execution_nodes (build_workflow_execution_model parse lc workflow)))"
  "set (wm_execution_roots (build_workflow_execution_model parse lc workflow))
     \<subseteq> set (wm_execution_nodes (build_workflow_execution_model parse lc workflow))"
proof -
  obtain m keys where linked: "linked_map workflow = (m, keys)" by fastforce
  obtain ns roots where built: "build_presentation_graph parse lc (sort_nodes parse lc (map snd m))
      (as_string (json_path workflow [''metadata'', ''name''])) = (ns, roots)" by fastforce
  have eq: "wm_execution_nodes (build_workflow_execution_model parse lc workflow) = ns"
    "wm_execution_roots (build_workflow_execution_model parse lc workflow) = roots"
    by (simp_all add: build_workflow_execution_model_def linked built Let_def)
  show "distinct (map wn_id (wm_execution_nodes (build_workflow_execution_model parse lc workflow)))"
    unfolding eq by (rule built_nodes(3) [OF built])
  show "set (wm_execution_roots (build_workflow_execution_model parse lc workflow))
     \<subseteq> set (wm_execution_nodes (build_workflow_execution_model parse lc workflow))"
    unfolding eq by (simp add: built_nodes(2) [OF built])
qed

section \<open>What the rows show\<close>

abbreviation "row_id r \<equiv> wn_id (row_node r)"

lemma visit_nodes_ids:
  assumes "distinct (map row_id rows)" and "set (map row_id rows) = set seen"
  shows "distinct (map row_id (visit_nodes m todo seen rows))
    \<and> set (map row_id todo) \<union> set seen \<subseteq> set (map row_id (visit_nodes m todo seen rows))
    \<and> set (visit_nodes m todo seen rows) \<supseteq> set rows"
  using assms
proof (induction m todo seen rows rule: visit_nodes.induct)
  case (1 m seen rows)
  then show ?case by simp
next
  case (2 m r todo seen rows)
  show ?case
  proof (cases "row_id r \<in> set seen")
    case True
    then show ?thesis using "2.IH"(1) [OF True "2.prems"] by auto
  next
    case False
    have "distinct (map row_id (rows @ [r]))" "set (map row_id (rows @ [r])) = set (row_id r # seen)"
      using "2.prems" False by auto
    from "2.IH"(2) [OF False this] show ?thesis using False by auto
  qed
qed

lemma visit_nodes_from:
  assumes "\<And>r. r \<in> set rows \<union> set todo \<Longrightarrow> row_node r \<in> ns" and "\<And>i n. map_of m i = Some n \<Longrightarrow> n \<in> ns"
  shows "row_node ` set (visit_nodes m todo seen rows) \<subseteq> ns"
  using assms
proof (induction m todo seen rows rule: visit_nodes.induct)
  case (1 m seen rows)
  then show ?case by auto
next
  case (2 m r todo seen rows)
  show ?case
  proof (cases "row_id r \<in> set seen")
    case True
    then show ?thesis using "2.IH"(1) [OF True] "2.prems" by auto
  next
    case False
    have "row_node x \<in> ns" if "x \<in> set (rows @ [r]) \<union> set (map (\<lambda>c. \<lparr>row_node = c, row_depth = Suc (row_depth r)\<rparr>)
        (List.map_filter (map_of m) (wn_child_ids (row_node r))) @ todo)" for x
      using that "2.prems" by (auto simp: List.map_filter_def)
    from "2.IH"(2) [OF False this "2.prems"(2)] show ?thesis using False by simp
  qed
qed

text \<open>
  Where a row that is indented belongs: to the closest row before it that is indented one less, and every
  row between the two is indented at least as far.
\<close>

definition hangs_below :: "wf_row list \<Rightarrow> wf_row \<Rightarrow> bool" where
  "hangs_below before r =
     (row_depth r = 0 \<or> (\<exists>xs p ys. before = xs @ p # ys \<and> Suc (row_depth p) = row_depth r
        \<and> row_id r \<in> set (wn_child_ids (row_node p)) \<and> (\<forall>y \<in> set ys. row_depth r \<le> row_depth y)))"

definition indented :: "wf_row list \<Rightarrow> bool" where
  "indented rows = (\<forall>k < length rows. hangs_below (take k rows) (rows ! k))"

lemma indented_snoc: "indented (rows @ [r]) \<longleftrightarrow> indented rows \<and> hangs_below rows r"
  by (auto simp: indented_def nth_append less_Suc_eq)

text \<open>What is still to be visited hangs below the rows there are, or below what is visited before it.\<close>

definition pending :: "wf_row list \<Rightarrow> wf_row list \<Rightarrow> bool" where
  "pending rows todo =
     (\<forall>xs r ys. todo = xs @ r # ys \<longrightarrow> hangs_below rows r \<and> (\<forall>x \<in> set xs. row_depth r \<le> row_depth x))"

lemma hangs_below_snoc: "hangs_below before r \<Longrightarrow> row_depth r \<le> row_depth x \<Longrightarrow> hangs_below (before @ [x]) r"
  unfolding hangs_below_def
  by (elim disjE exE conjE) (auto intro!: exI)

lemma pending_children:
  assumes "pending rows (r # todo)"
    and "\<And>c. c \<in> set kids \<Longrightarrow> row_depth c = Suc (row_depth r) \<and> row_id c \<in> set (wn_child_ids (row_node r))"
  shows "pending (rows @ [r]) (kids @ todo)"
  unfolding pending_def
proof (intro allI impI)
  fix xs x ys
  assume eq: "kids @ todo = xs @ x # ys"
  show "hangs_below (rows @ [r]) x \<and> (\<forall>y \<in> set xs. row_depth x \<le> row_depth y)"
  proof (cases "length xs < length kids")
    case True
    have "kids ! length xs = (kids @ todo) ! length xs" using True by (simp add: nth_append)
    also have "\<dots> = x" by (simp add: eq)
    finally have "x \<in> set kids" using True nth_mem by blast
    moreover have "take (length xs) kids = take (length xs) (kids @ todo)" using True by simp
    then have "set xs \<subseteq> set kids" using set_take_subset [of "length xs" kids] by (simp add: eq)
    ultimately have "x \<in> set kids" "set xs \<subseteq> set kids" by auto
    then show ?thesis using assms(2) unfolding hangs_below_def by (auto intro!: exI [of _ rows])
  next
    case False
    then obtain us where us: "xs = kids @ us" "todo = us @ x # ys" using eq by (auto simp: append_eq_append_conv2 Cons_eq_append_conv)
    then have "hangs_below rows x \<and> (\<forall>y \<in> set (r # us). row_depth x \<le> row_depth y)"
      using assms(1) unfolding pending_def by (metis append_Cons)
    then show ?thesis using us(1) assms(2) by (fastforce intro: hangs_below_snoc)
  qed
qed

lemma visit_nodes_indented:
  assumes "indented rows" and "pending rows todo" and "\<And>i n. map_of m i = Some n \<Longrightarrow> wn_id n = i"
  shows "indented (visit_nodes m todo seen rows)"
  using assms
proof (induction m todo seen rows rule: visit_nodes.induct)
  case (1 m seen rows)
  then show ?case by simp
next
  case (2 m r todo seen rows)
  show ?case
  proof (cases "row_id r \<in> set seen")
    case True
    have "pending rows todo" using "2.prems"(2) unfolding pending_def by (metis append_Cons insert_iff list.simps(15))
    then show ?thesis using "2.IH"(1) [OF True "2.prems"(1) _ "2.prems"(3)] True by simp
  next
    case False
    let ?kids = "map (\<lambda>c. \<lparr>row_node = c, row_depth = Suc (row_depth r)\<rparr>) (List.map_filter (map_of m) (wn_child_ids (row_node r)))"
    have "hangs_below rows r" using "2.prems"(2) unfolding pending_def by (metis append_Nil)
    then have rows: "indented (rows @ [r])" using "2.prems"(1) by (simp add: indented_snoc)
    have "pending (rows @ [r]) (?kids @ todo)"
      by (rule pending_children [OF "2.prems"(2)]) (auto simp: List.map_filter_def dest: "2.prems"(3))
    from "2.IH"(2) [OF False rows this "2.prems"(3)] show ?thesis using False by simp
  qed
qed

lemma visit_all_nodes:
  assumes distinct: "distinct (map wn_id ns)" and roots: "set roots \<subseteq> set ns"
    and rows: "rows = visit_nodes (execution_nodes_by_id ns) (map (\<lambda>n. \<lparr>row_node = n, row_depth = 0\<rparr>) (roots @ ns)) [] []"
  shows "mset (map row_node rows) = mset ns \<and> indented rows"
proof -
  let ?todo = "map (\<lambda>n. \<lparr>row_node = n, row_depth = 0\<rparr>) (roots @ ns)"
  note by_id = execution_nodes_by_id_iff [OF distinct]
  have ids: "distinct (map row_id rows)" "wn_id ` set ns \<subseteq> set (map row_id rows)"
    using visit_nodes_ids [of "[]" "[]" "execution_nodes_by_id ns" ?todo] unfolding rows by (auto simp: image_Un image_image)
  have nodes: "row_node ` set rows \<subseteq> set ns"
    unfolding rows by (rule visit_nodes_from) (use roots by_id in auto)
  have "n \<in> row_node ` set rows" if n: "n \<in> set ns" for n
  proof -
    have "wn_id n \<in> row_id ` set rows" using ids(2) n by auto
    then obtain r where r: "r \<in> set rows" "wn_id n = row_id r" by (rule imageE)
    moreover have "row_node r \<in> set ns" using nodes r(1) by auto
    moreover have "inj_on wn_id (set ns)" using distinct by (simp add: distinct_map)
    ultimately have "row_node r = n" using n by (metis inj_onD)
    then show ?thesis using r(1) by blast
  qed
  then have "set (map row_node rows) = set ns" using nodes by auto
  moreover have "distinct (map row_node rows)"
  proof -
    have "distinct (map wn_id (map row_node rows))" using ids(1) by (simp add: comp_def)
    then show ?thesis unfolding distinct_map [of wn_id] by blast
  qed
  moreover have "distinct ns" using distinct by (simp add: distinct_map)
  ultimately have "mset (map row_node rows) = mset ns" by (simp only: set_eq_iff_mset_eq_distinct)
  moreover have "pending [] ?todo"
  proof -
    have "row_depth r = 0" if "?todo = xs @ r # ys" for xs r ys
    proof -
      have "r \<in> set ?todo" unfolding that by simp
      then show ?thesis by auto
    qed
    then show ?thesis unfolding pending_def hangs_below_def by simp
  qed
  then have "indented rows"
    unfolding rows by (intro visit_nodes_indented) (auto simp: indented_def by_id)
  ultimately show ?thesis by blast
qed

text \<open>
  C17. The rows of a workflow show every step of the tree exactly once, whatever cycles its status holds, and
  the indentation is true: a row hangs below the closest row that is indented one less, of which it is a
  child.
\<close>
theorem rows_show_every_step_once:
  "mset (map row_node (flatten_workflow_execution (build_workflow_execution_model parse lc workflow)))
     = mset (wm_execution_nodes (build_workflow_execution_model parse lc workflow))
   \<and> indented (flatten_workflow_execution (build_workflow_execution_model parse lc workflow))"
  by (rule visit_all_nodes [OF built_execution_nodes flatten_workflow_execution_def])
section \<open>The path to a step\<close>

definition upward :: "wf_node list \<Rightarrow> bool" where
  \<comment> \<open>each node of a path names the one before it among its parents\<close>
  "upward path = (\<forall>k. Suc k < length path \<longrightarrow> wn_id (path ! k) \<in> set (wn_parent_ids (path ! Suc k)))"

lemma upward_Cons: "upward (n # path) \<longleftrightarrow> upward path \<and> (path = [] \<or> wn_id n \<in> set (wn_parent_ids (hd path)))"
  by (cases path) (auto simp: upward_def nth_Cons less_Suc_eq_0_disj split: nat.split)

definition path_ends :: "(wf_node \<Rightarrow> wf_node option) \<Rightarrow> wf_node list \<Rightarrow> bool" where
  \<comment> \<open>a path begins at a node without a parent, or its parent is already on it\<close>
  "path_ends up path = (case up (hd path) of None \<Rightarrow> True | Some p \<Rightarrow> wn_id p \<in> wn_id ` set path)"

lemma first_parent_in:
  assumes "first_parent parse lc m n = Some p" and "\<And>i x. map_of m i = Some x \<Longrightarrow> wn_id x = i"
  shows "wn_id p \<in> set (wn_parent_ids n)"
proof -
  let ?sorted = "js_sort (\<lambda>a b. compare_execution_nodes parse lc (map_of m a) (map_of m b)) (wn_parent_ids n)"
  obtain i rest where i: "?sorted = i # rest" "map_of m i = Some p"
    using assms(1) by (auto simp: first_parent_def split: list.splits if_splits)
  have "i \<in> set ?sorted" unfolding i by simp
  then show ?thesis using assms(2) [OF i(2)] by (simp only: set_js_sort)
qed

lemma walk_up_path:
  assumes keyed: "\<And>i x. map_of m i = Some x \<Longrightarrow> wn_id x = i"
    and "map wn_id path = seen" and "distinct seen" and "upward path"
    and "path = [] \<or> first_parent parse lc m (hd path) = Some n"
  shows "\<exists>front. walk_up parse lc m n seen path = front @ path \<and> distinct (map wn_id (front @ path)) \<and> upward (front @ path)
     \<and> (wn_id n \<notin> set seen \<longrightarrow> front \<noteq> [] \<and> last front = n)
     \<and> (front @ path \<noteq> [] \<longrightarrow> path_ends (first_parent parse lc m) (front @ path))
     \<and> wn_id ` set front \<subseteq> insert (wn_id n) (node_range m)"
  using assms
proof (induction parse lc m n seen path rule: walk_up.induct)
  case (1 parse lc m n seen path)
  show ?case
  proof (cases "wn_id n \<in> set seen")
    case True
    then have "path_ends (first_parent parse lc m) path"
      using "1.prems" by (auto simp: path_ends_def)
    then show ?thesis using True "1.prems" by (intro exI [of _ "[]"]) (simp add: walk_up.simps [of parse lc m n seen path])
  next
    case new: False
    have up: "upward (n # path)"
      using "1.prems"(4,5) first_parent_in [OF _ "1.prems"(1)] by (auto simp: upward_Cons)
    show ?thesis
    proof (cases "first_parent parse lc m n")
      case None
      then have "walk_up parse lc m n seen path = [n] @ path" using new by (simp add: walk_up.simps [of parse lc m n seen path])
      then show ?thesis using new None "1.prems" up by (intro exI [of _ "[n]"]) (auto simp: path_ends_def)
    next
      case (Some p)
      have "distinct (wn_id n # seen)" using new "1.prems"(3) by simp
      then obtain front where front: "walk_up parse lc m p (wn_id n # seen) (n # path) = front @ n # path"
          "distinct (map wn_id (front @ n # path))" "upward (front @ n # path)"
          "path_ends (first_parent parse lc m) (front @ n # path)" "wn_id ` set front \<subseteq> insert (wn_id p) (node_range m)"
        using "1.IH" [OF new Some "1.prems"(1) _ _ up] "1.prems"(2) Some by auto
      moreover have "wn_id p \<in> node_range m" using Some by (rule first_parent_range)
      moreover have "walk_up parse lc m n seen path = walk_up parse lc m p (wn_id n # seen) (n # path)"
        using new Some by (simp add: walk_up.simps [of parse lc m n seen path])
      ultimately show ?thesis using new by (intro exI [of _ "front @ [n]"]) auto
    qed
  qed
qed

text \<open>
  C18. The walk from a step up to where it starts comes to an end, also where the parents form a cycle: it
  visits no step twice, so it takes no more rounds than there are steps. The path it returns ends at the
  step, each of its steps is the least parent's child, and it begins where there is no parent, or at a step
  whose parent is already on it.
\<close>
theorem lineage_walk_ends:
  assumes "distinct (map wn_id ns)" and "terminal \<in> set ns"
  shows "(let path = lineage_path parse lc (execution_nodes_by_id ns) terminal
     in path \<noteq> [] \<and> last path = terminal \<and> distinct (map wn_id path) \<and> length path \<le> length ns \<and> upward path
        \<and> path_ends (first_parent parse lc (execution_nodes_by_id ns)) path)"
proof -
  note by_id = execution_nodes_by_id_iff [OF assms(1)]
  have keyed: "\<And>i x. map_of (execution_nodes_by_id ns) i = Some x \<Longrightarrow> wn_id x = i" by (simp add: by_id)
  obtain path where path: "lineage_path parse lc (execution_nodes_by_id ns) terminal = path" "distinct (map wn_id path)" "upward path"
      "path \<noteq> []" "last path = terminal" "path_ends (first_parent parse lc (execution_nodes_by_id ns)) path"
      "wn_id ` set path \<subseteq> insert (wn_id terminal) (node_range (execution_nodes_by_id ns))"
    using walk_up_path [OF keyed, where path = "[]" and seen = "[]" and parse = parse and lc = lc and n = terminal] by (auto simp: lineage_path_def upward_def)
  have "node_range (execution_nodes_by_id ns) \<subseteq> wn_id ` set ns"
    unfolding node_range_def execution_nodes_by_id_def using map_from_subset by fastforce
  then have "wn_id ` set path \<subseteq> wn_id ` set ns" using path(7) assms(2) by auto
  then have "card (set (map wn_id path)) \<le> card (set (map wn_id ns))" by (simp add: card_mono)
  then have "length path \<le> length ns" unfolding distinct_card [OF path(2)] distinct_card [OF assms(1)] by simp
  then show ?thesis using path by (simp add: Let_def)
qed

lemma lineage_walk_ends_witness:
  "(let ns = [(example_wf_node ''a'' ''DAG'' [''b''])\<lparr>wn_parent_ids := [''b'']\<rparr>, (example_wf_node ''b'' ''Pod'' [''a''])\<lparr>wn_parent_ids := [''a'']\<rparr>];
       path = lineage_path (\<lambda>_. None) str_cmp (execution_nodes_by_id ns) (hd ns)
    in path \<noteq> [] \<and> length path \<le> 2)"
  using lineage_walk_ends [of "[(example_wf_node ''a'' ''DAG'' [''b''])\<lparr>wn_parent_ids := [''b'']\<rparr>,
      (example_wf_node ''b'' ''Pod'' [''a''])\<lparr>wn_parent_ids := [''a'']\<rparr>]"
      "(example_wf_node ''a'' ''DAG'' [''b''])\<lparr>wn_parent_ids := [''b'']\<rparr>" "\<lambda>_. None" str_cmp]
  by (simp add: example_wf_node_def Let_def)

section \<open>Counting\<close>

definition phase_count :: "(string \<Rightarrow> bool) \<Rightarrow> wf_node list \<Rightarrow> nat" where
  "phase_count P ns = length (filter (\<lambda>n. P (wn_phase n)) ns)"

definition pods :: "wf_node list \<Rightarrow> wf_node list" where
  "pods ns = filter (\<lambda>n. wn_type n = ''Pod'') ns"

lemma phase_neq: "''Succeeded'' \<noteq> ''Failed''" "''Succeeded'' \<noteq> ''Error''" "''Running'' \<noteq> ''Failed''" by simp_all

lemma count_steps:
  "ct_pod_total (count_execution_node n c) = ct_pod_total c + (if wn_type n = ''Pod'' then 1 else 0)"
  "ct_node_total (count_execution_node n c) = ct_node_total c + 1"
  "ct_pod_succeeded (count_execution_node n c) = ct_pod_succeeded c + (if wn_type n = ''Pod'' \<and> wn_phase n = ''Succeeded'' then 1 else 0)"
  "ct_pod_failed (count_execution_node n c) = ct_pod_failed c + (if wn_type n = ''Pod'' \<and> is_workflow_problem_phase (wn_phase n) then 1 else 0)"
  "ct_pod_running (count_execution_node n c) = ct_pod_running c + (if wn_type n = ''Pod'' \<and> wn_phase n = ''Running'' then 1 else 0)"
  "ct_pod_pending (count_execution_node n c) = ct_pod_pending c + (if wn_type n = ''Pod'' \<and> wn_phase n = ''Pending'' then 1 else 0)"
  "ct_node_succeeded (count_execution_node n c) = ct_node_succeeded c + (if wn_phase n = ''Succeeded'' then 1 else 0)"
  "ct_node_failed (count_execution_node n c) = ct_node_failed c + (if is_workflow_problem_phase (wn_phase n) then 1 else 0)"
  "ct_node_running (count_execution_node n c) = ct_node_running c + (if wn_phase n = ''Running'' then 1 else 0)"
  "ct_node_skipped (count_execution_node n c) = ct_node_skipped c + (if wn_phase n = ''Skipped'' \<or> wn_phase n = ''Omitted'' then 1 else 0)"
  by (auto simp: count_execution_node_def count_any_def count_pod_def is_workflow_problem_phase_def Let_def)

lemma count_fold:
  assumes "\<And>n c. g (count_execution_node n c) = g c + (if P n then 1 else (0::nat))"
  shows "g (fold count_execution_node ns c) = g c + length (filter P ns)"
  by (induction ns arbitrary: c) (simp_all add: assms)

lemma counts_are_lengths:
  "count_workflow_execution ns =
     \<lparr>ct_pod_total = length (pods ns), ct_pod_succeeded = phase_count (\<lambda>p. p = ''Succeeded'') (pods ns),
      ct_pod_failed = phase_count is_workflow_problem_phase (pods ns), ct_pod_running = phase_count (\<lambda>p. p = ''Running'') (pods ns),
      ct_pod_pending = phase_count (\<lambda>p. p = ''Pending'') (pods ns), ct_node_total = length ns,
      ct_node_succeeded = phase_count (\<lambda>p. p = ''Succeeded'') ns, ct_node_failed = phase_count is_workflow_problem_phase ns,
      ct_node_running = phase_count (\<lambda>p. p = ''Running'') ns,
      ct_node_skipped = phase_count (\<lambda>p. p = ''Skipped'' \<or> p = ''Omitted'') ns\<rparr>"
proof -
  have total: "ct_node_total (fold count_execution_node ns c) = ct_node_total c + length ns" for c
    by (induction ns arbitrary: c) (simp_all add: count_steps(2))
  show ?thesis
    by (rule wf_counts.equality)
       (simp_all add: count_workflow_execution_def no_counts_def phase_count_def pods_def filter_filter total
          count_fold [where g = ct_pod_total, OF count_steps(1)] count_fold [where g = ct_pod_succeeded, OF count_steps(3)]
          count_fold [where g = ct_pod_failed, OF count_steps(4)] count_fold [where g = ct_pod_running, OF count_steps(5)]
          count_fold [where g = ct_pod_pending, OF count_steps(6)] count_fold [where g = ct_node_succeeded, OF count_steps(7)]
          count_fold [where g = ct_node_failed, OF count_steps(8)] count_fold [where g = ct_node_running, OF count_steps(9)]
          count_fold [where g = ct_node_skipped, OF count_steps(10)] conj_commute)
qed
section \<open>What failed is told\<close>

definition child_rel :: "node_map \<Rightarrow> (string \<times> string) set" where
  "child_rel m = {(a, b). b \<in> set (children_of m a)}"

definition failed_at :: "node_map \<Rightarrow> string \<Rightarrow> bool" where
  "failed_at m i = (\<exists>c. map_of m i = Some c \<and> is_activity_type (wn_type c) \<and> is_workflow_problem_phase (wn_phase c))"

lemma failed_below_sound: "failed_below m q seen \<Longrightarrow> \<exists>i \<in> set q. \<exists>j. (i, j) \<in> (child_rel m)\<^sup>* \<and> failed_at m j"
proof (induction m q seen rule: failed_below.induct)
  case (2 m i q seen)
  show ?case
  proof (cases "i \<in> set seen")
    case True
    then show ?thesis using 2 by auto
  next
    case new: False
    show ?thesis
    proof (cases "map_of m i")
      case None
      then show ?thesis using 2 new by auto
    next
      case (Some c)
      show ?thesis
      proof (cases "is_activity_type (wn_type c) \<and> is_workflow_problem_phase (wn_phase c)")
        case True
        then show ?thesis using Some by (auto simp: failed_at_def)
      next
        case False
        then obtain i' j where ij: "i' \<in> set (q @ wn_child_ids c)" "(i', j) \<in> (child_rel m)\<^sup>*" "failed_at m j"
          using "2.IH"(3) [OF new Some False] "2.prems" new Some by auto
        show ?thesis
        proof (cases "i' \<in> set q")
          case True
          then show ?thesis using ij by auto
        next
          case False
          then have "(i, i') \<in> child_rel m" using ij(1) Some by (simp add: child_rel_def children_of_def)
          then have "(i, j) \<in> (child_rel m)\<^sup>*" using ij(2) by (rule converse_rtrancl_into_rtrancl)
          then show ?thesis using ij(3) by auto
        qed
      qed
    qed
  qed
qed simp

lemma failed_below_closed:
  assumes "\<not> failed_below m q seen"
    and "\<And>s. s \<in> set seen \<Longrightarrow> \<not> failed_at m s \<and> set (children_of m s) \<subseteq> set seen \<union> set q"
  shows "\<exists>S. set q \<union> set seen \<subseteq> S \<and> (\<forall>s \<in> S. \<not> failed_at m s \<and> set (children_of m s) \<subseteq> S)"
  using assms
proof (induction m q seen rule: failed_below.induct)
  case (1 m seen)
  then show ?case by (intro exI [of _ "set seen"]) simp
next
  case (2 m i q seen)
  show ?case
  proof (cases "i \<in> set seen")
    case True
    then have "\<exists>S. set q \<union> set seen \<subseteq> S \<and> (\<forall>s \<in> S. \<not> failed_at m s \<and> set (children_of m s) \<subseteq> S)"
    proof -
      have "\<not> failed_below m q seen" using "2.prems"(1) True by simp
      moreover have "\<not> failed_at m s \<and> set (children_of m s) \<subseteq> set seen \<union> set q" if "s \<in> set seen" for s
        using "2.prems"(2) [OF that] True by auto
      ultimately show ?thesis by (rule "2.IH"(1) [OF True])
    qed
    moreover have "set (i # q) \<union> set seen = set q \<union> set seen" using True by auto
    ultimately show ?thesis by (simp only:)
  next
    case new: False
    show ?thesis
    proof (cases "map_of m i")
      case None
      then have i: "\<not> failed_at m i" "children_of m i = []" by (simp_all add: failed_at_def children_of_def)
      have "\<not> failed_below m q (i # seen)" using "2.prems"(1) new None by simp
      moreover have "\<not> failed_at m s \<and> set (children_of m s) \<subseteq> set (i # seen) \<union> set q" if "s \<in> set (i # seen)" for s
        using that "2.prems"(2) [of s] i by auto
      ultimately have "\<exists>S. set q \<union> set (i # seen) \<subseteq> S \<and> (\<forall>s \<in> S. \<not> failed_at m s \<and> set (children_of m s) \<subseteq> S)"
        by (rule "2.IH"(2) [OF new None])
      moreover have "set (i # q) \<union> set seen = set q \<union> set (i # seen)" by auto
      ultimately show ?thesis by (simp only:)
    next
      case (Some c)
      then have ok: "\<not> (is_activity_type (wn_type c) \<and> is_workflow_problem_phase (wn_phase c))"
        and rest: "\<not> failed_below m (q @ wn_child_ids c) (i # seen)" using "2.prems"(1) new by (auto split: if_splits)
      then have i: "\<not> failed_at m i" "children_of m i = wn_child_ids c" using Some by (auto simp: failed_at_def children_of_def)
      have "\<not> failed_at m s \<and> set (children_of m s) \<subseteq> set (i # seen) \<union> set (q @ wn_child_ids c)" if "s \<in> set (i # seen)" for s
        using that "2.prems"(2) [of s] i by auto
      with rest have "\<exists>S. set (q @ wn_child_ids c) \<union> set (i # seen) \<subseteq> S \<and> (\<forall>s \<in> S. \<not> failed_at m s \<and> set (children_of m s) \<subseteq> S)"
        by (rule "2.IH"(3) [OF new Some ok])
      then obtain S where S: "set (q @ wn_child_ids c) \<union> set (i # seen) \<subseteq> S"
          "\<forall>s \<in> S. \<not> failed_at m s \<and> set (children_of m s) \<subseteq> S" by (elim exE conjE)
      moreover have "set (i # q) \<union> set seen \<subseteq> set (q @ wn_child_ids c) \<union> set (i # seen)" by auto
      ultimately show ?thesis by (intro exI [of _ S] conjI) (rule subset_trans)
    qed
  qed
qed

text \<open>The queue finds a failed executable exactly where one is below, at any depth and across cycles.\<close>

lemma failed_below_iff: "failed_below m q [] \<longleftrightarrow> (\<exists>i \<in> set q. \<exists>j. (i, j) \<in> (child_rel m)\<^sup>* \<and> failed_at m j)"
proof
  assume "\<exists>i \<in> set q. \<exists>j. (i, j) \<in> (child_rel m)\<^sup>* \<and> failed_at m j"
  then obtain i j where ij: "i \<in> set q" "(i, j) \<in> (child_rel m)\<^sup>*" "failed_at m j" by blast
  show "failed_below m q []"
  proof (rule ccontr)
    assume "\<not> failed_below m q []"
    then obtain S where S: "set q \<subseteq> S" "\<forall>s \<in> S. \<not> failed_at m s \<and> set (children_of m s) \<subseteq> S"
      using failed_below_closed [of m q "[]"] by auto
    from ij(2) ij(1) S have "j \<in> S"
      by (induction rule: rtrancl_induct) (auto simp: child_rel_def)
    then show False using S(2) ij(3) by blast
  qed
qed (rule failed_below_sound)

lemma failure_has_activity_node:
  assumes "distinct (map wn_id ns)" and "n \<in> set ns" and "is_workflow_problem_phase (wn_phase n)" and "wn_message n \<noteq> []"
  obtains a where "a \<in> set (activity_nodes ns)" "is_workflow_problem_phase (wn_phase a)"
    "a = n \<or> wn_message a = wn_message n \<or> (wn_id n, wn_id a) \<in> (child_rel (execution_nodes_by_id ns))\<^sup>+"
proof -
  have "\<exists>a \<in> set (activity_nodes ns). is_workflow_problem_phase (wn_phase a)
     \<and> (a = n \<or> wn_message a = wn_message n \<or> (wn_id n, wn_id a) \<in> (child_rel (execution_nodes_by_id ns))\<^sup>+)"
  proof (cases "is_activity_node ns n")
    case True
    then show ?thesis using assms by (auto simp: activity_nodes_def)
  next
    case False
    note by_id = execution_nodes_by_id_iff [OF assms(1)]
    have executable: "a \<in> set (activity_nodes ns)" if "a \<in> set ns" "is_activity_type (wn_type a)" for a
      using that by (simp add: activity_nodes_def is_activity_node_def)
    show ?thesis
    proof (cases "wn_type n = ''Container''")
      case True
      then have "wn_message n \<in> set (executable_messages ns)" using False assms(3,4) by (auto simp: is_activity_node_def split: if_splits)
      then obtain a where "a \<in> set ns" "is_activity_type (wn_type a)" "is_workflow_problem_phase (wn_phase a)" "wn_message a = wn_message n"
        by (auto simp: executable_messages_def)
      then show ?thesis using executable by blast
    next
      case other: False
      then have "failed_below (execution_nodes_by_id ns) (wn_child_ids n) []" using False assms(3,4) by (auto simp: is_activity_node_def split: if_splits)
      then obtain i j where ij: "i \<in> set (wn_child_ids n)" "(i, j) \<in> (child_rel (execution_nodes_by_id ns))\<^sup>*" "failed_at (execution_nodes_by_id ns) j"
        unfolding failed_below_iff by blast
      have "map_of (execution_nodes_by_id ns) (wn_id n) = Some n" using assms(2) by (simp add: by_id)
      then have "(wn_id n, i) \<in> child_rel (execution_nodes_by_id ns)" using ij(1) by (simp add: child_rel_def children_of_def)
      then have reach: "(wn_id n, j) \<in> (child_rel (execution_nodes_by_id ns))\<^sup>+" using ij(2) by (rule rtrancl_into_trancl2)
      obtain a where a: "a \<in> set ns" "wn_id a = j" "is_activity_type (wn_type a)" "is_workflow_problem_phase (wn_phase a)"
        using ij(3) by (auto simp: failed_at_def by_id)
      then show ?thesis using reach executable by blast
    qed
  qed
  then show thesis using that by blast
qed

lemma activity_items_of_node:
  assumes "distinct (map wn_id ns)" and "a \<in> set (activity_nodes ns)"
  shows "{x \<in> set (workflow_activity parse workflow ns). ac_node x = Some (wn_id a)} = set (node_activity a)"
proof -
  have other: "ac_node x = Some (wn_id b)" if "x \<in> set (node_activity b)" for x b
    using that by (auto simp: node_activity_def split: if_splits)
  have none: "set (workflow_event i t l c) \<subseteq> {x. ac_node x = None}" for i t l c
    by (simp add: workflow_event_def)
  have nodes: "set (concat (map node_activity (activity_nodes ns))) = (\<Union>b \<in> set (activity_nodes ns). set (node_activity b))"
    by simp
  have items: "set (workflow_activity parse workflow ns) \<subseteq> {x. ac_node x = None} \<union> (\<Union>b \<in> set (activity_nodes ns). set (node_activity b))"
    unfolding workflow_activity_def Let_def set_js_sort set_append nodes
    by (intro Un_least le_supI1 [OF none] Un_upper2)
  have same: "b = a" if "b \<in> set (activity_nodes ns)" "wn_id b = wn_id a" for b
    using that assms by (auto simp: activity_nodes_def distinct_map inj_on_def)
  show ?thesis
  proof (intro equalityI subsetI)
    fix x assume "x \<in> {x \<in> set (workflow_activity parse workflow ns). ac_node x = Some (wn_id a)}"
    then have x: "ac_node x = Some (wn_id a)" and "x \<in> set (workflow_activity parse workflow ns)" by blast+
    moreover have "x \<notin> {x. ac_node x = None}" using x by simp
    ultimately obtain b where b: "b \<in> set (activity_nodes ns)" "x \<in> set (node_activity b)" using items by blast
    have "wn_id b = wn_id a" using other [OF b(2)] x by (metis option.inject)
    then show "x \<in> set (node_activity a)" using same [OF b(1)] b(2) by blast
  next
    fix x assume x: "x \<in> set (node_activity a)"
    then have "x \<in> set (concat (map node_activity (activity_nodes ns)))" using assms(2) unfolding nodes by blast
    then have "x \<in> set (workflow_activity parse workflow ns)"
      unfolding workflow_activity_def Let_def set_js_sort set_append by (intro UnI2 UnI1)
    then show "x \<in> {x \<in> set (workflow_activity parse workflow ns). ac_node x = Some (wn_id a)}" using other [OF x] by blast
  qed
qed

text \<open>
  C19. No finished failure is silent. The ids of the steps being distinct, for a step that failed with a message there is a failed step that
  speaks for it: itself, or one with the same message, or one below it. The items of the activity that
  point to that step are exactly these: one that it started, when it has a start time, and, when it has a
  finish time, one at that time that says in the tone of danger that it failed or errored, with its message
  where it has one. A step with neither time has no item: the activity tells what has a time, no more.
\<close>
theorem no_finished_failure_is_silent:
  assumes "distinct (map wn_id ns)" and "n \<in> set ns" and "is_workflow_problem_phase (wn_phase n)" and "wn_message n \<noteq> []"
  shows "\<exists>a \<in> set ns. is_workflow_problem_phase (wn_phase a)
     \<and> (a = n \<or> wn_message a = wn_message n \<or> (wn_id n, wn_id a) \<in> (child_rel (execution_nodes_by_id ns))\<^sup>+)
     \<and> {x \<in> set (workflow_activity parse workflow ns). ac_node x = Some (wn_id a)} =
         (if wn_started_at a = [] then {}
          else {\<lparr>ac_id = wn_id a @ ''-started'', ac_at = wn_started_at a, ac_label = wn_display_label a @ '' started'',
                 ac_detail = Some (wn_display_type a), ac_tone = WtDanger, ac_node = Some (wn_id a)\<rparr>})
       \<union> (if wn_finished_at a = [] then {}
          else {\<lparr>ac_id = wn_id a @ ''-finished'', ac_at = wn_finished_at a,
                 ac_label = wn_display_label a @ (if wn_phase a = ''Failed'' then '' failed'' else '' errored''),
                 ac_detail = Some (if wn_message a = [] then wn_display_type a else wn_message a),
                 ac_tone = WtDanger, ac_node = Some (wn_id a)\<rparr>})"
proof -
  obtain a where a: "a \<in> set (activity_nodes ns)" "is_workflow_problem_phase (wn_phase a)"
    and covers: "a = n \<or> wn_message a = wn_message n \<or> (wn_id n, wn_id a) \<in> (child_rel (execution_nodes_by_id ns))\<^sup>+"
    using failure_has_activity_node [OF assms] .
  have "phase_tone (wn_phase a) = WtDanger"
    "'' '' @ activity_verb (wn_phase a) = (if wn_phase a = ''Failed'' then '' failed'' else '' errored'')"
    using a(2) by (auto simp: is_workflow_problem_phase_def phase_tone_def activity_verb_def)
  then have "set (node_activity a) =
         (if wn_started_at a = [] then {}
          else {\<lparr>ac_id = wn_id a @ ''-started'', ac_at = wn_started_at a, ac_label = wn_display_label a @ '' started'',
                 ac_detail = Some (wn_display_type a), ac_tone = WtDanger, ac_node = Some (wn_id a)\<rparr>})
       \<union> (if wn_finished_at a = [] then {}
          else {\<lparr>ac_id = wn_id a @ ''-finished'', ac_at = wn_finished_at a,
                 ac_label = wn_display_label a @ (if wn_phase a = ''Failed'' then '' failed'' else '' errored''),
                 ac_detail = Some (if wn_message a = [] then wn_display_type a else wn_message a),
                 ac_tone = WtDanger, ac_node = Some (wn_id a)\<rparr>})"
    unfolding node_activity_def first_text_def by simp
  moreover have "a \<in> set ns" using a(1) by (simp add: activity_nodes_def)
  ultimately show ?thesis using a(2) covers activity_items_of_node [OF assms(1) a(1)] by blast
qed

definition example_failed :: "wf_node list" where
  "example_failed =
     [(example_wf_node ''a'' ''DAG'' [''b''])\<lparr>wn_phase := ''Failed'', wn_message := ''child failed'', wn_finished_at := ''7''\<rparr>,
      (example_wf_node ''b'' ''Pod'' [])\<lparr>wn_phase := ''Error'', wn_message := ''OOMKilled'', wn_finished_at := ''6''\<rparr>]"

lemma no_finished_failure_is_silent_witness:
  "\<exists>x \<in> set (workflow_activity (\<lambda>_. None) None example_failed). ac_tone x = WtDanger"
proof -
  have "distinct (map wn_id example_failed)" "is_workflow_problem_phase (wn_phase (hd example_failed))"
    "wn_message (hd example_failed) \<noteq> []" "hd example_failed \<in> set example_failed" by code_simp+
  from no_finished_failure_is_silent [OF this(1,4,2,3), of "\<lambda>_. None" None]
  obtain a where a: "a \<in> set example_failed"
    "{x \<in> set (workflow_activity (\<lambda>_. None) None example_failed). ac_node x = Some (wn_id a)} \<supseteq>
      (if wn_finished_at a = [] then {}
       else {\<lparr>ac_id = wn_id a @ ''-finished'', ac_at = wn_finished_at a,
              ac_label = wn_display_label a @ (if wn_phase a = ''Failed'' then '' failed'' else '' errored''),
              ac_detail = Some (if wn_message a = [] then wn_display_type a else wn_message a),
              ac_tone = WtDanger, ac_node = Some (wn_id a)\<rparr>})"
    by blast
  have "wn_finished_at a \<noteq> []" using a(1) by (auto simp: example_failed_def)
  then show ?thesis using a(2) by force
qed

section \<open>The edges of the status\<close>

lemma split_at_first: "c \<notin> set s \<Longrightarrow> split_char c (s @ c # r) = s # split_char c r"
  by (induction s) auto

lemma split_free: "c \<notin> set s \<Longrightarrow> split_char c s = [s]"
  by (induction s) auto

lemma edge_of_edge_key: "CHR 0x00 \<notin> set s \<Longrightarrow> CHR 0x00 \<notin> set t \<Longrightarrow> edge_of_key (workflow_edge_key s t) = (s, Some t)"
  by (simp add: edge_of_key_def workflow_edge_key_def split_at_first split_free)

text \<open>
  The edges of a workflow are what its status says and nothing else: those from a node to the children
  and outbound nodes it names, where these are nodes of the status, and one from the boundary of a node
  that no node names; each is listed once, and the nodes' children are the same edges.
\<close>
theorem workflow_edges_are_those_of_the_status:
  assumes "distinct (map fst (status_nodes workflow))" and "plain_ids (fst ` set (status_nodes workflow))"
  shows "set (wm_edges (build_workflow_execution_model parse lc workflow))
       = {(s, Some t) | s t. declares workflow s t \<or> bounded_by workflow s t}
     \<and> distinct (wm_edges (build_workflow_execution_model parse lc workflow))
     \<and> (\<forall>n \<in> set (wm_nodes (build_workflow_execution_model parse lc workflow)).
          set (wn_child_ids n) = {t. declares workflow (wn_id n) t \<or> bounded_by workflow (wn_id n) t})"
proof -
  obtain m keys where linked: "linked_map workflow = (m, keys)" by fastforce
  note facts = linked_map_facts [OF assms, unfolded linked fst_conv]
  have model: "wm_edges (build_workflow_execution_model parse lc workflow) = map edge_of_key keys"
    "wm_nodes (build_workflow_execution_model parse lc workflow) = sort_nodes parse lc (map snd m)"
    by (auto simp: build_workflow_execution_model_def linked Let_def split: prod.split)
  have plain: "CHR 0x00 \<notin> set i" if "i \<in> node_ids m" for i
    using facts(1) that by (auto simp: linking_def plain_ids_def)
  have keys: "set keys = {workflow_edge_key s t | s t. t \<in> set (children_of m s)}" "distinct keys"
    and ends: "\<And>s t. t \<in> set (children_of m s) \<Longrightarrow> s \<in> node_ids m \<and> t \<in> node_ids m"
    and keyed: "keyed m"
    using facts(1) by (auto simp: linking_def)
  have edge: "edge_of_key (workflow_edge_key s t) = (s, Some t)" if "t \<in> set (children_of m s)" for s t
    using ends [OF that] plain by (intro edge_of_edge_key) auto
  have "edge_of_key ` set keys = {(s, Some t) | s t. t \<in> set (children_of m s)}"
    unfolding keys(1) using edge by force
  then have edges: "set (map edge_of_key keys) = {(s, Some t) | s t. declares workflow s t \<or> bounded_by workflow s t}"
    by (simp add: facts(3))
  have "inj_on edge_of_key (set keys)"
    unfolding keys(1) by (rule inj_onI) (auto simp: edge)
  then have distinct: "distinct (map edge_of_key keys)" using keys(2) by (simp add: distinct_map)
  have "set (wn_child_ids n) = {t. declares workflow (wn_id n) t \<or> bounded_by workflow (wn_id n) t}" if "n \<in> set (map snd m)" for n
  proof -
    have "set (wn_child_ids n) = set (children_of m (wn_id n))" using keyed_links(1) [OF keyed that] by simp
    also have "\<dots> = {t. declares workflow (wn_id n) t \<or> bounded_by workflow (wn_id n) t}" using facts(3) by blast
    finally show ?thesis .
  qed
  then show ?thesis using edges distinct unfolding model by (simp only: set_sort_nodes) blast
qed

definition example_status :: "json option" where
  "example_status = Some (JObj [(''status'', JObj [(''nodes'', JObj
     [(''a'', JObj [(''type'', JStr ''DAG''), (''children'', JArr [JStr ''b''])]), (''b'', JObj [(''type'', JStr ''Pod'')]),
      (''c'', JObj [(''type'', JStr ''Pod''), (''boundaryID'', JStr ''a'')])])])])"

lemma workflow_edges_are_those_of_the_status_witness:
  "declares example_status ''a'' ''b'' \<or> bounded_by example_status ''a'' ''b''"
proof -
  let ?M = "build_workflow_execution_model (\<lambda>_. None) str_cmp example_status"
  have status: "map fst (status_nodes example_status) = [''a'', ''b'', ''c'']" by code_simp
  have "plain_ids (set [''a'', ''b'', ''c''])" by code_simp
  then have "plain_ids (fst ` set (status_nodes example_status))" using status by (metis list.set_map)
  moreover have "distinct (map fst (status_nodes example_status))" unfolding status by code_simp
  ultimately have edges: "set (wm_edges ?M) = {(s, Some t) | s t. declares example_status s t \<or> bounded_by example_status s t}"
    using workflow_edges_are_those_of_the_status [of example_status "\<lambda>_. None" str_cmp] by blast
  have "map edge_of_key (snd (linked_map example_status)) = [(''a'', Some ''b''), (''a'', Some ''c'')]" by code_simp
  moreover have "wm_edges ?M = map edge_of_key (snd (linked_map example_status))"
    by (simp add: build_workflow_execution_model_def Let_def split: prod.split)
  ultimately have "(''a'', Some ''b'') \<in> set (wm_edges ?M)" by simp
  then show ?thesis unfolding edges by blast
qed

end
