(* ===== verification/Cnpg_Backup.thy ===== *)
theory Cnpg_Backup
  imports Radar_Prelude
begin

text \<open>
  What a CloudNativePG Cluster declares for its backups, and which archive a Backup belongs to
  (\<open>packages/k8s-ui/src/utils/cnpg-backup.ts\<close>, the parts of \<open>components/cnpg/relations.ts\<close>,
  \<open>components/cnpg/workspace.ts\<close> and \<open>components/resources/resource-utils-cnpg.ts\<close> that restores rest on).

  Objects are JSON values. A field that the types of the code declare as text is a string or absent.
  \<open>Date.parse\<close> and the \<open>URL\<close> constructor are arguments.
\<close>

definition str_at :: "json option \<Rightarrow> string list \<Rightarrow> string option" where
  \<comment> \<open>\<open>o?.a?.b\<close> of a text field\<close>
  "str_at v ks = json_str (json_path v ks)"

section \<open>Declarations\<close>

definition barman_plugin_name :: string where
  "barman_plugin_name = ''barman-cloud.cloudnative-pg.io''"

record backup_plugin =
  bp_name :: string
  bp_enabled :: bool
  bp_wal_archiver :: bool
  bp_object :: "string option"
  bp_server :: "string option"

record backup_declaration =
  bk_plugins :: "backup_plugin list"
  bk_in_tree_configured :: bool
  bk_in_tree_destination :: "string option"
  bk_snapshots :: bool

definition declared_plugin :: "json option \<Rightarrow> json \<Rightarrow> backup_plugin" where
  "declared_plugin cluster p =
     \<lparr>bp_name = coalesce (str_at (Some p) [''name'']) [], bp_enabled = (json_get (Some p) ''enabled'' \<noteq> Some (JBool False)),
      bp_wal_archiver = (json_get (Some p) ''isWALArchiver'' = Some (JBool True)),
      bp_object = str_at (Some p) [''parameters'', ''barmanObjectName''],
      bp_server = or_str (str_at (Some p) [''parameters'', ''serverName'']) (str_at cluster [''metadata'', ''name''])\<rparr>"

definition json_present :: "json option \<Rightarrow> bool" where
  \<comment> \<open>\<open>v != null\<close>\<close>
  "json_present v = (v \<noteq> None \<and> v \<noteq> Some JNull)"

definition cnpg_backup_declaration :: "json option \<Rightarrow> backup_declaration" where
  "cnpg_backup_declaration cluster =
     (let backup = json_path cluster [''spec'', ''backup'']
      in \<lparr>bk_plugins = map (declared_plugin cluster) (filter (\<lambda>p. truthy_str (str_at (Some p) [''name'']))
            (json_list (json_path cluster [''spec'', ''plugins'']))),
          bk_in_tree_configured = json_truthy (json_get backup ''barmanObjectStore''),
          bk_in_tree_destination = str_at backup [''barmanObjectStore'', ''destinationPath''],
          bk_snapshots = json_present (json_get backup ''volumeSnapshot'')\<rparr>)"

definition cnpg_barman_plugin :: "backup_declaration \<Rightarrow> backup_plugin option" where
  "cnpg_barman_plugin d = List.find (\<lambda>p. bp_enabled p \<and> bp_name p = barman_plugin_name) (bk_plugins d)"

definition names_destination :: "backup_plugin \<Rightarrow> bool" where
  "names_destination p = (bp_enabled p \<and> (bp_name p \<noteq> barman_plugin_name \<or> truthy_str (bp_object p)))"

definition cnpg_destination_plugin :: "backup_declaration \<Rightarrow> backup_plugin option" where
  "cnpg_destination_plugin d = List.find names_destination (bk_plugins d)"

definition cnpg_has_backup_destination :: "backup_declaration \<Rightarrow> bool" where
  "cnpg_has_backup_destination d =
     (truthy_str (bk_in_tree_destination d) \<or> bk_snapshots d \<or> cnpg_destination_plugin d \<noteq> None)"

datatype backup_blocker_code = NoDestination | MethodDestinationMissing

record backup_blocker =
  bb_code :: backup_blocker_code
  bb_method :: string
  bb_plugin :: "string option"

definition cnpg_backup_destination_blocker :: "backup_declaration \<Rightarrow> string \<Rightarrow> string option \<Rightarrow> backup_blocker option" where
  "cnpg_backup_destination_blocker d method plugin =
     (let blocked = (if method = ''barmanObjectStore'' then \<not> truthy_str (bk_in_tree_destination d)
            else if method = ''volumeSnapshot'' then \<not> bk_snapshots d
            else if method = ''plugin'' then \<not> list_ex (\<lambda>p. Some (bp_name p) = plugin \<and> names_destination p) (bk_plugins d)
            else False)
      in if blocked then Some \<lparr>bb_code = (if cnpg_has_backup_destination d then MethodDestinationMissing else NoDestination),
             bb_method = method, bb_plugin = map_option bp_name (cnpg_destination_plugin d)\<rparr>
         else None)"

definition cnpg_backup_blocker_text :: "backup_blocker \<Rightarrow> string" where
  "cnpg_backup_blocker_text b =
     (if bb_code b = NoDestination then ''No backup destination'' else ''No '' @ bb_method b @ '' destination'')"

section \<open>Groups, versions, plugins of Backups\<close>

definition is_api_group :: "json option \<Rightarrow> string \<Rightarrow> bool" where
  "is_api_group v grp =
     (case v of
        Some (JStr s) \<Rightarrow>
          if CHR ''/'' \<in> set s
          then (let front = take (length s - length (after_last (CHR ''/'') s) - 1) s in front \<noteq> [] \<and> front = grp)
          else False
      | _ \<Rightarrow> False)"

definition cnpg_group :: string where "cnpg_group = ''postgresql.cnpg.io''"

definition get_cnpg_postgres_major :: "json option \<Rightarrow> int option" where
  "get_cnpg_postgres_major cluster =
     (let a = json_path cluster [''status'', ''pgDataImageInfo'', ''majorVersion''];
          major = (if json_present a then a else json_path cluster [''spec'', ''imageCatalogRef'', ''major''])
      in case major of Some (JNum n) \<Rightarrow> if n > 0 then Some n else None | _ \<Rightarrow> None)"

definition get_cnpg_cluster_barman_plugin :: "json option \<Rightarrow> backup_plugin option" where
  "get_cnpg_cluster_barman_plugin cluster = cnpg_barman_plugin (cnpg_backup_declaration cluster)"

definition get_cnpg_backup_plugin :: "json option \<Rightarrow> string option" where
  \<comment> \<open>the name of the plugin\<close>
  "get_cnpg_backup_plugin backup =
     (if str_at backup [''spec'', ''method''] \<noteq> Some ''plugin'' then None
      else let name = str_at backup [''spec'', ''pluginConfiguration'', ''name''] in if truthy_str name then name else None)"

section \<open>Addresses of archives\<close>

record js_url =
  ju_protocol :: string
  ju_hostname :: string
  ju_port :: string
  ju_username :: string
  ju_password :: string

definition strip_trailing_slashes :: "string \<Rightarrow> string" where
  "strip_trailing_slashes s = rev (dropWhile (\<lambda>c. c = CHR ''/'') (rev s))"

fun after_sub :: "string \<Rightarrow> string \<Rightarrow> string option" where
  \<comment> \<open>what follows the first occurrence of a substring\<close>
  "after_sub t [] = (if t = [] then Some [] else None)"
| "after_sub t (c # cs) = (if prefix t (c # cs) then Some (drop (length t) (c # cs)) else after_sub t cs)"

definition normalize_url :: "(string \<Rightarrow> js_url option) \<Rightarrow> string \<Rightarrow> string option" where
  "normalize_url parse_url value =
     (if value = [] then Some []
      else if CHR 0x5C \<in> set value then None
      else case parse_url value of None \<Rightarrow> None
           | Some url \<Rightarrow>
               (case after_sub ''://'' value of None \<Rightarrow> None
                | Some rest \<Rightarrow>
                    if ju_hostname url = [] \<or> ju_username url \<noteq> [] \<or> ju_password url \<noteq> []
                       \<or> CHR ''?'' \<in> set value \<or> CHR ''#'' \<in> set value then None
                    else let path = dropWhile (\<lambda>c. c \<noteq> CHR ''/'') rest;
                             port = (if ju_port url \<noteq> [] then ju_port url else if ju_protocol url = ''https:'' then ''443''
                                     else if ju_protocol url = ''http:'' then ''80'' else [])
                         in Some (ju_protocol url @ ''//'' @ to_lower (ju_hostname url) @ '':'' @ port @ strip_trailing_slashes path)))"

section \<open>Which Cluster and archive a Backup belongs to\<close>

definition cluster_owner :: "json option \<Rightarrow> json option" where
  "cluster_owner backup =
     List.find (\<lambda>r. json_get (Some r) ''kind'' = Some (JStr ''Cluster'') \<and> is_api_group (json_get (Some r) ''apiVersion'') cnpg_group)
       (json_list (json_path backup [''metadata'', ''ownerReferences'']))"

definition recorded_uid :: "json option \<Rightarrow> string option" where
  "recorded_uid backup =
     or_str (str_at backup [''status'', ''pluginMetadata'', ''clusterUID'']) (str_at (cluster_owner backup) [''uid''])"

definition began_before :: "(string \<Rightarrow> int option) \<Rightarrow> json option \<Rightarrow> json option \<Rightarrow> bool" where
  \<comment> \<open>both dates are known and the Backup is older than the Cluster\<close>
  "began_before parse backup cluster =
     (case (parse (coalesce (coalesce_opt (str_at backup [''status'', ''startedAt'']) (str_at backup [''metadata'', ''creationTimestamp''])) []),
            parse (coalesce (str_at cluster [''metadata'', ''creationTimestamp'']) [])) of
        (Some began, Some created) \<Rightarrow> began < created
      | _ \<Rightarrow> False)"

definition cnpg_backup_matches_cluster :: "(string \<Rightarrow> int option) \<Rightarrow> json option \<Rightarrow> json option \<Rightarrow> bool" where
  "cnpg_backup_matches_cluster parse backup cluster =
     (if \<not> json_truthy cluster \<or> str_at backup [''spec'', ''cluster'', ''name''] \<noteq> str_at cluster [''metadata'', ''name'']
         \<or> str_at backup [''metadata'', ''namespace''] \<noteq> str_at cluster [''metadata'', ''namespace''] then False
      else if truthy_str (recorded_uid backup) \<and> recorded_uid backup \<noteq> str_at cluster [''metadata'', ''uid''] then False
      else \<not> began_before parse backup cluster)"

datatype archive_source = ArchiveStore "string option" "string option" | ArchiveTree json "string option"

definition cnpg_archive_matches_cluster :: "(string \<Rightarrow> js_url option) \<Rightarrow> json option \<Rightarrow> archive_source \<Rightarrow> bool" where
  "cnpg_archive_matches_cluster parse_url cluster source =
     (case source of
        ArchiveStore store server \<Rightarrow>
          (case get_cnpg_cluster_barman_plugin cluster of None \<Rightarrow> store = None \<and> str_at cluster [''metadata'', ''name''] = server
           | Some p \<Rightarrow> bp_object p = store \<and> or_str (bp_server p) (str_at cluster [''metadata'', ''name'']) = server)
      | ArchiveTree tree server \<Rightarrow>
          (let archive = json_path cluster [''spec'', ''backup'', ''barmanObjectStore''];
               path = str_at (Some tree) [''destinationPath'']; endpoint = coalesce (str_at (Some tree) [''endpointURL'']) [];
               destination = Option.bind path (normalize_url parse_url); endpoint_key = normalize_url parse_url endpoint
           in truthy_str (str_at archive [''destinationPath'']) \<and> truthy_str path \<and> destination \<noteq> None \<and> endpoint_key \<noteq> None
              \<and> or_str (str_at archive [''serverName'']) (str_at cluster [''metadata'', ''name'']) = server
              \<and> normalize_url parse_url (the (str_at archive [''destinationPath''])) = destination
              \<and> normalize_url parse_url (coalesce (str_at archive [''endpointURL'']) []) = endpoint_key))"

definition is_cnpg_kind :: "json option \<Rightarrow> string \<Rightarrow> bool" where
  "is_cnpg_kind o' kind = (json_get o' ''kind'' = Some (JStr kind) \<and> is_api_group (json_get o' ''apiVersion'') cnpg_group)"

definition ns_of :: "json option \<Rightarrow> string" where "ns_of o' = coalesce (str_at o' [''metadata'', ''namespace'']) []"

definition name_of :: "json option \<Rightarrow> string" where "name_of o' = coalesce (str_at o' [''metadata'', ''name'']) []"

definition target_cluster :: "(string \<Rightarrow> int option) \<Rightarrow> json option \<Rightarrow> json list \<Rightarrow> json option" where
  "target_cluster parse o' clusters =
     (let name = str_at o' [''spec'', ''cluster'', ''name'']
      in if \<not> truthy_str name then None
         else let cluster = List.find (\<lambda>c. is_cnpg_kind (Some c) ''Cluster'' \<and> ns_of (Some c) = ns_of o' \<and> name_of (Some c) = the name) clusters
              in if is_cnpg_kind o' ''Backup'' \<and> \<not> cnpg_backup_matches_cluster parse o' cluster then None else cluster)"

definition object_store_for_backup :: "(string \<Rightarrow> int option) \<Rightarrow> json option \<Rightarrow> json list \<Rightarrow> string option" where
  "object_store_for_backup parse backup clusters =
     (let method = or_str (str_at backup [''status'', ''method'']) (str_at backup [''spec'', ''method''])
      in if method \<noteq> Some ''plugin'' then None
         else if str_at backup [''spec'', ''pluginConfiguration'', ''name''] \<noteq> Some barman_plugin_name then None
         else let cluster = target_cluster parse backup clusters
              in if json_get backup ''kind'' = Some (JStr ''Backup'') \<and> \<not> cnpg_backup_matches_cluster parse backup cluster then None
                 else let current = (if json_truthy cluster then Option.bind (get_cnpg_cluster_barman_plugin cluster) bp_object else None)
                      in if truthy_str current then current else None)"

record recovery_window =
  win_server :: string
  win_first :: "string option"
  win_last :: "string option"
  win_failed :: "string option"
  win_failing :: bool

definition window_of :: "(string \<Rightarrow> int option) \<Rightarrow> string \<Rightarrow> json \<Rightarrow> recovery_window" where
  "window_of parse server w =
     (let success = str_at (Some w) [''lastSuccessfulBackupTime'']; failed = str_at (Some w) [''lastFailedBackupTime'']
      in \<lparr>win_server = server, win_first = str_at (Some w) [''firstRecoverabilityPoint''], win_last = success, win_failed = failed,
          win_failing = (truthy_str failed \<and> (\<not> truthy_str success
             \<or> (case (parse (the failed), parse (the success)) of (Some f, Some s) \<Rightarrow> f > s | _ \<Rightarrow> False)))\<rparr>)"

definition get_recovery_windows :: "(string \<Rightarrow> int option) \<Rightarrow> (string \<Rightarrow> string \<Rightarrow> int) \<Rightarrow> json option \<Rightarrow> recovery_window list" where
  "get_recovery_windows parse lc store =
     (case json_path store [''status'', ''serverRecoveryWindow''] of
        Some (JObj kvs) \<Rightarrow> js_sort (\<lambda>a b. lc (win_server a) (win_server b)) (map (\<lambda>(s, w). window_of parse s w) kvs)
      | _ \<Rightarrow> [])"

section \<open>Coverage of what was read\<close>

datatype coverage_state = CovFull | CovPartial | CovDenied | CovNotInstalled | CovSyncing | CovUncached | CovError

record kind_coverage =
  cov_state :: coverage_state
  cov_denied :: "string list option"
  cov_uncached :: "string list option"
  cov_allowed :: "string list option"

definition coverage_readable :: "kind_coverage \<Rightarrow> string \<Rightarrow> bool" where
  "coverage_readable cov namespace =
     (case cov_state cov of
        CovFull \<Rightarrow> True
      | CovPartial \<Rightarrow>
          if namespace = [] then False
          else (case cov_allowed cov of
                  Some ns \<Rightarrow> namespace \<in> set ns
                | None \<Rightarrow>
                    if cov_denied cov \<noteq> None \<or> cov_uncached cov \<noteq> None
                    then namespace \<notin> set (coalesce (cov_denied cov) []) \<and> namespace \<notin> set (coalesce (cov_uncached cov) [])
                    else False)
      | _ \<Rightarrow> False)"

end
