(* ===== verification/Cnpg_Restore.thy ===== *)
theory Cnpg_Restore
  imports Cnpg_Backup Cnpg_Operations
begin

text \<open>
  Restoring a CloudNativePG Cluster (\<open>web/src/components/cnpg/recovery/restoreModel.ts\<close>): what a restore can
  read from, the evidence for how far it reaches, the manifest of the new Cluster, where a restore stands and
  what remains to be done after it. Manifests are JSON values, written as the code writes them.
\<close>

section \<open>Sources and targets\<close>

datatype restore_source =
    SrcStore (src_store: string) (src_server: "string option") (src_backup_id: "string option") (src_backup_name: "string option")
      (src_end: "string option") (src_major: "int option")
  | SrcTree (src_tree: json) (src_server: "string option") (src_major: "int option")
  | SrcBackup (src_backup: "string option") (src_end: "string option") (src_snapshot: bool) (src_major: "int option")

datatype restore_target = TargetLatest | TargetTime string | TargetBackupEnd

datatype target_kind = KindLatest | KindTime | KindBackupEnd

fun kind_of_target :: "restore_target \<Rightarrow> target_kind" where
  "kind_of_target TargetLatest = KindLatest"
| "kind_of_target (TargetTime moment) = KindTime"
| "kind_of_target TargetBackupEnd = KindBackupEnd"

definition has_method :: "string \<Rightarrow> json option \<Rightarrow> bool" where
  "has_method m b = (str_at b [''spec'', ''method''] = Some m \<or> str_at b [''status'', ''method''] = Some m)"

definition is_plugin_backup :: "json option \<Rightarrow> bool" where
  "is_plugin_backup b = has_method ''plugin'' b"

definition is_snapshot_backup :: "json option \<Rightarrow> bool" where
  "is_snapshot_backup b = has_method ''volumeSnapshot'' b"

definition backup_end_of :: "json option \<Rightarrow> string option" where
  "backup_end_of b = or_str (str_at b [''status'', ''stoppedAt'']) (str_at b [''status'', ''startedAt''])"

definition json_field :: "string \<Rightarrow> string option \<Rightarrow> (string \<times> json) list" where
  \<comment> \<open>a field whose value may be \<open>undefined\<close>, which no reader tells from an absent one\<close>
  "json_field k v = (case v of None \<Rightarrow> [] | Some s \<Rightarrow> [(k, JStr s)])"

definition recorded_in_tree_archive :: "json option \<Rightarrow> (json \<times> string option) option" where
  \<comment> \<open>the object store and server a Backup recorded writing to\<close>
  "recorded_in_tree_archive b =
     (let path = str_at b [''status'', ''destinationPath''];
          server = or_str (str_at b [''status'', ''serverName'']) (str_at b [''spec'', ''cluster'', ''name''])
      in if is_plugin_backup b \<or> is_snapshot_backup b \<or> \<not> truthy_str path \<or> \<not> truthy_str server then None
         else Some (JObj (json_field ''destinationPath'' path @ json_field ''endpointURL'' (str_at b [''status'', ''endpointURL''])), server))"

definition as_cluster_with_archive :: "json \<Rightarrow> string option \<Rightarrow> json" where
  "as_cluster_with_archive tree server =
     JObj [(''spec'', JObj [(''backup'', JObj [(''barmanObjectStore'',
        JObj (case (tree, server) of (JObj kvs, Some s) \<Rightarrow> AList.update ''serverName'' (JStr s) kvs
              | (JObj kvs, None) \<Rightarrow> AList.delete ''serverName'' kvs | _ \<Rightarrow> []))])])]"

definition same_in_tree_archive ::
    "(string \<Rightarrow> js_url option) \<Rightarrow> json \<times> string option \<Rightarrow> json \<times> string option \<Rightarrow> bool" where
  "same_in_tree_archive parse_url a b =
     cnpg_archive_matches_cluster parse_url (Some (as_cluster_with_archive (fst a) (snd a))) (ArchiveTree (fst b) (snd b))"

definition is_completed :: "json option \<Rightarrow> bool" where
  "is_completed b = (str_at b [''status'', ''phase''] = Some ''completed'')"

definition cluster_archives_into ::
    "(string \<Rightarrow> js_url option) \<Rightarrow> restore_source \<Rightarrow> json option \<Rightarrow> string \<Rightarrow> json list \<Rightarrow> bool" where
  "cluster_archives_into parse_url source cluster namespace finished =
     (if \<not> json_truthy cluster then False
      else case source of
             SrcTree tree server major \<Rightarrow> True
           | SrcStore store server i n e major \<Rightarrow>
               str_at cluster [''metadata'', ''namespace''] = Some namespace
               \<and> cnpg_archive_matches_cluster parse_url cluster (ArchiveStore (Some store) server)
               \<and> (case get_cnpg_cluster_barman_plugin cluster of None \<Rightarrow> False | Some p \<Rightarrow> bp_wal_archiver p)
           | SrcBackup name e snapshot major \<Rightarrow>
               (case (if snapshot then None
                      else recorded_in_tree_archive (List.find (\<lambda>b. str_at (Some b) [''metadata'', ''name''] = name) finished)) of
                  None \<Rightarrow> False
                | Some (tree, server) \<Rightarrow> cnpg_archive_matches_cluster parse_url cluster (ArchiveTree tree server)))"

definition backup_major :: "json option \<Rightarrow> int option" where
  "backup_major b = (case json_path b [''status'', ''majorVersion''] of Some (JNum n) \<Rightarrow> if n > 0 then Some n else None | _ \<Rightarrow> None)"

definition restore_source_for_backup :: "(string \<Rightarrow> int option) \<Rightarrow> json option \<Rightarrow> json option \<Rightarrow> restore_source option" where
  "restore_source_for_backup parse backup cluster =
     (let name = str_at backup [''metadata'', ''name'']
      in if \<not> is_completed backup then None
         else if \<not> is_plugin_backup backup
         then Some (SrcBackup name (backup_end_of backup) (is_snapshot_backup backup) (backup_major backup))
         else if get_cnpg_backup_plugin backup \<noteq> Some barman_plugin_name then None
         else if \<not> cnpg_backup_matches_cluster parse backup cluster then None
         else let plugin = (if json_truthy cluster then get_cnpg_cluster_barman_plugin cluster else None);
                  store = Option.bind plugin bp_object; server = Option.bind plugin bp_server;
                  ident = str_at backup [''status'', ''backupId'']
              in if \<not> truthy_str store \<or> \<not> truthy_str server \<or> \<not> truthy_str ident then None
                 else Some (SrcStore (the store) server ident name (backup_end_of backup) (backup_major backup)))"

definition own_backup :: "json option \<Rightarrow> json \<Rightarrow> bool" where
  "own_backup cluster b =
     (str_at (Some b) [''spec'', ''cluster'', ''name''] = str_at cluster [''metadata'', ''name'']
      \<and> str_at (Some b) [''metadata'', ''namespace''] = str_at cluster [''metadata'', ''namespace'']
      \<and> is_api_group (Some (json_coalesce (json_get (Some b) ''apiVersion'') (JStr ''postgresql.cnpg.io/v1''))) cnpg_group)"

definition compare_dates_desc :: "(string \<Rightarrow> int option) \<Rightarrow> string option \<Rightarrow> string option \<Rightarrow> int" where
  \<comment> \<open>\<open>Date.parse(b ?? '') - Date.parse(a ?? '')\<close>, \<open>NaN\<close> counting as equal\<close>
  "compare_dates_desc parse a b =
     (case (parse (coalesce a []), parse (coalesce b [])) of (Some s, Some t) \<Rightarrow> t - s | _ \<Rightarrow> 0)"

definition restore_sources_for :: "(string \<Rightarrow> int option) \<Rightarrow> json option \<Rightarrow> json list \<Rightarrow> restore_source list" where
  "restore_sources_for parse cluster backups =
     (let name = str_at cluster [''metadata'', ''name''];
          plugin = (if json_truthy cluster then get_cnpg_cluster_barman_plugin cluster else None);
          tree = json_path cluster [''spec'', ''backup'', ''barmanObjectStore'']
      in (case plugin of None \<Rightarrow> []
          | Some p \<Rightarrow> if truthy_str (bp_object p)
                     then [SrcStore (the (bp_object p)) (or_str (bp_server p) name) None None None None] else [])
         @ (if json_truthy tree then [SrcTree (the tree) (or_str (str_at tree [''serverName'']) name) None] else [])
         @ List.map_filter (\<lambda>b. restore_source_for_backup parse (Some b) cluster)
             (js_sort (\<lambda>a b. compare_dates_desc parse (backup_end_of (Some a)) (backup_end_of (Some b)))
                (filter (own_backup cluster) backups)))"

definition source_pins_backup :: "restore_source \<Rightarrow> bool" where
  "source_pins_backup s = (case s of SrcStore st sv i n e m \<Rightarrow> truthy_str i | _ \<Rightarrow> False)"

definition restore_target_kinds :: "restore_source option \<Rightarrow> target_kind list" where
  "restore_target_kinds s =
     (case s of None \<Rightarrow> [KindLatest, KindTime]
      | Some src \<Rightarrow>
          (case src of SrcBackup b e snapshot m \<Rightarrow> if snapshot then [KindBackupEnd] else [KindLatest, KindTime]
           | _ \<Rightarrow> if source_pins_backup src then [KindBackupEnd, KindLatest, KindTime] else [KindLatest, KindTime]))"

definition restore_sources_for_store ::
    "(string \<Rightarrow> int option) \<Rightarrow> (string \<Rightarrow> string \<Rightarrow> int) \<Rightarrow> json option \<Rightarrow> restore_source list" where
  "restore_sources_for_store parse lc store =
     map (\<lambda>w. SrcStore (name_of store) (Some (win_server w)) None None None None)
       (js_sort (\<lambda>a b. compare_dates_desc parse (win_last a) (win_last b)) (get_recovery_windows parse lc store))"

definition source_cluster_for :: "(string \<Rightarrow> js_url option) \<Rightarrow> restore_source \<Rightarrow> json list \<Rightarrow> string \<Rightarrow> json option" where
  "source_cluster_for parse_url source clusters namespace =
     (let archive = (case source of SrcBackup b e s m \<Rightarrow> None
           | SrcStore store server i n e m \<Rightarrow> Some (ArchiveStore (Some store) server) | SrcTree tree server m \<Rightarrow> Some (ArchiveTree tree server))
      in case archive of None \<Rightarrow> None
         | Some a \<Rightarrow> List.find (\<lambda>c. str_at (Some c) [''metadata'', ''namespace''] = Some namespace
                               \<and> cnpg_archive_matches_cluster parse_url (Some c) a) clusters)"

definition describe_source :: "restore_source \<Rightarrow> string" where
  "describe_source s =
     (case s of
        SrcStore store server i n e m \<Rightarrow>
          if truthy_str n then ''Backup '' @ the n @ '' (ID '' @ coalesce i ''undefined'' @ '') in ObjectStore '' @ store
          else ''ObjectStore '' @ store @ '' '' @ bytes_middot @ '' server '' @ coalesce server ''undefined''
      | SrcTree tree server m \<Rightarrow> ''Barman object store (in-tree) '' @ bytes_middot @ '' server '' @ coalesce server ''undefined''
      | SrcBackup b e snapshot m \<Rightarrow> ''Backup '' @ coalesce b ''undefined'' @ (if snapshot then '' (volume snapshot)'' else []))"

section \<open>The image\<close>

datatype restore_image = ImageCatalog json | ImageName string | ImageDefault

definition with_major :: "json \<Rightarrow> int \<Rightarrow> json" where
  "with_major ref major = (case ref of JObj kvs \<Rightarrow> JObj (AList.update ''major'' (JNum major) kvs) | _ \<Rightarrow> JObj [(''major'', JNum major)])"

definition pins_data :: "restore_source \<Rightarrow> bool" where
  "pins_data s = (case s of SrcBackup b e sn m \<Rightarrow> True | _ \<Rightarrow> source_pins_backup s)"

definition restore_image_of :: "json option \<Rightarrow> restore_source option \<Rightarrow> restore_image" where
  "restore_image_of cluster source =
     (let catalog = json_path cluster [''spec'', ''imageCatalogRef'']
      in case (case source of None \<Rightarrow> None | Some s \<Rightarrow> if pins_data s then Some s else None) of
           Some s \<Rightarrow>
             (case src_major s of None \<Rightarrow> ImageDefault
              | Some major \<Rightarrow>
                  if json_truthy catalog then ImageCatalog (with_major (the catalog) major)
                  else let running = str_at cluster [''status'', ''pgDataImageInfo'', ''image'']
                       in if get_cnpg_postgres_major cluster = Some major \<and> truthy_str running then ImageName (the running) else ImageDefault)
         | None \<Rightarrow>
             if json_truthy catalog then ImageCatalog (the catalog)
             else let name = or_str (str_at cluster [''spec'', ''imageName'']) (str_at cluster [''status'', ''image''])
                  in if truthy_str name then ImageName (the name) else ImageDefault)"

definition image_fields :: "restore_image \<Rightarrow> (string \<times> json) list" where
  "image_fields i = (case i of ImageCatalog ref \<Rightarrow> [(''imageCatalogRef'', ref)] | ImageName n \<Rightarrow> [(''imageName'', JStr n)] | ImageDefault \<Rightarrow> [])"

section \<open>The manifest\<close>

definition pinned_fields :: "restore_source \<Rightarrow> (string \<times> json) list" where
  "pinned_fields s = (if source_pins_backup s then json_field ''backupID'' (src_backup_id s) else [])"

definition recovery_target_fields :: "restore_source \<Rightarrow> restore_target \<Rightarrow> (string \<times> json) list" where
  \<comment> \<open>\<open>recoveryTarget\<close>, where the source and the target ask for one\<close>
  "recovery_target_fields s target =
     (let pinned = pinned_fields s
      in case target of
           TargetBackupEnd \<Rightarrow>
             if pinned \<noteq> [] then [(''recoveryTarget'', JObj (pinned @ [(''targetImmediate'', JBool True)]))] else []
         | TargetTime moment \<Rightarrow>
             if KindTime \<in> set (restore_target_kinds (Some s)) then [(''recoveryTarget'', JObj (pinned @ [(''targetTime'', JStr moment)]))]
             else if pinned \<noteq> [] then [(''recoveryTarget'', JObj pinned)] else []
         | TargetLatest \<Rightarrow> if pinned \<noteq> [] then [(''recoveryTarget'', JObj pinned)] else [])"

definition recovery_fields :: "restore_source \<Rightarrow> restore_target \<Rightarrow> (string \<times> json) list" where
  "recovery_fields s target =
     (case s of SrcBackup b e sn m \<Rightarrow> [(''backup'', JObj (json_field ''name'' b))] | _ \<Rightarrow> [(''source'', JStr ''origin'')])
     @ recovery_target_fields s target"

definition copied :: "string \<Rightarrow> json option \<Rightarrow> (string \<times> json) list" where
  "copied k v = (if json_truthy v then [(k, the v)] else [])"

definition external_clusters :: "restore_source \<Rightarrow> (string \<times> json) list" where
  "external_clusters s =
     (case s of
        SrcStore store server i n e m \<Rightarrow>
          [(''externalClusters'', JArr [JObj [(''name'', JStr ''origin''),
             (''plugin'', JObj [(''name'', JStr barman_plugin_name),
                (''parameters'', JObj ((''barmanObjectName'', JStr store) # json_field ''serverName'' server))])]])]
      | SrcTree tree server m \<Rightarrow>
          [(''externalClusters'', JArr [JObj [(''name'', JStr ''origin''),
             (''barmanObjectStore'', JObj (case (tree, server) of (JObj kvs, Some sv) \<Rightarrow> AList.update ''serverName'' (JStr sv) kvs
                | (JObj kvs, None) \<Rightarrow> AList.delete ''serverName'' kvs | _ \<Rightarrow> json_field ''serverName'' server))]])]
      | SrcBackup b e sn m \<Rightarrow> [])"

definition restore_spec :: "json option \<Rightarrow> restore_source \<Rightarrow> restore_target \<Rightarrow> (string \<times> json) list" where
  "restore_spec cluster s target =
     (let spec = json_get cluster ''spec''; params = json_path spec [''postgresql'', ''parameters'']
      in [(''instances'', json_coalesce (json_get spec ''instances'') (JNum 1))]
         @ image_fields (restore_image_of cluster (Some s))
         @ (if json_truthy params then [(''postgresql'', JObj [(''parameters'', the params)])] else [])
         @ copied ''resources'' (json_get spec ''resources'')
         @ [(''storage'', json_coalesce (json_get spec ''storage'') (JObj []))]
         @ copied ''walStorage'' (json_get spec ''walStorage'')
         @ copied ''tablespaces'' (json_get spec ''tablespaces'')
         @ [(''bootstrap'', JObj [(''recovery'', JObj (recovery_fields s target))])]
         @ external_clusters s)"

definition build_restore_manifest ::
    "json option \<Rightarrow> restore_source \<Rightarrow> string \<Rightarrow> string \<Rightarrow> restore_target \<Rightarrow> json" where
  "build_restore_manifest cluster s namespace new_name target =
     JObj [(''apiVersion'', JStr ''postgresql.cnpg.io/v1''), (''kind'', JStr ''Cluster''),
       (''metadata'', JObj [(''name'', JStr new_name), (''namespace'', JStr namespace)]),
       (''spec'', JObj (restore_spec cluster s target))]"

definition restore_manifest_header :: "string \<Rightarrow> string option \<Rightarrow> string option \<Rightarrow> string" where
  "restore_manifest_header label server copied_from =
     join [CHR 0x0A]
       [''# Restores '' @ label @ '' into a new cluster. Review before creating:'',
        (if truthy_str copied_from
         then ''# - instances, image, storage, WAL storage, tablespaces, PostgreSQL parameters and resources are copied from ''
                @ the copied_from @ ''; edit them here.''
         else ''# - no source cluster was found: set the image and storage for the source before creating.''),
        ''# - the new cluster has no WAL archiving or backups until you configure them.'',
        (if truthy_str server
         then ''#   When you do, use a new serverName: archiving under '' @ [CHR 0x22] @ the server @ [CHR 0x22]
                @ '' would write into the archive this restores from.''
         else ''#   When you do, use a new destination: never the location this restores from.''),
        ''# - the dry-run checks the manifest, not whether the backups are readable.''] @ [CHR 0x0A]"

section \<open>What a Cluster declares for protection\<close>

datatype backup_declared = DeclWalArchiving | DeclArchiverWithoutDestination | DeclBackupsNoArchiving | DeclSnapshotsOnly | DeclNone

definition restore_backup_declared :: "json option \<Rightarrow> backup_declared" where
  "restore_backup_declared cluster =
     (let d = cnpg_backup_declaration cluster; plugin = cnpg_barman_plugin d;
          archiver = (case plugin of None \<Rightarrow> False | Some p \<Rightarrow> bp_wal_archiver p);
          store = truthy_str (Option.bind plugin bp_object)
      in if archiver \<and> store \<or> truthy_str (bk_in_tree_destination d) then DeclWalArchiving
         else if archiver then DeclArchiverWithoutDestination
         else if store then DeclBackupsNoArchiving
         else if bk_snapshots d then DeclSnapshotsOnly else DeclNone)"
section \<open>What the manifest asks for\<close>

lemma json_get_obj [simp]: "json_get (Some (JObj kvs)) k = map_of kvs k"
  by (simp add: json_get_def)

lemma json_get_None [simp]: "json_get None k = None"
  by (simp add: json_get_def)

lemma json_path_simps [simp]: "json_path v [] = v" "json_path v (k # ks) = json_path (json_get v k) ks"
  by (simp_all add: json_path_def)

lemma json_path_none [simp]: "json_path None ks = None"
  by (induction ks) simp_all

lemma map_of_append_keys: "k \<notin> fst ` set xs \<Longrightarrow> map_of (xs @ ys) k = map_of ys k"
  by (induction xs) auto

lemma copied_keys: "fst ` set (copied k v) \<subseteq> {k}"
  by (auto simp: copied_def)

lemma image_keys: "fst ` set (image_fields i) \<subseteq> {''imageCatalogRef'', ''imageName''}"
  by (cases i) (auto simp: image_fields_def)

lemma external_keys: "fst ` set (external_clusters s) \<subseteq> {''externalClusters''}"
  by (cases s) (auto simp: external_clusters_def)

definition restore_spec_keys :: "string set" where
  "restore_spec_keys = {''instances'', ''imageCatalogRef'', ''imageName'', ''postgresql'', ''resources'', ''storage'', ''walStorage'',
     ''tablespaces'', ''bootstrap'', ''externalClusters''}"

lemma restore_spec_key_set: "fst ` set (restore_spec cluster s target) \<subseteq> restore_spec_keys"
  using image_keys [of "restore_image_of cluster (Some s)"] external_keys [of s] copied_keys
  unfolding restore_spec_def restore_spec_keys_def Let_def
  by (auto simp: image_Un split: if_splits dest!: subsetD [OF copied_keys, OF imageI])

lemma restore_spec_absent: "k \<notin> restore_spec_keys \<Longrightarrow> map_of (restore_spec cluster s target) k = None"
  using restore_spec_key_set [of cluster s target] by (auto simp: map_of_eq_None_iff)

lemma restore_spec_recovery:
  "map_of (restore_spec cluster s target) ''bootstrap'' = Some (JObj [(''recovery'', JObj (recovery_fields s target))])"
proof -
  let ?spec = "json_get cluster ''spec''"
  have "map_of (image_fields i @ ys) ''bootstrap'' = map_of ys ''bootstrap''" for i ys
    using image_keys [of i] by (intro map_of_append_keys) auto
  moreover have "map_of (copied k v @ ys) ''bootstrap'' = map_of ys ''bootstrap''" if "k \<noteq> ''bootstrap''" for k v ys
    using that copied_keys [of k v] by (intro map_of_append_keys) auto
  ultimately show ?thesis by (simp add: restore_spec_def Let_def del: map_of_append)
qed

text \<open>
  C24. A restored Cluster writes to no archive until someone configures one, least of all the one it is
  restored from: whatever the source Cluster and the source are, the manifest has no section for backups
  and no plugin, and what a Cluster declares by it for its protection is nothing.
\<close>
theorem restored_cluster_archives_nowhere:
  "restore_backup_declared (Some (build_restore_manifest cluster s namespace new_name target)) = DeclNone
   \<and> json_path (Some (build_restore_manifest cluster s namespace new_name target)) [''spec'', ''backup''] = None
   \<and> json_path (Some (build_restore_manifest cluster s namespace new_name target)) [''spec'', ''plugins''] = None"
proof -
  let ?m = "Some (build_restore_manifest cluster s namespace new_name target)"
  have spec: "json_get ?m ''spec'' = Some (JObj (restore_spec cluster s target))" by (simp add: build_restore_manifest_def)
  have backup: "json_path ?m [''spec'', ''backup''] = None" and plugins: "json_path ?m [''spec'', ''plugins''] = None"
    by (simp_all add: spec restore_spec_absent restore_spec_keys_def)
  then have "bk_plugins (cnpg_backup_declaration ?m) = []" "bk_in_tree_destination (cnpg_backup_declaration ?m) = None"
    "\<not> bk_snapshots (cnpg_backup_declaration ?m)"
    by (simp_all only: cnpg_backup_declaration_def Let_def backup_declaration.select_convs plugins backup)
       (simp_all add: json_list_def str_at_def json_present_def)
  then have "restore_backup_declared ?m = DeclNone" by (simp add: restore_backup_declared_def cnpg_barman_plugin_def Let_def)
  then show ?thesis using backup plugins by blast
qed

definition target_of_manifest :: "json \<Rightarrow> json option" where
  "target_of_manifest m = json_path (Some m) [''spec'', ''bootstrap'', ''recovery'', ''recoveryTarget'']"

lemma target_of_restore_manifest:
  "target_of_manifest (build_restore_manifest cluster s namespace new_name target) = map_of (recovery_target_fields s target) ''recoveryTarget''"
  by (auto simp: target_of_manifest_def build_restore_manifest_def restore_spec_recovery recovery_fields_def split: restore_source.split)

lemma pinned_fields_eq:
  "pinned_fields s = (if source_pins_backup s then [(''backupID'', JStr (the (src_backup_id s)))] else [])"
  by (cases s) (auto simp: pinned_fields_def source_pins_backup_def json_field_def truthy_str_def split: option.splits)

lemma time_target_offered: "KindTime \<in> set (restore_target_kinds (Some s)) \<longleftrightarrow> (case s of SrcBackup b e sn m \<Rightarrow> \<not> sn | _ \<Rightarrow> True)"
  by (cases s) (auto simp: restore_target_kinds_def)

text \<open>
  C28. The manifest recovers to what was asked for, from the base backup the source pins: it names that
  backup's ID whatever the target, stops at the end of the backup where that is asked for and a backup is
  pinned, and at a moment exactly where one is asked for and the source can reach past its own end, which a
  volume snapshot cannot.
\<close>
theorem manifest_recovers_to_the_target:
  "(let t = target_of_manifest (build_restore_manifest cluster s namespace new_name target)
    in str_at t [''backupID''] = (if source_pins_backup s then src_backup_id s else None)
       \<and> str_at t [''targetTime''] = (case target of
            TargetTime moment \<Rightarrow> if KindTime \<in> set (restore_target_kinds (Some s)) then Some moment else None | _ \<Rightarrow> None)
       \<and> json_get t ''targetImmediate'' = (if target = TargetBackupEnd \<and> source_pins_backup s then Some (JBool True) else None)
       \<and> (t = None \<longleftrightarrow> \<not> source_pins_backup s
            \<and> (case target of TargetTime moment \<Rightarrow> KindTime \<notin> set (restore_target_kinds (Some s)) | _ \<Rightarrow> True)))"
proof -
  have pinned: "Some (the (src_backup_id s)) = src_backup_id s" if "source_pins_backup s"
    using that by (cases s) (auto simp: source_pins_backup_def truthy_str_def split: option.splits)
  show ?thesis
    using pinned
    by (cases target; cases "source_pins_backup s"; cases "KindTime \<in> set (restore_target_kinds (Some s))")
       (simp_all add: target_of_restore_manifest recovery_target_fields_def pinned_fields_eq str_at_def)
qed

text \<open>
  A restore of a base backup never starts another major version over its files: where the manifest
  names an image for such a source, the version is the one recorded with the backup, by the catalogue's
  major or by the image the source Cluster runs that version with; where it is not recorded, none is named.
\<close>
theorem image_keeps_the_major_version:
  assumes "pins_data s"
  shows "(case restore_image_of cluster (Some s) of
       ImageCatalog ref \<Rightarrow> src_major s \<noteq> None \<and> json_get (Some ref) ''major'' = map_option JNum (src_major s)
     | ImageName name \<Rightarrow> src_major s \<noteq> None \<and> get_cnpg_postgres_major cluster = src_major s
          \<and> str_at cluster [''status'', ''pgDataImageInfo'', ''image''] = Some name
     | ImageDefault \<Rightarrow> True)"
proof (cases "src_major s")
  case None
  then show ?thesis using assms by (simp add: restore_image_of_def)
next
  case (Some major)
  have "json_get (Some (with_major ref major)) ''major'' = Some (JNum major)" for ref
    by (cases ref) (simp_all add: with_major_def AList.update_conv')
  then show ?thesis using assms Some by (auto simp: restore_image_of_def Let_def truthy_str_def split: option.split)
qed

definition example_source_cluster :: "json option" where
  "example_source_cluster = Some (JObj [(''metadata'', JObj [(''name'', JStr ''pg''), (''namespace'', JStr ''db'')]),
     (''spec'', JObj [(''imageCatalogRef'', JObj [(''name'', JStr ''c''), (''major'', JNum 17)]),
        (''plugins'', JArr [JObj [(''name'', JStr barman_plugin_name), (''isWALArchiver'', JBool True)]])])])"

lemma image_keeps_the_major_version_witness:
  "(case restore_image_of example_source_cluster (Some (SrcBackup (Some ''b1'') None False (Some 16))) of
      ImageCatalog ref \<Rightarrow> json_get (Some ref) ''major'' = Some (JNum 16) | _ \<Rightarrow> False)"
proof -
  have "\<exists>ref. restore_image_of example_source_cluster (Some (SrcBackup (Some ''b1'') None False (Some 16))) = ImageCatalog ref"
    by (simp add: restore_image_of_def example_source_cluster_def pins_data_def json_truthy_def)
  then show ?thesis
    using image_keeps_the_major_version [of "SrcBackup (Some ''b1'') None False (Some 16)" example_source_cluster]
    by (auto simp: pins_data_def)
qed

end
