(* ===== verification/Cnpg_Recovery.thy ===== *)
theory Cnpg_Recovery
  imports Cnpg_Restore
begin

text \<open>
  The evidence around a restore (\<open>web/src/components/cnpg/recovery/restoreModel.ts\<close>): how far back and
  forward an archive reaches as far as is known, the warnings for a point in time, whether there is
  anything to restore from, and where a running restore stands.
\<close>

section \<open>Evidence\<close>

datatype health_level = HlHealthy | HlDegraded | HlAlert | HlUnhealthy | HlUnknown | HlNeutral

record evidence_point =
  ep_at :: string
  ep_source :: string
  ep_wal :: "string option"

record archiving_evidence =
  ae_text :: string
  ae_tone :: health_level
  ae_source :: string
  ae_detail :: "string option"

record recovery_evidence =
  re_first_point :: "evidence_point option"
  re_last_backup :: "evidence_point option"
  re_last_archived :: "evidence_point option"
  re_last_failure :: "evidence_point option"
  re_archiving :: archiving_evidence
  re_gaps :: "string list"

record runtime_archiving =
  ra_archived_at :: "string option"
  ra_archived_wal :: "string option"
  ra_failed_at :: "string option"
  ra_failed_wal :: "string option"

record restore_instance =
  ri_pod :: string
  ri_primary :: bool
  ri_ok :: bool
  ri_error :: "string option"
  ri_archiving :: "runtime_archiving option"

record cnpg_runtime =
  rn_instances :: "restore_instance list"
  rn_denied :: bool
  rn_grant :: "rbac_grant option"

record evidence_context =
  cx_cluster :: "json option"
  cx_stores :: "json list"
  cx_backups :: "json list"
  cx_runtime :: "cnpg_runtime option"
  cx_namespace :: string

definition evidence_at :: "string option \<Rightarrow> string \<Rightarrow> evidence_point option" where
  \<comment> \<open>\<open>if (at) out.point = { at, source }\<close>\<close>
  "evidence_at at src = (if truthy_str at then Some \<lparr>ep_at = the at, ep_source = src, ep_wal = None\<rparr> else None)"

definition newest_evidence :: "(string \<Rightarrow> int option) \<Rightarrow> evidence_point option list \<Rightarrow> evidence_point option" where
  "newest_evidence parse points =
     (let dated = filter (\<lambda>p. parse (ep_at p) \<noteq> None) (List.map_filter id points)
      in case js_sort (\<lambda>a b. the (parse (ep_at b)) - the (parse (ep_at a))) dated of [] \<Rightarrow> None | p # _ \<Rightarrow> Some p)"

definition backup_point :: "json \<Rightarrow> evidence_point option" where
  "backup_point b = evidence_at (backup_end_of (Some b)) (''Backup '' @ coalesce (str_at (Some b) [''metadata'', ''name'']) ''undefined'')"

definition completed_in :: "string \<Rightarrow> json list \<Rightarrow> json list" where
  "completed_in namespace backups =
     filter (\<lambda>b. str_at (Some b) [''metadata'', ''namespace''] = Some namespace \<and> is_completed (Some b)) backups"

definition cluster_label :: "json option \<Rightarrow> string" where
  "cluster_label cluster = coalesce (str_at cluster [''metadata'', ''name'']) ''undefined''"

text \<open>The first and the last backup, and what is missing, by the kind of the source.\<close>

definition store_evidence ::
    "(string \<Rightarrow> int option) \<Rightarrow> (string \<Rightarrow> js_url option) \<Rightarrow> (string \<Rightarrow> string \<Rightarrow> int) \<Rightarrow> string \<Rightarrow> string option \<Rightarrow> evidence_context
       \<Rightarrow> evidence_point option \<times> evidence_point option \<times> string list" where
  "store_evidence parse parse_url lc store_name server cx =
     (let store = List.find (\<lambda>s. str_at (Some s) [''metadata'', ''namespace''] = Some (cx_namespace cx)
             \<and> str_at (Some s) [''metadata'', ''name''] = Some store_name) (cx_stores cx);
          server_text = coalesce server ''undefined'';
          window = (case store of None \<Rightarrow> None
             | Some s \<Rightarrow> List.find (\<lambda>w. Some (win_server w) = server) (get_recovery_windows parse lc (Some s)));
          where_from = ''ObjectStore '' @ store_name @ '' status, server '' @ server_text;
          gaps = (if store = None then [''ObjectStore '' @ store_name @ '' is not readable, so its recovery window is unknown'']
                  else if window = None then [''ObjectStore '' @ store_name @ '' reports no recovery window for server '' @ server_text] else []);
          into = (if json_truthy (cx_cluster cx) \<and> str_at (cx_cluster cx) [''metadata'', ''namespace''] = Some (cx_namespace cx)
                     \<and> cnpg_archive_matches_cluster parse_url (cx_cluster cx) (ArchiveStore (Some store_name) server)
                  then filter (\<lambda>b. is_plugin_backup (Some b) \<and> get_cnpg_backup_plugin (Some b) = Some barman_plugin_name
                         \<and> cnpg_backup_matches_cluster parse (Some b) (cx_cluster cx)) (completed_in (cx_namespace cx) (cx_backups cx))
                  else [])
      in (evidence_at (Option.bind window win_first) where_from,
          newest_evidence parse (evidence_at (Option.bind window win_last) where_from # map backup_point into), gaps))"

definition tree_evidence ::
    "(string \<Rightarrow> int option) \<Rightarrow> (string \<Rightarrow> js_url option) \<Rightarrow> json \<Rightarrow> string option \<Rightarrow> evidence_context
       \<Rightarrow> evidence_point option \<times> evidence_point option \<times> string list" where
  "tree_evidence parse parse_url tree server cx =
     (let st = json_get (cx_cluster cx) ''status''; from = ''Cluster '' @ cluster_label (cx_cluster cx) @ '' status'';
          first = (if json_truthy (json_get st ''firstRecoverabilityPointByMethod'')
                   then str_at st [''firstRecoverabilityPointByMethod'', ''barmanObjectStore''] else str_at st [''firstRecoverabilityPoint'']);
          newest = (if json_truthy (json_get st ''lastSuccessfulBackupByMethod'')
                   then str_at st [''lastSuccessfulBackupByMethod'', ''barmanObjectStore''] else str_at st [''lastSuccessfulBackup'']);
          into = filter (\<lambda>b. case recorded_in_tree_archive (Some b) of None \<Rightarrow> False
                            | Some a \<Rightarrow> same_in_tree_archive parse_url a (tree, server)) (completed_in (cx_namespace cx) (cx_backups cx))
      in (if json_truthy (cx_cluster cx) then evidence_at first from else None,
          newest_evidence parse ((if json_truthy (cx_cluster cx) then evidence_at newest from else None) # map backup_point into), []))"

definition source_evidence ::
    "(string \<Rightarrow> int option) \<Rightarrow> (string \<Rightarrow> js_url option) \<Rightarrow> (string \<Rightarrow> string \<Rightarrow> int) \<Rightarrow> restore_source \<Rightarrow> evidence_context
       \<Rightarrow> evidence_point option \<times> evidence_point option \<times> string list" where
  "source_evidence parse parse_url lc s cx =
     (case s of
        SrcStore store server i n e m \<Rightarrow> store_evidence parse parse_url lc store server cx
      | SrcTree tree server m \<Rightarrow> tree_evidence parse parse_url tree server cx
      | SrcBackup b e sn m \<Rightarrow> (None, evidence_at e (''Backup '' @ coalesce b ''undefined''), []))"

text \<open>Whether the WAL that a restore replays is being archived, as far as is known.\<close>

definition archiving_line :: "string \<Rightarrow> health_level \<Rightarrow> string \<Rightarrow> archiving_evidence" where
  "archiving_line text tone src = \<lparr>ae_text = text, ae_tone = tone, ae_source = src, ae_detail = None\<rparr>"

definition archiving_condition :: "json option \<Rightarrow> archiving_evidence" where
  "archiving_condition cluster =
     (let cond = List.find (\<lambda>c. json_get (Some c) ''type'' = Some (JStr ''ContinuousArchiving''))
            (json_list (json_path cluster [''status'', ''conditions'']));
          name = cluster_label cluster; from = ''ContinuousArchiving condition on '' @ name
      in case cond of None \<Rightarrow> archiving_line ''Not reported'' HlUnknown (''Cluster '' @ name @ '' has no ContinuousArchiving condition'')
         | Some c \<Rightarrow>
             if json_get (Some c) ''status'' = Some (JStr ''True'') then archiving_line ''Archiving'' HlHealthy from
             else if json_get (Some c) ''status'' = Some (JStr ''False'')
             then (archiving_line ''Failing'' HlUnhealthy from)
                    \<lparr>ae_detail := (let m = str_at (Some c) [''message''] in if truthy_str m then m else None)\<rparr>
             else archiving_line ''Unknown'' HlUnknown from)"

definition primary_archiving :: "cnpg_runtime option \<Rightarrow> (string \<times> runtime_archiving) option" where
  \<comment> \<open>the Pod and the report of a primary whose instance manager answered\<close>
  "primary_archiving rt =
     Option.bind rt (\<lambda>r. Option.bind (List.find ri_primary (rn_instances r))
       (\<lambda>i. if ri_ok i then map_option (\<lambda>a. (ri_pod i, a)) (ri_archiving i) else None))"

definition archiving_gap :: "cnpg_runtime option \<Rightarrow> string" where
  "archiving_gap rt =
     (case rt of None \<Rightarrow> ''The last archived WAL time is not loaded''
      | Some r \<Rightarrow>
          if rn_denied r then ''The last archived WAL time needs '' @ (case rn_grant r of None \<Rightarrow> ''get pods/proxy'' | Some g \<Rightarrow> format_grant g)
          else (case List.find ri_primary (rn_instances r) of
                  None \<Rightarrow> ''No primary is reported, so the last archived WAL time is unknown''
                | Some i \<Rightarrow>
                    if \<not> ri_ok i
                    then ''The primary'' @ rsq @ ''s instance manager could not be read''
                           @ (if truthy_str (ri_error i) then '' ('' @ the (ri_error i) @ '')'' else [])
                           @ '', so the last archived WAL time is unknown''
                    else ''The primary'' @ rsq @ ''s instance manager did not report archiving''))"

definition wal_point :: "string option \<Rightarrow> string option \<Rightarrow> string \<Rightarrow> evidence_point option" where
  "wal_point at wal pod =
     map_option (\<lambda>p. p\<lparr>ep_wal := wal\<rparr>) (evidence_at at (''instance manager on '' @ pod))"

definition recovery_evidence_for ::
    "(string \<Rightarrow> int option) \<Rightarrow> (string \<Rightarrow> js_url option) \<Rightarrow> (string \<Rightarrow> string \<Rightarrow> int) \<Rightarrow> restore_source option \<Rightarrow> evidence_context
       \<Rightarrow> recovery_evidence" where
  "recovery_evidence_for parse parse_url lc source cx =
     (case source of
        None \<Rightarrow> \<lparr>re_first_point = None, re_last_backup = None, re_last_archived = None, re_last_failure = None,
                 re_archiving = archiving_line ''Not reported'' HlUnknown ''No source cluster to read'', re_gaps = []\<rparr>
      | Some s \<Rightarrow>
          let (first, newest, gaps) = source_evidence parse parse_url lc s cx;
              first_gap = (if first = None \<and> (case s of SrcBackup b e sn m \<Rightarrow> False | _ \<Rightarrow> True)
                           then [''The first recoverability point is not reported''] else []);
              base = \<lparr>re_first_point = first, re_last_backup = newest, re_last_archived = None, re_last_failure = None,
                      re_archiving = archiving_line ''Unknown'' HlUnknown ''No live cluster archives into this source'', re_gaps = gaps @ first_gap\<rparr>
          in if (case s of SrcBackup b e sn m \<Rightarrow> sn | _ \<Rightarrow> False)
             then base\<lparr>re_archiving := archiving_line ''Not replayed'' HlNeutral
                        ''A volume snapshot restores to its own end; no archived WAL is applied''\<rparr>
             else if cluster_archives_into parse_url s (cx_cluster cx) (cx_namespace cx) (completed_in (cx_namespace cx) (cx_backups cx))
             then (case primary_archiving (cx_runtime cx) of
                     Some (pod, a) \<Rightarrow>
                       base\<lparr>re_archiving := archiving_condition (cx_cluster cx),
                            re_last_archived := wal_point (ra_archived_at a) (ra_archived_wal a) pod,
                            re_last_failure := wal_point (ra_failed_at a) (ra_failed_wal a) pod\<rparr>
                   | None \<Rightarrow>
                       base\<lparr>re_archiving := archiving_condition (cx_cluster cx), re_gaps := gaps @ [archiving_gap (cx_runtime cx)] @ first_gap\<rparr>)
             else base\<lparr>re_gaps := gaps @ [''No live cluster archives into this source, so WAL archived after the last backup is unknown''] @ first_gap\<rparr>)"

definition latest_evidence :: "(string \<Rightarrow> int option) \<Rightarrow> recovery_evidence \<Rightarrow> evidence_point option" where
  "latest_evidence parse e = newest_evidence parse [re_last_backup e, re_last_archived e]"

section \<open>Warnings for a point in time\<close>

definition pitr_warnings :: "(string \<Rightarrow> int option) \<Rightarrow> (string \<Rightarrow> string) \<Rightarrow> string \<Rightarrow> recovery_evidence \<Rightarrow> int \<Rightarrow> string list" where
  \<comment> \<open>the second argument is \<open>formatUTC\<close>\<close>
  "pitr_warnings parse utc target e now =
     (case parse target of None \<Rightarrow> [''The target time is not a valid date.'']
      | Some t \<Rightarrow>
          let newest = latest_evidence parse e
          in (if t > now then [''The target is in the future; recovery cannot reach it and will fail.''] else [])
             @ (case re_first_point e of None \<Rightarrow> []
                | Some p \<Rightarrow>
                    if (case parse (ep_at p) of None \<Rightarrow> False | Some f \<Rightarrow> t < f)
                    then [''The target is before the first recoverability point ('' @ utc (ep_at p) @ '', from '' @ ep_source p
                            @ ''); no base backup is old enough and recovery will fail.''] else [])
             @ (case newest of None \<Rightarrow> []
                | Some p \<Rightarrow>
                    if (case parse (ep_at p) of None \<Rightarrow> False | Some l \<Rightarrow> t > l) \<and> t \<le> now
                    then [''The target is after the newest evidence Radar has ('' @ utc (ep_at p) @ '', from '' @ ep_source p
                            @ ''). If WAL up to the target was not archived, PostgreSQL stops recovery with an error.''] else [])
             @ (if newest = None \<and> re_first_point e = None
                then [''Radar has no evidence of what this source holds, so the target cannot be checked.''] else []))"

section \<open>Is there anything to restore from\<close>

datatype source_state = SourcesAvailable | SourcesNone | SourcesUnknown

record restore_workspace =
  ws_backup_coverage :: "kind_coverage option"
  ws_backups :: "json list option"
  ws_store_coverage :: "kind_coverage option"
  ws_stores :: "json list option"

record source_assessment =
  sa_sources :: "restore_source list"
  sa_state :: source_state
  sa_disabled :: "string option"
  sa_unread :: "string option"

definition not_installed :: kind_coverage where
  "not_installed = \<lparr>cov_state = CovNotInstalled, cov_denied = None, cov_uncached = None, cov_allowed = None\<rparr>"

definition backups_readable :: "restore_workspace option \<Rightarrow> string \<Rightarrow> bool" where
  "backups_readable ws namespace =
     (case ws of None \<Rightarrow> False | Some w \<Rightarrow> coverage_readable (coalesce (ws_backup_coverage w) not_installed) namespace)"

definition readable_backups :: "restore_workspace option \<Rightarrow> string \<Rightarrow> json list" where
  "readable_backups ws namespace = (if backups_readable ws namespace then coalesce (ws_backups (the ws)) [] else [])"

definition readable_stores :: "restore_workspace option \<Rightarrow> string \<Rightarrow> json list" where
  "readable_stores ws namespace =
     (case ws of None \<Rightarrow> []
      | Some w \<Rightarrow> if coverage_readable (coalesce (ws_store_coverage w) not_installed) namespace then coalesce (ws_stores w) [] else [])"

definition unread_store :: "json list \<Rightarrow> string \<Rightarrow> restore_source \<Rightarrow> string list" where
  "unread_store stores namespace s =
     (case s of
        SrcStore store sv i n e m \<Rightarrow>
          if list_ex (\<lambda>x. str_at (Some x) [''metadata'', ''namespace''] = Some namespace \<and> str_at (Some x) [''metadata'', ''name''] = Some store) stores
          then [] else [''ObjectStore '' @ store @ '' could not be read in '' @ namespace @ '', so its recovery evidence is unknown.'']
      | _ \<Rightarrow> [])"

definition foreign_plugin :: "json \<Rightarrow> string list" where
  "foreign_plugin p =
     (if json_get (Some p) ''enabled'' \<noteq> Some (JBool False) \<and> str_at (Some p) [''name''] \<noteq> Some barman_plugin_name
      then [''Recovery sources for plugin '' @ json_text (json_get (Some p) ''name'') @ '' cannot be assessed.''] else [])"

definition unread_backup ::
    "(string \<Rightarrow> int option) \<Rightarrow> json option \<Rightarrow> string \<Rightarrow> json \<Rightarrow> string list" where
  "unread_backup parse cluster namespace b =
     (let backup = Some b; name = json_text (json_path backup [''metadata'', ''name'']); plugin = get_cnpg_backup_plugin backup
      in if str_at backup [''spec'', ''cluster'', ''name''] \<noteq> str_at cluster [''metadata'', ''name'']
            \<or> str_at backup [''metadata'', ''namespace''] \<noteq> Some namespace \<or> \<not> is_api_group (json_get backup ''apiVersion'') cnpg_group
            \<or> str_at backup [''spec'', ''method''] \<noteq> Some ''plugin'' then []
         else if plugin \<noteq> Some barman_plugin_name
         then [''Recovery sources for Backup '' @ name @ '' using plugin '' @ coalesce plugin ''(not named)'' @ '' cannot be assessed.'']
         else if is_completed backup \<and> \<not> cnpg_backup_matches_cluster parse backup cluster
         then [''Backup '' @ name @ '' belongs to a previous Cluster incarnation, so its archive cannot be inferred from this Cluster.'']
         else if is_completed backup \<and> object_store_for_backup parse backup (case cluster of None \<Rightarrow> [] | Some c \<Rightarrow> [c]) = None
         then [''Backup '' @ name @ '' completed with the barman-cloud plugin, but the Cluster no longer names an ObjectStore, ''
                 @ ''so where it is stored is unknown.'']
         else [])"

definition recorded_recovery ::
    "(string \<Rightarrow> int option) \<Rightarrow> (string \<Rightarrow> js_url option) \<Rightarrow> (string \<Rightarrow> string \<Rightarrow> int) \<Rightarrow> evidence_context \<Rightarrow> restore_source \<Rightarrow> bool" where
  "recorded_recovery parse parse_url lc cx s =
     (case s of SrcBackup b e sn m \<Rightarrow> True
      | _ \<Rightarrow> (let ev = recovery_evidence_for parse parse_url lc (Some s) cx in re_last_backup ev \<noteq> None \<or> re_first_point ev \<noteq> None))"

definition assess_restore_sources ::
    "(string \<Rightarrow> int option) \<Rightarrow> (string \<Rightarrow> js_url option) \<Rightarrow> (string \<Rightarrow> string \<Rightarrow> int) \<Rightarrow> restore_workspace option \<Rightarrow> string \<Rightarrow> json option
       \<Rightarrow> source_assessment" where
  "assess_restore_sources parse parse_url lc ws namespace cluster =
     (let readable = backups_readable ws namespace; backups = readable_backups ws namespace; stores = readable_stores ws namespace;
          sources = (if json_truthy cluster then restore_sources_for parse cluster backups else []);
          recorded = list_ex (recorded_recovery parse parse_url lc
             \<lparr>cx_cluster = cluster, cx_stores = stores, cx_backups = backups, cx_runtime = None, cx_namespace = namespace\<rparr>) sources;
          unread = (if readable then [] else [''Backup sources could not be read in '' @ namespace @ ''.''])
             @ (if json_truthy cluster then [] else [''The source Cluster could not be read.''])
             @ concat (map (unread_store stores namespace) sources)
             @ concat (map foreign_plugin (json_list (json_path cluster [''spec'', ''plugins''])))
             @ concat (map (unread_backup parse cluster namespace) backups);
          state = (if recorded then SourcesAvailable else if unread \<noteq> [] then SourcesUnknown else SourcesNone)
      in \<lparr>sa_sources = sources, sa_state = state,
          sa_disabled = (if state = SourcesNone \<and> sources = []
             then Some ''Nothing to restore from yet: no backup destination and no completed Backup.'' else None),
          sa_unread = (if unread \<noteq> [] then Some (join '' '' unread) else None)\<rparr>)"

section \<open>Where a restore stands\<close>

datatype container_phase = CtWaiting | CtRunning | CtTerminated | CtUnknown

fun container_phase_text :: "container_phase \<Rightarrow> string" where
  "container_phase_text CtWaiting = ''waiting''"
| "container_phase_text CtRunning = ''running''"
| "container_phase_text CtTerminated = ''terminated''"
| "container_phase_text CtUnknown = ''unknown''"

record container_status =
  cs_name :: string
  cs_state :: container_phase
  cs_reason :: "string option"
  cs_message :: "string option"
  cs_exit_code :: "int option"

record recovery_pod =
  rp_name :: string
  rp_instance :: bool
  rp_job :: "string option"
  rp_phase :: string
  rp_ready :: bool
  rp_init_containers :: "container_status list"
  rp_containers :: "container_status list"

record recovery_job =
  rj_name :: string
  rj_role :: "string option"
  rj_succeeded :: int
  rj_complete :: bool
  rj_failed_with :: "string option"

record recovery_snapshot =
  sn_phase :: "string option"
  sn_phase_reason :: "string option"
  sn_instances :: "int option"
  sn_ready_instances :: "int option"
  sn_ready_message :: "string option"
  sn_recovery_source :: "string option"
  sn_pods :: "recovery_pod list"
  sn_jobs :: "recovery_job list"
  sn_pods_ok :: bool
  sn_pods_grant :: "rbac_grant option"

datatype restore_state = RsProgressing | RsCompleted | RsFailed | RsUnobservable

record restore_observation =
  ob_state :: restore_state
  ob_title :: string
  ob_detail :: "string option"
  ob_tone :: health_level
  ob_logs_pod :: "(string \<times> string option) option"
  ob_recovery_pods :: "recovery_pod list"

definition failing_phase :: "string \<Rightarrow> bool" where
  \<comment> \<open>\<open>/unrecoverable|unable to|cannot|error|failed/i\<close>\<close>
  "failing_phase p =
     list_ex (includes_str (to_lower p)) [''unrecoverable'', ''unable to'', ''cannot'', ''error'', ''failed'']"

definition crash_reasons :: "string list" where
  "crash_reasons = [''CrashLoopBackOff'', ''Error'', ''ImagePullBackOff'', ''ErrImagePull'', ''CreateContainerConfigError'', ''CreateContainerError'']"

definition failing_container :: "recovery_pod \<Rightarrow> container_status option" where
  "failing_container p =
     List.find (\<lambda>c. (cs_state c = CtWaiting \<and> (case cs_reason c of None \<Rightarrow> False | Some r \<Rightarrow> r \<in> set crash_reasons))
         \<or> (cs_state c = CtTerminated \<and> cs_exit_code c \<noteq> None \<and> cs_exit_code c \<noteq> Some 0))
       (rp_init_containers p @ rp_containers p)"

definition active_container :: "recovery_pod \<Rightarrow> container_status option" where
  "active_container p =
     coalesce_opt (List.find (\<lambda>c. cs_state c = CtWaiting \<or> cs_state c = CtUnknown
            \<or> (cs_state c = CtTerminated \<and> coalesce (cs_exit_code c) 0 \<noteq> 0)) (rp_init_containers p))
       (coalesce_opt (List.find (\<lambda>c. cs_state c = CtRunning) (rp_containers p))
          (case rp_containers p of [] \<Rightarrow> None | c # _ \<Rightarrow> Some c))"

definition is_cnpg_recovery_job :: "string \<Rightarrow> string option \<Rightarrow> bool" where
  "is_cnpg_recovery_job name role =
     (if truthy_str role then the role \<in> {''full-recovery'', ''snapshot-recovery''}
      else ends_with name ''-full-recovery'' \<or> ends_with name ''-snapshot-recovery'')"

definition cnpg_restored_primary_up :: "recovery_snapshot \<Rightarrow> bool" where
  "cnpg_restored_primary_up s = (sn_pods_ok s \<and> list_ex (\<lambda>p. rp_instance p \<and> rp_ready p) (sn_pods s))"

definition recovery_jobs :: "recovery_snapshot \<Rightarrow> recovery_job list" where
  "recovery_jobs s = filter (\<lambda>j. is_cnpg_recovery_job (rj_name j) (rj_role j)) (sn_jobs s)"

definition recovery_pods :: "recovery_snapshot \<Rightarrow> recovery_pod list" where
  "recovery_pods s =
     filter (\<lambda>p. \<not> rp_instance p \<and> truthy_str (rp_job p)
         \<and> (case List.find (\<lambda>j. Some (rj_name j) = rp_job p) (sn_jobs s) of
              Some j \<Rightarrow> is_cnpg_recovery_job (rj_name j) (rj_role j) | None \<Rightarrow> is_cnpg_recovery_job (the (rp_job p)) None)) (sn_pods s)"

definition proves_restore :: "recovery_snapshot \<Rightarrow> recovery_job \<Rightarrow> bool" where
  "proves_restore s j =
     (coalesce (rj_role j) (if ends_with (rj_name j) ''-full-recovery'' then ''full-recovery'' else []) = ''full-recovery''
      \<or> truthy_str (sn_recovery_source s))"

definition finished_job :: "recovery_snapshot \<Rightarrow> recovery_job option" where
  "finished_job s = List.find (\<lambda>j. (rj_complete j \<or> rj_succeeded j > 0) \<and> proves_restore s j) (recovery_jobs s)"

definition primary_up :: "recovery_snapshot \<Rightarrow> bool" where
  "primary_up s = (cnpg_restored_primary_up s \<or> coalesce (sn_ready_instances s) 0 \<ge> 1)"

definition dot_join :: "string list \<Rightarrow> string" where
  "dot_join xs = join ('' '' @ bytes_middot @ '' '') (filter (\<lambda>x. x \<noteq> []) xs)"

definition ready_text :: "recovery_snapshot \<Rightarrow> string \<Rightarrow> string" where
  "ready_text s noun =
     (case (sn_ready_instances s, sn_instances s) of
        (Some r, Some n) \<Rightarrow> show_int r @ ''/'' @ show_int n @ noun | _ \<Rightarrow> [])"

definition restore_report :: "recovery_snapshot \<Rightarrow> restore_state \<Rightarrow> health_level \<Rightarrow> string \<Rightarrow> string option \<Rightarrow> (string \<times> string option) option
    \<Rightarrow> restore_observation" where
  "restore_report s st tone title detail logs =
     \<lparr>ob_state = st, ob_title = title, ob_detail = detail, ob_tone = tone, ob_logs_pod = logs, ob_recovery_pods = recovery_pods s\<rparr>"

definition observe_failed_job :: "recovery_snapshot \<Rightarrow> recovery_job \<Rightarrow> restore_observation" where
  "observe_failed_job s j =
     restore_report s RsFailed HlUnhealthy (''Recovery Job '' @ rj_name j @ '' failed'') (rj_failed_with j)
       (map_option (\<lambda>p. (rp_name p, map_option cs_name (failing_container p)))
          (List.find (\<lambda>p. rp_job p = Some (rj_name j)) (recovery_pods s)))"

definition observe_completed :: "recovery_snapshot \<Rightarrow> restore_observation" where
  "observe_completed s =
     restore_report s RsCompleted HlHealthy ''Restore completed''
       (Some (dot_join [(case finished_job s of Some j \<Rightarrow> if primary_up s then [] else ''Recovery Job '' @ rj_name j @ '' completed'' | None \<Rightarrow> []),
          ready_text s '' instances ready'', coalesce (sn_phase s) []])) None"

definition observe_crashing :: "recovery_snapshot \<Rightarrow> recovery_pod \<Rightarrow> container_status \<Rightarrow> restore_observation" where
  "observe_crashing s p c =
     restore_report s RsProgressing HlAlert (''Recovery attempt failing in '' @ rp_name p)
       (Some (cs_name c @ '': '' @ or_else (Some (dot_join [coalesce (cs_reason c) [], coalesce (cs_message c) []])) ''exited with an error''
          @ ''. The Job retries; its logs say why.''))
       (Some (rp_name p, Some (cs_name c)))"

definition observe_running :: "recovery_snapshot \<Rightarrow> recovery_pod \<Rightarrow> restore_observation" where
  "observe_running s p =
     (let active = active_container p; dot = '' '' @ bytes_middot @ '' ''
      in restore_report s RsProgressing HlNeutral ''Restoring the base backup and replaying WAL''
           (Some (rp_name p @ (case active of None \<Rightarrow> [] | Some c \<Rightarrow> dot @ cs_name c @ '' '' @ container_phase_text (cs_state c))
              @ (if truthy_str (sn_phase s) then dot @ the (sn_phase s) else [])))
           (Some (rp_name p, map_option cs_name active)))"

definition observe_waiting :: "recovery_snapshot \<Rightarrow> restore_observation" where
  "observe_waiting s =
     restore_report s RsProgressing HlNeutral
       (if list_ex (\<lambda>p. rp_phase p = ''Succeeded'') (recovery_pods s) then ''Recovery finished; starting the restored instances''
        else ''Waiting for the recovery to start'')
       (Some (dot_join [coalesce (sn_phase s) [], ready_text s '' ready'',
          (if sn_pods_ok s then []
           else ''Pods not visible'' @ (case sn_pods_grant s of None \<Rightarrow> [] | Some g \<Rightarrow> '' (needs '' @ format_grant g @ '')''))]))
       (map_option (\<lambda>p. (rp_name p, Some ''postgres'')) (List.find (\<lambda>p. rp_instance p \<and> \<not> rp_ready p) (sn_pods s)))"

definition observe_restore :: "recovery_snapshot \<Rightarrow> restore_observation" where
  "observe_restore s =
     (case List.find (\<lambda>j. truthy_str (rj_failed_with j)) (recovery_jobs s) of
        Some j \<Rightarrow> observe_failed_job s j
      | None \<Rightarrow>
          if finished_job s \<noteq> None \<or> primary_up s then observe_completed s
          else if truthy_str (sn_phase s) \<and> the (sn_phase s) \<noteq> ''Cluster in healthy state'' \<and> failing_phase (the (sn_phase s))
          then restore_report s RsFailed HlUnhealthy (the (sn_phase s)) (or_str (sn_phase_reason s) (sn_ready_message s)) None
          else (case List.find (\<lambda>p. failing_container p \<noteq> None) (recovery_pods s) of
                  Some p \<Rightarrow> observe_crashing s p (the (failing_container p))
                | None \<Rightarrow>
                    (case List.find (\<lambda>p. rp_phase p = ''Running'' \<or> rp_phase p = ''Pending'') (recovery_pods s) of
                       Some p \<Rightarrow> observe_running s p
                     | None \<Rightarrow>
                         if \<not> sn_pods_ok s \<and> \<not> truthy_str (sn_phase s)
                         then restore_report s RsUnobservable HlUnknown ''Progress not visible''
                                (Some (case sn_pods_grant s of Some g \<Rightarrow> ''Following the restore needs '' @ format_grant g
                                   | None \<Rightarrow> ''The Cluster has not reported a phase yet'')) None
                         else observe_waiting s)))"

section \<open>May it be started, and what comes after\<close>

datatype capability_permission = CapAllowed | CapDenied | CapUnknown

record action_capability =
  ap_allowed :: bool
  ap_reason :: "string option"
  ap_permission :: capability_permission
  ap_grant :: "rbac_grant option"

datatype restore_permission = PermitFree | PermitBlocked string | PermitUnchecked string | PermitPending string

definition restore_permission_of :: "string \<Rightarrow> action_capability option \<Rightarrow> string option option \<Rightarrow> restore_permission" where
  \<comment> \<open>the third argument is the error of the check: \<open>Some\<close> its message where it is an \<open>Error\<close>\<close>
  "restore_permission_of namespace cap err =
     (case cap of
        Some c \<Rightarrow>
          if ap_allowed c then PermitFree
          else if ap_permission c = CapDenied
          then PermitBlocked (''Restoring creates a Cluster in '' @ namespace @ '', which needs ''
                 @ (case ap_grant c of Some g \<Rightarrow> format_grant g | None \<Rightarrow> ''create clusters (postgresql.cnpg.io)'') @ ''.'')
          else PermitBlocked (coalesce (ap_reason c) ''Restoring is not available right now.'')
      | None \<Rightarrow>
          (case err of
             Some message \<Rightarrow> PermitUnchecked (''Whether you may create a Cluster in '' @ namespace @ '' could not be checked (''
                 @ coalesce message ''unknown error'' @ ''); the review step will tell.'')
           | None \<Rightarrow> PermitPending (''Checking whether you may create a Cluster in '' @ namespace @ [CHR 0xE2, CHR 0x80, CHR 0xA6])))"

datatype step_state = StepDone | StepPartial | StepTodo | StepUnknown

definition backup_step :: "backup_declared option \<Rightarrow> step_state \<times> string" where
  "backup_step d =
     (case d of
        None \<Rightarrow> (StepUnknown, ''Its backup configuration was not read'')
      | Some DeclWalArchiving \<Rightarrow> (StepPartial, ''WAL archiving is configured. Verify uploads and complete a new base backup; ''
           @ ''configuration alone does not prove protection.'')
      | Some DeclArchiverWithoutDestination \<Rightarrow> (StepPartial, ''The Barman plugin is set as WAL archiver but names no ObjectStore ''
           @ ''(parameters.barmanObjectName), so WAL has nowhere to go'')
      | Some DeclBackupsNoArchiving \<Rightarrow> (StepPartial, ''An ObjectStore is declared, but not as the WAL archiver, so no point-in-time recovery'')
      | Some DeclSnapshotsOnly \<Rightarrow> (StepPartial, ''Volume snapshots declared, but no WAL archiving, so no point-in-time recovery'')
      | Some DeclNone \<Rightarrow> (StepTodo, ''It has no backup destination or WAL archiving yet''))"

record next_step =
  ns_id :: string
  ns_label :: string
  ns_state :: step_state
  ns_note :: "string option"

definition restore_next_steps :: "bool \<Rightarrow> backup_declared option \<Rightarrow> next_step list" where
  "restore_next_steps recorded d =
     [\<lparr>ns_id = ''connect'', ns_label = ''Point applications at it'', ns_state = StepUnknown,
       ns_note = Some ''Radar cannot tell which applications use it''\<rparr>,
      \<lparr>ns_id = ''validate'', ns_label = ''Record what you checked'', ns_state = (if recorded then StepDone else StepTodo),
       ns_note = (if recorded then Some ''A validation note is recorded'' else None)\<rparr>,
      \<lparr>ns_id = ''backup'', ns_label = ''Set up and verify backups and WAL archiving'', ns_state = fst (backup_step d),
       ns_note = Some (snd (backup_step d))\<rparr>]"
section \<open>What the evidence allows to say\<close>

lemma in_set_map_filter_id: "p \<in> set (List.map_filter id xs) \<longleftrightarrow> Some p \<in> set xs"
  by (induction xs) (auto simp: map_filter_simps split: option.splits)

lemma newest_evidence_None: "newest_evidence parse ps = None \<longleftrightarrow> (\<forall>p\<in>set (List.map_filter id ps). parse (ep_at p) = None)"
proof -
  let ?dated = "filter (\<lambda>p. parse (ep_at p) \<noteq> None) (List.map_filter id ps)"
  have "newest_evidence parse ps = None \<longleftrightarrow> js_sort (\<lambda>a b. the (parse (ep_at b)) - the (parse (ep_at a))) ?dated = []"
    by (simp add: newest_evidence_def Let_def split: list.split)
  also have "\<dots> \<longleftrightarrow> ?dated = []" by (metis length_0_conv length_js_sort)
  finally show ?thesis by (auto simp: filter_empty_conv)
qed

lemma newest_evidence_Some:
  assumes "newest_evidence parse ps = Some p"
  shows "Some p \<in> set ps" and "parse (ep_at p) \<noteq> None"
    and "q \<in> set (List.map_filter id ps) \<Longrightarrow> parse (ep_at q) = Some t \<Longrightarrow> t \<le> the (parse (ep_at p))"
proof -
  let ?dated = "filter (\<lambda>p. parse (ep_at p) \<noteq> None) (List.map_filter id ps)"
  let ?cmp = "\<lambda>a b. the (parse (ep_at b)) - the (parse (ep_at a))"
  obtain rest where sorted: "js_sort ?cmp ?dated = p # rest"
    using assms by (auto simp: newest_evidence_def Let_def split: list.splits)
  then have p: "p \<in> set ?dated" by (metis list.set_intros(1) set_js_sort)
  then show "Some p \<in> set ps" and "parse (ep_at p) \<noteq> None" by (auto simp: map_filter_def)
  show "t \<le> the (parse (ep_at p))" if "q \<in> set (List.map_filter id ps)" "parse (ep_at q) = Some t"
  proof -
    have "?cmp p q \<le> 0"
      by (rule by_key_desc.js_sort_hd_least [OF sorted]) (use that in auto)
    then show ?thesis using that by simp
  qed
qed

lemma latest_evidence_None: "latest_evidence parse e = None \<longleftrightarrow>
    (\<forall>p\<in>set (List.map_filter id [re_last_backup e, re_last_archived e]). parse (ep_at p) = None)"
  by (simp add: latest_evidence_def newest_evidence_None)

text \<open>
  C27. A moment passes without a warning exactly where it is a date that is not in the future, something is
  known of what the source holds, the moment is not before the first recoverability point, and a base backup
  or an archived segment is dated at or after it, where any is dated at all.
\<close>
theorem no_warning_iff_within_the_evidence:
  "pitr_warnings parse utc target e now = [] \<longleftrightarrow>
     (case parse target of None \<Rightarrow> False
      | Some t \<Rightarrow>
          t \<le> now
          \<and> (case re_first_point e of None \<Rightarrow> latest_evidence parse e \<noteq> None
             | Some p \<Rightarrow> (case parse (ep_at p) of None \<Rightarrow> True | Some first \<Rightarrow> first \<le> t))
          \<and> (latest_evidence parse e = None
             \<or> (\<exists>p\<in>set (List.map_filter id [re_last_backup e, re_last_archived e]).
                  case parse (ep_at p) of None \<Rightarrow> False | Some l \<Rightarrow> t \<le> l)))"
proof (cases "parse target")
  case None
  then show ?thesis by (simp add: pitr_warnings_def)
next
  case (Some t)
  let ?points = "List.map_filter id [re_last_backup e, re_last_archived e]"
  show ?thesis
  proof (cases "latest_evidence parse e")
    case None
    then show ?thesis using Some by (auto simp: pitr_warnings_def Let_def not_less split: option.splits)
  next
    case (Some p)
    note newest = newest_evidence_Some [OF Some [unfolded latest_evidence_def]]
    obtain l where l: "parse (ep_at p) = Some l" using newest(2) by blast
    have "p \<in> set ?points" using newest(1) by (simp only: in_set_map_filter_id)
    then have reach: "(\<exists>q\<in>set ?points. case parse (ep_at q) of None \<Rightarrow> False | Some m \<Rightarrow> t \<le> m) \<longleftrightarrow> t \<le> l"
      using newest(3) l by (force split: option.splits)
    have "pitr_warnings parse utc target e now = [] \<longleftrightarrow> t \<le> now
       \<and> (case re_first_point e of None \<Rightarrow> True | Some p \<Rightarrow> (case parse (ep_at p) of None \<Rightarrow> True | Some first \<Rightarrow> first \<le> t))
       \<and> t \<le> l"
      using \<open>parse target = Some t\<close> Some l by (auto simp: pitr_warnings_def Let_def not_less split: option.splits)
    then show ?thesis
      unfolding \<open>parse target = Some t\<close> option.case reach using Some by (auto split: option.splits)
  qed
qed

section \<open>What a running restore is called\<close>

definition job_failed :: "recovery_snapshot \<Rightarrow> bool" where
  "job_failed s = list_ex (\<lambda>j. truthy_str (rj_failed_with j)) (recovery_jobs s)"

definition restore_done :: "recovery_snapshot \<Rightarrow> bool" where
  "restore_done s = (\<not> job_failed s \<and> (finished_job s \<noteq> None \<or> primary_up s))"

definition phase_failing :: "recovery_snapshot \<Rightarrow> bool" where
  "phase_failing s =
     (truthy_str (sn_phase s) \<and> the (sn_phase s) \<noteq> ''Cluster in healthy state'' \<and> failing_phase (the (sn_phase s)))"

definition pods_say_nothing :: "recovery_snapshot \<Rightarrow> bool" where
  "pods_say_nothing s =
     (\<not> list_ex (\<lambda>p. failing_container p \<noteq> None \<or> rp_phase p = ''Running'' \<or> rp_phase p = ''Pending'') (recovery_pods s))"

lemma find_failed: "List.find (\<lambda>j. truthy_str (rj_failed_with j)) (recovery_jobs s) = None \<longleftrightarrow> \<not> job_failed s"
  by (auto simp: job_failed_def find_none_iff list_ex_iff)

lemma observed_states:
  "ob_state (observe_failed_job s j) = RsFailed" "ob_state (observe_completed s) = RsCompleted"
  "ob_state (observe_crashing s p c) = RsProgressing" "ob_state (observe_running s p) = RsProgressing"
  "ob_state (observe_waiting s) = RsProgressing" "ob_state (restore_report s st tone t d l) = st"
  by (simp_all add: observe_failed_job_def observe_completed_def observe_crashing_def observe_running_def observe_waiting_def
      restore_report_def Let_def)

lemma observe_restore_state:
  "ob_state (observe_restore s) =
     (if restore_done s then RsCompleted
      else if job_failed s \<or> phase_failing s then RsFailed
      else if pods_say_nothing s \<and> \<not> sn_pods_ok s \<and> \<not> truthy_str (sn_phase s) then RsUnobservable
      else RsProgressing)"
proof (cases "List.find (\<lambda>j. truthy_str (rj_failed_with j)) (recovery_jobs s)")
  case (Some j)
  then have "job_failed s" using find_failed [of s] by simp
  then show ?thesis using Some by (simp add: observe_restore_def observed_states restore_done_def)
next
  case None
  then have fine: "\<not> job_failed s" by (simp add: find_failed)
  have quiet: "pods_say_nothing s \<longleftrightarrow> List.find (\<lambda>p. failing_container p \<noteq> None) (recovery_pods s) = None
      \<and> List.find (\<lambda>p. rp_phase p = ''Running'' \<or> rp_phase p = ''Pending'') (recovery_pods s) = None"
    by (auto simp: pods_say_nothing_def find_none_iff list_ex_iff)
  show ?thesis
    unfolding observe_restore_def None option.case quiet restore_done_def phase_failing_def
    using fine by (simp add: observed_states split: option.split)
qed

text \<open>
  C26. A restore that has completed by a recovery Job stays completed, whatever happens to the Cluster
  afterwards, while its recovery Jobs and its recovery source are on record as they were, in any order:
  no phase, no Pod, no count of ready instances, no loss of access to the Pods and nothing that becomes of
  the other Jobs reopens it, be they started, failed (the join of a replica), removed or listed differently.
\<close>
theorem completed_restore_is_never_reopened:
  assumes "ob_state (observe_restore s) = RsCompleted" and "finished_job s \<noteq> None"
    and "set (filter (\<lambda>j. is_cnpg_recovery_job (rj_name j) (rj_role j)) (sn_jobs t))
       = set (filter (\<lambda>j. is_cnpg_recovery_job (rj_name j) (rj_role j)) (sn_jobs s))"
    and "sn_recovery_source t = sn_recovery_source s"
  shows "ob_state (observe_restore t) = RsCompleted \<and> ob_title (observe_restore t) = ''Restore completed''"
proof -
  have jobs: "set (recovery_jobs t) = set (recovery_jobs s)" unfolding recovery_jobs_def by (rule assms(3))
  have "finished_job t \<noteq> None \<longleftrightarrow> finished_job s \<noteq> None"
    by (simp only: finished_job_def find_none_iff jobs proves_restore_def assms(4))
  moreover have "job_failed t \<longleftrightarrow> job_failed s" by (simp only: job_failed_def list_ex_iff jobs)
  moreover have "\<not> job_failed s" using assms(1) by (auto simp: observe_restore_state restore_done_def split: if_splits)
  ultimately have t: "\<not> job_failed t" "finished_job t \<noteq> None" using assms(2) by blast+
  then have "List.find (\<lambda>j. truthy_str (rj_failed_with j)) (recovery_jobs t) = None" by (simp add: find_failed)
  then have "observe_restore t = observe_completed t" using t(2) by (simp add: observe_restore_def)
  then show ?thesis by (simp add: observed_states observe_completed_def restore_report_def)
qed

definition example_recovered :: recovery_snapshot where
  "example_recovered =
     \<lparr>sn_phase = Some ''Setting up primary'', sn_phase_reason = None, sn_instances = Some 3, sn_ready_instances = Some 0, sn_ready_message = None,
      sn_recovery_source = Some ''origin'', sn_pods = [],
      sn_jobs = [\<lparr>rj_name = ''pg-1-full-recovery'', rj_role = Some ''full-recovery'', rj_succeeded = 1, rj_complete = True, rj_failed_with = None\<rparr>],
      sn_pods_ok = True, sn_pods_grant = None\<rparr>"

definition example_join_failed :: recovery_snapshot where
  "example_join_failed = example_recovered\<lparr>sn_phase := Some ''Cluster cannot proceed'', sn_pods_ok := False,
     sn_jobs := \<lparr>rj_name = ''pg-2-join'', rj_role = Some ''join'', rj_succeeded = 0, rj_complete = False, rj_failed_with = Some ''deadline''\<rparr>
       # sn_jobs example_recovered\<rparr>"

lemma completed_restore_is_never_reopened_witness:
  "ob_state (observe_restore example_join_failed) = RsCompleted"
proof -
  have "finished_job example_recovered \<noteq> None" and "ob_state (observe_restore example_recovered) = RsCompleted"
    by (simp_all add: example_recovered_def observe_restore_state restore_done_def job_failed_def finished_job_def recovery_jobs_def
        is_cnpg_recovery_job_def proves_restore_def truthy_str_def)
  then show ?thesis
    using completed_restore_is_never_reopened [of example_recovered example_join_failed]
    by (simp add: example_join_failed_def is_cnpg_recovery_job_def truthy_str_def example_recovered_def)
qed

section \<open>When there is nothing to restore from\<close>

definition names_archive :: "json option \<Rightarrow> bool" where
  \<comment> \<open>the Cluster declares an ObjectStore for the Barman plugin or an object store of its own\<close>
  "names_archive cluster =
     (truthy_str (Option.bind (get_cnpg_cluster_barman_plugin cluster) bp_object)
      \<or> json_truthy (json_path cluster [''spec'', ''backup'', ''barmanObjectStore'']))"

lemma no_source_no_archive:
  assumes "restore_sources_for parse cluster backups = []" and "json_truthy cluster"
  shows "\<not> names_archive cluster"
    and "b \<in> set backups \<Longrightarrow> own_backup cluster b \<Longrightarrow> restore_source_for_backup parse (Some b) cluster = None"
proof -
  show "\<not> names_archive cluster"
    using assms by (auto simp: restore_sources_for_def names_archive_def Let_def split: option.splits if_splits)
  show "restore_source_for_backup parse (Some b) cluster = None" if "b \<in> set backups" "own_backup cluster b"
  proof (rule ccontr)
    assume "restore_source_for_backup parse (Some b) cluster \<noteq> None"
    then obtain s where s: "restore_source_for_backup parse (Some b) cluster = Some s" by blast
    then have "s \<in> set (restore_sources_for parse cluster backups)"
      using that by (force simp: restore_sources_for_def Let_def map_filter_def image_def)
    then show False using assms(1) by simp
  qed
qed

lemma object_store_named:
  assumes "object_store_for_backup parse b [c] \<noteq> None"
  shows "truthy_str (Option.bind (get_cnpg_cluster_barman_plugin (Some c)) bp_object)"
  using assms by (auto simp: object_store_for_backup_def target_cluster_def Let_def json_truthy_def split: if_splits option.splits)

definition listed_backup :: "json option \<Rightarrow> string \<Rightarrow> json \<Rightarrow> bool" where
  \<comment> \<open>a Backup of the Cluster by name, namespace and group\<close>
  "listed_backup cluster namespace b =
     (str_at (Some b) [''spec'', ''cluster'', ''name''] = str_at cluster [''metadata'', ''name'']
      \<and> str_at (Some b) [''metadata'', ''namespace''] = Some namespace \<and> is_api_group (json_get (Some b) ''apiVersion'') cnpg_group)"

lemma unread_backup_listed:
  assumes "unread_backup parse (Some c) namespace b = []" and "listed_backup (Some c) namespace b"
    and "is_completed (Some b)" and "str_at (Some b) [''spec'', ''method''] = Some ''plugin''"
  shows "names_archive (Some c)"
proof -
  have "object_store_for_backup parse (Some b) [c] \<noteq> None"
    using assms by (auto simp: unread_backup_def listed_backup_def Let_def split: if_splits)
  then show ?thesis unfolding names_archive_def by (rule disjI1 [OF object_store_named])
qed

lemma listed_is_own:
  assumes "listed_backup cluster namespace b" and "str_at cluster [''metadata'', ''namespace''] = Some namespace"
  shows "own_backup cluster b"
proof -
  obtain v where "json_get (Some b) ''apiVersion'' = Some (JStr v)"
    using assms(1) by (auto simp: listed_backup_def is_api_group_def split: option.splits json.splits)
  then show ?thesis using assms by (simp add: listed_backup_def own_backup_def json_coalesce_def)
qed

lemma assess_disabled:
  assumes "sa_disabled (assess_restore_sources parse parse_url lc ws namespace cluster) \<noteq> None"
  shows "backups_readable ws namespace" "json_truthy cluster" "restore_sources_for parse cluster (readable_backups ws namespace) = []"
    "\<forall>p\<in>set (json_list (json_path cluster [''spec'', ''plugins''])). foreign_plugin p = []"
    "\<forall>b\<in>set (readable_backups ws namespace). unread_backup parse cluster namespace b = []"
proof -
  let ?unread = "(if backups_readable ws namespace then [] else [''Backup sources could not be read in '' @ namespace @ ''.''])
     @ (if json_truthy cluster then [] else [''The source Cluster could not be read.''])
     @ concat (map (unread_store (readable_stores ws namespace) namespace) (sa_sources (assess_restore_sources parse parse_url lc ws namespace cluster)))
     @ concat (map foreign_plugin (json_list (json_path cluster [''spec'', ''plugins''])))
     @ concat (map (unread_backup parse cluster namespace) (readable_backups ws namespace))"
  have "?unread = []" and src: "sa_sources (assess_restore_sources parse parse_url lc ws namespace cluster) = []"
    using assms unfolding assess_restore_sources_def Let_def source_assessment.select_convs
    by (simp_all only: if_splits option.simps source_state.distinct simp_thms split: if_splits)
  then show "backups_readable ws namespace" "json_truthy cluster"
    "\<forall>p\<in>set (json_list (json_path cluster [''spec'', ''plugins''])). foreign_plugin p = []"
    "\<forall>b\<in>set (readable_backups ws namespace). unread_backup parse cluster namespace b = []"
    by (auto split: if_splits)
  with src show "restore_sources_for parse cluster (readable_backups ws namespace) = []"
    by (simp add: assess_restore_sources_def Let_def)
qed

text \<open>
  C25. "Nothing to restore from" is only said where everything was read and nothing is there: the Backups of
  the namespace and the Cluster itself were read, the Cluster runs no backup plugin other than Barman and
  names no archive, and no Backup listed for it has completed, except one that its status alone attributes
  to a plugin and its spec does not.
\<close>
theorem nothing_to_restore_is_known:
  assumes "sa_disabled (assess_restore_sources parse parse_url lc ws namespace cluster) \<noteq> None"
  shows "backups_readable ws namespace \<and> json_truthy cluster \<and> \<not> names_archive cluster
    \<and> (\<forall>p\<in>set (json_list (json_path cluster [''spec'', ''plugins''])).
          json_get (Some p) ''enabled'' = Some (JBool False) \<or> str_at (Some p) [''name''] = Some barman_plugin_name)
    \<and> (\<forall>b\<in>set (readable_backups ws namespace).
          listed_backup cluster namespace b \<and> str_at cluster [''metadata'', ''namespace''] = Some namespace \<and> is_completed (Some b)
            \<longrightarrow> str_at (Some b) [''spec'', ''method''] \<noteq> Some ''plugin'' \<and> str_at (Some b) [''status'', ''method''] = Some ''plugin'')"
proof (intro conjI ballI impI)
  note read = assess_disabled [OF assms]
  show "backups_readable ws namespace" "json_truthy cluster" by (fact read)+
  show bare: "\<not> names_archive cluster" by (rule no_source_no_archive(1) [OF read(3,2)])
  show "json_get (Some p) ''enabled'' = Some (JBool False) \<or> str_at (Some p) [''name''] = Some barman_plugin_name"
    if "p \<in> set (json_list (json_path cluster [''spec'', ''plugins'']))" for p
    using read(4) that by (auto simp: foreign_plugin_def split: if_splits)
  fix b assume b: "b \<in> set (readable_backups ws namespace)"
  assume own: "listed_backup cluster namespace b \<and> str_at cluster [''metadata'', ''namespace''] = Some namespace \<and> is_completed (Some b)"
  obtain c where c: "cluster = Some c" using read(2) by (cases cluster) (auto simp: json_truthy_def)
  show spec: "str_at (Some b) [''spec'', ''method''] \<noteq> Some ''plugin''"
    using unread_backup_listed [of parse c namespace b] read(5) b own bare c by blast
  have "restore_source_for_backup parse (Some b) cluster = None"
    using no_source_no_archive(2) [OF read(3,2) b] listed_is_own own by blast
  then have "is_plugin_backup (Some b)" using own by (simp add: restore_source_for_backup_def Let_def split: if_splits)
  then show "str_at (Some b) [''status'', ''method''] = Some ''plugin''"
    using spec by (simp add: is_plugin_backup_def has_method_def)
qed

definition example_workspace :: restore_workspace where
  "example_workspace = \<lparr>ws_backup_coverage = Some \<lparr>cov_state = CovFull, cov_denied = None, cov_uncached = None, cov_allowed = None\<rparr>,
     ws_backups = Some [], ws_store_coverage = None, ws_stores = None\<rparr>"

definition example_bare_cluster :: json where
  "example_bare_cluster = JObj [(''metadata'', JObj [(''name'', JStr ''pg''), (''namespace'', JStr ''db'')]), (''spec'', JObj [])]"

lemma nothing_to_restore_is_known_witness:
  "backups_readable (Some example_workspace) ''db'' \<and> \<not> names_archive (Some example_bare_cluster)"
proof -
  have "get_cnpg_cluster_barman_plugin (Some example_bare_cluster) = None"
    by (simp add: get_cnpg_cluster_barman_plugin_def cnpg_barman_plugin_def cnpg_backup_declaration_def example_bare_cluster_def
        Let_def json_list_def)
  then have "sa_disabled (assess_restore_sources (\<lambda>_. None) (\<lambda>_. None) (\<lambda>_ _. 0) (Some example_workspace) ''db''
      (Some example_bare_cluster)) \<noteq> None"
    by (simp add: assess_restore_sources_def Let_def example_workspace_def backups_readable_def readable_backups_def coverage_readable_def
        restore_sources_for_def json_truthy_def example_bare_cluster_def json_list_def map_filter_simps)
  then show ?thesis
    using nothing_to_restore_is_known [of "\<lambda>_. None" "\<lambda>_. None" "\<lambda>_ _. 0" "Some example_workspace" "''db''" "Some example_bare_cluster"]
    by blast
qed

end
