(* ===== verification/Event_Stream.thy ===== *)
theory Event_Stream
  imports Radar_Prelude Complex_Main
begin

text \<open>
  The live stream of topology and events (\<open>web/src/hooks/useEventSource.ts\<close>): connecting, reconnecting with
  a growing delay, and topologies that arrive faster than they may be drawn. The refs and states of the hook
  are one record; each handler, timer and effect is a function over it that also returns the callbacks it
  calls. The messages of a stream are JSON values, \<open>None\<close> where \<open>JSON.parse\<close> throws. Times are milliseconds.

  The lemmas show that no topology is lost while one connection stays on one context, from a state that holds
  none back and whose throttle handle no cleanup has cleared, the bounds of the
  delays and of the event list, and what goes wrong around a change of context or view.
\<close>

section \<open>Parameters\<close>

definition max_events :: nat where "max_events = 100"

definition topology_throttle_ms :: "nat \<Rightarrow> int" where
  "topology_throttle_ms n = (if n < 100 then 500 else if n < 300 then 1000 else if n < 500 then 2000 else 3000)"

definition initial_reconnect_delay :: rat where "initial_reconnect_delay = 3000"

definition max_reconnect_delay :: rat where "max_reconnect_delay = 30000"

record stream_config =
  sc_filter :: "string list option"
  sc_view :: string
  sc_policy :: bool

definition stream_params :: "stream_config \<Rightarrow> (string \<times> string) list" where
  "stream_params c =
     (let nss = join '','' (coalesce (sc_filter c) [])
      in (if nss \<noteq> [] then [(''namespaces'', nss)] else [])
         @ (if sc_view c \<noteq> [] \<and> sc_view c \<noteq> ''resources'' then [(''view'', sc_view c)] else [])
         @ (if sc_policy c then [(''policyEffect'', ''true'')] else []))"

section \<open>State\<close>

datatype throttle_timer =
    NoTimer
  | Armed int \<comment> \<open>fires at that time\<close>
  | Cleared \<comment> \<open>\<open>clearTimeout\<close> was called and the ref still holds the handle\<close>

record live_stream_state =
  ss_topology :: "json option"
  ss_events :: "json list"
  ss_connected :: bool
  ss_connecting :: bool
  ss_source :: "(string \<times> string) list option"
  ss_live :: bool
  ss_reconnect_at :: "rat option"
  ss_waiting :: bool
  ss_delay :: rat
  ss_last_update :: int
  ss_pending :: "json option"
  ss_throttle :: throttle_timer
  ss_node_count :: nat

datatype stream_call =
    CallSwitchComplete
  | CallSwitchProgress "json option"
  | CallContextChanged "json option"
  | CallConnectionState json
  | CallDeferredReady
  | CallK8sEvent json

definition fresh_stream :: live_stream_state where
  "fresh_stream =
     \<lparr>ss_topology = None, ss_events = [], ss_connected = False, ss_connecting = True, ss_source = None, ss_live = False,
      ss_reconnect_at = None, ss_waiting = False, ss_delay = initial_reconnect_delay, ss_last_update = 0, ss_pending = None,
      ss_throttle = NoTimer, ss_node_count = 0\<rparr>"

section \<open>The connection\<close>

definition connect_stream :: "stream_config \<Rightarrow> live_stream_state \<Rightarrow> live_stream_state" where
  "connect_stream c s =
     s\<lparr>ss_connecting := True, ss_topology := (if ss_source s \<noteq> None then None else ss_topology s), ss_reconnect_at := None,
       ss_source := Some (stream_params c), ss_live := True\<rparr>"

definition on_open :: "live_stream_state \<Rightarrow> live_stream_state" where
  "on_open s = s\<lparr>ss_connected := True, ss_connecting := False, ss_delay := initial_reconnect_delay\<rparr>"

definition on_error :: "int \<Rightarrow> live_stream_state \<Rightarrow> live_stream_state" where
  "on_error now s =
     s\<lparr>ss_connected := False, ss_connecting := False, ss_live := False, ss_reconnect_at := Some (of_int now + ss_delay s),
       ss_delay := min (ss_delay s * 3 / 2) max_reconnect_delay\<rparr>"

definition clear_throttle :: "throttle_timer \<Rightarrow> throttle_timer" where
  "clear_throttle t = (case t of NoTimer \<Rightarrow> NoTimer | _ \<Rightarrow> Cleared)"

definition cleanup_stream :: "live_stream_state \<Rightarrow> live_stream_state" where
  \<comment> \<open>the cleanup of the effect that connects: at unmount, and before it runs for other parameters\<close>
  "cleanup_stream s = s\<lparr>ss_live := False, ss_reconnect_at := None, ss_throttle := clear_throttle (ss_throttle s)\<rparr>"

section \<open>Messages\<close>

definition topology_node_count :: "json \<Rightarrow> nat" where
  "topology_node_count j = length (json_list (json_get (Some j) ''nodes''))"

definition on_topology :: "int \<Rightarrow> json option \<Rightarrow> live_stream_state \<Rightarrow> live_stream_state \<times> stream_call list" where
  "on_topology now msg s =
     (case msg of None \<Rightarrow> (s, []) | Some JNull \<Rightarrow> (s, [])
      | Some topo \<Rightarrow>
          let since = now - ss_last_update s; count = topology_node_count topo; limit = topology_throttle_ms count;
              s = s\<lparr>ss_node_count := count\<rparr>
          in if ss_waiting s
             then (s\<lparr>ss_waiting := False, ss_last_update := now, ss_topology := Some topo\<rparr>, [CallSwitchComplete])
             else if since < limit
             then (s\<lparr>ss_pending := Some topo,
                     ss_throttle := (if ss_throttle s = NoTimer then Armed (now + (limit - since)) else ss_throttle s)\<rparr>, [])
             else (s\<lparr>ss_last_update := now, ss_pending := None, ss_topology := Some topo\<rparr>, []))"

definition on_throttle_timer :: "int \<Rightarrow> live_stream_state \<Rightarrow> live_stream_state" where
  \<comment> \<open>a topology that is held back is an object, so it is truthy\<close>
  "on_throttle_timer now s =
     (case ss_pending s of None \<Rightarrow> s\<lparr>ss_throttle := NoTimer\<rparr>
      | Some topo \<Rightarrow> s\<lparr>ss_throttle := NoTimer, ss_last_update := now, ss_node_count := topology_node_count topo,
                       ss_topology := Some topo, ss_pending := None\<rparr>)"

definition on_k8s_event :: "int \<Rightarrow> json option \<Rightarrow> live_stream_state \<Rightarrow> live_stream_state \<times> stream_call list" where
  "on_k8s_event now msg s =
     (case msg of
        Some (JObj kvs) \<Rightarrow>
          let event = JObj (AList.update ''timestamp'' (JNum now) kvs)
          in (s\<lparr>ss_events := take max_events (event # ss_events s)\<rparr>, [CallK8sEvent event])
      | _ \<Rightarrow> (s, []))"

definition on_switch_progress :: "json option \<Rightarrow> stream_call list" where
  "on_switch_progress msg =
     (case msg of None \<Rightarrow> [] | Some JNull \<Rightarrow> [] | Some j \<Rightarrow> [CallSwitchProgress (json_get (Some j) ''message'')])"

definition on_context_changed :: "json option \<Rightarrow> live_stream_state \<Rightarrow> live_stream_state \<times> stream_call list" where
  "on_context_changed msg s =
     (case msg of None \<Rightarrow> (s, []) | Some JNull \<Rightarrow> (s, [])
      | Some j \<Rightarrow> (s\<lparr>ss_topology := None, ss_events := [], ss_waiting := True\<rparr>, [CallContextChanged (json_get (Some j) ''context'')]))"

section \<open>The hook as a transition system\<close>

datatype stream_input =
    InOpen
  | InError int
  | InReconnectTimer
  | InReconnect \<comment> \<open>the caller asks for it\<close>
  | InConfig stream_config \<comment> \<open>a render with another filter, view or policy setting\<close>
  | InNamespaces \<comment> \<open>a render with other namespaces\<close>
  | InUnmount
  | InTopology int "json option"
  | InThrottleTimer int
  | InK8sEvent int "json option"
  | InHeartbeat
  | InSwitchProgress "json option"
  | InContextChanged "json option"
  | InDeferredReady
  | InConnectionState "json option"

fun stream_step :: "stream_input \<Rightarrow> stream_config \<times> live_stream_state \<Rightarrow> (stream_config \<times> live_stream_state) \<times> stream_call list" where
  "stream_step InOpen (c, s) = ((c, on_open s), [])"
| "stream_step (InError now) (c, s) = ((c, on_error now s), [])"
| "stream_step InReconnectTimer (c, s) = ((c, connect_stream c s), [])"
| "stream_step InReconnect (c, s) = ((c, connect_stream c s), [])"
| "stream_step (InConfig c') (c, s) = ((c', connect_stream c' (cleanup_stream s)), [])"
| "stream_step InNamespaces (c, s) = ((c, s\<lparr>ss_events := []\<rparr>), [])"
| "stream_step InUnmount (c, s) = ((c, cleanup_stream s), [])"
| "stream_step (InTopology now msg) (c, s) = (let (s', calls) = on_topology now msg s in ((c, s'), calls))"
| "stream_step (InThrottleTimer now) (c, s) = ((c, on_throttle_timer now s), [])"
| "stream_step (InK8sEvent now msg) (c, s) = (let (s', calls) = on_k8s_event now msg s in ((c, s'), calls))"
| "stream_step InHeartbeat (c, s) = ((c, s), [])"
| "stream_step (InSwitchProgress msg) (c, s) = ((c, s), on_switch_progress msg)"
| "stream_step (InContextChanged msg) (c, s) = (let (s', calls) = on_context_changed msg s in ((c, s'), calls))"
| "stream_step InDeferredReady (c, s) = ((c, s), [CallDeferredReady])"
| "stream_step (InConnectionState msg) (c, s) = ((c, s), case msg of None \<Rightarrow> [] | Some j \<Rightarrow> [CallConnectionState j])"

definition stream_deps :: "stream_config \<Rightarrow> string \<times> string \<times> bool" where
  "stream_deps c = (join '','' (coalesce (sc_filter c) []), sc_view c, sc_policy c)"

definition object_message :: "json option \<Rightarrow> bool" where
  \<comment> \<open>a message the server may send where it promises an object: unreadable, \<open>null\<close> or an object\<close>
  "object_message msg = (case msg of None \<Rightarrow> True | Some j \<Rightarrow> (case j of JNull \<Rightarrow> True | JObj kvs \<Rightarrow> True | _ \<Rightarrow> False))"

fun input_enabled :: "stream_config \<times> live_stream_state \<Rightarrow> stream_input \<Rightarrow> bool" where
  \<comment> \<open>a closed source is silent, a timer fires when it is armed and due, and an effect runs for new dependencies\<close>
  "input_enabled (c, s) InReconnectTimer = (ss_reconnect_at s \<noteq> None)"
| "input_enabled (c, s) InReconnect = True"
| "input_enabled (c, s) (InConfig c') = (stream_deps c' \<noteq> stream_deps c)"
| "input_enabled (c, s) InNamespaces = True"
| "input_enabled (c, s) InUnmount = True"
| "input_enabled (c, s) (InThrottleTimer now) = (case ss_throttle s of Armed due \<Rightarrow> due \<le> now | _ \<Rightarrow> False)"
| "input_enabled (c, s) (InTopology now msg) = (ss_live s \<and> object_message msg)"
| "input_enabled (c, s) (InK8sEvent now msg) = (ss_live s \<and> object_message msg)"
| "input_enabled (c, s) _ = ss_live s"

fun stream_run :: "stream_config \<times> live_stream_state \<Rightarrow> stream_input list \<Rightarrow> (stream_config \<times> live_stream_state) option" where
  \<comment> \<open>\<open>None\<close> where an input cannot happen\<close>
  "stream_run cs [] = Some cs"
| "stream_run cs (i # is) = (if input_enabled cs i then stream_run (fst (stream_step i cs)) is else None)"

definition mounted_stream :: "stream_config \<Rightarrow> stream_config \<times> live_stream_state" where
  "mounted_stream c = (c, connect_stream c fresh_stream)"
section \<open>Runs\<close>

text \<open>What every step keeps, every run keeps.\<close>

lemma stream_run_keeps:
  assumes "\<And>i cs. i \<in> set is \<Longrightarrow> input_enabled cs i \<Longrightarrow> P cs \<Longrightarrow> P (fst (stream_step i cs))" and "P cs"
    and "stream_run cs is = Some cs'"
  shows "P cs'"
  using assms
proof (induction "is" arbitrary: cs)
  case Nil
  then show ?case by simp
next
  case (Cons i "is")
  have "input_enabled cs i" and run: "stream_run (fst (stream_step i cs)) is = Some cs'"
    using Cons.prems(3) by (simp_all split: if_splits)
  then have "P (fst (stream_step i cs))" using Cons.prems(1,2) by simp
  then show ?case using Cons.IH [OF _ _ run] Cons.prems(1) by simp
qed

lemma throttle_limit: "500 \<le> topology_throttle_ms n" "topology_throttle_ms n \<le> 3000"
  by (simp_all add: topology_throttle_ms_def)

lemma on_topology_untouched:
  "ss_events (fst (on_topology now msg s)) = ss_events s" "ss_delay (fst (on_topology now msg s)) = ss_delay s"
  "ss_live (fst (on_topology now msg s)) = ss_live s" "ss_reconnect_at (fst (on_topology now msg s)) = ss_reconnect_at s"
  by (simp_all add: on_topology_def Let_def split: option.split json.split)

lemma on_k8s_event_untouched:
  "ss_topology (fst (on_k8s_event now msg s)) = ss_topology s" "ss_pending (fst (on_k8s_event now msg s)) = ss_pending s"
  "ss_throttle (fst (on_k8s_event now msg s)) = ss_throttle s" "ss_waiting (fst (on_k8s_event now msg s)) = ss_waiting s"
  "ss_delay (fst (on_k8s_event now msg s)) = ss_delay s" "ss_live (fst (on_k8s_event now msg s)) = ss_live s"
  by (simp_all add: on_k8s_event_def Let_def split: option.split json.split)

lemma on_context_changed_untouched:
  "ss_pending (fst (on_context_changed msg s)) = ss_pending s" "ss_throttle (fst (on_context_changed msg s)) = ss_throttle s"
  "ss_delay (fst (on_context_changed msg s)) = ss_delay s" "ss_live (fst (on_context_changed msg s)) = ss_live s"
  by (simp_all add: on_context_changed_def split: option.split json.split)

lemmas stream_untouched = on_topology_untouched on_k8s_event_untouched on_context_changed_untouched

section \<open>Bounds\<close>

definition stream_bounded :: "stream_config \<times> live_stream_state \<Rightarrow> bool" where
  "stream_bounded cs =
     (initial_reconnect_delay \<le> ss_delay (snd cs) \<and> ss_delay (snd cs) \<le> max_reconnect_delay \<and> length (ss_events (snd cs)) \<le> max_events)"

lemma handlers_bounded:
  "length (ss_events s) \<le> max_events \<Longrightarrow> length (ss_events (fst (on_k8s_event now msg s))) \<le> max_events"
  "length (ss_events s) \<le> max_events \<Longrightarrow> length (ss_events (fst (on_context_changed msg s))) \<le> max_events"
  by (simp_all add: on_k8s_event_def on_context_changed_def Let_def split: option.split json.split)

lemma stream_step_bounded: "stream_bounded (c, s) \<Longrightarrow> stream_bounded (fst (stream_step i (c, s)))"
  by (cases i)
     (auto simp: stream_bounded_def handlers_bounded stream_untouched split_beta on_open_def on_error_def connect_stream_def
        cleanup_stream_def on_throttle_timer_def initial_reconnect_delay_def max_reconnect_delay_def min_def split: option.split)

text \<open>
  Whatever happens, a reconnect waits at least three and at most thirty seconds, no more than a hundred
  events are kept, and a topology that is held back at some moment is due within three seconds of the last
  one that was drawn.
\<close>
theorem stream_stays_bounded:
  assumes "stream_run (mounted_stream c) is = Some (c', t)"
  shows "3000 \<le> ss_delay t \<and> ss_delay t \<le> 30000 \<and> length (ss_events t) \<le> 100
    \<and> (case ss_throttle (fst (on_topology now (Some topo) (t\<lparr>ss_throttle := NoTimer\<rparr>))) of
         Armed due \<Rightarrow> now < due \<and> due \<le> ss_last_update t + 3000 | Cleared \<Rightarrow> False | NoTimer \<Rightarrow> True)"
proof -
  have "stream_bounded (mounted_stream c)"
    by (simp add: stream_bounded_def mounted_stream_def connect_stream_def fresh_stream_def initial_reconnect_delay_def max_reconnect_delay_def)
  then have "stream_bounded (c', t)"
    using assms stream_step_bounded by (rule_tac stream_run_keeps [where P = stream_bounded]) (auto simp: split_paired_all)
  moreover have "now < now + (topology_throttle_ms n - (now - ss_last_update t))" if "now - ss_last_update t < topology_throttle_ms n" for n
    using that by simp
  ultimately show ?thesis
    using throttle_limit
    by (cases topo) (auto simp: stream_bounded_def initial_reconnect_delay_def max_reconnect_delay_def max_events_def on_topology_def Let_def)
qed

definition example_config :: stream_config where
  "example_config = \<lparr>sc_filter = None, sc_view = ''resources'', sc_policy = False\<rparr>"

definition example_topology :: "string \<Rightarrow> json" where
  "example_topology name = JObj [(''nodes'', JArr [JStr name])]"

lemma stream_stays_bounded_witness:
  "\<exists>t. stream_run (mounted_stream example_config) [InOpen, InError 100, InReconnectTimer, InError 4000] = Some (example_config, t)
     \<and> ss_delay t \<le> 30000"
proof -
  obtain t where "stream_run (mounted_stream example_config) [InOpen, InError 100, InReconnectTimer, InError 4000] = Some (example_config, t)"
    by (simp add: mounted_stream_def connect_stream_def on_open_def on_error_def)
  then show ?thesis using stream_stays_bounded by blast
qed

section \<open>No topology is lost on one connection\<close>

fun stays_connected :: "stream_input \<Rightarrow> bool" where
  \<comment> \<open>no new source, no other context, no cleanup\<close>
  "stays_connected InReconnectTimer = False"
| "stays_connected InReconnect = False"
| "stays_connected (InConfig c) = False"
| "stays_connected InUnmount = False"
| "stays_connected (InContextChanged msg) = False"
| "stays_connected _ = True"

definition received :: "stream_input \<Rightarrow> json option \<Rightarrow> json option" where
  "received i newest =
     (case i of InTopology now (Some topo) \<Rightarrow> if topo = JNull then newest else Some topo | _ \<Rightarrow> newest)"

definition newest_topology :: "json option \<Rightarrow> stream_input list \<Rightarrow> json option" where
  "newest_topology newest is = fold received is newest"

definition holds_newest :: "json option \<Rightarrow> live_stream_state \<Rightarrow> bool" where
  \<comment> \<open>the newest topology is shown, or waits for a timer that is armed\<close>
  "holds_newest newest s =
     (case ss_pending s of None \<Rightarrow> ss_topology s = newest \<and> ss_throttle s \<noteq> Cleared
      | Some topo \<Rightarrow> newest = Some topo \<and> \<not> ss_waiting s \<and> (\<exists>due. ss_throttle s = Armed due))"

lemma holds_newest_topology:
  assumes "holds_newest newest s"
  shows "holds_newest (received (InTopology now msg) newest) (fst (on_topology now msg s))"
proof (cases "msg = None \<or> msg = Some JNull")
  case True
  then show ?thesis using assms by (auto simp: on_topology_def received_def)
next
  case False
  then obtain topo where msg: "msg = Some topo" "topo \<noteq> JNull" by auto
  have pass: "(case topo of JNull \<Rightarrow> x | _ \<Rightarrow> y) = y" for x y :: "live_stream_state \<times> stream_call list"
    using msg(2) by (cases topo) auto
  show ?thesis
  proof (cases "ss_pending s")
    case None
    then show ?thesis
      using assms msg by (cases "ss_throttle s"; cases topo) (auto simp: holds_newest_def received_def on_topology_def Let_def)
  next
    case (Some p)
    then obtain due where "ss_throttle s = Armed due" "\<not> ss_waiting s" using assms by (auto simp: holds_newest_def)
    then show ?thesis using msg Some by (cases topo) (auto simp: holds_newest_def received_def on_topology_def Let_def)
  qed
qed

lemma holds_newest_step:
  assumes "holds_newest newest s" and "stays_connected i"
  shows "holds_newest (received i newest) (snd (fst (stream_step i (c, s))))"
proof (cases i)
  case (InTopology now msg)
  then show ?thesis using holds_newest_topology [OF assms(1)] by (simp add: split_beta)
next
  case (InThrottleTimer now)
  then show ?thesis using assms by (auto simp: holds_newest_def received_def on_throttle_timer_def split: option.splits)
qed (use assms in \<open>simp_all add: holds_newest_def received_def split_beta stream_untouched on_open_def on_error_def split: option.splits\<close>)

lemma holds_newest_run:
  "holds_newest newest (snd cs) \<Longrightarrow> list_all stays_connected is \<Longrightarrow> stream_run cs is = Some cs'
     \<Longrightarrow> holds_newest (newest_topology newest is) (snd cs')"
proof (induction "is" arbitrary: cs newest)
  case Nil
  then show ?case by (simp add: newest_topology_def)
next
  case (Cons i "is")
  obtain c s where cs: "cs = (c, s)" by (cases cs)
  have "holds_newest (received i newest) (snd (fst (stream_step i cs)))"
    using holds_newest_step Cons.prems(1,2) by (simp add: cs)
  then show ?case using Cons.IH Cons.prems(2,3) by (simp add: newest_topology_def split: if_splits)
qed

text \<open>
  C31. The throttle loses no topology, from a state that holds nothing back and whose throttle handle no
  cleanup has cleared: while the hook stays on one connection and one context, after any messages and timers,
  the newest topology received is the one that is shown, or it is held back and a timer is armed that will
  show it. Both conditions hold when the hook is mounted; a cleanup that finds a handle ends the second for
  good (\<open>cleanup_disables_the_throttle\<close>), and from there on a topology that is held back may never be shown.
\<close>
theorem newest_topology_is_shown_or_due:
  assumes "stream_run (c, s) is = Some (c', t)" and "list_all stays_connected is"
    and "ss_pending s = None" and "ss_throttle s \<noteq> Cleared"
  shows "(case ss_pending t of
       None \<Rightarrow> ss_topology t = newest_topology (ss_topology s) is
     | Some topo \<Rightarrow> newest_topology (ss_topology s) is = Some topo
         \<and> (\<exists>due. ss_throttle t = Armed due \<and> ss_topology (on_throttle_timer due t) = Some topo))"
proof -
  have "holds_newest (ss_topology s) (snd (c, s))" using assms(3,4) by (simp add: holds_newest_def)
  from holds_newest_run [OF this assms(2,1)] show ?thesis
    by (auto simp: holds_newest_def on_throttle_timer_def split: option.split)
qed

lemma newest_topology_is_shown_or_due_witness:
  "\<exists>t. stream_run (mounted_stream example_config) [InOpen, InTopology 9000 (Some (example_topology ''a'')),
        InTopology 9100 (Some (example_topology ''b''))] = Some (example_config, t)
     \<and> ss_pending t = Some (example_topology ''b'') \<and> (\<exists>due. ss_throttle t = Armed due)"
proof -
  let ?is = "[InOpen, InTopology 9000 (Some (example_topology ''a'')), InTopology 9100 (Some (example_topology ''b''))]"
  obtain t where t: "stream_run (mounted_stream example_config) ?is = Some (example_config, t)" and held: "ss_pending t = Some (example_topology ''b'')"
    by (simp add: mounted_stream_def connect_stream_def on_open_def on_topology_def Let_def example_topology_def fresh_stream_def
        topology_throttle_ms_def topology_node_count_def json_get_def json_list_def object_message_def)
  have "ss_pending (connect_stream example_config fresh_stream) = None" "ss_throttle (connect_stream example_config fresh_stream) \<noteq> Cleared"
    by (simp_all add: connect_stream_def fresh_stream_def)
  then have "\<exists>due. ss_throttle t = Armed due"
    using newest_topology_is_shown_or_due [OF t [unfolded mounted_stream_def]] held by auto
  then show ?thesis using t held by blast
qed

section \<open>Around a change of context or view\<close>

lemma cleared_step: "ss_throttle (snd cs) = Cleared \<Longrightarrow> input_enabled cs i \<Longrightarrow> ss_throttle (snd (fst (stream_step i cs))) = Cleared"
  by (cases cs; cases i)
     (auto simp: split_beta stream_untouched on_open_def on_error_def connect_stream_def cleanup_stream_def clear_throttle_def
        on_topology_def Let_def split: option.split json.split)

text \<open>
  The cleanup of the connecting effect disables the throttle for good: it clears the timer and keeps
  its handle, so from a change of view, filter or policy setting that finds a handle no timer is ever armed
  again, and a topology that is held back is shown by none.
\<close>
theorem cleanup_disables_the_throttle:
  assumes "ss_throttle s \<noteq> NoTimer" and "stream_run (c, s) (InConfig c' # is) = Some (c'', t)"
  shows "ss_throttle t = Cleared \<and> \<not> input_enabled (c'', t) (InThrottleTimer now)"
proof -
  let ?cs = "(c', connect_stream c' (cleanup_stream s))"
  have "stream_run ?cs is = Some (c'', t)" using assms(2) by (simp split: if_splits)
  moreover have "ss_throttle (snd ?cs) = Cleared"
    using assms(1) by (cases "ss_throttle s") (simp_all add: connect_stream_def cleanup_stream_def clear_throttle_def)
  ultimately have "ss_throttle (snd (c'', t)) = Cleared"
    using cleared_step by (rule_tac stream_run_keeps [where P = "\<lambda>cs. ss_throttle (snd cs) = Cleared"]) auto
  then show ?thesis by simp
qed

definition example_held :: live_stream_state where
  \<comment> \<open>one topology is shown, the next is held back\<close>
  "example_held = fresh_stream\<lparr>ss_live := True, ss_source := Some [], ss_topology := Some (example_topology ''a''), ss_last_update := 9000,
     ss_pending := Some (example_topology ''b''), ss_throttle := Armed 9500\<rparr>"

lemma cleanup_disables_the_throttle_witness:
  "\<exists>t. stream_run (example_config, example_held) [InConfig (example_config\<lparr>sc_view := ''traffic''\<rparr>),
        InTopology 9300 (Some (example_topology ''c''))] = Some (example_config\<lparr>sc_view := ''traffic''\<rparr>, t)
     \<and> ss_topology t = None \<and> ss_pending t = Some (example_topology ''c'') \<and> ss_throttle t = Cleared"
proof -
  let ?is = "[InConfig (example_config\<lparr>sc_view := ''traffic''\<rparr>), InTopology 9300 (Some (example_topology ''c''))]"
  obtain t where t: "stream_run (example_config, example_held) ?is = Some (example_config\<lparr>sc_view := ''traffic''\<rparr>, t)"
    and shown: "ss_topology t = None" "ss_pending t = Some (example_topology ''c'')"
    by (simp add: connect_stream_def cleanup_stream_def on_topology_def Let_def example_topology_def fresh_stream_def example_held_def
        example_config_def stream_deps_def topology_throttle_ms_def topology_node_count_def json_get_def json_list_def object_message_def)
  have "ss_throttle example_held \<noteq> NoTimer" by (simp add: example_held_def)
  then show ?thesis using cleanup_disables_the_throttle [OF _ t] t shown by blast
qed

text \<open>
  C32. A topology of the previous context that was held back is shown in the new one: a change of context
  does not drop it, the first topology of the new context is drawn past it, and the timer then draws the
  old one over it.
\<close>
theorem held_topology_outlives_its_context:
  assumes "ss_pending s = Some old" and "ss_throttle s = Armed due" and "ss_live s" and "due \<le> later"
  shows "\<exists>t. stream_run (c, s) [InContextChanged (Some (JObj ctx)), InTopology now (Some (JObj new)), InThrottleTimer later] = Some (c, t)
     \<and> ss_topology t = Some old \<and> \<not> ss_waiting t
     \<and> ss_topology (snd (the (stream_run (c, s) [InContextChanged (Some (JObj ctx)), InTopology now (Some (JObj new))]))) = Some (JObj new)"
  using assms by (simp add: object_message_def on_context_changed_def on_topology_def Let_def on_throttle_timer_def)

lemma held_topology_outlives_its_context_witness:
  "\<exists>t. stream_run (example_config, example_held) [InContextChanged (Some (JObj [])), InTopology 9200 (Some (JObj [])), InThrottleTimer 9500]
         = Some (example_config, t)
     \<and> ss_topology t = Some (example_topology ''b'')"
proof -
  have "ss_pending example_held = Some (example_topology ''b'')" "ss_throttle example_held = Armed 9500" "ss_live example_held"
    by (simp_all add: example_held_def)
  from held_topology_outlives_its_context [OF this order_refl] show ?thesis by blast
qed

end
