(* ===== verification/Evidence_Partition.thy ===== *)
theory Evidence_Partition
  imports Investigation "HOL-Library.Product_Lexorder"
begin

text \<open>
  Where the findings of an investigation are shown
  (\<open>web/src/components/diagnose/investigationEvidencePartition.ts\<close>): which groups of evidence head the pane,
  which are folded away, which are withheld and how they are counted, their order, which cards take a whole
  row, and which earlier observations of a group keep a row of their own.

  An observation is told apart from others by its record, since a source and a revision name it.
  \<open>evidenceDisplaySnapshot\<close>, which reduces an observation to what its card displays, is an argument. The
  lemmas show that every group is placed or withheld and which of the withheld are counted, that the agent's case can promote a group but never
  remove one, the order of the cards, and that no content a group displayed is lost.
\<close>

section \<open>Evidence and the case\<close>

record cited_source =
  cs_id :: string
  cs_order :: nat
  cs_args :: "json option" \<comment> \<open>the parsed input of the call\<close>
  cs_primary_group :: "string option"

record part_observation =
  po_source :: cited_source
  po_revision :: nat
  po_relevance :: relevance
  po_tier :: evidence_tier
  po_tone :: string
  po_type :: string

record part_group =
  pg_id :: string
  pg_kind :: string
  pg_historical :: bool
  pg_first_order :: int
  pg_observations :: "part_observation list"
  pg_latest :: part_observation

datatype evidence_role = RoleCause | RoleSymptom | RoleContext | RoleBenign | RoleDemoted | RoleRulesOut

record part_item =
  pi_index :: int
  pi_role :: evidence_role
  pi_has_subject :: bool
  pi_source :: cited_source
  pi_placement :: placement
  pi_group :: "string option"

record cause_resolution =
  cr_linked :: bool
  cr_links :: "(string \<times> cited_source) list"

fun evidence_role_rank :: "evidence_role \<Rightarrow> int" where
  "evidence_role_rank RoleCause = 0"
| "evidence_role_rank RoleSymptom = 1"
| "evidence_role_rank RoleRulesOut = 2"
| "evidence_role_rank RoleContext = 3"
| "evidence_role_rank RoleBenign = 4"
| "evidence_role_rank RoleDemoted = 5"

definition unlabelled_rank :: int where "unlabelled_rank = 2"

definition source_names_one_resource :: "cited_source \<Rightarrow> bool" where
  "source_names_one_resource s =
     (truthy_str (json_str (json_get (cs_args s) ''kind'')) \<and> truthy_str (json_str (json_get (cs_args s) ''name'')))"

definition case_of_group :: "part_item list \<Rightarrow> string \<Rightarrow> part_item list" where
  \<comment> \<open>what the map of \<open>investigationCaseByGroup\<close> holds for a group, \<open>[]\<close> where it holds nothing\<close>
  "case_of_group items i = filter (\<lambda>it. truthy_str (pi_group it) \<and> pi_placement it \<noteq> PlacedSource \<and> pi_group it = Some i) items"

section \<open>Rows\<close>

definition evidence_type_prefers_full_row :: "string \<Rightarrow> bool" where
  "evidence_type_prefers_full_row t = (case map_of evidence_kind_table t of None \<Rightarrow> False | Some traits \<Rightarrow> kt_full_row traits)"

definition full_row_step :: "nat \<Rightarrow> bool list \<times> nat \<Rightarrow> bool list \<times> nat" where
  "full_row_step i st =
     (let (full, start) = st
      in if i < length full \<and> \<not> full ! i then (full, start)
         else (if odd (i - start) then full[i - 1 := True] else full, Suc i))"

definition full_row_flags :: "string list \<Rightarrow> bool list" where
  "full_row_flags types =
     fst (fold full_row_step [0..<Suc (length types)] (map evidence_type_prefers_full_row types, 0))"

section \<open>Placing a group\<close>

definition selected_groups :: "cause_resolution option \<Rightarrow> part_item list \<Rightarrow> string \<Rightarrow> bool" where
  "selected_groups res items i =
     ((case res of None \<Rightarrow> False | Some r \<Rightarrow> cr_linked r \<and> i \<in> fst ` set (cr_links r)) \<or> case_of_group items i \<noteq> [])"

definition is_adverse :: "part_group \<Rightarrow> bool" where
  "is_adverse g = (po_tone (pg_latest g) \<in> {''error'', ''alert'', ''warning''})"

definition is_broader :: "part_group \<Rightarrow> bool" where
  "is_broader g = (po_relevance (pg_latest g) = RelBroader)"

definition named_by_agent :: "part_item list \<Rightarrow> part_group \<Rightarrow> bool" where
  "named_by_agent items g = list_ex (\<lambda>it. pi_has_subject it \<or> source_names_one_resource (pi_source it)) (case_of_group items (pg_id g))"

definition citing_source :: "cause_resolution option \<Rightarrow> part_item list \<Rightarrow> part_group \<Rightarrow> cited_source option" where
  "citing_source res items g =
     coalesce_opt (case res of None \<Rightarrow> None | Some r \<Rightarrow> map_option snd (List.find (\<lambda>l. fst l = pg_id g) (cr_links r)))
       (case case_of_group items (pg_id g) of [] \<Rightarrow> None | it # _ \<Rightarrow> Some (pi_source it))"

definition focused_groups_of :: "part_group list \<Rightarrow> cited_source option \<Rightarrow> part_group list" where
  "focused_groups_of groups src =
     (case src of None \<Rightarrow> []
      | Some s \<Rightarrow> filter (\<lambda>g. evidence_kind_is_focused (po_type (pg_latest g))
                            \<and> list_ex (\<lambda>o'. cs_id (po_source o') = cs_id s) (pg_observations g)) groups)"

definition withheld :: "part_group list \<Rightarrow> cause_resolution option \<Rightarrow> part_item list \<Rightarrow> part_group \<Rightarrow> bool" where
  "withheld groups res items g =
     (is_broader g \<and> \<not> named_by_agent items g
      \<and> (\<not> selected_groups res items (pg_id g) \<or> \<not> evidence_kind_is_focused (po_type (pg_latest g))
         \<or> length (focused_groups_of groups (citing_source res items g)) \<noteq> 1))"

datatype evidence_collection = InMain | InWorkload | InEarlier

definition collection_of :: "cause_resolution option \<Rightarrow> part_item list \<Rightarrow> bool \<Rightarrow> part_group \<Rightarrow> evidence_collection" where
  "collection_of res items inventory g =
     (if \<not> pg_historical g
         \<and> (selected_groups res items (pg_id g)
            \<or> (\<not> is_broader g \<and> (inventory \<or> po_tier (pg_latest g) = TierKey \<or> (po_tier (pg_latest g) = TierSupporting \<and> is_adverse g))))
      then InMain else if pg_historical g then InEarlier else InWorkload)"

section \<open>The order of the cards\<close>

definition role_order_step :: "part_item \<Rightarrow> (int \<times> int) option \<Rightarrow> (int \<times> int) option" where
  \<comment> \<open>the strongest role so far and the least index within it\<close>
  "role_order_step it best =
     (let r = evidence_role_rank (pi_role it)
      in case best of None \<Rightarrow> Some (r, pi_index it)
         | Some (rank, i) \<Rightarrow> if r < rank then Some (r, pi_index it) else if r = rank then Some (rank, min i (pi_index it)) else best)"

definition role_order :: "part_item list \<Rightarrow> part_group \<Rightarrow> int \<times> int option" where
  \<comment> \<open>\<open>None\<close> for an index without bound\<close>
  "role_order items g =
     (case fold role_order_step (case_of_group items (pg_id g)) None of
        None \<Rightarrow> (unlabelled_rank, None)
      | Some (rank, i) \<Rightarrow> if rank = unlabelled_rank then (unlabelled_rank, None) else (rank, Some i))"

fun agent_order :: "int option \<Rightarrow> int option \<Rightarrow> int" where
  "agent_order (Some a) (Some b) = a - b"
| "agent_order (Some a) None = -1"
| "agent_order None (Some b) = 1"
| "agent_order None None = 0"

definition bool_num :: "bool \<Rightarrow> int" where "bool_num b = (if b then 1 else 0)"

fun first_nonzero :: "int list \<Rightarrow> int" where
  \<comment> \<open>\<open>a || b || ...\<close> of numbers\<close>
  "first_nonzero [] = 0"
| "first_nonzero (x # xs) = (if x \<noteq> 0 then x else first_nonzero xs)"

definition compare_main :: "part_item list \<Rightarrow> part_group \<Rightarrow> part_group \<Rightarrow> int" where
  "compare_main items l r =
     (let (lr, li) = role_order items l; (rr, ri) = role_order items r
      in first_nonzero [lr - rr, agent_order li ri,
           bool_num (po_tier (pg_latest r) = TierKey) - bool_num (po_tier (pg_latest l) = TierKey),
           bool_num (is_adverse r) - bool_num (is_adverse l), pg_first_order l - pg_first_order r])"

definition compare_workload :: "part_group \<Rightarrow> part_group \<Rightarrow> int" where
  "compare_workload l r = bool_num (pg_kind l = ''receipt'') - bool_num (pg_kind r = ''receipt'')"

section \<open>The partition\<close>

record evidence_partition =
  ep_main :: "part_group list"
  ep_workload :: "part_group list"
  ep_earlier :: "part_group list"
  ep_by_group :: "(string \<times> evidence_collection) list"
  ep_hidden_broader :: nat
  ep_hidden_metrics :: nat

definition place_group ::
    "part_group list \<Rightarrow> cause_resolution option \<Rightarrow> part_item list \<Rightarrow> bool \<Rightarrow> part_group \<Rightarrow> evidence_partition \<Rightarrow> evidence_partition" where
  "place_group groups res items inventory g p =
     (if withheld groups res items g
      then if pg_historical g then p
           else if po_type (pg_latest g) = ''metrics'' then p\<lparr>ep_hidden_metrics := ep_hidden_metrics p + 1\<rparr>
           else p\<lparr>ep_hidden_broader := ep_hidden_broader p + 1\<rparr>
      else let k = collection_of res items inventory g;
               p = p\<lparr>ep_by_group := AList.update (pg_id g) k (ep_by_group p)\<rparr>
           in case k of InMain \<Rightarrow> p\<lparr>ep_main := ep_main p @ [g]\<rparr> | InWorkload \<Rightarrow> p\<lparr>ep_workload := ep_workload p @ [g]\<rparr>
              | InEarlier \<Rightarrow> p\<lparr>ep_earlier := ep_earlier p @ [g]\<rparr>)"

definition partition_evidence :: "part_group list \<Rightarrow> cause_resolution option \<Rightarrow> part_item list \<Rightarrow> bool \<Rightarrow> evidence_partition" where
  "partition_evidence groups res items inventory =
     (let p = fold (place_group groups res items inventory) groups
            \<lparr>ep_main = [], ep_workload = [], ep_earlier = [], ep_by_group = [], ep_hidden_broader = 0, ep_hidden_metrics = 0\<rparr>
      in p\<lparr>ep_main := js_sort (compare_main items) (ep_main p), ep_workload := js_sort compare_workload (ep_workload p)\<rparr>)"

datatype reveal_place = RevealWorkload | RevealEarlier | RevealCoverage

definition reveal_collection :: "cited_source list \<Rightarrow> cited_source list list \<Rightarrow> string \<Rightarrow> evidence_partition \<Rightarrow> reveal_place option" where
  \<comment> \<open>the sources of the projection, and those of each of its limitations\<close>
  "reveal_collection sources limitations i p =
     (let group_id = Option.bind (List.find (\<lambda>s. cs_id s = i) sources) cs_primary_group;
          coll = (if truthy_str group_id then map_of (ep_by_group p) (the group_id) else None)
      in case coll of
           Some InMain \<Rightarrow> None | Some InWorkload \<Rightarrow> Some RevealWorkload | Some InEarlier \<Rightarrow> Some RevealEarlier
         | None \<Rightarrow> if list_ex (list_ex (\<lambda>s. cs_id s = i)) limitations then Some RevealCoverage else None)"

section \<open>Earlier observations\<close>

definition pinned_observation :: "nat option \<Rightarrow> nat list \<Rightarrow> part_observation \<Rightarrow> bool" where
  "pinned_observation cited bound ob = (Some (cs_order (po_source ob)) = cited \<or> cs_order (po_source ob) \<in> set bound)"

definition keep_observation ::
    "(part_observation \<Rightarrow> string) \<Rightarrow> part_group \<Rightarrow> nat option \<Rightarrow> nat list \<Rightarrow> part_observation \<Rightarrow> string list \<times> part_observation list
       \<Rightarrow> string list \<times> part_observation list" where
  "keep_observation snapshot g cited bound ob acc =
     (let (seen, kept) = acc; pinned = pinned_observation cited bound
      in if ob = pg_latest g then acc
         else if cs_order (po_source ob) \<in> set bound then (seen, kept @ [ob])
         else if \<not> pinned ob \<and> list_ex (\<lambda>other. pinned other \<and> snapshot other = snapshot ob) (pg_observations g) then acc
         else if snapshot ob \<in> set seen then acc
         else (snapshot ob # seen, kept @ [ob]))"

definition previous_different_observations ::
    "(part_observation \<Rightarrow> string) \<Rightarrow> part_group \<Rightarrow> nat option \<Rightarrow> nat list \<Rightarrow> part_observation list" where
  "previous_different_observations snapshot g cited bound =
     snd (fold (keep_observation snapshot g cited bound) (rev (pg_observations g)) ([snapshot (pg_latest g)], []))"

definition should_reveal_history ::
    "(part_observation \<Rightarrow> string) \<Rightarrow> part_group \<Rightarrow> string option \<Rightarrow> string list \<Rightarrow> bool" where
  "should_reveal_history snapshot g i bound =
     (truthy_str i \<and> Some (cs_id (po_source (pg_latest g))) \<noteq> i
      \<and> list_ex (\<lambda>ob. Some (cs_id (po_source ob)) = i
           \<and> (cs_id (po_source ob) \<in> set bound \<or> snapshot ob \<noteq> snapshot (pg_latest g))) (pg_observations g))"
section \<open>Every group is placed or withheld\<close>

definition placed_in ::
    "part_group list \<Rightarrow> cause_resolution option \<Rightarrow> part_item list \<Rightarrow> bool \<Rightarrow> evidence_collection \<Rightarrow> part_group list \<Rightarrow> part_group list" where
  "placed_in groups res items inventory k gs =
     filter (\<lambda>g. \<not> withheld groups res items g \<and> collection_of res items inventory g = k) gs"

definition is_chart :: "part_group \<Rightarrow> bool" where
  "is_chart g = (po_type (pg_latest g) = ''metrics'')"

lemma fold_place_group:
  "ep_main (fold (place_group groups res items inventory) gs p) = ep_main p @ placed_in groups res items inventory InMain gs
   \<and> ep_workload (fold (place_group groups res items inventory) gs p) = ep_workload p @ placed_in groups res items inventory InWorkload gs
   \<and> ep_earlier (fold (place_group groups res items inventory) gs p) = ep_earlier p @ placed_in groups res items inventory InEarlier gs
   \<and> ep_hidden_metrics (fold (place_group groups res items inventory) gs p)
       = ep_hidden_metrics p + length (filter (\<lambda>g. withheld groups res items g \<and> \<not> pg_historical g \<and> is_chart g) gs)
   \<and> ep_hidden_broader (fold (place_group groups res items inventory) gs p)
       = ep_hidden_broader p + length (filter (\<lambda>g. withheld groups res items g \<and> \<not> pg_historical g \<and> \<not> is_chart g) gs)"
proof (induction gs arbitrary: p)
  case Nil
  then show ?case by (simp add: placed_in_def)
next
  case (Cons g gs)
  note IH = Cons.IH [of "place_group groups res items inventory g p"]
  show ?case
  proof (cases "withheld groups res items g")
    case True
    then show ?thesis using IH by (simp add: placed_in_def place_group_def is_chart_def)
  next
    case False
    then show ?thesis using IH
      by (cases "collection_of res items inventory g") (simp_all add: placed_in_def place_group_def Let_def)
  qed
qed

lemma partition_collections:
  "ep_main (partition_evidence groups res items inventory) = js_sort (compare_main items) (placed_in groups res items inventory InMain groups)"
  "ep_workload (partition_evidence groups res items inventory) = js_sort compare_workload (placed_in groups res items inventory InWorkload groups)"
  "ep_earlier (partition_evidence groups res items inventory) = placed_in groups res items inventory InEarlier groups"
  "ep_hidden_metrics (partition_evidence groups res items inventory)
     = length (filter (\<lambda>g. withheld groups res items g \<and> \<not> pg_historical g \<and> is_chart g) groups)"
  "ep_hidden_broader (partition_evidence groups res items inventory)
     = length (filter (\<lambda>g. withheld groups res items g \<and> \<not> pg_historical g \<and> \<not> is_chart g) groups)"
  by (simp_all add: partition_evidence_def Let_def fold_place_group)

lemma placed_once:
  "mset (placed_in groups res items inventory InMain gs) + mset (placed_in groups res items inventory InWorkload gs)
     + mset (placed_in groups res items inventory InEarlier gs) = mset (filter (\<lambda>g. \<not> withheld groups res items g) gs)"
proof (induction gs)
  case Nil
  then show ?case by (simp add: placed_in_def)
next
  case (Cons g gs)
  then show ?case by (cases "collection_of res items inventory g") (simp_all add: placed_in_def)
qed

text \<open>
  C12. Every group of evidence is placed exactly once or withheld, and only a group about something else
  than the target is ever withheld. Of the withheld groups, those that are not from before a verification
  are each counted in exactly one of the two figures the pane shows, the charts in one and all others in
  the other; those from before a verification are counted in neither.
\<close>
theorem every_group_is_placed_or_withheld:
  "(let p = partition_evidence groups res items inventory; hidden = filter (withheld groups res items) groups;
        counted = filter (\<lambda>g. \<not> pg_historical g) hidden
    in mset (ep_main p) + mset (ep_workload p) + mset (ep_earlier p) + mset hidden = mset groups
       \<and> filter (\<lambda>g. \<not> is_broader g) hidden = []
       \<and> ep_hidden_metrics p = length (filter is_chart counted)
       \<and> ep_hidden_broader p = length (filter (\<lambda>g. \<not> is_chart g) counted))"
proof -
  have "mset (filter (\<lambda>g. \<not> withheld groups res items g) groups) + mset (filter (withheld groups res items) groups) = mset groups"
    by (simp add: add.commute)
  moreover have "filter (\<lambda>g. \<not> is_broader g) (filter (withheld groups res items) groups) = []"
    by (simp add: withheld_def filter_empty_conv)
  ultimately show ?thesis by (simp add: Let_def partition_collections placed_once conj_ac)
qed

section \<open>The agent cannot remove evidence\<close>

lemma placed_without_case:
  assumes "\<not> withheld groups None [] g"
  shows "\<not> is_broader g" and "\<not> withheld groups res items g"
    and "collection_of None [] inventory g = InMain \<Longrightarrow> collection_of res items inventory g = InMain"
    and "pg_historical g \<longleftrightarrow> collection_of res items inventory g = InEarlier"
  using assms by (auto simp: withheld_def named_by_agent_def selected_groups_def case_of_group_def collection_of_def split: if_splits)

text \<open>
  C11. Nothing the agent sends removes a group from the pane: whatever case and root cause it reports, each
  group that is placed without them is placed with them, those at the head stay at the head, and those from
  before a verification stay among the earlier ones.
\<close>
theorem agent_never_removes_evidence:
  "(let bare = partition_evidence groups None [] inventory; p = partition_evidence groups res items inventory
    in set (ep_main bare) \<union> set (ep_workload bare) \<union> set (ep_earlier bare) \<subseteq> set (ep_main p) \<union> set (ep_workload p) \<union> set (ep_earlier p)
       \<and> set (ep_main bare) \<subseteq> set (ep_main p) \<and> set (ep_earlier bare) \<subseteq> set (ep_earlier p))"
proof -
  have all: "g \<in> set (placed_in groups res items inventory InMain groups) \<union> set (placed_in groups res items inventory InWorkload groups)
        \<union> set (placed_in groups res items inventory InEarlier groups)"
    if "g \<in> set (placed_in groups None [] inventory k groups)" for g k
    using that placed_without_case(2) [of groups g res items]
    by (cases "collection_of res items inventory g") (auto simp: placed_in_def)
  have main: "set (placed_in groups None [] inventory InMain groups) \<subseteq> set (placed_in groups res items inventory InMain groups)"
    using placed_without_case(2,3) by (auto simp: placed_in_def)
  have earlier: "set (placed_in groups None [] inventory InEarlier groups) \<subseteq> set (placed_in groups res items inventory InEarlier groups)"
    using placed_without_case(2,4) by (auto simp: placed_in_def)
  show ?thesis using all main earlier by (auto simp: Let_def partition_collections)
qed

section \<open>Order\<close>

definition main_key :: "part_item list \<Rightarrow> part_group \<Rightarrow> int \<times> int \<times> int \<times> int \<times> int \<times> int" where
  "main_key items g =
     (let (rank, i) = role_order items g
      in (rank, bool_num (i = None), coalesce i 0, bool_num (po_tier (pg_latest g) \<noteq> TierKey), bool_num (\<not> is_adverse g), pg_first_order g))"

lemma compare_main_key: "compare_main items l r \<le> 0 \<longleftrightarrow> main_key items l \<le> main_key items r"
proof -
  obtain lr li where l: "role_order items l = (lr, li)" by (cases "role_order items l")
  obtain rr ri where r: "role_order items r = (rr, ri)" by (cases "role_order items r")
  show ?thesis
    by (cases li; cases ri) (auto simp: compare_main_def main_key_def l r bool_num_def)
qed

interpretation main_cards: js_comparator "compare_main items" for items
  by unfold_locales (auto simp: compare_main_key)

interpretation workload_cards: js_comparator compare_workload
  by unfold_locales (auto simp: compare_workload_def bool_num_def)

text \<open>
  The cards come in order: at the head by the strongest role the agent gave them, an unlabelled or
  ruled-out one between symptoms and context; in the folded collection those with facts before receipts, each
  in Radar's order.
\<close>
theorem cards_come_in_order:
  "(let p = partition_evidence groups res items inventory; folded = filter (\<lambda>g. g \<in> set (ep_workload p)) groups
    in sorted_wrt (\<lambda>a b. fst (role_order items a) \<le> fst (role_order items b)) (ep_main p)
       \<and> ep_workload p = filter (\<lambda>g. pg_kind g \<noteq> ''receipt'') folded @ filter (\<lambda>g. pg_kind g = ''receipt'') folded)"
proof -
  let ?ws = "placed_in groups res items inventory InWorkload groups"
  have less: "fst (role_order items a) \<le> fst (role_order items b)" if "compare_main items a b \<le> 0" for a b
    using that by (cases "role_order items a"; cases "role_order items b") (auto simp: compare_main_key main_key_def)
  have main: "sorted_wrt (\<lambda>a b. fst (role_order items a) \<le> fst (role_order items b)) (js_sort (compare_main items) xs)" for xs
    by (rule sorted_wrt_mono_rel [where P = "\<lambda>a b. compare_main items a b \<le> 0"]) (simp_all add: less main_cards.sorted_js_sort)
  have "js_sort compare_workload xs = filter (\<lambda>g. pg_kind g \<noteq> ''receipt'') xs @ filter (\<lambda>g. pg_kind g = ''receipt'') xs" for xs
  proof (induction xs)
    case Nil
    then show ?case by simp
  next
    case (Cons x xs)
    have skip: "sort_insert compare_workload x (ys @ zs) = ys @ sort_insert compare_workload x zs"
      if "pg_kind x = ''receipt''" "filter (\<lambda>g. pg_kind g \<noteq> ''receipt'') ys = ys" for ys zs
      using that(2)
      by (induction ys) (auto simp: compare_workload_def bool_num_def that(1) filter_eq_Cons_iff split: if_splits dest: impossible_Cons)
    have front: "sort_insert compare_workload x ys = x # ys" if "pg_kind x \<noteq> ''receipt'' \<or> (\<forall>y\<in>set ys. pg_kind y = ''receipt'')" for ys
      using that by (cases ys) (auto simp: compare_workload_def bool_num_def)
    show ?case using Cons by (cases "pg_kind x = ''receipt''") (simp_all add: front skip)
  qed
  then have workload: "ep_workload (partition_evidence groups res items inventory)
      = filter (\<lambda>g. pg_kind g \<noteq> ''receipt'') ?ws @ filter (\<lambda>g. pg_kind g = ''receipt'') ?ws"
    by (simp only: partition_collections)
  have "set (ep_workload (partition_evidence groups res items inventory)) = set ?ws" by (simp add: partition_collections)
  then have "filter (\<lambda>g. g \<in> set (ep_workload (partition_evidence groups res items inventory))) groups = ?ws"
    by (auto simp: placed_in_def intro!: filter_cong)
  then show ?thesis using workload main by (simp only: Let_def partition_collections(1) simp_thms)
qed

section \<open>Rows\<close>

text \<open>Pairing the compact cards of a list, stated without the loop.\<close>

fun pair_cards :: "bool list \<Rightarrow> bool list" where
  "pair_cards [] = []"
| "pair_cards (True # fs) = True # pair_cards fs"
| "pair_cards [False] = [True]"
| "pair_cards (False # True # fs) = True # True # pair_cards fs"
| "pair_cards (False # False # fs) = False # False # pair_cards fs"

fun compact_runs :: "bool list \<Rightarrow> nat \<Rightarrow> nat list" where
  \<comment> \<open>the lengths of the runs of compact cards\<close>
  "compact_runs [] n = [n]"
| "compact_runs (True # fs) n = n # compact_runs fs 0"
| "compact_runs (False # fs) n = compact_runs fs (Suc n)"

definition closed_run :: "nat \<Rightarrow> bool list" where
  "closed_run r = (if odd r then replicate (r - 1) False @ [True] else replicate r False)"

lemma closed_run_Suc_Suc: "closed_run (Suc (Suc r)) = False # False # closed_run r"
  by (cases r) (simp_all add: closed_run_def)

lemma pair_cards_run: "pair_cards (replicate r False @ True # fs) = closed_run r @ True # pair_cards fs"
  by (induction r rule: nat_induct2) (simp_all add: closed_run_Suc_Suc, simp_all add: closed_run_def)

lemma pair_cards_last_run: "pair_cards (replicate r False) = closed_run r"
  by (induction r rule: nat_induct2) (simp_all add: closed_run_Suc_Suc, simp_all add: closed_run_def)

lemma length_pair_cards [simp]: "length (pair_cards fs) = length fs"
  by (induction fs rule: pair_cards.induct) simp_all

lemma pair_cards_even: "even n \<Longrightarrow> list_all even (compact_runs (pair_cards fs) n)"
  by (induction fs arbitrary: n rule: pair_cards.induct) simp_all

lemma pair_cards_keeps: "list_all2 (\<le>) fs (pair_cards fs)"
  by (induction fs rule: pair_cards.induct) simp_all

definition rows_upto :: "bool list \<Rightarrow> nat \<Rightarrow> bool list \<times> nat \<Rightarrow> bool" where
  \<comment> \<open>what the loop has at index \<open>k\<close>: the cards before \<open>start\<close> are final, those from there to \<open>k\<close> a run of compact ones\<close>
  "rows_upto fs k st =
     (\<exists>done_rows rest. fst st = done_rows @ replicate (k - snd st) False @ rest \<and> length done_rows = snd st \<and> snd st \<le> k
        \<and> length (fst st) = length fs \<and> pair_cards fs = done_rows @ pair_cards (replicate (k - snd st) False @ rest))"

lemma closed_run_update: "odd r \<Longrightarrow> (ds @ replicate r False @ xs)[length ds + r - 1 := True] = ds @ closed_run r @ xs"
proof -
  assume "odd r"
  then obtain q where "r = Suc q" by (cases r) auto
  moreover from this have "replicate r False = replicate q False @ [False]" by (simp add: replicate_append_same)
  ultimately show ?thesis using \<open>odd r\<close> by (simp add: closed_run_def list_update_append)
qed

lemma length_closed_run [simp]: "length (closed_run r) = r"
  by (cases r) (simp_all add: closed_run_def)

lemma rows_upto_step:
  assumes "rows_upto fs k st" and "k < length fs"
  shows "rows_upto fs (Suc k) (full_row_step k st)"
proof -
  obtain full start where st: "st = (full, start)" by (cases st)
  obtain ds rest where full: "full = ds @ replicate (k - start) False @ rest" and ds: "length ds = start" "start \<le> k"
    and len: "length full = length fs" and pair: "pair_cards fs = ds @ pair_cards (replicate (k - start) False @ rest)"
    using assms(1) by (auto simp: rows_upto_def st)
  have "rest \<noteq> []" using full ds len assms(2) by auto
  then obtain b tl where rest: "rest = b # tl" by (cases rest) auto
  have bk: "full ! k = b" using ds by (simp add: full rest nth_append)
  show ?thesis
  proof (cases b)
    case False
    have run: "replicate (k - start) False @ False # tl = replicate (Suc k - start) False @ tl"
      using ds(2) by (simp add: Suc_diff_le replicate_app_Cons_same)
    have "full_row_step k st = (full, start)" using False bk assms(2) len by (simp add: full_row_step_def st)
    moreover have "full = ds @ replicate (Suc k - start) False @ tl" using full rest False run by simp
    moreover have "pair_cards fs = ds @ pair_cards (replicate (Suc k - start) False @ tl)" using pair rest False run by simp
    ultimately show ?thesis using ds len unfolding rows_upto_def by (rule_tac exI [of _ ds], rule_tac exI [of _ tl]) simp
  next
    case True
    let ?new = "if odd (k - start) then full[k - 1 := True] else full"
    have "?new = ds @ closed_run (k - start) @ True # tl"
      using closed_run_update [of "k - start" ds "True # tl"] ds full rest True by (auto simp: closed_run_def)
    moreover have "full_row_step k st = (?new, Suc k)" using True bk by (simp add: full_row_step_def st)
    moreover have "pair_cards fs = (ds @ closed_run (k - start) @ [True]) @ pair_cards tl"
      using pair rest True by (simp add: pair_cards_run)
    ultimately show ?thesis
      using ds len full rest unfolding rows_upto_def
      by (rule_tac exI [of _ "ds @ closed_run (k - start) @ [True]"], rule_tac exI [of _ tl]) (auto split: if_splits)
  qed
qed

lemma rows_upto_loop: "k \<le> length fs \<Longrightarrow> rows_upto fs k (fold full_row_step [0..<k] (fs, 0))"
proof (induction k)
  case 0
  show ?case by (auto simp: rows_upto_def)
next
  case (Suc k)
  then show ?case using rows_upto_step by simp
qed

lemma full_row_loop: "fst (fold full_row_step [0..<Suc (length fs)] (fs, 0)) = pair_cards fs"
proof -
  let ?st = "fold full_row_step [0..<length fs] (fs, 0)"
  obtain full start where st: "?st = (full, start)" by (cases ?st)
  obtain ds rest where full: "full = ds @ replicate (length fs - start) False @ rest" and ds: "length ds = start" "start \<le> length fs"
    and len: "length full = length fs" and pair: "pair_cards fs = ds @ pair_cards (replicate (length fs - start) False @ rest)"
    using rows_upto_loop [of "length fs" fs] by (auto simp: rows_upto_def st)
  have rest: "rest = []" using full ds len by auto
  have "(if odd (length fs - start) then full[length fs - 1 := True] else full) = ds @ closed_run (length fs - start)"
    using closed_run_update [of "length fs - start" ds "[]"] ds full rest by (auto simp: closed_run_def)
  then show ?thesis using pair rest len by (simp add: st full_row_step_def pair_cards_last_run)
qed

text \<open>
  Compact cards always come in pairs: the loop over the cards gives what pairing them from the left
  gives, every run of compact cards that is left is even, and a card that wants a whole row keeps it.
\<close>
theorem compact_cards_pair_up:
  "full_row_flags types = pair_cards (map evidence_type_prefers_full_row types)
   \<and> list_all even (compact_runs (full_row_flags types) 0)
   \<and> list_all2 (\<le>) (map evidence_type_prefers_full_row types) (full_row_flags types)"
proof -
  have "full_row_flags types = pair_cards (map evidence_type_prefers_full_row types)"
    using full_row_loop [of "map evidence_type_prefers_full_row types"] by (simp add: full_row_flags_def)
  then show ?thesis using pair_cards_even pair_cards_keeps by simp
qed

section \<open>Earlier observations\<close>

definition covers_snapshots :: "(part_observation \<Rightarrow> string) \<Rightarrow> part_group \<Rightarrow> string list \<times> part_observation list \<Rightarrow> bool" where
  "covers_snapshots snapshot g acc = (set (fst acc) \<subseteq> snapshot ` insert (pg_latest g) (set (snd acc)))"

lemma keep_observation_covers:
  assumes "covers_snapshots snapshot g acc"
  shows "covers_snapshots snapshot g (keep_observation snapshot g cited bound ob acc)"
    and "set (snd acc) \<subseteq> set (snd (keep_observation snapshot g cited bound ob acc))"
  using assms by (cases acc; auto simp: covers_snapshots_def keep_observation_def Let_def)+

lemma keep_observation_pinned:
  assumes "covers_snapshots snapshot g acc" and "pinned_observation cited bound ob"
  shows "snapshot ob \<in> snapshot ` insert (pg_latest g) (set (snd (keep_observation snapshot g cited bound ob acc)))"
  using assms by (cases acc) (auto simp: covers_snapshots_def keep_observation_def Let_def)

lemma keep_observation_unpinned:
  assumes "covers_snapshots snapshot g acc"
    and "\<not> list_ex (\<lambda>other. pinned_observation cited bound other \<and> snapshot other = snapshot ob) (pg_observations g)"
  shows "snapshot ob \<in> snapshot ` insert (pg_latest g) (set (snd (keep_observation snapshot g cited bound ob acc)))"
  using assms by (cases acc) (auto simp: covers_snapshots_def keep_observation_def Let_def)

lemma fold_keep_observation:
  assumes "covers_snapshots snapshot g acc"
  shows "set (snd acc) \<subseteq> set (snd (fold (keep_observation snapshot g cited bound) obs acc))
    \<and> (\<forall>ob\<in>set obs. pinned_observation cited bound ob
          \<or> \<not> list_ex (\<lambda>other. pinned_observation cited bound other \<and> snapshot other = snapshot ob) (pg_observations g)
        \<longrightarrow> snapshot ob \<in> snapshot ` insert (pg_latest g) (set (snd (fold (keep_observation snapshot g cited bound) obs acc))))"
  using assms
proof (induction obs arbitrary: acc)
  case Nil
  then show ?case by simp
next
  case (Cons ob obs)
  let ?next = "keep_observation snapshot g cited bound ob acc"
  note IH = Cons.IH [OF keep_observation_covers(1) [OF Cons.prems], of cited bound ob]
  have grow: "set (snd acc) \<subseteq> set (snd ?next)" by (rule keep_observation_covers(2) [OF Cons.prems])
  have here: "snapshot ob \<in> snapshot ` insert (pg_latest g) (set (snd ?next))"
    if "pinned_observation cited bound ob \<or> \<not> list_ex (\<lambda>other. pinned_observation cited bound other \<and> snapshot other = snapshot ob) (pg_observations g)"
    using that keep_observation_pinned [OF Cons.prems] keep_observation_unpinned [OF Cons.prems] by blast
  show ?case using IH grow here by (simp only: fold_simps list.set ball_simps comp_def) blast
qed

text \<open>
  No content a group has displayed is folded away: whatever an observation of the group displays, the
  card's own observation or one of the rows kept for earlier ones displays.
\<close>
theorem no_displayed_content_is_lost:
  "snapshot ` set (pg_observations g)
     \<subseteq> snapshot ` insert (pg_latest g) (set (previous_different_observations snapshot g cited bound))"
proof
  fix x assume "x \<in> snapshot ` set (pg_observations g)"
  then obtain ob where ob: "ob \<in> set (pg_observations g)" "x = snapshot ob" by blast
  let ?pinned = "\<lambda>other. pinned_observation cited bound other \<and> snapshot other = snapshot ob"
  have "covers_snapshots snapshot g ([snapshot (pg_latest g)], [])" by (simp add: covers_snapshots_def)
  note kept = fold_keep_observation [OF this, of cited bound "rev (pg_observations g)", folded previous_different_observations_def]
  have "\<exists>other\<in>set (pg_observations g). snapshot other = snapshot ob
      \<and> (pinned_observation cited bound other \<or> \<not> list_ex ?pinned (pg_observations g))"
    using ob(1) by (cases "list_ex ?pinned (pg_observations g)") (auto simp: list_ex_iff)
  then obtain other where "other \<in> set (pg_observations g)" "snapshot other = snapshot ob"
    "pinned_observation cited bound other \<or> \<not> list_ex ?pinned (pg_observations g)" by blast
  then show "x \<in> snapshot ` insert (pg_latest g) (set (previous_different_observations snapshot g cited bound))"
    using kept unfolding ob(2) by (metis set_rev)
qed

end
