(* ===== verification/Evidence_Case.thy ===== *)
theory Evidence_Case
  imports Investigation Navigation
begin

text \<open>
  The agent's case against the evidence captured in a run
  (\<open>web/src/components/diagnose/investigationCase.ts\<close>): which claims survive, which observation each is pinned
  to, and which hypotheses are shown as ruled out. What the agent sends is JSON of any shape; what Radar
  captured is typed, and each kind of data carries the fields these rules read. An observation is told apart
  from others by its record.

  The lemmas show that a claim is pinned to an observation only where its reference and its subject leave
  exactly one, read no later than the assessment, and that a hypothesis is ruled out only by a pinned claim.
\<close>

section \<open>Captured evidence\<close>

record case_source =
  cso_id :: string
  cso_turn :: int
  cso_ref :: "string option"
  cso_args :: "json option" \<comment> \<open>the input of the call, where it is an object\<close>

record ev_ref =
  er_kind :: string
  er_group :: "string option"
  er_namespace :: "string option"
  er_name :: string

record ev_row =
  ew_ref :: ev_ref
  ew_owner :: "ev_ref option"

datatype ev_data =
    EdIssue ev_ref
  | EdStartup "ev_ref option"
  | EdCrash "string list" "string option" \<comment> \<open>Pods, namespace\<close>
  | EdResource "string option" string "string option" string \<comment> \<open>API version, kind, namespace, name\<close>
  | EdLogs string "string option" "string option" bool \<comment> \<open>Pod, container, namespace, previous\<close>
  | EdEvents "string list" \<comment> \<open>messages\<close>
  | EdChanges "(string option \<times> string option \<times> string) option" \<comment> \<open>kind, namespace and name of the subject\<close>
  | EdDns
  | EdNetwork ev_ref
  | EdRelationships ev_ref
  | EdTopology
  | EdInventory "(string \<times> string) list" \<comment> \<open>kind and name of each row\<close>
  | EdRanking "ev_row list"
  | EdPosture "ev_row list"
  | EdReceipt
  | EdAlerts string \<comment> \<open>the name of the rule\<close>
  | EdHelm "string option" string string \<comment> \<open>storage namespace, namespace, name\<close>
  | EdPermissions string "string option" string
  | EdMetrics bool "ev_ref option" \<comment> \<open>whether a diagnosis ran the query, subject\<close>

fun ed_type :: "ev_data \<Rightarrow> string" where
  "ed_type (EdIssue r) = ''issue''"
| "ed_type (EdStartup r) = ''startup''"
| "ed_type (EdCrash ps ns) = ''crash''"
| "ed_type (EdResource v k ns n) = ''resource''"
| "ed_type (EdLogs p c ns prev) = ''logs''"
| "ed_type (EdEvents es) = ''events''"
| "ed_type (EdChanges s) = ''changes''"
| "ed_type EdDns = ''dns''"
| "ed_type (EdNetwork r) = ''network''"
| "ed_type (EdRelationships r) = ''relationships''"
| "ed_type EdTopology = ''topology''"
| "ed_type (EdInventory rs) = ''inventory''"
| "ed_type (EdRanking rs) = ''ranking''"
| "ed_type (EdPosture rs) = ''posture''"
| "ed_type EdReceipt = ''receipt''"
| "ed_type (EdAlerts r) = ''alerts''"
| "ed_type (EdHelm st ns n) = ''helm''"
| "ed_type (EdPermissions k ns n) = ''permissions''"
| "ed_type (EdMetrics d s) = ''metrics''"

record case_observation =
  eo_source :: case_source
  eo_revision :: nat
  eo_relevance :: relevance
  eo_data :: ev_data

record case_group =
  eg_id :: string
  eg_identity :: string
  eg_observations :: "case_observation list"
  eg_latest :: case_observation

record case_projection =
  cp_groups :: "case_group list"
  cp_target_pods :: "string list"
  cp_ref_sources :: "case_source list"
  cp_citable :: "case_source list"

section \<open>The resource an observation states\<close>

definition exact_resource_ref :: "ev_ref \<Rightarrow> ev_ref option" where
  "exact_resource_ref r =
     (let tidy = \<lambda>s. trim s = s; grp = (if truthy_str (er_group r) then er_group r else None);
          ns = (if truthy_str (er_namespace r) then er_namespace r else None);
          scopes = set (map ar_namespaced (filter (\<lambda>c. to_lower (ar_kind c) = to_lower (er_kind r)
             \<and> (grp = None \<or> grp = Some (ar_group c))) core_resources))
      in if er_kind r = [] \<or> \<not> tidy (er_kind r) \<or> er_name r = [] \<or> \<not> tidy (er_name r)
            \<or> \<not> tidy (coalesce (er_group r) []) \<or> \<not> tidy (coalesce (er_namespace r) []) then None
         else if scopes = {True} \<and> ns = None then None
         else if scopes = {False} \<and> ns \<noteq> None then None
         else Some \<lparr>er_kind = er_kind r, er_group = grp, er_namespace = ns, er_name = er_name r\<rparr>)"

definition plain_ref_of :: "string \<Rightarrow> string option \<Rightarrow> string option \<Rightarrow> string \<Rightarrow> ev_ref" where
  "plain_ref_of k g ns n = \<lparr>er_kind = k, er_group = g, er_namespace = ns, er_name = n\<rparr>"

fun stated_ref :: "ev_data \<Rightarrow> ev_ref option" where
  "stated_ref (EdIssue r) = Some r"
| "stated_ref (EdStartup r) = r"
| "stated_ref (EdResource v k ns n) =
     Some (plain_ref_of k (let g = api_version_to_group v in if g = [] then None else Some g) ns n)"
| "stated_ref (EdLogs p c ns prev) = (if truthy_str ns then Some (plain_ref_of ''Pod'' None ns p) else None)"
| "stated_ref (EdCrash ps ns) = (case ps of [p] \<Rightarrow> if truthy_str ns then Some (plain_ref_of ''Pod'' None ns p) else None | _ \<Rightarrow> None)"
| "stated_ref (EdNetwork r) = Some r"
| "stated_ref (EdRelationships r) = Some r"
| "stated_ref (EdHelm st ns n) =
     (if st \<noteq> None \<and> st \<noteq> Some ns then None else Some (plain_ref_of ''HelmRelease'' (Some ''helm.sh'') (Some ns) n))"
| "stated_ref (EdPermissions k ns n) = (if k \<noteq> ''ServiceAccount'' then None else Some (plain_ref_of ''ServiceAccount'' None ns n))"
| "stated_ref (EdMetrics d s) = s"
| "stated_ref _ = None"

definition evidence_subject_ref :: "ev_data \<Rightarrow> ev_ref option" where
  "evidence_subject_ref d = Option.bind (stated_ref d) exact_resource_ref"

section \<open>What an observation is about\<close>

record subject_identity =
  id_kind :: string
  id_group :: "string option"
  id_namespace :: "string option"
  id_name :: string
  id_container :: "string option"
  id_stream :: "string option"
  id_listing :: bool

definition plain_identity :: "string \<Rightarrow> string option \<Rightarrow> string option \<Rightarrow> string \<Rightarrow> subject_identity" where
  "plain_identity k g ns n =
     \<lparr>id_kind = k, id_group = g, id_namespace = ns, id_name = n, id_container = None, id_stream = None, id_listing = False\<rparr>"

definition group_known :: "ev_data \<Rightarrow> bool" where
  "group_known d =
     (ed_type d \<in> {''resource'', ''issue'', ''logs'', ''crash'', ''startup'', ''helm'', ''permissions'', ''metrics''})"

definition nonempty_arg :: "case_source \<Rightarrow> string \<Rightarrow> string option" where
  \<comment> \<open>\<open>nonEmptyString(args?.k) ? args.k : undefined\<close>\<close>
  "nonempty_arg s k = (let v = json_str (json_get (cso_args s) k) in if truthy_str v then v else None)"

definition listing_of :: "case_source \<Rightarrow> string list \<Rightarrow> subject_identity option" where
  "listing_of s kinds =
     (case remdups kinds of
        [k] \<Rightarrow> Some ((plain_identity k None (nonempty_arg s ''namespace'') [])\<lparr>id_listing := True\<rparr>)
      | _ \<Rightarrow> None)"

definition args_identity :: "case_source \<Rightarrow> subject_identity option" where
  "args_identity s =
     map_option (\<lambda>k. (plain_identity k (nonempty_arg s ''group'') (nonempty_arg s ''namespace'') (coalesce (nonempty_arg s ''name'') []))
          \<lparr>id_listing := (nonempty_arg s ''name'' = None)\<rparr>) (nonempty_arg s ''kind'')"

definition stated_identity :: "ev_data \<Rightarrow> ev_ref \<Rightarrow> subject_identity" where
  "stated_identity d r =
     (let base = plain_identity (er_kind r) (coalesce_opt (er_group r) (if group_known d then Some [] else None))
            (Some (coalesce (er_namespace r) [])) (er_name r)
      in case d of EdLogs p c ns prev \<Rightarrow> base\<lparr>id_container := c, id_stream := Some (if prev then ''previous'' else ''current'')\<rparr>
         | _ \<Rightarrow> base)"

definition observation_subject_identity :: "case_observation \<Rightarrow> subject_identity option" where
  "observation_subject_identity ob =
     (let d = eo_data ob; src = eo_source ob
      in case evidence_subject_ref d of
           Some r \<Rightarrow> Some (stated_identity d r)
         | None \<Rightarrow>
             (case d of
                EdChanges (Some (k, ns, n)) \<Rightarrow> if truthy_str k then Some (plain_identity (the k) None ns n) else args_identity src
              | EdRanking rows \<Rightarrow> listing_of src (map (er_kind \<circ> ew_ref) rows)
              | EdPosture rows \<Rightarrow> listing_of src (map (er_kind \<circ> ew_ref) rows)
              | EdInventory rows \<Rightarrow> if nonempty_arg src ''kind'' = None then listing_of src (map fst rows) else args_identity src
              | _ \<Rightarrow> args_identity src))"

definition row_key :: "ev_ref \<Rightarrow> string" where
  "row_key r = er_kind r @ ''/'' @ coalesce (er_namespace r) [] @ ''/'' @ er_name r"

fun first_of_key :: "string list \<Rightarrow> ev_ref list \<Rightarrow> ev_ref list" where
  "first_of_key seen [] = []"
| "first_of_key seen (r # rs) = (if row_key r \<in> set seen then first_of_key seen rs else r # first_of_key (row_key r # seen) rs)"

definition row_refs :: "ev_row list \<Rightarrow> ev_ref list" where
  "row_refs rows = first_of_key [] (concat (map (\<lambda>w. ew_ref w # (case ew_owner w of None \<Rightarrow> [] | Some o' \<Rightarrow> [o'])) rows))"

definition observation_identities :: "case_observation \<Rightarrow> subject_identity list" where
  "observation_identities ob =
     (let stated = observation_subject_identity ob; src = eo_source ob
      in (case stated of None \<Rightarrow> [] | Some i \<Rightarrow> [i])
         @ (case eo_data ob of
              EdRanking rows \<Rightarrow> map (\<lambda>r. plain_identity (er_kind r) (er_group r) (Some (coalesce (er_namespace r) [])) (er_name r)) (row_refs rows)
            | EdPosture rows \<Rightarrow> map (\<lambda>r. plain_identity (er_kind r) (er_group r) (Some (coalesce (er_namespace r) [])) (er_name r)) (row_refs rows)
            | EdLogs p c ns prev \<Rightarrow>
                (case (stated, nonempty_arg src ''kind'', nonempty_arg src ''name'') of
                   (Some i, Some k, Some n) \<Rightarrow>
                     [(plain_identity k (nonempty_arg src ''group'') (nonempty_arg src ''namespace'') n)
                        \<lparr>id_container := id_container i, id_stream := id_stream i\<rparr>]
                 | _ \<Rightarrow> [])
            | _ \<Rightarrow> []))"
section \<open>What the agent names\<close>

record case_subject =
  su_kind :: string
  su_name :: "string option"
  su_group :: "string option"
  su_namespace :: "string option"
  su_container :: "string option"
  su_observation :: "string option"
  su_stream :: "string option"

definition optional_text :: "json option \<Rightarrow> bool" where
  "optional_text v = (case v of None \<Rightarrow> True | Some (JStr s) \<Rightarrow> True | _ \<Rightarrow> False)"

definition valid_case_subject :: "json option \<Rightarrow> case_subject option" where
  "valid_case_subject v =
     (let text = \<lambda>k. json_str (json_get v k); stream = json_get v ''stream''
      in if \<not> truthy_str (text ''kind'')
            \<or> \<not> list_all (\<lambda>k. optional_text (json_get v k)) [''name'', ''group'', ''namespace'', ''container'', ''observation'']
            \<or> stream \<notin> {None, Some (JStr ''current''), Some (JStr ''previous'')} then None
         else Some \<lparr>su_kind = the (text ''kind''), su_name = text ''name'', su_group = text ''group'', su_namespace = text ''namespace'',
                    su_container = text ''container'', su_observation = text ''observation'', su_stream = text ''stream''\<rparr>)"

definition legacy_built_in_groups :: "string list" where
  "legacy_built_in_groups = [[], ''core'', ''v1'', ''apps'', ''batch'', ''autoscaling'', ''policy'']"

definition is_built_in_group :: "string \<Rightarrow> bool" where
  "is_built_in_group g = (g \<in> set legacy_built_in_groups \<or> ends_with g ''.k8s.io'')"

definition same_kind :: "nav_state \<Rightarrow> string \<Rightarrow> string \<Rightarrow> bool" where
  "same_kind nav a b = (to_lower (plural_to_kind nav a) = to_lower (plural_to_kind nav b))"

definition listing_row_names_subject :: "nav_state \<Rightarrow> string \<times> string \<Rightarrow> case_subject \<Rightarrow> bool" where
  "listing_row_names_subject nav row su =
     (Some (snd row) = su_name su \<and> (fst row = ''Package'' \<or> same_kind nav (fst row) (su_kind su)))"

definition resource_shaped :: "string list" where
  "resource_shaped = [''resource'', ''inventory'', ''ranking'', ''posture'', ''helm'', ''permissions'', ''topology'', ''relationships'']"

definition pod_name_char :: "char \<Rightarrow> bool" where
  "pod_name_char c =
     (let n = of_char c :: nat in (48 \<le> n \<and> n \<le> 57) \<or> (65 \<le> n \<and> n \<le> 90) \<or> (97 \<le> n \<and> n \<le> 122) \<or> n = 45 \<or> n = 46)"

definition starts_whole :: "string \<Rightarrow> string \<Rightarrow> bool" where
  "starts_whole name text = (prefix name text \<and> (case drop (length name) text of [] \<Rightarrow> True | c # _ \<Rightarrow> \<not> pod_name_char c))"

fun names_pod_after :: "bool \<Rightarrow> string \<Rightarrow> string \<Rightarrow> bool" where
  \<comment> \<open>whether the character before is none of a name\<close>
  "names_pod_after free [] name = (free \<and> name = [])"
| "names_pod_after free (c # cs) name = (free \<and> starts_whole name (c # cs) \<or> names_pod_after (\<not> pod_name_char c) cs name)"

definition names_pod :: "string \<Rightarrow> string \<Rightarrow> bool" where
  "names_pod text name = names_pod_after True text name"

definition namespace_named :: "nav_state \<Rightarrow> subject_identity \<Rightarrow> case_subject \<Rightarrow> bool" where
  "namespace_named nav i su =
     (su_observation su \<noteq> None \<and> same_kind nav (su_kind su) ''Namespace'' \<and> id_namespace i \<noteq> None \<and> id_namespace i = su_name su)"

definition pod_events_named :: "nav_state \<Rightarrow> string list \<Rightarrow> case_observation \<Rightarrow> subject_identity \<Rightarrow> case_subject \<Rightarrow> bool" where
  "pod_events_named nav pods ob i su =
     (case eo_data ob of
        EdEvents messages \<Rightarrow>
          su_observation su \<noteq> None \<and> same_kind nav (su_kind su) ''Pod'' \<and> \<not> same_kind nav (id_kind i) ''Pod''
          \<and> (id_namespace i = None \<or> su_namespace su = None \<or> id_namespace i = su_namespace su)
          \<and> (case su_name su of None \<Rightarrow> True
             | Some n \<Rightarrow> (n \<in> set pods \<and> eo_relevance ob \<noteq> RelBroader) \<or> list_ex (\<lambda>m. names_pod m n) messages)
      | _ \<Rightarrow> False)"

definition group_conflicts :: "subject_identity \<Rightarrow> case_subject \<Rightarrow> bool" where
  "group_conflicts i su =
     (case (su_group su, id_group i) of
        (Some a, Some b) \<Rightarrow> to_lower a \<noteq> to_lower b \<and> \<not> (b = [] \<and> is_built_in_group (to_lower a))
      | _ \<Rightarrow> False)"

definition names_held_entry :: "nav_state \<Rightarrow> case_observation \<Rightarrow> subject_identity \<Rightarrow> case_subject \<Rightarrow> bool" where
  "names_held_entry nav ob i su =
     (id_listing i \<and> (case eo_data ob of EdInventory rows \<Rightarrow> list_ex (\<lambda>r. listing_row_names_subject nav r su) rows | _ \<Rightarrow> False))"

definition names_declared_package :: "nav_state \<Rightarrow> case_observation \<Rightarrow> subject_identity \<Rightarrow> case_subject \<Rightarrow> bool" where
  "names_declared_package nav ob i su =
     (names_held_entry nav ob i su \<and> \<not> same_kind nav (su_kind su) ''Package''
      \<and> (case eo_data ob of EdInventory rows \<Rightarrow> list_ex (\<lambda>r. fst r = ''Package'' \<and> listing_row_names_subject nav r su) rows | _ \<Rightarrow> False))"

definition identity_matches_subject ::
    "nav_state \<Rightarrow> string list \<Rightarrow> case_observation \<Rightarrow> case_subject \<Rightarrow> subject_identity \<Rightarrow> bool" where
  "identity_matches_subject nav pods ob su i =
     (if namespace_named nav i su \<or> pod_events_named nav pods ob i su then True
      else if \<not> names_held_entry nav ob i su \<and> \<not> same_kind nav (id_kind i) (su_kind su) then False
      else if \<not> id_listing i \<and> su_name su \<noteq> None \<and> Some (id_name i) \<noteq> su_name su then False
      else if group_conflicts i su then False
      else if \<not> names_declared_package nav ob i su
              \<and> su_namespace su \<noteq> None \<and> id_namespace i \<noteq> None \<and> su_namespace su \<noteq> id_namespace i then False
      else if ed_type (eo_data ob) = ''logs'' \<or> su_observation su = None
      then \<not> (su_container su \<noteq> None \<and> id_container i \<noteq> su_container su) \<and> \<not> (su_stream su \<noteq> None \<and> id_stream i \<noteq> su_stream su)
      else True)"

definition word_excludes :: "case_group \<Rightarrow> case_observation \<Rightarrow> string \<Rightarrow> bool" where
  \<comment> \<open>the word the agent uses for the kind of evidence, with its qualifier, names another\<close>
  "word_excludes g ob w =
     (let parts = split_char (CHR '':'') (to_lower w); word = hd parts;
          qualifier = (case parts of _ # q # _ \<Rightarrow> Some q | _ \<Rightarrow> None);
          kind = (if word = ''issues'' then ''issue'' else word); type = ed_type (eo_data ob)
      in (kind \<noteq> type \<and> \<not> (kind = ''resource'' \<and> type \<in> set resource_shaped))
         \<or> (case (qualifier, eo_data ob) of
              (Some q, EdMetrics from_diagnosis s) \<Rightarrow> from_diagnosis \<and> \<not> ends_with (eg_identity g) ('':'' @ q)
            | _ \<Rightarrow> False))"

definition observation_matches_subject ::
    "nav_state \<Rightarrow> string list \<Rightarrow> bool \<Rightarrow> case_subject \<Rightarrow> case_group \<times> case_observation \<Rightarrow> bool" where
  "observation_matches_subject nav pods sole su produced =
     (let (g, ob) = produced; sole_receipt = (sole \<and> ed_type (eo_data ob) = ''receipt'')
      in if (case su_observation su of None \<Rightarrow> False | Some w \<Rightarrow> \<not> sole_receipt \<and> word_excludes g ob w) then False
         else case (eo_data ob, su_name su) of
                (EdAlerts rule, Some n) \<Rightarrow> rule = n
              | _ \<Rightarrow> (case observation_identities ob of [] \<Rightarrow> su_observation su \<noteq> None
                     | ids \<Rightarrow> list_ex (identity_matches_subject nav pods ob su) ids))"

section \<open>Resolving a case\<close>

record resolved_item =
  ca_index :: nat
  ca_role :: string
  ca_claim :: string
  ca_gap :: "string option"
  ca_subject :: "case_subject option"
  ca_source :: case_source
  ca_placement :: placement
  ca_group :: "string option"
  ca_observation :: "case_observation option"

definition evidence_roles :: "string list" where
  "evidence_roles = [''cause'', ''symptom'', ''context'', ''benign'', ''demoted'', ''rules_out'']"

definition base32_char :: "char \<Rightarrow> bool" where
  "base32_char c = (let n = of_char c :: nat in (97 \<le> n \<and> n \<le> 122) \<or> (50 \<le> n \<and> n \<le> 55))"

definition is_evidence_ref :: "string \<Rightarrow> bool" where
  \<comment> \<open>\<open>/^ev_[a-z2-7]{26,128}_[a-z2-7]{26,128}$/\<close>\<close>
  "is_evidence_ref s =
     (case split_char (CHR ''_'') s of
        [p, a, b] \<Rightarrow> p = ''ev'' \<and> list_all (\<lambda>w. list_all base32_char w \<and> 26 \<le> length w \<and> length w \<le> 128) [a, b]
      | _ \<Rightarrow> False)"

definition sources_of_ref :: "case_projection \<Rightarrow> int \<Rightarrow> string \<Rightarrow> case_source list" where
  \<comment> \<open>what \<open>byRef\<close> holds for a reference\<close>
  "sources_of_ref p turn r = filter (\<lambda>s. cso_turn s \<le> turn \<and> truthy_str (cso_ref s) \<and> cso_ref s = Some r) (cp_ref_sources p)"

definition cited_source_of :: "case_projection \<Rightarrow> int \<Rightarrow> json \<Rightarrow> case_source option" where
  \<comment> \<open>the one source a linked item cites, where there is one that may be cited\<close>
  "cited_source_of p turn entry =
     (let v = Some entry; r = json_str (json_get v ''ref''); role = json_str (json_get v ''role'')
      in if json_get v ''status'' \<noteq> Some (JStr ''linked'') \<or> \<not> truthy_str r \<or> \<not> is_evidence_ref (the r)
            \<or> \<not> truthy_str role \<or> the role \<notin> set evidence_roles then None
         else case sources_of_ref p turn (the r) of
                [s] \<Rightarrow> if cso_id s \<in> cso_id ` set (filter (\<lambda>s. cso_turn s \<le> turn) (cp_citable p)) then Some s else None
              | _ \<Rightarrow> None)"

definition produced_by :: "case_projection \<Rightarrow> case_source \<Rightarrow> (case_group \<times> case_observation) list" where
  "produced_by p s =
     concat (map (\<lambda>g. map (\<lambda>ob. (g, ob)) (filter (\<lambda>ob. cso_id (eo_source ob) = cso_id s) (eg_observations g))) (cp_groups p))"

definition case_candidates ::
    "nav_state \<Rightarrow> case_projection \<Rightarrow> json \<Rightarrow> case_source \<Rightarrow> (case_group \<times> case_observation) list" where
  "case_candidates nav p entry s =
     (let given = json_get (Some entry) ''subject''; subject = valid_case_subject given; produced = produced_by p s
      in case subject of
           Some su \<Rightarrow> filter (observation_matches_subject nav (cp_target_pods p) (length produced = 1) su) produced
         | None \<Rightarrow> if given \<noteq> None then [] else produced)"

definition trimmed_text :: "json option \<Rightarrow> string" where
  "trimmed_text v = trim (coalesce (json_str v) [])"

definition resolve_item :: "nav_state \<Rightarrow> case_projection \<Rightarrow> int \<Rightarrow> nat \<Rightarrow> json \<Rightarrow> resolved_item option" where
  "resolve_item nav p turn index entry =
     map_option (\<lambda>s.
         let v = Some entry; gap = trimmed_text (json_get v ''gap'');
             base = \<lparr>ca_index = index, ca_role = coalesce (json_str (json_get v ''role'')) [], ca_claim = trimmed_text (json_get v ''claim''),
                     ca_gap = (if gap \<noteq> [] then Some gap else None), ca_subject = valid_case_subject (json_get v ''subject''),
                     ca_source = s, ca_placement = PlacedSource, ca_group = None, ca_observation = None\<rparr>
         in case case_candidates nav p entry s of
              [(g, ob)] \<Rightarrow> base\<lparr>ca_group := Some (eg_id g), ca_observation := Some ob,
                              ca_placement := (if ob = eg_latest g then PlacedCard else PlacedRevision)\<rparr>
            | _ \<Rightarrow> base)
       (cited_source_of p turn entry)"

definition resolve_items :: "nav_state \<Rightarrow> case_projection \<Rightarrow> int \<Rightarrow> json list \<Rightarrow> resolved_item list" where
  "resolve_items nav p turn entries = List.map_filter (\<lambda>(i, e). resolve_item nav p turn i e) (enumerate 0 entries)"

definition rule_out ::
    "resolved_item list \<Rightarrow> json \<Rightarrow> (int \<times> string) list \<times> (string \<times> resolved_item) list \<Rightarrow> (int \<times> string) list \<times> (string \<times> resolved_item) list" where
  "rule_out items entry acc =
     (let (seen, out) = acc; hypothesis = trimmed_text (json_get (Some entry) ''hypothesis'')
      in case json_get (Some entry) ''evidenceIndex'' of
           Some (JNum n) \<Rightarrow>
             (case List.find (\<lambda>it. int (ca_index it) = n) items of
                Some it \<Rightarrow>
                  if hypothesis = [] \<or> ca_placement it = PlacedSource \<or> (n, hypothesis) \<in> set seen then acc
                  else ((n, hypothesis) # seen, out @ [(hypothesis, it)])
              | None \<Rightarrow> acc)
         | _ \<Rightarrow> acc)"

definition resolve_case :: "nav_state \<Rightarrow> case_projection \<Rightarrow> json list \<Rightarrow> json list \<Rightarrow> int \<Rightarrow> resolved_item list \<times> (string \<times> resolved_item) list" where
  \<comment> \<open>the evidence and the ruled-out hypotheses of the diagnosis, as parsed\<close>
  "resolve_case nav p entries ruled_out turn =
     (if entries = [] then ([], [])
      else let items = resolve_items nav p turn entries in (items, snd (fold (rule_out items) ruled_out ([], []))))"
section \<open>A claim rests on one observation\<close>

lemma cited_source_of_Some:
  assumes "cited_source_of p turn entry = Some s"
  shows "sources_of_ref p turn (the (cso_ref s)) = [s]" and "cso_turn s \<le> turn" and "truthy_str (cso_ref s)"
    and "json_str (json_get (Some entry) ''ref'') = cso_ref s"
    and "\<exists>c\<in>set (cp_citable p). cso_id c = cso_id s \<and> cso_turn c \<le> turn"
proof -
  let ?r = "json_str (json_get (Some entry) ''ref'')"
  have one: "sources_of_ref p turn (the ?r) = [s]" and ref: "truthy_str ?r"
    and citable: "cso_id s \<in> cso_id ` set (filter (\<lambda>s. cso_turn s \<le> turn) (cp_citable p))"
    using assms by (auto simp: cited_source_of_def Let_def split: if_splits list.splits)
  then have "s \<in> set (sources_of_ref p turn (the ?r))" by simp
  then have s: "cso_turn s \<le> turn" "truthy_str (cso_ref s)" "cso_ref s = Some (the ?r)" by (auto simp: sources_of_ref_def)
  then show "cso_turn s \<le> turn" "truthy_str (cso_ref s)" "sources_of_ref p turn (the (cso_ref s)) = [s]" using one by simp_all
  show "?r = cso_ref s" using s(3) ref by (cases ?r) simp_all
  show "\<exists>c\<in>set (cp_citable p). cso_id c = cso_id s \<and> cso_turn c \<le> turn" using citable by auto
qed

lemma candidates_produced: "set (case_candidates nav p entry s) \<subseteq> set (produced_by p s)"
  by (auto simp: case_candidates_def Let_def split: option.splits if_splits)

lemma in_produced_by:
  "(g, ob) \<in> set (produced_by p s) \<longleftrightarrow> g \<in> set (cp_groups p) \<and> ob \<in> set (eg_observations g) \<and> cso_id (eo_source ob) = cso_id s"
  by (auto simp: produced_by_def)

definition rests_on :: "nav_state \<Rightarrow> case_projection \<Rightarrow> json \<Rightarrow> resolved_item \<Rightarrow> bool" where
  \<comment> \<open>the item is pinned to the only observation its reference and its subject leave, or to none\<close>
  "rests_on nav p entry it =
     (case ca_observation it of
        None \<Rightarrow> ca_placement it = PlacedSource \<and> ca_group it = None \<and> length (case_candidates nav p entry (ca_source it)) \<noteq> 1
      | Some ob \<Rightarrow> list_ex (\<lambda>g. ca_group it = Some (eg_id g) \<and> ob \<in> set (eg_observations g) \<and> cso_id (eo_source ob) = cso_id (ca_source it)
            \<and> case_candidates nav p entry (ca_source it) = [(g, ob)]
            \<and> ca_placement it = (if ob = eg_latest g then PlacedCard else PlacedRevision)) (cp_groups p))"

lemma resolve_item_Some:
  assumes "resolve_item nav p turn i entry = Some it"
  shows "ca_index it = i" and "cited_source_of p turn entry = Some (ca_source it)" and "rests_on nav p entry it"
proof -
  obtain s where s: "cited_source_of p turn entry = Some s" using assms by (auto simp: resolve_item_def)
  show "ca_index it = i" "cited_source_of p turn entry = Some (ca_source it)"
    using assms s by (auto simp: resolve_item_def Let_def split: list.splits)
  show "rests_on nav p entry it"
  proof (cases "\<exists>g ob. case_candidates nav p entry s = [(g, ob)]")
    case True
    then obtain g ob where one: "case_candidates nav p entry s = [(g, ob)]" by blast
    then have "(g, ob) \<in> set (produced_by p s)" using candidates_produced [of nav p entry s] by auto
    then show ?thesis
      using assms s one by (auto simp: resolve_item_def Let_def rests_on_def in_produced_by list_ex_iff)
  next
    case False
    then have many: "length (case_candidates nav p entry s) \<noteq> 1" by (auto simp: length_Suc_conv)
    have "ca_placement it = PlacedSource \<and> ca_group it = None \<and> ca_observation it = None \<and> ca_source it = s"
      using assms s False by (auto simp: resolve_item_def Let_def split: list.splits)
    then show ?thesis using many by (simp add: rests_on_def)
  qed
qed

lemma in_resolve_items:
  assumes "it \<in> set (resolve_items nav p turn entries)"
  shows "ca_index it < length entries" and "resolve_item nav p turn (ca_index it) (entries ! ca_index it) = Some it"
proof -
  obtain i e where ie: "(i, e) \<in> set (enumerate 0 entries)" and it: "resolve_item nav p turn i e = Some it"
    using assms by (auto simp: resolve_items_def map_filter_def)
  have "i < length entries" "e = entries ! i" using ie by (auto simp: in_set_enumerate_eq)
  then show "ca_index it < length entries" "resolve_item nav p turn (ca_index it) (entries ! ca_index it) = Some it"
    using it resolve_item_Some(1) [OF it] by simp_all
qed

text \<open>
  C10. A claim of the agent rests on one result: each item that survives cites a reference that exactly one
  result of the run up to the assessment carries, and is pinned to an observation only where that reference
  and the subject the agent named leave exactly one, made by that very call; it heads its card only if that
  observation is the one the card shows.
\<close>
theorem claims_rest_on_one_observation:
  assumes "it \<in> set (fst (resolve_case nav p entries ruled_out turn))"
  shows "ca_index it < length entries
    \<and> json_str (json_get (Some (entries ! ca_index it)) ''ref'') = cso_ref (ca_source it)
    \<and> sources_of_ref p turn (the (cso_ref (ca_source it))) = [ca_source it]
    \<and> cso_turn (ca_source it) \<le> turn
    \<and> rests_on nav p (entries ! ca_index it) it"
proof -
  have "it \<in> set (resolve_items nav p turn entries)" using assms by (simp add: resolve_case_def Let_def split: if_splits)
  note here = in_resolve_items [OF this]
  note item = resolve_item_Some [OF here(2)]
  show ?thesis using here(1) item(3) cited_source_of_Some [OF item(2)] by simp
qed

definition example_case_ref :: string where
  "example_case_ref = ''ev_'' @ replicate 26 (CHR ''a'') @ ''_'' @ replicate 26 (CHR ''b'')"

definition example_case_source :: case_source where
  "example_case_source = \<lparr>cso_id = ''turn-0-step-1'', cso_turn = 0, cso_ref = Some example_case_ref, cso_args = None\<rparr>"

definition example_case_observation :: case_observation where
  "example_case_observation = \<lparr>eo_source = example_case_source, eo_revision = 0, eo_relevance = RelTarget, eo_data = EdDns\<rparr>"

definition example_case_projection :: case_projection where
  "example_case_projection =
     \<lparr>cp_groups = [\<lparr>eg_id = ''g'', eg_identity = ''dns'', eg_observations = [example_case_observation], eg_latest = example_case_observation\<rparr>],
      cp_target_pods = [], cp_ref_sources = [example_case_source], cp_citable = [example_case_source]\<rparr>"

definition example_case_entry :: json where
  "example_case_entry = JObj [(''status'', JStr ''linked''), (''ref'', JStr example_case_ref), (''role'', JStr ''cause''), (''claim'', JStr ''DNS fails'')]"

lemma example_case_ref_ok: "is_evidence_ref example_case_ref" "example_case_ref \<noteq> []"
  by code_simp+

lemma claims_rest_on_one_observation_witness:
  "\<exists>it. fst (resolve_case initial_nav_state example_case_projection [example_case_entry] [] 0) = [it]
     \<and> ca_placement it = PlacedCard \<and> cso_turn (ca_source it) \<le> 0 \<and> rests_on initial_nav_state example_case_projection example_case_entry it"
proof -
  have "cited_source_of example_case_projection 0 example_case_entry = Some example_case_source"
    by (simp add: cited_source_of_def example_case_entry_def example_case_projection_def example_case_source_def sources_of_ref_def
        example_case_ref_ok evidence_roles_def json_get_def json_str_def Let_def)
  moreover have "json_get (Some example_case_entry) ''subject'' = None" by (simp add: example_case_entry_def json_get_def)
  ultimately obtain it where it: "resolve_item initial_nav_state example_case_projection 0 0 example_case_entry = Some it"
    and card: "ca_placement it = PlacedCard"
    by (simp add: resolve_item_def case_candidates_def valid_case_subject_def produced_by_def example_case_projection_def
        example_case_observation_def example_case_source_def Let_def json_get_def json_str_def)
  have items: "fst (resolve_case initial_nav_state example_case_projection [example_case_entry] [] 0) = [it]"
    by (simp add: resolve_case_def resolve_items_def it map_filter_simps)
  have "it \<in> set (fst (resolve_case initial_nav_state example_case_projection [example_case_entry] [] 0))" by (simp add: items)
  from claims_rest_on_one_observation [OF this] show ?thesis using items card resolve_item_Some(1) [OF it] by simp
qed

section \<open>Ruled-out hypotheses\<close>

definition ruled_out_ok :: "resolved_item list \<Rightarrow> (int \<times> string) list \<times> (string \<times> resolved_item) list \<Rightarrow> bool" where
  "ruled_out_ok items acc =
     (set (fst acc) = (\<lambda>(h, it). (int (ca_index it), h)) ` set (snd acc)
      \<and> distinct (map (\<lambda>(h, it). (int (ca_index it), h)) (snd acc))
      \<and> (\<forall>(h, it)\<in>set (snd acc). h \<noteq> [] \<and> it \<in> set items \<and> ca_placement it \<noteq> PlacedSource))"

lemma rule_out_ok: "ruled_out_ok items acc \<Longrightarrow> ruled_out_ok items (rule_out items entry acc)"
proof -
  assume ok: "ruled_out_ok items acc"
  obtain seen out where acc: "acc = (seen, out)" by (cases acc)
  let ?h = "trimmed_text (json_get (Some entry) ''hypothesis'')"
  show ?thesis
  proof (cases "\<exists>it n. json_get (Some entry) ''evidenceIndex'' = Some (JNum n) \<and> List.find (\<lambda>it. int (ca_index it) = n) items = Some it
       \<and> ?h \<noteq> [] \<and> ca_placement it \<noteq> PlacedSource \<and> (n, ?h) \<notin> set seen")
    case False
    then have "rule_out items entry acc = acc"
      by (auto simp: rule_out_def acc Let_def split: option.split json.split)
    then show ?thesis using ok by simp
  next
    case True
    then obtain it n where it: "json_get (Some entry) ''evidenceIndex'' = Some (JNum n)" "List.find (\<lambda>it. int (ca_index it) = n) items = Some it"
      "?h \<noteq> []" "ca_placement it \<noteq> PlacedSource" "(n, ?h) \<notin> set seen" by blast
    have n: "int (ca_index it) = n" "it \<in> set items" using find_some_in [OF it(2)] by simp_all
    have "rule_out items entry acc = ((n, ?h) # seen, out @ [(?h, it)])" using it by (simp add: rule_out_def acc Let_def)
    moreover have "(int (ca_index it), ?h) \<notin> (\<lambda>(h, it). (int (ca_index it), h)) ` set out"
      using ok it(5) n(1) by (simp add: ruled_out_ok_def acc)
    ultimately show ?thesis using ok it(3,4) n by (auto simp: ruled_out_ok_def acc)
  qed
qed

lemma fold_rule_out_ok: "ruled_out_ok items acc \<Longrightarrow> ruled_out_ok items (fold (rule_out items) entries acc)"
  by (induction entries arbitrary: acc) (simp_all add: rule_out_ok)

text \<open>
  A hypothesis is shown as ruled out only by a claim that is pinned to an observation, and never twice by the
  same one.
\<close>
theorem ruled_out_by_pinned_claims:
  "(let (items, out) = resolve_case nav p entries ruled_out turn
    in distinct (map (\<lambda>(h, it). (ca_index it, h)) out)
       \<and> list_all (\<lambda>(h, it). h \<noteq> [] \<and> it \<in> set items \<and> ca_observation it \<noteq> None) out)"
proof (cases "entries = []")
  case True
  then show ?thesis by (simp add: resolve_case_def)
next
  case False
  let ?items = "resolve_items nav p turn entries" and ?out = "snd (fold (rule_out (resolve_items nav p turn entries)) ruled_out ([], []))"
  have ok: "ruled_out_ok ?items (fold (rule_out ?items) ruled_out ([], []))" by (rule fold_rule_out_ok) (simp add: ruled_out_ok_def)
  have pinned: "ca_observation it \<noteq> None" if "it \<in> set ?items" "ca_placement it \<noteq> PlacedSource" for it
    using resolve_item_Some(3) [OF in_resolve_items(2) [OF that(1)]] that(2) by (auto simp: rests_on_def split: option.splits)
  have "map (\<lambda>(h, it). (int (ca_index it), h)) ?out = map (\<lambda>(i, h). (int i, h)) (map (\<lambda>(h, it). (ca_index it, h)) ?out)"
    by (simp add: split_beta comp_def)
  then have "distinct (map (\<lambda>(i, h). (int i, h)) (map (\<lambda>(h, it). (ca_index it, h)) ?out))" using ok by (simp only: ruled_out_ok_def)
  then have "distinct (map (\<lambda>(h, it). (ca_index it, h)) ?out)" by (rule distinct_map [THEN iffD1, THEN conjunct1])
  moreover have "list_all (\<lambda>(h, it). h \<noteq> [] \<and> it \<in> set ?items \<and> ca_observation it \<noteq> None) ?out"
    using ok pinned by (fastforce simp: ruled_out_ok_def list_all_iff)
  ultimately show ?thesis using False by (simp add: resolve_case_def Let_def)
qed

end
