(* ===== verification/Spec2Isabelle.thy ===== *)
theory Spec2Isabelle
  imports Radar_Prelude Gitops_Write_Guard Gitops_Tree Api_Resources Navigation Topology_Neighborhood
    Cnpg_Operations Cnpg_Store Text_Decoding Timeline_Sync History_Paging Filter_State Scrubber_Math Log_Buffer Log_Records
    Workload_Rollout Parent_Forest Resource_Hierarchy Hierarchy_Events Hierarchy_Pins
    Grouped_Rows Applications Application_List Investigation Apply_Protocol
    Keyed_Maps Traffic_Flows Traffic_Selection Traffic_View
    Reach_Trace Reach_Verdict Workflow_Graph Workflow_Execution Cnpg_Backup Cnpg_Restore Cnpg_Recovery
    Event_Stream Evidence_Partition Evidence_Case
begin

text \<open>
  Radar's decision logic, modelled and verified: the parts of the web client that decide what a user
  is told about a Kubernetes cluster and what a write may do to it.

  \<^bold>\<open>The program.\<close> Radar (\<open>src/\<close>) is a Go server that watches clusters and a TypeScript client
  (\<open>packages/k8s-ui/src\<close>, the shared components, and \<open>web/src\<close>, the application). The client
  fetches resources, events and topology, and its pure modules compute from them what the views show.
  Those modules are the subject here. They interact as follows: discovery (\<open>api-resources.ts\<close>)
  fills the tables of \<open>navigation.ts\<close>, through which every link, plural and timeline lane id goes;
  the topology graph is cut down to a workload's neighborhood before it is drawn; GitOps trees of
  several clusters are merged, ranked and filtered, and a write to an object that a GitOps controller
  owns first passes the write guard; CloudNativePG operations are tracked in a store, advanced by
  observers over what was read since the request, and a restore is planned from what its Clusters and
  Backups declare; the timeline keeps a ring of events in step with the server by deltas, and a workload's
  history pages that log backwards. The traffic map filters and merges the flows the server reports, down
  to the edges that are drawn and the records that belong to a selected one; a trace of a network path is
  summed up in one verdict line; the status of an Argo workflow becomes a tree of steps.

  \<^bold>\<open>The theories.\<close>

  \<^item> \<open>Radar_Prelude\<close>: JavaScript values and library operations (optional values, ordered sets and
    maps, the stable sort with its contract as the locale \<open>js_comparator\<close>, strings, JSON values) and
    the types several components share.
  \<^item> \<open>Gitops_Write_Guard\<close> (\<open>gitops-write-guard.ts\<close>, \<open>gitops-ownership\<close>): the levels, the
    evidence, one function per write scope, the guard and its confirmation.
  \<^item> \<open>Gitops_Tree\<close> (\<open>types/gitops-tree.ts\<close>, \<open>components/gitops/tree/\<close>): the merge in its three passes,
    the ranks with the loop bounds of the code, upstream closure, dependency edges and filters.
  \<^item> \<open>Api_Resources\<close> (\<open>utils/api-resources.ts\<close>, \<open>utils/pluralize.ts\<close>): the built-in resources, the
    sidebar's categories and the display names of API groups.
  \<^item> \<open>Navigation\<close> (\<open>utils/navigation.ts\<close>): the discovery tables as a state that one fold fills, the
    lookups over them, references, lane ids.
  \<^item> \<open>Topology_Neighborhood\<close> (\<open>utils/topology-neighborhood.ts\<close>): seeds, fan-out limits, the walk, the
    ownership colours.
  \<^item> \<open>Cnpg_Operations\<close> (\<open>cnpg/operations/model.ts\<close>, \<open>ha.ts\<close>, \<open>grant.ts\<close>): one observer per kind of
    operation, the freshness rule, the judge.
  \<^item> \<open>Cnpg_Store\<close> (\<open>cnpg/operations/store.ts\<close>, \<open>presentation.ts\<close>): the store as a transition system.
  \<^item> \<open>Text_Decoding\<close>: the streaming UTF-8 decoder (\<open>TextDecoder\<close>) the stream reader uses, byte by byte, and the
    encoding of code points it is measured by.
  \<^item> \<open>Timeline_Sync\<close> (\<open>api/client.ts\<close>, \<open>api/timelineSource.ts\<close>): the delta cursor and merge, the NDJSON
    reader, the ring fetch and its window predicate, the filters and the local overview.
  \<^item> \<open>History_Paging\<close> (\<open>workload/historyPaging.ts\<close>): the folding rules and the hook as a transition
    system.
  \<^item> \<open>Filter_State\<close> (\<open>filter-state/filter-state-core.ts\<close>): the schema of a view's filters, and
    decoding, writing and toggling them over the parameters of the URL.
  \<^item> \<open>Scrubber_Math\<close> (\<open>timeline/scrubber-math.ts\<close>): selections, presets, gap bands and buckets over
    rational times.
  \<^item> \<open>Log_Buffer\<close> (\<open>logs/useLogBuffer.ts\<close>): the ring of log lines, its animation frame and its frozen
    view, refined against a log without bounds.
  \<^item> \<open>Log_Records\<close> (\<open>utils/log-level.ts\<close>): which lines continue which record; its regular expressions
    are a datatype with a verified matcher.
  \<^item> \<open>Workload_Rollout\<close> (\<open>utils/workload-rollout.ts\<close>): the activity of a rollout of each kind, its
    levels, and the failure of its new Pods.
  \<^item> \<open>Parent_Forest\<close>: the forest that acyclic parent links make of a list of ids, as the locale
    \<open>parent_forest\<close> (every id is below exactly one top; sums over subtrees add up to the sum over ids).
  \<^item> \<open>Resource_Hierarchy\<close> (\<open>utils/resource-hierarchy.ts\<close>): timeline events to lanes, lanes to a forest
    by owners, topology, GitOps contracts and labels, and roots to applications; what the rows paint.
    It interprets \<open>parent_forest\<close> on the links of a hierarchy. \<open>Hierarchy_Events\<close> holds its lemmas.
  \<^item> \<open>Grouped_Rows\<close>: folding a list into groups at the place of their first members, as the locale
    \<open>grouped_fold\<close>; the timeline's application headers and the application list both interpret it.
  \<^item> \<open>Hierarchy_Pins\<close> (the end of the same file): pin records, their resolution, extraction and removal.
  \<^item> \<open>Applications\<close> (\<open>utils/applications.ts\<close>): the rows of applications, their environments, versions,
    groups, health and batch work, and the membership index the timeline joins on. \<open>Application_List\<close>
    holds the lemmas.
  \<^item> \<open>Investigation\<close> (\<open>diagnose/investigationState.ts\<close>): which turn is the assessment, what contradicts a
    healthy verdict, what the evidence is projected from, and what a run's end is shown as.
  \<^item> \<open>Apply_Protocol\<close> (\<open>diagnose/InvestigationView.tsx\<close>): applying a fix, as a transition system over the
    operator's actions, the answers to requests and the turns of the stream.

  \<^item> \<open>Keyed_Maps\<close>: loops that file elements into a \<open>Map\<close> under a key, as the locale
    \<open>keyed_accumulation\<close>. The traffic map's merged services, collapsed internet edges, endpoints and
    namespaces interpret it.
  \<^item> \<open>Traffic_Flows\<close> and \<open>Traffic_Selection\<close> (\<open>traffic/trafficFilters.ts\<close>): flows and their figures, the merge
    of edges drawn as one (each figure is an interpretation of the locale \<open>additive_figure\<close>), the records of a
    call; selections, the focus in the URL, the endpoints and namespaces a view can be narrowed to.
  \<^item> \<open>Traffic_View\<close> (\<open>traffic/TrafficView.tsx\<close>): what its memos compute, from the server's flows to the edges
    that are drawn and the figures beside the map.
  \<^item> \<open>Reach_Trace\<close> and \<open>Reach_Verdict\<close> (\<open>trace/types.ts\<close>, \<open>trace/reachVerdict.ts\<close>): a trace of a network path
    as the client reads it, and its verdict: front door, worst finding, backend, routes, and the floor below
    which no verdict may claim.
  \<^item> \<open>Workflow_Graph\<close> and \<open>Workflow_Execution\<close> (\<open>utils/workflow-execution.ts\<close>): the nodes and edges of a
    workflow's status, the presentation graph without groups of one step, rows, counts, focus paths,
    activity and template references.
  \<^item> \<open>Cnpg_Backup\<close> (\<open>utils/cnpg-backup.ts\<close>, \<open>utils/url-path.ts\<close>, \<open>cnpg/relations.ts\<close>): what a Cluster declares
    for its backups, and which Cluster and archive a Backup belongs to.
  \<^item> \<open>Cnpg_Restore\<close> and \<open>Cnpg_Recovery\<close> (\<open>cnpg/recovery/restoreModel.ts\<close>): the sources of a restore and the
    manifest of the new Cluster; the evidence for how far an archive reaches, whether there is anything to
    restore from, where a running restore stands and what is left to do.

  \<^item> \<open>Event_Stream\<close> (\<open>hooks/useEventSource.ts\<close>): the live stream of topologies and events as a transition system
    over messages, timers and effects: backoff, the throttle of topologies, a change of context or view.
  \<^item> \<open>Evidence_Partition\<close> (\<open>diagnose/investigationEvidencePartition.ts\<close>): where each group of evidence is shown or
    why it is withheld, the order of the cards, and the earlier observations that keep a row.
  \<^item> \<open>Evidence_Case\<close> (\<open>diagnose/investigationCase.ts\<close>, parts of \<open>investigationEvidence/\<close>): which observation each
    claim of the agent is pinned to, and which hypotheses its claims rule out.

  Within a theory the definitions come in the order of the code, one per function, under its name in
  underscores; long functions are cut at their loops and branches, each piece mapped to its lines.

  \<^bold>\<open>Conventions.\<close> \<open>undefined\<close> and \<open>null\<close> are \<open>None\<close>; errors are \<open>Inl\<close>; strings are lists of
  the bytes of their text in UTF-8, white space is that of JavaScript (\<open>trim\<close>), letter case that of ASCII;
  whole numbers are \<open>nat\<close> or \<open>int\<close>, and the times of the scrubber and the figures of traffic are rational,
  where the code has floating point: no rounding of it is claimed. \<open>JSON.parse\<close>, \<open>Date.parse\<close>, the \<open>URL\<close>
  constructor, \<open>localeCompare\<close> and the server are arguments; where a
  statement needs something of them it says so as a hypothesis (a comparator that is a total preorder,
  dates that parse).

  \<^bold>\<open>Loops and bounds.\<close> A loop with a bound in the code keeps it: \<open>rankTree\<close>'s \<open>limit * 8 + 64\<close>
  iterations and its passes, the ten delta pages, the caps of the fan-out. The walk of the
  neighborhood and those over the steps of a workflow (depth first over rows, through steps left out, up
  the lineage) have none in the code; they are functions with termination proofs, whose measure counts the
  ids not seen yet, so that cyclic data ends them too. Nothing else needs fuel: recursion is structural or
  by a measure.

  \<^bold>\<open>What the lemmas show.\<close> The guard: a write is let through without acknowledgment exactly when each
  of its paths is excused by evidence, never by its absence. The tree: merging keeps nodes apart and
  edges sound and complete; the ranks agree with the upstream closure within their bounds. The
  catalogue and navigation: no custom resource is lost or takes over a core name, and kinds, plurals
  and lane ids round-trip. The neighborhood: closed under its rules, never bridging two workloads
  through a shared resource; colours only where ownership is exclusive. CloudNativePG: stale reads
  never decide, a switchover is completed on evidence alone, what cannot be observed is let go after fifteen
  minutes unless the identity of its Cluster is being checked; the store stays bounded, is saved by every
  operation that changes it when storage is available, and supersedes exactly what is moot. The timeline: the reader is independent of
  chunking, inside a character too, decodes UTF-8 text faithfully, and returns a window exactly when every
  line is readable and the last terminal record is an end; the cursor covers what was received; the
  ring is never cut silently and declines a fetch only when it can answer; paging leaves no gap and
  never mixes workloads. Views: filters written to the URL read back and leave the others alone; a
  clamped selection is usable and merged gaps cover the same time; the log buffer is the newest part of
  the whole log under any interleaving of its operations; each log line belongs to one record of its
  source; the timeline hierarchy keeps every event, its visible rows paint each exactly once, a lane
  joins an application by name only when that is certain, and pins of depth two at most move their rows;
  folding the application list into groups keeps every entry, its membership index is exact, a lag
  message names a real lag. Investigations: a fix is offered only for an assessment no earlier write of the
  view or turn of the run has used up, and a verdict is called explained only where every contradicting
  card is; a rollout is called healthy exactly when it is complete, and a failing new Pod is not hidden
  once the change is no longer being applied. Traffic:
  merging edges depends on the order of the flows in nothing that is drawn, loses no traffic, and survives a
  refresh. Traces: a green mark needs positive proof, a red one a confirmed failure, and the mark agrees with
  the tone. Workflows: the shown tree is the visible part of the status, its rows show each step once even on
  cyclic data, the edges are those the status declares, and every failure with a
  message is told by an item of the activity, where the step that speaks for it has a finish time.
  Restores: the new Cluster archives nowhere until it is told to, recovers from the base backup and to the
  moment that were asked for, and never starts another major version over the files of a backup; that there
  is nothing to restore is said only where everything was read; a moment passes without a warning exactly
  within the evidence; a completed restore is not reopened while its recovery Jobs and source stay on record.
  The live stream: on one connection and context no topology is lost to the throttle, from a state that holds
  none back and whose throttle handle no cleanup has cleared; around a change of context or view the theorems show what is (a topology
  of the old context is drawn over the new one, and the throttle's timer is disabled for good). Evidence:
  every group is placed or withheld, the withheld ones are counted unless they are from before a verification,
  and nothing the agent reports removes one; its claims are
  pinned to an observation only where exactly one is meant, read no later than the assessment.

  \<^bold>\<open>Not modelled.\<close> Rendering (JSX, layout, the React hooks around the modelled functions), the API
  client's requests, the Go server, styling, build scripts and vendored code. React is reduced to
  steps: a state update and the render it causes are one step, and effects run with the render that
  triggers them.
\<close>

end
